(* ===== verification/Prelude.thy ===== *)
theory Prelude
  imports Main "HOL-Library.Word" "HOL-Library.Monad_Syntax"
begin

text \<open>
  The vocabulary the component theories share: the fixed-width integer types of
  \<^verbatim>\<open>src/src/common/common_types.h\<close>, the reading of a failed \<^verbatim>\<open>ASSERT\<close> of
  \<^verbatim>\<open>src/src/common/assert.h\<close> as the value \<open>None\<close>, the collections of facts the component
  proofs are driven by, and generic lemmas on lists and words.
\<close>

unbundle bit_operations_syntax

section \<open>Types of common\_types.h\<close>

type_synonym u8 = "8 word"
type_synonym u16 = "16 word"
type_synonym u32 = "32 word"
type_synonym u64 = "64 word"
type_synonym VAddr = "32 word"
type_synonym PAddr = "32 word"

text \<open>
  A C++ computation that may stop in a failed \<^verbatim>\<open>ASSERT\<close>, \<^verbatim>\<open>UNREACHABLE\<close> or an
  access the language leaves undefined is an \<open>option\<close>: \<open>None\<close> is the run that does not go on.
\<close>

type_synonym 'a run = "'a option"

definition ASSERT :: "bool \<Rightarrow> unit run" where
  "ASSERT b = (if b then Some () else None)"

named_theorems wp_simps \<open>equations that run one step of an option-valued operation\<close>
named_theorems inv_intros \<open>preservation of a component's invariant by one operation\<close>
named_theorems bit_field_simps \<open>bits of formatted and extracted bit fields\<close>

lemma ASSERT_simps [simp, wp_simps]:
  "ASSERT True = Some ()" "ASSERT False = None"
  by (simp_all add: ASSERT_def)

lemma ASSERT_eq_Some [simp]: "ASSERT b = Some u \<longleftrightarrow> b"
  by (simp add: ASSERT_def)

lemma ASSERT_bind_eq_Some [simp]: "(ASSERT b \<bind> f) = Some r \<longleftrightarrow> b \<and> f () = Some r"
  by (simp add: ASSERT_def)

section \<open>32-bit arithmetic on numbers\<close>

text \<open>
  Addresses and sizes whose order matters more than their bits are kept as \<open>nat\<close> below \<open>2\<^sup>3\<^sup>2\<close>,
  with the wrap-around of \<^verbatim>\<open>u32\<close> addition and subtraction written out.
\<close>

definition add32 :: "nat \<Rightarrow> nat \<Rightarrow> nat" where
  "add32 a b = (a + b) mod 2 ^ 32"

definition sub32 :: "nat \<Rightarrow> nat \<Rightarrow> nat" where
  "sub32 a b = (a + (2 ^ 32 - b)) mod 2 ^ 32"

lemma add32_small: "a + b < 2 ^ 32 \<Longrightarrow> add32 a b = a + b"
  by (simp add: add32_def)

lemma sub32_small:
  assumes "b \<le> a" "a < 2 ^ 32"
  shows "sub32 a b = a - b"
proof -
  from assms have "a + (2 ^ 32 - b) = (a - b) + 2 ^ 32" by simp
  then have "sub32 a b = (a - b) mod 2 ^ 32" by (simp add: sub32_def)
  with assms show ?thesis by simp
qed

section \<open>Signed arithmetic on integers\<close>

text \<open>
  Conversion to the unsigned and signed types of \<open>w\<close> bits (two's complement), and the division of
  C++, which truncates towards zero.
\<close>

definition to_unsigned :: "nat \<Rightarrow> int \<Rightarrow> int" where
  "to_unsigned w x = x mod 2 ^ w"

definition to_signed :: "nat \<Rightarrow> int \<Rightarrow> int" where
  "to_signed w x = (x + 2 ^ (w - 1)) mod 2 ^ w - 2 ^ (w - 1)"

abbreviation to_u64 :: "int \<Rightarrow> int" where "to_u64 \<equiv> to_unsigned 64"
abbreviation to_u32 :: "int \<Rightarrow> int" where "to_u32 \<equiv> to_unsigned 32"
abbreviation to_s64 :: "int \<Rightarrow> int" where "to_s64 \<equiv> to_signed 64"
abbreviation to_s32 :: "int \<Rightarrow> int" where "to_s32 \<equiv> to_signed 32"

definition cdiv :: "int \<Rightarrow> int \<Rightarrow> int" where
  "cdiv a b = sgn a * sgn b * (\<bar>a\<bar> div \<bar>b\<bar>)"

lemma to_unsigned_id: "0 \<le> x \<Longrightarrow> x < 2 ^ w \<Longrightarrow> to_unsigned w x = x"
  by (simp add: to_unsigned_def)

lemma to_signed_id: "0 < w \<Longrightarrow> - (2 ^ (w - 1)) \<le> x \<Longrightarrow> x < 2 ^ (w - 1) \<Longrightarrow> to_signed w x = x"
  by (cases w) (simp_all add: to_signed_def mod_pos_pos_trivial)

lemma to_s64_id: "- (2 ^ 63) \<le> x \<Longrightarrow> x < 2 ^ 63 \<Longrightarrow> to_s64 x = x"
  by (simp add: to_signed_id)

lemma cdiv_pos: "0 \<le> a \<Longrightarrow> 0 < b \<Longrightarrow> cdiv a b = a div b"
  by (cases "a = 0") (simp_all add: cdiv_def)

section \<open>Lists\<close>

lemma remove_from_distinct: "distinct xs \<Longrightarrow> filter (\<lambda>y. y \<noteq> x) xs = remove1 x xs"
  by (simp add: distinct_remove1_removeAll removeAll_filter_not_eq eq_commute)

lemma length_remove1_mem: "x \<in> set xs \<Longrightarrow> length (remove1 x xs) < length xs"
  using length_pos_if_in_set [of x xs] by (simp add: length_remove1)

lemma nth_list_update_if: "xs[i := v] ! j = (if i = j \<and> i < length xs then v else xs ! j)"
  by (cases "i < length xs") (simp_all add: nth_list_update list_update_beyond)

section \<open>Words\<close>

lemma unat_lt_size [simp]: "unat (w :: 'a::len word) < 2 ^ LENGTH('a)"
  by (rule unsigned_less)

lemma word_eqI_bits:
  fixes a b :: "'a::len word"
  assumes "\<And>n. n < LENGTH('a) \<Longrightarrow> bit a n = bit b n"
  shows "a = b"
  by (rule bit_word_eqI) (use assms in simp)

lemma word_bit_bound:
  fixes w :: "'a::len word"
  assumes "unat w < 2 ^ k" "bit w n"
  shows "n < k"
proof -
  have "take_bit k w = w"
    using assms(1) by (metis take_bit_nat_eq_self unsigned_take_bit_eq word_unat_eq_iff)
  then show ?thesis using assms(2) by (metis bit_take_bit_iff)
qed

text \<open>The bits of a number given by its bytes, lowest first.\<close>

lemma bit_horner:
  "bit (horner_sum uint (2 ^ 8) ws :: int) n \<longleftrightarrow> n div 8 < length ws \<and> bit (ws ! (n div 8)) (n mod 8)" for ws :: "u8 list"
proof (induction ws arbitrary: n)
  case Nil
  then show ?case by simp
next
  case (Cons w ws)
  have "horner_sum uint (2 ^ 8) (w # ws) = concat_bit 8 (uint w) (horner_sum uint (2 ^ 8) ws)"
    by (simp add: concat_bit_eq push_bit_eq_mult unsigned_take_bit_eq [symmetric] take_bit_word_eq_self)
  then have b: "bit (horner_sum uint (2 ^ 8) (w # ws) :: int) n \<longleftrightarrow> (if n < 8 then bit w n else bit (horner_sum uint (2 ^ 8) ws :: int) (n - 8))"
    by (auto simp: bit_concat_bit_iff bit_simps)
  show ?case
  proof (cases "n < 8")
    case True
    then show ?thesis using b by simp
  next
    case False
    then have "n div 8 = Suc ((n - 8) div 8)" "n mod 8 = (n - 8) mod 8" by (simp_all add: le_div_geq le_mod_geq)
    then show ?thesis using b False Cons.IH [of "n - 8"] by simp
  qed
qed

section \<open>Values and bytes\<close>

text \<open>The bytes of a value in memory, the lowest first.\<close>

definition to_bytes :: "nat \<Rightarrow> 'a::len word \<Rightarrow> u8 list" where
  "to_bytes n v = map (\<lambda>i. ucast (drop_bit (8 * i) v)) [0 ..< n]"

definition of_bytes :: "u8 list \<Rightarrow> 'a::len word" where
  "of_bytes bs = word_rcat (rev bs)"

lemma of_to_bytes: "LENGTH('a) = 8 * n \<Longrightarrow> of_bytes (to_bytes n (v :: 'a::len word)) = v"
proof (rule bit_word_eqI)
  fix i assume "LENGTH('a) = 8 * n" "i < LENGTH('a)"
  then have "i div 8 < n" "8 * (i div 8) + i mod 8 = i" by auto
  then show "bit (of_bytes (to_bytes n v) :: 'a word) i = bit v i"
    using \<open>i < LENGTH('a)\<close> bit_horner [of "to_bytes n v" i] by (simp add: of_bytes_def word_rcat_def to_bytes_def bit_simps)
qed

lemma length_to_bytes [simp]: "length (to_bytes n v) = n"
  by (simp add: to_bytes_def)

end
