(* ===== verification/Bit_Field.thy ===== *)
theory Bit_Field
  imports Prelude
begin

text \<open>
  \<^verbatim>\<open>BitField<Position, Bits, T>\<close> of \<^verbatim>\<open>src/src/common/bit_field.h\<close>: formatting a value
  into a field, extracting it (zero- or sign-extended), assigning it in place. The storage is a
  word of any width. The lemmas read every operation bit by bit; the laws of one field and of two
  disjoint fields are stated once, in the locales \<open>bit_field\<close> and \<open>disjoint_fields\<close>, and the
  unions of the emulator (result codes, IPC headers and descriptors) are interpretations.
\<close>

unbundle bit_operations_syntax

section \<open>The operations\<close>

text \<open>\<open>mask\<close>: all ones shifted right to \<open>bits\<close> ones, then left to the field's position.\<close>

definition bf_mask :: "nat \<Rightarrow> nat \<Rightarrow> 'a::len word" where
  "bf_mask position bits = push_bit position (drop_bit (LENGTH('a) - bits) (NOT 0))"

definition FormatValue :: "nat \<Rightarrow> nat \<Rightarrow> 'a::len word \<Rightarrow> 'a word" where
  "FormatValue position bits v = push_bit position v AND bf_mask position bits"

definition ExtractValue :: "nat \<Rightarrow> nat \<Rightarrow> 'a::len word \<Rightarrow> 'a word" where
  "ExtractValue position bits storage = drop_bit position (storage AND bf_mask position bits)"

text \<open>The branch of \<^verbatim>\<open>ExtractValue\<close> for a signed underlying type.\<close>

definition ExtractValue_signed :: "nat \<Rightarrow> nat \<Rightarrow> 'a::len word \<Rightarrow> 'a word" where
  "ExtractValue_signed position bits storage =
     (let shift = LENGTH('a) - bits
      in signed_drop_bit shift (push_bit (shift - position) storage))"

definition Assign :: "nat \<Rightarrow> nat \<Rightarrow> 'a::len word \<Rightarrow> 'a word \<Rightarrow> 'a word" where
  "Assign position bits storage v =
     (storage AND NOT (bf_mask position bits)) OR FormatValue position bits v"

section \<open>Bit by bit\<close>

lemma bit_bf_mask [bit_field_simps]:
  assumes "position + bits \<le> LENGTH('a)"
  shows "bit (bf_mask position bits :: 'a::len word) n \<longleftrightarrow> position \<le> n \<and> n < position + bits"
  using assms by (auto simp: bf_mask_def bit_simps)

lemma bit_FormatValue [bit_field_simps]:
  assumes "position + bits \<le> LENGTH('a)"
  shows "bit (FormatValue position bits (v :: 'a::len word)) n
    \<longleftrightarrow> position \<le> n \<and> n < position + bits \<and> bit v (n - position)"
  using assms by (auto simp: FormatValue_def bit_bf_mask bit_simps)

lemma bit_ExtractValue [bit_field_simps]:
  assumes "position + bits \<le> LENGTH('a)"
  shows "bit (ExtractValue position bits (s :: 'a::len word)) n \<longleftrightarrow> n < bits \<and> bit s (position + n)"
  using assms by (auto simp: ExtractValue_def bit_bf_mask bit_simps)

lemma bit_ExtractValue_signed [bit_field_simps]:
  assumes "position + bits \<le> LENGTH('a)" "0 < bits" "n < LENGTH('a)"
  shows "bit (ExtractValue_signed position bits (s :: 'a::len word)) n
    \<longleftrightarrow> bit s (position + min n (bits - 1))"
proof -
  have a: "min (LENGTH('a) - bits + n) (LENGTH('a) - 1) = LENGTH('a) - bits + min n (bits - 1)"
    using assms by (auto simp: min_def)
  show ?thesis
    using assms
    by (auto simp: ExtractValue_signed_def bit_signed_drop_bit_iff bit_push_bit_iff a not_le min_def
        add.commute)
qed

lemma bit_Assign [bit_field_simps]:
  assumes "position + bits \<le> LENGTH('a)"
  shows "bit (Assign position bits (s :: 'a::len word) v) n
    \<longleftrightarrow> (if position \<le> n \<and> n < position + bits then bit v (n - position) else bit s n)"
  using assms by (auto simp: Assign_def bit_bf_mask bit_FormatValue bit_simps bit_imp_le_length
      dest: bit_imp_le_length)

section \<open>One field, and two disjoint fields\<close>

locale bit_field =
  fixes position bits :: nat and wty :: "'a::len itself"
  assumes in_range: "position + bits \<le> LENGTH('a)" and some_bits: "0 < bits"
begin

lemma extract_format: "ExtractValue position bits (FormatValue position bits (v :: 'a word)) = take_bit bits v"
  by (rule bit_word_eqI) (auto simp: bit_field_simps in_range bit_simps)

lemma extract_assign: "ExtractValue position bits (Assign position bits s (v :: 'a word)) = take_bit bits v"
  by (rule bit_word_eqI) (use in_range in \<open>auto simp: bit_field_simps bit_simps\<close>)

lemma assign_extract: "Assign position bits s (ExtractValue position bits (s :: 'a word)) = s"
  by (rule bit_word_eqI) (use in_range in \<open>auto simp: bit_field_simps\<close>)

lemma assign_assign: "Assign position bits (Assign position bits s v) (w :: 'a word) = Assign position bits s w"
  by (rule bit_word_eqI) (use in_range in \<open>auto simp: bit_field_simps\<close>)

lemma extract_bound: "ExtractValue position bits (s :: 'a word) = take_bit bits (ExtractValue position bits s)"
  by (rule bit_word_eqI) (use in_range in \<open>auto simp: bit_field_simps bit_simps\<close>)

lemma unat_extract_less: "unat (ExtractValue position bits (s :: 'a word)) < 2 ^ bits"
proof -
  have "unat (ExtractValue position bits s) = take_bit bits (unat (ExtractValue position bits s))"
    by (metis extract_bound unsigned_take_bit_eq)
  then show ?thesis by (metis take_bit_nat_less_exp)
qed

lemma format_zero: "FormatValue position bits (0 :: 'a word) = 0"
  by (simp add: FormatValue_def)

end

locale disjoint_fields = f: bit_field p1 b1 wty + g: bit_field p2 b2 wty
  for p1 b1 p2 b2 :: nat and wty :: "'a::len itself" +
  assumes disjoint: "p1 + b1 \<le> p2 \<or> p2 + b2 \<le> p1"
begin

lemma extract_other_format: "ExtractValue p1 b1 (FormatValue p2 b2 (v :: 'a word)) = 0"
  by (rule bit_word_eqI)
    (use f.in_range g.in_range disjoint in \<open>auto simp: bit_field_simps\<close>)

lemma extract_other_assign: "ExtractValue p1 b1 (Assign p2 b2 s (v :: 'a word)) = ExtractValue p1 b1 s"
  by (rule bit_word_eqI)
    (use f.in_range g.in_range disjoint in \<open>auto simp: bit_field_simps\<close>)

lemma assign_commute: "Assign p1 b1 (Assign p2 b2 s v) (w :: 'a word) = Assign p2 b2 (Assign p1 b1 s w) v"
  by (rule bit_word_eqI)
    (use f.in_range g.in_range disjoint in \<open>auto simp: bit_field_simps\<close>)

end

lemma ExtractValue_or:
  "ExtractValue p b (x OR y) = ExtractValue p b x OR ExtractValue p b (y :: 'a::len word)"
  by (rule bit_word_eqI) (auto simp: ExtractValue_def bit_simps)

end
