(* ===== verification/Result_Code.thy ===== *)
theory Result_Code
  imports Bit_Field
begin

text \<open>
  \<^verbatim>\<open>src/src/core/hle/result.h\<close> and \<^verbatim>\<open>src/src/core/hle/kernel/errors.h\<close>: the
  enumerations of a CTR-OS error code, the union \<^verbatim>\<open>ResultCode\<close> with its bit fields, the value
  type \<^verbatim>\<open>ResultVal\<close> and the kernel's error constants. An enumerator carries the prefix of its
  enumeration (\<open>ED_\<close>, \<open>EM_\<close>, \<open>ES_\<close>, \<open>EL_\<close>); its number is the \<open>_value\<close> function.
\<close>

unbundle bit_operations_syntax

section \<open>The enumerations\<close>

datatype ErrorDescription =
    ED_Success | ED_InvalidSection | ED_TooLarge | ED_NotAuthorized | ED_AlreadyDone
    | ED_InvalidSize | ED_InvalidEnumValue | ED_InvalidCombination | ED_NoData | ED_Busy
    | ED_MisalignedAddress | ED_MisalignedSize | ED_OutOfMemory | ED_NotImplemented
    | ED_InvalidAddress | ED_InvalidPointer | ED_InvalidHandle | ED_NotInitialized
    | ED_AlreadyInitialized | ED_NotFound | ED_CancelRequested | ED_AlreadyExists
    | ED_OutOfRange | ED_Timeout | ED_InvalidResultValue

primrec ErrorDescription_value :: "ErrorDescription \<Rightarrow> u32" where
  "ErrorDescription_value ED_Success = 0"
| "ErrorDescription_value ED_InvalidSection = 1000"
| "ErrorDescription_value ED_TooLarge = 1001"
| "ErrorDescription_value ED_NotAuthorized = 1002"
| "ErrorDescription_value ED_AlreadyDone = 1003"
| "ErrorDescription_value ED_InvalidSize = 1004"
| "ErrorDescription_value ED_InvalidEnumValue = 1005"
| "ErrorDescription_value ED_InvalidCombination = 1006"
| "ErrorDescription_value ED_NoData = 1007"
| "ErrorDescription_value ED_Busy = 1008"
| "ErrorDescription_value ED_MisalignedAddress = 1009"
| "ErrorDescription_value ED_MisalignedSize = 1010"
| "ErrorDescription_value ED_OutOfMemory = 1011"
| "ErrorDescription_value ED_NotImplemented = 1012"
| "ErrorDescription_value ED_InvalidAddress = 1013"
| "ErrorDescription_value ED_InvalidPointer = 1014"
| "ErrorDescription_value ED_InvalidHandle = 1015"
| "ErrorDescription_value ED_NotInitialized = 1016"
| "ErrorDescription_value ED_AlreadyInitialized = 1017"
| "ErrorDescription_value ED_NotFound = 1018"
| "ErrorDescription_value ED_CancelRequested = 1019"
| "ErrorDescription_value ED_AlreadyExists = 1020"
| "ErrorDescription_value ED_OutOfRange = 1021"
| "ErrorDescription_value ED_Timeout = 1022"
| "ErrorDescription_value ED_InvalidResultValue = 1023"

text \<open>
  \<^verbatim>\<open>enum class ErrorModule : u32\<close>: a value of the enumeration is its number; the table
  lists the enumerators, and the modules the kernel's error codes name have an abbreviation.
\<close>

type_synonym ErrorModule = u32

definition ErrorModule_enumerators :: "(string \<times> ErrorModule) list" where
  "ErrorModule_enumerators =
    [(''Common'', 0), (''Kernel'', 1), (''Util'', 2), (''FileServer'', 3), (''LoaderServer'', 4),
     (''TCB'', 5), (''OS'', 6), (''DBG'', 7), (''DMNT'', 8), (''PDN'', 9), (''GX'', 10),
     (''I2C'', 11), (''GPIO'', 12), (''DD'', 13), (''CODEC'', 14), (''SPI'', 15), (''PXI'', 16),
     (''FS'', 17), (''DI'', 18), (''HID'', 19), (''CAM'', 20), (''PI'', 21), (''PM'', 22),
     (''PM_LOW'', 23), (''FSI'', 24), (''SRV'', 25), (''NDM'', 26), (''NWM'', 27), (''SOC'', 28),
     (''LDR'', 29), (''ACC'', 30), (''RomFS'', 31), (''AM'', 32), (''HIO'', 33),
     (''Updater'', 34), (''MIC'', 35), (''FND'', 36), (''MP'', 37), (''MPWL'', 38), (''AC'', 39),
     (''HTTP'', 40), (''DSP'', 41), (''SND'', 42), (''DLP'', 43), (''HIO_LOW'', 44),
     (''CSND'', 45), (''SSL'', 46), (''AM_LOW'', 47), (''NEX'', 48), (''Friends'', 49),
     (''RDT'', 50), (''Applet'', 51), (''NIM'', 52), (''PTM'', 53), (''MIDI'', 54), (''MC'', 55),
     (''SWC'', 56), (''FatFS'', 57), (''NGC'', 58), (''CARD'', 59), (''CARDNOR'', 60),
     (''SDMC'', 61), (''BOSS'', 62), (''DBM'', 63), (''Config'', 64), (''PS'', 65),
     (''CEC'', 66), (''IR'', 67), (''UDS'', 68), (''PL'', 69), (''CUP'', 70),
     (''Gyroscope'', 71), (''MCU'', 72), (''NS'', 73), (''News'', 74), (''RO'', 75),
     (''GD'', 76), (''CardSPI'', 77), (''EC'', 78), (''WebBrowser'', 79), (''Test'', 80),
     (''ENC'', 81), (''PIA'', 82), (''ACT'', 83), (''VCTL'', 84), (''OLV'', 85), (''NEIA'', 86),
     (''NPNS'', 87), (''AVD'', 90), (''L2B'', 91), (''MVD'', 92), (''NFC'', 93), (''UART'', 94),
     (''SPM'', 95), (''QTM'', 96), (''NFP'', 97), (''Application'', 254),
     (''InvalidResult'', 255)]"

abbreviation (input) EM_Common :: ErrorModule where "EM_Common \<equiv> 0"
abbreviation (input) EM_Kernel :: ErrorModule where "EM_Kernel \<equiv> 1"
abbreviation (input) EM_OS :: ErrorModule where "EM_OS \<equiv> 6"
abbreviation (input) EM_FND :: ErrorModule where "EM_FND \<equiv> 36"

datatype ErrorSummary =
    ES_Success | ES_NothingHappened | ES_WouldBlock | ES_OutOfResource | ES_NotFound
    | ES_InvalidState | ES_NotSupported | ES_InvalidArgument | ES_WrongArgument | ES_Canceled
    | ES_StatusChanged | ES_Internal | ES_InvalidResult

primrec ErrorSummary_value :: "ErrorSummary \<Rightarrow> u32" where
  "ErrorSummary_value ES_Success = 0"
| "ErrorSummary_value ES_NothingHappened = 1"
| "ErrorSummary_value ES_WouldBlock = 2"
| "ErrorSummary_value ES_OutOfResource = 3"
| "ErrorSummary_value ES_NotFound = 4"
| "ErrorSummary_value ES_InvalidState = 5"
| "ErrorSummary_value ES_NotSupported = 6"
| "ErrorSummary_value ES_InvalidArgument = 7"
| "ErrorSummary_value ES_WrongArgument = 8"
| "ErrorSummary_value ES_Canceled = 9"
| "ErrorSummary_value ES_StatusChanged = 10"
| "ErrorSummary_value ES_Internal = 11"
| "ErrorSummary_value ES_InvalidResult = 63"

datatype ErrorLevel =
    EL_Success | EL_Info | EL_Status | EL_Temporary | EL_Permanent | EL_Usage | EL_Reinitialize
    | EL_Reset | EL_Fatal

primrec ErrorLevel_value :: "ErrorLevel \<Rightarrow> u32" where
  "ErrorLevel_value EL_Success = 0"
| "ErrorLevel_value EL_Info = 1"
| "ErrorLevel_value EL_Status = 25"
| "ErrorLevel_value EL_Temporary = 26"
| "ErrorLevel_value EL_Permanent = 27"
| "ErrorLevel_value EL_Usage = 28"
| "ErrorLevel_value EL_Reinitialize = 29"
| "ErrorLevel_value EL_Reset = 30"
| "ErrorLevel_value EL_Fatal = 31"

section \<open>The union ResultCode\<close>

text \<open>
  The union is its \<^verbatim>\<open>raw\<close> word; the fields are read with \<open>ExtractValue\<close> at the positions and
  widths of their \<^verbatim>\<open>BitField\<close> members.
\<close>

datatype ResultCode = ResultCode (raw: u32)

definition rc_description :: "ResultCode \<Rightarrow> u32" where
  "rc_description c = ExtractValue 0 10 (raw c)"

definition rc_module :: "ResultCode \<Rightarrow> u32" where
  "rc_module c = ExtractValue 10 8 (raw c)"

definition rc_summary :: "ResultCode \<Rightarrow> u32" where
  "rc_summary c = ExtractValue 21 6 (raw c)"

definition rc_level :: "ResultCode \<Rightarrow> u32" where
  "rc_level c = ExtractValue 27 5 (raw c)"

definition rc_is_error :: "ResultCode \<Rightarrow> u32" where
  "rc_is_error c = ExtractValue 31 1 (raw c)"

definition MakeResultCode_raw ::
    "u32 \<Rightarrow> ErrorModule \<Rightarrow> ErrorSummary \<Rightarrow> ErrorLevel \<Rightarrow> ResultCode" where
  "MakeResultCode_raw dsc mdl smm lvl =
     ResultCode (FormatValue 0 10 dsc OR FormatValue 10 8 mdl
       OR FormatValue 21 6 (ErrorSummary_value smm)
       OR FormatValue 27 5 (ErrorLevel_value lvl))"

definition MakeResultCode ::
    "ErrorDescription \<Rightarrow> ErrorModule \<Rightarrow> ErrorSummary \<Rightarrow> ErrorLevel \<Rightarrow> ResultCode" where
  "MakeResultCode dsc mdl smm lvl =
     MakeResultCode_raw (ErrorDescription_value dsc) mdl smm lvl"

definition IsSuccess :: "ResultCode \<Rightarrow> bool" where
  "IsSuccess c \<longleftrightarrow> rc_is_error c = 0"

definition IsError :: "ResultCode \<Rightarrow> bool" where
  "IsError c \<longleftrightarrow> rc_is_error c = 1"

definition RESULT_SUCCESS :: ResultCode where
  "RESULT_SUCCESS = ResultCode 0"

definition UnimplementedFunction :: "ErrorModule \<Rightarrow> ResultCode" where
  "UnimplementedFunction m = MakeResultCode ED_NotImplemented m ES_NotSupported EL_Permanent"

section \<open>ResultVal\<close>

text \<open>
  \<^verbatim>\<open>ResultVal<T>\<close>: the code and, in the union \<^verbatim>\<open>object\<close>, the value where one was constructed.
\<close>

datatype 'a ResultVal = ResultVal (Code: ResultCode) (rv_object: "'a option")

text \<open>The constructor from an error code asserts that it is one.\<close>

definition ResultVal_error :: "ResultCode \<Rightarrow> 'a ResultVal run" where
  "ResultVal_error error_code = do {
     ASSERT (IsError error_code);
     Some (ResultVal error_code None)
   }"

definition rv_empty :: "'a ResultVal \<Rightarrow> bool" where
  "rv_empty r = IsError (Code r)"

definition Succeeded :: "'a ResultVal \<Rightarrow> bool" where
  "Succeeded r = IsSuccess (Code r)"

definition Failed :: "'a ResultVal \<Rightarrow> bool" where
  "Failed r = rv_empty r"

definition rv_emplace :: "ResultCode \<Rightarrow> 'a \<Rightarrow> 'a ResultVal \<Rightarrow> 'a ResultVal run" where
  "rv_emplace success_code v r = do {
     ASSERT (IsSuccess success_code);
     Some (ResultVal success_code (Some v))
   }"

definition WithCode :: "ResultCode \<Rightarrow> 'a \<Rightarrow> 'a ResultVal run" where
  "WithCode success_code v = do {
     result \<leftarrow> ResultVal_error (ResultCode (-1));
     rv_emplace success_code v result
   }"

definition ValueOr :: "'a ResultVal \<Rightarrow> 'a \<Rightarrow> 'a run" where
  "ValueOr r v = (if \<not> rv_empty r then rv_object r else Some v)"

definition Unwrap :: "'a ResultVal \<Rightarrow> 'a run" where
  "Unwrap r = do {
     ASSERT (Succeeded r);
     rv_object r
   }"

text \<open>
  \<^verbatim>\<open>MakeResult\<close>, and the implicit conversion of an error code by \<^verbatim>\<open>return ERR_...\<close>; the lemmas
  below show that both are what \<open>WithCode\<close> and \<open>ResultVal_error\<close> return.
\<close>

definition MakeResult :: "'a \<Rightarrow> 'a ResultVal" where
  "MakeResult v = ResultVal RESULT_SUCCESS (Some v)"

definition ResultErr :: "ResultCode \<Rightarrow> 'a ResultVal" where
  "ResultErr c = ResultVal c None"

text \<open>Assignment \<^verbatim>\<open>r = o\<close>: the object is copied, destroyed or constructed as the two codes say.\<close>

definition rv_assign :: "'a ResultVal \<Rightarrow> 'a ResultVal \<Rightarrow> 'a ResultVal" where
  "rv_assign r o' =
     (if \<not> rv_empty r
      then (if \<not> rv_empty o' then ResultVal (Code o') (rv_object o') else ResultVal (Code o') None)
      else (if \<not> rv_empty o' then ResultVal (Code o') (rv_object o')
            else ResultVal (Code o') (rv_object r)))"

text \<open>The class invariant: a value is there exactly when the code is not an error.\<close>

definition rv_wf :: "'a ResultVal \<Rightarrow> bool" where
  "rv_wf r \<longleftrightarrow> (rv_object r = None \<longleftrightarrow> IsError (Code r))"

text \<open>\<^verbatim>\<open>CASCADE_RESULT(target, source)\<close> followed by the rest of the function body.\<close>

definition CASCADE_RESULT :: "'a ResultVal \<Rightarrow> ('a \<Rightarrow> 'b ResultVal run) \<Rightarrow> 'b ResultVal run" where
  "CASCADE_RESULT source rest =
     (if Failed source then ResultVal_error (Code source) else rv_object source \<bind> rest)"

section \<open>The kernel's error codes\<close>

abbreviation (input) ErrCodes_OutOfHandles :: u32 where "ErrCodes_OutOfHandles \<equiv> 19"
abbreviation (input) ErrCodes_SessionClosedByRemote :: u32 where "ErrCodes_SessionClosedByRemote \<equiv> 26"
abbreviation (input) ErrCodes_PortNameTooLong :: u32 where "ErrCodes_PortNameTooLong \<equiv> 30"
abbreviation (input) ErrCodes_WrongLockingThread :: u32 where "ErrCodes_WrongLockingThread \<equiv> 31"
abbreviation (input) ErrCodes_NoPendingSessions :: u32 where "ErrCodes_NoPendingSessions \<equiv> 35"
abbreviation (input) ErrCodes_WrongPermission :: u32 where "ErrCodes_WrongPermission \<equiv> 46"
abbreviation (input) ErrCodes_InvalidBufferDescriptor :: u32 where "ErrCodes_InvalidBufferDescriptor \<equiv> 48"
abbreviation (input) ErrCodes_MaxConnectionsReached :: u32 where "ErrCodes_MaxConnectionsReached \<equiv> 52"
abbreviation (input) ErrCodes_CommandTooLarge :: u32 where "ErrCodes_CommandTooLarge \<equiv> 54"

definition ERR_OUT_OF_HANDLES :: ResultCode where
  "ERR_OUT_OF_HANDLES = MakeResultCode_raw ErrCodes_OutOfHandles EM_Kernel ES_OutOfResource EL_Permanent"

definition ERR_SESSION_CLOSED_BY_REMOTE :: ResultCode where
  "ERR_SESSION_CLOSED_BY_REMOTE = MakeResultCode_raw ErrCodes_SessionClosedByRemote EM_OS ES_Canceled EL_Status"

definition ERR_PORT_NAME_TOO_LONG :: ResultCode where
  "ERR_PORT_NAME_TOO_LONG = MakeResultCode_raw ErrCodes_PortNameTooLong EM_OS ES_InvalidArgument EL_Usage"

definition ERR_WRONG_PERMISSION :: ResultCode where
  "ERR_WRONG_PERMISSION = MakeResultCode_raw ErrCodes_WrongPermission EM_OS ES_WrongArgument EL_Permanent"

definition ERR_INVALID_BUFFER_DESCRIPTOR :: ResultCode where
  "ERR_INVALID_BUFFER_DESCRIPTOR = MakeResultCode_raw ErrCodes_InvalidBufferDescriptor EM_OS ES_WrongArgument EL_Permanent"

definition ERR_MAX_CONNECTIONS_REACHED :: ResultCode where
  "ERR_MAX_CONNECTIONS_REACHED = MakeResultCode_raw ErrCodes_MaxConnectionsReached EM_OS ES_WouldBlock EL_Temporary"

definition ERR_NOT_AUTHORIZED :: ResultCode where
  "ERR_NOT_AUTHORIZED = MakeResultCode ED_NotAuthorized EM_OS ES_WrongArgument EL_Permanent"

definition ERR_INVALID_ENUM_VALUE :: ResultCode where
  "ERR_INVALID_ENUM_VALUE = MakeResultCode ED_InvalidEnumValue EM_Kernel ES_InvalidArgument EL_Permanent"

definition ERR_INVALID_ENUM_VALUE_FND :: ResultCode where
  "ERR_INVALID_ENUM_VALUE_FND = MakeResultCode ED_InvalidEnumValue EM_FND ES_InvalidArgument EL_Permanent"

definition ERR_INVALID_COMBINATION :: ResultCode where
  "ERR_INVALID_COMBINATION = MakeResultCode ED_InvalidCombination EM_OS ES_InvalidArgument EL_Usage"

definition ERR_INVALID_COMBINATION_KERNEL :: ResultCode where
  "ERR_INVALID_COMBINATION_KERNEL = MakeResultCode ED_InvalidCombination EM_Kernel ES_WrongArgument EL_Permanent"

definition ERR_MISALIGNED_ADDRESS :: ResultCode where
  "ERR_MISALIGNED_ADDRESS = MakeResultCode ED_MisalignedAddress EM_OS ES_InvalidArgument EL_Usage"

definition ERR_MISALIGNED_SIZE :: ResultCode where
  "ERR_MISALIGNED_SIZE = MakeResultCode ED_MisalignedSize EM_OS ES_InvalidArgument EL_Usage"

definition ERR_OUT_OF_MEMORY :: ResultCode where
  "ERR_OUT_OF_MEMORY = MakeResultCode ED_OutOfMemory EM_Kernel ES_OutOfResource EL_Permanent"

definition ERR_OUT_OF_HEAP_MEMORY :: ResultCode where
  "ERR_OUT_OF_HEAP_MEMORY = MakeResultCode ED_OutOfMemory EM_OS ES_OutOfResource EL_Status"

definition ERR_NOT_IMPLEMENTED :: ResultCode where
  "ERR_NOT_IMPLEMENTED = MakeResultCode ED_NotImplemented EM_OS ES_InvalidArgument EL_Usage"

definition ERR_INVALID_ADDRESS :: ResultCode where
  "ERR_INVALID_ADDRESS = MakeResultCode ED_InvalidAddress EM_OS ES_InvalidArgument EL_Usage"

definition ERR_INVALID_ADDRESS_STATE :: ResultCode where
  "ERR_INVALID_ADDRESS_STATE = MakeResultCode ED_InvalidAddress EM_OS ES_InvalidState EL_Usage"

definition ERR_INVALID_POINTER :: ResultCode where
  "ERR_INVALID_POINTER = MakeResultCode ED_InvalidPointer EM_Kernel ES_InvalidArgument EL_Permanent"

definition ERR_INVALID_HANDLE :: ResultCode where
  "ERR_INVALID_HANDLE = MakeResultCode ED_InvalidHandle EM_Kernel ES_InvalidArgument EL_Permanent"

definition ERR_INVALID_HANDLE_OS :: ResultCode where
  "ERR_INVALID_HANDLE_OS = MakeResultCode ED_InvalidHandle EM_OS ES_WrongArgument EL_Permanent"

definition ERR_NOT_FOUND :: ResultCode where
  "ERR_NOT_FOUND = MakeResultCode ED_NotFound EM_Kernel ES_NotFound EL_Permanent"

definition ERR_OUT_OF_RANGE :: ResultCode where
  "ERR_OUT_OF_RANGE = MakeResultCode ED_OutOfRange EM_OS ES_InvalidArgument EL_Usage"

definition ERR_OUT_OF_RANGE_KERNEL :: ResultCode where
  "ERR_OUT_OF_RANGE_KERNEL = MakeResultCode ED_OutOfRange EM_Kernel ES_InvalidArgument EL_Permanent"

definition RESULT_TIMEOUT :: ResultCode where
  "RESULT_TIMEOUT = MakeResultCode ED_Timeout EM_OS ES_StatusChanged EL_Info"

definition ERR_NO_PENDING_SESSIONS :: ResultCode where
  "ERR_NO_PENDING_SESSIONS = MakeResultCode_raw ErrCodes_NoPendingSessions EM_OS ES_WouldBlock EL_Permanent"

lemmas kernel_error_defs =
  ERR_OUT_OF_HANDLES_def ERR_SESSION_CLOSED_BY_REMOTE_def ERR_PORT_NAME_TOO_LONG_def
  ERR_WRONG_PERMISSION_def ERR_INVALID_BUFFER_DESCRIPTOR_def ERR_MAX_CONNECTIONS_REACHED_def
  ERR_NOT_AUTHORIZED_def ERR_INVALID_ENUM_VALUE_def ERR_INVALID_ENUM_VALUE_FND_def
  ERR_INVALID_COMBINATION_def ERR_INVALID_COMBINATION_KERNEL_def ERR_MISALIGNED_ADDRESS_def
  ERR_MISALIGNED_SIZE_def ERR_OUT_OF_MEMORY_def ERR_OUT_OF_HEAP_MEMORY_def
  ERR_NOT_IMPLEMENTED_def ERR_INVALID_ADDRESS_def ERR_INVALID_ADDRESS_STATE_def
  ERR_INVALID_POINTER_def ERR_INVALID_HANDLE_def ERR_INVALID_HANDLE_OS_def
  ERR_NOT_FOUND_def ERR_OUT_OF_RANGE_def ERR_OUT_OF_RANGE_KERNEL_def
  RESULT_TIMEOUT_def ERR_NO_PENDING_SESSIONS_def


section \<open>The fields of a code\<close>

interpretation description_field: bit_field 0 10 "TYPE(32)" by unfold_locales simp_all
interpretation module_field: bit_field 10 8 "TYPE(32)" by unfold_locales simp_all
interpretation summary_field: bit_field 21 6 "TYPE(32)" by unfold_locales simp_all
interpretation level_field: bit_field 27 5 "TYPE(32)" by unfold_locales simp_all

interpretation description_module: disjoint_fields 0 10 10 8 "TYPE(32)" by unfold_locales simp_all
interpretation description_summary: disjoint_fields 0 10 21 6 "TYPE(32)" by unfold_locales simp_all
interpretation description_level: disjoint_fields 0 10 27 5 "TYPE(32)" by unfold_locales simp_all
interpretation module_description: disjoint_fields 10 8 0 10 "TYPE(32)" by unfold_locales simp_all
interpretation module_summary: disjoint_fields 10 8 21 6 "TYPE(32)" by unfold_locales simp_all
interpretation module_level: disjoint_fields 10 8 27 5 "TYPE(32)" by unfold_locales simp_all
interpretation summary_description: disjoint_fields 21 6 0 10 "TYPE(32)" by unfold_locales simp_all
interpretation summary_module: disjoint_fields 21 6 10 8 "TYPE(32)" by unfold_locales simp_all
interpretation summary_level: disjoint_fields 21 6 27 5 "TYPE(32)" by unfold_locales simp_all
interpretation level_description: disjoint_fields 27 5 0 10 "TYPE(32)" by unfold_locales simp_all
interpretation level_module: disjoint_fields 27 5 10 8 "TYPE(32)" by unfold_locales simp_all
interpretation level_summary: disjoint_fields 27 5 21 6 "TYPE(32)" by unfold_locales simp_all

lemmas rc_extract =
  description_field.extract_format module_field.extract_format summary_field.extract_format
  level_field.extract_format
  description_module.extract_other_format description_summary.extract_other_format
  description_level.extract_other_format module_description.extract_other_format
  module_summary.extract_other_format module_level.extract_other_format
  summary_description.extract_other_format summary_module.extract_other_format
  summary_level.extract_other_format level_description.extract_other_format
  level_module.extract_other_format level_summary.extract_other_format

lemma ErrorSummary_fits: "take_bit 6 (ErrorSummary_value s) = ErrorSummary_value s"
  by (cases s) (simp_all add: take_bit_eq_mod)

lemma ErrorLevel_fits: "take_bit 5 (ErrorLevel_value l) = ErrorLevel_value l"
  by (cases l) (simp_all add: take_bit_eq_mod)

lemma ErrorDescription_fits: "take_bit 10 (ErrorDescription_value d) = ErrorDescription_value d"
  by (cases d) (simp_all add: take_bit_eq_mod)

lemma ErrorModule_enumerators_fit: "list_all (\<lambda>(n, v). take_bit 8 v = v) ErrorModule_enumerators"
  by (simp add: ErrorModule_enumerators_def take_bit_eq_mod)

lemma MakeResultCode_raw_fields:
  "rc_description (MakeResultCode_raw d m s l) = take_bit 10 d"
  "rc_module (MakeResultCode_raw d m s l) = take_bit 8 m"
  "rc_summary (MakeResultCode_raw d m s l) = ErrorSummary_value s"
  "rc_level (MakeResultCode_raw d m s l) = ErrorLevel_value l"
  by (simp_all add: MakeResultCode_raw_def rc_description_def rc_module_def rc_summary_def
      rc_level_def ExtractValue_or rc_extract ErrorSummary_fits ErrorLevel_fits)

text \<open>The error bit is the top bit of the level.\<close>

lemma bit31_or_not: "ExtractValue 31 (Suc 0) (w :: u32) = (if bit w 31 then 1 else 0)"
  by (rule bit_word_eqI) (auto simp: bit_field_simps bit_1_iff)

lemma rc_is_error_level: "rc_is_error c = ExtractValue 4 1 (rc_level c)"
  by (cases c, rule bit_word_eqI) (auto simp: rc_is_error_def rc_level_def bit_field_simps)

lemma IsSuccess_iff: "IsSuccess c \<longleftrightarrow> \<not> IsError c"
  by (simp add: IsSuccess_def IsError_def rc_is_error_def bit31_or_not)

lemma IsError_level: "IsError c \<longleftrightarrow> bit (rc_level c) 4"
  by (cases c) (simp add: IsError_def rc_is_error_def bit31_or_not rc_level_def bit_field_simps)

lemma IsError_MakeResultCode_raw:
  "IsError (MakeResultCode_raw d m s l) \<longleftrightarrow> l \<notin> {EL_Success, EL_Info}"
  by (cases l) (simp_all add: IsError_level MakeResultCode_raw_fields bit_numeral_rec bit_1_iff)

lemma IsError_MakeResultCode [simp]:
  "IsError (MakeResultCode d m s l) \<longleftrightarrow> l \<notin> {EL_Success, EL_Info}"
  by (simp add: MakeResultCode_def IsError_MakeResultCode_raw)

lemma IsError_RESULT_SUCCESS [simp]: "\<not> IsError RESULT_SUCCESS"
  by (simp add: RESULT_SUCCESS_def IsError_def rc_is_error_def ExtractValue_def)

lemma kernel_errors_are_errors [simp]:
  "IsError ERR_OUT_OF_HANDLES" "IsError ERR_INVALID_HANDLE" "IsError ERR_INVALID_ADDRESS"
  "IsError ERR_INVALID_ADDRESS_STATE" "IsError ERR_OUT_OF_RANGE" "IsError ERR_OUT_OF_RANGE_KERNEL"
  "IsError ERR_INVALID_COMBINATION_KERNEL" "IsError ERR_OUT_OF_MEMORY"
  "IsError ERR_INVALID_ENUM_VALUE_FND"
  by (simp_all add: kernel_error_defs IsError_MakeResultCode_raw)

section \<open>ResultVal keeps a value exactly under a success code\<close>

lemma ResultVal_error_eq: "IsError c \<Longrightarrow> ResultVal_error c = Some (ResultErr c)"
  by (simp add: ResultVal_error_def ResultErr_def)

lemma WithCode_eq:
  "WithCode c v = (if IsSuccess c then Some (ResultVal c (Some v)) else None)"
proof -
  have "IsError (ResultCode (-1))"
    by (simp add: IsError_def rc_is_error_def bit31_or_not)
  then show ?thesis
    by (simp add: WithCode_def ResultVal_error_def rv_emplace_def ASSERT_def)
qed

lemma MakeResult_WithCode: "WithCode RESULT_SUCCESS v = Some (MakeResult v)"
  by (simp add: WithCode_eq IsSuccess_iff MakeResult_def)

lemma rv_simps [simp]:
  "Succeeded (MakeResult v)" "\<not> Failed (MakeResult v)" "rv_object (MakeResult v) = Some v"
  "Code (MakeResult v) = RESULT_SUCCESS" "Code (ResultErr c) = c" "rv_object (ResultErr c) = None"
  "Failed (ResultErr c) \<longleftrightarrow> IsError c" "MakeResult v = MakeResult w \<longleftrightarrow> v = w"
  by (simp_all add: Succeeded_def Failed_def rv_empty_def MakeResult_def ResultErr_def IsSuccess_iff)

lemma MakeResult_neq_ResultErr [simp]:
  "MakeResult v \<noteq> ResultErr c" "ResultErr c \<noteq> MakeResult v"
  by (simp_all add: MakeResult_def ResultErr_def)

lemma rv_wf_cases:
  "rv_wf (MakeResult v)" "rv_wf (ResultErr c) \<longleftrightarrow> IsError c"
  "WithCode c v = Some r \<Longrightarrow> rv_wf r" "ResultVal_error c = Some r \<Longrightarrow> rv_wf r"
  by (auto simp: rv_wf_def WithCode_eq IsSuccess_iff ResultVal_error_def split: if_splits)

lemma rv_wf_assign: "rv_wf r \<Longrightarrow> rv_wf o' \<Longrightarrow> rv_assign r o' = o'"
  by (cases o') (auto simp: rv_wf_def rv_assign_def rv_empty_def)

lemma CASCADE_RESULT_MakeResult [simp]: "CASCADE_RESULT (MakeResult v) f = f v"
  by (simp add: CASCADE_RESULT_def)

lemma CASCADE_RESULT_ResultErr [simp]: "IsError c \<Longrightarrow> CASCADE_RESULT (ResultErr c) f = Some (ResultErr c)"
  by (simp add: CASCADE_RESULT_def ResultVal_error_eq)

section \<open>Properties\<close>

text \<open>
  a result code built from its four parts gives each part back: the description modulo
  \<open>2\<^sup>1\<^sup>0\<close>, the module modulo \<open>2\<^sup>8\<close>, the summary and the level exactly; and the code is an error
  exactly when its level is neither \<^verbatim>\<open>Success\<close> nor \<^verbatim>\<open>Info\<close> (so \<^verbatim>\<open>RESULT_TIMEOUT\<close> is not one).
\<close>
theorem ResultCode_roundtrip:
  "rc_description (MakeResultCode_raw d m s l) = take_bit 10 d
   \<and> rc_module (MakeResultCode_raw d m s l) = take_bit 8 m
   \<and> rc_summary (MakeResultCode_raw d m s l) = ErrorSummary_value s
   \<and> rc_level (MakeResultCode_raw d m s l) = ErrorLevel_value l
   \<and> (IsError (MakeResultCode_raw d m s l) \<longleftrightarrow> l \<notin> {EL_Success, EL_Info})
   \<and> IsSuccess RESULT_TIMEOUT"
  by (simp add: MakeResultCode_raw_fields IsError_MakeResultCode_raw IsSuccess_iff
      RESULT_TIMEOUT_def)

text \<open>
  \<^verbatim>\<open>ResultVal\<close> holds a value exactly under a success code: every constructor that returns at
  all returns such a value, assignment between two of them yields the right-hand side, and
  \<^verbatim>\<open>Unwrap\<close> returns the value or stops, \<^verbatim>\<open>ValueOr\<close> always returns.
\<close>
theorem ResultVal_value_iff_success:
  fixes r o' r' r'' :: "'a ResultVal"
  shows "rv_wf r \<Longrightarrow> rv_wf o' \<Longrightarrow>
     rv_assign r o' = o' \<and> rv_wf (MakeResult v)
   \<and> (ResultVal_error c = Some r' \<longrightarrow> rv_wf r') \<and> (WithCode c v = Some r'' \<longrightarrow> rv_wf r'')
   \<and> (Unwrap r = (if Succeeded r then rv_object r else None))
   \<and> (\<exists>x. ValueOr r d = Some x \<and> (Failed r \<longrightarrow> x = d) \<and> (Succeeded r \<longrightarrow> rv_object r = Some x))"
  by (intro conjI impI)
    (auto simp: rv_wf_assign rv_wf_cases Unwrap_def ASSERT_def ValueOr_def Failed_def rv_empty_def
      Succeeded_def IsSuccess_iff, auto simp: rv_wf_def)

theorem ResultVal_value_iff_success_witness:
  "rv_wf (ResultErr ERR_INVALID_HANDLE :: nat ResultVal) \<and> rv_wf (MakeResult (5 :: nat))
   \<and> rv_assign (ResultErr ERR_INVALID_HANDLE) (MakeResult (5 :: nat)) = MakeResult 5"
proof -
  have a: "rv_wf (ResultErr ERR_INVALID_HANDLE :: nat ResultVal)" and b: "rv_wf (MakeResult (5 :: nat))"
    by (simp_all add: rv_wf_cases)
  from ResultVal_value_iff_success [OF a b]
  have "rv_assign (ResultErr ERR_INVALID_HANDLE) (MakeResult (5 :: nat)) = MakeResult 5"
    by (rule conjunct1)
  with a b show ?thesis by simp
qed

text \<open>
  the raw values of the kernel's error constants, as the comments beside them give them, except
  \<^verbatim>\<open>ERR_OUT_OF_HEAP_MEMORY\<close>, whose value is \<open>0xC8601BF3\<close> and not the \<open>0xC860180A\<close> of the comment.
\<close>
theorem kernel_error_values:
  "raw ERR_OUT_OF_HANDLES = 0xD8600413 \<and> raw ERR_SESSION_CLOSED_BY_REMOTE = 0xC920181A
   \<and> raw ERR_PORT_NAME_TOO_LONG = 0xE0E0181E \<and> raw ERR_MAX_CONNECTIONS_REACHED = 0xD0401834
   \<and> raw ERR_NOT_AUTHORIZED = 0xD9001BEA \<and> raw ERR_INVALID_ENUM_VALUE = 0xD8E007ED
   \<and> raw ERR_INVALID_ENUM_VALUE_FND = 0xD8E093ED \<and> raw ERR_INVALID_COMBINATION = 0xE0E01BEE
   \<and> raw ERR_INVALID_COMBINATION_KERNEL = 0xD90007EE \<and> raw ERR_MISALIGNED_ADDRESS = 0xE0E01BF1
   \<and> raw ERR_MISALIGNED_SIZE = 0xE0E01BF2 \<and> raw ERR_OUT_OF_MEMORY = 0xD86007F3
   \<and> raw ERR_OUT_OF_HEAP_MEMORY = 0xC8601BF3 \<and> raw ERR_NOT_IMPLEMENTED = 0xE0E01BF4
   \<and> raw ERR_INVALID_ADDRESS = 0xE0E01BF5 \<and> raw ERR_INVALID_ADDRESS_STATE = 0xE0A01BF5
   \<and> raw ERR_INVALID_POINTER = 0xD8E007F6 \<and> raw ERR_INVALID_HANDLE = 0xD8E007F7
   \<and> raw ERR_INVALID_HANDLE_OS = 0xD9001BF7 \<and> raw ERR_NOT_FOUND = 0xD88007FA
   \<and> raw ERR_OUT_OF_RANGE = 0xE0E01BFD \<and> raw ERR_OUT_OF_RANGE_KERNEL = 0xD8E007FD
   \<and> raw ERR_NO_PENDING_SESSIONS = 0xD8401823"
  by (intro conjI) (simp_all add: kernel_error_defs MakeResultCode_def MakeResultCode_raw_def
      FormatValue_def bf_mask_def mask_eq_exp_minus_1)

end
