(* ===== verification/Thread_Queue_List.thy ===== *)
theory Thread_Queue_List
  imports Prelude
begin

text \<open>
  \<^verbatim>\<open>Common::ThreadQueueList<T, N>\<close> of \<^verbatim>\<open>src/src/common/thread_queue_list.h\<close>, the ready queue
  of the scheduler: one deque per priority level, and a singly linked list, threaded through the
  array of levels in increasing order, of the levels that were ever used. Pointers into the array
  are indices, the tag of a level never used is \<open>Unlinked\<close>; \<^verbatim>\<open>T()\<close>, a null thread, is \<open>None\<close>.
  Following a pointer that is not into the array is undefined behaviour, the outer \<open>None\<close>.

  The theory shows that the linked list always visits exactly the levels used, in order, so that
  every operation returns and acts on the level lists as a priority queue with FIFO levels; the
  laws are the locale \<open>priority_levels\<close>, interpreted on these definitions.
\<close>

section \<open>State\<close>

datatype link = Null | UnlinkedTag | Ptr nat

record 'a Queue =
  next_nonempty :: link
  q_data :: "'a list"

record 'a ThreadQueueList =
  q_first :: link
  queues :: "'a Queue list"

definition Queue_init :: "'a Queue" where
  "Queue_init = \<lparr>next_nonempty = UnlinkedTag, q_data = []\<rparr>"

definition ThreadQueueList_init :: "nat \<Rightarrow> 'a ThreadQueueList" where
  "ThreadQueueList_init n = \<lparr>q_first = Null, queues = replicate n Queue_init\<rparr>"

section \<open>Operations\<close>

text \<open>\<open>contains\<close> returns \<open>-1\<close>, as an unsigned priority, for a thread in no level.\<close>

fun contains_from :: "'a Queue list \<Rightarrow> 'a \<Rightarrow> nat \<Rightarrow> u32" where
  "contains_from [] uid i = - 1"
| "contains_from (q # qs) uid i =
     (if uid \<in> set (q_data q) then of_nat i else contains_from qs uid (Suc i))"

definition tql_contains :: "'a ThreadQueueList \<Rightarrow> 'a \<Rightarrow> u32" where
  "tql_contains q uid = contains_from (queues q) uid 0"

partial_function (option) get_first_loop :: "'a Queue list \<Rightarrow> link \<Rightarrow> 'a option run" where
  "get_first_loop qs cur =
     (case cur of
        Null \<Rightarrow> Some None
      | UnlinkedTag \<Rightarrow> None
      | Ptr i \<Rightarrow>
          if i < length qs then
            (if q_data (qs ! i) \<noteq> [] then Some (Some (hd (q_data (qs ! i))))
             else get_first_loop qs (next_nonempty (qs ! i)))
          else None)"

definition get_first :: "'a ThreadQueueList \<Rightarrow> 'a option run" where
  "get_first q = get_first_loop (queues q) (q_first q)"

definition pop_front_at :: "'a ThreadQueueList \<Rightarrow> nat \<Rightarrow> 'a ThreadQueueList" where
  "pop_front_at q i =
     q\<lparr>queues := (queues q)[i := (queues q ! i)\<lparr>q_data := tl (q_data (queues q ! i))\<rparr>]\<rparr>"

partial_function (option) pop_first_loop ::
    "'a ThreadQueueList \<Rightarrow> link \<Rightarrow> ('a option \<times> 'a ThreadQueueList) run" where
  "pop_first_loop q cur =
     (case cur of
        Null \<Rightarrow> Some (None, q)
      | UnlinkedTag \<Rightarrow> None
      | Ptr i \<Rightarrow>
          if i < length (queues q) then
            (if q_data (queues q ! i) \<noteq> [] then Some (Some (hd (q_data (queues q ! i))), pop_front_at q i)
             else pop_first_loop q (next_nonempty (queues q ! i)))
          else None)"

definition pop_first :: "'a ThreadQueueList \<Rightarrow> ('a option \<times> 'a ThreadQueueList) run" where
  "pop_first q = pop_first_loop q (q_first q)"

text \<open>
  The guard of \<open>pop_first_better\<close> compares addresses, \<^verbatim>\<open>cur < &queues[priority]\<close>: a null
  pointer and the tag compare below every level, and the loop body then follows them.
\<close>

definition below :: "link \<Rightarrow> nat \<Rightarrow> bool" where
  "below cur stop = (case cur of Ptr i \<Rightarrow> i < stop | Null \<Rightarrow> True | UnlinkedTag \<Rightarrow> True)"

partial_function (option) pop_first_better_loop ::
    "'a ThreadQueueList \<Rightarrow> nat \<Rightarrow> link \<Rightarrow> ('a option \<times> 'a ThreadQueueList) run" where
  "pop_first_better_loop q stop cur =
     (if below cur stop then
        (case cur of
           Ptr i \<Rightarrow>
             if i < length (queues q) then
               (if q_data (queues q ! i) \<noteq> [] then Some (Some (hd (q_data (queues q ! i))), pop_front_at q i)
                else pop_first_better_loop q stop (next_nonempty (queues q ! i)))
             else None
         | Null \<Rightarrow> None
         | UnlinkedTag \<Rightarrow> None)
      else Some (None, q))"

definition pop_first_better ::
    "'a ThreadQueueList \<Rightarrow> nat \<Rightarrow> ('a option \<times> 'a ThreadQueueList) run" where
  "pop_first_better q priority = pop_first_better_loop q priority (q_first q)"

definition upd_data :: "('a list \<Rightarrow> 'a list) \<Rightarrow> nat \<Rightarrow> 'a ThreadQueueList \<Rightarrow> 'a ThreadQueueList" where
  "upd_data f priority q =
     q\<lparr>queues := (queues q)[priority := (queues q ! priority)\<lparr>q_data := f (q_data (queues q ! priority))\<rparr>]\<rparr>"

definition push_front :: "nat \<Rightarrow> 'a \<Rightarrow> 'a ThreadQueueList \<Rightarrow> 'a ThreadQueueList" where
  "push_front priority thread_id q = upd_data (\<lambda>d. thread_id # d) priority q"

definition push_back :: "nat \<Rightarrow> 'a \<Rightarrow> 'a ThreadQueueList \<Rightarrow> 'a ThreadQueueList" where
  "push_back priority thread_id q = upd_data (\<lambda>d. d @ [thread_id]) priority q"

definition tql_remove :: "nat \<Rightarrow> 'a \<Rightarrow> 'a ThreadQueueList \<Rightarrow> 'a ThreadQueueList" where
  "tql_remove priority thread_id q = upd_data (filter (\<lambda>t. t \<noteq> thread_id)) priority q"

definition tql_rotate :: "nat \<Rightarrow> 'a ThreadQueueList \<Rightarrow> 'a ThreadQueueList" where
  "tql_rotate priority q =
     upd_data (\<lambda>d. if length d > 1 then tl d @ [hd d] else d) priority q"

definition tql_clear :: "'a ThreadQueueList \<Rightarrow> 'a ThreadQueueList" where
  "tql_clear q = \<lparr>q_first = Null, queues = map (\<lambda>_. Queue_init) (queues q)\<rparr>"

definition tql_empty :: "nat \<Rightarrow> 'a ThreadQueueList \<Rightarrow> bool" where
  "tql_empty priority q \<longleftrightarrow> q_data (queues q ! priority) = []"

text \<open>\<open>link\<close>: the downward scan for the closest linked level, then the insertion after it.\<close>

fun link_scan :: "'a Queue list \<Rightarrow> nat \<Rightarrow> nat option" where
  "link_scan qs 0 = None"
| "link_scan qs (Suc i) =
     (if next_nonempty (qs ! i) \<noteq> UnlinkedTag then Some i else link_scan qs i)"

definition link_level :: "nat \<Rightarrow> 'a ThreadQueueList \<Rightarrow> 'a ThreadQueueList" where
  "link_level priority q =
     (case link_scan (queues q) priority of
        Some i \<Rightarrow>
          q\<lparr>queues := ((queues q)
              [priority := (queues q ! priority)\<lparr>next_nonempty := next_nonempty (queues q ! i)\<rparr>])
              [i := (queues q ! i)\<lparr>next_nonempty := Ptr priority\<rparr>]\<rparr>
      | None \<Rightarrow>
          q\<lparr>q_first := Ptr priority,
            queues := (queues q)[priority := (queues q ! priority)\<lparr>next_nonempty := q_first q\<rparr>]\<rparr>)"

definition prepare :: "nat \<Rightarrow> 'a ThreadQueueList \<Rightarrow> 'a ThreadQueueList" where
  "prepare priority q =
     (if next_nonempty (queues q ! priority) = UnlinkedTag then link_level priority q else q)"

definition tql_move :: "'a \<Rightarrow> nat \<Rightarrow> nat \<Rightarrow> 'a ThreadQueueList \<Rightarrow> 'a ThreadQueueList" where
  "tql_move thread_id old_priority new_priority q =
     push_back new_priority thread_id (prepare new_priority (tql_remove old_priority thread_id q))"

section \<open>Serialization\<close>

definition ToIndex :: "link \<Rightarrow> int" where
  "ToIndex l = (case l of Null \<Rightarrow> - 2 | UnlinkedTag \<Rightarrow> - 1 | Ptr i \<Rightarrow> int i)"

definition ToPointer :: "int \<Rightarrow> link" where
  "ToPointer idx = (if idx = - 1 then UnlinkedTag else if idx < 0 then Null else Ptr (nat idx))"

definition tql_save :: "'a ThreadQueueList \<Rightarrow> int \<times> (int \<times> 'a list) list" where
  "tql_save q = (ToIndex (q_first q), map (\<lambda>c. (ToIndex (next_nonempty c), q_data c)) (queues q))"

definition tql_load :: "int \<times> (int \<times> 'a list) list \<Rightarrow> 'a ThreadQueueList" where
  "tql_load ar = \<lparr>q_first = ToPointer (fst ar),
     queues = map (\<lambda>(idx, d). \<lparr>next_nonempty = ToPointer idx, q_data = d\<rparr>) (snd ar)\<rparr>"

section \<open>The linked list of used levels\<close>

definition linked :: "'a Queue list \<Rightarrow> nat \<Rightarrow> bool" where
  "linked qs i \<longleftrightarrow> next_nonempty (qs ! i) \<noteq> UnlinkedTag"

definition linked_levels :: "'a Queue list \<Rightarrow> nat list" where
  "linked_levels qs = filter (linked qs) [0..<length qs]"

text \<open>\<open>seg qs l ns m\<close>: from \<open>l\<close> the next pointers visit the levels \<open>ns\<close> and arrive at \<open>m\<close>.\<close>

fun seg :: "'a Queue list \<Rightarrow> link \<Rightarrow> nat list \<Rightarrow> link \<Rightarrow> bool" where
  "seg qs l [] m \<longleftrightarrow> l = m"
| "seg qs l (i # ns) m \<longleftrightarrow> l = Ptr i \<and> i < length qs \<and> seg qs (next_nonempty (qs ! i)) ns m"

definition tql_inv :: "'a ThreadQueueList \<Rightarrow> bool" where
  "tql_inv q \<longleftrightarrow> seg (queues q) (q_first q) (linked_levels (queues q)) Null
     \<and> (\<forall>i < length (queues q). q_data (queues q ! i) \<noteq> [] \<longrightarrow> linked (queues q) i)"

definition levels :: "'a ThreadQueueList \<Rightarrow> 'a list list" where
  "levels q = map q_data (queues q)"


section \<open>Lemmas on the linked list\<close>

lemma seg_append: "seg qs l (xs @ ys) m \<longleftrightarrow> (\<exists>k. seg qs l xs k \<and> seg qs k ys m)"
  by (induction xs arbitrary: l) auto

lemma seg_cong:
  assumes "length qs' = length qs" "\<And>i. i \<in> set ns \<Longrightarrow> next_nonempty (qs' ! i) = next_nonempty (qs ! i)"
  shows "seg qs' l ns m \<longleftrightarrow> seg qs l ns m"
  using assms(2) by (induction ns arbitrary: l) (auto simp: assms(1))

lemma linked_levels_cong:
  "length qs' = length qs \<Longrightarrow> (\<And>i. i < length qs \<Longrightarrow> linked qs' i = linked qs i)
   \<Longrightarrow> linked_levels qs' = linked_levels qs"
  by (auto simp: linked_levels_def intro!: filter_cong)

lemma set_linked_levels [simp]: "set (linked_levels qs) = {i. i < length qs \<and> linked qs i}"
  by (auto simp: linked_levels_def)

lemma link_scan_Some:
  "link_scan qs p = Some i \<Longrightarrow>
     i < p \<and> linked qs i \<and> filter (linked qs) [0..<p] = filter (linked qs) [0..<i] @ [i]"
  by (induction p) (auto simp: linked_def split: if_splits)

lemma link_scan_None: "link_scan qs p = None \<Longrightarrow> filter (linked qs) [0..<p] = []"
  by (induction p) (auto simp: linked_def split: if_splits)

lemma upt_split_at: "p < n \<Longrightarrow> [0..<n] = [0..<p] @ p # [Suc p..<n]"
  by (metis less_imp_le_nat upt_add_eq_append upt_conv_Cons le_add_diff_inverse zero_le)

text \<open>Updating only the data of a level leaves the linked list as it is.\<close>

lemma next_nonempty_upd_data [simp]:
  "next_nonempty (queues (upd_data f p q) ! i) = next_nonempty (queues q ! i)"
  by (simp add: upd_data_def nth_list_update_if)

lemma upd_data_simps [simp]:
  "length (queues (upd_data f p q)) = length (queues q)" "q_first (upd_data f p q) = q_first q"
  "linked (queues (upd_data f p q)) i = linked (queues q) i"
  by (simp_all add: linked_def) (simp_all add: upd_data_def)

lemma q_data_upd_data:
  "i < length (queues q) \<Longrightarrow>
     q_data (queues (upd_data f p q) ! i) = (if i = p then f (q_data (queues q ! i)) else q_data (queues q ! i))"
  by (simp add: upd_data_def nth_list_update)

lemma pop_front_at_upd: "pop_front_at q i = upd_data tl i q"
  by (simp add: pop_front_at_def upd_data_def)

lemma tql_inv_upd_data:
  assumes "tql_inv q" "linked (queues q) p \<or> f [] = []"
  shows "tql_inv (upd_data f p q)"
proof -
  have "linked_levels (queues (upd_data f p q)) = linked_levels (queues q)"
    by (rule linked_levels_cong) simp_all
  moreover have "seg (queues (upd_data f p q)) (q_first q) ls Null = seg (queues q) (q_first q) ls Null" for ls
    by (rule seg_cong) simp_all
  ultimately show ?thesis
    using assms by (auto simp: tql_inv_def q_data_upd_data)
qed

lemma tql_inv_init: "tql_inv (ThreadQueueList_init n)"
  by (simp add: tql_inv_def ThreadQueueList_init_def linked_levels_def linked_def Queue_init_def
      filter_empty_conv)

section \<open>Linking a level keeps the list ordered and complete\<close>

lemma next_nonempty_link_level:
  "p < length (queues q) \<Longrightarrow> i < length (queues q) \<Longrightarrow> i \<noteq> p \<Longrightarrow>
     next_nonempty (queues (link_level p q) ! i)
       = (if link_scan (queues q) p = Some i then Ptr p else next_nonempty (queues q ! i))"
  by (auto simp: link_level_def nth_list_update_if split: option.splits)

lemma link_level_simps [simp]:
  "length (queues (link_level p q)) = length (queues q)"
  by (simp add: link_level_def split: option.splits)

lemma q_data_link_level [simp]:
  "i < length (queues q) \<Longrightarrow> q_data (queues (link_level p q) ! i) = q_data (queues q ! i)"
  by (auto simp: link_level_def nth_list_update_if split: option.splits)

lemma linked_link_level:
  assumes inv: "tql_inv q" and p: "p < length (queues q)" and np: "\<not> linked (queues q) p"
    and i: "i < length (queues q)"
  shows "linked (queues (link_level p q)) i \<longleftrightarrow> i = p \<or> linked (queues q) i"
proof (cases "i = p")
  case True
  have "link_scan (queues q) p = Some j \<Longrightarrow> linked (queues q) j \<and> j \<noteq> p" for j
    using link_scan_Some [of "queues q" p j] by auto
  moreover have "q_first q \<noteq> UnlinkedTag"
    using inv by (cases "linked_levels (queues q)") (auto simp: tql_inv_def)
  ultimately show ?thesis
    using True p by (auto simp: link_level_def linked_def nth_list_update_if split: option.splits)
next
  case False
  then show ?thesis
    using p i link_scan_Some [of "queues q" p i] by (auto simp: linked_def next_nonempty_link_level)
qed

lemma linked_levels_link_level:
  assumes "tql_inv q" "p < length (queues q)" "\<not> linked (queues q) p"
  shows "linked_levels (queues (link_level p q)) =
    filter (linked (queues q)) [0..<p] @ p # filter (linked (queues q)) [Suc p..<length (queues q)]"
proof -
  have "filter (linked (queues (link_level p q))) xs = filter (linked (queues q)) xs"
    if "p \<notin> set xs" "\<forall>x\<in>set xs. x < length (queues q)" for xs
    using that assms by (intro filter_cong) (auto simp: linked_link_level)
  then show ?thesis
    using assms by (simp add: linked_levels_def upt_split_at [of p "length (queues q)"] linked_link_level)
qed

lemma seg_link_level_outside:
  assumes "p < length (queues q)" "p \<notin> set ns" "\<forall>j. link_scan (queues q) p = Some j \<longrightarrow> j \<notin> set ns"
    "\<forall>i\<in>set ns. i < length (queues q)"
  shows "seg (queues (link_level p q)) l ns m = seg (queues q) l ns m"
proof (rule seg_cong)
  fix i assume "i \<in> set ns"
  with assms show "next_nonempty (queues (link_level p q) ! i) = next_nonempty (queues q ! i)"
    by (subst next_nonempty_link_level) auto
qed simp

lemma seg_link_level:
  assumes inv: "tql_inv q" and p: "p < length (queues q)" and np: "\<not> linked (queues q) p"
  shows "seg (queues (link_level p q)) (q_first (link_level p q))
    (linked_levels (queues (link_level p q))) Null"
proof -
  let ?L = "linked (queues q)" and ?n = "length (queues q)"
  let ?hi = "filter ?L [Suc p..<?n]"
  have old: "seg (queues q) (q_first q) (filter ?L [0..<p] @ ?hi) Null"
    using inv p np by (simp add: tql_inv_def linked_levels_def upt_split_at [of p ?n])
  show ?thesis
  proof (cases "link_scan (queues q) p")
    case None
    have "seg (queues (link_level p q)) (q_first q) ?hi Null"
      using old None p link_scan_None [OF None] by (subst seg_link_level_outside) auto
    then show ?thesis
      unfolding linked_levels_link_level [OF assms]
      using None p link_scan_None [OF None] by (simp add: link_level_def)
  next
    case (Some i)
    note i = link_scan_Some [OF Some]
    let ?lo = "filter ?L [0..<i]" and ?k = "next_nonempty (queues q ! i)"
    from old i p have lo: "seg (queues q) (q_first q) ?lo (Ptr i)" and hi: "seg (queues q) ?k ?hi Null"
      by (auto simp: seg_append)
    have "seg (queues (link_level p q)) (q_first q) ?lo (Ptr i)"
      using lo i p Some by (subst seg_link_level_outside) auto
    moreover have "seg (queues (link_level p q)) ?k ?hi Null"
      using hi i p Some by (subst seg_link_level_outside) auto
    moreover have "next_nonempty (queues (link_level p q) ! i) = Ptr p"
      using i p Some by (simp add: next_nonempty_link_level)
    moreover have "next_nonempty (queues (link_level p q) ! p) = ?k"
      using i p Some by (simp add: link_level_def)
    moreover have "q_first (link_level p q) = q_first q" by (simp add: link_level_def Some)
    ultimately show ?thesis
      unfolding linked_levels_link_level [OF assms] using i p by (auto simp: seg_append)
  qed
qed

lemma tql_inv_prepare:
  assumes "tql_inv q" "p < length (queues q)"
  shows "tql_inv (prepare p q)" "linked (queues (prepare p q)) p"
proof -
  have *: "tql_inv (link_level p q)" if "\<not> linked (queues q) p"
    using assms that seg_link_level [OF assms that]
    by (auto simp: tql_inv_def [of "link_level p q"] linked_link_level) (simp add: tql_inv_def)
  show "tql_inv (prepare p q)" "linked (queues (prepare p q)) p"
    using assms * by (auto simp: prepare_def linked_def linked_link_level [unfolded linked_def])
qed


section \<open>The loops return, and find the best level\<close>

lemma find_filter: "(\<And>x. x \<in> set xs \<Longrightarrow> P x \<Longrightarrow> Q x) \<Longrightarrow> find P (filter Q xs) = find P xs"
  by (induction xs) auto

lemma get_first_loop_seg:
  "seg qs l ns Null \<Longrightarrow>
     get_first_loop qs l = Some (map_option (\<lambda>i. hd (q_data (qs ! i))) (find (\<lambda>i. q_data (qs ! i) \<noteq> []) ns))"
  by (induction ns arbitrary: l) (simp_all add: get_first_loop.simps)

lemma pop_first_loop_seg:
  "seg (queues q) l ns Null \<Longrightarrow>
     pop_first_loop q l = Some (case find (\<lambda>i. q_data (queues q ! i) \<noteq> []) ns of
         None \<Rightarrow> (None, q)
       | Some i \<Rightarrow> (Some (hd (q_data (queues q ! i))), pop_front_at q i))"
  by (induction ns arbitrary: l) (simp_all add: pop_first_loop.simps)

lemma pop_first_better_loop_seg:
  "seg (queues q) l ns Null \<Longrightarrow> stop \<in> set ns \<Longrightarrow>
     pop_first_better_loop q stop l =
       Some (case find (\<lambda>i. q_data (queues q ! i) \<noteq> []) (takeWhile (\<lambda>i. i < stop) ns) of
         None \<Rightarrow> (None, q)
       | Some i \<Rightarrow> (Some (hd (q_data (queues q ! i))), pop_front_at q i))"
proof (induction ns arbitrary: l)
  case (Cons i ns)
  then show ?case
    by (subst pop_first_better_loop.simps) (auto simp: below_def)
qed simp

lemma takeWhile_filter_upt:
  assumes "s \<le> n"
  shows "takeWhile (\<lambda>i. i < s) (filter L [0..<n]) = filter L [0..<s]"
proof -
  have "[0..<n] = [0..<s] @ [s..<n]" using assms by (metis le_add_diff_inverse upt_add_eq_append zero_le)
  moreover have "takeWhile (\<lambda>i. i < s) (filter L [s..<n]) = []"
  proof (cases "filter L [s..<n]")
    case (Cons a list)
    then have "a \<in> set (filter L [s..<n])" by simp
    then have "s \<le> a" by simp
    then show ?thesis by (simp add: Cons)
  qed simp
  ultimately show ?thesis by (simp add: takeWhile_append)
qed

definition best_level :: "'a ThreadQueueList \<Rightarrow> nat \<Rightarrow> nat option" where
  "best_level q n = find (\<lambda>i. q_data (queues q ! i) \<noteq> []) [0..<n]"

lemma find_linked_levels:
  assumes "tql_inv q" "s \<le> length (queues q)"
  shows "find (\<lambda>i. q_data (queues q ! i) \<noteq> []) (filter (linked (queues q)) [0..<s]) = best_level q s"
  unfolding best_level_def using assms by (intro find_filter) (auto simp: tql_inv_def)

lemma get_first_best:
  assumes "tql_inv q"
  shows "get_first q =
    Some (map_option (\<lambda>i. hd (q_data (queues q ! i))) (best_level q (length (queues q))))"
  unfolding get_first_def find_linked_levels [OF assms order_refl, symmetric]
  using assms by (subst get_first_loop_seg) (auto simp: tql_inv_def linked_levels_def)

lemma pop_first_best:
  assumes "tql_inv q"
  shows "pop_first q = Some (case best_level q (length (queues q)) of
      None \<Rightarrow> (None, q) | Some i \<Rightarrow> (Some (hd (q_data (queues q ! i))), pop_front_at q i))"
  unfolding pop_first_def find_linked_levels [OF assms order_refl, symmetric]
  using assms by (subst pop_first_loop_seg) (auto simp: tql_inv_def linked_levels_def)

lemma pop_first_better_best:
  assumes "tql_inv q" "p < length (queues q)" "linked (queues q) p"
  shows "pop_first_better q p = Some (case best_level q p of
      None \<Rightarrow> (None, q) | Some i \<Rightarrow> (Some (hd (q_data (queues q ! i))), pop_front_at q i))"
  unfolding pop_first_better_def find_linked_levels [OF assms(1) less_imp_le [OF assms(2)], symmetric]
  using assms takeWhile_filter_upt [of p "length (queues q)" "linked (queues q)"]
  by (subst pop_first_better_loop_seg [where ns = "linked_levels (queues q)"])
    (auto simp: tql_inv_def linked_levels_def)

lemma best_level_None: "best_level q n = None \<longleftrightarrow> (\<forall>i < n. q_data (queues q ! i) = [])"
  by (auto simp: best_level_def find_None_iff)

lemma best_level_SomeI:
  "p < n \<Longrightarrow> q_data (queues q ! p) \<noteq> [] \<Longrightarrow> (\<And>i. i < p \<Longrightarrow> q_data (queues q ! i) = [])
   \<Longrightarrow> best_level q n = Some p"
  by (auto simp: best_level_def find_Some_iff intro!: exI [of _ p])

section \<open>The interface the scheduler relies on\<close>

text \<open>
  The contract of a ready queue: a list per priority level, and operations described by their
  effect on these lists. \<open>prepared\<close> is the precondition of \<open>pop_better\<close> and of the insertions.
\<close>

locale priority_levels =
  fixes inv :: "'q \<Rightarrow> bool" and size_of :: "'q \<Rightarrow> nat" and level :: "'q \<Rightarrow> nat \<Rightarrow> 'a list"
    and prepared :: "'q \<Rightarrow> nat \<Rightarrow> bool"
    and pop :: "'q \<Rightarrow> ('a option \<times> 'q) option"
    and pop_better :: "'q \<Rightarrow> nat \<Rightarrow> ('a option \<times> 'q) option"
    and insert_front insert_back delete :: "nat \<Rightarrow> 'a \<Rightarrow> 'q \<Rightarrow> 'q"
    and prep :: "nat \<Rightarrow> 'q \<Rightarrow> 'q"
  assumes pop_none: "inv q \<Longrightarrow> (\<And>p. p < size_of q \<Longrightarrow> level q p = []) \<Longrightarrow> pop q = Some (None, q)"
    and pop_some: "inv q \<Longrightarrow> p < size_of q \<Longrightarrow> level q p = x # xs
      \<Longrightarrow> (\<And>i. i < p \<Longrightarrow> level q i = [])
      \<Longrightarrow> \<exists>q'. pop q = Some (Some x, q') \<and> inv q' \<and> size_of q' = size_of q
            \<and> level q' = (level q)(p := xs) \<and> prepared q' = prepared q"
    and better_none: "inv q \<Longrightarrow> n < size_of q \<Longrightarrow> prepared q n
      \<Longrightarrow> (\<And>p. p < n \<Longrightarrow> level q p = []) \<Longrightarrow> pop_better q n = Some (None, q)"
    and better_some: "inv q \<Longrightarrow> n < size_of q \<Longrightarrow> prepared q n \<Longrightarrow> p < n \<Longrightarrow> level q p = x # xs
      \<Longrightarrow> (\<And>i. i < p \<Longrightarrow> level q i = [])
      \<Longrightarrow> \<exists>q'. pop_better q n = Some (Some x, q') \<and> inv q' \<and> size_of q' = size_of q
            \<and> level q' = (level q)(p := xs) \<and> prepared q' = prepared q"
    and front_law: "inv q \<Longrightarrow> p < size_of q \<Longrightarrow> prepared q p \<Longrightarrow>
        inv (insert_front p x q) \<and> size_of (insert_front p x q) = size_of q
        \<and> level (insert_front p x q) = (level q)(p := x # level q p)
        \<and> prepared (insert_front p x q) = prepared q"
    and back_law: "inv q \<Longrightarrow> p < size_of q \<Longrightarrow> prepared q p \<Longrightarrow>
        inv (insert_back p x q) \<and> size_of (insert_back p x q) = size_of q
        \<and> level (insert_back p x q) = (level q)(p := level q p @ [x])
        \<and> prepared (insert_back p x q) = prepared q"
    and delete_law: "inv q \<Longrightarrow> p < size_of q \<Longrightarrow>
        inv (delete p x q) \<and> size_of (delete p x q) = size_of q
        \<and> level (delete p x q) = (level q)(p := filter (\<lambda>y. y \<noteq> x) (level q p))
        \<and> prepared (delete p x q) = prepared q"
    and prep_law: "inv q \<Longrightarrow> p < size_of q \<Longrightarrow>
        inv (prep p q) \<and> size_of (prep p q) = size_of q \<and> level (prep p q) = level q
        \<and> prepared (prep p q) = (prepared q)(p := True)"
begin

lemma least_nonempty:
  assumes "\<exists>p < n. level q p \<noteq> []"
  obtains p x xs where "p < n" "level q p = x # xs" "\<And>i. i < p \<Longrightarrow> level q i = []"
proof -
  let ?p = "LEAST p. level q p \<noteq> []"
  have "level q ?p \<noteq> []" using assms by (metis (mono_tags, lifting) LeastI)
  moreover have "i < ?p \<Longrightarrow> level q i = []" for i using not_less_Least by blast
  moreover have "?p < n" using assms by (metis (mono_tags, lifting) Least_le le_less_trans)
  ultimately show ?thesis using that by (metis neq_Nil_conv)
qed

text \<open>Whatever the state, \<open>pop\<close> returns the head of the best level, or nothing when all are empty.\<close>

lemma pop_total:
  assumes "inv q"
  shows "\<exists>r q'. pop q = Some (r, q') \<and> inv q' \<and> size_of q' = size_of q \<and> prepared q' = prepared q
    \<and> (case r of
         None \<Rightarrow> q' = q \<and> (\<forall>p < size_of q. level q p = [])
       | Some x \<Rightarrow> \<exists>p xs. p < size_of q \<and> level q p = x # xs \<and> (\<forall>i < p. level q i = [])
           \<and> level q' = (level q)(p := xs))"
proof (cases "\<exists>p < size_of q. level q p \<noteq> []")
  case True
  then obtain p x xs where *: "p < size_of q" "level q p = x # xs" "\<And>i. i < p \<Longrightarrow> level q i = []"
    using least_nonempty by blast
  from pop_some [OF assms *] * show ?thesis by fastforce
next
  case False
  then show ?thesis using pop_none [OF assms] assms by auto
qed

lemma better_total:
  assumes "inv q" "n < size_of q" "prepared q n"
  shows "\<exists>r q'. pop_better q n = Some (r, q') \<and> inv q' \<and> size_of q' = size_of q
    \<and> prepared q' = prepared q
    \<and> (case r of
         None \<Rightarrow> q' = q \<and> (\<forall>p < n. level q p = [])
       | Some x \<Rightarrow> \<exists>p xs. p < n \<and> level q p = x # xs \<and> (\<forall>i < p. level q i = [])
           \<and> level q' = (level q)(p := xs))"
proof (cases "\<exists>p < n. level q p \<noteq> []")
  case True
  then obtain p x xs where *: "p < n" "level q p = x # xs" "\<And>i. i < p \<Longrightarrow> level q i = []"
    using least_nonempty by blast
  from better_some [OF assms *] * show ?thesis by fastforce
next
  case False
  then show ?thesis using better_none [OF assms] assms by auto
qed

text \<open>Re-queueing at another level, as \<open>move\<close> does.\<close>

lemma requeue:
  assumes "inv q" "a < size_of q" "b < size_of q"
  shows "let q' = insert_back b x (prep b (delete a x q)) in inv q' \<and> size_of q' = size_of q \<and> prepared q' = (prepared q)(b := True)
    \<and> level q' = (let l = (level q)(a := filter (\<lambda>y. y \<noteq> x) (level q a)) in l(b := l b @ [x]))"
  using assms delete_law [of q a x] prep_law [of "delete a x q" b] back_law [of "prep b (delete a x q)" b x]
  by (simp add: Let_def)

end

definition tql_level :: "'a ThreadQueueList \<Rightarrow> nat \<Rightarrow> 'a list" where
  "tql_level q p = (if p < length (queues q) then q_data (queues q ! p) else [])"

definition tql_prepared :: "'a ThreadQueueList \<Rightarrow> nat \<Rightarrow> bool" where
  "tql_prepared q p \<longleftrightarrow> p < length (queues q) \<and> linked (queues q) p"

lemma tql_level_upd_data:
  "p < length (queues q) \<Longrightarrow> tql_level (upd_data f p q) = (tql_level q)(p := f (tql_level q p))"
  by (rule ext) (simp add: tql_level_def q_data_upd_data)

lemma tql_prepared_upd_data [simp]: "tql_prepared (upd_data f p q) = tql_prepared q"
  by (rule ext) (simp add: tql_prepared_def)

lemma tql_prepare:
  assumes "tql_inv q" "p < length (queues q)"
  shows "tql_level (prepare p q) = tql_level q" "length (queues (prepare p q)) = length (queues q)"
    "tql_prepared (prepare p q) = (tql_prepared q)(p := True)"
proof -
  show len: "length (queues (prepare p q)) = length (queues q)" by (simp add: prepare_def)
  show "tql_level (prepare p q) = tql_level q"
    by (rule ext) (simp add: prepare_def tql_level_def)
  show "tql_prepared (prepare p q) = (tql_prepared q)(p := True)"
    using assms len
    by (intro ext) (auto simp: prepare_def tql_prepared_def linked_link_level linked_def [of "queues q" p])
qed

lemma tql_pop_step:
  assumes "tql_inv q" "p < length (queues q)" "tql_level q p = x # xs"
  shows "tql_inv (pop_front_at q p)" "tql_level (pop_front_at q p) = (tql_level q)(p := xs)"
    "tql_prepared (pop_front_at q p) = tql_prepared q" "length (queues (pop_front_at q p)) = length (queues q)"
    "hd (q_data (queues q ! p)) = x"
  using assms by (auto simp: pop_front_at_upd tql_level_upd_data tql_inv_upd_data) (simp add: tql_level_def)

interpretation tql: priority_levels tql_inv "\<lambda>q. length (queues q)" tql_level tql_prepared
    pop_first pop_first_better push_front push_back tql_remove prepare
proof (unfold_locales, goal_cases)
  case (1 q)
  then have "best_level q (length (queues q)) = None" by (auto simp: best_level_None tql_level_def)
  with 1 show ?case by (simp add: pop_first_best)
next
  case (2 q p x xs)
  have "best_level q (length (queues q)) = Some p"
    using 2(2-4) by (intro best_level_SomeI) (auto simp: tql_level_def)
  with 2 tql_pop_step [OF 2(1-3)] show ?case by (simp add: pop_first_best)
next
  case (3 q n)
  then have "best_level q n = None" by (auto simp: best_level_None tql_level_def)
  with 3 show ?case by (simp add: pop_first_better_best tql_prepared_def)
next
  case (4 q n p x xs)
  then have p: "p < length (queues q)" by simp
  have "best_level q n = Some p"
    using 4 by (intro best_level_SomeI) (auto simp: tql_level_def)
  with 4 tql_pop_step [OF 4(1) p 4(5)] show ?case by (simp add: pop_first_better_best tql_prepared_def)
next
  case (5 q p x)
  then show ?case by (simp add: push_front_def tql_level_upd_data tql_inv_upd_data tql_prepared_def)
next
  case (6 q p x)
  then show ?case by (simp add: push_back_def tql_level_upd_data tql_inv_upd_data tql_prepared_def)
next
  case (7 q p x)
  then show ?case by (simp add: tql_remove_def tql_level_upd_data tql_inv_upd_data)
next
  case (8 q p)
  then show ?case by (simp add: tql_inv_prepare tql_prepare)
qed


section \<open>Properties\<close>

lemma ToPointer_ToIndex [simp]: "ToPointer (ToIndex l) = l"
  by (cases l) (simp_all add: ToPointer_def ToIndex_def)

lemma tql_inv_move:
  assumes "tql_inv q" "a < length (queues q)" "b < length (queues q)"
  shows "tql_inv (tql_move x a b q)"
  using tql.requeue [OF assms, of x] by (simp add: tql_move_def Let_def)

text \<open>
  \<^verbatim>\<open>pop_first\<close> always returns; it hands out the front thread of the lowest-numbered non-empty
  level and takes exactly that thread out, or returns null when every level is empty.
\<close>
theorem pop_first_takes_best_thread:
  assumes "tql_inv q"
  shows "\<exists>r q'. pop_first q = Some (r, q') \<and> tql_inv q'
    \<and> (case r of
         None \<Rightarrow> q' = q \<and> (\<forall>p < length (queues q). tql_level q p = [])
       | Some x \<Rightarrow> \<exists>p xs. p < length (queues q) \<and> tql_level q p = x # xs
           \<and> (\<forall>i < p. tql_level q i = []) \<and> tql_level q' = (tql_level q)(p := xs))"
  using tql.pop_total [OF assms] by blast

theorem pop_first_takes_best_thread_witness:
  "tql_inv (push_back 1 (7::nat) (prepare 1 (ThreadQueueList_init 4)))
   \<and> (\<exists>r q'. pop_first (push_back 1 (7::nat) (prepare 1 (ThreadQueueList_init 4))) = Some (r, q') \<and> tql_inv q')"
proof -
  have l: "(1::nat) < length (queues (ThreadQueueList_init 4 :: nat ThreadQueueList))"
    by (simp add: ThreadQueueList_init_def)
  have i: "tql_inv (push_back 1 (7::nat) (prepare 1 (ThreadQueueList_init 4)))"
    using tql_inv_prepare [OF tql_inv_init l] by (simp add: push_back_def tql_inv_upd_data)
  show ?thesis using i pop_first_takes_best_thread [OF i] by blast
qed

text \<open>
  \<^verbatim>\<open>pop_first_better\<close>, whose loop compares raw pointers and has no test for null, never leaves
  the array when its level was prepared: it returns the front thread of the best level strictly
  below the given one, or null, and leaves the levels from the given one on untouched.
\<close>
theorem pop_first_better_safe:
  assumes "tql_inv q" "tql_prepared q n"
  shows "\<exists>r q'. pop_first_better q n = Some (r, q') \<and> tql_inv q'
    \<and> (\<forall>p \<ge> n. tql_level q' p = tql_level q p)
    \<and> (case r of
         None \<Rightarrow> q' = q \<and> (\<forall>p < n. tql_level q p = [])
       | Some x \<Rightarrow> \<exists>p xs. p < n \<and> tql_level q p = x # xs \<and> (\<forall>i < p. tql_level q i = [])
           \<and> tql_level q' = (tql_level q)(p := xs))"
  using tql.better_total [OF assms(1) _ assms(2)] assms(2)
  by (fastforce simp: tql_prepared_def split: option.splits)

theorem pop_first_better_safe_witness:
  "tql_inv (prepare 2 (ThreadQueueList_init 4 :: nat ThreadQueueList))
   \<and> tql_prepared (prepare 2 (ThreadQueueList_init 4 :: nat ThreadQueueList)) 2
   \<and> (\<exists>r q'. pop_first_better (prepare 2 (ThreadQueueList_init 4 :: nat ThreadQueueList)) 2 = Some (r, q'))"
proof -
  have l: "(2::nat) < length (queues (ThreadQueueList_init 4 :: nat ThreadQueueList))"
    by (simp add: ThreadQueueList_init_def)
  have a: "tql_inv (prepare 2 (ThreadQueueList_init 4 :: nat ThreadQueueList))"
    and b: "tql_prepared (prepare 2 (ThreadQueueList_init 4 :: nat ThreadQueueList)) 2"
    using tql_inv_prepare [OF tql_inv_init l] tql_prepare [OF tql_inv_init l] by simp_all
  show ?thesis using a b pop_first_better_safe [OF a b] by blast
qed

text \<open>
  loading a saved queue gives the queue back: the levels, their contents and every link,
  with null, the never-used tag and the pointers kept apart by \<^verbatim>\<open>ToIndex\<close> and \<^verbatim>\<open>ToPointer\<close>.
\<close>
theorem tql_load_save: "tql_load (tql_save q) = (q :: 'a ThreadQueueList)"
proof -
  have "\<lparr>next_nonempty = next_nonempty c, q_data = q_data c\<rparr> = c" for c :: "'a Queue"
    by (cases c) simp
  then have "map (\<lambda>c. \<lparr>next_nonempty = next_nonempty c, q_data = q_data c\<rparr>) qs = qs" for qs :: "'a Queue list"
    by (intro map_idI)
  then show ?thesis by (cases q) (simp add: tql_load_def tql_save_def comp_def)
qed

end
