(* ===== verification/Core_Timing.thy ===== *)
theory Core_Timing
  imports Prelude
begin

text \<open>
  \<^verbatim>\<open>Core::Timing\<close> of \<^verbatim>\<open>src/src/core/core_timing.{h,cpp}\<close>: the conversions between time and cycles,
  the per-core timers and the queue of scheduled events.

  Signed and unsigned 64-bit values are integers, with the wrap-around of every operation written
  out. \<^verbatim>\<open>event_queue\<close> is a heap whose only element the code reads is the front, the least by time
  and order of arrival; it is kept here as the list in that order. Event types are numbers, their
  callbacks an argument of \<open>Advance\<close>. The overloads on floating-point numbers are not modelled, and
  \<open>AddTicks\<close> takes the already scaled number of ticks.
\<close>

section \<open>Time and cycles\<close>

definition BASE_CLOCK_RATE_ARM11 :: int where "BASE_CLOCK_RATE_ARM11 = 268111856"

definition MAX_VALUE_TO_MULTIPLY :: int where
  "MAX_VALUE_TO_MULTIPLY = (2 ^ 63 - 1) div BASE_CLOCK_RATE_ARM11"

text \<open>\<^verbatim>\<open>BASE_CLOCK_RATE_ARM11\<close> is a \<^verbatim>\<open>u64\<close>, so each product and quotient with it is unsigned.\<close>

definition msToCycles_int :: "int \<Rightarrow> int" where
  "msToCycles_int ms = to_s64 (to_u64 (BASE_CLOCK_RATE_ARM11 * ms) div 1000)"

definition usToCycles_int :: "int \<Rightarrow> int" where
  "usToCycles_int us = to_s64 (to_u64 (BASE_CLOCK_RATE_ARM11 * us) div 1000000)"

definition usToCycles_s64 :: "int \<Rightarrow> int" where
  "usToCycles_s64 us =
     (if cdiv us 1000000 > MAX_VALUE_TO_MULTIPLY then 2 ^ 63 - 1
      else if us > MAX_VALUE_TO_MULTIPLY then to_s64 (to_u64 (BASE_CLOCK_RATE_ARM11 * cdiv us 1000000))
      else to_s64 (to_u64 (BASE_CLOCK_RATE_ARM11 * us) div 1000000))"

definition usToCycles_u64 :: "int \<Rightarrow> int" where
  "usToCycles_u64 us =
     (if us div 1000000 > MAX_VALUE_TO_MULTIPLY then 2 ^ 63 - 1
      else if us > MAX_VALUE_TO_MULTIPLY then to_s64 (to_u64 (BASE_CLOCK_RATE_ARM11 * to_s64 (us div 1000000)))
      else to_s64 (to_u64 (BASE_CLOCK_RATE_ARM11 * to_s64 us) div 1000000))"

definition nsToCycles_int :: "int \<Rightarrow> int" where
  "nsToCycles_int ns = to_s64 (to_u64 (BASE_CLOCK_RATE_ARM11 * ns) div 1000000000)"

definition nsToCycles_s64 :: "int \<Rightarrow> int" where
  "nsToCycles_s64 ns =
     (if cdiv ns 1000000000 > MAX_VALUE_TO_MULTIPLY then 2 ^ 63 - 1
      else if ns > MAX_VALUE_TO_MULTIPLY then to_s64 (to_u64 (BASE_CLOCK_RATE_ARM11 * cdiv ns 1000000000))
      else to_s64 (to_u64 (BASE_CLOCK_RATE_ARM11 * ns) div 1000000000))"

text \<open>The \<^verbatim>\<open>u64\<close> overload converts to \<^verbatim>\<open>s64\<close> before it divides.\<close>

definition nsToCycles_u64 :: "int \<Rightarrow> int" where
  "nsToCycles_u64 ns =
     (if ns div 1000000000 > MAX_VALUE_TO_MULTIPLY then 2 ^ 63 - 1
      else if ns > MAX_VALUE_TO_MULTIPLY then to_s64 (to_u64 (BASE_CLOCK_RATE_ARM11 * cdiv (to_s64 ns) 1000000000))
      else to_s64 (to_u64 (BASE_CLOCK_RATE_ARM11 * to_s64 ns) div 1000000000))"

text \<open>The product with the factor is signed; its overflow, which C++ leaves undefined, is \<open>None\<close>.\<close>

definition cyclesTo :: "int \<Rightarrow> int \<Rightarrow> int run" where
  "cyclesTo factor cycles = do {
     ASSERT (- (2 ^ 63) \<le> cycles * factor \<and> cycles * factor < 2 ^ 63);
     Some (to_u64 (cycles * factor) div BASE_CLOCK_RATE_ARM11)
   }"

definition cyclesToNs :: "int \<Rightarrow> int run" where "cyclesToNs cycles = cyclesTo 1000000000 cycles"
definition cyclesToUs :: "int \<Rightarrow> int run" where "cyclesToUs cycles = map_option to_s64 (cyclesTo 1000000 cycles)"
definition cyclesToMs :: "int \<Rightarrow> int run" where "cyclesToMs cycles = cyclesTo 1000 cycles"

section \<open>Events and timers\<close>

record Event =
  ev_time :: int
  fifo_order :: nat
  userdata :: nat
  ev_type :: nat

definition event_less :: "Event \<Rightarrow> Event \<Rightarrow> bool" where
  "event_less l r \<longleftrightarrow> ev_time l < ev_time r \<or> ev_time l = ev_time r \<and> fifo_order l < fifo_order r"

definition MAX_SLICE_LENGTH :: int where "MAX_SLICE_LENGTH = BASE_CLOCK_RATE_ARM11 div 234"

record Timer =
  event_queue :: "Event list"
  event_fifo_id :: nat
  ts_queue :: "Event list"
  is_timer_sane :: bool
  slice_length :: int
  downcount :: int
  executed_ticks :: int
  idled_cycles :: int

definition Timer_init :: Timer where
  "Timer_init = \<lparr>event_queue = [], event_fifo_id = 0, ts_queue = [], is_timer_sane = True,
     slice_length = MAX_SLICE_LENGTH, downcount = MAX_SLICE_LENGTH, executed_ticks = 0, idled_cycles = 0\<rparr>"

fun push_heap :: "Event \<Rightarrow> Event list \<Rightarrow> Event list" where
  "push_heap e [] = [e]"
| "push_heap e (x # xs) = (if event_less e x then e # x # xs else x # push_heap e xs)"

definition next_fifo :: "Timer \<Rightarrow> nat" where
  "next_fifo t = (event_fifo_id t + 1) mod 2 ^ 64"

definition GetTicks :: "Timer \<Rightarrow> int" where
  "GetTicks t = to_u64 (to_u64 (executed_ticks t) + (if is_timer_sane t then 0 else slice_length t - downcount t))"

definition AddTicks :: "int \<Rightarrow> Timer \<Rightarrow> Timer" where
  "AddTicks scaled t = t\<lparr>downcount := to_s64 (to_u64 (downcount t) - scaled)\<rparr>"

definition GetIdleTicks :: "Timer \<Rightarrow> int" where "GetIdleTicks t = idled_cycles t"

definition ForceExceptionCheck :: "int \<Rightarrow> Timer \<Rightarrow> Timer" where
  "ForceExceptionCheck cycles t =
     (let cycles = max 0 cycles
      in if downcount t > cycles
         then t\<lparr>slice_length := slice_length t - (downcount t - cycles), downcount := cycles\<rparr> else t)"

definition move_event :: "Timer \<Rightarrow> Event \<Rightarrow> Timer" where
  "move_event t ev = t\<lparr>event_queue := push_heap (ev\<lparr>fifo_order := event_fifo_id t\<rparr>) (event_queue t),
                       event_fifo_id := next_fifo t\<rparr>"

definition MoveEvents :: "Timer \<Rightarrow> Timer" where
  "MoveEvents t = foldl move_event (t\<lparr>ts_queue := []\<rparr>) (ts_queue t)"

definition GetMaxSliceLength :: "Timer \<Rightarrow> int run" where
  "GetMaxSliceLength t =
     (case event_queue t of
        [] \<Rightarrow> Some MAX_SLICE_LENGTH
      | e # _ \<Rightarrow> do { ASSERT (ev_time e - executed_ticks t > 0); Some (ev_time e - executed_ticks t) })"

definition SetNextSlice :: "int \<Rightarrow> Timer \<Rightarrow> Timer" where
  "SetNextSlice max_slice_length t =
     (let s = (case event_queue t of [] \<Rightarrow> max_slice_length
               | e # _ \<Rightarrow> to_s32 (min (ev_time e - executed_ticks t) max_slice_length))
      in t\<lparr>slice_length := s, downcount := s\<rparr>)"

definition Idle :: "Timer \<Rightarrow> Timer" where
  "Idle t = t\<lparr>idled_cycles := to_u64 (idled_cycles t + downcount t), downcount := 0\<rparr>"

definition GetDowncount :: "Timer \<Rightarrow> int" where "GetDowncount t = downcount t"

section \<open>Timing\<close>

record Timing =
  timers :: "Timer list"
  current_timer :: nat

definition Timing_init :: "nat \<Rightarrow> Timing" where
  "Timing_init num_cores = \<lparr>timers = replicate num_cores Timer_init, current_timer = 0\<rparr>"

definition upd_timer :: "nat \<Rightarrow> (Timer \<Rightarrow> Timer) \<Rightarrow> Timing \<Rightarrow> Timing" where
  "upd_timer i f tm = tm\<lparr>timers := (timers tm)[i := f (timers tm ! i)]\<rparr>"

text \<open>\<open>core = None\<close> is the default argument, the current core.\<close>

definition ScheduleEvent :: "int \<Rightarrow> nat \<Rightarrow> nat \<Rightarrow> nat option \<Rightarrow> Timing \<Rightarrow> Timing run" where
  "ScheduleEvent cycles_into_future event_type data core tm = do {
     let i = (case core of None \<Rightarrow> current_timer tm | Some c \<Rightarrow> c);
     ASSERT (i < length (timers tm));
     let timeout = to_s64 (GetTicks (timers tm ! i) + cycles_into_future);
     Some (if current_timer tm = i then
       upd_timer i (\<lambda>t.
         let t = (if is_timer_sane t then t else ForceExceptionCheck cycles_into_future t)
         in t\<lparr>event_queue := push_heap \<lparr>ev_time = timeout, fifo_order = event_fifo_id t, userdata = data, ev_type = event_type\<rparr>
                              (event_queue t),
              event_fifo_id := next_fifo t\<rparr>) tm
     else
       upd_timer i (\<lambda>t. t\<lparr>ts_queue := ts_queue t @
         [\<lparr>ev_time = timeout, fifo_order = 0, userdata = data, ev_type = event_type\<rparr>]\<rparr>) tm)
   }"

definition UnscheduleEvent :: "nat \<Rightarrow> nat \<Rightarrow> Timing \<Rightarrow> Timing" where
  "UnscheduleEvent event_type data tm =
     tm\<lparr>timers := map (\<lambda>t. t\<lparr>event_queue := filter (\<lambda>e. \<not> (ev_type e = event_type \<and> userdata e = data)) (event_queue t)\<rparr>)
                      (timers tm)\<rparr>"

definition RemoveEvent :: "nat \<Rightarrow> Timing \<Rightarrow> Timing" where
  "RemoveEvent event_type tm =
     tm\<lparr>timers := map (\<lambda>t. t\<lparr>event_queue := filter (\<lambda>e. ev_type e \<noteq> event_type) (event_queue t)\<rparr>) (timers tm)\<rparr>"

definition SetCurrentTimer :: "nat \<Rightarrow> Timing \<Rightarrow> Timing" where
  "SetCurrentTimer core_id tm = tm\<lparr>current_timer := core_id\<rparr>"

text \<open>\<^verbatim>\<open>std::max_element\<close>; with no timers the iterator it returns is not valid.\<close>

definition GetGlobalTicks :: "Timing \<Rightarrow> int run" where
  "GetGlobalTicks tm =
     (case map GetTicks (timers tm) of [] \<Rightarrow> None | x # xs \<Rightarrow> Some (to_s64 (foldl max x xs)))"

definition GetGlobalTimeUs :: "Timing \<Rightarrow> int run" where
  "GetGlobalTimeUs tm = do { t \<leftarrow> GetGlobalTicks tm; map_option to_s64 (cyclesTo 1000000 t) }"

text \<open>
  \<open>Advance\<close> on timer \<open>i\<close>. A callback gets the event's user data and how late it runs, truncated to
  \<^verbatim>\<open>int\<close>; it may change the world \<open>'w\<close> and the timing itself. The loop need not end.
\<close>

definition begin_slice :: "Timer \<Rightarrow> Timer" where
  "begin_slice t =
     (let t = MoveEvents t
      in t\<lparr>idled_cycles := 0, executed_ticks := executed_ticks t + (slice_length t - downcount t),
           slice_length := 0, downcount := 0, is_timer_sane := True\<rparr>)"

partial_function (option) advance_loop ::
    "(Event \<Rightarrow> int \<Rightarrow> 'w \<times> Timing \<Rightarrow> 'w \<times> Timing) \<Rightarrow> nat \<Rightarrow> 'w \<times> Timing \<Rightarrow> ('w \<times> Timing) run" where
  "advance_loop callback i s =
     (case event_queue (timers (snd s) ! i) of
        [] \<Rightarrow> Some s
      | e # q \<Rightarrow>
          if ev_time e \<le> executed_ticks (timers (snd s) ! i)
          then advance_loop callback i
                 (callback e (to_s32 (executed_ticks (timers (snd s) ! i) - ev_time e))
                    (fst s, upd_timer i (\<lambda>t. t\<lparr>event_queue := q\<rparr>) (snd s)))
          else Some s)"

definition Advance ::
    "(Event \<Rightarrow> int \<Rightarrow> 'w \<times> Timing \<Rightarrow> 'w \<times> Timing) \<Rightarrow> nat \<Rightarrow> 'w \<times> Timing \<Rightarrow> ('w \<times> Timing) run" where
  "Advance callback i s = do {
     s \<leftarrow> advance_loop callback i (fst s, upd_timer i begin_slice (snd s));
     Some (fst s, upd_timer i (\<lambda>t. t\<lparr>is_timer_sane := False\<rparr>) (snd s))
   }"


section \<open>Conversions\<close>

lemma clock_consts: "MAX_VALUE_TO_MULTIPLY = 34401209161"
  by (simp add: MAX_VALUE_TO_MULTIPLY_def BASE_CLOCK_RATE_ARM11_def)

text \<open>C39: For every non-negative signed number of nanoseconds the conversion to cycles does not
  overflow and rounds down: it is exact up to 34.4 seconds, and above that it is too low by at most
  one second's worth of cycles.\<close>

theorem nsToCycles_bounds:
  assumes "0 \<le> ns" "ns < 2 ^ 63"
  shows "0 \<le> nsToCycles_s64 ns \<and> nsToCycles_s64 ns < 2 ^ 63
    \<and> (ns \<le> MAX_VALUE_TO_MULTIPLY \<longrightarrow> nsToCycles_s64 ns = BASE_CLOCK_RATE_ARM11 * ns div 1000000000)
    \<and> nsToCycles_s64 ns \<le> BASE_CLOCK_RATE_ARM11 * ns div 1000000000
    \<and> BASE_CLOCK_RATE_ARM11 * ns div 1000000000 \<le> nsToCycles_s64 ns + BASE_CLOCK_RATE_ARM11"
proof (cases "ns \<le> MAX_VALUE_TO_MULTIPLY")
  case True
  then have b: "268111856 * ns < 2 ^ 63" by (simp add: clock_consts)
  have "cdiv ns 1000000000 \<le> ns" using assms by (simp add: cdiv_pos)
  then have "nsToCycles_s64 ns = to_s64 (to_u64 (268111856 * ns) div 1000000000)"
    using True by (simp add: nsToCycles_s64_def BASE_CLOCK_RATE_ARM11_def)
  also have "\<dots> = 268111856 * ns div 1000000000"
    using b assms by (simp add: to_unsigned_id to_s64_id)
  finally have r: "nsToCycles_s64 ns = 268111856 * ns div 1000000000" .
  define x where "x = 268111856 * ns"
  have "0 \<le> x" "x < 2 ^ 63" using b assms(1) by (simp_all add: x_def)
  moreover from \<open>0 \<le> x\<close> have "0 \<le> x div 1000000000" "x div 1000000000 \<le> x"
    using zdiv_mono2 [of x 1 1000000000] by (simp_all add: pos_imp_zdiv_nonneg_iff)
  ultimately have "0 \<le> x div 1000000000 \<and> x div 1000000000 < 2 ^ 63" by linarith
  then show ?thesis using r True by (simp add: BASE_CLOCK_RATE_ARM11_def x_def [symmetric])
next
  case False
  define q where "q = ns div 1000000000"
  have q: "0 \<le> q" "1000000000 * q \<le> ns" "ns < 1000000000 * q + 1000000000" "q \<le> 9223372036"
    using assms by (simp_all add: q_def)
  have "nsToCycles_s64 ns = to_s64 (to_u64 (268111856 * q))"
    using False q assms by (simp add: nsToCycles_s64_def cdiv_pos clock_consts BASE_CLOCK_RATE_ARM11_def q_def)
  also have "\<dots> = 268111856 * q" using q by (simp add: to_unsigned_id to_s64_id)
  finally have r: "nsToCycles_s64 ns = 268111856 * q" .
  have "268111856 * q * 1000000000 div 1000000000 \<le> 268111856 * ns div 1000000000"
    "268111856 * ns div 1000000000 \<le> 268111856 * (q + 1) * 1000000000 div 1000000000"
    using q by (intro zdiv_mono1; simp)+
  then have "268111856 * q \<le> 268111856 * ns div 1000000000" "268111856 * ns div 1000000000 \<le> 268111856 * (q + 1)"
    by simp_all
  then show ?thesis using r q False unfolding BASE_CLOCK_RATE_ARM11_def by simp
qed

theorem nsToCycles_bounds_witness: "nsToCycles_s64 1000000000 = 268111856"
  using nsToCycles_bounds [of 1000000000] by (simp add: clock_consts BASE_CLOCK_RATE_ARM11_def)

text \<open>The \<^verbatim>\<open>u64\<close> overload of the conversion returns a negative number of cycles for delays of
  \<open>2\<^sup>6\<^sup>3\<close> nanoseconds and more, up to \<open>2\<^sup>6\<^sup>4\<close> less one second: they pass the overflow test and are
  converted to a signed number before the division.\<close>

theorem nsToCycles_u64_negative:
  assumes "2 ^ 63 \<le> ns" "ns \<le> 2 ^ 64 - 1000000000"
  shows "nsToCycles_u64 ns < 0"
proof -
  have s: "to_s64 ns = ns - 2 ^ 64"
  proof -
    have "(ns + 2 ^ 63) mod 2 ^ 64 = (ns - 2 ^ 63 + 2 ^ 64) mod 2 ^ 64" by (simp add: add.commute)
    also have "\<dots> = ns - 2 ^ 63" using assms by (simp only: mod_add_self2) simp
    finally show ?thesis by (simp add: to_signed_def)
  qed
  define q where "q = (2 ^ 64 - ns) div 1000000000"
  have q: "1 \<le> q" "q \<le> 9223372036" using assms by (simp_all add: q_def)
  have c: "cdiv (to_s64 ns) 1000000000 = - q" using s assms by (simp add: cdiv_def q_def)
  have "ns div 1000000000 \<le> 34401209161" using assms by simp
  then have "nsToCycles_u64 ns = to_s64 (to_u64 (- (268111856 * q)))"
    using assms c by (simp add: nsToCycles_u64_def clock_consts BASE_CLOCK_RATE_ARM11_def)
  also have "\<dots> = to_s64 (- (268111856 * q))" by (simp add: to_signed_def to_unsigned_def mod_simps)
  also have "\<dots> = - (268111856 * q)" using q by (intro to_s64_id) simp_all
  finally show ?thesis using q by simp
qed

theorem nsToCycles_u64_negative_witness: "nsToCycles_u64 (2 ^ 63) < 0"
  using nsToCycles_u64_negative [of "2 ^ 63"] by simp


section \<open>The event queue\<close>

definition timer_inv :: "Timer \<Rightarrow> bool" where
  "timer_inv t \<longleftrightarrow> sorted_wrt event_less (event_queue t) \<and> (\<forall>e \<in> set (event_queue t). fifo_order e < event_fifo_id t)"

lemma event_less_trans: "event_less a b \<Longrightarrow> event_less b c \<Longrightarrow> event_less a c"
  by (auto simp: event_less_def)

lemma event_less_linear: "fifo_order a \<noteq> fifo_order b \<Longrightarrow> \<not> event_less a b \<Longrightarrow> event_less b a"
  by (auto simp: event_less_def)

lemma set_push_heap [simp]: "set (push_heap e q) = insert e (set q)"
  by (induction q) auto

lemma push_heap_split: "\<exists>xs ys. q = xs @ ys \<and> push_heap e q = xs @ e # ys"
proof (induction q)
  case (Cons x q)
  then obtain xs ys where "q = xs @ ys" "push_heap e q = xs @ e # ys" by blast
  then have "x # q = (x # xs) @ ys \<and> x # push_heap e q = (x # xs) @ e # ys" by simp
  moreover have "x # q = [] @ (x # q) \<and> e # x # q = [] @ e # (x # q)" by simp
  ultimately show ?case unfolding push_heap.simps by metis
qed simp

lemma sorted_push_heap:
  "sorted_wrt event_less q \<Longrightarrow> \<forall>x \<in> set q. fifo_order x \<noteq> fifo_order e \<Longrightarrow> sorted_wrt event_less (push_heap e q)"
  by (induction q) (auto intro: event_less_trans dest: event_less_linear)

text \<open>Pushing an event with a fresh order number and removing events keep the queue ordered.\<close>

lemma timer_inv_push:
  assumes "timer_inv t" "event_fifo_id t < 2 ^ 64 - 1" "fifo_order e = event_fifo_id t"
  shows "timer_inv (t\<lparr>event_queue := push_heap e (event_queue t), event_fifo_id := next_fifo t\<rparr>)"
proof -
  have n: "next_fifo t = Suc (event_fifo_id t)" using assms(2) by (simp add: next_fifo_def)
  have "sorted_wrt event_less (push_heap e (event_queue t))"
    using assms by (intro sorted_push_heap) (auto simp: timer_inv_def)
  with assms n show ?thesis by (auto simp: timer_inv_def less_Suc_eq)
qed

lemma timer_inv_filter: "timer_inv t \<Longrightarrow> timer_inv (t\<lparr>event_queue := filter P (event_queue t)\<rparr>)"
  by (auto simp: timer_inv_def sorted_wrt_filter)

lemma timer_inv_cong: "event_queue t' = event_queue t \<Longrightarrow> event_fifo_id t' = event_fifo_id t \<Longrightarrow> timer_inv t' = timer_inv t"
  by (simp add: timer_inv_def)

lemma timer_inv_move_events:
  "timer_inv t \<Longrightarrow> event_fifo_id t + length evs < 2 ^ 64 \<Longrightarrow> timer_inv (foldl move_event t evs)"
proof (induction evs arbitrary: t)
  case (Cons ev evs)
  have m: "move_event t ev = t\<lparr>event_queue := push_heap (ev\<lparr>fifo_order := event_fifo_id t\<rparr>) (event_queue t),
      event_fifo_id := next_fifo t\<rparr>" by (simp add: move_event_def)
  have "timer_inv (move_event t ev)" unfolding m using Cons.prems by (intro timer_inv_push) auto
  moreover have "event_fifo_id (move_event t ev) = Suc (event_fifo_id t)"
    using Cons.prems by (simp add: m next_fifo_def)
  ultimately show ?case using Cons by simp
qed simp

lemma GetTicks_ForceExceptionCheck [simp]: "GetTicks (ForceExceptionCheck c t) = GetTicks t"
  by (simp add: GetTicks_def ForceExceptionCheck_def Let_def)

lemma ForceExceptionCheck_simps [simp]:
  "event_queue (ForceExceptionCheck c t) = event_queue t" "event_fifo_id (ForceExceptionCheck c t) = event_fifo_id t"
  "is_timer_sane (ForceExceptionCheck c t) = is_timer_sane t" "executed_ticks (ForceExceptionCheck c t) = executed_ticks t"
  by (simp_all add: ForceExceptionCheck_def Let_def)

lemma downcount_ForceExceptionCheck: "downcount (ForceExceptionCheck c t) \<le> max 0 c"
  by (simp add: ForceExceptionCheck_def Let_def max_def)

lemma GetTicks_queue [simp]: "GetTicks (t\<lparr>event_queue := q, event_fifo_id := n\<rparr>) = GetTicks t"
  by (simp add: GetTicks_def)

lemma timers_init: "i < n \<Longrightarrow> timers (Timing_init n) ! i = Timer_init" "length (timers (Timing_init n)) = n"
  "current_timer (Timing_init n) = 0"
  by (simp_all add: Timing_init_def)

lemma timer_inv_init: "timer_inv Timer_init" "event_fifo_id Timer_init = 0"
  by (simp_all add: timer_inv_def Timer_init_def)

lemma push_heap_after:
  assumes "sorted_wrt event_less q" "\<forall>x \<in> set q. fifo_order x < fifo_order e"
  shows "push_heap e q = takeWhile (\<lambda>x. ev_time x \<le> ev_time e) q @ e # dropWhile (\<lambda>x. ev_time x \<le> ev_time e) q"
  using assms by (induction q) (auto simp: event_less_def)

text \<open>What scheduling on the running core adds, without an assumption on the queue.\<close>

lemma ScheduleEvent_running:
  assumes "current_timer tm < length (timers tm)"
  shows "\<exists>tm'. ScheduleEvent c ty d None tm = Some tm' \<and> current_timer tm' = current_timer tm \<and> length (timers tm') = length (timers tm)
    \<and> event_queue (timers tm' ! current_timer tm) =
        push_heap \<lparr>ev_time = to_s64 (GetTicks (timers tm ! current_timer tm) + c), fifo_order = event_fifo_id (timers tm ! current_timer tm),
          userdata = d, ev_type = ty\<rparr> (event_queue (timers tm ! current_timer tm))
    \<and> is_timer_sane (timers tm' ! current_timer tm) = is_timer_sane (timers tm ! current_timer tm)
    \<and> executed_ticks (timers tm' ! current_timer tm) = executed_ticks (timers tm ! current_timer tm)
    \<and> (\<forall>j. j \<noteq> current_timer tm \<longrightarrow> timers tm' ! j = timers tm ! j)"
  using assms by (simp add: ScheduleEvent_def upd_timer_def Let_def)

text \<open>Scheduling an event on the running core always succeeds. The event is queued for the current
  tick count plus the delay, behind every event due no later and before every other, no other event
  is lost, the tick count does not change, and, when the core is inside a slice, the slice is cut so
  that it ends no later than the event.\<close>

theorem ScheduleEvent_queues:
  assumes "timer_inv (timers tm ! i)" "event_fifo_id (timers tm ! i) < 2 ^ 64 - 1" "i < length (timers tm)"
    and "current_timer tm = i" and "core = None \<or> core = Some i"
  shows "\<exists>tm' e. ScheduleEvent c ty d core tm = Some tm' \<and> timer_inv (timers tm' ! i)
    \<and> ev_type e = ty \<and> userdata e = d \<and> ev_time e = to_s64 (GetTicks (timers tm ! i) + c)
    \<and> event_queue (timers tm' ! i) = takeWhile (\<lambda>x. ev_time x \<le> ev_time e) (event_queue (timers tm ! i))
         @ e # dropWhile (\<lambda>x. ev_time x \<le> ev_time e) (event_queue (timers tm ! i))
    \<and> GetTicks (timers tm' ! i) = GetTicks (timers tm ! i)
    \<and> (\<not> is_timer_sane (timers tm ! i) \<longrightarrow> downcount (timers tm' ! i) \<le> max 0 c)
    \<and> (\<forall>j. j \<noteq> i \<longrightarrow> timers tm' ! j = timers tm ! j)"
proof -
  let ?t = "timers tm ! i"
  let ?s = "if is_timer_sane ?t then ?t else ForceExceptionCheck c ?t"
  let ?e = "\<lparr>ev_time = to_s64 (GetTicks ?t + c), fifo_order = event_fifo_id ?t, userdata = d, ev_type = ty\<rparr>"
  let ?t' = "?s\<lparr>event_queue := push_heap ?e (event_queue ?s), event_fifo_id := next_fifo ?s\<rparr>"
  have s: "event_queue ?s = event_queue ?t" "event_fifo_id ?s = event_fifo_id ?t" "GetTicks ?s = GetTicks ?t" by simp_all
  have inv: "timer_inv ?s" using assms(1) s(1,2) timer_inv_cong by metis
  have run: "ScheduleEvent c ty d core tm = Some (tm\<lparr>timers := (timers tm)[i := ?t']\<rparr>)"
    using assms(3-5) by (auto simp: ScheduleEvent_def upd_timer_def Let_def next_fifo_def)
  have "timer_inv ?t'" by (rule timer_inv_push [OF inv]) (use assms(2) s in simp_all)
  moreover have "event_queue ?t' = takeWhile (\<lambda>x. ev_time x \<le> ev_time ?e) (event_queue ?t)
      @ ?e # dropWhile (\<lambda>x. ev_time x \<le> ev_time ?e) (event_queue ?t)"
    using assms(1) push_heap_after [of "event_queue ?t" ?e] by (simp add: timer_inv_def)
  moreover have "GetTicks ?t' = GetTicks ?t" using s(3) by (simp only: GetTicks_queue)
  moreover have "\<not> is_timer_sane ?t \<longrightarrow> downcount ?t' \<le> max 0 c" using downcount_ForceExceptionCheck by simp
  ultimately show ?thesis using run assms(3)
    by (intro exI [of _ "tm\<lparr>timers := (timers tm)[i := ?t']\<rparr>"] exI [of _ ?e]) (simp add: nth_list_update_if)
qed

theorem ScheduleEvent_queues_witness:
  "\<exists>tm'. ScheduleEvent 100 1 7 None (Timing_init 2) = Some tm' \<and> timer_inv (timers tm' ! 0)"
  using ScheduleEvent_queues [of "Timing_init 2" 0 None 100 1 7]
  by (auto simp: timers_init timer_inv_init)

text \<open>Cancelling removes every queued event of that type and user data from every core's queue,
  keeps all other events in their order, and changes nothing else. (Events another core has posted and
  this core has not fetched yet stay, as a comment in the code says.)\<close>

theorem UnscheduleEvent_removes:
  assumes "i < length (timers tm)"
  shows "(\<forall>e \<in> set (event_queue (timers (UnscheduleEvent ty d tm) ! i)). \<not> (ev_type e = ty \<and> userdata e = d))
    \<and> timers (UnscheduleEvent ty d tm) ! i = (timers tm ! i)\<lparr>event_queue :=
        filter (\<lambda>e. \<not> (ev_type e = ty \<and> userdata e = d)) (event_queue (timers tm ! i))\<rparr>
    \<and> (timer_inv (timers tm ! i) \<longrightarrow> timer_inv (timers (UnscheduleEvent ty d tm) ! i))"
proof -
  have "timers (UnscheduleEvent ty d tm) ! i = (timers tm ! i)\<lparr>event_queue :=
        filter (\<lambda>e. \<not> (ev_type e = ty \<and> userdata e = d)) (event_queue (timers tm ! i))\<rparr>"
    using assms by (simp add: UnscheduleEvent_def)
  then show ?thesis by (simp add: timer_inv_filter)
qed

theorem UnscheduleEvent_removes_witness:
  "timer_inv (timers (UnscheduleEvent 1 7 (Timing_init 2)) ! 0)"
  using UnscheduleEvent_removes [of 0 "Timing_init 2" 1 7, THEN conjunct2, THEN conjunct2]
  by (simp add: timers_init timer_inv_init)

section \<open>Advancing\<close>

text \<open>
  The events other cores posted, numbered in the order in which they were posted, and what is due: of the queued and the posted
  events those whose time has come, by time and, for equal times, in the order of their arrival (the sort is stable).
\<close>

fun posted :: "nat \<Rightarrow> Event list \<Rightarrow> Event list" where
  "posted n [] = []"
| "posted n (e # es) = e\<lparr>fifo_order := n\<rparr> # posted (n + 1) es"

definition due_events :: "int \<Rightarrow> Timer \<Rightarrow> Event list" where
  "due_events now t = sort_key ev_time (filter (\<lambda>e. ev_time e \<le> now) (event_queue t @ posted (event_fifo_id t) (ts_queue t)))"

lemma sort_key_move:
  "\<forall>y \<in> set ys. ev_time y \<noteq> ev_time e \<Longrightarrow> sort_key ev_time (xs @ e # ys @ zs) = sort_key ev_time (xs @ ys @ e # zs)"
proof (induction ys arbitrary: xs)
  case (Cons y ys)
  have "sort_key ev_time (xs @ e # y # ys @ zs) = sort_key ev_time (xs @ y # e # ys @ zs)"
    using Cons.prems by (simp add: sort_key_def insort_key_left_comm)
  also have "\<dots> = sort_key ev_time ((xs @ [y]) @ ys @ e # zs)" using Cons.IH [of "xs @ [y]"] Cons.prems by simp
  finally show ?case by simp
qed simp

lemma sorted_time: "sorted_wrt event_less q \<Longrightarrow> sorted (map ev_time q)"
  by (induction q) (auto simp: event_less_def)

lemma dropWhile_later: "sorted (map ev_time q) \<Longrightarrow> y \<in> set (dropWhile (\<lambda>x. ev_time x \<le> t) q) \<Longrightarrow> t < ev_time y"
  by (induction q) (auto split: if_splits)

lemma move_events_sorts:
  "timer_inv t \<Longrightarrow> event_fifo_id t + length evs < 2 ^ 64
    \<Longrightarrow> event_queue (foldl move_event t evs) = sort_key ev_time (event_queue t @ posted (event_fifo_id t) evs)"
proof (induction evs arbitrary: t)
  case Nil
  then show ?case by (simp add: timer_inv_def sorted_time sort_key_id_if_sorted)
next
  case (Cons ev evs)
  let ?e = "ev\<lparr>fifo_order := event_fifo_id t\<rparr>" and ?q = "event_queue t"
  let ?tw = "takeWhile (\<lambda>x. ev_time x \<le> ev_time ?e) ?q" and ?dw = "dropWhile (\<lambda>x. ev_time x \<le> ev_time ?e) ?q"
  have n: "event_fifo_id (move_event t ev) = event_fifo_id t + 1" using Cons.prems(2) by (simp add: move_event_def next_fifo_def)
  have i: "timer_inv (move_event t ev)"
    unfolding move_event_def by (rule timer_inv_push) (use Cons.prems in simp_all)
  have q: "event_queue (move_event t ev) = ?tw @ ?e # ?dw"
    using push_heap_after [of ?q ?e] Cons.prems(1) by (simp add: move_event_def timer_inv_def)
  have later: "\<forall>y \<in> set ?dw. ev_time y \<noteq> ev_time ?e"
    using dropWhile_later [of ?q] Cons.prems(1) sorted_time by (fastforce simp: timer_inv_def)
  have "event_queue (foldl move_event t (ev # evs)) = sort_key ev_time (?tw @ ?e # ?dw @ posted (event_fifo_id t + 1) evs)"
    using Cons.IH [OF i] Cons.prems(2) n q by simp
  also have "\<dots> = sort_key ev_time (?tw @ ?dw @ ?e # posted (event_fifo_id t + 1) evs)" by (rule sort_key_move [OF later])
  also have "?tw @ ?dw @ ?e # posted (event_fifo_id t + 1) evs = ?q @ posted (event_fifo_id t) (ev # evs)"
    by (simp only: posted.simps append_assoc [symmetric] takeWhile_dropWhile_id)
  finally show ?case .
qed

definition elapsed :: "Timer \<Rightarrow> int" where
  "elapsed t = executed_ticks t + (slice_length t - downcount t)"

lemma MoveEvents_keeps:
  "executed_ticks (foldl move_event t evs) = executed_ticks t" "slice_length (foldl move_event t evs) = slice_length t"
  "downcount (foldl move_event t evs) = downcount t"
  by (induction evs arbitrary: t) (simp_all add: move_event_def)

lemma begin_slice_simps:
  "event_queue (begin_slice t) = event_queue (MoveEvents t)" "executed_ticks (begin_slice t) = elapsed t" "is_timer_sane (begin_slice t)"
  by (simp_all add: begin_slice_def Let_def MoveEvents_def MoveEvents_keeps elapsed_def)

lemma begin_slice_queue:
  assumes "timer_inv t" "event_fifo_id t + length (ts_queue t) < 2 ^ 64"
  shows "event_queue (begin_slice t) = sort_key ev_time (event_queue t @ posted (event_fifo_id t) (ts_queue t))"
    "sorted_wrt event_less (event_queue (begin_slice t))"
proof -
  have i: "timer_inv (t\<lparr>ts_queue := []\<rparr>)" using assms(1) by (simp add: timer_inv_def)
  show "event_queue (begin_slice t) = sort_key ev_time (event_queue t @ posted (event_fifo_id t) (ts_queue t))"
    using move_events_sorts [OF i] assms(2) by (simp add: begin_slice_simps MoveEvents_def)
  show "sorted_wrt event_less (event_queue (begin_slice t))"
    using timer_inv_move_events [OF i] assms(2) by (simp add: begin_slice_simps MoveEvents_def timer_inv_def)
qed

text \<open>
  The timing while the callbacks of timer \<open>i\<close> run: its tick count is fixed at \<open>now\<close> and its queue is ordered by time.
\<close>

definition sane_now :: "nat \<Rightarrow> int \<Rightarrow> Timing \<Rightarrow> bool" where
  "sane_now i now tm \<longleftrightarrow> i < length (timers tm) \<and> current_timer tm < length (timers tm) \<and> is_timer_sane (timers tm ! i)
     \<and> executed_ticks (timers tm ! i) = now \<and> sorted (map ev_time (event_queue (timers tm ! i)))"

definition due_now :: "nat \<Rightarrow> int \<Rightarrow> Timing \<Rightarrow> Event list" where
  "due_now i now tm = filter (\<lambda>e. ev_time e \<le> now) (event_queue (timers tm ! i))"

text \<open>
  A callback whose work is a log entry and that, while the callbacks of timer \<open>i\<close> run, may schedule and cancel events, but none that is due.
\<close>

definition spares_due :: "nat \<Rightarrow> int \<Rightarrow> (Event \<Rightarrow> int \<Rightarrow> (Event \<times> int) list \<times> Timing \<Rightarrow> (Event \<times> int) list \<times> Timing) \<Rightarrow> bool" where
  "spares_due i now cb \<longleftrightarrow> (\<forall>e late w tm. sane_now i now tm \<longrightarrow>
     (\<exists>tm'. cb e late (w, tm) = (w @ [(e, late)], tm') \<and> sane_now i now tm' \<and> due_now i now tm' = due_now i now tm))"

definition cancels_nothing :: "nat \<Rightarrow> (Event \<Rightarrow> int \<Rightarrow> (Event \<times> int) list \<times> Timing \<Rightarrow> (Event \<times> int) list \<times> Timing) \<Rightarrow> bool" where
  "cancels_nothing i cb \<longleftrightarrow> (\<forall>e late w tm. set (event_queue (timers tm ! i)) \<subseteq> set (event_queue (timers (snd (cb e late (w, tm))) ! i)))"

text \<open>Rescheduling into the future, as the callbacks of the periodic services do, is such a callback.\<close>

definition reschedule :: "int \<Rightarrow> Event \<Rightarrow> int \<Rightarrow> (Event \<times> int) list \<times> Timing \<Rightarrow> (Event \<times> int) list \<times> Timing" where
  "reschedule cycles e late s =
     (fst s @ [(e, late)], case ScheduleEvent cycles (ev_type e) (userdata e) None (snd s) of None \<Rightarrow> snd s | Some tm \<Rightarrow> tm)"

lemma sorted_time_push_heap: "sorted (map ev_time q) \<Longrightarrow> sorted (map ev_time (push_heap e q))"
  by (induction q) (auto simp: event_less_def)

lemma filter_push_heap: "\<not> P e \<Longrightarrow> filter P (push_heap e q) = filter P q"
  by (induction q) auto

lemma reschedule_run:
  assumes "current_timer tm < length (timers tm)"
  shows "\<exists>tm'. reschedule c e late (w, tm) = (w @ [(e, late)], tm') \<and> current_timer tm' = current_timer tm \<and> length (timers tm') = length (timers tm)
    \<and> event_queue (timers tm' ! current_timer tm) =
        push_heap \<lparr>ev_time = to_s64 (GetTicks (timers tm ! current_timer tm) + c), fifo_order = event_fifo_id (timers tm ! current_timer tm),
          userdata = userdata e, ev_type = ev_type e\<rparr> (event_queue (timers tm ! current_timer tm))
    \<and> is_timer_sane (timers tm' ! current_timer tm) = is_timer_sane (timers tm ! current_timer tm)
    \<and> executed_ticks (timers tm' ! current_timer tm) = executed_ticks (timers tm ! current_timer tm)
    \<and> (\<forall>j. j \<noteq> current_timer tm \<longrightarrow> timers tm' ! j = timers tm ! j)"
  using ScheduleEvent_running [OF assms, of c "ev_type e" "userdata e"] by (elim exE) (simp add: reschedule_def)

lemma reschedule_spares_due:
  assumes "0 \<le> now" "0 < c" "now + c < 2 ^ 63"
  shows "spares_due i now (reschedule c)"
  unfolding spares_due_def
proof (intro allI impI)
  fix e late w tm assume s: "sane_now i now tm"
  then have "current_timer tm < length (timers tm)" by (simp add: sane_now_def)
  from reschedule_run [OF this, of c e late w] obtain tm' where t: "reschedule c e late (w, tm) = (w @ [(e, late)], tm')"
    "current_timer tm' = current_timer tm" "length (timers tm') = length (timers tm)"
    "event_queue (timers tm' ! current_timer tm) =
        push_heap \<lparr>ev_time = to_s64 (GetTicks (timers tm ! current_timer tm) + c), fifo_order = event_fifo_id (timers tm ! current_timer tm),
          userdata = userdata e, ev_type = ev_type e\<rparr> (event_queue (timers tm ! current_timer tm))"
    "is_timer_sane (timers tm' ! current_timer tm) = is_timer_sane (timers tm ! current_timer tm)"
    "executed_ticks (timers tm' ! current_timer tm) = executed_ticks (timers tm ! current_timer tm)"
    "\<forall>j. j \<noteq> current_timer tm \<longrightarrow> timers tm' ! j = timers tm ! j"
    by (elim exE conjE)
  have "sane_now i now tm' \<and> due_now i now tm' = due_now i now tm"
  proof (cases "i = current_timer tm")
    case True
    have "GetTicks (timers tm ! i) = now" using s assms by (simp add: GetTicks_def sane_now_def to_unsigned_id)
    then have "now < to_s64 (GetTicks (timers tm ! i) + c)" using assms by (simp add: to_s64_id)
    with s t True show ?thesis by (simp add: sane_now_def due_now_def sorted_time_push_heap filter_push_heap)
  qed (use s t in \<open>simp add: sane_now_def due_now_def\<close>)
  with t(1) show "\<exists>tm'. reschedule c e late (w, tm) = (w @ [(e, late)], tm') \<and> sane_now i now tm' \<and> due_now i now tm' = due_now i now tm" by blast
qed

lemma reschedule_cancels_nothing: "cancels_nothing i (reschedule c)"
  unfolding cancels_nothing_def
proof (intro allI)
  fix e late w and tm :: Timing
  show "set (event_queue (timers tm ! i)) \<subseteq> set (event_queue (timers (snd (reschedule c e late (w, tm))) ! i))"
  proof (cases "current_timer tm < length (timers tm)")
    case True
    from reschedule_run [OF this, of c e late w] show ?thesis by (cases "i = current_timer tm") auto
  qed (simp add: reschedule_def ScheduleEvent_def)
qed

lemma advance_loop_runs_due:
  assumes cb: "spares_due i now cb"
  shows "sane_now i now tm \<Longrightarrow> due_now i now tm = es \<Longrightarrow>
    \<exists>tm'. advance_loop cb i (w, tm) = Some (w @ map (\<lambda>e. (e, to_s32 (now - ev_time e))) es, tm') \<and> sane_now i now tm' \<and> due_now i now tm' = []
      \<and> (cancels_nothing i cb \<longrightarrow> (\<forall>e \<in> set (event_queue (timers tm ! i)). now < ev_time e \<longrightarrow> e \<in> set (event_queue (timers tm' ! i))))"
proof (induction es arbitrary: w tm)
  case Nil
  then have "advance_loop cb i (w, tm) = Some (w, tm)"
    by (subst advance_loop.simps) (auto simp: due_now_def sane_now_def split: list.splits)
  with Nil show ?case by simp
next
  case (Cons e es)
  have s: "i < length (timers tm)" "executed_ticks (timers tm ! i) = now" "sorted (map ev_time (event_queue (timers tm ! i)))"
    using Cons.prems(1) by (simp_all add: sane_now_def)
  obtain q where q: "event_queue (timers tm ! i) = e # q" "ev_time e \<le> now" "es = filter (\<lambda>e. ev_time e \<le> now) q"
    using Cons.prems(2) s(3) by (cases "event_queue (timers tm ! i)") (auto simp: due_now_def filter_eq_Cons_iff split: if_splits)
  let ?tm = "upd_timer i (\<lambda>t. t\<lparr>event_queue := q\<rparr>) tm"
  have "sane_now i now ?tm" using Cons.prems(1) q(1) by (simp add: sane_now_def upd_timer_def)
  moreover have d: "due_now i now ?tm = es" "event_queue (timers ?tm ! i) = q" using s(1) q(3) by (simp_all add: upd_timer_def due_now_def)
  ultimately obtain tm1 where t: "cb e (to_s32 (now - ev_time e)) (w, ?tm) = (w @ [(e, to_s32 (now - ev_time e))], tm1)"
    "sane_now i now tm1" "due_now i now tm1 = es"
    using cb unfolding spares_due_def by metis
  have kept: "set q \<subseteq> set (event_queue (timers tm1 ! i))" if "cancels_nothing i cb"
    using that d(2) t(1) unfolding cancels_nothing_def by (metis snd_conv)
  have "advance_loop cb i (w, tm) = advance_loop cb i (w @ [(e, to_s32 (now - ev_time e))], tm1)"
    using q s(2) t(1) by (subst advance_loop.simps) simp
  with Cons.IH [OF t(2,3), of "w @ [(e, to_s32 (now - ev_time e))]"] show ?case using kept q(1,2) by fastforce
qed

text \<open>
  C38: At the end of a slice, with callbacks that may schedule and cancel events but none that is due (as those that reschedule
  themselves into the future), \<open>Advance\<close> returns after it ran exactly the events due by the new tick count, those posted by other cores
  included, each once, in order of their time and, for equal times, of their arrival, and told each how late it
  is. Every event left in the queue is later than the new tick count, and with callbacks that cancel nothing every later event, queued or
  posted, is still there.
\<close>

theorem Advance_runs_due_events:
  assumes now: "now = elapsed (timers tm ! i)" and cb: "spares_due i now cb"
    and t: "i < length (timers tm)" "current_timer tm < length (timers tm)" "timer_inv (timers tm ! i)"
      "event_fifo_id (timers tm ! i) + length (ts_queue (timers tm ! i)) < 2 ^ 64"
    and es: "es = due_events now (timers tm ! i)"
  shows "\<exists>tm'. Advance cb i (w, tm) = Some (w @ map (\<lambda>e. (e, to_s32 (now - ev_time e))) es, tm')
    \<and> sorted_wrt event_less es \<and> executed_ticks (timers tm' ! i) = now \<and> \<not> is_timer_sane (timers tm' ! i)
    \<and> (\<forall>e \<in> set (event_queue (timers tm' ! i)). now < ev_time e)
    \<and> (cancels_nothing i cb \<longrightarrow>
        (\<forall>e \<in> set (event_queue (timers tm ! i) @ posted (event_fifo_id (timers tm ! i)) (ts_queue (timers tm ! i))).
           now < ev_time e \<longrightarrow> e \<in> set (event_queue (timers tm' ! i))))"
proof -
  let ?tm = "upd_timer i begin_slice tm"
  note Q = begin_slice_queue [OF t(3,4)]
  have b: "timers ?tm ! i = begin_slice (timers tm ! i)" using t(1) by (simp add: upd_timer_def)
  have s: "sane_now i now ?tm"
    using t Q(2) b by (simp add: sane_now_def begin_slice_simps now sorted_time) (simp add: upd_timer_def)
  have f: "es = filter (\<lambda>e. ev_time e \<le> now) (event_queue (begin_slice (timers tm ! i)))"
    by (simp only: es due_events_def Q(1) filter_sort)
  have d: "due_now i now ?tm = es" "sorted_wrt event_less es"
    using Q(2) by (simp_all only: due_now_def b f sorted_wrt_filter)
  obtain tm' where r: "advance_loop cb i (w, ?tm) = Some (w @ map (\<lambda>e. (e, to_s32 (now - ev_time e))) es, tm')" "sane_now i now tm'" "due_now i now tm' = []"
    "cancels_nothing i cb \<longrightarrow> (\<forall>e \<in> set (event_queue (timers ?tm ! i)). now < ev_time e \<longrightarrow> e \<in> set (event_queue (timers tm' ! i)))"
    using advance_loop_runs_due [OF cb s d(1), of w] by blast
  let ?r = "upd_timer i (\<lambda>t. t\<lparr>is_timer_sane := False\<rparr>) tm'"
  have "Advance cb i (w, tm) = Some (w @ map (\<lambda>e. (e, to_s32 (now - ev_time e))) es, ?r)"
    using r(1) by (simp add: Advance_def)
  moreover have "timers ?r ! i = (timers tm' ! i)\<lparr>is_timer_sane := False\<rparr>" using r(2) by (simp add: upd_timer_def sane_now_def)
  moreover have "\<forall>e \<in> set (event_queue (timers tm' ! i)). now < ev_time e"
    using r(3) by (auto simp: due_now_def filter_empty_conv)
  ultimately show ?thesis using r(2,4) d(2) b Q(1) by (intro exI [of _ ?r]) (simp add: sane_now_def)
qed

text \<open>A timer with two queued events, of which one is due, and a due event posted by another core; every callback reschedules its event.\<close>

definition two_events :: Timing where
  "two_events = \<lparr>timers = [Timer_init\<lparr>event_queue := [\<lparr>ev_time = 5, fifo_order = 0, userdata = 7, ev_type = 1\<rparr>, \<lparr>ev_time = 9, fifo_order = 1, userdata = 8, ev_type = 1\<rparr>],
     event_fifo_id := 2, downcount := MAX_SLICE_LENGTH - 8, ts_queue := [\<lparr>ev_time = 3, fifo_order = 0, userdata = 6, ev_type = 2\<rparr>]\<rparr>], current_timer = 0\<rparr>"

theorem Advance_runs_due_events_witness:
  "\<exists>tm'. Advance (reschedule 1000) 0 ([], two_events)
     = Some ([(\<lparr>ev_time = 3, fifo_order = 2, userdata = 6, ev_type = 2\<rparr>, 5), (\<lparr>ev_time = 5, fifo_order = 0, userdata = 7, ev_type = 1\<rparr>, 3)], tm')
     \<and> \<lparr>ev_time = 9, fifo_order = 1, userdata = 8, ev_type = 1\<rparr> \<in> set (event_queue (timers tm' ! 0))"
proof -
  let ?es = "[\<lparr>ev_time = 3, fifo_order = 2, userdata = 6, ev_type = 2\<rparr>, \<lparr>ev_time = 5, fifo_order = 0, userdata = 7, ev_type = 1\<rparr>]"
  have t: "8 = elapsed (timers two_events ! 0)" "0 < length (timers two_events)" "current_timer two_events < length (timers two_events)"
    "timer_inv (timers two_events ! 0)" "event_fifo_id (timers two_events ! 0) + length (ts_queue (timers two_events ! 0)) < 2 ^ 64"
    "?es = due_events 8 (timers two_events ! 0)"
    by (simp_all add: two_events_def Timer_init_def elapsed_def timer_inv_def event_less_def due_events_def)
  have c: "spares_due 0 8 (reschedule 1000)" by (rule reschedule_spares_due) simp_all
  have l: "\<lparr>ev_time = 9, fifo_order = 1, userdata = 8, ev_type = 1\<rparr> \<in> set (event_queue (timers two_events ! 0) @ posted 2 (ts_queue (timers two_events ! 0)))"
    "event_fifo_id (timers two_events ! 0) = 2"
    by (simp_all add: two_events_def)
  from Advance_runs_due_events [OF t(1) c t(2-6), of "[]"] obtain tm' where
    "Advance (reschedule 1000) 0 ([], two_events) = Some ([] @ map (\<lambda>e. (e, to_s32 (8 - ev_time e))) ?es, tm')"
    "cancels_nothing 0 (reschedule 1000) \<longrightarrow> (\<forall>e \<in> set (event_queue (timers two_events ! 0) @ posted (event_fifo_id (timers two_events ! 0)) (ts_queue (timers two_events ! 0))).
       8 < ev_time e \<longrightarrow> e \<in> set (event_queue (timers tm' ! 0)))"
    by (elim exE conjE)
  moreover from this(2) have "\<lparr>ev_time = 9, fifo_order = 1, userdata = 8, ev_type = 1\<rparr> \<in> set (event_queue (timers tm' ! 0))"
    using reschedule_cancels_nothing l by fastforce
  ultimately show ?thesis by (simp add: to_signed_def)
qed

end
