(* ===== verification/Kernel_State.thy ===== *)
theory Kernel_State
  imports Result_Code Thread_Queue_List Core_Timing
begin

text \<open>
  The state the threads and wait objects of \<^verbatim>\<open>src/src/core/hle/kernel\<close> share, and the operations on
  thread priorities and mutex waiting lists every other operation is built from (\<^verbatim>\<open>thread.{h,cpp}\<close>,
  \<^verbatim>\<open>mutex.{h,cpp}\<close>, \<^verbatim>\<open>wait_object.{h,cpp}\<close>).

  Kernel objects are numbers; the kernel state maps them to their fields. A thread is a wait object
  too, under the same number. A \<^verbatim>\<open>flat_set\<close> of objects is the ascending list of their numbers, the
  order standing for that of their addresses. A CPU context is the function from register numbers to
  values. Calls of \<^verbatim>\<open>PrepareReschedule\<close> set \<open>reschedule_pending\<close>.
\<close>

section \<open>Threads\<close>

type_synonym oid = nat

datatype HandleType = HT_Unknown | HT_Event | HT_Mutex | HT_SharedMemory | HT_Thread | HT_Process | HT_AddressArbiter | HT_Semaphore
  | HT_Timer | HT_ResourceLimit | HT_CodeSet | HT_ClientPort | HT_ServerPort | HT_ClientSession | HT_ServerSession

definition ThreadPrioHighest :: nat where "ThreadPrioHighest = 0"
definition ThreadPrioLowest :: nat where "ThreadPrioLowest = 63"
definition ThreadProcessorIdMax :: int where "ThreadProcessorIdMax = 4"

datatype ThreadStatus = Running | Ready | WaitArb | WaitSleep | WaitIPC | WaitSynchAny | WaitSynchAll
  | WaitHleEvent | Dormant | Dead

datatype ThreadWakeupReason = WR_Signal | WR_Timeout

text \<open>
  The callbacks a sleeping thread may carry: that of the wait system calls, that of an address arbiter
  (by its number), and those of IPC requests and HLE handlers, whose runs are only recorded.
\<close>

datatype WakeupCallback = SVC_SyncCallback bool | ArbiterCallback oid | OtherCallback nat

record Thread =
  thread_id :: nat
  status :: ThreadStatus
  entry_point :: nat
  stack_top :: nat
  nominal_priority :: nat
  current_priority :: nat
  last_running_ticks :: int
  core_id :: nat
  tls_address :: nat
  held_mutexes :: "oid list"
  pending_mutexes :: "oid list"
  owner_process :: oid
  wait_objects :: "oid list"
  wait_address :: nat
  wakeup_callback :: "WakeupCallback option"
  thread_context :: "nat \<Rightarrow> u32"

record ThreadManager =
  current_thread :: "oid option"
  ready_queue :: "oid ThreadQueueList"
  wakeup_callback_table :: "nat \<rightharpoonup> oid"
  thread_list :: "oid list"

definition ThreadManager_init :: ThreadManager where
  "ThreadManager_init = \<lparr>current_thread = None, ready_queue = ThreadQueueList_init (ThreadPrioLowest + 1),
     wakeup_callback_table = Map.empty, thread_list = []\<rparr>"

section \<open>Wait objects\<close>

datatype ResetType = OneShot | Sticky | Pulse

record KEvent =
  ev_reset_type :: ResetType
  ev_signaled :: bool

record Mutex =
  lock_count :: int
  mtx_priority :: nat
  holding_thread :: "oid option"

record Semaphore =
  max_count :: int
  available_count :: int

record KTimer =
  tm_reset_type :: ResetType
  tm_signaled :: bool
  initial_delay :: int
  interval_delay :: int
  callback_id :: nat

text \<open>
  A port remembers whether an HLE handler serves it. A session is kept with its server endpoint, where
  \<open>parent_client\<close> and \<open>parent_server\<close> tell whether the endpoints of the \<^verbatim>\<open>Session\<close> still exist.
\<close>

record ServerPort =
  pending_sessions :: "oid list"
  port_hle_handler :: bool

record ServerSession =
  parent_client :: bool
  parent_server :: bool
  parent_port :: "oid option"
  hle_handler :: bool
  pending_requesting_threads :: "oid list"
  currently_handling :: "oid option"

datatype object_state = O_Event KEvent | O_Mutex Mutex | O_Semaphore Semaphore | O_Timer KTimer | O_Thread
  | O_ServerPort ServerPort | O_ServerSession ServerSession

text \<open>The overrides of \<^verbatim>\<open>GetHandleType\<close>.\<close>

fun GetHandleType :: "object_state \<Rightarrow> HandleType" where
  "GetHandleType (O_Event _) = HT_Event"
| "GetHandleType (O_Mutex _) = HT_Mutex"
| "GetHandleType (O_Semaphore _) = HT_Semaphore"
| "GetHandleType (O_Timer _) = HT_Timer"
| "GetHandleType O_Thread = HT_Thread"
| "GetHandleType (O_ServerPort _) = HT_ServerPort"
| "GetHandleType (O_ServerSession _) = HT_ServerSession"

record WaitObject =
  waiting_threads :: "oid list"
  obj :: object_state

section \<open>The kernel\<close>

record ClientPort =
  server_port :: oid
  max_sessions :: nat
  active_sessions :: nat

text \<open>
  The memory the kernel reads and writes for a call, as \<^verbatim>\<open>MemorySystem::Read\<close> and \<^verbatim>\<open>Write\<close> see it through the page table of the
  running process: the place in host memory of each virtual address, none where nothing is mapped, and the bytes of host memory.
  \<open>Kernel_Memory\<close> relates it to the model of the memory system.
\<close>

record EmulatedMemory =
  place_of :: "nat \<rightharpoonup> nat"
  byte_of :: "nat \<Rightarrow> u8"

record Kernel =
  threads :: "oid \<Rightarrow> Thread"
  wait_object :: "oid \<Rightarrow> WaitObject"
  managers :: "nat \<Rightarrow> ThreadManager"
  arbiter_waiting :: "oid \<Rightarrow> oid list"
  client_ports :: "oid \<Rightarrow> ClientPort"
  client_sessions :: "oid \<Rightarrow> oid"
  current_cpu :: nat
  cpu_context :: "nat \<Rightarrow> nat \<Rightarrow> u32"
  cpu_process :: "nat \<Rightarrow> oid option"
  tls_slots :: "oid \<Rightarrow> bool list list"
  k_timing :: Timing
  timer_table :: "nat \<rightharpoonup> oid"
  next_timer_callback_id :: nat
  next_thread_id :: nat
  next_object :: oid
  k_memory :: EmulatedMemory
  reschedule_pending :: bool
  callbacks_run :: "(nat \<times> ThreadWakeupReason \<times> oid \<times> oid option) list"

text \<open>The kernel after construction: no thread was created yet, every number is free.\<close>

definition Thread_blank :: Thread where
  "Thread_blank = \<lparr>thread_id = 0, status = Dormant, entry_point = 0, stack_top = 0, nominal_priority = 0,
     current_priority = 0, last_running_ticks = 0, core_id = 0, tls_address = 0, held_mutexes = [],
     pending_mutexes = [], owner_process = 0, wait_objects = [], wait_address = 0, wakeup_callback = None,
     thread_context = (\<lambda>_. 0)\<rparr>"

definition Kernel_init :: "nat \<Rightarrow> Kernel" where
  "Kernel_init num_cores = \<lparr>threads = (\<lambda>_. Thread_blank), wait_object = (\<lambda>_. \<lparr>waiting_threads = [], obj = O_Thread\<rparr>),
     managers = (\<lambda>_. ThreadManager_init), arbiter_waiting = (\<lambda>_. []),
     client_ports = (\<lambda>_. \<lparr>server_port = 0, max_sessions = 0, active_sessions = 0\<rparr>), client_sessions = (\<lambda>_. 0), current_cpu = 0, cpu_context = (\<lambda>_ _. 0),
     cpu_process = (\<lambda>_. None), tls_slots = (\<lambda>_. []), k_timing = Timing_init num_cores, timer_table = Map.empty,
     next_timer_callback_id = 0, next_thread_id = 1, next_object = 0, k_memory = \<lparr>place_of = Map.empty, byte_of = (\<lambda>_. 0)\<rparr>,
     reschedule_pending = False, callbacks_run = []\<rparr>"

text \<open>A word at an address that is not mapped reads as 0, and what is written there is dropped.\<close>

definition load32 :: "nat \<Rightarrow> Kernel \<Rightarrow> u32" where
  "load32 vaddr k = (case place_of (k_memory k) vaddr of None \<Rightarrow> 0 | Some p \<Rightarrow> of_bytes (map (byte_of (k_memory k)) [p ..< p + 4]))"

definition store :: "nat \<Rightarrow> u8 list \<Rightarrow> Kernel \<Rightarrow> Kernel" where
  "store vaddr bs k =
     (case place_of (k_memory k) vaddr of
        None \<Rightarrow> k
      | Some p \<Rightarrow> k\<lparr>k_memory := (k_memory k)\<lparr>byte_of := (\<lambda>x. if p \<le> x \<and> x < p + length bs then bs ! (x - p) else byte_of (k_memory k) x)\<rparr>\<rparr>)"

definition upd_thread :: "oid \<Rightarrow> (Thread \<Rightarrow> Thread) \<Rightarrow> Kernel \<Rightarrow> Kernel" where
  "upd_thread t f k = k\<lparr>threads := (threads k)(t := f (threads k t))\<rparr>"

definition upd_object :: "oid \<Rightarrow> (WaitObject \<Rightarrow> WaitObject) \<Rightarrow> Kernel \<Rightarrow> Kernel" where
  "upd_object w f k = k\<lparr>wait_object := (wait_object k)(w := f (wait_object k w))\<rparr>"

definition set_obj :: "oid \<Rightarrow> object_state \<Rightarrow> Kernel \<Rightarrow> Kernel" where
  "set_obj w s k = upd_object w (\<lambda>x. x\<lparr>obj := s\<rparr>) k"

definition upd_manager :: "nat \<Rightarrow> (ThreadManager \<Rightarrow> ThreadManager) \<Rightarrow> Kernel \<Rightarrow> Kernel" where
  "upd_manager c f k = k\<lparr>managers := (managers k)(c := f (managers k c))\<rparr>"

definition upd_queue :: "nat \<Rightarrow> (oid ThreadQueueList \<Rightarrow> oid ThreadQueueList) \<Rightarrow> Kernel \<Rightarrow> Kernel" where
  "upd_queue c f k = upd_manager c (\<lambda>m. m\<lparr>ready_queue := f (ready_queue m)\<rparr>) k"

definition PrepareReschedule :: "Kernel \<Rightarrow> Kernel" where
  "PrepareReschedule k = k\<lparr>reschedule_pending := True\<rparr>"

definition flat_insert :: "oid \<Rightarrow> oid list \<Rightarrow> oid list" where
  "flat_insert x xs = (if x \<in> set xs then xs else insort x xs)"

definition mutex_priority :: "Kernel \<Rightarrow> oid \<Rightarrow> nat" where
  "mutex_priority k w = (case obj (wait_object k w) of O_Mutex mx \<Rightarrow> mtx_priority mx | _ \<Rightarrow> 0)"

section \<open>Thread priorities\<close>

definition BoostPriority :: "oid \<Rightarrow> nat \<Rightarrow> Kernel \<Rightarrow> Kernel" where
  "BoostPriority t priority k =
     (let th = threads k t;
          k = (if status th = Ready
               then upd_queue (core_id th) (tql_move t (current_priority th) priority) k
               else upd_queue (core_id th) (prepare priority) k)
      in upd_thread t (\<lambda>x. x\<lparr>current_priority := priority\<rparr>) k)"

definition Thread_UpdatePriority :: "oid \<Rightarrow> Kernel \<Rightarrow> Kernel" where
  "Thread_UpdatePriority t k =
     BoostPriority t
       (foldl (\<lambda>best w. if mutex_priority k w < best then mutex_priority k w else best)
          (nominal_priority (threads k t)) (held_mutexes (threads k t))) k"

definition SetPriority :: "oid \<Rightarrow> nat \<Rightarrow> Kernel \<Rightarrow> Kernel run" where
  "SetPriority t priority k = do {
     ASSERT (priority \<le> ThreadPrioLowest \<and> priority \<ge> ThreadPrioHighest);
     let th = threads k t;
     let k = (if status th = Ready
              then upd_queue (core_id th) (tql_move t (current_priority th) priority) k
              else upd_queue (core_id th) (prepare priority) k);
     Some (upd_thread t (\<lambda>x. x\<lparr>nominal_priority := priority, current_priority := priority\<rparr>) k)
   }"

section \<open>Waiting lists\<close>

definition Mutex_UpdatePriority :: "oid \<Rightarrow> Kernel \<Rightarrow> Kernel" where
  "Mutex_UpdatePriority w k =
     (case obj (wait_object k w) of
        O_Mutex mx \<Rightarrow>
          (case holding_thread mx of
             None \<Rightarrow> k
           | Some h \<Rightarrow>
               let best = foldl (\<lambda>best t. if current_priority (threads k t) < best then current_priority (threads k t) else best)
                            ThreadPrioLowest (waiting_threads (wait_object k w))
               in if best \<noteq> mtx_priority mx
                  then Thread_UpdatePriority h (set_obj w (O_Mutex (mx\<lparr>mtx_priority := best\<rparr>)) k)
                  else k)
      | _ \<Rightarrow> k)"

definition is_mutex :: "Kernel \<Rightarrow> oid \<Rightarrow> bool" where
  "is_mutex k w = (case obj (wait_object k w) of O_Mutex _ \<Rightarrow> True | _ \<Rightarrow> False)"

definition WaitObject_AddWaitingThread :: "oid \<Rightarrow> oid \<Rightarrow> Kernel \<Rightarrow> Kernel" where
  "WaitObject_AddWaitingThread w t k =
     upd_object w (\<lambda>x. if t \<in> set (waiting_threads x) then x else x\<lparr>waiting_threads := waiting_threads x @ [t]\<rparr>) k"

definition WaitObject_RemoveWaitingThread :: "oid \<Rightarrow> oid \<Rightarrow> Kernel \<Rightarrow> Kernel" where
  "WaitObject_RemoveWaitingThread w t k =
     upd_object w (\<lambda>x. x\<lparr>waiting_threads := remove1 t (waiting_threads x)\<rparr>) k"

text \<open>The virtual calls: only \<^verbatim>\<open>Mutex\<close> overrides them.\<close>

definition AddWaitingThread :: "oid \<Rightarrow> oid \<Rightarrow> Kernel \<Rightarrow> Kernel" where
  "AddWaitingThread w t k =
     (let k = WaitObject_AddWaitingThread w t k
      in if is_mutex k w
         then Mutex_UpdatePriority w (upd_thread t (\<lambda>x. x\<lparr>pending_mutexes := flat_insert w (pending_mutexes x)\<rparr>) k)
         else k)"

definition RemoveWaitingThread :: "oid \<Rightarrow> oid \<Rightarrow> Kernel \<Rightarrow> Kernel" where
  "RemoveWaitingThread w t k =
     (let k = WaitObject_RemoveWaitingThread w t k
      in if is_mutex k w
         then Mutex_UpdatePriority w (upd_thread t (\<lambda>x. x\<lparr>pending_mutexes := remove1 w (pending_mutexes x)\<rparr>) k)
         else k)"


section \<open>Projections\<close>

abbreviation rq :: "Kernel \<Rightarrow> nat \<Rightarrow> oid ThreadQueueList" where
  "rq k c \<equiv> ready_queue (managers k c)"

lemma store_memory:
  obtains m where "store a bs k = k\<lparr>k_memory := m\<rparr>"
proof (cases "place_of (k_memory k) a")
  case None
  then show thesis by (intro that [of "k_memory k"]) (simp add: store_def)
qed (simp add: store_def that)

text \<open>What was stored at a mapped address is loaded from it.\<close>

lemma load_store:
  "load32 a (store a (to_bytes 4 v) k) = (if place_of (k_memory k) a = None then 0 else v)"
proof (cases "place_of (k_memory k) a")
  case (Some p)
  have "map (\<lambda>x. if p \<le> x \<and> x < p + length (to_bytes 4 v) then to_bytes 4 v ! (x - p) else f x) [p ..< p + 4] = to_bytes 4 v" for f
    by (rule nth_equalityI) simp_all
  with Some show ?thesis by (simp add: load32_def store_def of_to_bytes)
qed (simp add: load32_def store_def)

lemma upd_thread_simps [simp]:
  "threads (upd_thread t f k) = (threads k)(t := f (threads k t))" "wait_object (upd_thread t f k) = wait_object k"
  "managers (upd_thread t f k) = managers k" "arbiter_waiting (upd_thread t f k) = arbiter_waiting k"
  "k_timing (upd_thread t f k) = k_timing k"
  by (simp_all add: upd_thread_def)

lemma upd_object_simps [simp]:
  "threads (upd_object w g k) = threads k" "wait_object (upd_object w g k) = (wait_object k)(w := g (wait_object k w))"
  "managers (upd_object w g k) = managers k" "arbiter_waiting (upd_object w g k) = arbiter_waiting k"
  "k_timing (upd_object w g k) = k_timing k"
  by (simp_all add: upd_object_def)

lemma set_obj_simps [simp]:
  "threads (set_obj w s k) = threads k" "managers (set_obj w s k) = managers k"
  "wait_object (set_obj w s k) = (wait_object k)(w := (wait_object k w)\<lparr>obj := s\<rparr>)"
  "arbiter_waiting (set_obj w s k) = arbiter_waiting k" "k_timing (set_obj w s k) = k_timing k"
  by (simp_all add: set_obj_def)

lemma upd_queue_simps [simp]:
  "threads (upd_queue c q k) = threads k" "wait_object (upd_queue c q k) = wait_object k"
  "rq (upd_queue c q k) = (rq k)(c := q (rq k c))" "arbiter_waiting (upd_queue c q k) = arbiter_waiting k"
  "current_thread (managers (upd_queue c q k) d) = current_thread (managers k d)" "k_timing (upd_queue c q k) = k_timing k"
  by (auto simp: upd_queue_def upd_manager_def fun_eq_iff)

lemma PrepareReschedule_simps [simp]:
  "threads (PrepareReschedule k) = threads k" "wait_object (PrepareReschedule k) = wait_object k"
  "managers (PrepareReschedule k) = managers k" "arbiter_waiting (PrepareReschedule k) = arbiter_waiting k"
  "reschedule_pending (PrepareReschedule k)" "k_timing (PrepareReschedule k) = k_timing k"
  by (simp_all add: PrepareReschedule_def)

section \<open>The invariant of the scheduler\<close>

text \<open>
  Every core's ready queue is well formed and holds, at each level, exactly the ready threads of that
  core and current priority, each once; the level of every thread that was started is linked, which
  \<open>pop_first_better\<close> relies on; and priorities are in range.
\<close>

definition thread_ok :: "Kernel \<Rightarrow> oid \<Rightarrow> bool" where
  "thread_ok k t \<longleftrightarrow> current_priority (threads k t) \<le> ThreadPrioLowest \<and> nominal_priority (threads k t) \<le> ThreadPrioLowest
     \<and> (status (threads k t) \<noteq> Dormant
          \<longrightarrow> tql_prepared (rq k (core_id (threads k t))) (current_priority (threads k t)))"

definition sched_inv :: "Kernel \<Rightarrow> bool" where
  "sched_inv k \<longleftrightarrow>
     (\<forall>c. tql_inv (rq k c) \<and> length (queues (rq k c)) = ThreadPrioLowest + 1 \<and> (\<forall>p. distinct (tql_level (rq k c) p)))
   \<and> (\<forall>c p t. t \<in> set (tql_level (rq k c) p) \<longleftrightarrow>
        status (threads k t) = Ready \<and> core_id (threads k t) = c \<and> current_priority (threads k t) = p)
   \<and> (\<forall>t. thread_ok k t)"

lemma sched_inv_cong:
  assumes "rq k' = rq k"
    and "\<And>t. status (threads k' t) = status (threads k t)" "\<And>t. core_id (threads k' t) = core_id (threads k t)"
    and "\<And>t. current_priority (threads k' t) = current_priority (threads k t)"
    and "\<And>t. nominal_priority (threads k' t) = nominal_priority (threads k t)"
  shows "sched_inv k' = sched_inv k"
proof -
  have "rq k' c = rq k c" for c using assms(1) by metis
  with assms(2-) show ?thesis by (simp add: sched_inv_def thread_ok_def)
qed

lemma sched_invD:
  assumes "sched_inv k"
  shows "tql_inv (rq k c)" "length (queues (rq k c)) = ThreadPrioLowest + 1" "distinct (tql_level (rq k c) p)"
    "t \<in> set (tql_level (rq k c) p) \<longleftrightarrow>
        status (threads k t) = Ready \<and> core_id (threads k t) = c \<and> current_priority (threads k t) = p"
    "current_priority (threads k t) \<le> ThreadPrioLowest" "nominal_priority (threads k t) \<le> ThreadPrioLowest"
    "status (threads k t) \<noteq> Dormant \<Longrightarrow> tql_prepared (rq k (core_id (threads k t))) (current_priority (threads k t))"
  using assms by (auto simp: sched_inv_def thread_ok_def)

lemma queue_init: "tql_inv (ThreadQueueList_init n)" "length (queues (ThreadQueueList_init n)) = n"
  "tql_level (ThreadQueueList_init n) p = []"
  by (simp_all add: tql_inv_init) (simp_all add: ThreadQueueList_init_def tql_level_def Queue_init_def)

lemma sched_inv_init: "sched_inv (Kernel_init n)"
  by (simp add: sched_inv_def thread_ok_def Kernel_init_def ThreadManager_init_def Thread_blank_def queue_init)

text \<open>One thread and its core's queue change together.\<close>

lemma sched_inv_update:
  assumes inv: "sched_inv k" and c: "core_id th = c"
    and q: "tql_inv q" "length (queues q) = ThreadPrioLowest + 1" "\<And>p. distinct (tql_level q p)"
    and old: "\<And>p x. x \<noteq> t \<Longrightarrow> x \<in> set (tql_level q p) \<longleftrightarrow> x \<in> set (tql_level (rq k c) p)"
    and new: "\<And>p. t \<in> set (tql_level q p) \<longleftrightarrow> status th = Ready \<and> current_priority th = p"
    and prep: "\<And>p. tql_prepared (rq k c) p \<Longrightarrow> tql_prepared q p"
    and ok: "current_priority th \<le> ThreadPrioLowest" "nominal_priority th \<le> ThreadPrioLowest"
      "status th \<noteq> Dormant \<Longrightarrow> tql_prepared q (current_priority th)"
    and same: "core_id (threads k t) = c \<or> status (threads k t) \<noteq> Ready"
    and k': "rq k' = (rq k)(c := q)" "\<And>x. x \<noteq> t \<Longrightarrow> threads k' x = threads k x" "threads k' t = th"
  shows "sched_inv k'"
proof -
  note D = sched_invD [OF inv]
  have r: "rq k' d = (if d = c then q else rq k d)" for d using k'(1) by (metis fun_upd_apply)
  have "x \<in> set (tql_level (rq k' d) p) \<longleftrightarrow>
      status (threads k' x) = Ready \<and> core_id (threads k' x) = d \<and> current_priority (threads k' x) = p" for d p x
    using D(4) [of x d p] old [of x p] new [of p] same k'(2) [of x] k'(3) c D(4) [of t d p]
    by (cases "x = t"; cases "d = c") (auto simp: r)
  moreover have "thread_ok k' x" for x
    using D(5-7) [of x] ok c prep k'(2) [of x] k'(3) by (cases "x = t") (auto simp: thread_ok_def r)
  ultimately show ?thesis using D(1-3) q by (simp add: sched_inv_def r)
qed


section \<open>Priority changes keep the invariant\<close>

definition requeued :: "oid \<Rightarrow> nat \<Rightarrow> Kernel \<Rightarrow> oid ThreadQueueList" where
  "requeued t p k = (let th = threads k t; q = rq k (core_id th)
     in if status th = Ready then tql_move t (current_priority th) p q else prepare p q)"

lemma requeued_level:
  fixes t :: oid
  assumes inv: "sched_inv k" and p: "p \<le> ThreadPrioLowest"
  defines "q \<equiv> rq k (core_id (threads k t))" and "q' \<equiv> requeued t p k"
  shows "tql_inv q'" "length (queues q') = ThreadPrioLowest + 1" "tql_prepared q' = (tql_prepared q)(p := True)"
    "tql_level q' = (if status (threads k t) = Ready
       then (let l = (tql_level q)(current_priority (threads k t) := filter (\<lambda>y. y \<noteq> t) (tql_level q (current_priority (threads k t))))
             in l(p := l p @ [t]))
       else tql_level q)"
proof -
  note D = sched_invD [OF inv]
  have b: "tql_inv q" "current_priority (threads k t) < length (queues q)" "p < length (queues q)"
    using D(1,2,5) p by (simp_all add: q_def less_Suc_eq_le)
  note mv = tql.requeue [OF b, of t] and pr = tql.prep_law [OF b(1,3)]
  show "tql_inv q'" "length (queues q') = ThreadPrioLowest + 1" "tql_prepared q' = (tql_prepared q)(p := True)"
    "tql_level q' = (if status (threads k t) = Ready
       then (let l = (tql_level q)(current_priority (threads k t) := filter (\<lambda>y. y \<noteq> t) (tql_level q (current_priority (threads k t))))
             in l(p := l p @ [t]))
       else tql_level q)"
    using mv pr D(2) [of "core_id (threads k t)"]
    by (simp_all add: q'_def requeued_def Let_def q_def [symmetric] tql_move_def)
qed

lemma sched_inv_requeue:
  assumes inv: "sched_inv k" and p: "p \<le> ThreadPrioLowest" "nominal_priority th \<le> ThreadPrioLowest"
    and th: "status th = status (threads k t)" "core_id th = core_id (threads k t)" "current_priority th = p"
    and k': "rq k' = (rq k)(core_id (threads k t) := requeued t p k)" "\<And>x. x \<noteq> t \<Longrightarrow> threads k' x = threads k x" "threads k' t = th"
  shows "sched_inv k'"
proof -
  note D = sched_invD [OF inv] and R = requeued_level [OF inv p(1), of t]
  let ?c = "core_id (threads k t)" and ?q' = "requeued t p k"
  have notin: "t \<in> set (tql_level (rq k ?c) i) \<longleftrightarrow> status (threads k t) = Ready \<and> i = current_priority (threads k t)" for i
    using D(4) [of t ?c i] by auto
  have dist: "distinct (tql_level ?q' i)" for i
    using D(3) [of ?c i] D(3) [of ?c "current_priority (threads k t)"] notin [of i]
    by (auto simp: R(4) Let_def distinct_filter split: if_splits)
  have other: "x \<in> set (tql_level ?q' i) \<longleftrightarrow> x \<in> set (tql_level (rq k ?c) i)" if "x \<noteq> t" for x i
    using that by (auto simp: R(4) Let_def)
  have this_one: "t \<in> set (tql_level ?q' i) \<longleftrightarrow> status th = Ready \<and> current_priority th = i" for i
    using notin th by (auto simp: R(4) Let_def)
  show ?thesis
    by (rule sched_inv_update [OF inv th(2) R(1,2) dist other this_one])
       (use R(3) p th k' in \<open>auto split: if_splits\<close>)
qed

lemma sched_inv_BoostPriority [inv_intros]:
  "sched_inv k \<Longrightarrow> p \<le> ThreadPrioLowest \<Longrightarrow> sched_inv (BoostPriority t p k)"
  by (rule sched_inv_requeue [where k = k and p = p and t = t and th = "(threads k t)\<lparr>current_priority := p\<rparr>"])
     (auto simp: BoostPriority_def requeued_def Let_def sched_invD(6))

lemma sched_inv_SetPriority [inv_intros]:
  assumes "sched_inv k" "SetPriority t p k = Some k'"
  shows "sched_inv k'"
proof -
  have p: "p \<le> ThreadPrioLowest" using assms(2) by (simp add: SetPriority_def)
  have k': "k' = upd_thread t (\<lambda>x. x\<lparr>nominal_priority := p, current_priority := p\<rparr>)
      (if status (threads k t) = Ready then upd_queue (core_id (threads k t)) (tql_move t (current_priority (threads k t)) p) k
       else upd_queue (core_id (threads k t)) (prepare p) k)"
    using assms(2) by (simp add: SetPriority_def Let_def)
  show ?thesis
    by (rule sched_inv_requeue [OF assms(1) p, where t = t and th = "(threads k t)\<lparr>nominal_priority := p, current_priority := p\<rparr>"])
       (use p in \<open>auto simp: k' requeued_def Let_def\<close>)
qed

lemma best_le: "foldl (\<lambda>best w. if f w < best then f w else best) (b :: nat) ws \<le> b"
  by (induction ws arbitrary: b) (auto intro: order_trans less_imp_le)

lemma best_is_min: "foldl (\<lambda>best w. if f w < best then f w else best) (b :: nat) ws = foldl min b (map f ws)"
  by (induction ws arbitrary: b) (auto simp: min_def)

lemma sched_inv_Thread_UpdatePriority [inv_intros]: "sched_inv k \<Longrightarrow> sched_inv (Thread_UpdatePriority t k)"
  unfolding Thread_UpdatePriority_def
  by (rule sched_inv_BoostPriority) (auto intro: order_trans [OF best_le] simp: sched_invD(6))

lemma sched_inv_set_obj [simp]: "sched_inv (set_obj w s k) = sched_inv k"
  by (rule sched_inv_cong) simp_all

lemma sched_inv_upd_object [simp]: "sched_inv (upd_object w f k) = sched_inv k"
  by (rule sched_inv_cong) simp_all

lemma sched_inv_PrepareReschedule [simp]: "sched_inv (PrepareReschedule k) = sched_inv k"
  by (rule sched_inv_cong) simp_all

lemma sched_inv_upd_thread:
  assumes "status (f (threads k t)) = status (threads k t)" "core_id (f (threads k t)) = core_id (threads k t)"
    "current_priority (f (threads k t)) = current_priority (threads k t)" "nominal_priority (f (threads k t)) = nominal_priority (threads k t)"
  shows "sched_inv (upd_thread t f k) = sched_inv k"
  by (rule sched_inv_cong) (auto simp: assms)

lemma sched_inv_not_ready:
  assumes "sched_inv k" "status (threads k t) \<notin> {Ready, Dormant}" "status (f (threads k t)) \<noteq> Ready"
    "core_id (f (threads k t)) = core_id (threads k t)" "current_priority (f (threads k t)) = current_priority (threads k t)"
    "nominal_priority (f (threads k t)) = nominal_priority (threads k t)"
  shows "sched_inv (upd_thread t f k)"
  using assms by (simp add: sched_inv_def thread_ok_def upd_thread_def)

lemma sched_inv_Mutex_UpdatePriority [inv_intros]: "sched_inv k \<Longrightarrow> sched_inv (Mutex_UpdatePriority w k)"
  by (auto simp: Mutex_UpdatePriority_def Let_def split: object_state.splits option.splits
      intro!: sched_inv_Thread_UpdatePriority)

lemma sched_inv_AddWaitingThread [inv_intros]: "sched_inv k \<Longrightarrow> sched_inv (AddWaitingThread w t k)"
  by (auto simp: AddWaitingThread_def Let_def WaitObject_AddWaitingThread_def sched_inv_upd_thread
      intro!: sched_inv_Mutex_UpdatePriority)

lemma sched_inv_RemoveWaitingThread [inv_intros]: "sched_inv k \<Longrightarrow> sched_inv (RemoveWaitingThread w t k)"
  by (auto simp: RemoveWaitingThread_def Let_def WaitObject_RemoveWaitingThread_def sched_inv_upd_thread
      intro!: sched_inv_Mutex_UpdatePriority)


section \<open>What priority changes leave alone\<close>

text \<open>Two states that differ only in current priorities, mutex priorities and queues.\<close>

definition plain_thread :: "Thread \<Rightarrow> Thread" where
  "plain_thread th = th\<lparr>current_priority := 0\<rparr>"

definition plain_object :: "WaitObject \<Rightarrow> WaitObject" where
  "plain_object x = x\<lparr>obj := (case obj x of O_Mutex mx \<Rightarrow> O_Mutex (mx\<lparr>mtx_priority := 0\<rparr>) | s \<Rightarrow> s)\<rparr>"

definition prio_only :: "Kernel \<Rightarrow> Kernel \<Rightarrow> bool" where
  "prio_only k k' \<longleftrightarrow> (\<forall>t. plain_thread (threads k' t) = plain_thread (threads k t))
     \<and> (\<forall>w. plain_object (wait_object k' w) = plain_object (wait_object k w))
     \<and> arbiter_waiting k' = arbiter_waiting k"

lemma prio_only_refl [simp]: "prio_only k k"
  by (simp add: prio_only_def)

lemma prio_only_trans: "prio_only k k' \<Longrightarrow> prio_only k' k'' \<Longrightarrow> prio_only k k''"
  by (simp add: prio_only_def)

lemma plain_threadD:
  assumes "plain_thread x = plain_thread y"
  shows "status x = status y" "wait_objects x = wait_objects y" "wakeup_callback x = wakeup_callback y"
    "core_id x = core_id y" "held_mutexes x = held_mutexes y" "nominal_priority x = nominal_priority y"
    "wait_address x = wait_address y" "thread_context x = thread_context y" "pending_mutexes x = pending_mutexes y"
  using arg_cong [OF assms, of status] arg_cong [OF assms, of wait_objects] arg_cong [OF assms, of wakeup_callback]
    arg_cong [OF assms, of core_id] arg_cong [OF assms, of held_mutexes] arg_cong [OF assms, of nominal_priority]
    arg_cong [OF assms, of wait_address] arg_cong [OF assms, of thread_context] arg_cong [OF assms, of pending_mutexes]
  by (simp_all add: plain_thread_def)

lemma plain_objectD: "plain_object x = plain_object y \<Longrightarrow> waiting_threads x = waiting_threads y"
  by (drule arg_cong [of _ _ waiting_threads]) (simp add: plain_object_def)

lemma prio_onlyD:
  assumes "prio_only k k'"
  shows "status (threads k' t) = status (threads k t)" "wait_objects (threads k' t) = wait_objects (threads k t)"
    "wakeup_callback (threads k' t) = wakeup_callback (threads k t)" "core_id (threads k' t) = core_id (threads k t)"
    "held_mutexes (threads k' t) = held_mutexes (threads k t)" "nominal_priority (threads k' t) = nominal_priority (threads k t)"
    "wait_address (threads k' t) = wait_address (threads k t)" "thread_context (threads k' t) = thread_context (threads k t)"
    "waiting_threads (wait_object k' w) = waiting_threads (wait_object k w)" "arbiter_waiting k' = arbiter_waiting k"
    "pending_mutexes (threads k' t) = pending_mutexes (threads k t)"
  using assms plain_threadD [of "threads k' t" "threads k t"] plain_objectD [of "wait_object k' w" "wait_object k w"]
  by (simp_all add: prio_only_def)

lemma prio_only_BoostPriority: "prio_only k (BoostPriority t p k)"
  by (simp add: prio_only_def BoostPriority_def Let_def plain_thread_def)

lemma prio_only_Thread_UpdatePriority: "prio_only k (Thread_UpdatePriority t k)"
  by (simp add: Thread_UpdatePriority_def prio_only_BoostPriority)

lemma prio_only_set_mutex:
  "obj (wait_object k w) = O_Mutex mx \<Longrightarrow> prio_only k (set_obj w (O_Mutex (mx\<lparr>mtx_priority := p\<rparr>)) k)"
  by (simp add: prio_only_def plain_object_def)

lemma prio_only_Mutex_UpdatePriority: "prio_only k (Mutex_UpdatePriority w k)"
  by (auto simp: Mutex_UpdatePriority_def Let_def split: object_state.splits option.splits
      intro!: prio_only_trans [OF prio_only_set_mutex prio_only_Thread_UpdatePriority])

definition drop_waiter :: "oid \<Rightarrow> oid \<Rightarrow> Kernel \<Rightarrow> Kernel" where
  "drop_waiter w t k =
     (if is_mutex k w then upd_thread t (\<lambda>x. x\<lparr>pending_mutexes := remove1 w (pending_mutexes x)\<rparr>) (WaitObject_RemoveWaitingThread w t k)
      else WaitObject_RemoveWaitingThread w t k)"

lemma is_mutex_waiting [simp]: "is_mutex (WaitObject_RemoveWaitingThread w t k) x = is_mutex k x"
  "is_mutex (WaitObject_AddWaitingThread w t k) x = is_mutex k x"
  by (simp_all add: is_mutex_def WaitObject_RemoveWaitingThread_def WaitObject_AddWaitingThread_def)

lemma RemoveWaitingThread_prio_only: "prio_only (drop_waiter w t k) (RemoveWaitingThread w t k)"
  by (simp add: drop_waiter_def RemoveWaitingThread_def Let_def prio_only_Mutex_UpdatePriority)

end
