(* ===== verification/Wait_Object.thy ===== *)
theory Wait_Object
  imports Kernel_State
begin

text \<open>
  Waiting and waking up: \<^verbatim>\<open>wait_object.cpp\<close>, the \<^verbatim>\<open>ShouldWait\<close> and \<^verbatim>\<open>Acquire\<close> of every kind of wait
  object (\<^verbatim>\<open>event.cpp\<close>, \<^verbatim>\<open>mutex.cpp\<close>, \<^verbatim>\<open>semaphore.cpp\<close>, \<^verbatim>\<open>timer.cpp\<close>, \<^verbatim>\<open>thread.cpp\<close>), the wakeup
  callbacks of \<^verbatim>\<open>svc.cpp\<close> and \<^verbatim>\<open>address_arbiter.cpp\<close>, and \<^verbatim>\<open>Thread::ResumeFromWait\<close>.
\<close>

section \<open>The interface of wait objects\<close>

definition Event_ShouldWait :: "KEvent \<Rightarrow> bool" where "Event_ShouldWait e \<longleftrightarrow> \<not> ev_signaled e"

definition Mutex_ShouldWait :: "Mutex \<Rightarrow> oid \<Rightarrow> bool" where
  "Mutex_ShouldWait mx t \<longleftrightarrow> lock_count mx > 0 \<and> Some t \<noteq> holding_thread mx"

definition Semaphore_ShouldWait :: "Semaphore \<Rightarrow> bool" where "Semaphore_ShouldWait s \<longleftrightarrow> available_count s \<le> 0"

definition Timer_ShouldWait :: "KTimer \<Rightarrow> bool" where "Timer_ShouldWait x \<longleftrightarrow> \<not> tm_signaled x"

definition Thread_ShouldWait :: "Thread \<Rightarrow> bool" where "Thread_ShouldWait x \<longleftrightarrow> status x \<noteq> Dead"

definition ServerPort_ShouldWait :: "ServerPort \<Rightarrow> bool" where "ServerPort_ShouldWait p \<longleftrightarrow> length (pending_sessions p) = 0"

definition ServerSession_ShouldWait :: "ServerSession \<Rightarrow> bool" where
  "ServerSession_ShouldWait s \<longleftrightarrow>
     parent_client s \<and> (pending_requesting_threads s = [] \<or> currently_handling s \<noteq> None)"

definition ShouldWait :: "Kernel \<Rightarrow> oid \<Rightarrow> oid \<Rightarrow> bool" where
  "ShouldWait k w t =
     (case obj (wait_object k w) of
        O_Event e \<Rightarrow> Event_ShouldWait e
      | O_Mutex mx \<Rightarrow> Mutex_ShouldWait mx t
      | O_Semaphore s \<Rightarrow> Semaphore_ShouldWait s
      | O_Timer x \<Rightarrow> Timer_ShouldWait x
      | O_Thread \<Rightarrow> Thread_ShouldWait (threads k w)
      | O_ServerPort p \<Rightarrow> ServerPort_ShouldWait p
      | O_ServerSession s \<Rightarrow> ServerSession_ShouldWait s)"

definition Event_Acquire :: "oid \<Rightarrow> KEvent \<Rightarrow> Kernel \<Rightarrow> Kernel run" where
  "Event_Acquire w e k = do {
     ASSERT (\<not> Event_ShouldWait e);
     Some (if ev_reset_type e = OneShot then set_obj w (O_Event (e\<lparr>ev_signaled := False\<rparr>)) k else k)
   }"

definition Mutex_Acquire :: "oid \<Rightarrow> Mutex \<Rightarrow> oid \<Rightarrow> Kernel \<Rightarrow> Kernel run" where
  "Mutex_Acquire w mx t k = do {
     ASSERT (\<not> Mutex_ShouldWait mx t);
     Some (if lock_count mx = 0 then
         let mx = mx\<lparr>mtx_priority := current_priority (threads k t), holding_thread := Some t\<rparr>;
             k = upd_thread t (\<lambda>x. x\<lparr>held_mutexes := flat_insert w (held_mutexes x)\<rparr>) (set_obj w (O_Mutex mx) k);
             k = PrepareReschedule (Thread_UpdatePriority t k)
         in set_obj w (O_Mutex (mx\<lparr>lock_count := lock_count mx + 1\<rparr>)) k
       else set_obj w (O_Mutex (mx\<lparr>lock_count := lock_count mx + 1\<rparr>)) k)
   }"

definition Semaphore_Acquire :: "oid \<Rightarrow> Semaphore \<Rightarrow> Kernel \<Rightarrow> Kernel" where
  "Semaphore_Acquire w s k =
     (if available_count s \<le> 0 then k
      else set_obj w (O_Semaphore (s\<lparr>available_count := available_count s - 1\<rparr>)) k)"

definition Timer_Acquire :: "oid \<Rightarrow> KTimer \<Rightarrow> Kernel \<Rightarrow> Kernel run" where
  "Timer_Acquire w x k = do {
     ASSERT (\<not> Timer_ShouldWait x);
     Some (if tm_reset_type x = OneShot then set_obj w (O_Timer (x\<lparr>tm_signaled := False\<rparr>)) k else k)
   }"

definition Thread_Acquire :: "oid \<Rightarrow> Kernel \<Rightarrow> Kernel run" where
  "Thread_Acquire w k = do { ASSERT (\<not> Thread_ShouldWait (threads k w)); Some k }"

definition ServerPort_Acquire :: "ServerPort \<Rightarrow> Kernel \<Rightarrow> Kernel run" where
  "ServerPort_Acquire p k = do { ASSERT (\<not> ServerPort_ShouldWait p); Some k }"

text \<open>The last request is taken first.\<close>

definition ServerSession_Acquire :: "oid \<Rightarrow> ServerSession \<Rightarrow> Kernel \<Rightarrow> Kernel run" where
  "ServerSession_Acquire w s k = do {
     ASSERT (\<not> ServerSession_ShouldWait s);
     (if \<not> parent_client s then Some k
      else do {
        ASSERT (pending_requesting_threads s \<noteq> []);
        Some (set_obj w (O_ServerSession (s\<lparr>currently_handling := Some (last (pending_requesting_threads s)),
                                           pending_requesting_threads := butlast (pending_requesting_threads s)\<rparr>)) k) })
   }"

definition Acquire :: "oid \<Rightarrow> oid \<Rightarrow> Kernel \<Rightarrow> Kernel run" where
  "Acquire w t k =
     (case obj (wait_object k w) of
        O_Event e \<Rightarrow> Event_Acquire w e k
      | O_Mutex mx \<Rightarrow> Mutex_Acquire w mx t k
      | O_Semaphore s \<Rightarrow> Some (Semaphore_Acquire w s k)
      | O_Timer x \<Rightarrow> Timer_Acquire w x k
      | O_Thread \<Rightarrow> Thread_Acquire w k
      | O_ServerPort p \<Rightarrow> ServerPort_Acquire p k
      | O_ServerSession s \<Rightarrow> ServerSession_Acquire w s k)"

section \<open>Wakeup callbacks\<close>

definition SetWaitSynchronizationResult :: "oid \<Rightarrow> ResultCode \<Rightarrow> Kernel \<Rightarrow> Kernel" where
  "SetWaitSynchronizationResult t res k =
     upd_thread t (\<lambda>x. x\<lparr>thread_context := (thread_context x)(0 := raw res)\<rparr>) k"

definition SetWaitSynchronizationOutput :: "oid \<Rightarrow> int \<Rightarrow> Kernel \<Rightarrow> Kernel" where
  "SetWaitSynchronizationOutput t out k =
     upd_thread t (\<lambda>x. x\<lparr>thread_context := (thread_context x)(1 := of_int out)\<rparr>) k"

text \<open>The position of the last occurrence; \<open>-1\<close> for an object that is not in the list.\<close>

fun index_of :: "oid \<Rightarrow> oid list \<Rightarrow> int" where
  "index_of w [] = - 1"
| "index_of w (x # xs) = (let i = index_of w xs in if i \<ge> 0 then i + 1 else if x = w then 0 else - 1)"

definition GetWaitObjectIndex :: "oid \<Rightarrow> oid \<Rightarrow> Kernel \<Rightarrow> int run" where
  "GetWaitObjectIndex t w k = do {
     ASSERT (wait_objects (threads k t) \<noteq> []);
     Some (index_of w (wait_objects (threads k t)))
   }"

definition SyncCallback_WakeUp :: "bool \<Rightarrow> ThreadWakeupReason \<Rightarrow> oid \<Rightarrow> oid option \<Rightarrow> Kernel \<Rightarrow> Kernel run" where
  "SyncCallback_WakeUp do_output reason t object k =
     (if reason = WR_Timeout then Some (SetWaitSynchronizationResult t RESULT_TIMEOUT k)
      else do {
        ASSERT (reason = WR_Signal);
        let k = SetWaitSynchronizationResult t RESULT_SUCCESS k;
        (if do_output then do {
           w \<leftarrow> object;
           i \<leftarrow> GetWaitObjectIndex t w k;
           Some (SetWaitSynchronizationOutput t i k) }
         else Some k) })"

definition Arbiter_WakeUp :: "oid \<Rightarrow> ThreadWakeupReason \<Rightarrow> oid \<Rightarrow> Kernel \<Rightarrow> Kernel run" where
  "Arbiter_WakeUp a reason t k = do {
     ASSERT (reason = WR_Timeout);
     Some (k\<lparr>arbiter_waiting := (arbiter_waiting k)(a := filter (\<lambda>x. x \<noteq> t) (arbiter_waiting k a))\<rparr>)
   }"

definition WakeUp :: "WakeupCallback \<Rightarrow> ThreadWakeupReason \<Rightarrow> oid \<Rightarrow> oid option \<Rightarrow> Kernel \<Rightarrow> Kernel run" where
  "WakeUp cb reason t object k =
     (case cb of
        SVC_SyncCallback do_output \<Rightarrow> SyncCallback_WakeUp do_output reason t object k
      | ArbiterCallback a \<Rightarrow> Arbiter_WakeUp a reason t k
      | OtherCallback n \<Rightarrow> Some (k\<lparr>callbacks_run := callbacks_run k @ [(n, reason, t, object)]\<rparr>))"

definition invoke_callback :: "ThreadWakeupReason \<Rightarrow> oid \<Rightarrow> oid option \<Rightarrow> Kernel \<Rightarrow> Kernel run" where
  "invoke_callback reason t object k =
     (case wakeup_callback (threads k t) of None \<Rightarrow> Some k | Some cb \<Rightarrow> WakeUp cb reason t object k)"

section \<open>Resuming\<close>

text \<open>
  Removing a thread from all it waits for; the loop of \<open>WakeupAllWaitingThreads\<close>,
  \<open>ThreadWakeupCallback\<close> and \<open>Stop\<close>.
\<close>

definition leave_wait_objects :: "oid \<Rightarrow> Kernel \<Rightarrow> Kernel" where
  "leave_wait_objects t k =
     upd_thread t (\<lambda>x. x\<lparr>wait_objects := []\<rparr>)
       (foldl (\<lambda>k w. RemoveWaitingThread w t k) k (wait_objects (threads k t)))"

text \<open>The \<^verbatim>\<open>DEBUG_ASSERT\<close> of the \<open>Running\<close> and \<open>Dead\<close> cases is compiled out of release builds.\<close>

definition ResumeFromWait :: "oid \<Rightarrow> Kernel \<Rightarrow> Kernel run" where
  "ResumeFromWait t k = do {
     ASSERT (wait_objects (threads k t) = []);
     (case status (threads k t) of
        Ready \<Rightarrow> do { ASSERT (wakeup_callback (threads k t) = None); Some k }
      | Running \<Rightarrow> Some k
      | Dead \<Rightarrow> Some k
      | _ \<Rightarrow>
          let k = upd_thread t (\<lambda>x. x\<lparr>wakeup_callback := None\<rparr>) k;
              k = upd_queue (core_id (threads k t)) (push_back (current_priority (threads k t)) t) k
          in Some (PrepareReschedule (upd_thread t (\<lambda>x. x\<lparr>status := Ready\<rparr>) k)))
   }"

definition IsSleepingOnWaitAll :: "Thread \<Rightarrow> bool" where
  "IsSleepingOnWaitAll x \<longleftrightarrow> status x = WaitSynchAll"

definition ready_to_run :: "Kernel \<Rightarrow> oid \<Rightarrow> oid \<Rightarrow> bool" where
  "ready_to_run k w t \<longleftrightarrow> \<not> ShouldWait k w t
     \<and> (status (threads k t) = WaitSynchAll \<longrightarrow> list_all (\<lambda>x. \<not> ShouldWait k x t) (wait_objects (threads k t)))"

fun highest_loop :: "Kernel \<Rightarrow> oid \<Rightarrow> oid list \<Rightarrow> oid option \<times> nat \<Rightarrow> oid option run" where
  "highest_loop k w [] (candidate, candidate_priority) = Some candidate"
| "highest_loop k w (t # ts) (candidate, candidate_priority) =
     (if status (threads k t) \<in> {WaitSynchAny, WaitSynchAll, WaitHleEvent}
      then highest_loop k w ts
             (if current_priority (threads k t) < candidate_priority \<and> ready_to_run k w t
              then (Some t, current_priority (threads k t)) else (candidate, candidate_priority))
      else None)"

definition GetHighestPriorityReadyThread :: "Kernel \<Rightarrow> oid \<Rightarrow> oid option run" where
  "GetHighestPriorityReadyThread k w = highest_loop k w (waiting_threads (wait_object k w)) (None, ThreadPrioLowest + 1)"

fun acquire_all :: "oid list \<Rightarrow> oid \<Rightarrow> Kernel \<Rightarrow> Kernel run" where
  "acquire_all [] t k = Some k"
| "acquire_all (w # ws) t k = Acquire w t k \<bind> acquire_all ws t"

definition wakeup_one :: "oid \<Rightarrow> oid \<Rightarrow> Kernel \<Rightarrow> Kernel run" where
  "wakeup_one w t k = do {
     k \<leftarrow> (if \<not> IsSleepingOnWaitAll (threads k t) then Acquire w t k
           else acquire_all (wait_objects (threads k t)) t k);
     k \<leftarrow> invoke_callback WR_Signal t (Some w) k;
     ResumeFromWait t (leave_wait_objects t k)
   }"

partial_function (option) wakeup_loop :: "oid \<Rightarrow> Kernel \<Rightarrow> Kernel run" where
  "wakeup_loop w k =
     (case GetHighestPriorityReadyThread k w of
        None \<Rightarrow> None
      | Some None \<Rightarrow> Some k
      | Some (Some t) \<Rightarrow> (case wakeup_one w t k of None \<Rightarrow> None | Some k' \<Rightarrow> wakeup_loop w k'))"

text \<open>\<^verbatim>\<open>Event\<close> and \<^verbatim>\<open>Timer\<close> override it to clear a pulse.\<close>

definition WakeupAllWaitingThreads :: "oid \<Rightarrow> Kernel \<Rightarrow> Kernel run" where
  "WakeupAllWaitingThreads w k = do {
     k \<leftarrow> wakeup_loop w k;
     Some (case obj (wait_object k w) of
         O_Event e \<Rightarrow> if ev_reset_type e = Pulse then set_obj w (O_Event (e\<lparr>ev_signaled := False\<rparr>)) k else k
       | O_Timer x \<Rightarrow> if tm_reset_type x = Pulse then set_obj w (O_Timer (x\<lparr>tm_signaled := False\<rparr>)) k else k
       | _ \<Rightarrow> k)
   }"


section \<open>Frame lemmas\<close>

lemma ShouldWait_prio_only:
  assumes "prio_only k k'"
  shows "ShouldWait k' w t = ShouldWait k w t"
proof -
  have o: "obj (plain_object (wait_object k' w)) = obj (plain_object (wait_object k w))"
    using assms by (simp add: prio_only_def)
  have m: "mx\<lparr>mtx_priority := 0\<rparr> = mx'\<lparr>mtx_priority := 0\<rparr> \<Longrightarrow> Mutex_ShouldWait mx t = Mutex_ShouldWait mx' t" for mx mx'
    by (frule arg_cong [of _ _ lock_count], drule arg_cong [of _ _ holding_thread]) (simp add: Mutex_ShouldWait_def)
  show ?thesis
  proof (cases "obj (wait_object k w)")
    case (O_Mutex mx)
    with o obtain mx' where "obj (wait_object k' w) = O_Mutex mx'" "mx'\<lparr>mtx_priority := 0\<rparr> = mx\<lparr>mtx_priority := 0\<rparr>"
      by (cases "obj (wait_object k' w)") (auto simp: plain_object_def)
    then show ?thesis using O_Mutex m [of mx' mx] by (simp add: ShouldWait_def)
  qed (use o prio_onlyD(1) [OF assms, of w] in
      \<open>cases "obj (wait_object k' w)"; simp add: ShouldWait_def plain_object_def Thread_ShouldWait_def\<close>)+
qed

lemma ShouldWait_cong:
  assumes "obj (wait_object k' w) = obj (wait_object k w)" "status (threads k' w) = status (threads k w)"
  shows "ShouldWait k' w t = ShouldWait k w t"
  using assms by (simp add: ShouldWait_def Thread_ShouldWait_def split: object_state.splits)

lemma drop_waiter_simps:
  "waiting_threads (wait_object (drop_waiter w t k) x)
     = (if x = w then remove1 t (waiting_threads (wait_object k x)) else waiting_threads (wait_object k x))"
  "obj (wait_object (drop_waiter w t k) x) = obj (wait_object k x)"
  "status (threads (drop_waiter w t k) u) = status (threads k u)"
  "wait_objects (threads (drop_waiter w t k) u) = wait_objects (threads k u)"
  "wakeup_callback (threads (drop_waiter w t k) u) = wakeup_callback (threads k u)"
  "core_id (threads (drop_waiter w t k) u) = core_id (threads k u)"
  "held_mutexes (threads (drop_waiter w t k) u) = held_mutexes (threads k u)"
  "arbiter_waiting (drop_waiter w t k) = arbiter_waiting k"
  by (auto simp: drop_waiter_def WaitObject_RemoveWaitingThread_def)

lemma RemoveWaitingThread_frame:
  shows "waiting_threads (wait_object (RemoveWaitingThread w t k) x)
     = (if x = w then remove1 t (waiting_threads (wait_object k x)) else waiting_threads (wait_object k x))"
    "status (threads (RemoveWaitingThread w t k) u) = status (threads k u)"
    "wait_objects (threads (RemoveWaitingThread w t k) u) = wait_objects (threads k u)"
    "wakeup_callback (threads (RemoveWaitingThread w t k) u) = wakeup_callback (threads k u)"
    "core_id (threads (RemoveWaitingThread w t k) u) = core_id (threads k u)"
    "ShouldWait (RemoveWaitingThread w t k) x u = ShouldWait k x u"
    "arbiter_waiting (RemoveWaitingThread w t k) = arbiter_waiting k"
    "held_mutexes (threads (RemoveWaitingThread w t k) u) = held_mutexes (threads k u)"
  using prio_onlyD [OF RemoveWaitingThread_prio_only [of w t k]] ShouldWait_prio_only [OF RemoveWaitingThread_prio_only [of w t k]]
    ShouldWait_cong [of "drop_waiter w t k" x k u]
  by (simp_all add: drop_waiter_simps)

definition remove_all :: "oid list \<Rightarrow> oid \<Rightarrow> Kernel \<Rightarrow> Kernel" where
  "remove_all ws t k = foldl (\<lambda>k w. RemoveWaitingThread w t k) k ws"

lemma remove_all_frame:
  shows "status (threads (remove_all ws t k) u) = status (threads k u)"
    "wait_objects (threads (remove_all ws t k) u) = wait_objects (threads k u)"
    "wakeup_callback (threads (remove_all ws t k) u) = wakeup_callback (threads k u)"
    "core_id (threads (remove_all ws t k) u) = core_id (threads k u)"
    "ShouldWait (remove_all ws t k) x u = ShouldWait k x u"
    "arbiter_waiting (remove_all ws t k) = arbiter_waiting k"
    "held_mutexes (threads (remove_all ws t k) u) = held_mutexes (threads k u)"
    "sched_inv k \<Longrightarrow> sched_inv (remove_all ws t k)"
    "distinct (waiting_threads (wait_object k x)) \<Longrightarrow> waiting_threads (wait_object (remove_all ws t k) x)
       = (if x \<in> set ws then remove1 t (waiting_threads (wait_object k x)) else waiting_threads (wait_object k x))"
proof (induction ws arbitrary: k)
  case (Cons w ws)
  {
    case 9
    then have "remove1 t (remove1 t (waiting_threads (wait_object k x))) = remove1 t (waiting_threads (wait_object k x))"
      by (simp add: remove1_idem)
    with 9 show ?case
      using Cons.IH(9) [of "RemoveWaitingThread w t k"]
      by (cases "x = w") (simp_all add: remove_all_def RemoveWaitingThread_frame distinct_remove1)
  }
qed (simp_all add: remove_all_def RemoveWaitingThread_frame sched_inv_RemoveWaitingThread)

lemma leave_wait_objects_frame:
  shows "status (threads (leave_wait_objects t k) u) = status (threads k u)"
    "wait_objects (threads (leave_wait_objects t k) u) = (if u = t then [] else wait_objects (threads k u))"
    "wakeup_callback (threads (leave_wait_objects t k) u) = wakeup_callback (threads k u)"
    "core_id (threads (leave_wait_objects t k) u) = core_id (threads k u)"
    "ShouldWait (leave_wait_objects t k) x u = ShouldWait k x u"
    "arbiter_waiting (leave_wait_objects t k) = arbiter_waiting k"
    "held_mutexes (threads (leave_wait_objects t k) u) = held_mutexes (threads k u)"
    "sched_inv k \<Longrightarrow> sched_inv (leave_wait_objects t k)"
    "distinct (waiting_threads (wait_object k x)) \<Longrightarrow> waiting_threads (wait_object (leave_wait_objects t k) x)
       = (if x \<in> set (wait_objects (threads k t)) then remove1 t (waiting_threads (wait_object k x))
          else waiting_threads (wait_object k x))"
proof -
  let ?k = "remove_all (wait_objects (threads k t)) t k"
  have l: "leave_wait_objects t k = upd_thread t (\<lambda>x. x\<lparr>wait_objects := []\<rparr>) ?k"
    by (simp add: leave_wait_objects_def remove_all_def)
  have "ShouldWait (upd_thread t (\<lambda>x. x\<lparr>wait_objects := []\<rparr>) ?k) x u = ShouldWait ?k x u"
    by (rule ShouldWait_cong) simp_all
  then show "ShouldWait (leave_wait_objects t k) x u = ShouldWait k x u" by (simp add: l remove_all_frame)
  show "sched_inv k \<Longrightarrow> sched_inv (leave_wait_objects t k)" by (simp add: l sched_inv_upd_thread remove_all_frame)
qed (simp_all add: leave_wait_objects_def remove_all_def [symmetric] remove_all_frame)


section \<open>Acquiring\<close>

text \<open>What acquiring leaves alone: everything about waiting, and whether other objects are available.\<close>

definition wait_frame :: "oid \<Rightarrow> Kernel \<Rightarrow> Kernel \<Rightarrow> bool" where
  "wait_frame w k k' \<longleftrightarrow>
     (\<forall>u. status (threads k' u) = status (threads k u) \<and> wait_objects (threads k' u) = wait_objects (threads k u)
        \<and> wakeup_callback (threads k' u) = wakeup_callback (threads k u) \<and> core_id (threads k' u) = core_id (threads k u))
   \<and> (\<forall>x. waiting_threads (wait_object k' x) = waiting_threads (wait_object k x))
   \<and> (\<forall>x u. x \<noteq> w \<longrightarrow> ShouldWait k' x u = ShouldWait k x u)
   \<and> arbiter_waiting k' = arbiter_waiting k \<and> (sched_inv k \<longrightarrow> sched_inv k')"

lemma wait_frame_refl [simp]: "wait_frame w k k"
  by (simp add: wait_frame_def)

lemma wait_frame_trans: "wait_frame w k k' \<Longrightarrow> wait_frame w k' k'' \<Longrightarrow> wait_frame w k k''"
  by (simp add: wait_frame_def)

lemma wait_frame_set_obj: "wait_frame w k (set_obj w s k)"
  by (simp add: wait_frame_def ShouldWait_def split: object_state.splits)

lemma wait_frame_prio_only: "prio_only k k' \<Longrightarrow> (sched_inv k \<Longrightarrow> sched_inv k') \<Longrightarrow> wait_frame w k k'"
  by (simp add: wait_frame_def prio_onlyD ShouldWait_prio_only)

lemma wait_frame_PrepareReschedule: "wait_frame w k (PrepareReschedule k)"
  by (simp add: wait_frame_def ShouldWait_def split: object_state.splits)

lemma wait_frame_held: "wait_frame w k (upd_thread t (\<lambda>x. x\<lparr>held_mutexes := f (held_mutexes x)\<rparr>) k)"
  by (auto simp: wait_frame_def sched_inv_upd_thread intro!: ShouldWait_cong)

lemma wait_frame_lock:
  "wait_frame w k (set_obj w s' (PrepareReschedule (Thread_UpdatePriority t
     (upd_thread t (\<lambda>x. x\<lparr>held_mutexes := f (held_mutexes x)\<rparr>) (set_obj w s k)))))"
  by (rule wait_frame_trans [OF wait_frame_trans [OF wait_frame_trans [OF wait_frame_trans
      [OF wait_frame_set_obj wait_frame_held] wait_frame_prio_only] wait_frame_PrepareReschedule] wait_frame_set_obj])
     (rule prio_only_Thread_UpdatePriority, rule sched_inv_Thread_UpdatePriority)

lemma Acquire_frame: "Acquire w t k = Some k' \<Longrightarrow> wait_frame w k k'"
  by (auto simp: Acquire_def Event_Acquire_def Mutex_Acquire_def Semaphore_Acquire_def Timer_Acquire_def
      Thread_Acquire_def ServerPort_Acquire_def ServerSession_Acquire_def Let_def wait_frame_lock wait_frame_set_obj split: object_state.splits if_splits)

lemma Acquire_succeeds: "\<not> ShouldWait k w t \<Longrightarrow> \<exists>k'. Acquire w t k = Some k'"
  by (auto simp: Acquire_def ShouldWait_def Event_Acquire_def Mutex_Acquire_def Timer_Acquire_def Thread_Acquire_def
      ServerPort_Acquire_def ServerSession_Acquire_def ServerSession_ShouldWait_def ASSERT_def split: object_state.splits)

text \<open>The contract between wait objects and those who wait for them.\<close>

locale waitable =
  fixes should_wait :: "'s \<Rightarrow> 'o \<Rightarrow> 't \<Rightarrow> bool" and acquire :: "'o \<Rightarrow> 't \<Rightarrow> 's \<Rightarrow> 's option"
  assumes available_acquire: "\<not> should_wait s w t \<Longrightarrow> \<exists>s'. acquire w t s = Some s'"
    and acquire_local: "acquire w t s = Some s' \<Longrightarrow> x \<noteq> w \<Longrightarrow> should_wait s' x t = should_wait s x t"
begin

text \<open>A wait for several different objects that are all available can acquire them all.\<close>

lemma acquire_each:
  "distinct ws \<Longrightarrow> \<forall>w \<in> set ws. \<not> should_wait s w t \<Longrightarrow> \<exists>s'. foldl (\<lambda>r w. r \<bind> acquire w t) (Some s) ws = Some s'"
proof (induction ws arbitrary: s)
  case (Cons w ws)
  then obtain s' where s': "acquire w t s = Some s'" using available_acquire by fastforce
  have "\<forall>x \<in> set ws. \<not> should_wait s' x t"
    using Cons.prems acquire_local [OF s'] by fastforce
  from Cons.IH [OF _ this] Cons.prems s' show ?case by simp
qed simp

end

interpretation wo: waitable ShouldWait Acquire
  by unfold_locales (use Acquire_succeeds Acquire_frame in \<open>auto simp: wait_frame_def\<close>)

lemma foldl_bind_None: "foldl (\<lambda>r w. r \<bind> f w) None ws = None"
  by (induction ws) simp_all

lemma acquire_all_foldl: "acquire_all ws t k = foldl (\<lambda>r w. r \<bind> Acquire w t) (Some k) ws"
proof (induction ws arbitrary: k)
  case (Cons w ws)
  then show ?case by (cases "Acquire w t k") (simp_all add: foldl_bind_None)
qed simp

lemma acquire_all_succeeds:
  "distinct ws \<Longrightarrow> \<forall>w \<in> set ws. \<not> ShouldWait k w t \<Longrightarrow> \<exists>k'. acquire_all ws t k = Some k'"
  unfolding acquire_all_foldl by (rule wo.acquire_each)

definition threads_frame :: "Kernel \<Rightarrow> Kernel \<Rightarrow> bool" where
  "threads_frame k k' \<longleftrightarrow>
     (\<forall>u. status (threads k' u) = status (threads k u) \<and> wait_objects (threads k' u) = wait_objects (threads k u)
        \<and> wakeup_callback (threads k' u) = wakeup_callback (threads k u) \<and> core_id (threads k' u) = core_id (threads k u))
   \<and> (\<forall>x. waiting_threads (wait_object k' x) = waiting_threads (wait_object k x))
   \<and> (sched_inv k \<longrightarrow> sched_inv k')"

lemma wait_frame_threads: "wait_frame w k k' \<Longrightarrow> threads_frame k k'"
  by (simp add: wait_frame_def threads_frame_def)

lemma threads_frame_trans: "threads_frame k k' \<Longrightarrow> threads_frame k' k'' \<Longrightarrow> threads_frame k k''"
  by (simp add: threads_frame_def)

lemma acquire_all_frame: "acquire_all ws t k = Some k' \<Longrightarrow> threads_frame k k'"
proof (induction ws arbitrary: k)
  case (Cons w ws)
  then obtain k1 where k1: "Acquire w t k = Some k1" "acquire_all ws t k1 = Some k'" by (auto simp: bind_eq_Some_conv)
  from threads_frame_trans [OF wait_frame_threads [OF Acquire_frame [OF k1(1)]] Cons.IH [OF k1(2)]] show ?case .
qed (simp add: threads_frame_def)


section \<open>Resuming a thread\<close>

definition sleeping :: "ThreadStatus \<Rightarrow> bool" where
  "sleeping s \<longleftrightarrow> s \<notin> {Running, Ready, Dead, Dormant}"

definition made_ready :: "oid \<Rightarrow> Kernel \<Rightarrow> Kernel" where
  "made_ready t k = PrepareReschedule (upd_thread t (\<lambda>x. x\<lparr>status := Ready\<rparr>)
     (upd_queue (core_id (threads k t)) (push_back (current_priority (threads k t)) t)
       (upd_thread t (\<lambda>x. x\<lparr>wakeup_callback := None\<rparr>) k)))"

lemma ResumeFromWait_sleeping:
  "sleeping (status (threads k t)) \<Longrightarrow> wait_objects (threads k t) = [] \<Longrightarrow> ResumeFromWait t k = Some (made_ready t k)"
  by (cases "status (threads k t)") (simp_all add: ResumeFromWait_def sleeping_def made_ready_def Let_def)

lemma made_ready_simps:
  "threads (made_ready t k) u = (if u = t then (threads k t)\<lparr>wakeup_callback := None, status := Ready\<rparr> else threads k u)"
  "wait_object (made_ready t k) = wait_object k" "arbiter_waiting (made_ready t k) = arbiter_waiting k"
  "rq (made_ready t k) = (rq k)(core_id (threads k t) := push_back (current_priority (threads k t)) t (rq k (core_id (threads k t))))"
  "reschedule_pending (made_ready t k)" "current_thread (managers (made_ready t k) c) = current_thread (managers k c)"
  by (simp_all add: made_ready_def)

lemma sched_inv_made_ready [inv_intros]:
  assumes inv: "sched_inv k" and s: "sleeping (status (threads k t))"
  shows "sched_inv (made_ready t k)"
proof -
  let ?c = "core_id (threads k t)" and ?p = "current_priority (threads k t)"
  note D = sched_invD [OF inv]
  have prep: "tql_prepared (rq k ?c) ?p" using D(7) s by (auto simp: sleeping_def)
  have lt: "?p < length (queues (rq k ?c))" using D(2,5) by (simp add: less_Suc_eq_le)
  note B = tql.back_law [OF D(1) lt prep, of t]
  have notin: "t \<notin> set (tql_level (rq k ?c) i)" for i using D(4) [of t ?c i] s by (auto simp: sleeping_def)
  show ?thesis
  proof (rule sched_inv_update [OF inv])
    show "rq (made_ready t k) = (rq k)(?c := push_back ?p t (rq k ?c))" by (rule made_ready_simps)
    show "threads (made_ready t k) t = (threads k t)\<lparr>wakeup_callback := None, status := Ready\<rparr>" by (simp add: made_ready_simps)
  qed (use B D(1,2,3,5,6) prep notin in \<open>auto simp: made_ready_simps\<close>)
qed

section \<open>Waking up all ready waiters\<close>

text \<open>
  Waiting lists and the threads' lists of awaited objects agree; a thread on a waiting list sleeps and
  does not carry an arbiter's callback; a wait for all objects names each once.
\<close>

definition wait_inv :: "Kernel \<Rightarrow> bool" where
  "wait_inv k \<longleftrightarrow> (\<forall>w. distinct (waiting_threads (wait_object k w)))
     \<and> (\<forall>w t. t \<in> set (waiting_threads (wait_object k w)) \<longleftrightarrow> w \<in> set (wait_objects (threads k t)))
     \<and> (\<forall>t. wait_objects (threads k t) \<noteq> [] \<longrightarrow> status (threads k t) \<in> {WaitSynchAny, WaitSynchAll, WaitHleEvent}
          \<and> (\<forall>a. wakeup_callback (threads k t) \<noteq> Some (ArbiterCallback a)))
     \<and> (\<forall>t. status (threads k t) = WaitSynchAll \<longrightarrow> distinct (wait_objects (threads k t)))"

lemma wait_invD:
  assumes "wait_inv k"
  shows "distinct (waiting_threads (wait_object k w))"
    "t \<in> set (waiting_threads (wait_object k w)) \<longleftrightarrow> w \<in> set (wait_objects (threads k t))"
    "wait_objects (threads k t) \<noteq> [] \<Longrightarrow> status (threads k t) \<in> {WaitSynchAny, WaitSynchAll, WaitHleEvent}"
    "wait_objects (threads k t) \<noteq> [] \<Longrightarrow> wakeup_callback (threads k t) \<noteq> Some (ArbiterCallback a)"
    "status (threads k t) = WaitSynchAll \<Longrightarrow> distinct (wait_objects (threads k t))"
  using assms by (auto simp: wait_inv_def)

lemma wait_inv_cong: "threads_frame k k' \<Longrightarrow> wait_inv k' = wait_inv k"
  by (simp add: threads_frame_def wait_inv_def)

lemma threads_frame_context:
  "threads_frame k (upd_thread t (\<lambda>x. x\<lparr>thread_context := f (thread_context x)\<rparr>) k)"
  by (simp add: threads_frame_def sched_inv_upd_thread)

lemma invoke_callback_signal:
  assumes "\<And>a. wakeup_callback (threads k t) \<noteq> Some (ArbiterCallback a)" "wait_objects (threads k t) \<noteq> []"
  shows "\<exists>k'. invoke_callback WR_Signal t (Some w) k = Some k' \<and> threads_frame k k'"
proof (cases "wakeup_callback (threads k t)")
  case None
  then show ?thesis by (simp add: invoke_callback_def threads_frame_def)
next
  case (Some cb)
  then show ?thesis
  proof (cases cb)
    case (SVC_SyncCallback out)
    let ?k = "SetWaitSynchronizationResult t RESULT_SUCCESS k"
    have one: "threads_frame k ?k" unfolding SetWaitSynchronizationResult_def by (rule threads_frame_context)
    have two: "threads_frame k (SetWaitSynchronizationOutput t i ?k)" for i
      using threads_frame_trans [OF one threads_frame_context [where t = t and f = "\<lambda>r. r(1 := of_int i)"]]
      by (simp only: SetWaitSynchronizationOutput_def)
    have w: "wait_objects (threads ?k t) \<noteq> []" using assms(2) by (simp add: SetWaitSynchronizationResult_def)
    show ?thesis
    proof (cases out)
      case True
      then have "invoke_callback WR_Signal t (Some w) k
          = Some (SetWaitSynchronizationOutput t (index_of w (wait_objects (threads ?k t))) ?k)"
        using Some SVC_SyncCallback w
        by (simp add: invoke_callback_def WakeUp_def SyncCallback_WakeUp_def GetWaitObjectIndex_def Let_def)
      with two show ?thesis by blast
    next
      case False
      then have "invoke_callback WR_Signal t (Some w) k = Some ?k"
        using Some SVC_SyncCallback by (simp add: invoke_callback_def WakeUp_def SyncCallback_WakeUp_def Let_def)
      with one show ?thesis by blast
    qed
  next
    case (OtherCallback n)
    have "sched_inv (k\<lparr>callbacks_run := l\<rparr>) = sched_inv k" for l by (rule sched_inv_cong) simp_all
    then show ?thesis using Some OtherCallback
      by (simp add: invoke_callback_def WakeUp_def threads_frame_def)
  qed (use assms(1) in simp)
qed


lemma highest_loop_spec:
  assumes "\<forall>t \<in> set ts. status (threads k t) \<in> {WaitSynchAny, WaitSynchAll, WaitHleEvent}"
  shows "\<exists>r. highest_loop k w ts (c, cp) = Some r
    \<and> (r = c \<and> (\<forall>u \<in> set ts. ready_to_run k w u \<longrightarrow> cp \<le> current_priority (threads k u))
       \<or> (\<exists>t \<in> set ts. r = Some t \<and> ready_to_run k w t \<and> current_priority (threads k t) < cp
            \<and> (\<forall>u \<in> set ts. ready_to_run k w u \<longrightarrow> current_priority (threads k t) \<le> current_priority (threads k u))))"
  using assms
proof (induction ts arbitrary: c cp)
  case (Cons t ts)
  let ?p = "\<lambda>u. current_priority (threads k u)"
  show ?case
  proof (cases "?p t < cp \<and> ready_to_run k w t")
    case True
    with Cons.prems have "highest_loop k w (t # ts) (c, cp) = highest_loop k w ts (Some t, ?p t)" by simp
    moreover obtain r where r: "highest_loop k w ts (Some t, ?p t) = Some r"
      "r = Some t \<and> (\<forall>u \<in> set ts. ready_to_run k w u \<longrightarrow> ?p t \<le> ?p u)
        \<or> (\<exists>t' \<in> set ts. r = Some t' \<and> ready_to_run k w t' \<and> ?p t' < ?p t \<and> (\<forall>u \<in> set ts. ready_to_run k w u \<longrightarrow> ?p t' \<le> ?p u))"
      using Cons.IH [of "Some t" "?p t"] Cons.prems by auto
    from r(2) have "\<exists>t' \<in> set (t # ts). r = Some t' \<and> ready_to_run k w t' \<and> ?p t' < cp
        \<and> (\<forall>u \<in> set (t # ts). ready_to_run k w u \<longrightarrow> ?p t' \<le> ?p u)"
      using True by (elim disjE bexE) (auto intro!: bexI)
    ultimately show ?thesis using r(1) by (simp only:) blast
  next
    case False
    with Cons.prems have "highest_loop k w (t # ts) (c, cp) = highest_loop k w ts (c, cp)" by auto
    moreover obtain r where r: "highest_loop k w ts (c, cp) = Some r"
      "r = c \<and> (\<forall>u \<in> set ts. ready_to_run k w u \<longrightarrow> cp \<le> ?p u)
        \<or> (\<exists>t' \<in> set ts. r = Some t' \<and> ready_to_run k w t' \<and> ?p t' < cp \<and> (\<forall>u \<in> set ts. ready_to_run k w u \<longrightarrow> ?p t' \<le> ?p u))"
      using Cons.IH [of c cp] Cons.prems by auto
    from r(2) have "r = c \<and> (\<forall>u \<in> set (t # ts). ready_to_run k w u \<longrightarrow> cp \<le> ?p u)
        \<or> (\<exists>t' \<in> set (t # ts). r = Some t' \<and> ready_to_run k w t' \<and> ?p t' < cp \<and> (\<forall>u \<in> set (t # ts). ready_to_run k w u \<longrightarrow> ?p t' \<le> ?p u))"
    proof (elim disjE)
      assume "\<exists>t' \<in> set ts. r = Some t' \<and> ready_to_run k w t' \<and> ?p t' < cp \<and> (\<forall>u \<in> set ts. ready_to_run k w u \<longrightarrow> ?p t' \<le> ?p u)"
      then obtain t' where "t' \<in> set ts" "r = Some t'" "ready_to_run k w t'" "?p t' < cp" "\<forall>u \<in> set ts. ready_to_run k w u \<longrightarrow> ?p t' \<le> ?p u" by blast
      then show ?thesis using False by (intro disjI2 bexI [of _ t']) auto
    qed (use False in auto)
    ultimately show ?thesis using r(1) by (intro exI [of _ r]) simp
  qed
qed simp

lemma GetHighest_spec:
  assumes "wait_inv k" "sched_inv k"
  shows "\<exists>r. GetHighestPriorityReadyThread k w = Some r
    \<and> (case r of
         None \<Rightarrow> \<forall>u \<in> set (waiting_threads (wait_object k w)). \<not> ready_to_run k w u
       | Some t \<Rightarrow> t \<in> set (waiting_threads (wait_object k w)) \<and> ready_to_run k w t
           \<and> (\<forall>u \<in> set (waiting_threads (wait_object k w)). ready_to_run k w u
                \<longrightarrow> current_priority (threads k t) \<le> current_priority (threads k u)))"
proof -
  have "\<forall>t \<in> set (waiting_threads (wait_object k w)). status (threads k t) \<in> {WaitSynchAny, WaitSynchAll, WaitHleEvent}"
  proof
    fix t assume "t \<in> set (waiting_threads (wait_object k w))"
    with wait_invD(2) [OF assms(1)] have "wait_objects (threads k t) \<noteq> []" by fastforce
    then show "status (threads k t) \<in> {WaitSynchAny, WaitSynchAll, WaitHleEvent}" by (rule wait_invD(3) [OF assms(1)])
  qed
  from highest_loop_spec [OF this, of w None "ThreadPrioLowest + 1"] sched_invD(5) [OF assms(2)]
  show ?thesis unfolding GetHighestPriorityReadyThread_def
    by (elim exE conjE disjE bexE) (auto simp: not_less_eq_eq [symmetric] intro!: exI)
qed

text \<open>One round of the loop: the thread acquires, leaves all waiting lists and becomes ready.\<close>

lemma wakeup_one_spec:
  assumes inv: "wait_inv k" "sched_inv k" and t: "t \<in> set (waiting_threads (wait_object k w))" "ready_to_run k w t"
  shows "\<exists>k'. wakeup_one w t k = Some k' \<and> wait_inv k' \<and> sched_inv k'
    \<and> (\<forall>x. waiting_threads (wait_object k' x) = remove1 t (waiting_threads (wait_object k x)))
    \<and> status (threads k' t) = Ready \<and> (\<forall>u. u \<noteq> t \<longrightarrow> status (threads k' u) = status (threads k u))"
proof -
  note W = wait_invD [OF inv(1)]
  have w: "w \<in> set (wait_objects (threads k t))" using W(2) t(1) by simp
  then have ne: "wait_objects (threads k t) \<noteq> []" by auto
  have "\<exists>k1. (if \<not> IsSleepingOnWaitAll (threads k t) then Acquire w t k
      else acquire_all (wait_objects (threads k t)) t k) = Some k1 \<and> threads_frame k k1"
  proof (cases "IsSleepingOnWaitAll (threads k t)")
    case True
    then have "distinct (wait_objects (threads k t))" "\<forall>x \<in> set (wait_objects (threads k t)). \<not> ShouldWait k x t"
      using W(5) t(2) by (auto simp: IsSleepingOnWaitAll_def ready_to_run_def list_all_iff)
    from acquire_all_succeeds [OF this] True acquire_all_frame show ?thesis by auto
  next
    case False
    with Acquire_succeeds [of k w t] t(2) show ?thesis
      by (auto simp: ready_to_run_def intro: wait_frame_threads [OF Acquire_frame])
  qed
  then obtain k1 where k1: "(if \<not> IsSleepingOnWaitAll (threads k t) then Acquire w t k
      else acquire_all (wait_objects (threads k t)) t k) = Some k1" "threads_frame k k1" by blast
  have c1: "wait_objects (threads k1 t) \<noteq> []" "\<And>a. wakeup_callback (threads k1 t) \<noteq> Some (ArbiterCallback a)"
    using k1(2) ne W(4) [OF ne] by (auto simp: threads_frame_def)
  obtain k2 where k2: "invoke_callback WR_Signal t (Some w) k1 = Some k2" "threads_frame k1 k2"
    using invoke_callback_signal [OF c1(2,1)] by blast
  note F = threads_frame_trans [OF k1(2) k2(2)]
  let ?l = "leave_wait_objects t k2" and ?k = "made_ready t (leave_wait_objects t k2)"
  have s2: "sched_inv k2" "status (threads k2 t) = status (threads k t)" "wait_objects (threads k2 u) = wait_objects (threads k u)"
    "waiting_threads (wait_object k2 x) = waiting_threads (wait_object k x)" for u x
    using F inv(2) by (simp_all add: threads_frame_def)
  have sl: "sleeping (status (threads ?l t))"
    using W(3) [OF ne] by (auto simp: leave_wait_objects_frame s2 sleeping_def)
  have run: "wakeup_one w t k = Some ?k"
    using k1(1) k2(1) ResumeFromWait_sleeping [OF sl] by (simp add: wakeup_one_def leave_wait_objects_frame)
  have wt: "waiting_threads (wait_object ?k x) = remove1 t (waiting_threads (wait_object k x))" for x
    using W(1) [of x] W(2) [of t x] by (simp add: made_ready_simps leave_wait_objects_frame s2 remove1_idem)
  have th: "status (threads ?k u) = (if u = t then Ready else status (threads k u))"
    "wait_objects (threads ?k u) = (if u = t then [] else wait_objects (threads k u))"
    "wakeup_callback (threads ?k u) = (if u = t then None else wakeup_callback (threads k u))" for u
    using F by (simp_all add: made_ready_simps leave_wait_objects_frame threads_frame_def)
  have "sched_inv ?k" by (rule sched_inv_made_ready [OF leave_wait_objects_frame(8) [OF s2(1)] sl])
  moreover have "wait_inv ?k"
    unfolding wait_inv_def wt th using W by (auto simp: distinct_remove1 in_set_remove1)
  ultimately show ?thesis using run wt th by auto
qed


lemma wakeup_loop_spec:
  assumes "wait_inv k" "sched_inv k"
  shows "\<exists>k'. wakeup_loop w k = Some k' \<and> wait_inv k' \<and> sched_inv k'
    \<and> (\<forall>u \<in> set (waiting_threads (wait_object k' w)). \<not> ready_to_run k' w u)
    \<and> set (waiting_threads (wait_object k' w)) \<subseteq> set (waiting_threads (wait_object k w))
    \<and> (\<forall>u. status (threads k' u) = (if u \<in> set (waiting_threads (wait_object k w)) - set (waiting_threads (wait_object k' w))
            then Ready else status (threads k u)))"
  using assms
proof (induction "length (waiting_threads (wait_object k w))" arbitrary: k rule: less_induct)
  case less
  let ?ws = "\<lambda>k. set (waiting_threads (wait_object k w))"
  obtain r where r: "GetHighestPriorityReadyThread k w = Some r" and c: "case r of None \<Rightarrow> \<forall>u \<in> ?ws k. \<not> ready_to_run k w u
      | Some t \<Rightarrow> t \<in> ?ws k \<and> ready_to_run k w t \<and> (\<forall>u \<in> ?ws k. ready_to_run k w u \<longrightarrow> current_priority (threads k t) \<le> current_priority (threads k u))"
    using GetHighest_spec [OF less.prems] by blast
  show ?case
  proof (cases r)
    case None
    then have "wakeup_loop w k = Some k" using r by (subst wakeup_loop.simps) simp
    then show ?thesis using c None less.prems by simp
  next
    case (Some t)
    then have t: "t \<in> ?ws k" "ready_to_run k w t" using c by auto
    obtain k1 where k1: "wakeup_one w t k = Some k1" "wait_inv k1" "sched_inv k1"
      "\<And>x. waiting_threads (wait_object k1 x) = remove1 t (waiting_threads (wait_object k x))"
      "status (threads k1 t) = Ready" "\<And>u. u \<noteq> t \<Longrightarrow> status (threads k1 u) = status (threads k u)"
      using wakeup_one_spec [OF less.prems t] by blast
    have step: "wakeup_loop w k = wakeup_loop w k1" using r Some k1(1) by (subst wakeup_loop.simps) simp
    have len: "length (waiting_threads (wait_object k1 w)) < length (waiting_threads (wait_object k w))"
      using length_remove1_mem [OF t(1)] k1(4) by simp
    have ws: "?ws k1 = ?ws k - {t}" using k1(4) [of w] wait_invD(1) [OF less.prems(1)] by (simp add: set_remove1_eq)
    obtain k' where k': "wakeup_loop w k1 = Some k'" "wait_inv k'" "sched_inv k'" "\<forall>u \<in> ?ws k'. \<not> ready_to_run k' w u"
      "?ws k' \<subseteq> ?ws k1" "\<And>u. status (threads k' u) = (if u \<in> ?ws k1 - ?ws k' then Ready else status (threads k1 u))"
      using less.hyps [OF len k1(2,3)] by blast
    have "status (threads k' u) = (if u \<in> ?ws k - ?ws k' then Ready else status (threads k u))" for u
      using k'(5,6) k1(5,6) ws t(1) by (cases "u = t") auto
    then show ?thesis using step k' ws by auto
  qed
qed

lemma wait_inv_set_obj [simp]: "wait_inv (set_obj w s k) = wait_inv k"
  by (rule wait_inv_cong) (rule wait_frame_threads [OF wait_frame_set_obj])

lemma ready_clear_event: "\<not> ready_to_run (set_obj w (O_Event (e\<lparr>ev_signaled := False\<rparr>)) k) w u"
  "\<not> ready_to_run (set_obj w (O_Timer (x\<lparr>tm_signaled := False\<rparr>)) k) w u"
  by (simp_all add: ready_to_run_def ShouldWait_def Event_ShouldWait_def Timer_ShouldWait_def)

lemma WakeupAllWaitingThreads_outcome:
  assumes "wait_inv k" "sched_inv k"
  shows "\<exists>k'. WakeupAllWaitingThreads w k = Some k' \<and> wait_inv k' \<and> sched_inv k'
    \<and> (\<forall>u \<in> set (waiting_threads (wait_object k' w)). \<not> ready_to_run k' w u)
    \<and> set (waiting_threads (wait_object k' w)) \<subseteq> set (waiting_threads (wait_object k w))
    \<and> (\<forall>u. status (threads k' u) = (if u \<in> set (waiting_threads (wait_object k w)) - set (waiting_threads (wait_object k' w))
            then Ready else status (threads k u)))"
proof -
  let ?W = "\<lambda>k. set (waiting_threads (wait_object k w))"
  obtain k1 where k1: "wakeup_loop w k = Some k1" "wait_inv k1" "sched_inv k1" "\<forall>u \<in> ?W k1. \<not> ready_to_run k1 w u"
    "?W k1 \<subseteq> ?W k" "\<forall>u. status (threads k1 u) = (if u \<in> ?W k - ?W k1 then Ready else status (threads k u))"
    using wakeup_loop_spec [OF assms] by blast
  define k2 where "k2 = (case obj (wait_object k1 w) of
         O_Event e \<Rightarrow> if ev_reset_type e = Pulse then set_obj w (O_Event (e\<lparr>ev_signaled := False\<rparr>)) k1 else k1
       | O_Timer x \<Rightarrow> if tm_reset_type x = Pulse then set_obj w (O_Timer (x\<lparr>tm_signaled := False\<rparr>)) k1 else k1
       | _ \<Rightarrow> k1)"
  have run: "WakeupAllWaitingThreads w k = Some k2" by (simp add: WakeupAllWaitingThreads_def k1(1) k2_def)
  have keep: "wait_inv k2" "sched_inv k2" "waiting_threads (wait_object k2 w) = waiting_threads (wait_object k1 w)"
    "threads k2 = threads k1" "\<forall>u \<in> ?W k1. \<not> ready_to_run k2 w u"
    using k1(2,3,4) by (auto simp: k2_def ready_clear_event split: object_state.splits)
  show ?thesis using run keep k1(5,6) by (intro exI [of _ k2]) (simp only: simp_thms)
qed


section \<open>What waking up does to the object\<close>

text \<open>The state of an object up to the priority of a mutex.\<close>

definition pobj :: "Kernel \<Rightarrow> oid \<Rightarrow> object_state" where
  "pobj k w = obj (plain_object (wait_object k w))"

lemma pobj_prio_only: "prio_only k k' \<Longrightarrow> pobj k' w = pobj k w"
  by (simp add: pobj_def prio_only_def)

lemma pobj_cong: "obj (wait_object k' w) = obj (wait_object k w) \<Longrightarrow> pobj k' w = pobj k w"
  by (simp add: pobj_def plain_object_def)

lemma pobj_set_obj: "pobj (set_obj x s k) w = (if w = x then (case s of O_Mutex mx \<Rightarrow> O_Mutex (mx\<lparr>mtx_priority := 0\<rparr>) | _ \<Rightarrow> s) else pobj k w)"
  by (simp add: pobj_def plain_object_def split: object_state.splits)

lemma pobj_RemoveWaitingThread [simp]: "pobj (RemoveWaitingThread x t k) w = pobj k w"
  using pobj_prio_only [OF RemoveWaitingThread_prio_only [of x t k], of w] pobj_cong [of "drop_waiter x t k" w k]
  by (simp add: drop_waiter_simps)

lemma pobj_leave [simp]: "pobj (leave_wait_objects t k) w = pobj k w"
proof -
  have "pobj (foldl (\<lambda>k w. RemoveWaitingThread w t k) k ws) w = pobj k w" for ws
    by (induction ws arbitrary: k) simp_all
  then show ?thesis by (simp add: leave_wait_objects_def pobj_def)
qed

lemma pobj_made_ready [simp]: "pobj (made_ready t k) w = pobj k w"
  by (rule pobj_cong) (simp add: made_ready_simps)

lemma pobj_simps [simp]:
  "pobj (PrepareReschedule k) w = pobj k w" "pobj (upd_thread t f k) w = pobj k w" "pobj (upd_queue c g k) w = pobj k w"
  "pobj (Thread_UpdatePriority t k) w = pobj k w"
  by (simp_all add: pobj_prio_only [OF prio_only_Thread_UpdatePriority]) (simp_all add: pobj_def)

lemma pobj_Acquire_other: "Acquire x t k = Some k' \<Longrightarrow> w \<noteq> x \<Longrightarrow> pobj k' w = pobj k w"
  by (auto simp: Acquire_def Event_Acquire_def Mutex_Acquire_def Semaphore_Acquire_def Timer_Acquire_def
      Thread_Acquire_def ServerPort_Acquire_def ServerSession_Acquire_def Let_def pobj_set_obj split: object_state.splits if_splits)

lemma pobj_acquire_all_other: "acquire_all ws t k = Some k' \<Longrightarrow> w \<notin> set ws \<Longrightarrow> pobj k' w = pobj k w"
proof (induction ws arbitrary: k)
  case (Cons x ws)
  then obtain k1 where "Acquire x t k = Some k1" "acquire_all ws t k1 = Some k'" by (auto simp: bind_eq_Some_conv)
  with Cons show ?case using pobj_Acquire_other [of x t k k1 w] by simp
qed simp

text \<open>An object after one acquisition by a thread.\<close>

fun acquired :: "oid \<Rightarrow> object_state \<Rightarrow> object_state" where
  "acquired t (O_Event e) = O_Event (if ev_reset_type e = OneShot then e\<lparr>ev_signaled := False\<rparr> else e)"
| "acquired t (O_Semaphore s) = O_Semaphore (if available_count s \<le> 0 then s else s\<lparr>available_count := available_count s - 1\<rparr>)"
| "acquired t (O_Timer x) = O_Timer (if tm_reset_type x = OneShot then x\<lparr>tm_signaled := False\<rparr> else x)"
| "acquired t (O_Mutex mx) = O_Mutex (if lock_count mx = 0 then mx\<lparr>holding_thread := Some t, lock_count := 1\<rparr>
     else mx\<lparr>lock_count := lock_count mx + 1\<rparr>)"
| "acquired t O_Thread = O_Thread"
| "acquired t (O_ServerPort p) = O_ServerPort p"
| "acquired t (O_ServerSession s) = O_ServerSession (if \<not> parent_client s then s
     else s\<lparr>currently_handling := Some (last (pending_requesting_threads s)),
            pending_requesting_threads := butlast (pending_requesting_threads s)\<rparr>)"

fun simple_object :: "object_state \<Rightarrow> bool" where
  "simple_object (O_Mutex _) = False"
| "simple_object O_Thread = False"
| "simple_object _ = True"

lemma simple_pobj: "simple_object (obj (wait_object k w)) \<Longrightarrow> pobj k w = obj (wait_object k w)"
  by (cases "obj (wait_object k w)") (simp_all add: pobj_def plain_object_def)

lemma simple_pobj2: "simple_object (pobj k w) \<Longrightarrow> obj (wait_object k w) = pobj k w"
  by (cases "obj (wait_object k w)") (simp_all add: pobj_def plain_object_def)

lemma pobj_Acquire_self: "Acquire w t k = Some k' \<Longrightarrow> pobj k' w = acquired t (pobj k w)"
  by (cases "obj (wait_object k w)")
     (auto simp: Acquire_def Event_Acquire_def Semaphore_Acquire_def Timer_Acquire_def Mutex_Acquire_def Thread_Acquire_def
       ServerPort_Acquire_def ServerSession_Acquire_def pobj_def plain_object_def Let_def split: if_splits)

lemma simple_acquired [simp]: "simple_object (acquired t s) = simple_object s"
  by (cases s) simp_all

lemma pobj_acquire_all: "acquire_all ws t k = Some k' \<Longrightarrow> distinct ws \<Longrightarrow> w \<in> set ws \<Longrightarrow> pobj k' w = acquired t (pobj k w)"
proof (induction ws arbitrary: k)
  case (Cons x ws)
  then obtain k1 where k1: "Acquire x t k = Some k1" "acquire_all ws t k1 = Some k'" by (auto simp: bind_eq_Some_conv)
  show ?case
  proof (cases "w = x")
    case True
    with Cons k1 pobj_Acquire_self [of w t k k1] pobj_acquire_all_other [of ws t k1 k' w] show ?thesis by simp
  next
    case False
    with Cons k1 pobj_Acquire_other [of x t k k1 w] show ?thesis by simp
  qed
qed simp

lemma pobj_invoke_callback: "invoke_callback reason t ob k = Some k' \<Longrightarrow> pobj k' w = pobj k w"
  by (rule pobj_cong) (auto simp: invoke_callback_def WakeUp_def SyncCallback_WakeUp_def Arbiter_WakeUp_def
      SetWaitSynchronizationResult_def SetWaitSynchronizationOutput_def bind_eq_Some_conv Let_def
      split: option.splits WakeupCallback.splits if_splits)

lemma ResumeFromWait_pobj: "ResumeFromWait t k = Some k' \<Longrightarrow> pobj k' w = pobj k w"
  by (rule pobj_cong) (auto simp: ResumeFromWait_def Let_def split: ThreadStatus.splits)

lemma wakeup_one_object:
  assumes "wait_inv k" "t \<in> set (waiting_threads (wait_object k w))" "wakeup_one w t k = Some k'"
  shows "pobj k' w = acquired t (pobj k w)"
proof -
  obtain k1 k2 where k: "(if \<not> IsSleepingOnWaitAll (threads k t) then Acquire w t k
      else acquire_all (wait_objects (threads k t)) t k) = Some k1"
    "invoke_callback WR_Signal t (Some w) k1 = Some k2" "ResumeFromWait t (leave_wait_objects t k2) = Some k'"
    using assms(3) by (auto simp: wakeup_one_def bind_eq_Some_conv)
  have "pobj k1 w = acquired t (pobj k w)"
  proof (cases "IsSleepingOnWaitAll (threads k t)")
    case True
    with k(1) show ?thesis
      using assms wait_invD(2,5) [OF assms(1)] by (intro pobj_acquire_all [of "wait_objects (threads k t)" t]) (auto simp: IsSleepingOnWaitAll_def)
  qed (use k(1) assms pobj_Acquire_self in auto)
  then show ?thesis using pobj_invoke_callback [OF k(2)] ResumeFromWait_pobj [OF k(3)] by simp
qed

text \<open>Every woken thread acquired the object once; \<open>g\<close> is the acquisition of an available object.\<close>

lemma available_pobj: "ready_to_run k w t \<Longrightarrow> pobj k w = O_Semaphore s \<Longrightarrow> 0 < available_count s"
  "ready_to_run k w t \<Longrightarrow> pobj k w = O_Event e \<Longrightarrow> ev_signaled e"
  using simple_pobj2 [of k w]
  by (auto simp: ready_to_run_def ShouldWait_def Semaphore_ShouldWait_def Event_ShouldWait_def)

lemma wakeup_loop_object:
  assumes "wait_inv k" "sched_inv k" "simple_object (pobj k w)" "wakeup_loop w k = Some k'"
    and g: "\<And>k t. ready_to_run k w t \<Longrightarrow> simple_object (pobj k w) \<Longrightarrow> acquired t (pobj k w) = g (pobj k w)"
  shows "pobj k' w = (g ^^ card (set (waiting_threads (wait_object k w)) - set (waiting_threads (wait_object k' w)))) (pobj k w)"
  using assms(1-4)
proof (induction "length (waiting_threads (wait_object k w))" arbitrary: k rule: less_induct)
  case less
  let ?ws = "\<lambda>k. set (waiting_threads (wait_object k w))"
  obtain r where r: "GetHighestPriorityReadyThread k w = Some r" and c: "case r of None \<Rightarrow> \<forall>u \<in> ?ws k. \<not> ready_to_run k w u
      | Some t \<Rightarrow> t \<in> ?ws k \<and> ready_to_run k w t \<and> (\<forall>u \<in> ?ws k. ready_to_run k w u \<longrightarrow> current_priority (threads k t) \<le> current_priority (threads k u))"
    using GetHighest_spec [OF less.prems(1,2)] by blast
  show ?case
  proof (cases r)
    case None
    then have "wakeup_loop w k = Some k" using r by (subst wakeup_loop.simps) simp
    then show ?thesis using less.prems(4) by simp
  next
    case (Some t)
    then have t: "t \<in> ?ws k" "ready_to_run k w t" using c by auto
    obtain k1 where k1: "wakeup_one w t k = Some k1" "wait_inv k1" "sched_inv k1"
      "\<And>x. waiting_threads (wait_object k1 x) = remove1 t (waiting_threads (wait_object k x))"
      using wakeup_one_spec [OF less.prems(1,2) t] by blast
    have step: "wakeup_loop w k1 = Some k'" using r Some k1(1) less.prems(4) by (subst (asm) wakeup_loop.simps) simp
    have o: "pobj k1 w = acquired t (pobj k w)" by (rule wakeup_one_object [OF less.prems(1) t(1) k1(1)])
    have og: "pobj k1 w = g (pobj k w)" using o g [OF t(2) less.prems(3)] by simp
    have len: "length (waiting_threads (wait_object k1 w)) < length (waiting_threads (wait_object k w))"
      using length_remove1_mem [OF t(1)] k1(4) by simp
    have ws: "?ws k1 = ?ws k - {t}" using k1(4) [of w] wait_invD(1) [OF less.prems(1)] by (simp add: set_remove1_eq)
    have sub: "?ws k' \<subseteq> ?ws k1" using wakeup_loop_spec [OF k1(2,3), of w] step by auto
    have "?ws k - ?ws k' = insert t (?ws k1 - ?ws k')" using ws sub t(1) by auto
    then have "card (?ws k - ?ws k') = Suc (card (?ws k1 - ?ws k'))" using ws by simp
    moreover have "pobj k' w = (g ^^ card (?ws k1 - ?ws k')) (pobj k1 w)"
      using less.hyps [OF len k1(2,3) _ step] o less.prems(3) by simp
    ultimately show ?thesis using og by (simp add: funpow_swap1)
  qed
qed


lemma wakeup_loop_nothing:
  assumes "wait_inv k" "sched_inv k" "\<And>u. u \<in> set (waiting_threads (wait_object k w)) \<Longrightarrow> \<not> ready_to_run k w u"
  shows "wakeup_loop w k = Some k"
proof -
  obtain r where r: "GetHighestPriorityReadyThread k w = Some r" "r = None"
    using GetHighest_spec [OF assms(1,2), of w] assms(3) by (auto split: option.splits)
  then show ?thesis by (subst wakeup_loop.simps) simp
qed


text \<open>When one acquisition makes the object unavailable to the rest, only the best waiter wakes up.\<close>

lemma wakeup_loop_once:
  assumes inv: "wait_inv k" "sched_inv k"
    and one: "\<And>t k1. t \<in> set (waiting_threads (wait_object k w)) \<Longrightarrow> ready_to_run k w t \<Longrightarrow> wakeup_one w t k = Some k1
      \<Longrightarrow> wait_inv k1 \<Longrightarrow> \<forall>u \<in> set (waiting_threads (wait_object k1 w)). \<not> ready_to_run k1 w u"
  shows "wakeup_loop w k = Some k \<and> (\<forall>u \<in> set (waiting_threads (wait_object k w)). \<not> ready_to_run k w u)
    \<or> (\<exists>t k1. t \<in> set (waiting_threads (wait_object k w)) \<and> ready_to_run k w t
        \<and> (\<forall>u \<in> set (waiting_threads (wait_object k w)). ready_to_run k w u \<longrightarrow> current_priority (threads k t) \<le> current_priority (threads k u))
        \<and> wakeup_one w t k = Some k1 \<and> wakeup_loop w k = Some k1)"
proof -
  obtain r where r: "GetHighestPriorityReadyThread k w = Some r" and c: "case r of None \<Rightarrow> \<forall>u \<in> set (waiting_threads (wait_object k w)). \<not> ready_to_run k w u
      | Some t \<Rightarrow> t \<in> set (waiting_threads (wait_object k w)) \<and> ready_to_run k w t
         \<and> (\<forall>u \<in> set (waiting_threads (wait_object k w)). ready_to_run k w u \<longrightarrow> current_priority (threads k t) \<le> current_priority (threads k u))"
    using GetHighest_spec [OF inv] by blast
  show ?thesis
  proof (cases r)
    case None
    then show ?thesis using r c by (subst wakeup_loop.simps) simp
  next
    case (Some t)
    then have t: "t \<in> set (waiting_threads (wait_object k w))" "ready_to_run k w t" using c by auto
    obtain k1 where k1: "wakeup_one w t k = Some k1" "wait_inv k1" "sched_inv k1" using wakeup_one_spec [OF inv t] by blast
    have "wakeup_loop w k1 = Some k1" using wakeup_loop_nothing [OF k1(2,3)] one [OF t k1(1,2)] by blast
    then have "wakeup_loop w k = Some k1" using r Some k1(1) by (subst wakeup_loop.simps) simp
    with t k1(1) c Some show ?thesis by auto
  qed
qed

text \<open>Waking up the threads of one object leaves alone an object nobody waits for.\<close>

lemma wakeup_one_unawaited:
  assumes inv: "wait_inv k" and t: "t \<in> set (waiting_threads (wait_object k w))" "wakeup_one w t k = Some k'"
    and x: "waiting_threads (wait_object k x) = []"
  shows "pobj k' x = pobj k x"
proof -
  obtain k1 k2 where k: "(if \<not> IsSleepingOnWaitAll (threads k t) then Acquire w t k
      else acquire_all (wait_objects (threads k t)) t k) = Some k1"
    "invoke_callback WR_Signal t (Some w) k1 = Some k2" "ResumeFromWait t (leave_wait_objects t k2) = Some k'"
    using t(2) by (auto simp: wakeup_one_def bind_eq_Some_conv)
  have "x \<noteq> w" "x \<notin> set (wait_objects (threads k t))" using t(1) x wait_invD(2) [OF inv, of t x] by auto
  then have "pobj k1 x = pobj k x"
    using k(1) pobj_acquire_all_other [of "wait_objects (threads k t)" t k k1 x] pobj_Acquire_other [of w t k k1 x] by (auto split: if_splits)
  then show ?thesis using pobj_invoke_callback [OF k(2)] ResumeFromWait_pobj [OF k(3)] by simp
qed

lemma wakeup_loop_unawaited:
  assumes "wait_inv k" "sched_inv k" "wakeup_loop w k = Some k'" "waiting_threads (wait_object k x) = []"
  shows "pobj k' x = pobj k x"
  using assms
proof (induction "length (waiting_threads (wait_object k w))" arbitrary: k rule: less_induct)
  case less
  obtain r where r: "GetHighestPriorityReadyThread k w = Some r"
    and c: "r = Some t \<Longrightarrow> t \<in> set (waiting_threads (wait_object k w)) \<and> ready_to_run k w t" for t
    using GetHighest_spec [OF less.prems(1,2), of w] by (auto split: option.splits)
  show ?case
  proof (cases r)
    case None
    then have "wakeup_loop w k = Some k" using r by (subst wakeup_loop.simps) simp
    then show ?thesis using less.prems(3) by simp
  next
    case (Some t)
    note t = c [OF Some, THEN conjunct1] c [OF Some, THEN conjunct2]
    obtain k1 where k1: "wakeup_one w t k = Some k1" "wait_inv k1" "sched_inv k1"
      "\<And>y. waiting_threads (wait_object k1 y) = remove1 t (waiting_threads (wait_object k y))"
      using wakeup_one_spec [OF less.prems(1,2) t] by blast
    have step: "wakeup_loop w k1 = Some k'" using r Some k1(1) less.prems(3) by (subst (asm) wakeup_loop.simps) simp
    have "length (waiting_threads (wait_object k1 w)) < length (waiting_threads (wait_object k w))"
      using length_remove1_mem [OF t(1)] k1(4) by simp
    from less.hyps [OF this k1(2,3) step] show ?thesis
      using k1(4) less.prems(4) wakeup_one_unawaited [OF less.prems(1) t(1) k1(1) less.prems(4)] by simp
  qed
qed

end
