(* ===== verification/Sync_Objects.thy ===== *)
theory Sync_Objects
  imports Wait_Object
begin

text \<open>
  The operations of events, mutexes, semaphores and timers: \<^verbatim>\<open>event.cpp\<close>, \<^verbatim>\<open>mutex.cpp\<close>,
  \<^verbatim>\<open>semaphore.cpp\<close> and \<^verbatim>\<open>timer.cpp\<close> of \<^verbatim>\<open>src/src/core/hle/kernel\<close>. Names of objects and the HLE
  notifier of a wait object are not modelled. The registered timing event types are numbers: \<open>0\<close> for
  timers, \<open>c + 1\<close> for the thread wakeups of core \<open>c\<close>.
\<close>

definition new_object :: "object_state \<Rightarrow> Kernel \<Rightarrow> oid \<times> Kernel" where
  "new_object s k =
     (next_object k, k\<lparr>wait_object := (wait_object k)(next_object k := \<lparr>waiting_threads = [], obj = s\<rparr>),
                       next_object := next_object k + 1\<rparr>)"

section \<open>Events\<close>

definition CreateEvent :: "ResetType \<Rightarrow> Kernel \<Rightarrow> oid \<times> Kernel" where
  "CreateEvent reset_type k = new_object (O_Event \<lparr>ev_reset_type = reset_type, ev_signaled = False\<rparr>) k"

definition Event_Signal :: "oid \<Rightarrow> KEvent \<Rightarrow> Kernel \<Rightarrow> Kernel run" where
  "Event_Signal w e k = WakeupAllWaitingThreads w (set_obj w (O_Event (e\<lparr>ev_signaled := True\<rparr>)) k)"

definition Event_Clear :: "oid \<Rightarrow> KEvent \<Rightarrow> Kernel \<Rightarrow> Kernel" where
  "Event_Clear w e k = set_obj w (O_Event (e\<lparr>ev_signaled := False\<rparr>)) k"

section \<open>Mutexes\<close>

text \<open>The priority of a new mutex is not initialized; it is first read after it was acquired.\<close>

definition CreateMutex :: "bool \<Rightarrow> Kernel \<Rightarrow> (oid \<times> Kernel) run" where
  "CreateMutex initial_locked k =
     (let (w, k) = new_object (O_Mutex \<lparr>lock_count = 0, mtx_priority = 0, holding_thread = None\<rparr>) k
      in if initial_locked then do {
           t \<leftarrow> current_thread (managers k (current_cpu k));
           k \<leftarrow> Acquire w t k;
           Some (w, k) }
         else Some (w, k))"

definition ERR_WRONG_LOCKING_THREAD :: ResultCode where
  "ERR_WRONG_LOCKING_THREAD = MakeResultCode_raw 31 EM_Kernel ES_InvalidArgument EL_Permanent"

definition ERR_INVALID_LOCK_COUNT :: ResultCode where
  "ERR_INVALID_LOCK_COUNT = MakeResultCode ED_InvalidResultValue EM_Kernel ES_InvalidState EL_Permanent"

definition Mutex_Release :: "oid \<Rightarrow> Mutex \<Rightarrow> oid \<Rightarrow> Kernel \<Rightarrow> (ResultCode \<times> Kernel) run" where
  "Mutex_Release w mx t k =
     (if Some t \<noteq> holding_thread mx then Some (ERR_WRONG_LOCKING_THREAD, k)
      else if lock_count mx \<le> 0 then Some (ERR_INVALID_LOCK_COUNT, k)
      else
        let mx = mx\<lparr>lock_count := lock_count mx - 1\<rparr>; k = set_obj w (O_Mutex mx) k
        in if lock_count mx = 0 then do {
             let k = upd_thread t (\<lambda>x. x\<lparr>held_mutexes := remove1 w (held_mutexes x)\<rparr>) k;
             let k = Thread_UpdatePriority t k;
             let k = set_obj w (O_Mutex (mx\<lparr>holding_thread := None\<rparr>)) k;
             k \<leftarrow> WakeupAllWaitingThreads w k;
             Some (RESULT_SUCCESS, PrepareReschedule k) }
           else Some (RESULT_SUCCESS, k))"

fun release_each :: "oid list \<Rightarrow> Kernel \<Rightarrow> Kernel run" where
  "release_each [] k = Some k"
| "release_each (w # ws) k = do {
     k \<leftarrow> (case obj (wait_object k w) of
             O_Mutex mx \<Rightarrow> WakeupAllWaitingThreads w (set_obj w (O_Mutex (mx\<lparr>lock_count := 0, holding_thread := None\<rparr>)) k)
           | _ \<Rightarrow> None);
     release_each ws k
   }"

definition ReleaseThreadMutexes :: "oid \<Rightarrow> Kernel \<Rightarrow> Kernel run" where
  "ReleaseThreadMutexes t k = do {
     k \<leftarrow> release_each (held_mutexes (threads k t)) k;
     Some (upd_thread t (\<lambda>x. x\<lparr>held_mutexes := []\<rparr>) k)
   }"

section \<open>Semaphores\<close>

definition CreateSemaphore :: "int \<Rightarrow> int \<Rightarrow> Kernel \<Rightarrow> oid ResultVal \<times> Kernel" where
  "CreateSemaphore initial_count maximum k =
     (if initial_count > maximum then (ResultErr ERR_INVALID_COMBINATION_KERNEL, k)
      else let (w, k) = new_object (O_Semaphore \<lparr>max_count = maximum, available_count = initial_count\<rparr>) k
           in (MakeResult w, k))"

text \<open>
  The difference and the sum are \<^verbatim>\<open>s32\<close>; their overflow, undefined in C++, is \<open>None\<close>.
\<close>

definition s32_range :: "int \<Rightarrow> bool" where "s32_range x \<longleftrightarrow> - (2 ^ 31) \<le> x \<and> x < 2 ^ 31"

definition Semaphore_Release :: "oid \<Rightarrow> Semaphore \<Rightarrow> int \<Rightarrow> Kernel \<Rightarrow> (int ResultVal \<times> Kernel) run" where
  "Semaphore_Release w s release_count k = do {
     ASSERT (s32_range (max_count s - available_count s));
     (if max_count s - available_count s < release_count then Some (ResultErr ERR_OUT_OF_RANGE_KERNEL, k)
      else do {
        let previous_count = available_count s;
        ASSERT (s32_range (available_count s + release_count));
        k \<leftarrow> WakeupAllWaitingThreads w (set_obj w (O_Semaphore (s\<lparr>available_count := available_count s + release_count\<rparr>)) k);
        Some (MakeResult previous_count, k) })
   }"

section \<open>Timers\<close>

definition timer_callback_event_type :: nat where "timer_callback_event_type = 0"

definition CreateTimer :: "ResetType \<Rightarrow> Kernel \<Rightarrow> oid \<times> Kernel" where
  "CreateTimer reset_type k =
     (let cb = next_timer_callback_id k + 1;
          (w, k) = new_object (O_Timer \<lparr>tm_reset_type = reset_type, tm_signaled = False, initial_delay = 0,
                     interval_delay = 0, callback_id = cb\<rparr>) (k\<lparr>next_timer_callback_id := cb\<rparr>)
      in (w, k\<lparr>timer_table := (timer_table k)(cb \<mapsto> w)\<rparr>))"

definition Timer_Cancel :: "KTimer \<Rightarrow> Kernel \<Rightarrow> Kernel" where
  "Timer_Cancel x k = k\<lparr>k_timing := UnscheduleEvent timer_callback_event_type (callback_id x) (k_timing k)\<rparr>"

definition schedule :: "int \<Rightarrow> nat \<Rightarrow> nat \<Rightarrow> Kernel \<Rightarrow> Kernel run" where
  "schedule cycles ty d k = do {
     tm \<leftarrow> ScheduleEvent cycles ty d None (k_timing k);
     Some (k\<lparr>k_timing := tm\<rparr>)
   }"

text \<open>\<^verbatim>\<open>interval_delay\<close> is a \<^verbatim>\<open>u64\<close> field, so the \<^verbatim>\<open>u64\<close> overload of \<open>nsToCycles\<close> converts it.\<close>

definition Timer_Signal :: "oid \<Rightarrow> KTimer \<Rightarrow> int \<Rightarrow> Kernel \<Rightarrow> Kernel run" where
  "Timer_Signal w x cycles_late k = do {
     k \<leftarrow> WakeupAllWaitingThreads w (set_obj w (O_Timer (x\<lparr>tm_signaled := True\<rparr>)) k);
     (if interval_delay x \<noteq> 0
      then schedule (nsToCycles_u64 (interval_delay x) - cycles_late) timer_callback_event_type (callback_id x) k
      else Some k)
   }"

definition Timer_Set :: "oid \<Rightarrow> KTimer \<Rightarrow> int \<Rightarrow> int \<Rightarrow> Kernel \<Rightarrow> Kernel run" where
  "Timer_Set w x initial interval k = do {
     let k = Timer_Cancel x k;
     let x = x\<lparr>initial_delay := to_u64 initial, interval_delay := to_u64 interval\<rparr>;
     let k = set_obj w (O_Timer x) k;
     (if initial = 0 then Timer_Signal w x 0 k
      else schedule (nsToCycles_s64 initial) timer_callback_event_type (callback_id x) k)
   }"

definition Timer_Clear :: "oid \<Rightarrow> KTimer \<Rightarrow> Kernel \<Rightarrow> Kernel" where
  "Timer_Clear w x k = set_obj w (O_Timer (x\<lparr>tm_signaled := False\<rparr>)) k"

text \<open>\<^verbatim>\<open>timer_callback_table.at\<close> throws for an unknown id.\<close>

definition TimerCallback :: "nat \<Rightarrow> int \<Rightarrow> Kernel \<Rightarrow> Kernel run" where
  "TimerCallback cb cycles_late k = do {
     w \<leftarrow> timer_table k cb;
     (case obj (wait_object k w) of O_Timer x \<Rightarrow> Timer_Signal w x cycles_late k | _ \<Rightarrow> None)
   }"


section \<open>Semaphores keep count\<close>

abbreviation waiters :: "Kernel \<Rightarrow> oid \<Rightarrow> oid set" where
  "waiters k w \<equiv> set (waiting_threads (wait_object k w))"

definition dec :: "object_state \<Rightarrow> object_state" where
  "dec s = (case s of O_Semaphore x \<Rightarrow> O_Semaphore (x\<lparr>available_count := available_count x - 1\<rparr>) | _ \<Rightarrow> acquired 0 s)"

lemma dec_ready: "ready_to_run k w t \<Longrightarrow> simple_object (pobj k w) \<Longrightarrow> acquired t (pobj k w) = dec (pobj k w)"
  using available_pobj(1) [of k w t] by (cases "pobj k w") (auto simp: dec_def)

lemma dec_n: "(dec ^^ n) (O_Semaphore s) = O_Semaphore (s\<lparr>available_count := available_count s - int n\<rparr>)"
  by (induction n) (simp_all add: dec_def)

lemma WakeupAll_semaphore:
  assumes "wait_inv k" "sched_inv k" "obj (wait_object k w) = O_Semaphore s" "WakeupAllWaitingThreads w k = Some k'"
  shows "obj (wait_object k' w) = O_Semaphore (s\<lparr>available_count := available_count s - int (card (waiters k w - waiters k' w))\<rparr>)"
proof -
  obtain k1 where k1: "wakeup_loop w k = Some k1" using assms(4) by (auto simp: WakeupAllWaitingThreads_def bind_eq_Some_conv)
  have p: "pobj k w = O_Semaphore s" using assms(3) simple_pobj [of k w] by simp
  have "pobj k1 w = O_Semaphore (s\<lparr>available_count := available_count s - int (card (waiters k w - waiters k1 w))\<rparr>)"
    using wakeup_loop_object [OF assms(1,2) _ k1 dec_ready] p by (simp add: dec_n)
  moreover from this have "k' = k1" using assms(4) k1 simple_pobj2 [of k1 w] by (simp add: WakeupAllWaitingThreads_def)
  ultimately show ?thesis using simple_pobj2 [of k1 w] by simp
qed

text \<open>C9: Releasing \<open>n\<close> slots of a semaphore either fails with an out-of-range error and changes nothing,
  exactly when the count would exceed the maximum, or returns the previous count; the count then goes up by
  \<open>n\<close> and down by one for each thread woken, never above the maximum, and no waiting thread that could
  run is left asleep.\<close>

theorem Semaphore_Release_spec:
  assumes "wait_inv k" "sched_inv k" "obj (wait_object k w) = O_Semaphore s"
    and "0 \<le> n" "n < 2 ^ 31" "0 \<le> available_count s" "available_count s \<le> max_count s" "max_count s < 2 ^ 31"
  shows "if available_count s + n > max_count s
    then Semaphore_Release w s n k = Some (ResultErr ERR_OUT_OF_RANGE_KERNEL, k)
    else \<exists>k' s'. Semaphore_Release w s n k = Some (MakeResult (available_count s), k') \<and> wait_inv k' \<and> sched_inv k'
      \<and> obj (wait_object k' w) = O_Semaphore s' \<and> max_count s' = max_count s
      \<and> available_count s' = available_count s + n - int (card (waiters k w - waiters k' w)) \<and> available_count s' \<le> max_count s
      \<and> (\<forall>u \<in> waiters k w - waiters k' w. status (threads k' u) = Ready)
      \<and> (\<forall>u \<in> waiters k' w. \<not> ready_to_run k' w u)"
proof (cases "available_count s + n > max_count s")
  case True
  then have "max_count s - available_count s < n" by simp
  then show ?thesis using True assms(4-8) by (simp add: Semaphore_Release_def s32_range_def)
next
  case False
  let ?s = "s\<lparr>available_count := available_count s + n\<rparr>"
  let ?k = "set_obj w (O_Semaphore ?s) k"
  have ok: "wait_inv ?k" "sched_inv ?k" "obj (wait_object ?k w) = O_Semaphore ?s" "waiting_threads (wait_object ?k w) = waiting_threads (wait_object k w)"
    "threads ?k = threads k" using assms(1,2) by simp_all
  obtain k' where k': "WakeupAllWaitingThreads w ?k = Some k'" "wait_inv k'" "sched_inv k'" "\<forall>u \<in> waiters k' w. \<not> ready_to_run k' w u"
    "\<forall>u. status (threads k' u) = (if u \<in> waiters ?k w - waiters k' w then Ready else status (threads ?k u))"
    using WakeupAllWaitingThreads_outcome [OF ok(1,2), of w] by blast
  have run: "Semaphore_Release w s n k = Some (MakeResult (available_count s), k')"
    using False k'(1) assms(4-8) by (simp add: Semaphore_Release_def s32_range_def)
  show ?thesis
    using False run k' WakeupAll_semaphore [OF ok(1-3) k'(1)] ok(4,5) by auto
qed

lemma wait_inv_init: "wait_inv (Kernel_init n)"
  by (simp add: wait_inv_def Kernel_init_def Thread_blank_def)

lemma new_object_inv:
  assumes "sched_inv k" "wait_inv k" "waiting_threads (wait_object k (next_object k)) = []"
  shows "sched_inv (snd (new_object s k))" "wait_inv (snd (new_object s k))"
    "obj (wait_object (snd (new_object s k)) (fst (new_object s k))) = s"
proof -
  show "sched_inv (snd (new_object s k))" using assms(1) by (subst sched_inv_cong [where k = k]) (simp_all add: new_object_def)
  have "waiting_threads (wait_object (snd (new_object s k)) w) = waiting_threads (wait_object k w)" for w
    using assms(3) by (simp add: new_object_def)
  then show "wait_inv (snd (new_object s k))" using assms(2) by (simp add: wait_inv_def) (simp add: new_object_def)
  show "obj (wait_object (snd (new_object s k)) (fst (new_object s k))) = s" by (simp add: new_object_def)
qed

theorem Semaphore_Release_spec_witness:
  "\<exists>k'. Semaphore_Release 0 \<lparr>max_count = 3, available_count = 1\<rparr> 2 (snd (CreateSemaphore 1 3 (Kernel_init 1)))
     = Some (MakeResult 1, k')"
proof -
  let ?s = "\<lparr>max_count = 3, available_count = 1\<rparr>" and ?k = "Kernel_init 1"
  have e: "snd (CreateSemaphore 1 3 ?k) = snd (new_object (O_Semaphore ?s) ?k)"
    by (simp add: CreateSemaphore_def new_object_def)
  have f: "fst (new_object (O_Semaphore ?s) ?k) = 0" "waiting_threads (wait_object ?k (next_object ?k)) = []"
    by (simp_all add: new_object_def Kernel_init_def)
  note n = new_object_inv [OF sched_inv_init wait_inv_init f(2), where s = "O_Semaphore ?s"]
  show ?thesis
    using Semaphore_Release_spec [OF n(2,1) n(3) [unfolded f(1)], of 2] unfolding e by auto
qed


section \<open>Events\<close>

lemma event_ready_any:
  assumes "pobj k w = O_Event e" "ev_signaled e" "\<not> ready_to_run k w u"
  shows "status (threads k u) = WaitSynchAll"
  using assms simple_pobj2 [of k w] by (auto simp: ready_to_run_def ShouldWait_def Event_ShouldWait_def)

lemma event_not_ready: "pobj k w = O_Event e \<Longrightarrow> \<not> ev_signaled e \<Longrightarrow> \<not> ready_to_run k w u"
  using available_pobj(2) by blast

lemma signal_sticky:
  assumes inv: "wait_inv k" "sched_inv k" and e: "pobj k w = O_Event e" "ev_signaled e" "ev_reset_type e \<noteq> OneShot"
    and k1: "wakeup_loop w k = Some k1"
  shows "pobj k1 w = O_Event e" "\<forall>u \<in> waiters k1 w. status (threads k1 u) = WaitSynchAll"
proof -
  have g: "ready_to_run k w t \<Longrightarrow> simple_object (pobj k w) \<Longrightarrow> acquired t (pobj k w) = acquired 0 (pobj k w)" for k t
    by (cases "pobj k w") simp_all
  have n: "((acquired 0) ^^ n) (O_Event e) = O_Event e" for n using e(3) by (induction n) simp_all
  have "simple_object (pobj k w)" using e(1) by simp
  from wakeup_loop_object [OF inv this k1 g] show p: "pobj k1 w = O_Event e" unfolding e(1) n .
  have "\<forall>u \<in> waiters k1 w. \<not> ready_to_run k1 w u" using wakeup_loop_spec [OF inv, of w] k1 by auto
  then show "\<forall>u \<in> waiters k1 w. status (threads k1 u) = WaitSynchAll" using event_ready_any [OF p e(2)] by blast
qed

lemma signal_oneshot:
  assumes inv: "wait_inv k" "sched_inv k" and e: "pobj k w = O_Event e" "ev_signaled e" "ev_reset_type e = OneShot"
    and k1: "wakeup_loop w k = Some k1"
  shows "if waiters k w = waiters k1 w then pobj k1 w = O_Event e \<and> (\<forall>u \<in> waiters k1 w. status (threads k1 u) = WaitSynchAll)
    else pobj k1 w = O_Event (e\<lparr>ev_signaled := False\<rparr>) \<and> (\<exists>t. waiters k w - waiters k1 w = {t}
      \<and> (\<forall>u \<in> waiters k w. ready_to_run k w u \<longrightarrow> current_priority (threads k t) \<le> current_priority (threads k u)))"
proof -
  have one: "\<forall>u \<in> waiters k2 w. \<not> ready_to_run k2 w u" if "t \<in> waiters k w" "wakeup_one w t k = Some k2" for t k2
    using wakeup_one_object [OF inv(1) that] e event_not_ready [of k2 w "e\<lparr>ev_signaled := False\<rparr>"] by simp
  have "wakeup_loop w k = Some k \<and> (\<forall>u \<in> waiters k w. \<not> ready_to_run k w u)
    \<or> (\<exists>t k2. t \<in> waiters k w \<and> ready_to_run k w t
        \<and> (\<forall>u \<in> waiters k w. ready_to_run k w u \<longrightarrow> current_priority (threads k t) \<le> current_priority (threads k u))
        \<and> wakeup_one w t k = Some k2 \<and> wakeup_loop w k = Some k2)"
    by (rule wakeup_loop_once [OF inv]) (rule one)
  then show ?thesis
  proof (elim disjE exE conjE)
    assume "wakeup_loop w k = Some k" "\<forall>u \<in> waiters k w. \<not> ready_to_run k w u"
    then show ?thesis using k1 e event_ready_any [OF e(1,2)] by simp
  next
    fix t k2
    assume t: "t \<in> waiters k w" "ready_to_run k w t" "wakeup_one w t k = Some k2" "wakeup_loop w k = Some k2"
      "\<forall>u \<in> waiters k w. ready_to_run k w u \<longrightarrow> current_priority (threads k t) \<le> current_priority (threads k u)"
    have "waiters k2 w = waiters k w - {t}"
      using wakeup_one_spec [OF inv t(1,2)] t(3) wait_invD(1) [OF inv(1)] by (auto simp: set_remove1_eq)
    then have "waiters k w \<noteq> waiters k2 w" "waiters k w - waiters k2 w = {t}" using t(1) by auto
    moreover have "pobj k2 w = O_Event (e\<lparr>ev_signaled := False\<rparr>)" using wakeup_one_object [OF inv(1) t(1,3)] e by simp
    ultimately show ?thesis using t(4,5) k1 by auto
  qed
qed

text \<open>C7: Signalling an event always succeeds and makes exactly the woken threads ready. A one-shot event
  wakes at most one thread, of the best priority among those that could run, and stays signalled exactly
  when it woke none; a sticky event stays signalled, a pulse event does not. After a sticky or pulse signal,
  and after a one-shot signal that woke none, every thread still waiting waits for further objects too.\<close>

theorem Event_Signal_spec:
  assumes inv: "wait_inv k" "sched_inv k" and e: "obj (wait_object k w) = O_Event e"
    and k0: "k0 = set_obj w (O_Event (e\<lparr>ev_signaled := True\<rparr>)) k"
  shows "\<exists>k' woken. Event_Signal w e k = Some k' \<and> wait_inv k' \<and> sched_inv k' \<and> woken = waiters k w - waiters k' w
    \<and> (\<forall>u. status (threads k' u) = (if u \<in> woken then Ready else status (threads k u)))
    \<and> (ev_reset_type e = OneShot \<longrightarrow> card woken \<le> 1 \<and> (\<forall>t \<in> woken. \<forall>u \<in> waiters k w.
          ready_to_run k0 w u \<longrightarrow> current_priority (threads k t) \<le> current_priority (threads k u)))
    \<and> (ev_reset_type e \<noteq> OneShot \<or> woken = {} \<longrightarrow> (\<forall>u \<in> waiters k' w. status (threads k' u) = WaitSynchAll))
    \<and> obj (wait_object k' w) = O_Event (e\<lparr>ev_signaled := (case ev_reset_type e of OneShot \<Rightarrow> woken = {} | Sticky \<Rightarrow> True | Pulse \<Rightarrow> False)\<rparr>)"
proof -
  let ?e = "e\<lparr>ev_signaled := True\<rparr>"
  have ok: "wait_inv k0" "sched_inv k0" "pobj k0 w = O_Event ?e" "ev_signaled ?e" "waiters k0 w = waiters k w" "threads k0 = threads k"
    using inv by (simp_all add: pobj_set_obj k0)
  obtain k1 where k1: "wakeup_loop w k0 = Some k1" "wait_inv k1" "sched_inv k1" "waiters k1 w \<subseteq> waiters k w"
    "\<forall>u. status (threads k1 u) = (if u \<in> waiters k w - waiters k1 w then Ready else status (threads k u))"
    using wakeup_loop_spec [OF ok(1,2), of w] ok(5,6) by auto
  have run: "Event_Signal w e k = Some (case obj (wait_object k1 w) of
         O_Event e \<Rightarrow> if ev_reset_type e = Pulse then set_obj w (O_Event (e\<lparr>ev_signaled := False\<rparr>)) k1 else k1
       | O_Timer x \<Rightarrow> if tm_reset_type x = Pulse then set_obj w (O_Timer (x\<lparr>tm_signaled := False\<rparr>)) k1 else k1
       | _ \<Rightarrow> k1)"
    using k1(1) by (simp add: Event_Signal_def WakeupAllWaitingThreads_def k0)
  show ?thesis
  proof (cases "ev_reset_type e = OneShot")
    case True
    have s: "if waiters k w = waiters k1 w then pobj k1 w = O_Event ?e \<and> (\<forall>u \<in> waiters k1 w. status (threads k1 u) = WaitSynchAll)
      else pobj k1 w = O_Event (?e\<lparr>ev_signaled := False\<rparr>) \<and> (\<exists>t. waiters k w - waiters k1 w = {t}
        \<and> (\<forall>u \<in> waiters k w. ready_to_run k0 w u \<longrightarrow> current_priority (threads k t) \<le> current_priority (threads k u)))"
      using signal_oneshot [OF ok(1-4) _ k1(1)] True unfolding ok(5,6) by simp
    show ?thesis
    proof (cases "waiters k w = waiters k1 w")
      case same: True
      then have "obj (wait_object k1 w) = O_Event ?e" using s simple_pobj2 [of k1 w] by simp
      with same s run k1 True show ?thesis by (intro exI [of _ k1] exI [of _ "{}"]) simp
    next
      case False
      then obtain t where t: "pobj k1 w = O_Event (?e\<lparr>ev_signaled := False\<rparr>)" "waiters k w - waiters k1 w = {t}"
        "\<forall>u \<in> waiters k w. ready_to_run k0 w u \<longrightarrow> current_priority (threads k t) \<le> current_priority (threads k u)"
        using s by auto
      then have "obj (wait_object k1 w) = O_Event (?e\<lparr>ev_signaled := False\<rparr>)" using simple_pobj2 [of k1 w] by simp
      with t run k1 True show ?thesis by (intro exI [of _ k1] exI [of _ "{t}"]) simp
    qed
  next
    case False
    then have s: "pobj k1 w = O_Event ?e" "\<forall>u \<in> waiters k1 w. status (threads k1 u) = WaitSynchAll"
      using signal_sticky [OF ok(1-4) _ k1(1)] by simp_all
    then have o: "obj (wait_object k1 w) = O_Event ?e" using simple_pobj2 [of k1 w] by simp
    let ?k' = "if ev_reset_type e = Pulse then set_obj w (O_Event (?e\<lparr>ev_signaled := False\<rparr>)) k1 else k1"
    have k': "Event_Signal w e k = Some ?k'" "wait_inv ?k'" "sched_inv ?k'" "waiters ?k' w = waiters k1 w" "threads ?k' = threads k1"
      "obj (wait_object ?k' w) = O_Event (e\<lparr>ev_signaled := (ev_reset_type e \<noteq> Pulse)\<rparr>)"
      using run o k1(2,3) by simp_all
    have c: "(case ev_reset_type e of OneShot \<Rightarrow> P | Sticky \<Rightarrow> True | Pulse \<Rightarrow> False) = (ev_reset_type e \<noteq> Pulse)" for P
      using False by (cases "ev_reset_type e") simp_all
    show ?thesis
      by (rule exI [of _ ?k'], rule exI [of _ "waiters k w - waiters k1 w"], unfold k' c) (use k1(2,3,5) s(2) False in simp)
  qed
qed


theorem Event_Signal_spec_witness:
  "\<exists>k'. Event_Signal 0 \<lparr>ev_reset_type = Sticky, ev_signaled = False\<rparr> (snd (CreateEvent Sticky (Kernel_init 1))) = Some k'
     \<and> obj (wait_object k' 0) = O_Event \<lparr>ev_reset_type = Sticky, ev_signaled = True\<rparr>"
proof -
  let ?e = "\<lparr>ev_reset_type = Sticky, ev_signaled = False\<rparr>" and ?k = "Kernel_init 1"
  have f: "fst (new_object (O_Event ?e) ?k) = 0" "waiting_threads (wait_object ?k (next_object ?k)) = []"
    by (simp_all add: new_object_def Kernel_init_def)
  note n = new_object_inv [OF sched_inv_init wait_inv_init f(2), where s = "O_Event ?e"]
  show ?thesis
    using Event_Signal_spec [OF n(2,1) n(3) [unfolded f(1)] refl] unfolding CreateEvent_def by auto
qed

section \<open>Mutexes\<close>

text \<open>A mutex that was taken by \<open>n\<close> is available to no other thread.\<close>

lemma mutex_taken:
  assumes "pobj k w = O_Mutex mx" "lock_count mx > 0" "holding_thread mx = Some n" "u \<noteq> n"
  shows "\<not> ready_to_run k w u"
proof -
  from assms(1) obtain my where my: "obj (wait_object k w) = O_Mutex my" "my\<lparr>mtx_priority := 0\<rparr> = mx"
    by (cases "obj (wait_object k w)") (auto simp: pobj_def plain_object_def)
  then have "lock_count my = lock_count mx" "holding_thread my = holding_thread mx" by auto
  with my(1) assms show ?thesis by (simp add: ready_to_run_def ShouldWait_def Mutex_ShouldWait_def)
qed

lemma mutex_free_any:
  assumes "pobj k w = O_Mutex mx" "lock_count mx = 0" "\<not> ready_to_run k w u"
  shows "status (threads k u) = WaitSynchAll"
proof -
  from assms(1) obtain my where my: "obj (wait_object k w) = O_Mutex my" "my\<lparr>mtx_priority := 0\<rparr> = mx"
    by (cases "obj (wait_object k w)") (auto simp: pobj_def plain_object_def)
  then have "lock_count my = 0" using assms(2) by auto
  with my(1) assms(3) show ?thesis by (auto simp: ready_to_run_def ShouldWait_def Mutex_ShouldWait_def)
qed

lemma hand_over:
  assumes inv: "wait_inv k" "sched_inv k" and free: "pobj k w = O_Mutex mx" "lock_count mx = 0"
  shows "\<exists>k'. wakeup_loop w k = Some k' \<and> wait_inv k' \<and> sched_inv k'
    \<and> (k' = k \<and> (\<forall>u \<in> waiters k w. status (threads k u) = WaitSynchAll)
       \<or> (\<exists>n \<in> waiters k w. pobj k' w = O_Mutex (mx\<lparr>holding_thread := Some n, lock_count := 1\<rparr>) \<and> waiters k' w = waiters k w - {n}
            \<and> status (threads k' n) = Ready
            \<and> (\<forall>u \<in> waiters k w. ready_to_run k w u \<longrightarrow> current_priority (threads k n) \<le> current_priority (threads k u))))"
proof -
  have acq: "pobj k2 w = O_Mutex (mx\<lparr>holding_thread := Some n, lock_count := 1\<rparr>)"
    if "n \<in> waiters k w" "wakeup_one w n k = Some k2" for n k2
    using wakeup_one_object [OF inv(1) that] free by simp
  have left: "waiters k2 w = waiters k w - {n}" if "n \<in> waiters k w" "ready_to_run k w n" "wakeup_one w n k = Some k2" for n k2
    using wakeup_one_spec [OF inv that(1,2)] that(3) wait_invD(1) [OF inv(1)] by (auto simp: set_remove1_eq)
  have one: "\<forall>u \<in> waiters k2 w. \<not> ready_to_run k2 w u" if "n \<in> waiters k w" "ready_to_run k w n" "wakeup_one w n k = Some k2" for n k2
    using mutex_taken [OF acq [OF that(1,3)]] left [OF that] by auto
  have "wakeup_loop w k = Some k \<and> (\<forall>u \<in> waiters k w. \<not> ready_to_run k w u)
    \<or> (\<exists>t k2. t \<in> waiters k w \<and> ready_to_run k w t
        \<and> (\<forall>u \<in> waiters k w. ready_to_run k w u \<longrightarrow> current_priority (threads k t) \<le> current_priority (threads k u))
        \<and> wakeup_one w t k = Some k2 \<and> wakeup_loop w k = Some k2)"
    by (rule wakeup_loop_once [OF inv]) (rule one)
  then show ?thesis
  proof (elim disjE exE conjE)
    assume "wakeup_loop w k = Some k" "\<forall>u \<in> waiters k w. \<not> ready_to_run k w u"
    then show ?thesis using inv mutex_free_any [OF free] by auto
  next
    fix t k2
    assume t: "t \<in> waiters k w" "ready_to_run k w t" "wakeup_one w t k = Some k2" "wakeup_loop w k = Some k2"
      "\<forall>u \<in> waiters k w. ready_to_run k w u \<longrightarrow> current_priority (threads k t) \<le> current_priority (threads k u)"
    have "wait_inv k2" "sched_inv k2" "status (threads k2 t) = Ready" using wakeup_one_spec [OF inv t(1,2)] t(3) by auto
    then show ?thesis using t acq [OF t(1,3)] left [OF t(1-3)] by (intro exI [of _ k2] conjI disjI2 bexI [of _ t]) simp_all
  qed
qed

text \<open>The state of \<open>Release\<close> in which the threads waiting for the mutex are woken.\<close>

definition unlocked :: "oid \<Rightarrow> Mutex \<Rightarrow> oid \<Rightarrow> Kernel \<Rightarrow> Kernel" where
  "unlocked w mx t k = set_obj w (O_Mutex (mx\<lparr>lock_count := 0, holding_thread := None\<rparr>))
     (Thread_UpdatePriority t (upd_thread t (\<lambda>x. x\<lparr>held_mutexes := remove1 w (held_mutexes x)\<rparr>)
       (set_obj w (O_Mutex (mx\<lparr>lock_count := 0\<rparr>)) k)))"

lemma unlocked_inv:
  assumes "wait_inv k" "sched_inv k"
  shows "wait_inv (unlocked w mx t k)" "sched_inv (unlocked w mx t k)" "waiters (unlocked w mx t k) x = waiters k x"
    "status (threads (unlocked w mx t k) u) = status (threads k u)"
    "pobj (unlocked w mx t k) w = O_Mutex (mx\<lparr>lock_count := 0, holding_thread := None, mtx_priority := 0\<rparr>)"
proof -
  have "wait_frame w k (unlocked w mx t k)" unfolding unlocked_def
    by (rule wait_frame_trans [OF wait_frame_trans [OF wait_frame_trans [OF wait_frame_set_obj wait_frame_held]
         wait_frame_prio_only] wait_frame_set_obj])
       (rule prio_only_Thread_UpdatePriority, rule sched_inv_Thread_UpdatePriority)
  then have f: "threads_frame k (unlocked w mx t k)" by (rule wait_frame_threads)
  with assms show "wait_inv (unlocked w mx t k)" "sched_inv (unlocked w mx t k)" "waiters (unlocked w mx t k) x = waiters k x"
    "status (threads (unlocked w mx t k) u) = status (threads k u)"
    using wait_inv_cong [OF f] by (simp_all add: threads_frame_def)
  show "pobj (unlocked w mx t k) w = O_Mutex (mx\<lparr>lock_count := 0, holding_thread := None, mtx_priority := 0\<rparr>)"
    by (simp add: unlocked_def pobj_set_obj)
qed

text \<open>C8: Releasing a mutex by a thread that does not hold it fails and changes nothing; releasing one of
  several locks only counts down; releasing the last lock succeeds and either hands the mutex to a waiting
  thread, which becomes ready, holds it once and has the best priority among the waiting threads that can
  run, or, when every waiting thread still waits for further objects, leaves it free.\<close>

theorem Mutex_Release_spec:
  assumes inv: "wait_inv k" "sched_inv k" and mx: "obj (wait_object k w) = O_Mutex mx"
  shows "if holding_thread mx \<noteq> Some t then Mutex_Release w mx t k = Some (ERR_WRONG_LOCKING_THREAD, k)
    else if lock_count mx > 1 then Mutex_Release w mx t k
      = Some (RESULT_SUCCESS, set_obj w (O_Mutex (mx\<lparr>lock_count := lock_count mx - 1\<rparr>)) k)
    else lock_count mx = 1 \<longrightarrow> (\<exists>k' my. Mutex_Release w mx t k = Some (RESULT_SUCCESS, k') \<and> wait_inv k' \<and> sched_inv k'
      \<and> pobj k' w = O_Mutex my \<and> reschedule_pending k'
      \<and> (holding_thread my = None \<and> lock_count my = 0 \<and> waiters k' w = waiters k w \<and> (\<forall>u \<in> waiters k w. status (threads k u) = WaitSynchAll)
         \<or> (\<exists>n \<in> waiters k w. holding_thread my = Some n \<and> lock_count my = 1 \<and> waiters k' w = waiters k w - {n}
              \<and> status (threads k' n) = Ready
              \<and> (\<forall>u \<in> waiters k w. ready_to_run (unlocked w mx t k) w u
                   \<longrightarrow> current_priority (threads (unlocked w mx t k) n) \<le> current_priority (threads (unlocked w mx t k) u)))))"
proof (cases "holding_thread mx = Some t \<and> lock_count mx = 1")
  case True
  note U = unlocked_inv [OF inv, of w mx t]
  let ?z = "mx\<lparr>lock_count := 0, holding_thread := None, mtx_priority := 0\<rparr>"
  obtain k1 where k1: "wakeup_loop w (unlocked w mx t k) = Some k1" "wait_inv k1" "sched_inv k1"
    and c: "k1 = unlocked w mx t k \<and> (\<forall>u \<in> waiters k w. status (threads k u) = WaitSynchAll)
       \<or> (\<exists>n \<in> waiters k w. pobj k1 w = O_Mutex (?z\<lparr>holding_thread := Some n, lock_count := 1\<rparr>) \<and> waiters k1 w = waiters k w - {n}
            \<and> status (threads k1 n) = Ready \<and> (\<forall>u \<in> waiters k w. ready_to_run (unlocked w mx t k) w u
                 \<longrightarrow> current_priority (threads (unlocked w mx t k) n) \<le> current_priority (threads (unlocked w mx t k) u)))"
    using hand_over [OF U(1,2,5)] unfolding U(3,4) by auto
  have p: "\<exists>my. pobj k1 w = O_Mutex my" using c U(5) by auto
  then have "WakeupAllWaitingThreads w (unlocked w mx t k) = Some k1"
    using k1(1) by (auto simp: WakeupAllWaitingThreads_def pobj_def plain_object_def split: object_state.splits)
  then have run: "Mutex_Release w mx t k = Some (RESULT_SUCCESS, PrepareReschedule k1)"
    using True by (simp add: Mutex_Release_def unlocked_def Let_def)
  have "wait_inv (PrepareReschedule k1)" using k1(2) by (simp add: wait_inv_def)
  moreover from c have "\<exists>my. pobj (PrepareReschedule k1) w = O_Mutex my
      \<and> (holding_thread my = None \<and> lock_count my = 0 \<and> waiters k1 w = waiters k w \<and> (\<forall>u \<in> waiters k w. status (threads k u) = WaitSynchAll)
         \<or> (\<exists>n \<in> waiters k w. holding_thread my = Some n \<and> lock_count my = 1 \<and> waiters k1 w = waiters k w - {n}
              \<and> status (threads k1 n) = Ready
              \<and> (\<forall>u \<in> waiters k w. ready_to_run (unlocked w mx t k) w u
                   \<longrightarrow> current_priority (threads (unlocked w mx t k) n) \<le> current_priority (threads (unlocked w mx t k) u))))"
    using U(3,5) by (elim disjE bexE) auto
  ultimately show ?thesis using run k1(3) True by auto
qed (auto simp: Mutex_Release_def Let_def)


theorem Mutex_Release_spec_witness:
  "\<exists>k'. Mutex_Release 0 \<lparr>lock_count = 1, mtx_priority = 10, holding_thread = Some 5\<rparr> 5
     (snd (new_object (O_Mutex \<lparr>lock_count = 1, mtx_priority = 10, holding_thread = Some 5\<rparr>) (Kernel_init 1)))
     = Some (RESULT_SUCCESS, k') \<and> wait_inv k' \<and> sched_inv k'"
proof -
  let ?m = "\<lparr>lock_count = 1, mtx_priority = 10, holding_thread = Some 5\<rparr>" and ?k = "Kernel_init 1"
  have f: "fst (new_object (O_Mutex ?m) ?k) = 0" "waiting_threads (wait_object ?k (next_object ?k)) = []"
    by (simp_all add: new_object_def Kernel_init_def)
  note n = new_object_inv [OF sched_inv_init wait_inv_init f(2), where s = "O_Mutex ?m"]
  show ?thesis
    using Mutex_Release_spec [OF n(2,1) n(3) [unfolded f(1)], of 5] by auto
qed

end
