(* ===== verification/VM_Manager.thy ===== *)
theory VM_Manager
  imports Result_Code
begin

text \<open>
  \<^verbatim>\<open>Kernel::VMManager\<close> of \<^verbatim>\<open>src/src/core/hle/kernel/vm_manager.{h,cpp}\<close> and \<^verbatim>\<open>MemoryRef\<close> of
  \<^verbatim>\<open>src/src/common/memory_ref.h\<close>. The \<^verbatim>\<open>std::map\<close> of areas keyed by base address is the list of
  areas in key order; an iterator is the key it points to, \<open>None\<close> the end. Addresses are numbers
  below \<open>2\<^sup>3\<^sup>2\<close> and every addition of the code wraps as \<^verbatim>\<open>u32\<close> does. The calls that bring the
  page table up to date are recorded, in order, in \<open>page_updates\<close>.

  The theory shows that the areas always tile the whole address space, that splitting and merging
  change no address's attributes, and that mapping changes exactly the addresses asked for.
\<close>

unbundle bit_operations_syntax

section \<open>MemoryRef\<close>

text \<open>A reference holds its backing block (host address and size; none for null) and an offset.\<close>

record MemoryRef =
  backing_mem :: "(nat \<times> nat) option"
  mr_offset :: nat

definition MemoryRef_null :: MemoryRef where
  "MemoryRef_null = \<lparr>backing_mem = None, mr_offset = 0\<rparr>"

definition GetPtr :: "MemoryRef \<Rightarrow> nat" where
  "GetPtr r = (case backing_mem r of None \<Rightarrow> 0 | Some (p, n) \<Rightarrow> p + mr_offset r)"

definition GetSize :: "MemoryRef \<Rightarrow> nat" where
  "GetSize r = (case backing_mem r of None \<Rightarrow> 0 | Some (p, n) \<Rightarrow> n - mr_offset r)"

definition MemoryRef_add :: "MemoryRef \<Rightarrow> nat \<Rightarrow> MemoryRef run" where
  "MemoryRef_add r offset_by = do {
     ASSERT (offset_by < GetSize r);
     Some (r\<lparr>mr_offset := mr_offset r + offset_by\<rparr>)
   }"

section \<open>Areas\<close>

datatype VMAType = VMA_Free | VMA_BackingMemory | VMA_MMIO

type_synonym VMAPermission = u8

abbreviation (input) Perm_None :: VMAPermission where "Perm_None \<equiv> 0"
abbreviation (input) Perm_Read :: VMAPermission where "Perm_Read \<equiv> 1"
abbreviation (input) Perm_ReadWrite :: VMAPermission where "Perm_ReadWrite \<equiv> 3"

datatype MemoryState = MS_Free | MS_Reserved | MS_IO | MS_Static | MS_Code | MS_Private | MS_Shared
  | MS_Continuous | MS_Aliased | MS_Alias | MS_AliasCode | MS_Locked

record VirtualMemoryArea =
  vma_base :: nat
  vma_size :: nat
  vma_type :: VMAType
  permissions :: VMAPermission
  meminfo_state :: MemoryState
  backing_memory :: MemoryRef
  paddr :: nat
  mmio_handler :: "nat option"

definition VirtualMemoryArea_init :: VirtualMemoryArea where
  "VirtualMemoryArea_init = \<lparr>vma_base = 0, vma_size = 0, vma_type = VMA_Free, permissions = Perm_None,
     meminfo_state = MS_Free, backing_memory = MemoryRef_null, paddr = 0, mmio_handler = None\<rparr>"

definition CanBeMergedWith :: "VirtualMemoryArea \<Rightarrow> VirtualMemoryArea \<Rightarrow> bool run" where
  "CanBeMergedWith v nxt = do {
     ASSERT (add32 (vma_base v) (vma_size v) = vma_base nxt);
     Some (if permissions v \<noteq> permissions nxt \<or> meminfo_state v \<noteq> meminfo_state nxt
              \<or> vma_type v \<noteq> vma_type nxt then False
           else if vma_type v = VMA_BackingMemory
              \<and> GetPtr (backing_memory v) + vma_size v \<noteq> GetPtr (backing_memory nxt) then False
           else if vma_type v = VMA_MMIO \<and> add32 (paddr v) (vma_size v) \<noteq> paddr nxt then False
           else True)
   }"

section \<open>The ordered map of areas\<close>

record VMManager =
  vma_map :: "VirtualMemoryArea list"
  page_updates :: "VirtualMemoryArea list"

definition MAX_ADDRESS :: nat where "MAX_ADDRESS = 0x40000000"
definition PAGE_SIZE :: nat where "PAGE_SIZE = 0x1000"

definition map_at :: "VirtualMemoryArea list \<Rightarrow> nat \<Rightarrow> VirtualMemoryArea option" where
  "map_at m k = find (\<lambda>v. vma_base v = k) m"

definition map_next :: "VirtualMemoryArea list \<Rightarrow> nat \<Rightarrow> nat option" where
  "map_next m k = map_option vma_base (find (\<lambda>v. k < vma_base v) m)"

text \<open>The entry before the one with key \<open>k\<close>; \<open>None\<close> when \<open>k\<close> is at the beginning.\<close>

definition map_prev :: "VirtualMemoryArea list \<Rightarrow> nat \<Rightarrow> nat option" where
  "map_prev m k = map_option vma_base (find (\<lambda>v. vma_base v < k) (rev m))"

definition lower_bound :: "VirtualMemoryArea list \<Rightarrow> nat \<Rightarrow> nat option" where
  "lower_bound m k = map_option vma_base (find (\<lambda>v. k \<le> vma_base v) m)"

definition map_upd ::
    "nat \<Rightarrow> (VirtualMemoryArea \<Rightarrow> VirtualMemoryArea) \<Rightarrow> VirtualMemoryArea list \<Rightarrow> VirtualMemoryArea list" where
  "map_upd k f m = map (\<lambda>v. if vma_base v = k then f v else v) m"

definition map_erase :: "nat \<Rightarrow> VirtualMemoryArea list \<Rightarrow> VirtualMemoryArea list" where
  "map_erase k m = filter (\<lambda>v. vma_base v \<noteq> k) m"

definition map_emplace :: "VirtualMemoryArea \<Rightarrow> VirtualMemoryArea list \<Rightarrow> VirtualMemoryArea list" where
  "map_emplace v m =
     (if map_at m (vma_base v) \<noteq> None then m
      else takeWhile (\<lambda>w. vma_base w < vma_base v) m @ [v] @ dropWhile (\<lambda>w. vma_base w < vma_base v) m)"

text \<open>
  The entries from the iterator \<open>b\<close> up to, not including, the iterator \<open>e\<close>; walking towards an
  iterator that lies before \<open>b\<close> runs off the end of the map.
\<close>

definition map_range :: "VirtualMemoryArea list \<Rightarrow> nat \<Rightarrow> nat option \<Rightarrow> VirtualMemoryArea list run" where
  "map_range m b e =
     (case e of
        None \<Rightarrow> Some (filter (\<lambda>v. b \<le> vma_base v) m)
      | Some k \<Rightarrow> if k < b then None else Some (filter (\<lambda>v. b \<le> vma_base v \<and> vma_base v < k) m))"

section \<open>Operations\<close>

definition UpdatePageTableForVMA :: "VirtualMemoryArea \<Rightarrow> VMManager \<Rightarrow> VMManager" where
  "UpdatePageTableForVMA v vm = vm\<lparr>page_updates := page_updates vm @ [v]\<rparr>"

definition VM_Reset :: VMManager where
  "VM_Reset =
     (let initial_vma = VirtualMemoryArea_init\<lparr>vma_size := MAX_ADDRESS\<rparr>
      in UpdatePageTableForVMA initial_vma \<lparr>vma_map = [initial_vma], page_updates = []\<rparr>)"

text \<open>
  \<open>FindVMA\<close>: the outer \<open>None\<close> is \<^verbatim>\<open>std::prev\<close> of the first entry, which the code never checks;
  the inner \<open>None\<close> is \<^verbatim>\<open>vma_map.end()\<close>.
\<close>

definition FindVMA :: "VMManager \<Rightarrow> nat \<Rightarrow> nat option run" where
  "FindVMA vm target =
     (if target \<ge> MAX_ADDRESS then Some None
      else (case find (\<lambda>v. vma_base v \<le> target) (rev (vma_map vm)) of
              None \<Rightarrow> None | Some v \<Rightarrow> Some (Some (vma_base v))))"

definition SplitVMA :: "nat \<Rightarrow> nat \<Rightarrow> VMManager \<Rightarrow> (nat \<times> VMManager) run" where
  "SplitVMA vma_handle offset_in_vma vm = do {
     old \<leftarrow> map_at (vma_map vm) vma_handle;
     ASSERT (offset_in_vma < vma_size old);
     ASSERT (offset_in_vma > 0);
     let old_vma = old\<lparr>vma_size := offset_in_vma\<rparr>;
     let new_vma = old\<lparr>vma_base := add32 (vma_base old) offset_in_vma,
                       vma_size := sub32 (vma_size old) offset_in_vma\<rparr>;
     new_vma \<leftarrow> (case vma_type new_vma of
         VMA_Free \<Rightarrow> Some new_vma
       | VMA_BackingMemory \<Rightarrow> do {
           r \<leftarrow> MemoryRef_add (backing_memory new_vma) offset_in_vma;
           Some (new_vma\<lparr>backing_memory := r\<rparr>) }
       | VMA_MMIO \<Rightarrow> Some (new_vma\<lparr>paddr := add32 (paddr new_vma) offset_in_vma\<rparr>));
     ok \<leftarrow> CanBeMergedWith old_vma new_vma;
     ASSERT ok;
     Some (vma_base new_vma,
           vm\<lparr>vma_map := map_emplace new_vma (map_upd vma_handle (\<lambda>_. old_vma) (vma_map vm))\<rparr>)
   }"

definition MergeAdjacent :: "nat \<Rightarrow> VMManager \<Rightarrow> (nat \<times> VMManager) run" where
  "MergeAdjacent iter vm = do {
     v \<leftarrow> map_at (vma_map vm) iter;
     m \<leftarrow> (case map_next (vma_map vm) iter of
         None \<Rightarrow> Some (vma_map vm)
       | Some nk \<Rightarrow> do {
           nv \<leftarrow> map_at (vma_map vm) nk;
           ok \<leftarrow> CanBeMergedWith v nv;
           Some (if ok then map_erase nk (map_upd iter (\<lambda>v. v\<lparr>vma_size := add32 (vma_size v) (vma_size nv)\<rparr>) (vma_map vm))
                 else vma_map vm) });
     (case map_prev m iter of
        None \<Rightarrow> Some (iter, vm\<lparr>vma_map := m\<rparr>)
      | Some pk \<Rightarrow> do {
          pv \<leftarrow> map_at m pk;
          v \<leftarrow> map_at m iter;
          ok \<leftarrow> CanBeMergedWith pv v;
          Some (if ok then (pk, vm\<lparr>vma_map := map_erase iter (map_upd pk (\<lambda>w. w\<lparr>vma_size := add32 (vma_size w) (vma_size v)\<rparr>) m)\<rparr>)
                else (iter, vm\<lparr>vma_map := m\<rparr>)) })
   }"

definition CarveVMA :: "nat \<Rightarrow> nat \<Rightarrow> VMManager \<Rightarrow> (nat ResultVal \<times> VMManager) run" where
  "CarveVMA base sz vm = do {
     ASSERT (sz mod PAGE_SIZE = 0);
     ASSERT (base mod PAGE_SIZE = 0);
     it \<leftarrow> FindVMA vm base;
     (case it of
        None \<Rightarrow> Some (ResultErr ERR_INVALID_ADDRESS, vm)
      | Some vma_handle \<Rightarrow> do {
          vma \<leftarrow> map_at (vma_map vm) vma_handle;
          (if vma_type vma \<noteq> VMA_Free then Some (ResultErr ERR_INVALID_ADDRESS_STATE, vm)
           else
             let start_in_vma = sub32 base (vma_base vma); end_in_vma = add32 start_in_vma sz
             in if end_in_vma > vma_size vma then Some (ResultErr ERR_INVALID_ADDRESS_STATE, vm)
             else do {
               vm \<leftarrow> (if end_in_vma \<noteq> vma_size vma then map_option snd (SplitVMA vma_handle end_in_vma vm) else Some vm);
               (h, vm) \<leftarrow> (if start_in_vma \<noteq> 0 then SplitVMA vma_handle start_in_vma vm else Some (vma_handle, vm));
               Some (MakeResult h, vm) }) })
   }"

definition CarveVMARange :: "nat \<Rightarrow> nat \<Rightarrow> VMManager \<Rightarrow> (nat ResultVal \<times> VMManager) run" where
  "CarveVMARange target sz vm = do {
     ASSERT (sz mod PAGE_SIZE = 0);
     ASSERT (target mod PAGE_SIZE = 0);
     let target_end = add32 target sz;
     ASSERT (target_end \<ge> target);
     ASSERT (target_end \<le> MAX_ADDRESS);
     ASSERT (sz > 0);
     it \<leftarrow> FindVMA vm target;
     begin_vma \<leftarrow> it;
     vmas \<leftarrow> map_range (vma_map vm) begin_vma (lower_bound (vma_map vm) target_end);
     (if list_ex (\<lambda>v. vma_type v = VMA_Free) vmas
      then Some (ResultErr ERR_INVALID_ADDRESS_STATE, vm)
      else do {
        (begin_vma, vm) \<leftarrow> (if target \<noteq> begin_vma then SplitVMA begin_vma (sub32 target begin_vma) vm
                            else Some (begin_vma, vm));
        it2 \<leftarrow> FindVMA vm target_end;
        vm \<leftarrow> (case it2 of
            None \<Rightarrow> Some vm
          | Some end_vma \<Rightarrow> if target_end \<noteq> end_vma
              then map_option snd (SplitVMA end_vma (sub32 target_end end_vma) vm) else Some vm);
        Some (MakeResult begin_vma, vm) })
   }"

text \<open>The update of the carved area common to \<open>MapBackingMemory\<close> and \<open>MapMMIO\<close>, then the merge.\<close>

definition set_area ::
    "nat \<Rightarrow> (VirtualMemoryArea \<Rightarrow> VirtualMemoryArea) \<Rightarrow> VMManager \<Rightarrow> (nat \<times> VMManager) run" where
  "set_area h f vm = do {
     v \<leftarrow> map_at (vma_map vm) h;
     MergeAdjacent h (UpdatePageTableForVMA (f v) (vm\<lparr>vma_map := map_upd h f (vma_map vm)\<rparr>))
   }"

definition MapBackingMemory ::
    "nat \<Rightarrow> MemoryRef \<Rightarrow> nat \<Rightarrow> MemoryState \<Rightarrow> VMManager \<Rightarrow> (nat ResultVal \<times> VMManager) run" where
  "MapBackingMemory target memory sz state vm = do {
     ASSERT (GetPtr memory \<noteq> 0);
     (r, vm) \<leftarrow> CarveVMA target sz vm;
     (if Failed r then Some (ResultErr (Code r), vm)
      else do {
        h \<leftarrow> rv_object r;
        final_vma \<leftarrow> map_at (vma_map vm) h;
        ASSERT (vma_size final_vma = sz);
        (h', vm) \<leftarrow> set_area h (\<lambda>v. v\<lparr>vma_type := VMA_BackingMemory, permissions := Perm_ReadWrite,
                       meminfo_state := state, backing_memory := memory\<rparr>) vm;
        Some (MakeResult h', vm) })
   }"

definition MapMMIO ::
    "nat \<Rightarrow> nat \<Rightarrow> nat \<Rightarrow> MemoryState \<Rightarrow> nat option \<Rightarrow> VMManager \<Rightarrow> (nat ResultVal \<times> VMManager) run" where
  "MapMMIO target pa sz state handler vm = do {
     (r, vm) \<leftarrow> CarveVMA target sz vm;
     (if Failed r then Some (ResultErr (Code r), vm)
      else do {
        h \<leftarrow> rv_object r;
        final_vma \<leftarrow> map_at (vma_map vm) h;
        ASSERT (vma_size final_vma = sz);
        (h', vm) \<leftarrow> set_area h (\<lambda>v. v\<lparr>vma_type := VMA_MMIO, permissions := Perm_ReadWrite,
                       meminfo_state := state, paddr := pa, mmio_handler := handler\<rparr>) vm;
        Some (MakeResult h', vm) })
   }"

text \<open>
  With no suitable area \<^verbatim>\<open>find_if\<close> returns \<^verbatim>\<open>end()\<close>, which the code dereferences before it tests
  for it: that run is \<open>None\<close>.
\<close>

definition MapBackingMemoryToBase ::
    "nat \<Rightarrow> nat \<Rightarrow> MemoryRef \<Rightarrow> nat \<Rightarrow> MemoryState \<Rightarrow> VMManager \<Rightarrow> (nat ResultVal \<times> VMManager) run" where
  "MapBackingMemoryToBase base region_size memory sz state vm =
     (case find (\<lambda>v. vma_type v = VMA_Free
           \<and> (let vma_end = add32 (vma_base v) (vma_size v)
              in vma_end > base \<and> vma_end \<ge> add32 base sz)) (vma_map vm) of
        None \<Rightarrow> None
      | Some v \<Rightarrow>
          let target = max base (vma_base v)
          in if add32 target sz > add32 base region_size then Some (ResultErr ERR_OUT_OF_MEMORY, vm)
          else do {
            (r, vm) \<leftarrow> MapBackingMemory target memory sz state vm;
            Some (if Failed r then ResultErr (Code r) else MakeResult target, vm) })"

definition Unmap :: "nat \<Rightarrow> VMManager \<Rightarrow> (nat \<times> VMManager) run" where
  "Unmap vma_handle vm =
     set_area vma_handle (\<lambda>v. v\<lparr>vma_type := VMA_Free, permissions := Perm_None, meminfo_state := MS_Free,
       backing_memory := MemoryRef_null, paddr := 0\<rparr>) vm"

definition Reprotect :: "nat \<Rightarrow> VMAPermission \<Rightarrow> VMManager \<Rightarrow> (nat \<times> VMManager) run" where
  "Reprotect vma_handle new_perms vm = set_area vma_handle (\<lambda>v. v\<lparr>permissions := new_perms\<rparr>) vm"

text \<open>
  The loop of \<open>UnmapRange\<close>, \<open>ReprotectRange\<close> and \<open>ChangeMemoryState\<close>: \<open>step\<close> changes one area and
  returns the merged one, the iterator moves to the area after it.
\<close>

partial_function (option) range_loop ::
    "(nat \<Rightarrow> VMManager \<Rightarrow> (nat \<times> VMManager) run) \<Rightarrow> nat \<Rightarrow> nat option \<Rightarrow> VMManager \<Rightarrow> VMManager run" where
  "range_loop step target_end it vm =
     (case it of
        None \<Rightarrow> Some vm
      | Some k \<Rightarrow>
          if k < target_end
          then (case step k vm of
                  None \<Rightarrow> None
                | Some (h, vm') \<Rightarrow> range_loop step target_end (map_next (vma_map vm') h) vm')
          else Some vm)"

definition UnmapRange :: "nat \<Rightarrow> nat \<Rightarrow> VMManager \<Rightarrow> (ResultCode \<times> VMManager) run" where
  "UnmapRange target sz vm = do {
     (r, vm) \<leftarrow> CarveVMARange target sz vm;
     (if Failed r then Some (Code r, vm)
      else do {
        k \<leftarrow> rv_object r;
        let target_end = add32 target sz;
        vm \<leftarrow> range_loop Unmap target_end (Some k) vm;
        it \<leftarrow> FindVMA vm target;
        h \<leftarrow> it;
        v \<leftarrow> map_at (vma_map vm) h;
        ASSERT (vma_size v \<ge> sz);
        Some (RESULT_SUCCESS, vm) })
   }"

definition ReprotectRange ::
    "nat \<Rightarrow> nat \<Rightarrow> VMAPermission \<Rightarrow> VMManager \<Rightarrow> (ResultCode \<times> VMManager) run" where
  "ReprotectRange target sz new_perms vm = do {
     (r, vm) \<leftarrow> CarveVMARange target sz vm;
     (if Failed r then Some (Code r, vm)
      else do {
        k \<leftarrow> rv_object r;
        let target_end = add32 target sz;
        vm \<leftarrow> range_loop (\<lambda>k. Reprotect k new_perms) target_end (Some k) vm;
        Some (RESULT_SUCCESS, vm) })
   }"

definition ChangeMemoryState ::
    "nat \<Rightarrow> nat \<Rightarrow> MemoryState \<Rightarrow> VMAPermission \<Rightarrow> MemoryState \<Rightarrow> VMAPermission \<Rightarrow> VMManager
       \<Rightarrow> (ResultCode \<times> VMManager) run" where
  "ChangeMemoryState target sz expected_state expected_perms new_state new_perms vm = do {
     let target_end = add32 target sz;
     begin_vma \<leftarrow> FindVMA vm target;
     let i_end = lower_bound (vma_map vm) target_end;
     (case begin_vma of
        None \<Rightarrow> Some (ERR_INVALID_ADDRESS, vm)
      | Some b \<Rightarrow> do {
          vmas \<leftarrow> map_range (vma_map vm) b i_end;
          (if list_ex (\<lambda>v. meminfo_state v \<noteq> expected_state
                \<or> permissions v AND expected_perms \<noteq> expected_perms) vmas
           then Some (ERR_INVALID_ADDRESS_STATE, vm)
           else do {
             (r, vm) \<leftarrow> CarveVMARange target sz vm;
             (if Failed r then Some (Code r, vm)
              else do {
                k \<leftarrow> rv_object r;
                vm \<leftarrow> range_loop (\<lambda>k. set_area k (\<lambda>v. v\<lparr>permissions := new_perms, meminfo_state := new_state\<rparr>))
                         target_end (Some k) vm;
                Some (RESULT_SUCCESS, vm) }) }) })
   }"

partial_function (option) backing_blocks_loop ::
    "VMManager \<Rightarrow> nat \<Rightarrow> nat \<Rightarrow> (MemoryRef \<times> nat) list \<Rightarrow> (MemoryRef \<times> nat) list ResultVal run" where
  "backing_blocks_loop vm range_end interval_target acc =
     (if interval_target = range_end then Some (MakeResult acc)
      else (case FindVMA vm interval_target \<bind> (\<lambda>it. it \<bind> map_at (vma_map vm)) of
              None \<Rightarrow> None
            | Some vma \<Rightarrow>
                if vma_type vma \<noteq> VMA_BackingMemory then Some (ResultErr ERR_INVALID_ADDRESS_STATE)
                else
                  let interval_end = min range_end (add32 (vma_base vma) (vma_size vma));
                      interval_size = sub32 interval_end interval_target
                  in (case MemoryRef_add (backing_memory vma) (sub32 interval_target (vma_base vma)) of
                        None \<Rightarrow> None
                      | Some r \<Rightarrow> backing_blocks_loop vm range_end (add32 interval_target interval_size)
                                    (acc @ [(r, interval_size)]))))"

definition GetBackingBlocksForRange ::
    "nat \<Rightarrow> nat \<Rightarrow> VMManager \<Rightarrow> (MemoryRef \<times> nat) list ResultVal run" where
  "GetBackingBlocksForRange address sz vm = backing_blocks_loop vm (add32 address sz) address []"


section \<open>The areas tile the address space\<close>

fun tiles :: "nat \<Rightarrow> VirtualMemoryArea list \<Rightarrow> nat \<Rightarrow> bool" where
  "tiles a [] e \<longleftrightarrow> a = e"
| "tiles a (v # vs) e \<longleftrightarrow> vma_base v = a \<and> 0 < vma_size v \<and> tiles (a + vma_size v) vs e"

text \<open>The test of \<open>CanBeMergedWith\<close> past its assertion.\<close>

definition mergeable :: "VirtualMemoryArea \<Rightarrow> VirtualMemoryArea \<Rightarrow> bool" where
  "mergeable v w \<longleftrightarrow> permissions v = permissions w \<and> meminfo_state v = meminfo_state w
     \<and> vma_type v = vma_type w
     \<and> (vma_type v = VMA_BackingMemory \<longrightarrow> GetPtr (backing_memory v) + vma_size v = GetPtr (backing_memory w))
     \<and> (vma_type v = VMA_MMIO \<longrightarrow> add32 (paddr v) (vma_size v) = paddr w)"

fun canonical :: "VirtualMemoryArea list \<Rightarrow> bool" where
  "canonical [] \<longleftrightarrow> True"
| "canonical [v] \<longleftrightarrow> True"
| "canonical (v # w # vs) \<longleftrightarrow> \<not> mergeable v w \<and> canonical (w # vs)"

text \<open>Free areas carry the permissions and state \<open>Unmap\<close> gives them.\<close>

definition free_plain :: "VirtualMemoryArea \<Rightarrow> bool" where
  "free_plain v \<longleftrightarrow> (vma_type v = VMA_Free \<longrightarrow> permissions v = Perm_None \<and> meminfo_state v = MS_Free)"

text \<open>Areas consist of whole pages.\<close>

definition aligned :: "VirtualMemoryArea \<Rightarrow> bool" where
  "aligned v \<longleftrightarrow> vma_base v mod PAGE_SIZE = 0 \<and> vma_size v mod PAGE_SIZE = 0"

definition area_wf :: "VirtualMemoryArea \<Rightarrow> bool" where
  "area_wf v \<longleftrightarrow> free_plain v \<and> aligned v"

definition vm_inv :: "VMManager \<Rightarrow> bool" where
  "vm_inv vm \<longleftrightarrow> tiles 0 (vma_map vm) MAX_ADDRESS \<and> canonical (vma_map vm)
     \<and> (\<forall>v \<in> set (vma_map vm). area_wf v)"

text \<open>What the map says of one address: type, permissions, state, backing host address, physical address.\<close>

definition attr :: "VirtualMemoryArea \<Rightarrow> nat \<Rightarrow> VMAType \<times> VMAPermission \<times> MemoryState \<times> nat \<times> nat" where
  "attr v a = (vma_type v, permissions v, meminfo_state v,
     (if vma_type v = VMA_BackingMemory then GetPtr (backing_memory v) + (a - vma_base v) else 0),
     (if vma_type v = VMA_MMIO then add32 (paddr v) (a - vma_base v) else 0))"

definition covers :: "VirtualMemoryArea \<Rightarrow> nat \<Rightarrow> bool" where
  "covers v a \<longleftrightarrow> vma_base v \<le> a \<and> a < vma_base v + vma_size v"

definition attr_at :: "VirtualMemoryArea list \<Rightarrow> nat \<Rightarrow> (VMAType \<times> VMAPermission \<times> MemoryState \<times> nat \<times> nat) option" where
  "attr_at m a = map_option (\<lambda>v. attr v a) (find (\<lambda>v. covers v a) m)"

lemma tiles_append: "tiles a (xs @ ys) e \<longleftrightarrow> (\<exists>b. tiles a xs b \<and> tiles b ys e)"
  by (induction xs arbitrary: a) auto

lemma tiles_le: "tiles a xs b \<Longrightarrow> a \<le> b"
  by (induction xs arbitrary: a) (auto dest: add_leD1)

lemma tiles_bounds: "tiles a xs b \<Longrightarrow> v \<in> set xs \<Longrightarrow> a \<le> vma_base v \<and> 0 < vma_size v \<and> vma_base v + vma_size v \<le> b"
proof (induction xs arbitrary: a)
  case (Cons w xs)
  then show ?case using tiles_le [of "a + vma_size w" xs b] by (cases "v = w") fastforce+
qed simp

lemma tiles_cover: "tiles a xs b \<Longrightarrow> a \<le> t \<Longrightarrow> t < b \<Longrightarrow> \<exists>ys v zs. xs = ys @ v # zs \<and> covers v t"
proof (induction xs arbitrary: a)
  case (Cons w xs)
  show ?case
  proof (cases "t < a + vma_size w")
    case True
    with Cons.prems show ?thesis by (intro exI [of _ "[]"]) (auto simp: covers_def)
  next
    case False
    with Cons obtain ys v zs where "xs = ys @ v # zs" "covers v t" by fastforce
    then show ?thesis by (metis append_Cons)
  qed
qed simp

lemma find_append_case: "find P (xs @ ys) = (case find P xs of None \<Rightarrow> find P ys | Some x \<Rightarrow> Some x)"
  by (induction xs) auto

lemma attr_at_append: "attr_at (xs @ ys) a = (case attr_at xs a of None \<Rightarrow> attr_at ys a | Some x \<Rightarrow> Some x)"
  by (simp add: attr_at_def find_append_case split: option.splits)

lemma attr_at_Cons: "attr_at (v # vs) a = (if covers v a then Some (attr v a) else attr_at vs a)"
  by (simp add: attr_at_def)

lemma attr_at_Nil [simp]: "attr_at [] a = None"
  by (simp add: attr_at_def)

lemma attr_at_outside: "tiles b xs e \<Longrightarrow> \<not> (b \<le> a \<and> a < e) \<Longrightarrow> attr_at xs a = None"
  unfolding attr_at_def by (auto simp: find_None_iff covers_def dest!: tiles_bounds)

lemma attr_at_middle:
  assumes "tiles s (xs @ v # ys) e"
  shows "attr_at (xs @ v # ys) a = (if covers v a then Some (attr v a) else attr_at (xs @ ys) a)"
proof -
  from assms obtain b where "tiles s xs b" "vma_base v = b" by (auto simp: tiles_append)
  then have "covers v a \<Longrightarrow> attr_at xs a = None" by (auto simp: covers_def intro: attr_at_outside)
  then show ?thesis by (auto simp: attr_at_append attr_at_Cons split: option.splits)
qed

section \<open>Map operations at a known position\<close>

locale area_split =
  fixes s e :: nat and xs ys :: "VirtualMemoryArea list" and v :: VirtualMemoryArea
  assumes tiling: "tiles s (xs @ v # ys) e" and bounded: "e \<le> MAX_ADDRESS"
begin

lemma parts: "tiles s xs (vma_base v)" "0 < vma_size v" "tiles (vma_base v + vma_size v) ys e"
  using tiling by (auto simp: tiles_append)

lemma left: "w \<in> set xs \<Longrightarrow> vma_base w < vma_base v"
  using tiles_bounds [OF parts(1)] by fastforce

lemma right: "w \<in> set ys \<Longrightarrow> vma_base v < vma_base w"
  using tiles_bounds [OF parts(3)] parts(2) by fastforce

lemma others: "w \<in> set xs \<Longrightarrow> vma_base w \<noteq> vma_base v" "w \<in> set ys \<Longrightarrow> vma_base w \<noteq> vma_base v"
  using left right by force+

lemma at: "map_at (xs @ v # ys) (vma_base v) = Some v"
proof -
  have "find (\<lambda>w. vma_base w = vma_base v) xs = None" using others by (auto simp: find_None_iff)
  then show ?thesis by (simp add: map_at_def find_append_case)
qed

lemma nxt: "map_next (xs @ v # ys) (vma_base v) = (case ys of [] \<Rightarrow> None | w # _ \<Rightarrow> Some (vma_base w))"
proof -
  have "find (\<lambda>w. vma_base v < vma_base w) xs = None" using left by (auto simp: find_None_iff not_less less_imp_le)
  then show ?thesis using right by (cases ys) (simp_all add: map_next_def find_append_case)
qed

lemma prv: "map_prev (xs @ v # ys) (vma_base v) = (if xs = [] then None else Some (vma_base (last xs)))"
proof -
  have "find (\<lambda>w. vma_base w < vma_base v) (rev ys) = None" using right by (auto simp: find_None_iff not_less less_imp_le)
  then show ?thesis
    using left by (cases xs rule: rev_cases) (simp_all add: map_prev_def find_append_case)
qed

lemma upd: "map_upd (vma_base v) f (xs @ v # ys) = xs @ f v # ys"
proof -
  have "map (\<lambda>w. if vma_base w = vma_base v then f w else w) xs = xs"
    "map (\<lambda>w. if vma_base w = vma_base v then f w else w) ys = ys"
    using others by (auto intro!: map_idI)
  then show ?thesis by (simp add: map_upd_def)
qed

lemma erase: "map_erase (vma_base v) (xs @ v # ys) = xs @ ys"
  using others by (simp add: map_erase_def filter_id_conv)

lemma ends: "vma_base v + vma_size v \<le> e" "add32 (vma_base v) (vma_size v) = vma_base v + vma_size v"
  "vma_base v < 2 ^ 32" "vma_size v < 2 ^ 32" "vma_base v + vma_size v < 2 ^ 32"
  using tiles_bounds [OF tiling, of v] bounded by (simp_all add: MAX_ADDRESS_def add32_def)

lemma found:
  assumes "vma_map vm = xs @ v # ys" "covers v t"
  shows "FindVMA vm t = Some (Some (vma_base v))"
proof -
  have "find (\<lambda>w. vma_base w \<le> t) (rev ys) = None"
    using assms(2) tiles_bounds [OF parts(3)] by (fastforce simp: find_None_iff covers_def)
  moreover have "t < MAX_ADDRESS" using assms(2) ends(1) bounded by (simp add: covers_def)
  ultimately show ?thesis
    using assms by (simp add: FindVMA_def find_append_case covers_def)
qed

lemma replace: "tiles (vma_base v) vs (vma_base v + vma_size v) \<Longrightarrow> tiles s (xs @ vs @ ys) e"
  using parts by (auto simp: tiles_append)

end


section \<open>Merging\<close>

lemma CanBeMergedWith_eq:
  "vma_base v + vma_size v = vma_base w \<Longrightarrow> vma_base w < 2 ^ 32 \<Longrightarrow> CanBeMergedWith v w = Some (mergeable v w)"
  by (auto simp: CanBeMergedWith_def mergeable_def add32_def)

definition grow :: "VirtualMemoryArea \<Rightarrow> VirtualMemoryArea \<Rightarrow> VirtualMemoryArea" where
  "grow v w = v\<lparr>vma_size := vma_size v + vma_size w\<rparr>"

lemma grow_simps [simp]:
  "vma_base (grow v w) = vma_base v" "vma_size (grow v w) = vma_size v + vma_size w"
  "vma_type (grow v w) = vma_type v" "permissions (grow v w) = permissions v"
  "meminfo_state (grow v w) = meminfo_state v" "free_plain (grow v w) = free_plain v"
  by (simp_all add: grow_def free_plain_def)

lemma attr_grow: "attr (grow v w) a = attr v a"
  by (simp add: grow_def attr_def)

text \<open>Merging changes no address's attributes, and the merged area meets the next one as before.\<close>

lemma add32_assoc_add: "add32 (add32 a b) c = add32 a (b + c)"
  by (simp add: add32_def mod_add_left_eq add.assoc)

lemma attr_merge:
  assumes "mergeable v w" "vma_base w = vma_base v + vma_size v" "vma_base w \<le> a"
  shows "attr w a = attr v a"
proof -
  have "a - vma_base v = vma_size v + (a - vma_base w)" using assms(2,3) by simp
  with assms(1) show ?thesis
    by (auto simp: mergeable_def attr_def add32_assoc_add [symmetric])
qed

lemma attr_at_merge:
  assumes "mergeable v w" "vma_base w = vma_base v + vma_size v"
  shows "attr_at [grow v w] = attr_at [v, w]"
proof
  fix a show "attr_at [grow v w] a = attr_at [v, w] a"
    using assms attr_merge [OF assms, of a] by (auto simp: attr_at_Cons covers_def attr_grow)
qed

lemma mergeable_grow_right: "mergeable v w \<Longrightarrow> mergeable (grow v w) x = mergeable w x"
  by (auto simp: mergeable_def grow_def add32_assoc_add [symmetric])

lemma mergeable_grow_left [simp]: "mergeable x (grow v w) = mergeable x v"
  by (simp add: mergeable_def grow_def)

lemma canonical_append:
  "canonical (xs @ ys) \<longleftrightarrow> canonical xs \<and> canonical ys
     \<and> (xs \<noteq> [] \<longrightarrow> ys \<noteq> [] \<longrightarrow> \<not> mergeable (last xs) (hd ys))"
proof (induction xs rule: canonical.induct)
  case (2 v)
  then show ?case by (cases ys) auto
qed auto

definition merge_right :: "VirtualMemoryArea \<Rightarrow> VirtualMemoryArea list \<Rightarrow> VirtualMemoryArea \<times> VirtualMemoryArea list" where
  "merge_right v ys = (case ys of [] \<Rightarrow> (v, []) | w # ws \<Rightarrow> if mergeable v w then (grow v w, ws) else (v, ys))"

definition merge_left :: "VirtualMemoryArea list \<Rightarrow> VirtualMemoryArea \<Rightarrow> VirtualMemoryArea list \<times> VirtualMemoryArea" where
  "merge_left xs v =
     (if xs \<noteq> [] \<and> mergeable (last xs) v then (butlast xs, grow (last xs) v) else (xs, v))"

lemma tiles_MAX: "tiles s xs e \<Longrightarrow> e \<le> MAX_ADDRESS \<Longrightarrow> w \<in> set xs \<Longrightarrow> vma_base w < 2 ^ 32 \<and> vma_base w + vma_size w < 2 ^ 32"
  by (drule (1) tiles_bounds) (simp add: MAX_ADDRESS_def)


lemma area_split_next: "area_split s e xs (w # ws) v \<Longrightarrow> area_split s e (xs @ [v]) ws w"
  by (simp add: area_split_def)

lemma area_split_prev: "area_split s e (xs @ [p]) ys v \<Longrightarrow> area_split s e xs (v # ys) p"
  by (simp add: area_split_def)

lemma area_split_grow: "area_split s e xs (w # ws) v \<Longrightarrow> area_split s e xs ws (grow v w)"
  by (auto simp: area_split_def tiles_append add.assoc)

lemma area_split_upd:
  "area_split s e xs ys v \<Longrightarrow> vma_base v' = vma_base v \<Longrightarrow> vma_size v' = vma_size v \<Longrightarrow> area_split s e xs ys v'"
  by (simp add: area_split_def tiles_append)

lemma neighbours:
  assumes v: "area_split s e xs (w # ws) v"
  shows "vma_base w = vma_base v + vma_size v" "CanBeMergedWith v w = Some (mergeable v w)"
    "add32 (vma_size v) (vma_size w) = vma_size v + vma_size w"
    "map_at (xs @ v # w # ws) (vma_base w) = Some w"
    "\<And>v'. vma_base v' = vma_base v \<Longrightarrow> map_erase (vma_base w) (xs @ v' # w # ws) = xs @ v' # ws"
proof -
  note w = area_split_next [OF v]
  show b: "vma_base w = vma_base v + vma_size v" using area_split.parts(3) [OF v] by simp
  then show "CanBeMergedWith v w = Some (mergeable v w)"
    using area_split.ends [OF w] by (simp add: CanBeMergedWith_eq)
  show "add32 (vma_size v) (vma_size w) = vma_size v + vma_size w"
    using area_split.ends [OF w] b by (simp add: add32_def)
  show "map_at (xs @ v # w # ws) (vma_base w) = Some w" using area_split.at [OF w] by simp
  show "map_erase (vma_base w) (xs @ v' # w # ws) = xs @ v' # ws" if "vma_base v' = vma_base v" for v'
    using area_split.others [OF w] that by (auto simp: map_erase_def filter_id_conv)
qed

text \<open>\<open>MergeAdjacent\<close> merges with the area on the right, then with the one on the left.\<close>

definition merged :: "VirtualMemoryArea list \<Rightarrow> VirtualMemoryArea \<Rightarrow> VirtualMemoryArea list
    \<Rightarrow> VirtualMemoryArea \<times> VirtualMemoryArea list \<times> VirtualMemoryArea list" where
  "merged xs v ys = (let (v1, ys1) = merge_right v ys; (xs1, v2) = merge_left xs v1 in (v2, xs1, ys1))"

lemma merge_right_step:
  assumes "area_split s e xs ys v"
  shows "(case map_next (xs @ v # ys) (vma_base v) of
         None \<Rightarrow> Some (xs @ v # ys)
       | Some nk \<Rightarrow> do {
           nv \<leftarrow> map_at (xs @ v # ys) nk;
           ok \<leftarrow> CanBeMergedWith v nv;
           Some (if ok then map_erase nk (map_upd (vma_base v)
                       (\<lambda>v. v\<lparr>vma_size := add32 (vma_size v) (vma_size nv)\<rparr>) (xs @ v # ys))
                 else xs @ v # ys) }) = Some (xs @ fst (merge_right v ys) # snd (merge_right v ys))"
proof (cases ys)
  case (Cons w ws)
  note v = assms [unfolded Cons]
  show ?thesis unfolding Cons
    using area_split.upd [OF v] neighbours [OF v] area_split.nxt [OF v]
    by (simp add: merge_right_def grow_def)
qed (use area_split.nxt [OF assms] in \<open>simp add: merge_right_def\<close>)

lemma area_split_merge_right:
  "area_split s e xs ys v \<Longrightarrow> area_split s e xs (snd (merge_right v ys)) (fst (merge_right v ys))"
  by (cases ys) (auto simp: merge_right_def area_split_grow)

lemma merge_left_step:
  assumes "area_split s e xs ys v"
  shows "(case map_prev (xs @ v # ys) (vma_base v) of
        None \<Rightarrow> Some (vma_base v, vm\<lparr>vma_map := xs @ v # ys\<rparr>)
      | Some pk \<Rightarrow> do {
          pv \<leftarrow> map_at (xs @ v # ys) pk;
          v' \<leftarrow> map_at (xs @ v # ys) (vma_base v);
          ok \<leftarrow> CanBeMergedWith pv v';
          Some (if ok then (pk, vm\<lparr>vma_map := map_erase (vma_base v)
                 (map_upd pk (\<lambda>w. w\<lparr>vma_size := add32 (vma_size w) (vma_size v')\<rparr>) (xs @ v # ys))\<rparr>)
                else (vma_base v, vm\<lparr>vma_map := xs @ v # ys\<rparr>)) })
    = Some (vma_base (snd (merge_left xs v)), vm\<lparr>vma_map := fst (merge_left xs v) @ snd (merge_left xs v) # ys\<rparr>)"
proof (cases xs rule: rev_cases)
  case (snoc ps p)
  then have p: "area_split s e ps (v # ys) p" using assms by (simp add: area_split_prev)
  show ?thesis
    using area_split.prv [OF assms] area_split.at [OF assms] area_split.at [OF p] area_split.upd [OF p] neighbours [OF p] snoc
    by (simp add: merge_left_def grow_def)
qed (use area_split.prv [OF assms] in \<open>simp add: merge_left_def\<close>)

lemma MergeAdjacent_eq:
  assumes "area_split s e xs ys v" "vma_map vm = xs @ v # ys" "merged xs v ys = (v', xs', ys')"
  shows "MergeAdjacent (vma_base v) vm = Some (vma_base v', vm\<lparr>vma_map := xs' @ v' # ys'\<rparr>)"
proof -
  have b: "vma_base (fst (merge_right v ys)) = vma_base v"
    by (cases ys) (simp_all add: merge_right_def)
  have "v' = snd (merge_left xs (fst (merge_right v ys)))" "xs' = fst (merge_left xs (fst (merge_right v ys)))"
    "ys' = snd (merge_right v ys)"
    using assms(3) by (simp_all add: merged_def Let_def split: prod.splits)
  then show ?thesis
    using merge_left_step [OF area_split_merge_right [OF assms(1)], of vm]
    unfolding b MergeAdjacent_def assms(2) area_split.at [OF assms(1)] Option.bind.bind_lunit
      merge_right_step [OF assms(1)] by (simp only:)
qed


text \<open>What merging keeps: the tiling, the attributes of every address and the list of plain free areas;
  around an otherwise canonical list it restores canonicity.\<close>

lemma area_split_merged:
  assumes "area_split s e xs ys v" "merged xs v ys = (v', xs', ys')"
  shows "area_split s e xs' ys' v'"
proof -
  note r = area_split_merge_right [OF assms(1)]
  show ?thesis
  proof (cases xs rule: rev_cases)
    case (snoc ps p)
    with r have "area_split s e ps (fst (merge_right v ys) # snd (merge_right v ys)) p" by (simp add: area_split_prev)
    from area_split_grow [OF this] r show ?thesis
      using assms(2) snoc by (auto simp: merged_def merge_left_def Let_def split: prod.splits if_splits)
  qed (use r assms(2) in \<open>auto simp: merged_def merge_left_def Let_def split: prod.splits\<close>)
qed

lemma attr_at_cong2: "attr_at [a] = attr_at bs \<Longrightarrow> attr_at (xs @ a # ys) = attr_at (xs @ bs @ ys)"
  by (rule ext) (metis append_Cons append_Nil attr_at_append)

lemma attr_at_merge_right:
  assumes "area_split s e xs ys v"
  shows "attr_at (xs @ fst (merge_right v ys) # snd (merge_right v ys)) = attr_at (xs @ v # ys)"
proof (cases ys)
  case (Cons w ws)
  then show ?thesis
    using neighbours(1) [of s e xs w ws v] assms attr_at_cong2 [OF attr_at_merge, of v w xs ws]
    by (simp add: merge_right_def)
qed (simp add: merge_right_def)

lemma attr_at_merge_left:
  assumes "area_split s e xs ys v"
  shows "attr_at (fst (merge_left xs v) @ snd (merge_left xs v) # ys) = attr_at (xs @ v # ys)"
proof (cases xs rule: rev_cases)
  case (snoc ps p)
  then have "area_split s e ps (v # ys) p" using assms by (simp add: area_split_prev)
  then show ?thesis
    using neighbours(1) [of s e ps v ys p] attr_at_cong2 [OF attr_at_merge, of p v ps ys] snoc
    by (simp add: merge_left_def)
qed (simp add: merge_left_def)

lemma attr_at_merged:
  assumes "area_split s e xs ys v" "merged xs v ys = (v', xs', ys')"
  shows "attr_at (xs' @ v' # ys') = attr_at (xs @ v # ys)"
  using attr_at_merge_right [OF assms(1)] attr_at_merge_left [OF area_split_merge_right [OF assms(1)]] assms(2)
  by (simp add: merged_def Let_def split: prod.splits)

lemma merged_keeps:
  "merged xs v ys = (v', xs', ys') \<Longrightarrow> \<forall>a b. P a \<longrightarrow> P b \<longrightarrow> mergeable a b \<longrightarrow> vma_type a = vma_type v \<longrightarrow> P (grow a b)
     \<Longrightarrow> \<forall>w \<in> set (xs @ v # ys). P w \<Longrightarrow> \<forall>w \<in> set (xs' @ v' # ys'). P w"
  by (cases xs rule: rev_cases; cases ys)
     (auto simp: merged_def merge_right_def merge_left_def Let_def mergeable_def split: if_splits)

lemma area_wf_grow: "area_wf a \<Longrightarrow> area_wf b \<Longrightarrow> area_wf (grow a b)"
  using mod_add_eq [of "vma_size a" PAGE_SIZE "vma_size b"] by (simp add: area_wf_def aligned_def)

lemma canonical_Cons: "canonical (v # ys) \<longleftrightarrow> canonical ys \<and> (ys \<noteq> [] \<longrightarrow> \<not> mergeable v (hd ys))"
  by (cases ys) auto

lemma canonical_merged:
  assumes "canonical xs" "canonical ys" "merged xs v ys = (v', xs', ys')"
  shows "canonical (xs' @ v' # ys')"
  using assms
  by (cases xs rule: rev_cases; cases ys)
     (auto simp: merged_def merge_right_def merge_left_def Let_def canonical_append canonical_Cons mergeable_grow_right
       split: if_splits)

section \<open>Splitting\<close>

definition split_left :: "nat \<Rightarrow> VirtualMemoryArea \<Rightarrow> VirtualMemoryArea" where
  "split_left n v = v\<lparr>vma_size := n\<rparr>"

definition split_right :: "nat \<Rightarrow> VirtualMemoryArea \<Rightarrow> VirtualMemoryArea" where
  "split_right n v = v\<lparr>vma_base := vma_base v + n, vma_size := vma_size v - n,
     backing_memory := (if vma_type v = VMA_BackingMemory
       then (backing_memory v)\<lparr>mr_offset := mr_offset (backing_memory v) + n\<rparr> else backing_memory v),
     paddr := (if vma_type v = VMA_MMIO then add32 (paddr v) n else paddr v)\<rparr>"

lemma split_simps [simp]:
  "vma_base (split_left n v) = vma_base v" "vma_size (split_left n v) = n" "vma_type (split_left n v) = vma_type v"
  "vma_base (split_right n v) = vma_base v + n" "vma_size (split_right n v) = vma_size v - n"
  "vma_type (split_right n v) = vma_type v" "free_plain (split_left n v) = free_plain v"
  "free_plain (split_right n v) = free_plain v"
  by (simp_all add: split_left_def split_right_def free_plain_def)

lemma mergeable_split:
  "(vma_type v = VMA_BackingMemory \<Longrightarrow> n < GetSize (backing_memory v)) \<Longrightarrow> mergeable (split_left n v) (split_right n v)"
  by (auto simp: mergeable_def split_left_def split_right_def GetPtr_def GetSize_def split: option.splits)

lemma split_emplace:
  assumes "area_split s e xs ys v" "vma_base l = vma_base v" "vma_base v < vma_base r" "vma_base r < vma_base v + vma_size v"
  shows "map_emplace r (xs @ l # ys) = xs @ l # r # ys"
proof -
  have xs: "\<forall>w \<in> set xs. vma_base w < vma_base r" using area_split.left [OF assms(1)] assms(3) by fastforce
  have ys: "\<forall>w \<in> set ys. vma_base r < vma_base w"
    using tiles_bounds [OF area_split.parts(3) [OF assms(1)]] assms(4) by fastforce
  have "map_at (xs @ l # ys) (vma_base r) = None"
    using xs ys assms by (fastforce simp: map_at_def find_None_iff)
  moreover have "takeWhile (\<lambda>w. vma_base w < vma_base r) ys = []" "dropWhile (\<lambda>w. vma_base w < vma_base r) ys = ys"
    using ys by (cases ys; fastforce)+
  ultimately show ?thesis using xs assms by (simp add: map_emplace_def)
qed

lemma SplitVMA_eq:
  assumes "area_split s e xs ys v" "vma_map vm = xs @ v # ys" "0 < n" "n < vma_size v"
    and "vma_type v = VMA_BackingMemory \<Longrightarrow> n < GetSize (backing_memory v)"
  shows "SplitVMA (vma_base v) n vm
    = Some (vma_base v + n, vm\<lparr>vma_map := xs @ split_left n v # split_right n v # ys\<rparr>)"
proof -
  have b: "vma_base v + n < 2 ^ 32" "vma_size v < 2 ^ 32" using area_split.ends [OF assms(1)] assms(4) by auto
  have r: "split_right n v = (case vma_type v of
         VMA_Free \<Rightarrow> v\<lparr>vma_base := add32 (vma_base v) n, vma_size := sub32 (vma_size v) n\<rparr>
       | VMA_BackingMemory \<Rightarrow> v\<lparr>vma_base := add32 (vma_base v) n, vma_size := sub32 (vma_size v) n,
           backing_memory := (backing_memory v)\<lparr>mr_offset := mr_offset (backing_memory v) + n\<rparr>\<rparr>
       | VMA_MMIO \<Rightarrow> v\<lparr>vma_base := add32 (vma_base v) n, vma_size := sub32 (vma_size v) n, paddr := add32 (paddr v) n\<rparr>)"
    using b assms(4) by (cases "vma_type v") (simp_all add: split_right_def add32_small sub32_small)
  have c: "CanBeMergedWith (split_left n v) (split_right n v) = Some True"
    using b mergeable_split [of v n] assms(5) by (subst CanBeMergedWith_eq) auto
  have m: "map_emplace (split_right n v) (xs @ split_left n v # ys) = xs @ split_left n v # split_right n v # ys"
    using assms by (intro split_emplace [OF assms(1)]) auto
  have rb: "vma_base (split_right n v) = vma_base v + n" by simp
  show ?thesis
    using assms(3-5) c m rb unfolding r
    by (cases "vma_type v")
       (simp_all add: SplitVMA_def assms(2) area_split.at [OF assms(1)] area_split.upd [OF assms(1)] MemoryRef_add_def
         split_left_def Let_def)
qed

lemma area_split_left: "area_split s e xs ys v \<Longrightarrow> 0 < n \<Longrightarrow> n < vma_size v
    \<Longrightarrow> area_split s e xs (split_right n v # ys) (split_left n v)"
  by (auto simp: area_split_def tiles_append)

lemma attr_at_split:
  assumes "n \<le> vma_size v" "vma_type v = VMA_BackingMemory \<Longrightarrow> n < GetSize (backing_memory v)"
  shows "attr_at [split_left n v, split_right n v] = attr_at [v]"
proof -
  have "attr_at [grow (split_left n v) (split_right n v)] = attr_at [split_left n v, split_right n v]"
    using mergeable_split [of v n] assms(2) by (intro attr_at_merge) auto
  moreover have "grow (split_left n v) (split_right n v) = v"
    using assms(1) by (simp add: grow_def split_left_def)
  ultimately show ?thesis by simp
qed


section \<open>Carving a piece out of a free area\<close>

lemma mergeable_split_right:
  assumes "n \<le> vma_size v" "vma_type v = VMA_BackingMemory \<Longrightarrow> n < GetSize (backing_memory v)"
  shows "mergeable (split_right n v) x = mergeable v x"
proof -
  have "grow (split_left n v) (split_right n v) = v" using assms(1) by (simp add: grow_def split_left_def)
  with mergeable_grow_right [OF mergeable_split [of v n], of x] assms(2) show ?thesis by simp
qed

lemma mergeable_split_left [simp]: "mergeable x (split_left n v) = mergeable x v"
  by (simp add: mergeable_def split_left_def)

lemma attr_at_splitI:
  assumes "n \<le> vma_size v" "vma_type v = VMA_BackingMemory \<Longrightarrow> n < GetSize (backing_memory v)"
  shows "attr_at (xs @ split_left n v # split_right n v # ys) = attr_at (xs @ v # ys)"
  using attr_at_cong2 [of v "[split_left n v, split_right n v]" xs ys] attr_at_split [OF assms] by simp

text \<open>The piece of \<open>v\<close> from \<open>n\<close> up to \<open>k\<close>, with what is left of \<open>v\<close> on both sides.\<close>

definition cut_left :: "nat \<Rightarrow> VirtualMemoryArea \<Rightarrow> VirtualMemoryArea list" where
  "cut_left n v = (if n = 0 then [] else [split_left n v])"

definition cut_right :: "nat \<Rightarrow> VirtualMemoryArea \<Rightarrow> VirtualMemoryArea list" where
  "cut_right k v = (if k = vma_size v then [] else [split_right k v])"

definition cut_mid :: "nat \<Rightarrow> nat \<Rightarrow> VirtualMemoryArea \<Rightarrow> VirtualMemoryArea" where
  "cut_mid n k v = (let w = (if k = vma_size v then v else split_left k v) in if n = 0 then w else split_right n w)"

lemma cut_mid_simps:
  "vma_base (cut_mid n k v) = vma_base v + n" "vma_size (cut_mid n k v) = k - n" "vma_type (cut_mid n k v) = vma_type v"
  by (simp_all add: cut_mid_def Let_def)

lemma CarveVMA_split:
  assumes v: "area_split s e xs ys v" and vm: "vma_map vm = xs @ v # ys" and free: "vma_type v = VMA_Free"
    and base: "covers v base" and fits: "base + sz \<le> vma_base v + vma_size v" "0 < sz"
    and pages: "base mod PAGE_SIZE = 0" "sz mod PAGE_SIZE = 0"
    and o: "n = base - vma_base v" and k: "k = n + sz"
  shows "CarveVMA base sz vm = Some (MakeResult base,
    vm\<lparr>vma_map := (xs @ cut_left n v) @ cut_mid n k v # (cut_right k v @ ys)\<rparr>)"
proof -
  note ends = area_split.ends [OF v]
  have n: "n < vma_size v" "vma_base v + n = base" using base o by (auto simp: covers_def)
  have k': "k \<le> vma_size v" "n < k" using k n fits by auto
  have start: "sub32 base (vma_base v) = n" using base ends o by (simp add: sub32_small covers_def)
  have stop: "add32 n sz = k" using k k' ends by (simp add: add32_small)
  define w where "w = (if k = vma_size v then v else split_left k v)"
  define vm1 where "vm1 = vm\<lparr>vma_map := xs @ w # cut_right k v @ ys\<rparr>"
  have w: "area_split s e xs (cut_right k v @ ys) w" "vma_base w = vma_base v" "vma_type w = VMA_Free" "vma_size w = k"
    using v k' free by (auto simp: w_def cut_right_def area_split_left)
  have one: "(if k \<noteq> vma_size v then map_option snd (SplitVMA (vma_base v) k vm) else Some vm) = Some vm1"
    using SplitVMA_eq [OF v vm, of k] k' free vm by (auto simp: vm1_def w_def cut_right_def)
  have two: "(if n \<noteq> 0 then SplitVMA (vma_base v) n vm1 else Some (vma_base v, vm1))
      = Some (base, vm\<lparr>vma_map := (xs @ cut_left n v) @ cut_mid n k v # (cut_right k v @ ys)\<rparr>)"
    using SplitVMA_eq [OF w(1), of vm1 n] w k' n
    by (auto simp: vm1_def w_def cut_left_def cut_mid_def Let_def split_left_def)
  show ?thesis
    using one two k' pages
    by (simp add: CarveVMA_def area_split.found [OF v vm base] vm area_split.at [OF v] free start stop
      del: if_not_P if_P)
qed


lemma area_split_cut:
  assumes "area_split s e xs ys v" "n < k" "k \<le> vma_size v"
  shows "area_split s e (xs @ cut_left n v) (cut_right k v @ ys) (cut_mid n k v)"
  using assms by (auto simp: area_split_def tiles_append cut_left_def cut_right_def cut_mid_def Let_def)

lemma canonical_cut:
  assumes "canonical (xs @ v # ys)" "n < k" "k \<le> vma_size v" "vma_type v = VMA_Free"
  shows "canonical (xs @ cut_left n v)" "canonical (cut_right k v @ ys)"
  using assms mergeable_split_right [of k v]
  by (auto simp: canonical_append canonical_Cons cut_left_def cut_right_def)

lemma attr_at_cut:
  assumes "n < k" "k \<le> vma_size v" "vma_type v = VMA_Free"
  shows "attr_at ((xs @ cut_left n v) @ cut_mid n k v # (cut_right k v @ ys)) = attr_at (xs @ v # ys)"
proof -
  define w where "w = (if k = vma_size v then v else split_left k v)"
  have w: "vma_type w = VMA_Free" "vma_size w = k" using assms by (auto simp: w_def)
  have "attr_at (xs @ cut_left n v @ cut_mid n k v # zs) = attr_at (xs @ w # zs)" for zs
    using attr_at_splitI [of n w xs zs] w assms(1)
    by (auto simp: cut_left_def cut_mid_def Let_def w_def split_left_def)
  moreover have "attr_at (xs @ w # cut_right k v @ ys) = attr_at (xs @ v # ys)"
    using attr_at_splitI [of k v xs ys] assms by (auto simp: cut_right_def w_def)
  ultimately show ?thesis by simp
qed

text \<open>Changing one area and merging it with its neighbours.\<close>

lemma set_area_merged:
  assumes v: "area_split s e xs ys v" "vma_map vm = xs @ v # ys"
    and f: "vma_base (f v) = vma_base v" "vma_size (f v) = vma_size v" and m: "merged xs (f v) ys = (v', xs', ys')"
  shows "set_area (vma_base v) f vm = Some (vma_base v', \<lparr>vma_map = xs' @ v' # ys', page_updates = page_updates vm @ [f v]\<rparr>)"
proof -
  have s: "area_split s e xs ys (f v)" using v(1) f by (rule area_split_upd)
  let ?vm = "UpdatePageTableForVMA (f v) (vm\<lparr>vma_map := xs @ f v # ys\<rparr>)"
  have "MergeAdjacent (vma_base (f v)) ?vm = Some (vma_base v', ?vm\<lparr>vma_map := xs' @ v' # ys'\<rparr>)"
    by (rule MergeAdjacent_eq [OF s _ m]) (simp add: UpdatePageTableForVMA_def)
  then show ?thesis
    using f by (simp add: set_area_def v(2) area_split.at [OF v(1)] area_split.upd [OF v(1)] UpdatePageTableForVMA_def)
qed

lemma set_area_eq:
  assumes v: "area_split s e xs ys v" "vma_map vm = xs @ v # ys"
    and f: "vma_base (f v) = vma_base v" "vma_size (f v) = vma_size v"
  obtains h m where "set_area (vma_base v) f vm = Some (h, \<lparr>vma_map = m, page_updates = page_updates vm @ [f v]\<rparr>)"
    "tiles s m e" "attr_at m = attr_at (xs @ f v # ys)"
    "canonical xs \<longrightarrow> canonical ys \<longrightarrow> canonical m"
    "(\<forall>w \<in> set (xs @ f v # ys). area_wf w) \<longrightarrow> (\<forall>w \<in> set m. area_wf w)"
proof -
  obtain v' xs' ys' where m: "merged xs (f v) ys = (v', xs', ys')" by (cases "merged xs (f v) ys")
  have s: "area_split s e xs ys (f v)" using v(1) f by (rule area_split_upd)
  show thesis
    by (rule that [OF set_area_merged [where f = f, OF v f m] area_split.tiling [OF area_split_merged [OF s m]] attr_at_merged [OF s m]])
       (rule impI, rule impI, erule (1) canonical_merged [OF _ _ m], rule impI, rule merged_keeps [OF m], simp add: area_wf_grow)
qed

text \<open>Under the invariant a run of free addresses lies within one area.\<close>

lemma free_run:
  assumes inv: "tiles s (xs @ v # ys) e" "canonical (xs @ v # ys)" "\<forall>w \<in> set (xs @ v # ys). area_wf w"
    and free: "vma_type v = VMA_Free" "\<And>a. vma_base v \<le> a \<Longrightarrow> b \<le> a \<Longrightarrow> a < t \<Longrightarrow> map_option fst (attr_at (xs @ v # ys) a) = Some VMA_Free"
    and b: "covers v b"
  shows "t \<le> vma_base v + vma_size v"
proof (rule ccontr)
  let ?a = "vma_base v + vma_size v"
  assume "\<not> t \<le> ?a"
  then have f: "map_option fst (attr_at (xs @ v # ys) ?a) = Some VMA_Free" using free(2) [of ?a] b by (simp add: covers_def)
  have "attr_at xs ?a = None" "\<not> covers v ?a"
    using inv(1) by (auto simp: tiles_append covers_def intro!: attr_at_outside)
  with f have r: "map_option fst (attr_at ys ?a) = Some VMA_Free" by (simp add: attr_at_append attr_at_Cons)
  then obtain w ws where ys: "ys = w # ws" by (cases ys) auto
  with inv(1) have "vma_base w = ?a" "0 < vma_size w" by (auto simp: tiles_append)
  with r ys have "vma_type w = VMA_Free" by (simp add: attr_at_Cons covers_def attr_def)
  then have "mergeable v w" using free(1) inv(3) ys by (auto simp: mergeable_def area_wf_def free_plain_def)
  with inv(2) ys show False by (simp add: canonical_append)
qed


definition free_range :: "VMManager \<Rightarrow> nat \<Rightarrow> nat \<Rightarrow> bool" where
  "free_range vm target sz \<longleftrightarrow>
     (\<forall>a \<in> {target..<target + sz}. map_option fst (attr_at (vma_map vm) a) = Some VMA_Free)"

lemma covering_area:
  assumes "vm_inv vm" "t < MAX_ADDRESS"
  obtains xs v ys where "vma_map vm = xs @ v # ys" "area_split 0 MAX_ADDRESS xs ys v" "covers v t"
    "\<forall>a. covers v a \<longrightarrow> attr_at (vma_map vm) a = Some (attr v a)"
proof -
  from assms(1) have "tiles 0 (vma_map vm) MAX_ADDRESS" by (simp add: vm_inv_def)
  from tiles_cover [OF this _ assms(2)] obtain xs v ys where v: "vma_map vm = xs @ v # ys" "covers v t" by auto
  with assms(1) have "area_split 0 MAX_ADDRESS xs ys v" by (simp add: area_split_def vm_inv_def)
  with v show thesis by (intro that) (auto simp: attr_at_middle area_split_def)
qed

lemma vm_inv_parts:
  assumes "vm_inv vm" "vma_map vm = m"
  shows "tiles 0 m MAX_ADDRESS" "canonical m" "\<forall>v \<in> set m. area_wf v"
  using assms by (auto simp: vm_inv_def)

lemma free_range_area:
  assumes "vm_inv vm" "vma_map vm = xs @ v # ys" "covers v target" "0 < sz"
    "\<forall>a. covers v a \<longrightarrow> attr_at (vma_map vm) a = Some (attr v a)"
  shows "free_range vm target sz \<longleftrightarrow> vma_type v = VMA_Free \<and> target + sz \<le> vma_base v + vma_size v"
proof
  assume l: "free_range vm target sz"
  then have "map_option fst (attr_at (vma_map vm) target) = Some VMA_Free" using assms(4) by (simp add: free_range_def)
  with assms(3,5) have free: "vma_type v = VMA_Free" by (simp add: attr_def)
  moreover have "target + sz \<le> vma_base v + vma_size v"
    by (rule free_run [OF vm_inv_parts [OF assms(1,2)] free _ assms(3)]) (use l assms(2) in \<open>auto simp: free_range_def\<close>)
  ultimately show "vma_type v = VMA_Free \<and> target + sz \<le> vma_base v + vma_size v" by simp
next
  assume "vma_type v = VMA_Free \<and> target + sz \<le> vma_base v + vma_size v"
  then show "free_range vm target sz"
    using assms(3,5) by (auto simp: free_range_def covers_def attr_def)
qed

text \<open>The outcome of carving: an area of the size asked for, or an error and no change.\<close>

lemma CarveVMA_fails:
  assumes "vm_inv vm" "target mod PAGE_SIZE = 0" "sz mod PAGE_SIZE = 0" "0 < sz" "target + sz < 2 ^ 32"
    "\<not> free_range vm target sz"
  shows "CarveVMA target sz vm = Some (ResultErr (if target \<ge> MAX_ADDRESS then ERR_INVALID_ADDRESS
    else ERR_INVALID_ADDRESS_STATE), vm)"
proof (cases "target < MAX_ADDRESS")
  case True
  with assms(1) obtain xs v ys where v: "vma_map vm = xs @ v # ys" "area_split 0 MAX_ADDRESS xs ys v" "covers v target"
    "\<forall>a. covers v a \<longrightarrow> attr_at (vma_map vm) a = Some (attr v a)" by (rule covering_area)
  have n: "\<not> (vma_type v = VMA_Free \<and> target + sz \<le> vma_base v + vma_size v)"
    using free_range_area [OF assms(1) v(1,3) assms(4) v(4)] assms(6) by simp
  have "add32 (sub32 target (vma_base v)) sz = target - vma_base v + sz"
    using v(3) assms(5) by (simp add: add32_small sub32_small covers_def)
  with n v(3) have "vma_type v = VMA_Free \<Longrightarrow> vma_size v < add32 (sub32 target (vma_base v)) sz"
    by (auto simp: covers_def)
  then show ?thesis
    using assms True by (simp add: CarveVMA_def area_split.found [OF v(2,1,3)] v(1) area_split.at [OF v(2)])
qed (use assms in \<open>simp add: CarveVMA_def FindVMA_def\<close>)

lemma carve_and_set:
  assumes inv: "vm_inv vm" and args: "target mod PAGE_SIZE = 0" "sz mod PAGE_SIZE = 0" "0 < sz"
    and free: "free_range vm target sz"
    and f: "\<And>v. vma_base (f v) = vma_base v" "\<And>v. vma_size (f v) = vma_size v" "\<And>v. free_plain (f v)"
  obtains vm1 v h vm2 where "CarveVMA target sz vm = Some (MakeResult target, vm1)"
    "map_at (vma_map vm1) target = Some v" "vma_base v = target" "vma_size v = sz"
    "set_area target f vm1 = Some (h, vm2)" "vm_inv vm2" "page_updates vm2 = page_updates vm @ [f v]"
    "attr_at (vma_map vm2) = (\<lambda>a. if target \<le> a \<and> a < target + sz then Some (attr (f v) a) else attr_at (vma_map vm) a)"
proof -
  have "map_option fst (attr_at (vma_map vm) target) = Some VMA_Free" using free args(3) by (simp add: free_range_def)
  then have "attr_at (vma_map vm) target \<noteq> None" by auto
  with inv have "target < MAX_ADDRESS" using attr_at_outside [of 0 "vma_map vm" MAX_ADDRESS target]
    unfolding vm_inv_def by linarith
  with inv obtain xs v ys where v: "vma_map vm = xs @ v # ys" "area_split 0 MAX_ADDRESS xs ys v" "covers v target"
    "\<forall>a. covers v a \<longrightarrow> attr_at (vma_map vm) a = Some (attr v a)" by (rule covering_area)
  have fr: "vma_type v = VMA_Free" "target + sz \<le> vma_base v + vma_size v"
    using free_range_area [OF inv v(1,3) args(3) v(4)] free by auto
  define n where "n = target - vma_base v"
  define k where "k = n + sz"
  have nk: "n < k" "k \<le> vma_size v" "vma_base v + n = target" using args fr v(3) by (auto simp: n_def k_def covers_def)
  let ?m = "cut_mid n k v" and ?xs = "xs @ cut_left n v" and ?ys = "cut_right k v @ ys"
  let ?vm1 = "vm\<lparr>vma_map := ?xs @ ?m # ?ys\<rparr>"
  have m: "vma_base ?m = target" "vma_size ?m = sz" using nk by (auto simp: cut_mid_simps k_def)
  have carve: "CarveVMA target sz vm = Some (MakeResult target, ?vm1)"
    by (rule CarveVMA_split [OF v(2,1) fr(1) v(3) fr(2) args(3,1,2) n_def k_def])
  have s: "area_split 0 MAX_ADDRESS ?xs ?ys ?m" by (rule area_split_cut [OF v(2) nk(1,2)])
  have al: "aligned v" "free_plain v" using vm_inv_parts(3) [OF inv v(1)] by (auto simp: area_wf_def)
  have "n mod PAGE_SIZE = 0" using al(1) args(1) nk(3) by (metis add_0 aligned_def mod_add_left_eq)
  moreover have "k mod PAGE_SIZE = 0" using calculation args(2) mod_add_eq [of n PAGE_SIZE sz] by (simp add: k_def)
  ultimately have "\<forall>w \<in> set (cut_left n v @ cut_right k v). area_wf w"
    using al nk by (auto simp: cut_left_def cut_right_def area_wf_def aligned_def mod_0_imp_dvd dvd_diff_nat)
  moreover have "area_wf (f ?m)" using f args m by (simp add: area_wf_def aligned_def)
  ultimately have parts: "\<forall>w \<in> set (?xs @ f ?m # ?ys). area_wf w" "canonical ?xs" "canonical ?ys"
    using vm_inv_parts [OF inv v(1)] canonical_cut [OF _ nk(1,2) fr(1), of xs ys] by auto
  have vm1: "vma_map ?vm1 = ?xs @ ?m # ?ys" by simp
  obtain h m' where set: "set_area (vma_base ?m) f ?vm1 = Some (h, \<lparr>vma_map = m', page_updates = page_updates ?vm1 @ [f ?m]\<rparr>)"
    "tiles 0 m' MAX_ADDRESS" "attr_at m' = attr_at (?xs @ f ?m # ?ys)" and keep: "canonical ?xs \<longrightarrow> canonical ?ys \<longrightarrow> canonical m'"
    "(\<forall>w \<in> set (?xs @ f ?m # ?ys). area_wf w) \<longrightarrow> (\<forall>w \<in> set m'. area_wf w)"
    by (rule set_area_eq [where f = f, OF s vm1 f(1,2)])
  have kept: "canonical m'" "\<forall>w \<in> set m'. area_wf w" using keep parts by blast+
  have "attr_at (?xs @ f ?m # ?ys) a = (if target \<le> a \<and> a < target + sz then Some (attr (f ?m) a) else attr_at (vma_map vm) a)" for a
    unfolding attr_at_middle [OF area_split.tiling [OF area_split_upd [OF s f(1,2)]], of a]
    using attr_at_middle [OF area_split.tiling [OF s], of a] attr_at_cut [OF nk(1,2) fr(1), of xs ys] v(1) m f
    by (auto simp: covers_def)
  then show thesis
    using carve set kept m area_split.at [OF s]
    by (intro that [of ?vm1 ?m h]) (auto simp: vm_inv_def)
qed


section \<open>Properties\<close>

lemma reset_map: "vma_map VM_Reset = [] @ VirtualMemoryArea_init\<lparr>vma_size := MAX_ADDRESS\<rparr> # []"
  by (simp add: VM_Reset_def UpdatePageTableForVMA_def Let_def)

interpretation reset: area_split 0 MAX_ADDRESS "[]" "[]" "VirtualMemoryArea_init\<lparr>vma_size := MAX_ADDRESS\<rparr>"
  by unfold_locales (simp_all add: VirtualMemoryArea_init_def MAX_ADDRESS_def)

lemma vm_inv_Reset [inv_intros]: "vm_inv VM_Reset"
  using reset.tiling by (simp add: vm_inv_def reset_map VirtualMemoryArea_init_def area_wf_def aligned_def free_plain_def MAX_ADDRESS_def PAGE_SIZE_def)

lemma free_range_Reset: "target + sz \<le> MAX_ADDRESS \<Longrightarrow> free_range VM_Reset target sz"
  by (auto simp: free_range_def reset_map attr_at_Cons covers_def VirtualMemoryArea_init_def attr_def)

text \<open>C29: Mapping backing memory at a page-aligned range of the address space. When every address of
  the range is free the call succeeds: exactly these addresses become readable and writable backing
  memory of the given state, each one backed by the host address at the same offset, all other
  addresses keep their attributes, and the areas still tile the address space with no two mergeable
  neighbours. When some address is not free the call returns an error and changes nothing.\<close>

theorem MapBackingMemory_spec:
  assumes "vm_inv vm" "target mod PAGE_SIZE = 0" "sz mod PAGE_SIZE = 0" "0 < sz" "target + sz < 2 ^ 32"
    and "GetPtr memory \<noteq> 0"
  shows "if free_range vm target sz
    then \<exists>h vm'. MapBackingMemory target memory sz state vm = Some (MakeResult h, vm') \<and> vm_inv vm'
       \<and> (\<forall>a. attr_at (vma_map vm') a = (if target \<le> a \<and> a < target + sz
              then Some (VMA_BackingMemory, Perm_ReadWrite, state, GetPtr memory + (a - target), 0)
              else attr_at (vma_map vm) a))
    else MapBackingMemory target memory sz state vm
       = Some (ResultErr (if target \<ge> MAX_ADDRESS then ERR_INVALID_ADDRESS else ERR_INVALID_ADDRESS_STATE), vm)"
proof (cases "free_range vm target sz")
  case True
  let ?f = "\<lambda>v. v\<lparr>vma_type := VMA_BackingMemory, permissions := Perm_ReadWrite, meminfo_state := state, backing_memory := memory\<rparr>"
  obtain vm1 v h vm2 where r: "CarveVMA target sz vm = Some (MakeResult target, vm1)"
    "map_at (vma_map vm1) target = Some v" "vma_base v = target" "vma_size v = sz"
    "set_area target ?f vm1 = Some (h, vm2)" "vm_inv vm2" "page_updates vm2 = page_updates vm @ [?f v]"
    "attr_at (vma_map vm2) = (\<lambda>a. if target \<le> a \<and> a < target + sz then Some (attr (?f v) a) else attr_at (vma_map vm) a)"
    by (rule carve_and_set [where f = ?f, OF assms(1-4) True]) (simp_all add: free_plain_def)
  with True assms(6) show ?thesis by (simp add: MapBackingMemory_def attr_def)
next
  case False
  with CarveVMA_fails [OF assms(1-5)] assms(6) show ?thesis by (simp add: MapBackingMemory_def)
qed

theorem MapBackingMemory_spec_witness:
  "\<exists>h vm'. MapBackingMemory 0x1000 \<lparr>backing_mem = Some (64, 0x8000), mr_offset = 0\<rparr> 0x2000 MS_Private VM_Reset
     = Some (MakeResult h, vm') \<and> vm_inv vm' \<and> attr_at (vma_map vm') 0x1004 = Some (VMA_BackingMemory, Perm_ReadWrite, MS_Private, 68, 0)"
  using MapBackingMemory_spec [where vm = VM_Reset and target = "0x1000" and sz = "0x2000"
      and memory = "\<lparr>backing_mem = Some (64, 0x8000), mr_offset = 0\<rparr>" and state = MS_Private]
  by (auto simp: vm_inv_Reset free_range_Reset PAGE_SIZE_def MAX_ADDRESS_def GetPtr_def)

text \<open>Mapping an I/O region behaves likewise: on a free range the call succeeds and each address
  of the range, and no other, becomes memory-mapped I/O at the physical address of the same offset;
  otherwise it returns an error and changes nothing.\<close>

theorem MapMMIO_spec:
  assumes "vm_inv vm" "target mod PAGE_SIZE = 0" "sz mod PAGE_SIZE = 0" "0 < sz" "target + sz < 2 ^ 32"
  shows "if free_range vm target sz
    then \<exists>h vm'. MapMMIO target pa sz state handler vm = Some (MakeResult h, vm') \<and> vm_inv vm'
       \<and> (\<forall>a. attr_at (vma_map vm') a = (if target \<le> a \<and> a < target + sz
              then Some (VMA_MMIO, Perm_ReadWrite, state, 0, add32 pa (a - target))
              else attr_at (vma_map vm) a))
    else MapMMIO target pa sz state handler vm
       = Some (ResultErr (if target \<ge> MAX_ADDRESS then ERR_INVALID_ADDRESS else ERR_INVALID_ADDRESS_STATE), vm)"
proof (cases "free_range vm target sz")
  case True
  let ?f = "\<lambda>v. v\<lparr>vma_type := VMA_MMIO, permissions := Perm_ReadWrite, meminfo_state := state, paddr := pa, mmio_handler := handler\<rparr>"
  obtain vm1 v h vm2 where r: "CarveVMA target sz vm = Some (MakeResult target, vm1)"
    "map_at (vma_map vm1) target = Some v" "vma_base v = target" "vma_size v = sz"
    "set_area target ?f vm1 = Some (h, vm2)" "vm_inv vm2" "page_updates vm2 = page_updates vm @ [?f v]"
    "attr_at (vma_map vm2) = (\<lambda>a. if target \<le> a \<and> a < target + sz then Some (attr (?f v) a) else attr_at (vma_map vm) a)"
    by (rule carve_and_set [where f = ?f, OF assms(1-4) True]) (simp_all add: free_plain_def)
  with True show ?thesis by (simp add: MapMMIO_def attr_def)
next
  case False
  with CarveVMA_fails [OF assms(1-5)] show ?thesis by (simp add: MapMMIO_def)
qed

theorem MapMMIO_spec_witness:
  "\<exists>h vm'. MapMMIO 0x1000 0x5000 0x1000 MS_IO None VM_Reset = Some (MakeResult h, vm') \<and> vm_inv vm'
     \<and> attr_at (vma_map vm') 0x1008 = Some (VMA_MMIO, Perm_ReadWrite, MS_IO, 0, 0x5008)"
  using MapMMIO_spec [where vm = VM_Reset and target = "0x1000" and sz = "0x1000" and pa = "0x5000" and state = MS_IO and handler = None]
  by (auto simp: vm_inv_Reset free_range_Reset PAGE_SIZE_def MAX_ADDRESS_def add32_def)

lemma map_at_split:
  assumes "vm_inv vm" "map_at (vma_map vm) k = Some v"
  obtains xs ys where "vma_map vm = xs @ v # ys" "area_split 0 MAX_ADDRESS xs ys v" "vma_base v = k"
proof -
  from assms(2) have v: "v \<in> set (vma_map vm)" "vma_base v = k"
    by (auto simp: map_at_def find_Some_iff in_set_conv_nth)
  from split_list [OF v(1)] obtain xs ys where "vma_map vm = xs @ v # ys" by blast
  with assms(1) v(2) show thesis by (intro that [of xs ys]) (simp_all add: area_split_def vm_inv_def)
qed

lemma set_area_spec:
  assumes inv: "vm_inv vm" and at: "map_at (vma_map vm) k = Some v"
    and f: "vma_base (f v) = vma_base v" "vma_size (f v) = vma_size v" "free_plain (f v)"
  shows "\<exists>h vm'. set_area k f vm = Some (h, vm') \<and> vm_inv vm'
    \<and> (\<forall>a. attr_at (vma_map vm') a = (if covers v a then Some (attr (f v) a) else attr_at (vma_map vm) a))"
proof -
  obtain xs ys where v: "vma_map vm = xs @ v # ys" "area_split 0 MAX_ADDRESS xs ys v" "vma_base v = k"
    by (rule map_at_split [OF inv at])
  obtain h m where r: "set_area (vma_base v) f vm = Some (h, \<lparr>vma_map = m, page_updates = page_updates vm @ [f v]\<rparr>)"
    "tiles 0 m MAX_ADDRESS" "attr_at m = attr_at (xs @ f v # ys)" and keep: "canonical xs \<longrightarrow> canonical ys \<longrightarrow> canonical m"
    "(\<forall>w \<in> set (xs @ f v # ys). area_wf w) \<longrightarrow> (\<forall>w \<in> set m. area_wf w)"
    by (rule set_area_eq [where f = f, OF v(2,1) f(1,2)])
  have "aligned v" using vm_inv_parts(3) [OF inv v(1)] by (simp add: area_wf_def)
  then have "area_wf (f v)" using f by (simp add: area_wf_def aligned_def)
  then have wf: "\<forall>w \<in> set (xs @ f v # ys). area_wf w" using vm_inv_parts(3) [OF inv v(1)] by simp
  have "canonical xs" "canonical ys" using vm_inv_parts(2) [OF inv v(1)] by (simp_all add: canonical_append canonical_Cons)
  with keep wf have "canonical m" "\<forall>w \<in> set m. area_wf w" by blast+
  moreover have "attr_at m a = (if covers v a then Some (attr (f v) a) else attr_at (vma_map vm) a)" for a
    unfolding r(3) attr_at_middle [OF area_split.tiling [OF area_split_upd [OF v(2) f(1,2)]]]
    using f by (simp add: covers_def v(1) attr_at_middle [OF area_split.tiling [OF v(2)]])
  ultimately show ?thesis using r(1,2) v(3) by (auto simp: vm_inv_def)
qed

text \<open>Unmapping one area and changing the permissions of one mapped area always return, change
  exactly the addresses of that area, and keep the tiling with no two mergeable neighbours.\<close>

theorem Unmap_Reprotect_spec:
  assumes "vm_inv vm" "map_at (vma_map vm) k = Some v"
  shows "(\<exists>h vm'. Unmap k vm = Some (h, vm') \<and> vm_inv vm' \<and> (\<forall>a. attr_at (vma_map vm') a
      = (if covers v a then Some (VMA_Free, Perm_None, MS_Free, 0, 0) else attr_at (vma_map vm) a)))
    \<and> (vma_type v \<noteq> VMA_Free \<longrightarrow> (\<exists>h vm'. Reprotect k perms vm = Some (h, vm') \<and> vm_inv vm'
      \<and> (\<forall>a. attr_at (vma_map vm') a = (if covers v a then Some (attr (v\<lparr>permissions := perms\<rparr>) a) else attr_at (vma_map vm) a))))"
proof -
  let ?u = "\<lambda>v. v\<lparr>vma_type := VMA_Free, permissions := Perm_None, meminfo_state := MS_Free, backing_memory := MemoryRef_null, paddr := 0\<rparr>"
  have "attr (?u v) a = (VMA_Free, Perm_None, MS_Free, 0, 0)" for a by (simp add: attr_def)
  then have "\<exists>h vm'. Unmap k vm = Some (h, vm') \<and> vm_inv vm' \<and> (\<forall>a. attr_at (vma_map vm') a
      = (if covers v a then Some (VMA_Free, Perm_None, MS_Free, 0, 0) else attr_at (vma_map vm) a))"
    using set_area_spec [OF assms, of ?u] by (simp only: Unmap_def) (simp add: free_plain_def)
  moreover have "vma_type v \<noteq> VMA_Free \<longrightarrow> (\<exists>h vm'. Reprotect k perms vm = Some (h, vm') \<and> vm_inv vm'
      \<and> (\<forall>a. attr_at (vma_map vm') a = (if covers v a then Some (attr (v\<lparr>permissions := perms\<rparr>) a) else attr_at (vma_map vm) a)))"
    using set_area_spec [OF assms, of "\<lambda>v. v\<lparr>permissions := perms\<rparr>"] by (simp add: Reprotect_def free_plain_def)
  ultimately show ?thesis by blast
qed

theorem Unmap_Reprotect_spec_witness:
  "\<exists>h vm'. Unmap 0 VM_Reset = Some (h, vm') \<and> vm_inv vm'"
  using Unmap_Reprotect_spec [OF vm_inv_Reset, of 0 "VirtualMemoryArea_init\<lparr>vma_size := MAX_ADDRESS\<rparr>"]
  by (auto simp: reset_map map_at_def VirtualMemoryArea_init_def)

end
