(* ===== verification/Thread_Manager.thy ===== *)
theory Thread_Manager
  imports Sync_Objects VM_Manager
begin

text \<open>
  Threads and the scheduler of \<^verbatim>\<open>src/src/core/hle/kernel/thread.{h,cpp}\<close>: creating and stopping
  threads, sleeping and timeouts, choosing the next thread and switching to it. Processes are numbers,
  of which only the thread-local storage slots are kept. In \<open>CreateThread\<close> the validity of the entry
  point and the result of the linear heap allocation are arguments; mapping and clearing the storage
  page is left to the memory model.
\<close>

section \<open>Sleeping and timeouts\<close>

definition wakeup_event_type :: "nat \<Rightarrow> nat" where "wakeup_event_type core = core + 1"

definition WakeAfterDelay :: "oid \<Rightarrow> int \<Rightarrow> Kernel \<Rightarrow> Kernel run" where
  "WakeAfterDelay t nanoseconds k =
     (if nanoseconds = - 1 then Some k
      else schedule (nsToCycles_s64 nanoseconds) (wakeup_event_type (core_id (threads k t))) (thread_id (threads k t)) k)"

definition WaitCurrentThread_Sleep :: "nat \<Rightarrow> Kernel \<Rightarrow> Kernel run" where
  "WaitCurrentThread_Sleep c k = do {
     t \<leftarrow> current_thread (managers k c);
     Some (upd_thread t (\<lambda>x. x\<lparr>status := WaitSleep\<rparr>) k)
   }"

definition ThreadWakeupCallback :: "nat \<Rightarrow> nat \<Rightarrow> Kernel \<Rightarrow> Kernel run" where
  "ThreadWakeupCallback c tid k = do {
     t \<leftarrow> wakeup_callback_table (managers k c) tid;
     k \<leftarrow> (if status (threads k t) \<in> {WaitSynchAny, WaitSynchAll, WaitArb, WaitHleEvent}
           then map_option (leave_wait_objects t) (invoke_callback WR_Timeout t None k)
           else Some k);
     ResumeFromWait t k
   }"

section \<open>Stopping\<close>

definition TLS_AREA_VADDR :: nat where "TLS_AREA_VADDR = 0x1FF82000"
definition TLS_ENTRY_SIZE :: nat where "TLS_ENTRY_SIZE = 0x200"

definition free_tls_slot :: "oid \<Rightarrow> Kernel \<Rightarrow> Kernel run" where
  "free_tls_slot t k = do {
     let off = sub32 (tls_address (threads k t)) TLS_AREA_VADDR;
     let page = off div PAGE_SIZE;
     let slot = (off mod PAGE_SIZE) div TLS_ENTRY_SIZE;
     let slots = tls_slots k (owner_process (threads k t));
     ASSERT (page < length slots);
     Some (k\<lparr>tls_slots := (tls_slots k)(owner_process (threads k t) := slots[page := (slots ! page)[slot := False]])\<rparr>)
   }"

definition Stop :: "oid \<Rightarrow> Kernel \<Rightarrow> Kernel run" where
  "Stop t k = do {
     let th = threads k t;
     let k = k\<lparr>k_timing := UnscheduleEvent (wakeup_event_type (core_id th)) (thread_id th) (k_timing k)\<rparr>;
     let k = upd_manager (core_id th) (\<lambda>m. m\<lparr>wakeup_callback_table := (wakeup_callback_table m)(thread_id th := None)\<rparr>) k;
     let k = (if status th = Ready then upd_queue (core_id th) (tql_remove (current_priority th) t) k else k);
     let k = upd_thread t (\<lambda>x. x\<lparr>status := Dead\<rparr>) k;
     k \<leftarrow> WakeupAllWaitingThreads t k;
     let k = leave_wait_objects t k;
     k \<leftarrow> ReleaseThreadMutexes t k;
     free_tls_slot t k
   }"

definition ExitCurrentThread :: "nat \<Rightarrow> Kernel \<Rightarrow> Kernel run" where
  "ExitCurrentThread c k = do {
     t \<leftarrow> current_thread (managers k c);
     k \<leftarrow> Stop t k;
     Some (upd_manager c (\<lambda>m. m\<lparr>thread_list := filter (\<lambda>x. x \<noteq> t) (thread_list m)\<rparr>) k)
   }"

section \<open>Scheduling\<close>

definition HaveReadyThreads :: "nat \<Rightarrow> Kernel \<Rightarrow> bool run" where
  "HaveReadyThreads c k = map_option (\<lambda>r. r \<noteq> None) (get_first (rq k c))"

definition PopNextReadyThread :: "nat \<Rightarrow> Kernel \<Rightarrow> (oid option \<times> Kernel) run" where
  "PopNextReadyThread c k =
     (case current_thread (managers k c) of
        Some t \<Rightarrow>
          if status (threads k t) = Running then do {
            (next, q) \<leftarrow> pop_first_better (rq k c) (current_priority (threads k t));
            Some (case next of None \<Rightarrow> Some t | Some n \<Rightarrow> Some n, upd_queue c (\<lambda>_. q) k) }
          else do { (next, q) \<leftarrow> pop_first (rq k c); Some (next, upd_queue c (\<lambda>_. q) k) }
      | None \<Rightarrow> do { (next, q) \<leftarrow> pop_first (rq k c); Some (next, upd_queue c (\<lambda>_. q) k) })"

definition SetCurrentProcessForCPU :: "oid \<Rightarrow> nat \<Rightarrow> Kernel \<Rightarrow> Kernel" where
  "SetCurrentProcessForCPU p c k = k\<lparr>cpu_process := (cpu_process k)(c := Some p)\<rparr>"

text \<open>Saving the context of the thread that stops running; if it did not yield, it is queued first.\<close>

definition suspend_previous :: "nat \<Rightarrow> Kernel \<Rightarrow> Kernel" where
  "suspend_previous c k =
     (case current_thread (managers k c) of
        None \<Rightarrow> k
      | Some prev \<Rightarrow>
          let k = upd_thread prev (\<lambda>x. x\<lparr>last_running_ticks := GetTicks (timers (k_timing k) ! c),
                                       thread_context := cpu_context k c\<rparr>) k
          in if status (threads k prev) = Running
             then upd_thread prev (\<lambda>x. x\<lparr>status := Ready\<rparr>)
                    (upd_queue c (push_front (current_priority (threads k prev)) prev) k)
             else k)"

definition SwitchContext :: "nat \<Rightarrow> oid option \<Rightarrow> Kernel \<Rightarrow> Kernel run" where
  "SwitchContext c new_thread k = do {
     let previous_process = map_option (\<lambda>p. owner_process (threads k p)) (current_thread (managers k c));
     let k = suspend_previous c k;
     (case new_thread of
        None \<Rightarrow> Some (upd_manager c (\<lambda>m. m\<lparr>current_thread := None\<rparr>) k)
      | Some n \<Rightarrow> do {
          ASSERT (status (threads k n) = Ready);
          let k = k\<lparr>k_timing := UnscheduleEvent (wakeup_event_type c) (thread_id (threads k n)) (k_timing k)\<rparr>;
          let k = upd_manager c (\<lambda>m. m\<lparr>current_thread := Some n\<rparr>) k;
          let k = upd_queue c (tql_remove (current_priority (threads k n)) n) k;
          let k = upd_thread n (\<lambda>x. x\<lparr>status := Running\<rparr>) k;
          let k = (if previous_process \<noteq> Some (owner_process (threads k n))
                   then SetCurrentProcessForCPU (owner_process (threads k n)) c k else k);
          Some (k\<lparr>cpu_context := (cpu_context k)(c := thread_context (threads k n))\<rparr>) })
   }"

definition Reschedule :: "nat \<Rightarrow> Kernel \<Rightarrow> Kernel run" where
  "Reschedule c k = do {
     let cur = current_thread (managers k c);
     (next, k) \<leftarrow> PopNextReadyThread c k;
     (if cur = None \<and> next = None then Some k else SwitchContext c next k)
   }"

section \<open>Creating\<close>

fun first_free :: "bool list \<Rightarrow> nat option" where
  "first_free [] = None"
| "first_free (b # bs) = (if \<not> b then Some 0 else map_option Suc (first_free bs))"

text \<open>\<open>None\<close> is the result with \<^verbatim>\<open>alloc_needed\<close>.\<close>

fun GetFreeThreadLocalSlot :: "bool list list \<Rightarrow> (nat \<times> nat) option" where
  "GetFreeThreadLocalSlot [] = None"
| "GetFreeThreadLocalSlot (page # pages) =
     (case first_free page of
        Some slot \<Rightarrow> Some (0, slot)
      | None \<Rightarrow> map_option (\<lambda>(p, s). (Suc p, s)) (GetFreeThreadLocalSlot pages))"

definition ResetThreadContext :: "u32 \<Rightarrow> u32 \<Rightarrow> u32 \<Rightarrow> nat \<Rightarrow> u32" where
  "ResetThreadContext stack entry arg =
     (\<lambda>_. 0)(0 := arg, 15 := entry, 13 := stack, 16 := 0x10 OR push_bit 5 (entry AND 1))"

definition ERR_INVALID_ENTRY :: ResultCode where
  "ERR_INVALID_ENTRY = MakeResultCode ED_InvalidAddress EM_Kernel ES_InvalidArgument EL_Permanent"

definition fresh_thread :: "nat \<Rightarrow> nat \<Rightarrow> nat \<Rightarrow> nat \<Rightarrow> int \<Rightarrow> nat \<Rightarrow> nat \<Rightarrow> oid \<Rightarrow> (nat \<Rightarrow> u32) \<Rightarrow> Thread" where
  "fresh_thread tid entry stack priority ticks core tls process ctx =
     \<lparr>thread_id = tid, status = Dormant, entry_point = entry, stack_top = stack, nominal_priority = priority,
      current_priority = priority, last_running_ticks = ticks, core_id = core, tls_address = tls,
      held_mutexes = [], pending_mutexes = [], owner_process = process, wait_objects = [], wait_address = 0,
      wakeup_callback = None, thread_context = ctx\<rparr>"

definition CreateThread ::
    "bool \<Rightarrow> nat option \<Rightarrow> nat \<Rightarrow> nat \<Rightarrow> u32 \<Rightarrow> int \<Rightarrow> nat \<Rightarrow> oid \<Rightarrow> nat \<Rightarrow> Kernel \<Rightarrow> (oid ResultVal \<times> Kernel) run" where
  "CreateThread valid_entry linear_offset entry priority arg processor_id stack process num_cores k =
     (if priority > ThreadPrioLowest then Some (ResultErr ERR_OUT_OF_RANGE, k)
      else if processor_id > ThreadProcessorIdMax then Some (ResultErr ERR_OUT_OF_RANGE_KERNEL, k)
      else if \<not> valid_entry then Some (ResultErr ERR_INVALID_ENTRY, k)
      else do {
        ASSERT (0 \<le> processor_id \<and> processor_id < int num_cores);
        let core = nat processor_id;
        let t = next_object k;
        let tid = next_thread_id k;
        let k = upd_manager core (\<lambda>m. m\<lparr>thread_list := thread_list m @ [t], ready_queue := prepare priority (ready_queue m),
                   wakeup_callback_table := (wakeup_callback_table m)(tid \<mapsto> t)\<rparr>)
                  (k\<lparr>next_object := t + 1, next_thread_id := (tid + 1) mod 2 ^ 32,
                     wait_object := (wait_object k)(t := \<lparr>waiting_threads = [], obj = O_Thread\<rparr>),
                     threads := (threads k)(t := fresh_thread tid entry stack priority (GetTicks (timers (k_timing k) ! core))
                                               core 0 process (\<lambda>_. 0))\<rparr>);
        (case (GetFreeThreadLocalSlot (tls_slots k process), linear_offset) of
           (None, None) \<Rightarrow> Some (ResultErr ERR_OUT_OF_MEMORY, k)
         | (found, _) \<Rightarrow>
             let slots = (if found = None then tls_slots k process @ [replicate 8 False] else tls_slots k process);
                 (page, slot) = (case found of None \<Rightarrow> (length slots - 1, 0) | Some ps \<Rightarrow> ps);
                 k = k\<lparr>tls_slots := (tls_slots k)(process := slots[page := (slots ! page)[slot := True]])\<rparr>;
                 k = upd_thread t (\<lambda>x. x\<lparr>tls_address := TLS_AREA_VADDR + page * PAGE_SIZE + slot * TLS_ENTRY_SIZE,
                                       thread_context := ResetThreadContext (of_nat stack) (of_nat entry) arg\<rparr>) k;
                 k = upd_queue core (push_back priority t) k
             in Some (MakeResult t, upd_thread t (\<lambda>x. x\<lparr>status := Ready\<rparr>) k)) })"


section \<open>Scheduling keeps the invariant\<close>

lemma sched_inv_fields [simp]:
  "sched_inv (k\<lparr>k_timing := a\<rparr>) = sched_inv k" "sched_inv (k\<lparr>cpu_context := b\<rparr>) = sched_inv k"
  "sched_inv (k\<lparr>cpu_process := d\<rparr>) = sched_inv k" "sched_inv (k\<lparr>tls_slots := e\<rparr>) = sched_inv k"
  by (simp_all add: sched_inv_def thread_ok_def)

lemma sched_inv_manager:
  "(\<And>m. ready_queue (f m) = ready_queue m) \<Longrightarrow> sched_inv (upd_manager c f k) = sched_inv k"
  by (rule sched_inv_cong) (auto simp: upd_manager_def fun_eq_iff)

definition on_cpu :: "oid \<Rightarrow> Kernel \<Rightarrow> Kernel" where
  "on_cpu n k = upd_thread n (\<lambda>x. x\<lparr>status := Running\<rparr>) k"

text \<open>The part of \<open>SwitchContext\<close> that takes the new thread off the queue.\<close>

definition dispatch :: "nat \<Rightarrow> oid \<Rightarrow> Kernel \<Rightarrow> Kernel" where
  "dispatch c n k = on_cpu n (upd_queue c (tql_remove (current_priority (threads k n)) n) k)"

lemma sched_inv_dispatch_queued:
  assumes inv: "sched_inv k" and n: "status (threads k n) = Ready" "core_id (threads k n) = c"
  shows "sched_inv (dispatch c n k)"
proof -
  let ?p = "current_priority (threads k n)"
  note D = sched_invD [OF inv]
  have lt: "?p < length (queues (rq k c))" using D(2,5) by (simp add: less_Suc_eq_le)
  note R = tql.delete_law [OF D(1) lt, of n]
  have "n \<notin> set (tql_level (rq k c) i)" if "i \<noteq> ?p" for i using D(4) [of n c i] that by auto
  with R D n show ?thesis
    by (intro sched_inv_update [OF inv, where t = n and q = "tql_remove ?p n (rq k c)" and th = "(threads k n)\<lparr>status := Running\<rparr>" and c = c])
       (auto simp: dispatch_def on_cpu_def)
qed

lemma sched_inv_dispatch_popped:
  assumes inv: "sched_inv (on_cpu n k)" and n: "core_id (threads k n) = c"
  shows "sched_inv (dispatch c n k)"
proof -
  let ?p = "current_priority (threads k n)"
  note D = sched_invD [OF inv]
  have lt: "?p < length (queues (rq k c))" using D(2) [of c] D(5) [of n] by (simp add: on_cpu_def less_Suc_eq_le)
  note R = tql.delete_law [OF D(1) [of c, unfolded on_cpu_def, simplified] lt, of n]
  have notin: "n \<notin> set (tql_level (rq k c) i)" for i using D(4) [of n c i] by (simp add: on_cpu_def)
  then have "filter (\<lambda>y. y \<noteq> n) (tql_level (rq k c) ?p) = tql_level (rq k c) ?p" by (auto simp: filter_id_conv)
  moreover have "?p \<le> ThreadPrioLowest" "nominal_priority (threads k n) \<le> ThreadPrioLowest" "tql_prepared (rq k c) ?p"
    using D(5,6,7) [of n] n by (simp_all add: on_cpu_def)
  moreover have "length (queues (rq k c)) = ThreadPrioLowest + 1" "distinct (tql_level (rq k c) i)" for i
    using D(2,3) [of c] by (simp_all add: on_cpu_def)
  ultimately show ?thesis using R notin n
    by (intro sched_inv_update [OF inv, where t = n and q = "tql_remove ?p n (rq k c)" and th = "(threads k n)\<lparr>status := Running\<rparr>" and c = c])
       (auto simp: dispatch_def on_cpu_def)
qed

text \<open>Queueing the thread that is preempted.\<close>

lemma sched_inv_push_front:
  assumes inv: "sched_inv k" and t: "status (threads k t) = Running" "core_id (threads k t) = c"
    and f: "status (f (threads k t)) = Ready" "core_id (f (threads k t)) = c"
      "current_priority (f (threads k t)) = current_priority (threads k t)"
      "nominal_priority (f (threads k t)) = nominal_priority (threads k t)"
  shows "sched_inv (upd_thread t f (upd_queue c (push_front (current_priority (threads k t)) t) k))"
proof -
  let ?p = "current_priority (threads k t)"
  note D = sched_invD [OF inv]
  have lt: "?p < length (queues (rq k c))" using D(2,5) by (simp add: less_Suc_eq_le)
  have prep: "tql_prepared (rq k c) ?p" using D(7) [of t] t by simp
  note F = tql.front_law [OF D(1) lt prep, of t]
  have notin: "t \<notin> set (tql_level (rq k c) i)" for i using D(4) [of t c i] t by simp
  show ?thesis
    by (rule sched_inv_update [OF inv, where t = t and q = "push_front ?p t (rq k c)" and th = "f (threads k t)" and c = c])
       (use F D(1,2,3,5,6) prep notin t f in auto)
qed


text \<open>The current thread of a core belongs to it, and it is the only one that can be running there.\<close>

definition cpu_inv :: "Kernel \<Rightarrow> bool" where
  "cpu_inv k \<longleftrightarrow> (\<forall>c t. (current_thread (managers k c) = Some t \<longrightarrow> core_id (threads k t) = c)
     \<and> (status (threads k t) = Running \<longrightarrow> current_thread (managers k (core_id (threads k t))) = Some t))"

definition runnable :: "nat \<Rightarrow> Kernel \<Rightarrow> oid set" where
  "runnable c k = {t. core_id (threads k t) = c \<and> status (threads k t) \<in> {Ready, Running}}"

definition best_of :: "nat \<Rightarrow> Kernel \<Rightarrow> oid \<Rightarrow> bool" where
  "best_of c k n \<longleftrightarrow> n \<in> runnable c k \<and> (\<forall>u \<in> runnable c k. current_priority (threads k n) \<le> current_priority (threads k u))"

lemma head_of_level:
  assumes "sched_inv k" "tql_level (rq k c) p = n # ns"
  shows "status (threads k n) = Ready" "core_id (threads k n) = c" "current_priority (threads k n) = p"
  using sched_invD(4) [OF assms(1), of n c p] assms(2) by simp_all

lemma sched_inv_popped:
  assumes inv: "sched_inv k" and l: "tql_level (rq k c) p = n # ns"
    and q: "tql_inv q" "length (queues q) = length (queues (rq k c))" "tql_prepared q = tql_prepared (rq k c)"
      "tql_level q = (tql_level (rq k c))(p := ns)"
  shows "sched_inv (on_cpu n (upd_queue c (\<lambda>_. q) k))"
proof -
  note D = sched_invD [OF inv] and H = head_of_level [OF inv l]
  have d: "distinct (n # ns)" using D(3) [of c p] l by simp
  have notin: "n \<notin> set (tql_level (rq k c) i)" if "i \<noteq> p" for i using D(4) [of n c i] H that by auto
  show ?thesis
    by (rule sched_inv_update [OF inv, where t = n and q = q and c = c and th = "(threads k n)\<lparr>status := Running\<rparr>"])
       (use q D(2,3,5,6) D(7) [of n] H d l notin in \<open>auto simp: on_cpu_def\<close>)
qed

lemma ready_in_level:
  assumes "sched_inv k" "u \<in> runnable c k" "status (threads k u) \<noteq> Running"
  shows "u \<in> set (tql_level (rq k c) (current_priority (threads k u)))" "current_priority (threads k u) < length (queues (rq k c))"
  using assms sched_invD(4) [OF assms(1)] sched_invD(2,5) [OF assms(1)] by (auto simp: runnable_def less_Suc_eq_le)

lemma level_bound:
  assumes "sched_inv k" "u \<in> runnable c k" "status (threads k u) \<noteq> Running" "\<forall>i < p. tql_level (rq k c) i = []"
  shows "p \<le> current_priority (threads k u)"
  using ready_in_level(1) [OF assms(1-3)] assms(4) by (metis empty_iff leI list.set(1))

definition next_choice :: "nat \<Rightarrow> Kernel \<Rightarrow> oid option \<Rightarrow> oid ThreadQueueList \<Rightarrow> bool" where
  "next_choice c k r q \<longleftrightarrow>
     (case r of
        None \<Rightarrow> q = rq k c \<and> runnable c k = {}
      | Some n \<Rightarrow> best_of c k n \<and>
          (if status (threads k n) = Running then q = rq k c
           else sched_inv (on_cpu n (upd_queue c (\<lambda>_. q) k))
             \<and> (\<forall>t. t \<in> runnable c k \<longrightarrow> status (threads k t) = Running \<longrightarrow> current_priority (threads k n) < current_priority (threads k t))))"

lemma pop_first_choice:
  assumes inv: "sched_inv k" and idle: "\<And>t. core_id (threads k t) = c \<Longrightarrow> status (threads k t) \<noteq> Running"
  shows "\<exists>r q. pop_first (rq k c) = Some (r, q) \<and> next_choice c k r q"
proof -
  obtain r q where r: "pop_first (rq k c) = Some (r, q)" "tql_inv q" "length (queues q) = length (queues (rq k c))"
    "tql_prepared q = tql_prepared (rq k c)" and c: "case r of None \<Rightarrow> q = rq k c \<and> (\<forall>p < length (queues (rq k c)). tql_level (rq k c) p = [])
       | Some x \<Rightarrow> \<exists>p xs. p < length (queues (rq k c)) \<and> tql_level (rq k c) p = x # xs \<and> (\<forall>i < p. tql_level (rq k c) i = [])
           \<and> tql_level q = (tql_level (rq k c))(p := xs)"
    using tql.pop_total [OF sched_invD(1) [OF inv, of c]] by blast
  have nr: "u \<in> runnable c k \<Longrightarrow> status (threads k u) \<noteq> Running" for u using idle by (auto simp: runnable_def)
  have "next_choice c k r q"
  proof (cases r)
    case None
    then have "runnable c k = {}" using c ready_in_level [OF inv _ nr] by fastforce
    then show ?thesis using None c by (simp add: next_choice_def)
  next
    case (Some n)
    then obtain p xs where p: "tql_level (rq k c) p = n # xs" "\<forall>i < p. tql_level (rq k c) i = []" "tql_level q = (tql_level (rq k c))(p := xs)"
      using c by auto
    note H = head_of_level [OF inv p(1)]
    have "best_of c k n" using H level_bound [OF inv _ nr p(2)] by (auto simp: best_of_def runnable_def)
    then show ?thesis using Some H nr sched_inv_popped [OF inv p(1) r(2-4) p(3)] by (auto simp: next_choice_def)
  qed
  with r(1) show ?thesis by blast
qed

lemma pop_better_choice:
  assumes inv: "sched_inv k" and t: "core_id (threads k t) = c" "status (threads k t) = Running"
    and only: "\<And>u. core_id (threads k u) = c \<Longrightarrow> status (threads k u) = Running \<Longrightarrow> u = t"
  shows "\<exists>r q. pop_first_better (rq k c) (current_priority (threads k t)) = Some (r, q)
    \<and> next_choice c k (case r of None \<Rightarrow> Some t | Some n \<Rightarrow> Some n) q"
proof -
  let ?p = "current_priority (threads k t)"
  note D = sched_invD [OF inv]
  have b: "?p < length (queues (rq k c))" "tql_prepared (rq k c) ?p"
    using D(2,5,7) [of t] D(2) [of c] D(5) [of t] t by (auto simp: less_Suc_eq_le)
  obtain r q where r: "pop_first_better (rq k c) ?p = Some (r, q)" "tql_inv q" "length (queues q) = length (queues (rq k c))"
    "tql_prepared q = tql_prepared (rq k c)" and c: "case r of None \<Rightarrow> q = rq k c \<and> (\<forall>i < ?p. tql_level (rq k c) i = [])
       | Some x \<Rightarrow> \<exists>i xs. i < ?p \<and> tql_level (rq k c) i = x # xs \<and> (\<forall>j < i. tql_level (rq k c) j = [])
           \<and> tql_level q = (tql_level (rq k c))(i := xs)"
    using tql.better_total [OF D(1) b] by blast
  have nr: "u \<in> runnable c k \<Longrightarrow> u \<noteq> t \<Longrightarrow> status (threads k u) \<noteq> Running" for u using only by (auto simp: runnable_def)
  have "next_choice c k (case r of None \<Rightarrow> Some t | Some n \<Rightarrow> Some n) q"
  proof (cases r)
    case None
    then have e: "q = rq k c" "\<forall>i < ?p. tql_level (rq k c) i = []" using c by auto
    have "best_of c k t" unfolding best_of_def
      using t level_bound [OF inv _ nr e(2)] by (fastforce simp: runnable_def)
    then show ?thesis using None t e by (simp add: next_choice_def)
  next
    case (Some n)
    then obtain i xs where p: "i < ?p" "tql_level (rq k c) i = n # xs" "\<forall>j < i. tql_level (rq k c) j = []" "tql_level q = (tql_level (rq k c))(i := xs)"
      using c by auto
    note H = head_of_level [OF inv p(2)]
    have "i \<le> current_priority (threads k u)" if "u \<in> runnable c k" for u
      using that p(1) level_bound [OF inv that nr p(3)] by (cases "u = t") auto
    then have "best_of c k n" using H by (auto simp: best_of_def runnable_def)
    moreover have "u \<in> runnable c k \<Longrightarrow> status (threads k u) = Running \<Longrightarrow> current_priority (threads k n) < current_priority (threads k u)" for u
      using nr [of u] H p(1) by auto
    ultimately show ?thesis using Some H sched_inv_popped [OF inv p(2) r(2-4) p(4)] by (simp add: next_choice_def)
  qed
  with r(1) show ?thesis by blast
qed


lemma PopNextReadyThread_choice:
  assumes inv: "sched_inv k" and cpu: "cpu_inv k"
  shows "\<exists>r q. PopNextReadyThread c k = Some (r, upd_queue c (\<lambda>_. q) k) \<and> next_choice c k r q"
proof (cases "\<exists>t. current_thread (managers k c) = Some t \<and> status (threads k t) = Running")
  case True
  then obtain t where t: "current_thread (managers k c) = Some t" "status (threads k t) = Running" by blast
  with cpu have "core_id (threads k t) = c" "\<And>u. core_id (threads k u) = c \<Longrightarrow> status (threads k u) = Running \<Longrightarrow> u = t"
    by (force simp: cpu_inv_def)+
  from pop_better_choice [OF inv this(1) t(2) this(2)] t show ?thesis
    by (force simp: PopNextReadyThread_def split: option.splits)
next
  case False
  with cpu have "core_id (threads k t) = c \<Longrightarrow> status (threads k t) \<noteq> Running" for t by (auto simp: cpu_inv_def)
  from pop_first_choice [OF inv this] False show ?thesis
    by (force simp: PopNextReadyThread_def split: option.splits)
qed

lemma suspend_previous_simps:
  "status (threads (suspend_previous c k) u)
     = (if current_thread (managers k c) = Some u \<and> status (threads k u) = Running then Ready else status (threads k u))"
  "core_id (threads (suspend_previous c k) u) = core_id (threads k u)"
  "current_priority (threads (suspend_previous c k) u) = current_priority (threads k u)"
  "nominal_priority (threads (suspend_previous c k) u) = nominal_priority (threads k u)"
  "current_thread (managers (suspend_previous c k) d) = current_thread (managers k d)"
  "rq (suspend_previous c k) = (case current_thread (managers k c) of
       Some p \<Rightarrow> if status (threads k p) = Running then (rq k)(c := push_front (current_priority (threads k p)) p (rq k c)) else rq k
     | None \<Rightarrow> rq k)"
  by (auto simp: suspend_previous_def Let_def split: option.splits)

lemma sched_inv_suspend:
  assumes "sched_inv k" "\<And>p. current_thread (managers k c) = Some p \<Longrightarrow> core_id (threads k p) = c"
  shows "sched_inv (suspend_previous c k)"
proof (cases "\<exists>p. current_thread (managers k c) = Some p \<and> status (threads k p) = Running")
  case True
  then obtain p where p: "current_thread (managers k c) = Some p" "status (threads k p) = Running" by blast
  let ?f = "\<lambda>x. x\<lparr>status := Ready\<rparr>"
  have "sched_inv (upd_thread p ?f (upd_queue c (push_front (current_priority (threads k p)) p) k))"
    using assms p by (intro sched_inv_push_front) auto
  then show ?thesis
    by (subst sched_inv_cong [where k = "upd_thread p ?f (upd_queue c (push_front (current_priority (threads k p)) p) k)"])
       (use p in \<open>auto simp: suspend_previous_simps\<close>)
next
  case False
  then show ?thesis using assms(1)
    by (subst sched_inv_cong [where k = k]) (auto simp: suspend_previous_simps split: option.splits)
qed

lemma SwitchContext_to:
  assumes "status (threads (suspend_previous c k) n) = Ready"
  shows "\<exists>k'. SwitchContext c (Some n) k = Some k' \<and> threads k' = threads (dispatch c n (suspend_previous c k))
    \<and> rq k' = rq (dispatch c n (suspend_previous c k))
    \<and> (\<forall>d. current_thread (managers k' d) = (if d = c then Some n else current_thread (managers k d)))
    \<and> cpu_context k' c = thread_context (threads (suspend_previous c k) n)"
proof -
  have m: "rq (upd_manager c (\<lambda>m. m\<lparr>current_thread := Some n\<rparr>) k) = rq k" for k by (auto simp: upd_manager_def fun_eq_iff)
  show ?thesis
    using assms unfolding SwitchContext_def
    by (simp add: Let_def dispatch_def on_cpu_def SetCurrentProcessForCPU_def m upd_manager_def upd_queue_def
        suspend_previous_simps(5) [unfolded upd_manager_def] fun_eq_iff)
qed


lemma cpu_invD:
  assumes "cpu_inv k"
  shows "current_thread (managers k c) = Some t \<Longrightarrow> core_id (threads k t) = c"
    "core_id (threads k t) = c \<Longrightarrow> status (threads k t) = Running \<Longrightarrow> current_thread (managers k c) = Some t"
  using assms unfolding cpu_inv_def by metis+

lemma switched:
  assumes cpu: "cpu_inv k" and k1: "k1 = upd_queue c (\<lambda>_. q) k" and n: "core_id (threads k n) = c"
    and ready: "status (threads (suspend_previous c k1) n) = Ready" and disp: "sched_inv (dispatch c n (suspend_previous c k1))"
  shows "\<exists>k'. SwitchContext c (Some n) k1 = Some k' \<and> sched_inv k' \<and> cpu_inv k' \<and> current_thread (managers k' c) = Some n
    \<and> status (threads k' n) = Running \<and> runnable c k' = runnable c k \<union> {n}"
proof -
  let ?s = "suspend_previous c k1"
  obtain k' where k': "SwitchContext c (Some n) k1 = Some k'" "threads k' = threads (dispatch c n ?s)" "rq k' = rq (dispatch c n ?s)"
    "\<And>d. current_thread (managers k' d) = (if d = c then Some n else current_thread (managers k1 d))"
    using SwitchContext_to [OF ready] by blast
  have th: "status (threads k' u) = (if u = n then Running else status (threads ?s u))" "core_id (threads k' u) = core_id (threads k u)" for u
    using k'(2) by (simp_all add: dispatch_def on_cpu_def suspend_previous_simps k1)
  have "sched_inv k' = sched_inv (dispatch c n ?s)" using k'(2,3) by (intro sched_inv_cong) simp_all
  moreover have "cpu_inv k'"
    unfolding cpu_inv_def
  proof (intro allI conjI impI)
    fix d t assume "current_thread (managers k' d) = Some t"
    then show "core_id (threads k' t) = d" using cpu_invD(1) [OF cpu, of d t] n by (simp add: k'(4) th k1 split: if_splits)
  next
    fix t assume r: "status (threads k' t) = Running"
    show "current_thread (managers k' (core_id (threads k' t))) = Some t"
    proof (cases "t = n")
      case False
      with r have s: "status (threads k t) = Running" "current_thread (managers k c) \<noteq> Some t"
        by (auto simp: th suspend_previous_simps k1 split: if_splits)
      then have "core_id (threads k t) \<noteq> c" using cpu_invD(2) [OF cpu, of t c] by blast
      then show ?thesis using cpu_invD(2) [OF cpu refl s(1)] by (simp add: k'(4) th k1)
    qed (simp add: k'(4) th n)
  qed
  moreover have "runnable c k' = runnable c k \<union> {n}"
    using n by (auto simp: runnable_def th suspend_previous_simps k1)
  ultimately show ?thesis using k'(1,4) disp th by auto
qed

lemma sched_inv_requeue_same: "sched_inv (upd_queue c (\<lambda>_. rq k c) k) = sched_inv k"
  by (rule sched_inv_cong) (auto simp: fun_eq_iff)

lemma Reschedule_idles:
  assumes inv: "sched_inv k" and cpu: "cpu_inv k" and none: "runnable c k = {}"
    and pop: "PopNextReadyThread c k = Some (None, upd_queue c (\<lambda>_. rq k c) k)"
  shows "\<exists>k'. Reschedule c k = Some k' \<and> sched_inv k' \<and> cpu_inv k' \<and> runnable c k' = {} \<and> current_thread (managers k' c) = None"
proof -
  let ?k1 = "upd_queue c (\<lambda>_. rq k c) k"
  let ?s = "if current_thread (managers k c) = None then ?k1 else upd_manager c (\<lambda>m. m\<lparr>current_thread := None\<rparr>) (suspend_previous c ?k1)"
  have run: "Reschedule c k = Some ?s" using pop by (simp add: Reschedule_def SwitchContext_def Let_def)
  have "sched_inv (suspend_previous c ?k1)" using inv cpu_invD(1) [OF cpu] by (intro sched_inv_suspend) (simp_all add: sched_inv_requeue_same)
  then have "sched_inv ?s" using inv by (simp add: sched_inv_manager sched_inv_requeue_same)
  moreover have nr: "status (threads k t) = Running \<Longrightarrow> core_id (threads k t) \<noteq> c" for t using none by (auto simp: runnable_def)
  then have st: "status (threads ?s u) = status (threads k u)" "core_id (threads ?s u) = core_id (threads k u)" for u
    using cpu_invD(1) [OF cpu] by (auto simp: upd_manager_def suspend_previous_simps)
  moreover have ct: "current_thread (managers ?s d) = (if d = c then None else current_thread (managers k d))" for d
    by (auto simp: upd_manager_def suspend_previous_simps)
  then have "cpu_inv ?s" using cpu_invD [OF cpu] nr unfolding cpu_inv_def st ct by auto
  moreover have "runnable c ?s = {}" using none unfolding runnable_def st .
  ultimately show ?thesis using run ct [of c] by (intro exI [of _ ?s]) simp
qed

lemma chosen_dispatched:
  assumes inv: "sched_inv k" and cpu: "cpu_inv k" and ch: "next_choice c k (Some n) q"
  defines "k1 \<equiv> upd_queue c (\<lambda>_. q) k"
  shows "status (threads (suspend_previous c k1) n) = Ready" "sched_inv (dispatch c n (suspend_previous c k1))"
    "\<forall>t \<in> runnable c k. status (threads k t) = Running \<longrightarrow> t = n \<or> current_priority (threads k n) < current_priority (threads k t)"
proof -
  have n: "core_id (threads k n) = c" using ch by (auto simp: next_choice_def best_of_def runnable_def)
  have cur: "current_thread (managers k1 c) = Some p \<Longrightarrow> core_id (threads k1 p) = c" for p
    using cpu_invD(1) [OF cpu] by (simp add: k1_def)
  have "status (threads (suspend_previous c k1) n) = Ready \<and> sched_inv (dispatch c n (suspend_previous c k1))
      \<and> (\<forall>t \<in> runnable c k. status (threads k t) = Running \<longrightarrow> t = n \<or> current_priority (threads k n) < current_priority (threads k t))"
  proof (cases "status (threads k n) = Running")
    case True
    then have q: "q = rq k c" "current_thread (managers k c) = Some n" using ch cpu_invD(2) [OF cpu n] by (auto simp: next_choice_def)
    have "sched_inv (suspend_previous c k1)" using inv q sched_inv_suspend [OF _ cur] by (simp add: k1_def sched_inv_requeue_same)
    moreover have s: "status (threads (suspend_previous c k1) n) = Ready" using True q(2) by (simp add: suspend_previous_simps k1_def)
    ultimately have "sched_inv (dispatch c n (suspend_previous c k1))"
      using n by (intro sched_inv_dispatch_queued) (simp_all add: suspend_previous_simps k1_def)
    with s show ?thesis using cpu_invD(2) [OF cpu] q(2) by (fastforce simp: runnable_def)
  next
    case False
    then have sh: "sched_inv (on_cpu n k1)" and st: "status (threads k n) = Ready"
      "\<forall>t. t \<in> runnable c k \<longrightarrow> status (threads k t) = Running \<longrightarrow> current_priority (threads k n) < current_priority (threads k t)"
      using ch by (auto simp: next_choice_def best_of_def runnable_def k1_def)
    have "sched_inv (suspend_previous c (on_cpu n k1))" if "current_thread (managers k c) \<noteq> Some n"
      by (rule sched_inv_suspend [OF sh]) (use cur that in \<open>auto simp: on_cpu_def k1_def\<close>)
    then have "sched_inv (on_cpu n (suspend_previous c k1))"
      using sh False sched_inv_cong [of "on_cpu n (suspend_previous c k1)" "on_cpu n k1"]
        sched_inv_cong [of "on_cpu n (suspend_previous c k1)" "suspend_previous c (on_cpu n k1)"]
      by (cases "current_thread (managers k c) = Some n")
         (auto simp: on_cpu_def suspend_previous_simps k1_def split: option.splits)
    then have "sched_inv (dispatch c n (suspend_previous c k1))"
      by (rule sched_inv_dispatch_popped) (simp add: suspend_previous_simps n k1_def)
    with st show ?thesis by (auto simp: suspend_previous_simps k1_def)
  qed
  then show "status (threads (suspend_previous c k1) n) = Ready" "sched_inv (dispatch c n (suspend_previous c k1))"
    "\<forall>t \<in> runnable c k. status (threads k t) = Running \<longrightarrow> t = n \<or> current_priority (threads k n) < current_priority (threads k t)" by auto
qed

lemma cpu_inv_init: "cpu_inv (Kernel_init n)"
  by (simp add: cpu_inv_def Kernel_init_def ThreadManager_init_def Thread_blank_def)

text \<open>A created thread is queued at its priority; nothing else of the scheduler's state changes.\<close>

lemma CreateThread_ok:
  assumes inv: "sched_inv k" and cpu: "cpu_inv k" and blank: "status (threads k (next_object k)) = Dormant"
    and nc: "\<And>c. current_thread (managers k c) \<noteq> Some (next_object k)"
    and run: "CreateThread True lin entry prio arg pid stack process cores k = Some (MakeResult t, k')"
  shows "t = next_object k" "sched_inv k'" "cpu_inv k'" "status (threads k' t) = Ready" "core_id (threads k' t) = nat pid"
    "current_priority (threads k' t) = prio" "next_object k' = next_object k + 1" "\<And>u. u \<noteq> t \<Longrightarrow> threads k' u = threads k u"
    "\<And>c. current_thread (managers k' c) = current_thread (managers k c)"
proof -
  let ?c = "nat pid"
  have p: "prio \<le> ThreadPrioLowest" using run by (auto simp: CreateThread_def split: if_splits)
  have k': "t = next_object k" "rq k' = (rq k)(?c := push_back prio t (prepare prio (rq k ?c)))" "\<forall>u. u \<noteq> t \<longrightarrow> threads k' u = threads k u"
    "status (threads k' t) = Ready \<and> core_id (threads k' t) = ?c \<and> current_priority (threads k' t) = prio \<and> nominal_priority (threads k' t) = prio"
    "\<forall>c. current_thread (managers k' c) = current_thread (managers k c)" "next_object k' = next_object k + 1"
    using run by (auto simp: CreateThread_def Let_def upd_manager_def upd_queue_def upd_thread_def fresh_thread_def MakeResult_def ResultErr_def fun_eq_iff
        split: if_splits option.splits prod.splits)
  note D = sched_invD [OF inv]
  have lt: "prio < length (queues (rq k ?c))" using D(2) p by (simp add: less_Suc_eq_le)
  note P = tql.prep_law [OF D(1) lt]
  have B: "tql_inv (push_back prio t (prepare prio (rq k ?c)))" "length (queues (push_back prio t (prepare prio (rq k ?c)))) = ThreadPrioLowest + 1"
    "tql_level (push_back prio t (prepare prio (rq k ?c))) = (tql_level (rq k ?c))(prio := tql_level (rq k ?c) prio @ [t])"
    "tql_prepared (push_back prio t (prepare prio (rq k ?c))) = (tql_prepared (rq k ?c))(prio := True)"
    using tql.back_law [of "prepare prio (rq k ?c)" prio t] P lt D(2) [of ?c] by simp_all
  have notin: "t \<notin> set (tql_level (rq k ?c) i)" for i using D(4) [of t ?c i] blank k'(1) by simp
  show "sched_inv k'"
    by (rule sched_inv_update [OF inv, where t = t and q = "push_back prio t (prepare prio (rq k ?c))" and c = ?c and th = "threads k' t"])
       (use B D(3) notin p blank k' in auto)
  show "cpu_inv k'" unfolding cpu_inv_def
  proof (intro allI conjI impI)
    fix c u assume "current_thread (managers k' c) = Some u"
    then show "core_id (threads k' u) = c" using cpu_invD(1) [OF cpu, of c u] nc [of c] k'(1,3,5) by (cases "u = t") auto
  next
    fix u assume "status (threads k' u) = Running"
    then show "current_thread (managers k' (core_id (threads k' u))) = Some u"
      using cpu_invD(2) [OF cpu refl, of u] k'(3,4,5) by (cases "u = t") auto
  qed
  show "t = next_object k" "status (threads k' t) = Ready" "core_id (threads k' t) = nat pid"
    "current_priority (threads k' t) = prio" "next_object k' = next_object k + 1" "\<And>u. u \<noteq> t \<Longrightarrow> threads k' u = threads k u"
    "\<And>c. current_thread (managers k' c) = current_thread (managers k c)"
    using k' by auto
qed

lemma Reschedule_best:
  assumes inv: "sched_inv k" and cpu: "cpu_inv k"
  shows "\<exists>k'. Reschedule c k = Some k' \<and> sched_inv k' \<and> cpu_inv k' \<and> runnable c k' = runnable c k
    \<and> (case current_thread (managers k' c) of
         None \<Rightarrow> runnable c k = {}
       | Some n \<Rightarrow> best_of c k n \<and> status (threads k' n) = Running
           \<and> (\<forall>t \<in> runnable c k. status (threads k t) = Running \<longrightarrow> t = n
                \<or> current_priority (threads k n) < current_priority (threads k t)))"
proof -
  obtain r q where pop: "PopNextReadyThread c k = Some (r, upd_queue c (\<lambda>_. q) k)" and ch: "next_choice c k r q"
    using PopNextReadyThread_choice [OF assms] by blast
  show ?thesis
  proof (cases r)
    case None
    then have "q = rq k c" "runnable c k = {}" using ch by (auto simp: next_choice_def)
    then show ?thesis using Reschedule_idles [OF assms, of c] pop None by auto
  next
    case (Some n)
    then have best: "best_of c k n" and n: "core_id (threads k n) = c" using ch by (auto simp: next_choice_def best_of_def runnable_def)
    note chosen = chosen_dispatched [OF assms ch [unfolded Some]]
    obtain k' where "SwitchContext c (Some n) (upd_queue c (\<lambda>_. q) k) = Some k'" "sched_inv k'" "cpu_inv k'"
      "current_thread (managers k' c) = Some n" "status (threads k' n) = Running" "runnable c k' = runnable c k \<union> {n}"
      using switched [OF cpu refl n chosen(1,2)] by blast
    moreover have "runnable c k \<union> {n} = runnable c k" using best by (auto simp: best_of_def)
    moreover have "Reschedule c k = SwitchContext c (Some n) (upd_queue c (\<lambda>_. q) k)" using pop Some by (simp add: Reschedule_def Let_def)
    ultimately show ?thesis using best chosen(3) by (intro exI [of _ k']) simp
  qed
qed

text \<open>C1: With the ready queues and current threads consistent, rescheduling a core always succeeds. Afterwards the core
  runs a thread of the best priority among all its runnable threads, or idles when there is none; the
  set of runnable threads is the same, and a running thread is preempted only by one of strictly
  better priority.\<close>

theorem Reschedule_runs_best:
  assumes inv: "sched_inv k" and cpu: "cpu_inv k"
  shows "\<exists>k'. Reschedule c k = Some k' \<and> sched_inv k' \<and> cpu_inv k' \<and> runnable c k' = runnable c k
    \<and> (case current_thread (managers k' c) of
         None \<Rightarrow> runnable c k = {}
       | Some n \<Rightarrow> best_of c k n \<and> status (threads k' n) = Running
           \<and> (\<forall>t \<in> runnable c k. status (threads k t) = Running \<longrightarrow> t = n
                \<or> current_priority (threads k n) < current_priority (threads k t)))"
  by (rule Reschedule_best [OF assms])


definition one_thread :: "Kernel run" where
  "one_thread = map_option snd (CreateThread True (Some 0) 0x100000 48 0 0 0x8000000 0 1 (Kernel_init 1))"

lemma one_thread_ok:
  "\<exists>k. one_thread = Some k \<and> sched_inv k \<and> cpu_inv k \<and> status (threads k 0) = Ready \<and> core_id (threads k 0) = 0"
proof -
  have "\<exists>k. CreateThread True (Some 0) 0x100000 48 0 0 0x8000000 0 1 (Kernel_init 1) = Some (MakeResult 0, k)"
    by (simp add: CreateThread_def ThreadPrioLowest_def ThreadProcessorIdMax_def Kernel_init_def Let_def upd_manager_def)
  then obtain k where k: "CreateThread True (Some 0) 0x100000 48 0 0 0x8000000 0 1 (Kernel_init 1) = Some (MakeResult 0, k)" by blast
  have "status (threads (Kernel_init 1) (next_object (Kernel_init 1))) = Dormant"
    "\<And>c. current_thread (managers (Kernel_init 1) c) \<noteq> Some (next_object (Kernel_init 1))"
    by (simp_all add: Kernel_init_def Thread_blank_def ThreadManager_init_def)
  from CreateThread_ok [OF sched_inv_init cpu_inv_init this k] k show ?thesis by (simp add: one_thread_def)
qed

theorem Reschedule_runs_best_witness:
  "\<exists>k k'. one_thread = Some k \<and> Reschedule 0 k = Some k' \<and> (\<exists>n. current_thread (managers k' 0) = Some n \<and> status (threads k' n) = Running)"
proof -
  obtain k where k: "one_thread = Some k" "sched_inv k" "cpu_inv k" "status (threads k 0) = Ready" "core_id (threads k 0) = 0"
    using one_thread_ok by blast
  then have "runnable 0 k \<noteq> {}" by (auto simp: runnable_def)
  with Reschedule_runs_best [OF k(2,3), of 0] k(1) show ?thesis by (auto split: option.splits)
qed

end
