(* ===== verification/Address_Arbiter.thy ===== *)
theory Address_Arbiter
  imports Thread_Manager
begin

text \<open>
  \<^verbatim>\<open>Kernel::AddressArbiter\<close> of \<^verbatim>\<open>src/src/core/hle/kernel/address_arbiter.{h,cpp}\<close>. The emulated words
  it reads and writes are those of \<open>k_memory\<close>.
\<close>

datatype ArbitrationType = AT_Signal | AT_WaitIfLessThan | AT_DecrementAndWaitIfLessThan | AT_WaitIfLessThanWithTimeout
  | AT_DecrementAndWaitIfLessThanWithTimeout | AT_Unknown u32

definition set_waiting :: "oid \<Rightarrow> oid list \<Rightarrow> Kernel \<Rightarrow> Kernel" where
  "set_waiting a ts k = k\<lparr>arbiter_waiting := (arbiter_waiting k)(a := ts)\<rparr>"

definition WaitThread :: "oid \<Rightarrow> oid \<Rightarrow> nat \<Rightarrow> Kernel \<Rightarrow> Kernel" where
  "WaitThread a t address k =
     (let k = upd_thread t (\<lambda>x. x\<lparr>wait_address := address, status := WaitArb\<rparr>) k
      in set_waiting a (arbiter_waiting k a @ [t]) k)"

fun resume_each :: "oid list \<Rightarrow> Kernel \<Rightarrow> Kernel run" where
  "resume_each [] k = Some k"
| "resume_each (t # ts) k = ResumeFromWait t k \<bind> resume_each ts"

text \<open>\<^verbatim>\<open>std::stable_partition\<close>: those waiting elsewhere, then those waiting at the address.\<close>

definition partition_waiting :: "oid \<Rightarrow> nat \<Rightarrow> Kernel \<Rightarrow> (oid list \<times> oid list) run" where
  "partition_waiting a address k = do {
     ASSERT (list_all (\<lambda>t. status (threads k t) = WaitArb) (arbiter_waiting k a));
     Some (filter (\<lambda>t. wait_address (threads k t) \<noteq> address) (arbiter_waiting k a),
           filter (\<lambda>t. wait_address (threads k t) = address) (arbiter_waiting k a))
   }"

definition ResumeAllThreads :: "oid \<Rightarrow> nat \<Rightarrow> Kernel \<Rightarrow> Kernel run" where
  "ResumeAllThreads a address k = do {
     (others, matches) \<leftarrow> partition_waiting a address k;
     k \<leftarrow> resume_each matches k;
     Some (set_waiting a others k)
   }"

text \<open>\<^verbatim>\<open>std::min_element\<close>: the first thread of the best priority.\<close>

fun min_element :: "Kernel \<Rightarrow> oid list \<Rightarrow> oid option" where
  "min_element k [] = None"
| "min_element k (t # ts) =
     (case min_element k ts of
        None \<Rightarrow> Some t
      | Some u \<Rightarrow> if current_priority (threads k u) < current_priority (threads k t) then Some u else Some t)"

definition ResumeHighestPriorityThread :: "oid \<Rightarrow> nat \<Rightarrow> Kernel \<Rightarrow> (oid option \<times> Kernel) run" where
  "ResumeHighestPriorityThread a address k = do {
     (others, matches) \<leftarrow> partition_waiting a address k;
     (case min_element k matches of
        None \<Rightarrow> Some (None, set_waiting a (others @ matches) k)
      | Some t \<Rightarrow> do {
          k \<leftarrow> ResumeFromWait t k;
          Some (Some t, set_waiting a (others @ remove1 t matches) k) })
   }"

fun resume_n :: "nat \<Rightarrow> oid \<Rightarrow> nat \<Rightarrow> Kernel \<Rightarrow> Kernel run" where
  "resume_n 0 a address k = Some k"
| "resume_n (Suc n) a address k = ResumeHighestPriorityThread a address k \<bind> (\<lambda>(_, k). resume_n n a address k)"

definition CreateAddressArbiter :: "Kernel \<Rightarrow> oid \<times> Kernel" where
  "CreateAddressArbiter k = (next_object k, set_waiting (next_object k) [] (k\<lparr>next_object := next_object k + 1\<rparr>))"

definition Read32 :: "nat \<Rightarrow> Kernel \<Rightarrow> int" where "Read32 address k = sint (load32 address k)"

definition Write32 :: "nat \<Rightarrow> int \<Rightarrow> Kernel \<Rightarrow> Kernel" where
  "Write32 address v k = store address (to_bytes 4 (of_int v :: u32)) k"

text \<open>The sleep with a timeout: the nanoseconds, a \<^verbatim>\<open>u64\<close>, are converted to \<^verbatim>\<open>s64\<close>.\<close>

definition wait_timeout :: "oid \<Rightarrow> oid \<Rightarrow> nat \<Rightarrow> int \<Rightarrow> Kernel \<Rightarrow> Kernel run" where
  "wait_timeout a t address nanoseconds k = do {
     let k = upd_thread t (\<lambda>x. x\<lparr>wakeup_callback := Some (ArbiterCallback a)\<rparr>) k;
     k \<leftarrow> WakeAfterDelay t (to_s64 nanoseconds) k;
     Some (WaitThread a t address k)
   }"

definition decrement :: "nat \<Rightarrow> Kernel \<Rightarrow> Kernel run" where
  "decrement address k = do { ASSERT (s32_range (Read32 address k - 1)); Some (Write32 address (Read32 address k - 1) k) }"

definition ArbitrateAddress ::
    "oid \<Rightarrow> oid \<Rightarrow> ArbitrationType \<Rightarrow> nat \<Rightarrow> int \<Rightarrow> int \<Rightarrow> Kernel \<Rightarrow> (ResultCode \<times> Kernel) run" where
  "ArbitrateAddress a t ty address v nanoseconds k =
     (case ty of
        AT_Signal \<Rightarrow> do {
          k \<leftarrow> (if v < 0 then ResumeAllThreads a address k else resume_n (nat v) a address k);
          Some (RESULT_SUCCESS, k) }
      | AT_WaitIfLessThan \<Rightarrow>
          Some (RESULT_SUCCESS, if Read32 address k < v then WaitThread a t address k else k)
      | AT_WaitIfLessThanWithTimeout \<Rightarrow> do {
          k \<leftarrow> (if Read32 address k < v then wait_timeout a t address nanoseconds k else Some k);
          Some (RESULT_TIMEOUT, k) }
      | AT_DecrementAndWaitIfLessThan \<Rightarrow> do {
          k \<leftarrow> (if Read32 address k < v then map_option (WaitThread a t address) (decrement address k) else Some k);
          Some (RESULT_SUCCESS, k) }
      | AT_DecrementAndWaitIfLessThanWithTimeout \<Rightarrow> do {
          k \<leftarrow> (if Read32 address k < v then decrement address k \<bind> wait_timeout a t address nanoseconds else Some k);
          Some (RESULT_TIMEOUT, k) }
      | AT_Unknown _ \<Rightarrow> Some (ERR_INVALID_ENUM_VALUE_FND, k))"

section \<open>Signalling\<close>

definition arbiter_inv :: "oid \<Rightarrow> Kernel \<Rightarrow> bool" where
  "arbiter_inv a k \<longleftrightarrow> distinct (arbiter_waiting k a)
     \<and> (\<forall>t \<in> set (arbiter_waiting k a). status (threads k t) = WaitArb \<and> wait_objects (threads k t) = [])"

definition waiting_at :: "oid \<Rightarrow> nat \<Rightarrow> Kernel \<Rightarrow> oid list" where
  "waiting_at a address k = filter (\<lambda>t. wait_address (threads k t) = address) (arbiter_waiting k a)"

definition waiting_elsewhere :: "oid \<Rightarrow> nat \<Rightarrow> Kernel \<Rightarrow> oid list" where
  "waiting_elsewhere a address k = filter (\<lambda>t. wait_address (threads k t) \<noteq> address) (arbiter_waiting k a)"

lemma partition_waiting_eq:
  "arbiter_inv a k \<Longrightarrow> partition_waiting a address k = Some (waiting_elsewhere a address k, waiting_at a address k)"
  by (simp add: partition_waiting_def arbiter_inv_def waiting_at_def waiting_elsewhere_def list_all_iff)

lemma resume_WaitArb:
  "status (threads k t) = WaitArb \<Longrightarrow> wait_objects (threads k t) = [] \<Longrightarrow> ResumeFromWait t k = Some (made_ready t k)"
  by (rule ResumeFromWait_sleeping) (simp_all add: sleeping_def)

lemma resume_each_ready:
  assumes "sched_inv k" "distinct ts" "\<forall>t \<in> set ts. status (threads k t) = WaitArb \<and> wait_objects (threads k t) = []"
  shows "\<exists>k'. resume_each ts k = Some k' \<and> sched_inv k' \<and> arbiter_waiting k' = arbiter_waiting k \<and> wait_object k' = wait_object k
    \<and> (\<forall>u. threads k' u = (if u \<in> set ts then (threads k u)\<lparr>wakeup_callback := None, status := Ready\<rparr> else threads k u))"
  using assms
proof (induction ts arbitrary: k)
  case (Cons t ts)
  have r: "ResumeFromWait t k = Some (made_ready t k)" using Cons.prems by (intro resume_WaitArb) auto
  have s: "sched_inv (made_ready t k)" using Cons.prems by (intro sched_inv_made_ready) (simp_all add: sleeping_def)
  have "\<forall>u \<in> set ts. status (threads (made_ready t k) u) = WaitArb \<and> wait_objects (threads (made_ready t k) u) = []"
    using Cons.prems by (auto simp: made_ready_simps)
  from Cons.IH [OF s _ this] Cons.prems(2) r show ?case by (auto simp: made_ready_simps)
qed simp

lemma sched_inv_set_waiting [simp]: "sched_inv (set_waiting a ts k) = sched_inv k"
  by (rule sched_inv_cong) (simp_all add: set_waiting_def)


lemma min_element_None [simp]: "min_element k ts = None \<longleftrightarrow> ts = []"
  by (cases ts) (auto split: option.splits)

lemma min_element_Some:
  "min_element k ts = Some t \<Longrightarrow> t \<in> set ts \<and> (\<forall>u \<in> set ts. current_priority (threads k t) \<le> current_priority (threads k u))"
proof (induction ts arbitrary: t)
  case (Cons x ts)
  then show ?case by (cases "min_element k ts") (fastforce split: if_splits)+
qed simp

definition woken_first :: "oid \<Rightarrow> nat \<Rightarrow> oid set \<Rightarrow> Kernel \<Rightarrow> Kernel \<Rightarrow> bool" where
  "woken_first a address ws k k' \<longleftrightarrow> sched_inv k' \<and> arbiter_inv a k' \<and> ws \<subseteq> set (waiting_at a address k)
     \<and> set (waiting_at a address k') = set (waiting_at a address k) - ws
     \<and> waiting_elsewhere a address k' = waiting_elsewhere a address k
     \<and> (\<forall>u. threads k' u = (if u \<in> ws then (threads k u)\<lparr>wakeup_callback := None, status := Ready\<rparr> else threads k u))
     \<and> (\<forall>t \<in> ws. \<forall>u \<in> set (waiting_at a address k) - ws. current_priority (threads k t) \<le> current_priority (threads k u))"

lemma waiting_sets: "set (arbiter_waiting k a) = set (waiting_elsewhere a address k) \<union> set (waiting_at a address k)"
  by (auto simp: waiting_elsewhere_def waiting_at_def)

lemma ResumeHighest_run:
  assumes "arbiter_inv a k" "min_element k (waiting_at a address k) = Some t"
  shows "ResumeHighestPriorityThread a address k
    = Some (Some t, set_waiting a (waiting_elsewhere a address k @ remove1 t (waiting_at a address k)) (made_ready t k))"
proof -
  have "t \<in> set (arbiter_waiting k a)" using min_element_Some [OF assms(2)] by (auto simp: waiting_at_def)
  then have "status (threads k t) = WaitArb" "wait_objects (threads k t) = []" using assms(1) by (auto simp: arbiter_inv_def)
  then show ?thesis by (simp add: ResumeHighestPriorityThread_def partition_waiting_eq [OF assms(1)] assms(2) resume_WaitArb)
qed

lemma ResumeHighest_step:
  assumes inv: "sched_inv k" "arbiter_inv a k" and t: "min_element k (waiting_at a address k) = Some t"
  shows "\<exists>k'. ResumeHighestPriorityThread a address k = Some (Some t, k') \<and> woken_first a address {t} k k'"
proof -
  let ?at = "waiting_at a address k" and ?els = "waiting_elsewhere a address k"
  have m: "t \<in> set ?at" "\<forall>u \<in> set ?at. current_priority (threads k t) \<le> current_priority (threads k u)"
    using min_element_Some [OF t] by auto
  then have ta: "t \<in> set (arbiter_waiting k a)" by (auto simp: waiting_at_def)
  then have s: "status (threads k t) = WaitArb" "wait_objects (threads k t) = []" using inv(2) by (auto simp: arbiter_inv_def)
  let ?k' = "set_waiting a (?els @ remove1 t ?at) (made_ready t k)"
  note run = ResumeHighest_run [OF inv(2) t]
  have d: "distinct ?at" "distinct ?els" using inv(2) by (auto simp: arbiter_inv_def waiting_at_def waiting_elsewhere_def)
  have sr: "set (remove1 t ?at) = set ?at - {t}" using d(1) by (simp add: set_remove1_eq)
  have mem: "u \<in> set ?at \<longleftrightarrow> u \<in> set (arbiter_waiting k a) \<and> wait_address (threads k u) = address"
    "u \<in> set ?els \<longleftrightarrow> u \<in> set (arbiter_waiting k a) \<and> wait_address (threads k u) \<noteq> address" for u
    by (auto simp: waiting_at_def waiting_elsewhere_def)
  have sched: "sched_inv ?k'" using inv(1) s by (simp add: sched_inv_made_ready sleeping_def)
  have th: "threads ?k' u = (if u = t then (threads k u)\<lparr>wakeup_callback := None, status := Ready\<rparr> else threads k u)" for u
    by (simp add: set_waiting_def made_ready_simps)
  have wa: "wait_address (threads ?k' u) = wait_address (threads k u)" for u by (simp add: th)
  have w: "arbiter_waiting ?k' a = ?els @ remove1 t ?at" by (simp add: set_waiting_def)
  have f: "filter (\<lambda>u. wait_address (threads k u) \<noteq> address) (remove1 t ?at) = []" "filter (\<lambda>u. wait_address (threads k u) = address) ?els = []"
    "filter (\<lambda>u. wait_address (threads k u) \<noteq> address) ?els = ?els" "filter (\<lambda>u. wait_address (threads k u) = address) (remove1 t ?at) = remove1 t ?at"
    by (auto simp: filter_empty_conv filter_id_conv sr mem)
  have at': "waiting_at a address ?k' = remove1 t ?at" "waiting_elsewhere a address ?k' = ?els"
    unfolding waiting_at_def [of a address ?k'] waiting_elsewhere_def [of a address ?k'] wa w using f by simp_all
  have "arbiter_inv a ?k'" unfolding arbiter_inv_def w
  proof
    show "distinct (?els @ remove1 t ?at)" using d by (auto simp: distinct_remove1 sr mem)
    show "\<forall>u \<in> set (?els @ remove1 t ?at). status (threads ?k' u) = WaitArb \<and> wait_objects (threads ?k' u) = []"
    proof
      fix u assume "u \<in> set (?els @ remove1 t ?at)"
      then have "u \<noteq> t \<and> u \<in> set (arbiter_waiting k a)" using m(1) unfolding set_append sr Un_iff Diff_iff mem by blast
      then show "status (threads ?k' u) = WaitArb \<and> wait_objects (threads ?k' u) = []" using inv(2) by (simp add: th arbiter_inv_def)
    qed
  qed
  then show ?thesis using run sched th at' m d(1) by (intro exI [of _ ?k']) (auto simp: woken_first_def sr)
qed

lemma woken_first_trans:
  assumes "woken_first a address ws k k'" "woken_first a address vs k' k''"
  shows "woken_first a address (ws \<union> vs) k k''"
proof -
  have p: "current_priority (threads k' u) = current_priority (threads k u)" for u using assms(1) by (simp add: woken_first_def)
  have d: "ws \<inter> vs = {}" "vs \<subseteq> set (waiting_at a address k) - ws" using assms by (auto simp: woken_first_def)
  show ?thesis using assms p d unfolding woken_first_def by (intro conjI) (blast | auto)+
qed

lemma woken_first_none: "sched_inv k \<Longrightarrow> arbiter_inv a k \<Longrightarrow> woken_first a address {} k k"
  by (simp add: woken_first_def)

lemma ResumeHighest_none:
  assumes "arbiter_inv a k" "waiting_at a address k = []"
  shows "ResumeHighestPriorityThread a address k = Some (None, k)"
proof -
  have "waiting_elsewhere a address k = arbiter_waiting k a"
    using assms(2) by (auto simp: waiting_elsewhere_def waiting_at_def filter_empty_conv filter_id_conv)
  then show ?thesis
    by (simp add: ResumeHighestPriorityThread_def partition_waiting_eq [OF assms(1)] assms(2) set_waiting_def fun_upd_triv)
qed

lemma distinct_waiting_at: "arbiter_inv a k \<Longrightarrow> distinct (waiting_at a address k)"
  by (simp add: arbiter_inv_def waiting_at_def)

lemma card_waiting_at: "arbiter_inv a k \<Longrightarrow> card (set (waiting_at a address k)) = length (waiting_at a address k)"
  by (simp add: distinct_card distinct_waiting_at)

lemma resume_n_woken:
  assumes "sched_inv k" "arbiter_inv a k"
  shows "\<exists>k' ws. resume_n n a address k = Some k' \<and> woken_first a address ws k k'
    \<and> card ws = min n (length (waiting_at a address k))"
  using assms
proof (induction n arbitrary: k)
  case 0
  then show ?case by (auto intro: woken_first_none exI [of _ "{}"])
next
  case (Suc n)
  show ?case
  proof (cases "min_element k (waiting_at a address k)")
    case None
    then have e: "waiting_at a address k = []" by simp
    obtain k' ws where "resume_n n a address k = Some k'" "woken_first a address ws k k'" "card ws = 0"
      using Suc.IH [OF Suc.prems] e by auto
    then show ?thesis using ResumeHighest_none [OF Suc.prems(2) e] e by auto
  next
    case (Some t)
    obtain k1 where r: "ResumeHighestPriorityThread a address k = Some (Some t, k1)" and w: "woken_first a address {t} k k1"
      using ResumeHighest_step [OF Suc.prems Some] by blast
    have i1: "sched_inv k1" "arbiter_inv a k1" using w by (auto simp: woken_first_def)
    obtain k' ws where n: "resume_n n a address k1 = Some k'" "woken_first a address ws k1 k'"
      "card ws = min n (length (waiting_at a address k1))" using Suc.IH [OF i1] by blast
    have tin: "t \<in> set (waiting_at a address k)" using min_element_Some [OF Some] by simp
    have s1: "set (waiting_at a address k1) = set (waiting_at a address k) - {t}" using w by (simp add: woken_first_def)
    then have len: "length (waiting_at a address k) = Suc (length (waiting_at a address k1))"
      using tin card_waiting_at [OF i1(2)] card_waiting_at [OF Suc.prems(2)] by (metis List.finite_set card.remove)
    have "ws \<subseteq> set (waiting_at a address k1)" using n(2) by (simp add: woken_first_def)
    then have "t \<notin> ws" "finite ws" using s1 finite_subset [OF \<open>ws \<subseteq> _\<close> List.finite_set] by auto
    then have "card ({t} \<union> ws) = min (Suc n) (length (waiting_at a address k))" using n(3) len by simp
    then show ?thesis using r n(1) woken_first_trans [OF w n(2)] by auto
  qed
qed

lemma ResumeAll_woken:
  assumes "sched_inv k" "arbiter_inv a k"
  shows "\<exists>k'. ResumeAllThreads a address k = Some k' \<and> woken_first a address (set (waiting_at a address k)) k k'"
proof -
  let ?at = "waiting_at a address k" and ?els = "waiting_elsewhere a address k"
  have "\<forall>t \<in> set ?at. status (threads k t) = WaitArb \<and> wait_objects (threads k t) = []"
    using assms(2) by (auto simp: arbiter_inv_def waiting_at_def)
  from resume_each_ready [OF assms(1) distinct_waiting_at [OF assms(2)] this] obtain k1
    where r: "resume_each ?at k = Some k1" "sched_inv k1"
      and th: "\<And>u. threads k1 u = (if u \<in> set ?at then (threads k u)\<lparr>wakeup_callback := None, status := Ready\<rparr> else threads k u)"
    by blast
  let ?k' = "set_waiting a ?els k1"
  have wa: "wait_address (threads ?k' u) = wait_address (threads k u)" for u by (simp add: set_waiting_def th)
  have w: "arbiter_waiting ?k' a = ?els" "threads ?k' = threads k1" by (simp_all add: set_waiting_def)
  have at': "waiting_at a address ?k' = []" "waiting_elsewhere a address ?k' = ?els"
    unfolding waiting_at_def [of a address ?k'] waiting_elsewhere_def [of a address ?k'] wa w(1)
    by (simp_all add: waiting_elsewhere_def)
  have "u \<in> set ?els \<longrightarrow> u \<notin> set ?at \<and> u \<in> set (arbiter_waiting k a)" for u by (auto simp: waiting_at_def waiting_elsewhere_def)
  then have "arbiter_inv a ?k'" using assms(2) unfolding arbiter_inv_def w by (auto simp: th waiting_elsewhere_def)
  then show ?thesis using r at' w th
    by (intro exI [of _ ?k']) (simp add: ResumeAllThreads_def partition_waiting_eq [OF assms(2)] woken_first_def)
qed

text \<open>
  C10: Signalling an address returns success and wakes, of the threads that wait on the arbiter at that address, all
  of them when the value is negative and otherwise as many as the value asks for, or all when fewer wait. The woken
  threads become ready and have priorities no worse than those left waiting; the threads left waiting, those that
  wait at another address and every other thread are unchanged, and the scheduler and arbiter invariants hold.
\<close>
theorem ArbitrateAddress_Signal_spec:
  assumes "sched_inv k" "arbiter_inv a k"
  shows "\<exists>k' ws. ArbitrateAddress a t AT_Signal address v ns k = Some (RESULT_SUCCESS, k') \<and> woken_first a address ws k k'
    \<and> card ws = (if v < 0 then length (waiting_at a address k) else min (nat v) (length (waiting_at a address k)))"
  using resume_n_woken [OF assms, of "nat v" address] ResumeAll_woken [OF assms, of address] card_waiting_at [OF assms(2), of address]
  by (cases "v < 0") (auto simp: ArbitrateAddress_def)

text \<open>Three threads wait on arbiter 7: 0 and 2 at address 64, 1 at address 128.\<close>

definition arb_example :: Kernel where
  "arb_example = Kernel_init 1
     \<lparr>threads := (\<lambda>t. (threads (Kernel_init 1) t)\<lparr>status := WaitArb, wait_objects := [], wait_address := if t = 1 then 128 else 64,
        current_priority := if t = 2 then 20 else 30\<rparr>),
      managers := (\<lambda>_. ThreadManager_init\<lparr>ready_queue := prepare 20 (prepare 30 (ThreadQueueList_init 64))\<rparr>),
      arbiter_waiting := (\<lambda>_. [])(7 := [0, 1, 2])\<rparr>"

lemma arb_example_inv: "sched_inv arb_example" "arbiter_inv 7 arb_example" "waiting_at 7 64 arb_example = [0, 2]"
proof -
  let ?q = "prepare 30 (ThreadQueueList_init 64) :: oid ThreadQueueList"
  note i = queue_init [where n = 64]
  have "30 < length (queues (ThreadQueueList_init 64))" by (simp add: i)
  note P = tql.prep_law [OF i(1) this]
  have "20 < length (queues ?q)" by (simp add: P i)
  note Q = tql.prep_law [OF P [THEN conjunct1] this]
  show "sched_inv arb_example"
    by (simp add: arb_example_def sched_inv_def thread_ok_def Kernel_init_def ThreadManager_init_def Thread_blank_def P Q i
      ThreadPrioLowest_def)
qed (simp_all add: arb_example_def Kernel_init_def arbiter_inv_def waiting_at_def)

theorem ArbitrateAddress_Signal_spec_witness:
  "\<exists>k' ws. ArbitrateAddress 7 5 AT_Signal 64 1 0 arb_example = Some (RESULT_SUCCESS, k') \<and> woken_first 7 64 ws arb_example k'
    \<and> card ws = 1"
  using ArbitrateAddress_Signal_spec [OF arb_example_inv(1,2), of 5 64 1 0] unfolding arb_example_inv(3) by simp

section \<open>Waiting\<close>

text \<open>The state once thread \<open>t\<close> went to sleep at the address.\<close>

definition asleep_at :: "oid \<Rightarrow> oid \<Rightarrow> nat \<Rightarrow> Kernel \<Rightarrow> Kernel \<Rightarrow> bool" where
  "asleep_at a t address k k' \<longleftrightarrow> sched_inv k' \<and> arbiter_inv a k' \<and> waiting_at a address k' = waiting_at a address k @ [t]
     \<and> waiting_elsewhere a address k' = waiting_elsewhere a address k \<and> status (threads k' t) = WaitArb
     \<and> (\<forall>u. u \<noteq> t \<longrightarrow> threads k' u = threads k u)"

text \<open>
  The word at the address is one lower and every other byte of memory is as it was; at an address that is not mapped nothing is
  stored.
\<close>

definition word_lowered :: "nat \<Rightarrow> Kernel \<Rightarrow> Kernel \<Rightarrow> bool" where
  "word_lowered address k k' \<longleftrightarrow>
     (case place_of (k_memory k) address of
        None \<Rightarrow> k_memory k' = k_memory k
      | Some p \<Rightarrow> Read32 address k' = Read32 address k - 1 \<and> place_of (k_memory k') = place_of (k_memory k)
          \<and> (\<forall>x. \<not> (p \<le> x \<and> x < p + 4) \<longrightarrow> byte_of (k_memory k') x = byte_of (k_memory k) x))"

text \<open>
  The wake-up of thread \<open>t\<close> is among the events of the running core, for the delay in cycles after now, and no other event was added or
  lost; a delay of -1 nanoseconds is forever, without a wake-up.
\<close>

definition wake_up_queued :: "oid \<Rightarrow> int \<Rightarrow> Kernel \<Rightarrow> Kernel \<Rightarrow> bool" where
  "wake_up_queued t ns k k' \<longleftrightarrow>
     (if ns = - 1 then k_timing k' = k_timing k
      else let i = current_timer (k_timing k)
        in \<exists>e. set (event_queue (timers (k_timing k') ! i)) = insert e (set (event_queue (timers (k_timing k) ! i)))
          \<and> ev_type e = wakeup_event_type (core_id (threads k t)) \<and> userdata e = thread_id (threads k t)
          \<and> ev_time e = to_s64 (GetTicks (timers (k_timing k) ! i) + nsToCycles_s64 ns))"

lemma wake_up_queued_cong:
  assumes "wake_up_queued t ns k1 k2" "k_timing k' = k_timing k2" "k_timing k1 = k_timing k"
    "core_id (threads k1 t) = core_id (threads k t)" "thread_id (threads k1 t) = thread_id (threads k t)"
  shows "wake_up_queued t ns k k'"
  using assms(1) by (simp only: wake_up_queued_def assms(2-5))

lemma waiting_cong:
  assumes "arbiter_waiting k' a = arbiter_waiting k a @ ts" "\<forall>u \<in> set (arbiter_waiting k a). threads k' u = threads k u"
  shows "waiting_at a address k' = waiting_at a address k @ filter (\<lambda>t. wait_address (threads k' t) = address) ts"
    "waiting_elsewhere a address k' = waiting_elsewhere a address k @ filter (\<lambda>t. wait_address (threads k' t) \<noteq> address) ts"
  using assms by (auto simp: waiting_at_def waiting_elsewhere_def intro!: filter_cong)

lemma WaitThread_asleep:
  assumes inv: "sched_inv k1" "arbiter_inv a k" and t: "status (threads k t) = Running" "wait_objects (threads k t) = []"
    and k1: "arbiter_waiting k1 = arbiter_waiting k" "threads k1 = (threads k)(t := (threads k t)\<lparr>wakeup_callback := cb\<rparr>)"
  shows "asleep_at a t address k (WaitThread a t address k1) \<and> wakeup_callback (threads (WaitThread a t address k1) t) = cb
    \<and> k_memory (WaitThread a t address k1) = k_memory k1 \<and> k_timing (WaitThread a t address k1) = k_timing k1"
proof -
  let ?k' = "WaitThread a t address k1"
  have th: "threads ?k' = (threads k)(t := (threads k t)\<lparr>wakeup_callback := cb, wait_address := address, status := WaitArb\<rparr>)"
    "arbiter_waiting ?k' a = arbiter_waiting k a @ [t]"
    by (simp_all add: WaitThread_def set_waiting_def upd_thread_def k1)
  have n: "t \<notin> set (arbiter_waiting k a)" using inv t by (auto simp: arbiter_inv_def)
  then have "arbiter_inv a ?k'" using inv(2) t(2) by (auto simp: arbiter_inv_def th)
  moreover have "sched_inv ?k'" using inv(1) t(1) k1(2) unfolding WaitThread_def Let_def by (simp add: sched_inv_not_ready)
  moreover have "\<forall>u \<in> set (arbiter_waiting k a). threads ?k' u = threads k u" using n by (auto simp: th)
  ultimately show ?thesis using waiting_cong [of ?k' a k "[t]" address] th
    by (simp add: asleep_at_def) (simp add: WaitThread_def set_waiting_def upd_thread_def)
qed

definition can_schedule :: "Kernel \<Rightarrow> bool" where
  "can_schedule k \<longleftrightarrow> current_timer (k_timing k) < length (timers (k_timing k))"

lemma WakeAfterDelay_Some: "can_schedule k \<Longrightarrow> \<exists>tm. WakeAfterDelay t ns k = Some (k\<lparr>k_timing := tm\<rparr>)"
  by (auto simp: WakeAfterDelay_def schedule_def ScheduleEvent_def can_schedule_def Let_def intro: exI [of _ "k_timing k"])

lemma WakeAfterDelay_queues:
  assumes "can_schedule k"
  shows "\<exists>tm. WakeAfterDelay t ns k = Some (k\<lparr>k_timing := tm\<rparr>) \<and> wake_up_queued t ns k (k\<lparr>k_timing := tm\<rparr>)"
proof (cases "ns = - 1")
  case True
  then show ?thesis by (intro exI [of _ "k_timing k"]) (simp add: WakeAfterDelay_def wake_up_queued_def)
next
  case False
  let ?i = "current_timer (k_timing k)"
  let ?t = "timers (k_timing k) ! ?i"
  let ?e = "\<lparr>ev_time = to_s64 (GetTicks ?t + nsToCycles_s64 ns), fifo_order = event_fifo_id ?t,
    userdata = thread_id (threads k t), ev_type = wakeup_event_type (core_id (threads k t))\<rparr>"
  from ScheduleEvent_running [OF assms [unfolded can_schedule_def]] obtain tm where
    "ScheduleEvent (nsToCycles_s64 ns) (ev_type ?e) (userdata ?e) None (k_timing k) = Some tm" and q: "event_queue (timers tm ! ?i) = push_heap ?e (event_queue ?t)"
    by fastforce
  then have tm: "WakeAfterDelay t ns k = Some (k\<lparr>k_timing := tm\<rparr>)" "set (event_queue (timers tm ! ?i)) = insert ?e (set (event_queue ?t))"
    using False by (simp_all add: WakeAfterDelay_def schedule_def)
  have "wake_up_queued t ns k (k\<lparr>k_timing := tm\<rparr>)" unfolding wake_up_queued_def Let_def
    using False tm(2) by (simp only: if_False) (rule exI [of _ ?e], simp)
  with tm(1) show ?thesis by blast
qed

lemma wait_timeout_asleep:
  assumes inv: "sched_inv k1" "arbiter_inv a k" and t: "status (threads k t) = Running" "wait_objects (threads k t) = []"
    and c: "can_schedule k" and k1: "arbiter_waiting k1 = arbiter_waiting k" "threads k1 = threads k" "k_timing k1 = k_timing k"
  shows "\<exists>k'. wait_timeout a t address ns k1 = Some k' \<and> asleep_at a t address k k' \<and> wakeup_callback (threads k' t) = Some (ArbiterCallback a)
    \<and> k_memory k' = k_memory k1 \<and> wake_up_queued t (to_s64 ns) k k'"
proof -
  let ?k0 = "upd_thread t (\<lambda>x. x\<lparr>wakeup_callback := Some (ArbiterCallback a)\<rparr>) k1"
  have th: "threads ?k0 = (threads k)(t := (threads k t)\<lparr>wakeup_callback := Some (ArbiterCallback a)\<rparr>)" "k_timing ?k0 = k_timing k"
    "arbiter_waiting ?k0 = arbiter_waiting k" "k_memory ?k0 = k_memory k1"
    by (simp_all add: upd_thread_def k1)
  have "can_schedule ?k0" using c by (simp only: can_schedule_def th)
  then obtain tm where w: "WakeAfterDelay t (to_s64 ns) ?k0 = Some (?k0\<lparr>k_timing := tm\<rparr>)" "wake_up_queued t (to_s64 ns) ?k0 (?k0\<lparr>k_timing := tm\<rparr>)"
    using WakeAfterDelay_queues by blast
  have "sched_inv (?k0\<lparr>k_timing := tm\<rparr>)" using inv(1) by (simp add: sched_inv_upd_thread)
  note A = WaitThread_asleep [OF this inv(2) t, of "Some (ArbiterCallback a)" address]
  let ?k' = "WaitThread a t address (?k0\<lparr>k_timing := tm\<rparr>)"
  have A: "asleep_at a t address k ?k' \<and> wakeup_callback (threads ?k' t) = Some (ArbiterCallback a)
      \<and> k_memory ?k' = k_memory k1 \<and> k_timing ?k' = tm"
    using A th by simp
  moreover have "wake_up_queued t (to_s64 ns) k ?k'"
    by (rule wake_up_queued_cong [OF w(2)]) (use A th k1 in \<open>simp_all\<close>)
  ultimately show ?thesis using w(1) by (simp add: wait_timeout_def)
qed

lemma decrement_lowers:
  assumes "- (2 ^ 31) < Read32 address k"
  shows "\<exists>k1 m. decrement address k = Some k1 \<and> k1 = k\<lparr>k_memory := m\<rparr> \<and> word_lowered address k k1"
proof -
  have lt: "sint (load32 address k) < 2 ^ 31" using sint_lt [of "load32 address k"] by simp
  let ?v = "word_of_int (Read32 address k - 1) :: u32"
  have v: "sint ?v = Read32 address k - 1"
    unfolding sint_sbintrunc' using assms lt by (simp add: Read32_def signed_take_bit_int_eq_self)
  obtain m where m: "store address (to_bytes 4 ?v) k = k\<lparr>k_memory := m\<rparr>" by (rule store_memory)
  have "word_lowered address k (store address (to_bytes 4 ?v) k)"
    using load_store [of address ?v k] v by (cases "place_of (k_memory k) address") (auto simp: word_lowered_def Read32_def store_def)
  moreover have "decrement address k = Some (store address (to_bytes 4 ?v) k)"
    using assms lt by (simp add: decrement_def s32_range_def Write32_def Read32_def)
  ultimately show ?thesis using m by metis
qed

definition with_timeout :: "ArbitrationType \<Rightarrow> bool" where
  "with_timeout ty \<longleftrightarrow> ty = AT_WaitIfLessThanWithTimeout \<or> ty = AT_DecrementAndWaitIfLessThanWithTimeout"

definition decrementing :: "ArbitrationType \<Rightarrow> bool" where
  "decrementing ty \<longleftrightarrow> ty = AT_DecrementAndWaitIfLessThan \<or> ty = AT_DecrementAndWaitIfLessThanWithTimeout"

text \<open>
  C11: The waiting requests of the arbiter. When the word at the address is not less than the value nothing changes, and an
  unknown request is refused with \<open>ERR_INVALID_ENUM_VALUE_FND\<close>. When it is less, the running thread is queued behind
  the threads that already wait, asleep at that address with the invariants kept. The decrementing requests (for which the word must not be
  the least \<^verbatim>\<open>s32\<close>) lower the word by one, if the address is mapped, and no request changes another byte of memory. The requests with a
  timeout give the thread the callback of the arbiter and queue its wake-up after the nanoseconds given, or none for -1; the others
  queue no event. The requests with a timeout return \<open>RESULT_TIMEOUT\<close> whether the thread sleeps or not.
\<close>

theorem ArbitrateAddress_wait_spec:
  assumes inv: "sched_inv k" "arbiter_inv a k" and t: "status (threads k t) = Running" "wait_objects (threads k t) = []"
    and c: "can_schedule k" and ty: "ty \<noteq> AT_Signal" and dec: "decrementing ty \<longrightarrow> - (2 ^ 31) < Read32 address k"
  shows "\<exists>r k'. ArbitrateAddress a t ty address v ns k = Some (r, k')
    \<and> (case ty of AT_Unknown _ \<Rightarrow> r = ERR_INVALID_ENUM_VALUE_FND \<and> k' = k
       | _ \<Rightarrow> r = (if with_timeout ty then RESULT_TIMEOUT else RESULT_SUCCESS)
          \<and> (if Read32 address k < v
             then asleep_at a t address k k'
               \<and> (if decrementing ty then word_lowered address k k' else k_memory k' = k_memory k)
               \<and> (if with_timeout ty then wakeup_callback (threads k' t) = Some (ArbiterCallback a) \<and> wake_up_queued t (to_s64 ns) k k'
                  else wakeup_callback (threads k' t) = wakeup_callback (threads k t) \<and> k_timing k' = k_timing k)
             else k' = k))"
proof -
  have same: "threads k = (threads k)(t := (threads k t)\<lparr>wakeup_callback := wakeup_callback (threads k t)\<rparr>)" by simp
  note W = WaitThread_asleep [OF inv t refl same, of address]
  obtain k2 where T: "wait_timeout a t address ns k = Some k2" "asleep_at a t address k k2" "wakeup_callback (threads k2 t) = Some (ArbiterCallback a)"
    "k_memory k2 = k_memory k" "wake_up_queued t (to_s64 ns) k k2"
    using wait_timeout_asleep [OF inv t c refl refl refl] by blast
  have D: "\<exists>k1 k3. decrement address k = Some k1 \<and> asleep_at a t address k (WaitThread a t address k1) \<and> word_lowered address k (WaitThread a t address k1)
      \<and> wakeup_callback (threads (WaitThread a t address k1) t) = wakeup_callback (threads k t) \<and> k_timing (WaitThread a t address k1) = k_timing k
      \<and> wait_timeout a t address ns k1 = Some k3 \<and> asleep_at a t address k k3 \<and> word_lowered address k k3
      \<and> wakeup_callback (threads k3 t) = Some (ArbiterCallback a) \<and> wake_up_queued t (to_s64 ns) k k3" if d: "- (2 ^ 31) < Read32 address k"
  proof -
    from decrement_lowers [OF d] obtain k1 m where k1: "decrement address k = Some k1" "k1 = k\<lparr>k_memory := m\<rparr>" "word_lowered address k k1" by blast
    have s: "sched_inv k1" using inv(1) by (subst sched_inv_cong [where k = k]) (simp_all add: k1(2))
    have lw: "word_lowered address k k'" if "k_memory k' = k_memory k1" for k'
      using k1(3) that by (simp add: word_lowered_def Read32_def load32_def split: option.splits)
    have e: "arbiter_waiting k1 = arbiter_waiting k" "threads k1 = threads k" "k_timing k1 = k_timing k" by (simp_all add: k1(2))
    have "threads k1 = (threads k)(t := (threads k t)\<lparr>wakeup_callback := wakeup_callback (threads k t)\<rparr>)" using e(2) by simp
    from WaitThread_asleep [OF s inv(2) t e(1) this, of address] wait_timeout_asleep [OF s inv(2) t c e, of address ns] lw k1(1) e(3)
    show ?thesis by metis
  qed
  show ?thesis using ty dec W T D
    by (cases ty) (auto simp: ArbitrateAddress_def with_timeout_def decrementing_def)
qed

text \<open>One thread runs, and every address is mapped to a byte of zeros.\<close>

definition arb_running :: Kernel where
  "arb_running = upd_thread 5 (\<lambda>x. x\<lparr>status := Running\<rparr>) (arb_example\<lparr>k_memory := \<lparr>place_of = Some, byte_of = (\<lambda>_. 0)\<rparr>\<rparr>)"

lemma arb_running_inv: "sched_inv arb_running" "arbiter_inv 7 arb_running"
proof -
  let ?k = "arb_example\<lparr>k_memory := \<lparr>place_of = Some, byte_of = (\<lambda>_. 0)\<rparr>\<rparr>"
  have t: "status (threads ?k 5) = WaitArb" by (simp add: arb_example_def)
  have "sched_inv ?k" using arb_example_inv(1) by (subst sched_inv_cong [where k = arb_example]) simp_all
  then show "sched_inv arb_running" unfolding arb_running_def using t by (intro sched_inv_not_ready) auto
  show "arbiter_inv 7 arb_running" using arb_example_inv(2) by (simp add: arb_running_def arbiter_inv_def arb_example_def upd_thread_def)
qed

theorem ArbitrateAddress_wait_spec_witness:
  "\<exists>k'. ArbitrateAddress 7 5 AT_DecrementAndWaitIfLessThanWithTimeout 64 1 1000 arb_running = Some (RESULT_TIMEOUT, k')
    \<and> asleep_at 7 5 64 arb_running k' \<and> Read32 64 k' = - 1 \<and> wakeup_callback (threads k' 5) = Some (ArbiterCallback 7) \<and> wake_up_queued 5 1000 arb_running k'"
proof -
  have r: "Read32 64 arb_running = 0" "place_of (k_memory arb_running) 64 = Some 64" "to_s64 1000 = 1000"
    by (simp_all add: Read32_def load32_def arb_running_def upd_thread_def of_bytes_def word_rcat_def upt_conv_Cons to_signed_def)
  have "status (threads arb_running 5) = Running" "wait_objects (threads arb_running 5) = []" "can_schedule arb_running"
    by (simp_all add: arb_running_def upd_thread_def can_schedule_def arb_example_def Kernel_init_def Timing_init_def)
  with arb_running_inv show ?thesis
    using ArbitrateAddress_wait_spec [of arb_running 7 5 AT_DecrementAndWaitIfLessThanWithTimeout 64 1 1000] r
    by (auto simp: with_timeout_def decrementing_def word_lowered_def)
qed

end
