(* ===== verification/Kernel_Frame.thy ===== *)
theory Kernel_Frame
  imports Address_Arbiter
begin

text \<open>
  What the operations of the kernel leave alone. \<open>rest\<close> is the kernel state without threads, objects, ready
  queues, the reschedule request and the log of callbacks; \<open>ident\<close> is what never changes of a thread. \<open>framed\<close>
  relates two states that agree on both, where threads only lose callbacks and awaited objects and gain mutexes and objects change as
  \<open>obj_step\<close> says; every operation on priorities and waiting lists is framed, and so is waking up.
\<close>

definition rest :: "Kernel \<Rightarrow> Kernel" where
  "rest k = k\<lparr>threads := (\<lambda>_. Thread_blank), wait_object := (\<lambda>_. \<lparr>waiting_threads = [], obj = O_Thread\<rparr>),
     managers := (\<lambda>c. (managers k c)\<lparr>ready_queue := ThreadQueueList_init 0\<rparr>), reschedule_pending := False, callbacks_run := []\<rparr>"

definition ident :: "Thread \<Rightarrow> nat \<times> nat \<times> nat \<times> nat \<times> nat \<times> nat \<times> oid" where
  "ident x = (thread_id x, entry_point x, stack_top x, core_id x, tls_address x, wait_address x, owner_process x)"

definition kind :: "Kernel \<Rightarrow> oid \<Rightarrow> HandleType" where
  "kind k w = GetHandleType (obj (wait_object k w))"

text \<open>
  An object keeps its kind; a port keeps its pending sessions, and the count of a semaphore never rises and does not fall
  below zero.
\<close>

definition obj_step :: "object_state \<Rightarrow> object_state \<Rightarrow> bool" where
  "obj_step s s' \<longleftrightarrow> GetHandleType s' = GetHandleType s
     \<and> (case s of
          O_ServerPort p \<Rightarrow> s' = O_ServerPort p
        | O_Semaphore x \<Rightarrow>
            (case s' of
               O_Semaphore y \<Rightarrow> max_count y = max_count x \<and> available_count y \<le> available_count x
                 \<and> (0 \<le> available_count x \<longrightarrow> 0 \<le> available_count y)
             | _ \<Rightarrow> False)
        | _ \<Rightarrow> True)"

lemma obj_step_refl [simp]: "obj_step s s"
  by (auto simp: obj_step_def split: object_state.splits)

lemma obj_step_trans: "obj_step s s' \<Longrightarrow> obj_step s' s'' \<Longrightarrow> obj_step s s''"
  by (cases s; cases s'; cases s'') (auto simp: obj_step_def)

lemma obj_step_kind: "obj_step s s' \<Longrightarrow> GetHandleType s' = GetHandleType s"
  by (simp add: obj_step_def)

definition framed_thread :: "Kernel \<Rightarrow> Thread \<Rightarrow> Thread \<Rightarrow> bool" where
  "framed_thread k x x' \<longleftrightarrow> ident x' = ident x \<and> (wakeup_callback x' = wakeup_callback x \<or> wakeup_callback x' = None)
     \<and> (wait_objects x' = wait_objects x \<or> wait_objects x' = [])
     \<and> (status x' = Ready \<longrightarrow> status x = Ready \<or> wakeup_callback x' = None)
     \<and> (\<forall>w \<in> set (held_mutexes x'). w \<in> set (held_mutexes x) \<or> kind k w = HT_Mutex)"

definition framed :: "Kernel \<Rightarrow> Kernel \<Rightarrow> bool" where
  "framed k k' \<longleftrightarrow> rest k' = rest k \<and> (\<forall>t. framed_thread k (threads k t) (threads k' t))
     \<and> (\<forall>w. obj_step (obj (wait_object k w)) (obj (wait_object k' w)))"

named_theorems framed_intros

lemma framed_thread_refl [simp]: "framed_thread k x x"
  by (simp add: framed_thread_def)

lemma framed_refl [simp, framed_intros]: "framed k k"
  by (simp add: framed_def)

lemma framed_kind: "framed k k' \<Longrightarrow> kind k' = kind k"
  by (auto simp: framed_def kind_def obj_step_kind fun_eq_iff)

lemma framed_trans:
  assumes "framed k k'" "framed k' k''"
  shows "framed k k''"
proof -
  have "framed_thread k (threads k t) (threads k'' t)" for t
    using assms framed_kind [OF assms(1)] unfolding framed_def framed_thread_def by metis
  then show ?thesis using assms obj_step_trans unfolding framed_def by metis
qed

lemma rest_simps [simp]:
  "rest (upd_thread t f k) = rest k" "rest (upd_object w g k) = rest k" "rest (set_obj w s k) = rest k"
  "rest (upd_queue c q k) = rest k" "rest (PrepareReschedule k) = rest k"
  by (simp_all add: rest_def upd_thread_def upd_object_def set_obj_def upd_queue_def upd_manager_def PrepareReschedule_def fun_eq_iff)

lemma kind_simps [simp]:
  "kind (upd_thread t f k) = kind k" "kind (upd_queue c q k) = kind k" "kind (PrepareReschedule k) = kind k"
  "kind (set_obj w s k) = (kind k)(w := GetHandleType s)"
  by (simp_all add: kind_def fun_eq_iff)

lemma framed_upd_thread [framed_intros]: "(\<And>x. framed_thread k x (f x)) \<Longrightarrow> framed k (upd_thread t f k)"
  by (simp add: framed_def)

lemma framed_upd_queue [framed_intros]: "framed k (upd_queue c q k)"
  by (simp add: framed_def)

lemma framed_PrepareReschedule [framed_intros]: "framed k (PrepareReschedule k)"
  by (simp add: framed_def)

lemma framed_set_obj [framed_intros]: "obj_step (obj (wait_object k w)) s \<Longrightarrow> framed k (set_obj w s k)"
  by (simp add: framed_def)

lemma framed_upd_object: "(\<And>x. obj (g x) = obj x) \<Longrightarrow> framed k (upd_object w g k)"
  by (simp add: framed_def)

lemma framed_BoostPriority [framed_intros]: "framed k (BoostPriority t p k)"
  by (simp add: framed_def BoostPriority_def Let_def ident_def framed_thread_def)

lemma framed_Thread_UpdatePriority [framed_intros]: "framed k (Thread_UpdatePriority t k)"
  by (simp add: Thread_UpdatePriority_def framed_BoostPriority)

lemma framed_SetPriority: "SetPriority t p k = Some k' \<Longrightarrow> framed k k'"
  by (auto simp: SetPriority_def Let_def framed_def ident_def framed_thread_def split: if_splits)

lemma framed_Mutex_UpdatePriority [framed_intros]: "framed k (Mutex_UpdatePriority w k)"
  by (auto simp: Mutex_UpdatePriority_def Let_def split: object_state.splits option.splits
      intro!: framed_trans [OF framed_set_obj framed_Thread_UpdatePriority]) (simp add: obj_step_def)

lemma framed_RemoveWaitingThread [framed_intros]: "framed k (RemoveWaitingThread w t k)"
proof -
  have "framed k (WaitObject_RemoveWaitingThread w t k)" unfolding WaitObject_RemoveWaitingThread_def by (rule framed_upd_object) simp
  moreover have "framed k1 (upd_thread t (\<lambda>x. x\<lparr>pending_mutexes := remove1 w (pending_mutexes x)\<rparr>) k1)" for k1
    by (rule framed_upd_thread) (simp add: ident_def framed_thread_def)
  ultimately show ?thesis
    unfolding RemoveWaitingThread_def Let_def by (auto intro: framed_trans framed_Mutex_UpdatePriority)
qed

lemma framed_AddWaitingThread [framed_intros]: "framed k (AddWaitingThread w t k)"
proof -
  have "framed k (WaitObject_AddWaitingThread w t k)" unfolding WaitObject_AddWaitingThread_def by (rule framed_upd_object) simp
  moreover have "framed k1 (upd_thread t (\<lambda>x. x\<lparr>pending_mutexes := flat_insert w (pending_mutexes x)\<rparr>) k1)" for k1
    by (rule framed_upd_thread) (simp add: ident_def framed_thread_def)
  ultimately show ?thesis
    unfolding AddWaitingThread_def Let_def by (auto intro: framed_trans framed_Mutex_UpdatePriority)
qed

lemma framed_foldl: "(\<And>k x. framed k (f k x)) \<Longrightarrow> framed k (foldl f k xs)"
  by (induction xs arbitrary: k) (auto intro: framed_trans)

lemma framed_leave_wait_objects [framed_intros]: "framed k (leave_wait_objects t k)"
  unfolding leave_wait_objects_def
  by (rule framed_trans [OF framed_foldl framed_upd_thread]) (auto simp: ident_def framed_thread_def intro: framed_RemoveWaitingThread)

lemma framed_made_ready [framed_intros]: "framed k (made_ready t k)"
  by (simp add: made_ready_def framed_def ident_def framed_thread_def)

lemma framed_ResumeFromWait: "ResumeFromWait t k = Some k' \<Longrightarrow> framed k k'"
  by (auto simp: ResumeFromWait_def Let_def framed_def ident_def framed_thread_def split: ThreadStatus.splits if_splits)

lemma framed_Mutex_lock:
  assumes "kind k w = HT_Mutex"
  shows "framed k (set_obj w (O_Mutex b) (PrepareReschedule (Thread_UpdatePriority t (upd_thread t
    (\<lambda>x. x\<lparr>held_mutexes := flat_insert w (held_mutexes x)\<rparr>) (set_obj w (O_Mutex a) k)))))"
proof -
  have m: "obj_step s (O_Mutex c) \<longleftrightarrow> GetHandleType s = HT_Mutex" for s c by (cases s) (auto simp: obj_step_def)
  let ?k = "upd_thread t (\<lambda>x. x\<lparr>held_mutexes := flat_insert w (held_mutexes x)\<rparr>) (set_obj w (O_Mutex a) k)"
  have 1: "framed k ?k" using assms by (auto simp: framed_def framed_thread_def ident_def m kind_def flat_insert_def set_insort_key)
  have 2: "framed ?k (PrepareReschedule (Thread_UpdatePriority t ?k))"
    by (rule framed_trans [OF framed_Thread_UpdatePriority framed_PrepareReschedule])
  have "kind (PrepareReschedule (Thread_UpdatePriority t ?k)) w = HT_Mutex" using framed_kind [OF framed_trans [OF 1 2]] assms by simp
  with framed_trans [OF framed_trans [OF 1 2] framed_set_obj] show ?thesis by (simp add: m kind_def)
qed

lemma framed_Acquire: "Acquire w t k = Some k' \<Longrightarrow> framed k k'"
  by (auto simp: Acquire_def Event_Acquire_def Mutex_Acquire_def Semaphore_Acquire_def Timer_Acquire_def Thread_Acquire_def
      ServerPort_Acquire_def ServerSession_Acquire_def Let_def kind_def obj_step_def
      intro!: framed_set_obj framed_Mutex_lock split: object_state.splits if_splits)

lemma framed_acquire_all: "acquire_all ws t k = Some k' \<Longrightarrow> framed k k'"
  by (induction ws arbitrary: k) (auto simp: bind_eq_Some_conv intro: framed_trans framed_Acquire)

lemma framed_log: "framed k (k\<lparr>callbacks_run := l\<rparr>)"
  by (simp add: framed_def rest_def)

lemma framed_context: "framed k (upd_thread t (\<lambda>x. x\<lparr>thread_context := f (thread_context x)\<rparr>) k)"
  by (rule framed_upd_thread) (simp add: ident_def framed_thread_def)

lemma framed_SyncCallback: "SyncCallback_WakeUp b reason t ob k = Some k' \<Longrightarrow> framed k k'"
  by (auto simp: SyncCallback_WakeUp_def SetWaitSynchronizationResult_def SetWaitSynchronizationOutput_def Let_def bind_eq_Some_conv
      split: if_splits intro: framed_context framed_trans [OF framed_context framed_context])

lemma framed_invoke_signal: "invoke_callback WR_Signal t ob k = Some k' \<Longrightarrow> framed k k'"
  by (auto simp: invoke_callback_def WakeUp_def Arbiter_WakeUp_def framed_log
      split: option.splits WakeupCallback.splits intro: framed_SyncCallback)

lemma framed_wakeup_one: "wakeup_one w t k = Some k' \<Longrightarrow> framed k k'"
  by (auto simp: wakeup_one_def bind_eq_Some_conv split: if_splits
      intro: framed_trans [OF framed_trans [OF framed_Acquire framed_invoke_signal] framed_trans [OF framed_leave_wait_objects framed_ResumeFromWait]]
        framed_trans [OF framed_trans [OF framed_acquire_all framed_invoke_signal] framed_trans [OF framed_leave_wait_objects framed_ResumeFromWait]])

lemma framed_wakeup_loop: "wakeup_loop w k = Some k' \<Longrightarrow> framed k k'"
proof (erule wakeup_loop.raw_induct [where P = "\<lambda>w k k'. framed k k'", rotated])
  fix f :: "oid \<Rightarrow> Kernel \<Rightarrow> Kernel option" and w k k'
  assume "\<And>w k k'. f w k = Some k' \<Longrightarrow> framed k k'"
    "(case GetHighestPriorityReadyThread k w of None \<Rightarrow> None | Some None \<Rightarrow> Some k
      | Some (Some t) \<Rightarrow> (case wakeup_one w t k of None \<Rightarrow> None | Some k' \<Rightarrow> f w k')) = Some k'"
  then show "framed k k'" by (auto split: option.splits intro: framed_trans [OF framed_wakeup_one])
qed

lemma framed_WakeupAll:
  assumes "WakeupAllWaitingThreads w k = Some k'"
  shows "framed k k'"
proof -
  obtain k1 where k1: "wakeup_loop w k = Some k1" using assms by (auto simp: WakeupAllWaitingThreads_def bind_eq_Some_conv)
  have "framed k1 k'"
    using assms k1 by (cases "obj (wait_object k1 w)") (auto simp: WakeupAllWaitingThreads_def obj_step_def intro!: framed_set_obj)
  with framed_wakeup_loop [OF k1] show ?thesis by (rule framed_trans)
qed

text \<open>What agrees in framed states.\<close>

lemma restD:
  assumes "rest k' = rest k"
  shows "arbiter_waiting k' = arbiter_waiting k" "next_object k' = next_object k" "k_timing k' = k_timing k" "current_cpu k' = current_cpu k"
    "cpu_process k' = cpu_process k" "timer_table k' = timer_table k" "next_thread_id k' = next_thread_id k"
    "client_ports k' = client_ports k" "client_sessions k' = client_sessions k" "k_memory k' = k_memory k"
    "next_timer_callback_id k' = next_timer_callback_id k" "tls_slots k' = tls_slots k" "cpu_context k' = cpu_context k"
  using arg_cong [OF assms, of arbiter_waiting] arg_cong [OF assms, of next_object] arg_cong [OF assms, of k_timing]
    arg_cong [OF assms, of current_cpu] arg_cong [OF assms, of cpu_process] arg_cong [OF assms, of timer_table]
    arg_cong [OF assms, of next_thread_id] arg_cong [OF assms, of client_ports] arg_cong [OF assms, of client_sessions]
    arg_cong [OF assms, of k_memory] arg_cong [OF assms, of next_timer_callback_id] arg_cong [OF assms, of tls_slots]
    arg_cong [OF assms, of cpu_context]
  by (simp_all add: rest_def)

lemma rest_managers:
  assumes "rest k' = rest k"
  shows "current_thread (managers k' c) = current_thread (managers k c)"
    "wakeup_callback_table (managers k' c) = wakeup_callback_table (managers k c)" "thread_list (managers k' c) = thread_list (managers k c)"
proof -
  have "(managers k' c)\<lparr>ready_queue := ThreadQueueList_init 0\<rparr> = (managers k c)\<lparr>ready_queue := ThreadQueueList_init 0\<rparr>"
    using fun_cong [OF arg_cong [OF assms, of managers], of c] by (simp add: rest_def)
  from arg_cong [OF this, of current_thread] arg_cong [OF this, of wakeup_callback_table] arg_cong [OF this, of thread_list]
  show "current_thread (managers k' c) = current_thread (managers k c)"
    "wakeup_callback_table (managers k' c) = wakeup_callback_table (managers k c)" "thread_list (managers k' c) = thread_list (managers k c)"
    by simp_all
qed

lemma framedD:
  assumes "framed k k'"
  shows "arbiter_waiting k' = arbiter_waiting k" "next_object k' = next_object k" "k_timing k' = k_timing k" "current_cpu k' = current_cpu k"
    "cpu_process k' = cpu_process k" "timer_table k' = timer_table k" "client_ports k' = client_ports k" "client_sessions k' = client_sessions k"
    "k_memory k' = k_memory k" "current_thread (managers k' c) = current_thread (managers k c)"
    "wakeup_callback_table (managers k' c) = wakeup_callback_table (managers k c)" "thread_list (managers k' c) = thread_list (managers k c)"
    "core_id (threads k' t) = core_id (threads k t)" "thread_id (threads k' t) = thread_id (threads k t)"
    "wait_address (threads k' t) = wait_address (threads k t)" "owner_process (threads k' t) = owner_process (threads k t)"
    "tls_address (threads k' t) = tls_address (threads k t)"
    "kind k' w = kind k w" "tls_slots k' = tls_slots k" "next_timer_callback_id k' = next_timer_callback_id k"
  using assms restD [of k' k] rest_managers [of k' k c] framed_kind [OF assms] by (auto simp: framed_def framed_thread_def ident_def)

end
