(* ===== verification/Sessions.thy ===== *)
theory Sessions
  imports Kernel_Frame
begin

text \<open>
  Ports and sessions: \<^verbatim>\<open>client_port.cpp\<close>, \<^verbatim>\<open>server_port.cpp\<close>, \<^verbatim>\<open>client_session.cpp\<close>,
  \<^verbatim>\<open>server_session.cpp\<close> and \<^verbatim>\<open>session.h\<close> of \<^verbatim>\<open>src/src/core/hle/kernel\<close>. The destructors of the two endpoints
  are operations of their own, run when the last reference to the endpoint goes away. What an HLE handler does with a
  request (reading the command buffer, serving the request and writing the response) is an argument.
\<close>

section \<open>Operations\<close>

text \<open>An object that threads cannot wait for only takes a number.\<close>

definition new_plain_object :: "Kernel \<Rightarrow> oid \<times> Kernel" where
  "new_plain_object k = (next_object k, k\<lparr>next_object := next_object k + 1\<rparr>)"

definition CreatePortPair :: "nat \<Rightarrow> Kernel \<Rightarrow> (oid \<times> oid) \<times> Kernel" where
  "CreatePortPair maximum k =
     (let (server, k) = new_object (O_ServerPort \<lparr>pending_sessions = [], port_hle_handler = False\<rparr>) k;
          (client, k) = new_plain_object k
      in ((server, client),
          k\<lparr>client_ports := (client_ports k)(client := \<lparr>server_port = server, max_sessions = maximum, active_sessions = 0\<rparr>)\<rparr>))"

definition CreateSessionPair :: "oid option \<Rightarrow> Kernel \<Rightarrow> (oid \<times> oid) \<times> Kernel" where
  "CreateSessionPair port k =
     (let (server, k) = new_object (O_ServerSession \<lparr>parent_client = True, parent_server = True, parent_port = port, hle_handler = False,
                           pending_requesting_threads = [], currently_handling = None\<rparr>) k;
          (client, k) = new_plain_object k
      in ((server, client), k\<lparr>client_sessions := (client_sessions k)(client := server)\<rparr>))"

definition upd_client_port :: "oid \<Rightarrow> (ClientPort \<Rightarrow> ClientPort) \<Rightarrow> Kernel \<Rightarrow> Kernel" where
  "upd_client_port cp f k = k\<lparr>client_ports := (client_ports k)(cp := f (client_ports k cp))\<rparr>"

text \<open>\<^verbatim>\<open>SessionRequestHandler::ClientConnected\<close> and \<^verbatim>\<open>ClientDisconnected\<close> set and clear the handler of the session.\<close>

definition set_hle_handler :: "oid \<Rightarrow> bool \<Rightarrow> Kernel \<Rightarrow> Kernel run" where
  "set_hle_handler w b k =
     (case obj (wait_object k w) of O_ServerSession s \<Rightarrow> Some (set_obj w (O_ServerSession (s\<lparr>hle_handler := b\<rparr>)) k) | _ \<Rightarrow> None)"

definition Connect :: "oid \<Rightarrow> Kernel \<Rightarrow> (oid ResultVal \<times> Kernel) run" where
  "Connect cp k =
     (if active_sessions (client_ports k cp) \<ge> max_sessions (client_ports k cp)
      then Some (ResultErr ERR_MAX_CONNECTIONS_REACHED, k)
      else do {
        let k = upd_client_port cp (\<lambda>p. p\<lparr>active_sessions := active_sessions p + 1\<rparr>) k;
        let ((server, client), k) = CreateSessionPair (Some cp) k;
        let sp = server_port (client_ports k cp);
        k \<leftarrow> (case obj (wait_object k sp) of
                O_ServerPort p \<Rightarrow>
                  if port_hle_handler p then set_hle_handler server True k
                  else Some (set_obj sp (O_ServerPort (p\<lparr>pending_sessions := pending_sessions p @ [server]\<rparr>)) k)
              | _ \<Rightarrow> None);
        k \<leftarrow> WakeupAllWaitingThreads sp k;
        Some (MakeResult client, k) })"

definition ConnectionClosed :: "oid \<Rightarrow> Kernel \<Rightarrow> Kernel run" where
  "ConnectionClosed cp k = do {
     ASSERT (active_sessions (client_ports k cp) > 0);
     Some (upd_client_port cp (\<lambda>p. p\<lparr>active_sessions := active_sessions p - 1\<rparr>) k)
   }"

definition Accept :: "oid \<Rightarrow> ServerPort \<Rightarrow> Kernel \<Rightarrow> oid ResultVal \<times> Kernel" where
  "Accept sp p k =
     (if pending_sessions p = [] then (ResultErr ERR_NO_PENDING_SESSIONS, k)
      else (MakeResult (last (pending_sessions p)), set_obj sp (O_ServerPort (p\<lparr>pending_sessions := butlast (pending_sessions p)\<rparr>)) k))"

definition ServerSession_destroy :: "oid \<Rightarrow> ServerSession \<Rightarrow> Kernel \<Rightarrow> Kernel run" where
  "ServerSession_destroy w s k = do {
     k \<leftarrow> (case parent_port s of None \<Rightarrow> Some k | Some cp \<Rightarrow> ConnectionClosed cp k);
     Some (set_obj w (O_ServerSession (s\<lparr>parent_server := False\<rparr>)) k)
   }"

definition ClientSession_destroy :: "oid \<Rightarrow> Kernel \<Rightarrow> Kernel run" where
  "ClientSession_destroy cs k =
     (let w = client_sessions k cs
      in case obj (wait_object k w) of
           O_ServerSession s \<Rightarrow>
             if parent_server s
             then WakeupAllWaitingThreads w (set_obj w (O_ServerSession (s\<lparr>hle_handler := False, pending_requesting_threads := [],
                    currently_handling := None, parent_client := False\<rparr>)) k)
             else Some (set_obj w (O_ServerSession (s\<lparr>parent_client := False\<rparr>)) k)
         | _ \<Rightarrow> None)"

definition IPCDelayNanoseconds :: int where "IPCDelayNanoseconds = 39000"

text \<open>The handler may put the thread to sleep, but leaves it running or asleep for an HLE event.\<close>

definition HandleSyncRequest :: "(oid \<Rightarrow> oid \<Rightarrow> Kernel \<Rightarrow> Kernel run) \<Rightarrow> oid \<Rightarrow> oid \<Rightarrow> Kernel \<Rightarrow> (ResultCode \<times> Kernel) run" where
  "HandleSyncRequest hle w t k =
     (case obj (wait_object k w) of
        O_ServerSession s \<Rightarrow> do {
          k \<leftarrow> (if hle_handler s then do {
                  k \<leftarrow> hle w t k;
                  ASSERT (status (threads k t) = Running \<or> status (threads k t) = WaitHleEvent);
                  Some k }
                else Some k);
          k \<leftarrow> (if status (threads k t) = Running then
                  (let k = upd_thread t (\<lambda>x. x\<lparr>status := WaitIPC\<rparr>) k
                   in case obj (wait_object k w) of
                        O_ServerSession s \<Rightarrow>
                          if hle_handler s then WakeAfterDelay t IPCDelayNanoseconds k
                          else Some (set_obj w (O_ServerSession (s\<lparr>pending_requesting_threads := pending_requesting_threads s @ [t]\<rparr>)) k)
                      | _ \<Rightarrow> None)
                else Some k);
          k \<leftarrow> WakeupAllWaitingThreads w k;
          Some (RESULT_SUCCESS, k) }
      | _ \<Rightarrow> None)"

definition SendSyncRequest :: "(oid \<Rightarrow> oid \<Rightarrow> Kernel \<Rightarrow> Kernel run) \<Rightarrow> oid \<Rightarrow> oid \<Rightarrow> Kernel \<Rightarrow> (ResultCode \<times> Kernel) run" where
  "SendSyncRequest hle cs t k =
     (let w = client_sessions k cs
      in case obj (wait_object k w) of
           O_ServerSession s \<Rightarrow> if \<not> parent_server s then Some (ERR_SESSION_CLOSED_BY_REMOTE, k) else HandleSyncRequest hle w t k
         | _ \<Rightarrow> None)"

section \<open>Requests\<close>

text \<open>An object that one acquisition makes unavailable wakes at most one thread.\<close>

lemma wakeup_at_most_one:
  assumes inv: "wait_inv k" "sched_inv k"
    and one: "\<forall>t k2. pobj k2 w = acquired t (pobj k w) \<longrightarrow> (\<forall>u. \<not> ready_to_run k2 w u)"
  shows "\<exists>k1. wakeup_loop w k = Some k1 \<and> wait_inv k1 \<and> sched_inv k1
    \<and> (k1 = k \<and> (\<forall>u \<in> waiters k w. \<not> ready_to_run k w u)
       \<or> (\<exists>t \<in> waiters k w. ready_to_run k w t \<and> waiters k1 w = waiters k w - {t} \<and> status (threads k1 t) = Ready
            \<and> (\<forall>u. u \<noteq> t \<longrightarrow> status (threads k1 u) = status (threads k u)) \<and> pobj k1 w = acquired t (pobj k w)
            \<and> (\<forall>u \<in> waiters k w. ready_to_run k w u \<longrightarrow> current_priority (threads k t) \<le> current_priority (threads k u))))"
proof -
  have o: "\<forall>u \<in> waiters k2 w. \<not> ready_to_run k2 w u" if "t \<in> waiters k w" "wakeup_one w t k = Some k2" for t k2
    using wakeup_one_object [OF inv(1) that] one by blast
  have "wakeup_loop w k = Some k \<and> (\<forall>u \<in> waiters k w. \<not> ready_to_run k w u)
    \<or> (\<exists>t k2. t \<in> waiters k w \<and> ready_to_run k w t
        \<and> (\<forall>u \<in> waiters k w. ready_to_run k w u \<longrightarrow> current_priority (threads k t) \<le> current_priority (threads k u))
        \<and> wakeup_one w t k = Some k2 \<and> wakeup_loop w k = Some k2)"
    by (rule wakeup_loop_once [OF inv]) (rule o)
  then show ?thesis
  proof (elim disjE exE conjE)
    fix t k2
    assume t: "t \<in> waiters k w" "ready_to_run k w t" "wakeup_one w t k = Some k2" "wakeup_loop w k = Some k2"
      "\<forall>u \<in> waiters k w. ready_to_run k w u \<longrightarrow> current_priority (threads k t) \<le> current_priority (threads k u)"
    have "wait_inv k2" "sched_inv k2" "waiters k2 w = waiters k w - {t}" "status (threads k2 t) = Ready"
      "\<forall>u. u \<noteq> t \<longrightarrow> status (threads k2 u) = status (threads k u)"
      using wakeup_one_spec [OF inv t(1,2)] t(3) wait_invD(1) [OF inv(1)] by (auto simp: set_remove1_eq)
    then show ?thesis using t wakeup_one_object [OF inv(1) t(1,3)] by blast
  qed (use inv in auto)
qed

lemma session_busy: "pobj k w = O_ServerSession s \<Longrightarrow> parent_client s \<Longrightarrow> currently_handling s \<noteq> None \<Longrightarrow> \<not> ready_to_run k w u"
  using simple_pobj2 [of k w] by (auto simp: ready_to_run_def ShouldWait_def ServerSession_ShouldWait_def)

lemma session_available:
  "pobj k w = O_ServerSession s \<Longrightarrow> currently_handling s = None \<Longrightarrow> pending_requesting_threads s \<noteq> []
    \<Longrightarrow> status (threads k u) \<noteq> WaitSynchAll \<Longrightarrow> ready_to_run k w u"
  using simple_pobj2 [of k w] by (auto simp: ready_to_run_def ShouldWait_def ServerSession_ShouldWait_def)

lemma wait_inv_status:
  assumes "wait_inv k" "wait_objects (threads k t) = []" "\<And>x. wait_objects (f x) = wait_objects x"
  shows "wait_inv (upd_thread t f k)"
  using assms by (auto simp: wait_inv_def upd_thread_def)

lemma running_not_waiting: "wait_inv k \<Longrightarrow> status (threads k t) = Running \<Longrightarrow> wait_objects (threads k t) = []"
  using wait_invD(3) [of k t] by force

lemma running_not_waiter: "wait_inv k \<Longrightarrow> status (threads k t) = Running \<Longrightarrow> t \<notin> waiters k x"
  using wait_invD(2) [of k t x] running_not_waiting [of k t] by auto

lemma WakeupAll_session:
  assumes "wakeup_loop w k = Some k1" "pobj k1 w = O_ServerSession s"
  shows "WakeupAllWaitingThreads w k = Some k1" "obj (wait_object k1 w) = O_ServerSession s"
  using assms simple_pobj2 [of k1 w] by (simp_all add: WakeupAllWaitingThreads_def)

definition requested :: "oid \<Rightarrow> ServerSession \<Rightarrow> oid \<Rightarrow> Kernel \<Rightarrow> Kernel" where
  "requested w s t k = set_obj w (O_ServerSession (s\<lparr>pending_requesting_threads := pending_requesting_threads s @ [t]\<rparr>))
     (upd_thread t (\<lambda>x. x\<lparr>status := WaitIPC\<rparr>) k)"

lemma requested_inv:
  assumes "wait_inv k" "sched_inv k" "status (threads k t) = Running"
  shows "wait_inv (requested w s t k)" "sched_inv (requested w s t k)" "waiters (requested w s t k) x = waiters k x"
    "pobj (requested w s t k) w = O_ServerSession (s\<lparr>pending_requesting_threads := pending_requesting_threads s @ [t]\<rparr>)"
    "status (threads (requested w s t k) u) = (if u = t then WaitIPC else status (threads k u))"
    "current_priority (threads (requested w s t k) u) = current_priority (threads k u)"
proof -
  note r = running_not_waiting [OF assms(1,3)]
  show "wait_inv (requested w s t k)" using assms(1) r by (simp add: requested_def wait_inv_status)
  show "sched_inv (requested w s t k)" using assms(2,3) by (simp add: requested_def sched_inv_not_ready)
qed (simp_all add: requested_def pobj_set_obj)

lemma handover_session: "(s\<lparr>pending_requesting_threads := pending_requesting_threads s @ [t]\<rparr>)
    \<lparr>currently_handling := Some t, pending_requesting_threads := pending_requesting_threads s\<rparr> = s\<lparr>currently_handling := Some t\<rparr>"
  by (cases s) simp

lemma SendSyncRequest_run:
  assumes "status (threads k t) = Running" "obj (wait_object k (client_sessions k cs)) = O_ServerSession s" "parent_server s" "\<not> hle_handler s"
  shows "SendSyncRequest hle cs t k = map_option (Pair RESULT_SUCCESS) (WakeupAllWaitingThreads (client_sessions k cs) (requested (client_sessions k cs) s t k))"
proof -
  have "HandleSyncRequest hle (client_sessions k cs) t k
    = WakeupAllWaitingThreads (client_sessions k cs) (requested (client_sessions k cs) s t k) \<bind> (\<lambda>k. Some (RESULT_SUCCESS, k))"
    using assms by (simp add: HandleSyncRequest_def requested_def)
  then show ?thesis using assms(2,3)
    by (simp add: SendSyncRequest_def map_conv_bind_option comp_def Let_def)
qed

lemma request_taken_once:
  assumes "pobj k w = O_ServerSession s" "parent_client s"
  shows "\<forall>x k2. pobj k2 w = acquired x (pobj k w) \<longrightarrow> (\<forall>u. \<not> ready_to_run k2 w u)"
  using session_busy assms by simp

text \<open>
  Which waiting threads can take a request that arrives at session \<open>w\<close>: the server must handle no other request, and a thread that waits
  for all of several objects must not have to wait for any of the others.
\<close>

definition can_serve :: "Kernel \<Rightarrow> oid \<Rightarrow> ServerSession \<Rightarrow> oid \<Rightarrow> bool" where
  "can_serve k w s u \<longleftrightarrow> currently_handling s = None
     \<and> (status (threads k u) = WaitSynchAll \<longrightarrow> (\<forall>x \<in> set (wait_objects (threads k u)) - {w}. \<not> ShouldWait k x u))"

lemma requested_ShouldWait:
  assumes "status (threads k t) = Running" "obj (wait_object k w) = O_ServerSession s" "parent_client s"
  shows "ShouldWait (requested w s t k) x u = (if x = w then currently_handling s \<noteq> None else ShouldWait k x u)"
  using assms by (auto simp: requested_def ShouldWait_def ServerSession_ShouldWait_def Thread_ShouldWait_def split: object_state.splits)

lemma requested_ready:
  assumes "status (threads k t) = Running" "obj (wait_object k w) = O_ServerSession s" "parent_client s" "u \<noteq> t"
  shows "ready_to_run (requested w s t k) w u \<longleftrightarrow> can_serve k w s u"
proof -
  have "wait_objects (threads (requested w s t k) u) = wait_objects (threads k u)" "status (threads (requested w s t k) u) = status (threads k u)"
    using assms(4) by (simp_all add: requested_def)
  then show ?thesis
    by (auto simp: ready_to_run_def can_serve_def requested_ShouldWait [OF assms(1-3)] list_all_iff)
qed

text \<open>
  C12: A request on a session whose server endpoint is gone is refused with \<open>ERR_SESSION_CLOSED_BY_REMOTE\<close> and changes
  nothing. On a session with both endpoints and without HLE handler it always succeeds and puts the requesting thread to sleep for IPC.
  A waiting thread can take the request when the server handles no other one and, if the thread waits for all of several objects, it
  need not wait for the others. If there is such a thread, the best of them is made ready, no other thread is woken and the
  session handles the request at once; if there is none, the request is queued behind the others and no thread is woken.
\<close>
theorem SendSyncRequest_spec:
  assumes inv: "wait_inv k" "sched_inv k" and t: "status (threads k t) = Running"
    and w: "w = client_sessions k cs" and s: "obj (wait_object k w) = O_ServerSession s" "parent_client s" "\<not> hle_handler s"
  shows "if \<not> parent_server s then SendSyncRequest hle cs t k = Some (ERR_SESSION_CLOSED_BY_REMOTE, k)
    else \<exists>k' s'. SendSyncRequest hle cs t k = Some (RESULT_SUCCESS, k') \<and> wait_inv k' \<and> sched_inv k'
      \<and> status (threads k' t) = WaitIPC \<and> obj (wait_object k' w) = O_ServerSession s'
      \<and> (if \<exists>u \<in> waiters k w. can_serve k w s u
         then s' = s\<lparr>currently_handling := Some t\<rparr>
           \<and> (\<exists>r \<in> waiters k w. can_serve k w s r \<and> status (threads k' r) = Ready
                \<and> (\<forall>u. u \<noteq> t \<and> u \<noteq> r \<longrightarrow> status (threads k' u) = status (threads k u))
                \<and> (\<forall>u \<in> waiters k w. can_serve k w s u \<longrightarrow> current_priority (threads k r) \<le> current_priority (threads k u)))
         else s' = s\<lparr>pending_requesting_threads := pending_requesting_threads s @ [t]\<rparr>
           \<and> (\<forall>u. u \<noteq> t \<longrightarrow> status (threads k' u) = status (threads k u)))"
proof (cases "parent_server s")
  case True
  let ?s = "s\<lparr>pending_requesting_threads := pending_requesting_threads s @ [t]\<rparr>"
  let ?k = "requested w s t k"
  note R = requested_inv [OF inv t, where w = w and s = s] and N = running_not_waiter [OF inv(1) t]
  note run = SendSyncRequest_run [OF t s(1) [unfolded w] True s(3), of hle, folded w]
  have rdy: "ready_to_run ?k w u \<longleftrightarrow> can_serve k w s u" if "u \<in> waiters k w" for u
    by (rule requested_ready [OF t s(1,2)]) (use that N in auto)
  have one: "\<forall>x k2. pobj k2 w = acquired x (pobj ?k w) \<longrightarrow> (\<forall>u. \<not> ready_to_run k2 w u)"
    by (rule request_taken_once [OF R(4)]) (simp add: s(2))
  obtain k1 where k1: "wakeup_loop w ?k = Some k1" "wait_inv k1" "sched_inv k1"
    and c: "k1 = ?k \<and> (\<forall>u \<in> waiters k w. \<not> ready_to_run ?k w u)
       \<or> (\<exists>r \<in> waiters k w. ready_to_run ?k w r \<and> waiters k1 w = waiters k w - {r} \<and> status (threads k1 r) = Ready
            \<and> (\<forall>u. u \<noteq> r \<longrightarrow> status (threads k1 u) = status (threads ?k u)) \<and> pobj k1 w = acquired r (O_ServerSession ?s)
            \<and> (\<forall>u \<in> waiters k w. ready_to_run ?k w u \<longrightarrow> current_priority (threads k r) \<le> current_priority (threads k u)))"
    using wakeup_at_most_one [OF R(1,2) one] unfolding R(3,4,6) by (elim exE conjE) (rule that)
  from c show ?thesis
  proof (elim disjE conjE bexE)
    assume e: "k1 = ?k" "\<forall>u \<in> waiters k w. \<not> ready_to_run ?k w u"
    have "\<not> (\<exists>u \<in> waiters k w. can_serve k w s u)" using e(2) rdy by blast
    moreover have "WakeupAllWaitingThreads w ?k = Some ?k" "obj (wait_object ?k w) = O_ServerSession ?s"
      using WakeupAll_session [OF k1(1), of ?s] e(1) R(4) by simp_all
    ultimately show ?thesis using True run R(1,2,5) by (intro if_not_P [THEN iffD2] exI [of _ ?k] exI [of _ ?s]) simp_all
  next
    fix r
    assume r: "r \<in> waiters k w" "ready_to_run ?k w r" "status (threads k1 r) = Ready"
      "\<forall>u. u \<noteq> r \<longrightarrow> status (threads k1 u) = status (threads ?k u)" "pobj k1 w = acquired r (O_ServerSession ?s)"
      "\<forall>u \<in> waiters k w. ready_to_run ?k w u \<longrightarrow> current_priority (threads k r) \<le> current_priority (threads k u)"
    have cs: "can_serve k w s r" using r(1,2) rdy by blast
    have "pobj k1 w = O_ServerSession (s\<lparr>currently_handling := Some t\<rparr>)" using r(5) s(2) by (simp add: handover_session)
    note W = WakeupAll_session [OF k1(1) this]
    have "t \<noteq> r" using r(1) N by blast
    then have "status (threads k1 t) = WaitIPC" using r(4) R(5) by simp
    moreover have "\<exists>r \<in> waiters k w. can_serve k w s r \<and> status (threads k1 r) = Ready
        \<and> (\<forall>u. u \<noteq> t \<and> u \<noteq> r \<longrightarrow> status (threads k1 u) = status (threads k u))
        \<and> (\<forall>u \<in> waiters k w. can_serve k w s u \<longrightarrow> current_priority (threads k r) \<le> current_priority (threads k u))"
      using r(1,3,4,6) rdy cs R(5) by (intro bexI [of _ r]) simp_all
    moreover have "\<exists>u \<in> waiters k w. can_serve k w s u" using r(1) cs by blast
    ultimately show ?thesis using True run W k1(2,3)
      by (intro if_not_P [THEN iffD2] exI [of _ k1] exI [of _ "s\<lparr>currently_handling := Some t\<rparr>"]) simp_all
  qed
qed (use s w in \<open>simp add: SendSyncRequest_def\<close>)

lemma CreateSessionPair_inv:
  assumes "sched_inv k" "wait_inv k" "waiting_threads (wait_object k (next_object k)) = []"
  shows "sched_inv (snd (CreateSessionPair port k))" "wait_inv (snd (CreateSessionPair port k))"
    "threads (snd (CreateSessionPair port k)) = threads k" "waiting_threads (wait_object (snd (CreateSessionPair port k)) x) = waiting_threads (wait_object k x)"
proof -
  define s where "s = O_ServerSession \<lparr>parent_client = True, parent_server = True, parent_port = port, hle_handler = False,
                           pending_requesting_threads = [], currently_handling = None\<rparr>"
  have e: "threads (snd (CreateSessionPair port k)) = threads (snd (new_object s k))" "rq (snd (CreateSessionPair port k)) = rq (snd (new_object s k))"
    "wait_object (snd (CreateSessionPair port k)) = wait_object (snd (new_object s k))"
    by (simp_all add: CreateSessionPair_def new_object_def new_plain_object_def s_def)
  note n = new_object_inv [OF assms, of s]
  show "sched_inv (snd (CreateSessionPair port k))" using n(1) by (subst sched_inv_cong [OF e(2)]) (simp_all add: e(1))
  show "wait_inv (snd (CreateSessionPair port k))" using n(2) unfolding wait_inv_def e .
qed (use assms(3) in \<open>simp_all add: CreateSessionPair_def new_object_def new_plain_object_def\<close>)

text \<open>Thread 5 runs; session 8 is open, with client endpoint 9.\<close>

definition base_example :: Kernel where "base_example = arb_running\<lparr>next_object := 8\<rparr>"

lemma base_example_inv: "sched_inv base_example" "wait_inv base_example" "status (threads base_example 5) = Running"
  "waiting_threads (wait_object base_example w) = []" "next_object base_example = 8"
proof -
  have e: "threads base_example = threads arb_running" "wait_object base_example = wait_object arb_example" by (simp_all add: base_example_def arb_running_def)
  show "sched_inv base_example" using arb_running_inv by (subst sched_inv_cong [where k = arb_running]) (simp_all add: base_example_def)
  show "wait_inv base_example" unfolding wait_inv_def e by (simp add: arb_running_def arb_example_def Kernel_init_def)
qed (simp_all add: base_example_def arb_running_def arb_example_def Kernel_init_def)

theorem SendSyncRequest_spec_witness:
  "\<exists>k'. SendSyncRequest (\<lambda>_ _. Some) 9 5 (snd (CreateSessionPair None base_example)) = Some (RESULT_SUCCESS, k')
    \<and> status (threads k' 5) = WaitIPC"
proof -
  let ?k = "snd (CreateSessionPair None base_example)"
  let ?s = "\<lparr>parent_client = True, parent_server = True, parent_port = None, hle_handler = False, pending_requesting_threads = [], currently_handling = None\<rparr>"
  note C = CreateSessionPair_inv [OF base_example_inv(1,2,4), of None]
  have s: "client_sessions ?k 9 = 8" "obj (wait_object ?k 8) = O_ServerSession ?s"
    by (simp_all add: CreateSessionPair_def new_object_def new_plain_object_def base_example_inv(5))
  have t: "status (threads ?k 5) = Running" using base_example_inv(3) C(3) by simp
  from SendSyncRequest_spec [OF C(2,1) t s(1) [symmetric] s(2), of "\<lambda>_ _. Some"] show ?thesis by auto
qed

section \<open>Connections\<close>

definition connected :: "oid \<Rightarrow> ServerPort \<Rightarrow> Kernel \<Rightarrow> Kernel" where
  "connected cp p k = set_obj (server_port (client_ports k cp)) (O_ServerPort (p\<lparr>pending_sessions := pending_sessions p @ [next_object k]\<rparr>))
     (snd (CreateSessionPair (Some cp) (upd_client_port cp (\<lambda>p. p\<lparr>active_sessions := active_sessions p + 1\<rparr>) k)))"

lemma port_stays:
  assumes inv: "wait_inv k" "sched_inv k" and p: "pobj k w = O_ServerPort p" "pending_sessions p \<noteq> []"
  shows "\<exists>k'. WakeupAllWaitingThreads w k = Some k' \<and> wait_inv k' \<and> sched_inv k' \<and> obj (wait_object k' w) = O_ServerPort p
    \<and> framed k k' \<and> (\<forall>u \<in> waiters k' w. status (threads k' u) = WaitSynchAll \<and> (\<exists>x \<in> set (wait_objects (threads k' u)) - {w}. ShouldWait k' x u))
    \<and> (\<forall>u. status (threads k' u) = (if u \<in> waiters k w - waiters k' w then Ready else status (threads k u)))
    \<and> (\<forall>x. waiting_threads (wait_object k x) = [] \<longrightarrow> pobj k' x = pobj k x)"
proof -
  obtain k1 where k1: "wakeup_loop w k = Some k1" "wait_inv k1" "sched_inv k1" "\<forall>u \<in> waiters k1 w. \<not> ready_to_run k1 w u"
    "\<forall>u. status (threads k1 u) = (if u \<in> waiters k w - waiters k1 w then Ready else status (threads k u))"
    using wakeup_loop_spec [OF inv, of w] by (elim exE conjE) (rule that)
  have g: "ready_to_run k w t \<Longrightarrow> simple_object (pobj k w) \<Longrightarrow> acquired t (pobj k w) = acquired 0 (pobj k w)" for k t
    by (cases "pobj k w") simp_all
  have n: "((acquired 0) ^^ n) (O_ServerPort p) = O_ServerPort p" for n by (induction n) simp_all
  have q: "pobj k1 w = O_ServerPort p" using wakeup_loop_object [OF inv _ k1(1) g] p(1) n by simp
  then have o: "obj (wait_object k1 w) = O_ServerPort p" using simple_pobj2 [of k1 w] by simp
  have nw: "\<not> ShouldWait k1 w u" for u using o p(2) by (simp add: ShouldWait_def ServerPort_ShouldWait_def)
  have "status (threads k1 u) = WaitSynchAll \<and> (\<exists>x \<in> set (wait_objects (threads k1 u)) - {w}. ShouldWait k1 x u)" if "u \<in> waiters k1 w" for u
    using k1(4) that nw unfolding ready_to_run_def list_all_iff by blast
  moreover have "WakeupAllWaitingThreads w k = Some k1" using k1(1) o by (simp add: WakeupAllWaitingThreads_def)
  ultimately show ?thesis using k1(2,3,5) o framed_wakeup_loop [OF k1(1)] wakeup_loop_unawaited [OF inv k1(1)] by (intro exI [of _ k1]) simp
qed

lemma SendSyncRequest_opened:
  assumes inv: "wait_inv k" "sched_inv k" "status (threads k t) = Running"
    and s: "client_sessions k cs = w" "obj (wait_object k w) = O_ServerSession s" "parent_server s" "\<not> hle_handler s"
  shows "\<exists>k'. SendSyncRequest hle cs t k = Some (RESULT_SUCCESS, k')"
proof -
  note R = requested_inv [OF inv, where w = w and s = s]
  obtain k' where "WakeupAllWaitingThreads w (requested w s t k) = Some k'"
    using WakeupAllWaitingThreads_outcome [OF R(1,2), of w] by blast
  then show ?thesis using SendSyncRequest_run [OF inv(3), of cs s hle] s by simp
qed

text \<open>
  C13: Connecting to a port that has its maximal number of sessions is refused with \<open>ERR_MAX_CONNECTIONS_REACHED\<close> and
  changes nothing. Otherwise, on a port without HLE handler, it always succeeds: a new session is made, with both of its endpoints there, no
  request and no handler, and counted, never beyond the maximum. The client endpoint returned belongs to that session and a request on
  it is not refused, and the server endpoint is the next one the port accepts. Every thread that waited for the port is woken, except those that
  wait for all of several objects and still have to wait for another one; no thread that did not wait for the port is.
\<close>
theorem Connect_spec:
  assumes inv: "wait_inv k" "sched_inv k" and new: "waiting_threads (wait_object k (next_object k)) = []"
    and sp: "sp = server_port (client_ports k cp)" "obj (wait_object k sp) = O_ServerPort p" "\<not> port_hle_handler p" "sp < next_object k"
  shows "if active_sessions (client_ports k cp) \<ge> max_sessions (client_ports k cp)
    then Connect cp k = Some (ResultErr ERR_MAX_CONNECTIONS_REACHED, k)
    else \<exists>k' p'. Connect cp k = Some (MakeResult (next_object k + 1), k') \<and> wait_inv k' \<and> sched_inv k'
      \<and> client_sessions k' (next_object k + 1) = next_object k
      \<and> obj (wait_object k' (next_object k)) = O_ServerSession \<lparr>parent_client = True, parent_server = True, parent_port = Some cp,
          hle_handler = False, pending_requesting_threads = [], currently_handling = None\<rparr>
      \<and> (\<forall>hle t. status (threads k' t) = Running \<longrightarrow> (\<exists>k''. SendSyncRequest hle (next_object k + 1) t k' = Some (RESULT_SUCCESS, k'')))
      \<and> active_sessions (client_ports k' cp) = active_sessions (client_ports k cp) + 1
      \<and> active_sessions (client_ports k' cp) \<le> max_sessions (client_ports k' cp)
      \<and> obj (wait_object k' sp) = O_ServerPort p' \<and> fst (Accept sp p' k') = MakeResult (next_object k)
      \<and> obj (wait_object (snd (Accept sp p' k')) sp) = O_ServerPort p
      \<and> (\<forall>u \<in> waiters k' sp. status (threads k' u) = WaitSynchAll \<and> (\<exists>x \<in> set (wait_objects (threads k' u)) - {sp}. ShouldWait k' x u))
      \<and> (\<forall>u. status (threads k' u) = (if u \<in> waiters k sp - waiters k' sp then Ready else status (threads k u)))"
proof (cases "active_sessions (client_ports k cp) \<ge> max_sessions (client_ports k cp)")
  case False
  let ?p = "p\<lparr>pending_sessions := pending_sessions p @ [next_object k]\<rparr>"
  let ?opened = "upd_client_port cp (\<lambda>p. p\<lparr>active_sessions := active_sessions p + 1\<rparr>) k"
  let ?k = "connected cp p k"
  have i0: "sched_inv ?opened" "wait_inv ?opened" "waiting_threads (wait_object ?opened (next_object ?opened)) = []"
    using inv new sched_inv_cong [of ?opened k] by (simp_all add: upd_client_port_def wait_inv_def)
  note C = CreateSessionPair_inv [OF i0, of "Some cp"]
  have i: "sched_inv ?k" "wait_inv ?k" "waiters ?k sp = waiters k sp" "threads ?k = threads k"
    using C by (simp_all add: connected_def) (simp_all add: upd_client_port_def)
  have o: "pobj ?k sp = O_ServerPort ?p" by (simp add: connected_def pobj_set_obj sp(1))
  obtain k' where k': "WakeupAllWaitingThreads sp ?k = Some k'" "wait_inv k'" "sched_inv k'" "obj (wait_object k' sp) = O_ServerPort ?p"
    "framed ?k k'" "\<forall>u \<in> waiters k' sp. status (threads k' u) = WaitSynchAll \<and> (\<exists>x \<in> set (wait_objects (threads k' u)) - {sp}. ShouldWait k' x u)"
    "\<forall>u. status (threads k' u) = (if u \<in> waiters k sp - waiters k' sp then Ready else status (threads k u))"
    and un: "\<forall>x. waiting_threads (wait_object ?k x) = [] \<longrightarrow> pobj k' x = pobj ?k x"
    using port_stays [OF i(2,1) o] unfolding i(3,4) by auto
  let ?s = "\<lparr>parent_client = True, parent_server = True, parent_port = Some cp, hle_handler = False, pending_requesting_threads = [], currently_handling = None\<rparr>"
  have "waiting_threads (wait_object ?k (next_object k)) = []" "pobj ?k (next_object k) = O_ServerSession ?s"
    using new sp(4) by (simp_all add: connected_def sp(1) [symmetric] pobj_def plain_object_def CreateSessionPair_def new_object_def new_plain_object_def upd_client_port_def)
  then have "pobj k' (next_object k) = O_ServerSession ?s" using un by simp
  then have ses: "obj (wait_object k' (next_object k)) = O_ServerSession ?s" using simple_pobj2 [of k' "next_object k"] by simp
  have c: "client_ports ?k = client_ports ?opened" "client_sessions ?k (next_object k + 1) = next_object k"
    by (simp_all add: connected_def CreateSessionPair_def new_object_def new_plain_object_def upd_client_port_def set_obj_def upd_object_def)
  have run: "Connect cp k = Some (MakeResult (next_object k + 1), k')"
    using False sp k'(1) by (simp add: Connect_def connected_def CreateSessionPair_def new_object_def new_plain_object_def upd_client_port_def)
  have a: "active_sessions (client_ports k' cp) = active_sessions (client_ports k cp) + 1" "max_sessions (client_ports k' cp) = max_sessions (client_ports k cp)"
    "client_sessions k' (next_object k + 1) = next_object k"
    using framedD(7,8) [OF k'(5)] c by (simp_all add: upd_client_port_def)
  have acc: "fst (Accept sp ?p k') = MakeResult (next_object k)" "obj (wait_object (snd (Accept sp ?p k')) sp) = O_ServerPort p"
    by (simp_all add: Accept_def)
  have open_s: "\<forall>hle t. status (threads k' t) = Running \<longrightarrow> (\<exists>k''. SendSyncRequest hle (next_object k + 1) t k' = Some (RESULT_SUCCESS, k''))"
    using SendSyncRequest_opened [OF k'(2,3) _ a(3) ses] by simp
  show ?thesis using False run k'(2-4,6,7) a acc ses open_s by (intro if_not_P [THEN iffD2] exI [of _ k'] exI [of _ ?p]) (simp_all only: simp_thms, simp_all)
qed (simp add: Connect_def)

theorem Connect_spec_witness:
  "\<exists>k'. Connect 9 (snd (CreatePortPair 2 base_example)) = Some (MakeResult 11, k') \<and> active_sessions (client_ports k' 9) = 1"
proof -
  let ?k = "snd (CreatePortPair 2 base_example)" and ?p = "\<lparr>pending_sessions = [], port_hle_handler = False\<rparr>"
  note n = new_object_inv [OF base_example_inv(1,2,4), of "O_ServerPort ?p"]
  have e: "threads ?k = threads (snd (new_object (O_ServerPort ?p) base_example))" "rq ?k = rq (snd (new_object (O_ServerPort ?p) base_example))"
    "wait_object ?k = wait_object (snd (new_object (O_ServerPort ?p) base_example))"
    by (simp_all add: CreatePortPair_def new_object_def new_plain_object_def)
  have i: "sched_inv ?k" using n(1) by (subst sched_inv_cong [OF e(2)]) (simp_all add: e(1))
  have w: "wait_inv ?k" using n(2) unfolding wait_inv_def e .
  have c: "client_ports ?k 9 = \<lparr>server_port = 8, max_sessions = 2, active_sessions = 0\<rparr>" "obj (wait_object ?k 8) = O_ServerPort ?p"
    "next_object ?k = 10" "waiting_threads (wait_object ?k 10) = []"
    by (simp_all add: CreatePortPair_def new_object_def new_plain_object_def base_example_inv)
  have h: "\<not> port_hle_handler ?p" "8 < next_object ?k" "waiting_threads (wait_object ?k (next_object ?k)) = []" "8 = server_port (client_ports ?k 9)"
    "\<not> active_sessions (client_ports ?k 9) \<ge> max_sessions (client_ports ?k 9)" "next_object ?k + 1 = 11" "active_sessions (client_ports ?k 9) + 1 = 1"
    using c by simp_all
  from Connect_spec [OF w i h(3,4) c(2) h(1,2)] show ?thesis unfolding h(6,7) using h(5) by (simp only: if_False) blast
qed

end
