(* ===== verification/Handle_Table.thy ===== *)
theory Handle_Table
  imports Result_Code
begin

text \<open>
  \<^verbatim>\<open>Kernel::HandleTable\<close> of \<^verbatim>\<open>src/src/core/hle/kernel/handle_table.{h,cpp}\<close>: 4096 slots, a
  generation counter that tells stale handles from live ones, and the list of free slots threaded
  through the generations of the slots that hold no object. What \<^verbatim>\<open>kernel.GetCurrentThread\<close>
  and \<^verbatim>\<open>kernel.GetCurrentProcess\<close> return is an argument of the lookup.

  The invariant says that the free list visits every empty slot exactly once. From it follow the
  laws of the locale \<open>handle_store\<close>: what a lookup returns after creating and closing handles.
\<close>

unbundle bit_operations_syntax

section \<open>State and operations\<close>

type_synonym Handle = u32

definition CurrentThread :: Handle where "CurrentThread = 0xFFFF8000"
definition CurrentProcess :: Handle where "CurrentProcess = 0xFFFF8001"

definition MAX_COUNT :: nat where "MAX_COUNT = 4096"

record 'o HandleTable =
  objects :: "'o option list"
  generations :: "u16 list"
  next_generation :: u16
  next_free_slot :: u16

definition GetSlot :: "Handle \<Rightarrow> u16" where
  "GetSlot handle = ucast (drop_bit 15 handle)"

definition GetGeneration :: "Handle \<Rightarrow> u16" where
  "GetGeneration handle = ucast (handle AND 0x7FFF)"

definition Clear :: "'o HandleTable \<Rightarrow> 'o HandleTable" where
  "Clear t = t\<lparr>objects := replicate MAX_COUNT None,
     generations := map (\<lambda>i. of_nat (i + 1)) [0..<MAX_COUNT], next_free_slot := 0\<rparr>"

definition HandleTable_init :: "'o HandleTable" where
  "HandleTable_init =
     Clear \<lparr>objects = [], generations = [], next_generation = 1, next_free_slot = 0\<rparr>"

definition MakeHandle :: "u16 \<Rightarrow> u16 \<Rightarrow> Handle" where
  "MakeHandle generation slot = ucast generation OR push_bit 15 (ucast slot)"

definition Create :: "'o \<Rightarrow> 'o HandleTable \<Rightarrow> Handle ResultVal \<times> 'o HandleTable" where
  "Create obj t =
     (let slot = next_free_slot t
      in if unat slot \<ge> length (generations t) then (ResultErr ERR_OUT_OF_HANDLES, t)
      else
        let generation = next_generation t;
            incremented = generation + 1;
            wrapped = (if unat incremented \<ge> 2 ^ 15 then 1 else incremented)
        in (MakeResult (MakeHandle generation slot),
            t\<lparr>next_free_slot := generations t ! unat slot,
              next_generation := wrapped,
              generations := (generations t)[unat slot := generation],
              objects := (objects t)[unat slot := Some obj]\<rparr>))"

definition IsValid :: "'o HandleTable \<Rightarrow> Handle \<Rightarrow> bool" where
  "IsValid t handle \<longleftrightarrow>
     (let slot = unat (GetSlot handle); generation = GetGeneration handle
      in slot < MAX_COUNT \<and> objects t ! slot \<noteq> None \<and> generations t ! slot = generation)"

text \<open>\<open>cur_thread\<close> and \<open>cur_process\<close>: the kernel's current thread and process, if any.\<close>

definition GetGeneric :: "'o option \<Rightarrow> 'o option \<Rightarrow> 'o HandleTable \<Rightarrow> Handle \<Rightarrow> 'o option" where
  "GetGeneric cur_thread cur_process t handle =
     (if handle = CurrentThread then cur_thread
      else if handle = CurrentProcess then cur_process
      else if \<not> IsValid t handle then None
      else objects t ! unat (GetSlot handle))"

definition Duplicate ::
    "'o option \<Rightarrow> 'o option \<Rightarrow> Handle \<Rightarrow> 'o HandleTable \<Rightarrow> Handle ResultVal \<times> 'o HandleTable" where
  "Duplicate cur_thread cur_process handle t =
     (case GetGeneric cur_thread cur_process t handle of
        None \<Rightarrow> (ResultErr ERR_INVALID_HANDLE, t)
      | Some object \<Rightarrow> Create object t)"

definition Close :: "Handle \<Rightarrow> 'o HandleTable \<Rightarrow> ResultCode \<times> 'o HandleTable" where
  "Close handle t =
     (if \<not> IsValid t handle then (ERR_INVALID_HANDLE, t)
      else
        let slot = GetSlot handle
        in (RESULT_SUCCESS,
            t\<lparr>objects := (objects t)[unat slot := None],
              generations := (generations t)[unat slot := next_free_slot t],
              next_free_slot := slot\<rparr>))"

section \<open>The free list\<close>

text \<open>From slot number \<open>s\<close> the free list visits \<open>fs\<close> and ends at the end marker \<open>MAX_COUNT\<close>.\<close>

fun free_list :: "u16 list \<Rightarrow> u16 \<Rightarrow> nat list \<Rightarrow> bool" where
  "free_list gens s [] \<longleftrightarrow> unat s = MAX_COUNT"
| "free_list gens s (f # fs) \<longleftrightarrow> unat s = f \<and> f < MAX_COUNT \<and> free_list gens (gens ! f) fs"

definition empty_slots :: "'o HandleTable \<Rightarrow> nat set" where
  "empty_slots t = {i. i < MAX_COUNT \<and> objects t ! i = None}"

definition ht_inv :: "'o HandleTable \<Rightarrow> bool" where
  "ht_inv t \<longleftrightarrow> length (objects t) = MAX_COUNT \<and> length (generations t) = MAX_COUNT
     \<and> 0 < unat (next_generation t) \<and> unat (next_generation t) < 2 ^ 15
     \<and> (\<forall>i < MAX_COUNT. objects t ! i \<noteq> None \<longrightarrow>
           0 < unat (generations t ! i) \<and> unat (generations t ! i) < 2 ^ 15)
     \<and> (\<exists>fs. free_list (generations t) (next_free_slot t) fs \<and> distinct fs
           \<and> set fs = empty_slots t)"

lemma free_list_cong:
  "(\<And>f. f \<in> set fs \<Longrightarrow> gens' ! f = gens ! f) \<Longrightarrow> free_list gens' s fs = free_list gens s fs"
  by (induction fs arbitrary: s) auto

lemma free_list_upd: "i \<notin> set fs \<Longrightarrow> free_list (gens[i := g]) s fs = free_list gens s fs"
  by (rule free_list_cong) (metis nth_list_update_neq)

lemma GetSlot_MakeHandle:
  assumes "unat slot < MAX_COUNT" "unat generation < 2 ^ 15"
  shows "GetSlot (MakeHandle generation slot) = slot"
proof (rule bit_word_eqI)
  fix n :: nat assume n: "n < LENGTH(16)"
  have "bit generation m \<Longrightarrow> m < 15" for m using assms(2) by (rule word_bit_bound)
  moreover have "bit slot m \<Longrightarrow> m < 12" for m
    using assms(1) by (intro word_bit_bound [of slot 12]) (simp_all add: MAX_COUNT_def)
  ultimately show "bit (GetSlot (MakeHandle generation slot)) n = bit slot n"
    using n by (auto simp: GetSlot_def MakeHandle_def bit_simps)
qed

lemma GetGeneration_MakeHandle:
  assumes "unat generation < 2 ^ 15"
  shows "GetGeneration (MakeHandle generation slot) = generation"
proof (rule bit_word_eqI)
  fix n :: nat assume n: "n < LENGTH(16)"
  have m: "(0x7FFF :: u32) = mask 15" by (simp add: mask_eq_exp_minus_1)
  have "bit generation m \<Longrightarrow> m < 15" for m using assms by (rule word_bit_bound)
  then show "bit (GetGeneration (MakeHandle generation slot)) n = bit generation n"
    using n by (auto simp: GetGeneration_def MakeHandle_def m bit_simps)
qed


lemma bit_top: "bit (0x80000000 :: u32) n \<longleftrightarrow> n = 31"
proof -
  have "(0x80000000 :: u32) = push_bit 31 1" by simp
  then show ?thesis by (auto simp only: bit_push_bit_iff bit_1_iff) simp_all
qed

lemma bit_low15: "bit (0x7FFF :: u32) n \<longleftrightarrow> n < 15"
proof -
  have "(0x7FFF :: u32) = mask 15" by (simp add: mask_eq_exp_minus_1)
  then show ?thesis by (auto simp only: bit_mask_iff) simp_all
qed

lemma same_low_bits_alias:
  "GetSlot (h XOR 0x80000000) = GetSlot h" "GetGeneration (h XOR 0x80000000) = GetGeneration h"
proof -
  show "GetSlot (h XOR 0x80000000) = GetSlot h"
  proof (rule bit_word_eqI)
    fix n :: nat assume n: "n < LENGTH(16)"
    have "bit (GetSlot (h XOR 0x80000000)) n \<longleftrightarrow> bit (h XOR 0x80000000) (15 + n)"
      and "bit (GetSlot h) n \<longleftrightarrow> bit h (15 + n)"
      using n by (simp_all only: GetSlot_def bit_ucast_iff bit_drop_bit_eq comp_def) simp_all
    moreover have "\<not> bit (0x80000000 :: u32) (15 + n)" using n by (simp only: bit_top) simp
    ultimately show "bit (GetSlot (h XOR 0x80000000)) n = bit (GetSlot h) n"
      by (simp only: bit_xor_iff) simp
  qed
  have "(h XOR 0x80000000) AND 0x7FFF = h AND 0x7FFF"
    by (rule bit_word_eqI) (auto simp only: bit_and_iff bit_xor_iff bit_top bit_low15)
  then show "GetGeneration (h XOR 0x80000000) = GetGeneration h" by (simp only: GetGeneration_def)
qed

lemma MAX_COUNT_bound: "MAX_COUNT < 65536" by (simp add: MAX_COUNT_def)

lemma unat_of_slot: "k \<le> MAX_COUNT \<Longrightarrow> unat (of_nat k :: u16) = k"
  using MAX_COUNT_bound by (simp add: unat_of_nat)

lemma free_list_upto: "k \<le> MAX_COUNT \<Longrightarrow>
    free_list (map (\<lambda>i. of_nat (i + 1)) [0..<MAX_COUNT]) (of_nat k) [k..<MAX_COUNT]"
proof (induction "MAX_COUNT - k" arbitrary: k)
  case 0
  then show ?case by (simp add: unat_of_slot)
next
  case (Suc d)
  then have k: "k < MAX_COUNT" by simp
  have "free_list (map (\<lambda>i. of_nat (i + 1)) [0..<MAX_COUNT]) (of_nat (Suc k)) [Suc k..<MAX_COUNT]"
    using Suc.hyps(2) k by (intro Suc.hyps(1)) auto
  moreover have "map (\<lambda>i. of_nat (i + 1) :: u16) [0..<MAX_COUNT] ! k = of_nat (Suc k)" using k by simp
  ultimately show ?case using k by (simp only: upt_conv_Cons free_list.simps unat_of_slot less_imp_le)
qed

lemma ht_inv_Clear:
  assumes "0 < unat (next_generation t)" "unat (next_generation t) < 2 ^ 15"
  shows "ht_inv (Clear t)" "empty_slots (Clear t) = {0..<MAX_COUNT}"
proof -
  show e: "empty_slots (Clear t) = {0..<MAX_COUNT}" by (auto simp: empty_slots_def Clear_def)
  have "free_list (generations (Clear t)) (next_free_slot (Clear t)) [0..<MAX_COUNT]"
    using free_list_upto [of 0] by (simp add: Clear_def)
  then have "\<exists>fs. free_list (generations (Clear t)) (next_free_slot (Clear t)) fs \<and> distinct fs
      \<and> set fs = empty_slots (Clear t)"
    by (intro exI [of _ "[0..<MAX_COUNT]"]) (simp add: e)
  moreover have "objects (Clear t) = replicate MAX_COUNT None" "length (generations (Clear t)) = MAX_COUNT"
    "next_generation (Clear t) = next_generation t"
    by (simp_all add: Clear_def)
  ultimately show "ht_inv (Clear t)"
    unfolding ht_inv_def using assms by simp
qed

lemma ht_inv_init: "ht_inv HandleTable_init" "empty_slots HandleTable_init = {0..<MAX_COUNT}"
  unfolding HandleTable_init_def by (rule ht_inv_Clear; simp)+

section \<open>What creating and closing do to lookups\<close>

definition ht_lookup :: "'o HandleTable \<Rightarrow> Handle \<Rightarrow> 'o option" where
  "ht_lookup t h = (if IsValid t h then objects t ! unat (GetSlot h) else None)"

definition same_handle :: "Handle \<Rightarrow> Handle \<Rightarrow> bool" where
  "same_handle h h' \<longleftrightarrow> GetSlot h = GetSlot h' \<and> GetGeneration h = GetGeneration h'"

lemma ht_lookup_eq:
  "ht_lookup t h = (if unat (GetSlot h) < MAX_COUNT \<and> generations t ! unat (GetSlot h) = GetGeneration h
     then objects t ! unat (GetSlot h) else None)"
  by (auto simp: ht_lookup_def IsValid_def Let_def)

lemma IsValid_lookup: "IsValid t h \<longleftrightarrow> ht_lookup t h \<noteq> None"
  by (auto simp: ht_lookup_def IsValid_def Let_def)

lemma GetGeneric_eq:
  "GetGeneric ct cp t h =
     (if h = CurrentThread then ct else if h = CurrentProcess then cp else ht_lookup t h)"
  by (simp add: GetGeneric_def ht_lookup_def)

lemma Create_full:
  assumes "ht_inv t" "empty_slots t = {}"
  shows "Create x t = (ResultErr ERR_OUT_OF_HANDLES, t)"
proof -
  from assms obtain fs where "free_list (generations t) (next_free_slot t) fs" "set fs = {}"
    by (auto simp: ht_inv_def)
  with assms show ?thesis by (simp add: Create_def Let_def ht_inv_def)
qed

lemma Create_room:
  assumes inv: "ht_inv t" and room: "empty_slots t \<noteq> {}"
  obtains slot where "unat slot < MAX_COUNT" "objects t ! unat slot = None" "next_free_slot t = slot"
    "fst (Create x t) = MakeResult (MakeHandle (next_generation t) slot)"
    "ht_inv (snd (Create x t))"
    "objects (snd (Create x t)) = (objects t)[unat slot := Some x]"
    "generations (snd (Create x t)) = (generations t)[unat slot := next_generation t]"
proof -
  let ?s = "next_free_slot t" and ?t' = "snd (Create x t)"
  from inv obtain gs where gs: "free_list (generations t) ?s gs" "distinct gs" "set gs = empty_slots t"
    by (auto simp: ht_inv_def)
  with room obtain f fs where "gs = f # fs" by (cases gs) auto
  with gs have fl: "free_list (generations t) ?s (f # fs)" and d: "distinct (f # fs)"
    and sf: "set (f # fs) = empty_slots t"
    by simp_all
  from fl have f: "unat ?s = f" "f < MAX_COUNT" by auto
  from sf f have o: "objects t ! unat ?s = None" by (auto simp: empty_slots_def)
  have gl: "0 < unat (next_generation t)" "unat (next_generation t) < 2 ^ 15"
    "length (generations t) = MAX_COUNT" "length (objects t) = MAX_COUNT"
    using inv by (simp_all add: ht_inv_def)
  have c: "fst (Create x t) = MakeResult (MakeHandle (next_generation t) ?s)"
    "objects ?t' = (objects t)[unat ?s := Some x]"
    "generations ?t' = (generations t)[unat ?s := next_generation t]"
    "next_free_slot ?t' = generations t ! unat ?s"
    "next_generation ?t' = (if 2 ^ 15 \<le> unat (next_generation t + 1) then 1 else next_generation t + 1)"
    using f gl by (simp_all add: Create_def Let_def)
  have ng: "0 < unat (next_generation ?t')" "unat (next_generation ?t') < 2 ^ 15"
    using gl by (simp_all add: c unat_word_ariths)
  have fl': "free_list (generations ?t') (next_free_slot ?t') fs"
    using fl f d by (simp add: c free_list_upd)
  have se: "set fs = empty_slots ?t'"
  proof -
    have "empty_slots ?t' = empty_slots t - {f}"
      using f(1) gl(4) by (auto simp: c(2) empty_slots_def nth_list_update_if split: if_splits)
    with sf [symmetric] d show ?thesis by simp
  qed
  have "\<forall>i < MAX_COUNT. objects ?t' ! i \<noteq> None \<longrightarrow>
      0 < unat (generations ?t' ! i) \<and> unat (generations ?t' ! i) < 2 ^ 15"
    using inv gl by (simp add: c nth_list_update_if ht_inv_def)
  moreover have "\<exists>fs. free_list (generations ?t') (next_free_slot ?t') fs \<and> distinct fs \<and> set fs = empty_slots ?t'"
    using fl' se d by auto
  ultimately have "ht_inv ?t'"
    unfolding ht_inv_def using gl ng by (simp add: c)
  then show ?thesis
    using that [of ?s] f o c by simp
qed

lemma ht_lookup_Create:
  assumes "ht_inv t" "empty_slots t \<noteq> {}"
  shows "\<exists>h t'. Create x t = (MakeResult h, t') \<and> ht_inv t' \<and> ht_lookup t h = None
    \<and> (\<forall>h'. ht_lookup t' h' = (if same_handle h' h then Some x else ht_lookup t h'))"
proof -
  from assms obtain slot where *: "unat slot < MAX_COUNT" "objects t ! unat slot = None" "next_free_slot t = slot"
    "fst (Create x t) = MakeResult (MakeHandle (next_generation t) slot)"
    "ht_inv (snd (Create x t))"
    "objects (snd (Create x t)) = (objects t)[unat slot := Some x]"
    "generations (snd (Create x t)) = (generations t)[unat slot := next_generation t]"
    by (rule Create_room)
  let ?h = "MakeHandle (next_generation t) slot"
  have len: "length (objects t) = MAX_COUNT" "length (generations t) = MAX_COUNT"
    "unat (next_generation t) < 2 ^ 15"
    using assms by (simp_all add: ht_inv_def)
  have h: "GetSlot ?h = slot" "GetGeneration ?h = next_generation t"
    using * len by (simp_all add: GetSlot_MakeHandle GetGeneration_MakeHandle)
  have "ht_lookup (snd (Create x t)) h' = (if same_handle h' ?h then Some x else ht_lookup t h')" for h'
  proof (cases "GetSlot h' = slot")
    case True
    with *(1,2,6,7) len(1,2) show ?thesis
      by (auto simp: ht_lookup_eq same_handle_def h nth_list_update_if)
  next
    case False
    then have "unat slot \<noteq> unat (GetSlot h')" by (metis word_unat_eq_iff)
    with False *(6,7) show ?thesis by (simp add: ht_lookup_eq same_handle_def h)
  qed
  moreover have "ht_lookup t ?h = None" using * by (simp add: ht_lookup_eq h)
  ultimately show ?thesis using *
    by (intro exI [of _ ?h] exI [of _ "snd (Create x t)"]) (simp add: prod_eq_iff)
qed

lemma ht_lookup_Close:
  assumes inv: "ht_inv t" and v: "ht_lookup t h \<noteq> None"
  shows "\<exists>t'. Close h t = (RESULT_SUCCESS, t') \<and> ht_inv t' \<and> empty_slots t' \<noteq> {}
    \<and> (\<forall>h'. ht_lookup t' h' = (if same_handle h' h then None else ht_lookup t h'))"
proof -
  let ?s = "unat (GetSlot h)" and ?t' = "snd (Close h t)"
  have valid: "?s < MAX_COUNT" "objects t ! ?s \<noteq> None" "generations t ! ?s = GetGeneration h" "IsValid t h"
    using v by (auto simp: ht_lookup_eq IsValid_lookup split: if_splits)
  have len: "length (objects t) = MAX_COUNT" "length (generations t) = MAX_COUNT"
    using inv by (simp_all add: ht_inv_def)
  from inv obtain fs where fs: "free_list (generations t) (next_free_slot t) fs" "distinct fs"
    "set fs = empty_slots t"
    by (auto simp: ht_inv_def)
  have c: "fst (Close h t) = RESULT_SUCCESS" "objects ?t' = (objects t)[?s := None]"
    "generations ?t' = (generations t)[?s := next_free_slot t]" "next_free_slot ?t' = GetSlot h"
    "next_generation ?t' = next_generation t"
    using valid by (simp_all add: Close_def Let_def)
  have s: "?s \<notin> set fs" using fs valid by (simp add: empty_slots_def)
  have e: "empty_slots ?t' = insert ?s (empty_slots t)"
    using valid len by (auto simp: empty_slots_def c nth_list_update_if)
  have "free_list (generations ?t') (next_free_slot ?t') (?s # fs)"
    using valid fs s len by (simp add: c free_list_upd)
  then have "\<exists>fs. free_list (generations ?t') (next_free_slot ?t') fs \<and> distinct fs \<and> set fs = empty_slots ?t'"
    using fs s e by (intro exI [of _ "?s # fs"]) simp
  moreover have "\<forall>i < MAX_COUNT. objects ?t' ! i \<noteq> None \<longrightarrow>
      0 < unat (generations ?t' ! i) \<and> unat (generations ?t' ! i) < 2 ^ 15"
    using inv by (simp add: c nth_list_update_if ht_inv_def)
  ultimately have "ht_inv ?t'"
    using inv unfolding ht_inv_def by (simp add: c)
  moreover have "ht_lookup ?t' h' = (if same_handle h' h then None else ht_lookup t h')" for h'
  proof (cases "GetSlot h' = GetSlot h")
    case True
    with valid len show ?thesis by (simp add: ht_lookup_eq same_handle_def c nth_list_update_if)
  next
    case False
    then have "unat (GetSlot h) \<noteq> unat (GetSlot h')" by (metis word_unat_eq_iff)
    with False show ?thesis by (simp add: ht_lookup_eq same_handle_def c)
  qed
  ultimately show ?thesis using c(1) e by (intro exI [of _ ?t']) (simp add: prod_eq_iff)
qed

lemma Close_invalid: "ht_lookup t h = None \<Longrightarrow> Close h t = (ERR_INVALID_HANDLE, t)"
  by (simp add: Close_def IsValid_lookup)

section \<open>The interface the rest of the kernel relies on\<close>

locale handle_store =
  fixes inv :: "'t \<Rightarrow> bool" and room :: "'t \<Rightarrow> bool" and lookup :: "'t \<Rightarrow> 'h \<Rightarrow> 'o option"
    and same :: "'h \<Rightarrow> 'h \<Rightarrow> bool"
    and create :: "'o \<Rightarrow> 't \<Rightarrow> 'h ResultVal \<times> 't" and close :: "'h \<Rightarrow> 't \<Rightarrow> ResultCode \<times> 't"
  assumes same_refl: "same h h" and same_sym: "same h h' \<Longrightarrow> same h' h"
    and same_lookup: "same h h' \<Longrightarrow> lookup t h = lookup t h'"
    and create_full: "inv t \<Longrightarrow> \<not> room t \<Longrightarrow> create x t = (ResultErr ERR_OUT_OF_HANDLES, t)"
    and create_room: "inv t \<Longrightarrow> room t \<Longrightarrow>
        \<exists>h t'. create x t = (MakeResult h, t') \<and> inv t' \<and> lookup t h = None
          \<and> (\<forall>h'. lookup t' h' = (if same h' h then Some x else lookup t h'))"
    and close_invalid: "lookup t h = None \<Longrightarrow> close h t = (ERR_INVALID_HANDLE, t)"
    and close_valid: "inv t \<Longrightarrow> lookup t h \<noteq> None \<Longrightarrow>
        \<exists>t'. close h t = (RESULT_SUCCESS, t') \<and> inv t' \<and> room t'
          \<and> (\<forall>h'. lookup t' h' = (if same h' h then None else lookup t h'))"
begin

lemma create_inv: "inv t \<Longrightarrow> inv (snd (create x t))"
  using create_full [of t x] create_room [of t x] by (cases "room t") auto

lemma close_inv: "inv t \<Longrightarrow> inv (snd (close h t))"
  using close_invalid [of t h] close_valid [of t h] by (cases "lookup t h = None") auto

text \<open>A handle that is created and closed again leaves every lookup as it was.\<close>

lemma create_close:
  assumes "inv t" "room t"
  shows "\<exists>h t' t''. create x t = (MakeResult h, t') \<and> lookup t' h = Some x
    \<and> close h t' = (RESULT_SUCCESS, t'') \<and> inv t'' \<and> lookup t'' = lookup t"
proof -
  from create_room [OF assms] obtain h t' where c: "create x t = (MakeResult h, t')" "inv t'" "lookup t h = None"
    and l: "\<And>h'. lookup t' h' = (if same h' h then Some x else lookup t h')"
    by metis
  have lh: "lookup t' h = Some x" using l same_refl by simp
  then have "lookup t' h \<noteq> None" by simp
  from close_valid [OF c(2) this] obtain t'' where
    d: "close h t' = (RESULT_SUCCESS, t'')" "inv t''"
    and l': "\<And>h'. lookup t'' h' = (if same h' h then None else lookup t' h')"
    by metis
  have "lookup t'' h' = lookup t h'" for h'
    using l l' c(3) same_lookup [of h' h t] by auto
  then have "lookup t'' = lookup t" by (rule ext)
  with c d lh show ?thesis by blast
qed

end

lemma same_handle_lookup: "same_handle h h' \<Longrightarrow> ht_lookup t h = ht_lookup t h'"
  by (simp add: same_handle_def ht_lookup_eq)

interpretation ht: handle_store ht_inv "\<lambda>t. empty_slots t \<noteq> {}" ht_lookup same_handle Create Close
proof (unfold_locales, goal_cases)
  case (3 h h' t)
  then show ?case by (rule same_handle_lookup)
next
  case (4 t x)
  then show ?case by (intro Create_full) simp_all
next
  case (5 t x)
  then show ?case by (rule ht_lookup_Create)
next
  case (7 t h)
  then show ?case by (rule ht_lookup_Close)
qed (simp_all add: same_handle_def Close_invalid)


section \<open>Properties\<close>

text \<open>
  C28: a handle created while a slot is free is new, looks up the object it was created for, and
  changes no other lookup; closing it again makes every lookup what it was before. With no free
  slot \<^verbatim>\<open>Create\<close> returns \<^verbatim>\<open>ERR_OUT_OF_HANDLES\<close> and changes nothing.
\<close>
theorem Create_lookup_Close:
  assumes "ht_inv t"
  shows "if empty_slots t = {} then Create x t = (ResultErr ERR_OUT_OF_HANDLES, t)
    else \<exists>h t' t''. Create x t = (MakeResult h, t') \<and> ht_inv t' \<and> ht_lookup t h = None
      \<and> (\<forall>h'. ht_lookup t' h' = (if same_handle h' h then Some x else ht_lookup t h'))
      \<and> Close h t' = (RESULT_SUCCESS, t'') \<and> ht_inv t'' \<and> ht_lookup t'' = ht_lookup t"
proof (cases "empty_slots t = {}")
  case False
  from ht.create_room [OF assms False] ht.create_close [OF assms False]
  show ?thesis using False by (metis Pair_inject rv_simps(8))
qed (simp add: ht.create_full [OF assms])

theorem Create_lookup_Close_witness:
  "ht_inv (HandleTable_init :: nat HandleTable)
   \<and> (\<exists>h t'. Create (5::nat) HandleTable_init = (MakeResult h, t') \<and> ht_lookup t' h = Some 5)"
proof -
  have "empty_slots (HandleTable_init :: nat HandleTable) \<noteq> {}"
    by (simp add: ht_inv_init MAX_COUNT_def)
  with Create_lookup_Close [OF ht_inv_init(1), of "5::nat"]
  obtain h t' where "Create (5::nat) HandleTable_init = (MakeResult h, t')" "ht_lookup t' h = Some 5"
    by (auto simp: same_handle_def)
  then show ?thesis using ht_inv_init(1) by blast
qed

text \<open>
  no sequence of operations can make the table lose or duplicate a slot: creating,
  duplicating, closing and clearing all keep the invariant that the free list visits every empty slot once.
\<close>
theorem ht_inv_preserved:
  assumes "ht_inv t"
  shows "ht_inv (snd (Create x t)) \<and> ht_inv (snd (Duplicate ct cp h t)) \<and> ht_inv (snd (Close h t))
    \<and> ht_inv (Clear t) \<and> ht_inv (HandleTable_init :: 'o HandleTable)"
proof -
  have "ht_inv (snd (Duplicate ct cp h t))"
    using assms by (auto simp: Duplicate_def ht.create_inv split: option.splits)
  moreover have "ht_inv (Clear t)" using assms by (intro ht_inv_Clear) (simp_all add: ht_inv_def)
  ultimately show ?thesis using assms by (simp add: ht.create_inv ht.close_inv ht_inv_init)
qed

theorem ht_inv_preserved_witness:
  "ht_inv (HandleTable_init :: nat HandleTable) \<and> ht_inv (snd (Create (1::nat) HandleTable_init))"
  using ht_inv_preserved [OF ht_inv_init(1), of "1::nat"] by (simp add: ht_inv_init)

text \<open>
  a closed handle is refused from then on: closing it once more returns
  \<^verbatim>\<open>ERR_INVALID_HANDLE\<close>, duplicating it too, and looking it up gives null. A handle that is not
  valid is refused by \<^verbatim>\<open>Close\<close> with the table unchanged.
\<close>
theorem Close_revokes:
  assumes "ht_inv t" "h \<noteq> CurrentThread" "h \<noteq> CurrentProcess"
  shows "if ht_lookup t h = None then Close h t = (ERR_INVALID_HANDLE, t)
    else \<exists>t'. Close h t = (RESULT_SUCCESS, t') \<and> GetGeneric ct cp t' h = None
      \<and> Close h t' = (ERR_INVALID_HANDLE, t')
      \<and> Duplicate ct cp h t' = (ResultErr ERR_INVALID_HANDLE, t')"
proof (cases "ht_lookup t h = None")
  case False
  from ht.close_valid [OF assms(1) False] obtain t' where "Close h t = (RESULT_SUCCESS, t')"
    and "ht_lookup t' h = None"
    by (auto simp: ht.same_refl)
  with assms(2,3) show ?thesis
    by (simp add: False Duplicate_def GetGeneric_eq ht.close_invalid del: not_None_eq)
qed (simp add: ht.close_invalid)

theorem Close_revokes_witness:
  "ht_inv (HandleTable_init :: nat HandleTable) \<and> (7::u32) \<noteq> CurrentThread \<and> (7::u32) \<noteq> CurrentProcess
   \<and> Close 7 (HandleTable_init :: nat HandleTable) = (ERR_INVALID_HANDLE, HandleTable_init)"
proof -
  have a: "(7::u32) \<noteq> CurrentThread" "(7::u32) \<noteq> CurrentProcess"
    by (simp_all add: CurrentThread_def CurrentProcess_def)
  have "ht_lookup (HandleTable_init :: nat HandleTable) 7 = None"
    by (simp add: ht_lookup_eq HandleTable_init_def Clear_def)
  with Close_revokes [where t = "HandleTable_init :: nat HandleTable", OF ht_inv_init(1) a, of None None] a
  show ?thesis by (simp add: ht_inv_init)
qed

text \<open>
  the slot number is read into 16 bits, so bit 31 of a handle is ignored: whenever a handle is
  valid, the word with that bit flipped is accepted as the same handle, although the table's
  description has the slot index in bits 31 to 15.
\<close>
theorem handle_bit31_ignored:
  "IsValid t (h XOR 0x80000000) = IsValid t h \<and> same_handle (h XOR 0x80000000) h"
  by (simp add: IsValid_def same_handle_def same_low_bits_alias)

end
