(* ===== verification/Resource_Limit.thy ===== *)
theory Resource_Limit
  imports Prelude
begin

text \<open>
  \<^verbatim>\<open>Kernel::ResourceLimit\<close> and \<^verbatim>\<open>ResourceLimitList\<close> of \<^verbatim>\<open>src/src/core/hle/kernel/resource_limit.{h,cpp}\<close>. The fields are
  \<^verbatim>\<open>s32\<close>; an unknown resource type is logged and read as \<open>0\<close>.
\<close>

datatype ResourceLimitCategory = RL_APPLICATION | RL_SYS_APPLET | RL_LIB_APPLET | RL_OTHER

datatype ResourceTypes = PRIORITY | COMMIT | THREAD | EVENT | MUTEX | SEMAPHORE | TIMER | SHARED_MEMORY | ADDRESS_ARBITER | CPU_TIME
  | OTHER_RESOURCE

definition ResourceTypes_of :: "u32 \<Rightarrow> ResourceTypes" where
  "ResourceTypes_of n =
     (if n = 0 then PRIORITY else if n = 1 then COMMIT else if n = 2 then THREAD else if n = 3 then EVENT else if n = 4 then MUTEX
      else if n = 5 then SEMAPHORE else if n = 6 then TIMER else if n = 7 then SHARED_MEMORY else if n = 8 then ADDRESS_ARBITER
      else if n = 9 then CPU_TIME else OTHER_RESOURCE)"

record ResourceLimit =
  max_priority :: int
  max_commit :: int
  max_threads :: int
  max_events :: int
  max_mutexes :: int
  max_semaphores :: int
  max_timers :: int
  max_shared_mems :: int
  max_address_arbiters :: int
  max_cpu_time :: int
  current_commit :: int
  current_threads :: int
  current_events :: int
  current_mutexes :: int
  current_semaphores :: int
  current_timers :: int
  current_shared_mems :: int
  current_address_arbiters :: int
  current_cpu_time :: int

definition ResourceLimit_Create :: ResourceLimit where
  "ResourceLimit_Create = \<lparr>max_priority = 0, max_commit = 0, max_threads = 0, max_events = 0, max_mutexes = 0, max_semaphores = 0,
     max_timers = 0, max_shared_mems = 0, max_address_arbiters = 0, max_cpu_time = 0, current_commit = 0, current_threads = 0,
     current_events = 0, current_mutexes = 0, current_semaphores = 0, current_timers = 0, current_shared_mems = 0,
     current_address_arbiters = 0, current_cpu_time = 0\<rparr>"

definition GetCurrentResourceValue :: "u32 \<Rightarrow> ResourceLimit \<Rightarrow> int" where
  "GetCurrentResourceValue resource l =
     (case ResourceTypes_of resource of
        COMMIT \<Rightarrow> current_commit l
      | THREAD \<Rightarrow> current_threads l
      | EVENT \<Rightarrow> current_events l
      | MUTEX \<Rightarrow> current_mutexes l
      | SEMAPHORE \<Rightarrow> current_semaphores l
      | TIMER \<Rightarrow> current_timers l
      | SHARED_MEMORY \<Rightarrow> current_shared_mems l
      | ADDRESS_ARBITER \<Rightarrow> current_address_arbiters l
      | CPU_TIME \<Rightarrow> current_cpu_time l
      | _ \<Rightarrow> 0)"

text \<open>The result type is \<^verbatim>\<open>u32\<close>.\<close>

definition GetMaxResourceValue :: "u32 \<Rightarrow> ResourceLimit \<Rightarrow> int" where
  "GetMaxResourceValue resource l = to_u32
     (case ResourceTypes_of resource of
        PRIORITY \<Rightarrow> max_priority l
      | COMMIT \<Rightarrow> max_commit l
      | THREAD \<Rightarrow> max_threads l
      | EVENT \<Rightarrow> max_events l
      | MUTEX \<Rightarrow> max_mutexes l
      | SEMAPHORE \<Rightarrow> max_semaphores l
      | TIMER \<Rightarrow> max_timers l
      | SHARED_MEMORY \<Rightarrow> max_shared_mems l
      | ADDRESS_ARBITER \<Rightarrow> max_address_arbiters l
      | CPU_TIME \<Rightarrow> max_cpu_time l
      | OTHER_RESOURCE \<Rightarrow> 0)"

text \<open>The constructor of \<^verbatim>\<open>ResourceLimitList\<close>, by category; \<^verbatim>\<open>GetForCategory\<close> is the application of the function.\<close>

fun ResourceLimitList :: "ResourceLimitCategory \<Rightarrow> ResourceLimit" where
  "ResourceLimitList RL_APPLICATION = ResourceLimit_Create\<lparr>max_priority := 0x18, max_commit := 0x4000000, max_threads := 0x20, max_events := 0x20,
     max_mutexes := 0x20, max_semaphores := 0x8, max_timers := 0x8, max_shared_mems := 0x10, max_address_arbiters := 0x2, max_cpu_time := 0x1E\<rparr>"
| "ResourceLimitList RL_SYS_APPLET = ResourceLimit_Create\<lparr>max_priority := 0x4, max_commit := 0x5E00000, max_threads := 0x1D, max_events := 0xB,
     max_mutexes := 0x8, max_semaphores := 0x4, max_timers := 0x4, max_shared_mems := 0x8, max_address_arbiters := 0x3, max_cpu_time := 0x2710\<rparr>"
| "ResourceLimitList RL_LIB_APPLET = ResourceLimit_Create\<lparr>max_priority := 0x4, max_commit := 0x600000, max_threads := 0xE, max_events := 0x8,
     max_mutexes := 0x8, max_semaphores := 0x4, max_timers := 0x4, max_shared_mems := 0x8, max_address_arbiters := 0x1, max_cpu_time := 0x2710\<rparr>"
| "ResourceLimitList RL_OTHER = ResourceLimit_Create\<lparr>max_priority := 0x4, max_commit := 0x2180000, max_threads := 0xE1, max_events := 0x108,
     max_mutexes := 0x25, max_semaphores := 0x43, max_timers := 0x2C, max_shared_mems := 0x1F, max_address_arbiters := 0x2D, max_cpu_time := 0x3E8\<rparr>"

definition GetForCategory :: "(ResourceLimitCategory \<Rightarrow> ResourceLimit) \<Rightarrow> ResourceLimitCategory \<Rightarrow> ResourceLimit" where
  "GetForCategory limits category = limits category"

end
