(* ===== verification/Svc.thy ===== *)
theory Svc
  imports Sessions Handle_Table Resource_Limit
begin

text \<open>
  The system calls of \<^verbatim>\<open>src/src/core/hle/kernel/svc.cpp\<close> on threads, wait objects, arbiters, ports and
  sessions, over the handle table of the calling process. A handle refers to an object by its type and number. A call that
  only returns a code is a \<open>ResultCode\<close>, a call with an output a \<open>ResultVal\<close> of it. The calls on memory blocks, on
  process memory and \<^verbatim>\<open>ReplyAndReceive\<close> are not modelled here; logging is not modelled.
\<close>

section \<open>State\<close>

type_synonym kobject = "HandleType \<times> oid"

record Process =
  handle_table :: "kobject HandleTable"
  process_limits :: ResourceLimitCategory
  ideal_processor :: int
  process_id :: nat

record System =
  kernel :: Kernel
  processes :: "oid \<Rightarrow> Process"
  limits :: "ResourceLimitCategory \<Rightarrow> ResourceLimit"

definition GetCurrentProcess :: "System \<Rightarrow> oid run" where
  "GetCurrentProcess s = cpu_process (kernel s) (current_cpu (kernel s))"

definition GetCurrentThread :: "System \<Rightarrow> oid option" where
  "GetCurrentThread s = current_thread (managers (kernel s) (current_cpu (kernel s)))"

fun IsWaitable :: "HandleType \<Rightarrow> bool" where
  "IsWaitable HT_Event = True"
| "IsWaitable HT_Mutex = True"
| "IsWaitable HT_Thread = True"
| "IsWaitable HT_Semaphore = True"
| "IsWaitable HT_Timer = True"
| "IsWaitable HT_ServerPort = True"
| "IsWaitable HT_ServerSession = True"
| "IsWaitable _ = False"

definition DynamicObjectCast :: "HandleType \<Rightarrow> kobject option \<Rightarrow> oid option" where
  "DynamicObjectCast ty object = (case object of None \<Rightarrow> None | Some (t, i) \<Rightarrow> if t = ty then Some i else None)"

definition DynamicObjectCast_WaitObject :: "kobject option \<Rightarrow> oid option" where
  "DynamicObjectCast_WaitObject object = (case object of None \<Rightarrow> None | Some (t, i) \<Rightarrow> if IsWaitable t then Some i else None)"

definition lookup :: "Handle \<Rightarrow> System \<Rightarrow> kobject option run" where
  "lookup handle s = do {
     p \<leftarrow> GetCurrentProcess s;
     Some (GetGeneric (map_option (Pair HT_Thread) (GetCurrentThread s)) (Some (HT_Process, p)) (handle_table (processes s p)) handle)
   }"

definition Get :: "HandleType \<Rightarrow> Handle \<Rightarrow> System \<Rightarrow> oid option run" where
  "Get ty handle s = map_option (DynamicObjectCast ty) (lookup handle s)"

definition Get_WaitObject :: "Handle \<Rightarrow> System \<Rightarrow> oid option run" where
  "Get_WaitObject handle s = map_option DynamicObjectCast_WaitObject (lookup handle s)"

definition upd_table :: "oid \<Rightarrow> kobject HandleTable \<Rightarrow> System \<Rightarrow> System" where
  "upd_table p t s = s\<lparr>processes := (processes s)(p := (processes s p)\<lparr>handle_table := t\<rparr>)\<rparr>"

definition set_kernel :: "Kernel \<Rightarrow> System \<Rightarrow> System" where "set_kernel k s = s\<lparr>kernel := k\<rparr>"

definition create_handle :: "kobject \<Rightarrow> System \<Rightarrow> (Handle ResultVal \<times> System) run" where
  "create_handle object s = do {
     p \<leftarrow> GetCurrentProcess s;
     let (h, t) = Create object (handle_table (processes s p));
     Some (h, upd_table p t s)
   }"

section \<open>Handles\<close>

definition SVC_CloseHandle :: "Handle \<Rightarrow> System \<Rightarrow> (ResultCode \<times> System) run" where
  "SVC_CloseHandle handle s = do {
     p \<leftarrow> GetCurrentProcess s;
     let (r, t) = Close handle (handle_table (processes s p));
     Some (r, upd_table p t s)
   }"

definition SVC_DuplicateHandle :: "Handle \<Rightarrow> System \<Rightarrow> (Handle ResultVal \<times> System) run" where
  "SVC_DuplicateHandle handle s = do {
     p \<leftarrow> GetCurrentProcess s;
     let (h, t) = Duplicate (map_option (Pair HT_Thread) (GetCurrentThread s)) (Some (HT_Process, p)) handle (handle_table (processes s p));
     Some (h, upd_table p t s)
   }"

section \<open>Waiting\<close>

definition SVC_WaitSynchronization1 :: "Handle \<Rightarrow> int \<Rightarrow> System \<Rightarrow> (ResultCode \<times> System) run" where
  "SVC_WaitSynchronization1 handle nano_seconds s = do {
     object \<leftarrow> Get_WaitObject handle s;
     (case object of
        None \<Rightarrow> Some (ERR_INVALID_HANDLE, s)
      | Some w \<Rightarrow> do {
          t \<leftarrow> GetCurrentThread s;
          let k = kernel s;
          (if ShouldWait k w t then
             if nano_seconds = 0 then Some (RESULT_TIMEOUT, s)
             else do {
               let k = upd_thread t (\<lambda>x. x\<lparr>wait_objects := [w]\<rparr>) k;
               let k = AddWaitingThread w t k;
               let k = upd_thread t (\<lambda>x. x\<lparr>status := WaitSynchAny\<rparr>) k;
               k \<leftarrow> WakeAfterDelay t nano_seconds k;
               let k = upd_thread t (\<lambda>x. x\<lparr>wakeup_callback := Some (SVC_SyncCallback False)\<rparr>) k;
               Some (RESULT_TIMEOUT, set_kernel (PrepareReschedule k) s) }
           else do {
             k \<leftarrow> Acquire w t k;
             Some (RESULT_SUCCESS, set_kernel k s) }) })
   }"

text \<open>The loop that reads the handles; \<open>None\<close> for an invalid one.\<close>

fun read_objects :: "nat \<Rightarrow> nat \<Rightarrow> System \<Rightarrow> oid list option run" where
  "read_objects address 0 s = Some (Some [])"
| "read_objects address (Suc n) s = do {
     object \<leftarrow> Get_WaitObject (load32 address (kernel s)) s;
     (case object of
        None \<Rightarrow> Some None
      | Some w \<Rightarrow> map_option (map_option ((#) w)) (read_objects (add32 address 4) n s))
   }"

definition sleep_on :: "ThreadStatus \<Rightarrow> bool \<Rightarrow> oid list \<Rightarrow> oid \<Rightarrow> int \<Rightarrow> Kernel \<Rightarrow> Kernel run" where
  "sleep_on st do_output ws t nano_seconds k = do {
     let k = upd_thread t (\<lambda>x. x\<lparr>status := st\<rparr>) k;
     let k = foldl (\<lambda>k w. AddWaitingThread w t k) k ws;
     let k = upd_thread t (\<lambda>x. x\<lparr>wait_objects := ws\<rparr>) k;
     k \<leftarrow> WakeAfterDelay t nano_seconds k;
     let k = upd_thread t (\<lambda>x. x\<lparr>wakeup_callback := Some (SVC_SyncCallback do_output)\<rparr>) k;
     Some (PrepareReschedule k)
   }"

fun find_available :: "Kernel \<Rightarrow> oid \<Rightarrow> oid list \<Rightarrow> (nat \<times> oid) option" where
  "find_available k t [] = None"
| "find_available k t (w # ws) =
     (if \<not> ShouldWait k w t then Some (0, w) else map_option (\<lambda>(i, x). (Suc i, x)) (find_available k t ws))"

text \<open>
  \<open>valid_address\<close> is \<^verbatim>\<open>Memory::IsValidVirtualAddress\<close> of the address of the handles. The second part of the result
  is what was written to \<^verbatim>\<open>out\<close>, if anything.
\<close>

definition SVC_WaitSynchronizationN ::
    "bool \<Rightarrow> nat \<Rightarrow> int \<Rightarrow> bool \<Rightarrow> int \<Rightarrow> System \<Rightarrow> (ResultCode \<times> int option \<times> System) run" where
  "SVC_WaitSynchronizationN valid_address handles_address handle_count wait_all nano_seconds s =
     (if \<not> valid_address then Some (ERR_INVALID_POINTER, None, s)
      else if handle_count < 0 then Some (ERR_OUT_OF_RANGE, None, s)
      else do {
        objects \<leftarrow> read_objects handles_address (nat handle_count) s;
        (case objects of
           None \<Rightarrow> Some (ERR_INVALID_HANDLE, None, s)
         | Some ws \<Rightarrow> do {
             t \<leftarrow> GetCurrentThread s;
             let k = kernel s;
             (if wait_all then
                if list_all (\<lambda>w. \<not> ShouldWait k w t) ws then do {
                  k \<leftarrow> acquire_all ws t k;
                  Some (RESULT_SUCCESS, None, set_kernel k s) }
                else if nano_seconds = 0 then Some (RESULT_TIMEOUT, None, s)
                else do {
                  k \<leftarrow> sleep_on WaitSynchAll False ws t nano_seconds k;
                  Some (RESULT_TIMEOUT, Some (- 1), set_kernel k s) }
              else
                (case find_available k t ws of
                   Some (i, w) \<Rightarrow> do {
                     k \<leftarrow> Acquire w t k;
                     Some (RESULT_SUCCESS, Some (int i), set_kernel k s) }
                 | None \<Rightarrow>
                     if nano_seconds = 0 then Some (RESULT_TIMEOUT, None, s)
                     else do {
                       k \<leftarrow> sleep_on WaitSynchAny True ws t nano_seconds k;
                       Some (RESULT_TIMEOUT, Some (- 1), set_kernel k s) })) }) })"

section \<open>Arbiters\<close>

definition SVC_CreateAddressArbiter :: "System \<Rightarrow> (Handle ResultVal \<times> System) run" where
  "SVC_CreateAddressArbiter s =
     (let (a, k) = CreateAddressArbiter (kernel s) in create_handle (HT_AddressArbiter, a) (set_kernel k s))"

definition ArbitrationType_of :: "u32 \<Rightarrow> ArbitrationType" where
  "ArbitrationType_of n = (if n = 0 then AT_Signal else if n = 1 then AT_WaitIfLessThan else if n = 2 then AT_DecrementAndWaitIfLessThan
     else if n = 3 then AT_WaitIfLessThanWithTimeout else if n = 4 then AT_DecrementAndWaitIfLessThanWithTimeout else AT_Unknown n)"

definition SVC_ArbitrateAddress :: "Handle \<Rightarrow> nat \<Rightarrow> u32 \<Rightarrow> u32 \<Rightarrow> int \<Rightarrow> System \<Rightarrow> (ResultCode \<times> System) run" where
  "SVC_ArbitrateAddress handle address ty v nanoseconds s = do {
     arbiter \<leftarrow> Get HT_AddressArbiter handle s;
     (case arbiter of
        None \<Rightarrow> Some (ERR_INVALID_HANDLE, s)
      | Some a \<Rightarrow> do {
          t \<leftarrow> GetCurrentThread s;
          (r, k) \<leftarrow> ArbitrateAddress a t (ArbitrationType_of ty) address (sint v) (to_u64 nanoseconds) (kernel s);
          Some (r, set_kernel (PrepareReschedule k) s) })
   }"

section \<open>Resource limits\<close>

text \<open>A resource limit object is the limit of its category; categories are numbered as in the source.\<close>

fun category_id :: "ResourceLimitCategory \<Rightarrow> oid" where
  "category_id RL_APPLICATION = 0"
| "category_id RL_SYS_APPLET = 1"
| "category_id RL_LIB_APPLET = 2"
| "category_id RL_OTHER = 3"

definition limit_of_id :: "oid \<Rightarrow> System \<Rightarrow> ResourceLimit" where
  "limit_of_id i s = limits s (if i = 0 then RL_APPLICATION else if i = 1 then RL_SYS_APPLET else if i = 2 then RL_LIB_APPLET else RL_OTHER)"

definition SVC_GetResourceLimit :: "Handle \<Rightarrow> System \<Rightarrow> (Handle ResultVal \<times> System) run" where
  "SVC_GetResourceLimit process_handle s = do {
     process \<leftarrow> Get HT_Process process_handle s;
     (case process of
        None \<Rightarrow> Some (ResultErr ERR_INVALID_HANDLE, s)
      | Some p \<Rightarrow> create_handle (HT_ResourceLimit, category_id (process_limits (processes s p))) s)
   }"

definition Write64 :: "nat \<Rightarrow> int \<Rightarrow> Kernel \<Rightarrow> Kernel" where
  "Write64 address v k = store address (to_bytes 8 (of_int v :: u64)) k"

fun write_values :: "(u32 \<Rightarrow> int) \<Rightarrow> nat \<Rightarrow> nat \<Rightarrow> nat \<Rightarrow> Kernel \<Rightarrow> Kernel" where
  "write_values value_of values names 0 k = k"
| "write_values value_of values names (Suc n) k =
     write_values value_of (add32 values 8) (add32 names 4) n (Write64 values (value_of (load32 names k)) k)"

definition SVC_GetResourceLimitCurrentValues :: "nat \<Rightarrow> Handle \<Rightarrow> nat \<Rightarrow> nat \<Rightarrow> System \<Rightarrow> (ResultCode \<times> System) run" where
  "SVC_GetResourceLimitCurrentValues values handle names name_count s = do {
     resource_limit \<leftarrow> Get HT_ResourceLimit handle s;
     (case resource_limit of
        None \<Rightarrow> Some (ERR_INVALID_HANDLE, s)
      | Some i \<Rightarrow> Some (RESULT_SUCCESS,
          set_kernel (write_values (\<lambda>name. GetCurrentResourceValue name (limit_of_id i s)) values names name_count (kernel s)) s))
   }"

definition SVC_GetResourceLimitLimitValues :: "nat \<Rightarrow> Handle \<Rightarrow> nat \<Rightarrow> nat \<Rightarrow> System \<Rightarrow> (ResultCode \<times> System) run" where
  "SVC_GetResourceLimitLimitValues values handle names name_count s = do {
     resource_limit \<leftarrow> Get HT_ResourceLimit handle s;
     (case resource_limit of
        None \<Rightarrow> Some (ERR_INVALID_HANDLE, s)
      | Some i \<Rightarrow> Some (RESULT_SUCCESS,
          set_kernel (write_values (\<lambda>name. GetMaxResourceValue name (limit_of_id i s)) values names name_count (kernel s)) s))
   }"

section \<open>Threads\<close>

definition ThreadProcessorIdDefault :: int where "ThreadProcessorIdDefault = - 2"
definition ThreadProcessorIdAll :: int where "ThreadProcessorIdAll = - 1"

text \<open>
  \<open>valid_entry\<close>, \<open>linear_offset\<close> and \<open>num_cores\<close> are those of \<open>CreateThread\<close>. Register 17 of a context is the
  FPSCR.
\<close>

definition SVC_CreateThread ::
    "bool \<Rightarrow> nat option \<Rightarrow> nat \<Rightarrow> nat \<Rightarrow> u32 \<Rightarrow> nat \<Rightarrow> nat \<Rightarrow> int \<Rightarrow> System \<Rightarrow> (Handle ResultVal \<times> System) run" where
  "SVC_CreateThread valid_entry linear_offset num_cores entry arg stack priority processor_id s =
     (if priority > ThreadPrioLowest then Some (ResultErr ERR_OUT_OF_RANGE, s)
      else do {
        p \<leftarrow> GetCurrentProcess s;
        (if GetMaxResourceValue 0 (limits s (process_limits (processes s p))) > int priority then Some (ResultErr ERR_NOT_AUTHORIZED, s)
         else do {
           let id = (if processor_id = ThreadProcessorIdDefault then ideal_processor (processes s p) else processor_id);
           ASSERT (id \<noteq> ThreadProcessorIdDefault);
           ASSERT (id \<in> {- 1, 0, 1, 2, 3});
           let id = (if id = ThreadProcessorIdAll then 0 else id);
           (r, k) \<leftarrow> CreateThread valid_entry linear_offset entry priority arg id stack p num_cores (kernel s);
           (case rv_object r of
              None \<Rightarrow> Some (ResultErr (Code r), set_kernel k s)
            | Some t \<Rightarrow> do {
                let k = upd_thread t (\<lambda>x. x\<lparr>thread_context := (thread_context x)(17 := 0x03C00000)\<rparr>) k;
                (h, s) \<leftarrow> create_handle (HT_Thread, t) (set_kernel k s);
                (case rv_object h of
                   None \<Rightarrow> Some (ResultErr (Code h), s)
                 | Some _ \<Rightarrow> Some (h, set_kernel (PrepareReschedule (kernel s)) s)) }) }) })"

definition SVC_ExitThread :: "System \<Rightarrow> System run" where
  "SVC_ExitThread s = do {
     k \<leftarrow> ExitCurrentThread (current_cpu (kernel s)) (kernel s);
     Some (set_kernel (PrepareReschedule k) s)
   }"

definition SVC_GetThreadPriority :: "Handle \<Rightarrow> System \<Rightarrow> nat ResultVal run" where
  "SVC_GetThreadPriority handle s = do {
     thread \<leftarrow> Get HT_Thread handle s;
     (case thread of
        None \<Rightarrow> Some (ResultErr ERR_INVALID_HANDLE)
      | Some t \<Rightarrow> Some (MakeResult (current_priority (threads (kernel s) t))))
   }"

definition SVC_SetThreadPriority :: "Handle \<Rightarrow> nat \<Rightarrow> System \<Rightarrow> (ResultCode \<times> System) run" where
  "SVC_SetThreadPriority handle priority s =
     (if priority > ThreadPrioLowest then Some (ERR_OUT_OF_RANGE, s)
      else do {
        thread \<leftarrow> Get HT_Thread handle s;
        (case thread of
           None \<Rightarrow> Some (ERR_INVALID_HANDLE, s)
         | Some t \<Rightarrow> do {
             p \<leftarrow> GetCurrentProcess s;
             (if GetMaxResourceValue 0 (limits s (process_limits (processes s p))) > int priority then Some (ERR_NOT_AUTHORIZED, s)
              else do {
                k \<leftarrow> SetPriority t priority (kernel s);
                let k = Thread_UpdatePriority t k;
                let k = foldl (\<lambda>k w. Mutex_UpdatePriority w k) k (pending_mutexes (threads k t));
                Some (RESULT_SUCCESS, set_kernel (PrepareReschedule k) s) }) }) })"

definition SVC_GetProcessId :: "Handle \<Rightarrow> System \<Rightarrow> nat ResultVal run" where
  "SVC_GetProcessId process_handle s = do {
     process \<leftarrow> Get HT_Process process_handle s;
     (case process of
        None \<Rightarrow> Some (ResultErr ERR_INVALID_HANDLE)
      | Some p \<Rightarrow> Some (MakeResult (process_id (processes s p))))
   }"

definition SVC_GetProcessIdOfThread :: "Handle \<Rightarrow> System \<Rightarrow> nat ResultVal run" where
  "SVC_GetProcessIdOfThread thread_handle s = do {
     thread \<leftarrow> Get HT_Thread thread_handle s;
     (case thread of
        None \<Rightarrow> Some (ResultErr ERR_INVALID_HANDLE)
      | Some t \<Rightarrow> Some (MakeResult (process_id (processes s (owner_process (threads (kernel s) t))))))
   }"

definition SVC_GetThreadId :: "Handle \<Rightarrow> System \<Rightarrow> nat ResultVal run" where
  "SVC_GetThreadId handle s = do {
     thread \<leftarrow> Get HT_Thread handle s;
     (case thread of
        None \<Rightarrow> Some (ResultErr ERR_INVALID_HANDLE)
      | Some t \<Rightarrow> Some (MakeResult (thread_id (threads (kernel s) t))))
   }"

definition SVC_SleepThread :: "int \<Rightarrow> System \<Rightarrow> System run" where
  "SVC_SleepThread nanoseconds s = do {
     let c = current_cpu (kernel s);
     ready \<leftarrow> HaveReadyThreads c (kernel s);
     (if nanoseconds = 0 \<and> \<not> ready then Some s
      else do {
        k \<leftarrow> WaitCurrentThread_Sleep c (kernel s);
        t \<leftarrow> current_thread (managers k c);
        k \<leftarrow> WakeAfterDelay t nanoseconds k;
        Some (set_kernel (PrepareReschedule k) s) })
   }"

text \<open>The running core is the current timer; its clock scale is 1, so that 150 ticks are added.\<close>

definition SVC_GetSystemTick :: "System \<Rightarrow> (int \<times> System) run" where
  "SVC_GetSystemTick s = do {
     let tm = k_timing (kernel s);
     ASSERT (current_timer tm < length (timers tm));
     Some (to_s64 (GetTicks (timers tm ! current_timer tm)),
           set_kernel ((kernel s)\<lparr>k_timing := upd_timer (current_timer tm) (AddTicks 150) tm\<rparr>) s)
   }"

section \<open>Mutexes, semaphores, events and timers\<close>

definition SVC_CreateMutex :: "u32 \<Rightarrow> System \<Rightarrow> (Handle ResultVal \<times> System) run" where
  "SVC_CreateMutex initial_locked s = do {
     (w, k) \<leftarrow> CreateMutex (initial_locked \<noteq> 0) (kernel s);
     create_handle (HT_Mutex, w) (set_kernel k s)
   }"

definition SVC_ReleaseMutex :: "Handle \<Rightarrow> System \<Rightarrow> (ResultCode \<times> System) run" where
  "SVC_ReleaseMutex handle s = do {
     mutex \<leftarrow> Get HT_Mutex handle s;
     (case mutex of
        None \<Rightarrow> Some (ERR_INVALID_HANDLE, s)
      | Some w \<Rightarrow> do {
          t \<leftarrow> GetCurrentThread s;
          (case obj (wait_object (kernel s) w) of
             O_Mutex mx \<Rightarrow> do { (r, k) \<leftarrow> Mutex_Release w mx t (kernel s); Some (r, set_kernel k s) }
           | _ \<Rightarrow> None) })
   }"

definition SVC_CreateSemaphore :: "int \<Rightarrow> int \<Rightarrow> System \<Rightarrow> (Handle ResultVal \<times> System) run" where
  "SVC_CreateSemaphore initial_count maximum s =
     (let (r, k) = CreateSemaphore initial_count maximum (kernel s)
      in case rv_object r of
           None \<Rightarrow> Some (ResultErr (Code r), set_kernel k s)
         | Some w \<Rightarrow> create_handle (HT_Semaphore, w) (set_kernel k s))"

definition SVC_ReleaseSemaphore :: "Handle \<Rightarrow> int \<Rightarrow> System \<Rightarrow> (int ResultVal \<times> System) run" where
  "SVC_ReleaseSemaphore handle release_count s = do {
     semaphore \<leftarrow> Get HT_Semaphore handle s;
     (case semaphore of
        None \<Rightarrow> Some (ResultErr ERR_INVALID_HANDLE, s)
      | Some w \<Rightarrow>
          (case obj (wait_object (kernel s) w) of
             O_Semaphore x \<Rightarrow> do { (r, k) \<leftarrow> Semaphore_Release w x release_count (kernel s); Some (r, set_kernel k s) }
           | _ \<Rightarrow> None))
   }"

text \<open>
  The cast of the reset type is not checked. Values other than those of \<^verbatim>\<open>OneShot\<close> and \<^verbatim>\<open>Pulse\<close> are only ever
  compared with these two, so they all act as \<open>Sticky\<close>.
\<close>

definition ResetType_of :: "u32 \<Rightarrow> ResetType" where
  "ResetType_of n = (if n = 0 then OneShot else if n = 2 then Pulse else Sticky)"

definition SVC_CreateEvent :: "u32 \<Rightarrow> System \<Rightarrow> (Handle ResultVal \<times> System) run" where
  "SVC_CreateEvent reset_type s =
     (let (w, k) = CreateEvent (ResetType_of reset_type) (kernel s) in create_handle (HT_Event, w) (set_kernel k s))"

definition SVC_SignalEvent :: "Handle \<Rightarrow> System \<Rightarrow> (ResultCode \<times> System) run" where
  "SVC_SignalEvent handle s = do {
     evt \<leftarrow> Get HT_Event handle s;
     (case evt of
        None \<Rightarrow> Some (ERR_INVALID_HANDLE, s)
      | Some w \<Rightarrow>
          (case obj (wait_object (kernel s) w) of
             O_Event e \<Rightarrow> do { k \<leftarrow> Event_Signal w e (kernel s); Some (RESULT_SUCCESS, set_kernel k s) }
           | _ \<Rightarrow> None))
   }"

definition SVC_ClearEvent :: "Handle \<Rightarrow> System \<Rightarrow> (ResultCode \<times> System) run" where
  "SVC_ClearEvent handle s = do {
     evt \<leftarrow> Get HT_Event handle s;
     (case evt of
        None \<Rightarrow> Some (ERR_INVALID_HANDLE, s)
      | Some w \<Rightarrow>
          (case obj (wait_object (kernel s) w) of
             O_Event e \<Rightarrow> Some (RESULT_SUCCESS, set_kernel (Event_Clear w e (kernel s)) s)
           | _ \<Rightarrow> None))
   }"

definition SVC_CreateTimer :: "u32 \<Rightarrow> System \<Rightarrow> (Handle ResultVal \<times> System) run" where
  "SVC_CreateTimer reset_type s =
     (let (w, k) = CreateTimer (ResetType_of reset_type) (kernel s) in create_handle (HT_Timer, w) (set_kernel k s))"

definition SVC_ClearTimer :: "Handle \<Rightarrow> System \<Rightarrow> (ResultCode \<times> System) run" where
  "SVC_ClearTimer handle s = do {
     timer \<leftarrow> Get HT_Timer handle s;
     (case timer of
        None \<Rightarrow> Some (ERR_INVALID_HANDLE, s)
      | Some w \<Rightarrow>
          (case obj (wait_object (kernel s) w) of
             O_Timer x \<Rightarrow> Some (RESULT_SUCCESS, set_kernel (Timer_Clear w x (kernel s)) s)
           | _ \<Rightarrow> None))
   }"

definition SVC_SetTimer :: "Handle \<Rightarrow> int \<Rightarrow> int \<Rightarrow> System \<Rightarrow> (ResultCode \<times> System) run" where
  "SVC_SetTimer handle initial interval s =
     (if initial < 0 \<or> interval < 0 then Some (ERR_OUT_OF_RANGE_KERNEL, s)
      else do {
        timer \<leftarrow> Get HT_Timer handle s;
        (case timer of
           None \<Rightarrow> Some (ERR_INVALID_HANDLE, s)
         | Some w \<Rightarrow>
             (case obj (wait_object (kernel s) w) of
                O_Timer x \<Rightarrow> do { k \<leftarrow> Timer_Set w x initial interval (kernel s); Some (RESULT_SUCCESS, set_kernel k s) }
              | _ \<Rightarrow> None)) })"

definition SVC_CancelTimer :: "Handle \<Rightarrow> System \<Rightarrow> (ResultCode \<times> System) run" where
  "SVC_CancelTimer handle s = do {
     timer \<leftarrow> Get HT_Timer handle s;
     (case timer of
        None \<Rightarrow> Some (ERR_INVALID_HANDLE, s)
      | Some w \<Rightarrow>
          (case obj (wait_object (kernel s) w) of
             O_Timer x \<Rightarrow> Some (RESULT_SUCCESS, set_kernel (Timer_Cancel x (kernel s)) s)
           | _ \<Rightarrow> None))
   }"

section \<open>Ports and sessions\<close>

text \<open>
  \<open>port_name\<close> is what \<^verbatim>\<open>ReadCString\<close> returned, at most 12 characters; \<open>named_ports\<close> is the kernel's table of
  ports.
\<close>

definition SVC_ConnectToPort :: "bool \<Rightarrow> (string \<rightharpoonup> oid) \<Rightarrow> string \<Rightarrow> System \<Rightarrow> (Handle ResultVal \<times> System) run" where
  "SVC_ConnectToPort valid_address named_ports port_name s =
     (if \<not> valid_address then Some (ResultErr ERR_NOT_FOUND, s)
      else if length port_name > 11 then Some (ResultErr ERR_PORT_NAME_TOO_LONG, s)
      else (case named_ports port_name of
              None \<Rightarrow> Some (ResultErr ERR_NOT_FOUND, s)
            | Some cp \<Rightarrow> do {
                (r, k) \<leftarrow> Connect cp (kernel s);
                (case rv_object r of
                   None \<Rightarrow> Some (ResultErr (Code r), set_kernel k s)
                 | Some cs \<Rightarrow> create_handle (HT_ClientSession, cs) (set_kernel k s)) }))"

definition SVC_SendSyncRequest :: "(oid \<Rightarrow> oid \<Rightarrow> Kernel \<Rightarrow> Kernel run) \<Rightarrow> Handle \<Rightarrow> System \<Rightarrow> (ResultCode \<times> System) run" where
  "SVC_SendSyncRequest hle handle s = do {
     session \<leftarrow> Get HT_ClientSession handle s;
     (case session of
        None \<Rightarrow> Some (ERR_INVALID_HANDLE, s)
      | Some cs \<Rightarrow> do {
          t \<leftarrow> GetCurrentThread s;
          (r, k) \<leftarrow> SendSyncRequest hle cs t (PrepareReschedule (kernel s));
          Some (r, set_kernel k s) })
   }"

definition SVC_CreatePort :: "nat \<Rightarrow> nat \<Rightarrow> System \<Rightarrow> ((Handle \<times> Handle) ResultVal \<times> System) run" where
  "SVC_CreatePort name_address maximum s = do {
     ASSERT (name_address = 0);
     let ((server, client), k) = CreatePortPair maximum (kernel s);
     (hc, s) \<leftarrow> create_handle (HT_ClientPort, client) (set_kernel k s);
     (case rv_object hc of
        None \<Rightarrow> Some (ResultErr (Code hc), s)
      | Some c \<Rightarrow> do {
          (hs, s) \<leftarrow> create_handle (HT_ServerPort, server) s;
          (case rv_object hs of
             None \<Rightarrow> Some (ResultErr (Code hs), s)
           | Some v \<Rightarrow> Some (MakeResult (v, c), s)) })
   }"

definition SVC_CreateSessionToPort :: "Handle \<Rightarrow> System \<Rightarrow> (Handle ResultVal \<times> System) run" where
  "SVC_CreateSessionToPort client_port_handle s = do {
     client_port \<leftarrow> Get HT_ClientPort client_port_handle s;
     (case client_port of
        None \<Rightarrow> Some (ResultErr ERR_INVALID_HANDLE, s)
      | Some cp \<Rightarrow> do {
          (r, k) \<leftarrow> Connect cp (kernel s);
          (case rv_object r of
             None \<Rightarrow> Some (ResultErr (Code r), set_kernel k s)
           | Some cs \<Rightarrow> create_handle (HT_ClientSession, cs) (set_kernel k s)) })
   }"

definition SVC_CreateSession :: "System \<Rightarrow> ((Handle \<times> Handle) ResultVal \<times> System) run" where
  "SVC_CreateSession s = do {
     let ((server, client), k) = CreateSessionPair None (kernel s);
     (hs, s) \<leftarrow> create_handle (HT_ServerSession, server) (set_kernel k s);
     (case rv_object hs of
        None \<Rightarrow> Some (ResultErr (Code hs), s)
      | Some v \<Rightarrow> do {
          (hc, s) \<leftarrow> create_handle (HT_ClientSession, client) s;
          (case rv_object hc of
             None \<Rightarrow> Some (ResultErr (Code hc), s)
           | Some c \<Rightarrow> Some (MakeResult (v, c), s)) })
   }"

definition SVC_AcceptSession :: "Handle \<Rightarrow> System \<Rightarrow> (Handle ResultVal \<times> System) run" where
  "SVC_AcceptSession server_port_handle s = do {
     sport \<leftarrow> Get HT_ServerPort server_port_handle s;
     (case sport of
        None \<Rightarrow> Some (ResultErr ERR_INVALID_HANDLE, s)
      | Some w \<Rightarrow>
          (case obj (wait_object (kernel s) w) of
             O_ServerPort p \<Rightarrow>
               (let (r, k) = Accept w p (kernel s)
                in case rv_object r of
                     None \<Rightarrow> Some (ResultErr (Code r), set_kernel k s)
                   | Some ss \<Rightarrow> create_handle (HT_ServerSession, ss) (set_kernel k s))
           | _ \<Rightarrow> None))
   }"

end
