(* ===== verification/Kernel_Inv.thy ===== *)
theory Kernel_Inv
  imports Svc
begin

text \<open>
  The invariant of the whole kernel: the scheduler, the waiting lists and the current threads agree, arbiters hold the threads
  asleep on them, numbers from \<open>next_object\<close> on are unused, objects referred to have the kind they are used at, and every
  thread's local storage is allocated. Every operation keeps it.
\<close>

definition arb_inv :: "Kernel \<Rightarrow> bool" where
  "arb_inv k \<longleftrightarrow> (\<forall>a. arbiter_inv a k)
     \<and> (\<forall>a. \<forall>t \<in> set (arbiter_waiting k a). wakeup_callback (threads k t) \<in> {None, Some (ArbiterCallback a)})
     \<and> (\<forall>a b t. t \<in> set (arbiter_waiting k a) \<longrightarrow> t \<in> set (arbiter_waiting k b) \<longrightarrow> a = b)
     \<and> (\<forall>t. status (threads k t) \<in> {Running, Ready} \<longrightarrow> wakeup_callback (threads k t) = None)"

text \<open>A thread with an arbiter's callback, or asleep in an arbiter, is in the list of one.\<close>

definition arb_listed :: "Kernel \<Rightarrow> bool" where
  "arb_listed k \<longleftrightarrow> (\<forall>t a. wakeup_callback (threads k t) = Some (ArbiterCallback a) \<longrightarrow> t \<in> set (arbiter_waiting k a))
     \<and> (\<forall>t. status (threads k t) = WaitArb \<longrightarrow> (\<exists>a. t \<in> set (arbiter_waiting k a)))"

lemma arb_listedI:
  assumes "\<And>t a. wakeup_callback (threads k t) = Some (ArbiterCallback a) \<Longrightarrow> t \<in> set (arbiter_waiting k a)"
    "\<And>t. status (threads k t) = WaitArb \<Longrightarrow> \<exists>a. t \<in> set (arbiter_waiting k a)"
  shows "arb_listed k"
  using assms by (simp add: arb_listed_def)

lemma arb_listedD:
  assumes "arb_listed k"
  shows "wakeup_callback (threads k t) = Some (ArbiterCallback a) \<Longrightarrow> t \<in> set (arbiter_waiting k a)"
    "status (threads k t) = WaitArb \<Longrightarrow> \<exists>a. t \<in> set (arbiter_waiting k a)"
  using assms by (simp_all add: arb_listed_def)

lemma arb_listed_cong: "arb_listed k \<Longrightarrow> threads k' = threads k \<Longrightarrow> arbiter_waiting k' = arbiter_waiting k \<Longrightarrow> arb_listed k'"
  by (simp only: arb_listed_def)

text \<open>The threads of the lists and the others may change, the lists of the others staying as they are.\<close>

lemma arb_listed_change:
  assumes "arb_listed k" "arbiter_waiting k' = arbiter_waiting k"
    "\<forall>u a. wakeup_callback (threads k' u) = Some (ArbiterCallback a) \<longrightarrow> wakeup_callback (threads k u) = Some (ArbiterCallback a)"
    "\<forall>u. status (threads k' u) = WaitArb \<longrightarrow> status (threads k u) = WaitArb"
  shows "arb_listed k'"
  using assms(1,3,4) unfolding arb_listed_def assms(2) by blast

definition fresh_inv :: "Kernel \<Rightarrow> bool" where
  "fresh_inv k \<longleftrightarrow> (\<forall>n \<ge> next_object k. status (threads k n) = Dormant \<and> kind k n = HT_Thread \<and> arbiter_waiting k n = []
       \<and> (\<forall>t. n \<notin> set (wait_objects (threads k t))))
     \<and> (\<forall>c t. current_thread (managers k c) = Some t \<longrightarrow> status (threads k t) \<noteq> Dormant)"

definition kind_inv :: "Kernel \<Rightarrow> bool" where
  "kind_inv k \<longleftrightarrow> (\<forall>t. status (threads k t) \<noteq> Dormant \<longrightarrow> kind k t = HT_Thread)
     \<and> (\<forall>t. \<forall>w \<in> set (held_mutexes (threads k t)). kind k w = HT_Mutex)
     \<and> (\<forall>w p. obj (wait_object k w) = O_ServerPort p \<longrightarrow> (\<forall>x \<in> set (pending_sessions p). kind k x = HT_ServerSession))
     \<and> (\<forall>w x. obj (wait_object k w) = O_Semaphore x \<longrightarrow> 0 \<le> available_count x \<and> available_count x \<le> max_count x \<and> max_count x < 2 ^ 31)
     \<and> (\<forall>n w. timer_table k n = Some w \<longrightarrow> kind k w = HT_Timer)"

definition tls_page :: "Thread \<Rightarrow> nat" where
  "tls_page x = sub32 (tls_address x) TLS_AREA_VADDR div PAGE_SIZE"

definition owner_inv :: "Kernel \<Rightarrow> bool" where
  "owner_inv k \<longleftrightarrow> (\<forall>t. status (threads k t) \<notin> {Dormant, Dead} \<longrightarrow> tls_page (threads k t) < length (tls_slots k (owner_process (threads k t))))
     \<and> (\<forall>c t. current_thread (managers k c) = Some t \<longrightarrow> cpu_process k c = Some (owner_process (threads k t)))
     \<and> (\<forall>p. \<forall>page \<in> set (tls_slots k p). length page = 8)"

definition kernel_base :: "Kernel \<Rightarrow> bool" where
  "kernel_base k \<longleftrightarrow> sched_inv k \<and> cpu_inv k \<and> arb_inv k \<and> fresh_inv k \<and> kind_inv k \<and> owner_inv k \<and> can_schedule k \<and> arb_listed k"

definition kernel_inv :: "Kernel \<Rightarrow> bool" where
  "kernel_inv k \<longleftrightarrow> wait_inv k \<and> kernel_base k"

lemma kernel_baseD:
  assumes "kernel_base k"
  shows "sched_inv k" "cpu_inv k" "arb_inv k" "fresh_inv k" "kind_inv k" "owner_inv k" "can_schedule k" "arb_listed k"
  using assms by (simp_all add: kernel_base_def)

lemma kernel_invD:
  assumes "kernel_inv k"
  shows "sched_inv k" "wait_inv k" "cpu_inv k" "arb_inv k" "fresh_inv k" "kind_inv k" "owner_inv k" "can_schedule k" "kernel_base k" "arb_listed k"
  using assms by (simp_all add: kernel_inv_def kernel_base_def)

section \<open>Waking up keeps the invariant\<close>

text \<open>Threads keep their status or leave a wait to become ready.\<close>

definition status_wake :: "Kernel \<Rightarrow> Kernel \<Rightarrow> bool" where
  "status_wake k k' \<longleftrightarrow> (\<forall>u. status (threads k' u) = status (threads k u)
     \<or> status (threads k' u) = Ready \<and> status (threads k u) \<in> {WaitSleep, WaitIPC, WaitSynchAny, WaitSynchAll, WaitHleEvent})"

lemma obj_stepD:
  "obj_step s (O_ServerPort p) \<Longrightarrow> s = O_ServerPort p"
  "obj_step s (O_Semaphore y) \<Longrightarrow> \<exists>x. s = O_Semaphore x \<and> max_count y = max_count x \<and> available_count y \<le> available_count x
     \<and> (0 \<le> available_count x \<longrightarrow> 0 \<le> available_count y)"
  by (cases s; simp add: obj_step_def)+

lemma kernel_base_wake:
  assumes inv: "kernel_base k" and f: "framed k k'" and k': "sched_inv k'" "status_wake k k'"
  shows "kernel_base k'"
proof -
  note K = kernel_baseD [OF inv] and F = framedD [OF f]
  have ft: "framed_thread k (threads k u) (threads k' u)" and os: "obj_step (obj (wait_object k w)) (obj (wait_object k' w))" for u w
    using f by (auto simp: framed_def)
  have st: "status (threads k' u) = status (threads k u) \<or> status (threads k' u) = Ready \<and> status (threads k u) \<in> {WaitSleep, WaitIPC, WaitSynchAny, WaitSynchAll, WaitHleEvent}" for u
    using k'(2) by (simp add: status_wake_def)
  have dorm: "status (threads k' u) = Dormant \<longleftrightarrow> status (threads k u) = Dormant" for u using st [of u] by auto
  have "cpu_inv k'" using K(2) st unfolding cpu_inv_def F by (metis ThreadStatus.distinct(1))
  moreover have "arb_inv k'" unfolding arb_inv_def arbiter_inv_def F
  proof (intro conjI allI ballI impI)
    fix a t assume "t \<in> set (arbiter_waiting k a)"
    then have t: "status (threads k t) = WaitArb" "wait_objects (threads k t) = []" "wakeup_callback (threads k t) \<in> {None, Some (ArbiterCallback a)}"
      using K(3) by (auto simp: arb_inv_def arbiter_inv_def)
    then show "status (threads k' t) = WaitArb" using st [of t] by auto
    show "wait_objects (threads k' t) = []" "wakeup_callback (threads k' t) \<in> {None, Some (ArbiterCallback a)}"
      using t(2,3) ft [of t] by (auto simp: framed_thread_def)
  next
    fix t assume t: "status (threads k' t) \<in> {Running, Ready}"
    have "status (threads k t) \<in> {Running, Ready} \<or> wakeup_callback (threads k' t) = None" using t st [of t] ft [of t] by (auto simp: framed_thread_def)
    then show "wakeup_callback (threads k' t) = None" using ft [of t] K(3) unfolding arb_inv_def framed_thread_def by metis
  qed (use K(3) in \<open>auto simp: arb_inv_def arbiter_inv_def\<close>)
  moreover have "n \<notin> set (wait_objects (threads k' t))" if "n \<ge> next_object k" for n t
    using that K(4) ft [of t] unfolding framed_thread_def fresh_inv_def by (metis empty_iff empty_set)
  then have "fresh_inv k'" using K(4) unfolding fresh_inv_def F dorm by simp
  moreover have "kind_inv k'" unfolding kind_inv_def F dorm
  proof (intro conjI allI ballI impI)
    fix w p x assume "obj (wait_object k' w) = O_ServerPort p" "x \<in> set (pending_sessions p)"
    then show "kind k x = HT_ServerSession" using K(5) os [of w] obj_stepD(1) unfolding kind_inv_def by metis
  next
    fix t w assume "w \<in> set (held_mutexes (threads k' t))"
    then show "kind k w = HT_Mutex" using K(5) ft [of t] unfolding kind_inv_def framed_thread_def by blast
  next
    fix w y assume "obj (wait_object k' w) = O_Semaphore y"
    then obtain x where x: "obj (wait_object k w) = O_Semaphore x" "max_count y = max_count x" "available_count y \<le> available_count x"
      "0 \<le> available_count x \<longrightarrow> 0 \<le> available_count y" using os [of w] obj_stepD(2) by metis
    then have "0 \<le> available_count x" "available_count x \<le> max_count x" "max_count x < 2 ^ 31" using K(5) by (auto simp: kind_inv_def)
    then show "0 \<le> available_count y" "available_count y \<le> max_count y" "max_count y < 2 ^ 31" using x by simp_all
  qed (use K(5) in \<open>auto simp: kind_inv_def\<close>)
  moreover have "owner_inv k'" using K(6) st unfolding owner_inv_def tls_page_def F by (metis insertCI insertE singletonD ThreadStatus.distinct)
  moreover have "can_schedule k'" using K(7) by (simp add: can_schedule_def F)
  moreover have "arb_listed k'"
  proof (rule arb_listed_change [OF K(8) F(1)], intro allI impI)
    show "wakeup_callback (threads k u) = Some c" if "wakeup_callback (threads k' u) = Some c" for u c
      using ft [of u] that by (auto simp: framed_thread_def)
    show "\<forall>u. status (threads k' u) = WaitArb \<longrightarrow> status (threads k u) = WaitArb" 
    proof (intro allI impI)
      show "status (threads k u) = WaitArb" if "status (threads k' u) = WaitArb" for u using st [of u] that by auto
    qed
  qed
  ultimately show ?thesis using k' by (simp add: kernel_base_def)
qed

lemma kernel_inv_wake:
  assumes "kernel_inv k" "framed k k'" "sched_inv k'" "wait_inv k'" "status_wake k k'"
  shows "kernel_inv k'"
  using kernel_base_wake [OF kernel_invD(9) [OF assms(1)] assms(2,3,5)] assms(4) by (simp add: kernel_inv_def)

text \<open>Steps that wake nobody.\<close>

lemma kernel_inv_quiet:
  assumes "kernel_inv k" "framed k k'" "sched_inv k'" "\<And>u. status (threads k' u) = status (threads k u)"
    "\<And>u. wait_objects (threads k' u) = wait_objects (threads k u)" "\<And>w. waiting_threads (wait_object k' w) = waiting_threads (wait_object k w)"
  shows "kernel_inv k'"
proof (rule kernel_inv_wake [OF assms(1-3)])
  have "wakeup_callback (threads k' u) = wakeup_callback (threads k u) \<or> wakeup_callback (threads k' u) = None" for u
    using assms(2) by (auto simp: framed_def framed_thread_def)
  then have "wakeup_callback (threads k' u) = Some c \<Longrightarrow> wakeup_callback (threads k u) = Some c" for u c
    by (metis option.distinct(1))
  then show "wait_inv k'" using kernel_invD(2) [OF assms(1)] unfolding wait_inv_def assms(4-6) by blast
qed (simp add: status_wake_def assms(4))

lemma kernel_inv_set_obj:
  "kernel_inv k \<Longrightarrow> obj_step (obj (wait_object k w)) s \<Longrightarrow> kernel_inv (set_obj w s k)"
  by (rule kernel_inv_quiet [OF _ framed_set_obj]) (auto simp: kernel_invD)

lemma kernel_inv_PrepareReschedule [simp]: "kernel_inv k \<Longrightarrow> kernel_inv (PrepareReschedule k)"
  by (rule kernel_inv_quiet [OF _ framed_PrepareReschedule]) (auto simp: kernel_invD)

lemma kernel_inv_prio_only:
  "kernel_inv k \<Longrightarrow> framed k k' \<Longrightarrow> sched_inv k' \<Longrightarrow> prio_only k k' \<Longrightarrow> kernel_inv k'"
  by (erule kernel_inv_quiet) (simp_all add: prio_onlyD)

lemma kernel_inv_context [simp]:
  "kernel_inv k \<Longrightarrow> kernel_inv (upd_thread t (\<lambda>x. x\<lparr>thread_context := f (thread_context x)\<rparr>) k)"
  by (rule kernel_inv_quiet [OF _ framed_context]) (auto simp: kernel_invD sched_inv_upd_thread)

lemma kernel_inv_WakeupAll:
  assumes "kernel_inv k"
  shows "\<exists>k'. WakeupAllWaitingThreads w k = Some k' \<and> kernel_inv k' \<and> framed k k' \<and> status_wake k k'"
proof -
  note K = kernel_invD [OF assms]
  obtain k' where k': "WakeupAllWaitingThreads w k = Some k'" "wait_inv k'" "sched_inv k'"
    "\<forall>u. status (threads k' u) = (if u \<in> waiters k w - waiters k' w then Ready else status (threads k u))"
    using WakeupAllWaitingThreads_outcome [OF K(2,1), of w] by (elim exE conjE) (rule that)
  have "status (threads k u) \<in> {WaitSynchAny, WaitSynchAll, WaitHleEvent}" if "u \<in> waiters k w" for u
    using wait_invD(2,3) [OF K(2), of u] that by (metis empty_iff empty_set)
  then have s: "status_wake k k'" using k'(4) by (simp add: status_wake_def)
  show ?thesis using kernel_inv_wake [OF assms framed_WakeupAll [OF k'(1)] k'(3,2) s] framed_WakeupAll [OF k'(1)] k'(1) s by blast
qed

lemma kernel_inv_Acquire:
  assumes "kernel_inv k" "Acquire w t k = Some k'"
  shows "kernel_inv k'"
  using Acquire_frame [OF assms(2)]
  by (intro kernel_inv_quiet [OF assms(1) framed_Acquire [OF assms(2)]]) (simp_all add: wait_frame_def kernel_invD [OF assms(1)])

lemma kernel_inv_acquire_all: "kernel_inv k \<Longrightarrow> acquire_all ws t k = Some k' \<Longrightarrow> kernel_inv k'"
  by (induction ws arbitrary: k) (auto simp: bind_eq_Some_conv intro: kernel_inv_Acquire)

section \<open>Events, mutexes, semaphores and timers\<close>

lemma kernel_inv_Event_Signal:
  assumes "kernel_inv k" "obj (wait_object k w) = O_Event e"
  shows "\<exists>k'. Event_Signal w e k = Some k' \<and> kernel_inv k' \<and> framed k k' \<and> status_wake k k'"
proof -
  let ?k = "set_obj w (O_Event (e\<lparr>ev_signaled := True\<rparr>)) k"
  have s: "obj_step (obj (wait_object k w)) (O_Event (e\<lparr>ev_signaled := True\<rparr>))" using assms(2) by (simp add: obj_step_def)
  obtain k' where k': "WakeupAllWaitingThreads w ?k = Some k'" "kernel_inv k'" "framed ?k k'" "status_wake ?k k'"
    using kernel_inv_WakeupAll [OF kernel_inv_set_obj [OF assms(1) s]] by blast
  then show ?thesis using framed_trans [OF framed_set_obj [OF s] k'(3)] by (auto simp: Event_Signal_def status_wake_def)
qed

lemma kernel_inv_Event_Clear:
  "kernel_inv k \<Longrightarrow> obj (wait_object k w) = O_Event e \<Longrightarrow> kernel_inv (Event_Clear w e k)"
  unfolding Event_Clear_def by (rule kernel_inv_set_obj) (simp_all add: obj_step_def)

lemma framed_unlocked:
  assumes "kind k w = HT_Mutex"
  shows "framed k (unlocked w mx t k)"
proof -
  have m: "obj_step s (O_Mutex c) \<longleftrightarrow> GetHandleType s = HT_Mutex" for s c by (cases s) (auto simp: obj_step_def)
  let ?k = "upd_thread t (\<lambda>x. x\<lparr>held_mutexes := remove1 w (held_mutexes x)\<rparr>) (set_obj w (O_Mutex (mx\<lparr>lock_count := 0\<rparr>)) k)"
  have "framed k ?k"
    using assms by (auto simp: framed_def framed_thread_def ident_def m kind_def dest: in_set_remove1 [THEN iffD1, rotated] notin_set_remove1)
  then have f: "framed k (Thread_UpdatePriority t ?k)" by (rule framed_trans) (rule framed_Thread_UpdatePriority)
  then have "kind (Thread_UpdatePriority t ?k) w = HT_Mutex" using framed_kind [OF f] assms by simp
  then have "obj_step (obj (wait_object (Thread_UpdatePriority t ?k) w)) (O_Mutex (mx\<lparr>lock_count := 0, holding_thread := None\<rparr>))"
    by (simp add: m kind_def)
  from framed_trans [OF f framed_set_obj [OF this]] show ?thesis by (simp add: unlocked_def)
qed

lemma kernel_inv_Mutex_Release:
  assumes inv: "kernel_inv k" and mx: "obj (wait_object k w) = O_Mutex mx"
  shows "\<exists>r k'. Mutex_Release w mx t k = Some (r, k') \<and> kernel_inv k' \<and> framed k k'"
proof -
  note K = kernel_invD [OF inv]
  have s: "obj_step (obj (wait_object k w)) (O_Mutex mx')" for mx' using mx by (simp add: obj_step_def)
  consider "holding_thread mx \<noteq> Some t \<or> lock_count mx \<le> 0" | "holding_thread mx = Some t" "lock_count mx > 1"
    | "holding_thread mx = Some t" "lock_count mx = 1" by linarith
  then show ?thesis
  proof cases
    case 1
    then show ?thesis using inv by (auto simp: Mutex_Release_def)
  next
    case 2
    then show ?thesis using kernel_inv_set_obj [OF inv s] framed_set_obj [OF s] by (auto simp: Mutex_Release_def Let_def)
  next
    case 3
    note U = unlocked_inv [OF K(2,1), of w mx t]
    have f: "framed k (unlocked w mx t k)" using mx by (intro framed_unlocked) (simp add: kind_def)
    have "kernel_inv (unlocked w mx t k)"
      by (rule kernel_inv_wake [OF inv f U(2,1)]) (simp add: status_wake_def U(4))
    then obtain k' where k': "WakeupAllWaitingThreads w (unlocked w mx t k) = Some k'" "kernel_inv k'" "framed (unlocked w mx t k) k'"
      using kernel_inv_WakeupAll by blast
    have "Mutex_Release w mx t k = Some (RESULT_SUCCESS, PrepareReschedule k')"
      using 3 k'(1) by (simp add: Mutex_Release_def unlocked_def Let_def)
    then show ?thesis using k'(2) framed_trans [OF framed_trans [OF f k'(3)] framed_PrepareReschedule] by auto
  qed
qed

text \<open>Replacing the state of an object by one of the same kind.\<close>

definition obj_ok :: "Kernel \<Rightarrow> object_state \<Rightarrow> bool" where
  "obj_ok k s \<longleftrightarrow> (case s of
       O_ServerPort p \<Rightarrow> \<forall>x \<in> set (pending_sessions p). kind k x = HT_ServerSession
     | O_Semaphore x \<Rightarrow> 0 \<le> available_count x \<and> available_count x \<le> max_count x \<and> max_count x < 2 ^ 31
     | _ \<Rightarrow> True)"

lemma kernel_inv_replace:
  assumes "kernel_inv k" "GetHandleType s = kind k w" "obj_ok k s"
  shows "kernel_inv (set_obj w s k)"
proof -
  note K = kernel_invD [OF assms(1)]
  have kd: "kind (set_obj w s k) = kind k" using assms(2) by (auto simp: kind_def fun_eq_iff)
  have "cpu_inv (set_obj w s k)" using K(3) by (simp add: cpu_inv_def)
  moreover have "arb_inv (set_obj w s k)" using K(4) by (simp add: arb_inv_def arbiter_inv_def)
  moreover have "fresh_inv (set_obj w s k)" using K(5) unfolding fresh_inv_def kd by (simp add: set_obj_def upd_object_def)
  moreover have "kind_inv (set_obj w s k)" using K(6) assms(3) unfolding kind_inv_def kd by (auto simp: obj_ok_def set_obj_def upd_object_def)
  moreover have "owner_inv (set_obj w s k)" using K(7) by (simp add: owner_inv_def set_obj_def upd_object_def)
  moreover have "arb_listed (set_obj w s k)" by (rule arb_listed_cong [OF K(10)]) (simp_all add: set_obj_def upd_object_def)
  ultimately show ?thesis using K by (simp add: kernel_inv_def kernel_base_def can_schedule_def)
qed

lemma kernel_inv_Semaphore_Release:
  assumes inv: "kernel_inv k" and x: "obj (wait_object k w) = O_Semaphore x" and n: "0 \<le> n" "n < 2 ^ 31"
  shows "\<exists>r k'. Semaphore_Release w x n k = Some (r, k') \<and> kernel_inv k' \<and> rest k' = rest k \<and> kind k' = kind k"
proof -
  have b: "0 \<le> available_count x" "available_count x \<le> max_count x" "max_count x < 2 ^ 31"
    using kernel_invD(6) [OF inv] x by (auto simp: kind_inv_def)
  show ?thesis
  proof (cases "max_count x - available_count x < n")
    case True
    then show ?thesis using inv b by (simp add: Semaphore_Release_def s32_range_def)
  next
    case False
    let ?x = "x\<lparr>available_count := available_count x + n\<rparr>"
    have "kernel_inv (set_obj w (O_Semaphore ?x) k)"
      using x b n False by (intro kernel_inv_replace [OF inv]) (auto simp: kind_def obj_ok_def)
    then obtain k' where k': "WakeupAllWaitingThreads w (set_obj w (O_Semaphore ?x) k) = Some k'" "kernel_inv k'" "framed (set_obj w (O_Semaphore ?x) k) k'"
      using kernel_inv_WakeupAll by blast
    have "kind (set_obj w (O_Semaphore ?x) k) = kind k" using x by (auto simp: kind_def fun_eq_iff)
    then show ?thesis using False b n k' framed_kind [OF k'(3)]
      by (auto simp: Semaphore_Release_def s32_range_def framed_def)
  qed
qed

lemma kernel_inv_timing:
  assumes "kernel_inv k" "current_timer tm = current_timer (k_timing k)" "length (timers tm) = length (timers (k_timing k))"
  shows "kernel_inv (k\<lparr>k_timing := tm\<rparr>)"
proof -
  have "arb_listed (k\<lparr>k_timing := tm\<rparr>)" using arb_listed_cong [OF kernel_invD(10) [OF assms(1)]] by simp
  with assms show ?thesis by (simp add: kernel_inv_def kernel_base_def wait_inv_def cpu_inv_def arb_inv_def arbiter_inv_def fresh_inv_def kind_inv_def
      kind_def owner_inv_def can_schedule_def)
qed

lemma schedule_ok:
  assumes "can_schedule k"
  shows "\<exists>tm. schedule cycles ty d k = Some (k\<lparr>k_timing := tm\<rparr>) \<and> current_timer tm = current_timer (k_timing k)
    \<and> length (timers tm) = length (timers (k_timing k))"
  using assms by (auto simp: schedule_def ScheduleEvent_def can_schedule_def Let_def upd_timer_def)

lemma kernel_inv_schedule:
  assumes "kernel_inv k"
  shows "\<exists>tm. schedule cycles ty d k = Some (k\<lparr>k_timing := tm\<rparr>) \<and> kernel_inv (k\<lparr>k_timing := tm\<rparr>)"
  using schedule_ok [OF kernel_invD(8) [OF assms], of cycles ty d] kernel_inv_timing [OF assms] by blast

lemma kernel_inv_WakeAfterDelay:
  assumes "kernel_inv k"
  shows "\<exists>tm. WakeAfterDelay t ns k = Some (k\<lparr>k_timing := tm\<rparr>) \<and> kernel_inv (k\<lparr>k_timing := tm\<rparr>)"
  using kernel_inv_schedule [OF assms] assms by (auto simp: WakeAfterDelay_def intro: exI [of _ "k_timing k"])

lemma kernel_inv_Timer_Cancel: "kernel_inv k \<Longrightarrow> kernel_inv (Timer_Cancel x k)"
  unfolding Timer_Cancel_def by (rule kernel_inv_timing) (simp_all add: UnscheduleEvent_def)

section \<open>What the operations keep for handles\<close>

definition extends :: "Kernel \<Rightarrow> Kernel \<Rightarrow> bool" where
  "extends k k' \<longleftrightarrow> next_object k \<le> next_object k' \<and> (\<forall>w < next_object k. kind k' w = kind k w)
     \<and> (\<forall>i < next_object k. client_sessions k' i = client_sessions k i \<and> server_port (client_ports k' i) = server_port (client_ports k i))
     \<and> current_cpu k' = current_cpu k \<and> cpu_process k' = cpu_process k
     \<and> (\<forall>c. current_thread (managers k' c) = current_thread (managers k c))"

lemma extends_refl [simp]: "extends k k"
  by (simp add: extends_def)

lemma extends_trans: "extends k k' \<Longrightarrow> extends k' k'' \<Longrightarrow> extends k k''"
  by (auto simp: extends_def)

lemma extends_rest: "rest k' = rest k \<Longrightarrow> kind k' = kind k \<Longrightarrow> extends k k'"
  using restD [of k' k] rest_managers [of k' k] by (simp add: extends_def)

lemma extends_framed: "framed k k' \<Longrightarrow> extends k k'"
  by (rule extends_rest) (simp_all add: framed_kind, simp add: framed_def)

lemma extends_fields [simp]: "extends k (k\<lparr>k_timing := tm\<rparr>)" "extends k (k\<lparr>k_memory := m\<rparr>)" "extends k (k\<lparr>arbiter_waiting := a\<rparr>)"
  "extends k (k\<lparr>timer_table := tt\<rparr>)" "extends k (k\<lparr>next_timer_callback_id := n\<rparr>)" "extends k (k\<lparr>tls_slots := sl\<rparr>)"
  by (simp_all add: extends_def kind_def)

lemma extends_upd_thread [simp]: "extends k (upd_thread t f k)"
  by (rule extends_rest) simp_all

text \<open>A step of the kernel that returns keeps the invariant and what handles rely on.\<close>

definition kept :: "Kernel \<Rightarrow> Kernel \<Rightarrow> bool" where
  "kept k k' \<longleftrightarrow> kernel_inv k' \<and> extends k k'"

lemma kept_trans: "kept k k' \<Longrightarrow> kept k' k'' \<Longrightarrow> kept k k''"
  by (auto simp: kept_def intro: extends_trans)

lemma kept_refl: "kernel_inv k \<Longrightarrow> kept k k"
  by (simp add: kept_def)

lemma keptD: "kept k k' \<Longrightarrow> kernel_inv k'" "kept k k' \<Longrightarrow> extends k k'"
  by (simp_all add: kept_def)

lemma kept_WakeupAll: "kernel_inv k \<Longrightarrow> \<exists>k'. WakeupAllWaitingThreads w k = Some k' \<and> kept k k'"
  using kernel_inv_WakeupAll [of k w] by (auto simp: kept_def intro: extends_framed)

lemma kept_framed: "kernel_inv k' \<Longrightarrow> framed k k' \<Longrightarrow> kept k k'"
  by (simp add: kept_def extends_framed)

lemma kept_replace: "kernel_inv k \<Longrightarrow> GetHandleType s = kind k w \<Longrightarrow> obj_ok k s \<Longrightarrow> kept k (set_obj w s k)"
  by (simp add: kept_def kernel_inv_replace extends_rest fun_upd_idem)

lemma kept_schedule: "kernel_inv k \<Longrightarrow> \<exists>k'. schedule cycles ty d k = Some k' \<and> kept k k'"
  using kernel_inv_schedule [of k cycles ty d] by (auto simp: kept_def)

lemma kept_WakeAfterDelay: "kernel_inv k \<Longrightarrow> \<exists>k'. WakeAfterDelay t ns k = Some k' \<and> kept k k'"
  using kernel_inv_WakeAfterDelay [of k t ns] by (auto simp: kept_def)

lemma kept_Timer_Signal:
  assumes "kernel_inv k" "kind k w = HT_Timer"
  shows "\<exists>k'. Timer_Signal w x late k = Some k' \<and> kept k k'"
proof -
  have 1: "kept k (set_obj w (O_Timer (x\<lparr>tm_signaled := True\<rparr>)) k)" using assms by (intro kept_replace) (simp_all add: obj_ok_def)
  then obtain k1 where k1: "WakeupAllWaitingThreads w (set_obj w (O_Timer (x\<lparr>tm_signaled := True\<rparr>)) k) = Some k1" "kept k k1"
    using kept_WakeupAll [OF keptD(1) [OF 1]] kept_trans by blast
  obtain k2 where "schedule (nsToCycles_u64 (interval_delay x) - late) timer_callback_event_type (callback_id x) k1 = Some k2" "kept k k2"
    using kept_schedule [OF keptD(1) [OF k1(2)]] kept_trans [OF k1(2)] by blast
  then show ?thesis using k1 by (cases "interval_delay x = 0") (auto simp: Timer_Signal_def)
qed

lemma kept_Timer_Set:
  assumes "kernel_inv k" "kind k w = HT_Timer"
  shows "\<exists>k'. Timer_Set w x initial interval k = Some k' \<and> kept k k'"
proof -
  let ?x = "x\<lparr>initial_delay := to_u64 initial, interval_delay := to_u64 interval\<rparr>"
  have c: "kept k (Timer_Cancel x k)" using kernel_inv_Timer_Cancel [OF assms(1)] by (simp add: kept_def Timer_Cancel_def)
  have kd: "kind (Timer_Cancel x k) w = HT_Timer" using assms(2) by (simp add: Timer_Cancel_def kind_def)
  have 1: "kept k (set_obj w (O_Timer ?x) (Timer_Cancel x k))"
    using kd by (intro kept_trans [OF c kept_replace [OF keptD(1) [OF c]]]) (simp_all add: obj_ok_def)
  let ?k = "set_obj w (O_Timer ?x) (Timer_Cancel x k)"
  have kd2: "kind ?k w = HT_Timer" by (simp add: kind_def)
  obtain k2 k3 where "Timer_Signal w ?x 0 ?k = Some k2" "kept k k2" "schedule (nsToCycles_s64 initial) timer_callback_event_type (callback_id x) ?k = Some k3" "kept k k3"
    using kept_Timer_Signal [OF keptD(1) [OF 1] kd2, of ?x 0] kept_schedule [OF keptD(1) [OF 1], of "nsToCycles_s64 initial" timer_callback_event_type "callback_id x"]
      kept_trans [OF 1] by blast
  then show ?thesis by (cases "initial = 0") (auto simp: Timer_Set_def Let_def)
qed

lemma kept_TimerCallback:
  assumes "kernel_inv k" "timer_table k n = Some w"
  shows "\<exists>k'. TimerCallback n late k = Some k' \<and> kept k k'"
proof -
  have w: "kind k w = HT_Timer" using kernel_invD(6) [OF assms(1)] assms(2) by (auto simp: kind_inv_def)
  then obtain x where x: "obj (wait_object k w) = O_Timer x" by (cases "obj (wait_object k w)") (simp_all add: kind_def)
  with kept_Timer_Signal [OF assms(1) w, of x late] assms(2) show ?thesis by (simp add: TimerCallback_def)
qed

section \<open>New objects\<close>

lemma kept_new_object:
  assumes "kernel_inv k" "obj_ok k s"
  shows "kept k (snd (new_object s k))" "fst (new_object s k) = next_object k" "kind (snd (new_object s k)) (next_object k) = GetHandleType s"
    "next_object (snd (new_object s k)) = next_object k + 1"
proof -
  note K = kernel_invD [OF assms(1)]
  let ?k = "snd (new_object s k)" and ?n = "next_object k"
  have F: "status (threads k n) = Dormant" "kind k n = HT_Thread" "arbiter_waiting k n = []" "n \<notin> set (wait_objects (threads k t))" if "n \<ge> ?n" for n t
    using K(5) that by (auto simp: fresh_inv_def)
  have w: "waiting_threads (wait_object k ?n) = []"
  proof (cases "waiting_threads (wait_object k ?n)")
    case (Cons t ts)
    then show ?thesis using wait_invD(2) [OF K(2), of t ?n] F(4) [of ?n t] by simp
  qed simp
  have ne: "x \<noteq> ?n" if "kind k x \<noteq> HT_Thread" for x using that F(2) [of ?n] by blast
  note N = new_object_inv [OF K(1,2) w, of s]
  have e: "threads ?k = threads k" "managers ?k = managers k" "arbiter_waiting ?k = arbiter_waiting k" "timer_table ?k = timer_table k"
    "tls_slots ?k = tls_slots k" "cpu_process ?k = cpu_process k" "k_timing ?k = k_timing k" "next_object ?k = ?n + 1"
    "current_cpu ?k = current_cpu k" "client_ports ?k = client_ports k" "client_sessions ?k = client_sessions k"
    by (simp_all add: new_object_def)
  have kd: "kind ?k = (kind k)(?n := GetHandleType s)" by (auto simp: new_object_def kind_def fun_eq_iff)
  have o: "obj (wait_object ?k x) = (if x = ?n then s else obj (wait_object k x))" for x by (simp add: new_object_def)
  have "cpu_inv ?k" "arb_inv ?k" using K(3,4) by (simp_all add: cpu_inv_def arb_inv_def arbiter_inv_def e)
  moreover have "fresh_inv ?k" using K(5) by (simp add: fresh_inv_def e kd)
  moreover have "kind_inv ?k" unfolding kind_inv_def e kd o
  proof (intro conjI allI ballI impI)
    fix t assume "status (threads k t) \<noteq> Dormant"
    then have "t \<noteq> ?n" "kind k t = HT_Thread" using K(6) F(1) [of ?n] by (auto simp: kind_inv_def)
    then show "((kind k)(?n := GetHandleType s)) t = HT_Thread" by simp
  next
    fix t x assume "x \<in> set (held_mutexes (threads k t))"
    then have "kind k x = HT_Mutex" using K(6) by (auto simp: kind_inv_def)
    then show "((kind k)(?n := GetHandleType s)) x = HT_Mutex" using ne [of x] by simp
  next
    fix x p y assume "(if x = ?n then s else obj (wait_object k x)) = O_ServerPort p" "y \<in> set (pending_sessions p)"
    then have "kind k y = HT_ServerSession" using K(6) assms(2) by (auto simp: kind_inv_def obj_ok_def split: if_splits)
    then show "((kind k)(?n := GetHandleType s)) y = HT_ServerSession" using ne [of y] by simp
  next
    fix n x assume "timer_table k n = Some x"
    then have "kind k x = HT_Timer" using K(6) by (auto simp: kind_inv_def)
    then show "((kind k)(?n := GetHandleType s)) x = HT_Timer" using ne [of x] by simp
  next
    fix x y assume y: "(if x = ?n then s else obj (wait_object k x)) = O_Semaphore y"
    have "0 \<le> available_count y \<and> available_count y \<le> max_count y \<and> max_count y < 2 ^ 31"
    proof (cases "x = ?n")
      case True
      then show ?thesis using y assms(2) by (simp add: obj_ok_def)
    next
      case False
      then show ?thesis using y K(6) unfolding kind_inv_def by simp
    qed
    then show "0 \<le> available_count y" "available_count y \<le> max_count y" "max_count y < 2 ^ 31" by simp_all
  qed
  moreover have "owner_inv ?k" "can_schedule ?k" using K(7,8) by (simp_all add: owner_inv_def can_schedule_def e)
  moreover have "arb_listed ?k" by (rule arb_listed_cong [OF K(10) e(1,3)])
  ultimately show "kept k ?k" using N(1,2) by (simp add: kept_def kernel_inv_def kernel_base_def extends_def e kd)
  show "kind ?k ?n = GetHandleType s" by (simp add: kd)
qed (simp_all add: new_object_def)

end
