(* ===== verification/Kernel_Ops.thy ===== *)
theory Kernel_Ops
  imports Kernel_Inv
begin

text \<open>
  The operations that put threads to sleep, wake them from arbiters and timeouts, start and stop them and
  switch between them keep the invariant of the kernel.
\<close>

section \<open>Going to sleep\<close>

lemma kernel_base_thread:
  assumes inv: "kernel_base k" and t: "status (threads k t) \<notin> {Ready, Dormant, WaitArb, Dead}" and y: "y = f (threads k t)"
    and same: "core_id y = core_id (threads k t)" "tls_address y = tls_address (threads k t)" "owner_process y = owner_process (threads k t)"
      "held_mutexes y = held_mutexes (threads k t)" "wakeup_callback y = wakeup_callback (threads k t)"
      "current_priority y = current_priority (threads k t)" "nominal_priority y = nominal_priority (threads k t)"
    and st: "status y \<notin> {Ready, Dormant, WaitArb}" "status y = Running \<longrightarrow> status (threads k t) = Running" and ws: "\<forall>w \<in> set (wait_objects y). w < next_object k"
  shows "kernel_base (upd_thread t f k)"
proof -
  note K = kernel_baseD [OF inv]
  let ?k = "upd_thread t f k"
  have th: "threads ?k = (threads k)(t := y)" by (simp add: y)
  have n: "t \<notin> set (arbiter_waiting k a)" for a using K(3) t by (force simp: arb_inv_def arbiter_inv_def)
  have e: "next_object ?k = next_object k" "timer_table ?k = timer_table k" "tls_slots ?k = tls_slots k" "cpu_process ?k = cpu_process k"
    by (simp_all add: upd_thread_def)
  have "sched_inv ?k" by (rule sched_inv_not_ready [OF K(1)]) (use t st same y in auto)
  moreover have "cpu_inv ?k" using K(2) t same(1) st(2) unfolding cpu_inv_def th by auto
  moreover have "arb_inv ?k" using K(3) n t same(5) st unfolding arb_inv_def arbiter_inv_def th by auto
  moreover have "fresh_inv ?k" using K(4) t ws st unfolding fresh_inv_def th e by (auto simp: leD)
  moreover have "kind_inv ?k" using K(5) t same(4) st unfolding kind_inv_def th e by auto
  moreover have "owner_inv ?k" using K(6) t same(2,3) unfolding owner_inv_def tls_page_def th e by auto
  moreover have "arb_listed ?k" by (rule arb_listed_change [OF K(8)]) (use same(5) st y in \<open>simp_all add: th\<close>)
  ultimately show ?thesis using K(7) by (simp add: kernel_base_def can_schedule_def)
qed

lemma kernel_inv_park:
  assumes inv: "kernel_inv k" and t: "status (threads k t) = Running"
    and same: "\<And>x. core_id (f x) = core_id x" "\<And>x. tls_address (f x) = tls_address x" "\<And>x. owner_process (f x) = owner_process x"
      "\<And>x. held_mutexes (f x) = held_mutexes x" "\<And>x. wakeup_callback (f x) = wakeup_callback x" "\<And>x. current_priority (f x) = current_priority x"
      "\<And>x. nominal_priority (f x) = nominal_priority x" "\<And>x. wait_objects (f x) = wait_objects x"
    and st: "status (f (threads k t)) \<notin> {Ready, Dormant, WaitArb}"
  shows "kernel_inv (upd_thread t f k)"
proof -
  note K = kernel_invD [OF inv] and r = running_not_waiting [OF kernel_invD(2) [OF inv] t]
  have "wait_inv (upd_thread t f k)" by (rule wait_inv_status [OF K(2) r same(8)])
  moreover have "kernel_base (upd_thread t f k)" by (rule kernel_base_thread [OF K(9) _ refl]) (use t same st r in auto)
  ultimately show ?thesis by (simp add: kernel_inv_def)
qed

lemma AddWaitingThread_frame:
  shows "waiting_threads (wait_object (AddWaitingThread w t k) x)
     = (if x = w \<and> t \<notin> set (waiting_threads (wait_object k x)) then waiting_threads (wait_object k x) @ [t] else waiting_threads (wait_object k x))"
    "status (threads (AddWaitingThread w t k) u) = status (threads k u)"
    "wait_objects (threads (AddWaitingThread w t k) u) = wait_objects (threads k u)"
    "wakeup_callback (threads (AddWaitingThread w t k) u) = wakeup_callback (threads k u)"
proof -
  define k1 where "k1 = WaitObject_AddWaitingThread w t k"
  define k2 where "k2 = (if is_mutex k w then upd_thread t (\<lambda>x. x\<lparr>pending_mutexes := flat_insert w (pending_mutexes x)\<rparr>) k1 else k1)"
  have "prio_only k2 (AddWaitingThread w t k)"
    by (simp add: AddWaitingThread_def Let_def k2_def k1_def prio_only_Mutex_UpdatePriority)
  note P = prio_onlyD [OF this]
  show "waiting_threads (wait_object (AddWaitingThread w t k) x)
     = (if x = w \<and> t \<notin> set (waiting_threads (wait_object k x)) then waiting_threads (wait_object k x) @ [t] else waiting_threads (wait_object k x))"
    "status (threads (AddWaitingThread w t k) u) = status (threads k u)"
    "wait_objects (threads (AddWaitingThread w t k) u) = wait_objects (threads k u)"
    "wakeup_callback (threads (AddWaitingThread w t k) u) = wakeup_callback (threads k u)"
    unfolding P by (auto simp: k2_def k1_def WaitObject_AddWaitingThread_def)
qed

definition add_all :: "oid list \<Rightarrow> oid \<Rightarrow> Kernel \<Rightarrow> Kernel" where
  "add_all ws t k = foldl (\<lambda>k w. AddWaitingThread w t k) k ws"

lemma add_all_frame:
  shows "framed k (add_all ws t k)" "sched_inv k \<Longrightarrow> sched_inv (add_all ws t k)"
    "status (threads (add_all ws t k) u) = status (threads k u)"
    "wait_objects (threads (add_all ws t k) u) = wait_objects (threads k u)"
    "wakeup_callback (threads (add_all ws t k) u) = wakeup_callback (threads k u)"
    "waiting_threads (wait_object (add_all ws t k) x)
      = (if x \<in> set ws \<and> t \<notin> set (waiting_threads (wait_object k x)) then waiting_threads (wait_object k x) @ [t] else waiting_threads (wait_object k x))"
proof (induction ws arbitrary: k)
  case (Cons w ws)
  {
    case 1
    show ?case using framed_trans [OF framed_AddWaitingThread [of k w t] Cons.IH(1)] by (simp add: add_all_def)
  next
    case 2
    then show ?case using Cons.IH(2) [OF sched_inv_AddWaitingThread [of k w t]] by (simp add: add_all_def)
  next
    case 6
    show ?case using Cons.IH(6) [of "AddWaitingThread w t k"] by (auto simp: add_all_def AddWaitingThread_frame)
  }
qed (simp_all add: add_all_def AddWaitingThread_frame)

lemma kernel_inv_sync_callback:
  assumes "kernel_inv k" "status (threads k t) \<in> {WaitSynchAny, WaitSynchAll}"
  shows "kept k (upd_thread t (\<lambda>x. x\<lparr>wakeup_callback := Some (SVC_SyncCallback b)\<rparr>) k)"
proof -
  note K = kernel_invD [OF assms(1)]
  let ?k = "upd_thread t (\<lambda>x. x\<lparr>wakeup_callback := Some (SVC_SyncCallback b)\<rparr>) k"
  have n: "t \<notin> set (arbiter_waiting k a)" for a using K(4) assms(2) by (force simp: arb_inv_def arbiter_inv_def)
  have "sched_inv ?k" using K(1) by (simp add: sched_inv_upd_thread)
  moreover have "wait_inv ?k" using K(2) by (simp add: wait_inv_def)
  moreover have "arb_inv ?k" using K(4) n assms(2) unfolding arb_inv_def arbiter_inv_def by auto
  moreover have "cpu_inv ?k" "owner_inv ?k" "can_schedule ?k" using K(3,7,8) by (simp_all add: cpu_inv_def owner_inv_def tls_page_def can_schedule_def upd_thread_def)
  moreover have "fresh_inv ?k" "kind_inv ?k" using K(5,6) by (simp_all add: fresh_inv_def kind_inv_def) (simp_all add: upd_thread_def kind_def)
  moreover have "arb_listed ?k" by (rule arb_listed_change [OF K(10)]) simp_all
  ultimately show ?thesis by (simp add: kept_def kernel_inv_def kernel_base_def)
qed

text \<open>A thread on the waiting lists of some objects.\<close>

lemma wait_inv_waiting:
  assumes inv: "wait_inv k" and r: "wait_objects (threads k t) = []"
    and th: "\<And>u. u \<noteq> t \<Longrightarrow> status (threads k' u) = status (threads k u)" "\<And>u. u \<noteq> t \<Longrightarrow> wait_objects (threads k' u) = wait_objects (threads k u)"
      "\<And>u. u \<noteq> t \<Longrightarrow> wakeup_callback (threads k' u) = wakeup_callback (threads k u)"
    and t: "status (threads k' t) = st" "wait_objects (threads k' t) = ws" "wakeup_callback (threads k' t) = None"
    and w: "\<And>x. waiting_threads (wait_object k' x) = (if x \<in> set ws then waiting_threads (wait_object k x) @ [t] else waiting_threads (wait_object k x))"
    and st: "st = WaitSynchAny \<or> st = WaitSynchAll \<and> distinct ws"
  shows "wait_inv k'"
proof -
  note W = wait_invD [OF inv]
  show ?thesis unfolding wait_inv_def
  proof (intro conjI allI impI)
    fix x
    show "distinct (waiting_threads (wait_object k' x))" using W(1,2) r by (simp add: w)
    show "u \<in> set (waiting_threads (wait_object k' x)) \<longleftrightarrow> x \<in> set (wait_objects (threads k' u))" for u
      using W(2) [of u x] r th(2) t(2) by (cases "u = t") (auto simp: w)
  next
    fix u a assume u: "wait_objects (threads k' u) \<noteq> []"
    show "status (threads k' u) \<in> {WaitSynchAny, WaitSynchAll, WaitHleEvent}"
      using u W(3) [of u] st th t by (cases "u = t") auto
    show "wakeup_callback (threads k' u) \<noteq> Some (ArbiterCallback a)"
      using u W(4) [of u a] th t by (cases "u = t") auto
  next
    fix u assume "status (threads k' u) = WaitSynchAll"
    then show "distinct (wait_objects (threads k' u))" using W(5) [of u] st th t by (cases "u = t") auto
  qed
qed

lemma running_callback: "kernel_inv k \<Longrightarrow> status (threads k t) = Running \<Longrightarrow> wakeup_callback (threads k t) = None"
  by (simp add: kernel_inv_def kernel_base_def arb_inv_def)

lemma kept_asleep:
  assumes "kept k k1" "kernel_inv k1" "status (threads k1 t) \<in> {WaitSynchAny, WaitSynchAll}"
  shows "\<exists>k2. WakeAfterDelay t ns k1 = Some k2
    \<and> kept k (PrepareReschedule (upd_thread t (\<lambda>x. x\<lparr>wakeup_callback := Some (SVC_SyncCallback b)\<rparr>) k2))"
proof -
  obtain tm where k2: "WakeAfterDelay t ns k1 = Some (k1\<lparr>k_timing := tm\<rparr>)" "kernel_inv (k1\<lparr>k_timing := tm\<rparr>)"
    using kernel_inv_WakeAfterDelay [OF assms(2)] by blast
  let ?k2 = "k1\<lparr>k_timing := tm\<rparr>" and ?k3 = "upd_thread t (\<lambda>x. x\<lparr>wakeup_callback := Some (SVC_SyncCallback b)\<rparr>) (k1\<lparr>k_timing := tm\<rparr>)"
  have "kept ?k2 ?k3" using assms(3) by (intro kernel_inv_sync_callback [OF k2(2)]) simp
  moreover have "kept k ?k2" using assms(1) k2(2) extends_trans [OF keptD(2) [OF assms(1)] extends_fields(1)] by (simp add: kept_def)
  moreover have "kept ?k3 (PrepareReschedule ?k3)"
    using keptD(1) [OF calculation(1)] by (intro kept_framed framed_PrepareReschedule) simp
  ultimately show ?thesis using k2(1) kept_trans by blast
qed

lemma kept_sleep_on:
  assumes inv: "kernel_inv k" and t: "status (threads k t) = Running"
    and st: "st = WaitSynchAny \<or> st = WaitSynchAll \<and> distinct ws" and ws: "\<forall>w \<in> set ws. w < next_object k"
  shows "\<exists>k'. sleep_on st b ws t ns k = Some k' \<and> kept k k'"
proof -
  note K = kernel_invD [OF inv] and r = running_not_waiting [OF kernel_invD(2) [OF inv] t] and cb = running_callback [OF inv t]
    and N = running_not_waiter [OF kernel_invD(2) [OF inv] t]
  let ?s = "upd_thread t (\<lambda>x. x\<lparr>status := st\<rparr>) k"
  note A = add_all_frame [where k = ?s and ws = ws and t = t]
  let ?k = "upd_thread t (\<lambda>x. x\<lparr>wait_objects := ws\<rparr>) (add_all ws t ?s)"
  have s: "kernel_base ?s" by (rule kernel_base_thread [OF K(9) _ refl]) (use t st r in auto)
  have "kernel_base (add_all ws t ?s)"
    by (rule kernel_base_wake [OF s A(1) A(2)]) (simp_all add: kernel_baseD [OF s] status_wake_def A(3))
  moreover have "next_object (add_all ws t ?s) = next_object k" using framedD(2) [OF A(1)] by (simp add: upd_thread_def)
  ultimately have b: "kernel_base ?k" by (intro kernel_base_thread [OF _ _ refl]) (use st ws A(3) [of t] in auto)
  have "wait_inv ?k"
    by (rule wait_inv_waiting [OF K(2) r _ _ _ _ _ _ _ st]) (use A cb N in auto)
  then have k1: "kernel_inv ?k" using b by (simp add: kernel_inv_def)
  have "extends k ?k" using extends_trans [OF extends_trans [OF extends_upd_thread extends_framed [OF A(1)]] extends_upd_thread] .
  then have kp: "kept k ?k" using k1 by (simp add: kept_def)
  have "status (threads ?k t) \<in> {WaitSynchAny, WaitSynchAll}" using A(3) [of t] st by auto
  from kept_asleep [OF kp k1 this, of ns b] show ?thesis by (auto simp: sleep_on_def add_all_def Let_def)
qed

text \<open>The order of \<open>WaitSynchronization1\<close>: the awaited object, the waiting list, the status.\<close>

definition waiting_for :: "oid \<Rightarrow> oid \<Rightarrow> Kernel \<Rightarrow> Kernel" where
  "waiting_for w t k = upd_thread t (\<lambda>x. x\<lparr>status := WaitSynchAny\<rparr>) (AddWaitingThread w t (upd_thread t (\<lambda>x. x\<lparr>wait_objects := [w]\<rparr>) k))"

lemma kept_waiting_for:
  assumes inv: "kernel_inv k" and t: "status (threads k t) = Running" and w: "w < next_object k"
  shows "kept k (waiting_for w t k)" "status (threads (waiting_for w t k) t) = WaitSynchAny"
proof -
  note K = kernel_invD [OF inv] and r = running_not_waiting [OF kernel_invD(2) [OF inv] t] and cb = running_callback [OF inv t]
    and N = running_not_waiter [OF kernel_invD(2) [OF inv] t]
  let ?s = "upd_thread t (\<lambda>x. x\<lparr>wait_objects := [w]\<rparr>) k"
  note A = AddWaitingThread_frame [where w = w and t = t and k = ?s] and F = framed_AddWaitingThread [of ?s w t]
  have s: "kernel_base ?s" by (rule kernel_base_thread [OF K(9) _ refl]) (use t w in auto)
  have "kernel_base (AddWaitingThread w t ?s)"
    by (rule kernel_base_wake [OF s F sched_inv_AddWaitingThread]) (simp_all add: kernel_baseD [OF s] status_wake_def A(2))
  moreover have "next_object (AddWaitingThread w t ?s) = next_object k" using framedD(2) [OF F] by (simp add: upd_thread_def)
  ultimately have b: "kernel_base (waiting_for w t k)" unfolding waiting_for_def
    by (intro kernel_base_thread [OF _ _ refl]) (use t w A(2,3) [of t] in auto)
  have "wait_inv (waiting_for w t k)"
    by (rule wait_inv_waiting [OF K(2) r, where ws = "[w]" and st = WaitSynchAny]) (use A cb N in \<open>auto simp: waiting_for_def\<close>)
  moreover have "extends k (waiting_for w t k)" unfolding waiting_for_def
    using extends_trans [OF extends_trans [OF extends_upd_thread extends_framed [OF F]] extends_upd_thread] .
  ultimately show "kept k (waiting_for w t k)" using b by (simp add: kept_def kernel_inv_def)
  show "status (threads (waiting_for w t k) t) = WaitSynchAny" by (simp add: waiting_for_def)
qed

section \<open>Arbiters\<close>

lemma kept_arbiter_wake:
  assumes inv: "kernel_inv k" and s: "sched_inv k'"
    and th: "\<And>u. threads k' u = (if u \<in> ws then (threads k u)\<lparr>wakeup_callback := None, status := Ready\<rparr> else threads k u)"
    and wo: "wait_object k' = wait_object k" and rs: "rest (k'\<lparr>arbiter_waiting := arbiter_waiting k\<rparr>) = rest k"
    and aw: "arbiter_waiting k' = (arbiter_waiting k)(a := ts)" "distinct ts" "set ts = set (arbiter_waiting k a) - ws"
      "ws \<subseteq> set (arbiter_waiting k a)"
  shows "kept k k'"
proof -
  note K = kernel_invD [OF inv]
  have R: "next_object k' = next_object k" "k_timing k' = k_timing k" "timer_table k' = timer_table k" "tls_slots k' = tls_slots k"
    "cpu_process k' = cpu_process k" "current_cpu k' = current_cpu k" "client_ports k' = client_ports k" "client_sessions k' = client_sessions k"
    using restD [OF rs] by simp_all
  have C: "current_thread (managers k' c) = current_thread (managers k c)" for c using rest_managers(1) [OF rs, of c] by simp
  have kd: "kind k' = kind k" by (simp add: kind_def wo fun_eq_iff)
  have A: "status (threads k u) = WaitArb" "wait_objects (threads k u) = []" if "u \<in> ws" for u
    using K(4) aw(4) that by (auto simp: arb_inv_def arbiter_inv_def)
  have f: "core_id (threads k' u) = core_id (threads k u)" "wait_objects (threads k' u) = wait_objects (threads k u)"
    "held_mutexes (threads k' u) = held_mutexes (threads k u)" "tls_address (threads k' u) = tls_address (threads k u)"
    "owner_process (threads k' u) = owner_process (threads k u)" for u by (simp_all add: th)
  have d: "status (threads k' u) = Dormant \<longleftrightarrow> status (threads k u) = Dormant" "status (threads k' u) = Running \<longleftrightarrow> status (threads k u) = Running"
    "status (threads k' u) = Dead \<longleftrightarrow> status (threads k u) = Dead" for u using A [of u] by (simp_all add: th)
  have "wait_inv k'" using K(2) A unfolding wait_inv_def wo f by (auto simp: th)
  moreover have "cpu_inv k'" using K(3) by (simp add: cpu_inv_def C f d)
  moreover have "arb_inv k'" using K(4) aw unfolding arb_inv_def arbiter_inv_def by (auto simp: th split: if_splits)
  moreover have "fresh_inv k'" using K(5) aw unfolding fresh_inv_def R kd f d C by auto
  moreover have "kind_inv k'" using K(6) by (simp add: kind_inv_def kd f d R wo)
  moreover have "owner_inv k'" using K(7) by (simp add: owner_inv_def tls_page_def f d R C)
  moreover have "arb_listed k'"
  proof (rule arb_listedI)
    fix u b assume "wakeup_callback (threads k' u) = Some (ArbiterCallback b)"
    then have "u \<notin> ws" "u \<in> set (arbiter_waiting k b)" using arb_listedD(1) [OF K(10), of u b] by (auto simp: th split: if_splits)
    then show "u \<in> set (arbiter_waiting k' b)" using aw(3) unfolding aw(1) by auto
  next
    fix u assume "status (threads k' u) = WaitArb"
    then have u: "u \<notin> ws" "status (threads k u) = WaitArb" by (auto simp: th split: if_splits)
    then obtain b where "u \<in> set (arbiter_waiting k b)" using arb_listedD(2) [OF K(10)] by blast
    then have "u \<in> set (arbiter_waiting k' b)" using u(1) aw(3) unfolding aw(1) by auto
    then show "\<exists>b. u \<in> set (arbiter_waiting k' b)" by blast
  qed
  ultimately show ?thesis using s K(8) by (simp add: kept_def kernel_inv_def kernel_base_def extends_def can_schedule_def R C kd)
qed

lemma arb_invD: "arb_inv k \<Longrightarrow> arbiter_inv a k"
  by (simp add: arb_inv_def)

lemma rest_arbiter: "rest ((set_waiting a ts k)\<lparr>arbiter_waiting := arbiter_waiting k\<rparr>) = rest k"
  by (simp add: rest_def set_waiting_def)

lemma set_split_waiting:
  assumes "arbiter_inv a k" "t \<in> set (waiting_at a address k)"
  shows "distinct (waiting_elsewhere a address k @ remove1 t (waiting_at a address k))"
    "set (waiting_elsewhere a address k @ remove1 t (waiting_at a address k)) = set (arbiter_waiting k a) - {t}"
  using assms by (auto simp: waiting_elsewhere_def waiting_at_def arbiter_inv_def set_remove1_eq distinct_remove1)

lemma kept_ResumeHighest:
  assumes "kernel_inv k"
  shows "\<exists>r k'. ResumeHighestPriorityThread a address k = Some (r, k') \<and> kept k k'"
proof (cases "min_element k (waiting_at a address k)")
  case None
  then show ?thesis using ResumeHighest_none [OF arb_invD [OF kernel_invD(4) [OF assms]]] kept_refl [OF assms] by simp
next
  case (Some t)
  note K = kernel_invD [OF assms] and A = arb_invD [OF kernel_invD(4) [OF assms]]
  have t: "t \<in> set (waiting_at a address k)" using min_element_Some [OF Some] by simp
  then have ta: "t \<in> set (arbiter_waiting k a)" by (auto simp: waiting_at_def)
  then have st: "status (threads k t) = WaitArb" using A by (auto simp: arbiter_inv_def)
  let ?k = "set_waiting a (waiting_elsewhere a address k @ remove1 t (waiting_at a address k)) (made_ready t k)"
  have "kept k ?k"
  proof (rule kept_arbiter_wake [OF assms, where ws = "{t}" and a = a])
    show "sched_inv ?k" using K(1) st by (simp add: sched_inv_made_ready sleeping_def)
    have "rest (made_ready t k) = rest k" using framed_made_ready [of k t] by (simp add: framed_def)
    then show "rest (?k\<lparr>arbiter_waiting := arbiter_waiting k\<rparr>) = rest k"
      using rest_arbiter [where a = a and k = "made_ready t k", unfolded made_ready_simps(3)] by simp
  qed (use set_split_waiting [OF A t] ta in \<open>auto simp: set_waiting_def made_ready_simps\<close>)
  then show ?thesis using ResumeHighest_run [OF A Some] by blast
qed

lemma kept_resume_n: "kernel_inv k \<Longrightarrow> \<exists>k'. resume_n n a address k = Some k' \<and> kept k k'"
proof (induction n arbitrary: k)
  case (Suc n)
  obtain r k1 where k1: "ResumeHighestPriorityThread a address k = Some (r, k1)" "kept k k1" using kept_ResumeHighest [OF Suc.prems] by blast
  obtain k' where "resume_n n a address k1 = Some k'" "kept k1 k'" using Suc.IH [OF keptD(1) [OF k1(2)]] by blast
  then show ?case using k1 kept_trans by auto
qed (simp add: kept_refl)

lemma framed_resume_each: "resume_each ts k = Some k' \<Longrightarrow> framed k k'"
  by (induction ts arbitrary: k) (auto simp: bind_eq_Some_conv intro: framed_trans framed_ResumeFromWait)

lemma kept_ResumeAll:
  assumes "kernel_inv k"
  shows "\<exists>k'. ResumeAllThreads a address k = Some k' \<and> kept k k'"
proof -
  note K = kernel_invD [OF assms] and A = arb_invD [OF kernel_invD(4) [OF assms], where a = a]
  let ?at = "waiting_at a address k" and ?els = "waiting_elsewhere a address k"
  have "\<forall>t \<in> set ?at. status (threads k t) = WaitArb \<and> wait_objects (threads k t) = []"
    using A by (auto simp: arbiter_inv_def waiting_at_def)
  from resume_each_ready [OF K(1) distinct_waiting_at [OF A] this] obtain k1
    where r: "resume_each ?at k = Some k1" "sched_inv k1" "arbiter_waiting k1 = arbiter_waiting k" "wait_object k1 = wait_object k"
      and th: "\<And>u. threads k1 u = (if u \<in> set ?at then (threads k u)\<lparr>wakeup_callback := None, status := Ready\<rparr> else threads k u)"
    by blast
  have "kept k (set_waiting a ?els k1)"
  proof (rule kept_arbiter_wake [OF assms, where ws = "set ?at" and a = a])
    have "rest k1 = rest k" using framed_resume_each [OF r(1)] by (simp add: framed_def)
    then show "rest ((set_waiting a ?els k1)\<lparr>arbiter_waiting := arbiter_waiting k\<rparr>) = rest k"
      using rest_arbiter [where a = a and k = k1, unfolded r(3)] by simp
    show "sched_inv (set_waiting a ?els k1)" using r(2) by (subst sched_inv_cong [where k = k1]) (simp_all add: set_waiting_def)
    show "set ?els = set (arbiter_waiting k a) - set ?at" by (auto simp: waiting_elsewhere_def waiting_at_def)
  qed (use r th A in \<open>auto simp: set_waiting_def waiting_elsewhere_def waiting_at_def arbiter_inv_def\<close>)
  then show ?thesis using r(1) by (auto simp: ResumeAllThreads_def partition_waiting_eq [OF A])
qed

text \<open>The callback is set while the thread still runs; the invariant holds again once it sleeps.\<close>

lemma kept_arbiter_sleep:
  assumes inv: "kernel_inv k" and t: "status (threads k t) = Running" and a: "a < next_object k" and cb: "cb \<in> {None, Some (ArbiterCallback a)}"
  shows "kept k (WaitThread a t address (upd_thread t (\<lambda>x. x\<lparr>wakeup_callback := cb\<rparr>) k))"
proof -
  note K = kernel_invD [OF inv] and r = running_not_waiting [OF kernel_invD(2) [OF inv] t]
  let ?f = "\<lambda>x. x\<lparr>wakeup_callback := cb, wait_address := address, status := WaitArb\<rparr>"
  let ?k = "set_waiting a (arbiter_waiting k a @ [t]) (upd_thread t ?f k)"
  have e: "WaitThread a t address (upd_thread t (\<lambda>x. x\<lparr>wakeup_callback := cb\<rparr>) k) = ?k"
    by (simp add: WaitThread_def upd_thread_def Let_def)
  have n: "t \<notin> set (arbiter_waiting k b)" for b using K(4) t by (force simp: arb_inv_def arbiter_inv_def)
  have th: "threads ?k = (threads k)(t := ?f (threads k t))" "wait_object ?k = wait_object k" "managers ?k = managers k"
    "arbiter_waiting ?k = (arbiter_waiting k)(a := arbiter_waiting k a @ [t])" by (simp_all add: set_waiting_def)
  have g: "next_object ?k = next_object k" "timer_table ?k = timer_table k" "tls_slots ?k = tls_slots k" "cpu_process ?k = cpu_process k"
    "k_timing ?k = k_timing k" "current_cpu ?k = current_cpu k" "client_ports ?k = client_ports k" "client_sessions ?k = client_sessions k"
    by (simp_all add: set_waiting_def upd_thread_def)
  have kd: "kind ?k = kind k" by (simp add: kind_def th(2) fun_eq_iff)
  have "sched_inv ?k" using K(1) t by (simp add: sched_inv_not_ready)
  moreover have "wait_inv ?k" using K(2) r unfolding wait_inv_def th by auto
  moreover have "cpu_inv ?k" using K(3) unfolding cpu_inv_def th by auto
  moreover have "arb_inv ?k" using K(4) n r cb unfolding arb_inv_def arbiter_inv_def th by auto
  moreover have "fresh_inv ?k" using K(5) a t unfolding fresh_inv_def th g kd by auto
  moreover have "kind_inv ?k" using K(6) t unfolding kind_inv_def th g kd by auto
  moreover have "owner_inv ?k" using K(7) t unfolding owner_inv_def tls_page_def th g by auto
  moreover have "arb_listed ?k"
  proof (rule arb_listedI)
    fix u b assume "wakeup_callback (threads ?k u) = Some (ArbiterCallback b)"
    then show "u \<in> set (arbiter_waiting ?k b)" unfolding th using arb_listedD(1) [OF K(10), of u b] cb by (cases "u = t") auto
  next
    fix u assume "status (threads ?k u) = WaitArb"
    then obtain b where "u = t \<and> b = a \<or> u \<in> set (arbiter_waiting k b)" unfolding th using arb_listedD(2) [OF K(10), of u] by (cases "u = t") auto
    then have "u \<in> set (arbiter_waiting ?k b)" unfolding th by auto
    then show "\<exists>b. u \<in> set (arbiter_waiting ?k b)" by blast
  qed
  ultimately show ?thesis unfolding e using K(8) by (simp add: kept_def kernel_inv_def kernel_base_def can_schedule_def extends_def g kd th(3))
qed

lemma kept_store:
  assumes "kernel_inv k"
  shows "kept k (store address bs k)"
proof -
  note K = kernel_invD [OF assms]
  obtain m where m: "store address bs k = k\<lparr>k_memory := m\<rparr>" by (rule store_memory)
  let ?k = "k\<lparr>k_memory := m\<rparr>"
  have "sched_inv ?k" using K(1) by (subst sched_inv_cong [where k = k]) simp_all
  moreover have "wait_inv ?k" "cpu_inv ?k" "arb_inv ?k" using K(2,3,4) by (simp_all add: wait_inv_def cpu_inv_def arb_inv_def arbiter_inv_def)
  moreover have "fresh_inv ?k" "kind_inv ?k" "owner_inv ?k" "can_schedule ?k"
    using K(5-8) by (simp_all add: fresh_inv_def kind_inv_def kind_def owner_inv_def can_schedule_def)
  moreover have "arb_listed ?k" by (rule arb_listed_cong [OF K(10)]) simp_all
  ultimately show ?thesis unfolding m by (simp add: kept_def kernel_inv_def kernel_base_def)
qed

lemma WakeAfterDelay_ok:
  assumes "can_schedule k"
  shows "\<exists>tm. WakeAfterDelay t ns k = Some (k\<lparr>k_timing := tm\<rparr>) \<and> current_timer tm = current_timer (k_timing k)
    \<and> length (timers tm) = length (timers (k_timing k))"
proof (cases "ns = - 1")
  case True
  then show ?thesis by (simp add: WakeAfterDelay_def) (intro exI [of _ "k_timing k"], simp)
next
  case False
  then show ?thesis using schedule_ok [OF assms] by (simp add: WakeAfterDelay_def)
qed

lemma kept_ArbitrateAddress:
  assumes inv: "kernel_inv k" and t: "status (threads k t) = Running" and a: "a < next_object k"
    and dec: "decrementing ty \<longrightarrow> - (2 ^ 31) < Read32 address k"
  shows "\<exists>r k'. ArbitrateAddress a t ty address v ns k = Some (r, k') \<and> kept k k'"
proof -
  have W: "\<exists>k'. map_option (WaitThread a t address) (Some k1) = Some k' \<and> kept k1 k'"
    if "kernel_inv k1" "threads k1 = threads k" "next_object k1 = next_object k" for k1
  proof -
    have c: "upd_thread t (\<lambda>x. x\<lparr>wakeup_callback := None\<rparr>) k1 = k1"
      using running_callback [OF that(1), of t] t that(2) by (simp add: upd_thread_def fun_upd_idem)
    show ?thesis using kept_arbiter_sleep [OF that(1), of t a None address, unfolded c] t a that(2,3) by simp
  qed
  have T: "\<exists>k'. wait_timeout a t address ns k1 = Some k' \<and> kept k1 k'"
    if k1: "kernel_inv k1" "threads k1 = threads k" "next_object k1 = next_object k" for k1
  proof -
    let ?c = "upd_thread t (\<lambda>x. x\<lparr>wakeup_callback := Some (ArbiterCallback a)\<rparr>)"
    have "can_schedule (?c k1)" using kernel_invD(8) [OF k1(1)] by (simp add: can_schedule_def)
    then obtain tm where tm: "WakeAfterDelay t (to_s64 ns) (?c k1) = Some ((?c k1)\<lparr>k_timing := tm\<rparr>)"
      "current_timer tm = current_timer (k_timing k1)" "length (timers tm) = length (timers (k_timing k1))"
      using WakeAfterDelay_ok [of "?c k1"] by auto
    have c: "(?c k1)\<lparr>k_timing := tm\<rparr> = ?c (k1\<lparr>k_timing := tm\<rparr>)" by (simp add: upd_thread_def)
    have i: "kernel_inv (k1\<lparr>k_timing := tm\<rparr>)" by (rule kernel_inv_timing [OF k1(1) tm(2,3)])
    have "kept (k1\<lparr>k_timing := tm\<rparr>) (WaitThread a t address (?c (k1\<lparr>k_timing := tm\<rparr>)))"
      using kept_arbiter_sleep [OF i, of t a "Some (ArbiterCallback a)" address] t a k1(2,3) by simp
    moreover have "kept k1 (k1\<lparr>k_timing := tm\<rparr>)" using i by (simp add: kept_def)
    ultimately show ?thesis using tm(1) kept_trans by (auto simp: wait_timeout_def c)
  qed
  have D: "\<exists>k1. decrement address k = Some k1 \<and> kept k k1 \<and> threads k1 = threads k \<and> next_object k1 = next_object k" if "decrementing ty"
  proof -
    have "decrement address k = Some (Write32 address (Read32 address k - 1) k)"
      using decrement_lowers [of address k] dec that by (auto simp: decrement_def)
    moreover have "kept k (Write32 address (Read32 address k - 1) k)" unfolding Write32_def by (rule kept_store [OF inv])
    moreover obtain m where "Write32 address (Read32 address k - 1) k = k\<lparr>k_memory := m\<rparr>" unfolding Write32_def by (rule store_memory)
    ultimately show ?thesis by simp
  qed
  obtain k1 where k1: "map_option (WaitThread a t address) (Some k) = Some k1" "kept k k1" using W [OF inv refl refl] by blast
  obtain k2 where k2: "wait_timeout a t address ns k = Some k2" "kept k k2" using T [OF inv refl refl] by blast
  have DW: "\<exists>k3. map_option (WaitThread a t address) (decrement address k) = Some k3 \<and> kept k k3" if "decrementing ty"
    using D [OF that] W keptD(1) kept_trans by metis
  have DT: "\<exists>k3. decrement address k \<bind> wait_timeout a t address ns = Some k3 \<and> kept k k3" if "decrementing ty"
    using D [OF that] T keptD(1) kept_trans by (metis bind.bind_lunit)
  show ?thesis
  proof (cases ty)
    case AT_Signal
    then show ?thesis using kept_ResumeAll [OF inv, of a address] kept_resume_n [OF inv, of "nat v" a address]
      by (cases "v < 0") (auto simp: ArbitrateAddress_def)
  next
    case AT_DecrementAndWaitIfLessThan
    then show ?thesis using DW kept_refl [OF inv] by (cases "Read32 address k < v") (auto simp: ArbitrateAddress_def decrementing_def)
  next
    case AT_DecrementAndWaitIfLessThanWithTimeout
    then show ?thesis using DT kept_refl [OF inv]
      by (cases "Read32 address k < v") (auto simp: ArbitrateAddress_def decrementing_def bind_eq_Some_conv)
  qed (use k1 k2 kept_refl [OF inv] in \<open>auto simp: ArbitrateAddress_def\<close>)
qed

section \<open>Timeouts\<close>

lemma left_and_ready:
  assumes inv: "wait_inv k" "sched_inv k" and sl: "sleeping (status (threads k t))"
  shows "ResumeFromWait t (leave_wait_objects t k) = Some (made_ready t (leave_wait_objects t k))"
    "wait_inv (made_ready t (leave_wait_objects t k))" "sched_inv (made_ready t (leave_wait_objects t k))"
    "framed k (made_ready t (leave_wait_objects t k))"
    "status (threads (made_ready t (leave_wait_objects t k)) u) = (if u = t then Ready else status (threads k u))"
proof -
  note W = wait_invD [OF inv(1)]
  let ?l = "leave_wait_objects t k" and ?k = "made_ready t (leave_wait_objects t k)"
  have s: "sleeping (status (threads ?l t))" using sl by (simp add: leave_wait_objects_frame)
  show "ResumeFromWait t ?l = Some ?k" by (rule ResumeFromWait_sleeping [OF s]) (simp add: leave_wait_objects_frame)
  show "sched_inv ?k" by (rule sched_inv_made_ready [OF leave_wait_objects_frame(8) [OF inv(2)] s])
  show "framed k ?k" by (rule framed_trans [OF framed_leave_wait_objects framed_made_ready])
  have wt: "waiting_threads (wait_object ?k x) = remove1 t (waiting_threads (wait_object k x))" for x
    using W(1) [of x] W(2) [of t x] by (simp add: made_ready_simps leave_wait_objects_frame remove1_idem)
  have th: "status (threads ?k u) = (if u = t then Ready else status (threads k u))"
    "wait_objects (threads ?k u) = (if u = t then [] else wait_objects (threads k u))"
    "wakeup_callback (threads ?k u) = (if u = t then None else wakeup_callback (threads k u))" for u
    by (simp_all add: made_ready_simps leave_wait_objects_frame)
  show "wait_inv ?k" unfolding wait_inv_def wt th using W by (auto simp: distinct_remove1 in_set_remove1)
  show "status (threads ?k u) = (if u = t then Ready else status (threads k u))" by (rule th)
qed

lemma kept_left_and_ready:
  assumes "kernel_inv k" "status (threads k t) \<in> {WaitSleep, WaitIPC, WaitSynchAny, WaitSynchAll, WaitHleEvent}"
  shows "\<exists>k'. ResumeFromWait t (leave_wait_objects t k) = Some k' \<and> kept k k' \<and> status (threads k' t) = Ready"
proof -
  note K = kernel_invD [OF assms(1)]
  have "sleeping (status (threads k t))" using assms(2) by (auto simp: sleeping_def)
  note L = left_and_ready [OF K(2,1) this]
  have "kernel_inv (made_ready t (leave_wait_objects t k))"
    by (rule kernel_inv_wake [OF assms(1) L(4,3,2)]) (use assms(2) L(5) in \<open>auto simp: status_wake_def\<close>)
  then show ?thesis using L(1,4) L(5) [of t] kept_framed by auto
qed

lemma leave_no_objects: "wait_objects (threads k t) = [] \<Longrightarrow> leave_wait_objects t k = k"
  by (simp add: leave_wait_objects_def upd_thread_def fun_upd_idem)

lemma kept_sync_timeout:
  assumes inv: "kernel_inv k" and s: "status (threads k t) \<in> {WaitSynchAny, WaitSynchAll, WaitHleEvent}"
  shows "\<exists>k'. invoke_callback WR_Timeout t None k = Some k' \<and> kept k k' \<and> status (threads k' t) = status (threads k t)"
proof (cases "wakeup_callback (threads k t)")
  case None
  then show ?thesis using kept_refl [OF inv] by (simp add: invoke_callback_def)
next
  case (Some cb)
  note K = kernel_invD [OF inv]
  show ?thesis
  proof (cases cb)
    case (ArbiterCallback a)
    then have "t \<in> set (arbiter_waiting k a)" using arb_listedD(1) [OF K(10)] Some by simp
    then show ?thesis using arb_invD [OF K(4), where a = a] s by (auto simp: arbiter_inv_def)
  next
    case (SVC_SyncCallback b)
    have "kept k (SetWaitSynchronizationResult t RESULT_TIMEOUT k)" unfolding SetWaitSynchronizationResult_def
      by (rule kept_framed [OF kernel_inv_context [OF inv] framed_context])
    then show ?thesis using Some SVC_SyncCallback
      by (simp add: invoke_callback_def WakeUp_def SyncCallback_WakeUp_def SetWaitSynchronizationResult_def)
  next
    case (OtherCallback n)
    let ?k = "k\<lparr>callbacks_run := callbacks_run k @ [(n, WR_Timeout, t, None)]\<rparr>"
    have "sched_inv ?k" using K(1) by (subst sched_inv_cong [where k = k]) simp_all
    then have "kernel_inv ?k" by (intro kernel_inv_quiet [OF inv framed_log]) simp_all
    then show ?thesis using Some OtherCallback kept_framed [OF _ framed_log]
      by (simp add: invoke_callback_def WakeUp_def)
  qed
qed

lemma kept_arbiter_timeout:
  assumes inv: "kernel_inv k" and a: "t \<in> set (arbiter_waiting k a)"
  shows "kept k (made_ready t (set_waiting a (filter (\<lambda>x. x \<noteq> t) (arbiter_waiting k a)) k))"
proof (rule kept_arbiter_wake [OF inv, where ws = "{t}" and a = a])
  note K = kernel_invD [OF inv]
  let ?k = "set_waiting a (filter (\<lambda>x. x \<noteq> t) (arbiter_waiting k a)) k"
  have A: "distinct (arbiter_waiting k a)" "status (threads k t) = WaitArb" using arb_invD [OF K(4), where a = a] a by (auto simp: arbiter_inv_def)
  then show "distinct (filter (\<lambda>x. x \<noteq> t) (arbiter_waiting k a))" by simp
  have "sched_inv ?k" using K(1) by (subst sched_inv_cong [where k = k]) (simp_all add: set_waiting_def)
  then show "sched_inv (made_ready t ?k)" by (rule sched_inv_made_ready) (simp add: A(2) sleeping_def set_waiting_def)
  show "rest ((made_ready t ?k)\<lparr>arbiter_waiting := arbiter_waiting k\<rparr>) = rest k"
    by (simp add: rest_def made_ready_def set_waiting_def upd_thread_def upd_queue_def upd_manager_def PrepareReschedule_def fun_eq_iff)
qed (use a in \<open>auto simp: made_ready_simps set_waiting_def\<close>)

text \<open>
  The wakeup of a thread by the timer. A thread that waits for an arbiter without a timeout has no callback and
  no event is queued for it.
\<close>

lemma kept_ThreadWakeupCallback:
  assumes inv: "kernel_inv k" and t: "wakeup_callback_table (managers k c) tid = Some t" "status (threads k t) \<noteq> Dormant"
    and arb: "status (threads k t) = WaitArb \<longrightarrow> wakeup_callback (threads k t) \<noteq> None"
  shows "\<exists>k'. ThreadWakeupCallback c tid k = Some k' \<and> kept k k' \<and> (sleeping (status (threads k t)) \<longrightarrow> status (threads k' t) = Ready)"
proof -
  note K = kernel_invD [OF inv]
  have wo: "wait_objects (threads k t) = []" if "status (threads k t) \<notin> {WaitSynchAny, WaitSynchAll, WaitHleEvent}"
    using wait_invD(3) [OF K(2), of t] that by blast
  consider (quiet) "status (threads k t) \<in> {Running, Ready, Dead}" | (sleep) "status (threads k t) \<in> {WaitSleep, WaitIPC}"
    | (sync) "status (threads k t) \<in> {WaitSynchAny, WaitSynchAll, WaitHleEvent}" | (arbiter) "status (threads k t) = WaitArb"
    using t(2) by (cases "status (threads k t)") auto
  then show ?thesis
  proof cases
    case quiet
    have "wakeup_callback (threads k t) = None" if "status (threads k t) = Ready" using K(4) that by (simp add: arb_inv_def)
    with quiet have "ThreadWakeupCallback c tid k = Some k" "\<not> sleeping (status (threads k t))"
      using t(1) wo leave_no_objects [of k t] by (auto simp: ThreadWakeupCallback_def ResumeFromWait_def sleeping_def)
    then show ?thesis using kept_refl [OF inv] by simp
  next
    case sleep
    obtain k' where "ResumeFromWait t (leave_wait_objects t k) = Some k'" "kept k k'" "status (threads k' t) = Ready"
      using kept_left_and_ready [OF inv, of t] sleep by auto
    moreover have "wait_objects (threads k t) = []" using wo sleep by auto
    ultimately show ?thesis using t(1) sleep leave_no_objects [of k t] by (auto simp: ThreadWakeupCallback_def)
  next
    case sync
    obtain k1 where k1: "invoke_callback WR_Timeout t None k = Some k1" "kept k k1" "status (threads k1 t) = status (threads k t)"
      using kept_sync_timeout [OF inv sync] by blast
    obtain k' where k': "ResumeFromWait t (leave_wait_objects t k1) = Some k'" "kept k1 k'" "status (threads k' t) = Ready"
      using kept_left_and_ready [OF keptD(1) [OF k1(2)], of t] sync k1(3) by auto
    then have "ThreadWakeupCallback c tid k = Some k'" using t(1) sync k1(1) by (auto simp: ThreadWakeupCallback_def)
    then show ?thesis using kept_trans [OF k1(2) k'(2)] k'(3) by simp
  next
    case arbiter
    obtain a where a: "t \<in> set (arbiter_waiting k a)" using arb_listedD(2) [OF K(10) arbiter] by blast
    then have "wakeup_callback (threads k t) \<in> {None, Some (ArbiterCallback a)}" using K(4) unfolding arb_inv_def by blast
    then have cb: "wakeup_callback (threads k t) = Some (ArbiterCallback a)" using arb arbiter by simp
    let ?k1 = "set_waiting a (filter (\<lambda>x. x \<noteq> t) (arbiter_waiting k a)) k"
    have w: "wait_objects (threads ?k1 t) = []" "status (threads ?k1 t) = WaitArb" using wo arbiter by (simp_all add: set_waiting_def)
    have "ThreadWakeupCallback c tid k = Some (made_ready t ?k1)"
      using t(1) arbiter cb resume_WaitArb [OF w(2,1)] leave_no_objects [OF w(1)]
      by (simp add: ThreadWakeupCallback_def invoke_callback_def WakeUp_def Arbiter_WakeUp_def set_waiting_def [symmetric])
    then show ?thesis using kept_arbiter_timeout [OF inv a] by (simp add: made_ready_simps)
  qed
qed

end
