(* ===== verification/Kernel_Life.thy ===== *)
theory Kernel_Life
  imports Kernel_Ops
begin

text \<open>
  Booting, sleeping, changing priorities, creating, stopping and switching threads keep the invariant of the kernel.
\<close>

section \<open>Boot\<close>

lemma kernel_inv_init:
  assumes "n > 0"
  shows "kernel_inv (Kernel_init n)"
proof -
  have "arb_listed (Kernel_init n)" by (rule arb_listedI) (simp_all add: Kernel_init_def Thread_blank_def)
  moreover have "arb_inv (Kernel_init n)" by (simp add: arb_inv_def arbiter_inv_def Kernel_init_def Thread_blank_def)
  moreover have "wait_inv (Kernel_init n)" by (simp add: wait_inv_def Kernel_init_def Thread_blank_def)
  moreover have "fresh_inv (Kernel_init n)" "kind_inv (Kernel_init n)" "owner_inv (Kernel_init n)"
    by (simp_all add: fresh_inv_def kind_inv_def owner_inv_def Kernel_init_def Thread_blank_def ThreadManager_init_def kind_def)
  moreover have "can_schedule (Kernel_init n)" using assms by (simp add: can_schedule_def Kernel_init_def Timing_init_def)
  ultimately show ?thesis using sched_inv_init cpu_inv_init by (simp add: kernel_inv_def kernel_base_def)
qed

text \<open>What the invariant and handles do not look at may change freely.\<close>

lemma kept_same:
  assumes inv: "kernel_inv k"
    and e: "threads k' = threads k" "wait_object k' = wait_object k" "managers k' = managers k" "arbiter_waiting k' = arbiter_waiting k"
      "next_object k' = next_object k" "timer_table k' = timer_table k" "tls_slots k' = tls_slots k" "cpu_process k' = cpu_process k"
      "current_cpu k' = current_cpu k" "client_ports k' = client_ports k" "client_sessions k' = client_sessions k"
      "current_timer (k_timing k') = current_timer (k_timing k)" "length (timers (k_timing k')) = length (timers (k_timing k))"
  shows "kept k k'"
proof -
  note K = kernel_invD [OF inv]
  have kd: "kind k' = kind k" by (simp add: kind_def e fun_eq_iff)
  have "sched_inv k'" using K(1) by (subst sched_inv_cong [where k = k]) (simp_all add: e)
  moreover have "wait_inv k'" "cpu_inv k'" "arb_inv k'" "fresh_inv k'" "kind_inv k'" "owner_inv k'" "can_schedule k'"
    using K(2-8) by (simp_all add: wait_inv_def cpu_inv_def arb_inv_def arbiter_inv_def fresh_inv_def kind_inv_def owner_inv_def can_schedule_def e kd)
  moreover have "arb_listed k'" by (rule arb_listed_cong [OF K(10) e(1,4)])
  ultimately show ?thesis by (simp add: kept_def kernel_inv_def kernel_base_def extends_def e kd)
qed

section \<open>Sleeping\<close>

lemma HaveReadyThreads_ok: "sched_inv k \<Longrightarrow> \<exists>b. HaveReadyThreads c k = Some b"
  by (simp add: HaveReadyThreads_def get_first_best sched_invD(1))

lemma kept_Sleep:
  assumes "kernel_inv k" "current_thread (managers k c) = Some t" "status (threads k t) = Running"
  shows "\<exists>k1 k2. WaitCurrentThread_Sleep c k = Some k1 \<and> current_thread (managers k1 c) = Some t
    \<and> WakeAfterDelay t ns k1 = Some k2 \<and> kept k (PrepareReschedule k2)"
proof -
  let ?k = "upd_thread t (\<lambda>x. x\<lparr>status := WaitSleep\<rparr>) k"
  have "kernel_inv ?k" by (rule kernel_inv_park [OF assms(1,3)]) simp_all
  then have k1: "kept k ?k" by (simp add: kept_def)
  obtain k2 where k2: "WakeAfterDelay t ns ?k = Some k2" "kept ?k k2" using kept_WakeAfterDelay [OF keptD(1) [OF k1]] by blast
  have "kept k (PrepareReschedule k2)"
    using kept_trans [OF kept_trans [OF k1 k2(2)] kept_framed [OF _ framed_PrepareReschedule]] keptD(1) [OF k2(2)] by simp
  then show ?thesis using k2(1) assms(2) by (simp add: WaitCurrentThread_Sleep_def)
qed

section \<open>Priorities\<close>

lemma kernel_inv_same_waiting:
  assumes "kernel_inv k" "framed k k'" "sched_inv k'" "\<forall>u. status (threads k' u) = status (threads k u)"
    "\<forall>u. wait_objects (threads k' u) = wait_objects (threads k u)" "\<forall>w. waiting_threads (wait_object k' w) = waiting_threads (wait_object k w)"
  shows "kept k k'"
  using kernel_inv_quiet [OF assms(1-3)] assms(2,4-6) by (simp add: kept_framed)

lemma kept_SetPriority:
  assumes "kernel_inv k" "p \<le> ThreadPrioLowest"
  shows "\<exists>k'. SetPriority t p k = Some k' \<and> kept k k'"
proof -
  obtain k' where k': "SetPriority t p k = Some k'" using assms(2) by (simp add: SetPriority_def Let_def ThreadPrioHighest_def)
  have "kept k k'"
  proof (rule kernel_inv_same_waiting [OF assms(1) framed_SetPriority [OF k']])
    show "sched_inv k'" using sched_inv_SetPriority [OF kernel_invD(1) [OF assms(1)] k'] .
  qed (use k' in \<open>auto simp: SetPriority_def Let_def split: if_splits\<close>)
  then show ?thesis using k' by blast
qed

lemma kept_prio_only: "kernel_inv k \<Longrightarrow> framed k k' \<Longrightarrow> sched_inv k' \<Longrightarrow> prio_only k k' \<Longrightarrow> kept k k'"
  by (intro kernel_inv_same_waiting) (simp_all add: prio_onlyD)

lemma kept_Thread_UpdatePriority: "kernel_inv k \<Longrightarrow> kept k (Thread_UpdatePriority t k)"
  by (intro kept_prio_only framed_Thread_UpdatePriority sched_inv_Thread_UpdatePriority prio_only_Thread_UpdatePriority) (simp_all add: kernel_invD)

lemma kept_Mutex_UpdatePriority: "kernel_inv k \<Longrightarrow> kept k (Mutex_UpdatePriority w k)"
  by (intro kept_prio_only framed_Mutex_UpdatePriority sched_inv_Mutex_UpdatePriority prio_only_Mutex_UpdatePriority) (simp_all add: kernel_invD)

lemma kept_foldl: "(\<And>k x. kernel_inv k \<Longrightarrow> kept k (f k x)) \<Longrightarrow> kernel_inv k \<Longrightarrow> kept k (foldl f k xs)"
proof (induction xs arbitrary: k)
  case (Cons x xs)
  then show ?case using kept_trans [of k "f k x"] keptD(1) by simp blast
qed (simp add: kept_refl)

lemma kept_PrepareReschedule: "kernel_inv k \<Longrightarrow> kept k (PrepareReschedule k)"
  by (intro kept_framed framed_PrepareReschedule) simp

section \<open>Creating threads\<close>

text \<open>A kernel with one more thread, at the next number.\<close>

lemma kept_add_thread:
  assumes inv: "kernel_inv k" and n: "n = next_object k" and sc: "sched_inv k'" "cpu_inv k'"
    and th: "threads k' = (threads k)(n := x)" "status x \<in> {Ready, Dormant}" "wait_objects x = []" "held_mutexes x = []" "wakeup_callback x = None"
    and wo: "wait_object k' = (wait_object k)(n := \<lparr>waiting_threads = [], obj = O_Thread\<rparr>)"
    and e: "next_object k' = n + 1" "arbiter_waiting k' = arbiter_waiting k" "timer_table k' = timer_table k" "cpu_process k' = cpu_process k"
      "k_timing k' = k_timing k" "current_cpu k' = current_cpu k" "client_ports k' = client_ports k" "client_sessions k' = client_sessions k"
      "\<And>c. current_thread (managers k' c) = current_thread (managers k c)"
    and tls: "\<And>p. length (tls_slots k p) \<le> length (tls_slots k' p)" "\<forall>p. \<forall>page \<in> set (tls_slots k' p). length page = 8"
      "status x = Ready \<longrightarrow> tls_page x < length (tls_slots k' (owner_process x))"
  shows "kept k k'"
proof -
  note K = kernel_invD [OF inv]
  have F: "status (threads k n) = Dormant" "kind k n = HT_Thread" "\<And>t. n \<notin> set (wait_objects (threads k t))"
    using K(5) n by (auto simp: fresh_inv_def)
  have cur: "current_thread (managers k c) \<noteq> Some n" for c using K(5) F(1) by (auto simp: fresh_inv_def)
  have arb: "n \<notin> set (arbiter_waiting k a)" for a using arb_invD [OF K(4), where a = a] F(1) by (auto simp: arbiter_inv_def)
  have wt: "n \<notin> set (waiting_threads (wait_object k w))" for w
    using wait_invD(2,3) [OF K(2), of n] F(1) by (metis ThreadStatus.distinct empty_iff insert_iff list.set(1))
  have kd: "kind k' = kind k" using F(2) by (auto simp: wo kind_def fun_eq_iff)
  have w: "waiting_threads (wait_object k n) = []"
  proof (cases "waiting_threads (wait_object k n)")
    case (Cons t ts)
    then show ?thesis using wait_invD(2) [OF K(2), of t n] F(3) [of t] by simp
  qed simp
  have wo': "waiting_threads (wait_object k' v) = waiting_threads (wait_object k v)" for v using w by (simp add: wo)
  have none: "wait_objects (threads k n) = []" using wait_invD(3) [OF K(2), of n] F(1) by force
  have th': "wait_objects (threads k' u) = wait_objects (threads k u)" for u using th(3) none by (simp add: th(1))
  have "wait_inv k'" using K(2) th(2,5) none unfolding wait_inv_def wo' th' by (auto simp: th(1))
  moreover have "arb_inv k'" using K(4) arb th(2,3,5) unfolding arb_inv_def arbiter_inv_def e th(1) by auto
  moreover have "fresh_inv k'" using K(5) n unfolding fresh_inv_def e kd th' by (auto simp: th(1) cur)
  moreover have "kind_inv k'" unfolding kind_inv_def e kd
  proof (intro conjI allI ballI impI)
    fix v p y assume "obj (wait_object k' v) = O_ServerPort p" "y \<in> set (pending_sessions p)"
    then show "kind k y = HT_ServerSession" using K(6) by (auto simp: kind_inv_def wo split: if_splits)
  next
    fix v y assume "obj (wait_object k' v) = O_Semaphore y"
    then have "obj (wait_object k v) = O_Semaphore y" by (auto simp: wo split: if_splits)
    then show "0 \<le> available_count y" "available_count y \<le> max_count y" "max_count y < 2 ^ 31" using K(6) by (auto simp: kind_inv_def)
  qed (use K(6) F(2) th(4) in \<open>auto simp: kind_inv_def th(1) split: if_splits\<close>)
  moreover have "owner_inv k'" unfolding owner_inv_def
  proof (intro conjI allI impI)
    fix t assume t: "status (threads k' t) \<notin> {Dormant, Dead}"
    show "tls_page (threads k' t) < length (tls_slots k' (owner_process (threads k' t)))"
    proof (cases "t = n")
      case True
      then show ?thesis using t th(2) tls(3) by (simp add: th(1))
    next
      case False
      then have "tls_page (threads k t) < length (tls_slots k (owner_process (threads k t)))" using t K(7) by (simp add: owner_inv_def th(1))
      then show ?thesis using False tls(1) [of "owner_process (threads k t)"] by (simp add: th(1))
    qed
  next
    fix c t assume "current_thread (managers k' c) = Some t"
    then have c: "current_thread (managers k c) = Some t" by (simp add: e)
    then have "cpu_process k c = Some (owner_process (threads k t))" using K(7) unfolding owner_inv_def by blast
    moreover have "t \<noteq> n" using c cur [of c] by blast
    ultimately show "cpu_process k' c = Some (owner_process (threads k' t))" by (simp add: th(1) e)
  qed (use tls(2) in simp)
  moreover have "arb_listed k'"
    by (rule arb_listed_change [OF K(10) e(2)]) (use th(2,5) in \<open>auto simp: th(1)\<close>)
  ultimately show ?thesis using sc K(8) n by (simp add: kept_def kernel_inv_def kernel_base_def extends_def can_schedule_def e kd)
qed

lemma first_free_Some: "first_free bs = Some i \<Longrightarrow> i < length bs \<and> \<not> bs ! i"
  by (induction bs arbitrary: i) (auto split: if_splits)

lemma GetFreeThreadLocalSlot_Some:
  "GetFreeThreadLocalSlot pages = Some (p, i) \<Longrightarrow> p < length pages \<and> i < length (pages ! p) \<and> \<not> pages ! p ! i"
  by (induction pages arbitrary: p i) (auto simp: first_free_Some split: option.splits)

lemma tls_page_bound:
  assumes "page < n" "slot < 8"
  shows "sub32 (TLS_AREA_VADDR + page * PAGE_SIZE + slot * TLS_ENTRY_SIZE) TLS_AREA_VADDR div PAGE_SIZE < n"
proof -
  let ?off = "page * PAGE_SIZE + slot * TLS_ENTRY_SIZE"
  have "sub32 (TLS_AREA_VADDR + page * PAGE_SIZE + slot * TLS_ENTRY_SIZE) TLS_AREA_VADDR = ?off mod 2 ^ 32"
  proof -
    have e: "TLS_AREA_VADDR + page * PAGE_SIZE + slot * TLS_ENTRY_SIZE + (2 ^ 32 - TLS_AREA_VADDR) = ?off + 2 ^ 32" by (simp add: TLS_AREA_VADDR_def)
    show ?thesis unfolding sub32_def e by (rule mod_add_self2)
  qed
  moreover have "?off mod 2 ^ 32 div PAGE_SIZE \<le> ?off div PAGE_SIZE" by (intro div_le_mono) simp
  moreover have "slot * TLS_ENTRY_SIZE < PAGE_SIZE" using assms(2) by (simp add: TLS_ENTRY_SIZE_def PAGE_SIZE_def)
  then have "?off div PAGE_SIZE = page" by simp
  ultimately show ?thesis using assms(1) by simp
qed

text \<open>The kernel once the new thread is registered, before its storage is found.\<close>

definition registered :: "nat \<Rightarrow> nat \<Rightarrow> nat \<Rightarrow> nat \<Rightarrow> oid \<Rightarrow> Kernel \<Rightarrow> Kernel" where
  "registered core entry stack priority process k =
     upd_manager core (\<lambda>m. m\<lparr>thread_list := thread_list m @ [next_object k], ready_queue := prepare priority (ready_queue m),
         wakeup_callback_table := (wakeup_callback_table m)(next_thread_id k \<mapsto> next_object k)\<rparr>)
       (k\<lparr>next_object := next_object k + 1, next_thread_id := (next_thread_id k + 1) mod 2 ^ 32,
          wait_object := (wait_object k)(next_object k := \<lparr>waiting_threads = [], obj = O_Thread\<rparr>),
          threads := (threads k)(next_object k := fresh_thread (next_thread_id k) entry stack priority (GetTicks (timers (k_timing k) ! core))
             core 0 process (\<lambda>_. 0))\<rparr>)"

lemma kept_registered:
  assumes inv: "kernel_inv k" and p: "priority \<le> ThreadPrioLowest"
  shows "kept k (registered core entry stack priority process k)"
proof -
  note K = kernel_invD [OF inv] and D = sched_invD [OF kernel_invD(1) [OF inv]]
  let ?n = "next_object k" and ?k = "registered core entry stack priority process k"
  let ?x = "fresh_thread (next_thread_id k) entry stack priority (GetTicks (timers (k_timing k) ! core)) core 0 process (\<lambda>_. 0)"
  have F: "status (threads k ?n) = Dormant" using K(5) by (auto simp: fresh_inv_def)
  have cur: "current_thread (managers k c) \<noteq> Some ?n" for c using K(5) F(1) by (auto simp: fresh_inv_def)
  have th: "threads ?k = (threads k)(?n := ?x)" "\<And>c. current_thread (managers ?k c) = current_thread (managers k c)"
    by (simp_all add: registered_def upd_manager_def)
  have rq: "rq ?k = (rq k)(core := prepare priority (rq k core))" by (auto simp: registered_def upd_manager_def fun_eq_iff)
  have lt: "priority < length (queues (rq k core))" using D(2) p by (simp add: less_Suc_eq_le)
  note P = tql.prep_law [OF D(1) lt]
  show ?thesis
  proof (rule kept_add_thread [OF inv refl, where x = ?x])
    show "sched_inv ?k"
      by (rule sched_inv_update [OF K(1), where t = ?n and q = "prepare priority (rq k core)" and c = core and th = ?x])
         (use P D(2,3,4) F p rq th(1) in \<open>auto simp: fresh_thread_def\<close>)
    show "cpu_inv ?k" using K(3) cur unfolding cpu_inv_def th by (auto simp: fresh_thread_def)
    show "\<forall>p. \<forall>page \<in> set (tls_slots ?k p). length page = 8" using K(7) by (simp add: owner_inv_def registered_def upd_manager_def)
  qed (use th in \<open>auto simp: fresh_thread_def registered_def upd_manager_def\<close>)
qed

text \<open>The kernel once the thread has its storage and is queued.\<close>

definition started :: "nat \<Rightarrow> nat \<Rightarrow> nat \<Rightarrow> nat \<Rightarrow> oid \<Rightarrow> u32 \<Rightarrow> bool list list \<Rightarrow> nat \<Rightarrow> nat \<Rightarrow> Kernel \<Rightarrow> Kernel" where
  "started core entry stack priority process arg slots page slot k =
     upd_thread (next_object k) (\<lambda>x. x\<lparr>status := Ready\<rparr>)
       (upd_queue core (push_back priority (next_object k))
         (upd_thread (next_object k) (\<lambda>x. x\<lparr>tls_address := TLS_AREA_VADDR + page * PAGE_SIZE + slot * TLS_ENTRY_SIZE,
              thread_context := ResetThreadContext (of_nat stack) (of_nat entry) arg\<rparr>)
           ((registered core entry stack priority process k)\<lparr>tls_slots :=
              (tls_slots (registered core entry stack priority process k))(process := slots[page := (slots ! page)[slot := True]])\<rparr>)))"

lemma CreateThread_cases:
  assumes "prio \<le> ThreadPrioLowest" "pid \<le> ThreadProcessorIdMax" "0 \<le> pid" "pid < int cores"
  shows "CreateThread True lin entry prio arg pid stack process cores k = Some
    (case GetFreeThreadLocalSlot (tls_slots k process) of
       Some (page, slot) \<Rightarrow> (MakeResult (next_object k), started (nat pid) entry stack prio process arg (tls_slots k process) page slot k)
     | None \<Rightarrow> (case lin of
         None \<Rightarrow> (ResultErr ERR_OUT_OF_MEMORY, registered (nat pid) entry stack prio process k)
       | Some _ \<Rightarrow> (MakeResult (next_object k), started (nat pid) entry stack prio process arg
           (tls_slots k process @ [replicate 8 False]) (length (tls_slots k process)) 0 k)))"
proof -
  have e: "tls_slots (upd_manager c f k1) = tls_slots k1" for c f k1 by (simp add: upd_manager_def)
  show ?thesis using assms unfolding started_def registered_def CreateThread_def
    by (cases "GetFreeThreadLocalSlot (tls_slots k process)"; cases lin) (auto simp: e Let_def)
qed

lemma kept_started:
  assumes inv: "kernel_inv k" and run: "CreateThread True lin entry prio arg pid stack process cores k = Some (MakeResult t, k')"
    and k': "k' = started (nat pid) entry stack prio process arg slots page slot k"
    and slots: "length (tls_slots k process) \<le> length slots" "\<forall>pg \<in> set slots. length pg = 8" "page < length slots" "slot < 8"
  shows "kept k k'" "status (threads k' (next_object k)) = Ready" "next_object k' = next_object k + 1"
proof -
  note K = kernel_invD [OF inv]
  let ?n = "next_object k"
  have F: "status (threads k ?n) = Dormant" "\<And>c. current_thread (managers k c) \<noteq> Some ?n" using K(5) by (auto simp: fresh_inv_def)
  note C = CreateThread_ok [OF K(1,3) F run]
  have e: "threads k' = (threads k)(?n := threads k' ?n)" using C(1,8) by (auto simp: fun_eq_iff)
  have x: "wait_objects (threads k' ?n) = []" "held_mutexes (threads k' ?n) = []" "wakeup_callback (threads k' ?n) = None"
    "owner_process (threads k' ?n) = process" "tls_address (threads k' ?n) = TLS_AREA_VADDR + page * PAGE_SIZE + slot * TLS_ENTRY_SIZE"
    by (simp_all add: k' started_def registered_def upd_manager_def fresh_thread_def)
  have g: "tls_slots k' = (tls_slots k)(process := slots[page := (slots ! page)[slot := True]])"
    by (simp add: k' started_def registered_def upd_manager_def upd_thread_def upd_queue_def)
  show "kept k k'"
  proof (rule kept_add_thread [OF inv refl C(2,3) e])
    have "length pg = 8" if "pg \<in> set (slots[page := (slots ! page)[slot := True]])" for pg
      using that set_update_subset_insert [of slots page] slots(2,3) by fastforce
    then show "\<forall>p. \<forall>pg \<in> set (tls_slots k' p). length pg = 8" using K(7) by (simp add: g owner_inv_def)
    show "status (threads k' ?n) = Ready \<longrightarrow> tls_page (threads k' ?n) < length (tls_slots k' (owner_process (threads k' ?n)))"
      using tls_page_bound [OF slots(3,4)] by (simp add: tls_page_def x g)
    show "length (tls_slots k p) \<le> length (tls_slots k' p)" for p using slots(1) by (simp add: g)
    show "wait_object k' = (wait_object k)(?n := \<lparr>waiting_threads = [], obj = O_Thread\<rparr>)" by (simp add: k' started_def registered_def upd_manager_def)
  qed (use C x in \<open>auto simp: k' started_def registered_def upd_manager_def upd_thread_def upd_queue_def\<close>)
  show "status (threads k' ?n) = Ready" "next_object k' = next_object k + 1" using C by auto
qed

lemma kept_CreateThread:
  assumes inv: "kernel_inv k" and pid: "0 \<le> pid" "pid < int cores"
  shows "\<exists>r k'. CreateThread valid lin entry prio arg pid stack process cores k = Some (r, k') \<and> kept k k'
    \<and> (\<forall>t. rv_object r = Some t \<longrightarrow> t = next_object k \<and> t < next_object k' \<and> status (threads k' t) = Ready)"
proof (cases "prio \<le> ThreadPrioLowest \<and> pid \<le> ThreadProcessorIdMax \<and> valid")
  case False
  then show ?thesis using kept_refl [OF inv] by (auto simp: CreateThread_def ResultErr_def)
next
  case True
  note K = kernel_invD [OF inv] and R = CreateThread_cases [OF _ _ pid, of prio lin entry arg stack process k]
  have len: "length pg = 8" if "pg \<in> set (tls_slots k process)" for pg using K(7) that unfolding owner_inv_def by blast
  show ?thesis
  proof (cases "GetFreeThreadLocalSlot (tls_slots k process)")
    case (Some ps)
    obtain page slot where ps: "ps = (page, slot)" by (cases ps)
    have run: "CreateThread True lin entry prio arg pid stack process cores k
        = Some (MakeResult (next_object k), started (nat pid) entry stack prio process arg (tls_slots k process) page slot k)"
      using R True Some ps by simp
    have "page < length (tls_slots k process)" "slot < 8"
      using GetFreeThreadLocalSlot_Some [of "tls_slots k process" page slot] Some ps len [of "tls_slots k process ! page"] by auto
    then show ?thesis using kept_started [OF inv run refl order_refl] len run True by (simp add: MakeResult_def)
  next
    case None
    show ?thesis
    proof (cases lin)
      case None
      then show ?thesis using R True \<open>GetFreeThreadLocalSlot _ = None\<close> kept_registered [OF inv] by (simp add: ResultErr_def)
    next
      case (Some off)
      have run: "CreateThread True lin entry prio arg pid stack process cores k
          = Some (MakeResult (next_object k), started (nat pid) entry stack prio process arg
             (tls_slots k process @ [replicate 8 False]) (length (tls_slots k process)) 0 k)"
        using R True None Some by simp
      show ?thesis using kept_started [OF inv run refl] len run True by (auto simp: MakeResult_def)
    qed
  qed
qed

section \<open>Switching threads\<close>

text \<open>Switching changes of the threads only who is ready or running, when it last ran and its saved registers.\<close>

definition static_part :: "Thread \<Rightarrow> Thread" where
  "static_part x = x\<lparr>status := Dormant, last_running_ticks := 0, thread_context := (\<lambda>_. 0)\<rparr>"

definition switched_thread :: "Thread \<Rightarrow> Thread \<Rightarrow> bool" where
  "switched_thread x y \<longleftrightarrow> (status y = status x \<or> status x \<in> {Running, Ready} \<and> status y \<in> {Running, Ready})
     \<and> static_part y = static_part x"

definition same_rest :: "Kernel \<Rightarrow> Kernel \<Rightarrow> bool" where
  "same_rest k k' \<longleftrightarrow> (\<forall>u. switched_thread (threads k u) (threads k' u)) \<and> wait_object k' = wait_object k
     \<and> arbiter_waiting k' = arbiter_waiting k \<and> next_object k' = next_object k \<and> timer_table k' = timer_table k \<and> tls_slots k' = tls_slots k
     \<and> current_cpu k' = current_cpu k \<and> client_ports k' = client_ports k \<and> client_sessions k' = client_sessions k
     \<and> current_timer (k_timing k') = current_timer (k_timing k) \<and> length (timers (k_timing k')) = length (timers (k_timing k))"

lemma switched_thread_refl [simp]: "switched_thread x x"
  by (simp add: switched_thread_def)

lemma switched_threadD:
  assumes "switched_thread x y"
  shows "wait_objects y = wait_objects x" "held_mutexes y = held_mutexes x" "wakeup_callback y = wakeup_callback x" "core_id y = core_id x"
    "tls_address y = tls_address x" "owner_process y = owner_process x" "thread_id y = thread_id x"
  using assms unfolding switched_thread_def static_part_def by (cases x; cases y; simp)+

lemma switched_thread_trans: "switched_thread x y \<Longrightarrow> switched_thread y z \<Longrightarrow> switched_thread x z"
  unfolding switched_thread_def by metis

lemma same_rest_trans: "same_rest k k1 \<Longrightarrow> same_rest k1 k2 \<Longrightarrow> same_rest k k2"
  unfolding same_rest_def by (metis switched_thread_trans)

lemma same_rest_suspend: "same_rest k (suspend_previous c k)"
  by (auto simp: same_rest_def suspend_previous_def switched_thread_def static_part_def upd_thread_def upd_queue_def upd_manager_def Let_def split: option.splits)

lemma same_rest_SwitchContext:
  assumes "SwitchContext c r k = Some k'"
  shows "same_rest k k'"
proof (rule same_rest_trans [OF same_rest_suspend [of k c]], cases r)
  case None
  then show "same_rest (suspend_previous c k) k'" using assms by (auto simp: SwitchContext_def same_rest_def upd_manager_def Let_def)
next
  case (Some n)
  then have "status (threads (suspend_previous c k) n) = Ready" using assms by (auto simp: SwitchContext_def Let_def split: if_splits)
  then show "same_rest (suspend_previous c k) k'" using assms Some
    by (auto simp: SwitchContext_def Let_def same_rest_def upd_manager_def upd_queue_def upd_thread_def UnscheduleEvent_def SetCurrentProcessForCPU_def
        switched_thread_def static_part_def split: if_splits)
qed

lemma suspend_process [simp]:
  "cpu_process (suspend_previous c k) = cpu_process k" "owner_process (threads (suspend_previous c k) u) = owner_process (threads k u)"
  by (auto simp: suspend_previous_def Let_def upd_thread_def upd_queue_def upd_manager_def split: option.splits)

lemma SwitchContext_process:
  assumes "SwitchContext c r k = Some k'" "\<And>p. current_thread (managers k c) = Some p \<Longrightarrow> cpu_process k c = Some (owner_process (threads k p))"
  shows "current_thread (managers k' c) = Some n \<longrightarrow> cpu_process k' c = Some (owner_process (threads k' n))"
    "d \<noteq> c \<longrightarrow> current_thread (managers k' d) = current_thread (managers k d) \<and> cpu_process k' d = cpu_process k d"
proof -
  have e: "current_thread (managers (upd_manager c f k1) d) = (if d = c then current_thread (f (managers k1 c)) else current_thread (managers k1 d))"
    "cpu_process (upd_manager c f k1) = cpu_process k1" for c f k1 d by (simp_all add: upd_manager_def)
  have q: "cpu_process (upd_queue c f k1) = cpu_process k1" "cpu_process (upd_thread t g k1) = cpu_process k1" for c f k1 t g
    by (simp_all add: upd_queue_def upd_manager_def upd_thread_def)
  have p: "cpu_process k c = Some v" if "map_option (\<lambda>p. owner_process (threads k p)) (current_thread (managers k c)) = Some v" for v
    using that assms(2) by auto
  show "current_thread (managers k' c) = Some n \<longrightarrow> cpu_process k' c = Some (owner_process (threads k' n))"
    using assms(1) p by (cases r) (auto simp: SwitchContext_def Let_def e q SetCurrentProcessForCPU_def split: if_splits)
  show "d \<noteq> c \<longrightarrow> current_thread (managers k' d) = current_thread (managers k d) \<and> cpu_process k' d = cpu_process k d"
    using assms(1) by (cases r) (auto simp: SwitchContext_def Let_def e q SetCurrentProcessForCPU_def suspend_previous_simps split: if_splits)
qed

lemma kernel_inv_same_rest:
  assumes inv: "kernel_inv k" and f: "same_rest k k'" and sc: "sched_inv k'" "cpu_inv k'"
    and cur: "\<And>c t. current_thread (managers k' c) = Some t \<Longrightarrow> status (threads k' t) \<noteq> Dormant \<and> cpu_process k' c = Some (owner_process (threads k' t))"
  shows "kernel_inv k'"
proof -
  note K = kernel_invD [OF inv]
  have F: "wait_object k' = wait_object k" "arbiter_waiting k' = arbiter_waiting k" "next_object k' = next_object k" "timer_table k' = timer_table k"
    "tls_slots k' = tls_slots k" "can_schedule k' = can_schedule k" using f by (auto simp: same_rest_def can_schedule_def)
  have sw: "switched_thread (threads k u) (threads k' u)" for u using f by (simp add: same_rest_def)
  note T = switched_threadD [OF sw]
  have st: "status (threads k' u) = status (threads k u) \<or> status (threads k u) \<in> {Running, Ready} \<and> status (threads k' u) \<in> {Running, Ready}" for u
    using sw [of u] by (simp add: switched_thread_def)
  have iff: "status (threads k' u) = s \<longleftrightarrow> status (threads k u) = s" if "s \<notin> {Running, Ready}" for u s using st [of u] that by auto
  have kd: "kind k' = kind k" by (simp add: kind_def F(1) fun_eq_iff)
  have rr: "status (threads k' u) \<in> {Running, Ready} \<longleftrightarrow> status (threads k u) \<in> {Running, Ready}" for u using st [of u] by auto
  have wa: "status (threads k' u) \<in> {WaitSynchAny, WaitSynchAll, WaitHleEvent} \<longleftrightarrow> status (threads k u) \<in> {WaitSynchAny, WaitSynchAll, WaitHleEvent}" for u
    using st [of u] by auto
  have dd: "status (threads k' u) \<notin> {Dormant, Dead} \<longleftrightarrow> status (threads k u) \<notin> {Dormant, Dead}" for u using st [of u] by auto
  have "wait_inv k'" using K(2) unfolding wait_inv_def F T wa iff [of WaitSynchAll, simplified] .
  moreover have "arb_inv k'" using K(4) unfolding arb_inv_def arbiter_inv_def F T rr iff [of WaitArb, simplified] .
  moreover have "fresh_inv k'" using K(5) cur unfolding fresh_inv_def F T kd by (auto simp: iff [of Dormant, simplified])
  moreover have "kind_inv k'" using K(6) unfolding kind_inv_def F T kd iff [of Dormant, simplified] .
  moreover have "owner_inv k'" using K(7) cur unfolding owner_inv_def tls_page_def F dd T by auto
  moreover have "arb_listed k'" by (rule arb_listed_change [OF K(10) F(2)]) (auto simp: T iff [of WaitArb, simplified])
  ultimately show ?thesis using sc K(8) by (simp add: kernel_inv_def kernel_base_def F)
qed

lemma PopNextReadyThread_queue: "PopNextReadyThread c k = Some (r, k1) \<Longrightarrow> \<exists>q. k1 = upd_queue c (\<lambda>_. q) k"
  by (auto simp: PopNextReadyThread_def bind_eq_Some_conv split: option.splits if_splits)

lemma same_rest_queue: "same_rest k (upd_queue c f k)"
  by (simp add: same_rest_def upd_queue_def upd_manager_def)

text \<open>Rescheduling a core always succeeds and keeps the invariant.\<close>

lemma kernel_inv_Reschedule:
  assumes inv: "kernel_inv k"
  shows "\<exists>k'. Reschedule c k = Some k' \<and> kernel_inv k' \<and> same_rest k k'
    \<and> (\<forall>t. current_thread (managers k' c) = Some t \<longrightarrow> status (threads k' t) = Running)"
proof -
  note K = kernel_invD [OF inv]
  obtain k' where k': "Reschedule c k = Some k'" "sched_inv k'" "cpu_inv k'"
    and run: "\<And>t. current_thread (managers k' c) = Some t \<Longrightarrow> status (threads k' t) = Running"
    using Reschedule_best [OF K(1,3), of c] by (auto split: option.splits)
  obtain r q where pop: "PopNextReadyThread c k = Some (r, upd_queue c (\<lambda>_. q) k)"
    using k'(1) PopNextReadyThread_queue [of c k] by (auto simp: Reschedule_def bind_eq_Some_conv)
  let ?k1 = "upd_queue c (\<lambda>_. q) k"
  have p1: "current_thread (managers ?k1 d) = current_thread (managers k d)" "cpu_process ?k1 = cpu_process k" "threads ?k1 = threads k" for d
    by (simp_all add: upd_queue_def upd_manager_def)
  have own: "cpu_process k d = Some (owner_process (threads k p))" "status (threads k p) \<noteq> Dormant" if "current_thread (managers k d) = Some p" for d p
    using K(5,7) that unfolding owner_inv_def fresh_inv_def by blast+
  have "same_rest k k' \<and> (\<forall>d. d \<noteq> c \<longrightarrow> current_thread (managers k' d) = current_thread (managers k d) \<and> cpu_process k' d = cpu_process k d)
      \<and> (\<forall>n. current_thread (managers k' c) = Some n \<longrightarrow> cpu_process k' c = Some (owner_process (threads k' n)))"
  proof (cases "current_thread (managers k c) = None \<and> r = None")
    case True
    then have "k' = ?k1" using k'(1) pop by (simp add: Reschedule_def)
    then show ?thesis using same_rest_queue True by (simp add: p1)
  next
    case False
    then have s: "SwitchContext c r ?k1 = Some k'" using k'(1) pop by (auto simp: Reschedule_def Let_def)
    have "cpu_process ?k1 c = Some (owner_process (threads ?k1 p))" if "current_thread (managers ?k1 c) = Some p" for p using own(1) that by (simp add: p1)
    note P = SwitchContext_process [OF s this]
    show ?thesis using same_rest_trans [OF same_rest_queue same_rest_SwitchContext [OF s]] P by (simp add: p1)
  qed
  then have sr: "same_rest k k'" and oth: "\<And>d. d \<noteq> c \<Longrightarrow> current_thread (managers k' d) = current_thread (managers k d) \<and> cpu_process k' d = cpu_process k d"
    and cp: "\<And>n. current_thread (managers k' c) = Some n \<Longrightarrow> cpu_process k' c = Some (owner_process (threads k' n))" by blast+
  have sw: "switched_thread (threads k u) (threads k' u)" for u using sr by (simp add: same_rest_def)
  have "status (threads k' t) \<noteq> Dormant \<and> cpu_process k' d = Some (owner_process (threads k' t))" if t: "current_thread (managers k' d) = Some t" for d t
  proof (cases "d = c")
    case True
    then show ?thesis using t run [of t] cp [of t] by simp
  next
    case False
    then have "current_thread (managers k d) = Some t" "cpu_process k' d = cpu_process k d" using t oth by auto
    then show ?thesis using own [of d t] sw [of t] switched_threadD(6) [OF sw [of t]] by (auto simp: switched_thread_def)
  qed
  then have "kernel_inv k'" by (intro kernel_inv_same_rest [OF inv sr k'(2,3)])
  then show ?thesis using k'(1) sr run by blast
qed

section \<open>Stopping threads\<close>

lemma kept_manager:
  assumes inv: "kernel_inv k" and f: "\<And>m. ready_queue (f m) = ready_queue m" "\<And>m. current_thread (f m) = current_thread m"
  shows "kept k (upd_manager c f k)"
proof -
  note K = kernel_invD [OF inv]
  let ?k = "upd_manager c f k"
  have e: "threads ?k = threads k" "wait_object ?k = wait_object k" "arbiter_waiting ?k = arbiter_waiting k" "next_object ?k = next_object k"
    "timer_table ?k = timer_table k" "tls_slots ?k = tls_slots k" "cpu_process ?k = cpu_process k" "k_timing ?k = k_timing k"
    "current_cpu ?k = current_cpu k" "client_ports ?k = client_ports k" "client_sessions ?k = client_sessions k"
    "\<And>d. current_thread (managers ?k d) = current_thread (managers k d)" using f(2) by (simp_all add: upd_manager_def)
  have kd: "kind ?k = kind k" by (simp add: kind_def e fun_eq_iff)
  have "sched_inv ?k" using K(1) f(1) by (simp add: sched_inv_manager)
  moreover have "wait_inv ?k" "cpu_inv ?k" "arb_inv ?k" "fresh_inv ?k" "kind_inv ?k" "owner_inv ?k" "can_schedule ?k"
    using K(2-8) by (simp_all add: wait_inv_def cpu_inv_def arb_inv_def arbiter_inv_def fresh_inv_def kind_inv_def owner_inv_def can_schedule_def e kd)
  moreover have "arb_listed ?k" by (rule arb_listed_cong [OF K(10) e(1,3)])
  ultimately show ?thesis by (simp add: kept_def kernel_inv_def kernel_base_def extends_def e kd)
qed

lemma kept_Unschedule: "kernel_inv k \<Longrightarrow> kept k (k\<lparr>k_timing := UnscheduleEvent ty d (k_timing k)\<rparr>)"
  by (simp add: kept_def kernel_inv_timing UnscheduleEvent_def)

lemma status_wake_trans:
  assumes "status_wake k k1" "status_wake k1 k2"
  shows "status_wake k k2"
  unfolding status_wake_def
proof
  fix u
  show "status (threads k2 u) = status (threads k u) \<or> status (threads k2 u) = Ready
      \<and> status (threads k u) \<in> {WaitSleep, WaitIPC, WaitSynchAny, WaitSynchAll, WaitHleEvent}"
    using assms [unfolded status_wake_def, THEN spec, of u] by auto
qed

lemma kept_release_each:
  assumes "kernel_inv k" "\<forall>w \<in> set ws. kind k w = HT_Mutex"
  shows "\<exists>k'. release_each ws k = Some k' \<and> kept k k' \<and> framed k k' \<and> status_wake k k'"
  using assms
proof (induction ws arbitrary: k)
  case Nil
  then show ?case by (simp add: kept_refl status_wake_def)
next
  case (Cons w ws)
  then obtain mx where mx: "obj (wait_object k w) = O_Mutex mx" by (cases "obj (wait_object k w)") (auto simp: kind_def)
  let ?k = "set_obj w (O_Mutex (mx\<lparr>lock_count := 0, holding_thread := None\<rparr>)) k"
  have s: "obj_step (obj (wait_object k w)) (O_Mutex (mx\<lparr>lock_count := 0, holding_thread := None\<rparr>))" using mx by (simp add: obj_step_def)
  obtain k1 where k1: "WakeupAllWaitingThreads w ?k = Some k1" "kernel_inv k1" "framed ?k k1" "status_wake ?k k1"
    using kernel_inv_WakeupAll [OF kernel_inv_set_obj [OF Cons.prems(1) s]] by blast
  have f: "framed k k1" using framed_trans [OF framed_set_obj [OF s] k1(3)] .
  have "\<forall>v \<in> set ws. kind k1 v = HT_Mutex" using Cons.prems(2) framed_kind [OF f] by simp
  then obtain k' where k': "release_each ws k1 = Some k'" "kept k1 k'" "framed k1 k'" "status_wake k1 k'" using Cons.IH [OF k1(2)] by blast
  have "status_wake k k'" using status_wake_trans [OF _ k'(4)] k1(4) by (simp add: status_wake_def)
  then show ?case using mx k1(1) k' framed_trans [OF f k'(3)] kept_trans [OF kept_framed [OF k1(2) f] k'(2)] by simp
qed

lemma kept_no_mutexes:
  assumes "kernel_inv k"
  shows "kept k (upd_thread t (\<lambda>x. x\<lparr>held_mutexes := []\<rparr>) k)"
  by (rule kernel_inv_same_waiting [OF assms])
     (use kernel_invD(1) [OF assms] in \<open>simp_all add: framed_def framed_thread_def ident_def sched_inv_upd_thread\<close>)

lemma kept_free_tls_slot:
  assumes inv: "kernel_inv k" and p: "tls_page (threads k t) < length (tls_slots k (owner_process (threads k t)))"
  shows "\<exists>k'. free_tls_slot t k = Some k' \<and> kept k k'"
proof -
  note K = kernel_invD [OF inv]
  let ?p = "owner_process (threads k t)" and ?slots = "tls_slots k (owner_process (threads k t))" and ?pg = "tls_page (threads k t)"
  define i where "i = sub32 (tls_address (threads k t)) TLS_AREA_VADDR mod PAGE_SIZE div TLS_ENTRY_SIZE"
  define sl where "sl = (tls_slots k)(?p := ?slots[?pg := (?slots ! ?pg)[i := False]])"
  have run: "free_tls_slot t k = Some (k\<lparr>tls_slots := sl\<rparr>)" using p by (simp add: free_tls_slot_def Let_def tls_page_def i_def sl_def)
  have len: "length (sl q) = length (tls_slots k q)" for q by (simp add: sl_def)
  have pg: "length pg = 8" if "pg \<in> set (sl q)" for pg q
  proof -
    have o: "length x = 8" if "x \<in> set (tls_slots k q)" for x q using K(7) that unfolding owner_inv_def by blast
    show ?thesis using that o set_update_subset_insert [of ?slots ?pg] nth_mem [OF p] by (cases "q = ?p") (fastforce simp: sl_def)+
  qed
  have "owner_inv (k\<lparr>tls_slots := sl\<rparr>)" using K(7) pg by (simp add: owner_inv_def len)
  moreover have "sched_inv (k\<lparr>tls_slots := sl\<rparr>)" using K(1) by simp
  moreover have "wait_inv (k\<lparr>tls_slots := sl\<rparr>)" "cpu_inv (k\<lparr>tls_slots := sl\<rparr>)" "arb_inv (k\<lparr>tls_slots := sl\<rparr>)" "fresh_inv (k\<lparr>tls_slots := sl\<rparr>)"
    "kind_inv (k\<lparr>tls_slots := sl\<rparr>)" "can_schedule (k\<lparr>tls_slots := sl\<rparr>)"
    using K(2-6,8) by (simp_all add: wait_inv_def cpu_inv_def arb_inv_def arbiter_inv_def fresh_inv_def kind_inv_def kind_def can_schedule_def)
  moreover have "arb_listed (k\<lparr>tls_slots := sl\<rparr>)" by (rule arb_listed_cong [OF K(10)]) simp_all
  ultimately show ?thesis using run by (simp add: kept_def kernel_inv_def kernel_base_def)
qed

text \<open>Stopping the running thread: it dies, and gives back what it holds.\<close>

lemma kept_Stop:
  assumes inv: "kernel_inv k" and t: "status (threads k t) = Running"
  shows "\<exists>k'. Stop t k = Some k' \<and> kept k k' \<and> status (threads k' t) = Dead"
proof -
  let ?th = "threads k t"
  let ?a = "k\<lparr>k_timing := UnscheduleEvent (wakeup_event_type (core_id ?th)) (thread_id ?th) (k_timing k)\<rparr>"
  let ?b = "upd_manager (core_id ?th) (\<lambda>m. m\<lparr>wakeup_callback_table := (wakeup_callback_table m)(thread_id ?th := None)\<rparr>) ?a"
  let ?c = "upd_thread t (\<lambda>x. x\<lparr>status := Dead\<rparr>) ?b"
  have a: "kept k ?a" by (rule kept_Unschedule [OF inv])
  have b: "kept k ?b" by (rule kept_trans [OF a kept_manager [OF keptD(1) [OF a]]]) simp_all
  have "kernel_inv ?c" by (rule kernel_inv_park [OF keptD(1) [OF b]]) (simp_all add: t upd_manager_def)
  then have c: "kept k ?c" using b extends_trans [OF keptD(2) [OF b]] by (simp add: kept_def)
  have tls: "tls_page (threads ?c t) < length (tls_slots ?c (owner_process (threads ?c t)))" "tls_page (threads ?c t) = tls_page ?th"
    using kernel_invD(7) [OF inv] t by (auto simp: owner_inv_def tls_page_def upd_manager_def upd_thread_def)
  obtain k1 where k1: "WakeupAllWaitingThreads t ?c = Some k1" "kernel_inv k1" "framed ?c k1" "status_wake ?c k1"
    using kernel_inv_WakeupAll [OF keptD(1) [OF c]] by blast
  have dead1: "status (threads k1 t) = Dead" using k1(4) [unfolded status_wake_def, THEN spec, of t] by simp
  have lv: "leave_wait_objects t k1 = k1"
    using wait_invD(3) [OF kernel_invD(2) [OF k1(2)], of t] dead1 by (intro leave_no_objects) force
  have "\<forall>w \<in> set (held_mutexes (threads k1 t)). kind k1 w = HT_Mutex" using kernel_invD(6) [OF k1(2)] unfolding kind_inv_def by blast
  from kept_release_each [OF k1(2) this] obtain k2
    where k2: "release_each (held_mutexes (threads k1 t)) k1 = Some k2" "kept k1 k2" "framed k1 k2" "status_wake k1 k2" by blast
  have dead2: "status (threads k2 t) = Dead" using k2(4) [unfolded status_wake_def, THEN spec, of t] dead1 by simp
  let ?d = "upd_thread t (\<lambda>x. x\<lparr>held_mutexes := []\<rparr>) k2"
  have d: "kept k2 ?d" by (rule kept_no_mutexes [OF keptD(1) [OF k2(2)]])
  have f: "framed ?c k2" by (rule framed_trans [OF k1(3) k2(3)])
  have "tls_page (threads ?d t) < length (tls_slots ?d (owner_process (threads ?d t)))"
    using tls(1) framedD(16,17) [OF f, of t] framedD(19) [OF f] by (simp add: tls_page_def upd_thread_def)
  from kept_free_tls_slot [OF keptD(1) [OF d] this] obtain k' where k': "free_tls_slot t ?d = Some k'" "kept ?d k'" by blast
  have "kept k k'" using kept_trans [OF c kept_trans [OF kept_framed [OF k1(2,3)] kept_trans [OF k2(2) kept_trans [OF d k'(2)]]]] .
  moreover have "status (threads k' t) = Dead" using k'(1) dead2 by (auto simp: free_tls_slot_def Let_def split: if_splits)
  moreover have "Stop t k = Some k'" using t k1(1) lv k2(1) k'(1) by (simp add: Stop_def ReleaseThreadMutexes_def Let_def)
  ultimately show ?thesis by blast
qed

lemma kept_ExitCurrentThread:
  assumes inv: "kernel_inv k" and t: "current_thread (managers k c) = Some t" "status (threads k t) = Running"
  shows "\<exists>k'. ExitCurrentThread c k = Some k' \<and> kept k k' \<and> status (threads k' t) = Dead"
proof -
  obtain k1 where k1: "Stop t k = Some k1" "kept k k1" "status (threads k1 t) = Dead" using kept_Stop [OF inv t(2)] by blast
  have "kept k (upd_manager c (\<lambda>m. m\<lparr>thread_list := filter (\<lambda>x. x \<noteq> t) (thread_list m)\<rparr>) k1)"
    by (rule kept_trans [OF k1(2) kept_manager [OF keptD(1) [OF k1(2)]]]) simp_all
  then show ?thesis using t k1 by (simp add: ExitCurrentThread_def upd_manager_def)
qed

end
