(* ===== verification/Kernel_Sessions.thy ===== *)
theory Kernel_Sessions
  imports Kernel_Life
begin

text \<open>
  Creating kernel objects, and the operations of ports and sessions, keep the invariant of the kernel.
\<close>

lemma kept_fields:
  assumes inv: "kernel_inv k" and k': "k' = k\<lparr>next_object := n, client_ports := cp, client_sessions := cs, next_timer_callback_id := ti\<rparr>"
    and n: "next_object k \<le> n" and old: "\<forall>i < next_object k. cs i = client_sessions k i \<and> server_port (cp i) = server_port (client_ports k i)"
  shows "kept k k'"
proof -
  note K = kernel_invD [OF inv]
  have e: "threads k' = threads k" "wait_object k' = wait_object k" "arbiter_waiting k' = arbiter_waiting k" "managers k' = managers k"
    "timer_table k' = timer_table k" "tls_slots k' = tls_slots k" "cpu_process k' = cpu_process k" "k_timing k' = k_timing k"
    "current_cpu k' = current_cpu k" "next_object k' = n" "client_ports k' = cp" "client_sessions k' = cs" by (simp_all add: k')
  have kd: "kind k' = kind k" by (simp add: kind_def e fun_eq_iff)
  have "sched_inv k'" using K(1) by (subst sched_inv_cong [where k = k]) (simp_all add: e)
  moreover have "wait_inv k'" "cpu_inv k'" "arb_inv k'" "kind_inv k'" "owner_inv k'" "can_schedule k'"
    using K(2-4,6-8) by (simp_all add: wait_inv_def cpu_inv_def arb_inv_def arbiter_inv_def kind_inv_def owner_inv_def can_schedule_def e kd)
  moreover have "fresh_inv k'" using K(5) n unfolding fresh_inv_def e kd by (meson order_trans)
  moreover have "arb_listed k'" by (rule arb_listed_cong [OF K(10) e(1,3)])
  ultimately show ?thesis using n old by (simp add: kept_def kernel_inv_def kernel_base_def extends_def e kd)
qed

section \<open>References\<close>

text \<open>What a handle that refers to an object of a type can rely on.\<close>

fun valid_ref :: "Kernel \<Rightarrow> kobject \<Rightarrow> bool" where
  "valid_ref k (HT_ClientSession, i) \<longleftrightarrow> i < next_object k \<and> kind k (client_sessions k i) = HT_ServerSession"
| "valid_ref k (HT_ClientPort, i) \<longleftrightarrow> i < next_object k \<and> kind k (server_port (client_ports k i)) = HT_ServerPort"
| "valid_ref k (HT_AddressArbiter, i) \<longleftrightarrow> i < next_object k"
| "valid_ref k (ty, i) \<longleftrightarrow> IsWaitable ty \<longrightarrow> i < next_object k \<and> kind k i = ty"

lemma valid_ref_waitable: "IsWaitable ty \<Longrightarrow> valid_ref k (ty, i) \<longleftrightarrow> i < next_object k \<and> kind k i = ty"
  by (cases ty) simp_all

lemma kind_old: "kernel_inv k \<Longrightarrow> kind k w \<noteq> HT_Thread \<Longrightarrow> w < next_object k"
  using kernel_invD(5) [of k] unfolding fresh_inv_def by (meson leI)

lemma valid_ref_extends:
  assumes "kernel_inv k" "extends k k'" "valid_ref k x"
  shows "valid_ref k' x"
proof -
  have E: "next_object k \<le> next_object k'" "\<And>w. w < next_object k \<Longrightarrow> kind k' w = kind k w"
    "\<And>i. i < next_object k \<Longrightarrow> client_sessions k' i = client_sessions k i \<and> server_port (client_ports k' i) = server_port (client_ports k i)"
    using assms(2) by (auto simp: extends_def)
  obtain ty i where x: "x = (ty, i)" by (cases x)
  have old: "kind k' w = kind k w" if "kind k w \<in> {HT_ServerSession, HT_ServerPort}" for w using E(2) kind_old [OF assms(1), of w] that by auto
  show ?thesis using assms(3) E old unfolding x by (cases ty) (auto simp: less_le_trans)
qed

lemma valid_ref_kept: "kernel_inv k \<Longrightarrow> kept k k' \<Longrightarrow> valid_ref k x \<Longrightarrow> valid_ref k' x"
  by (rule valid_ref_extends) (simp_all add: keptD)

section \<open>New objects\<close>

lemma new_object_ref:
  assumes "kernel_inv k" "obj_ok k s"
  shows "kept k (snd (new_object s k))" "IsWaitable (GetHandleType s) \<Longrightarrow> valid_ref (snd (new_object s k)) (GetHandleType s, fst (new_object s k))"
  using kept_new_object [OF assms] by (simp_all add: valid_ref_waitable)

lemma kept_CreateEvent:
  assumes "kernel_inv k"
  shows "kept k (snd (CreateEvent ty k))" "valid_ref (snd (CreateEvent ty k)) (HT_Event, fst (CreateEvent ty k))"
  using new_object_ref [OF assms, of "O_Event \<lparr>ev_reset_type = ty, ev_signaled = False\<rparr>"] by (simp_all add: CreateEvent_def obj_ok_def)

lemma kept_CreateAddressArbiter:
  assumes "kernel_inv k"
  shows "kept k (snd (CreateAddressArbiter k))" "valid_ref (snd (CreateAddressArbiter k)) (HT_AddressArbiter, fst (CreateAddressArbiter k))"
proof -
  have "arbiter_waiting k (next_object k) = []" using kernel_invD(5) [OF assms] by (auto simp: fresh_inv_def)
  then have e: "CreateAddressArbiter k = (next_object k, k\<lparr>next_object := next_object k + 1\<rparr>)"
    by (simp add: CreateAddressArbiter_def set_waiting_def fun_upd_idem)
  show "kept k (snd (CreateAddressArbiter k))" unfolding e
    by (rule kept_fields [OF assms, where n = "next_object k + 1" and cp = "client_ports k" and cs = "client_sessions k"
          and ti = "next_timer_callback_id k"]) simp_all
  show "valid_ref (snd (CreateAddressArbiter k)) (HT_AddressArbiter, fst (CreateAddressArbiter k))" by (simp add: e)
qed

lemma kept_CreateSemaphore:
  assumes "kernel_inv k" "0 \<le> n" "m < 2 ^ 31"
  shows "kept k (snd (CreateSemaphore n m k))"
    "rv_object (fst (CreateSemaphore n m k)) = Some w \<Longrightarrow> valid_ref (snd (CreateSemaphore n m k)) (HT_Semaphore, w)"
proof -
  let ?s = "O_Semaphore \<lparr>max_count = m, available_count = n\<rparr>"
  have "n \<le> m \<Longrightarrow> obj_ok k ?s" using assms by (simp add: obj_ok_def)
  then show "kept k (snd (CreateSemaphore n m k))" "rv_object (fst (CreateSemaphore n m k)) = Some w \<Longrightarrow> valid_ref (snd (CreateSemaphore n m k)) (HT_Semaphore, w)"
    using new_object_ref [OF assms(1), of ?s] kept_refl [OF assms(1)]
    by (auto simp: CreateSemaphore_def ResultErr_def MakeResult_def split: prod.splits)
qed

lemma kept_CreateMutex:
  assumes "kernel_inv k" "current_thread (managers k (current_cpu k)) = Some t"
  shows "\<exists>w k'. CreateMutex b k = Some (w, k') \<and> kept k k' \<and> valid_ref k' (HT_Mutex, w)"
proof -
  let ?s = "O_Mutex \<lparr>lock_count = 0, mtx_priority = 0, holding_thread = None\<rparr>"
  obtain w k1 where n: "new_object ?s k = (w, k1)" by fastforce
  have k1: "kept k k1" "valid_ref k1 (HT_Mutex, w)" using new_object_ref [OF assms(1), of ?s] n by (simp_all add: obj_ok_def)
  have o: "obj (wait_object k1 w) = ?s" "managers k1 = managers k" "current_cpu k1 = current_cpu k" using n by (auto simp: new_object_def)
  show ?thesis
  proof (cases b)
    case False
    then show ?thesis using n k1 by (simp add: CreateMutex_def)
  next
    case True
    obtain k2 where k2: "Acquire w t k1 = Some k2" using o(1) by (simp add: Acquire_def Mutex_Acquire_def Mutex_ShouldWait_def)
    have "kept k1 k2" using kept_framed [OF kernel_inv_Acquire [OF keptD(1) [OF k1(1)] k2] framed_Acquire [OF k2]] .
    then show ?thesis using n k2 True assms(2) o kept_trans [OF k1(1)] valid_ref_kept [OF keptD(1) [OF k1(1)] _ k1(2)] by (simp add: CreateMutex_def)
  qed
qed

lemma kept_timer_table:
  assumes "kernel_inv k" "kind k w = HT_Timer"
  shows "kept k (k\<lparr>timer_table := (timer_table k)(n \<mapsto> w)\<rparr>)"
proof -
  note K = kernel_invD [OF assms(1)]
  let ?k = "k\<lparr>timer_table := (timer_table k)(n \<mapsto> w)\<rparr>"
  have kd: "kind ?k = kind k" by (simp add: kind_def fun_eq_iff)
  have "sched_inv ?k" using K(1) by (subst sched_inv_cong [where k = k]) simp_all
  moreover have "wait_inv ?k" "cpu_inv ?k" "arb_inv ?k" "fresh_inv ?k" "owner_inv ?k" "can_schedule ?k"
    using K(2-5,7,8) by (simp_all add: wait_inv_def cpu_inv_def arb_inv_def arbiter_inv_def fresh_inv_def owner_inv_def can_schedule_def kd)
  moreover have "kind_inv ?k" using K(6) assms(2) by (auto simp: kind_inv_def kd)
  moreover have "arb_listed ?k" by (rule arb_listed_cong [OF K(10)]) simp_all
  ultimately show ?thesis by (simp add: kept_def kernel_inv_def kernel_base_def)
qed

lemma kept_CreateTimer:
  assumes "kernel_inv k"
  shows "kept k (snd (CreateTimer ty k))" "valid_ref (snd (CreateTimer ty k)) (HT_Timer, fst (CreateTimer ty k))"
proof -
  let ?cb = "next_timer_callback_id k + 1"
  let ?k = "k\<lparr>next_timer_callback_id := ?cb\<rparr>"
  let ?s = "O_Timer \<lparr>tm_reset_type = ty, tm_signaled = False, initial_delay = 0, interval_delay = 0, callback_id = ?cb\<rparr>"
  have k1: "kept k ?k"
    by (rule kept_fields [OF assms, where n = "next_object k" and cp = "client_ports k" and cs = "client_sessions k" and ti = ?cb]) simp_all
  obtain w k2 where n: "new_object ?s ?k = (w, k2)" by fastforce
  have k2: "kept ?k k2" "valid_ref k2 (HT_Timer, w)" using new_object_ref [OF keptD(1) [OF k1], of ?s] n by (simp_all add: obj_ok_def)
  let ?k3 = "k2\<lparr>timer_table := (timer_table k2)(?cb \<mapsto> w)\<rparr>"
  have k3: "kept k2 ?k3" using k2 by (intro kept_timer_table keptD(1) [OF k2(1)]) simp
  have e: "CreateTimer ty k = (w, ?k3)" using n by (simp add: CreateTimer_def)
  show "kept k (snd (CreateTimer ty k))" unfolding e using kept_trans [OF kept_trans [OF k1 k2(1)] k3] by simp
  show "valid_ref (snd (CreateTimer ty k)) (HT_Timer, fst (CreateTimer ty k))" unfolding e
    using valid_ref_kept [OF keptD(1) [OF k2(1)] k3 k2(2)] by simp
qed

section \<open>Ports and sessions\<close>

lemma kept_CreatePortPair:
  assumes "kernel_inv k" "CreatePortPair m k = ((sv, cl), k')"
  shows "kept k k'" "valid_ref k' (HT_ServerPort, sv)" "valid_ref k' (HT_ClientPort, cl)"
proof -
  let ?s = "O_ServerPort \<lparr>pending_sessions = [], port_hle_handler = False\<rparr>"
  obtain w k1 where n: "new_object ?s k = (w, k1)" by fastforce
  have k1: "kept k k1" "valid_ref k1 (HT_ServerPort, w)" using new_object_ref [OF assms(1), of ?s] n by (simp_all add: obj_ok_def)
  let ?cp = "(client_ports k1)(next_object k1 := \<lparr>server_port = w, max_sessions = m, active_sessions = 0\<rparr>)"
  have e: "sv = w" "cl = next_object k1" "k' = k1\<lparr>next_object := next_object k1 + 1, client_ports := ?cp\<rparr>"
    using assms(2) n by (auto simp: CreatePortPair_def new_plain_object_def Let_def)
  have k2: "kept k1 k'"
    by (rule kept_fields [OF keptD(1) [OF k1(1)], where n = "next_object k1 + 1" and cp = ?cp and cs = "client_sessions k1"
          and ti = "next_timer_callback_id k1"]) (simp_all add: e)
  show "kept k k'" by (rule kept_trans [OF k1(1) k2])
  show v: "valid_ref k' (HT_ServerPort, sv)" using valid_ref_kept [OF keptD(1) [OF k1(1)] k2 k1(2)] by (simp only: e(1))
  show "valid_ref k' (HT_ClientPort, cl)" using v by (simp add: e)
qed

lemma kept_CreateSessionPair:
  assumes "kernel_inv k" "CreateSessionPair port k = ((sv, cl), k')"
  shows "kept k k'" "valid_ref k' (HT_ServerSession, sv)" "valid_ref k' (HT_ClientSession, cl)"
    "\<exists>s. obj (wait_object k' sv) = O_ServerSession s"
proof -
  let ?s = "O_ServerSession \<lparr>parent_client = True, parent_server = True, parent_port = port, hle_handler = False,
    pending_requesting_threads = [], currently_handling = None\<rparr>"
  obtain w k1 where n: "new_object ?s k = (w, k1)" by fastforce
  have k1: "kept k k1" "valid_ref k1 (HT_ServerSession, w)" using new_object_ref [OF assms(1), of ?s] n by (simp_all add: obj_ok_def)
  let ?cs = "(client_sessions k1)(next_object k1 := w)"
  have e: "sv = w" "cl = next_object k1" "k' = k1\<lparr>next_object := next_object k1 + 1, client_sessions := ?cs\<rparr>"
    using assms(2) n by (auto simp: CreateSessionPair_def new_plain_object_def Let_def)
  have k2: "kept k1 k'"
    by (rule kept_fields [OF keptD(1) [OF k1(1)], where n = "next_object k1 + 1" and cp = "client_ports k1" and cs = ?cs
          and ti = "next_timer_callback_id k1"]) (simp_all add: e)
  show "kept k k'" by (rule kept_trans [OF k1(1) k2])
  show v: "valid_ref k' (HT_ServerSession, sv)" using valid_ref_kept [OF keptD(1) [OF k1(1)] k2 k1(2)] by (simp only: e(1))
  show "valid_ref k' (HT_ClientSession, cl)" using v by (simp add: e)
  show "\<exists>s. obj (wait_object k' sv) = O_ServerSession s" using n by (auto simp: e new_object_def)
qed

lemma kept_Connect:
  assumes inv: "kernel_inv k" and cp: "valid_ref k (HT_ClientPort, cp)"
  shows "\<exists>r k'. Connect cp k = Some (r, k') \<and> kept k k' \<and> (\<forall>c. rv_object r = Some c \<longrightarrow> valid_ref k' (HT_ClientSession, c))"
proof (cases "active_sessions (client_ports k cp) \<ge> max_sessions (client_ports k cp)")
  case True
  then show ?thesis using kept_refl [OF inv] by (simp add: Connect_def ResultErr_def)
next
  case False
  let ?cps = "(client_ports k)(cp := (client_ports k cp)\<lparr>active_sessions := active_sessions (client_ports k cp) + 1\<rparr>)"
  let ?k = "upd_client_port cp (\<lambda>p. p\<lparr>active_sessions := active_sessions p + 1\<rparr>) k"
  have k1: "kept k ?k"
    by (rule kept_fields [OF inv, where n = "next_object k" and cp = ?cps and cs = "client_sessions k" and ti = "next_timer_callback_id k"])
       (simp_all add: upd_client_port_def)
  obtain sv cl k2 where s: "CreateSessionPair (Some cp) ?k = ((sv, cl), k2)" by (metis prod.collapse)
  note S = kept_CreateSessionPair [OF keptD(1) [OF k1] s]
  have k02: "kept k k2" by (rule kept_trans [OF k1 S(1)])
  have "kind k2 (server_port (client_ports k2 cp)) = HT_ServerPort" using valid_ref_kept [OF inv k02 cp] by simp
  then obtain p where p: "obj (wait_object k2 (server_port (client_ports k2 cp))) = O_ServerPort p"
    by (cases "obj (wait_object k2 (server_port (client_ports k2 cp)))") (simp_all add: kind_def)
  let ?sp = "server_port (client_ports k2 cp)"
  obtain ss where ss: "obj (wait_object k2 sv) = O_ServerSession ss" using S(4) by blast
  have ks: "kind k2 sv = HT_ServerSession" using ss by (simp add: kind_def)
  let ?k3 = "if port_hle_handler p then set_obj sv (O_ServerSession (ss\<lparr>hle_handler := True\<rparr>)) k2
    else set_obj ?sp (O_ServerPort (p\<lparr>pending_sessions := pending_sessions p @ [sv]\<rparr>)) k2"
  have pend: "\<forall>x \<in> set (pending_sessions p). kind k2 x = HT_ServerSession" using kernel_invD(6) [OF keptD(1) [OF k02]] p unfolding kind_inv_def by blast
  have "kept k2 (set_obj sv (O_ServerSession (ss\<lparr>hle_handler := True\<rparr>)) k2)" using ks by (intro kept_replace keptD(1) [OF k02]) (simp_all add: obj_ok_def)
  moreover have "kept k2 (set_obj ?sp (O_ServerPort (p\<lparr>pending_sessions := pending_sessions p @ [sv]\<rparr>)) k2)"
    using p pend ks by (intro kept_replace keptD(1) [OF k02]) (simp_all add: obj_ok_def kind_def)
  ultimately have k3: "kept k2 ?k3" by simp
  obtain k4 where k4: "WakeupAllWaitingThreads ?sp ?k3 = Some k4" "kept ?k3 k4" using kept_WakeupAll [OF keptD(1) [OF k3]] by blast
  have run: "Connect cp k = Some (MakeResult cl, k4)" using False s p ss k4(1) by (auto simp: Connect_def set_hle_handler_def Let_def)
  have "kept k2 k4" by (rule kept_trans [OF k3 k4(2)])
  then show ?thesis using run kept_trans [OF k02] valid_ref_kept [OF keptD(1) [OF k02] _ S(3)] by (simp add: MakeResult_def)
qed

lemma kept_Accept:
  assumes inv: "kernel_inv k" and p: "obj (wait_object k sp) = O_ServerPort p"
  shows "kept k (snd (Accept sp p k))" "rv_object (fst (Accept sp p k)) = Some c \<Longrightarrow> valid_ref (snd (Accept sp p k)) (HT_ServerSession, c)"
proof -
  have pend: "\<forall>x \<in> set (pending_sessions p). kind k x = HT_ServerSession" using kernel_invD(6) [OF inv] p unfolding kind_inv_def by blast
  then have "\<forall>x \<in> set (butlast (pending_sessions p)). kind k x = HT_ServerSession" by (meson in_set_butlastD)
  then have "kept k (set_obj sp (O_ServerPort (p\<lparr>pending_sessions := butlast (pending_sessions p)\<rparr>)) k)"
    using p by (intro kept_replace inv) (simp_all add: obj_ok_def kind_def)
  then show 1: "kept k (snd (Accept sp p k))" using kept_refl [OF inv] by (simp add: Accept_def)
  assume c: "rv_object (fst (Accept sp p k)) = Some c"
  then have "c \<in> set (pending_sessions p)" by (auto simp: Accept_def ResultErr_def MakeResult_def split: if_splits)
  then have "kind k c = HT_ServerSession" using pend by blast
  then have "valid_ref k (HT_ServerSession, c)" using kind_old [OF inv, of c] by simp
  then show "valid_ref (snd (Accept sp p k)) (HT_ServerSession, c)" by (rule valid_ref_kept [OF inv 1])
qed

text \<open>
  What is relied on of the handler of a request: it returns, keeps the invariant and leaves the requesting thread running
  or asleep for an HLE event, as \<^verbatim>\<open>HandleSyncRequest\<close> asserts.
\<close>

definition hle_contract :: "(oid \<Rightarrow> oid \<Rightarrow> Kernel \<Rightarrow> Kernel run) \<Rightarrow> bool" where
  "hle_contract hle \<longleftrightarrow> (\<forall>w t k. kernel_inv k \<longrightarrow> status (threads k t) = Running \<longrightarrow> kind k w = HT_ServerSession \<longrightarrow>
     (\<exists>k'. hle w t k = Some k' \<and> kept k k' \<and> status (threads k' t) \<in> {Running, WaitHleEvent}))"

lemma session_state: "kind k w = HT_ServerSession \<Longrightarrow> \<exists>s. obj (wait_object k w) = O_ServerSession s"
  by (cases "obj (wait_object k w)") (simp_all add: kind_def)

lemma kept_request_sleep:
  assumes inv: "kernel_inv k" and t: "status (threads k t) = Running" and w: "kind k w = HT_ServerSession"
  shows "\<exists>k'. (let k = upd_thread t (\<lambda>x. x\<lparr>status := WaitIPC\<rparr>) k
      in case obj (wait_object k w) of
           O_ServerSession s \<Rightarrow>
             if hle_handler s then WakeAfterDelay t IPCDelayNanoseconds k
             else Some (set_obj w (O_ServerSession (s\<lparr>pending_requesting_threads := pending_requesting_threads s @ [t]\<rparr>)) k)
         | _ \<Rightarrow> None) = Some k' \<and> kept k k'"
proof -
  let ?k = "upd_thread t (\<lambda>x. x\<lparr>status := WaitIPC\<rparr>) k"
  have "kernel_inv ?k" by (rule kernel_inv_park [OF inv t]) simp_all
  then have k1: "kept k ?k" by (simp add: kept_def)
  obtain s where s: "obj (wait_object ?k w) = O_ServerSession s" using session_state [OF w] by auto
  obtain k2 where k2: "WakeAfterDelay t IPCDelayNanoseconds ?k = Some k2" "kept ?k k2" using kept_WakeAfterDelay [OF keptD(1) [OF k1]] by blast
  have "kept ?k (set_obj w (O_ServerSession (s\<lparr>pending_requesting_threads := pending_requesting_threads s @ [t]\<rparr>)) ?k)"
    using s by (intro kept_replace keptD(1) [OF k1]) (simp_all add: obj_ok_def kind_def)
  with k2 s show ?thesis using kept_trans [OF k1] by (cases "hle_handler s") (auto simp: Let_def)
qed

lemma kept_HandleSyncRequest:
  assumes hle: "hle_contract hle" and inv: "kernel_inv k" and t: "status (threads k t) = Running" and w: "kind k w = HT_ServerSession"
  shows "\<exists>r k'. HandleSyncRequest hle w t k = Some (r, k') \<and> kept k k'"
proof -
  obtain s where s: "obj (wait_object k w) = O_ServerSession s" using session_state [OF w] by blast
  obtain k1 where k1: "(if hle_handler s then do {
                  k \<leftarrow> hle w t k;
                  ASSERT (status (threads k t) = Running \<or> status (threads k t) = WaitHleEvent);
                  Some k }
                else Some k) = Some k1" "kept k k1"
    using hle inv t w kept_refl [OF inv] unfolding hle_contract_def by (cases "hle_handler s") fastforce+
  have w1: "kind k1 w = HT_ServerSession" using valid_ref_kept [OF inv k1(2), of "(HT_ServerSession, w)"] w kind_old [OF inv, of w] by simp
  obtain k2 where k2: "(if status (threads k1 t) = Running then
                  (let k = upd_thread t (\<lambda>x. x\<lparr>status := WaitIPC\<rparr>) k1
                   in case obj (wait_object k w) of
                        O_ServerSession s \<Rightarrow>
                          if hle_handler s then WakeAfterDelay t IPCDelayNanoseconds k
                          else Some (set_obj w (O_ServerSession (s\<lparr>pending_requesting_threads := pending_requesting_threads s @ [t]\<rparr>)) k)
                      | _ \<Rightarrow> None)
                else Some k1) = Some k2" "kept k1 k2"
    using kept_request_sleep [OF keptD(1) [OF k1(2)] _ w1, of t] kept_refl [OF keptD(1) [OF k1(2)]] by (cases "status (threads k1 t) = Running") auto
  obtain k3 where k3: "WakeupAllWaitingThreads w k2 = Some k3" "kept k2 k3" using kept_WakeupAll [OF keptD(1) [OF k2(2)]] by blast
  have "HandleSyncRequest hle w t k = Some (RESULT_SUCCESS, k3)" unfolding HandleSyncRequest_def s object_state.case k1(1) bind.bind_lunit k2(1) k3(1) ..
  then show ?thesis using kept_trans [OF k1(2) kept_trans [OF k2(2) k3(2)]] by blast
qed

lemma kept_SendSyncRequest:
  assumes hle: "hle_contract hle" and inv: "kernel_inv k" and t: "status (threads k t) = Running" and cs: "valid_ref k (HT_ClientSession, cs)"
  shows "\<exists>r k'. SendSyncRequest hle cs t k = Some (r, k') \<and> kept k k'"
proof -
  obtain s where s: "obj (wait_object k (client_sessions k cs)) = O_ServerSession s" using session_state cs by auto
  show ?thesis using kept_HandleSyncRequest [OF hle inv t, of "client_sessions k cs"] cs s kept_refl [OF inv]
    by (cases "parent_server s") (auto simp: SendSyncRequest_def Let_def)
qed

end
