(* ===== verification/System_Inv.thy ===== *)
theory System_Inv
  imports Kernel_Sessions
begin

text \<open>
  The invariant of the whole system: that of the kernel, and handle tables whose objects exist and have the type the
  handle promises. Every system call made by a running thread returns, without failing an assertion of the kernel, in a
  state with the invariant.
\<close>

section \<open>Invariant\<close>

definition table_ok :: "Kernel \<Rightarrow> kobject HandleTable \<Rightarrow> bool" where
  "table_ok k t \<longleftrightarrow> ht_inv t \<and> (\<forall>x. Some x \<in> set (objects t) \<longrightarrow> valid_ref k x)"

definition sys_inv :: "System \<Rightarrow> bool" where
  "sys_inv s \<longleftrightarrow> kernel_inv (kernel s) \<and> (\<forall>p. table_ok (kernel s) (handle_table (processes s p)))"

definition runs :: "System \<Rightarrow> oid \<Rightarrow> bool" where
  "runs s t \<longleftrightarrow> GetCurrentThread s = Some t \<and> status (threads (kernel s) t) = Running"

text \<open>A call that returns in a state with the invariant.\<close>

definition fine :: "('a \<times> System) run \<Rightarrow> bool" where
  "fine r \<longleftrightarrow> (\<exists>x s'. r = Some (x, s') \<and> sys_inv s')"

lemma fineI [intro]: "sys_inv s' \<Longrightarrow> fine (Some (x, s'))"
  by (auto simp: fine_def)

lemma table_ok_Create: "table_ok k t \<Longrightarrow> valid_ref k x \<Longrightarrow> table_ok k (snd (Create x t))"
  unfolding table_ok_def
  using ht.create_inv [of t x] by (auto simp: Create_def Let_def dest!: set_update_subset_insert [THEN subsetD])

lemma table_ok_Close: "table_ok k t \<Longrightarrow> table_ok k (snd (Close h t))"
  unfolding table_ok_def
  using ht.close_inv [of t h] by (auto simp: Close_def Let_def dest!: set_update_subset_insert [THEN subsetD])

lemma table_ok_kept: "kernel_inv k \<Longrightarrow> kept k k' \<Longrightarrow> table_ok k t \<Longrightarrow> table_ok k' t"
  using valid_ref_kept by (auto simp: table_ok_def)

lemma sys_invD: "sys_inv s \<Longrightarrow> kernel_inv (kernel s)" "sys_inv s \<Longrightarrow> table_ok (kernel s) (handle_table (processes s p))"
  by (simp_all add: sys_inv_def)

lemma kernel_set_kernel [simp]: "kernel (set_kernel k s) = k" "processes (set_kernel k s) = processes s" "limits (set_kernel k s) = limits s"
  by (simp_all add: set_kernel_def)

lemma sys_inv_set_kernel: "sys_inv s \<Longrightarrow> kept (kernel s) k \<Longrightarrow> sys_inv (set_kernel k s)"
  using table_ok_kept [OF sys_invD(1)] keptD(1) by (auto simp: sys_inv_def)

lemma sys_inv_upd_table: "sys_inv s \<Longrightarrow> table_ok (kernel s) t \<Longrightarrow> sys_inv (upd_table p t s)"
  by (simp add: sys_inv_def upd_table_def)

section \<open>Handles\<close>

lemma running_process:
  assumes "sys_inv s" "runs s t"
  shows "GetCurrentProcess s = Some (owner_process (threads (kernel s) t))"
  using kernel_invD(7) [OF sys_invD(1) [OF assms(1)]] assms(2) by (auto simp: owner_inv_def runs_def GetCurrentProcess_def GetCurrentThread_def)

lemma running_valid:
  assumes "sys_inv s" "runs s t"
  shows "valid_ref (kernel s) (HT_Thread, t)"
proof -
  note K = kernel_invD [OF sys_invD(1) [OF assms(1)]]
  have r: "status (threads (kernel s) t) = Running" using assms(2) by (simp add: runs_def)
  have "t < next_object (kernel s)"
  proof (rule ccontr)
    assume "\<not> t < next_object (kernel s)"
    then have "status (threads (kernel s) t) = Dormant" using K(5) unfolding fresh_inv_def by (meson leI)
    then show False using r by simp
  qed
  moreover have "kind (kernel s) t = HT_Thread" using K(6) r unfolding kind_inv_def by simp
  ultimately show ?thesis by simp
qed

lemma GetGeneric_valid:
  assumes "table_ok k t" "GetGeneric ct cp t h = Some x" "\<forall>y. ct = Some y \<longrightarrow> valid_ref k y" "\<forall>y. cp = Some y \<longrightarrow> valid_ref k y"
  shows "valid_ref k x"
proof (cases "h = CurrentThread \<or> h = CurrentProcess")
  case True
  then have "ct = Some x \<or> cp = Some x" using assms(2) by (auto simp: GetGeneric_def split: if_splits)
  then show ?thesis using assms(3,4) by blast
next
  case False
  then have "IsValid t h" "objects t ! unat (GetSlot h) = Some x" using assms(2) by (auto simp: GetGeneric_def split: if_splits)
  moreover have "length (objects t) = MAX_COUNT" using assms(1) by (simp add: table_ok_def ht_inv_def)
  ultimately have "Some x \<in> set (objects t)" by (metis IsValid_def nth_mem)
  then show ?thesis using assms(1) unfolding table_ok_def by blast
qed

lemma lookup_valid:
  assumes "sys_inv s" "runs s t"
  shows "\<exists>r. lookup h s = Some r \<and> (\<forall>x. r = Some x \<longrightarrow> valid_ref (kernel s) x)"
proof -
  let ?p = "owner_process (threads (kernel s) t)"
  have T: "table_ok (kernel s) (handle_table (processes s ?p))" using sys_invD(2) [OF assms(1)] .
  have "\<forall>x. GetGeneric (map_option (Pair HT_Thread) (GetCurrentThread s)) (Some (HT_Process, ?p)) (handle_table (processes s ?p)) h = Some x
      \<longrightarrow> valid_ref (kernel s) x"
    using GetGeneric_valid [OF T] running_valid [OF assms] assms(2) by (auto simp: runs_def)
  then show ?thesis using running_process [OF assms] by (simp add: lookup_def)
qed

lemma Get_valid:
  assumes "sys_inv s" "runs s t"
  shows "\<exists>r. Get ty h s = Some r \<and> (\<forall>i. r = Some i \<longrightarrow> valid_ref (kernel s) (ty, i))"
proof -
  obtain r where r: "lookup h s = Some r" "\<forall>x. r = Some x \<longrightarrow> valid_ref (kernel s) x" using lookup_valid [OF assms] by blast
  then have "\<forall>i. DynamicObjectCast ty r = Some i \<longrightarrow> valid_ref (kernel s) (ty, i)" by (auto simp: DynamicObjectCast_def split: option.splits if_splits)
  then show ?thesis using r(1) by (simp add: Get_def)
qed

lemma Get_WaitObject_valid:
  assumes "sys_inv s" "runs s t"
  shows "\<exists>r. Get_WaitObject h s = Some r \<and> (\<forall>w. r = Some w \<longrightarrow> w < next_object (kernel s))"
proof -
  obtain r where r: "lookup h s = Some r" "\<forall>x. r = Some x \<longrightarrow> valid_ref (kernel s) x" using lookup_valid [OF assms] by blast
  then show ?thesis by (auto simp: Get_WaitObject_def DynamicObjectCast_WaitObject_def valid_ref_waitable split: option.splits if_splits)
qed

lemma fine_create_handle:
  assumes "sys_inv s" "GetCurrentProcess s = Some p" "valid_ref (kernel s) x"
  shows "\<exists>h s'. create_handle x s = Some (h, s') \<and> sys_inv s' \<and> kernel s' = kernel s \<and> GetCurrentProcess s' = Some p"
proof -
  let ?t = "handle_table (processes s p)"
  have "sys_inv (upd_table p (snd (Create x ?t)) s)" by (rule sys_inv_upd_table [OF assms(1) table_ok_Create [OF sys_invD(2) [OF assms(1)] assms(3)]])
  then show ?thesis using assms(2) by (simp add: create_handle_def case_prod_beta upd_table_def GetCurrentProcess_def)
qed

lemma fine_create:
  assumes "sys_inv s" "runs s t" "kept (kernel s) k" "valid_ref k x"
  shows "fine (create_handle x (set_kernel k s))"
proof -
  have "GetCurrentProcess (set_kernel k s) = GetCurrentProcess s" using keptD(2) [OF assms(3)] by (simp add: GetCurrentProcess_def extends_def)
  then have "GetCurrentProcess (set_kernel k s) = Some (owner_process (threads (kernel s) t))" using running_process [OF assms(1,2)] by simp
  from fine_create_handle [OF sys_inv_set_kernel [OF assms(1,3)] this, of x] assms(4) show ?thesis unfolding fine_def by auto
qed

section \<open>System calls return\<close>

lemma fine_CloseHandle:
  assumes "sys_inv s" "runs s t"
  shows "fine (SVC_CloseHandle h s)"
  using running_process [OF assms] sys_inv_upd_table [OF assms(1) table_ok_Close [OF sys_invD(2) [OF assms(1)]]]
  by (simp add: SVC_CloseHandle_def case_prod_beta fineI)

lemma fine_DuplicateHandle:
  assumes "sys_inv s" "runs s t"
  shows "fine (SVC_DuplicateHandle h s)"
proof -
  let ?p = "owner_process (threads (kernel s) t)" and ?ct = "map_option (Pair HT_Thread) (GetCurrentThread s)"
  have T: "table_ok (kernel s) (handle_table (processes s ?p))" using sys_invD(2) [OF assms(1)] .
  have "table_ok (kernel s) (snd (Duplicate ?ct (Some (HT_Process, ?p)) h (handle_table (processes s ?p))))"
    using T table_ok_Create [OF T] GetGeneric_valid [OF T, of ?ct "Some (HT_Process, ?p)" h] running_valid [OF assms] assms(2)
    by (auto simp: Duplicate_def runs_def split: option.splits)
  then show ?thesis using running_process [OF assms] sys_inv_upd_table [OF assms(1)]
    by (simp add: SVC_DuplicateHandle_def case_prod_beta fineI)
qed

lemma kept_Acquire:
  assumes "kernel_inv k" "\<not> ShouldWait k w t"
  shows "\<exists>k'. Acquire w t k = Some k' \<and> kept k k'"
proof -
  obtain k' where k': "Acquire w t k = Some k'" using Acquire_succeeds [OF assms(2)] by blast
  then show ?thesis using kept_framed [OF kernel_inv_Acquire [OF assms(1) k'] framed_Acquire [OF k']] by blast
qed

lemma kept_acquire_all:
  assumes "kernel_inv k" "distinct ws" "\<forall>w \<in> set ws. \<not> ShouldWait k w t"
  shows "\<exists>k'. acquire_all ws t k = Some k' \<and> kept k k'"
proof -
  obtain k' where k': "acquire_all ws t k = Some k'" using acquire_all_succeeds [OF assms(2,3)] by blast
  then show ?thesis using kept_framed [OF kernel_inv_acquire_all [OF assms(1) k'] framed_acquire_all [OF k']] by blast
qed

lemma runsD: "runs s t \<Longrightarrow> GetCurrentThread s = Some t" "runs s t \<Longrightarrow> status (threads (kernel s) t) = Running"
  "runs s t \<Longrightarrow> current_thread (managers (kernel s) (current_cpu (kernel s))) = Some t"
  by (simp_all add: runs_def GetCurrentThread_def)

lemma fine_kernel: "sys_inv s \<Longrightarrow> kept (kernel s) k \<Longrightarrow> fine (Some (x, set_kernel k s))"
  by (intro fineI sys_inv_set_kernel)

lemma fine_WaitSynchronization1:
  assumes "sys_inv s" "runs s t"
  shows "fine (SVC_WaitSynchronization1 h ns s)"
proof -
  note K = sys_invD(1) [OF assms(1)] and T = runsD [OF assms(2)]
  obtain r where r: "Get_WaitObject h s = Some r" "\<forall>w. r = Some w \<longrightarrow> w < next_object (kernel s)" using Get_WaitObject_valid [OF assms] by blast
  show ?thesis
  proof (cases r)
    case None
    then show ?thesis using r(1) assms(1) by (simp add: SVC_WaitSynchronization1_def fineI)
  next
    case (Some w)
    then have w: "w < next_object (kernel s)" using r(2) by blast
    consider "\<not> ShouldWait (kernel s) w t" | "ShouldWait (kernel s) w t" "ns = 0" | "ShouldWait (kernel s) w t" "ns \<noteq> 0" by blast
    then show ?thesis
    proof cases
      case 1
      obtain k' where "Acquire w t (kernel s) = Some k'" "kept (kernel s) k'" using kept_Acquire [OF K 1] by blast
      then show ?thesis using r(1) Some T 1 fine_kernel [OF assms(1)] by (simp add: SVC_WaitSynchronization1_def Let_def)
    next
      case 2
      then show ?thesis using r(1) Some T assms(1) by (simp add: SVC_WaitSynchronization1_def Let_def fineI)
    next
      case 3
      note W = kept_waiting_for [OF K T(2) w]
      obtain k2 where "WakeAfterDelay t ns (waiting_for w t (kernel s)) = Some k2"
        "kept (kernel s) (PrepareReschedule (upd_thread t (\<lambda>x. x\<lparr>wakeup_callback := Some (SVC_SyncCallback False)\<rparr>) k2))"
        using kept_asleep [OF W(1) keptD(1) [OF W(1)], of t ns False] W(2) by auto
      then show ?thesis using r(1) Some T 3 fine_kernel [OF assms(1)]
        by (simp add: SVC_WaitSynchronization1_def Let_def waiting_for_def)
    qed
  qed
qed

lemma read_objects_valid:
  assumes "sys_inv s" "runs s t"
  shows "\<exists>r. read_objects a n s = Some r \<and> (\<forall>ws. r = Some ws \<longrightarrow> (\<forall>w \<in> set ws. w < next_object (kernel s)))"
proof (induction n arbitrary: a)
  case (Suc n)
  obtain r where r: "Get_WaitObject (load32 a (kernel s)) s = Some r" "\<forall>w. r = Some w \<longrightarrow> w < next_object (kernel s)"
    using Get_WaitObject_valid [OF assms] by blast
  obtain rs where rs: "read_objects (add32 a 4) n s = Some rs" "\<forall>ws. rs = Some ws \<longrightarrow> (\<forall>w \<in> set ws. w < next_object (kernel s))"
    using Suc.IH by blast
  show ?case using r rs by (cases r; cases rs) auto
qed simp

lemma find_available_None: "find_available k t ws = None \<longleftrightarrow> (\<forall>w \<in> set ws. ShouldWait k w t)"
  by (induction ws) auto

lemma find_available_Some: "find_available k t ws = Some (i, w) \<Longrightarrow> i < length ws \<and> w = ws ! i \<and> \<not> ShouldWait k w t \<and> (\<forall>j < i. ShouldWait k (ws ! j) t)"
  by (induction ws arbitrary: i) (auto split: if_splits simp: less_Suc_eq_0_disj)

lemma fine_WaitSynchronizationN:
  assumes "sys_inv s" "runs s t" and d: "wait_all \<longrightarrow> (\<forall>ws. read_objects a (nat n) s = Some (Some ws) \<longrightarrow> distinct ws)"
  shows "\<exists>r out s'. SVC_WaitSynchronizationN va a n wait_all ns s = Some (r, out, s') \<and> sys_inv s'"
proof -
  note K = sys_invD(1) [OF assms(1)] and T = runsD [OF assms(2)]
  obtain r where r: "read_objects a (nat n) s = Some r" "\<forall>ws. r = Some ws \<longrightarrow> (\<forall>w \<in> set ws. w < next_object (kernel s))"
    using read_objects_valid [OF assms(1,2)] by blast
  show ?thesis
  proof (cases "va \<and> 0 \<le> n \<and> r \<noteq> None")
    case False
    then show ?thesis using r(1) assms(1) by (auto simp: SVC_WaitSynchronizationN_def)
  next
    case True
    then obtain ws where ws: "r = Some ws" "va" "\<not> n < 0" by auto
    have w: "\<forall>w \<in> set ws. w < next_object (kernel s)" using r(2) ws by blast
    note run = SVC_WaitSynchronizationN_def [of va a n wait_all ns s]
    show ?thesis
    proof (cases wait_all)
      case True
      have d: "distinct ws" using d True r(1) ws(1) by blast
      consider "list_all (\<lambda>w. \<not> ShouldWait (kernel s) w t) ws" | "\<not> list_all (\<lambda>w. \<not> ShouldWait (kernel s) w t) ws" "ns = 0"
        | "\<not> list_all (\<lambda>w. \<not> ShouldWait (kernel s) w t) ws" "ns \<noteq> 0" by blast
      then show ?thesis
      proof cases
        case 1
        then obtain k' where "acquire_all ws t (kernel s) = Some k'" "kept (kernel s) k'"
          using kept_acquire_all [OF K d] by (auto simp: list_all_iff)
        then show ?thesis using run r(1) ws True T(1) 1 sys_inv_set_kernel [OF assms(1)] by (simp add: Let_def)
      next
        case 2
        then show ?thesis using run r(1) ws True T(1) assms(1) by (simp add: Let_def)
      next
        case 3
        obtain k' where "sleep_on WaitSynchAll False ws t ns (kernel s) = Some k'" "kept (kernel s) k'"
          using kept_sleep_on [OF K T(2) _ w, of WaitSynchAll False ns] d by blast
        then show ?thesis using run r(1) ws True T(1) 3 sys_inv_set_kernel [OF assms(1)] by (simp add: Let_def)
      qed
    next
      case False
      show ?thesis
      proof (cases "find_available (kernel s) t ws")
        case (Some iw)
        obtain i v where v: "iw = (i, v)" by (cases iw)
        then have "\<not> ShouldWait (kernel s) v t" using find_available_Some Some by blast
        then obtain k' where "Acquire v t (kernel s) = Some k'" "kept (kernel s) k'" using kept_Acquire [OF K] by blast
        then show ?thesis using run r(1) ws False T(1) Some v sys_inv_set_kernel [OF assms(1)] by (simp add: Let_def)
      next
        case None
        obtain k' where "sleep_on WaitSynchAny True ws t ns (kernel s) = Some k'" "kept (kernel s) k'"
          using kept_sleep_on [OF K T(2) _ w, of WaitSynchAny True ns] by blast
        then show ?thesis using run r(1) ws False T(1) None assms(1) sys_inv_set_kernel [OF assms(1)] by (cases "ns = 0") (simp_all add: Let_def)
      qed
    qed
  qed
qed

text \<open>The calls on the object of a handle.\<close>

lemma fine_Get:
  assumes "sys_inv s" "runs s t" "fine (f None)" "\<And>i. valid_ref (kernel s) (ty, i) \<Longrightarrow> fine (f (Some i))"
  shows "fine (Get ty h s \<bind> f)"
proof -
  obtain r where r: "Get ty h s = Some r" "\<forall>i. r = Some i \<longrightarrow> valid_ref (kernel s) (ty, i)" using Get_valid [OF assms(1,2)] by blast
  then show ?thesis using assms(3,4) by (cases r) auto
qed

lemma object_state_of_kind:
  "kind k w = HT_Event \<Longrightarrow> \<exists>e. obj (wait_object k w) = O_Event e" "kind k w = HT_Mutex \<Longrightarrow> \<exists>x. obj (wait_object k w) = O_Mutex x"
  "kind k w = HT_Semaphore \<Longrightarrow> \<exists>y. obj (wait_object k w) = O_Semaphore y" "kind k w = HT_Timer \<Longrightarrow> \<exists>z. obj (wait_object k w) = O_Timer z"
  "kind k w = HT_ServerPort \<Longrightarrow> \<exists>p. obj (wait_object k w) = O_ServerPort p"
  by (cases "obj (wait_object k w)"; simp add: kind_def)+

lemma fine_ArbitrateAddress:
  assumes "sys_inv s" "runs s t" and dec: "decrementing (ArbitrationType_of ty) \<longrightarrow> - (2 ^ 31) < Read32 a (kernel s)"
  shows "fine (SVC_ArbitrateAddress h a ty v ns s)"
  unfolding SVC_ArbitrateAddress_def
proof (rule fine_Get [OF assms(1,2)])
  fix i assume i: "valid_ref (kernel s) (HT_AddressArbiter, i)"
  note K = sys_invD(1) [OF assms(1)] and T = runsD [OF assms(2)]
  obtain r k' where k': "ArbitrateAddress i t (ArbitrationType_of ty) a (sint v) (to_u64 ns) (kernel s) = Some (r, k')" "kept (kernel s) k'"
    using kept_ArbitrateAddress [OF K T(2) _ dec, of i "sint v" "to_u64 ns"] i by auto
  have "kept (kernel s) (PrepareReschedule k')" by (rule kept_trans [OF k'(2) kept_PrepareReschedule [OF keptD(1) [OF k'(2)]]])
  then show "fine (case Some i of None \<Rightarrow> Some (ERR_INVALID_HANDLE, s) | Some x \<Rightarrow> do {
      t \<leftarrow> GetCurrentThread s;
      (r, k) \<leftarrow> ArbitrateAddress x t (ArbitrationType_of ty) a (sint v) (to_u64 ns) (kernel s);
      Some (r, set_kernel (PrepareReschedule k) s) })"
    using k'(1) T(1) fine_kernel [OF assms(1)] by simp
qed (simp add: assms(1) fineI)

lemma fine_ReleaseMutex:
  assumes "sys_inv s" "runs s t"
  shows "fine (SVC_ReleaseMutex h s)"
  unfolding SVC_ReleaseMutex_def
proof (rule fine_Get [OF assms], goal_cases)
  case (2 w)
  then obtain mx where mx: "obj (wait_object (kernel s) w) = O_Mutex mx" using object_state_of_kind(2) [of "kernel s" w] by auto
  obtain r k' where "Mutex_Release w mx t (kernel s) = Some (r, k')" "kernel_inv k'" "framed (kernel s) k'"
    using kernel_inv_Mutex_Release [OF sys_invD(1) [OF assms(1)] mx] by blast
  then show ?case using mx runsD(1) [OF assms(2)] fine_kernel [OF assms(1) kept_framed] by simp
qed (simp add: assms(1) fineI)

lemma fine_ReleaseSemaphore:
  assumes "sys_inv s" "runs s t" and n: "0 \<le> n" "n < 2 ^ 31"
  shows "fine (SVC_ReleaseSemaphore h n s)"
  unfolding SVC_ReleaseSemaphore_def
proof (rule fine_Get [OF assms(1,2)], goal_cases)
  case (2 w)
  then obtain x where x: "obj (wait_object (kernel s) w) = O_Semaphore x" using object_state_of_kind(3) [of "kernel s" w] by auto
  obtain r k' where k': "Semaphore_Release w x n (kernel s) = Some (r, k')" "kernel_inv k'" "rest k' = rest (kernel s)" "kind k' = kind (kernel s)"
    using kernel_inv_Semaphore_Release [OF sys_invD(1) [OF assms(1)] x n] by blast
  have "kept (kernel s) k'" using k'(2) extends_rest [OF k'(3,4)] by (simp add: kept_def)
  then show ?case using x k'(1) fine_kernel [OF assms(1)] by simp
qed (simp add: assms(1) fineI)

lemma fine_SignalEvent:
  assumes "sys_inv s" "runs s t"
  shows "fine (SVC_SignalEvent h s)"
  unfolding SVC_SignalEvent_def
proof (rule fine_Get [OF assms], goal_cases)
  case (2 w)
  then obtain e where e: "obj (wait_object (kernel s) w) = O_Event e" using object_state_of_kind(1) [of "kernel s" w] by auto
  obtain k' where "Event_Signal w e (kernel s) = Some k'" "kernel_inv k'" "framed (kernel s) k'"
    using kernel_inv_Event_Signal [OF sys_invD(1) [OF assms(1)] e] by blast
  then show ?case using e fine_kernel [OF assms(1) kept_framed] by simp
qed (simp add: assms(1) fineI)

lemma fine_ClearEvent:
  assumes "sys_inv s" "runs s t"
  shows "fine (SVC_ClearEvent h s)"
  unfolding SVC_ClearEvent_def
proof (rule fine_Get [OF assms], goal_cases)
  case (2 w)
  then obtain e where e: "obj (wait_object (kernel s) w) = O_Event e" using object_state_of_kind(1) [of "kernel s" w] by auto
  have "kept (kernel s) (Event_Clear w e (kernel s))"
    using e unfolding Event_Clear_def by (intro kept_replace sys_invD(1) [OF assms(1)]) (simp_all add: obj_ok_def kind_def)
  then show ?case using e fine_kernel [OF assms(1)] by simp
qed (simp add: assms(1) fineI)

lemma fine_ClearTimer:
  assumes "sys_inv s" "runs s t"
  shows "fine (SVC_ClearTimer h s)"
  unfolding SVC_ClearTimer_def
proof (rule fine_Get [OF assms], goal_cases)
  case (2 w)
  then obtain x where x: "obj (wait_object (kernel s) w) = O_Timer x" using object_state_of_kind(4) [of "kernel s" w] by auto
  have "kept (kernel s) (Timer_Clear w x (kernel s))"
    using x unfolding Timer_Clear_def by (intro kept_replace sys_invD(1) [OF assms(1)]) (simp_all add: obj_ok_def kind_def)
  then show ?case using x fine_kernel [OF assms(1)] by simp
qed (simp add: assms(1) fineI)

lemma fine_CancelTimer:
  assumes "sys_inv s" "runs s t"
  shows "fine (SVC_CancelTimer h s)"
  unfolding SVC_CancelTimer_def
proof (rule fine_Get [OF assms], goal_cases)
  case (2 w)
  then obtain x where x: "obj (wait_object (kernel s) w) = O_Timer x" using object_state_of_kind(4) [of "kernel s" w] by auto
  have "kept (kernel s) (Timer_Cancel x (kernel s))" using kept_Unschedule [OF sys_invD(1) [OF assms(1)]] by (simp add: Timer_Cancel_def)
  then show ?case using x fine_kernel [OF assms(1)] by simp
qed (simp add: assms(1) fineI)

lemma fine_SetTimer:
  assumes "sys_inv s" "runs s t"
  shows "fine (SVC_SetTimer h initial interval s)"
proof (cases "initial < 0 \<or> interval < 0")
  case False
  have "fine (Get HT_Timer h s \<bind> (\<lambda>r. case r of None \<Rightarrow> Some (ERR_INVALID_HANDLE, s) | Some w \<Rightarrow>
      (case obj (wait_object (kernel s) w) of
         O_Timer x \<Rightarrow> do { k \<leftarrow> Timer_Set w x initial interval (kernel s); Some (RESULT_SUCCESS, set_kernel k s) } | _ \<Rightarrow> None)))"
  proof (rule fine_Get [OF assms], goal_cases)
    case (2 w)
    then obtain x where x: "obj (wait_object (kernel s) w) = O_Timer x" using object_state_of_kind(4) [of "kernel s" w] by auto
    obtain k' where "Timer_Set w x initial interval (kernel s) = Some k'" "kept (kernel s) k'"
      using kept_Timer_Set [OF sys_invD(1) [OF assms(1)], of w x initial interval] 2 by auto
    then show ?case using x fine_kernel [OF assms(1)] by simp
  qed (simp add: assms(1) fineI)
  then show ?thesis using False by (simp add: SVC_SetTimer_def)
qed (simp add: SVC_SetTimer_def assms(1) fineI)

text \<open>The calls that create objects.\<close>

lemma fine_CreateAddressArbiter: "sys_inv s \<Longrightarrow> runs s t \<Longrightarrow> fine (SVC_CreateAddressArbiter s)"
  using fine_create kept_CreateAddressArbiter [OF sys_invD(1)] by (simp add: SVC_CreateAddressArbiter_def case_prod_beta)

lemma fine_CreateEvent: "sys_inv s \<Longrightarrow> runs s t \<Longrightarrow> fine (SVC_CreateEvent ty s)"
  using fine_create kept_CreateEvent [OF sys_invD(1)] by (simp add: SVC_CreateEvent_def case_prod_beta)

lemma fine_CreateTimer: "sys_inv s \<Longrightarrow> runs s t \<Longrightarrow> fine (SVC_CreateTimer ty s)"
  using fine_create kept_CreateTimer [OF sys_invD(1)] by (simp add: SVC_CreateTimer_def case_prod_beta)

lemma fine_CreateMutex:
  assumes "sys_inv s" "runs s t"
  shows "fine (SVC_CreateMutex b s)"
proof -
  obtain w k' where "CreateMutex (b \<noteq> 0) (kernel s) = Some (w, k')" "kept (kernel s) k'" "valid_ref k' (HT_Mutex, w)"
    using kept_CreateMutex [OF sys_invD(1) [OF assms(1)] runsD(3) [OF assms(2)]] by blast
  then show ?thesis using fine_create [OF assms] by (simp add: SVC_CreateMutex_def)
qed

lemma fine_CreateSemaphore:
  assumes "sys_inv s" "runs s t" "0 \<le> n" "m < 2 ^ 31"
  shows "fine (SVC_CreateSemaphore n m s)"
proof -
  note C = kept_CreateSemaphore [OF sys_invD(1) [OF assms(1)] assms(3,4)]
  show ?thesis
  proof (cases "rv_object (fst (CreateSemaphore n m (kernel s)))")
    case None
    then show ?thesis using fine_kernel [OF assms(1) C(1)] by (simp add: SVC_CreateSemaphore_def case_prod_beta)
  next
    case (Some w)
    then show ?thesis using fine_create [OF assms(1,2) C(1) C(2) [OF Some]] by (simp add: SVC_CreateSemaphore_def case_prod_beta)
  qed
qed

lemma fine_GetResourceLimit: "sys_inv s \<Longrightarrow> runs s t \<Longrightarrow> fine (SVC_GetResourceLimit h s)"
  unfolding SVC_GetResourceLimit_def
proof (rule fine_Get, assumption, assumption, goal_cases)
  case (2 p)
  have e: "set_kernel (kernel s) s = s" by (simp add: set_kernel_def)
  show ?case using fine_create [OF 2(1,2) kept_refl [OF sys_invD(1) [OF 2(1)]], of "(HT_ResourceLimit, category_id (process_limits (processes s p)))"]
    unfolding e by simp
qed (simp add: fineI)

lemma kept_memory: "kernel_inv k \<Longrightarrow> kept k (k\<lparr>k_memory := m\<rparr>)"
  by (rule kept_same) simp_all

lemma kept_write_values: "kernel_inv k \<Longrightarrow> kept k (write_values f v ns n k)"
proof (induction n arbitrary: v ns k)
  case (Suc n)
  have 1: "kept k (Write64 v (f (load32 ns k)) k)" unfolding Write64_def by (rule kept_store [OF Suc.prems])
  show ?case using kept_trans [OF 1 Suc.IH [OF keptD(1) [OF 1]]] by simp
qed (simp add: kept_refl)

lemma fine_GetResourceLimitCurrentValues:
  assumes "sys_inv s" "runs s t"
  shows "fine (SVC_GetResourceLimitCurrentValues v h ns n s)" "fine (SVC_GetResourceLimitLimitValues v h ns n s)"
  unfolding SVC_GetResourceLimitCurrentValues_def SVC_GetResourceLimitLimitValues_def
  by (rule fine_Get [OF assms]; simp add: assms(1) fineI fine_kernel kept_write_values sys_invD(1))+

text \<open>The calls on threads.\<close>

lemma fine_SetThreadPriority:
  assumes "sys_inv s" "runs s t"
  shows "fine (SVC_SetThreadPriority h p s)"
proof (cases "p > ThreadPrioLowest")
  case True
  then show ?thesis using assms(1) by (simp add: SVC_SetThreadPriority_def fineI)
next
  case False
  let ?lim = "GetMaxResourceValue 0 (limits s (process_limits (processes s (owner_process (threads (kernel s) t)))))"
  have "fine (Get HT_Thread h s \<bind> (\<lambda>r. case r of None \<Rightarrow> Some (ERR_INVALID_HANDLE, s) | Some u \<Rightarrow> do {
      q \<leftarrow> GetCurrentProcess s;
      (if GetMaxResourceValue 0 (limits s (process_limits (processes s q))) > int p then Some (ERR_NOT_AUTHORIZED, s)
       else do {
         k \<leftarrow> SetPriority u p (kernel s);
         let k = Thread_UpdatePriority u k;
         let k = foldl (\<lambda>k w. Mutex_UpdatePriority w k) k (pending_mutexes (threads k u));
         Some (RESULT_SUCCESS, set_kernel (PrepareReschedule k) s) }) }))"
  proof (rule fine_Get [OF assms], goal_cases)
    case (2 u)
    obtain k1 where k1: "SetPriority u p (kernel s) = Some k1" "kept (kernel s) k1" using kept_SetPriority [OF sys_invD(1) [OF assms(1)], of p u] False by auto
    let ?k2 = "Thread_UpdatePriority u k1"
    let ?k3 = "foldl (\<lambda>k w. Mutex_UpdatePriority w k) ?k2 (pending_mutexes (threads ?k2 u))"
    have k2: "kept (kernel s) ?k2" by (rule kept_trans [OF k1(2) kept_Thread_UpdatePriority [OF keptD(1) [OF k1(2)]]])
    have k3: "kept (kernel s) ?k3" by (rule kept_trans [OF k2 kept_foldl [OF kept_Mutex_UpdatePriority keptD(1) [OF k2]]])
    have "kept (kernel s) (PrepareReschedule ?k3)" by (rule kept_trans [OF k3 kept_PrepareReschedule [OF keptD(1) [OF k3]]])
    from fine_kernel [OF assms(1) this, of RESULT_SUCCESS] show ?case using k1(1) running_process [OF assms] assms(1) by (simp add: Let_def fineI)
  qed (simp add: assms(1) fineI)
  then show ?thesis using False by (simp add: SVC_SetThreadPriority_def)
qed

lemma fine_SleepThread:
  assumes "sys_inv s" "runs s t"
  shows "\<exists>s'. SVC_SleepThread ns s = Some s' \<and> sys_inv s'"
proof -
  note K = sys_invD(1) [OF assms(1)] and T = runsD [OF assms(2)]
  let ?c = "current_cpu (kernel s)"
  obtain b where b: "HaveReadyThreads ?c (kernel s) = Some b" using HaveReadyThreads_ok [OF kernel_invD(1) [OF K]] by blast
  obtain k1 k2 where k: "WaitCurrentThread_Sleep ?c (kernel s) = Some k1" "current_thread (managers k1 ?c) = Some t"
    "WakeAfterDelay t ns k1 = Some k2" "kept (kernel s) (PrepareReschedule k2)" using kept_Sleep [OF K T(3,2)] by blast
  then show ?thesis using b assms(1) sys_inv_set_kernel [OF assms(1)] by (simp add: SVC_SleepThread_def Let_def)
qed

lemma fine_ExitThread:
  assumes "sys_inv s" "runs s t"
  shows "\<exists>s'. SVC_ExitThread s = Some s' \<and> sys_inv s' \<and> status (threads (kernel s') t) = Dead"
proof -
  obtain k' where k': "ExitCurrentThread (current_cpu (kernel s)) (kernel s) = Some k'" "kept (kernel s) k'" "status (threads k' t) = Dead"
    using kept_ExitCurrentThread [OF sys_invD(1) [OF assms(1)] runsD(3,2) [OF assms(2)]] by blast
  have "kept (kernel s) (PrepareReschedule k')" by (rule kept_trans [OF k'(2) kept_PrepareReschedule [OF keptD(1) [OF k'(2)]]])
  then show ?thesis using k' sys_inv_set_kernel [OF assms(1)] by (simp add: SVC_ExitThread_def PrepareReschedule_def)
qed

lemma fine_GetSystemTick:
  assumes "sys_inv s"
  shows "fine (SVC_GetSystemTick s)"
proof -
  note K = sys_invD(1) [OF assms]
  have "kept (kernel s) ((kernel s)\<lparr>k_timing := upd_timer i f (k_timing (kernel s))\<rparr>)" for i f
    using kernel_inv_timing [OF K, of "upd_timer i f (k_timing (kernel s))"] by (simp add: kept_def upd_timer_def)
  from fine_kernel [OF assms this] show ?thesis using kernel_invD(8) [OF K] by (simp add: SVC_GetSystemTick_def Let_def can_schedule_def)
qed

text \<open>The processor a thread is created on: the given one, the process's ideal one, or core 0 for any.\<close>

definition core_ok :: "nat \<Rightarrow> int \<Rightarrow> int \<Rightarrow> bool" where
  "core_ok num_cores ideal pid \<longleftrightarrow>
     (let i = (if pid = ThreadProcessorIdDefault then ideal else pid) in i \<in> {- 1, 0, 1, 2, 3} \<and> i < int num_cores \<and> 0 < num_cores)"

lemma fine_CreateThread:
  assumes "sys_inv s" "runs s t" and c: "core_ok cores (ideal_processor (processes s (owner_process (threads (kernel s) t)))) pid"
  shows "fine (SVC_CreateThread valid lin cores entry arg stack prio pid s)"
proof -
  let ?p = "owner_process (threads (kernel s) t)"
  let ?id = "if pid = ThreadProcessorIdDefault then ideal_processor (processes s ?p) else pid"
  let ?core = "if ?id = ThreadProcessorIdAll then 0 else ?id"
  note K = sys_invD(1) [OF assms(1)] and P = running_process [OF assms(1,2)]
  have id: "?id \<in> {- 1, 0, 1, 2, 3}" "?id < int cores" "0 < cores" using c by (simp_all add: core_ok_def Let_def)
  have core: "0 \<le> ?core" "?core < int cores" using id by (auto simp: ThreadProcessorIdAll_def)
  have nd: "?id \<noteq> ThreadProcessorIdDefault" using id(1) by (auto simp: ThreadProcessorIdDefault_def)
  obtain r k' where k': "CreateThread valid lin entry prio arg ?core stack ?p cores (kernel s) = Some (r, k')" "kept (kernel s) k'"
    "\<forall>u. rv_object r = Some u \<longrightarrow> u = next_object (kernel s) \<and> u < next_object k' \<and> status (threads k' u) = Ready"
    using kept_CreateThread [OF K core] by blast
  consider "prio > ThreadPrioLowest" | "\<not> prio > ThreadPrioLowest" "GetMaxResourceValue 0 (limits s (process_limits (processes s ?p))) > int prio"
    | "\<not> prio > ThreadPrioLowest" "\<not> GetMaxResourceValue 0 (limits s (process_limits (processes s ?p))) > int prio" by blast
  then show ?thesis
  proof cases
    case 3
    note run = SVC_CreateThread_def [of valid lin cores entry arg stack prio pid s]
    have start: "SVC_CreateThread valid lin cores entry arg stack prio pid s = (case rv_object r of
              None \<Rightarrow> Some (ResultErr (Code r), set_kernel k' s)
            | Some u \<Rightarrow> do {
                let k = upd_thread u (\<lambda>x. x\<lparr>thread_context := (thread_context x)(17 := 0x03C00000)\<rparr>) k';
                (h, s) \<leftarrow> create_handle (HT_Thread, u) (set_kernel k s);
                (case rv_object h of
                   None \<Rightarrow> Some (ResultErr (Code h), s)
                 | Some _ \<Rightarrow> Some (h, set_kernel (PrepareReschedule (kernel s)) s)) })"
      using 3 P nd id(1) k'(1) by (simp add: SVC_CreateThread_def Let_def)
    show ?thesis
    proof (cases "rv_object r")
      case None
      then show ?thesis using start fine_kernel [OF assms(1) k'(2)] by simp
    next
      case (Some u)
      let ?k = "upd_thread u (\<lambda>x. x\<lparr>thread_context := (thread_context x)(17 := 0x03C00000)\<rparr>) k'"
      have kk: "kept (kernel s) ?k"
        by (rule kept_trans [OF k'(2) kept_framed [OF kernel_inv_context [OF keptD(1) [OF k'(2)], where f = "\<lambda>c. c(17 := 0x03C00000)"] framed_context]])
      have "kind k' u = HT_Thread" using kernel_invD(6) [OF keptD(1) [OF k'(2)]] k'(3) [rule_format, OF Some] unfolding kind_inv_def by auto
      then have v: "valid_ref ?k (HT_Thread, u)" using k'(3) Some by (simp add: kind_def upd_thread_def)
      have "GetCurrentProcess (set_kernel ?k s) = Some ?p" using P keptD(2) [OF kk] by (simp add: GetCurrentProcess_def extends_def)
      then obtain h s' where h: "create_handle (HT_Thread, u) (set_kernel ?k s) = Some (h, s')" "sys_inv s'"
        using fine_create_handle [OF sys_inv_set_kernel [OF assms(1) kk], of ?p "(HT_Thread, u)"] v by auto
      have "fine (Some (h, set_kernel (PrepareReschedule (kernel s')) s'))" by (rule fine_kernel [OF h(2) kept_PrepareReschedule [OF sys_invD(1) [OF h(2)]]])
      then show ?thesis using start Some h by (simp add: Let_def fineI split: option.splits)
    qed
  qed (use assms(1) P in \<open>simp_all add: SVC_CreateThread_def fineI\<close>)
qed

text \<open>The calls on ports and sessions.\<close>

lemma fine_Connect:
  assumes "sys_inv s" "runs s t" "valid_ref (kernel s) (HT_ClientPort, cp)"
  shows "fine (do { (r, k) \<leftarrow> Connect cp (kernel s);
      (case rv_object r of None \<Rightarrow> Some (ResultErr (Code r), set_kernel k s) | Some cs \<Rightarrow> create_handle (HT_ClientSession, cs) (set_kernel k s)) })"
proof -
  obtain r k' where k': "Connect cp (kernel s) = Some (r, k')" "kept (kernel s) k'" "\<forall>c. rv_object r = Some c \<longrightarrow> valid_ref k' (HT_ClientSession, c)"
    using kept_Connect [OF sys_invD(1) [OF assms(1)] assms(3)] by blast
  show ?thesis using k'(1) fine_kernel [OF assms(1) k'(2)] fine_create [OF assms(1,2) k'(2)] k'(3) by (cases "rv_object r") auto
qed

lemma fine_CreateSessionToPort:
  assumes "sys_inv s" "runs s t"
  shows "fine (SVC_CreateSessionToPort h s)"
  unfolding SVC_CreateSessionToPort_def by (rule fine_Get [OF assms]) (use fine_Connect [OF assms] assms(1) in \<open>auto simp: fineI\<close>)

lemma fine_ConnectToPort:
  assumes "sys_inv s" "runs s t" "\<forall>cp \<in> ran named_ports. valid_ref (kernel s) (HT_ClientPort, cp)"
  shows "fine (SVC_ConnectToPort va named_ports name s)"
proof (cases "va \<and> length name \<le> 11 \<and> named_ports name \<noteq> None")
  case True
  then obtain cp where cp: "va" "\<not> length name > 11" "named_ports name = Some cp" by auto
  have "valid_ref (kernel s) (HT_ClientPort, cp)" using assms(3) cp(3) by (meson ranI)
  from fine_Connect [OF assms(1,2) this] show ?thesis using cp by (simp add: SVC_ConnectToPort_def)
next
  case False
  then show ?thesis using assms(1) by (auto simp: SVC_ConnectToPort_def fineI)
qed

lemma fine_SendSyncRequest:
  assumes "sys_inv s" "runs s t" "hle_contract hle"
  shows "fine (SVC_SendSyncRequest hle h s)"
  unfolding SVC_SendSyncRequest_def
proof (rule fine_Get [OF assms(1,2)], goal_cases)
  case (2 cs)
  note K = sys_invD(1) [OF assms(1)]
  have k1: "kept (kernel s) (PrepareReschedule (kernel s))" by (rule kept_PrepareReschedule [OF K])
  have "status (threads (PrepareReschedule (kernel s)) t) = Running" using runsD(2) [OF assms(2)] by (simp add: PrepareReschedule_def)
  from kept_SendSyncRequest [OF assms(3) keptD(1) [OF k1] this valid_ref_kept [OF K k1 2]]
  obtain r k' where "SendSyncRequest hle cs t (PrepareReschedule (kernel s)) = Some (r, k')" "kept (PrepareReschedule (kernel s)) k'" by blast
  then show ?case using runsD(1) [OF assms(2)] fine_kernel [OF assms(1) kept_trans [OF k1]] by simp
qed (simp add: assms(1) fineI)

lemma fine_two_handles:
  assumes "sys_inv s" "runs s t" "kept (kernel s) k" "valid_ref k x" "valid_ref k y"
  shows "fine (do { (hx, s) \<leftarrow> create_handle x (set_kernel k s);
      (case rv_object hx of None \<Rightarrow> Some (ResultErr (Code hx), s)
       | Some a \<Rightarrow> do { (hy, s) \<leftarrow> create_handle y s;
           (case rv_object hy of None \<Rightarrow> Some (ResultErr (Code hy), s) | Some b \<Rightarrow> Some (MakeResult (f a b), s)) }) })"
proof -
  let ?p = "owner_process (threads (kernel s) t)"
  have "GetCurrentProcess (set_kernel k s) = Some ?p" using running_process [OF assms(1,2)] keptD(2) [OF assms(3)] by (simp add: GetCurrentProcess_def extends_def)
  then obtain h1 s1 where 1: "create_handle x (set_kernel k s) = Some (h1, s1)" "sys_inv s1" "kernel s1 = k" "GetCurrentProcess s1 = Some ?p"
    using fine_create_handle [OF sys_inv_set_kernel [OF assms(1,3)], of ?p x] assms(4) by auto
  obtain h2 s2 where 2: "create_handle y s1 = Some (h2, s2)" "sys_inv s2" using fine_create_handle [OF 1(2,4), of y] 1(3) assms(5) by auto
  show ?thesis using 1 2 by (simp add: fineI split: option.splits)
qed

lemma fine_CreatePort:
  assumes "sys_inv s" "runs s t" "a = 0"
  shows "fine (SVC_CreatePort a m s)"
proof -
  obtain sv cl k' where c: "CreatePortPair m (kernel s) = ((sv, cl), k')" by (metis prod.collapse)
  note C = kept_CreatePortPair [OF sys_invD(1) [OF assms(1)] c]
  show ?thesis using fine_two_handles [OF assms(1,2) C(1,3,2), of "\<lambda>a b. (b, a)"] c assms(3) by (simp add: SVC_CreatePort_def Let_def)
qed

lemma fine_CreateSession:
  assumes "sys_inv s" "runs s t"
  shows "fine (SVC_CreateSession s)"
proof -
  obtain sv cl k' where c: "CreateSessionPair None (kernel s) = ((sv, cl), k')" by (metis prod.collapse)
  note C = kept_CreateSessionPair [OF sys_invD(1) [OF assms(1)] c]
  show ?thesis using fine_two_handles [OF assms C(1,2,3), of Pair] c by (simp add: SVC_CreateSession_def Let_def)
qed

lemma fine_AcceptSession:
  assumes "sys_inv s" "runs s t"
  shows "fine (SVC_AcceptSession h s)"
  unfolding SVC_AcceptSession_def
proof (rule fine_Get [OF assms], goal_cases)
  case (2 w)
  then obtain p where p: "obj (wait_object (kernel s) w) = O_ServerPort p" using object_state_of_kind(5) [of "kernel s" w] by auto
  note A = kept_Accept [OF sys_invD(1) [OF assms(1)] p]
  show ?case using p fine_kernel [OF assms(1) A(1)] fine_create [OF assms A(1) A(2)]
    by (cases "rv_object (fst (Accept w p (kernel s)))") (simp_all add: case_prod_beta)
qed (simp add: assms(1) fineI)

end
