(* ===== verification/Svc_Abi.thy ===== *)
theory Svc_Abi
  imports Prelude "HOL-Library.Multiset"
begin

text \<open>
  The calling convention of system calls, \<^verbatim>\<open>src/src/core/hle/kernel/svc_wrapper.h\<close>: from the signature of a call
  the registers of its inputs and outputs are derived. The derivation runs at compile time; writing past the end of one of its
  arrays does not compile, and is \<open>None\<close> here. An unused slot is \<open>None\<close>, a used one names a parameter and one of its words.
\<close>

unbundle bit_operations_syntax

section \<open>Signatures\<close>

datatype abi_type = T_u8 | T_u32 | T_s32 | T_u64 | T_s64 | T_bool | T_class nat | T_pointer abi_type

datatype param_index = INDEX_RETURN | Param nat

type_synonym ParamSlot = "(param_index \<times> nat) option"

fun size_of :: "abi_type \<Rightarrow> nat" where
  "size_of T_u8 = 1"
| "size_of T_u32 = 4"
| "size_of T_s32 = 4"
| "size_of T_u64 = 8"
| "size_of T_s64 = 8"
| "size_of T_bool = 1"
| "size_of (T_class n) = n"
| "size_of (T_pointer ty) = 4"

fun is_pointer :: "abi_type \<Rightarrow> bool" where
  "is_pointer (T_pointer _) = True"
| "is_pointer _ = False"

definition WordSize :: "abi_type \<Rightarrow> nat" where
  "WordSize ty = (if is_pointer ty \<or> ty = T_bool then 1 else (size_of ty - 1) div 4 + 1)"

fun OutputWordSize :: "abi_type \<Rightarrow> nat" where
  "OutputWordSize (T_pointer ty) = WordSize ty"
| "OutputWordSize _ = 0"

definition param_need_align :: "abi_type \<Rightarrow> bool" where
  "param_need_align ty \<longleftrightarrow> ty = T_u64 \<or> ty = T_s64"

record SVCABI =
  abi_in :: "ParamSlot list"
  abi_out :: "ParamSlot list"

definition RegCount :: nat where "RegCount = 8"

section \<open>The ARM convention\<close>

record ArmAbi =
  armabi_reg :: "ParamSlot list"
  armabi_stack :: "ParamSlot list"
  reg_pos :: nat
  stack_pos :: nat

definition ArmAbi_init :: ArmAbi where
  "ArmAbi_init = \<lparr>armabi_reg = replicate 4 None, armabi_stack = replicate 4 None, reg_pos = 0, stack_pos = 0\<rparr>"

definition place_word :: "nat \<Rightarrow> nat \<Rightarrow> ArmAbi \<Rightarrow> ArmAbi run" where
  "place_word i j a =
     (if reg_pos a = 4 then do {
        ASSERT (stack_pos a < length (armabi_stack a));
        Some (a\<lparr>armabi_stack := (armabi_stack a)[stack_pos a := Some (Param i, j)], stack_pos := stack_pos a + 1\<rparr>) }
      else do {
        ASSERT (reg_pos a < length (armabi_reg a));
        Some (a\<lparr>armabi_reg := (armabi_reg a)[reg_pos a := Some (Param i, j)], reg_pos := reg_pos a + 1\<rparr>) })"

fun place_words :: "nat \<Rightarrow> nat list \<Rightarrow> ArmAbi \<Rightarrow> ArmAbi run" where
  "place_words i [] a = Some a"
| "place_words i (j # js) a = do { a \<leftarrow> place_word i j a; place_words i js a }"

definition place_param :: "nat \<Rightarrow> abi_type \<Rightarrow> ArmAbi \<Rightarrow> ArmAbi run" where
  "place_param i ty a =
     place_words i [0..<WordSize ty] (if param_need_align ty then a\<lparr>reg_pos := reg_pos a + reg_pos a mod 2\<rparr> else a)"

fun place_params :: "nat \<Rightarrow> abi_type list \<Rightarrow> ArmAbi \<Rightarrow> ArmAbi run" where
  "place_params i [] a = Some a"
| "place_params i (ty # tys) a = do { a \<leftarrow> place_param i ty a; place_params (Suc i) tys a }"

section \<open>The convention of system calls\<close>

fun output_words :: "nat \<Rightarrow> abi_type list \<Rightarrow> (param_index \<times> nat) list" where
  "output_words i [] = []"
| "output_words i (ty # tys) = map (Pair (Param i)) [0..<OutputWordSize ty] @ output_words (Suc i) tys"

text \<open>\<open>R\<close> is the type of the result, \<open>None\<close> for \<^verbatim>\<open>void\<close>.\<close>

definition assign_out :: "abi_type option \<Rightarrow> abi_type list \<Rightarrow> ParamSlot list run" where
  "assign_out R tys = do {
     let ws = (case R of None \<Rightarrow> [] | Some r \<Rightarrow> map (Pair INDEX_RETURN) [0..<WordSize r]) @ output_words 0 tys;
     ASSERT (length ws \<le> RegCount);
     Some (map Some ws @ replicate (RegCount - length ws) None)
   }"

definition is_input :: "abi_type list \<Rightarrow> ParamSlot \<Rightarrow> bool" where
  "is_input tys slot = (case slot of Some (Param i, _) \<Rightarrow> i < length tys \<and> \<not> is_pointer (tys ! i) | _ \<Rightarrow> False)"

text \<open>
  The registers in turn: \<open>regs\<close> are what the ARM convention has in the rest of them, \<open>stack\<close> the part of its stack from
  \<^verbatim>\<open>stack_pos\<close> on.
\<close>

fun assign_in :: "abi_type list \<Rightarrow> ParamSlot list \<Rightarrow> ParamSlot list \<Rightarrow> ParamSlot list" where
  "assign_in tys [] stack = []"
| "assign_in tys (r # regs) stack =
     (if is_input tys r then r # assign_in tys regs stack
      else case dropWhile (\<lambda>s. \<not> is_input tys s) stack of
             [] \<Rightarrow> None # assign_in tys regs []
           | s # stack \<Rightarrow> s # assign_in tys regs stack)"

definition GetSVCABI :: "abi_type option \<Rightarrow> abi_type list \<Rightarrow> SVCABI run" where
  "GetSVCABI R tys = do {
     a \<leftarrow> place_params 0 tys ArmAbi_init;
     out \<leftarrow> assign_out R tys;
     Some \<lparr>abi_in = assign_in tys (armabi_reg a @ replicate (RegCount - length (armabi_reg a)) None) (armabi_stack a), abi_out = out\<rparr>
   }"

fun find_register :: "param_index \<Rightarrow> nat \<Rightarrow> nat \<Rightarrow> ParamSlot list \<Rightarrow> ParamSlot list \<Rightarrow> nat" where
  "find_register p w slot (i # ins) (out # outs) =
     (if i = Some (p, w) \<or> out = Some (p, w) then slot else find_register p w (Suc slot) ins outs)"
| "find_register p w slot _ _ = 0x12345678"

definition GetRegisterIndex :: "SVCABI \<Rightarrow> param_index \<Rightarrow> nat \<Rightarrow> nat" where
  "GetRegisterIndex abi p w = find_register p w 0 (abi_in abi) (abi_out abi)"

section \<open>Reading and writing parameters\<close>

type_synonym registers = "nat \<Rightarrow> u32"

definition GetParam32 :: "SVCABI \<Rightarrow> nat \<Rightarrow> registers \<Rightarrow> u32" where
  "GetParam32 abi i regs = regs (GetRegisterIndex abi (Param i) 0)"

definition GetParam_bool :: "SVCABI \<Rightarrow> nat \<Rightarrow> registers \<Rightarrow> bool" where
  "GetParam_bool abi i regs \<longleftrightarrow> regs (GetRegisterIndex abi (Param i) 0) \<noteq> 0"

definition GetParam64 :: "SVCABI \<Rightarrow> nat \<Rightarrow> registers \<Rightarrow> 64 word" where
  "GetParam64 abi i regs =
     (let l = ucast (regs (GetRegisterIndex abi (Param i) 0)); h = ucast (regs (GetRegisterIndex abi (Param i) 1))
      in l OR push_bit 32 h)"

definition SetParam32 :: "SVCABI \<Rightarrow> param_index \<Rightarrow> u32 \<Rightarrow> registers \<Rightarrow> registers" where
  "SetParam32 abi p v regs = regs(GetRegisterIndex abi p 0 := v)"

definition SetParam64 :: "SVCABI \<Rightarrow> param_index \<Rightarrow> 64 word \<Rightarrow> registers \<Rightarrow> registers" where
  "SetParam64 abi p v regs =
     regs(GetRegisterIndex abi p 0 := ucast (v AND 0xFFFFFFFF), GetRegisterIndex abi p 1 := ucast (drop_bit 32 v))"

section \<open>Every input has registers of its own\<close>

definition somes :: "'a option list \<Rightarrow> 'a list" where
  "somes xs = map the (filter (\<lambda>x. x \<noteq> None) xs)"

lemma somes_simps [simp]: "somes [] = []" "somes (None # xs) = somes xs" "somes (Some x # xs) = x # somes xs"
  "somes (xs @ ys) = somes xs @ somes ys" "somes (replicate n None) = []"
  by (simp_all add: somes_def)

lemma set_somes: "x \<in> set (somes xs) \<longleftrightarrow> Some x \<in> set xs"
  by (force simp: somes_def)

lemma mset_somes_update:
  assumes "i < length xs" "xs ! i = None"
  shows "mset (somes (xs[i := Some x])) = add_mset x (mset (somes xs))"
proof -
  have "xs = take i xs @ None # drop (Suc i) xs" using assms by (metis id_take_nth_drop)
  then have "mset (somes xs) = mset (somes (take i xs)) + mset (somes (drop (Suc i) xs))"
    by (metis mset_append somes_simps(2,4))
  then show ?thesis using assms(1) by (simp add: upd_conv_take_nth_drop)
qed

definition arm_inv :: "ArmAbi \<Rightarrow> bool" where
  "arm_inv a \<longleftrightarrow> length (armabi_reg a) = 4 \<and> length (armabi_stack a) = 4 \<and> reg_pos a \<le> 4
     \<and> (\<forall>i. reg_pos a \<le> i \<longrightarrow> i < 4 \<longrightarrow> armabi_reg a ! i = None) \<and> (\<forall>i. stack_pos a \<le> i \<longrightarrow> i < 4 \<longrightarrow> armabi_stack a ! i = None)"

definition placed :: "ArmAbi \<Rightarrow> (param_index \<times> nat) multiset" where
  "placed a = mset (somes (armabi_reg a)) + mset (somes (armabi_stack a))"

lemma place_word_placed:
  assumes "arm_inv a" "place_word i j a = Some a'"
  shows "arm_inv a' \<and> placed a' = add_mset (Param i, j) (placed a)"
proof (cases "reg_pos a = 4")
  case True
  then have "stack_pos a < 4" "a' = a\<lparr>armabi_stack := (armabi_stack a)[stack_pos a := Some (Param i, j)], stack_pos := stack_pos a + 1\<rparr>"
    using assms by (auto simp: place_word_def arm_inv_def split: if_splits)
  then show ?thesis using assms(1) by (auto simp: arm_inv_def placed_def mset_somes_update)
next
  case False
  then have "reg_pos a < 4" "a' = a\<lparr>armabi_reg := (armabi_reg a)[reg_pos a := Some (Param i, j)], reg_pos := reg_pos a + 1\<rparr>"
    using assms by (auto simp: place_word_def arm_inv_def split: if_splits)
  then show ?thesis using assms(1) by (auto simp: arm_inv_def placed_def mset_somes_update)
qed

lemma place_words_placed:
  "arm_inv a \<Longrightarrow> place_words i js a = Some a' \<Longrightarrow> arm_inv a' \<and> placed a' = placed a + mset (map (Pair (Param i)) js)"
proof (induction js arbitrary: a)
  case (Cons j js)
  then obtain a1 where a1: "place_word i j a = Some a1" "place_words i js a1 = Some a'" by (auto simp: bind_eq_Some_conv)
  then show ?case using Cons.IH [OF _ a1(2)] place_word_placed [OF Cons.prems(1) a1(1)] by simp
qed simp

lemma arm_inv_align: "arm_inv a \<Longrightarrow> arm_inv (a\<lparr>reg_pos := reg_pos a + reg_pos a mod 2\<rparr>)"
proof -
  assume a: "arm_inv a"
  then have "reg_pos a \<in> {0, 1, 2, 3, 4}" by (auto simp: arm_inv_def)
  then have "reg_pos a + reg_pos a mod 2 \<le> 4" by auto
  then show ?thesis using a by (auto simp: arm_inv_def)
qed

lemma place_param_placed:
  assumes "arm_inv a" "place_param i ty a = Some a'"
  shows "arm_inv a' \<and> placed a' = placed a + mset (map (Pair (Param i)) [0..<WordSize ty])"
proof -
  let ?a = "if param_need_align ty then a\<lparr>reg_pos := reg_pos a + reg_pos a mod 2\<rparr> else a"
  have "arm_inv ?a" "placed ?a = placed a" using assms(1) arm_inv_align by (simp_all add: placed_def)
  then show ?thesis using place_words_placed [of ?a i "[0..<WordSize ty]" a'] assms(2) by (simp add: place_param_def)
qed

fun words_from :: "nat \<Rightarrow> abi_type list \<Rightarrow> (param_index \<times> nat) list" where
  "words_from i [] = []"
| "words_from i (ty # tys) = map (Pair (Param i)) [0..<WordSize ty] @ words_from (Suc i) tys"

lemma place_params_placed:
  "arm_inv a \<Longrightarrow> place_params i tys a = Some a' \<Longrightarrow> arm_inv a' \<and> placed a' = placed a + mset (words_from i tys)"
proof (induction tys arbitrary: a i)
  case (Cons ty tys)
  then obtain a1 where a1: "place_param i ty a = Some a1" "place_params (Suc i) tys a1 = Some a'" by (auto simp: bind_eq_Some_conv)
  then show ?case using Cons.IH [OF _ a1(2)] place_param_placed [OF Cons.prems(1) a1(1)] by simp
qed simp

lemma words_from_set: "(p, j) \<in> set (words_from i tys) \<longleftrightarrow> (\<exists>n < length tys. p = Param (i + n) \<and> j < WordSize (tys ! n))"
proof (induction tys arbitrary: i)
  case (Cons ty tys)
  have "(p, j) \<in> set (words_from i (ty # tys)) \<longleftrightarrow> p = Param i \<and> j < WordSize ty \<or> (\<exists>n < length tys. p = Param (Suc i + n) \<and> j < WordSize (tys ! n))"
    using Cons.IH [of "Suc i"] by auto
  also have "\<dots> \<longleftrightarrow> (\<exists>n < length (ty # tys). p = Param (i + n) \<and> j < WordSize ((ty # tys) ! n))"
    by (simp add: Ex_less_Suc2)
  finally show ?case .
qed simp

lemma distinct_words_from: "distinct (words_from i tys)"
  by (induction tys arbitrary: i) (auto simp: distinct_map words_from_set inj_on_def)

lemma is_input_None [simp]: "\<not> is_input tys None"
  by (simp add: is_input_def)

lemma filter_dropWhile_not: "filter P (dropWhile (\<lambda>x. \<not> P x) xs) = filter P xs"
  by (induction xs) auto

lemma assign_in_inputs:
  assumes "length (filter (is_input tys) stack) \<le> length (filter (\<lambda>r. \<not> is_input tys r) regs)"
  shows "mset (filter (is_input tys) (assign_in tys regs stack)) = mset (filter (is_input tys) regs) + mset (filter (is_input tys) stack)"
  using assms
proof (induction tys regs stack rule: assign_in.induct)
  case (2 tys r regs stack)
  show ?case
  proof (cases "is_input tys r")
    case True
    then show ?thesis using 2 by simp
  next
    case False
    show ?thesis
    proof (cases "dropWhile (\<lambda>s. \<not> is_input tys s) stack")
      case Nil
      then have "filter (is_input tys) stack = []" using filter_dropWhile_not [of "is_input tys" stack] by simp
      moreover have "assign_in tys (r # regs) stack = None # assign_in tys regs []" using False Nil by (simp del: dropWhile_eq_Nil_conv)
      ultimately show ?thesis using 2(2) [OF False Nil] False by simp
    next
      case (Cons s rest)
      have s: "is_input tys s" using Cons by (metis dropWhile_eq_Cons_conv)
      have f: "filter (is_input tys) stack = s # filter (is_input tys) rest" using filter_dropWhile_not [of "is_input tys" stack] Cons s by simp
      then show ?thesis using 2(3) [OF False Cons] 2(4) False Cons s by simp
    qed
  qed
qed simp

lemma length_assign_in [simp]: "length (assign_in tys regs stack) = length regs"
  by (induction tys regs stack rule: assign_in.induct) (auto split: list.splits)

lemma find_register_found:
  assumes "length ins = length outs" "Some (p, w) \<in> set ins" "Some (p, w) \<notin> set outs"
  shows "\<exists>r < length ins. find_register p w slot ins outs = slot + r \<and> ins ! r = Some (p, w)"
  using assms
proof (induction ins outs arbitrary: slot rule: list_induct2)
  case (Cons i ins out outs)
  show ?case
  proof (cases "i = Some (p, w)")
    case False
    then obtain r where "r < length ins" "find_register p w (Suc slot) ins outs = Suc slot + r" "ins ! r = Some (p, w)"
      using Cons.IH [of "Suc slot"] Cons.prems by auto
    then show ?thesis using False Cons.prems by (intro exI [of _ "Suc r"]) auto
  qed auto
qed simp

lemma output_words_pointer: "(p, w) \<in> set (output_words i tys) \<Longrightarrow> \<exists>n < length tys. p = Param (i + n) \<and> is_pointer (tys ! n)"
proof (induction tys arbitrary: i)
  case (Cons ty tys)
  then consider "p = Param i" "is_pointer ty" | "(p, w) \<in> set (output_words (Suc i) tys)" by (cases ty) auto
  then show ?case
  proof cases
    case 2
    then obtain n where "n < length tys" "p = Param (Suc i + n)" "is_pointer (tys ! n)" using Cons.IH by blast
    then show ?thesis by (intro exI [of _ "Suc n"]) simp
  qed (intro exI [of _ 0], simp)
qed simp

lemma assign_out_words:
  assumes "assign_out R tys = Some out"
  shows "length out = RegCount" "Some (Param i, w) \<in> set out \<Longrightarrow> i < length tys \<and> is_pointer (tys ! i)"
  using assms output_words_pointer [of "Param i" w 0 tys]
  by (auto simp: assign_out_def Let_def ASSERT_def split: if_splits option.splits)

lemma input_register:
  assumes abi: "GetSVCABI R tys = Some abi" and i: "i < length tys" "\<not> is_pointer (tys ! i)" "j < WordSize (tys ! i)"
  shows "GetRegisterIndex abi (Param i) j < RegCount \<and> abi_in abi ! GetRegisterIndex abi (Param i) j = Some (Param i, j)"
proof -
  obtain a out where a: "place_params 0 tys ArmAbi_init = Some a" and out: "assign_out R tys = Some out"
    and e: "abi = \<lparr>abi_in = assign_in tys (armabi_reg a @ replicate (RegCount - length (armabi_reg a)) None) (armabi_stack a), abi_out = out\<rparr>"
    using abi by (auto simp: GetSVCABI_def bind_eq_Some_conv)
  have init: "arm_inv ArmAbi_init" "placed ArmAbi_init = {#}" by (simp_all add: arm_inv_def ArmAbi_init_def placed_def)
  note P = place_params_placed [OF init(1) a]
  have len: "length (armabi_reg a) = 4" "length (armabi_stack a) = 4" using P by (simp_all add: arm_inv_def)
  let ?regs = "armabi_reg a @ replicate (RegCount - length (armabi_reg a)) None"
  have "length (filter (is_input tys) (armabi_stack a)) \<le> 4" using length_filter_le [of "is_input tys" "armabi_stack a"] len by simp
  moreover have "4 \<le> length (filter (\<lambda>r. \<not> is_input tys r) ?regs)" using len by (simp add: RegCount_def)
  ultimately have ins: "mset (filter (is_input tys) (abi_in abi)) = mset (filter (is_input tys) ?regs) + mset (filter (is_input tys) (armabi_stack a))"
    using assign_in_inputs [of tys "armabi_stack a" ?regs] by (simp add: e)
  have "(Param i, j) \<in># placed a" using P init(2) words_from_set [of "Param i" j 0 tys] i by simp
  then have "Some (Param i, j) \<in> set ?regs \<or> Some (Param i, j) \<in> set (armabi_stack a)" by (auto simp: placed_def set_somes)
  moreover have inp: "is_input tys (Some (Param i, j))" using i by (simp add: is_input_def)
  ultimately have "Some (Param i, j) \<in># mset (filter (is_input tys) (abi_in abi))" unfolding ins by auto
  then have "Some (Param i, j) \<in> set (abi_in abi)" by simp
  moreover have "Some (Param i, j) \<notin> set (abi_out abi)" using assign_out_words(2) [OF out, of i j] i by (auto simp: e)
  moreover have l: "length (abi_in abi) = RegCount" "length (abi_out abi) = RegCount" using assign_out_words(1) [OF out] len by (simp_all add: e RegCount_def)
  ultimately obtain r where "r < RegCount" "GetRegisterIndex abi (Param i) j = r" "abi_in abi ! r = Some (Param i, j)"
    using find_register_found [of "abi_in abi" "abi_out abi" "Param i" j 0] by (auto simp: GetRegisterIndex_def)
  then show ?thesis by blast
qed

lemma assign_in_only_inputs: "Some x \<in> set (assign_in tys regs stack) \<Longrightarrow> is_input tys (Some x)"
proof (induction tys regs stack rule: assign_in.induct)
  case (2 tys r regs stack)
  show ?case
  proof (cases "dropWhile (\<lambda>s. \<not> is_input tys s) stack")
    case Nil
    then show ?thesis using 2 by (auto split: if_splits simp del: dropWhile_eq_Nil_conv)
  next
    case (Cons s rest)
    then have "is_input tys s" by (metis dropWhile_eq_Cons_conv)
    then show ?thesis using 2 Cons by (auto split: if_splits)
  qed
qed simp

lemma find_register_output:
  assumes "length ins = length outs" "Some (p, w) \<in> set outs" "Some (p, w) \<notin> set ins"
  shows "\<exists>r < length outs. find_register p w slot ins outs = slot + r \<and> outs ! r = Some (p, w)"
  using assms
proof (induction ins outs arbitrary: slot rule: list_induct2)
  case (Cons i ins out outs)
  show ?case
  proof (cases "out = Some (p, w)")
    case False
    then obtain r where "r < length outs" "find_register p w (Suc slot) ins outs = Suc slot + r" "outs ! r = Some (p, w)"
      using Cons.IH [of "Suc slot"] Cons.prems by auto
    then show ?thesis using False Cons.prems by (intro exI [of _ "Suc r"]) auto
  qed auto
qed simp

definition input_words :: "abi_type list \<Rightarrow> (param_index \<times> nat) set" where
  "input_words tys = {(Param i, j) | i j. i < length tys \<and> \<not> is_pointer (tys ! i) \<and> j < WordSize (tys ! i)}"

definition result_words :: "abi_type option \<Rightarrow> abi_type list \<Rightarrow> (param_index \<times> nat) set" where
  "result_words R tys = set ((case R of None \<Rightarrow> [] | Some r \<Rightarrow> map (Pair INDEX_RETURN) [0..<WordSize r]) @ output_words 0 tys)"

lemma output_register:
  assumes abi: "GetSVCABI R tys = Some abi" and x: "(p, w) \<in> result_words R tys"
  shows "GetRegisterIndex abi p w < RegCount \<and> abi_out abi ! GetRegisterIndex abi p w = Some (p, w)"
proof -
  obtain a out where a: "place_params 0 tys ArmAbi_init = Some a" and out: "assign_out R tys = Some out"
    and e: "abi = \<lparr>abi_in = assign_in tys (armabi_reg a @ replicate (RegCount - length (armabi_reg a)) None) (armabi_stack a), abi_out = out\<rparr>"
    using abi by (auto simp: GetSVCABI_def bind_eq_Some_conv)
  have "length (armabi_reg a) = 4" using place_params_placed [OF _ a] by (simp add: arm_inv_def ArmAbi_init_def)
  then have l: "length (abi_in abi) = RegCount" "length (abi_out abi) = RegCount" using assign_out_words(1) [OF out] by (simp_all add: e RegCount_def)
  have "Some (p, w) \<in> set (abi_out abi)" using x out by (auto simp: e result_words_def assign_out_def Let_def ASSERT_def split: if_splits)
  moreover have "\<not> is_input tys (Some (p, w))"
    using x output_words_pointer [of p w 0 tys] by (auto simp: result_words_def is_input_def split: option.splits)
  then have "Some (p, w) \<notin> set (abi_in abi)" using assign_in_only_inputs [of "(p, w)" tys] by (auto simp: e)
  ultimately show ?thesis using find_register_output [of "abi_in abi" "abi_out abi" p w 0] l by (auto simp: GetRegisterIndex_def)
qed

text \<open>
  C19: For every signature whose convention can be derived, each word of each input parameter is read from a register of its
  own among r0 to r7, and each word of the result and of each output parameter is written to a register of its own among them.
\<close>
theorem svc_registers:
  assumes "GetSVCABI R tys = Some abi"
  shows "inj_on (\<lambda>(p, w). GetRegisterIndex abi p w) (input_words tys) \<and> (\<lambda>(p, w). GetRegisterIndex abi p w) ` input_words tys \<subseteq> {..<8}
    \<and> inj_on (\<lambda>(p, w). GetRegisterIndex abi p w) (result_words R tys) \<and> (\<lambda>(p, w). GetRegisterIndex abi p w) ` result_words R tys \<subseteq> {..<8}"
proof (intro conjI)
  have i: "GetRegisterIndex abi p w < 8 \<and> abi_in abi ! GetRegisterIndex abi p w = Some (p, w)" if "(p, w) \<in> input_words tys" for p w
    using input_register [OF assms] that by (auto simp: input_words_def RegCount_def)
  have o: "GetRegisterIndex abi p w < 8 \<and> abi_out abi ! GetRegisterIndex abi p w = Some (p, w)" if "(p, w) \<in> result_words R tys" for p w
    using output_register [OF assms that] by (simp add: RegCount_def)
  show "inj_on (\<lambda>(p, w). GetRegisterIndex abi p w) (input_words tys)" "inj_on (\<lambda>(p, w). GetRegisterIndex abi p w) (result_words R tys)"
    using i o by (auto intro!: inj_onI) (metis option.inject prod.inject)+
  show "(\<lambda>(p, w). GetRegisterIndex abi p w) ` input_words tys \<subseteq> {..<8}" "(\<lambda>(p, w). GetRegisterIndex abi p w) ` result_words R tys \<subseteq> {..<8}"
    using i o by auto
qed

theorem svc_registers_witness:
  "inj_on (\<lambda>(p, w). GetRegisterIndex \<lparr>abi_in = [Some (Param 4, 0), Some (Param 1, 0), Some (Param 2, 0), Some (Param 3, 0), Some (Param 4, 1), None, None, None],
       abi_out = [Some (INDEX_RETURN, 0), Some (Param 0, 0), None, None, None, None, None, None]\<rparr> p w)
     (input_words [T_pointer T_s32, T_u32, T_s32, T_bool, T_s64])"
proof -
  have "GetSVCABI (Some (T_class 4)) [T_pointer T_s32, T_u32, T_s32, T_bool, T_s64]
    = Some \<lparr>abi_in = [Some (Param 4, 0), Some (Param 1, 0), Some (Param 2, 0), Some (Param 3, 0), Some (Param 4, 1), None, None, None],
       abi_out = [Some (INDEX_RETURN, 0), Some (Param 0, 0), None, None, None, None, None, None]\<rparr>"
    by code_simp
  from svc_registers [OF this] show ?thesis by blast
qed

section \<open>The table of calls\<close>

text \<open>The entries of \<^verbatim>\<open>SVC_Table\<close> that have a function, with the signature the function has in \<^verbatim>\<open>class SVC\<close>.\<close>

definition SVC_Table :: "(nat \<times> string \<times> abi_type option \<times> abi_type list) list" where
  "SVC_Table = [
     (0x01, ''ControlMemory'', Some (T_class 4), [T_pointer T_u32, T_u32, T_u32, T_u32, T_u32, T_u32]),
     (0x02, ''QueryMemory'', Some (T_class 4), [T_pointer (T_class 16), T_pointer (T_class 4), T_u32]),
     (0x03, ''ExitProcess'', None, []),
     (0x08, ''CreateThread'', Some (T_class 4), [T_pointer T_u32, T_u32, T_u32, T_u32, T_u32, T_s32]),
     (0x09, ''ExitThread'', None, []),
     (0x0A, ''SleepThread'', None, [T_s64]),
     (0x0B, ''GetThreadPriority'', Some (T_class 4), [T_pointer T_u32, T_u32]),
     (0x0C, ''SetThreadPriority'', Some (T_class 4), [T_u32, T_u32]),
     (0x13, ''CreateMutex'', Some (T_class 4), [T_pointer T_u32, T_u32]),
     (0x14, ''ReleaseMutex'', Some (T_class 4), [T_u32]),
     (0x15, ''CreateSemaphore'', Some (T_class 4), [T_pointer T_u32, T_s32, T_s32]),
     (0x16, ''ReleaseSemaphore'', Some (T_class 4), [T_pointer T_s32, T_u32, T_s32]),
     (0x17, ''CreateEvent'', Some (T_class 4), [T_pointer T_u32, T_u32]),
     (0x18, ''SignalEvent'', Some (T_class 4), [T_u32]),
     (0x19, ''ClearEvent'', Some (T_class 4), [T_u32]),
     (0x1A, ''CreateTimer'', Some (T_class 4), [T_pointer T_u32, T_u32]),
     (0x1B, ''SetTimer'', Some (T_class 4), [T_u32, T_s64, T_s64]),
     (0x1C, ''CancelTimer'', Some (T_class 4), [T_u32]),
     (0x1D, ''ClearTimer'', Some (T_class 4), [T_u32]),
     (0x1E, ''CreateMemoryBlock'', Some (T_class 4), [T_pointer T_u32, T_u32, T_u32, T_u32, T_u32]),
     (0x1F, ''MapMemoryBlock'', Some (T_class 4), [T_u32, T_u32, T_u32, T_u32]),
     (0x20, ''UnmapMemoryBlock'', Some (T_class 4), [T_u32, T_u32]),
     (0x21, ''CreateAddressArbiter'', Some (T_class 4), [T_pointer T_u32]),
     (0x22, ''ArbitrateAddress'', Some (T_class 4), [T_u32, T_u32, T_u32, T_u32, T_s64]),
     (0x23, ''CloseHandle'', Some (T_class 4), [T_u32]),
     (0x24, ''WaitSynchronization1'', Some (T_class 4), [T_u32, T_s64]),
     (0x25, ''WaitSynchronizationN'', Some (T_class 4), [T_pointer T_s32, T_u32, T_s32, T_bool, T_s64]),
     (0x27, ''DuplicateHandle'', Some (T_class 4), [T_pointer T_u32, T_u32]),
     (0x28, ''GetSystemTick'', Some T_s64, []),
     (0x2A, ''GetSystemInfo'', Some (T_class 4), [T_pointer T_s64, T_u32, T_s32]),
     (0x2B, ''GetProcessInfo'', Some (T_class 4), [T_pointer T_s64, T_u32, T_u32]),
     (0x2D, ''ConnectToPort'', Some (T_class 4), [T_pointer T_u32, T_u32]),
     (0x32, ''SendSyncRequest'', Some (T_class 4), [T_u32]),
     (0x35, ''GetProcessId'', Some (T_class 4), [T_pointer T_u32, T_u32]),
     (0x36, ''GetProcessIdOfThread'', Some (T_class 4), [T_pointer T_u32, T_u32]),
     (0x37, ''GetThreadId'', Some (T_class 4), [T_pointer T_u32, T_u32]),
     (0x38, ''GetResourceLimit'', Some (T_class 4), [T_pointer T_u32, T_u32]),
     (0x39, ''GetResourceLimitLimitValues'', Some (T_class 4), [T_u32, T_u32, T_u32, T_u32]),
     (0x3A, ''GetResourceLimitCurrentValues'', Some (T_class 4), [T_u32, T_u32, T_u32, T_u32]),
     (0x3C, ''Break'', None, [T_u8]),
     (0x3D, ''OutputDebugString'', None, [T_u32, T_s32]),
     (0x47, ''CreatePort'', Some (T_class 4), [T_pointer T_u32, T_pointer T_u32, T_u32, T_u32]),
     (0x48, ''CreateSessionToPort'', Some (T_class 4), [T_pointer T_u32, T_u32]),
     (0x49, ''CreateSession'', Some (T_class 4), [T_pointer T_u32, T_pointer T_u32]),
     (0x4A, ''AcceptSession'', Some (T_class 4), [T_pointer T_u32, T_u32]),
     (0x4F, ''ReplyAndReceive'', Some (T_class 4), [T_pointer T_s32, T_u32, T_s32, T_u32]),
     (0x7D, ''QueryProcessMemory'', Some (T_class 4), [T_pointer (T_class 16), T_pointer (T_class 4), T_u32, T_u32])]"

definition GetSVCInfo :: "nat \<Rightarrow> (string \<times> abi_type option \<times> abi_type list) option" where
  "GetSVCInfo func_num = map_of SVC_Table func_num"

lemma table_compiles: "list_all (\<lambda>(n, name, R, tys). GetSVCABI R tys \<noteq> None) SVC_Table"
  by code_simp

lemma GetSVCInfo_abi: "GetSVCInfo n = Some (name, R, tys) \<Longrightarrow> \<exists>abi. GetSVCABI R tys = Some abi"
  using table_compiles map_of_SomeD [of SVC_Table n "(name, R, tys)"] by (auto simp: GetSVCInfo_def list_all_iff)

section \<open>Passing values\<close>

lemma ucast_halves:
  fixes v :: "64 word"
  shows "ucast (ucast (v AND 0xFFFFFFFF) :: u32) OR push_bit 32 (ucast (ucast (drop_bit 32 v) :: u32)) = v"
proof (rule bit_word_eqI)
  have m: "(0xFFFFFFFF :: 64 word) = mask 32" by (simp add: mask_eq_exp_minus_1)
  fix n assume "n < LENGTH(64)"
  then show "bit (ucast (ucast (v AND 0xFFFFFFFF) :: u32) OR push_bit 32 (ucast (ucast (drop_bit 32 v) :: u32)) :: 64 word) n = bit v n"
    unfolding m by (cases "n < 32") (auto simp: bit_simps)
qed

text \<open>
  A 64-bit argument that the caller puts into the registers of a parameter is the value the call gets for it, and the
  other words passed in registers are not disturbed.
\<close>
theorem svc_pass_64:
  assumes abi: "GetSVCABI R tys = Some abi" and i: "i < length tys" "tys ! i \<in> {T_u64, T_s64}"
  shows "GetParam64 abi i (SetParam64 abi (Param i) v regs) = v
    \<and> (\<forall>(p, w) \<in> input_words tys. p \<noteq> Param i \<longrightarrow> SetParam64 abi (Param i) v regs (GetRegisterIndex abi p w) = regs (GetRegisterIndex abi p w))"
proof -
  have m: "(Param i, 0) \<in> input_words tys" "(Param i, 1) \<in> input_words tys" using i by (auto simp: input_words_def WordSize_def)
  have r: "abi_in abi ! GetRegisterIndex abi p w = Some (p, w)" if "(p, w) \<in> input_words tys" for p w
    using input_register [OF abi] that by (auto simp: input_words_def)
  have "GetRegisterIndex abi (Param i) 0 \<noteq> GetRegisterIndex abi (Param i) 1" using r [OF m(1)] r [OF m(2)] by auto
  then have "GetParam64 abi i (SetParam64 abi (Param i) v regs) = v" by (simp add: GetParam64_def SetParam64_def Let_def ucast_halves)
  moreover have "SetParam64 abi (Param i) v regs (GetRegisterIndex abi p w) = regs (GetRegisterIndex abi p w)"
    if "(p, w) \<in> input_words tys" "p \<noteq> Param i" for p w
  proof -
    have "GetRegisterIndex abi p w \<noteq> GetRegisterIndex abi (Param i) 0" "GetRegisterIndex abi p w \<noteq> GetRegisterIndex abi (Param i) 1"
      using r [OF that(1)] r [OF m(1)] r [OF m(2)] that(2) by auto
    then show ?thesis by (simp add: SetParam64_def)
  qed
  ultimately show ?thesis by auto
qed

definition SetTimer_abi :: SVCABI where
  "SetTimer_abi = \<lparr>abi_in = [Some (Param 0, 0), Some (Param 2, 0), Some (Param 1, 0), Some (Param 1, 1), Some (Param 2, 1), None, None, None],
     abi_out = [Some (INDEX_RETURN, 0), None, None, None, None, None, None, None]\<rparr>"

theorem svc_pass_64_witness:
  "GetParam64 SetTimer_abi 2 (SetParam64 SetTimer_abi (Param 2) 0x1122334455667788 (\<lambda>_. 0)) = 0x1122334455667788
   \<and> SetParam64 SetTimer_abi (Param 2) 0x1122334455667788 (\<lambda>_. 0) 4 = 0x11223344"
proof -
  have "GetSVCABI (Some (T_class 4)) [T_u32, T_s64, T_s64] = Some SetTimer_abi" by code_simp
  from svc_pass_64 [OF this, of 2 "0x1122334455667788" "\<lambda>_. 0"]
  have "GetParam64 SetTimer_abi 2 (SetParam64 SetTimer_abi (Param 2) 0x1122334455667788 (\<lambda>_. 0)) = 0x1122334455667788" by simp
  moreover have "SetParam64 SetTimer_abi (Param 2) 0x1122334455667788 (\<lambda>_. 0) 4 = 0x11223344" by code_simp
  ultimately show ?thesis by blast
qed

end
