(* ===== verification/Svc_Call.thy ===== *)
theory Svc_Call
  imports System_Inv Svc_Abi
begin

text \<open>
  The entry of system calls, \<^verbatim>\<open>SVC::CallSVC\<close> with \<^verbatim>\<open>SVCWrapper::Wrap\<close>: the arguments are read from the registers of the
  running core by the calling convention, the call is made, and its result and outputs are written to the registers. What
  a call sees of the rest of the emulator is its environment. The calls \<open>unmodelled\<close> are those on process memory, memory
  blocks and system information, \<^verbatim>\<open>ExitProcess\<close> and \<^verbatim>\<open>ReplyAndReceive\<close>; here they do not return.
\<close>

section \<open>Environment\<close>

text \<open>
  Which addresses of the calling process are valid, the result of the linear heap allocation for thread-local storage, the
  number of cores, the named ports, strings in memory, the HLE handlers, and the value of an output variable that a call
  has not set, which C++ leaves indeterminate.
\<close>

record Env =
  valid_address :: "nat \<Rightarrow> bool"
  linear_offset :: "nat option"
  num_cores :: nat
  named_ports :: "string \<rightharpoonup> oid"
  read_string :: "nat \<Rightarrow> string"
  hle_handlers :: "oid \<Rightarrow> oid \<Rightarrow> Kernel \<Rightarrow> Kernel run"
  indeterminate :: u32

definition registers_of :: "System \<Rightarrow> registers" where
  "registers_of s = cpu_context (kernel s) (current_cpu (kernel s))"

definition set_registers :: "registers \<Rightarrow> System \<Rightarrow> System" where
  "set_registers regs s = set_kernel ((kernel s)\<lparr>cpu_context := (cpu_context (kernel s))(current_cpu (kernel s) := regs)\<rparr>) s"

section \<open>Replies\<close>

datatype word_value = W32 u32 | W64 u64

type_synonym outputs = "(param_index \<times> word_value) list"

definition SetParams :: "SVCABI \<Rightarrow> outputs \<Rightarrow> registers \<Rightarrow> registers" where
  "SetParams abi outs regs =
     foldl (\<lambda>regs (p, v). case v of W32 w \<Rightarrow> SetParam32 abi p w regs | W64 w \<Rightarrow> SetParam64 abi p w regs) regs outs"

definition reply_code :: "(ResultCode \<times> System) run \<Rightarrow> (outputs \<times> System) run" where
  "reply_code r = map_option (\<lambda>(c, s). ([(INDEX_RETURN, W32 (raw c))], s)) r"

definition reply_value :: "Env \<Rightarrow> ('a \<Rightarrow> u32) \<Rightarrow> ('a ResultVal \<times> System) run \<Rightarrow> (outputs \<times> System) run" where
  "reply_value env f r = map_option (\<lambda>(v, s). ([(INDEX_RETURN, W32 (raw (Code v))),
      (Param 0, W32 (case rv_object v of None \<Rightarrow> indeterminate env | Some x \<Rightarrow> f x))], s)) r"

definition reply_pair :: "Env \<Rightarrow> ((Handle \<times> Handle) ResultVal \<times> System) run \<Rightarrow> (outputs \<times> System) run" where
  "reply_pair env r = map_option (\<lambda>(v, s). ([(INDEX_RETURN, W32 (raw (Code v))),
      (Param 1, W32 (case rv_object v of None \<Rightarrow> indeterminate env | Some (_, b) \<Rightarrow> b)),
      (Param 0, W32 (case rv_object v of None \<Rightarrow> indeterminate env | Some (a, _) \<Rightarrow> a))], s)) r"

definition with_state :: "System \<Rightarrow> 'a run \<Rightarrow> ('a \<times> System) run" where
  "with_state s r = map_option (\<lambda>x. (x, s)) r"

definition unmodelled :: "nat \<Rightarrow> bool" where
  "unmodelled n \<longleftrightarrow> n \<in> {0x01, 0x02, 0x03, 0x1E, 0x1F, 0x20, 0x2A, 0x2B, 0x4F, 0x7D}"

section \<open>The calls\<close>

definition svc_body :: "Env \<Rightarrow> nat \<Rightarrow> SVCABI \<Rightarrow> registers \<Rightarrow> System \<Rightarrow> (outputs \<times> System) run" where
  "svc_body env n abi regs s =
     (let a = (\<lambda>i. GetParam32 abi i regs); addr = (\<lambda>i. unat (GetParam32 abi i regs)); i32 = (\<lambda>i. sint (GetParam32 abi i regs));
          i64 = (\<lambda>i. sint (GetParam64 abi i regs))
      in if n = 0x08 then reply_value env id (SVC_CreateThread (valid_address env (addr 1)) (linear_offset env) (num_cores env) (addr 1) (a 2) (addr 3) (addr 4) (i32 5) s)
         else if n = 0x09 then map_option (Pair []) (SVC_ExitThread s)
         else if n = 0x0A then map_option (Pair []) (SVC_SleepThread (i64 0) s)
         else if n = 0x0B then reply_value env of_nat (with_state s (SVC_GetThreadPriority (a 1) s))
         else if n = 0x0C then reply_code (SVC_SetThreadPriority (a 0) (addr 1) s)
         else if n = 0x13 then reply_value env id (SVC_CreateMutex (a 1) s)
         else if n = 0x14 then reply_code (SVC_ReleaseMutex (a 0) s)
         else if n = 0x15 then reply_value env id (SVC_CreateSemaphore (i32 1) (i32 2) s)
         else if n = 0x16 then reply_value env of_int (SVC_ReleaseSemaphore (a 1) (i32 2) s)
         else if n = 0x17 then reply_value env id (SVC_CreateEvent (a 1) s)
         else if n = 0x18 then reply_code (SVC_SignalEvent (a 0) s)
         else if n = 0x19 then reply_code (SVC_ClearEvent (a 0) s)
         else if n = 0x1A then reply_value env id (SVC_CreateTimer (a 1) s)
         else if n = 0x1B then reply_code (SVC_SetTimer (a 0) (i64 1) (i64 2) s)
         else if n = 0x1C then reply_code (SVC_CancelTimer (a 0) s)
         else if n = 0x1D then reply_code (SVC_ClearTimer (a 0) s)
         else if n = 0x21 then reply_value env id (SVC_CreateAddressArbiter s)
         else if n = 0x22 then reply_code (SVC_ArbitrateAddress (a 0) (addr 1) (a 2) (a 3) (i64 4) s)
         else if n = 0x23 then reply_code (SVC_CloseHandle (a 0) s)
         else if n = 0x24 then reply_code (SVC_WaitSynchronization1 (a 0) (i64 1) s)
         else if n = 0x25 then map_option (\<lambda>(c, out, s). ([(INDEX_RETURN, W32 (raw c)),
                (Param 0, W32 (case out of None \<Rightarrow> indeterminate env | Some i \<Rightarrow> of_int i))], s))
                (SVC_WaitSynchronizationN (valid_address env (addr 1)) (addr 1) (i32 2) (GetParam_bool abi 3 regs) (i64 4) s)
         else if n = 0x27 then reply_value env id (SVC_DuplicateHandle (a 1) s)
         else if n = 0x28 then map_option (\<lambda>(t, s). ([(INDEX_RETURN, W64 (word_of_int t))], s)) (SVC_GetSystemTick s)
         else if n = 0x2D then reply_value env id (SVC_ConnectToPort (valid_address env (addr 1)) (named_ports env) (read_string env (addr 1)) s)
         else if n = 0x32 then reply_code (SVC_SendSyncRequest (hle_handlers env) (a 0) s)
         else if n = 0x35 then reply_value env of_nat (with_state s (SVC_GetProcessId (a 1) s))
         else if n = 0x36 then reply_value env of_nat (with_state s (SVC_GetProcessIdOfThread (a 1) s))
         else if n = 0x37 then reply_value env of_nat (with_state s (SVC_GetThreadId (a 1) s))
         else if n = 0x38 then reply_value env id (SVC_GetResourceLimit (a 1) s)
         else if n = 0x39 then reply_code (SVC_GetResourceLimitLimitValues (addr 0) (a 1) (addr 2) (addr 3) s)
         else if n = 0x3A then reply_code (SVC_GetResourceLimitCurrentValues (addr 0) (a 1) (addr 2) (addr 3) s)
         else if n = 0x3C then Some ([], s)
         else if n = 0x3D then Some ([], s)
         else if n = 0x47 then reply_pair env (SVC_CreatePort (addr 2) (addr 3) s)
         else if n = 0x48 then reply_value env id (SVC_CreateSessionToPort (a 1) s)
         else if n = 0x49 then reply_pair env (SVC_CreateSession s)
         else if n = 0x4A then reply_value env id (SVC_AcceptSession (a 1) s)
         else None)"

text \<open>A number without a function is only logged.\<close>

definition CallSVC :: "Env \<Rightarrow> nat \<Rightarrow> System \<Rightarrow> System run" where
  "CallSVC env n s =
     (case GetSVCInfo n of
        None \<Rightarrow> Some s
      | Some (name, R, tys) \<Rightarrow> do {
          abi \<leftarrow> GetSVCABI R tys;
          (outs, s) \<leftarrow> svc_body env n abi (registers_of s) s;
          Some (set_registers (SetParams abi outs (registers_of s)) s) })"

section \<open>Every call returns\<close>

text \<open>
  The arguments the kernel does not check and that make one of its assertions fail or an integer overflow: a processor that
  is not one of the machine, negative counts of a semaphore, an arbitrated word that cannot be decremented, waiting for all
  of several handles of which two refer to the same object, and a port with a name.
\<close>

definition call_ok :: "Env \<Rightarrow> nat \<Rightarrow> SVCABI \<Rightarrow> registers \<Rightarrow> System \<Rightarrow> oid \<Rightarrow> bool" where
  "call_ok env n abi regs s t \<longleftrightarrow>
     (n = 0x08 \<longrightarrow> core_ok (num_cores env) (ideal_processor (processes s (owner_process (threads (kernel s) t)))) (sint (GetParam32 abi 5 regs)))
   \<and> (n = 0x15 \<longrightarrow> 0 \<le> sint (GetParam32 abi 1 regs))
   \<and> (n = 0x16 \<longrightarrow> 0 \<le> sint (GetParam32 abi 2 regs))
   \<and> (n = 0x22 \<longrightarrow> decrementing (ArbitrationType_of (GetParam32 abi 2 regs)) \<longrightarrow> - (2 ^ 31) < Read32 (unat (GetParam32 abi 1 regs)) (kernel s))
   \<and> (n = 0x25 \<longrightarrow> GetParam_bool abi 3 regs \<longrightarrow>
        (\<forall>ws. read_objects (unat (GetParam32 abi 1 regs)) (nat (sint (GetParam32 abi 2 regs))) s = Some (Some ws) \<longrightarrow> distinct ws))
   \<and> (n = 0x47 \<longrightarrow> unat (GetParam32 abi 2 regs) = 0)"

definition env_ok :: "Env \<Rightarrow> System \<Rightarrow> bool" where
  "env_ok env s \<longleftrightarrow> hle_contract (hle_handlers env) \<and> (\<forall>cp \<in> ran (named_ports env). valid_ref (kernel s) (HT_ClientPort, cp))"

definition acceptable :: "Env \<Rightarrow> nat \<Rightarrow> System \<Rightarrow> oid \<Rightarrow> bool" where
  "acceptable env n s t \<longleftrightarrow> \<not> unmodelled n \<and> env_ok env s
     \<and> (\<forall>name R tys abi. GetSVCInfo n = Some (name, R, tys) \<longrightarrow> GetSVCABI R tys = Some abi \<longrightarrow> call_ok env n abi (registers_of s) s t)"

lemma fine_replies:
  "fine r \<Longrightarrow> fine (reply_code r)" "fine r' \<Longrightarrow> fine (reply_value env f r')" "fine r'' \<Longrightarrow> fine (reply_pair env r'')"
  by (auto simp: fine_def reply_code_def reply_value_def reply_pair_def)

lemma fine_read:
  assumes "sys_inv s" "runs s t"
  shows "fine (with_state s (SVC_GetThreadPriority h s))" "fine (with_state s (SVC_GetProcessId h s))"
    "fine (with_state s (SVC_GetProcessIdOfThread h s))" "fine (with_state s (SVC_GetThreadId h s))"
  using Get_valid [OF assms, of HT_Thread h] Get_valid [OF assms, of HT_Process h] assms(1)
  by (auto simp: with_state_def SVC_GetThreadPriority_def SVC_GetProcessId_def SVC_GetProcessIdOfThread_def SVC_GetThreadId_def fine_def
      split: option.splits)

lemma fine_no_result: "\<exists>s'. r = Some s' \<and> sys_inv s' \<Longrightarrow> fine (map_option (Pair []) r)"
  by (auto simp: fine_def)

lemma s32_bound: "sint (x :: u32) < 2 ^ 31"
  using sint_lt [of x] by simp

lemma table_numbers: "GetSVCInfo n = Some x \<Longrightarrow> n \<in> set (map fst SVC_Table)"
  unfolding GetSVCInfo_def by (metis domI map_of_eq_None_iff not_None_eq list.set_map)

lemma fine_svc_body:
  assumes s: "sys_inv s" "runs s t" and n: "GetSVCInfo n = Some x" "\<not> unmodelled n" and ok: "call_ok env n abi regs s t" "env_ok env s"
  shows "fine (svc_body env n abi regs s)"
proof -
  note C = ok(1) [unfolded call_ok_def] and E = ok(2) [unfolded env_ok_def]
  have N: "fine (map_option (\<lambda>(c, out, s). ([(INDEX_RETURN, W32 (raw c)),
      (Param 0, W32 (case out of None \<Rightarrow> indeterminate env | Some i \<Rightarrow> of_int i))], s)) (SVC_WaitSynchronizationN v a' c w ns s))"
    if "w \<longrightarrow> (\<forall>ws. read_objects a' (nat c) s = Some (Some ws) \<longrightarrow> distinct ws)" for v a' c w ns
    using fine_WaitSynchronizationN [OF s that, of v ns] by (auto simp: fine_def)
  have T: "fine (map_option (\<lambda>(t, s). ([(INDEX_RETURN, W64 (word_of_int t))], s)) (SVC_GetSystemTick s))"
    using fine_GetSystemTick [OF s(1)] by (auto simp: fine_def)
  have X: "\<exists>s'. SVC_ExitThread s = Some s' \<and> sys_inv s'" using fine_ExitThread [OF s] by blast
  have "n \<in> set (map fst SVC_Table)" using table_numbers [OF n(1)] .
  then have "n \<in> {0x08, 0x09, 0x0A, 0x0B, 0x0C, 0x13, 0x14, 0x15, 0x16, 0x17, 0x18, 0x19, 0x1A, 0x1B, 0x1C, 0x1D, 0x21, 0x22, 0x23, 0x24, 0x25, 0x27,
      0x28, 0x2D, 0x32, 0x35, 0x36, 0x37, 0x38, 0x39, 0x3A, 0x3C, 0x3D, 0x47, 0x48, 0x49, 0x4A}"
    using n(2) by (auto simp: SVC_Table_def unmodelled_def)
  then show ?thesis using C E s32_bound
    by (elim insertE emptyE) (simp_all add: svc_body_def Let_def fine_replies fine_read [OF s] fine_no_result X N T fineI s
      fine_CreateThread [OF s] fine_SleepThread [OF s] fine_SetThreadPriority [OF s] fine_CreateMutex [OF s] fine_ReleaseMutex [OF s]
      fine_CreateSemaphore [OF s] fine_ReleaseSemaphore [OF s] fine_CreateEvent [OF s] fine_SignalEvent [OF s] fine_ClearEvent [OF s]
      fine_CreateTimer [OF s] fine_SetTimer [OF s] fine_CancelTimer [OF s] fine_ClearTimer [OF s] fine_CreateAddressArbiter [OF s]
      fine_ArbitrateAddress [OF s] fine_CloseHandle [OF s] fine_WaitSynchronization1 [OF s] fine_DuplicateHandle [OF s] fine_ConnectToPort [OF s]
      fine_SendSyncRequest [OF s] fine_GetResourceLimit [OF s] fine_GetResourceLimitCurrentValues [OF s] fine_CreatePort [OF s]
      fine_CreateSessionToPort [OF s] fine_CreateSession [OF s] fine_AcceptSession [OF s])
qed

lemma sys_inv_registers:
  assumes "sys_inv s"
  shows "sys_inv (set_registers regs s)"
  unfolding set_registers_def by (rule sys_inv_set_kernel [OF assms], rule kept_same [OF sys_invD(1) [OF assms]]) simp_all

lemma CallSVC_returns:
  assumes "sys_inv s" "runs s t" "acceptable env n s t"
  shows "\<exists>s'. CallSVC env n s = Some s' \<and> sys_inv s'"
proof (cases "GetSVCInfo n")
  case None
  then show ?thesis using assms(1) by (simp add: CallSVC_def)
next
  case (Some x)
  obtain name R tys where x: "x = (name, R, tys)" by (cases x)
  obtain abi where abi: "GetSVCABI R tys = Some abi" using GetSVCInfo_abi Some x by blast
  have ok: "\<not> unmodelled n" "call_ok env n abi (registers_of s) s t" "env_ok env s"
    using assms(3) Some x abi by (auto simp: acceptable_def)
  obtain outs s' where "svc_body env n abi (registers_of s) s = Some (outs, s')" "sys_inv s'"
    using fine_svc_body [OF assms(1,2) Some ok] by (auto simp: fine_def)
  then show ?thesis using Some x abi sys_inv_registers by (simp add: CallSVC_def)
qed

text \<open>
  C5: Every system call that a running thread makes with acceptable arguments returns: no assertion of the kernel fails in
  it, no loop of it runs forever, and afterwards the scheduler's queues, the lists of waiting threads, the handle tables and
  the types of all objects are consistent again. Handles, addresses, priorities, counts and timeouts may be arbitrary words.
\<close>
theorem CallSVC_safe:
  assumes "sys_inv s" "runs s t" "acceptable env n s t"
  shows "\<exists>s'. CallSVC env n s = Some s' \<and> sys_inv s'"
  using CallSVC_returns [OF assms] .

section \<open>The machine\<close>

text \<open>
  \<^verbatim>\<open>KernelSystem::SetRunningCPU\<close>. A core that has no process of its own yet keeps the current one.
\<close>

definition SetRunningCPU :: "nat \<Rightarrow> Kernel \<Rightarrow> Kernel" where
  "SetRunningCPU c k = k\<lparr>current_cpu := c, k_timing := SetCurrentTimer c (k_timing k),
     cpu_process := (if cpu_process k c = None then (cpu_process k)(c := cpu_process k (current_cpu k)) else cpu_process k)\<rparr>"

definition SetupMainThread :: "nat option \<Rightarrow> nat \<Rightarrow> nat \<Rightarrow> nat \<Rightarrow> oid \<Rightarrow> int \<Rightarrow> nat \<Rightarrow> Kernel \<Rightarrow> (oid \<times> Kernel) run" where
  "SetupMainThread lin entry priority stack process ideal cores k = do {
     (r, k) \<leftarrow> CreateThread True lin entry priority 0 ideal stack process cores k;
     t \<leftarrow> Unwrap r;
     Some (t, upd_thread t (\<lambda>x. x\<lparr>thread_context := (thread_context x)(17 := 0x03C00010)\<rparr>) k)
   }"

text \<open>
  What happens to the system: a running thread computes or makes a call, a core chooses its next thread or another core is
  run, time passes, a thread's timeout or a timer expires, a process is given its first thread.
\<close>

inductive sys_step :: "Env \<Rightarrow> System \<Rightarrow> System \<Rightarrow> bool" for env where
  call: "runs s t \<Longrightarrow> acceptable env n s t \<Longrightarrow> CallSVC env n s = Some s' \<Longrightarrow> sys_step env s s'"
| compute: "runs s t \<Longrightarrow> sys_step env s (set_registers regs (set_kernel ((kernel s)\<lparr>k_memory := m\<rparr>) s))"
| reschedule: "Reschedule (current_cpu (kernel s)) (kernel s) = Some k \<Longrightarrow> sys_step env s (set_kernel k s)"
| run_core: "c < length (timers (k_timing (kernel s))) \<Longrightarrow> sys_step env s (set_kernel (SetRunningCPU c (kernel s)) s)"
| time: "current_timer tm = current_timer (k_timing (kernel s)) \<Longrightarrow> length (timers tm) = length (timers (k_timing (kernel s)))
    \<Longrightarrow> sys_step env s (set_kernel ((kernel s)\<lparr>k_timing := tm\<rparr>) s)"
| timeout: "wakeup_callback_table (managers (kernel s) c) tid = Some t \<Longrightarrow> status (threads (kernel s) t) \<noteq> Dormant
    \<Longrightarrow> (status (threads (kernel s) t) = WaitArb \<longrightarrow> wakeup_callback (threads (kernel s) t) \<noteq> None)
    \<Longrightarrow> ThreadWakeupCallback c tid (kernel s) = Some k \<Longrightarrow> sys_step env s (set_kernel k s)"
| timer: "timer_table (kernel s) n = Some w \<Longrightarrow> TimerCallback n late (kernel s) = Some k \<Longrightarrow> sys_step env s (set_kernel k s)"
| start: "0 \<le> ideal \<Longrightarrow> ideal < int cores \<Longrightarrow> SetupMainThread lin entry priority stack p ideal cores (kernel s) = Some (t, k)
    \<Longrightarrow> sys_step env s (set_kernel k s)"

lemma kernel_inv_SetRunningCPU:
  assumes "kernel_inv k" "c < length (timers (k_timing k))"
  shows "kernel_inv (SetRunningCPU c k)"
proof -
  note K = kernel_invD [OF assms(1)]
  let ?k = "SetRunningCPU c k"
  have e: "threads ?k = threads k" "wait_object ?k = wait_object k" "managers ?k = managers k" "arbiter_waiting ?k = arbiter_waiting k"
    "next_object ?k = next_object k" "timer_table ?k = timer_table k" "tls_slots ?k = tls_slots k" by (simp_all add: SetRunningCPU_def)
  have kd: "kind ?k = kind k" by (simp add: kind_def e fun_eq_iff)
  have "cpu_process ?k d = cpu_process k d" if "cpu_process k d \<noteq> None" for d using that by (auto simp: SetRunningCPU_def)
  then have "owner_inv ?k" using K(7) unfolding owner_inv_def e by (metis option.distinct(1))
  moreover have "sched_inv ?k" using K(1) by (subst sched_inv_cong [where k = k]) (simp_all add: e)
  moreover have "wait_inv ?k" "cpu_inv ?k" "arb_inv ?k" "fresh_inv ?k" "kind_inv ?k"
    using K(2-6) by (simp_all add: wait_inv_def cpu_inv_def arb_inv_def arbiter_inv_def fresh_inv_def kind_inv_def e kd)
  moreover have "can_schedule ?k" using assms(2) by (simp add: can_schedule_def SetRunningCPU_def SetCurrentTimer_def)
  moreover have "arb_listed ?k" by (rule arb_listed_cong [OF K(10) e(1,4)])
  ultimately show ?thesis by (simp add: kernel_inv_def kernel_base_def)
qed

text \<open>Steps that keep all objects where they are.\<close>

lemma sys_inv_same_objects:
  assumes "sys_inv s" "kernel_inv k" "next_object k = next_object (kernel s)" "wait_object k = wait_object (kernel s)"
    "client_ports k = client_ports (kernel s)" "client_sessions k = client_sessions (kernel s)"
  shows "sys_inv (set_kernel k s)"
proof -
  have "kind k = kind (kernel s)" using assms(4) by (simp add: kind_def fun_eq_iff)
  then have "valid_ref k (ty, i) = valid_ref (kernel s) (ty, i)" for ty i using assms(3-6) by (cases ty) simp_all
  then have "valid_ref k = valid_ref (kernel s)" by (auto simp: fun_eq_iff)
  then show ?thesis using assms(1,2) by (simp add: sys_inv_def table_ok_def)
qed

lemma sys_step_inv:
  assumes "sys_step env s s'" "sys_inv s"
  shows "sys_inv s'"
  using assms
proof cases
  case (call t n)
  then show ?thesis using CallSVC_returns [OF assms(2)] by fastforce
next
  case (compute t regs m)
  then show ?thesis using sys_inv_registers sys_inv_set_kernel [OF assms(2) kept_memory [OF sys_invD(1) [OF assms(2)]]] by simp
next
  case (reschedule k)
  obtain k' where "Reschedule (current_cpu (kernel s)) (kernel s) = Some k'" "kernel_inv k'" "same_rest (kernel s) k'"
    using kernel_inv_Reschedule [OF sys_invD(1) [OF assms(2)]] by blast
  then show ?thesis using reschedule sys_inv_same_objects [OF assms(2)] by (simp add: same_rest_def)
next
  case (run_core c)
  then show ?thesis
    using sys_inv_same_objects [OF assms(2) kernel_inv_SetRunningCPU [OF sys_invD(1) [OF assms(2)]], of c] by (simp add: SetRunningCPU_def)
next
  case (time tm)
  then show ?thesis using sys_inv_set_kernel [OF assms(2) kept_same [OF sys_invD(1) [OF assms(2)]]] by simp
next
  case (timeout c tid t k)
  then show ?thesis using kept_ThreadWakeupCallback [OF sys_invD(1) [OF assms(2)] timeout(2,3,4)] sys_inv_set_kernel [OF assms(2)] by auto
next
  case (timer n w late k)
  then show ?thesis using kept_TimerCallback [OF sys_invD(1) [OF assms(2)] timer(2), of late] sys_inv_set_kernel [OF assms(2)] by auto
next
  case (start ideal cores lin entry priority stack p t k)
  obtain r k1 where k1: "CreateThread True lin entry priority 0 ideal stack p cores (kernel s) = Some (r, k1)" "kept (kernel s) k1"
    using kept_CreateThread [OF sys_invD(1) [OF assms(2)] start(2,3)] by blast
  then have "k = upd_thread t (\<lambda>x. x\<lparr>thread_context := (thread_context x)(17 := 0x03C00010)\<rparr>) k1"
    using start(4) by (auto simp: SetupMainThread_def bind_eq_Some_conv)
  moreover have "kept k1 (upd_thread t (\<lambda>x. x\<lparr>thread_context := (thread_context x)(17 := 0x03C00010)\<rparr>) k1)"
    by (rule kept_framed [OF kernel_inv_context [OF keptD(1) [OF k1(2)], where f = "\<lambda>c. c(17 := 0x03C00010)"] framed_context])
  ultimately show ?thesis using start(1) sys_inv_set_kernel [OF assms(2) kept_trans [OF k1(2)]] by simp
qed

definition boot :: "nat \<Rightarrow> (oid \<Rightarrow> Process) \<Rightarrow> (ResourceLimitCategory \<Rightarrow> ResourceLimit) \<Rightarrow> System" where
  "boot cores ps lims = \<lparr>kernel = Kernel_init cores, processes = (\<lambda>p. (ps p)\<lparr>handle_table := HandleTable_init\<rparr>), limits = lims\<rparr>"

definition reachable :: "Env \<Rightarrow> System \<Rightarrow> bool" where
  "reachable env s \<longleftrightarrow> (\<exists>cores ps lims. 0 < cores \<and> (sys_step env)\<^sup>*\<^sup>* (boot cores ps lims) s)"

lemma boot_inv: "0 < cores \<Longrightarrow> sys_inv (boot cores ps lims)"
  using kernel_inv_init [of cores] ht_inv_init
  by (auto simp: sys_inv_def boot_def table_ok_def HandleTable_init_def Clear_def)

lemma steps_inv: "(sys_step env)\<^sup>*\<^sup>* s s' \<Longrightarrow> sys_inv s \<Longrightarrow> sys_inv s'"
  by (induction rule: rtranclp_induct) (auto intro: sys_step_inv)

lemma reachable_inv: "reachable env s \<Longrightarrow> sys_inv s"
  unfolding reachable_def using steps_inv boot_inv by blast

section \<open>An example\<close>

definition quiet_env :: Env where
  "quiet_env = \<lparr>valid_address = (\<lambda>_. True), linear_offset = Some 0, num_cores = 1, named_ports = Map.empty, read_string = (\<lambda>_. []),
     hle_handlers = (\<lambda>w t k. Some k), indeterminate = 0\<rparr>"

lemma quiet_contract: "hle_contract (hle_handlers quiet_env)"
  by (simp add: hle_contract_def quiet_env_def kept_refl)

lemma quiet_acceptable:
  assumes "\<not> unmodelled n" "n \<notin> {0x08, 0x15, 0x16, 0x22, 0x25, 0x47}"
  shows "acceptable quiet_env n s t"
  using assms quiet_contract by (simp add: acceptable_def env_ok_def call_ok_def) (simp add: quiet_env_def)

definition some_process :: Process where
  "some_process = \<lparr>handle_table = HandleTable_init, process_limits = RL_APPLICATION, ideal_processor = 0, process_id = 1\<rparr>"

lemma main_thread_created:
  "\<exists>k. SetupMainThread (Some 0) 0x100000 48 0x10000000 0 0 1 (Kernel_init 1) = Some (0, k) \<and> status (threads k 0) = Ready
     \<and> core_id (threads k 0) = 0 \<and> current_cpu k = 0 \<and> next_object k = 1
     \<and> wakeup_callback_table (managers k 0) (thread_id (threads k 0)) = Some 0"
  by (simp add: SetupMainThread_def CreateThread_def ThreadPrioLowest_def ThreadProcessorIdMax_def Kernel_init_def Let_def upd_manager_def upd_thread_def
      upd_queue_def Unwrap_def MakeResult_def Succeeded_def fresh_thread_def IsSuccess_def RESULT_SUCCESS_def rc_is_error_def ExtractValue_def)

lemma wakeup_table_frame:
  "wakeup_callback_table (managers (upd_thread t f k) d) = wakeup_callback_table (managers k d)"
  "wakeup_callback_table (managers (upd_queue c g k) d) = wakeup_callback_table (managers k d)"
  "wakeup_callback_table (managers (suspend_previous c k) d) = wakeup_callback_table (managers k d)"
  "wakeup_callback_table (managers (SetCurrentProcessForCPU p c k) d) = wakeup_callback_table (managers k d)"
  "wakeup_callback_table (managers (upd_manager c (\<lambda>m. m\<lparr>current_thread := r\<rparr>) k) d) = wakeup_callback_table (managers k d)"
  by (simp_all add: upd_thread_def upd_queue_def upd_manager_def suspend_previous_def SetCurrentProcessForCPU_def Let_def split: option.splits)

lemma SwitchContext_wakeup_table:
  "SwitchContext c r k = Some k' \<Longrightarrow> wakeup_callback_table (managers k' d) = wakeup_callback_table (managers k d)"
  by (cases r) (auto simp: SwitchContext_def Let_def wakeup_table_frame bind_eq_Some_conv split: if_splits)

lemma PopNextReadyThread_wakeup_table:
  "PopNextReadyThread c k = Some (r, k') \<Longrightarrow> wakeup_callback_table (managers k' d) = wakeup_callback_table (managers k d)"
  by (auto simp: PopNextReadyThread_def wakeup_table_frame bind_eq_Some_conv split: option.splits if_splits)

lemma Reschedule_wakeup_table:
  "Reschedule c k = Some k' \<Longrightarrow> wakeup_callback_table (managers k' d) = wakeup_callback_table (managers k d)"
  using PopNextReadyThread_wakeup_table SwitchContext_wakeup_table
  by (fastforce simp: Reschedule_def Let_def bind_eq_Some_conv split: if_splits)

lemma running_example:
  "\<exists>s t. reachable quiet_env s \<and> sys_inv s \<and> runs s t \<and> t = 0
     \<and> wakeup_callback_table (managers (kernel s) (current_cpu (kernel s))) (thread_id (threads (kernel s) t)) = Some t"
proof -
  let ?b = "boot 1 (\<lambda>_. some_process) ResourceLimitList"
  have b: "kernel ?b = Kernel_init 1" by (simp add: boot_def)
  obtain k1 where k1: "SetupMainThread (Some 0) 0x100000 48 0x10000000 0 0 1 (Kernel_init 1) = Some (0, k1)" "status (threads k1 0) = Ready"
      "core_id (threads k1 0) = 0" and c0: "current_cpu k1 = 0" and tab: "wakeup_callback_table (managers k1 0) (thread_id (threads k1 0)) = Some 0"
      and one: "next_object k1 = 1"
    using main_thread_created by blast
  let ?s1 = "set_kernel k1 ?b"
  have s1: "sys_step quiet_env ?b ?s1" by (rule sys_step.start [where ideal = 0 and cores = 1]) (use k1(1) b in auto)
  have i1: "sys_inv ?s1" using sys_step_inv [OF s1 boot_inv] by simp
  note K = kernel_invD [OF sys_invD(1) [OF i1], unfolded kernel_set_kernel]
  obtain k2 where k2: "Reschedule 0 k1 = Some k2"
    "case current_thread (managers k2 0) of None \<Rightarrow> runnable 0 k1 = {} | Some n \<Rightarrow> best_of 0 k1 n \<and> status (threads k2 n) = Running"
    using Reschedule_best [OF K(1,3), of 0] by (auto split: option.splits)
  have "0 \<in> runnable 0 k1" using k1(2,3) by (simp add: runnable_def)
  then obtain t where t: "current_thread (managers k2 0) = Some t" "best_of 0 k1 t" "status (threads k2 t) = Running" using k2(2) by (auto split: option.splits)
  have "status (threads k1 t) \<noteq> Dormant" using t(2) by (auto simp: best_of_def runnable_def)
  then have "t = 0" using K(5) one unfolding fresh_inv_def by (metis less_one not_le)
  obtain k' where "Reschedule 0 k1 = Some k'" "same_rest k1 k'" using kernel_inv_Reschedule [OF sys_invD(1) [OF i1], of 0] by auto
  then have r: "same_rest k1 k2" using k2(1) by simp
  then have c2: "current_cpu k2 = 0" using c0 by (simp add: same_rest_def)
  have "thread_id (threads k2 t) = thread_id (threads k1 t)" using r switched_threadD(7) by (simp add: same_rest_def)
  then have tab2: "wakeup_callback_table (managers k2 0) (thread_id (threads k2 t)) = Some t"
    using Reschedule_wakeup_table [OF k2(1)] tab \<open>t = 0\<close> by simp
  let ?s2 = "set_kernel k2 ?s1"
  have s2: "sys_step quiet_env ?s1 ?s2" by (rule sys_step.reschedule) (simp add: c0 k2(1))
  have "(sys_step quiet_env)\<^sup>*\<^sup>* ?b ?s2" using s1 s2 by (meson r_into_rtranclp rtranclp.rtrancl_into_rtrancl)
  then have "reachable quiet_env ?s2" unfolding reachable_def by (metis zero_less_one)
  moreover have "runs ?s2 t" using t c2 by (simp add: runs_def GetCurrentThread_def)
  ultimately show ?thesis using sys_step_inv [OF s2 i1] c2 tab2 \<open>t = 0\<close> by auto
qed

theorem CallSVC_safe_witness:
  "\<exists>s t s'. sys_inv s \<and> runs s t \<and> CallSVC quiet_env 0x17 s = Some s' \<and> sys_inv s'"
proof -
  obtain s t where s: "sys_inv s" "runs s t" using running_example by blast
  have "acceptable quiet_env 0x17 s t" by (rule quiet_acceptable) (simp_all add: unmodelled_def)
  from CallSVC_safe [OF s this] s show ?thesis by blast
qed

end
