(* ===== verification/Machine.thy ===== *)
theory Machine
  imports Svc_Call
begin

text \<open>
  What holds in every state the machine can reach: the kernel's data agree with each other, handles refer to objects of their
  type, nothing that can happen next fails, and a thread whose timeout expires runs again.
\<close>

lemma reachable_succeeds:
  assumes "reachable env s"
  shows "runs s t \<Longrightarrow> acceptable env n s t \<Longrightarrow> \<exists>s'. CallSVC env n s = Some s' \<and> sys_step env s s'"
    and "\<exists>k. Reschedule c (kernel s) = Some k"
    and "wakeup_callback_table (managers (kernel s) c) tid = Some u \<Longrightarrow> status (threads (kernel s) u) \<noteq> Dormant
      \<Longrightarrow> (status (threads (kernel s) u) = WaitArb \<longrightarrow> wakeup_callback (threads (kernel s) u) \<noteq> None)
      \<Longrightarrow> \<exists>k. ThreadWakeupCallback c tid (kernel s) = Some k"
    and "timer_table (kernel s) m = Some w \<Longrightarrow> \<exists>k. TimerCallback m late (kernel s) = Some k"
proof -
  note I = reachable_inv [OF assms] and K = sys_invD(1) [OF reachable_inv [OF assms]]
  show "\<exists>s'. CallSVC env n s = Some s' \<and> sys_step env s s'" if "runs s t" "acceptable env n s t"
    using CallSVC_returns [OF I that] sys_step.call [OF that] by blast
  show "\<exists>k. Reschedule c (kernel s) = Some k" using kernel_inv_Reschedule [OF K] by blast
  show "\<exists>k. ThreadWakeupCallback c tid (kernel s) = Some k"
    if "wakeup_callback_table (managers (kernel s) c) tid = Some u" "status (threads (kernel s) u) \<noteq> Dormant"
      "status (threads (kernel s) u) = WaitArb \<longrightarrow> wakeup_callback (threads (kernel s) u) \<noteq> None"
    using kept_ThreadWakeupCallback [OF K that] by blast
  show "\<exists>k. TimerCallback m late (kernel s) = Some k" if "timer_table (kernel s) m = Some w"
    using kept_TimerCallback [OF K that] by blast
qed

text \<open>
  C2: In every reachable state, whatever happens next succeeds: a call of the running thread with acceptable arguments
  returns, every core can choose its next thread, an expired timeout and an expired timer are handled. The assertions in
  the scheduler, in the wake-up callbacks and in the acquisition of objects never fail, and no wake-up loop runs forever.
\<close>
theorem reachable_progress:
  assumes "reachable env s"
  shows "(\<forall>t n. runs s t \<and> acceptable env n s t \<longrightarrow> (\<exists>s'. CallSVC env n s = Some s' \<and> sys_step env s s'))
    \<and> (\<forall>c. \<exists>k. Reschedule c (kernel s) = Some k)
    \<and> (\<forall>c tid u. wakeup_callback_table (managers (kernel s) c) tid = Some u \<and> status (threads (kernel s) u) \<noteq> Dormant
          \<and> (status (threads (kernel s) u) = WaitArb \<longrightarrow> wakeup_callback (threads (kernel s) u) \<noteq> None)
        \<longrightarrow> (\<exists>k. ThreadWakeupCallback c tid (kernel s) = Some k))
    \<and> (\<forall>m w late. timer_table (kernel s) m = Some w \<longrightarrow> (\<exists>k. TimerCallback m late (kernel s) = Some k))"
  using reachable_succeeds [OF assms] by blast

theorem reachable_progress_witness:
  "\<exists>s s' k k'. CallSVC quiet_env 0x17 s = Some s' \<and> Reschedule 0 (kernel s) = Some k
     \<and> ThreadWakeupCallback (current_cpu (kernel s)) (thread_id (threads (kernel s) 0)) (kernel s) = Some k'"
proof -
  obtain s t where s: "reachable quiet_env s" "sys_inv s" "runs s t"
    "wakeup_callback_table (managers (kernel s) (current_cpu (kernel s))) (thread_id (threads (kernel s) t)) = Some t" "t = 0"
    using running_example by blast
  have a: "acceptable quiet_env 0x17 s t" by (rule quiet_acceptable) (simp_all add: unmodelled_def)
  have r: "status (threads (kernel s) t) = Running" using s(3) by (simp add: runs_def)
  have "status (threads (kernel s) t) \<noteq> Dormant" "status (threads (kernel s) t) \<noteq> WaitArb" using r by simp_all
  then show ?thesis using reachable_progress [OF s(1)] s(3-5) a by blast
qed

lemma reachable_tables:
  assumes "reachable env s"
  shows "t \<in> set (tql_level (ready_queue (managers (kernel s) c)) p) \<longleftrightarrow> status (threads (kernel s) t) = Ready
      \<and> core_id (threads (kernel s) t) = c \<and> current_priority (threads (kernel s) t) = p"
    and "distinct (tql_level (ready_queue (managers (kernel s) c)) p)"
    and "status (threads (kernel s) t) = Running \<Longrightarrow> current_thread (managers (kernel s) c) = Some t \<longleftrightarrow> core_id (threads (kernel s) t) = c"
    and "t \<in> set (waiting_threads (wait_object (kernel s) w)) \<longleftrightarrow> w \<in> set (wait_objects (threads (kernel s) t))"
    and "w \<in> set (wait_objects (threads (kernel s) t)) \<Longrightarrow> status (threads (kernel s) t) \<in> {WaitSynchAny, WaitSynchAll, WaitHleEvent}
      \<and> t \<notin> set (arbiter_waiting (kernel s) a)"
    and "status (threads (kernel s) t) = WaitArb \<Longrightarrow> \<exists>!a. t \<in> set (arbiter_waiting (kernel s) a)"
    and "obj (wait_object (kernel s) w) = O_Semaphore x \<Longrightarrow> 0 \<le> available_count x \<and> available_count x \<le> max_count x"
proof -
  note K = kernel_invD [OF sys_invD(1) [OF reachable_inv [OF assms]]]
  show "t \<in> set (tql_level (ready_queue (managers (kernel s) c)) p) \<longleftrightarrow> status (threads (kernel s) t) = Ready
      \<and> core_id (threads (kernel s) t) = c \<and> current_priority (threads (kernel s) t) = p"
    and "distinct (tql_level (ready_queue (managers (kernel s) c)) p)"
    using sched_invD(3,4) [OF K(1)] by simp_all
  show "current_thread (managers (kernel s) c) = Some t \<longleftrightarrow> core_id (threads (kernel s) t) = c" if "status (threads (kernel s) t) = Running"
    using K(3) that by (auto simp: cpu_inv_def)
  show "t \<in> set (waiting_threads (wait_object (kernel s) w)) \<longleftrightarrow> w \<in> set (wait_objects (threads (kernel s) t))"
    using wait_invD(2) [OF K(2)] .
  show "status (threads (kernel s) t) \<in> {WaitSynchAny, WaitSynchAll, WaitHleEvent} \<and> t \<notin> set (arbiter_waiting (kernel s) a)"
    if "w \<in> set (wait_objects (threads (kernel s) t))"
    using wait_invD(3) [OF K(2), of t] that K(4) by (fastforce simp: arb_inv_def arbiter_inv_def)
  show "\<exists>!a. t \<in> set (arbiter_waiting (kernel s) a)" if "status (threads (kernel s) t) = WaitArb"
    using arb_listedD(2) [OF K(10) that] K(4) unfolding arb_inv_def by blast
  show "0 \<le> available_count x \<and> available_count x \<le> max_count x" if "obj (wait_object (kernel s) w) = O_Semaphore x"
    using K(6) that by (simp add: kind_inv_def)
qed

text \<open>
  C3: In every reachable state the tables of the kernel agree. A thread is ready exactly if it is in the ready queue of its
  core at its current priority, and it is there once; a thread is running exactly on the core whose current thread it is; a
  thread is in the list of a waited object exactly if that object is in its own list, it is then asleep for synchronisation,
  and is in no arbiter's list; a thread asleep in an arbiter is in the list of exactly one; semaphores hold between none and
  their maximal number of slots.
\<close>
theorem reachable_consistent:
  assumes "reachable env s"
  shows "(\<forall>t c p. t \<in> set (tql_level (ready_queue (managers (kernel s) c)) p) \<longleftrightarrow> status (threads (kernel s) t) = Ready
        \<and> core_id (threads (kernel s) t) = c \<and> current_priority (threads (kernel s) t) = p)
    \<and> (\<forall>c p. distinct (tql_level (ready_queue (managers (kernel s) c)) p))
    \<and> (\<forall>c t. status (threads (kernel s) t) = Running \<longrightarrow> (current_thread (managers (kernel s) c) = Some t \<longleftrightarrow> core_id (threads (kernel s) t) = c))
    \<and> (\<forall>t w. t \<in> set (waiting_threads (wait_object (kernel s) w)) \<longleftrightarrow> w \<in> set (wait_objects (threads (kernel s) t)))
    \<and> (\<forall>t w a. w \<in> set (wait_objects (threads (kernel s) t)) \<longrightarrow> status (threads (kernel s) t) \<in> {WaitSynchAny, WaitSynchAll, WaitHleEvent}
        \<and> t \<notin> set (arbiter_waiting (kernel s) a))
    \<and> (\<forall>t. status (threads (kernel s) t) = WaitArb \<longrightarrow> (\<exists>!a. t \<in> set (arbiter_waiting (kernel s) a)))
    \<and> (\<forall>w x. obj (wait_object (kernel s) w) = O_Semaphore x \<longrightarrow> 0 \<le> available_count x \<and> available_count x \<le> max_count x)"
  using reachable_tables [OF assms] by (intro conjI allI impI) blast+

theorem reachable_consistent_witness:
  "\<exists>s t. runs s t \<and> current_thread (managers (kernel s) (core_id (threads (kernel s) t))) = Some t
     \<and> (\<forall>c p. t \<notin> set (tql_level (ready_queue (managers (kernel s) c)) p))"
proof -
  obtain s t where s: "reachable quiet_env s" "runs s t" using running_example by blast
  then show ?thesis using reachable_consistent [OF s(1)] unfolding runs_def by (metis ThreadStatus.distinct(1))
qed

lemma reachable_handles:
  assumes "reachable env s" "runs s t"
  shows "\<exists>r. Get ty h s = Some r"
    and "Get ty h s = Some (Some i) \<Longrightarrow> IsWaitable ty \<Longrightarrow> i < next_object (kernel s) \<and> GetHandleType (obj (wait_object (kernel s) i)) = ty"
    and "Get HT_ClientSession h s = Some (Some i) \<Longrightarrow> GetHandleType (obj (wait_object (kernel s) (client_sessions (kernel s) i))) = HT_ServerSession"
    and "Get HT_ClientPort h s = Some (Some i) \<Longrightarrow> GetHandleType (obj (wait_object (kernel s) (server_port (client_ports (kernel s) i)))) = HT_ServerPort"
    and "Get_WaitObject h s = Some (Some i) \<Longrightarrow> i < next_object (kernel s)"
proof -
  note G = Get_valid [OF reachable_inv [OF assms(1)] assms(2)]
  have V: "valid_ref (kernel s) (ty', j)" if "Get ty' h s = Some (Some j)" for ty' j using G [of ty' h] that by auto
  show "\<exists>r. Get ty h s = Some r" using G by blast
  show "i < next_object (kernel s) \<and> GetHandleType (obj (wait_object (kernel s) i)) = ty" if "Get ty h s = Some (Some i)" "IsWaitable ty"
    using V [OF that(1)] valid_ref_waitable [OF that(2)] by (simp add: kind_def)
  show "GetHandleType (obj (wait_object (kernel s) (client_sessions (kernel s) i))) = HT_ServerSession" if "Get HT_ClientSession h s = Some (Some i)"
    using V [OF that] by (simp add: kind_def)
  show "GetHandleType (obj (wait_object (kernel s) (server_port (client_ports (kernel s) i)))) = HT_ServerPort" if "Get HT_ClientPort h s = Some (Some i)"
    using V [OF that] by (simp add: kind_def)
  show "i < next_object (kernel s)" if w: "Get_WaitObject h s = Some (Some i)"
  proof -
    obtain ty' where "lookup h s = Some (Some (ty', i))" "IsWaitable ty'"
      using w by (auto simp: Get_WaitObject_def DynamicObjectCast_WaitObject_def split: option.splits if_splits)
    then show ?thesis using lookup_valid [OF reachable_inv [OF assms(1)] assms(2), of h] valid_ref_waitable by fastforce
  qed
qed



section \<open>Timeouts\<close>

lemma sleep_example:
  "\<exists>k c. kernel_inv k \<and> wakeup_callback_table (managers k c) (thread_id (threads k 0)) = Some 0
     \<and> status (threads k 0) = WaitSleep"
proof -
  obtain s where s: "sys_inv s" "runs s 0"
    "wakeup_callback_table (managers (kernel s) (current_cpu (kernel s))) (thread_id (threads (kernel s) 0)) = Some 0"
    using running_example by blast
  note K = sys_invD(1) [OF s(1)] and T = runsD [OF s(2)]
  let ?k = "upd_thread 0 (\<lambda>x. x\<lparr>status := WaitSleep\<rparr>) (kernel s)"
  have "kernel_inv ?k" by (rule kernel_inv_park [OF K T(2)]) simp_all
  then show ?thesis using s(3) by (intro exI [where x = ?k] exI [where x = "current_cpu (kernel s)"]) (simp add: upd_thread_def)
qed

text \<open>
  C6: A sleeping thread whose timeout expires runs again: the callback of the wake-up event succeeds, the thread is ready
  afterwards and is in no waiting list, whatever it waited for, and if every other thread that could run on its core has a
  worse priority, then the next rescheduling of the core succeeds and makes it the running thread.
\<close>
theorem timeout_wakes:
  assumes "kernel_inv k" "wakeup_callback_table (managers k c) tid = Some t"
    and "sleeping (status (threads k t))" "status (threads k t) = WaitArb \<longrightarrow> wakeup_callback (threads k t) \<noteq> None"
  shows "\<exists>k1 k2. ThreadWakeupCallback c tid k = Some k1 \<and> status (threads k1 t) = Ready
    \<and> (\<forall>w. t \<notin> set (waiting_threads (wait_object k1 w))) \<and> (\<forall>a. t \<notin> set (arbiter_waiting k1 a))
    \<and> Reschedule (core_id (threads k1 t)) k1 = Some k2
    \<and> ((\<forall>u \<in> runnable (core_id (threads k1 t)) k1. u \<noteq> t \<longrightarrow> current_priority (threads k1 t) < current_priority (threads k1 u)) \<longrightarrow>
        current_thread (managers k2 (core_id (threads k1 t))) = Some t \<and> status (threads k2 t) = Running)"
proof -
  have "status (threads k t) \<noteq> Dormant" using assms(3) by (auto simp: sleeping_def)
  then obtain k1 where k1: "ThreadWakeupCallback c tid k = Some k1" "kernel_inv k1" "status (threads k1 t) = Ready"
    using kept_ThreadWakeupCallback [OF assms(1,2) _ assms(4)] assms(3) keptD(1) by blast
  note K = kernel_invD [OF k1(2)]
  have w: "t \<notin> set (waiting_threads (wait_object k1 w))" for w using wait_invD(2,3) [OF K(2), of t] k1(3) by fastforce
  have a: "t \<notin> set (arbiter_waiting k1 a)" for a using K(4) k1(3) by (fastforce simp: arb_inv_def arbiter_inv_def)
  let ?c = "core_id (threads k1 t)"
  obtain k2 where k2: "Reschedule ?c k1 = Some k2" "case current_thread (managers k2 ?c) of None \<Rightarrow> runnable ?c k1 = {}
      | Some n \<Rightarrow> best_of ?c k1 n \<and> status (threads k2 n) = Running"
    using Reschedule_best [OF K(1,3), of ?c] by (auto split: option.splits)
  have "current_thread (managers k2 ?c) = Some t \<and> status (threads k2 t) = Running"
    if b: "\<forall>u \<in> runnable ?c k1. u \<noteq> t \<longrightarrow> current_priority (threads k1 t) < current_priority (threads k1 u)"
  proof -
    have t: "t \<in> runnable ?c k1" using k1(3) by (simp add: runnable_def)
    then obtain n where n: "current_thread (managers k2 ?c) = Some n" "best_of ?c k1 n" "status (threads k2 n) = Running"
      using k2(2) by (auto split: option.splits)
    then have "n = t" using b t unfolding best_of_def by (meson leD)
    then show ?thesis using n by simp
  qed
  then show ?thesis using k1(1,3) w a k2(1) by blast
qed

theorem timeout_wakes_witness: "\<exists>k k1 c tid. ThreadWakeupCallback c tid k = Some k1 \<and> status (threads k1 0) = Ready"
proof -
  obtain k c where k: "kernel_inv k" "wakeup_callback_table (managers k c) (thread_id (threads k 0)) = Some 0" 
    "status (threads k 0) = WaitSleep" using sleep_example by blast
  then show ?thesis using timeout_wakes [OF k(1,2)] k(3) by (simp add: sleeping_def) blast
qed

end
