(* ===== verification/Memory_System.thy ===== *)
theory Memory_System
  imports VM_Manager
begin

text \<open>
  \<^verbatim>\<open>Memory::MemorySystem\<close> of \<^verbatim>\<open>src/src/core/memory.{h,cpp}\<close>: the page tables that map the address
  space of each process to host memory, the marks of the pages held by the rasterizer cache, the typed accesses of the
  processor and the block transfers of the kernel.

  Host memory is a partial map of bytes; copying from or to a byte that is not allocated is undefined behaviour and the run
  \<open>None\<close>. Page tables are shared objects and live in a store, by number. Virtual and physical addresses are numbers below
  \<open>2\<^sup>3\<^sup>2\<close>, their sums wrapped where the code computes them in \<^verbatim>\<open>u32\<close>. The renderer, which may write back surfaces and
  mark pages, and the memory-mapped devices are arguments, gathered in \<open>Outside\<close>.
\<close>

section \<open>Regions\<close>

definition PAGE_TABLE_NUM_ENTRIES :: nat where "PAGE_TABLE_NUM_ENTRIES = 2 ^ 20"

definition VRAM_PADDR :: nat where "VRAM_PADDR = 0x18000000"
definition VRAM_SIZE :: nat where "VRAM_SIZE = 0x00600000"
definition VRAM_PADDR_END :: nat where "VRAM_PADDR_END = VRAM_PADDR + VRAM_SIZE"
definition N3DS_EXTRA_RAM_PADDR :: nat where "N3DS_EXTRA_RAM_PADDR = 0x1F000000"
definition N3DS_EXTRA_RAM_SIZE :: nat where "N3DS_EXTRA_RAM_SIZE = 0x00400000"
definition DSP_RAM_PADDR :: nat where "DSP_RAM_PADDR = 0x1FF00000"
definition DSP_RAM_SIZE :: nat where "DSP_RAM_SIZE = 0x00080000"
definition FCRAM_PADDR :: nat where "FCRAM_PADDR = 0x20000000"
definition FCRAM_SIZE :: nat where "FCRAM_SIZE = 0x08000000"
definition FCRAM_N3DS_SIZE :: nat where "FCRAM_N3DS_SIZE = 0x10000000"
definition FCRAM_PADDR_END :: nat where "FCRAM_PADDR_END = FCRAM_PADDR + FCRAM_SIZE"
definition FCRAM_N3DS_PADDR_END :: nat where "FCRAM_N3DS_PADDR_END = FCRAM_PADDR + FCRAM_N3DS_SIZE"
definition LINEAR_HEAP_VADDR :: nat where "LINEAR_HEAP_VADDR = 0x14000000"
definition LINEAR_HEAP_SIZE :: nat where "LINEAR_HEAP_SIZE = 0x08000000"
definition LINEAR_HEAP_VADDR_END :: nat where "LINEAR_HEAP_VADDR_END = LINEAR_HEAP_VADDR + LINEAR_HEAP_SIZE"
definition VRAM_VADDR :: nat where "VRAM_VADDR = 0x1F000000"
definition VRAM_VADDR_END :: nat where "VRAM_VADDR_END = VRAM_VADDR + VRAM_SIZE"
definition NEW_LINEAR_HEAP_VADDR :: nat where "NEW_LINEAR_HEAP_VADDR = 0x30000000"
definition NEW_LINEAR_HEAP_SIZE :: nat where "NEW_LINEAR_HEAP_SIZE = 0x10000000"
definition NEW_LINEAR_HEAP_VADDR_END :: nat where "NEW_LINEAR_HEAP_VADDR_END = NEW_LINEAR_HEAP_VADDR + NEW_LINEAR_HEAP_SIZE"

lemmas region_defs = VRAM_PADDR_def VRAM_SIZE_def VRAM_PADDR_END_def N3DS_EXTRA_RAM_PADDR_def N3DS_EXTRA_RAM_SIZE_def
  DSP_RAM_PADDR_def DSP_RAM_SIZE_def FCRAM_PADDR_def FCRAM_SIZE_def FCRAM_N3DS_SIZE_def FCRAM_PADDR_END_def
  FCRAM_N3DS_PADDR_END_def LINEAR_HEAP_VADDR_def LINEAR_HEAP_SIZE_def LINEAR_HEAP_VADDR_END_def VRAM_VADDR_def
  VRAM_VADDR_END_def NEW_LINEAR_HEAP_VADDR_def NEW_LINEAR_HEAP_SIZE_def NEW_LINEAR_HEAP_VADDR_END_def

section \<open>Host memory\<close>

definition host_read :: "(nat \<rightharpoonup> u8) \<Rightarrow> nat \<Rightarrow> nat \<Rightarrow> u8 list run" where
  "host_read h p n = those (map h [p ..< p + n])"

definition host_write :: "(nat \<rightharpoonup> u8) \<Rightarrow> nat \<Rightarrow> u8 list \<Rightarrow> (nat \<rightharpoonup> u8) run" where
  "host_write h p bs =
     (if list_all (\<lambda>a. h a \<noteq> None) [p ..< p + length bs]
      then Some (\<lambda>a. if p \<le> a \<and> a < p + length bs then Some (bs ! (a - p)) else h a) else None)"

text \<open>The source of a block written: a buffer of the caller, or host memory itself. \<^verbatim>\<open>memcpy\<close> is undefined on overlapping
  regions.\<close>

datatype source = Buffer "u8 list" | Host nat

definition memcpy_from :: "source \<Rightarrow> nat \<Rightarrow> nat \<Rightarrow> nat \<Rightarrow> (nat \<rightharpoonup> u8) \<Rightarrow> (nat \<rightharpoonup> u8) run" where
  "memcpy_from src pos p n h =
     (case src of
        Buffer bs \<Rightarrow> do { ASSERT (pos + n \<le> length bs); host_write h p (take n (drop pos bs)) }
      | Host q \<Rightarrow> do {
          ASSERT (p + n \<le> q + pos \<or> q + pos + n \<le> p);
          bs \<leftarrow> host_read h (q + pos) n;
          host_write h p bs })"

section \<open>State\<close>

datatype PageType = Unmapped | Memory | RasterizerCachedMemory | Special

record SpecialRegion =
  sr_base :: nat
  sr_size :: nat
  handler :: "nat option"

text \<open>An entry of \<open>pointers\<close> is the reference; the raw pointer kept in step with it is \<open>raw_pointer\<close>.\<close>

record PageTable =
  pointers :: "nat \<Rightarrow> MemoryRef"
  special_regions :: "SpecialRegion list"
  attributes :: "nat \<Rightarrow> PageType"

definition raw_pointer :: "PageTable \<Rightarrow> nat \<Rightarrow> nat" where
  "raw_pointer pt idx = GetPtr (pointers pt idx)"

definition PageTable_Clear :: "PageTable \<Rightarrow> PageTable" where
  "PageTable_Clear pt = pt\<lparr>pointers := (\<lambda>_. MemoryRef_null), attributes := (\<lambda>_. Unmapped)\<rparr>"

record RasterizerCacheMarker =
  marks_vram :: "nat \<Rightarrow> bool"
  marks_linear_heap :: "nat \<Rightarrow> bool"
  marks_new_linear_heap :: "nat \<Rightarrow> bool"

definition Mark :: "nat \<Rightarrow> bool \<Rightarrow> RasterizerCacheMarker \<Rightarrow> RasterizerCacheMarker" where
  "Mark addr cached m =
     (if addr \<ge> VRAM_VADDR \<and> addr < VRAM_VADDR_END
      then m\<lparr>marks_vram := (marks_vram m)((addr - VRAM_VADDR) div PAGE_SIZE := cached)\<rparr>
      else if addr \<ge> LINEAR_HEAP_VADDR \<and> addr < LINEAR_HEAP_VADDR_END
      then m\<lparr>marks_linear_heap := (marks_linear_heap m)((addr - LINEAR_HEAP_VADDR) div PAGE_SIZE := cached)\<rparr>
      else if addr \<ge> NEW_LINEAR_HEAP_VADDR \<and> addr < NEW_LINEAR_HEAP_VADDR_END
      then m\<lparr>marks_new_linear_heap := (marks_new_linear_heap m)((addr - NEW_LINEAR_HEAP_VADDR) div PAGE_SIZE := cached)\<rparr>
      else m)"

definition IsCached :: "nat \<Rightarrow> RasterizerCacheMarker \<Rightarrow> bool" where
  "IsCached addr m =
     (if addr \<ge> VRAM_VADDR \<and> addr < VRAM_VADDR_END then marks_vram m ((addr - VRAM_VADDR) div PAGE_SIZE)
      else if addr \<ge> LINEAR_HEAP_VADDR \<and> addr < LINEAR_HEAP_VADDR_END
      then marks_linear_heap m ((addr - LINEAR_HEAP_VADDR) div PAGE_SIZE)
      else if addr \<ge> NEW_LINEAR_HEAP_VADDR \<and> addr < NEW_LINEAR_HEAP_VADDR_END
      then marks_new_linear_heap m ((addr - NEW_LINEAR_HEAP_VADDR) div PAGE_SIZE)
      else False)"

record 'd MemorySystem =
  host :: "nat \<rightharpoonup> u8"
  fcram :: nat
  vram :: nat
  n3ds_extra_ram :: nat
  dsp_ram :: nat
  page_tables :: "nat \<Rightarrow> PageTable"
  current_page_table :: "nat option"
  page_table_list :: "nat list"
  cache_marker :: RasterizerCacheMarker
  devices :: 'd

datatype FlushMode = Flush | Invalidate | FlushAndInvalidate

text \<open>
  The renderer (none before video is set up and after it is shut down) and the virtual functions of the memory-mapped
  devices, by the number of the device. A typed access passes the bytes of the value, lowest first.
\<close>

record 'd Outside =
  renderer :: "(FlushMode \<Rightarrow> nat \<Rightarrow> nat \<Rightarrow> 'd MemorySystem \<Rightarrow> 'd MemorySystem run) option"
  mmio_valid :: "nat \<Rightarrow> nat \<Rightarrow> bool"
  mmio_read :: "nat \<Rightarrow> nat \<Rightarrow> nat \<Rightarrow> 'd \<Rightarrow> u8 list \<times> 'd"
  mmio_write :: "nat \<Rightarrow> nat \<Rightarrow> u8 list \<Rightarrow> 'd \<Rightarrow> 'd"
  mmio_read_block :: "nat \<Rightarrow> nat \<Rightarrow> nat \<Rightarrow> 'd \<Rightarrow> u8 list \<times> 'd"
  mmio_write_block :: "nat \<Rightarrow> nat \<Rightarrow> u8 list \<Rightarrow> 'd \<Rightarrow> 'd"

definition upd_page_table :: "nat \<Rightarrow> (PageTable \<Rightarrow> PageTable) \<Rightarrow> 'd MemorySystem \<Rightarrow> 'd MemorySystem" where
  "upd_page_table i f ms = ms\<lparr>page_tables := (page_tables ms)(i := f (page_tables ms i))\<rparr>"

definition SetCurrentPageTable :: "nat option \<Rightarrow> 'd MemorySystem \<Rightarrow> 'd MemorySystem" where
  "SetCurrentPageTable page_table ms = ms\<lparr>current_page_table := page_table\<rparr>"

definition RegisterPageTable :: "nat \<Rightarrow> 'd MemorySystem \<Rightarrow> 'd MemorySystem" where
  "RegisterPageTable page_table ms = ms\<lparr>page_table_list := page_table_list ms @ [page_table]\<rparr>"

definition UnregisterPageTable :: "nat \<Rightarrow> 'd MemorySystem \<Rightarrow> 'd MemorySystem" where
  "UnregisterPageTable page_table ms = ms\<lparr>page_table_list := remove1 page_table (page_table_list ms)\<rparr>"

section \<open>The rasterizer cache\<close>

definition CheckRegion ::
    "'d Outside \<Rightarrow> FlushMode \<Rightarrow> nat \<Rightarrow> nat \<Rightarrow> nat \<times> nat \<times> nat \<Rightarrow> 'd MemorySystem \<Rightarrow> 'd MemorySystem run" where
  "CheckRegion out mode start stop region ms =
     (case (region, renderer out) of
        ((region_start, region_end, paddr_region_start), Some flush) \<Rightarrow>
          if start \<ge> region_end \<or> stop \<le> region_start then Some ms
          else
            let overlap_start = max start region_start; overlap_end = min stop region_end;
                physical_start = add32 paddr_region_start (sub32 overlap_start region_start);
                overlap_size = sub32 overlap_end overlap_start
            in flush mode physical_start overlap_size ms
      | (_, None) \<Rightarrow> Some ms)"

definition RasterizerFlushVirtualRegion ::
    "'d Outside \<Rightarrow> nat \<Rightarrow> nat \<Rightarrow> FlushMode \<Rightarrow> 'd MemorySystem \<Rightarrow> 'd MemorySystem run" where
  "RasterizerFlushVirtualRegion out start sz mode ms =
     (if renderer out = None then Some ms
      else do {
        let stop = add32 start sz;
        ms \<leftarrow> CheckRegion out mode start stop (LINEAR_HEAP_VADDR, LINEAR_HEAP_VADDR_END, FCRAM_PADDR) ms;
        ms \<leftarrow> CheckRegion out mode start stop (NEW_LINEAR_HEAP_VADDR, NEW_LINEAR_HEAP_VADDR_END, FCRAM_PADDR) ms;
        CheckRegion out mode start stop (VRAM_VADDR, VRAM_VADDR_END, VRAM_PADDR) ms
      })"

text \<open>\<^verbatim>\<open>MemoryRef(backing_mem, offset)\<close>: the constructor asserts that the offset lies in the block.\<close>

definition MemoryRef_at :: "nat \<Rightarrow> nat \<Rightarrow> nat \<Rightarrow> MemoryRef run" where
  "MemoryRef_at ptr sz offset = do {
     ASSERT (offset < sz);
     Some \<lparr>backing_mem = Some (ptr, sz), mr_offset = offset\<rparr>
   }"

definition GetPointerForRasterizerCache :: "nat \<Rightarrow> 'd MemorySystem \<Rightarrow> MemoryRef run" where
  "GetPointerForRasterizerCache addr ms =
     (if addr \<ge> LINEAR_HEAP_VADDR \<and> addr < LINEAR_HEAP_VADDR_END
      then MemoryRef_at (fcram ms) FCRAM_N3DS_SIZE (addr - LINEAR_HEAP_VADDR)
      else if addr \<ge> NEW_LINEAR_HEAP_VADDR \<and> addr < NEW_LINEAR_HEAP_VADDR_END
      then MemoryRef_at (fcram ms) FCRAM_N3DS_SIZE (addr - NEW_LINEAR_HEAP_VADDR)
      else if addr \<ge> VRAM_VADDR \<and> addr < VRAM_VADDR_END then MemoryRef_at (vram ms) VRAM_SIZE (addr - VRAM_VADDR)
      else None)"

definition PhysicalToVirtualAddressForRasterizer :: "nat \<Rightarrow> nat list" where
  "PhysicalToVirtualAddressForRasterizer addr =
     (if addr \<ge> VRAM_PADDR \<and> addr < VRAM_PADDR_END then [addr - VRAM_PADDR + VRAM_VADDR]
      else if addr \<ge> FCRAM_PADDR \<and> addr < FCRAM_PADDR_END
      then [addr - FCRAM_PADDR + LINEAR_HEAP_VADDR, addr - FCRAM_PADDR + NEW_LINEAR_HEAP_VADDR]
      else if addr \<ge> FCRAM_PADDR_END \<and> addr < FCRAM_N3DS_PADDR_END then [addr - FCRAM_PADDR + NEW_LINEAR_HEAP_VADDR]
      else [])"

definition mark_entry :: "bool \<Rightarrow> nat \<Rightarrow> nat \<Rightarrow> 'd MemorySystem \<Rightarrow> 'd MemorySystem run" where
  "mark_entry cached vaddr pt ms =
     (let idx = vaddr div PAGE_SIZE
      in if cached
         then (case attributes (page_tables ms pt) idx of
             Unmapped \<Rightarrow> Some ms
           | Memory \<Rightarrow> Some (upd_page_table pt (\<lambda>t. t\<lparr>attributes := (attributes t)(idx := RasterizerCachedMemory),
                 pointers := (pointers t)(idx := MemoryRef_null)\<rparr>) ms)
           | _ \<Rightarrow> None)
         else (case attributes (page_tables ms pt) idx of
             Unmapped \<Rightarrow> Some ms
           | RasterizerCachedMemory \<Rightarrow> do {
               r \<leftarrow> GetPointerForRasterizerCache (vaddr - vaddr mod PAGE_SIZE) ms;
               Some (upd_page_table pt (\<lambda>t. t\<lparr>attributes := (attributes t)(idx := Memory),
                 pointers := (pointers t)(idx := r)\<rparr>) ms) }
           | _ \<Rightarrow> None))"

fun mark_tables :: "bool \<Rightarrow> nat \<Rightarrow> nat list \<Rightarrow> 'd MemorySystem \<Rightarrow> 'd MemorySystem run" where
  "mark_tables cached vaddr [] ms = Some ms"
| "mark_tables cached vaddr (pt # pts) ms = do { ms \<leftarrow> mark_entry cached vaddr pt ms; mark_tables cached vaddr pts ms }"

fun mark_addresses :: "bool \<Rightarrow> nat list \<Rightarrow> 'd MemorySystem \<Rightarrow> 'd MemorySystem run" where
  "mark_addresses cached [] ms = Some ms"
| "mark_addresses cached (vaddr # vs) ms = do {
     ms \<leftarrow> mark_tables cached vaddr (page_table_list ms) (ms\<lparr>cache_marker := Mark vaddr cached (cache_marker ms)\<rparr>);
     mark_addresses cached vs ms
   }"

fun mark_pages :: "bool \<Rightarrow> nat \<Rightarrow> nat \<Rightarrow> 'd MemorySystem \<Rightarrow> 'd MemorySystem run" where
  "mark_pages cached 0 pa ms = Some ms"
| "mark_pages cached (Suc n) pa ms = do {
     ms \<leftarrow> mark_addresses cached (PhysicalToVirtualAddressForRasterizer pa) ms;
     mark_pages cached n (add32 pa PAGE_SIZE) ms
   }"

definition RasterizerMarkRegionCached :: "nat \<Rightarrow> nat \<Rightarrow> bool \<Rightarrow> 'd MemorySystem \<Rightarrow> 'd MemorySystem run" where
  "RasterizerMarkRegionCached start sz cached ms =
     (if start = 0 then Some ms
      else
        let num_pages = add32 (sub32 (sub32 (add32 start sz) 1 div PAGE_SIZE) (start div PAGE_SIZE)) 1
        in mark_pages cached num_pages start ms)"

section \<open>Mapping\<close>

text \<open>The loop of \<^verbatim>\<open>MapPages\<close>; the assertion bounds it.\<close>

function map_pages_loop ::
    "RasterizerCacheMarker \<Rightarrow> PageType \<Rightarrow> nat \<Rightarrow> nat \<Rightarrow> MemoryRef \<Rightarrow> PageTable \<Rightarrow> PageTable run" where
  "map_pages_loop marker type base stop memory pt =
     (if base = stop then Some pt
      else if \<not> base < PAGE_TABLE_NUM_ENTRIES then None
      else
        let cached = (type = Memory \<and> IsCached ((base * PAGE_SIZE) mod 2 ^ 32) marker);
            pt = pt\<lparr>attributes := (attributes pt)(base := if cached then RasterizerCachedMemory else type),
                    pointers := (pointers pt)(base := if cached then MemoryRef_null else memory)\<rparr>
        in if GetPtr memory \<noteq> 0 \<and> GetSize memory > PAGE_SIZE
           then (case MemoryRef_add memory PAGE_SIZE of None \<Rightarrow> None | Some memory \<Rightarrow> map_pages_loop marker type (base + 1) stop memory pt)
           else map_pages_loop marker type (base + 1) stop memory pt)"
  by pat_completeness auto
termination
  by (relation "measure (\<lambda>(marker, type, base, stop, memory, pt). PAGE_TABLE_NUM_ENTRIES - base)")
    (auto simp: PAGE_TABLE_NUM_ENTRIES_def)

declare map_pages_loop.simps [simp del]

definition MapPages ::
    "'d Outside \<Rightarrow> nat \<Rightarrow> nat \<Rightarrow> nat \<Rightarrow> MemoryRef \<Rightarrow> PageType \<Rightarrow> 'd MemorySystem \<Rightarrow> 'd MemorySystem run" where
  "MapPages out pt base sz memory type ms = do {
     ms \<leftarrow> RasterizerFlushVirtualRegion out ((base * PAGE_SIZE) mod 2 ^ 32) ((sz * PAGE_SIZE) mod 2 ^ 32) FlushAndInvalidate ms;
     t \<leftarrow> map_pages_loop (cache_marker ms) type base (add32 base sz) memory (page_tables ms pt);
     Some (upd_page_table pt (\<lambda>_. t) ms)
   }"

definition MapMemoryRegion ::
    "'d Outside \<Rightarrow> nat \<Rightarrow> nat \<Rightarrow> nat \<Rightarrow> MemoryRef \<Rightarrow> 'd MemorySystem \<Rightarrow> 'd MemorySystem run" where
  "MapMemoryRegion out pt base sz target ms = do {
     ASSERT (sz mod PAGE_SIZE = 0);
     ASSERT (base mod PAGE_SIZE = 0);
     MapPages out pt (base div PAGE_SIZE) (sz div PAGE_SIZE) target Memory ms
   }"

definition MapIoRegion ::
    "'d Outside \<Rightarrow> nat \<Rightarrow> nat \<Rightarrow> nat \<Rightarrow> nat option \<Rightarrow> 'd MemorySystem \<Rightarrow> 'd MemorySystem run" where
  "MapIoRegion out pt base sz h ms = do {
     ASSERT (sz mod PAGE_SIZE = 0);
     ASSERT (base mod PAGE_SIZE = 0);
     ms \<leftarrow> MapPages out pt (base div PAGE_SIZE) (sz div PAGE_SIZE) MemoryRef_null Special ms;
     Some (upd_page_table pt (\<lambda>t. t\<lparr>special_regions := special_regions t @ [\<lparr>sr_base = base, sr_size = sz, handler = h\<rparr>]\<rparr>) ms)
   }"

definition UnmapRegion :: "'d Outside \<Rightarrow> nat \<Rightarrow> nat \<Rightarrow> nat \<Rightarrow> 'd MemorySystem \<Rightarrow> 'd MemorySystem run" where
  "UnmapRegion out pt base sz ms = do {
     ASSERT (sz mod PAGE_SIZE = 0);
     ASSERT (base mod PAGE_SIZE = 0);
     MapPages out pt (base div PAGE_SIZE) (sz div PAGE_SIZE) MemoryRef_null Unmapped ms
   }"

text \<open>What \<^verbatim>\<open>VMManager::UpdatePageTableForVMA\<close> does to the page table of its process.\<close>

definition apply_update :: "'d Outside \<Rightarrow> nat \<Rightarrow> VirtualMemoryArea \<Rightarrow> 'd MemorySystem \<Rightarrow> 'd MemorySystem run" where
  "apply_update out pt vma ms =
     (case vma_type vma of
        VMA_Free \<Rightarrow> UnmapRegion out pt (vma_base vma) (vma_size vma) ms
      | VMA_BackingMemory \<Rightarrow> MapMemoryRegion out pt (vma_base vma) (vma_size vma) (backing_memory vma) ms
      | VMA_MMIO \<Rightarrow> MapIoRegion out pt (vma_base vma) (vma_size vma) (mmio_handler vma) ms)"

fun apply_updates :: "'d Outside \<Rightarrow> nat \<Rightarrow> VirtualMemoryArea list \<Rightarrow> 'd MemorySystem \<Rightarrow> 'd MemorySystem run" where
  "apply_updates out pt [] ms = Some ms"
| "apply_updates out pt (v # vs) ms = do { ms \<leftarrow> apply_update out pt v ms; apply_updates out pt vs ms }"

section \<open>Typed accesses\<close>

definition GetMMIOHandler :: "PageTable \<Rightarrow> nat \<Rightarrow> nat option run" where
  "GetMMIOHandler pt vaddr =
     map_option handler (find (\<lambda>region. vaddr \<ge> sr_base region \<and> vaddr < add32 (sr_base region) (sr_size region)) (special_regions pt))"

definition set_host :: "(nat \<rightharpoonup> u8) \<Rightarrow> 'd MemorySystem \<Rightarrow> 'd MemorySystem" where
  "set_host h ms = ms\<lparr>host := h\<rparr>"

text \<open>The template \<^verbatim>\<open>Read<T>\<close> for a type of \<open>n\<close> bytes gives the bytes of the value.\<close>

definition Read :: "'d Outside \<Rightarrow> nat \<Rightarrow> nat \<Rightarrow> 'd MemorySystem \<Rightarrow> (u8 list \<times> 'd MemorySystem) run" where
  "Read out n vaddr ms = do {
     i \<leftarrow> current_page_table ms;
     let pt = page_tables ms i;
     let page_pointer = raw_pointer pt (vaddr div PAGE_SIZE);
     if page_pointer \<noteq> 0
     then do { bs \<leftarrow> host_read (host ms) (page_pointer + vaddr mod PAGE_SIZE) n; Some (bs, ms) }
     else (case attributes pt (vaddr div PAGE_SIZE) of
         Unmapped \<Rightarrow> Some (replicate n 0, ms)
       | Memory \<Rightarrow> None
       | RasterizerCachedMemory \<Rightarrow> do {
           ms \<leftarrow> RasterizerFlushVirtualRegion out vaddr n Flush ms;
           r \<leftarrow> GetPointerForRasterizerCache vaddr ms;
           bs \<leftarrow> host_read (host ms) (GetPtr r) n;
           Some (bs, ms) }
       | Special \<Rightarrow> do {
           h \<leftarrow> GetMMIOHandler pt vaddr;
           h \<leftarrow> h;
           let (bs, d) = mmio_read out h n vaddr (devices ms);
           Some (bs, ms\<lparr>devices := d\<rparr>) })
   }"

definition Write :: "'d Outside \<Rightarrow> nat \<Rightarrow> u8 list \<Rightarrow> 'd MemorySystem \<Rightarrow> 'd MemorySystem run" where
  "Write out vaddr data ms = do {
     i \<leftarrow> current_page_table ms;
     let pt = page_tables ms i;
     let page_pointer = raw_pointer pt (vaddr div PAGE_SIZE);
     if page_pointer \<noteq> 0
     then do { h \<leftarrow> host_write (host ms) (page_pointer + vaddr mod PAGE_SIZE) data; Some (set_host h ms) }
     else (case attributes pt (vaddr div PAGE_SIZE) of
         Unmapped \<Rightarrow> Some ms
       | Memory \<Rightarrow> None
       | RasterizerCachedMemory \<Rightarrow> do {
           ms \<leftarrow> RasterizerFlushVirtualRegion out vaddr (length data) Invalidate ms;
           r \<leftarrow> GetPointerForRasterizerCache vaddr ms;
           h \<leftarrow> host_write (host ms) (GetPtr r) data;
           Some (set_host h ms) }
       | Special \<Rightarrow> do {
           h \<leftarrow> GetMMIOHandler pt vaddr;
           h \<leftarrow> h;
           Some (ms\<lparr>devices := mmio_write out h vaddr data (devices ms)\<rparr>) })
   }"

text \<open>The accesses at each width.\<close>

definition read_as :: "'d Outside \<Rightarrow> nat \<Rightarrow> nat \<Rightarrow> 'd MemorySystem \<Rightarrow> ('a::len word \<times> 'd MemorySystem) run" where
  "read_as out n vaddr ms = map_option (\<lambda>(bs, ms). (of_bytes bs, ms)) (Read out n vaddr ms)"

definition Read8 :: "'d Outside \<Rightarrow> nat \<Rightarrow> 'd MemorySystem \<Rightarrow> (u8 \<times> 'd MemorySystem) run" where
  "Read8 out addr ms = read_as out 1 addr ms"

definition Read16 :: "'d Outside \<Rightarrow> nat \<Rightarrow> 'd MemorySystem \<Rightarrow> (u16 \<times> 'd MemorySystem) run" where
  "Read16 out addr ms = read_as out 2 addr ms"

definition Read32 :: "'d Outside \<Rightarrow> nat \<Rightarrow> 'd MemorySystem \<Rightarrow> (u32 \<times> 'd MemorySystem) run" where
  "Read32 out addr ms = read_as out 4 addr ms"

definition Read64 :: "'d Outside \<Rightarrow> nat \<Rightarrow> 'd MemorySystem \<Rightarrow> (u64 \<times> 'd MemorySystem) run" where
  "Read64 out addr ms = read_as out 8 addr ms"

definition Write8 :: "'d Outside \<Rightarrow> nat \<Rightarrow> u8 \<Rightarrow> 'd MemorySystem \<Rightarrow> 'd MemorySystem run" where
  "Write8 out addr data ms = Write out addr (to_bytes 1 data) ms"

definition Write16 :: "'d Outside \<Rightarrow> nat \<Rightarrow> u16 \<Rightarrow> 'd MemorySystem \<Rightarrow> 'd MemorySystem run" where
  "Write16 out addr data ms = Write out addr (to_bytes 2 data) ms"

definition Write32 :: "'d Outside \<Rightarrow> nat \<Rightarrow> u32 \<Rightarrow> 'd MemorySystem \<Rightarrow> 'd MemorySystem run" where
  "Write32 out addr data ms = Write out addr (to_bytes 4 data) ms"

definition Write64 :: "'d Outside \<Rightarrow> nat \<Rightarrow> u64 \<Rightarrow> 'd MemorySystem \<Rightarrow> 'd MemorySystem run" where
  "Write64 out addr data ms = Write out addr (to_bytes 8 data) ms"

definition IsValidVirtualAddress :: "'d Outside \<Rightarrow> nat \<Rightarrow> nat \<Rightarrow> 'd MemorySystem \<Rightarrow> bool run" where
  "IsValidVirtualAddress out pt vaddr ms =
     (let page_table = page_tables ms pt; idx = vaddr div PAGE_SIZE
      in if raw_pointer page_table idx \<noteq> 0 then Some True
      else if attributes page_table idx = RasterizerCachedMemory then Some True
      else if attributes page_table idx \<noteq> Special then Some False
      else do {
        h \<leftarrow> GetMMIOHandler page_table vaddr;
        Some (case h of None \<Rightarrow> False | Some h \<Rightarrow> mmio_valid out h vaddr) })"

text \<open>\<open>0\<close> is the null pointer.\<close>

definition GetPointer :: "nat \<Rightarrow> 'd MemorySystem \<Rightarrow> nat run" where
  "GetPointer vaddr ms = do {
     i \<leftarrow> current_page_table ms;
     let pt = page_tables ms i;
     let page_pointer = raw_pointer pt (vaddr div PAGE_SIZE);
     if page_pointer \<noteq> 0 then Some (page_pointer + vaddr mod PAGE_SIZE)
     else if attributes pt (vaddr div PAGE_SIZE) = RasterizerCachedMemory
     then map_option GetPtr (GetPointerForRasterizerCache vaddr ms)
     else Some 0
   }"

fun ReadCString :: "'d Outside \<Rightarrow> nat \<Rightarrow> nat \<Rightarrow> 'd MemorySystem \<Rightarrow> (u8 list \<times> 'd MemorySystem) run" where
  "ReadCString out vaddr 0 ms = Some ([], ms)"
| "ReadCString out vaddr (Suc max_length) ms = do {
     (c, ms) \<leftarrow> Read8 out vaddr ms;
     if c = 0 then Some ([], ms)
     else do { (cs, ms) \<leftarrow> ReadCString out (add32 vaddr 1) max_length ms; Some (c # cs, ms) }
   }"

section \<open>Physical addresses\<close>

definition memory_areas :: "(nat \<times> nat) list" where
  "memory_areas = [(VRAM_PADDR, VRAM_SIZE), (DSP_RAM_PADDR, DSP_RAM_SIZE), (FCRAM_PADDR, FCRAM_N3DS_SIZE),
     (N3DS_EXTRA_RAM_PADDR, N3DS_EXTRA_RAM_SIZE)]"

definition GetPhysicalRef :: "nat \<Rightarrow> 'd MemorySystem \<Rightarrow> MemoryRef run" where
  "GetPhysicalRef address ms =
     (case find (\<lambda>(paddr_base, sz). address \<ge> paddr_base \<and> address \<le> add32 paddr_base sz) memory_areas of
        None \<Rightarrow> Some MemoryRef_null
      | Some (paddr_base, sz) \<Rightarrow> do {
          let offset_into_region = sub32 address paddr_base;
          (ptr, target_size) \<leftarrow>
            (if paddr_base = VRAM_PADDR then Some (vram ms, VRAM_SIZE)
             else if paddr_base = DSP_RAM_PADDR then Some (dsp_ram ms, DSP_RAM_SIZE)
             else if paddr_base = FCRAM_PADDR then Some (fcram ms, FCRAM_N3DS_SIZE)
             else if paddr_base = N3DS_EXTRA_RAM_PADDR then Some (n3ds_extra_ram ms, N3DS_EXTRA_RAM_SIZE)
             else None);
          if offset_into_region \<ge> target_size then Some MemoryRef_null
          else MemoryRef_at ptr target_size offset_into_region })"

definition IsValidPhysicalAddress :: "nat \<Rightarrow> 'd MemorySystem \<Rightarrow> bool run" where
  "IsValidPhysicalAddress pa ms = map_option (\<lambda>r. GetPtr r \<noteq> 0) (GetPhysicalRef pa ms)"

definition GetFCRAMOffset :: "nat \<Rightarrow> 'd MemorySystem \<Rightarrow> nat run" where
  "GetFCRAMOffset pointer ms = do {
     ASSERT (pointer \<ge> fcram ms \<and> pointer \<le> fcram ms + FCRAM_N3DS_SIZE);
     Some (pointer - fcram ms)
   }"

definition GetFCRAMPointer :: "nat \<Rightarrow> 'd MemorySystem \<Rightarrow> nat run" where
  "GetFCRAMPointer offset ms = do { ASSERT (offset \<le> FCRAM_N3DS_SIZE); Some (fcram ms + offset) }"

definition GetFCRAMRef :: "nat \<Rightarrow> 'd MemorySystem \<Rightarrow> MemoryRef run" where
  "GetFCRAMRef offset ms = do { ASSERT (offset \<le> FCRAM_N3DS_SIZE); MemoryRef_at (fcram ms) FCRAM_N3DS_SIZE offset }"

section \<open>Block transfers\<close>

text \<open>
  The loop over pages that the four transfers share: \<open>body\<close> is the work on one page. The offset in a page is always below
  the page size; an index beyond the page table is an access out of bounds.
\<close>

function block_loop :: "(nat \<Rightarrow> nat \<Rightarrow> nat \<Rightarrow> 's \<Rightarrow> 's run) \<Rightarrow> nat \<Rightarrow> nat \<Rightarrow> nat \<Rightarrow> 's \<Rightarrow> 's run" where
  "block_loop body page_index page_offset remaining_size s =
     (if remaining_size = 0 then Some s
      else if PAGE_SIZE \<le> page_offset \<or> PAGE_TABLE_NUM_ENTRIES \<le> page_index then None
      else
        let copy_amount = min (PAGE_SIZE - page_offset) remaining_size
        in (case body page_index page_offset copy_amount s of
              None \<Rightarrow> None
            | Some s \<Rightarrow> block_loop body (page_index + 1) 0 (remaining_size - copy_amount) s))"
  by pat_completeness auto
termination
  by (relation "measure (\<lambda>(body, page_index, page_offset, remaining_size, s). remaining_size)") auto

declare block_loop.simps [simp del]

definition current_vaddr :: "nat \<Rightarrow> nat \<Rightarrow> nat" where
  "current_vaddr page_index page_offset = (page_index * PAGE_SIZE + page_offset) mod 2 ^ 32"

definition read_page ::
    "'d Outside \<Rightarrow> nat \<Rightarrow> nat \<Rightarrow> nat \<Rightarrow> nat \<Rightarrow> u8 list \<times> 'd MemorySystem \<Rightarrow> (u8 list \<times> 'd MemorySystem) run" where
  "read_page out pt page_index page_offset copy_amount = (\<lambda>(dest, ms).
     let page_table = page_tables ms pt; addr = current_vaddr page_index page_offset
     in case attributes page_table page_index of
          Unmapped \<Rightarrow> Some (dest @ replicate copy_amount 0, ms)
        | Memory \<Rightarrow> do {
            ASSERT (raw_pointer page_table page_index \<noteq> 0);
            bs \<leftarrow> host_read (host ms) (raw_pointer page_table page_index + page_offset) copy_amount;
            Some (dest @ bs, ms) }
        | Special \<Rightarrow> do {
            h \<leftarrow> GetMMIOHandler page_table addr;
            h \<leftarrow> h;
            let (bs, d) = mmio_read_block out h addr copy_amount (devices ms);
            Some (dest @ bs, ms\<lparr>devices := d\<rparr>) }
        | RasterizerCachedMemory \<Rightarrow> do {
            ms \<leftarrow> RasterizerFlushVirtualRegion out addr copy_amount Flush ms;
            r \<leftarrow> GetPointerForRasterizerCache addr ms;
            bs \<leftarrow> host_read (host ms) (GetPtr r) copy_amount;
            Some (dest @ bs, ms) })"

definition ReadBlock :: "'d Outside \<Rightarrow> nat \<Rightarrow> nat \<Rightarrow> nat \<Rightarrow> 'd MemorySystem \<Rightarrow> (u8 list \<times> 'd MemorySystem) run" where
  "ReadBlock out pt src_addr sz ms =
     block_loop (read_page out pt) (src_addr div PAGE_SIZE) (src_addr mod PAGE_SIZE) sz ([], ms)"

text \<open>The bytes of a source for a device, which gets a pointer to them.\<close>

definition source_bytes :: "source \<Rightarrow> nat \<Rightarrow> nat \<Rightarrow> (nat \<rightharpoonup> u8) \<Rightarrow> u8 list run" where
  "source_bytes src pos n h =
     (case src of
        Buffer bs \<Rightarrow> do { ASSERT (pos + n \<le> length bs); Some (take n (drop pos bs)) }
      | Host q \<Rightarrow> host_read h (q + pos) n)"

definition write_page ::
    "'d Outside \<Rightarrow> nat \<Rightarrow> source \<Rightarrow> nat \<Rightarrow> nat \<Rightarrow> nat \<Rightarrow> nat \<times> 'd MemorySystem \<Rightarrow> (nat \<times> 'd MemorySystem) run" where
  "write_page out pt src page_index page_offset copy_amount = (\<lambda>(pos, ms).
     let page_table = page_tables ms pt; addr = current_vaddr page_index page_offset
     in map_option (Pair (pos + copy_amount)) (case attributes page_table page_index of
          Unmapped \<Rightarrow> Some ms
        | Memory \<Rightarrow> do {
            ASSERT (raw_pointer page_table page_index \<noteq> 0);
            h \<leftarrow> memcpy_from src pos (raw_pointer page_table page_index + page_offset) copy_amount (host ms);
            Some (set_host h ms) }
        | Special \<Rightarrow> do {
            h \<leftarrow> GetMMIOHandler page_table addr;
            h \<leftarrow> h;
            bs \<leftarrow> source_bytes src pos copy_amount (host ms);
            Some (ms\<lparr>devices := mmio_write_block out h addr bs (devices ms)\<rparr>) }
        | RasterizerCachedMemory \<Rightarrow> do {
            ms \<leftarrow> RasterizerFlushVirtualRegion out addr copy_amount Invalidate ms;
            r \<leftarrow> GetPointerForRasterizerCache addr ms;
            h \<leftarrow> memcpy_from src pos (GetPtr r) copy_amount (host ms);
            Some (set_host h ms) }))"

definition WriteBlock :: "'d Outside \<Rightarrow> nat \<Rightarrow> nat \<Rightarrow> source \<Rightarrow> nat \<Rightarrow> 'd MemorySystem \<Rightarrow> 'd MemorySystem run" where
  "WriteBlock out pt dest_addr src sz ms =
     map_option snd (block_loop (write_page out pt src) (dest_addr div PAGE_SIZE) (dest_addr mod PAGE_SIZE) sz (0, ms))"

definition zero_page ::
    "'d Outside \<Rightarrow> nat \<Rightarrow> nat \<Rightarrow> nat \<Rightarrow> nat \<Rightarrow> 'd MemorySystem \<Rightarrow> 'd MemorySystem run" where
  "zero_page out pt page_index page_offset copy_amount ms =
     (let page_table = page_tables ms pt; addr = current_vaddr page_index page_offset
      in case attributes page_table page_index of
          Unmapped \<Rightarrow> Some ms
        | Memory \<Rightarrow> do {
            ASSERT (raw_pointer page_table page_index \<noteq> 0);
            h \<leftarrow> host_write (host ms) (raw_pointer page_table page_index + page_offset) (replicate copy_amount 0);
            Some (set_host h ms) }
        | Special \<Rightarrow> do {
            h \<leftarrow> GetMMIOHandler page_table addr;
            h \<leftarrow> h;
            Some (ms\<lparr>devices := mmio_write_block out h addr (replicate copy_amount 0) (devices ms)\<rparr>) }
        | RasterizerCachedMemory \<Rightarrow> do {
            ms \<leftarrow> RasterizerFlushVirtualRegion out addr copy_amount Invalidate ms;
            r \<leftarrow> GetPointerForRasterizerCache addr ms;
            h \<leftarrow> host_write (host ms) (GetPtr r) (replicate copy_amount 0);
            Some (set_host h ms) })"

definition ZeroBlock :: "'d Outside \<Rightarrow> nat \<Rightarrow> nat \<Rightarrow> nat \<Rightarrow> 'd MemorySystem \<Rightarrow> 'd MemorySystem run" where
  "ZeroBlock out pt dest_addr sz ms = block_loop (zero_page out pt) (dest_addr div PAGE_SIZE) (dest_addr mod PAGE_SIZE) sz ms"

definition copy_page ::
    "'d Outside \<Rightarrow> nat \<Rightarrow> nat \<Rightarrow> nat \<Rightarrow> nat \<Rightarrow> nat \<Rightarrow> nat \<times> 'd MemorySystem \<Rightarrow> (nat \<times> 'd MemorySystem) run" where
  "copy_page out dest_pt src_pt page_index page_offset copy_amount = (\<lambda>(dest_addr, ms).
     let page_table = page_tables ms src_pt; addr = current_vaddr page_index page_offset
     in map_option (Pair (add32 dest_addr copy_amount)) (case attributes page_table page_index of
          Unmapped \<Rightarrow> ZeroBlock out dest_pt dest_addr copy_amount ms
        | Memory \<Rightarrow> do {
            ASSERT (raw_pointer page_table page_index \<noteq> 0);
            WriteBlock out dest_pt dest_addr (Host (raw_pointer page_table page_index + page_offset)) copy_amount ms }
        | Special \<Rightarrow> do {
            h \<leftarrow> GetMMIOHandler page_table addr;
            h \<leftarrow> h;
            let (bs, d) = mmio_read_block out h addr copy_amount (devices ms);
            WriteBlock out dest_pt dest_addr (Buffer bs) copy_amount (ms\<lparr>devices := d\<rparr>) }
        | RasterizerCachedMemory \<Rightarrow> do {
            ms \<leftarrow> RasterizerFlushVirtualRegion out addr copy_amount Flush ms;
            r \<leftarrow> GetPointerForRasterizerCache addr ms;
            WriteBlock out dest_pt dest_addr (Host (GetPtr r)) copy_amount ms }))"

definition CopyBlock :: "'d Outside \<Rightarrow> nat \<Rightarrow> nat \<Rightarrow> nat \<Rightarrow> nat \<Rightarrow> nat \<Rightarrow> 'd MemorySystem \<Rightarrow> 'd MemorySystem run" where
  "CopyBlock out dest_pt src_pt dest_addr src_addr sz ms =
     map_option snd (block_loop (copy_page out dest_pt src_pt) (src_addr div PAGE_SIZE) (src_addr mod PAGE_SIZE) sz (dest_addr, ms))"

end
