(* ===== verification/Memory_Blocks.thy ===== *)
theory Memory_Blocks
  imports Memory_System
begin

text \<open>
  What the block transfers of the memory system do, address by address: the reference is the byte at the host address an
  address is mapped to. The loop over pages is treated once, in \<open>block_loop_steps\<close>; reading, writing, clearing and copying
  are instances of it. The lemmas are stated for a renderer that keeps nothing back (none, or the software renderer, whose
  flush functions are empty), in the locale \<open>quiet_renderer\<close>; \<open>Memory_Coherence\<close> treats renderers that hold surfaces.
\<close>

section \<open>Where an address lives\<close>

definition locate :: "'d MemorySystem \<Rightarrow> nat \<Rightarrow> nat \<Rightarrow> nat option" where
  "locate ms pt a =
     (case attributes (page_tables ms pt) (a div PAGE_SIZE) of
        Memory \<Rightarrow> Some (raw_pointer (page_tables ms pt) (a div PAGE_SIZE) + a mod PAGE_SIZE)
      | RasterizerCachedMemory \<Rightarrow> map_option GetPtr (GetPointerForRasterizerCache a ms)
      | _ \<Rightarrow> None)"

definition byte_at :: "'d MemorySystem \<Rightarrow> nat \<Rightarrow> nat \<Rightarrow> u8" where
  "byte_at ms pt a = (case locate ms pt a of None \<Rightarrow> 0 | Some p \<Rightarrow> the (host ms p))"

definition cacheable :: "nat \<Rightarrow> bool" where
  "cacheable a \<longleftrightarrow> (LINEAR_HEAP_VADDR \<le> a \<and> a < LINEAR_HEAP_VADDR_END)
     \<or> (NEW_LINEAR_HEAP_VADDR \<le> a \<and> a < NEW_LINEAR_HEAP_VADDR_END) \<or> (VRAM_VADDR \<le> a \<and> a < VRAM_VADDR_END)"

definition allocated :: "'d MemorySystem \<Rightarrow> nat \<Rightarrow> nat \<Rightarrow> bool" where
  "allocated ms p n \<longleftrightarrow> p \<noteq> 0 \<and> (\<forall>a. p \<le> a \<and> a < p + n \<longrightarrow> host ms a \<noteq> None)"

definition page_ok :: "'d MemorySystem \<Rightarrow> PageTable \<Rightarrow> nat \<Rightarrow> bool" where
  "page_ok ms t i \<longleftrightarrow>
     (case attributes t i of
        Memory \<Rightarrow> allocated ms (raw_pointer t i) PAGE_SIZE
      | RasterizerCachedMemory \<Rightarrow> raw_pointer t i = 0 \<and> cacheable (i * PAGE_SIZE)
      | _ \<Rightarrow> raw_pointer t i = 0)"

definition mem_ok :: "'d MemorySystem \<Rightarrow> nat \<Rightarrow> bool" where
  "mem_ok ms pt \<longleftrightarrow> allocated ms (fcram ms) FCRAM_N3DS_SIZE \<and> allocated ms (vram ms) VRAM_SIZE
     \<and> (\<forall>i. page_ok ms (page_tables ms pt) i)"

definition no_device :: "'d MemorySystem \<Rightarrow> nat \<Rightarrow> nat \<Rightarrow> nat \<Rightarrow> bool" where
  "no_device ms pt a n \<longleftrightarrow> (\<forall>i < n. attributes (page_tables ms pt) ((a + i) div PAGE_SIZE) \<noteq> Special)"

lemma mem_ok_page: "mem_ok ms pt \<Longrightarrow> page_ok ms (page_tables ms pt) i"
  by (simp add: mem_ok_def)

text \<open>Writing bytes one by one to the places of their addresses; a byte without a place is dropped.\<close>

fun put :: "(nat \<Rightarrow> nat option) \<Rightarrow> nat \<Rightarrow> u8 list \<Rightarrow> (nat \<rightharpoonup> u8) \<Rightarrow> (nat \<rightharpoonup> u8)" where
  "put loc a [] h = h"
| "put loc a (b # bs) h = put loc (a + 1) bs (case loc a of None \<Rightarrow> h | Some p \<Rightarrow> h(p \<mapsto> b))"

lemma put_append: "put loc a (xs @ ys) h = put loc (a + length xs) ys (put loc a xs h)"
  by (induction xs arbitrary: a h) simp_all

lemma put_nowhere: "(\<And>j. j < length bs \<Longrightarrow> loc (a + j) = None) \<Longrightarrow> put loc a bs h = h"
proof (induction bs arbitrary: a)
  case (Cons b bs)
  have "put loc (a + 1) bs h = h" by (rule Cons.IH) (use Cons.prems [of "Suc _"] in simp)
  then show ?case using Cons.prems [of 0] by simp
qed simp

lemma put_linear:
  "(\<And>j. j < length bs \<Longrightarrow> loc (a + j) = Some (p + j)) \<Longrightarrow>
     put loc a bs h = (\<lambda>x. if p \<le> x \<and> x < p + length bs then Some (bs ! (x - p)) else h x)"
proof (induction bs arbitrary: a p h)
  case (Cons b bs)
  have "put loc (a + 1) bs h' = (\<lambda>x. if p + 1 \<le> x \<and> x < p + 1 + length bs then Some (bs ! (x - (p + 1))) else h' x)" for h'
    by (rule Cons.IH) (use Cons.prems [of "Suc _"] in simp)
  moreover have "loc a = Some p" using Cons.prems [of 0] by simp
  ultimately show ?case by (auto simp: fun_eq_iff nth_Cons' less_Suc_eq_le)
qed (auto simp: fun_eq_iff)

lemma put_dom: "(\<And>j p. j < length bs \<Longrightarrow> loc (a + j) = Some p \<Longrightarrow> h p \<noteq> None) \<Longrightarrow> (put loc a bs h x = None) = (h x = None)"
proof (induction bs arbitrary: a h)
  case (Cons b bs)
  let ?h = "case loc a of None \<Rightarrow> h | Some p \<Rightarrow> h(p \<mapsto> b)"
  have h: "(?h y = None) = (h y = None)" for y using Cons.prems [of 0] by (auto split: option.splits)
  have "(put loc (a + 1) bs ?h x = None) = (?h x = None)"
    by (rule Cons.IH) (use Cons.prems [of "Suc _"] h in auto)
  with h show ?case by simp
qed simp

lemma put_elsewhere: "(\<And>j. j < length bs \<Longrightarrow> loc (a + j) \<noteq> Some x) \<Longrightarrow> put loc a bs h x = h x"
proof (induction bs arbitrary: a h)
  case (Cons b bs)
  have "put loc (a + 1) bs h' x = h' x" for h' by (rule Cons.IH) (use Cons.prems [of "Suc _"] in simp)
  then show ?case using Cons.prems [of 0] by (auto split: option.splits)
qed simp

lemma put_shift: "a \<le> b \<Longrightarrow> put (\<lambda>x. loc (d + x - a)) b bs h = put loc (d + (b - a)) bs h"
  by (induction bs arbitrary: b h) (simp_all add: Suc_diff_le)

text \<open>Bytes put at different places are all found there.\<close>

lemma put_found:
  assumes "\<And>i j. i < length bs \<Longrightarrow> j < length bs \<Longrightarrow> loc (a + i) = loc (a + j) \<Longrightarrow> loc (a + i) \<noteq> None \<Longrightarrow> i = j"
    and "j < length bs" "loc (a + j) = Some p"
  shows "put loc a bs h p = Some (bs ! j)"
proof -
  have bs: "bs = take j bs @ bs ! j # drop (Suc j) bs" using assms(2) by (simp add: id_take_nth_drop)
  have e: "loc (a + j + 1 + i) \<noteq> Some p" if "i < length (drop (Suc j) bs)" for i
    using assms(1) [of j "j + 1 + i"] that assms(2,3) by (auto simp: ac_simps less_diff_conv)
  have "put loc a bs h = put loc (a + j + 1) (drop (Suc j) bs) ((put loc a (take j bs) h)(p \<mapsto> bs ! j))"
    by (subst bs, subst put_append) (use assms(2,3) in \<open>simp add: min_def\<close>)
  moreover have "put loc (a + j + 1) (drop (Suc j) bs) h' p = h' p" for h' by (rule put_elsewhere) (rule e)
  ultimately show ?thesis by simp
qed

section \<open>The loop over pages\<close>

lemma block_loop_general:
  assumes body: "\<And>idx off k s. idx < PAGE_TABLE_NUM_ENTRIES \<Longrightarrow> off + k \<le> PAGE_SIZE \<Longrightarrow> 0 < k \<Longrightarrow> a \<le> idx * PAGE_SIZE + off
      \<Longrightarrow> idx * PAGE_SIZE + off + k \<le> e \<Longrightarrow> I (idx * PAGE_SIZE + off) s
      \<Longrightarrow> body idx off k s = Some (step (idx * PAGE_SIZE + off) k s) \<and> I (idx * PAGE_SIZE + off + k) (step (idx * PAGE_SIZE + off) k s)"
    and add: "\<And>b k l s. step b (k + l) s = step (b + k) l (step b k s)" and zero: "\<And>b s. I b s \<Longrightarrow> step b 0 s = s"
    and e: "e \<le> 2 ^ 32"
  shows "off < PAGE_SIZE \<Longrightarrow> a \<le> idx * PAGE_SIZE + off \<Longrightarrow> idx * PAGE_SIZE + off + n = e \<Longrightarrow> I (idx * PAGE_SIZE + off) s
    \<Longrightarrow> block_loop body idx off n s = Some (step (idx * PAGE_SIZE + off) n s)
       \<and> I (idx * PAGE_SIZE + off + n) (step (idx * PAGE_SIZE + off) n s)"
proof (induction n arbitrary: idx off s rule: less_induct)
  case (less n)
  show ?case
  proof (cases "n = 0")
    case True
    with less.prems show ?thesis by (simp add: block_loop.simps zero)
  next
    case False
    define k where "k = min (PAGE_SIZE - off) n"
    let ?b = "idx * PAGE_SIZE + off" and ?n = "n - k"
    have k: "off + k \<le> PAGE_SIZE" "0 < k" "k \<le> n" "k < n \<Longrightarrow> off + k = PAGE_SIZE"
      using less.prems(1) False by (auto simp: k_def)
    have idx: "idx < PAGE_TABLE_NUM_ENTRIES"
      using less.prems(3) e False by (simp add: PAGE_TABLE_NUM_ENTRIES_def PAGE_SIZE_def)
    have b: "body idx off k s = Some (step ?b k s)" "I (?b + k) (step ?b k s)"
      using body [OF idx k(1,2) less.prems(2) _ less.prems(4)] less.prems(3) k(3) by auto
    have run: "block_loop body idx off n s = block_loop body (idx + 1) 0 ?n (step ?b k s)"
      using False idx less.prems(1) b(1) by (simp add: block_loop.simps [of body idx off n s] k_def [symmetric])
    have add': "step ?b n s = step (?b + k) ?n (step ?b k s)" using add [of ?b k ?n s] k(3) by simp
    show ?thesis
    proof (cases "k < n")
      case True
      with k(4) have q: "(idx + 1) * PAGE_SIZE + 0 = ?b + k" by (simp add: algebra_simps)
      have "block_loop body (idx + 1) 0 ?n (step ?b k s)
          = Some (step ((idx + 1) * PAGE_SIZE + 0) ?n (step ?b k s))
          \<and> I ((idx + 1) * PAGE_SIZE + 0 + ?n) (step ((idx + 1) * PAGE_SIZE + 0) ?n (step ?b k s))"
        by (rule less.IH, unfold q) (use k b(2) less.prems True in \<open>simp_all add: PAGE_SIZE_def\<close>)
      then show ?thesis unfolding run q add' using k(3) by (simp add: add.assoc)
    next
      case False
      with k(3) have "k = n" by simp
      with b(2) show ?thesis unfolding run add' by (simp add: block_loop.simps zero)
    qed
  qed
qed

lemma block_loop_one:
  assumes "idx < PAGE_TABLE_NUM_ENTRIES" "off + n \<le> PAGE_SIZE" "0 < n"
  shows "block_loop body idx off n s = body idx off n s"
proof -
  have "min (PAGE_SIZE - off) n = n" "\<not> PAGE_SIZE \<le> off" using assms(2,3) by auto
  with assms(1,3) show ?thesis
    by (subst block_loop.simps) (simp add: block_loop.simps [of body "Suc idx"] split: option.split)
qed

lemma block_loop_steps:
  assumes body: "\<And>idx off k s. idx < PAGE_TABLE_NUM_ENTRIES \<Longrightarrow> off + k \<le> PAGE_SIZE \<Longrightarrow> 0 < k \<Longrightarrow> a \<le> idx * PAGE_SIZE + off
      \<Longrightarrow> idx * PAGE_SIZE + off + k \<le> a + n \<Longrightarrow> I (idx * PAGE_SIZE + off) s
      \<Longrightarrow> body idx off k s = Some (step (idx * PAGE_SIZE + off) k s) \<and> I (idx * PAGE_SIZE + off + k) (step (idx * PAGE_SIZE + off) k s)"
    and add: "\<And>b k l s. step b (k + l) s = step (b + k) l (step b k s)" and zero: "\<And>b s. I b s \<Longrightarrow> step b 0 s = s"
    and "a + n \<le> 2 ^ 32" "I a s"
  shows "block_loop body (a div PAGE_SIZE) (a mod PAGE_SIZE) n s = Some (step a n s)"
  using block_loop_general [of a "a + n" I body step "a mod PAGE_SIZE" "a div PAGE_SIZE" n s, OF body add zero] assms(4,5)
  by (simp add: PAGE_SIZE_def)

section \<open>One page\<close>

lemma those_map_the: "(\<And>x. x \<in> set xs \<Longrightarrow> f x \<noteq> None) \<Longrightarrow> those (map f xs) = Some (map (\<lambda>x. the (f x)) xs)"
proof (induction xs)
  case (Cons x xs)
  then obtain y where "f x = Some y" by auto
  with Cons show ?case by simp
qed simp

lemma host_read_ok:
  "(\<And>a. p \<le> a \<Longrightarrow> a < p + n \<Longrightarrow> h a \<noteq> None) \<Longrightarrow> host_read h p n = Some (map (\<lambda>j. the (h (p + j))) [0 ..< n])"
proof -
  assume a: "\<And>a. p \<le> a \<Longrightarrow> a < p + n \<Longrightarrow> h a \<noteq> None"
  have u: "[p ..< p + n] = map (\<lambda>j. p + j) [0 ..< n]" by (rule nth_equalityI) simp_all
  show ?thesis unfolding host_read_def by (subst those_map_the) (use a in \<open>auto simp: u\<close>)
qed

lemma host_write_put:
  assumes "\<And>a. p \<le> a \<Longrightarrow> a < p + length bs \<Longrightarrow> h a \<noteq> None" "\<And>j. j < length bs \<Longrightarrow> loc (b + j) = Some (p + j)"
  shows "host_write h p bs = Some (put loc b bs h)"
  using assms(1) put_linear [of bs loc b p h, OF assms(2)] by (auto simp: host_write_def list_all_iff)

lemma page_address:
  assumes "off + j < PAGE_SIZE"
  shows "(idx * PAGE_SIZE + off + j) div PAGE_SIZE = idx" "(idx * PAGE_SIZE + off + j) mod PAGE_SIZE = off + j"
  using assms by (simp_all add: PAGE_SIZE_def add.assoc)

lemma current_vaddr_eq: "idx < PAGE_TABLE_NUM_ENTRIES \<Longrightarrow> off < PAGE_SIZE \<Longrightarrow> current_vaddr idx off = idx * PAGE_SIZE + off"
  by (simp add: current_vaddr_def PAGE_TABLE_NUM_ENTRIES_def PAGE_SIZE_def)

lemma page_fits: "idx * PAGE_SIZE < e \<Longrightarrow> e mod PAGE_SIZE = 0 \<Longrightarrow> idx * PAGE_SIZE + PAGE_SIZE \<le> e"
proof -
  assume "idx * PAGE_SIZE < e" and "e mod PAGE_SIZE = 0"
  then obtain c where c: "e = c * PAGE_SIZE" "idx * PAGE_SIZE < c * PAGE_SIZE" by auto
  then have "Suc idx * PAGE_SIZE \<le> c * PAGE_SIZE" by (intro mult_le_mono1) simp
  with c show ?thesis by simp
qed

lemma region_ends: "LINEAR_HEAP_VADDR_END mod PAGE_SIZE = 0" "NEW_LINEAR_HEAP_VADDR_END mod PAGE_SIZE = 0" "VRAM_VADDR_END mod PAGE_SIZE = 0"
  by (simp_all add: region_defs PAGE_SIZE_def)

lemma cached_pointer:
  assumes "cacheable (idx * PAGE_SIZE)" "off + k \<le> PAGE_SIZE" "0 < k"
    and ok: "allocated ms (fcram ms) FCRAM_N3DS_SIZE" "allocated ms (vram ms) VRAM_SIZE"
  obtains r where "GetPointerForRasterizerCache (idx * PAGE_SIZE + off) ms = Some r" "allocated ms (GetPtr r) k"
    "\<And>j. j < k \<Longrightarrow> map_option GetPtr (GetPointerForRasterizerCache (idx * PAGE_SIZE + off + j) ms) = Some (GetPtr r + j)"
proof -
  let ?a = "idx * PAGE_SIZE + off"
  have sub: "allocated ms (q + d) k" if "allocated ms q n" "d + k \<le> n" for q d n using that by (auto simp: allocated_def)
  consider (linear) "LINEAR_HEAP_VADDR \<le> ?a" "?a + k \<le> LINEAR_HEAP_VADDR_END"
    | (new_linear) "NEW_LINEAR_HEAP_VADDR \<le> ?a" "?a + k \<le> NEW_LINEAR_HEAP_VADDR_END"
    | (vram) "VRAM_VADDR \<le> ?a" "?a + k \<le> VRAM_VADDR_END"
    using assms(1-3) region_ends [THEN page_fits [rotated], of idx] unfolding cacheable_def by linarith
  then show thesis
  proof cases
    case linear
    then show thesis using assms(3) sub [OF ok(1), of "?a - LINEAR_HEAP_VADDR"]
      by (intro that [of "\<lparr>backing_mem = Some (fcram ms, FCRAM_N3DS_SIZE), mr_offset = ?a - LINEAR_HEAP_VADDR\<rparr>"])
        (auto simp: GetPointerForRasterizerCache_def MemoryRef_at_def GetPtr_def region_defs)
  next
    case new_linear
    then show thesis using assms(3) sub [OF ok(1), of "?a - NEW_LINEAR_HEAP_VADDR"]
      by (intro that [of "\<lparr>backing_mem = Some (fcram ms, FCRAM_N3DS_SIZE), mr_offset = ?a - NEW_LINEAR_HEAP_VADDR\<rparr>"])
        (auto simp: GetPointerForRasterizerCache_def MemoryRef_at_def GetPtr_def region_defs)
  next
    case vram
    then show thesis using assms(3) sub [OF ok(2), of "?a - VRAM_VADDR"]
      by (intro that [of "\<lparr>backing_mem = Some (vram ms, VRAM_SIZE), mr_offset = ?a - VRAM_VADDR\<rparr>"])
        (auto simp: GetPointerForRasterizerCache_def MemoryRef_at_def GetPtr_def region_defs)
  qed
qed

text \<open>The three ways in which a piece of a page without device is placed.\<close>

lemma placed_cases:
  assumes ok: "mem_ok ms pt" and piece: "off + k \<le> PAGE_SIZE" "0 < k" and nd: "attributes (page_tables ms pt) idx \<noteq> Special"
  obtains (nowhere) "attributes (page_tables ms pt) idx = Unmapped" "\<And>j. j < k \<Longrightarrow> locate ms pt (idx * PAGE_SIZE + off + j) = None"
  | (memory) p where "attributes (page_tables ms pt) idx = Memory" "p = raw_pointer (page_tables ms pt) idx + off"
      "raw_pointer (page_tables ms pt) idx \<noteq> 0" "allocated ms p k" "\<And>j. j < k \<Longrightarrow> locate ms pt (idx * PAGE_SIZE + off + j) = Some (p + j)"
  | (cached) r where "attributes (page_tables ms pt) idx = RasterizerCachedMemory"
      "GetPointerForRasterizerCache (idx * PAGE_SIZE + off) ms = Some r" "allocated ms (GetPtr r) k"
      "\<And>j. j < k \<Longrightarrow> locate ms pt (idx * PAGE_SIZE + off + j) = Some (GetPtr r + j)"
proof -
  have pg: "page_ok ms (page_tables ms pt) idx" "allocated ms (fcram ms) FCRAM_N3DS_SIZE" "allocated ms (vram ms) VRAM_SIZE"
    using ok by (simp_all add: mem_ok_def)
  have loc: "locate ms pt (idx * PAGE_SIZE + off + j) = (case attributes (page_tables ms pt) idx of
        Memory \<Rightarrow> Some (raw_pointer (page_tables ms pt) idx + (off + j))
      | RasterizerCachedMemory \<Rightarrow> map_option GetPtr (GetPointerForRasterizerCache (idx * PAGE_SIZE + off + j) ms)
      | _ \<Rightarrow> None)" if "j < k" for j
  proof -
    have "off + j < PAGE_SIZE" using that piece by simp
    from page_address [OF this, of idx] show ?thesis by (simp add: locate_def split: PageType.split)
  qed
  show thesis
  proof (cases "attributes (page_tables ms pt) idx")
    case Unmapped
    then show thesis using loc by (intro nowhere) simp_all
  next
    case Memory
    then show thesis using loc pg(1) piece(1) by (intro memory) (auto simp: page_ok_def allocated_def add.assoc)
  next
    case RasterizerCachedMemory
    with pg(1) have c: "cacheable (idx * PAGE_SIZE)" by (simp add: page_ok_def)
    from cached_pointer [OF c piece pg(2,3)] obtain r where r: "GetPointerForRasterizerCache (idx * PAGE_SIZE + off) ms = Some r"
      "allocated ms (GetPtr r) k"
      "\<And>j. j < k \<Longrightarrow> map_option GetPtr (GetPointerForRasterizerCache (idx * PAGE_SIZE + off + j) ms) = Some (GetPtr r + j)" by blast
    show thesis by (rule cached [OF RasterizerCachedMemory r(1,2)]) (simp add: loc r(3) RasterizerCachedMemory)
  qed (use nd in simp)
qed

lemma host_read_placed:
  assumes "allocated ms p k" "\<And>j. j < k \<Longrightarrow> locate ms pt (b + j) = Some (p + j)"
  shows "host_read (host ms) p k = Some (map (\<lambda>j. byte_at ms pt (b + j)) [0 ..< k])"
  by (subst host_read_ok) (use assms in \<open>auto simp: allocated_def byte_at_def\<close>)

lemma no_device_page:
  assumes "no_device ms pt a n" "off + k \<le> PAGE_SIZE" "0 < k" "a \<le> idx * PAGE_SIZE + off" "idx * PAGE_SIZE + off + k \<le> a + n"
  shows "attributes (page_tables ms pt) idx \<noteq> Special"
proof -
  have "idx * PAGE_SIZE + off - a < n" "(a + (idx * PAGE_SIZE + off - a)) div PAGE_SIZE = idx"
    using assms page_address(1) [of off 0 idx] by auto
  with assms(1) show ?thesis unfolding no_device_def by metis
qed

section \<open>Changing the contents only\<close>

definition same_blocks :: "(nat \<rightharpoonup> u8) \<Rightarrow> (nat \<rightharpoonup> u8) \<Rightarrow> bool" where
  "same_blocks h g \<longleftrightarrow> (\<forall>x. (h x = None) = (g x = None))"

lemma set_host_simps [simp]:
  "host (set_host h ms) = h" "page_tables (set_host h ms) = page_tables ms" "set_host h (set_host g ms) = set_host h ms"
  "set_host (host ms) ms = ms" "fcram (set_host h ms) = fcram ms" "vram (set_host h ms) = vram ms" "devices (set_host h ms) = devices ms"
  by (simp_all add: set_host_def)

lemma rasterizer_pointer_set_host [simp]: "GetPointerForRasterizerCache a (set_host h ms) = GetPointerForRasterizerCache a ms"
  by (simp add: GetPointerForRasterizerCache_def)

lemma locate_set_host [simp]: "locate (set_host h ms) pt = locate ms pt"
  by (rule ext) (simp add: locate_def split: PageType.split)

lemma mem_ok_set_host: "same_blocks h (host ms) \<Longrightarrow> mem_ok (set_host h ms) pt = mem_ok ms pt"
proof -
  assume d: "same_blocks h (host ms)"
  then have a: "allocated (set_host h ms) p n = allocated ms p n" for p n by (simp add: allocated_def same_blocks_def)
  then have "page_ok (set_host h ms) t i = page_ok ms t i" for t i by (simp add: page_ok_def split: PageType.split)
  with a show ?thesis by (simp add: mem_ok_def)
qed

lemma located_allocated:
  assumes "mem_ok ms pt" "locate ms pt a = Some p"
  shows "host ms p \<noteq> None"
proof -
  let ?i = "a div PAGE_SIZE" and ?o = "a mod PAGE_SIZE"
  have o: "?o + 1 \<le> PAGE_SIZE" by (simp add: PAGE_SIZE_def Suc_leI)
  have nd: "attributes (page_tables ms pt) ?i \<noteq> Special" using assms(2) by (auto simp: locate_def)
  have a: "?i * PAGE_SIZE + ?o + 0 = a" by simp
  show ?thesis
    by (rule placed_cases [OF assms(1) o _ nd]) (use a assms(2) in \<open>force simp: allocated_def\<close>)+
qed

lemma put_same_blocks:
  assumes "mem_ok ms pt" "same_blocks h (host ms)"
  shows "same_blocks (put (locate ms pt) a bs h) (host ms)"
  using assms located_allocated [OF assms(1)] put_dom [of bs "locate ms pt" a h] by (simp add: same_blocks_def)

section \<open>The source of a write\<close>

definition source_byte :: "source \<Rightarrow> (nat \<rightharpoonup> u8) \<Rightarrow> nat \<Rightarrow> u8" where
  "source_byte src h j = (case src of Buffer bs \<Rightarrow> bs ! j | Host q \<Rightarrow> the (h (q + j)))"

text \<open>A buffer is long enough; host memory is allocated and no place written to lies in it.\<close>

definition source_ok :: "'d MemorySystem \<Rightarrow> (nat \<Rightarrow> nat option) \<Rightarrow> nat \<Rightarrow> nat \<Rightarrow> source \<Rightarrow> bool" where
  "source_ok ms loc a n src \<longleftrightarrow>
     (case src of
        Buffer bs \<Rightarrow> n \<le> length bs
      | Host q \<Rightarrow> allocated ms q n \<and> (\<forall>j < n. \<forall>i < n. loc (a + j) \<noteq> Some (q + i)))"

lemma memcpy_put:
  assumes src: "source_ok ms loc a n src" "pos + k \<le> n" "0 < k" "b = a + pos"
    and dst: "allocated ms p k" "\<And>j. j < k \<Longrightarrow> loc (b + j) = Some (p + j)"
    and h: "same_blocks h (host ms)" "\<And>q j. src = Host q \<Longrightarrow> j < n \<Longrightarrow> h (q + j) = host ms (q + j)"
  shows "memcpy_from src pos p k h = Some (put loc b (map (\<lambda>j. source_byte src (host ms) (pos + j)) [0 ..< k]) h)"
proof -
  let ?d = "map (\<lambda>j. source_byte src (host ms) (pos + j)) [0 ..< k]"
  have w: "host_write h p ?d = Some (put loc b ?d h)"
    by (rule host_write_put) (use dst h(1) in \<open>auto simp: allocated_def same_blocks_def\<close>)
  show ?thesis
  proof (cases src)
    case (Buffer bs)
    with src(1,2) have "take k (drop pos bs) = ?d" by (intro nth_equalityI) (simp_all add: source_ok_def source_byte_def)
    with w src(1,2) Buffer show ?thesis by (simp add: memcpy_from_def source_ok_def)
  next
    case (Host q)
    have "p + k \<le> q + pos \<or> q + pos + k \<le> p"
    proof (rule ccontr)
      assume o: "\<not> (p + k \<le> q + pos \<or> q + pos + k \<le> p)"
      define x where "x = max p (q + pos)"
      have x: "p \<le> x" "x < p + k" "q + pos \<le> x" "x < q + pos + k" using o src(3) by (auto simp: x_def)
      then have "loc (a + (pos + (x - p))) = Some (q + (x - q))" using dst(2) [of "x - p"] src(4) by (simp add: add.assoc)
      moreover have "pos + (x - p) < n" "x - q < n" using x src(2) by auto
      ultimately show False using src(1) Host by (auto simp: source_ok_def)
    qed
    moreover have "host_read h (q + pos) k = Some ?d"
      by (subst host_read_ok) (use src h Host in \<open>auto simp: source_ok_def allocated_def same_blocks_def source_byte_def add.assoc\<close>)
    ultimately show ?thesis using w Host by (simp add: memcpy_from_def)
  qed
qed

lemma map_upt_add: "map f [0 ..< k + l] = map f [0 ..< k] @ map (\<lambda>j. f (k + j)) [0 ..< l]"
  by (rule nth_equalityI) (auto simp: nth_append)

section \<open>The transfers\<close>

locale quiet_renderer =
  fixes out :: "'d Outside"
  assumes quiet: "\<And>a n mode ms. RasterizerFlushVirtualRegion out a n mode ms = Some ms"
begin

lemma read_bytes:
  assumes ok: "mem_ok ms pt" "no_device ms pt a n" "a + n \<le> 2 ^ 32"
  shows "ReadBlock out pt a n ms = Some (map (byte_at ms pt) [a ..< a + n], ms)"
proof -
  let ?step = "\<lambda>b k (dest, s). (dest @ map (byte_at s pt) [b ..< b + k], s)"
  have add: "?step b (k + l) s = ?step (b + k) l (?step b k s)" for b k l and s :: "u8 list \<times> 'd MemorySystem"
    using upt_add_eq_append [of b "b + k" l] by (cases s) (simp add: add.assoc)
  have "block_loop (read_page out pt) (a div PAGE_SIZE) (a mod PAGE_SIZE) n ([], ms) = Some (?step a n ([], ms))"
  proof (rule block_loop_steps [where I = "\<lambda>b (dest, s). s = ms" and step = ?step, OF _ add])
    fix idx off k and s :: "u8 list \<times> 'd MemorySystem"
    let ?b = "idx * PAGE_SIZE + off"
    assume i: "idx < PAGE_TABLE_NUM_ENTRIES" "off + k \<le> PAGE_SIZE" "0 < k" "a \<le> ?b" "?b + k \<le> a + n" "case s of (dest, s) \<Rightarrow> s = ms"
    then obtain dest where s: "s = (dest, ms)" by (cases s) auto
    have v: "current_vaddr idx off = ?b" using i by (simp add: current_vaddr_eq)
    have nd: "attributes (page_tables ms pt) idx \<noteq> Special"
      by (rule no_device_page [OF ok(2) i(2-5)])
    have u: "map (byte_at ms pt) [?b ..< ?b + k] = map (\<lambda>j. byte_at ms pt (?b + j)) [0 ..< k]" by (rule nth_equalityI) simp_all
    have "read_page out pt idx off k (dest, ms) = Some (dest @ map (\<lambda>j. byte_at ms pt (?b + j)) [0 ..< k], ms)"
    proof (rule placed_cases [OF ok(1) i(2,3) nd])
      assume "attributes (page_tables ms pt) idx = Unmapped" "\<And>j. j < k \<Longrightarrow> locate ms pt (?b + j) = None"
      moreover from this have "replicate k 0 = map (\<lambda>j. byte_at ms pt (?b + j)) [0 ..< k]"
        by (intro nth_equalityI) (simp_all add: byte_at_def)
      ultimately show ?thesis by (simp add: read_page_def)
    next
      fix p assume m: "attributes (page_tables ms pt) idx = Memory" "p = raw_pointer (page_tables ms pt) idx + off"
        "raw_pointer (page_tables ms pt) idx \<noteq> 0" "allocated ms p k" "\<And>j. j < k \<Longrightarrow> locate ms pt (?b + j) = Some (p + j)"
      from m(4,5) have "host_read (host ms) p k = Some (map (\<lambda>j. byte_at ms pt (?b + j)) [0 ..< k])" by (rule host_read_placed)
      with m(1-3) show ?thesis by (simp add: read_page_def)
    next
      fix r assume m: "attributes (page_tables ms pt) idx = RasterizerCachedMemory"
        "GetPointerForRasterizerCache ?b ms = Some r" "allocated ms (GetPtr r) k" "\<And>j. j < k \<Longrightarrow> locate ms pt (?b + j) = Some (GetPtr r + j)"
      from m(3,4) have "host_read (host ms) (GetPtr r) k = Some (map (\<lambda>j. byte_at ms pt (?b + j)) [0 ..< k])" by (rule host_read_placed)
      with m(1,2) show ?thesis by (simp add: read_page_def quiet v)
    qed
    then show "read_page out pt idx off k s = Some (?step ?b k s) \<and> (case ?step ?b k s of (dest, s) \<Rightarrow> s = ms)"
      by (simp add: s u)
  qed (use ok(3) in auto)
  then show ?thesis by (simp add: ReadBlock_def)
qed

lemma write_bytes:
  assumes ok: "mem_ok ms pt" "no_device ms pt a n" "a + n \<le> 2 ^ 32" "source_ok ms (locate ms pt) a n src"
  shows "WriteBlock out pt a src n ms
    = Some (set_host (put (locate ms pt) a (map (source_byte src (host ms)) [0 ..< n]) (host ms)) ms)"
proof -
  let ?data = "\<lambda>pos k. map (\<lambda>j. source_byte src (host ms) (pos + j)) [0 ..< k]"
  let ?put = "\<lambda>b pos k h. put (locate ms pt) b (?data pos k) h"
  let ?step = "\<lambda>b k (pos, s). (pos + k, set_host (?put b pos k (host s)) s)"
  let ?I = "\<lambda>b (pos, s). b = a + pos \<and> (\<exists>h. s = set_host h ms \<and> same_blocks h (host ms)
      \<and> (\<forall>q. src = Host q \<longrightarrow> (\<forall>j < n. h (q + j) = host ms (q + j))))"
  have add: "?step b (k + l) s = ?step (b + k) l (?step b k s)" for b k l and s :: "nat \<times> 'd MemorySystem"
    by (cases s) (simp add: map_upt_add put_append add.assoc)
  have "block_loop (write_page out pt src) (a div PAGE_SIZE) (a mod PAGE_SIZE) n (0, ms) = Some (?step a n (0, ms))"
  proof (rule block_loop_steps [where I = ?I and step = ?step, OF _ add])
    fix idx off k and s :: "nat \<times> 'd MemorySystem"
    let ?b = "idx * PAGE_SIZE + off"
    assume i: "idx < PAGE_TABLE_NUM_ENTRIES" "off + k \<le> PAGE_SIZE" "0 < k" "a \<le> ?b" "?b + k \<le> a + n" and I: "?I ?b s"
    from I obtain pos h where s: "s = (pos, set_host h ms)" "?b = a + pos" "same_blocks h (host ms)"
      "\<And>q j. src = Host q \<Longrightarrow> j < n \<Longrightarrow> h (q + j) = host ms (q + j)" by (cases s) auto
    have v: "current_vaddr idx off = ?b" using i by (simp add: current_vaddr_eq)
    have nd: "attributes (page_tables ms pt) idx \<noteq> Special" by (rule no_device_page [OF ok(2) i(2-5)])
    have pos: "pos + k \<le> n" using i(5) s(2) by simp
    note copy = memcpy_put [OF ok(4) pos i(3) s(2) _ _ s(3,4)]
    have "write_page out pt src idx off k (pos, set_host h ms) = Some (?step ?b k (pos, set_host h ms))"
    proof (rule placed_cases [OF ok(1) i(2,3) nd])
      assume "attributes (page_tables ms pt) idx = Unmapped" "\<And>j. j < k \<Longrightarrow> locate ms pt (?b + j) = None"
      then show ?thesis using put_nowhere [of "?data pos k" "locate ms pt" ?b h] by (simp add: write_page_def)
    next
      fix p assume "attributes (page_tables ms pt) idx = Memory" "p = raw_pointer (page_tables ms pt) idx + off"
        "raw_pointer (page_tables ms pt) idx \<noteq> 0" "allocated ms p k" "\<And>j. j < k \<Longrightarrow> locate ms pt (?b + j) = Some (p + j)"
      then show ?thesis using copy [of p] by (simp add: write_page_def)
    next
      fix r assume "attributes (page_tables ms pt) idx = RasterizerCachedMemory"
        "GetPointerForRasterizerCache ?b ms = Some r" "allocated ms (GetPtr r) k" "\<And>j. j < k \<Longrightarrow> locate ms pt (?b + j) = Some (GetPtr r + j)"
      then show ?thesis using copy [of "GetPtr r"] by (simp add: write_page_def quiet v)
    qed
    moreover have "?put ?b pos k h (q + j) = host ms (q + j)" if "src = Host q" "j < n" for q j
      using put_elsewhere [of "?data pos k" "locate ms pt" ?b "q + j" h] ok(4) that pos s(2,4)
      by (auto simp: source_ok_def add.assoc)
    moreover have "same_blocks (?put ?b pos k h) (host ms)" by (rule put_same_blocks [OF ok(1) s(3)])
    ultimately show "write_page out pt src idx off k s = Some (?step ?b k s) \<and> ?I (?b + k) (?step ?b k s)"
      using s(2) by (auto simp: s(1))
  qed (use ok(3) in \<open>auto simp: same_blocks_def intro!: exI [of _ "host ms"]\<close>)
  then show ?thesis by (simp add: WriteBlock_def)
qed

lemma zero_bytes:
  assumes ok: "mem_ok ms pt" "no_device ms pt a n" "a + n \<le> 2 ^ 32"
  shows "ZeroBlock out pt a n ms = Some (set_host (put (locate ms pt) a (replicate n 0) (host ms)) ms)"
proof -
  let ?step = "\<lambda>b k s. set_host (put (locate ms pt) b (replicate k 0) (host s)) s"
  let ?I = "\<lambda>b s. \<exists>h. s = set_host h ms \<and> same_blocks h (host ms)"
  have add: "?step b (k + l) s = ?step (b + k) l (?step b k s)" for b k l and s :: "'d MemorySystem"
    by (simp add: replicate_add put_append)
  have "block_loop (zero_page out pt) (a div PAGE_SIZE) (a mod PAGE_SIZE) n ms = Some (?step a n ms)"
  proof (rule block_loop_steps [where I = ?I and step = ?step, OF _ add])
    fix idx off k and s :: "'d MemorySystem"
    let ?b = "idx * PAGE_SIZE + off"
    assume i: "idx < PAGE_TABLE_NUM_ENTRIES" "off + k \<le> PAGE_SIZE" "0 < k" "a \<le> ?b" "?b + k \<le> a + n" and I: "?I ?b s"
    from I obtain h where s: "s = set_host h ms" "same_blocks h (host ms)" by auto
    have v: "current_vaddr idx off = ?b" using i by (simp add: current_vaddr_eq)
    have nd: "attributes (page_tables ms pt) idx \<noteq> Special" by (rule no_device_page [OF ok(2) i(2-5)])
    have w: "host_write h p (replicate k 0) = Some (put (locate ms pt) ?b (replicate k 0) h)"
      if "allocated ms p k" "\<And>j. j < k \<Longrightarrow> locate ms pt (?b + j) = Some (p + j)" for p
      by (rule host_write_put) (use that s(2) in \<open>auto simp: allocated_def same_blocks_def\<close>)
    have "zero_page out pt idx off k s = Some (?step ?b k s)"
    proof (rule placed_cases [OF ok(1) i(2,3) nd])
      assume "attributes (page_tables ms pt) idx = Unmapped" "\<And>j. j < k \<Longrightarrow> locate ms pt (?b + j) = None"
      then show ?thesis using put_nowhere [of "replicate k 0" "locate ms pt" ?b h] by (simp add: zero_page_def s(1))
    qed (use w in \<open>auto simp: zero_page_def quiet v s(1)\<close>)
    moreover have "same_blocks (put (locate ms pt) ?b (replicate k 0) h) (host ms)" by (rule put_same_blocks [OF ok(1) s(2)])
    ultimately show "zero_page out pt idx off k s = Some (?step ?b k s) \<and> ?I (?b + k) (?step ?b k s)"
      by (auto simp: s(1))
  qed (use ok(3) in \<open>auto simp: same_blocks_def intro!: exI [of _ "host ms"]\<close>)
  then show ?thesis by (simp add: ZeroBlock_def)
qed

lemma copy_piece:
  fixes idx off :: nat
  defines "b \<equiv> idx * PAGE_SIZE + off"
  assumes piece: "idx < PAGE_TABLE_NUM_ENTRIES" "off + k \<le> PAGE_SIZE" "0 < k"
    and src: "mem_ok ms spt" "attributes (page_tables ms spt) idx \<noteq> Special"
    and dst: "mem_ok ms dpt" "no_device ms dpt x k" "x + k \<le> 2 ^ 32"
    and h: "same_blocks h (host ms)" "\<And>j p. j < k \<Longrightarrow> locate ms spt (b + j) = Some p \<Longrightarrow> h p = host ms p"
    and apart: "\<And>i j p. i < k \<Longrightarrow> j < k \<Longrightarrow> locate ms spt (b + i) = Some p \<Longrightarrow> locate ms dpt (x + j) \<noteq> Some p"
  shows "copy_page out dpt spt idx off k (x, set_host h ms)
    = Some (add32 x k, set_host (put (locate ms dpt) x (map (\<lambda>j. byte_at ms spt (b + j)) [0 ..< k]) h) ms)"
proof -
  let ?data = "map (\<lambda>j. byte_at ms spt (b + j)) [0 ..< k]"
  have ok: "mem_ok (set_host h ms) dpt" "no_device (set_host h ms) dpt x k"
    using dst(1,2) by (simp_all add: mem_ok_set_host h(1) no_device_def)
  have host: "WriteBlock out dpt x (Host p) k (set_host h ms) = Some (set_host (put (locate ms dpt) x ?data h) ms)"
    if p: "allocated ms p k" "\<And>j. j < k \<Longrightarrow> locate ms spt (b + j) = Some (p + j)" for p
  proof -
    have "source_ok (set_host h ms) (locate ms dpt) x k (Host p)"
      using p(1) h(1) apart [OF _ _ p(2)] by (auto simp: source_ok_def allocated_def same_blocks_def)
    moreover have "map (source_byte (Host p) h) [0 ..< k] = ?data"
      using h(2) [OF _ p(2)] p(2) by (auto simp: source_byte_def byte_at_def)
    ultimately show ?thesis using write_bytes [OF ok dst(3), of "Host p"] by (simp del: map_eq_conv)
  qed
  show ?thesis
  proof (rule placed_cases [OF src(1) piece(2,3) src(2)], fold b_def)
    assume u: "attributes (page_tables ms spt) idx = Unmapped" "\<And>j. j < k \<Longrightarrow> locate ms spt (b + j) = None"
    then have "?data = replicate k 0" by (intro nth_equalityI) (simp_all add: byte_at_def)
    then show ?thesis using u(1) zero_bytes [OF ok dst(3)] by (simp add: copy_page_def)
  next
    fix p assume "attributes (page_tables ms spt) idx = Memory" "p = raw_pointer (page_tables ms spt) idx + off"
      "raw_pointer (page_tables ms spt) idx \<noteq> 0" "allocated ms p k" "\<And>j. j < k \<Longrightarrow> locate ms spt (b + j) = Some (p + j)"
    then show ?thesis using host [of p] by (simp add: copy_page_def)
  next
    fix r assume "attributes (page_tables ms spt) idx = RasterizerCachedMemory"
      "GetPointerForRasterizerCache b ms = Some r" "allocated ms (GetPtr r) k" "\<And>j. j < k \<Longrightarrow> locate ms spt (b + j) = Some (GetPtr r + j)"
    then show ?thesis using host [of "GetPtr r"] piece by (simp add: copy_page_def quiet current_vaddr_eq b_def)
  qed
qed

lemma copy_bytes:
  assumes src: "mem_ok ms spt" "no_device ms spt a n" "a + n \<le> 2 ^ 32"
    and dst: "mem_ok ms dpt" "no_device ms dpt d n" "d + n \<le> 2 ^ 32"
    and apart: "\<And>i j p. i < n \<Longrightarrow> j < n \<Longrightarrow> locate ms spt (a + i) = Some p \<Longrightarrow> locate ms dpt (d + j) \<noteq> Some p"
  shows "CopyBlock out dpt spt d a n ms
    = Some (set_host (put (locate ms dpt) d (map (byte_at ms spt) [a ..< a + n]) (host ms)) ms)"
proof (cases "n = 0")
  case False
  let ?loc = "\<lambda>x. locate ms dpt (d + x - a)"
  let ?data = "\<lambda>b k. map (\<lambda>j. byte_at ms spt (b + j)) [0 ..< k]"
  let ?step = "\<lambda>b k (x, s). (add32 x k, set_host (put ?loc b (?data b k) (host s)) s)"
  let ?I = "\<lambda>b (x, s). a \<le> b \<and> x = (d + (b - a)) mod 2 ^ 32 \<and> (\<exists>h. s = set_host h ms \<and> same_blocks h (host ms)
      \<and> (\<forall>i p. i < n \<longrightarrow> locate ms spt (a + i) = Some p \<longrightarrow> h p = host ms p))"
  have add: "?step b (k + l) s = ?step (b + k) l (?step b k s)" for b k l and s :: "nat \<times> 'd MemorySystem"
    by (cases s) (simp add: map_upt_add put_append add32_assoc_add add.assoc)
  have d: "d < 2 ^ 32" using False dst(3) by simp
  have "block_loop (copy_page out dpt spt) (a div PAGE_SIZE) (a mod PAGE_SIZE) n (d, ms) = Some (?step a n (d, ms))"
  proof (rule block_loop_steps [where I = ?I and step = ?step, OF _ add])
    fix idx off k and s :: "nat \<times> 'd MemorySystem"
    let ?b = "idx * PAGE_SIZE + off"
    assume i: "idx < PAGE_TABLE_NUM_ENTRIES" "off + k \<le> PAGE_SIZE" "0 < k" "a \<le> ?b" "?b + k \<le> a + n" and I: "?I ?b s"
    define e where "e = ?b - a"
    define x where "x = d + e"
    have x: "x + k \<le> d + n" "x < 2 ^ 32" "e + k \<le> n" "?b = a + e" using i dst(3) by (simp_all add: x_def e_def)
    from I x(2) obtain h where s: "s = (x, set_host h ms)" "same_blocks h (host ms)"
      and kept: "\<And>i p. i < n \<Longrightarrow> locate ms spt (a + i) = Some p \<Longrightarrow> h p = host ms p" by (cases s) (auto simp: x_def e_def)
    have nd: "no_device ms dpt x k" using dst(2) x(3) by (simp add: no_device_def x_def add.assoc)
    have sh: "put ?loc ?b bs g = put (locate ms dpt) x bs g" for bs g using i by (simp add: put_shift x_def e_def)
    have away: "locate ms dpt (x + j) \<noteq> Some p" if "i < n" "j < k" "locate ms spt (a + i) = Some p" for i j p
      using apart [OF that(1) _ that(3), of "e + j"] that(2) x(3) by (simp add: x_def add.assoc)
    have "copy_page out dpt spt idx off k (x, set_host h ms) = Some (add32 x k, set_host (put (locate ms dpt) x (?data ?b k) h) ms)"
    proof (rule copy_piece [OF i(1-3) src(1) no_device_page [OF src(2) i(2-5)] dst(1) nd _ s(2)])
      fix j p assume "j < k" "locate ms spt (?b + j) = Some p"
      then show "h p = host ms p" using kept [of "e + j"] x(3,4) by (simp add: add.assoc)
    next
      fix i j p assume "i < k" "j < k" "locate ms spt (?b + i) = Some p"
      then show "locate ms dpt (x + j) \<noteq> Some p" using away [of "e + i"] x(3,4) by (simp add: add.assoc)
    qed (use x(1) dst(3) in simp)
    moreover have "put (locate ms dpt) x (?data ?b k) h p = host ms p" if "i < n" "locate ms spt (a + i) = Some p" for i p
      using put_elsewhere [of "?data ?b k" "locate ms dpt" x p h] kept [OF that] away [OF that(1) _ that(2)] by simp
    moreover have "same_blocks (put (locate ms dpt) x (?data ?b k) h) (host ms)" by (rule put_same_blocks [OF dst(1) s(2)])
    moreover have "add32 x k = (d + (?b + k - a)) mod 2 ^ 32" using i by (simp add: add32_def x_def e_def add.assoc)
    ultimately show "copy_page out dpt spt idx off k s = Some (?step ?b k s) \<and> ?I (?b + k) (?step ?b k s)"
      using i(4) by (auto simp: s(1) sh)
  qed (use src(3) d in \<open>auto simp: same_blocks_def add32_def intro!: exI [of _ "host ms"]\<close>)
  moreover have "map (byte_at ms spt) [a ..< a + n] = ?data a n" by (rule nth_equalityI) simp_all
  ultimately show ?thesis by (simp add: CopyBlock_def put_shift)
qed (simp add: CopyBlock_def block_loop.simps)

end

text \<open>The renderers of the repository that keep no surfaces: none, and the software renderer with its empty functions.\<close>

definition SWRasterizer_flush :: "FlushMode \<Rightarrow> nat \<Rightarrow> nat \<Rightarrow> 'd MemorySystem \<Rightarrow> 'd MemorySystem run" where
  "SWRasterizer_flush mode addr sz ms = Some ms"

interpretation no_renderer: quiet_renderer "out\<lparr>renderer := None\<rparr>" for out
  by unfold_locales (simp add: RasterizerFlushVirtualRegion_def)

interpretation software: quiet_renderer "out\<lparr>renderer := Some SWRasterizer_flush\<rparr>" for out
  by unfold_locales (simp add: RasterizerFlushVirtualRegion_def CheckRegion_def SWRasterizer_flush_def Let_def)

lemma quiet_out: "renderer out = None \<or> renderer out = Some SWRasterizer_flush \<Longrightarrow> quiet_renderer out"
proof (elim disjE)
  assume "renderer out = None"
  then have "out\<lparr>renderer := None\<rparr> = out" by simp
  then show ?thesis using no_renderer.quiet_renderer_axioms [of out] by metis
next
  assume "renderer out = Some SWRasterizer_flush"
  then have "out\<lparr>renderer := Some SWRasterizer_flush\<rparr> = out" by simp
  then show ?thesis using software.quiet_renderer_axioms [of out] by metis
qed

section \<open>Typed accesses\<close>

text \<open>Within one page an access of the processor and the block transfer of the kernel are the same.\<close>

lemma typed_access_block:
  assumes ok: "mem_ok ms pt" "current_page_table ms = Some pt" "vaddr < 2 ^ 32"
    and page: "vaddr mod PAGE_SIZE + n \<le> PAGE_SIZE" "0 < n" and nd: "attributes (page_tables ms pt) (vaddr div PAGE_SIZE) \<noteq> Special"
  shows "Read out n vaddr ms = ReadBlock out pt vaddr n ms"
    "length data = n \<Longrightarrow> Write out vaddr data ms = WriteBlock out pt vaddr (Buffer data) n ms"
proof -
  let ?i = "vaddr div PAGE_SIZE" and ?o = "vaddr mod PAGE_SIZE" and ?t = "page_tables ms pt"
  have i: "?i < PAGE_TABLE_NUM_ENTRIES" "?o < PAGE_SIZE" "min (PAGE_SIZE - ?o) n = n"
    using ok(3) page by (auto simp: PAGE_TABLE_NUM_ENTRIES_def PAGE_SIZE_def)
  have v: "current_vaddr ?i ?o = vaddr" using i by (simp add: current_vaddr_eq)
  note one = block_loop_one [OF i(1) page]
  have raw: "(raw_pointer ?t ?i \<noteq> 0) = (attributes ?t ?i = Memory)"
    using mem_ok_page [OF ok(1), of ?i] by (cases "attributes ?t ?i") (simp_all add: page_ok_def allocated_def)
  note rd = Read_def ReadBlock_def one read_page_def v ok(2)
  note wr = Write_def WriteBlock_def one write_page_def v ok(2) memcpy_from_def
  show "Read out n vaddr ms = ReadBlock out pt vaddr n ms"
  proof (cases "attributes ?t ?i")
    case Memory
    with raw have "raw_pointer ?t ?i \<noteq> 0" by simp
    with Memory show ?thesis by (simp add: rd)
  qed (use nd raw in \<open>simp_all add: rd\<close>)
  assume l: "length data = n"
  show "Write out vaddr data ms = WriteBlock out pt vaddr (Buffer data) n ms"
  proof (cases "attributes ?t ?i")
    case Memory
    with raw have "raw_pointer ?t ?i \<noteq> 0" by simp
    with Memory l show ?thesis by (simp add: wr split: Option.bind_split)
  qed (use nd raw l in \<open>simp_all add: wr split: Option.bind_split\<close>)
qed

section \<open>Properties\<close>

text \<open>All of the range is mapped, no two of its addresses to the same byte of the host.\<close>

definition own_bytes :: "'d MemorySystem \<Rightarrow> nat \<Rightarrow> nat \<Rightarrow> nat \<Rightarrow> bool" where
  "own_bytes ms pt a n \<longleftrightarrow> (\<forall>i < n. locate ms pt (a + i) \<noteq> None) \<and> (\<forall>i < n. \<forall>j < n. locate ms pt (a + i) = locate ms pt (a + j) \<longrightarrow> i = j)"

lemma own_bytes_no_device: "own_bytes ms pt a n \<Longrightarrow> no_device ms pt a n"
  by (auto simp: own_bytes_def no_device_def locate_def split: PageType.splits)

lemma no_device_set_host [simp]: "no_device (set_host h ms) = no_device ms"
  by (intro ext) (simp add: no_device_def)

lemma byte_at_elsewhere:
  assumes "\<And>i. i < length bs \<Longrightarrow> locate ms pt' b \<noteq> locate ms pt (a + i)"
  shows "byte_at (set_host (put (locate ms pt) a bs (host ms)) ms) pt' b = byte_at ms pt' b"
proof (cases "locate ms pt' b")
  case (Some p)
  have "put (locate ms pt) a bs (host ms) p = host ms p" by (rule put_elsewhere) (use assms Some in force)
  with Some show ?thesis by (simp add: byte_at_def)
qed (simp add: byte_at_def)

lemma own_bytes_put:
  assumes "own_bytes ms pt a n" "length bs = n"
  shows "map (byte_at (set_host (put (locate ms pt) a bs h) ms) pt) [a ..< a + n] = bs"
proof (rule nth_equalityI)
  fix j assume "j < length (map (byte_at (set_host (put (locate ms pt) a bs h) ms) pt) [a ..< a + n])"
  then have j: "j < n" by simp
  with assms(1) obtain p where p: "locate ms pt (a + j) = Some p" by (auto simp: own_bytes_def)
  have "put (locate ms pt) a bs h p = Some (bs ! j)"
    by (rule put_found [where loc = "locate ms pt" and a = a and bs = bs, OF _ _ p]) (use assms j in \<open>auto simp: own_bytes_def\<close>)
  with j p show "map (byte_at (set_host (put (locate ms pt) a bs h) ms) pt) [a ..< a + n] ! j = bs ! j" by (simp add: byte_at_def)
qed (use assms(2) in simp)

text \<open>An example: two pages at \<open>0x100000\<close>, backed by two places of the host, and a page of the linear heap that
  is in the rasterizer cache.\<close>

definition example_table :: PageTable where
  "example_table = \<lparr>pointers = (\<lambda>_. MemoryRef_null)(0x100 := \<lparr>backing_mem = Some (0x5000, 0x1000), mr_offset = 0\<rparr>,
       0x101 := \<lparr>backing_mem = Some (0x3040, 0x1000), mr_offset = 0\<rparr>),
     special_regions = [], attributes = (\<lambda>_. Unmapped)(0x100 := Memory, 0x101 := Memory, 0x14000 := RasterizerCachedMemory)\<rparr>"

definition example_memory :: "unit MemorySystem" where
  "example_memory = \<lparr>host = (\<lambda>a. Some (of_nat a)), fcram = 0x10000000, vram = 0x30000000, n3ds_extra_ram = 0x40000000, dsp_ram = 0x50000000,
     page_tables = (\<lambda>_. example_table), current_page_table = Some 0, page_table_list = [0],
     cache_marker = \<lparr>marks_vram = (\<lambda>_. False), marks_linear_heap = (\<lambda>i. i = 0), marks_new_linear_heap = (\<lambda>_. False)\<rparr>, devices = ()\<rparr>"

definition example_outside :: "unit Outside" where
  "example_outside = \<lparr>renderer = Some SWRasterizer_flush, mmio_valid = (\<lambda>_ _. False), mmio_read = (\<lambda>_ _ _ d. ([], d)), mmio_write = (\<lambda>_ _ _ d. d),
     mmio_read_block = (\<lambda>_ _ _ d. ([], d)), mmio_write_block = (\<lambda>_ _ _ d. d)\<rparr>"

lemma example_simps [simp]: "host example_memory = (\<lambda>a. Some (of_nat a))" "renderer example_outside = Some SWRasterizer_flush"
    "current_page_table example_memory = Some 0"
  by (simp_all add: example_memory_def example_outside_def)

lemma example_ok: "mem_ok example_memory pt"
  by (auto simp: mem_ok_def page_ok_def allocated_def example_memory_def example_table_def raw_pointer_def GetPtr_def MemoryRef_null_def
      cacheable_def region_defs PAGE_SIZE_def)

lemma example_locate: "locate example_memory pt a = (if 0x100000 \<le> a \<and> a < 0x101000 then Some (a - 0x100000 + 0x5000)
    else if 0x101000 \<le> a \<and> a < 0x102000 then Some (a - 0x101000 + 0x3040)
    else if 0x14000000 \<le> a \<and> a < 0x14001000 then Some (a - 0x14000000 + 0x10000000) else None)"
proof -
  have d: "a div 0x1000 = c \<longleftrightarrow> c * 0x1000 \<le> a \<and> a < c * 0x1000 + 0x1000" for c :: nat by auto
  have m: "a mod 0x1000 = a - a div 0x1000 * 0x1000" by (rule minus_div_mult_eq_mod [symmetric])
  note defs = locate_def example_memory_def example_table_def PAGE_SIZE_def raw_pointer_def GetPtr_def MemoryRef_null_def
    GetPointerForRasterizerCache_def MemoryRef_at_def region_defs
  consider "a div 0x1000 = 0x100" | "a div 0x1000 = 0x101" | "a div 0x1000 = 0x14000" | "a div 0x1000 \<notin> {0x100, 0x101, 0x14000}" by blast
  then show ?thesis
  proof cases
    case 1
    with d [of "0x100"] show ?thesis using m by (simp add: defs)
  next
    case 2
    with d [of "0x101"] show ?thesis using m by (simp add: defs)
  next
    case 3
    with d [of "0x14000"] show ?thesis by (simp add: defs)
  next
    case 4
    with d [of "0x100"] d [of "0x101"] d [of "0x14000"] show ?thesis by (auto simp: defs)
  qed
qed

lemma blocks_bytes_write:
  assumes "renderer out = None \<or> renderer out = Some SWRasterizer_flush"
    and "mem_ok ms pt" "no_device ms pt a (length bs)" "a + length bs \<le> 2 ^ 32"
  shows "WriteBlock out pt a (Buffer bs) (length bs) ms = Some (set_host (put (locate ms pt) a bs (host ms)) ms)"
proof -
  have "map (source_byte (Buffer bs) (host ms)) [0 ..< length bs] = bs" by (rule nth_equalityI) (simp_all add: source_byte_def)
  then show ?thesis using quiet_renderer.write_bytes [OF quiet_out [OF assms(1)] assms(2-4), of "Buffer bs"] by (simp add: source_ok_def)
qed

text \<open>
  C36: What is written to a mapped range is what is read from it afterwards, by block or by a typed access within a page; no
  address of any process that lies elsewhere in the host changes.
\<close>

theorem WriteBlock_ReadBlock:
  assumes "renderer out = None \<or> renderer out = Some SWRasterizer_flush"
    and "mem_ok ms pt" "own_bytes ms pt a (length bs)" "a + length bs \<le> 2 ^ 32"
  shows "\<exists>ms'. WriteBlock out pt a (Buffer bs) (length bs) ms = Some ms' \<and> mem_ok ms' pt
    \<and> ReadBlock out pt a (length bs) ms' = Some (bs, ms')
    \<and> (current_page_table ms = Some pt \<longrightarrow> bs \<noteq> [] \<longrightarrow> a mod PAGE_SIZE + length bs \<le> PAGE_SIZE \<longrightarrow> Read out (length bs) a ms' = Some (bs, ms'))
    \<and> (\<forall>pt' b. (\<forall>i < length bs. locate ms pt' b \<noteq> locate ms pt (a + i)) \<longrightarrow> byte_at ms' pt' b = byte_at ms pt' b)"
proof -
  let ?h = "put (locate ms pt) a bs (host ms)"
  let ?ms = "set_host ?h ms"
  note quiet = quiet_out [OF assms(1)] and nd = own_bytes_no_device [OF assms(3)]
  have "same_blocks ?h (host ms)" by (rule put_same_blocks [OF assms(2)]) (simp add: same_blocks_def)
  then have ok: "mem_ok ?ms pt" using assms(2) by (simp add: mem_ok_set_host)
  have r: "ReadBlock out pt a (length bs) ?ms = Some (bs, ?ms)"
    using quiet_renderer.read_bytes [OF quiet ok _ assms(4)] nd own_bytes_put [OF assms(3) refl] by simp
  have t: "Read out (length bs) a ?ms = Some (bs, ?ms)"
    if "current_page_table ms = Some pt" "bs \<noteq> []" "a mod PAGE_SIZE + length bs \<le> PAGE_SIZE"
  proof -
    have l: "0 < length bs" using that(2) by simp
    then have "a < 2 ^ 32" using assms(4) by linarith
    moreover have "current_page_table ?ms = Some pt" using that(1) by (simp add: set_host_def)
    moreover from l nd have "attributes (page_tables ?ms pt) (a div PAGE_SIZE) \<noteq> Special" by (auto simp: no_device_def)
    ultimately show ?thesis using typed_access_block(1) [OF ok] that(3) r l by simp
  qed
  have "byte_at ?ms pt' b = byte_at ms pt' b" if "\<forall>i < length bs. locate ms pt' b \<noteq> locate ms pt (a + i)" for pt' b
    using that by (intro byte_at_elsewhere) blast
  with ok r t blocks_bytes_write [OF assms(1,2) nd assms(4)] show ?thesis by blast
qed

theorem WriteBlock_ReadBlock_witness:
  "\<exists>ms'. WriteBlock example_outside 0 0x100FFE (Buffer [7, 8, 9]) 3 example_memory = Some ms'
     \<and> ReadBlock example_outside 0 0x100FFE 3 ms' = Some ([7, 8, 9], ms') \<and> byte_at ms' 0 0x101001 = 0x41"
proof -
  have l: "length [7, 8, 9 :: u8] = 3" by simp
  have "own_bytes example_memory 0 0x100FFE 3" by (auto simp: own_bytes_def example_locate)
  from WriteBlock_ReadBlock [of example_outside example_memory 0 "0x100FFE" "[7, 8, 9]", unfolded l, OF _ example_ok this]
  obtain ms' where w: "WriteBlock example_outside 0 0x100FFE (Buffer [7, 8, 9]) 3 example_memory = Some ms'"
    "ReadBlock example_outside 0 0x100FFE 3 ms' = Some ([7, 8, 9], ms')"
    "\<forall>pt' b. (\<forall>i < 3. locate example_memory pt' b \<noteq> locate example_memory 0 (0x100FFE + i)) \<longrightarrow> byte_at ms' pt' b = byte_at example_memory pt' b"
    by auto
  have "byte_at ms' 0 0x101001 = byte_at example_memory 0 0x101001" by (rule w(3) [rule_format]) (simp add: example_locate)
  with w(1,2) show ?thesis by (simp add: byte_at_def example_locate)
qed

text \<open>
  C37: Copying between two processes (or within one) over parts of the host that do not meet: the destination then reads as the
  source did before the call, and the source is unchanged.
\<close>

theorem CopyBlock_copies:
  assumes "renderer out = None \<or> renderer out = Some SWRasterizer_flush"
    and src: "mem_ok ms spt" "no_device ms spt a n" "a + n \<le> 2 ^ 32"
    and dst: "mem_ok ms dpt" "own_bytes ms dpt d n" "d + n \<le> 2 ^ 32"
    and apart: "\<forall>i < n. \<forall>j < n. locate ms spt (a + i) \<noteq> locate ms dpt (d + j)"
  shows "\<exists>ms'. CopyBlock out dpt spt d a n ms = Some ms' \<and> mem_ok ms' dpt \<and> mem_ok ms' spt
    \<and> ReadBlock out dpt d n ms' = Some (map (byte_at ms spt) [a ..< a + n], ms')
    \<and> ReadBlock out spt a n ms' = Some (map (byte_at ms spt) [a ..< a + n], ms')"
proof -
  let ?data = "map (byte_at ms spt) [a ..< a + n]"
  let ?h = "put (locate ms dpt) d ?data (host ms)"
  let ?ms = "set_host ?h ms"
  note quiet = quiet_out [OF assms(1)] and nd = own_bytes_no_device [OF dst(2)]
  have "same_blocks ?h (host ms)" by (rule put_same_blocks [OF dst(1)]) (simp add: same_blocks_def)
  then have ok: "mem_ok ?ms dpt" "mem_ok ?ms spt" using dst(1) src(1) by (simp_all add: mem_ok_set_host)
  have c: "CopyBlock out dpt spt d a n ms = Some ?ms"
    by (rule quiet_renderer.copy_bytes [OF quiet src dst(1) nd dst(3)]) (use apart in metis)
  have kept: "byte_at ?ms spt x = byte_at ms spt x" if "x \<in> set [a ..< a + n]" for x
  proof (rule byte_at_elsewhere)
    fix j assume "j < length ?data"
    moreover have "x - a < n" "a + (x - a) = x" using that by auto
    ultimately show "locate ms spt x \<noteq> locate ms dpt (d + j)" using apart by (metis diff_add_inverse length_map length_upt)
  qed
  then have "map (byte_at ?ms spt) [a ..< a + n] = ?data" by simp
  then show ?thesis
    using c ok quiet_renderer.read_bytes [OF quiet ok(1) _ dst(3)] quiet_renderer.read_bytes [OF quiet ok(2) _ src(3)] nd src(2)
      own_bytes_put [OF dst(2), of ?data "host ms"]
    by (simp del: map_eq_conv)
qed

theorem CopyBlock_copies_witness:
  "\<exists>ms'. CopyBlock example_outside 0 0 0x14000010 0x100FFE 3 example_memory = Some ms'
     \<and> ReadBlock example_outside 0 0x14000010 3 ms' = Some ([0xFE, 0xFF, 0x40], ms')"
proof -
  have u: "[0x100FFE ..< 0x100FFE + 3] = [0x100FFE, 0x100FFF, 0x101000 :: nat]" by (simp add: upt_conv_Cons)
  have nd: "no_device example_memory 0 0x100FFE 3" by (auto simp: no_device_def example_memory_def example_table_def)
  have own: "own_bytes example_memory 0 0x14000010 3" by (auto simp: own_bytes_def example_locate)
  have apart: "\<forall>i < 3. \<forall>j < 3. locate example_memory 0 (0x100FFE + i) \<noteq> locate example_memory 0 (0x14000010 + j)"
    by (auto simp: example_locate)
  from CopyBlock_copies [of example_outside example_memory 0 "0x100FFE" 3 0 "0x14000010", unfolded u, OF _ example_ok nd _ example_ok own _ apart]
  have "\<exists>ms'. CopyBlock example_outside 0 0 0x14000010 0x100FFE 3 example_memory = Some ms'
      \<and> ReadBlock example_outside 0 0x14000010 3 ms' = Some (map (byte_at example_memory 0) [0x100FFE, 0x100FFF, 0x101000], ms')"
    by auto
  moreover have "map (byte_at example_memory 0) [0x100FFE, 0x100FFF, 0x101000] = [0xFE, 0xFF, 0x40]" by (simp add: byte_at_def example_locate)
  ultimately show ?thesis by (simp only:)
qed

text \<open>
  An access of the processor that crosses the end of a page follows the first page in the host instead of the page table: here
  the third and fourth byte come from the host bytes behind the first page, not from the next page of the process, which the
  block transfer reads.
\<close>

lemma unaligned_read_crosses:
  "Read example_outside 4 0x100FFE example_memory = Some ([0xFE, 0xFF, 0, 1], example_memory)"
  by (simp add: Read_def Let_def example_memory_def example_table_def raw_pointer_def GetPtr_def PAGE_SIZE_def host_read_def upt_conv_Cons)

end
