(* ===== verification/Memory_Coherence.thy ===== *)
theory Memory_Coherence
  imports Memory_Blocks
begin

text \<open>
  The block transfers with a renderer that keeps surfaces of its own. What the renderer holds of the console's memory is newer than
  the host memory until it is flushed. The renderer is a parameter: \<open>writes_back\<close> states what the comments of
  \<^verbatim>\<open>video_core/rasterizer_interface.h\<close> promise of \<^verbatim>\<open>FlushRegion\<close> and \<^verbatim>\<open>InvalidateRegion\<close>, on physical addresses. The lemmas of the locale
  \<open>write_back_renderer\<close> show that the transfers see and change the newest bytes.
\<close>

section \<open>What the renderer holds\<close>

text \<open>The host place of a physical address.\<close>

definition phys_place :: "'d MemorySystem \<Rightarrow> nat \<Rightarrow> nat option" where
  "phys_place ms pa =
     (if VRAM_PADDR \<le> pa \<and> pa < VRAM_PADDR_END then Some (vram ms + (pa - VRAM_PADDR))
      else if FCRAM_PADDR \<le> pa \<and> pa < FCRAM_N3DS_PADDR_END then Some (fcram ms + (pa - FCRAM_PADDR))
      else None)"

definition in_region :: "'d MemorySystem \<Rightarrow> nat \<Rightarrow> nat \<Rightarrow> nat \<Rightarrow> bool" where
  "in_region ms pa n p \<longleftrightarrow> (\<exists>j < n. phys_place ms (pa + j) = Some p)"

text \<open>The newest bytes: \<open>held\<close> gives the byte the renderer holds of a place, if any.\<close>

definition contents :: "('d \<Rightarrow> nat \<Rightarrow> u8 option) \<Rightarrow> 'd MemorySystem \<Rightarrow> nat \<rightharpoonup> u8" where
  "contents held ms = (\<lambda>p. case held (devices ms) p of None \<Rightarrow> host ms p | Some b \<Rightarrow> Some b)"

definition seen :: "('d \<Rightarrow> nat \<Rightarrow> u8 option) \<Rightarrow> 'd MemorySystem \<Rightarrow> nat \<Rightarrow> nat \<Rightarrow> u8" where
  "seen held ms pt a = (case locate ms pt a of None \<Rightarrow> 0 | Some p \<Rightarrow> the (contents held ms p))"

text \<open>Of what a page shows directly nothing is held: such pages are marked as cached.\<close>

definition coherent :: "('d \<Rightarrow> nat \<Rightarrow> u8 option) \<Rightarrow> 'd MemorySystem \<Rightarrow> nat \<Rightarrow> bool" where
  "coherent held ms pt \<longleftrightarrow> (\<forall>a p. attributes (page_tables ms pt) (a div PAGE_SIZE) = Memory \<longrightarrow> locate ms pt a = Some p \<longrightarrow> held (devices ms) p = None)"

lemma coherentD:
  "coherent held ms pt \<Longrightarrow> attributes (page_tables ms pt) (a div PAGE_SIZE) = Memory \<Longrightarrow> locate ms pt a = Some p \<Longrightarrow> held (devices ms) p = None"
  by (simp add: coherent_def)

text \<open>Nothing moves: pages may change between cached and not cached only.\<close>

definition same_view :: "('d \<Rightarrow> nat \<Rightarrow> u8 option) \<Rightarrow> 'd MemorySystem \<Rightarrow> 'd MemorySystem \<Rightarrow> bool" where
  "same_view held ms ms' \<longleftrightarrow> locate ms' = locate ms \<and> fcram ms' = fcram ms \<and> vram ms' = vram ms
     \<and> (\<forall>pt. mem_ok ms pt \<longrightarrow> mem_ok ms' pt) \<and> (\<forall>pt. coherent held ms pt \<longrightarrow> coherent held ms' pt)
     \<and> (\<forall>pt i. attributes (page_tables ms' pt) i = Special \<longleftrightarrow> attributes (page_tables ms pt) i = Special)"

lemma same_view_refl [simp]: "same_view held ms ms"
  by (simp add: same_view_def)

lemma same_view_trans: "same_view held ms ms1 \<Longrightarrow> same_view held ms1 ms2 \<Longrightarrow> same_view held ms ms2"
  by (simp add: same_view_def)

lemma same_view_set_host: "same_blocks h (host ms) \<Longrightarrow> same_view held ms (set_host h ms)"
  by (simp add: same_view_def mem_ok_set_host coherent_def fun_eq_iff)

lemma same_view_pointer: "same_view held ms ms' \<Longrightarrow> GetPointerForRasterizerCache a ms' = GetPointerForRasterizerCache a ms"
  by (simp add: same_view_def GetPointerForRasterizerCache_def)

text \<open>
  The contract of a renderer in the states \<open>ok\<close>: flushing a region of the console's memory writes back what is held of it, invalidating it
  drops that, and both leave every other newest byte as it is and move nothing. Without a renderer nothing is held.
\<close>

definition writes_back :: "('d MemorySystem \<Rightarrow> bool) \<Rightarrow> ('d \<Rightarrow> nat \<Rightarrow> u8 option) \<Rightarrow> 'd Outside \<Rightarrow> bool" where
  "writes_back ok held out \<longleftrightarrow> (\<forall>ms h. ok ms \<longrightarrow> same_blocks h (host ms) \<longrightarrow> ok (set_host h ms))
     \<and> (case renderer out of
          None \<Rightarrow> \<forall>ms p. ok ms \<longrightarrow> held (devices ms) p = None
        | Some flush \<Rightarrow> \<forall>mode pa n ms. ok ms \<longrightarrow> mode \<noteq> FlushAndInvalidate \<longrightarrow> (\<forall>j < n. phys_place ms (pa + j) \<noteq> None) \<longrightarrow>
            (\<exists>ms'. flush mode pa n ms = Some ms' \<and> ok ms' \<and> same_view held ms ms'
               \<and> (\<forall>p. in_region ms pa n p \<longrightarrow> held (devices ms') p = None)
               \<and> (\<forall>p. mode = Flush \<or> \<not> in_region ms pa n p \<longrightarrow> contents held ms' p = contents held ms p)))"

section \<open>Flushing a piece of a page\<close>

lemma CheckRegion_outside: "stop \<le> rs \<or> re \<le> start \<Longrightarrow> CheckRegion out mode start stop (rs, re, ps) ms = Some ms"
  by (auto simp: CheckRegion_def split: option.split)

lemma CheckRegion_inside:
  assumes "rs \<le> start" "stop \<le> re" "start < stop" "stop < 2 ^ 32" "ps + (start - rs) < 2 ^ 32"
  shows "CheckRegion out mode start stop (rs, re, ps) ms
    = (case renderer out of None \<Rightarrow> Some ms | Some flush \<Rightarrow> flush mode (ps + (start - rs)) (stop - start) ms)"
proof -
  have "max start rs = start" "min stop re = stop" "\<not> (start \<ge> re \<or> stop \<le> rs)" "sub32 start rs = start - rs" "sub32 stop start = stop - start"
    "add32 ps (start - rs) = ps + (start - rs)"
    using assms by (simp_all add: sub32_small add32_def)
  then show ?thesis by (simp add: CheckRegion_def split: option.split)
qed

lemma flush_regions:
  assumes "0 < k"
  shows "x + k \<le> LINEAR_HEAP_SIZE \<Longrightarrow> RasterizerFlushVirtualRegion out (LINEAR_HEAP_VADDR + x) k mode ms
      = (case renderer out of None \<Rightarrow> Some ms | Some flush \<Rightarrow> flush mode (FCRAM_PADDR + x) k ms)" (is "?A \<Longrightarrow> ?P")
    "x + k \<le> NEW_LINEAR_HEAP_SIZE \<Longrightarrow> RasterizerFlushVirtualRegion out (NEW_LINEAR_HEAP_VADDR + x) k mode ms
      = (case renderer out of None \<Rightarrow> Some ms | Some flush \<Rightarrow> flush mode (FCRAM_PADDR + x) k ms)" (is "?B \<Longrightarrow> ?Q")
    "x + k \<le> VRAM_SIZE \<Longrightarrow> RasterizerFlushVirtualRegion out (VRAM_VADDR + x) k mode ms
      = (case renderer out of None \<Rightarrow> Some ms | Some flush \<Rightarrow> flush mode (VRAM_PADDR + x) k ms)" (is "?C \<Longrightarrow> ?R")
proof -
  have e: "add32 b k = b + k" if "b + k < 2 ^ 32" for b using that by (simp add: add32_def)
  note d = RasterizerFlushVirtualRegion_def Let_def e
  {
    assume r: ?A
    then have "LINEAR_HEAP_VADDR + x + k \<le> NEW_LINEAR_HEAP_VADDR" "LINEAR_HEAP_VADDR + x + k \<le> VRAM_VADDR" "FCRAM_PADDR + x < 2 ^ 32"
      "LINEAR_HEAP_VADDR + x + k < 2 ^ 32" "LINEAR_HEAP_VADDR + x + k \<le> LINEAR_HEAP_VADDR_END" by (simp_all add: region_defs)
    then show ?P
      using CheckRegion_inside [of LINEAR_HEAP_VADDR "LINEAR_HEAP_VADDR + x" "LINEAR_HEAP_VADDR + x + k" LINEAR_HEAP_VADDR_END FCRAM_PADDR out mode ms] assms
      by (simp add: d CheckRegion_outside split: option.split)
  next
    assume r: ?B
    then have "LINEAR_HEAP_VADDR_END \<le> NEW_LINEAR_HEAP_VADDR + x" "VRAM_VADDR_END \<le> NEW_LINEAR_HEAP_VADDR + x" "FCRAM_PADDR + x < 2 ^ 32"
      "NEW_LINEAR_HEAP_VADDR + x + k < 2 ^ 32" "NEW_LINEAR_HEAP_VADDR + x + k \<le> NEW_LINEAR_HEAP_VADDR_END" by (simp_all add: region_defs)
    then show ?Q
      using CheckRegion_inside [of NEW_LINEAR_HEAP_VADDR "NEW_LINEAR_HEAP_VADDR + x" "NEW_LINEAR_HEAP_VADDR + x + k" NEW_LINEAR_HEAP_VADDR_END FCRAM_PADDR out mode ms] assms
      by (simp add: d CheckRegion_outside split: option.split)
  next
    assume r: ?C
    then have "LINEAR_HEAP_VADDR_END \<le> VRAM_VADDR + x" "VRAM_VADDR + x + k \<le> NEW_LINEAR_HEAP_VADDR" "VRAM_PADDR + x < 2 ^ 32"
      "VRAM_VADDR + x + k < 2 ^ 32" "VRAM_VADDR + x + k \<le> VRAM_VADDR_END" by (simp_all add: region_defs)
    then show ?R
      using CheckRegion_inside [of VRAM_VADDR "VRAM_VADDR + x" "VRAM_VADDR + x + k" VRAM_VADDR_END VRAM_PADDR out mode ms] assms
      by (simp add: d CheckRegion_outside split: option.split)
  }
qed

lemma region_place:
  "x < LINEAR_HEAP_SIZE \<Longrightarrow> map_option GetPtr (GetPointerForRasterizerCache (LINEAR_HEAP_VADDR + x) ms) = phys_place ms (FCRAM_PADDR + x)"
  "x < NEW_LINEAR_HEAP_SIZE \<Longrightarrow> map_option GetPtr (GetPointerForRasterizerCache (NEW_LINEAR_HEAP_VADDR + x) ms) = phys_place ms (FCRAM_PADDR + x)"
  "x < VRAM_SIZE \<Longrightarrow> map_option GetPtr (GetPointerForRasterizerCache (VRAM_VADDR + x) ms) = phys_place ms (VRAM_PADDR + x)"
  by (simp_all add: GetPointerForRasterizerCache_def MemoryRef_at_def GetPtr_def phys_place_def region_defs)

text \<open>A piece of a cacheable page lies in one of the three regions, whose physical addresses are flushed.\<close>

lemma cacheable_piece:
  fixes out :: "'d Outside"
  assumes "cacheable (idx * PAGE_SIZE)" "off + k \<le> PAGE_SIZE" "0 < k"
  shows "\<exists>pa. (\<forall>mode ms. RasterizerFlushVirtualRegion out (idx * PAGE_SIZE + off) k mode ms
        = (case renderer out of None \<Rightarrow> Some ms | Some flush \<Rightarrow> flush mode pa k ms))
    \<and> (\<forall>j < k. \<forall>ms :: 'd MemorySystem. map_option GetPtr (GetPointerForRasterizerCache (idx * PAGE_SIZE + off + j) ms) = phys_place ms (pa + j))"
proof -
  let ?a = "idx * PAGE_SIZE + off"
  consider (linear) "LINEAR_HEAP_VADDR \<le> ?a" "?a + k \<le> LINEAR_HEAP_VADDR_END"
    | (new_linear) "NEW_LINEAR_HEAP_VADDR \<le> ?a" "?a + k \<le> NEW_LINEAR_HEAP_VADDR_END"
    | (vram) "VRAM_VADDR \<le> ?a" "?a + k \<le> VRAM_VADDR_END"
    using assms region_ends [THEN page_fits [rotated], of idx] unfolding cacheable_def by linarith
  then show ?thesis
  proof cases
    case linear
    then obtain x where x: "?a = LINEAR_HEAP_VADDR + x" "x + k \<le> LINEAR_HEAP_SIZE" using le_Suc_ex by (auto simp: LINEAR_HEAP_VADDR_END_def)
    then show ?thesis using assms(3) unfolding x(1)
      by (intro exI [of _ "FCRAM_PADDR + x"]) (simp add: flush_regions(1) region_place(1) add.assoc)
  next
    case new_linear
    then obtain x where x: "?a = NEW_LINEAR_HEAP_VADDR + x" "x + k \<le> NEW_LINEAR_HEAP_SIZE" using le_Suc_ex by (auto simp: NEW_LINEAR_HEAP_VADDR_END_def)
    then show ?thesis using assms(3) unfolding x(1)
      by (intro exI [of _ "FCRAM_PADDR + x"]) (simp add: flush_regions(2) region_place(2) add.assoc)
  next
    case vram
    then obtain x where x: "?a = VRAM_VADDR + x" "x + k \<le> VRAM_SIZE" using le_Suc_ex by (auto simp: VRAM_VADDR_END_def)
    then show ?thesis using assms(3) unfolding x(1)
      by (intro exI [of _ "VRAM_PADDR + x"]) (simp add: flush_regions(3) region_place(3) add.assoc)
  qed
qed

section \<open>The loop over pages\<close>

lemma block_loop_pieces:
  assumes body: "\<And>idx off k s. idx < PAGE_TABLE_NUM_ENTRIES \<Longrightarrow> off + k \<le> PAGE_SIZE \<Longrightarrow> 0 < k \<Longrightarrow> a \<le> idx * PAGE_SIZE + off
      \<Longrightarrow> idx * PAGE_SIZE + off + k \<le> e \<Longrightarrow> I (idx * PAGE_SIZE + off) s
      \<Longrightarrow> \<exists>s'. body idx off k s = Some s' \<and> I (idx * PAGE_SIZE + off + k) s'"
    and e: "e \<le> 2 ^ 32"
  shows "off < PAGE_SIZE \<Longrightarrow> a \<le> idx * PAGE_SIZE + off \<Longrightarrow> idx * PAGE_SIZE + off + n = e \<Longrightarrow> I (idx * PAGE_SIZE + off) s
    \<Longrightarrow> \<exists>s'. block_loop body idx off n s = Some s' \<and> I e s'"
proof (induction n arbitrary: idx off s rule: less_induct)
  case (less n)
  show ?case
  proof (cases "n = 0")
    case True
    with less.prems show ?thesis by (simp add: block_loop.simps)
  next
    case False
    define k where "k = min (PAGE_SIZE - off) n"
    have k: "off + k \<le> PAGE_SIZE" "0 < k" "k \<le> n" "k < n \<Longrightarrow> off + k = PAGE_SIZE"
      using less.prems(1) False by (auto simp: k_def)
    have idx: "idx < PAGE_TABLE_NUM_ENTRIES"
      using less.prems(3) e False by (simp add: PAGE_TABLE_NUM_ENTRIES_def PAGE_SIZE_def)
    obtain s1 where s1: "body idx off k s = Some s1" "I (idx * PAGE_SIZE + off + k) s1"
      using body [OF idx k(1,2) less.prems(2) _ less.prems(4)] less.prems(3) k(3) by auto
    have run: "block_loop body idx off n s = block_loop body (idx + 1) 0 (n - k) s1"
      using False idx less.prems(1) s1(1) by (simp add: block_loop.simps [of body idx off n s] k_def [symmetric])
    show ?thesis
    proof (cases "k < n")
      case True
      with k(4) have q: "(idx + 1) * PAGE_SIZE + 0 = idx * PAGE_SIZE + off + k" by (simp add: algebra_simps)
      show ?thesis unfolding run
        by (rule less.IH, unfold q) (use k s1(2) less.prems True in \<open>simp_all add: PAGE_SIZE_def\<close>)
    next
      case False
      with k(3) less.prems(3) show ?thesis unfolding run using s1(2) by (simp add: block_loop.simps)
    qed
  qed
qed

text \<open>Clearing is writing a buffer of zeros.\<close>

lemma zero_loop:
  "pos + n \<le> N \<Longrightarrow> block_loop (write_page out pt (Buffer (replicate N 0))) idx off n (pos, ms)
    = map_option (Pair (pos + n)) (block_loop (zero_page out pt) idx off n ms)"
proof (induction n arbitrary: idx off pos ms rule: less_induct)
  case (less n)
  show ?case
  proof (cases "n = 0 \<or> PAGE_SIZE \<le> off \<or> PAGE_TABLE_NUM_ENTRIES \<le> idx")
    case True
    then show ?thesis by (auto simp: block_loop.simps)
  next
    case False
    define k where "k = min (PAGE_SIZE - off) n"
    have k: "0 < k" "k \<le> n" using False by (auto simp: k_def)
    have z: "take k (drop pos (replicate N 0)) = replicate k (0 :: u8)" "pos + k \<le> N" using less.prems k by (auto simp: min_def)
    have w: "write_page out pt (Buffer (replicate N 0)) idx off k (pos, ms) = map_option (Pair (pos + k)) (zero_page out pt idx off k ms)"
      using z by (simp add: write_page_def zero_page_def memcpy_from_def source_bytes_def Let_def split: PageType.split)
    note unf = block_loop.simps [of _ idx off n] k_def [symmetric]
    show ?thesis
    proof (cases "zero_page out pt idx off k ms")
      case None
      then show ?thesis using False w by (simp add: unf)
    next
      case (Some s)
      have "n - k < n" "pos + k + (n - k) = pos + n" "pos + k + (n - k) \<le> N" using k less.prems by auto
      then show ?thesis using False w Some less.IH [of "n - k" "pos + k" "idx + 1" 0 s] by (simp add: unf)
    qed
  qed
qed

lemma ZeroBlock_WriteBlock: "ZeroBlock out pt a n ms = WriteBlock out pt a (Buffer (replicate n 0)) n ms"
  using zero_loop [of 0 n n out pt "a div PAGE_SIZE" "a mod PAGE_SIZE" ms]
  by (simp add: ZeroBlock_def WriteBlock_def option.map_comp comp_def option.map_ident)

section \<open>Writing where nothing is held\<close>

lemma put_here: "j < length bs \<Longrightarrow> loc (a + j) = Some p \<Longrightarrow> put loc a bs h p = put loc a bs g p"
proof (induction bs arbitrary: a j h g)
  case (Cons b bs)
  show ?case
  proof (cases "\<exists>i < length bs. loc (a + 1 + i) = Some p")
    case True
    then obtain i where "i < length bs" "loc (a + 1 + i) = Some p" by blast
    then have "put loc (a + 1) bs f p = put loc (a + 1) bs f' p" for f f' by (rule Cons.IH)
    then show ?thesis unfolding put.simps by blast
  next
    case False
    have "j = 0"
    proof (rule ccontr)
      assume "j \<noteq> 0"
      then have "j - 1 < length bs" "loc (a + 1 + (j - 1)) = Some p" using Cons.prems by auto
      with False show False by blast
    qed
    then have "loc a = Some p" using Cons.prems(2) by simp
    moreover have "put loc (a + 1) bs f p = f p" for f by (rule put_elsewhere) (use False in simp)
    ultimately show ?thesis by simp
  qed
qed simp

lemma put_agree:
  assumes "\<And>p. (\<And>j. j < length bs \<Longrightarrow> loc (a + j) \<noteq> Some p) \<Longrightarrow> h p = g p"
  shows "put loc a bs h = put loc a bs g"
proof
  fix p
  show "put loc a bs h p = put loc a bs g p"
  proof (cases "\<exists>j < length bs. loc (a + j) = Some p")
    case True
    then obtain j where "j < length bs" "loc (a + j) = Some p" by blast
    then show ?thesis by (rule put_here)
  next
    case False
    then have "put loc a bs f p = f p" for f by (intro put_elsewhere) blast
    with False assms [of p] show ?thesis by auto
  qed
qed

lemma contents_put:
  assumes "\<And>j p. j < length bs \<Longrightarrow> loc (a + j) = Some p \<Longrightarrow> held (devices ms) p = None"
  shows "contents held (set_host (put loc a bs (host ms)) ms) = put loc a bs (contents held ms)"
proof
  fix p
  show "contents held (set_host (put loc a bs (host ms)) ms) p = put loc a bs (contents held ms) p"
  proof (cases "\<exists>j < length bs. loc (a + j) = Some p")
    case True
    then obtain j where j: "j < length bs" "loc (a + j) = Some p" by blast
    then have "put loc a bs (host ms) p = put loc a bs (contents held ms) p" by (rule put_here)
    moreover have "held (devices ms) p = None" by (rule assms [OF j])
    ultimately show ?thesis by (simp add: contents_def)
  next
    case False
    then have "put loc a bs f p = f p" for f by (intro put_elsewhere) blast
    then show ?thesis by (simp add: contents_def split: option.split)
  qed
qed

section \<open>The transfers\<close>

locale write_back_renderer =
  fixes ok :: "'d MemorySystem \<Rightarrow> bool" and held :: "'d \<Rightarrow> nat \<Rightarrow> u8 option" and out :: "'d Outside"
  assumes writes_back: "writes_back ok held out"
begin

lemma ok_set_host: "ok ms \<Longrightarrow> same_blocks h (host ms) \<Longrightarrow> ok (set_host h ms)"
  using writes_back by (simp add: writes_back_def)

lemma flush_piece:
  assumes "ok ms" "cacheable (idx * PAGE_SIZE)" "off + k \<le> PAGE_SIZE" "0 < k" "mode \<noteq> FlushAndInvalidate"
    and place: "\<And>j. j < k \<Longrightarrow> map_option GetPtr (GetPointerForRasterizerCache (idx * PAGE_SIZE + off + j) ms) = Some (p + j)"
  shows "\<exists>ms'. RasterizerFlushVirtualRegion out (idx * PAGE_SIZE + off) k mode ms = Some ms' \<and> ok ms' \<and> same_view held ms ms'
    \<and> (\<forall>j < k. held (devices ms') (p + j) = None)
    \<and> (\<forall>q. mode = Flush \<or> (\<forall>j < k. q \<noteq> p + j) \<longrightarrow> contents held ms' q = contents held ms q)"
proof -
  obtain pa where run: "RasterizerFlushVirtualRegion out (idx * PAGE_SIZE + off) k mode ms
        = (case renderer out of None \<Rightarrow> Some ms | Some flush \<Rightarrow> flush mode pa k ms)"
    and pl: "\<And>j. j < k \<Longrightarrow> phys_place ms (pa + j) = Some (p + j)"
    using cacheable_piece [OF assms(2-4), of out] place by metis
  have r: "in_region ms pa k q \<longleftrightarrow> (\<exists>j < k. q = p + j)" for q using pl by (auto simp: in_region_def)
  show ?thesis
  proof (cases "renderer out")
    case None
    then show ?thesis using writes_back assms(1) run by (auto simp: writes_back_def)
  next
    case (Some flush)
    have "\<exists>ms'. flush mode pa k ms = Some ms' \<and> ok ms' \<and> same_view held ms ms'
               \<and> (\<forall>q. in_region ms pa k q \<longrightarrow> held (devices ms') q = None)
               \<and> (\<forall>q. mode = Flush \<or> \<not> in_region ms pa k q \<longrightarrow> contents held ms' q = contents held ms q)"
      using writes_back assms(1,5) pl Some by (simp add: writes_back_def)
    then show ?thesis unfolding run r using Some by fastforce
  qed
qed

text \<open>A piece of a page is read or written: the state goes from one view of the memory to the same view.\<close>

lemma read_piece:
  assumes s: "ok s" "mem_ok s pt" "coherent held s pt" and nd: "attributes (page_tables s pt) idx \<noteq> Special"
    and piece: "idx < PAGE_TABLE_NUM_ENTRIES" "off + k \<le> PAGE_SIZE" "0 < k"
  shows "\<exists>s'. read_page out pt idx off k (dest, s) = Some (dest @ map (seen held s pt) [idx * PAGE_SIZE + off ..< idx * PAGE_SIZE + off + k], s')
    \<and> ok s' \<and> same_view held s s' \<and> contents held s' = contents held s"
proof -
  let ?b = "idx * PAGE_SIZE + off"
  have v: "current_vaddr idx off = ?b" using piece by (simp add: current_vaddr_eq)
  have u: "map (seen held s pt) [?b ..< ?b + k] = map (\<lambda>j. seen held s pt (?b + j)) [0 ..< k]" by (rule nth_equalityI) simp_all
  have rd: "host_read (host s') p k = Some (map (\<lambda>j. seen held s pt (?b + j)) [0 ..< k])"
    if "contents held s' = contents held s" "mem_ok s' pt" "locate s' pt = locate s pt" "\<And>j. j < k \<Longrightarrow> held (devices s') (p + j) = None"
      "\<And>j. j < k \<Longrightarrow> locate s pt (?b + j) = Some (p + j)" for s' p
  proof -
    have c: "contents held s (p + j) = host s' (p + j)" if "j < k" for j
    proof -
      have "contents held s' (p + j) = host s' (p + j)"
        using that \<open>\<And>j. j < k \<Longrightarrow> held (devices s') (p + j) = None\<close> by (simp add: contents_def)
      then show ?thesis by (simp only: \<open>contents held s' = contents held s\<close>)
    qed
    have a: "host s' (p + j) \<noteq> None" if "j < k" for j
      using located_allocated [OF \<open>mem_ok s' pt\<close>, of "?b + j"] that \<open>\<And>j. j < k \<Longrightarrow> locate s pt (?b + j) = Some (p + j)\<close> \<open>locate s' pt = locate s pt\<close> by simp
    have "host s' x \<noteq> None" if "p \<le> x" "x < p + k" for x using a [of "x - p"] that by simp
    then have "host_read (host s') p k = Some (map (\<lambda>j. the (host s' (p + j))) [0 ..< k])" by (rule host_read_ok)
    then show ?thesis using that(5) c by (simp add: seen_def)
  qed
  show ?thesis
  proof (rule placed_cases [OF s(2) piece(2,3) nd])
    assume "attributes (page_tables s pt) idx = Unmapped" "\<And>j. j < k \<Longrightarrow> locate s pt (?b + j) = None"
    moreover from this have "replicate k 0 = map (\<lambda>j. seen held s pt (?b + j)) [0 ..< k]" by (intro nth_equalityI) (simp_all add: seen_def)
    ultimately show ?thesis using s(1) by (simp add: read_page_def u)
  next
    fix p assume m: "attributes (page_tables s pt) idx = Memory" "p = raw_pointer (page_tables s pt) idx + off"
      "raw_pointer (page_tables s pt) idx \<noteq> 0" "allocated s p k" "\<And>j. j < k \<Longrightarrow> locate s pt (?b + j) = Some (p + j)"
    have "held (devices s) (p + j) = None" if "j < k" for j
      by (rule coherentD [OF s(3) _ m(5) [OF that]]) (use m(1) page_address(1) [of off j idx] that piece(2) in simp)
    from rd [OF refl s(2) refl this m(5)] m(1-3) s(1) show ?thesis by (simp add: read_page_def u)
  next
    fix r assume m: "attributes (page_tables s pt) idx = RasterizerCachedMemory"
      "GetPointerForRasterizerCache ?b s = Some r" "allocated s (GetPtr r) k" "\<And>j. j < k \<Longrightarrow> locate s pt (?b + j) = Some (GetPtr r + j)"
    have c: "cacheable (idx * PAGE_SIZE)" using mem_ok_page [OF s(2), of idx] m(1) by (simp add: page_ok_def)
    have pl: "map_option GetPtr (GetPointerForRasterizerCache (?b + j) s) = Some (GetPtr r + j)" if "j < k" for j
      using m(4) [OF that] m(1) page_address(1) [of off j idx] that piece(2) by (simp add: locate_def)
    obtain s' where s': "RasterizerFlushVirtualRegion out ?b k Flush s = Some s'" "ok s'" "same_view held s s'"
      "\<And>j. j < k \<Longrightarrow> held (devices s') (GetPtr r + j) = None" "contents held s' = contents held s"
      using flush_piece [OF s(1) c piece(2,3) _ pl, of Flush] by auto
    have "mem_ok s' pt" "locate s' pt = locate s pt" "GetPointerForRasterizerCache ?b s' = Some r"
      using s'(3) s(2) m(2) same_view_pointer [OF s'(3)] by (simp_all add: same_view_def)
    with rd [OF s'(5) this(1,2) s'(4) m(4)] m(1) s' show ?thesis by (simp add: read_page_def v u)
  qed
qed

lemma write_piece:
  assumes s: "ok s" "mem_ok s pt" "coherent held s pt" and nd: "attributes (page_tables s pt) idx \<noteq> Special"
    and piece: "idx < PAGE_TABLE_NUM_ENTRIES" "off + k \<le> PAGE_SIZE" "0 < k" and pos: "pos + k \<le> length bs"
  shows "\<exists>s'. write_page out pt (Buffer bs) idx off k (pos, s) = Some (pos + k, s') \<and> ok s' \<and> same_view held s s'
    \<and> contents held s' = put (locate s pt) (idx * PAGE_SIZE + off) (take k (drop pos bs)) (contents held s)"
proof -
  let ?b = "idx * PAGE_SIZE + off" and ?d = "take k (drop pos bs)"
  have l: "length ?d = k" using pos by simp
  have v: "current_vaddr idx off = ?b" using piece by (simp add: current_vaddr_eq)
  have wr: "\<exists>h. memcpy_from (Buffer bs) pos p k (host s') = Some h \<and> ok (set_host h s') \<and> same_view held s (set_host h s')
      \<and> contents held (set_host h s') = put (locate s pt) ?b ?d (contents held s)"
    if o: "ok s'" "same_view held s s'" and p: "\<And>j. j < k \<Longrightarrow> locate s pt (?b + j) = Some (p + j)"
      "\<And>j. j < k \<Longrightarrow> held (devices s') (p + j) = None" "\<And>q. (\<And>j. j < k \<Longrightarrow> q \<noteq> p + j) \<Longrightarrow> contents held s' q = contents held s q" for s' p
  proof -
    have m: "mem_ok s' pt" "locate s' pt = locate s pt" using o(2) s(2) by (simp_all add: same_view_def)
    have a: "host s' x \<noteq> None" if "p \<le> x" "x < p + length ?d" for x
      using located_allocated [OF m(1), of "?b + (x - p)"] p(1) [of "x - p"] that l m(2) by simp
    let ?h = "put (locate s pt) ?b ?d (host s')"
    have w: "host_write (host s') p ?d = Some ?h" by (rule host_write_put) (use a p(1) l in auto)
    have sb: "same_blocks ?h (host s')"
      using put_same_blocks [OF m(1), of "host s'" ?b ?d] m(2) by (simp add: same_blocks_def)
    have "contents held (set_host ?h s') = put (locate s pt) ?b ?d (contents held s')"
      by (rule contents_put) (use p(1,2) l in auto)
    also have "\<dots> = put (locate s pt) ?b ?d (contents held s)"
    proof (rule put_agree)
      fix q assume q: "\<And>j. j < length ?d \<Longrightarrow> locate s pt (?b + j) \<noteq> Some q"
      have "q \<noteq> p + j" if "j < k" for j using q [of j] p(1) [OF that] that unfolding l by auto
      then show "contents held s' q = contents held s q" by (rule p(3))
    qed
    finally show ?thesis using w pos ok_set_host [OF o(1) sb] same_view_trans [OF o(2) same_view_set_host [OF sb]]
      by (simp add: memcpy_from_def)
  qed
  show ?thesis
  proof (rule placed_cases [OF s(2) piece(2,3) nd])
    assume "attributes (page_tables s pt) idx = Unmapped" "\<And>j. j < k \<Longrightarrow> locate s pt (?b + j) = None"
    then show ?thesis using s(1) put_nowhere [of ?d "locate s pt" ?b "contents held s"] l by (simp add: write_page_def)
  next
    fix p assume m: "attributes (page_tables s pt) idx = Memory" "p = raw_pointer (page_tables s pt) idx + off"
      "raw_pointer (page_tables s pt) idx \<noteq> 0" "allocated s p k" "\<And>j. j < k \<Longrightarrow> locate s pt (?b + j) = Some (p + j)"
    have h: "held (devices s) (p + j) = None" if "j < k" for j
      by (rule coherentD [OF s(3) _ m(5) [OF that]]) (use m(1) page_address(1) [of off j idx] that piece(2) in simp)
    from wr [OF s(1) same_view_refl m(5) h] obtain h where "memcpy_from (Buffer bs) pos p k (host s) = Some h" "ok (set_host h s)"
      "same_view held s (set_host h s)" "contents held (set_host h s) = put (locate s pt) ?b ?d (contents held s)" by blast
    with m(1-3) show ?thesis by (simp add: write_page_def)
  next
    fix r assume m: "attributes (page_tables s pt) idx = RasterizerCachedMemory"
      "GetPointerForRasterizerCache ?b s = Some r" "allocated s (GetPtr r) k" "\<And>j. j < k \<Longrightarrow> locate s pt (?b + j) = Some (GetPtr r + j)"
    have c: "cacheable (idx * PAGE_SIZE)" using mem_ok_page [OF s(2), of idx] m(1) by (simp add: page_ok_def)
    have pl: "map_option GetPtr (GetPointerForRasterizerCache (?b + j) s) = Some (GetPtr r + j)" if "j < k" for j
      using m(4) [OF that] m(1) page_address(1) [of off j idx] that piece(2) by (simp add: locate_def)
    obtain s' where s': "RasterizerFlushVirtualRegion out ?b k Invalidate s = Some s'" "ok s'" "same_view held s s'"
      "\<And>j. j < k \<Longrightarrow> held (devices s') (GetPtr r + j) = None" "\<And>q. (\<And>j. j < k \<Longrightarrow> q \<noteq> GetPtr r + j) \<Longrightarrow> contents held s' q = contents held s q"
      using flush_piece [OF s(1) c piece(2,3) _ pl, of Invalidate] by auto
    from wr [OF s'(2,3) m(4) s'(4,5)] obtain h where "memcpy_from (Buffer bs) pos (GetPtr r) k (host s') = Some h" "ok (set_host h s')"
      "same_view held s (set_host h s')" "contents held (set_host h s') = put (locate s pt) ?b ?d (contents held s)" by blast
    moreover have "GetPointerForRasterizerCache ?b s' = Some r" using m(2) same_view_pointer [OF s'(3)] by simp
    ultimately show ?thesis using m(1) s'(1) by (simp add: write_page_def v)
  qed
qed

lemma view_page:
  assumes ms: "mem_ok ms pt" "coherent held ms pt" "no_device ms pt a n" and v: "same_view held ms s"
    and piece: "off + k \<le> PAGE_SIZE" "0 < k" "a \<le> idx * PAGE_SIZE + off" "idx * PAGE_SIZE + off + k \<le> a + n"
  shows "mem_ok s pt" "coherent held s pt" "attributes (page_tables s pt) idx \<noteq> Special" "locate s pt = locate ms pt"
  using v ms(1,2) no_device_page [OF ms(3) piece] by (simp_all add: same_view_def)

lemma read_newest:
  assumes ms: "ok ms" "mem_ok ms pt" "coherent held ms pt" "no_device ms pt a n" "a + n \<le> 2 ^ 32"
  shows "\<exists>ms'. ReadBlock out pt a n ms = Some (map (seen held ms pt) [a ..< a + n], ms') \<and> ok ms' \<and> same_view held ms ms'
    \<and> contents held ms' = contents held ms"
proof -
  let ?I = "\<lambda>b (dest, s). dest = map (seen held ms pt) [a ..< b] \<and> ok s \<and> same_view held ms s \<and> contents held s = contents held ms"
  have "\<exists>s'. block_loop (read_page out pt) (a div PAGE_SIZE) (a mod PAGE_SIZE) n ([], ms) = Some s' \<and> ?I (a + n) s'"
  proof (rule block_loop_pieces [where a = a and I = ?I])
    fix idx off k and s :: "u8 list \<times> 'd MemorySystem"
    let ?b = "idx * PAGE_SIZE + off"
    assume i: "idx < PAGE_TABLE_NUM_ENTRIES" "off + k \<le> PAGE_SIZE" "0 < k" "a \<le> ?b" "?b + k \<le> a + n" and I: "?I ?b s"
    from I obtain t where t: "s = (map (seen held ms pt) [a ..< ?b], t)" "ok t" "same_view held ms t" "contents held t = contents held ms" by (cases s) auto
    note V = view_page [OF ms(2-4) t(3) i(2-5)]
    have sn: "seen held t pt = seen held ms pt" by (rule ext) (simp only: seen_def V(4) t(4))
    obtain t' where "read_page out pt idx off k s = Some (map (seen held ms pt) [a ..< ?b] @ map (seen held ms pt) [?b ..< ?b + k], t')"
      "ok t'" "same_view held t t'" "contents held t' = contents held ms"
      using read_piece [OF t(2) V(1-3) i(1-3), of "map (seen held ms pt) [a ..< ?b]"] unfolding sn t(1,4) by blast
    moreover have "[a ..< ?b + k] = [a ..< ?b] @ [?b ..< ?b + k]" using i(4) by (rule upt_add_eq_append)
    ultimately show "\<exists>s'. read_page out pt idx off k s = Some s' \<and> ?I (?b + k) s'"
      using same_view_trans [OF t(3)] by auto
  qed (use ms(1,5) in \<open>simp_all add: PAGE_SIZE_def\<close>)
  then show ?thesis by (auto simp: ReadBlock_def)
qed

lemma write_newest:
  assumes ms: "ok ms" "mem_ok ms pt" "coherent held ms pt" "no_device ms pt a (length bs)" "a + length bs \<le> 2 ^ 32"
  shows "\<exists>ms'. WriteBlock out pt a (Buffer bs) (length bs) ms = Some ms' \<and> ok ms' \<and> same_view held ms ms'
    \<and> contents held ms' = put (locate ms pt) a bs (contents held ms)"
proof -
  let ?I = "\<lambda>b (pos, s). b = a + pos \<and> ok s \<and> same_view held ms s \<and> contents held s = put (locate ms pt) a (take pos bs) (contents held ms)"
  have "\<exists>s'. block_loop (write_page out pt (Buffer bs)) (a div PAGE_SIZE) (a mod PAGE_SIZE) (length bs) (0, ms) = Some s' \<and> ?I (a + length bs) s'"
  proof (rule block_loop_pieces [where a = a and I = ?I])
    fix idx off k and s :: "nat \<times> 'd MemorySystem"
    let ?b = "idx * PAGE_SIZE + off"
    assume i: "idx < PAGE_TABLE_NUM_ENTRIES" "off + k \<le> PAGE_SIZE" "0 < k" "a \<le> ?b" "?b + k \<le> a + length bs" and I: "?I ?b s"
    from I obtain pos t where t: "s = (pos, t)" "?b = a + pos" "ok t" "same_view held ms t" "contents held t = put (locate ms pt) a (take pos bs) (contents held ms)"
      by (cases s) auto
    note V = view_page [OF ms(2-4) t(4) i(2-5)]
    have pos: "pos + k \<le> length bs" using i(5) t(2) by simp
    obtain t' where t': "write_page out pt (Buffer bs) idx off k s = Some (pos + k, t')" "ok t'" "same_view held t t'"
      "contents held t' = put (locate ms pt) ?b (take k (drop pos bs)) (put (locate ms pt) a (take pos bs) (contents held ms))"
      using write_piece [OF t(3) V(1-3) i(1-3) pos] unfolding t(1,5) V(4) by blast
    have "contents held t' = put (locate ms pt) a (take (pos + k) bs) (contents held ms)"
      unfolding t'(4) t(2) take_add put_append using pos by (simp add: min_def)
    with t' show "\<exists>s'. write_page out pt (Buffer bs) idx off k s = Some s' \<and> ?I (?b + k) s'"
      using same_view_trans [OF t(4)] t(2) by auto
  qed (use ms(1,5) in \<open>simp_all add: PAGE_SIZE_def\<close>)
  then show ?thesis by (auto simp: WriteBlock_def)
qed

end

text \<open>The renderers that hold nothing keep the contract.\<close>

interpretation no_surfaces: write_back_renderer "\<lambda>_. True" "\<lambda>_ _. None" "out\<lparr>renderer := None\<rparr>" for out
  by unfold_locales (simp add: writes_back_def)

interpretation software_surfaces: write_back_renderer "\<lambda>_. True" "\<lambda>_ _. None" "out\<lparr>renderer := Some SWRasterizer_flush\<rparr>" for out
  by unfold_locales (simp add: writes_back_def SWRasterizer_flush_def)

section \<open>Properties\<close>

text \<open>
  C35: On a range without devices the block transfers of the kernel are exactly the byte-wise transfers of the newest bytes, whatever pages the
  range crosses and however each page is held (unmapped, mapped, in the rasterizer cache), with any renderer that writes back what it holds of
  a region when it is flushed and drops it when it is invalidated. Reading gives the newest byte at the place
  of each address, which may be one that only the renderer holds, and 0 where nothing is mapped, and changes no byte; writing and clearing change
  the newest bytes of exactly these places. All three return, and no address moves.
\<close>

theorem blocks_bytewise:
  assumes "writes_back ok held out" "ok ms" "mem_ok ms pt" "coherent held ms pt" "no_device ms pt a (length bs)" "a + length bs \<le> 2 ^ 32"
  shows "(\<exists>ms'. ReadBlock out pt a (length bs) ms = Some (map (seen held ms pt) [a ..< a + length bs], ms')
        \<and> ok ms' \<and> same_view held ms ms' \<and> contents held ms' = contents held ms)
    \<and> (\<exists>ms'. WriteBlock out pt a (Buffer bs) (length bs) ms = Some ms'
        \<and> ok ms' \<and> same_view held ms ms' \<and> contents held ms' = put (locate ms pt) a bs (contents held ms))
    \<and> (\<exists>ms'. ZeroBlock out pt a (length bs) ms = Some ms'
        \<and> ok ms' \<and> same_view held ms ms' \<and> contents held ms' = put (locate ms pt) a (replicate (length bs) 0) (contents held ms))"
proof -
  have w: "write_back_renderer ok held out" using assms(1) by unfold_locales
  have "\<exists>ms'. ZeroBlock out pt a (length bs) ms = Some ms'
        \<and> ok ms' \<and> same_view held ms ms' \<and> contents held ms' = put (locate ms pt) a (replicate (length bs) 0) (contents held ms)"
    using write_back_renderer.write_newest [OF w assms(2-4), of a "replicate (length bs) 0"] assms(5,6) by (simp add: ZeroBlock_WriteBlock)
  then show ?thesis
    using write_back_renderer.read_newest [OF w assms(2-6)] write_back_renderer.write_newest [OF w assms(2-6)] by blast
qed

text \<open>A renderer that keeps single bytes, and a state in which it holds the byte 0x77 of the linear heap, where the host memory has 5.\<close>

definition keeping_flush :: "FlushMode \<Rightarrow> nat \<Rightarrow> nat \<Rightarrow> (nat \<rightharpoonup> u8) MemorySystem \<Rightarrow> (nat \<rightharpoonup> u8) MemorySystem run" where
  "keeping_flush mode pa n ms =
     Some (ms\<lparr>host := (\<lambda>p. if mode = Flush \<and> in_region ms pa n p \<and> devices ms p \<noteq> None then devices ms p else host ms p),
              devices := (\<lambda>p. if in_region ms pa n p then None else devices ms p)\<rparr>)"

definition keeping_outside :: "(nat \<rightharpoonup> u8) Outside" where
  "keeping_outside = \<lparr>renderer = Some keeping_flush, mmio_valid = (\<lambda>_ _. False), mmio_read = (\<lambda>_ _ _ d. ([], d)), mmio_write = (\<lambda>_ _ _ d. d),
     mmio_read_block = (\<lambda>_ _ _ d. ([], d)), mmio_write_block = (\<lambda>_ _ _ d. d)\<rparr>"

definition keeping_memory :: "(nat \<rightharpoonup> u8) MemorySystem" where
  "keeping_memory = \<lparr>host = (\<lambda>a. Some (of_nat a)), fcram = 0x10000000, vram = 0x30000000, n3ds_extra_ram = 0x40000000, dsp_ram = 0x50000000,
     page_tables = (\<lambda>_. example_table), current_page_table = Some 0, page_table_list = [0],
     cache_marker = \<lparr>marks_vram = (\<lambda>_. False), marks_linear_heap = (\<lambda>i. i = 0), marks_new_linear_heap = (\<lambda>_. False)\<rparr>,
     devices = [0x10000005 \<mapsto> 0x77]\<rparr>"

lemma keeping_writes_back: "writes_back (\<lambda>_. True) (\<lambda>d. d) keeping_outside"
proof -
  have "same_view (\<lambda>d. d) ms ms'" if f: "keeping_flush mode pa n ms = Some ms'" for mode pa n ms ms'
  proof -
    have e: "page_tables ms' = page_tables ms" "fcram ms' = fcram ms" "vram ms' = vram ms" "\<And>p. host ms p \<noteq> None \<Longrightarrow> host ms' p \<noteq> None"
      "\<And>p. devices ms p = None \<Longrightarrow> devices ms' p = None"
      using f by (auto simp: keeping_flush_def)
    have a: "allocated ms p k \<Longrightarrow> allocated ms' p k" for p k using e(4) by (simp add: allocated_def)
    have "mem_ok ms q \<Longrightarrow> mem_ok ms' q" for q using a by (auto simp: mem_ok_def page_ok_def e split: PageType.splits)
    moreover have "locate ms' = locate ms" by (intro ext) (simp add: locate_def e GetPointerForRasterizerCache_def split: PageType.split)
    moreover from this have "coherent (\<lambda>d. d) ms q \<Longrightarrow> coherent (\<lambda>d. d) ms' q" for q using e(5) by (simp add: coherent_def e(1))
    ultimately show ?thesis by (simp add: same_view_def e)
  qed
  moreover have "contents (\<lambda>d. d) ms' p = contents (\<lambda>d. d) ms p"
    if "keeping_flush mode pa n ms = Some ms'" "mode = Flush \<or> \<not> in_region ms pa n p" for mode pa n ms ms' p
    using that by (cases "in_region ms pa n p") (auto simp: keeping_flush_def contents_def split: option.split)
  moreover have "\<exists>ms'. keeping_flush mode pa n ms = Some ms' \<and> (\<forall>p. in_region ms pa n p \<longrightarrow> devices ms' p = None)" for mode pa n ms
    by (simp add: keeping_flush_def)
  ultimately have "\<exists>ms'. keeping_flush mode pa n ms = Some ms' \<and> same_view (\<lambda>d. d) ms ms' \<and> (\<forall>p. in_region ms pa n p \<longrightarrow> devices ms' p = None)
      \<and> (\<forall>p. mode = Flush \<or> \<not> in_region ms pa n p \<longrightarrow> contents (\<lambda>d. d) ms' p = contents (\<lambda>d. d) ms p)" for mode pa n ms
    by meson
  then show ?thesis unfolding writes_back_def keeping_outside_def by simp
qed

interpretation keeping: write_back_renderer "\<lambda>_. True" "\<lambda>d. d" keeping_outside
  by unfold_locales (rule keeping_writes_back)

lemma keeping_ok: "mem_ok keeping_memory 0" "coherent (\<lambda>d. d) keeping_memory 0" "no_device keeping_memory 0 0x14000004 3"
proof -
  show "mem_ok keeping_memory 0"
    by (auto simp: mem_ok_def page_ok_def allocated_def keeping_memory_def example_table_def raw_pointer_def GetPtr_def MemoryRef_null_def
      cacheable_def region_defs PAGE_SIZE_def)
  show "no_device keeping_memory 0 0x14000004 3" by (auto simp: no_device_def keeping_memory_def example_table_def)
  have "p \<noteq> 0x10000005" if "attributes example_table (a div PAGE_SIZE) = Memory" "locate keeping_memory 0 a = Some p" for a p
  proof -
    have "a mod PAGE_SIZE < 4096" by (simp add: PAGE_SIZE_def)
    with that show ?thesis
      by (auto simp: locate_def keeping_memory_def example_table_def raw_pointer_def GetPtr_def split: if_splits)
  qed
  then show "coherent (\<lambda>d. d) keeping_memory 0" by (auto simp: coherent_def keeping_memory_def)
qed

theorem blocks_bytewise_witness:
  "\<exists>ms'. ReadBlock keeping_outside 0 0x14000004 3 keeping_memory = Some ([4, 0x77, 6], ms')"
proof -
  have u: "[0x14000004 ..< 0x14000004 + 3] = [0x14000004, 0x14000005, 0x14000006 :: nat]" by (simp add: upt_conv_Cons)
  have l: "length [0, 0, 0 :: u8] = 3" by simp
  have "\<exists>ms'. ReadBlock keeping_outside 0 0x14000004 3 keeping_memory
      = Some (map (seen (\<lambda>d. d) keeping_memory 0) [0x14000004, 0x14000005, 0x14000006], ms')"
    using blocks_bytewise [of "\<lambda>_. True" "\<lambda>d. d" keeping_outside keeping_memory 0 "0x14000004" "[0, 0, 0]", unfolded l u, OF keeping_writes_back TrueI keeping_ok] by auto
  moreover have "seen (\<lambda>d. d) keeping_memory 0 0x14000004 = 4" "seen (\<lambda>d. d) keeping_memory 0 0x14000005 = 0x77" "seen (\<lambda>d. d) keeping_memory 0 0x14000006 = 6"
    by (simp_all add: seen_def locate_def keeping_memory_def example_table_def PAGE_SIZE_def GetPointerForRasterizerCache_def MemoryRef_at_def GetPtr_def
      region_defs contents_def)
  ultimately show ?thesis by simp
qed

end
