(* ===== verification/Kernel_Memory.thy ===== *)
theory Kernel_Memory
  imports Kernel_State Memory_Coherence
begin

text \<open>
  The memory the kernel sees is a view of the memory system: the places are those of the page table of the running process, and the
  bytes are the newest ones. Loading and storing in the view are the typed accesses \<^verbatim>\<open>Read\<close> and \<^verbatim>\<open>Write\<close> of
  \<^verbatim>\<open>core/memory.cpp\<close> within a page without device, for every renderer that writes back what it holds.
\<close>

definition memory_view :: "('d \<Rightarrow> nat \<Rightarrow> u8 option) \<Rightarrow> 'd MemorySystem \<Rightarrow> nat \<Rightarrow> EmulatedMemory" where
  "memory_view held ms pt = \<lparr>place_of = locate ms pt, byte_of = (\<lambda>p. the (contents held ms p))\<rparr>"

lemma memory_view_simps [simp]:
  "place_of (memory_view held ms pt) = locate ms pt" "byte_of (memory_view held ms pt) = (\<lambda>p. the (contents held ms p))"
  by (simp_all add: memory_view_def)

text \<open>The addresses of a page are placed one after another.\<close>

lemma page_linear:
  assumes "mem_ok ms pt" "attributes (page_tables ms pt) (a div PAGE_SIZE) \<noteq> Special" "a mod PAGE_SIZE + n \<le> PAGE_SIZE" "0 < n" "j < n"
  shows "locate ms pt (a + j) = map_option (\<lambda>p. p + j) (locate ms pt a)"
proof -
  have a: "a div PAGE_SIZE * PAGE_SIZE + a mod PAGE_SIZE = a" by simp
  show ?thesis
    by (rule placed_cases [OF assms(1,3,4,2), unfolded a]) (use assms(5) in \<open>auto dest: meta_spec [of _ 0]\<close>)
qed

lemma no_device_within:
  assumes "attributes (page_tables ms pt) (a div PAGE_SIZE) \<noteq> Special" "a mod PAGE_SIZE + n \<le> PAGE_SIZE"
  shows "no_device ms pt a n"
proof -
  have "(a + i) div PAGE_SIZE = a div PAGE_SIZE" if "i < n" for i
    using page_address(1) [of "a mod PAGE_SIZE" i "a div PAGE_SIZE"] assms(2) that by simp
  with assms(1) show ?thesis by (simp add: no_device_def)
qed

lemma within_space: "vaddr < 2 ^ 32 \<Longrightarrow> vaddr mod PAGE_SIZE + n \<le> PAGE_SIZE \<Longrightarrow> vaddr + n \<le> 2 ^ 32"
proof -
  assume "vaddr < 2 ^ 32" and n: "vaddr mod PAGE_SIZE + n \<le> PAGE_SIZE"
  then have "vaddr div 4096 < 2 ^ 20" by simp
  then have "vaddr div 4096 * 4096 + 4096 \<le> 2 ^ 32" by simp
  moreover have "vaddr = vaddr div 4096 * 4096 + vaddr mod 4096" by simp
  ultimately show ?thesis using n unfolding PAGE_SIZE_def by linarith
qed

text \<open>
  A word the kernel loads is the one \<^verbatim>\<open>Read32\<close> returns, and the view stays; what it stores is what \<^verbatim>\<open>Write\<close> writes.
\<close>

lemma load32_Read32:
  assumes r: "writes_back ok held out" "ok ms" "mem_ok ms pt" "coherent held ms pt" and c: "current_page_table ms = Some pt" "vaddr < 2 ^ 32"
    and page: "vaddr mod PAGE_SIZE + 4 \<le> PAGE_SIZE" "attributes (page_tables ms pt) (vaddr div PAGE_SIZE) \<noteq> Special"
    and k: "k_memory k = memory_view held ms pt"
  shows "\<exists>ms'. Memory_System.Read32 out vaddr ms = Some (load32 vaddr k, ms') \<and> memory_view held ms' pt = k_memory k"
proof -
  have w: "write_back_renderer ok held out" using r(1) by unfold_locales
  obtain ms' where ms': "ReadBlock out pt vaddr 4 ms = Some (map (seen held ms pt) [vaddr ..< vaddr + 4], ms')" "same_view held ms ms'"
    "contents held ms' = contents held ms"
    using write_back_renderer.read_newest [OF w r(2-4) no_device_within [OF page(2,1)] within_space [OF c(2) page(1)]] by blast
  have bs: "of_bytes (map (seen held ms pt) [vaddr ..< vaddr + 4]) = load32 vaddr k"
  proof (cases "locate ms pt vaddr")
    case None
    then have "map (seen held ms pt) [vaddr ..< vaddr + 4] = replicate 4 0"
      using page_linear [OF r(3) page(2,1)] by (intro nth_equalityI) (simp_all add: seen_def)
    then show ?thesis using None by (simp add: load32_def k of_bytes_def word_rcat_def numeral_eq_Suc)
  next
    case (Some p)
    then have "map (seen held ms pt) [vaddr ..< vaddr + 4] = map (\<lambda>p. the (contents held ms p)) [p ..< p + 4]"
      using page_linear [OF r(3) page(2,1)] by (intro nth_equalityI) (simp_all add: seen_def)
    then show ?thesis using Some by (simp add: load32_def k)
  qed
  have "Memory_System.Read32 out vaddr ms = Some (load32 vaddr k, ms')"
    using typed_access_block(1) [OF r(3) c page(1) _ page(2), of out] ms'(1) bs by (simp add: Read32_def read_as_def)
  moreover have "memory_view held ms' pt = k_memory k" using ms'(2,3) by (simp add: k memory_view_def same_view_def)
  ultimately show ?thesis by blast
qed

lemma store_Write:
  assumes r: "writes_back ok held out" "ok ms" "mem_ok ms pt" "coherent held ms pt" and c: "current_page_table ms = Some pt" "vaddr < 2 ^ 32"
    and page: "vaddr mod PAGE_SIZE + length bs \<le> PAGE_SIZE" "bs \<noteq> []" "attributes (page_tables ms pt) (vaddr div PAGE_SIZE) \<noteq> Special"
    and k: "k_memory k = memory_view held ms pt"
  shows "\<exists>ms'. Write out vaddr bs ms = Some ms' \<and> memory_view held ms' pt = k_memory (store vaddr bs k)"
proof -
  have w: "write_back_renderer ok held out" using r(1) by unfold_locales
  have n: "0 < length bs" using page(2) by simp
  obtain ms' where ms': "WriteBlock out pt vaddr (Buffer bs) (length bs) ms = Some ms'" "same_view held ms ms'"
    "contents held ms' = put (locate ms pt) vaddr bs (contents held ms)"
    using write_back_renderer.write_newest [OF w r(2-4) no_device_within [OF page(3,1)] within_space [OF c(2) page(1)]] by blast
  have "Write out vaddr bs ms = Some ms'"
    using typed_access_block(2) [OF r(3) c page(1) n page(3) refl, of out] ms'(1) by simp
  moreover have "memory_view held ms' pt = k_memory (store vaddr bs k)"
  proof (cases "locate ms pt vaddr")
    case None
    then have "contents held ms' = contents held ms"
      unfolding ms'(3) using page_linear [OF r(3) page(3,1) n] by (intro put_nowhere) simp
    then show ?thesis using None ms'(2) by (simp add: store_def k memory_view_def same_view_def)
  next
    case (Some p)
    then have "contents held ms' = (\<lambda>x. if p \<le> x \<and> x < p + length bs then Some (bs ! (x - p)) else contents held ms x)"
      unfolding ms'(3) using page_linear [OF r(3) page(3,1) n] by (intro put_linear) simp
    then show ?thesis using Some ms'(2) by (simp add: store_def k memory_view_def same_view_def fun_eq_iff)
  qed
  ultimately show ?thesis by blast
qed

end
