(* ===== verification/Memory_Cache.thy ===== *)
theory Memory_Cache
  imports Memory_Blocks
begin

text \<open>
  The rasterizer cache and the processes' view of memory. Marking pages as cached takes their pointers away and unmarking them
  puts pointers back: neither changes where any address of any process lives. Physical addresses and the virtual addresses the
  rasterizer gets for them lead to the same byte of the host.
\<close>

section \<open>Physical addresses\<close>

definition region_ref :: "nat \<Rightarrow> 'd MemorySystem \<Rightarrow> MemoryRef" where
  "region_ref pa ms =
     (if VRAM_PADDR \<le> pa \<and> pa < VRAM_PADDR_END then \<lparr>backing_mem = Some (vram ms, VRAM_SIZE), mr_offset = pa - VRAM_PADDR\<rparr>
      else if DSP_RAM_PADDR \<le> pa \<and> pa < DSP_RAM_PADDR + DSP_RAM_SIZE
      then \<lparr>backing_mem = Some (dsp_ram ms, DSP_RAM_SIZE), mr_offset = pa - DSP_RAM_PADDR\<rparr>
      else if FCRAM_PADDR \<le> pa \<and> pa < FCRAM_N3DS_PADDR_END
      then \<lparr>backing_mem = Some (fcram ms, FCRAM_N3DS_SIZE), mr_offset = pa - FCRAM_PADDR\<rparr>
      else if N3DS_EXTRA_RAM_PADDR \<le> pa \<and> pa < N3DS_EXTRA_RAM_PADDR + N3DS_EXTRA_RAM_SIZE
      then \<lparr>backing_mem = Some (n3ds_extra_ram ms, N3DS_EXTRA_RAM_SIZE), mr_offset = pa - N3DS_EXTRA_RAM_PADDR\<rparr>
      else MemoryRef_null)"

lemma GetPhysicalRef_eq: "pa < 2 ^ 32 \<Longrightarrow> GetPhysicalRef pa ms = Some (region_ref pa ms)"
proof -
  assume "pa < 2 ^ 32"
  then have s: "sub32 pa b = pa - b" if "b \<le> pa" for b using that by (simp add: sub32_small)
  note defs = GetPhysicalRef_def memory_areas_def add32_def region_defs s region_ref_def Let_def MemoryRef_at_def
  consider "VRAM_PADDR \<le> pa" "pa \<le> VRAM_PADDR + VRAM_SIZE" | "DSP_RAM_PADDR \<le> pa" "pa \<le> DSP_RAM_PADDR + DSP_RAM_SIZE"
    | "FCRAM_PADDR \<le> pa" "pa \<le> FCRAM_PADDR + FCRAM_N3DS_SIZE" | "N3DS_EXTRA_RAM_PADDR \<le> pa" "pa \<le> N3DS_EXTRA_RAM_PADDR + N3DS_EXTRA_RAM_SIZE"
    | "\<not> (VRAM_PADDR \<le> pa \<and> pa \<le> VRAM_PADDR + VRAM_SIZE)" "\<not> (DSP_RAM_PADDR \<le> pa \<and> pa \<le> DSP_RAM_PADDR + DSP_RAM_SIZE)"
      "\<not> (FCRAM_PADDR \<le> pa \<and> pa \<le> FCRAM_PADDR + FCRAM_N3DS_SIZE)" "\<not> (N3DS_EXTRA_RAM_PADDR \<le> pa \<and> pa \<le> N3DS_EXTRA_RAM_PADDR + N3DS_EXTRA_RAM_SIZE)"
    by blast
  then show ?thesis
  proof cases
    case 5
    then have "find (\<lambda>(paddr_base, sz). pa \<ge> paddr_base \<and> pa \<le> add32 paddr_base sz) memory_areas = None"
      by (auto simp: find_None_iff memory_areas_def add32_def region_defs)
    moreover from 5 have "region_ref pa ms = MemoryRef_null"
      by (auto simp: region_ref_def VRAM_PADDR_END_def FCRAM_N3DS_PADDR_END_def)
    ultimately show ?thesis by (simp add: GetPhysicalRef_def)
  qed (simp_all add: defs)
qed

text \<open>
  A physical address is valid exactly within the four memories of the console, although the search for its area accepts
  the address behind each of them, and every virtual address the rasterizer gets for it leads to the same byte of the host.
\<close>

theorem physical_virtual_agree:
  assumes "fcram ms \<noteq> 0" "vram ms \<noteq> 0" "dsp_ram ms \<noteq> 0" "n3ds_extra_ram ms \<noteq> 0" "pa < 2 ^ 32"
  shows "IsValidPhysicalAddress pa ms = Some ((VRAM_PADDR \<le> pa \<and> pa < VRAM_PADDR_END) \<or> (DSP_RAM_PADDR \<le> pa \<and> pa < DSP_RAM_PADDR + DSP_RAM_SIZE)
      \<or> (FCRAM_PADDR \<le> pa \<and> pa < FCRAM_N3DS_PADDR_END) \<or> (N3DS_EXTRA_RAM_PADDR \<le> pa \<and> pa < N3DS_EXTRA_RAM_PADDR + N3DS_EXTRA_RAM_SIZE))
    \<and> (\<forall>v \<in> set (PhysicalToVirtualAddressForRasterizer pa). \<exists>r r'. GetPhysicalRef pa ms = Some r \<and> GetPointerForRasterizerCache v ms = Some r'
          \<and> GetPtr r \<noteq> 0 \<and> GetPtr r' = GetPtr r \<and> GetSize r' = GetSize r)"
proof -
  have "GetPtr (region_ref pa ms) \<noteq> 0 \<longleftrightarrow> (VRAM_PADDR \<le> pa \<and> pa < VRAM_PADDR_END) \<or> (DSP_RAM_PADDR \<le> pa \<and> pa < DSP_RAM_PADDR + DSP_RAM_SIZE)
      \<or> (FCRAM_PADDR \<le> pa \<and> pa < FCRAM_N3DS_PADDR_END) \<or> (N3DS_EXTRA_RAM_PADDR \<le> pa \<and> pa < N3DS_EXTRA_RAM_PADDR + N3DS_EXTRA_RAM_SIZE)"
    using assms(1-4) by (auto simp: region_ref_def GetPtr_def MemoryRef_null_def)
  moreover have "\<exists>r'. GetPointerForRasterizerCache v ms = Some r' \<and> GetPtr (region_ref pa ms) \<noteq> 0 \<and> GetPtr r' = GetPtr (region_ref pa ms)
      \<and> GetSize r' = GetSize (region_ref pa ms)" if v: "v \<in> set (PhysicalToVirtualAddressForRasterizer pa)" for v
  proof -
    note defs = region_ref_def GetPointerForRasterizerCache_def MemoryRef_at_def GetPtr_def GetSize_def region_defs
    consider "VRAM_PADDR \<le> pa" "pa < VRAM_PADDR_END" "v = pa - VRAM_PADDR + VRAM_VADDR"
      | "FCRAM_PADDR \<le> pa" "pa < FCRAM_PADDR_END" "v = pa - FCRAM_PADDR + LINEAR_HEAP_VADDR"
      | "FCRAM_PADDR \<le> pa" "pa < FCRAM_N3DS_PADDR_END" "v = pa - FCRAM_PADDR + NEW_LINEAR_HEAP_VADDR"
      using v by (auto simp: PhysicalToVirtualAddressForRasterizer_def FCRAM_PADDR_END_def FCRAM_N3DS_PADDR_END_def FCRAM_SIZE_def FCRAM_N3DS_SIZE_def split: if_splits)
    then show ?thesis using assms(1,2) by cases (auto simp: defs)
  qed
  ultimately show ?thesis by (simp add: IsValidPhysicalAddress_def GetPhysicalRef_eq [OF assms(5)])
qed

theorem physical_virtual_agree_witness:
  "IsValidPhysicalAddress 0x30000000 example_memory = Some False \<and> PhysicalToVirtualAddressForRasterizer 0x20000010 = [0x14000010, 0x30000010]"
  using physical_virtual_agree [of example_memory "0x30000000"]
  by (simp add: example_memory_def region_defs PhysicalToVirtualAddressForRasterizer_def)

section \<open>Marking pages\<close>

text \<open>The pages of memory of the cacheable regions show the place of the console's memory at the same offset.\<close>

definition linear_ok :: "'d MemorySystem \<Rightarrow> nat \<Rightarrow> bool" where
  "linear_ok ms pt \<longleftrightarrow> (\<forall>i. attributes (page_tables ms pt) i = Memory \<longrightarrow> cacheable (i * PAGE_SIZE) \<longrightarrow>
     map_option GetPtr (GetPointerForRasterizerCache (i * PAGE_SIZE) ms) = Some (raw_pointer (page_tables ms pt) i))"

definition good_table :: "'d MemorySystem \<Rightarrow> nat \<Rightarrow> bool" where
  "good_table ms pt \<longleftrightarrow> mem_ok ms pt \<and> linear_ok ms pt"

definition mark_source :: "bool \<Rightarrow> PageType" where
  "mark_source cached = (if cached then Memory else RasterizerCachedMemory)"

definition mark_target :: "bool \<Rightarrow> PageType" where
  "mark_target cached = (if cached then RasterizerCachedMemory else Memory)"

text \<open>What marking the entries \<open>S\<close> (page table and page) does: types change there and nowhere else, places nowhere.\<close>

definition marked :: "bool \<Rightarrow> (nat \<times> nat) set \<Rightarrow> 'd MemorySystem \<Rightarrow> 'd MemorySystem \<Rightarrow> bool" where
  "marked cached S ms ms' \<longleftrightarrow> host ms' = host ms \<and> page_table_list ms' = page_table_list ms
     \<and> locate ms' = locate ms \<and> (\<forall>pt. good_table ms pt \<longrightarrow> good_table ms' pt)
     \<and> (\<forall>pt i. attributes (page_tables ms' pt) i = (if (pt, i) \<in> S \<and> attributes (page_tables ms pt) i \<noteq> Unmapped
           then mark_target cached else attributes (page_tables ms pt) i))"

definition markable :: "bool \<Rightarrow> (nat \<times> nat) set \<Rightarrow> 'd MemorySystem \<Rightarrow> bool" where
  "markable cached S ms \<longleftrightarrow> (\<forall>(pt, i) \<in> S. good_table ms pt \<and> cacheable (i * PAGE_SIZE)
     \<and> attributes (page_tables ms pt) i \<in> {Unmapped, mark_source cached})"

lemma mark_target_mapped [simp]: "mark_target cached \<noteq> Unmapped"
  by (simp add: mark_target_def)

lemma marked_none: "marked cached {} ms ms"
  by (simp add: marked_def)

lemma marked_trans: "marked cached S ms ms1 \<Longrightarrow> marked cached T ms1 ms2 \<Longrightarrow> marked cached (S \<union> T) ms ms2"
  by (auto simp: marked_def)

lemma markable_after: "marked cached S ms ms' \<Longrightarrow> markable cached T ms \<Longrightarrow> S \<inter> T = {} \<Longrightarrow> markable cached T ms'"
  by (fastforce simp: marked_def markable_def)

lemma markable_union: "markable cached (S \<union> T) ms \<longleftrightarrow> markable cached S ms \<and> markable cached T ms"
  by (auto simp: markable_def)

lemma cached_place:
  assumes "cacheable (i * PAGE_SIZE)" "mem_ok ms pt" "j < PAGE_SIZE"
  shows "map_option GetPtr (GetPointerForRasterizerCache (i * PAGE_SIZE + j) ms)
    = map_option (\<lambda>r. GetPtr r + j) (GetPointerForRasterizerCache (i * PAGE_SIZE) ms)"
proof -
  have ok: "allocated ms (fcram ms) FCRAM_N3DS_SIZE" "allocated ms (vram ms) VRAM_SIZE" using assms(2) by (simp_all add: mem_ok_def)
  show ?thesis
  proof (rule cached_pointer [OF assms(1) _ _ ok, of 0 PAGE_SIZE])
    fix r assume r: "GetPointerForRasterizerCache (i * PAGE_SIZE + 0) ms = Some r"
      "\<And>j. j < PAGE_SIZE \<Longrightarrow> map_option GetPtr (GetPointerForRasterizerCache (i * PAGE_SIZE + 0 + j) ms) = Some (GetPtr r + j)"
    show ?thesis using r(1) r(2) [OF assms(3)] by simp
  qed (simp_all add: PAGE_SIZE_def)
qed

lemma set_entry_marked:
  assumes ok: "good_table ms pt" "cacheable (i * PAGE_SIZE)" "attributes (page_tables ms pt) i = mark_source cached"
    and r: "if cached then GetPtr r = 0 else GetPointerForRasterizerCache (i * PAGE_SIZE) ms = Some r"
  shows "marked cached {(pt, i)} ms (upd_page_table pt (\<lambda>t. t\<lparr>attributes := (attributes t)(i := mark_target cached), pointers := (pointers t)(i := r)\<rparr>) ms)"
proof -
  define ms' where "ms' = upd_page_table pt (\<lambda>t. t\<lparr>attributes := (attributes t)(i := mark_target cached), pointers := (pointers t)(i := r)\<rparr>) ms"
  have mem: "mem_ok ms pt" and lin: "linear_ok ms pt" using ok(1) by (simp_all add: good_table_def)
  let ?t = "page_tables ms pt"
  have same: "GetPointerForRasterizerCache a ms' = GetPointerForRasterizerCache a ms" "host ms' = host ms" "allocated ms' p n = allocated ms p n"
    "fcram ms' = fcram ms" "vram ms' = vram ms" for a p n
    by (simp_all add: ms'_def GetPointerForRasterizerCache_def upd_page_table_def allocated_def)
  have tables: "page_tables ms' q = (if q = pt then ?t\<lparr>attributes := (attributes ?t)(i := mark_target cached), pointers := (pointers ?t)(i := r)\<rparr> else page_tables ms q)" for q
    by (simp add: ms'_def upd_page_table_def)
  have here: "locate ms' pt a = locate ms pt a" if "a div PAGE_SIZE = i" for a
  proof -
    have a: "i * PAGE_SIZE + a mod PAGE_SIZE = a" "a mod PAGE_SIZE < PAGE_SIZE" using that by (auto simp: PAGE_SIZE_def)
    have "map_option GetPtr (GetPointerForRasterizerCache a ms) = map_option (\<lambda>r. GetPtr r + a mod PAGE_SIZE) (GetPointerForRasterizerCache (i * PAGE_SIZE) ms)"
      using cached_place [OF ok(2) mem a(2)] a(1) by simp
    moreover have "cached \<Longrightarrow> map_option GetPtr (GetPointerForRasterizerCache (i * PAGE_SIZE) ms) = Some (raw_pointer ?t i)"
      using lin ok(2,3) by (simp add: linear_ok_def mark_source_def)
    ultimately show ?thesis using r ok(3) that
      by (cases cached) (auto simp: locate_def tables same mark_source_def mark_target_def raw_pointer_def)
  qed
  have "locate ms' q a = locate ms q a" for q a
    using here by (cases "q = pt \<and> a div PAGE_SIZE = i") (auto simp: locate_def tables same raw_pointer_def split: PageType.split)
  then have loc: "locate ms' = locate ms" by blast
  obtain r0 where r0: "GetPointerForRasterizerCache (i * PAGE_SIZE + 0) ms = Some r0" "allocated ms (GetPtr r0) PAGE_SIZE"
    using mem by (auto simp: mem_ok_def PAGE_SIZE_def intro: cached_pointer [OF ok(2), of 0 PAGE_SIZE])
  have new: "page_ok ms' (page_tables ms' pt) i"
    using r r0 ok(2) by (cases cached) (auto simp: page_ok_def tables mark_target_def same raw_pointer_def)
  have "mem_ok ms' q" if "mem_ok ms q" for q
    using that new by (auto simp: mem_ok_def same tables page_ok_def raw_pointer_def split: if_splits PageType.splits)
  moreover have "linear_ok ms' q" if "linear_ok ms q" for q
    using that r by (auto simp: linear_ok_def tables same mark_target_def raw_pointer_def split: if_splits)
  moreover have "page_table_list ms' = page_table_list ms" by (simp add: ms'_def upd_page_table_def)
  ultimately have "marked cached {(pt, i)} ms ms'" using loc ok(3) same(2) by (auto simp: marked_def good_table_def tables mark_source_def)
  then show ?thesis by (simp only: ms'_def)
qed

lemma marker_marked: "marked cached {} ms (ms\<lparr>cache_marker := m\<rparr>)"
proof -
  have "GetPointerForRasterizerCache a (ms\<lparr>cache_marker := m\<rparr>) = GetPointerForRasterizerCache a ms"
    "allocated (ms\<lparr>cache_marker := m\<rparr>) p n = allocated ms p n" for a p n
    by (simp_all add: GetPointerForRasterizerCache_def allocated_def)
  then show ?thesis
    by (auto simp: marked_def locate_def good_table_def mem_ok_def linear_ok_def page_ok_def fun_eq_iff split: PageType.splits)
qed

lemma mark_entry_marked:
  assumes "markable cached {(pt, v div PAGE_SIZE)} ms"
  shows "\<exists>ms'. mark_entry cached v pt ms = Some ms' \<and> marked cached {(pt, v div PAGE_SIZE)} ms ms'"
proof (cases "attributes (page_tables ms pt) (v div PAGE_SIZE) = Unmapped")
  case True
  then have "mark_entry cached v pt ms = Some ms" by (simp add: mark_entry_def Let_def)
  moreover have "marked cached {(pt, v div PAGE_SIZE)} ms ms" using True by (auto simp: marked_def)
  ultimately show ?thesis by blast
next
  case False
  let ?i = "v div PAGE_SIZE"
  have ok: "good_table ms pt" "cacheable (?i * PAGE_SIZE)" "attributes (page_tables ms pt) ?i = mark_source cached"
    using assms False by (simp_all add: markable_def)
  have v: "v - v mod PAGE_SIZE = ?i * PAGE_SIZE" by (rule minus_mod_eq_div_mult)
  show ?thesis
  proof (cases cached)
    case True
    with set_entry_marked [OF ok, of MemoryRef_null] ok(3) show ?thesis
      by (simp add: mark_entry_def Let_def mark_source_def mark_target_def GetPtr_def MemoryRef_null_def)
  next
    case False
    have "mem_ok ms pt" using ok(1) by (simp add: good_table_def)
    then obtain r where r: "GetPointerForRasterizerCache (?i * PAGE_SIZE + 0) ms = Some r"
      by (auto simp: mem_ok_def PAGE_SIZE_def intro: cached_pointer [OF ok(2), of 0 PAGE_SIZE])
    with set_entry_marked [OF ok, of r] ok(3) False show ?thesis
      by (simp add: mark_entry_def Let_def mark_source_def mark_target_def v)
  qed
qed

lemma mark_tables_marked:
  "distinct pts \<Longrightarrow> markable cached (set pts \<times> {v div PAGE_SIZE}) ms
    \<Longrightarrow> \<exists>ms'. mark_tables cached v pts ms = Some ms' \<and> marked cached (set pts \<times> {v div PAGE_SIZE}) ms ms'"
proof (induction pts arbitrary: ms)
  case (Cons pt pts)
  let ?S = "{(pt, v div PAGE_SIZE)}" and ?T = "set pts \<times> {v div PAGE_SIZE}"
  have ST: "set (pt # pts) \<times> {v div PAGE_SIZE} = ?S \<union> ?T" by auto
  have m: "markable cached ?S ms" "markable cached ?T ms" using Cons.prems(2) unfolding ST markable_union by blast+
  from mark_entry_marked [OF m(1)] obtain ms1 where e: "mark_entry cached v pt ms = Some ms1" "marked cached ?S ms ms1" by blast
  have "markable cached ?T ms1" by (rule markable_after [OF e(2) m(2)]) (use Cons.prems(1) in auto)
  with Cons.IH Cons.prems(1) obtain ms2 where "mark_tables cached v pts ms1 = Some ms2" "marked cached ?T ms1 ms2" by auto
  then show ?case unfolding ST using e(1) marked_trans [OF e(2)] by auto
qed (simp add: marked_none)

lemma mark_addresses_marked:
  "distinct (map (\<lambda>v. v div PAGE_SIZE) vs) \<Longrightarrow> distinct (page_table_list ms)
    \<Longrightarrow> markable cached (set (page_table_list ms) \<times> (\<lambda>v. v div PAGE_SIZE) ` set vs) ms
    \<Longrightarrow> \<exists>ms'. mark_addresses cached vs ms = Some ms' \<and> marked cached (set (page_table_list ms) \<times> (\<lambda>v. v div PAGE_SIZE) ` set vs) ms ms'"
proof (induction vs arbitrary: ms)
  case (Cons v vs)
  let ?L = "set (page_table_list ms)" and ?ms = "ms\<lparr>cache_marker := Mark v cached (cache_marker ms)\<rparr>"
  let ?S = "?L \<times> {v div PAGE_SIZE}" and ?T = "?L \<times> (\<lambda>v. v div PAGE_SIZE) ` set vs"
  have ST: "?L \<times> (\<lambda>v. v div PAGE_SIZE) ` set (v # vs) = ?S \<union> ?T" by auto
  have m: "markable cached ?S ms" "markable cached ?T ms" using Cons.prems(3) unfolding ST markable_union by blast+
  have "markable cached ?S ?ms" by (rule markable_after [OF marker_marked m(1)]) simp
  from mark_tables_marked [OF Cons.prems(2) this] obtain ms1
    where e: "mark_tables cached v (page_table_list ms) ?ms = Some ms1" "marked cached ?S ?ms ms1" by auto
  have e2: "marked cached ?S ms ms1" using marked_trans [OF marker_marked e(2)] by simp
  then have l: "page_table_list ms1 = page_table_list ms" by (simp add: marked_def)
  have "markable cached ?T ms1" by (rule markable_after [OF e2 m(2)]) (use Cons.prems(1) in auto)
  with Cons.IH [of ms1] Cons.prems(1,2) obtain ms2 where "mark_addresses cached vs ms1 = Some ms2" "marked cached ?T ms1 ms2" by (auto simp: l)
  then show ?case unfolding ST using e(1) marked_trans [OF e2] by auto
qed (simp add: marked_none)

lemma mark_addresses_append:
  "mark_addresses cached (us @ vs) ms = (case mark_addresses cached us ms of None \<Rightarrow> None | Some ms \<Rightarrow> mark_addresses cached vs ms)"
  by (induction us arbitrary: ms) (auto split: option.splits Option.bind_splits)

definition page_addresses :: "nat \<Rightarrow> nat \<Rightarrow> nat list" where
  "page_addresses pa n = concat (map (\<lambda>k. PhysicalToVirtualAddressForRasterizer (pa + k * PAGE_SIZE)) [0 ..< n])"

lemma page_addresses_Suc: "page_addresses pa (Suc n) = PhysicalToVirtualAddressForRasterizer pa @ page_addresses (pa + PAGE_SIZE) n"
proof -
  have "[0 ..< Suc n] = 0 # map Suc [0 ..< n]" by (simp add: map_Suc_upt upt_conv_Cons)
  then show ?thesis by (simp add: page_addresses_def comp_def add.assoc del: upt_Suc)
qed

lemma mark_pages_eq:
  fixes ms :: "'d MemorySystem"
  shows "pa + n * PAGE_SIZE < 2 ^ 32 + PAGE_SIZE \<Longrightarrow> mark_pages cached n pa ms = mark_addresses cached (page_addresses pa n) ms"
proof (induction n arbitrary: pa ms)
  case (Suc n)
  have "mark_pages cached n (add32 pa PAGE_SIZE) ms' = mark_addresses cached (page_addresses (pa + PAGE_SIZE) n) ms'" for ms' :: "'d MemorySystem"
  proof (cases "n = 0")
    case False
    then have "add32 pa PAGE_SIZE = pa + PAGE_SIZE" using Suc.prems by (cases n) (simp_all add: add32_def)
    then show ?thesis using Suc.IH [of "pa + PAGE_SIZE" ms'] Suc.prems by (simp add: add.assoc)
  qed (simp add: page_addresses_def)
  then show ?case by (simp add: page_addresses_Suc mark_addresses_append split: option.split Option.bind_split)
qed (simp add: page_addresses_def)

text \<open>Different physical pages have different virtual pages.\<close>

definition physical_page :: "nat \<Rightarrow> nat" where
  "physical_page i =
     (if VRAM_VADDR div PAGE_SIZE \<le> i \<and> i < VRAM_VADDR_END div PAGE_SIZE then i - VRAM_VADDR div PAGE_SIZE + VRAM_PADDR div PAGE_SIZE
      else if LINEAR_HEAP_VADDR div PAGE_SIZE \<le> i \<and> i < LINEAR_HEAP_VADDR_END div PAGE_SIZE
      then i - LINEAR_HEAP_VADDR div PAGE_SIZE + FCRAM_PADDR div PAGE_SIZE
      else i - NEW_LINEAR_HEAP_VADDR div PAGE_SIZE + FCRAM_PADDR div PAGE_SIZE)"

lemma shifted_page: "c * PAGE_SIZE \<le> pa \<Longrightarrow> (pa - c * PAGE_SIZE + d * PAGE_SIZE) div PAGE_SIZE = pa div PAGE_SIZE - c + d"
proof -
  assume "c * PAGE_SIZE \<le> pa"
  then obtain x where "pa = x + c * PAGE_SIZE" by (metis le_add_diff_inverse2)
  then show ?thesis by (simp add: PAGE_SIZE_def)
qed

lemma virtual_page:
  assumes "v \<in> set (PhysicalToVirtualAddressForRasterizer pa)"
  shows "physical_page (v div PAGE_SIZE) = pa div PAGE_SIZE" "cacheable (v div PAGE_SIZE * PAGE_SIZE)"
proof -
  note defs = region_defs PAGE_SIZE_def physical_page_def cacheable_def
  have sh: "(pa - c * 4096 + d * 4096) div 4096 = pa div 4096 - c + d" if "c * 4096 \<le> pa" for c d
    using shifted_page [of c pa d] that by (simp add: PAGE_SIZE_def)
  consider (a) "VRAM_PADDR \<le> pa" "pa < VRAM_PADDR_END" "v = pa - VRAM_PADDR + VRAM_VADDR"
    | (b) "FCRAM_PADDR \<le> pa" "pa < FCRAM_PADDR_END" "v = pa - FCRAM_PADDR + LINEAR_HEAP_VADDR"
    | (c) "FCRAM_PADDR \<le> pa" "pa < FCRAM_N3DS_PADDR_END" "v = pa - FCRAM_PADDR + NEW_LINEAR_HEAP_VADDR"
    using assms by (auto simp: PhysicalToVirtualAddressForRasterizer_def FCRAM_PADDR_END_def FCRAM_N3DS_PADDR_END_def FCRAM_SIZE_def FCRAM_N3DS_SIZE_def split: if_splits)
  then have "physical_page (v div PAGE_SIZE) = pa div PAGE_SIZE \<and> cacheable (v div PAGE_SIZE * PAGE_SIZE)"
  proof cases
    case a
    then have "0x18000 \<le> pa div 4096" "pa div 4096 < 0x18600" by (simp_all add: region_defs less_mult_imp_div_less)
    moreover have "v div 4096 = pa div 4096 - 0x18000 + 0x1F000" using sh [of "0x18000" "0x1F000"] a by (simp add: region_defs)
    ultimately show ?thesis by (auto simp: defs)
  next
    case b
    then have "0x20000 \<le> pa div 4096" "pa div 4096 < 0x28000" by (simp_all add: region_defs less_mult_imp_div_less)
    moreover have "v div 4096 = pa div 4096 - 0x20000 + 0x14000" using sh [of "0x20000" "0x14000"] b by (simp add: region_defs)
    ultimately show ?thesis by (auto simp: defs)
  next
    case c
    then have "0x20000 \<le> pa div 4096" "pa div 4096 < 0x30000" by (simp_all add: region_defs less_mult_imp_div_less)
    moreover have "v div 4096 = pa div 4096 - 0x20000 + 0x30000" using sh [of "0x20000" "0x30000"] c by (simp add: region_defs)
    ultimately show ?thesis by (simp add: defs)
  qed
  then show "physical_page (v div PAGE_SIZE) = pa div PAGE_SIZE" "cacheable (v div PAGE_SIZE * PAGE_SIZE)" by simp_all
qed

lemma virtual_pages_distinct: "distinct (map (\<lambda>v. v div PAGE_SIZE) (PhysicalToVirtualAddressForRasterizer pa))"
proof -
  have "(pa - 0x20000 * 4096 + 0x14000 * 4096) div 4096 \<noteq> (pa - 0x20000 * 4096 + 0x30000 * 4096) div 4096"
    if "0x20000 * 4096 \<le> pa" using shifted_page [of "0x20000" pa] that by (simp add: PAGE_SIZE_def)
  then show ?thesis by (auto simp: PhysicalToVirtualAddressForRasterizer_def region_defs PAGE_SIZE_def)
qed

lemma page_addresses_distinct: "distinct (map (\<lambda>v. v div PAGE_SIZE) (page_addresses pa n))"
proof (induction n arbitrary: pa)
  case (Suc n)
  have "v div PAGE_SIZE \<noteq> w div PAGE_SIZE"
    if "v \<in> set (PhysicalToVirtualAddressForRasterizer pa)" "w \<in> set (page_addresses (pa + PAGE_SIZE) n)" for v w
  proof -
    from that(2) obtain k where "w \<in> set (PhysicalToVirtualAddressForRasterizer (pa + PAGE_SIZE + k * PAGE_SIZE))"
      by (auto simp: page_addresses_def)
    from virtual_page(1) [OF this] virtual_page(1) [OF that(1)] show ?thesis by (auto simp: PAGE_SIZE_def)
  qed
  with Suc.IH virtual_pages_distinct show ?case by (auto simp: page_addresses_Suc)
qed (simp add: page_addresses_def)

lemma virtual_page_found:
  assumes "cacheable (i * PAGE_SIZE)" "pa div PAGE_SIZE = physical_page i"
  shows "i * PAGE_SIZE + pa mod PAGE_SIZE \<in> set (PhysicalToVirtualAddressForRasterizer pa)"
proof -
  define m where "m = pa mod 4096"
  have mm: "pa mod PAGE_SIZE = m" by (simp add: m_def PAGE_SIZE_def)
  have pa: "pa = physical_page i * 4096 + m" "m < 4096" using assms(2) div_mult_mod_eq [of pa 4096] by (simp_all add: m_def PAGE_SIZE_def)
  consider (a) x where "i = x + 0x1F000" "x < 0x600" | (b) x where "i = x + 0x14000" "x < 0x8000" | (c) x where "i = x + 0x30000" "x < 0x10000"
  proof -
    have "0x1F000 \<le> i \<and> i < 0x1F600 \<or> 0x14000 \<le> i \<and> i < 0x1C000 \<or> 0x30000 \<le> i \<and> i < 0x40000"
      using assms(1) by (auto simp: cacheable_def region_defs PAGE_SIZE_def)
    then show thesis using a [of "i - 0x1F000"] b [of "i - 0x14000"] c [of "i - 0x30000"] by auto
  qed
  then show ?thesis
  proof cases
    case a
    then have "pa = (x + 0x18000) * 4096 + m" using pa(1) by (simp add: physical_page_def region_defs PAGE_SIZE_def)
    then show ?thesis unfolding mm using a pa(2) by (simp add: PhysicalToVirtualAddressForRasterizer_def region_defs PAGE_SIZE_def)
  next
    case b
    then have "pa = (x + 0x20000) * 4096 + m" using pa(1) by (simp add: physical_page_def region_defs PAGE_SIZE_def)
    then show ?thesis unfolding mm using b pa(2) by (simp add: PhysicalToVirtualAddressForRasterizer_def region_defs PAGE_SIZE_def)
  next
    case c
    then have "pa = (x + 0x20000) * 4096 + m" using pa(1) by (simp add: physical_page_def region_defs PAGE_SIZE_def)
    then show ?thesis unfolding mm using c pa(2) by (simp add: PhysicalToVirtualAddressForRasterizer_def region_defs PAGE_SIZE_def)
  qed
qed

text \<open>The virtual pages, of every process, that show a page of a region of physical memory.\<close>

definition region_pages :: "nat \<Rightarrow> nat \<Rightarrow> nat set" where
  "region_pages start sz = {i. cacheable (i * PAGE_SIZE) \<and> start div PAGE_SIZE \<le> physical_page i \<and> physical_page i \<le> (start + sz - 1) div PAGE_SIZE}"

lemma page_addresses_mem: "v \<in> set (page_addresses pa n) \<longleftrightarrow> (\<exists>k < n. v \<in> set (PhysicalToVirtualAddressForRasterizer (pa + k * PAGE_SIZE)))"
  by (auto simp: page_addresses_def)

lemma region_pages_eq:
  assumes "start div PAGE_SIZE \<le> (start + sz - 1) div PAGE_SIZE"
  shows "(\<lambda>v. v div PAGE_SIZE) ` set (page_addresses start ((start + sz - 1) div PAGE_SIZE - start div PAGE_SIZE + 1)) = region_pages start sz"
    (is "?L = _")
proof
  have pd: "(start + k * PAGE_SIZE) div PAGE_SIZE = start div PAGE_SIZE + k" for k by (simp add: PAGE_SIZE_def)
  show "?L \<subseteq> region_pages start sz"
  proof (rule image_subsetI)
    fix v assume "v \<in> set (page_addresses start ((start + sz - 1) div PAGE_SIZE - start div PAGE_SIZE + 1))"
    then obtain k where k: "k < (start + sz - 1) div PAGE_SIZE - start div PAGE_SIZE + 1" "v \<in> set (PhysicalToVirtualAddressForRasterizer (start + k * PAGE_SIZE))"
      by (meson page_addresses_mem [THEN iffD1])
    with virtual_page [OF k(2)] assms show "v div PAGE_SIZE \<in> region_pages start sz" by (simp add: region_pages_def pd)
  qed
  show "region_pages start sz \<subseteq> ?L"
  proof
    fix i assume i: "i \<in> region_pages start sz"
    define k where "k = physical_page i - start div PAGE_SIZE"
    have k: "k < (start + sz - 1) div PAGE_SIZE - start div PAGE_SIZE + 1" "(start + k * PAGE_SIZE) div PAGE_SIZE = physical_page i"
      using i pd by (auto simp: region_pages_def k_def)
    have c: "cacheable (i * PAGE_SIZE)" using i by (simp add: region_pages_def)
    let ?v = "i * PAGE_SIZE + (start + k * PAGE_SIZE) mod PAGE_SIZE"
    have "?v \<in> set (page_addresses start ((start + sz - 1) div PAGE_SIZE - start div PAGE_SIZE + 1))"
      using virtual_page_found [OF c k(2)] k(1) unfolding page_addresses_mem by blast
    moreover have "?v div PAGE_SIZE = i" by (simp add: PAGE_SIZE_def)
    ultimately show "i \<in> ?L" by (metis image_eqI)
  qed
qed

text \<open>What the marker remembers for pages that are mapped later.\<close>

lemma IsCached_Mark:
  assumes "cacheable (v div PAGE_SIZE * PAGE_SIZE)"
  shows "IsCached a (Mark v cached m) = (if a div PAGE_SIZE = v div PAGE_SIZE then cached else IsCached a m)"
proof -
  define i j x y where "i = v div 4096" and "j = a div 4096" and "x = v mod 4096" and "y = a mod 4096"
  have v: "v = i * 4096 + x" "x < 4096" and a: "a = j * 4096 + y" "y < 4096" by (auto simp: i_def j_def x_def y_def)
  have sub: "(k * 4096 + z - c * 4096) div 4096 = k - c" if "c \<le> k" "z < 4096" for k c z :: nat
  proof -
    from that(1) obtain d where "k = c + d" using le_Suc_ex by blast
    then have "k * 4096 + z - c * 4096 = d * 4096 + z" by (simp add: algebra_simps)
    then show ?thesis using that(2) \<open>k = c + d\<close> by simp
  qed
  have R: "w \<ge> VRAM_VADDR \<longleftrightarrow> 0x1F000 \<le> k" "w < VRAM_VADDR_END \<longleftrightarrow> k < 0x1F600" "w \<ge> LINEAR_HEAP_VADDR \<longleftrightarrow> 0x14000 \<le> k"
    "w < LINEAR_HEAP_VADDR_END \<longleftrightarrow> k < 0x1C000" "w \<ge> NEW_LINEAR_HEAP_VADDR \<longleftrightarrow> 0x30000 \<le> k" "w < NEW_LINEAR_HEAP_VADDR_END \<longleftrightarrow> k < 0x40000"
    if "w = k * 4096 + z" "z < 4096" for w k z
    unfolding that(1) using that(2) by (simp_all add: region_defs, linarith+)
  have D: "(w - VRAM_VADDR) div PAGE_SIZE = k - 0x1F000" if "w = k * 4096 + z" "z < 4096" "0x1F000 \<le> k" for w k z
    using that sub [of "0x1F000" k z] by (simp add: region_defs PAGE_SIZE_def)
  have E: "(w - LINEAR_HEAP_VADDR) div PAGE_SIZE = k - 0x14000" if "w = k * 4096 + z" "z < 4096" "0x14000 \<le> k" for w k z
    using that sub [of "0x14000" k z] by (simp add: region_defs PAGE_SIZE_def)
  have F: "(w - NEW_LINEAR_HEAP_VADDR) div PAGE_SIZE = k - 0x30000" if "w = k * 4096 + z" "z < 4096" "0x30000 \<le> k" for w k z
    using that sub [of "0x30000" k z] by (simp add: region_defs PAGE_SIZE_def)
  have c: "0x1F000 \<le> i \<and> i < 0x1F600 \<or> 0x14000 \<le> i \<and> i < 0x1C000 \<or> 0x30000 \<le> i \<and> i < 0x40000"
    using assms by (auto simp: cacheable_def region_defs PAGE_SIZE_def i_def)
  have same: "(a div PAGE_SIZE = v div PAGE_SIZE) = (j = i)" by (simp add: i_def j_def PAGE_SIZE_def)
  show ?thesis unfolding same using c
    by (elim disjE) (auto simp: IsCached_def Mark_def R [OF v] R [OF a] D [OF v] D [OF a] E [OF v] E [OF a] F [OF v] F [OF a])
qed

lemma mark_entry_marker: "mark_entry cached v pt ms = Some ms' \<Longrightarrow> cache_marker ms' = cache_marker ms \<and> page_table_list ms' = page_table_list ms"
  by (auto simp: mark_entry_def Let_def upd_page_table_def bind_eq_Some_conv split: if_splits PageType.splits)

lemma mark_tables_marker: "mark_tables cached v pts ms = Some ms' \<Longrightarrow> cache_marker ms' = cache_marker ms \<and> page_table_list ms' = page_table_list ms"
  by (induction pts arbitrary: ms) (auto simp: bind_eq_Some_conv dest: mark_entry_marker)

lemma mark_addresses_marker:
  assumes "mark_addresses cached vs ms = Some ms'" "\<forall>v \<in> set vs. cacheable (v div PAGE_SIZE * PAGE_SIZE)"
  shows "IsCached a (cache_marker ms') = (if a div PAGE_SIZE \<in> (\<lambda>v. v div PAGE_SIZE) ` set vs then cached else IsCached a (cache_marker ms))"
  using assms
proof (induction vs arbitrary: ms)
  case (Cons v vs)
  then obtain ms1 where "mark_tables cached v (page_table_list ms) (ms\<lparr>cache_marker := Mark v cached (cache_marker ms)\<rparr>) = Some ms1"
    "mark_addresses cached vs ms1 = Some ms'"
    by (auto simp: bind_eq_Some_conv)
  with mark_tables_marker [OF this(1)] Cons show ?case by (auto simp: IsCached_Mark)
qed simp

text \<open>
  C34: Marking a region of physical memory as cached or not cached by the rasterizer. If the registered page tables show the
  console's memory in the cacheable regions, and the mapped pages of the region have the other state, the call returns. It
  changes the type of exactly the mapped pages that show the region, in every registered page table, and no other page of any table; pages of
  the region that are mapped later will get the same state, those of other regions the state they would have got; and no address of any process
  moves: every read sees the same byte.
\<close>

theorem marking_transparent:
  assumes "0 < start" "0 < sz" "start + sz \<le> 2 ^ 32" "distinct (page_table_list ms)"
    and "\<forall>pt \<in> set (page_table_list ms). good_table ms pt
      \<and> (\<forall>i \<in> region_pages start sz. attributes (page_tables ms pt) i \<in> {Unmapped, mark_source cached})"
  shows "\<exists>ms'. RasterizerMarkRegionCached start sz cached ms = Some ms' \<and> host ms' = host ms
    \<and> (\<forall>pt a. locate ms' pt a = locate ms pt a \<and> byte_at ms' pt a = byte_at ms pt a)
    \<and> (\<forall>pt \<in> set (page_table_list ms). good_table ms' pt)
    \<and> (\<forall>pt i. attributes (page_tables ms' pt) i
          = (if pt \<in> set (page_table_list ms) \<and> i \<in> region_pages start sz \<and> attributes (page_tables ms pt) i \<noteq> Unmapped
             then mark_target cached else attributes (page_tables ms pt) i))
    \<and> (\<forall>a. IsCached a (cache_marker ms') = (if a div PAGE_SIZE \<in> region_pages start sz then cached else IsCached a (cache_marker ms)))"
proof -
  let ?n = "(start + sz - 1) div PAGE_SIZE - start div PAGE_SIZE + 1"
  define pages where "pages = page_addresses start ?n"
  let ?S = "set (page_table_list ms) \<times> (\<lambda>v. v div PAGE_SIZE) ` set pages"
  have le: "start div PAGE_SIZE \<le> (start + sz - 1) div PAGE_SIZE" using assms(2) by (intro div_le_mono) simp
  have top: "(start + sz - 1) div PAGE_SIZE < 2 ^ 20" using assms(1-3) by (intro less_mult_imp_div_less) (simp add: PAGE_SIZE_def)
  have "add32 (sub32 (sub32 (add32 start sz) 1 div PAGE_SIZE) (start div PAGE_SIZE)) 1 = ?n"
  proof -
    have "sub32 (add32 start sz) 1 = start + sz - 1" using assms(1-3) by (cases "start + sz = 2 ^ 32") (simp_all add: add32_def sub32_small, simp add: sub32_def)
    moreover have "sub32 ((start + sz - 1) div PAGE_SIZE) (start div PAGE_SIZE) = (start + sz - 1) div PAGE_SIZE - start div PAGE_SIZE"
      using le top by (intro sub32_small) simp_all
    ultimately show ?thesis using top by (simp add: add32_def)
  qed
  moreover have "start + ?n * PAGE_SIZE < 2 ^ 32 + PAGE_SIZE"
  proof -
    from le obtain d where d: "(start + sz - 1) div PAGE_SIZE = start div PAGE_SIZE + d" by (metis le_Suc_ex)
    have "start + ?n * PAGE_SIZE = start div PAGE_SIZE * PAGE_SIZE + start mod PAGE_SIZE + (d + 1) * PAGE_SIZE"
      unfolding d by (simp only: div_mult_mod_eq) simp
    also have "\<dots> = (start + sz - 1) div PAGE_SIZE * PAGE_SIZE + start mod PAGE_SIZE + PAGE_SIZE" unfolding d by (simp add: algebra_simps)
    also have "\<dots> < 2 ^ 32 + PAGE_SIZE" using top mod_less_divisor [of PAGE_SIZE start] by (simp add: PAGE_SIZE_def)
    finally show ?thesis .
  qed
  moreover define n where "n = ?n"
  ultimately have run: "RasterizerMarkRegionCached start sz cached ms = mark_addresses cached pages ms"
    unfolding RasterizerMarkRegionCached_def Let_def pages_def n_def [symmetric] using assms(1) by (simp add: mark_pages_eq)
  have R: "(\<lambda>v. v div PAGE_SIZE) ` set pages = region_pages start sz" unfolding pages_def by (rule region_pages_eq [OF le])
  have c: "\<forall>v \<in> set pages. cacheable (v div PAGE_SIZE * PAGE_SIZE)"
    using virtual_page(2) by (auto simp: pages_def page_addresses_def)
  have "\<forall>i \<in> region_pages start sz. cacheable (i * PAGE_SIZE)" by (simp add: region_pages_def)
  with assms(5) have "markable cached ?S ms" unfolding R by (auto simp: markable_def)
  from mark_addresses_marked [OF _ assms(4) this] obtain ms' where ms': "mark_addresses cached pages ms = Some ms'" "marked cached ?S ms ms'"
    using page_addresses_distinct by (auto simp: pages_def)
  then have "byte_at ms' = byte_at ms" by (intro ext) (simp add: marked_def byte_at_def split: option.split)
  with run ms' assms(5) mark_addresses_marker [OF ms'(1) c] show ?thesis unfolding R by (auto simp: marked_def)
qed

theorem marking_transparent_witness:
  "\<exists>ms'. RasterizerMarkRegionCached 0x20000000 0x1000 False example_memory = Some ms' \<and> byte_at ms' 0 0x14000123 = 0x23
     \<and> attributes (page_tables ms' 0) 0x14000 = Memory \<and> \<not> IsCached 0x30000123 (cache_marker ms')"
proof -
  have pages: "region_pages 0x20000000 0x1000 = {0x14000, 0x30000}"
    using region_pages_eq [of "0x20000000" "0x1000"]
    by (simp add: page_addresses_def PAGE_SIZE_def PhysicalToVirtualAddressForRasterizer_def region_defs)
  have "linear_ok example_memory 0" by (auto simp: linear_ok_def example_memory_def example_table_def cacheable_def region_defs PAGE_SIZE_def split: if_splits)
  then have ok: "\<forall>pt \<in> set (page_table_list example_memory). good_table example_memory pt
      \<and> (\<forall>i \<in> region_pages 0x20000000 0x1000. attributes (page_tables example_memory pt) i \<in> {Unmapped, mark_source False})"
    using example_ok unfolding pages by (simp add: good_table_def example_memory_def example_table_def mark_source_def)
  have l: "page_table_list example_memory = [0]" "attributes (page_tables example_memory 0) 0x14000 = RasterizerCachedMemory"
    by (simp_all add: example_memory_def example_table_def)
  have h: "0 < (0x20000000 :: nat)" "0 < (0x1000 :: nat)" "0x20000000 + 0x1000 \<le> (2 ^ 32 :: nat)" "distinct (page_table_list example_memory)"
    by (simp_all add: l)
  obtain ms' where ms': "RasterizerMarkRegionCached 0x20000000 0x1000 False example_memory = Some ms'"
    "\<forall>pt a. locate ms' pt a = locate example_memory pt a \<and> byte_at ms' pt a = byte_at example_memory pt a"
    "\<forall>pt i. attributes (page_tables ms' pt) i
          = (if pt \<in> set (page_table_list example_memory) \<and> i \<in> region_pages 0x20000000 0x1000 \<and> attributes (page_tables example_memory pt) i \<noteq> Unmapped
             then mark_target False else attributes (page_tables example_memory pt) i)"
    "\<forall>a. IsCached a (cache_marker ms') = (if a div PAGE_SIZE \<in> region_pages 0x20000000 0x1000 then False else IsCached a (cache_marker example_memory))"
    using marking_transparent [OF h ok] by (elim exE conjE) (rule that)
  have "byte_at example_memory 0 0x14000123 = 0x23" by (simp add: byte_at_def example_locate)
  moreover have "attributes (page_tables ms' 0) 0x14000 = Memory" using ms'(3) l pages by (simp add: mark_target_def)
  moreover have "\<not> IsCached 0x30000123 (cache_marker ms')" using ms'(4) by (simp add: pages PAGE_SIZE_def)
  ultimately show ?thesis using ms'(1,2) by auto
qed

end
