(* ===== verification/VM_Range.thy ===== *)
theory VM_Range
  imports VM_Manager
begin

text \<open>
  The operations of \<^verbatim>\<open>VMManager\<close> on ranges of addresses: \<^verbatim>\<open>CarveVMARange\<close> cuts the areas at both ends of the range, then a
  loop changes one area after the other, each merged with its neighbours, which removes areas under the iterator. The theory
  shows that the loop ends and changes exactly the range.
\<close>

section \<open>Cutting\<close>

text \<open>
  Splitting an area of memory moves the reference to its memory on, which asserts that the memory reaches that far. Merged areas may
  lack this: their blocks only have to adjoin in the host.
\<close>

definition cut_ok :: "nat \<Rightarrow> VirtualMemoryArea \<Rightarrow> bool" where
  "cut_ok t v \<longleftrightarrow> (vma_type v = VMA_BackingMemory \<and> vma_base v < t \<and> t < vma_base v + vma_size v \<longrightarrow> t - vma_base v < GetSize (backing_memory v))"

definition cuttable :: "VMManager \<Rightarrow> nat \<Rightarrow> bool" where
  "cuttable vm t \<longleftrightarrow> (\<forall>v \<in> set (vma_map vm). cut_ok t v)"

lemma cut_ok_split: "cut_ok t v \<Longrightarrow> n < vma_size v \<Longrightarrow> cut_ok t (split_left n v) \<and> cut_ok t (split_right n v)"
  by (auto simp: cut_ok_def split_left_def split_right_def GetSize_def split: option.splits)

lemma area_wf_split:
  assumes "area_wf v" "n < vma_size v" "vma_base v + n = t" "t mod PAGE_SIZE = 0"
  shows "area_wf (split_left n v) \<and> area_wf (split_right n v)"
proof -
  have "n mod PAGE_SIZE = 0" using assms by (metis add_0 aligned_def area_wf_def mod_add_left_eq)
  with assms show ?thesis by (auto simp: area_wf_def aligned_def mod_0_imp_dvd dvd_diff_nat)
qed

text \<open>The list \<open>m\<close> is cut at \<open>t\<close> into \<open>xs\<close> and \<open>ys\<close>.\<close>

definition cut_of :: "nat \<Rightarrow> VirtualMemoryArea list \<Rightarrow> nat \<Rightarrow> nat \<Rightarrow> VirtualMemoryArea list \<Rightarrow> VirtualMemoryArea list \<Rightarrow> bool" where
  "cut_of b m e t xs ys \<longleftrightarrow> tiles b xs t \<and> tiles t ys e \<and> attr_at (xs @ ys) = attr_at m
     \<and> (canonical m \<longrightarrow> canonical xs \<and> canonical ys)
     \<and> (\<forall>P. (\<forall>v n. P v \<longrightarrow> n < vma_size v \<longrightarrow> vma_base v + n = t \<longrightarrow> P (split_left n v) \<and> P (split_right n v))
       \<longrightarrow> (\<forall>v \<in> set m. P v) \<longrightarrow> (\<forall>v \<in> set (xs @ ys). P v))"

lemma split_here:
  assumes body: "tiles 0 pre b" "tiles b body e" "e \<le> MAX_ADDRESS" "b \<le> t" "t < e" and ok: "\<forall>v \<in> set body. cut_ok t v"
    and vm: "vma_map vm = pre @ body @ post" "tiles e post MAX_ADDRESS"
  shows "\<exists>k xs ys. FindVMA vm t = Some (Some k) \<and> k \<le> t \<and> cut_of b body e t xs ys
    \<and> (if t \<noteq> k then SplitVMA k (sub32 t k) vm else Some (k, vm)) = Some (t, vm\<lparr>vma_map := pre @ (xs @ ys) @ post\<rparr>)"
proof -
  from tiles_cover [OF body(2,4,5)] obtain us v ws where v: "body = us @ v # ws" "covers v t" by blast
  have split: "area_split 0 MAX_ADDRESS (pre @ us) (ws @ post) v"
    using body vm by (auto simp: area_split_def v tiles_append)
  have m: "vma_map vm = (pre @ us) @ v # ws @ post" by (simp add: vm v)
  have parts: "tiles b us (vma_base v)" "tiles (vma_base v + vma_size v) ws e" using body(2) by (auto simp: v tiles_append)
  note found = area_split.found [OF split m v(2)]
  show ?thesis
  proof (cases "t = vma_base v")
    case True
    have "cut_of b body e t us (v # ws)"
      using body(2) parts(1) True by (auto simp: cut_of_def v tiles_append canonical_append)
    with found True show ?thesis by (intro exI [of _ "vma_base v"] exI [of _ us] exI [of _ "v # ws"]) (simp add: m)
  next
    case False
    let ?n = "t - vma_base v"
    have n: "0 < ?n" "?n < vma_size v" "vma_base v + ?n = t" using False v(2) by (auto simp: covers_def)
    have bk: "vma_type v = VMA_BackingMemory \<Longrightarrow> ?n < GetSize (backing_memory v)" using ok n by (auto simp: cut_ok_def v)
    have s: "sub32 t (vma_base v) = ?n" using v(2) area_split.ends [OF split] by (simp add: sub32_small covers_def)
    have "cut_of b body e t (us @ [split_left ?n v]) (split_right ?n v # ws)"
      unfolding cut_of_def
    proof (intro conjI impI allI)
      show "tiles b (us @ [split_left ?n v]) t" "tiles t (split_right ?n v # ws) e" using parts n by (auto simp: tiles_append add.commute)
      show "attr_at ((us @ [split_left ?n v]) @ split_right ?n v # ws) = attr_at body"
        using attr_at_splitI [OF less_imp_le [OF n(2)] bk, of us ws] by (simp add: v)
      show "canonical (us @ [split_left ?n v])" "canonical (split_right ?n v # ws)" if "canonical body"
        using that mergeable_split_right [OF less_imp_le [OF n(2)] bk] by (auto simp: v canonical_append canonical_Cons)
      show "\<forall>w \<in> set ((us @ [split_left ?n v]) @ split_right ?n v # ws). P w"
        if "\<forall>v n. P v \<longrightarrow> n < vma_size v \<longrightarrow> vma_base v + n = t \<longrightarrow> P (split_left n v) \<and> P (split_right n v)" "\<forall>v \<in> set body. P v" for P
        using that n(2,3) by (auto simp: v)
    qed
    with found False SplitVMA_eq [OF split m n(1,2) bk] n(3) v(2) s show ?thesis
      by (intro exI [of _ "vma_base v"] exI [of _ "us @ [split_left ?n v]"] exI [of _ "split_right ?n v # ws"]) (simp add: covers_def)
  qed
qed

text \<open>No address of the range is free.\<close>

definition mapped_range :: "VMManager \<Rightarrow> nat \<Rightarrow> nat \<Rightarrow> bool" where
  "mapped_range vm target sz \<longleftrightarrow> (\<forall>a \<in> {target..<target + sz}. map_option fst (attr_at (vma_map vm) a) \<noteq> Some VMA_Free)"

lemma tiles_sorted: "tiles a m e \<Longrightarrow> sorted (map vma_base m)"
  by (induction m arbitrary: a) (force dest: tiles_bounds)+

lemma before_lower_bound:
  assumes m: "tiles a m e" and v: "v \<in> set m" and j: "lower_bound m t = Some j"
  shows "vma_base v < j \<longleftrightarrow> vma_base v < t"
proof
  from j obtain i where i: "i < length m" "vma_base (m ! i) = j" "t \<le> j" "\<forall>k < i. vma_base (m ! k) < t"
    by (auto simp: lower_bound_def find_Some_iff not_le)
  show "vma_base v < j" if "vma_base v < t" using that i(3) by simp
  show "vma_base v < t" if l: "vma_base v < j"
  proof (rule ccontr)
    from v obtain k where k: "k < length m" "m ! k = v" by (auto simp: in_set_conv_nth)
    assume "\<not> vma_base v < t"
    then have "i \<le> k" using i(4) k(2) not_less by blast
    then have "vma_base (m ! i) \<le> vma_base (m ! k)" using sorted_nth_mono [OF tiles_sorted [OF m], of i k] k(1) i(1) by simp
    with l i(2) k(2) show False by simp
  qed
qed

lemma areas_of_range:
  assumes m: "tiles 0 (vma_map vm) MAX_ADDRESS" and k: "FindVMA vm target = Some (Some k)" and r: "0 < sz" "target + sz \<le> MAX_ADDRESS"
  shows "\<exists>vmas. map_range (vma_map vm) k (lower_bound (vma_map vm) (target + sz)) = Some vmas
    \<and> set vmas = {v \<in> set (vma_map vm). \<exists>a. covers v a \<and> target \<le> a \<and> a < target + sz}"
proof -
  let ?e = "target + sz"
  from tiles_cover [OF m, of target] r obtain us v ws where v: "vma_map vm = us @ v # ws" "covers v target" by auto
  have split: "area_split 0 MAX_ADDRESS us ws v" using m by (simp add: area_split_def v)
  have kv: "k = vma_base v" using area_split.found [OF split v] k by simp
  have mem: "w \<in> set (vma_map vm) \<Longrightarrow> vma_base v \<le> vma_base w \<and> vma_base w < ?e \<longleftrightarrow> (\<exists>a. covers w a \<and> target \<le> a \<and> a < ?e)" for w
  proof
    assume w: "w \<in> set (vma_map vm)" "vma_base v \<le> vma_base w \<and> vma_base w < ?e"
    have "covers w (max target (vma_base w))"
    proof (cases "w \<in> set ws")
      case True
      then have "target \<le> vma_base w" using tiles_bounds [OF area_split.parts(3) [OF split] True] v(2) by (simp add: covers_def)
      then show ?thesis using tiles_bounds [OF m w(1)] by (simp add: covers_def)
    next
      case False
      with w area_split.left [OF split, of w] have "w = v" by (auto simp: v)
      with v(2) show ?thesis by (simp add: covers_def)
    qed
    then show "\<exists>a. covers w a \<and> target \<le> a \<and> a < ?e" using w(2) r(1) by (intro exI [of _ "max target (vma_base w)"]) simp
  next
    assume w: "w \<in> set (vma_map vm)" "\<exists>a. covers w a \<and> target \<le> a \<and> a < ?e"
    show "vma_base v \<le> vma_base w \<and> vma_base w < ?e"
    proof (cases "w \<in> set us")
      case True
      then show ?thesis using w(2) tiles_bounds [OF area_split.parts(1) [OF split] True] v(2) by (auto simp: covers_def)
    next
      case False
      with w show ?thesis using area_split.right [OF split, of w] by (auto simp: v covers_def)
    qed
  qed
  show ?thesis
  proof (cases "lower_bound (vma_map vm) ?e")
    case None
    then have "\<forall>w \<in> set (vma_map vm). vma_base w < ?e" by (auto simp: lower_bound_def find_None_iff not_le)
    with None mem show ?thesis by (auto simp: map_range_def kv)
  next
    case (Some j)
    have "vma_base w < j \<longleftrightarrow> vma_base w < ?e" if "w \<in> set (vma_map vm)" for w by (rule before_lower_bound [OF m that Some])
    moreover from this [of v] v r have "\<not> j < vma_base v" by (simp add: covers_def)
    ultimately show ?thesis using mem Some by (auto simp: map_range_def kv)
  qed
qed

lemma free_in_range:
  assumes "tiles 0 (vma_map vm) MAX_ADDRESS" "set vmas = {v \<in> set (vma_map vm). \<exists>a. covers v a \<and> target \<le> a \<and> a < target + sz}"
    "target + sz \<le> MAX_ADDRESS"
  shows "list_ex (\<lambda>v. vma_type v = VMA_Free) vmas \<longleftrightarrow> \<not> mapped_range vm target sz"
proof -
  have cov: "attr_at (vma_map vm) a = Some (attr v a)" if "v \<in> set (vma_map vm)" "covers v a" for v a
    using split_list [OF that(1)] that(2) assms(1) attr_at_middle by metis
  show ?thesis
  proof
    assume "list_ex (\<lambda>v. vma_type v = VMA_Free) vmas"
    then obtain v a where "v \<in> set (vma_map vm)" "covers v a" "target \<le> a" "a < target + sz" "vma_type v = VMA_Free"
      using assms(2) by (auto simp: list_ex_iff)
    with cov [of v a] show "\<not> mapped_range vm target sz" by (auto simp: mapped_range_def attr_def intro!: bexI [of _ a])
  next
    assume "\<not> mapped_range vm target sz"
    then obtain a where a: "target \<le> a" "a < target + sz" "map_option fst (attr_at (vma_map vm) a) = Some VMA_Free" by (auto simp: mapped_range_def)
    from tiles_cover [OF assms(1), of a] a(2) assms(3) obtain us v ws where "vma_map vm = us @ v # ws" "covers v a" by auto
    then have v: "v \<in> set (vma_map vm)" "covers v a" by auto
    with cov [OF v] a(3) have "vma_type v = VMA_Free" by (simp add: attr_def)
    with v a(1,2) assms(2) show "list_ex (\<lambda>v. vma_type v = VMA_Free) vmas" by (auto simp: list_ex_iff)
  qed
qed

lemma CarveVMARange_fails:
  assumes "vm_inv vm" "target mod PAGE_SIZE = 0" "sz mod PAGE_SIZE = 0" "0 < sz" "target + sz \<le> MAX_ADDRESS" "\<not> mapped_range vm target sz"
  shows "CarveVMARange target sz vm = Some (ResultErr ERR_INVALID_ADDRESS_STATE, vm)"
proof -
  have t: "tiles 0 (vma_map vm) MAX_ADDRESS" using assms(1) by (simp add: vm_inv_def)
  from tiles_cover [OF t, of target] assms(4,5) obtain us v ws where v: "vma_map vm = us @ v # ws" "covers v target" by auto
  have "area_split 0 MAX_ADDRESS us ws v" using t v(1) by (simp add: area_split_def)
  note k = area_split.found [OF this v]
  from areas_of_range [OF t k assms(4,5)] obtain vmas where r: "map_range (vma_map vm) (vma_base v) (lower_bound (vma_map vm) (target + sz)) = Some vmas"
    "set vmas = {v \<in> set (vma_map vm). \<exists>a. covers v a \<and> target \<le> a \<and> a < target + sz}" by blast
  have "add32 target sz = target + sz" using assms(5) by (simp add: add32_def MAX_ADDRESS_def)
  with assms k r(1) free_in_range [OF t r(2) assms(5)] show ?thesis by (simp add: CarveVMARange_def)
qed

lemma tiles_covers_base: "tiles b m e \<Longrightarrow> v \<in> set m \<Longrightarrow> b \<le> vma_base v \<and> vma_base v < e \<and> covers v (vma_base v)"
  using tiles_bounds [of b m e v] by (simp add: covers_def)

text \<open>A range without free addresses is cut out.\<close>

lemma CarveVMARange_cuts:
  assumes inv: "vm_inv vm" "cuttable vm target" "cuttable vm (target + sz)"
    and args: "target mod PAGE_SIZE = 0" "sz mod PAGE_SIZE = 0" "0 < sz" "target + sz \<le> MAX_ADDRESS" and mapped: "mapped_range vm target sz"
  obtains xs zs ys where "CarveVMARange target sz vm = Some (MakeResult target, vm\<lparr>vma_map := xs @ zs @ ys\<rparr>)"
    "tiles 0 xs target" "tiles target zs (target + sz)" "tiles (target + sz) ys MAX_ADDRESS" "attr_at (xs @ zs @ ys) = attr_at (vma_map vm)"
    "canonical xs" "canonical ys" "\<forall>v \<in> set (xs @ zs @ ys). area_wf v" "\<forall>v \<in> set zs. vma_type v \<noteq> VMA_Free"
proof -
  let ?e = "target + sz" and ?m = "vma_map vm"
  have t: "tiles 0 ?m MAX_ADDRESS" and can: "canonical ?m" and wf: "\<forall>v \<in> set ?m. area_wf v" using inv(1) by (auto simp: vm_inv_def)
  have ae: "add32 target sz = ?e" using args(4) by (simp add: add32_def MAX_ADDRESS_def)
  have ea: "?e mod PAGE_SIZE = 0" using args(1,2) mod_add_eq [of target PAGE_SIZE sz] by simp
  from split_here [of "[]" 0 ?m MAX_ADDRESS target vm "[]"] t inv(2) args obtain k xs ys where
    k: "FindVMA vm target = Some (Some k)" and c: "cut_of 0 ?m MAX_ADDRESS target xs ys"
    and s1: "(if target \<noteq> k then SplitVMA k (sub32 target k) vm else Some (k, vm)) = Some (target, vm\<lparr>vma_map := xs @ ys\<rparr>)" by (auto simp: cuttable_def)
  note c' = c [unfolded cut_of_def]
  have both: "\<forall>v \<in> set (xs @ ys). area_wf v \<and> cut_ok ?e v"
    using c' [THEN conjunct2, THEN conjunct2, THEN conjunct2, THEN conjunct2, rule_format, of "\<lambda>v. area_wf v \<and> cut_ok ?e v"] wf inv(3) area_wf_split
      cut_ok_split args(1) by (auto simp: cuttable_def)
  let ?vm = "vm\<lparr>vma_map := xs @ ys\<rparr>"
  obtain zs ws it2 where d: "tiles target zs ?e" "tiles ?e ws MAX_ADDRESS" "attr_at (zs @ ws) = attr_at ys" "canonical ws" "\<forall>v \<in> set (zs @ ws). area_wf v"
    and s2: "FindVMA ?vm ?e = Some it2" "(case it2 of
            None \<Rightarrow> Some ?vm
          | Some end_vma \<Rightarrow> if ?e \<noteq> end_vma then map_option snd (SplitVMA end_vma (sub32 ?e end_vma) ?vm) else Some ?vm)
      = Some (vm\<lparr>vma_map := xs @ zs @ ws\<rparr>)"
  proof (cases "?e = MAX_ADDRESS")
    case True
    show ?thesis by (rule that [of ys "[]" None]) (use True c' both in \<open>simp_all add: FindVMA_def\<close>)
  next
    case False
    with args split_here [of xs target ys MAX_ADDRESS ?e ?vm "[]"] c' both obtain k2 zs ws where
      k2: "FindVMA ?vm ?e = Some (Some k2)" and c2: "cut_of target ys MAX_ADDRESS ?e zs ws"
      and s: "(if ?e \<noteq> k2 then SplitVMA k2 (sub32 ?e k2) ?vm else Some (k2, ?vm)) = Some (?e, ?vm\<lparr>vma_map := xs @ (zs @ ws) @ []\<rparr>)" by auto
    note c2' = c2 [unfolded cut_of_def]
    have b2: "\<forall>v \<in> set (zs @ ws). area_wf v"
      using c2' [THEN conjunct2, THEN conjunct2, THEN conjunct2, THEN conjunct2, rule_format, of area_wf] both area_wf_split ea by auto
    show ?thesis
      by (rule that [of zs ws "Some k2"]) (use c2' b2 c' can k2 s in \<open>auto split: if_splits\<close>)
  qed
  from areas_of_range [OF t k args(3,4)] obtain vmas where r: "map_range ?m k (lower_bound ?m ?e) = Some vmas"
    "set vmas = {v \<in> set ?m. \<exists>a. covers v a \<and> target \<le> a \<and> a < ?e}" by blast
  have nf: "\<not> list_ex (\<lambda>v. vma_type v = VMA_Free) vmas" using free_in_range [OF t r(2) args(4)] mapped by simp
  have run: "CarveVMARange target sz vm = Some (MakeResult target, vm\<lparr>vma_map := xs @ zs @ ws\<rparr>)"
    using args k r(1) nf s1 s2 by (simp add: CarveVMARange_def ae Let_def)
  have at: "attr_at (xs @ zs @ ws) = attr_at ?m"
    by (rule ext) (use d(3) c' in \<open>metis attr_at_append\<close>)
  have "vma_type v \<noteq> VMA_Free" if v: "v \<in> set zs" for v
  proof -
    from split_list [OF v] obtain p q where z: "zs = p @ v # q" by blast
    have "tiles 0 ((xs @ p) @ v # q @ ws) MAX_ADDRESS" using c' d(1,2) z by (auto simp: tiles_append)
    from attr_at_middle [OF this, of "vma_base v"] tiles_covers_base [OF d(1) v]
    have "attr_at ?m (vma_base v) = Some (attr v (vma_base v))" by (simp add: at [symmetric] z)
    with mapped tiles_covers_base [OF d(1) v] show ?thesis by (auto simp: mapped_range_def attr_def)
  qed
  then show thesis using run d at c' can both by (intro that [of xs zs ws]) auto
qed

section \<open>The loop over the areas of a range\<close>

lemma tiles_start: "tiles b q e \<Longrightarrow> tiles b' q e \<Longrightarrow> b = b'"
  by (cases q) auto

lemma tiles_before: "tiles a (p @ q) e \<Longrightarrow> tiles b q e \<Longrightarrow> tiles a p b"
  using tiles_start by (auto simp: tiles_append)

definition first_of :: "VirtualMemoryArea list \<Rightarrow> nat option" where
  "first_of m = (case m of [] \<Rightarrow> None | w # _ \<Rightarrow> Some (vma_base w))"

lemma merged_parts: "merged xs v ys = (v', xs', ys') \<longleftrightarrow> ys' = snd (merge_right v ys) \<and> xs' = fst (merge_left xs (fst (merge_right v ys)))
    \<and> v' = snd (merge_left xs (fst (merge_right v ys)))"
  by (auto simp: merged_def Let_def split: prod.splits)

text \<open>
  A change of one area, \<open>f\<close>, that keeps its place. When the changed area merges with the next one, the loop goes on behind both:
  the next one must not need the change any more.
\<close>

locale area_change =
  fixes f :: "VirtualMemoryArea \<Rightarrow> VirtualMemoryArea"
  assumes place: "vma_base (f v) = vma_base v" "vma_size (f v) = vma_size v"
    and absorbs: "mergeable (f v) w \<Longrightarrow> attr (f w) a = attr w a"
begin

definition apart :: "VirtualMemoryArea list \<Rightarrow> bool" where
  "apart zs \<longleftrightarrow> (\<forall>v \<in> set zs. \<forall>w \<in> set zs. \<not> mergeable (f v) w)"

lemma tiles_change: "tiles a (map f zs) e = tiles a zs e"
  by (induction zs arbitrary: a) (simp_all add: place)

lemma covers_change [simp]: "covers (f v) = covers v"
  by (rule ext) (simp add: covers_def place)

lemma step:
  assumes "tiles 0 (xs @ v # T) MAX_ADDRESS" "vma_map vm = xs @ v # T" "merged xs (f v) T = (v', xs', T')"
  shows "range_loop (\<lambda>k. set_area k f) e (first_of (v # T)) vm
    = (if vma_base v < e then range_loop (\<lambda>k. set_area k f) e (first_of T') \<lparr>vma_map = xs' @ v' # T', page_updates = page_updates vm @ [f v]\<rparr>
       else Some vm)"
proof -
  have s: "area_split 0 MAX_ADDRESS xs T v" using assms(1) by (simp add: area_split_def)
  have "area_split 0 MAX_ADDRESS xs' T' v'" by (rule area_split_merged [OF area_split_upd [OF s] assms(3)]) (simp_all add: place)
  from area_split.nxt [OF this] have n: "map_next (xs' @ v' # T') (vma_base v') = first_of T'" by (simp add: first_of_def)
  have "first_of (v # T) = Some (vma_base v)" by (simp add: first_of_def)
  then show ?thesis
    using set_area_merged [where f = f, OF s assms(2) place assms(3)] n by (simp add: range_loop.simps [of _ e "Some (vma_base v)"])
qed

lemma stop: "tiles b ys MAX_ADDRESS \<Longrightarrow> e \<le> b \<Longrightarrow> range_loop g e (first_of ys) vm = Some vm"
  by (cases ys) (auto simp: first_of_def range_loop.simps)

definition changed :: "(VirtualMemoryArea \<Rightarrow> bool) \<Rightarrow> VirtualMemoryArea list \<Rightarrow> VirtualMemoryArea list \<Rightarrow> VirtualMemoryArea list \<Rightarrow> VirtualMemoryArea list \<Rightarrow> VirtualMemoryArea list \<Rightarrow> bool" where
  "changed P xs zs ys m us \<longleftrightarrow> tiles 0 m MAX_ADDRESS \<and> attr_at m = attr_at (xs @ map f zs @ ys) \<and> set us \<subseteq> f ` set zs
     \<and> (apart zs \<longrightarrow> us = map f zs \<and> (canonical xs \<longrightarrow> canonical ys \<longrightarrow> canonical m))
     \<and> ((\<forall>w \<in> set (xs @ zs @ map f zs @ ys). P w) \<longrightarrow> (\<forall>w \<in> set m. P w))"

text \<open>An area and the one behind it that it absorbs look the same as both changed.\<close>

lemma attr_at_absorbed:
  assumes "mergeable (f v) w" "vma_base w = vma_base v + vma_size v"
  shows "attr_at (xs @ grow (f v) w # ys) = attr_at (xs @ f v # f w # ys)"
proof -
  have "attr_at [grow (f v) w] = attr_at [f v, w]" using assms by (intro attr_at_merge) (simp_all add: place)
  also have "\<dots> = attr_at [f v, f w]" using absorbs [OF assms(1)] by (intro ext) (simp add: attr_at_Cons)
  finally show ?thesis using attr_at_cong2 [of "grow (f v) w" "[f v, f w]" xs ys] by simp
qed

lemma changed_next:
  assumes r: "changed P (xs' @ [v']) zs1 ys m us" and at: "attr_at ((xs' @ [v']) @ map f zs1 @ ys) = attr_at (xs @ map f zs @ ys)"
    and sub: "set zs1 \<subseteq> set zs" "v \<in> set zs" and ap: "apart zs \<Longrightarrow> zs = v # zs1 \<and> (canonical xs \<longrightarrow> canonical (xs' @ [v']))"
    and fp: "\<forall>w \<in> set (xs @ f v # zs @ ys). P w \<Longrightarrow> \<forall>w \<in> set (xs' @ [v']). P w"
  shows "changed P xs zs ys m (f v # us)"
proof -
  note q = r [unfolded changed_def]
  note r1 = q [THEN conjunct1] and r2 = q [THEN conjunct2, THEN conjunct1] and r3 = q [THEN conjunct2, THEN conjunct2, THEN conjunct1]
    and r4 = q [THEN conjunct2, THEN conjunct2, THEN conjunct2, THEN conjunct1] and r5 = q [THEN conjunct2, THEN conjunct2, THEN conjunct2, THEN conjunct2]
  have a: "f v # us = map f zs \<and> (canonical xs \<longrightarrow> canonical ys \<longrightarrow> canonical m)" if "apart zs"
  proof -
    have "apart zs1" using that sub(1) unfolding apart_def by blast
    with ap [OF that] r4 show ?thesis by simp
  qed
  have b: "\<forall>w \<in> set m. P w" if f: "\<forall>w \<in> set (xs @ zs @ map f zs @ ys). P w"
  proof -
    have "\<forall>w \<in> set (xs @ f v # zs @ ys). P w" using f sub(2) by (simp add: ball_Un)
    from fp [OF this] have "\<forall>w \<in> set ((xs' @ [v']) @ zs1 @ map f zs1 @ ys). P w" using f sub(1) by auto
    with r5 show ?thesis by blast
  qed
  have "set (f v # us) \<subseteq> f ` set zs" using subset_trans [OF r3 image_mono [OF sub(1)]] sub(2) by simp
  with r1 r2 at a b show ?thesis unfolding changed_def by (intro conjI impI) simp_all
qed

lemma changed_last:
  assumes "tiles 0 m MAX_ADDRESS" "attr_at m = attr_at (xs @ map f zs @ ys)" "v \<in> set zs"
    and ap: "apart zs \<Longrightarrow> zs = [v] \<and> (canonical xs \<longrightarrow> canonical ys \<longrightarrow> canonical m)"
    and fp: "\<forall>w \<in> set (xs @ f v # zs @ ys). P w \<Longrightarrow> \<forall>w \<in> set m. P w"
  shows "changed P xs zs ys m [f v]"
proof -
  have "\<forall>w \<in> set m. P w" if "\<forall>w \<in> set (xs @ zs @ map f zs @ ys). P w" by (rule fp) (use that assms(3) in auto)
  moreover have "[f v] = map f zs \<and> (canonical xs \<longrightarrow> canonical ys \<longrightarrow> canonical m)" if "apart zs" using ap [OF that] by simp
  ultimately show ?thesis unfolding changed_def using assms(1-3) by simp
qed

lemma loop:
  "tiles 0 xs k \<Longrightarrow> tiles k zs e \<Longrightarrow> tiles e ys MAX_ADDRESS \<Longrightarrow> vma_map vm = xs @ zs @ ys \<Longrightarrow> zs \<noteq> []
   \<Longrightarrow> \<forall>u \<in> set zs. \<forall>a b. P a \<longrightarrow> P b \<longrightarrow> mergeable a b \<longrightarrow> vma_type a = vma_type (f u) \<longrightarrow> P (grow a b)
   \<Longrightarrow> \<exists>m us. range_loop (\<lambda>k. set_area k f) e (first_of (zs @ ys)) vm = Some \<lparr>vma_map = m, page_updates = page_updates vm @ us\<rparr> \<and> changed P xs zs ys m us"
proof (induction "length zs" arbitrary: zs xs k vm rule: less_induct)
  case less
  then obtain v zs0 where zs: "zs = v # zs0" by (cases zs) auto
  note t = less.prems(1-3) [unfolded zs]
  have ke: "vma_base v < e" using tiles_bounds [OF less.prems(2), of v] by (simp add: zs)
  obtain v' xs' T' where m: "merged xs (f v) (zs0 @ ys) = (v', xs', T')" by (cases "merged xs (f v) (zs0 @ ys)")
  let ?vm = "\<lparr>vma_map = xs' @ v' # T', page_updates = page_updates vm @ [f v]\<rparr>"
  have all: "tiles 0 (xs @ v # zs0 @ ys) MAX_ADDRESS" using t by (auto simp: tiles_append)
  then have s: "area_split 0 MAX_ADDRESS xs (zs0 @ ys) v" by (simp add: area_split_def)
  have s': "area_split 0 MAX_ADDRESS xs T (f v)" if "tiles (k + vma_size v) T MAX_ADDRESS" for T
    using t that by (auto simp: area_split_def tiles_append place)
  have sm: "area_split 0 MAX_ADDRESS xs' T' v'" by (rule area_split_merged [OF area_split_upd [OF s] m]) (simp_all add: place)
  have run: "range_loop (\<lambda>k. set_area k f) e (first_of (zs @ ys)) vm = range_loop (\<lambda>k. set_area k f) e (first_of T') ?vm"
    using step [OF all _ m] ke less.prems(4) by (simp add: zs)
  have fv: "\<forall>w \<in> set (xs @ f v # zs0 @ ys). P w \<Longrightarrow> \<forall>w \<in> set (xs' @ v' # T'). P w" by (rule merged_keeps [OF m]) (use less.prems(6) zs in auto)
  have fv': "\<forall>w \<in> set (xs' @ [v']). P w" if a: "\<forall>w \<in> set (xs @ f v # zs @ ys). P w"
  proof -
    have "\<forall>w \<in> set (xs @ f v # zs0 @ ys). P w" using a zs by simp
    from fv [OF this] show ?thesis by simp
  qed
  consider (last) "zs0 = []" | (go) w zs1 where "zs0 = w # zs1" "\<not> mergeable (f v) w" | (absorb) w zs1 where "zs0 = w # zs1" "mergeable (f v) w"
    by (cases zs0) auto
  then show ?case
  proof cases
    case last
    have T: "T' = snd (merge_right (f v) ys)" using m last by (simp add: merged_parts)
    obtain b where "e \<le> b" "tiles b T' MAX_ADDRESS"
      using t(3) that [of e] that [of "e + vma_size (hd ys)"] unfolding T
      by (cases ys; cases "mergeable (f v) (hd ys)") (simp_all add: merge_right_def)
    then have "range_loop (\<lambda>k. set_area k f) e (first_of T') ?vm = Some ?vm" by (intro stop)
    moreover have "changed P xs zs ys (xs' @ v' # T') [f v]"
    proof (rule changed_last)
      show "attr_at (xs' @ v' # T') = attr_at (xs @ map f zs @ ys)" using attr_at_merged [OF s' m] t(2,3) last zs by simp
      show "zs = [v] \<and> (canonical xs \<longrightarrow> canonical ys \<longrightarrow> canonical (xs' @ v' # T'))" using canonical_merged [OF _ _ m] last zs by simp
      show "\<forall>w \<in> set (xs' @ v' # T'). P w" if "\<forall>w \<in> set (xs @ f v # zs @ ys). P w" by (rule fv) (use that zs in simp)
    qed (use area_split.tiling [OF sm] zs in simp_all)
    ultimately show ?thesis unfolding run by (intro exI [of _ "xs' @ v' # T'"] exI [of _ "[f v]"]) simp
  next
    case go
    have p: "v' = snd (merge_left xs (f v))" "xs' = fst (merge_left xs (f v))" "T' = zs0 @ ys"
      using m go by (simp_all add: merged_parts merge_right_def)
    have "tiles (k + vma_size v) (zs0 @ ys) MAX_ADDRESS" using t(2,3) by (auto simp: tiles_append)
    then have k': "tiles 0 (xs' @ [v']) (k + vma_size v)" by (rule tiles_before [rotated]) (use area_split.tiling [OF sm] p(3) in simp)
    have "length zs0 < length zs" "tiles (k + vma_size v) zs0 e" "zs0 \<noteq> []" "vma_map ?vm = (xs' @ [v']) @ zs0 @ ys" using zs t(2) go p by simp_all
    from less.hyps [OF this(1) k' this(2) t(3) this(4,3)] less.prems(6) zs obtain m1 us where
      r: "range_loop (\<lambda>k. set_area k f) e (first_of (zs0 @ ys)) ?vm = Some \<lparr>vma_map = m1, page_updates = page_updates ?vm @ us\<rparr>"
      "changed P (xs' @ [v']) zs0 ys m1 us" by auto
    have at: "attr_at ((xs' @ [v']) @ map f zs0 @ ys) = attr_at (xs @ map f zs @ ys)"
      using attr_at_merge_left [OF s' [of "map f zs0 @ ys"]] t(2,3) p zs by (auto simp: tiles_append tiles_change)
    have can: "canonical (xs' @ [v'])" if "canonical xs"
      using canonical_merged [OF that _, of "[]" "f v" v' xs' "[]"] p by (simp add: merged_parts merge_right_def)
    have "changed P xs zs ys m1 (f v # us)"
    proof (rule changed_next [OF r(2) at])
      show "\<forall>w \<in> set (xs' @ [v']). P w" if "\<forall>w \<in> set (xs @ f v # zs @ ys). P w" using fv' that by blast
    qed (use zs can in auto)
    with r(1) show ?thesis unfolding run p(3) by (intro exI [of _ m1] exI [of _ "f v # us"]) simp
  next
    case absorb
    have p: "v' = snd (merge_left xs (grow (f v) w))" "xs' = fst (merge_left xs (grow (f v) w))" "T' = zs1 @ ys"
      using m absorb by (simp_all add: merged_parts merge_right_def)
    have w: "vma_base w = vma_base v + vma_size v" "vma_base v = k" using t(2) absorb by auto
    have na: "\<not> apart zs" using absorb zs by (auto simp: apart_def)
    let ?k = "k + vma_size v + vma_size w"
    have z1: "tiles ?k zs1 e" using t(2) absorb by simp
    have "tiles ?k (zs1 @ ys) MAX_ADDRESS" using z1 t(3) by (auto simp: tiles_append)
    then have k': "tiles 0 (xs' @ [v']) ?k" by (rule tiles_before [rotated]) (use area_split.tiling [OF sm] p(3) in simp)
    have sg: "area_split 0 MAX_ADDRESS xs (map f zs1 @ ys) (grow (f v) w)"
    proof -
      have "tiles ?k (map f zs1 @ ys) MAX_ADDRESS" using z1 t(3) by (auto simp: tiles_append tiles_change)
      moreover have "0 < vma_size v" using t(2) by simp
      ultimately show ?thesis using t(1) w(2) by (auto simp: area_split_def tiles_append place add.assoc)
    qed
    have at: "attr_at ((xs' @ [v']) @ map f zs1 @ ys) = attr_at (xs @ map f zs @ ys)"
      using attr_at_merge_left [OF sg] attr_at_absorbed [OF absorb(2) w(1), of xs "map f zs1 @ ys"] p zs absorb by simp
    show ?thesis
    proof (cases "zs1 = []")
      case True
      then have "range_loop (\<lambda>k. set_area k f) e (first_of T') ?vm = Some ?vm" using stop t(3) p(3) by simp
      moreover have "changed P xs zs ys (xs' @ v' # T') [f v]"
      proof (rule changed_last)
        show "\<forall>w \<in> set (xs' @ v' # T'). P w" if "\<forall>w \<in> set (xs @ f v # zs @ ys). P w" by (rule fv) (use that zs in simp)
      qed (use area_split.tiling [OF sm] at True p(3) na zs in simp_all)
      ultimately show ?thesis unfolding run by (intro exI [of _ "xs' @ v' # T'"] exI [of _ "[f v]"]) simp
    next
      case False
      have "length zs1 < length zs" "vma_map ?vm = (xs' @ [v']) @ zs1 @ ys" using zs absorb p by simp_all
      from less.hyps [OF this(1) k' z1 t(3) this(2) False] less.prems(6) zs absorb(1) obtain m1 us where
        r: "range_loop (\<lambda>k. set_area k f) e (first_of (zs1 @ ys)) ?vm = Some \<lparr>vma_map = m1, page_updates = page_updates ?vm @ us\<rparr>"
        "changed P (xs' @ [v']) zs1 ys m1 us" by auto
      have "changed P xs zs ys m1 (f v # us)"
      proof (rule changed_next [OF r(2) at])
        show "\<forall>w \<in> set (xs' @ [v']). P w" if "\<forall>w \<in> set (xs @ f v # zs @ ys). P w" using fv' that by blast
      qed (use zs absorb(1) na in auto)
      with r(1) show ?thesis unfolding run p(3) by (intro exI [of _ m1] exI [of _ "f v # us"]) simp
    qed
  qed
qed

end

section \<open>Unmapping, reprotecting, changing the state\<close>

definition unmapped :: "VirtualMemoryArea \<Rightarrow> VirtualMemoryArea" where
  "unmapped v = v\<lparr>vma_type := VMA_Free, permissions := Perm_None, meminfo_state := MS_Free, backing_memory := MemoryRef_null, paddr := 0\<rparr>"

interpretation unmap: area_change unmapped
  by unfold_locales (auto simp: unmapped_def mergeable_def attr_def)

interpretation reprotect: area_change "\<lambda>v. v\<lparr>permissions := p\<rparr>" for p
  by unfold_locales (auto simp: mergeable_def attr_def)

interpretation state_change: area_change "\<lambda>v. v\<lparr>permissions := p, meminfo_state := st\<rparr>" for p st
  by unfold_locales (auto simp: mergeable_def attr_def)

lemma Unmap_eq: "Unmap = (\<lambda>k. set_area k unmapped)"
  by (intro ext) (simp add: Unmap_def unmapped_def [abs_def])

lemma attr_at_three:
  assumes "tiles 0 xs t" "tiles t zs e" "tiles e ys MAX_ADDRESS"
  shows "attr_at (xs @ zs @ ys) a = (if t \<le> a \<and> a < e then attr_at zs a else attr_at (xs @ ys) a)"
  using attr_at_outside [OF assms(1), of a] attr_at_outside [OF assms(2), of a] attr_at_outside [OF assms(3), of a]
  by (auto simp: attr_at_append split: option.splits)

lemma attr_at_map:
  assumes "tiles t zs e" "\<And>v a. covers (g v) a = covers v a" "\<And>v. v \<in> set zs \<Longrightarrow> attr (g v) a = change (attr v a)"
  shows "attr_at (map g zs) a = map_option change (attr_at zs a)"
  using assms(3) by (induction zs) (simp_all add: attr_at_Cons assms(2))

text \<open>One loop over a range cut out.\<close>

lemma range_changed:
  assumes "area_change f" and carve: "tiles 0 xs t" "tiles t zs e" "tiles e ys MAX_ADDRESS" "t < e"
    and at: "attr_at (xs @ zs @ ys) = attr_at m0" and change: "\<And>v a. v \<in> set zs \<Longrightarrow> attr (f v) a = change (attr v a)"
    and P: "\<forall>u \<in> set zs. \<forall>a b. P a \<longrightarrow> P b \<longrightarrow> mergeable a b \<longrightarrow> vma_type a = vma_type (f u) \<longrightarrow> P (grow a b)"
      "\<forall>w \<in> set (xs @ zs @ map f zs @ ys). P w"
  shows "\<exists>m us. range_loop (\<lambda>k. set_area k f) e (Some t) (vm\<lparr>vma_map := xs @ zs @ ys\<rparr>) = Some \<lparr>vma_map = m, page_updates = page_updates vm @ us\<rparr>
    \<and> tiles 0 m MAX_ADDRESS \<and> (\<forall>a. attr_at m a = (if t \<le> a \<and> a < e then map_option change (attr_at m0 a) else attr_at m0 a))
    \<and> set us \<subseteq> f ` set zs \<and> (\<forall>w \<in> set m. P w)
    \<and> ((\<forall>v \<in> set zs. \<forall>w \<in> set zs. \<not> mergeable (f v) w) \<longrightarrow> us = map f zs \<and> (canonical xs \<longrightarrow> canonical ys \<longrightarrow> canonical m))"
proof -
  have ne: "zs \<noteq> []" using carve(2,4) by auto
  have first: "first_of (zs @ ys) = Some t" using carve(2) ne by (cases zs) (auto simp: first_of_def)
  have "vma_map (vm\<lparr>vma_map := xs @ zs @ ys\<rparr>) = xs @ zs @ ys" by simp
  from area_change.loop [OF assms(1) carve(1-3) this ne P(1), unfolded first] obtain m us where
    r: "range_loop (\<lambda>k. set_area k f) e (Some t) (vm\<lparr>vma_map := xs @ zs @ ys\<rparr>) = Some \<lparr>vma_map = m, page_updates = page_updates vm @ us\<rparr>"
      "area_change.changed f P xs zs ys m us" by auto
  note c = r(2) [unfolded area_change.changed_def [OF assms(1)] area_change.apart_def [OF assms(1)]]
  have am: "attr_at (map f zs) a = map_option change (attr_at zs a)" for a
    by (rule attr_at_map [OF carve(2)]) (simp_all add: area_change.covers_change [OF assms(1)] change)
  have "attr_at m a = (if t \<le> a \<and> a < e then map_option change (attr_at m0 a) else attr_at m0 a)" for a
  proof -
    have "tiles t (map f zs) e" using carve(2) area_change.tiles_change [OF assms(1)] by simp
    from attr_at_three [OF carve(1) this carve(3), of a] attr_at_three [OF carve(1-3), of a] c
    show ?thesis using am [of a] at by (auto simp: fun_eq_iff)
  qed
  with r(1) c P(2) show ?thesis by blast
qed

lemma vma_found:
  assumes "tiles 0 (vma_map vm) MAX_ADDRESS" "t < MAX_ADDRESS"
  obtains xs v ys where "vma_map vm = xs @ v # ys" "covers v t" "FindVMA vm t = Some (Some (vma_base v))" "map_at (vma_map vm) (vma_base v) = Some v"
proof -
  from tiles_cover [OF assms(1) _ assms(2)] obtain xs v ys where v: "vma_map vm = xs @ v # ys" "covers v t" by auto
  have s: "area_split 0 MAX_ADDRESS xs ys v" using assms(1) v(1) by (simp add: area_split_def)
  from that [OF v area_split.found [OF s v]] area_split.at [OF s] v(1) show thesis by simp
qed

text \<open>The whole of \<^verbatim>\<open>UnmapRange\<close>, with the areas it enters into the page table.\<close>

lemma UnmapRange_runs:
  assumes inv: "vm_inv vm" "cuttable vm target" "cuttable vm (target + sz)" and args: "target mod PAGE_SIZE = 0" "sz mod PAGE_SIZE = 0" "0 < sz" "target + sz \<le> MAX_ADDRESS"
    and mapped: "mapped_range vm target sz"
  shows "\<exists>vm' zs. UnmapRange target sz vm = Some (RESULT_SUCCESS, vm') \<and> vm_inv vm'
    \<and> page_updates vm' = page_updates vm @ map unmapped zs \<and> tiles target zs (target + sz) \<and> (\<forall>v \<in> set zs. aligned v)
    \<and> (\<forall>a. attr_at (vma_map vm') a = (if target \<le> a \<and> a < target + sz then Some (VMA_Free, Perm_None, MS_Free, 0, 0) else attr_at (vma_map vm) a))"
proof -
  obtain xs zs ys where c: "CarveVMARange target sz vm = Some (MakeResult target, vm\<lparr>vma_map := xs @ zs @ ys\<rparr>)"
    "tiles 0 xs target" "tiles target zs (target + sz)" "tiles (target + sz) ys MAX_ADDRESS" "attr_at (xs @ zs @ ys) = attr_at (vma_map vm)"
    "canonical xs" "canonical ys" "\<forall>v \<in> set (xs @ zs @ ys). area_wf v" "\<forall>v \<in> set zs. vma_type v \<noteq> VMA_Free"
    by (rule CarveVMARange_cuts [OF inv args mapped])
  have P: "\<forall>u \<in> set zs. \<forall>a b. area_wf a \<longrightarrow> area_wf b \<longrightarrow> mergeable a b \<longrightarrow> vma_type a = vma_type (unmapped u) \<longrightarrow> area_wf (grow a b)"
    by (simp add: area_wf_grow)
  have P2: "\<forall>w \<in> set (xs @ zs @ map unmapped zs @ ys). area_wf w" using c(8) by (auto simp: unmapped_def free_plain_def area_wf_def aligned_def)
  have ch: "attr (unmapped v) a = (\<lambda>_. (VMA_Free, Perm_None, MS_Free, 0, 0)) (attr v a)" for v a by (simp add: unmapped_def attr_def)
  have "target < target + sz" using args(3) by simp
  from range_changed [OF unmap.area_change_axioms c(2-4) this c(5) ch P P2, of vm] obtain m us where
    r: "range_loop (\<lambda>k. set_area k unmapped) (target + sz) (Some target) (vm\<lparr>vma_map := xs @ zs @ ys\<rparr>) = Some \<lparr>vma_map = m, page_updates = page_updates vm @ us\<rparr>"
      "tiles 0 m MAX_ADDRESS" "\<forall>w \<in> set m. area_wf w"
      "\<forall>a. attr_at m a = (if target \<le> a \<and> a < target + sz then map_option (\<lambda>_. (VMA_Free, Perm_None, MS_Free, 0, 0)) (attr_at (vma_map vm) a) else attr_at (vma_map vm) a)"
      "(\<forall>v \<in> set zs. \<forall>w \<in> set zs. \<not> mergeable (unmapped v) w) \<longrightarrow> us = map unmapped zs \<and> (canonical xs \<longrightarrow> canonical ys \<longrightarrow> canonical m)" by blast
  have "\<forall>v \<in> set zs. \<forall>w \<in> set zs. \<not> mergeable (unmapped v) w" using c(9) by (auto simp: mergeable_def unmapped_def)
  with r(5) c(6,7) have us: "us = map unmapped zs" "canonical m" by auto
  let ?vm = "\<lparr>vma_map = m, page_updates = page_updates vm @ us\<rparr>"
  have inv': "vm_inv ?vm" using r(2,3) us(2) by (simp add: vm_inv_def)
  have at: "attr_at m a = (if target \<le> a \<and> a < target + sz then Some (VMA_Free, Perm_None, MS_Free, 0, 0) else attr_at (vma_map vm) a)" for a
  proof (cases "target \<le> a \<and> a < target + sz")
    case True
    then have a: "a < MAX_ADDRESS" using args(4) by simp
    have "tiles 0 (vma_map vm) MAX_ADDRESS" using inv(1) by (simp add: vm_inv_def)
    then obtain p v q where "vma_map vm = p @ v # q" "covers v a" using a by (rule vma_found)
    then obtain x where "attr_at (vma_map vm) a = Some x" by (cases "attr_at p a") (simp_all add: attr_at_append attr_at_Cons)
    with True r(4) show ?thesis by auto
  qed (use r(4) in auto)
  obtain p v q where v: "m = p @ v # q" "covers v target" "FindVMA ?vm target = Some (Some (vma_base v))" "map_at m (vma_base v) = Some v"
    using vma_found [of ?vm target] r(2) args(3,4) by auto
  have "attr_at m target = Some (attr v target)" using attr_at_middle [of 0 p v q MAX_ADDRESS target] r(2) v(1,2) by simp
  then have "vma_type v = VMA_Free" using at [of target] args(3) by (simp add: attr_def)
  then have "target + sz \<le> vma_base v + vma_size v"
    using free_run [of 0 p v q MAX_ADDRESS target "target + sz"] inv' v(1,2) at by (simp add: vm_inv_def)
  then have size: "sz \<le> vma_size v" using v(2) by (simp add: covers_def)
  have ae: "add32 target sz = target + sz" using args(4) by (simp add: add32_def MAX_ADDRESS_def)
  have "UnmapRange target sz vm = Some (RESULT_SUCCESS, ?vm)"
    using c(1) r(1) v(3,4) size by (simp add: UnmapRange_def Unmap_eq ae)
  then show ?thesis using inv' r(3) us(1) c(3,8) at by (intro exI [of _ ?vm] exI [of _ zs]) (auto simp: area_wf_def)
qed


text \<open>An address space with three pages of memory, whose host blocks do not adjoin, between free areas.\<close>

definition three_pages :: VMManager where
  "three_pages = \<lparr>vma_map = [VirtualMemoryArea_init\<lparr>vma_size := 0x1000\<rparr>,
     VirtualMemoryArea_init\<lparr>vma_base := 0x1000, vma_size := 0x2000, vma_type := VMA_BackingMemory, permissions := Perm_ReadWrite,
       meminfo_state := MS_Private, backing_memory := \<lparr>backing_mem = Some (0x5000, 0x2000), mr_offset = 0\<rparr>\<rparr>,
     VirtualMemoryArea_init\<lparr>vma_base := 0x3000, vma_size := 0x1000, vma_type := VMA_BackingMemory, permissions := Perm_ReadWrite,
       meminfo_state := MS_Private, backing_memory := \<lparr>backing_mem = Some (0x9000, 0x1000), mr_offset = 0\<rparr>\<rparr>,
     VirtualMemoryArea_init\<lparr>vma_base := 0x4000, vma_size := MAX_ADDRESS - 0x4000\<rparr>], page_updates = []\<rparr>"

lemma three_pages_inv: "vm_inv three_pages" "cuttable three_pages 0x2000" "cuttable three_pages (0x2000 + 0x2000)"
  by (simp_all add: vm_inv_def three_pages_def VirtualMemoryArea_init_def MAX_ADDRESS_def mergeable_def area_wf_def aligned_def PAGE_SIZE_def
      free_plain_def GetPtr_def cuttable_def cut_ok_def GetSize_def)




text \<open>
  Changing the state of a range is refused, and changes nothing, unless every address of it has the expected state and permissions; then
  exactly the range gets the new state and permissions.
\<close>

definition as_expected :: "VMManager \<Rightarrow> nat \<Rightarrow> nat \<Rightarrow> MemoryState \<Rightarrow> VMAPermission \<Rightarrow> bool" where
  "as_expected vm target sz st p \<longleftrightarrow> (\<forall>a \<in> {target..<target + sz}. \<forall>x. attr_at (vma_map vm) a = Some x
     \<longrightarrow> fst (snd (snd x)) = st \<and> and (fst (snd x)) p = p)"

lemma unexpected_in_range:
  assumes "tiles 0 (vma_map vm) MAX_ADDRESS" "set vmas = {v \<in> set (vma_map vm). \<exists>a. covers v a \<and> target \<le> a \<and> a < target + sz}"
  shows "list_ex (\<lambda>v. meminfo_state v \<noteq> st \<or> and (permissions v) p \<noteq> p) vmas \<longleftrightarrow> \<not> as_expected vm target sz st p"
proof -
  have cov: "attr_at (vma_map vm) a = Some x \<longleftrightarrow> (\<exists>v \<in> set (vma_map vm). covers v a \<and> x = attr v a)" for a x
  proof
    assume "attr_at (vma_map vm) a = Some x"
    then obtain v where "find (\<lambda>v. covers v a) (vma_map vm) = Some v" "x = attr v a" by (auto simp: attr_at_def)
    moreover from this(1) have "v \<in> set (vma_map vm)" "covers v a" by (auto simp: find_Some_iff)
    ultimately show "\<exists>v \<in> set (vma_map vm). covers v a \<and> x = attr v a" by blast
  next
    assume "\<exists>v \<in> set (vma_map vm). covers v a \<and> x = attr v a"
    then obtain v us ws where "vma_map vm = us @ v # ws" "covers v a" "x = attr v a" using split_list by metis
    then show "attr_at (vma_map vm) a = Some x" using assms(1) attr_at_middle by metis
  qed
  have a: "fst (snd (snd (attr v a))) = meminfo_state v" "fst (snd (attr v a)) = permissions v" for v a by (simp_all add: attr_def)
  have "\<not> as_expected vm target sz st p \<longleftrightarrow> (\<exists>v \<in> set vmas. meminfo_state v \<noteq> st \<or> and (permissions v) p \<noteq> p)"
    unfolding as_expected_def cov assms(2) by (fastforce simp: a)
  then show ?thesis by (simp add: list_ex_iff)
qed

theorem ChangeMemoryState_spec:
  assumes "vm_inv vm" "cuttable vm target" "cuttable vm (target + sz)" "target mod PAGE_SIZE = 0" "sz mod PAGE_SIZE = 0" "0 < sz" "target + sz \<le> MAX_ADDRESS"
  shows "if as_expected vm target sz st p \<and> mapped_range vm target sz
    then \<exists>vm'. ChangeMemoryState target sz st p st' p' vm = Some (RESULT_SUCCESS, vm') \<and> tiles 0 (vma_map vm') MAX_ADDRESS
      \<and> (\<forall>a. attr_at (vma_map vm') a = (if target \<le> a \<and> a < target + sz
            then map_option (\<lambda>(type, _, _, rest). (type, p', st', rest)) (attr_at (vma_map vm) a) else attr_at (vma_map vm) a))
    else ChangeMemoryState target sz st p st' p' vm = Some (ERR_INVALID_ADDRESS_STATE, vm)"
proof -
  have t: "tiles 0 (vma_map vm) MAX_ADDRESS" using assms(1) by (simp add: vm_inv_def)
  have ae: "add32 target sz = target + sz" using assms(7) by (simp add: add32_def MAX_ADDRESS_def)
  have "target < MAX_ADDRESS" using assms(6,7) by simp
  with t obtain us v ws where "vma_map vm = us @ v # ws" "covers v target" and k: "FindVMA vm target = Some (Some (vma_base v))" by (rule vma_found)
  from areas_of_range [OF t k assms(6,7)] obtain vmas where vs: "map_range (vma_map vm) (vma_base v) (lower_bound (vma_map vm) (target + sz)) = Some vmas"
    "set vmas = {v \<in> set (vma_map vm). \<exists>a. covers v a \<and> target \<le> a \<and> a < target + sz}" by blast
  note ex = unexpected_in_range [OF t vs(2)]
  have err: "IsError ERR_INVALID_ADDRESS_STATE" by (simp add: ERR_INVALID_ADDRESS_STATE_def)
  show ?thesis
  proof (cases "as_expected vm target sz st p \<and> mapped_range vm target sz")
    case True
    obtain xs zs ys where c: "CarveVMARange target sz vm = Some (MakeResult target, vm\<lparr>vma_map := xs @ zs @ ys\<rparr>)"
      "tiles 0 xs target" "tiles target zs (target + sz)" "tiles (target + sz) ys MAX_ADDRESS" "attr_at (xs @ zs @ ys) = attr_at (vma_map vm)"
      by (rule CarveVMARange_cuts [OF assms conjunct2 [OF True]])
    have ch: "attr (v\<lparr>permissions := p', meminfo_state := st'\<rparr>) a = (\<lambda>(type, _, _, rest). (type, p', st', rest)) (attr v a)" for v a by (simp add: attr_def)
    have "target < target + sz" using assms(6) by simp
    from range_changed [OF state_change.area_change_axioms c(2-4) this c(5) ch, of "\<lambda>_. True" vm] obtain m us where
      r: "range_loop (\<lambda>k. set_area k (\<lambda>v. v\<lparr>permissions := p', meminfo_state := st'\<rparr>)) (target + sz) (Some target) (vm\<lparr>vma_map := xs @ zs @ ys\<rparr>)
          = Some \<lparr>vma_map = m, page_updates = page_updates vm @ us\<rparr>" "tiles 0 m MAX_ADDRESS"
        "\<forall>a. attr_at m a = (if target \<le> a \<and> a < target + sz then map_option (\<lambda>(type, _, _, rest). (type, p', st', rest)) (attr_at (vma_map vm) a) else attr_at (vma_map vm) a)"
      by auto
    have "ChangeMemoryState target sz st p st' p' vm = Some (RESULT_SUCCESS, \<lparr>vma_map = m, page_updates = page_updates vm @ us\<rparr>)"
      using c(1) r(1) True k vs(1) ex [of st p] by (simp add: ChangeMemoryState_def ae)
    with True r(2,3) show ?thesis by simp
  next
    case False
    show ?thesis
    proof (cases "as_expected vm target sz st p")
      case exp: True
      then have nm: "\<not> mapped_range vm target sz" using False by simp
      show ?thesis using nm CarveVMARange_fails [OF assms(1,4-7) nm] exp k vs(1) ex [of st p] err by (simp add: ChangeMemoryState_def ae)
    qed (use k vs(1) ex [of st p] in \<open>simp add: ChangeMemoryState_def ae\<close>)
  qed
qed

text \<open>
  The loop of \<^verbatim>\<open>ReprotectRange\<close> passes over an area the one before it has absorbed: when the range ends inside an area that already has
  the permissions, the two halves of that area stay apart.
\<close>

definition two_areas :: VMManager where
  "two_areas = \<lparr>vma_map = [VirtualMemoryArea_init\<lparr>vma_size := 0x1000\<rparr>,
     VirtualMemoryArea_init\<lparr>vma_base := 0x1000, vma_size := 0x1000, vma_type := VMA_BackingMemory, permissions := Perm_ReadWrite,
       meminfo_state := MS_Private, backing_memory := \<lparr>backing_mem = Some (0x5000, 0x3000), mr_offset = 0\<rparr>\<rparr>,
     VirtualMemoryArea_init\<lparr>vma_base := 0x2000, vma_size := 0x2000, vma_type := VMA_BackingMemory, permissions := Perm_Read,
       meminfo_state := MS_Private, backing_memory := \<lparr>backing_mem = Some (0x5000, 0x3000), mr_offset = 0x1000\<rparr>\<rparr>,
     VirtualMemoryArea_init\<lparr>vma_base := 0x4000, vma_size := MAX_ADDRESS - 0x4000\<rparr>], page_updates = []\<rparr>"

lemma ReprotectRange_leaves_mergeable:
  "vm_inv two_areas \<and> (\<exists>vm'. ReprotectRange 0x1000 0x2000 Perm_Read two_areas = Some (RESULT_SUCCESS, vm') \<and> \<not> canonical (vma_map vm'))"
proof
  show "vm_inv two_areas"
    by (simp add: vm_inv_def two_areas_def VirtualMemoryArea_init_def MAX_ADDRESS_def mergeable_def free_plain_def area_wf_def aligned_def PAGE_SIZE_def)
  note ops = ReprotectRange_def CarveVMARange_def FindVMA_def lower_bound_def map_range_def SplitVMA_def map_at_def map_upd_def map_emplace_def
    MemoryRef_add_def GetSize_def GetPtr_def CanBeMergedWith_def add32_def sub32_def MAX_ADDRESS_def PAGE_SIZE_def VirtualMemoryArea_init_def
    Reprotect_def set_area_def UpdatePageTableForVMA_def MergeAdjacent_def map_next_def map_prev_def map_erase_def mergeable_def
  show "\<exists>vm'. ReprotectRange 0x1000 0x2000 Perm_Read two_areas = Some (RESULT_SUCCESS, vm') \<and> \<not> canonical (vma_map vm')"
    by (simp add: two_areas_def ops range_loop.simps Let_def)
qed

section \<open>Mapping at the first free address\<close>

text \<open>
  \<^verbatim>\<open>MapBackingMemoryToBase\<close> looks for the first free area that ends behind the base; when it is large enough, the memory is mapped
  at the first free address of the region.
\<close>

lemma first_free_area:
  assumes inv: "vm_inv vm" and t: "base \<le> t" "mapped_range vm base (t - base)" "free_range vm t sz" "0 < sz"
  shows "\<exists>v. find (\<lambda>v. vma_type v = VMA_Free
      \<and> (let vma_end = add32 (vma_base v) (vma_size v) in vma_end > base \<and> vma_end \<ge> add32 base sz)) (vma_map vm) = Some v
    \<and> max base (vma_base v) = t \<and> t + sz \<le> MAX_ADDRESS"
proof -
  have "map_option fst (attr_at (vma_map vm) t) = Some VMA_Free" using t(3,4) by (simp add: free_range_def)
  then have "attr_at (vma_map vm) t \<noteq> None" by auto
  then have "t < MAX_ADDRESS" using attr_at_outside [of 0 "vma_map vm" MAX_ADDRESS t] inv unfolding vm_inv_def by linarith
  with inv obtain xs v ys where v: "vma_map vm = xs @ v # ys" "area_split 0 MAX_ADDRESS xs ys v" "covers v t"
    "\<forall>a. covers v a \<longrightarrow> attr_at (vma_map vm) a = Some (attr v a)" by (rule covering_area)
  have fr: "vma_type v = VMA_Free" "t + sz \<le> vma_base v + vma_size v" using free_range_area [OF inv v(1,3) t(4) v(4)] t(3) by auto
  have top: "t + sz \<le> MAX_ADDRESS" using fr(2) area_split.ends(1) [OF v(2)] by simp
  have clash: False if i: "covers w a" "w \<in> set (vma_map vm)" "vma_type w = VMA_Free" "base \<le> a" "a < t" for w a
  proof -
    obtain us ws where w: "vma_map vm = us @ w # ws" using split_list [OF i(2)] by blast
    have "attr_at (vma_map vm) a = Some (attr w a)" using attr_at_middle [of 0 us w ws MAX_ADDRESS a] inv i(1) by (simp add: w vm_inv_def)
    with i t(1,2) show False by (auto simp: mapped_range_def attr_def)
  qed
  have m: "max base (vma_base v) = t"
  proof (rule ccontr)
    assume "max base (vma_base v) \<noteq> t"
    then have "max base (vma_base v) < t" using t(1) v(3) unfolding covers_def by linarith
    moreover from this have "covers v (max base (vma_base v))" using v(3) by (auto simp: covers_def)
    ultimately show False using clash [of v "max base (vma_base v)"] fr(1) v(1) by simp
  qed
  let ?Q = "\<lambda>v. vma_type v = VMA_Free \<and> (let vma_end = add32 (vma_base v) (vma_size v) in vma_end > base \<and> vma_end \<ge> add32 base sz)"
  have "\<not> ?Q w" if "w \<in> set xs" for w
  proof
    assume q: "?Q w"
    have b: "0 < vma_size w" "vma_base w + vma_size w \<le> vma_base v" using tiles_bounds [OF area_split.parts(1) [OF v(2)] that] by auto
    then have e: "add32 (vma_base w) (vma_size w) = vma_base w + vma_size w" using area_split.ends(3) [OF v(2)] by (simp add: add32_small)
    have "covers w (max base (vma_base w))" "max base (vma_base w) < t" using q b v(3) unfolding Let_def e by (auto simp: covers_def)
    with clash [of w "max base (vma_base w)"] q that v(1) show False by auto
  qed
  then have "find ?Q xs = None" by (auto simp: find_None_iff)
  moreover have "?Q v" using fr t(1,4) top area_split.ends(2) [OF v(2)] by (simp add: Let_def add32_small MAX_ADDRESS_def)
  ultimately have "find ?Q (vma_map vm) = Some v" by (simp add: v(1) find_append_case)
  with m top show ?thesis by blast
qed

lemma MapBackingMemoryToBase_first:
  assumes "vm_inv vm" "base \<le> t" "mapped_range vm base (t - base)" "free_range vm t sz" "0 < sz" "t + sz \<le> base + region_size" "base + region_size < 2 ^ 32"
  shows "MapBackingMemoryToBase base region_size memory sz state vm = do {
    (r, vm) \<leftarrow> MapBackingMemory t memory sz state vm;
    Some (if Failed r then ResultErr (Code r) else MakeResult t, vm) }"
proof -
  from first_free_area [OF assms(1-5)] obtain v where v: "find (\<lambda>v. vma_type v = VMA_Free
      \<and> (let vma_end = add32 (vma_base v) (vma_size v) in vma_end > base \<and> vma_end \<ge> add32 base sz)) (vma_map vm) = Some v"
    "max base (vma_base v) = t" by blast
  have "add32 t sz = t + sz" "add32 base region_size = base + region_size" using assms(6,7) by (simp_all add: add32_small)
  with assms(6) show ?thesis unfolding MapBackingMemoryToBase_def by (subst v(1)) (simp add: v(2) Let_def)
qed

text \<open>
  The test compares the end of a free area with the end the block would have at the base of the region, not at the start of the
  area: a gap behind other blocks is chosen although the block does not fit into it, and the call fails with most of the region free.
\<close>

definition gap_example :: VMManager where
  "gap_example = \<lparr>vma_map = [VirtualMemoryArea_init\<lparr>vma_size := 0x1000\<rparr>,
     VirtualMemoryArea_init\<lparr>vma_base := 0x1000, vma_size := 0x1000, vma_type := VMA_BackingMemory, permissions := Perm_ReadWrite,
       meminfo_state := MS_Shared, backing_memory := \<lparr>backing_mem = Some (0x5000, 0x1000), mr_offset = 0\<rparr>\<rparr>,
     VirtualMemoryArea_init\<lparr>vma_base := 0x2000, vma_size := 0x1000\<rparr>,
     VirtualMemoryArea_init\<lparr>vma_base := 0x3000, vma_size := 0x1000, vma_type := VMA_BackingMemory, permissions := Perm_ReadWrite,
       meminfo_state := MS_Shared, backing_memory := \<lparr>backing_mem = Some (0x9000, 0x1000), mr_offset = 0\<rparr>\<rparr>,
     VirtualMemoryArea_init\<lparr>vma_base := 0x4000, vma_size := MAX_ADDRESS - 0x4000\<rparr>], page_updates = []\<rparr>"

lemma MapBackingMemoryToBase_misses_gap:
  "vm_inv gap_example \<and> free_range gap_example 0x4000 0x2000
   \<and> MapBackingMemoryToBase 0x1000 0x10000 \<lparr>backing_mem = Some (0xC000, 0x2000), mr_offset = 0\<rparr> 0x2000 MS_Shared gap_example
     = Some (ResultErr ERR_INVALID_ADDRESS_STATE, gap_example)"
proof (intro conjI)
  show "vm_inv gap_example"
    by (simp add: vm_inv_def gap_example_def VirtualMemoryArea_init_def MAX_ADDRESS_def mergeable_def free_plain_def area_wf_def aligned_def PAGE_SIZE_def GetPtr_def)
  show "free_range gap_example 0x4000 0x2000"
    by (auto simp: free_range_def gap_example_def attr_at_Cons VirtualMemoryArea_init_def covers_def attr_def MAX_ADDRESS_def)
  have "IsError ERR_INVALID_ADDRESS_STATE" by (simp add: ERR_INVALID_ADDRESS_STATE_def)
  then show "MapBackingMemoryToBase 0x1000 0x10000 \<lparr>backing_mem = Some (0xC000, 0x2000), mr_offset = 0\<rparr> 0x2000 MS_Shared gap_example
     = Some (ResultErr ERR_INVALID_ADDRESS_STATE, gap_example)"
    by (simp add: gap_example_def MapBackingMemoryToBase_def MapBackingMemory_def CarveVMA_def FindVMA_def map_at_def add32_def sub32_def MAX_ADDRESS_def
        PAGE_SIZE_def VirtualMemoryArea_init_def GetPtr_def Let_def)
qed

end
