(* ===== verification/Address_Space.thy ===== *)
theory Address_Space
  imports Memory_Cache VM_Range
begin

text \<open>
  The areas of an address space (\<open>VM_Manager\<close>) and its page table (\<open>Memory_System\<close>) together. Each change of an area calls
  \<^verbatim>\<open>UpdatePageTableForVMA\<close>; the theory shows that the page table then mirrors the areas again, so that the processor and the
  kernel reach exactly the memory the areas say.
\<close>

section \<open>Mapping pages\<close>

definition page_type :: "RasterizerCacheMarker \<Rightarrow> PageType \<Rightarrow> nat \<Rightarrow> PageType" where
  "page_type marker type i = (if type = Memory \<and> IsCached (i * PAGE_SIZE) marker then RasterizerCachedMemory else type)"

definition page_pointer :: "RasterizerCacheMarker \<Rightarrow> PageType \<Rightarrow> nat \<Rightarrow> MemoryRef \<Rightarrow> nat \<Rightarrow> nat" where
  "page_pointer marker type base memory i =
     (if page_type marker type i \<noteq> type \<or> GetPtr memory = 0 then 0 else GetPtr memory + (i - base) * PAGE_SIZE)"

lemma MemoryRef_add_page:
  assumes "GetPtr memory \<noteq> 0" "PAGE_SIZE < GetSize memory"
  obtains r where "MemoryRef_add memory PAGE_SIZE = Some r" "GetPtr r = GetPtr memory + PAGE_SIZE" "GetSize r = GetSize memory - PAGE_SIZE"
  using assms by (cases "backing_mem memory") (auto simp: MemoryRef_add_def GetPtr_def GetSize_def)

definition map_page :: "RasterizerCacheMarker \<Rightarrow> PageType \<Rightarrow> nat \<Rightarrow> MemoryRef \<Rightarrow> PageTable \<Rightarrow> PageTable" where
  "map_page marker type base memory pt =
     (let c = (type = Memory \<and> IsCached ((base * PAGE_SIZE) mod 2 ^ 32) marker)
      in pt\<lparr>attributes := (attributes pt)(base := if c then RasterizerCachedMemory else type),
           pointers := (pointers pt)(base := if c then MemoryRef_null else memory)\<rparr>)"

lemma map_pages_step:
  assumes base: "base < stop" "base < PAGE_TABLE_NUM_ENTRIES" and sz: "GetPtr memory = 0 \<or> (stop - base) * PAGE_SIZE \<le> GetSize memory"
  shows "\<exists>r. map_pages_loop marker type base stop memory pt = map_pages_loop marker type (base + 1) stop r (map_page marker type base memory pt)
    \<and> (GetPtr r = 0 \<longleftrightarrow> GetPtr memory = 0) \<and> (GetPtr memory \<noteq> 0 \<longrightarrow> base + 1 < stop \<longrightarrow> GetPtr r = GetPtr memory + PAGE_SIZE)
    \<and> (GetPtr memory = 0 \<or> (stop - (base + 1)) * PAGE_SIZE \<le> GetSize r)"
proof (cases "GetPtr memory \<noteq> 0 \<and> PAGE_SIZE < GetSize memory")
  case True
  then obtain r where a: "MemoryRef_add memory PAGE_SIZE = Some r" "GetPtr r = GetPtr memory + PAGE_SIZE"
    "GetSize r = GetSize memory - PAGE_SIZE" by (metis MemoryRef_add_page)
  have "(stop - (base + 1)) * PAGE_SIZE \<le> GetSize r" using sz True a(3) by (simp add: diff_mult_distrib)
  moreover have "map_pages_loop marker type base stop memory pt = map_pages_loop marker type (base + 1) stop r (map_page marker type base memory pt)"
    using True a(1) base by (simp add: map_pages_loop.simps [of marker type base stop memory pt] map_page_def Let_def)
  ultimately show ?thesis using True a(2) by auto
next
  case False
  have "map_pages_loop marker type base stop memory pt = map_pages_loop marker type (base + 1) stop memory (map_page marker type base memory pt)"
    using False base by (auto simp: map_pages_loop.simps [of marker type base stop memory pt] map_page_def Let_def)
  moreover have "stop = base + 1" if "GetPtr memory \<noteq> 0"
  proof (rule ccontr)
    assume "stop \<noteq> base + 1"
    then have "2 * PAGE_SIZE \<le> (stop - base) * PAGE_SIZE" using base(1) by (intro mult_le_mono1) simp
    with sz that False show False by (simp add: PAGE_SIZE_def)
  qed
  ultimately show ?thesis by (intro exI [of _ memory]) (cases "GetPtr memory = 0"; simp)
qed

lemma map_pages_loop_spec:
  "base \<le> stop \<Longrightarrow> stop \<le> PAGE_TABLE_NUM_ENTRIES \<Longrightarrow> GetPtr memory = 0 \<or> (stop - base) * PAGE_SIZE \<le> GetSize memory
    \<Longrightarrow> \<exists>t. map_pages_loop marker type base stop memory pt = Some t \<and> special_regions t = special_regions pt
      \<and> (\<forall>i. attributes t i = (if base \<le> i \<and> i < stop then page_type marker type i else attributes pt i))
      \<and> (\<forall>i. raw_pointer t i = (if base \<le> i \<and> i < stop then page_pointer marker type base memory i else raw_pointer pt i))"
proof (induction "stop - base" arbitrary: base memory pt)
  case 0
  then have "base = stop" by simp
  then show ?case by (subst map_pages_loop.simps) auto
next
  case (Suc n)
  define pt' where "pt' = map_page marker type base memory pt"
  have base: "base < stop" "base < PAGE_TABLE_NUM_ENTRIES" "n = stop - (base + 1)" using Suc.hyps(2) Suc.prems by auto
  have idx: "base * PAGE_SIZE mod 4294967296 = base * PAGE_SIZE" using base(2) by (simp add: PAGE_TABLE_NUM_ENTRIES_def PAGE_SIZE_def)
  from map_pages_step [OF base(1,2) Suc.prems(3), of marker type pt, folded pt'_def]
  obtain r where run: "map_pages_loop marker type base stop memory pt = map_pages_loop marker type (base + 1) stop r pt'"
    and r: "GetPtr r = 0 \<longleftrightarrow> GetPtr memory = 0" "GetPtr memory \<noteq> 0 \<longrightarrow> base + 1 < stop \<longrightarrow> GetPtr r = GetPtr memory + PAGE_SIZE"
      "GetPtr memory = 0 \<or> (stop - (base + 1)) * PAGE_SIZE \<le> GetSize r" by (elim exE conjE)
  have le: "base + 1 \<le> stop" and sz: "GetPtr r = 0 \<or> (stop - (base + 1)) * PAGE_SIZE \<le> GetSize r" using base(1) r(1,3) by auto
  from Suc.hyps(1) [OF base(3) le Suc.prems(2) sz, of pt'] obtain t where
    t: "map_pages_loop marker type (base + 1) stop r pt' = Some t" "special_regions t = special_regions pt'"
      "\<forall>i. attributes t i = (if base + 1 \<le> i \<and> i < stop then page_type marker type i else attributes pt' i)"
      "\<forall>i. raw_pointer t i = (if base + 1 \<le> i \<and> i < stop then page_pointer marker type (base + 1) r i else raw_pointer pt' i)"
    by (elim exE conjE)
  have pp: "page_pointer marker type (base + 1) r i = page_pointer marker type base memory i" if i: "base + 1 \<le> i" "i < stop" for i
  proof (cases "GetPtr memory = 0")
    case False
    obtain d where "i = base + 1 + d" using le_Suc_ex [OF i(1)] by blast
    with False r(1,2) i show ?thesis by (simp add: page_pointer_def)
  qed (use r(1) in \<open>simp add: page_pointer_def\<close>)
  have raw': "raw_pointer pt' i = (if i = base then page_pointer marker type base memory base else raw_pointer pt i)" for i
    by (auto simp: raw_pointer_def pt'_def map_page_def Let_def page_pointer_def page_type_def idx GetPtr_def MemoryRef_null_def)
  have attr': "attributes pt' i = (if i = base then page_type marker type base else attributes pt i)" for i
    by (simp add: pt'_def map_page_def Let_def page_type_def idx)
  have at: "attributes t i = (if base \<le> i \<and> i < stop then page_type marker type i else attributes pt i)" for i
    using t(3) [rule_format, of i] attr' [of i] base(1) by (cases "i = base") auto
  have rt: "raw_pointer t i = (if base \<le> i \<and> i < stop then page_pointer marker type base memory i else raw_pointer pt i)" for i
    using t(4) [rule_format, of i] raw' [of i] base(1) pp [of i] by (cases "i = base") auto
  have "special_regions t = special_regions pt" using t(2) by (simp add: pt'_def map_page_def Let_def)
  with at rt t(1) show ?case unfolding run by (intro exI [of _ t] conjI allI)
qed

section \<open>The page table mirrors the areas\<close>

text \<open>What the page table has to show at an address with the given attributes.\<close>

definition mirrors :: "'d MemorySystem \<Rightarrow> nat \<Rightarrow> VMAType \<times> VMAPermission \<times> MemoryState \<times> nat \<times> nat \<Rightarrow> nat \<Rightarrow> bool" where
  "mirrors ms pt = (\<lambda>(type, perms, state, ptr, pa) a.
     case type of
       VMA_Free \<Rightarrow> attributes (page_tables ms pt) (a div PAGE_SIZE) = Unmapped
     | VMA_BackingMemory \<Rightarrow> locate ms pt a = Some ptr
     | VMA_MMIO \<Rightarrow> attributes (page_tables ms pt) (a div PAGE_SIZE) = Special)"

definition mirror :: "'d MemorySystem \<Rightarrow> nat \<Rightarrow> VMManager \<Rightarrow> bool" where
  "mirror ms pt vm \<longleftrightarrow> (\<forall>a x. attr_at (vma_map vm) a = Some x \<longrightarrow> mirrors ms pt x a)"

lemma mirrorD: "mirror ms pt vm \<Longrightarrow> attr_at (vma_map vm) a = Some x \<Longrightarrow> mirrors ms pt x a"
  unfolding mirror_def by blast

text \<open>
  An area that can be entered into a page table: whole pages, and for memory enough of it; pages of it that the rasterizer
  cache holds show the console's memory at the same offset.
\<close>

definition area_ok :: "'d MemorySystem \<Rightarrow> VirtualMemoryArea \<Rightarrow> bool" where
  "area_ok ms v \<longleftrightarrow> vma_base v mod PAGE_SIZE = 0 \<and> vma_size v mod PAGE_SIZE = 0 \<and> vma_base v + vma_size v \<le> MAX_ADDRESS
     \<and> (vma_type v = VMA_BackingMemory \<longrightarrow> GetPtr (backing_memory v) \<noteq> 0 \<and> vma_size v \<le> GetSize (backing_memory v)
         \<and> (\<forall>a. covers v a \<longrightarrow> IsCached (a div PAGE_SIZE * PAGE_SIZE) (cache_marker ms)
               \<longrightarrow> map_option GetPtr (GetPointerForRasterizerCache a ms) = Some (GetPtr (backing_memory v) + (a - vma_base v))))"

text \<open>Nothing changes but the page table \<open>pt\<close> at the addresses in \<open>A\<close>.\<close>

definition same_outside :: "(nat \<Rightarrow> bool) \<Rightarrow> nat \<Rightarrow> 'd MemorySystem \<Rightarrow> 'd MemorySystem \<Rightarrow> bool" where
  "same_outside A pt ms ms' \<longleftrightarrow> host ms' = host ms \<and> cache_marker ms' = cache_marker ms \<and> fcram ms' = fcram ms \<and> vram ms' = vram ms
     \<and> (\<forall>q a. q \<noteq> pt \<or> \<not> A a \<longrightarrow> locate ms' q a = locate ms q a
           \<and> attributes (page_tables ms' q) (a div PAGE_SIZE) = attributes (page_tables ms q) (a div PAGE_SIZE)
           \<and> raw_pointer (page_tables ms' q) (a div PAGE_SIZE) = raw_pointer (page_tables ms q) (a div PAGE_SIZE))"

lemma page_covers:
  assumes "vma_base v mod PAGE_SIZE = 0" "vma_size v mod PAGE_SIZE = 0"
  shows "vma_base v div PAGE_SIZE \<le> a div PAGE_SIZE \<and> a div PAGE_SIZE < vma_base v div PAGE_SIZE + vma_size v div PAGE_SIZE \<longleftrightarrow> covers v a"
proof -
  obtain b n where bn: "vma_base v = PAGE_SIZE * b" "vma_size v = PAGE_SIZE * n" using assms by (auto elim!: dvdE)
  have "b \<le> a div PAGE_SIZE \<longleftrightarrow> b * PAGE_SIZE \<le> a" by (simp add: less_eq_div_iff_mult_less_eq PAGE_SIZE_def)
  moreover have "a div PAGE_SIZE < b + n \<longleftrightarrow> a < (b + n) * PAGE_SIZE" by (simp add: div_less_iff_less_mult PAGE_SIZE_def)
  ultimately show ?thesis by (simp add: covers_def bn PAGE_SIZE_def algebra_simps)
qed

lemma MapPages_spec:
  assumes quiet: "quiet_renderer out" and sz: "base + n \<le> PAGE_TABLE_NUM_ENTRIES" "GetPtr memory = 0 \<or> n * PAGE_SIZE \<le> GetSize memory"
  shows "\<exists>t. MapPages out pt base n memory type ms = Some (upd_page_table pt (\<lambda>_. t) ms)
    \<and> (\<forall>i. attributes t i = (if base \<le> i \<and> i < base + n then page_type (cache_marker ms) type i else attributes (page_tables ms pt) i))
    \<and> (\<forall>i. raw_pointer t i = (if base \<le> i \<and> i < base + n then page_pointer (cache_marker ms) type base memory i else raw_pointer (page_tables ms pt) i))"
proof -
  have "add32 base n = base + n" using sz(1) by (simp add: add32_def PAGE_TABLE_NUM_ENTRIES_def)
  with map_pages_loop_spec [of base "base + n" memory "cache_marker ms" type "page_tables ms pt"] sz quiet_renderer.quiet [OF quiet]
  show ?thesis unfolding MapPages_def by fastforce
qed

lemma locate_cong:
  assumes "attributes (page_tables ms' q) (a div PAGE_SIZE) = attributes (page_tables ms q) (a div PAGE_SIZE)"
    "raw_pointer (page_tables ms' q) (a div PAGE_SIZE) = raw_pointer (page_tables ms q) (a div PAGE_SIZE)" "fcram ms' = fcram ms" "vram ms' = vram ms"
  shows "locate ms' q a = locate ms q a"
  using assms by (simp add: locate_def GetPointerForRasterizerCache_def split: PageType.split)

lemma upd_page_table_simps [simp]:
  "host (upd_page_table pt f ms) = host ms" "cache_marker (upd_page_table pt f ms) = cache_marker ms"
  "fcram (upd_page_table pt f ms) = fcram ms" "vram (upd_page_table pt f ms) = vram ms"
  "page_tables (upd_page_table pt f ms) q = (if q = pt then f (page_tables ms pt) else page_tables ms q)"
  "GetPointerForRasterizerCache a (upd_page_table pt f ms) = GetPointerForRasterizerCache a ms"
  "upd_page_table pt g (upd_page_table pt f ms) = upd_page_table pt (\<lambda>t. g (f t)) ms"
  by (simp_all add: upd_page_table_def GetPointerForRasterizerCache_def)

text \<open>Entering an area with pages of one type: nothing changes outside, and each page of the area gets the type and its part of the memory.\<close>

definition entered :: "'d MemorySystem \<Rightarrow> VirtualMemoryArea \<Rightarrow> nat \<Rightarrow> PageType \<Rightarrow> MemoryRef \<Rightarrow> PageTable \<Rightarrow> bool" where
  "entered ms v pt type memory t \<longleftrightarrow>
     (\<forall>sr. same_outside (covers v) pt ms (upd_page_table pt (\<lambda>_. t\<lparr>special_regions := sr\<rparr>) ms))
     \<and> (\<forall>a. covers v a \<longrightarrow> attributes t (a div PAGE_SIZE) = page_type (cache_marker ms) type (a div PAGE_SIZE)
         \<and> raw_pointer t (a div PAGE_SIZE) = page_pointer (cache_marker ms) type (vma_base v div PAGE_SIZE) memory (a div PAGE_SIZE))"

lemma entered_same: "entered ms v pt type memory t \<Longrightarrow> same_outside (covers v) pt ms (upd_page_table pt (\<lambda>_. t) ms)"
  unfolding entered_def by (drule conjunct1, drule spec [of _ "special_regions t"]) simp

lemma MapPages_area:
  assumes quiet: "quiet_renderer out" and v: "area_ok ms v"
    and memory: "GetPtr memory = 0 \<or> vma_size v \<le> GetSize memory"
  shows "\<exists>t. MapPages out pt (vma_base v div PAGE_SIZE) (vma_size v div PAGE_SIZE) memory type ms = Some (upd_page_table pt (\<lambda>_. t) ms)
    \<and> entered ms v pt type memory t"
proof -
  let ?b = "vma_base v div PAGE_SIZE" and ?n = "vma_size v div PAGE_SIZE"
  have al: "vma_base v mod PAGE_SIZE = 0" "vma_size v mod PAGE_SIZE = 0" "vma_base v + vma_size v \<le> MAX_ADDRESS" using v by (simp_all add: area_ok_def)
  obtain b n where bn: "vma_base v = PAGE_SIZE * b" "vma_size v = PAGE_SIZE * n" using al by (auto elim!: dvdE)
  have sz: "?b + ?n \<le> PAGE_TABLE_NUM_ENTRIES" "GetPtr memory = 0 \<or> ?n * PAGE_SIZE \<le> GetSize memory"
    using al(3) memory bn by (auto simp: PAGE_TABLE_NUM_ENTRIES_def MAX_ADDRESS_def PAGE_SIZE_def mult.commute)
  from MapPages_spec [OF quiet sz, of pt type ms] obtain t where
    t: "MapPages out pt ?b ?n memory type ms = Some (upd_page_table pt (\<lambda>_. t) ms)"
      "\<forall>i. attributes t i = (if ?b \<le> i \<and> i < ?b + ?n then page_type (cache_marker ms) type i else attributes (page_tables ms pt) i)"
      "\<forall>i. raw_pointer t i = (if ?b \<le> i \<and> i < ?b + ?n then page_pointer (cache_marker ms) type ?b memory i else raw_pointer (page_tables ms pt) i)"
    by (elim exE conjE)
  note at = t(2) [rule_format, of "_ div PAGE_SIZE", unfolded page_covers [OF al(1,2)]]
  note rt = t(3) [rule_format, of "_ div PAGE_SIZE", unfolded page_covers [OF al(1,2)]]
  have "same_outside (covers v) pt ms (upd_page_table pt (\<lambda>_. t\<lparr>special_regions := sr\<rparr>) ms)" for sr
    unfolding same_outside_def using at rt by (auto intro!: locate_cong simp: raw_pointer_def)
  with t(1) at rt show ?thesis by (intro exI [of _ t]) (simp add: entered_def)
qed

lemma IsCached_cacheable: "IsCached a m \<Longrightarrow> cacheable a"
  by (auto simp: IsCached_def cacheable_def split: if_splits)

lemma allocated_upd_page_table [simp]: "allocated (upd_page_table pt f ms) = allocated ms"
  by (intro ext) (simp add: allocated_def)

lemma page_ok_upd_page_table [simp]: "page_ok (upd_page_table pt f ms) = page_ok ms"
  by (intro ext) (simp add: page_ok_def split: PageType.split)

lemma entered_mem_ok:
  assumes v: "area_ok ms v" and e: "entered ms v pt type memory t" and ok: "mem_ok ms pt"
    and m: "if type = Memory then allocated ms (GetPtr memory) (vma_size v) else type \<noteq> RasterizerCachedMemory \<and> GetPtr memory = 0"
  shows "mem_ok (upd_page_table pt (\<lambda>_. t\<lparr>special_regions := sr\<rparr>) ms) pt"
proof -
  let ?t = "t\<lparr>special_regions := sr\<rparr>"
  have "page_ok ms ?t i" for i
  proof (cases "covers v (i * PAGE_SIZE)")
    case True
    have i: "i * PAGE_SIZE div PAGE_SIZE = i" by (simp add: PAGE_SIZE_def)
    have t: "attributes t i = page_type (cache_marker ms) type i" "raw_pointer t i = page_pointer (cache_marker ms) type (vma_base v div PAGE_SIZE) memory i"
      using e True i unfolding entered_def by metis+
    obtain b n where bn: "vma_base v = PAGE_SIZE * b" "vma_size v = PAGE_SIZE * n" using v by (auto simp: area_ok_def elim!: dvdE)
    have "PAGE_SIZE * b \<le> i * PAGE_SIZE" "i * PAGE_SIZE < PAGE_SIZE * (b + n)" using True by (simp_all add: covers_def bn algebra_simps)
    then have "b \<le> i" "i < b + n" by (simp_all add: PAGE_SIZE_def)
    then have "(i - b) * PAGE_SIZE + PAGE_SIZE \<le> vma_size v" using mult_le_mono1 [of "i - b + 1" n PAGE_SIZE] by (simp add: bn algebra_simps)
    moreover have "vma_base v div PAGE_SIZE = b" by (simp add: bn PAGE_SIZE_def)
    ultimately show ?thesis using t m IsCached_cacheable
      by (auto simp: page_ok_def raw_pointer_def page_type_def page_pointer_def allocated_def split: if_splits PageType.splits)
  next
    case False
    have so: "same_outside (covers v) pt ms (upd_page_table pt (\<lambda>_. ?t) ms)" using e by (simp add: entered_def)
    from so [unfolded same_outside_def, THEN conjunct2, THEN conjunct2, THEN conjunct2, THEN conjunct2, rule_format, of pt "i * PAGE_SIZE"] False
    have "attributes ?t i = attributes (page_tables ms pt) i" "raw_pointer ?t i = raw_pointer (page_tables ms pt) i" by (simp_all add: PAGE_SIZE_def)
    then show ?thesis using mem_ok_page [OF ok, of i] by (simp add: page_ok_def split: PageType.splits)
  qed
  with ok show ?thesis by (simp add: mem_ok_def)
qed

definition memory_allocated :: "'d MemorySystem \<Rightarrow> VirtualMemoryArea \<Rightarrow> bool" where
  "memory_allocated ms v \<longleftrightarrow> (vma_type v = VMA_BackingMemory \<longrightarrow> allocated ms (GetPtr (backing_memory v)) (vma_size v))"

lemma apply_update_mirrors:
  assumes quiet: "quiet_renderer out" and v: "area_ok ms v"
  shows "\<exists>ms'. apply_update out pt v ms = Some ms' \<and> same_outside (covers v) pt ms ms' \<and> (\<forall>a. covers v a \<longrightarrow> mirrors ms' pt (attr v a) a)
    \<and> (mem_ok ms pt \<and> memory_allocated ms v \<longrightarrow> mem_ok ms' pt)"
proof -
  have al: "vma_base v mod PAGE_SIZE = 0" "vma_size v mod PAGE_SIZE = 0" using v by (simp_all add: area_ok_def)
  show ?thesis
  proof (cases "vma_type v")
    case VMA_Free
    from MapPages_area [OF quiet v, of MemoryRef_null pt Unmapped] obtain t where
      t: "MapPages out pt (vma_base v div PAGE_SIZE) (vma_size v div PAGE_SIZE) MemoryRef_null Unmapped ms = Some (upd_page_table pt (\<lambda>_. t) ms)"
        "entered ms v pt Unmapped MemoryRef_null t" by (auto simp: GetPtr_def MemoryRef_null_def)
    with entered_same [OF t(2)] entered_mem_ok [OF v t(2), of "special_regions t"] VMA_Free al show ?thesis
      by (simp add: apply_update_def UnmapRegion_def mirrors_def attr_def page_type_def entered_def GetPtr_def MemoryRef_null_def)
  next
    case VMA_MMIO
    from MapPages_area [OF quiet v, of MemoryRef_null pt Special] obtain t where
      t: "MapPages out pt (vma_base v div PAGE_SIZE) (vma_size v div PAGE_SIZE) MemoryRef_null Special ms = Some (upd_page_table pt (\<lambda>_. t) ms)"
        "entered ms v pt Special MemoryRef_null t" by (auto simp: GetPtr_def MemoryRef_null_def)
    with entered_mem_ok [OF v t(2)] VMA_MMIO al show ?thesis by (simp add: apply_update_def MapIoRegion_def mirrors_def attr_def page_type_def entered_def GetPtr_def MemoryRef_null_def)
  next
    case VMA_BackingMemory
    let ?m = "backing_memory v"
    have m: "GetPtr ?m \<noteq> 0" "vma_size v \<le> GetSize ?m" using v VMA_BackingMemory by (simp_all add: area_ok_def)
    from MapPages_area [OF quiet v, of ?m pt Memory] m obtain t where
      t: "MapPages out pt (vma_base v div PAGE_SIZE) (vma_size v div PAGE_SIZE) ?m Memory ms = Some (upd_page_table pt (\<lambda>_. t) ms)"
        "entered ms v pt Memory ?m t" by auto
    then have e: "attributes t (a div PAGE_SIZE) = page_type (cache_marker ms) Memory (a div PAGE_SIZE)"
      "raw_pointer t (a div PAGE_SIZE) = page_pointer (cache_marker ms) Memory (vma_base v div PAGE_SIZE) ?m (a div PAGE_SIZE)" if "covers v a" for a
      using that by (simp_all add: entered_def)
    have "locate (upd_page_table pt (\<lambda>_. t) ms) pt a = Some (GetPtr ?m + (a - vma_base v))" if a: "covers v a" for a
    proof (cases "IsCached (a div PAGE_SIZE * PAGE_SIZE) (cache_marker ms)")
      case True
      with a v VMA_BackingMemory e(1) show ?thesis by (simp add: locate_def page_type_def area_ok_def)
    next
      case False
      obtain b where b: "vma_base v = PAGE_SIZE * b" using al by (auto elim!: dvdE)
      have "PAGE_SIZE * b \<le> a" using a b by (simp add: covers_def)
      then obtain c where c: "a = PAGE_SIZE * b + c" by (metis le_Suc_ex)
      have "(a div PAGE_SIZE - b) * PAGE_SIZE + a mod PAGE_SIZE = a - vma_base v" unfolding b c by (simp add: PAGE_SIZE_def)
      with False m(1) e [OF a] show ?thesis by (simp add: locate_def page_type_def page_pointer_def b PAGE_SIZE_def)
    qed
    then show ?thesis using t(1) entered_same [OF t(2)] entered_mem_ok [OF v t(2), of "special_regions t"] VMA_BackingMemory al
      by (simp add: apply_update_def MapMemoryRegion_def mirrors_def attr_def memory_allocated_def)
  qed
qed

text \<open>The page table follows a change of one area.\<close>

lemma mirror_step:
  assumes quiet: "quiet_renderer out" and m: "mirror ms pt vm" and v: "area_ok ms v"
    and at: "attr_at (vma_map vm') = (\<lambda>a. if covers v a then Some (attr v a) else attr_at (vma_map vm) a)"
  shows "\<exists>ms'. apply_updates out pt [v] ms = Some ms' \<and> mirror ms' pt vm' \<and> same_outside (covers v) pt ms ms'
    \<and> (mem_ok ms pt \<and> memory_allocated ms v \<longrightarrow> mem_ok ms' pt)"
proof -
  from apply_update_mirrors [OF quiet v, of pt] obtain ms' where
    ms': "apply_update out pt v ms = Some ms'" "same_outside (covers v) pt ms ms'" "\<forall>a. covers v a \<longrightarrow> mirrors ms' pt (attr v a) a"
      "mem_ok ms pt \<and> memory_allocated ms v \<longrightarrow> mem_ok ms' pt" by blast
  have "mirrors ms' pt x a" if "attr_at (vma_map vm') a = Some x" for a x
  proof (cases "covers v a")
    case True
    with that at ms'(3) show ?thesis by auto
  next
    case False
    with that at have "attr_at (vma_map vm) a = Some x" by simp
    then have "mirrors ms pt x a" by (rule mirrorD [OF m])
    with False ms'(2) show ?thesis by (auto simp: same_outside_def mirrors_def split: VMAType.splits prod.splits)
  qed
  then have "mirror ms' pt vm'" by (simp add: mirror_def)
  with ms'(1,2,4) show ?thesis by simp
qed

section \<open>Ranges\<close>

lemma same_outside_refl: "same_outside A pt ms ms"
  by (simp add: same_outside_def)

lemma same_outside_trans:
  assumes "same_outside A pt ms ms'" "same_outside B pt ms' ms''" "\<And>a. A a \<or> B a \<Longrightarrow> C a"
  shows "same_outside C pt ms ms''"
proof -
  have "q \<noteq> pt \<or> \<not> A a" "q \<noteq> pt \<or> \<not> B a" if "q \<noteq> pt \<or> \<not> C a" for q a using that assms(3) by blast+
  with assms(1,2) show ?thesis unfolding same_outside_def by simp
qed

text \<open>An address space whose areas are well-formed and mirrored by a page table over allocated memory.\<close>

definition space_ok :: "'d MemorySystem \<Rightarrow> nat \<Rightarrow> VMManager \<Rightarrow> bool" where
  "space_ok ms pt vm \<longleftrightarrow> vm_inv vm \<and> mirror ms pt vm \<and> mem_ok ms pt"

lemma mirrors_same:
  "same_outside A pt ms ms' \<Longrightarrow> q \<noteq> pt \<or> \<not> A a \<Longrightarrow> mirrors ms q x a \<Longrightarrow> mirrors ms' q x a"
  by (auto simp: same_outside_def mirrors_def split: VMAType.splits prod.splits)

lemma space_ok_other:
  assumes "same_outside A pt ms ms'" "q \<noteq> pt" "space_ok ms q vm"
  shows "space_ok ms' q vm"
proof -
  have "attributes (page_tables ms' q) i = attributes (page_tables ms q) i \<and> raw_pointer (page_tables ms' q) i = raw_pointer (page_tables ms q) i" for i
    using assms(1,2) unfolding same_outside_def by (metis nonzero_mult_div_cancel_right PAGE_SIZE_def zero_neq_numeral)
  moreover have "allocated ms' = allocated ms" using assms(1) by (intro ext) (simp add: allocated_def same_outside_def)
  ultimately have "page_ok ms' (page_tables ms' q) i = page_ok ms (page_tables ms q) i" for i by (simp add: page_ok_def split: PageType.split)
  moreover have "fcram ms' = fcram ms" "vram ms' = vram ms" using assms(1) by (simp_all add: same_outside_def)
  ultimately have "mem_ok ms' q" using assms(3) \<open>allocated ms' = allocated ms\<close> by (simp add: mem_ok_def space_ok_def)
  moreover have "mirror ms' q vm" using assms mirrors_same [OF assms(1)] by (simp add: mirror_def space_ok_def)
  ultimately show ?thesis using assms(3) by (simp add: space_ok_def)
qed

lemma apply_unmaps:
  assumes quiet: "quiet_renderer out"
  shows "\<forall>u \<in> set us. vma_type u = VMA_Free \<and> aligned u \<and> vma_base u + vma_size u \<le> MAX_ADDRESS \<Longrightarrow> mem_ok ms pt
    \<Longrightarrow> \<exists>ms'. apply_updates out pt us ms = Some ms' \<and> same_outside (\<lambda>a. \<exists>u \<in> set us. covers u a) pt ms ms' \<and> mem_ok ms' pt
      \<and> (\<forall>a. (\<exists>u \<in> set us. covers u a) \<longrightarrow> attributes (page_tables ms' pt) (a div PAGE_SIZE) = Unmapped)"
proof (induction us arbitrary: ms)
  case Nil
  then show ?case by (simp add: same_outside_refl)
next
  case (Cons u us)
  have "area_ok ms u" using Cons.prems(1) by (simp add: area_ok_def aligned_def)
  from apply_update_mirrors [OF quiet this, of pt] obtain ms1 where
    u: "apply_update out pt u ms = Some ms1" "same_outside (covers u) pt ms ms1" "\<forall>a. covers u a \<longrightarrow> mirrors ms1 pt (attr u a) a"
      "mem_ok ms pt \<and> memory_allocated ms u \<longrightarrow> mem_ok ms1 pt" by blast
  have "mem_ok ms1 pt" using u(4) Cons.prems by (simp add: memory_allocated_def)
  with Cons.IH [of ms1] Cons.prems(1) obtain ms2 where
    r: "apply_updates out pt us ms1 = Some ms2" "same_outside (\<lambda>a. \<exists>u \<in> set us. covers u a) pt ms1 ms2" "mem_ok ms2 pt"
      "\<forall>a. (\<exists>u \<in> set us. covers u a) \<longrightarrow> attributes (page_tables ms2 pt) (a div PAGE_SIZE) = Unmapped" by auto
  have "attributes (page_tables ms2 pt) (a div PAGE_SIZE) = Unmapped" if "\<exists>w \<in> set (u # us). covers w a" for a
  proof (cases "\<exists>w \<in> set us. covers w a")
    case False
    with that have "covers u a" by auto
    with u(3) Cons.prems(1) have "attributes (page_tables ms1 pt) (a div PAGE_SIZE) = Unmapped" by (simp add: mirrors_def attr_def)
    with False r(2) show ?thesis by (simp add: same_outside_def)
  qed (use r(4) in blast)
  moreover have "same_outside (\<lambda>a. \<exists>u \<in> set (u # us). covers u a) pt ms ms2" by (rule same_outside_trans [OF u(2) r(2)]) auto
  ultimately show ?case using u(1) r(1,3) by simp
qed

lemma tiles_covered: "tiles b zs e \<Longrightarrow> (\<exists>v \<in> set zs. covers v a) \<longleftrightarrow> b \<le> a \<and> a < e"
  using tiles_cover [of b zs e a] tiles_bounds [of b zs e] by (fastforce simp: covers_def)

text \<open>The rasterizer cache holds pages of the range only where the memory shows the console's memory.\<close>

definition cache_agrees :: "'d MemorySystem \<Rightarrow> nat \<Rightarrow> MemoryRef \<Rightarrow> nat \<Rightarrow> bool" where
  "cache_agrees ms target memory sz \<longleftrightarrow> (\<forall>a. target \<le> a \<and> a < target + sz \<and> IsCached (a div PAGE_SIZE * PAGE_SIZE) (cache_marker ms)
     \<longrightarrow> map_option GetPtr (GetPointerForRasterizerCache a ms) = Some (GetPtr memory + (a - target)))"

lemma free_range_top:
  assumes "vm_inv vm" "free_range vm target sz" "0 < sz"
  shows "target + sz \<le> MAX_ADDRESS"
proof (rule ccontr)
  assume "\<not> target + sz \<le> MAX_ADDRESS"
  then have "attr_at (vma_map vm) (target + sz - 1) = None" using assms(1,3) by (intro attr_at_outside) (auto simp: vm_inv_def)
  with assms(2,3) show False by (auto simp: free_range_def dest!: bspec [of _ _ "target + sz - 1"])
qed

text \<open>Mapping memory, with the page table.\<close>

lemma map_mirrored:
  assumes quiet: "quiet_renderer out" and ok: "space_ok ms pt vm"
    and args: "target mod PAGE_SIZE = 0" "sz mod PAGE_SIZE = 0" "0 < sz" "free_range vm target sz"
    and memory: "allocated ms (GetPtr memory) sz" "sz \<le> GetSize memory" "cache_agrees ms target memory sz"
  shows "\<exists>h vm' us ms'. MapBackingMemory target memory sz state vm = Some (MakeResult h, vm') \<and> page_updates vm' = page_updates vm @ us
    \<and> apply_updates out pt us ms = Some ms' \<and> space_ok ms' pt vm' \<and> same_outside (\<lambda>a. target \<le> a \<and> a < target + sz) pt ms ms'
    \<and> (\<forall>a. attr_at (vma_map vm') a = (if target \<le> a \<and> a < target + sz
          then Some (VMA_BackingMemory, Perm_ReadWrite, state, GetPtr memory + (a - target), 0) else attr_at (vma_map vm) a))"
proof -
  let ?f = "\<lambda>v. v\<lparr>vma_type := VMA_BackingMemory, permissions := Perm_ReadWrite, meminfo_state := state, backing_memory := memory\<rparr>"
  have inv: "vm_inv vm" and mir: "mirror ms pt vm" and mem: "mem_ok ms pt" using ok by (simp_all add: space_ok_def)
  obtain vm1 v h vm2 where r: "CarveVMA target sz vm = Some (MakeResult target, vm1)"
    "map_at (vma_map vm1) target = Some v" "vma_base v = target" "vma_size v = sz"
    "set_area target ?f vm1 = Some (h, vm2)" "vm_inv vm2" "page_updates vm2 = page_updates vm @ [?f v]"
    "attr_at (vma_map vm2) = (\<lambda>a. if target \<le> a \<and> a < target + sz then Some (attr (?f v) a) else attr_at (vma_map vm) a)"
    by (rule carve_and_set [where f = ?f, OF inv args]) (simp_all add: free_plain_def)
  have run: "MapBackingMemory target memory sz state vm = Some (MakeResult h, vm2)" using r memory(1) by (simp add: MapBackingMemory_def allocated_def)
  have cov: "covers (?f v) = (\<lambda>a. target \<le> a \<and> a < target + sz)" by (rule ext) (simp add: covers_def r(3,4))
  have ok': "area_ok ms (?f v)"
    using free_range_top [OF inv args(4,3)] r(3,4) args(1,2) memory by (simp add: area_ok_def cache_agrees_def covers_def allocated_def)
  have "attr_at (vma_map vm2) = (\<lambda>a. if covers (?f v) a then Some (attr (?f v) a) else attr_at (vma_map vm) a)" by (simp add: r(8) cov)
  from mirror_step [OF quiet mir ok' this] obtain ms' where
    ms': "apply_updates out pt [?f v] ms = Some ms'" "mirror ms' pt vm2" "same_outside (covers (?f v)) pt ms ms'" "mem_ok ms pt \<and> memory_allocated ms (?f v) \<longrightarrow> mem_ok ms' pt" by blast
  have "mem_ok ms' pt" using ms'(4) mem memory(1) r(4) by (simp add: memory_allocated_def)
  with run r(6,7) ms'(1-3) show ?thesis by (intro exI conjI) (assumption | simp add: space_ok_def r(8) attr_def r(3) cov)+
qed

text \<open>Unmapping a range, with the page table.\<close>

lemma unmap_range_mirrored:
  assumes quiet: "quiet_renderer out" and ok: "space_ok ms pt vm" "cuttable vm target" "cuttable vm (target + sz)"
    and args: "target mod PAGE_SIZE = 0" "sz mod PAGE_SIZE = 0" "0 < sz" "target + sz \<le> MAX_ADDRESS" and mapped: "mapped_range vm target sz"
  shows "\<exists>vm' us ms'. UnmapRange target sz vm = Some (RESULT_SUCCESS, vm') \<and> page_updates vm' = page_updates vm @ us
    \<and> apply_updates out pt us ms = Some ms' \<and> space_ok ms' pt vm' \<and> same_outside (\<lambda>a. target \<le> a \<and> a < target + sz) pt ms ms'
    \<and> (\<forall>a. attr_at (vma_map vm') a = (if target \<le> a \<and> a < target + sz then Some (VMA_Free, Perm_None, MS_Free, 0, 0) else attr_at (vma_map vm) a))"
proof -
  have inv: "vm_inv vm" and mir: "mirror ms pt vm" and mem: "mem_ok ms pt" using ok(1) by (simp_all add: space_ok_def)
  from UnmapRange_runs [OF inv ok(2,3) args mapped] obtain vm' zs where
    r: "UnmapRange target sz vm = Some (RESULT_SUCCESS, vm')" "vm_inv vm'" "page_updates vm' = page_updates vm @ map unmapped zs"
      "tiles target zs (target + sz)" "\<forall>v \<in> set zs. aligned v"
      "\<forall>a. attr_at (vma_map vm') a = (if target \<le> a \<and> a < target + sz then Some (VMA_Free, Perm_None, MS_Free, 0, 0) else attr_at (vma_map vm) a)"
    by (elim exE conjE)
  have u: "\<forall>u \<in> set (map unmapped zs). vma_type u = VMA_Free \<and> aligned u \<and> vma_base u + vma_size u \<le> MAX_ADDRESS"
    using tiles_bounds [OF r(4)] r(5) args(4) by (fastforce simp: unmapped_def aligned_def)
  have cov: "(\<exists>u \<in> set (map unmapped zs). covers u a) \<longleftrightarrow> target \<le> a \<and> a < target + sz" for a
    using tiles_covered [OF r(4), of a] by (simp add: unmap.covers_change)
  from apply_unmaps [OF quiet u mem, unfolded cov] obtain ms' where
    m: "apply_updates out pt (map unmapped zs) ms = Some ms'" "same_outside (\<lambda>a. target \<le> a \<and> a < target + sz) pt ms ms'" "mem_ok ms' pt"
      "\<forall>a. target \<le> a \<and> a < target + sz \<longrightarrow> attributes (page_tables ms' pt) (a div PAGE_SIZE) = Unmapped" by blast
  have "mirrors ms' pt x a" if x: "attr_at (vma_map vm') a = Some x" for a x
  proof (cases "target \<le> a \<and> a < target + sz")
    case True
    then have "x = (VMA_Free, Perm_None, MS_Free, 0, 0)" using x r(6) by simp
    with True m(4) show ?thesis by (simp add: mirrors_def)
  next
    case False
    with x r(6) have "attr_at (vma_map vm) a = Some x" by auto
    with False mirrors_same [OF m(2)] mirrorD [OF mir] show ?thesis by blast
  qed
  then have "space_ok ms' pt vm'" using r(2) m(3) by (simp add: space_ok_def mirror_def)
  with r(1,3,6) m(1,2) show ?thesis by blast
qed

section \<open>Properties\<close>

text \<open>
  C30: Mapping memory into an address space whose page table mirrors its areas: the calls to update the page table return, the
  page table mirrors the areas again, a block read from the range gives the bytes of the memory mapped there, and outside the
  range and in other address spaces no address moves.
\<close>

theorem mapping_reaches_page_table:
  assumes "renderer out = None \<or> renderer out = Some SWRasterizer_flush"
    and "vm_inv vm" "mirror ms pt vm" "target mod PAGE_SIZE = 0" "sz mod PAGE_SIZE = 0" "0 < sz" "free_range vm target sz"
    and "mem_ok ms pt" "allocated ms (GetPtr memory) sz" "sz \<le> GetSize memory" "cache_agrees ms target memory sz"
  shows "\<exists>h vm' us ms'. MapBackingMemory target memory sz state vm = Some (MakeResult h, vm') \<and> page_updates vm' = page_updates vm @ us
    \<and> apply_updates out pt us ms = Some ms' \<and> vm_inv vm' \<and> mirror ms' pt vm' \<and> mem_ok ms' pt
    \<and> (\<forall>i < sz. locate ms' pt (target + i) = Some (GetPtr memory + i))
    \<and> (\<forall>q a. q \<noteq> pt \<or> \<not> (target \<le> a \<and> a < target + sz) \<longrightarrow> locate ms' q a = locate ms q a)
    \<and> ReadBlock out pt target sz ms' = Some (map (\<lambda>i. the (host ms (GetPtr memory + i))) [0 ..< sz], ms')"
proof -
  note quiet = quiet_out [OF assms(1)]
  have ok: "space_ok ms pt vm" using assms(2,3,8) by (simp add: space_ok_def)
  from map_mirrored [OF quiet ok assms(4-7,9-11), of state] obtain h vm' us ms' where
    r: "MapBackingMemory target memory sz state vm = Some (MakeResult h, vm')" "page_updates vm' = page_updates vm @ us" "apply_updates out pt us ms = Some ms'"
      "space_ok ms' pt vm'" "same_outside (\<lambda>a. target \<le> a \<and> a < target + sz) pt ms ms'"
      "\<forall>a. attr_at (vma_map vm') a = (if target \<le> a \<and> a < target + sz
          then Some (VMA_BackingMemory, Perm_ReadWrite, state, GetPtr memory + (a - target), 0) else attr_at (vma_map vm) a)" by (elim exE conjE)
  have ok': "vm_inv vm'" "mirror ms' pt vm'" "mem_ok ms' pt" using r(4) by (simp_all add: space_ok_def)
  have loc: "locate ms' pt (target + i) = Some (GetPtr memory + i)" if "i < sz" for i
    using mirrorD [OF ok'(2), of "target + i"] r(6) that by (simp add: mirrors_def)
  have "target + sz \<le> 2 ^ 32" using free_range_top [OF assms(2,7,6)] by (simp add: MAX_ADDRESS_def)
  moreover have "no_device ms' pt target sz" using loc by (fastforce simp: no_device_def locate_def split: PageType.splits)
  moreover have "map (byte_at ms' pt) [target ..< target + sz] = map (\<lambda>i. the (host ms (GetPtr memory + i))) [0 ..< sz]"
    by (rule nth_equalityI) (use loc r(5) in \<open>simp_all add: byte_at_def same_outside_def\<close>)
  ultimately have "ReadBlock out pt target sz ms' = Some (map (\<lambda>i. the (host ms (GetPtr memory + i))) [0 ..< sz], ms')"
    using quiet_renderer.read_bytes [OF quiet ok'(3)] by simp
  with r(1-3,5) ok' loc show ?thesis by (auto simp: same_outside_def)
qed

text \<open>An address space right after its creation, with an empty page table.\<close>

definition fresh_memory :: "unit MemorySystem" where
  "fresh_memory = example_memory\<lparr>page_tables := (\<lambda>_. \<lparr>pointers = (\<lambda>_. MemoryRef_null), special_regions = [], attributes = (\<lambda>_. Unmapped)\<rparr>)\<rparr>"

lemma fresh_simps [simp]: "host fresh_memory = (\<lambda>a. Some (of_nat a))" "cache_marker fresh_memory = cache_marker example_memory"
  by (simp_all add: fresh_memory_def)

lemma fresh_ok: "mem_ok fresh_memory pt"
  by (simp add: mem_ok_def page_ok_def allocated_def fresh_memory_def example_memory_def raw_pointer_def GetPtr_def MemoryRef_null_def)

lemma fresh_mirror: "mirror fresh_memory pt VM_Reset"
  by (auto simp: mirror_def mirrors_def reset_map attr_at_Cons VirtualMemoryArea_init_def attr_def fresh_memory_def split: if_splits)

theorem mapping_reaches_page_table_witness:
  "\<exists>h vm' us ms'. MapBackingMemory 0x100000 \<lparr>backing_mem = Some (0x5001, 0x2000), mr_offset = 0\<rparr> 0x2000 MS_Private VM_Reset = Some (MakeResult h, vm')
     \<and> page_updates vm' = page_updates VM_Reset @ us \<and> apply_updates example_outside 0 us fresh_memory = Some ms'
     \<and> mirror ms' 0 vm' \<and> locate ms' 0 0x101004 = Some 0x6005"
proof -
  let ?m = "\<lparr>backing_mem = Some (0x5001, 0x2000), mr_offset = 0\<rparr>"
  have c: "cache_agrees fresh_memory 0x100000 ?m 0x2000"
    unfolding cache_agrees_def
  proof (intro allI impI, elim conjE)
    fix a :: nat assume "0x100000 \<le> a" "a < 0x100000 + 0x2000" and i: "IsCached (a div PAGE_SIZE * PAGE_SIZE) (cache_marker fresh_memory)"
    then have "a div PAGE_SIZE * PAGE_SIZE \<le> 0x102000" by (simp add: PAGE_SIZE_def)
    with IsCached_cacheable [OF i] show "map_option GetPtr (GetPointerForRasterizerCache a fresh_memory) = Some (GetPtr ?m + (a - 0x100000))"
      by (auto simp: cacheable_def region_defs)
  qed
  obtain h vm' us ms' where w: "MapBackingMemory 0x100000 ?m 0x2000 MS_Private VM_Reset = Some (MakeResult h, vm')"
    "page_updates vm' = page_updates VM_Reset @ us" "apply_updates example_outside 0 us fresh_memory = Some ms'" "mirror ms' 0 vm'"
    "\<forall>i < 0x2000. locate ms' 0 (0x100000 + i) = Some (GetPtr ?m + i)"
    using mapping_reaches_page_table [where out = example_outside and vm = VM_Reset and ms = fresh_memory and pt = 0 and target = "0x100000" and sz = "0x2000"
        and memory = ?m and state = MS_Private, OF _ vm_inv_Reset fresh_mirror _ _ _ _ fresh_ok _ _ c]
    by (auto simp: PAGE_SIZE_def free_range_Reset MAX_ADDRESS_def allocated_def GetPtr_def GetSize_def)
  from w(5) [rule_format, of "0x1004"] have "locate ms' 0 0x101004 = Some 0x6005" by (simp add: GetPtr_def)
  with w(1-4) show ?thesis by blast
qed

text \<open>
  C31: Unmapping a range of an address space whose page table mirrors its areas: the page table follows area by area, afterwards none of
  the addresses is reachable and a read there gives zeros, and outside the range and in other address spaces no address moves.
\<close>

theorem unmapping_reaches_page_table:
  assumes "renderer out = None \<or> renderer out = Some SWRasterizer_flush"
    and "vm_inv vm" "mirror ms pt vm" "mem_ok ms pt" "cuttable vm target" "cuttable vm (target + sz)"
    and "target mod PAGE_SIZE = 0" "sz mod PAGE_SIZE = 0" "0 < sz" "target + sz \<le> MAX_ADDRESS" "mapped_range vm target sz"
  shows "\<exists>vm' us ms'. UnmapRange target sz vm = Some (RESULT_SUCCESS, vm') \<and> page_updates vm' = page_updates vm @ us \<and> apply_updates out pt us ms = Some ms'
    \<and> vm_inv vm' \<and> mirror ms' pt vm' \<and> mem_ok ms' pt
    \<and> (\<forall>i < sz. locate ms' pt (target + i) = None)
    \<and> (\<forall>q a. q \<noteq> pt \<or> \<not> (target \<le> a \<and> a < target + sz) \<longrightarrow> locate ms' q a = locate ms q a)
    \<and> ReadBlock out pt target sz ms' = Some (replicate sz 0, ms')"
proof -
  note quiet = quiet_out [OF assms(1)]
  have ok: "space_ok ms pt vm" using assms(2-4) by (simp add: space_ok_def)
  from unmap_range_mirrored [OF quiet ok assms(5-11)] obtain vm' us ms' where
    r: "UnmapRange target sz vm = Some (RESULT_SUCCESS, vm')" "page_updates vm' = page_updates vm @ us" "apply_updates out pt us ms = Some ms'"
      "space_ok ms' pt vm'" "same_outside (\<lambda>a. target \<le> a \<and> a < target + sz) pt ms ms'"
      "\<forall>a. attr_at (vma_map vm') a = (if target \<le> a \<and> a < target + sz then Some (VMA_Free, Perm_None, MS_Free, 0, 0) else attr_at (vma_map vm) a)"
    by (elim exE conjE)
  have ok': "vm_inv vm'" "mirror ms' pt vm'" "mem_ok ms' pt" using r(4) by (simp_all add: space_ok_def)
  have gone: "attributes (page_tables ms' pt) ((target + i) div PAGE_SIZE) = Unmapped" if "i < sz" for i
    using mirrorD [OF ok'(2), of "target + i"] r(6) that by (simp add: mirrors_def)
  then have none: "locate ms' pt (target + i) = None" if "i < sz" for i using that by (simp add: locate_def)
  have "no_device ms' pt target sz" using gone by (simp add: no_device_def)
  moreover have "map (byte_at ms' pt) [target ..< target + sz] = replicate sz 0"
    by (rule nth_equalityI) (use none in \<open>simp_all add: byte_at_def\<close>)
  ultimately have "ReadBlock out pt target sz ms' = Some (replicate sz 0, ms')"
    using quiet_renderer.read_bytes [OF quiet ok'(3)] assms(10) by (simp add: MAX_ADDRESS_def)
  with r(1-3,5) ok' none show ?thesis by (auto simp: same_outside_def)
qed

text \<open>The page table of \<open>three_pages\<close>.\<close>

definition three_pages_memory :: "unit MemorySystem" where
  "three_pages_memory = example_memory\<lparr>page_tables := (\<lambda>_. \<lparr>pointers = (\<lambda>_. MemoryRef_null)(1 := \<lparr>backing_mem = Some (0x5000, 0x2000), mr_offset = 0\<rparr>,
       2 := \<lparr>backing_mem = Some (0x5000, 0x2000), mr_offset = 0x1000\<rparr>, 3 := \<lparr>backing_mem = Some (0x9000, 0x1000), mr_offset = 0\<rparr>),
     special_regions = [], attributes = (\<lambda>i. if 1 \<le> i \<and> i \<le> 3 then Memory else Unmapped)\<rparr>)\<rparr>"

lemma three_pages_memory_ok: "mem_ok three_pages_memory pt" "mirror three_pages_memory pt three_pages"
proof -
  show "mem_ok three_pages_memory pt"
    by (auto simp: mem_ok_def page_ok_def allocated_def three_pages_memory_def example_memory_def raw_pointer_def GetPtr_def MemoryRef_null_def)
  have "mirrors three_pages_memory pt x a" if x: "attr_at (vma_map three_pages) a = Some x" for a x
  proof -
    note defs = three_pages_def attr_at_Cons VirtualMemoryArea_init_def covers_def attr_def mirrors_def locate_def three_pages_memory_def PAGE_SIZE_def GetPtr_def
      raw_pointer_def MAX_ADDRESS_def
    have m: "a mod 0x1000 = a - a div 0x1000 * 0x1000" by (rule minus_div_mult_eq_mod [symmetric])
    consider "a < 0x1000" | "0x1000 \<le> a" "a < 0x2000" | "0x2000 \<le> a" "a < 0x3000" | "0x3000 \<le> a" "a < 0x4000" | "0x4000 \<le> a" by linarith
    then show ?thesis
    proof cases
      case 2
      then have "a div 0x1000 = 1" by simp
      with 2 x show ?thesis by (auto simp: defs m)
    next
      case 3
      then have "a div 0x1000 = 2" by simp
      with 3 x show ?thesis by (auto simp: defs m)
    next
      case 4
      then have "a div 0x1000 = 3" by simp
      with 4 x show ?thesis by (auto simp: defs m)
    next
      case 5
      then have "4 \<le> a div 0x1000" by (simp add: less_eq_div_iff_mult_less_eq)
      with 5 x show ?thesis by (auto simp: defs split: if_splits)
    qed (use x in \<open>auto simp: defs split: if_splits\<close>)
  qed
  then show "mirror three_pages_memory pt three_pages" by (simp add: mirror_def)
qed

theorem unmapping_reaches_page_table_witness:
  "\<exists>vm' us ms'. UnmapRange 0x2000 0x2000 three_pages = Some (RESULT_SUCCESS, vm') \<and> apply_updates example_outside 0 us three_pages_memory = Some ms'
     \<and> mirror ms' 0 vm' \<and> ReadBlock example_outside 0 0x2000 0x2000 ms' = Some (replicate 0x2000 0, ms')"
proof -
  have "mapped_range three_pages 0x2000 0x2000"
    by (auto simp: mapped_range_def three_pages_def attr_at_Cons VirtualMemoryArea_init_def covers_def attr_def)
  with unmapping_reaches_page_table [of example_outside three_pages three_pages_memory 0 "0x2000" "0x2000", OF _ three_pages_inv(1) three_pages_memory_ok(2,1) three_pages_inv(2,3)]
  show ?thesis by (auto simp: PAGE_SIZE_def MAX_ADDRESS_def)
qed

end
