(* ===== verification/Ipc_Format.thy ===== *)
theory Ipc_Format
  imports Bit_Field
begin

text \<open>
  The words of IPC command buffers, \<^verbatim>\<open>src/src/core/hle/ipc.h\<close>: the header with the numbers of normal and translate parameters, and the
  descriptors of handles, process ids and buffers. The unions are words read through the bit fields of \<open>Bit_Field\<close>.
\<close>

unbundle bit_operations_syntax

section \<open>Headers and descriptors\<close>

definition COMMAND_BUFFER_LENGTH :: nat where "COMMAND_BUFFER_LENGTH = 0x100 div 4"

text \<open>The enumerators of \<^verbatim>\<open>DescriptorType\<close>; its underlying type also holds other values.\<close>

definition StaticBuffer :: u32 where "StaticBuffer = 0x02"
definition PXIBuffer :: u32 where "PXIBuffer = 0x04"
definition MappedBuffer :: u32 where "MappedBuffer = 0x08"
definition CopyHandle :: u32 where "CopyHandle = 0x00"
definition MoveHandle :: u32 where "MoveHandle = 0x10"
definition CallingPid :: u32 where "CallingPid = 0x20"

lemmas descriptor_types = StaticBuffer_def PXIBuffer_def MappedBuffer_def CopyHandle_def MoveHandle_def CallingPid_def

definition translate_params_size :: "u32 \<Rightarrow> u32" where "translate_params_size header = ExtractValue 0 6 header"
definition normal_params_size :: "u32 \<Rightarrow> u32" where "normal_params_size header = ExtractValue 6 6 header"
definition command_id :: "u32 \<Rightarrow> u32" where "command_id header = ExtractValue 16 16 header"

definition MakeHeader :: "u16 \<Rightarrow> u32 \<Rightarrow> u32 \<Rightarrow> u32" where
  "MakeHeader cid normal translate =
     (let header = Assign 16 16 0 (ucast cid);
          header = Assign 6 6 header normal
      in Assign 0 6 header translate)"

definition MoveHandleDesc :: "u32 \<Rightarrow> u32" where "MoveHandleDesc num_handles = MoveHandle OR push_bit 26 (num_handles - 1)"
definition CopyHandleDesc :: "u32 \<Rightarrow> u32" where "CopyHandleDesc num_handles = CopyHandle OR push_bit 26 (num_handles - 1)"
definition CallingPidDesc :: u32 where "CallingPidDesc = CallingPid"

definition IsHandleDescriptor :: "u32 \<Rightarrow> bool" where "IsHandleDescriptor descriptor \<longleftrightarrow> descriptor AND 0xF = 0"
definition HandleNumberFromDesc :: "u32 \<Rightarrow> u32" where "HandleNumberFromDesc handle_descriptor = drop_bit 26 handle_descriptor + 1"

definition static_buffer_id :: "u32 \<Rightarrow> u32" where "static_buffer_id info = ExtractValue 10 4 info"
definition static_size :: "u32 \<Rightarrow> u32" where "static_size info = ExtractValue 14 18 info"

definition StaticBufferDesc :: "u64 \<Rightarrow> u8 \<Rightarrow> u32" where
  "StaticBufferDesc sz buffer_id =
     (let info = Assign 0 4 0 StaticBuffer;
          info = Assign 10 4 info (ucast buffer_id)
      in Assign 14 18 info (ucast sz))"

definition PXIBufferDesc :: "u32 \<Rightarrow> u32 \<Rightarrow> bool \<Rightarrow> u32" where
  "PXIBufferDesc sz buffer_id is_read_only =
     (let type = (if is_read_only then PXIBuffer OR 0x2 else PXIBuffer)
      in type OR push_bit 8 sz OR push_bit 4 (buffer_id AND 0xF))"

text \<open>\<^verbatim>\<open>MappedBufferPermissions\<close>: \<^verbatim>\<open>R\<close>, \<^verbatim>\<open>W\<close> and \<^verbatim>\<open>RW\<close>.\<close>

definition Perm_R :: u32 where "Perm_R = 1"
definition Perm_W :: u32 where "Perm_W = 2"
definition Perm_RW :: u32 where "Perm_RW = 3"

definition mapped_perms :: "u32 \<Rightarrow> u32" where "mapped_perms info = ExtractValue 1 2 info"
definition mapped_size :: "u32 \<Rightarrow> u32" where "mapped_size info = ExtractValue 4 28 info"

definition MappedBufferDesc :: "u64 \<Rightarrow> u32 \<Rightarrow> u32" where
  "MappedBufferDesc sz perms =
     (let info = Assign 0 4 0 MappedBuffer;
          info = Assign 1 2 info perms
      in Assign 4 28 info (ucast sz))"

definition GetDescriptorType :: "u32 \<Rightarrow> u32" where
  "GetDescriptorType descriptor =
     (if IsHandleDescriptor descriptor then descriptor AND 0x30
      else if descriptor AND MappedBuffer \<noteq> 0 then MappedBuffer
      else if descriptor AND PXIBuffer \<noteq> 0 then PXIBuffer
      else StaticBuffer)"

section \<open>The fields\<close>

interpretation header_id: bit_field 16 16 "TYPE(32)" by unfold_locales simp_all
interpretation header_normal: bit_field 6 6 "TYPE(32)" by unfold_locales simp_all
interpretation header_translate: bit_field 0 6 "TYPE(32)" by unfold_locales simp_all
interpretation header_id_translate: disjoint_fields 16 16 0 6 "TYPE(32)" by unfold_locales simp_all
interpretation header_id_normal: disjoint_fields 16 16 6 6 "TYPE(32)" by unfold_locales simp_all
interpretation header_normal_translate: disjoint_fields 6 6 0 6 "TYPE(32)" by unfold_locales simp_all
interpretation static_id: bit_field 10 4 "TYPE(32)" by unfold_locales simp_all
interpretation static_sz: bit_field 14 18 "TYPE(32)" by unfold_locales simp_all
interpretation static_id_sz: disjoint_fields 10 4 14 18 "TYPE(32)" by unfold_locales simp_all
interpretation mapped_p: bit_field 1 2 "TYPE(32)" by unfold_locales simp_all
interpretation mapped_sz: bit_field 4 28 "TYPE(32)" by unfold_locales simp_all
interpretation mapped_p_sz: disjoint_fields 1 2 4 28 "TYPE(32)" by unfold_locales simp_all

text \<open>The type of a descriptor by its lowest bits.\<close>

lemma low_bits: "d AND 0xF = 0 \<longleftrightarrow> \<not> bit d 0 \<and> \<not> bit d 1 \<and> \<not> bit d 2 \<and> \<not> bit d 3" for d :: u32
proof -
  have m: "(0xF :: u32) = mask 4" by (simp add: mask_eq_exp_minus_1)
  have "(d AND 0xF = 0) \<longleftrightarrow> (\<forall>n < 32. bit d n \<longrightarrow> \<not> n < 4)" unfolding m by (simp add: bit_eq_iff bit_simps)
  also have "\<dots> \<longleftrightarrow> \<not> bit d 0 \<and> \<not> bit d 1 \<and> \<not> bit d 2 \<and> \<not> bit d 3" by (auto simp: less_Suc_eq numeral_eq_Suc)
  finally show ?thesis .
qed

lemma bit_power: "k < 32 \<Longrightarrow> bit (push_bit k 1 :: u32) n \<longleftrightarrow> n = k"
  by (auto simp: bit_exp_iff)

lemma bit_small: "bit (2 :: u32) n \<longleftrightarrow> n = 1" "bit (4 :: u32) n \<longleftrightarrow> n = 2" "bit (8 :: u32) n \<longleftrightarrow> n = 3" "bit (0x10 :: u32) n \<longleftrightarrow> n = 4"
  "bit (0x20 :: u32) n \<longleftrightarrow> n = 5"
  using bit_power [of 1 n] bit_power [of 2 n] bit_power [of 3 n] bit_power [of 4 n] bit_power [of 5 n] by simp_all

lemma GetDescriptorType_bits:
  "GetDescriptorType d = (if \<not> bit d 0 \<and> \<not> bit d 1 \<and> \<not> bit d 2 \<and> \<not> bit d 3 then d AND 0x30
     else if bit d 3 then MappedBuffer else if bit d 2 then PXIBuffer else StaticBuffer)"
  using and_exp_eq_0_iff_not_bit [of d 3] and_exp_eq_0_iff_not_bit [of d 2]
  by (simp add: GetDescriptorType_def IsHandleDescriptor_def low_bits descriptor_types)

lemma and_0x30: "d AND 0x30 = (if bit d 4 then 0x10 else 0) OR (if bit d 5 then 0x20 else 0)" for d :: u32
proof (rule bit_word_eqI)
  fix n :: nat
  have a: "(0x30 :: u32) = 0x10 OR 0x20" by simp
  show "bit (d AND 0x30) n = bit ((if bit d 4 then 0x10 else 0) OR (if bit d 5 then 0x20 else 0) :: u32) n"
    unfolding a bit_and_iff bit_or_iff bit_small
    by (cases "bit d 4"; cases "bit d 5") (auto simp only: if_True if_False bit_small bit_0_eq bot_apply bot_bool_def simp_thms)
qed

lemma handle_number:
  assumes "1 \<le> unat k" "unat k \<le> 64" "\<And>n. 26 \<le> n \<Longrightarrow> \<not> bit t n"
  shows "HandleNumberFromDesc (t OR push_bit 26 (k - 1)) = k"
proof -
  have "unat (k - 1) < 2 ^ 6" using assms(1,2) by (simp add: unat_sub word_le_nat_alt)
  then have b: "bit (k - 1) n \<Longrightarrow> n < 6" for n by (rule word_bit_bound)
  have "drop_bit 26 (t OR push_bit 26 (k - 1)) = k - 1"
    by (rule bit_word_eqI) (use assms(3) b in \<open>auto simp: bit_simps\<close>)
  then show ?thesis by (simp add: HandleNumberFromDesc_def)
qed

lemma handle_descriptors:
  assumes "1 \<le> unat k" "unat k \<le> 64"
  shows "HandleNumberFromDesc (MoveHandleDesc k) = k" "GetDescriptorType (MoveHandleDesc k) = MoveHandle"
    "HandleNumberFromDesc (CopyHandleDesc k) = k" "GetDescriptorType (CopyHandleDesc k) = CopyHandle"
  using handle_number [OF assms, of MoveHandle, unfolded MoveHandle_def bit_small] handle_number [OF assms, of CopyHandle]
  by (simp_all add: MoveHandleDesc_def CopyHandleDesc_def descriptor_types GetDescriptorType_bits and_0x30 bit_simps bit_small)

lemma buffer_descriptors:
  "GetDescriptorType (StaticBufferDesc sz i) = StaticBuffer" "static_buffer_id (StaticBufferDesc sz i) = take_bit 4 (ucast i)"
  "static_size (StaticBufferDesc sz i) = take_bit 18 (ucast sz)"
  "GetDescriptorType (MappedBufferDesc sz p) = MappedBuffer" "mapped_perms (MappedBufferDesc sz p) = take_bit 2 p"
  "mapped_size (MappedBufferDesc sz p) = take_bit 28 (ucast sz)" "GetDescriptorType (PXIBufferDesc psz b ro) = PXIBuffer"
proof -
  show "static_buffer_id (StaticBufferDesc sz i) = take_bit 4 (ucast i)" "static_size (StaticBufferDesc sz i) = take_bit 18 (ucast sz)"
    by (simp_all only: StaticBufferDesc_def Let_def static_buffer_id_def static_size_def static_sz.extract_assign
        static_id_sz.extract_other_assign static_id.extract_assign)
  show "mapped_perms (MappedBufferDesc sz p) = take_bit 2 p" "mapped_size (MappedBufferDesc sz p) = take_bit 28 (ucast sz)"
    by (simp_all only: MappedBufferDesc_def Let_def mapped_perms_def mapped_size_def mapped_sz.extract_assign
        mapped_p_sz.extract_other_assign mapped_p.extract_assign)
qed (simp_all add: StaticBufferDesc_def MappedBufferDesc_def PXIBufferDesc_def Let_def GetDescriptorType_bits bit_field_simps descriptor_types bit_small bit_simps)

text \<open>
  C40: Every field of an IPC header or descriptor that fits its bits is read back as it was put in, and the type of a descriptor is
  recognized: handle descriptors for 1 to 64 handles, process ids, static, mapped and PXI buffers.
\<close>

theorem ipc_words_roundtrip:
  assumes "1 \<le> unat k" "unat k \<le> 64" "unat normal < 64" "unat translate < 64" "unat sz < 2 ^ 18" "unat i < 16" "unat msz < 2 ^ 28" "unat p < 4"
  shows "command_id (MakeHeader c normal translate) = ucast c \<and> normal_params_size (MakeHeader c normal translate) = normal
    \<and> translate_params_size (MakeHeader c normal translate) = translate
    \<and> GetDescriptorType (MoveHandleDesc k) = MoveHandle \<and> HandleNumberFromDesc (MoveHandleDesc k) = k
    \<and> GetDescriptorType (CopyHandleDesc k) = CopyHandle \<and> HandleNumberFromDesc (CopyHandleDesc k) = k
    \<and> GetDescriptorType CallingPidDesc = CallingPid
    \<and> GetDescriptorType (StaticBufferDesc sz i) = StaticBuffer \<and> static_size (StaticBufferDesc sz i) = ucast sz \<and> static_buffer_id (StaticBufferDesc sz i) = ucast i
    \<and> GetDescriptorType (MappedBufferDesc msz p) = MappedBuffer \<and> mapped_size (MappedBufferDesc msz p) = ucast msz \<and> mapped_perms (MappedBufferDesc msz p) = p
    \<and> GetDescriptorType (PXIBufferDesc psz b ro) = PXIBuffer"
proof -
  have fit: "take_bit n (w :: u32) = w" if "unat w < 2 ^ n" for n w
    using that by (metis take_bit_nat_eq_self unsigned_take_bit_eq word_unat_eq_iff)
  have u: "unat (ucast sz :: u32) < 2 ^ 18" "unat (ucast i :: u32) < 2 ^ 4" "unat (ucast msz :: u32) < 2 ^ 28"
    using assms by (simp_all add: unsigned_ucast_eq take_bit_nat_eq_self)
  have c: "take_bit 16 (ucast c :: u32) = ucast c" by (rule bit_word_eqI) (auto simp: bit_simps dest: bit_imp_le_length)
  have h: "command_id (MakeHeader c normal translate) = take_bit 16 (ucast c)" "normal_params_size (MakeHeader c normal translate) = take_bit 6 normal"
    "translate_params_size (MakeHeader c normal translate) = take_bit 6 translate"
    by (simp_all add: MakeHeader_def Let_def command_id_def normal_params_size_def translate_params_size_def header_id_translate.extract_other_assign
        header_id_normal.extract_other_assign header_normal_translate.extract_other_assign header_id.extract_assign header_normal.extract_assign
        header_translate.extract_assign)
  show ?thesis
    using assms(3,4,8) by (simp add: h c handle_descriptors [OF assms(1,2)] buffer_descriptors fit fit [OF u(1)] fit [OF u(2)] fit [OF u(3)] CallingPidDesc_def)
      (simp add: GetDescriptorType_bits descriptor_types and_0x30 bit_small)
qed

theorem ipc_words_roundtrip_witness:
  "normal_params_size (MakeHeader 7 3 2) = 3 \<and> HandleNumberFromDesc (MoveHandleDesc 2) = 2 \<and> mapped_size (MappedBufferDesc 0x1000 Perm_RW) = 0x1000"
  using ipc_words_roundtrip [of 2 3 2 16 1 "0x1000" Perm_RW 7] by (simp add: Perm_RW_def)

end
