(* ===== verification/Ipc_Translate.thy ===== *)
theory Ipc_Translate
  imports Svc Address_Space Ipc_Format
begin

text \<open>
  \<^verbatim>\<open>Kernel::TranslateCommandBuffer\<close> of \<^verbatim>\<open>src/src/core/hle/kernel/ipc.{h,cpp}\<close>: a command buffer is copied from the address space
  of one process to that of another, and its translate parameters are replaced on the way: handles by handles of the other
  process, static buffers are copied, mapped buffers are mapped between two guard pages and, on the reply, copied back and unmapped.

  The state is that of the kernel, of the memory and of the address space of each process. \<open>page_table_of\<close> is the page table of the
  address space of a process. The command buffer is an array of 64 words on the stack, whose words beyond the command are
  indeterminate: they are an argument. An access beyond the array is undefined and the run \<open>None\<close>. \<open>al\<close> stands for the allocator:
  it gives the address of a new block of host memory. The recorder of the debugger is not modelled.
\<close>

section \<open>State\<close>

definition IPC_MAPPING_VADDR :: nat where "IPC_MAPPING_VADDR = 0x04000000"
definition IPC_MAPPING_SIZE :: nat where "IPC_MAPPING_SIZE = 0x04000000"

record MappedBufferContext =
  mb_permissions :: u32
  mb_size :: nat
  source_address :: nat
  target_address :: nat
  mb_buffer :: MemoryRef
  reserve_buffer :: MemoryRef

record 'd Translation =
  tr_system :: System
  tr_memory :: "'d MemorySystem"
  vm_managers :: "oid \<Rightarrow> VMManager"
  page_table_of :: "oid \<Rightarrow> nat"
  cmd_buf :: "u32 list"
  mapped_buffer_context :: "MappedBufferContext list"

definition cmd_read :: "nat \<Rightarrow> 'd Translation \<Rightarrow> u32 run" where
  "cmd_read i tr = (if i < COMMAND_BUFFER_LENGTH then Some (cmd_buf tr ! i) else None)"

definition cmd_write :: "nat \<Rightarrow> u32 \<Rightarrow> 'd Translation \<Rightarrow> 'd Translation run" where
  "cmd_write i w tr = (if i < COMMAND_BUFFER_LENGTH then Some (tr\<lparr>cmd_buf := (cmd_buf tr)[i := w]\<rparr>) else None)"

definition AlignDown :: "nat \<Rightarrow> nat \<Rightarrow> nat" where "AlignDown v sz = v - v mod sz"
definition AlignUp :: "nat \<Rightarrow> nat \<Rightarrow> nat" where "AlignUp v sz = add32 v ((sz - v mod sz) mod sz)"

type_synonym allocator = "nat \<Rightarrow> (nat \<rightharpoonup> u8) \<Rightarrow> nat"

text \<open>\<^verbatim>\<open>std::make_shared<BufferMem>(size)\<close>: a block of zeros.\<close>

definition BufferMem_new :: "allocator \<Rightarrow> nat \<Rightarrow> 'd Translation \<Rightarrow> MemoryRef \<times> 'd Translation" where
  "BufferMem_new al n tr =
     (let h = host (tr_memory tr); p = al n h
      in (\<lparr>backing_mem = Some (p, n), mr_offset = 0\<rparr>,
          tr\<lparr>tr_memory := set_host (\<lambda>a. if p \<le> a \<and> a < p + n then Some 0 else h a) (tr_memory tr)\<rparr>))"

text \<open>An operation on the address space of a process, with the updates of its page table.\<close>

definition vm_run :: "'d Outside \<Rightarrow> oid \<Rightarrow> (VMManager \<Rightarrow> ('r \<times> VMManager) run) \<Rightarrow> 'd Translation \<Rightarrow> ('r \<times> 'd Translation) run" where
  "vm_run out p f tr = do {
     (r, vm) \<leftarrow> f (vm_managers tr p);
     ms \<leftarrow> apply_updates out (page_table_of tr p) (drop (length (page_updates (vm_managers tr p))) (page_updates vm)) (tr_memory tr);
     Some (r, tr\<lparr>vm_managers := (vm_managers tr)(p := vm), tr_memory := ms\<rparr>)
   }"

section \<open>Handles\<close>

definition sent_object :: "oid \<Rightarrow> oid \<Rightarrow> Handle \<Rightarrow> System \<Rightarrow> kobject option" where
  "sent_object src_thread src_process handle s =
     (if handle = CurrentThread then Some (HT_Thread, src_thread)
      else if handle = CurrentProcess then Some (HT_Process, src_process)
      else if handle \<noteq> 0
      then GetGeneric (map_option (Pair HT_Thread) (GetCurrentThread s)) (map_option (Pair HT_Process) (GetCurrentProcess s))
        (handle_table (processes s src_process)) handle
      else None)"

definition close_moved :: "u32 \<Rightarrow> oid \<Rightarrow> Handle \<Rightarrow> System \<Rightarrow> System" where
  "close_moved descriptor src_process handle s =
     (if handle \<noteq> CurrentThread \<and> handle \<noteq> CurrentProcess \<and> handle \<noteq> 0 \<and> descriptor = MoveHandle
      then upd_table src_process (snd (Close handle (handle_table (processes s src_process)))) s else s)"

definition translate_handle :: "u32 \<Rightarrow> oid \<Rightarrow> oid \<Rightarrow> oid \<Rightarrow> nat \<Rightarrow> 'd Translation \<Rightarrow> 'd Translation run" where
  "translate_handle descriptor src_thread src_process dst_process i tr = do {
     handle \<leftarrow> cmd_read i tr;
     let s = tr_system tr;
     let object = sent_object src_thread src_process handle s;
     let s = close_moved descriptor src_process handle s;
     (case object of
        None \<Rightarrow> cmd_write i 0 (tr\<lparr>tr_system := s\<rparr>)
      | Some object \<Rightarrow> do {
          let (result, table) = Create object (handle_table (processes s dst_process));
          h \<leftarrow> ValueOr result 0;
          cmd_write i h (tr\<lparr>tr_system := upd_table dst_process table s\<rparr>) })
   }"

fun translate_handles :: "u32 \<Rightarrow> oid \<Rightarrow> oid \<Rightarrow> oid \<Rightarrow> nat \<Rightarrow> nat \<Rightarrow> 'd Translation \<Rightarrow> 'd Translation run" where
  "translate_handles descriptor src_thread src_process dst_process 0 i tr = Some tr"
| "translate_handles descriptor src_thread src_process dst_process (Suc n) i tr = do {
     tr \<leftarrow> translate_handle descriptor src_thread src_process dst_process i tr;
     translate_handles descriptor src_thread src_process dst_process n (i + 1) tr
   }"

section \<open>Buffers\<close>

definition translate_static :: "'d Outside \<Rightarrow> oid \<Rightarrow> oid \<Rightarrow> nat \<Rightarrow> u32 \<Rightarrow> nat \<Rightarrow> 'd Translation \<Rightarrow> 'd Translation run" where
  "translate_static out src_process dst_process dst_address descriptor i tr = do {
     static_buffer_src_address \<leftarrow> cmd_read i tr;
     let sz = unat (static_size descriptor);
     (data, ms) \<leftarrow> ReadBlock out (page_table_of tr src_process) (unat static_buffer_src_address) sz (tr_memory tr);
     let static_buffer_offset = COMMAND_BUFFER_LENGTH * 4 + 8 * unat (static_buffer_id descriptor);
     (target_buffer, ms) \<leftarrow> ReadBlock out (page_table_of tr dst_process) (add32 dst_address static_buffer_offset) 8 ms;
     let target_descriptor = of_bytes (take 4 target_buffer);
     let address = of_bytes (drop 4 target_buffer);
     ASSERT (unat (static_size target_descriptor) \<ge> sz);
     ms \<leftarrow> WriteBlock out (page_table_of tr dst_process) (unat address) (Buffer data) sz ms;
     cmd_write i address (tr\<lparr>tr_memory := ms\<rparr>)
   }"

definition page_offset_of :: "nat \<Rightarrow> nat" where
  "page_offset_of source = source - AlignDown source PAGE_SIZE"

definition num_pages_of :: "nat \<Rightarrow> nat \<Rightarrow> nat" where
  "num_pages_of source sz = AlignUp (add32 (page_offset_of source) sz) PAGE_SIZE div PAGE_SIZE"

text \<open>\<^verbatim>\<open>FindVMA(target)->second\<close>; the end iterator is dereferenced without a check.\<close>

definition vma_at :: "VMManager \<Rightarrow> nat \<Rightarrow> VirtualMemoryArea run" where
  "vma_at vm target = do { it \<leftarrow> FindVMA vm target; k \<leftarrow> it; map_at (vma_map vm) k }"

definition erase_first :: "('a \<Rightarrow> bool) \<Rightarrow> 'a list \<Rightarrow> 'a list" where
  "erase_first P xs = takeWhile (\<lambda>x. \<not> P x) xs @ tl (dropWhile (\<lambda>x. \<not> P x) xs)"

text \<open>The reply: the buffer is copied back to the process that sent the request and unmapped with its guard pages.\<close>

definition unmap_buffer :: "'d Outside \<Rightarrow> oid \<Rightarrow> oid \<Rightarrow> u32 \<Rightarrow> nat \<Rightarrow> nat \<Rightarrow> 'd Translation \<Rightarrow> 'd Translation run" where
  "unmap_buffer out src_process dst_process perms source sz tr = do {
     let page_start = AlignDown source PAGE_SIZE;
     let num_pages = num_pages_of source sz;
     let matches = (\<lambda>context. mb_permissions context = perms \<and> mb_size context = sz \<and> target_address context = source);
     found \<leftarrow> find matches (mapped_buffer_context tr);
     ms \<leftarrow> (if perms \<noteq> Perm_R
            then CopyBlock out (page_table_of tr dst_process) (page_table_of tr src_process) (source_address found) (target_address found) sz (tr_memory tr)
            else Some (tr_memory tr));
     let tr = tr\<lparr>tr_memory := ms\<rparr>;
     let prev_reserve = sub32 page_start PAGE_SIZE;
     let next_reserve = add32 page_start (num_pages * PAGE_SIZE);
     prev_vma \<leftarrow> vma_at (vm_managers tr src_process) prev_reserve;
     next_vma \<leftarrow> vma_at (vm_managers tr src_process) next_reserve;
     ASSERT (meminfo_state prev_vma = MS_Reserved \<and> meminfo_state next_vma = MS_Reserved);
     (result, tr) \<leftarrow> vm_run out src_process (UnmapRange (sub32 page_start PAGE_SIZE) ((num_pages + 2) * PAGE_SIZE mod 2 ^ 32)) tr;
     ASSERT (result = RESULT_SUCCESS);
     Some (tr\<lparr>mapped_buffer_context := erase_first matches (mapped_buffer_context tr)\<rparr>)
   }"

text \<open>The request: a copy of the buffer is mapped into the other process, with a guard page mapped before and one after it.\<close>

definition map_to_base :: "'d Outside \<Rightarrow> oid \<Rightarrow> MemoryRef \<Rightarrow> nat \<Rightarrow> MemoryState \<Rightarrow> 'd Translation \<Rightarrow> (nat ResultVal \<times> 'd Translation) run" where
  "map_to_base out dst_process memory sz state = vm_run out dst_process (MapBackingMemoryToBase IPC_MAPPING_VADDR IPC_MAPPING_SIZE memory sz state)"

definition map_buffer :: "'d Outside \<Rightarrow> allocator \<Rightarrow> oid \<Rightarrow> oid \<Rightarrow> u32 \<Rightarrow> nat \<Rightarrow> nat \<Rightarrow> nat \<Rightarrow> 'd Translation \<Rightarrow> 'd Translation run" where
  "map_buffer out al src_process dst_process perms source sz i tr = do {
     let page_offset = page_offset_of source;
     let num_pages = num_pages_of source sz;
     let (reserve, tr) = BufferMem_new al PAGE_SIZE tr;
     (_, tr) \<leftarrow> map_to_base out dst_process reserve PAGE_SIZE MS_Reserved tr;
     let (buffer, tr) = BufferMem_new al (num_pages * PAGE_SIZE) tr;
     (data, ms) \<leftarrow> ReadBlock out (page_table_of tr src_process) source sz (tr_memory tr);
     h \<leftarrow> host_write (host ms) (GetPtr buffer + page_offset) data;
     (result, tr) \<leftarrow> map_to_base out dst_process buffer (GetSize buffer) MS_Shared (tr\<lparr>tr_memory := set_host h ms\<rparr>);
     target \<leftarrow> Unwrap result;
     tr \<leftarrow> cmd_write i (of_nat (target + page_offset)) tr;
     (_, tr) \<leftarrow> map_to_base out dst_process reserve (GetSize reserve) MS_Reserved tr;
     Some (tr\<lparr>mapped_buffer_context := mapped_buffer_context tr @ [\<lparr>mb_permissions = perms, mb_size = sz, source_address = source,
       target_address = add32 target page_offset, mb_buffer = buffer, reserve_buffer = reserve\<rparr>]\<rparr>)
   }"

definition translate_mapped :: "'d Outside \<Rightarrow> allocator \<Rightarrow> bool \<Rightarrow> oid \<Rightarrow> oid \<Rightarrow> u32 \<Rightarrow> nat \<Rightarrow> 'd Translation \<Rightarrow> 'd Translation run" where
  "translate_mapped out al reply src_process dst_process descriptor i tr = do {
     source \<leftarrow> cmd_read i tr;
     let sz = unat (mapped_size descriptor);
     if sz = 0 then cmd_write i 0 tr
     else do {
       ASSERT (num_pages_of (unat source) sz \<ge> 1);
       if reply then unmap_buffer out src_process dst_process (mapped_perms descriptor) (unat source) sz tr
       else map_buffer out al src_process dst_process (mapped_perms descriptor) (unat source) sz i tr }
   }"

section \<open>Commands\<close>

definition ERR_COMMAND_TOO_LARGE :: ResultCode where
  "ERR_COMMAND_TOO_LARGE = MakeResultCode_raw ErrCodes_CommandTooLarge EM_OS ES_InvalidState EL_Status"

text \<open>One descriptor, whose parameters begin at index \<open>i\<close>: an error, or the number of its parameters.\<close>

definition translate_descriptor ::
    "'d Outside \<Rightarrow> allocator \<Rightarrow> bool \<Rightarrow> oid \<Rightarrow> oid \<Rightarrow> oid \<Rightarrow> nat \<Rightarrow> nat \<Rightarrow> u32 \<Rightarrow> nat \<Rightarrow> 'd Translation \<Rightarrow> ((ResultCode + nat) \<times> 'd Translation) run" where
  "translate_descriptor out al reply src_thread src_process dst_process dst_address command_size descriptor i tr =
     (let type = GetDescriptorType descriptor
      in if type = CopyHandle \<or> type = MoveHandle then
           let num_handles = unat (HandleNumberFromDesc descriptor)
           in if i + num_handles > command_size then Some (Inl ERR_COMMAND_TOO_LARGE, tr)
           else map_option (Pair (Inr num_handles)) (translate_handles descriptor src_thread src_process dst_process num_handles i tr)
         else if type = CallingPid then map_option (Pair (Inr 1)) (cmd_write i (of_nat (process_id (processes (tr_system tr) src_process))) tr)
         else if type = StaticBuffer then map_option (Pair (Inr 1)) (translate_static out src_process dst_process dst_address descriptor i tr)
         else if type = MappedBuffer then map_option (Pair (Inr 1)) (translate_mapped out al reply src_process dst_process descriptor i tr)
         else None)"

function translate_loop ::
    "'d Outside \<Rightarrow> allocator \<Rightarrow> bool \<Rightarrow> oid \<Rightarrow> oid \<Rightarrow> oid \<Rightarrow> nat \<Rightarrow> nat \<Rightarrow> nat \<Rightarrow> 'd Translation \<Rightarrow> (ResultCode \<times> 'd Translation) run" where
  "translate_loop out al reply src_thread src_process dst_process dst_address command_size i tr =
     (if i < command_size
      then (case cmd_read i tr of
          None \<Rightarrow> None
        | Some descriptor \<Rightarrow>
            (case translate_descriptor out al reply src_thread src_process dst_process dst_address command_size descriptor (i + 1) tr of
               None \<Rightarrow> None
             | Some (Inl e, tr) \<Rightarrow> Some (e, tr)
             | Some (Inr n, tr) \<Rightarrow>
                 translate_loop out al reply src_thread src_process dst_process dst_address command_size (i + 1 + n) tr))
      else Some (RESULT_SUCCESS, tr))"
  by pat_completeness auto
termination
  by (relation "measure (\<lambda>(out, al, reply, src_thread, src_process, dst_process, dst_address, command_size, i, tr). command_size - i)") auto

declare translate_loop.simps [simp del]

fun words_of :: "u8 list \<Rightarrow> u32 list" where
  "words_of (a # b # c # d # bs) = of_bytes [a, b, c, d] # words_of bs"
| "words_of _ = []"

text \<open>\<open>stack\<close>: what the array holds before the command is read into it.\<close>

definition TranslateCommandBuffer ::
    "'d Outside \<Rightarrow> allocator \<Rightarrow> u32 list \<Rightarrow> oid \<Rightarrow> oid \<Rightarrow> nat \<Rightarrow> nat \<Rightarrow> bool \<Rightarrow> 'd Translation \<Rightarrow> (ResultCode \<times> 'd Translation) run" where
  "TranslateCommandBuffer out al stack src_thread dst_thread src_address dst_address reply tr = do {
     let src_process = owner_process (threads (kernel (tr_system tr)) src_thread);
     let dst_process = owner_process (threads (kernel (tr_system tr)) dst_thread);
     (bs, ms) \<leftarrow> ReadBlock out (page_table_of tr src_process) src_address 4 (tr_memory tr);
     let header = of_bytes bs;
     let untranslated_size = 1 + unat (normal_params_size header);
     let command_size = untranslated_size + unat (translate_params_size header);
     ASSERT (command_size \<le> COMMAND_BUFFER_LENGTH);
     (bs, ms) \<leftarrow> ReadBlock out (page_table_of tr src_process) src_address (command_size * 4) ms;
     let tr = tr\<lparr>tr_memory := ms, cmd_buf := words_of bs @ drop command_size stack\<rparr>;
     (result, tr) \<leftarrow> translate_loop out al reply src_thread src_process dst_process dst_address command_size untranslated_size tr;
     if result = RESULT_SUCCESS
     then do {
       let bs = concat (map (to_bytes 4) (take command_size (cmd_buf tr)));
       ms \<leftarrow> WriteBlock out (page_table_of tr dst_process) dst_address (Buffer bs) (command_size * 4) (tr_memory tr);
       Some (RESULT_SUCCESS, tr\<lparr>tr_memory := ms\<rparr>) }
     else Some (result, tr)
   }"

section \<open>How handles are translated\<close>

abbreviation table :: "System \<Rightarrow> oid \<Rightarrow> kobject HandleTable" where "table s p \<equiv> handle_table (processes s p)"

text \<open>A handle table to which objects are only added.\<close>

definition grows :: "'o HandleTable \<Rightarrow> 'o HandleTable \<Rightarrow> bool" where
  "grows t t' \<longleftrightarrow> (\<forall>h x. ht_lookup t h = Some x \<longrightarrow> ht_lookup t' h = Some x) \<and> (empty_slots t = {} \<longrightarrow> empty_slots t' = {})"

lemma grows_refl [simp]: "grows t t"
  by (simp add: grows_def)

lemma grows_trans: "grows t t' \<Longrightarrow> grows t' t'' \<Longrightarrow> grows t t''"
  by (simp add: grows_def)

lemma Create_grows:
  assumes "ht_inv t"
  shows "\<exists>w t'. ValueOr (fst (Create x t)) 0 = Some w \<and> snd (Create x t) = t' \<and> ht_inv t' \<and> grows t t'
    \<and> (ht_lookup t' w = Some x \<or> w = 0 \<and> empty_slots t' = {})"
proof (cases "empty_slots t = {}")
  case True
  with ht.create_full [OF assms, of x] assms show ?thesis by (simp add: ValueOr_def rv_empty_def)
next
  case False
  from ht.create_room [OF assms False, of x] obtain h t' where c: "Create x t = (MakeResult h, t')" "ht_inv t'" "ht_lookup t h = None"
    and l: "\<forall>h'. ht_lookup t' h' = (if same_handle h' h then Some x else ht_lookup t h')" by blast
  have "grows t t'" using l c(3) ht.same_lookup [of _ h t] False by (auto simp: grows_def)
  with c l show ?thesis by (simp add: ValueOr_def rv_empty_def ht.same_refl)
qed

lemma sent_object_eq:
  "sent_object st p h s = (if h = CurrentThread then Some (HT_Thread, st) else if h = CurrentProcess then Some (HT_Process, p)
     else if h = 0 then None else ht_lookup (table s p) h)"
  by (simp add: sent_object_def GetGeneric_eq)

lemma upd_table_simps [simp]:
  "table (upd_table p t s) q = (if q = p then t else table s q)" "upd_table p (table s p) s = s" "kernel (upd_table p t s) = kernel s"
  "upd_table p t' (upd_table p t s) = upd_table p t' s" "process_id (processes (upd_table p t s) q) = process_id (processes s q)"
  by (simp_all add: upd_table_def)

text \<open>What one word stands for in the destination.\<close>

definition arrives :: "kobject HandleTable \<Rightarrow> kobject option \<Rightarrow> Handle \<Rightarrow> bool" where
  "arrives t object h \<longleftrightarrow> (case object of None \<Rightarrow> h = 0 | Some x \<Rightarrow> ht_lookup t h = Some x \<or> h = 0 \<and> empty_slots t = {})"

lemma arrives_grows: "arrives t x h \<Longrightarrow> grows t t' \<Longrightarrow> arrives t' x h"
  by (auto simp: arrives_def grows_def split: option.splits)

lemma translate_handle_step:
  assumes "src \<noteq> dst" "ht_inv (table (tr_system tr) dst)" "i < COMMAND_BUFFER_LENGTH"
  shows "\<exists>w t. translate_handle d st src dst i tr
      = Some (tr\<lparr>cmd_buf := (cmd_buf tr)[i := w], tr_system := upd_table dst t (close_moved d src (cmd_buf tr ! i) (tr_system tr))\<rparr>)
    \<and> ht_inv t \<and> grows (table (tr_system tr) dst) t \<and> arrives t (sent_object st src (cmd_buf tr ! i) (tr_system tr)) w"
proof -
  let ?s = "close_moved d src (cmd_buf tr ! i) (tr_system tr)"
  have t: "table ?s dst = table (tr_system tr) dst" using assms(1) by (simp add: close_moved_def)
  have run: "translate_handle d st src dst i tr = (case sent_object st src (cmd_buf tr ! i) (tr_system tr) of
      None \<Rightarrow> cmd_write i 0 (tr\<lparr>tr_system := ?s\<rparr>)
    | Some object \<Rightarrow> do {
        let (result, t) = Create object (table ?s dst);
        h \<leftarrow> ValueOr result 0;
        cmd_write i h (tr\<lparr>tr_system := upd_table dst t ?s\<rparr>) })"
    using assms(3) by (simp add: translate_handle_def cmd_read_def Let_def)
  show ?thesis
  proof (cases "sent_object st src (cmd_buf tr ! i) (tr_system tr)")
    case None
    have "upd_table dst (table (tr_system tr) dst) ?s = ?s" using t upd_table_simps(2) [of dst ?s] by simp
    with None run assms(2,3) show ?thesis
      by (intro exI [of _ 0] exI [of _ "table (tr_system tr) dst"]) (simp add: cmd_write_def arrives_def)
  next
    case (Some x)
    from Create_grows [OF assms(2), of x] obtain w t' where c: "ValueOr (fst (Create x (table (tr_system tr) dst))) 0 = Some w"
      "snd (Create x (table (tr_system tr) dst)) = t'" "ht_inv t'" "grows (table (tr_system tr) dst) t'"
      "ht_lookup t' w = Some x \<or> w = 0 \<and> empty_slots t' = {}" by blast
    have e: "Create x (table (tr_system tr) dst) = (fst (Create x (table (tr_system tr) dst)), t')" using c(2) by (simp add: prod_eq_iff)
    have "translate_handle d st src dst i tr = cmd_write i w (tr\<lparr>tr_system := upd_table dst t' ?s\<rparr>)"
      unfolding run t Some option.case by (subst e) (simp add: c(1))
    with Some c(3-5) assms(3) show ?thesis by (intro exI [of _ w] exI [of _ t']) (simp add: cmd_write_def arrives_def)
  qed
qed

text \<open>Copying: the source is left as it is, so every handle stands for what it did at the beginning.\<close>

lemma translate_handles_copy:
  assumes "src \<noteq> dst" "d \<noteq> MoveHandle"
  shows "ht_inv (table (tr_system tr) dst) \<Longrightarrow> i + n \<le> COMMAND_BUFFER_LENGTH \<Longrightarrow> length (cmd_buf tr) = COMMAND_BUFFER_LENGTH
    \<Longrightarrow> \<exists>ws t. translate_handles d st src dst n i tr = Some (tr\<lparr>cmd_buf := ws, tr_system := upd_table dst t (tr_system tr)\<rparr>)
      \<and> ht_inv t \<and> grows (table (tr_system tr) dst) t \<and> length ws = COMMAND_BUFFER_LENGTH
      \<and> (\<forall>j. i \<le> j \<and> j < i + n \<longrightarrow> arrives t (sent_object st src (cmd_buf tr ! j) (tr_system tr)) (ws ! j))
      \<and> (\<forall>j. j < i \<or> i + n \<le> j \<longrightarrow> ws ! j = cmd_buf tr ! j)"
proof (induction n arbitrary: i tr)
  case 0
  then show ?case by (intro exI [of _ "cmd_buf tr"] exI [of _ "table (tr_system tr) dst"]) auto
next
  case (Suc n)
  have i: "i < COMMAND_BUFFER_LENGTH" using Suc.prems(2) by simp
  have cm: "close_moved d src h s = s" for h s using assms(2) by (simp add: close_moved_def)
  from translate_handle_step [OF assms(1) Suc.prems(1) i, of d st, unfolded cm]
  obtain w t where step: "translate_handle d st src dst i tr = Some (tr\<lparr>cmd_buf := (cmd_buf tr)[i := w], tr_system := upd_table dst t (tr_system tr)\<rparr>)"
    and t: "ht_inv t" "grows (table (tr_system tr) dst) t" "arrives t (sent_object st src (cmd_buf tr ! i) (tr_system tr)) w" by blast
  let ?tr = "tr\<lparr>cmd_buf := (cmd_buf tr)[i := w], tr_system := upd_table dst t (tr_system tr)\<rparr>"
  have so: "sent_object st src h (tr_system ?tr) = sent_object st src h (tr_system tr)" for h using assms(1) by (simp add: sent_object_eq)
  have "ht_inv (table (tr_system ?tr) dst)" "i + 1 + n \<le> COMMAND_BUFFER_LENGTH" "length (cmd_buf ?tr) = COMMAND_BUFFER_LENGTH"
    using t(1) Suc.prems by simp_all
  from Suc.IH [OF this] obtain ws t' where
    run: "translate_handles d st src dst n (i + 1) ?tr = Some (?tr\<lparr>cmd_buf := ws, tr_system := upd_table dst t' (tr_system ?tr)\<rparr>)"
    and t': "ht_inv t'" "grows (table (tr_system ?tr) dst) t'" "length ws = COMMAND_BUFFER_LENGTH"
      "\<forall>j. i + 1 \<le> j \<and> j < i + 1 + n \<longrightarrow> arrives t' (sent_object st src (cmd_buf ?tr ! j) (tr_system ?tr)) (ws ! j)"
      "\<forall>j. j < i + 1 \<or> i + 1 + n \<le> j \<longrightarrow> ws ! j = cmd_buf ?tr ! j" by blast
  have g: "grows t t'" using t'(2) by simp
  have wi: "ws ! i = w" using t'(5) Suc.prems i by simp
  have "arrives t' (sent_object st src (cmd_buf tr ! j) (tr_system tr)) (ws ! j)" if "i \<le> j" "j < i + Suc n" for j
  proof (cases "j = i")
    case True
    then show ?thesis using arrives_grows [OF t(3) g] wi by simp
  next
    case False
    with that t'(4) [rule_format, of j] show ?thesis by (simp add: so [simplified])
  qed
  moreover have "ws ! j = cmd_buf tr ! j" if "j < i \<or> i + Suc n \<le> j" for j using that t'(5) [rule_format, of j] by auto
  ultimately show ?case using step run t'(1,3) grows_trans [OF t(2) g]
    by (intro exI [of _ ws] exI [of _ t']) simp
qed

lemma move_one: "unat (HandleNumberFromDesc MoveHandle) = 1"
  by (simp add: HandleNumberFromDesc_def MoveHandle_def)

lemma Close_lookup:
  assumes "ht_inv t"
  shows "ht_inv (snd (Close h t))" "ht_lookup (snd (Close h t)) h' = (if same_handle h' h then None else ht_lookup t h')"
proof -
  show "ht_inv (snd (Close h t))" by (rule ht.close_inv [OF assms])
  show "ht_lookup (snd (Close h t)) h' = (if same_handle h' h then None else ht_lookup t h')"
    using ht.close_invalid [of t h] ht.close_valid [OF assms, of h] ht.same_lookup [of h' h t] by (cases "ht_lookup t h = None") auto
qed

lemma null_handle: "ht_inv t \<Longrightarrow> ht_lookup t 0 = None"
  by (auto simp: ht_lookup_eq GetSlot_def GetGeneration_def ht_inv_def MAX_COUNT_def dest!: spec [of _ 0])

text \<open>
  C15: A descriptor of handles, copied or moved between two processes: each handle word is replaced. A handle that stands for an object
  in the source, or for its thread or process, becomes a handle for that object in the destination, or 0 when the table of the
  destination is full; any other becomes 0. The handles the destination had stay valid, the other words of the command stay as they
  are. A moved handle is closed in the source, but only when it is the only one of its descriptor; otherwise the source keeps all its handles.
\<close>

theorem handles_translated:
  assumes "src \<noteq> dst" "ht_inv (table (tr_system tr) src)" "ht_inv (table (tr_system tr) dst)" "length (cmd_buf tr) = COMMAND_BUFFER_LENGTH"
    and "GetDescriptorType d = CopyHandle \<or> GetDescriptorType d = MoveHandle" "n = unat (HandleNumberFromDesc d)"
    and "i + n \<le> command_size" "command_size \<le> COMMAND_BUFFER_LENGTH"
  shows "\<exists>tr'. translate_descriptor out al reply st src dst dst_address command_size d i tr = Some (Inr n, tr')
    \<and> (\<forall>j. i \<le> j \<and> j < i + n \<longrightarrow> arrives (table (tr_system tr') dst) (sent_object st src (cmd_buf tr ! j) (tr_system tr)) (cmd_buf tr' ! j))
    \<and> (\<forall>j. j < i \<or> i + n \<le> j \<longrightarrow> cmd_buf tr' ! j = cmd_buf tr ! j)
    \<and> (\<forall>h x. ht_lookup (table (tr_system tr) dst) h = Some x \<longrightarrow> ht_lookup (table (tr_system tr') dst) h = Some x)
    \<and> (\<forall>h. ht_lookup (table (tr_system tr') src) h = (if d = MoveHandle \<and> cmd_buf tr ! i \<notin> {CurrentThread, CurrentProcess} \<and> same_handle h (cmd_buf tr ! i)
          then None else ht_lookup (table (tr_system tr) src) h))
    \<and> ht_inv (table (tr_system tr') src) \<and> ht_inv (table (tr_system tr') dst) \<and> tr_memory tr' = tr_memory tr"
proof (cases "d = MoveHandle")
  case False
  from translate_handles_copy [OF assms(1) False assms(3) _ assms(4), of i n st] assms(7,8) obtain ws t where
    r: "translate_handles d st src dst n i tr = Some (tr\<lparr>cmd_buf := ws, tr_system := upd_table dst t (tr_system tr)\<rparr>)"
      "ht_inv t" "grows (table (tr_system tr) dst) t" "\<forall>j. i \<le> j \<and> j < i + n \<longrightarrow> arrives t (sent_object st src (cmd_buf tr ! j) (tr_system tr)) (ws ! j)"
      "\<forall>j. j < i \<or> i + n \<le> j \<longrightarrow> ws ! j = cmd_buf tr ! j" by auto
  have "translate_descriptor out al reply st src dst dst_address command_size d i tr
      = Some (Inr n, tr\<lparr>cmd_buf := ws, tr_system := upd_table dst t (tr_system tr)\<rparr>)"
    using assms(5-8) r(1) by (auto simp: translate_descriptor_def Let_def)
  with r(2-5) False assms(1,2) show ?thesis by (intro exI conjI) (assumption | simp add: grows_def)+
next
  case True
  let ?h = "cmd_buf tr ! i" and ?s = "close_moved d src (cmd_buf tr ! i) (tr_system tr)"
  have n: "n = 1" "i < COMMAND_BUFFER_LENGTH" using True assms(6-8) move_one by auto
  have one: "unat (HandleNumberFromDesc d) = Suc 0" using n(1) assms(6) by simp
  from translate_handle_step [OF assms(1,3) n(2), of d st] obtain w t where
    r: "translate_handle d st src dst i tr = Some (tr\<lparr>cmd_buf := (cmd_buf tr)[i := w], tr_system := upd_table dst t ?s\<rparr>)"
      "ht_inv t" "grows (table (tr_system tr) dst) t" "arrives t (sent_object st src ?h (tr_system tr)) w" by blast
  have "translate_descriptor out al reply st src dst dst_address command_size d i tr
      = Some (Inr n, tr\<lparr>cmd_buf := (cmd_buf tr)[i := w], tr_system := upd_table dst t ?s\<rparr>)"
    using assms(5,7,8) r(1) one by (auto simp: translate_descriptor_def Let_def n(1))
  moreover have "ht_inv (table ?s src)" using Close_lookup(1) [OF assms(2)] assms(2) by (simp add: close_moved_def)
  moreover have "ht_lookup (table ?s src) h = (if ?h \<notin> {CurrentThread, CurrentProcess} \<and> same_handle h ?h then None else ht_lookup (table (tr_system tr) src) h)" for h
    using True Close_lookup(2) [OF assms(2)] null_handle [OF assms(2)] ht.same_lookup [of h 0 "table (tr_system tr) src"]
    by (auto simp: close_moved_def)
  moreover have "arrives t (sent_object st src (cmd_buf tr ! j) (tr_system tr)) ((cmd_buf tr)[i := w] ! j)" if "i \<le> j" "j < i + n" for j
  proof -
    have "j = i" using that n(1) by simp
    with r(4) n(2) assms(4) show ?thesis by simp
  qed
  ultimately show ?thesis using r(2,3) True n assms(1) by (intro exI conjI) (assumption | simp add: grows_def)+
qed

text \<open>Two processes; the first holds a handle for an event.\<close>

definition example_process :: "oid \<Rightarrow> Process" where
  "example_process p = \<lparr>handle_table = (if p = 1 then snd (Create (HT_Event, 7) HandleTable_init) else HandleTable_init), process_limits = RL_APPLICATION,
     ideal_processor = 0, process_id = p\<rparr>"

definition example_system :: System where
  "example_system = \<lparr>kernel = (Kernel_init 1)\<lparr>threads := (\<lambda>t. Thread_blank\<lparr>owner_process := t\<rparr>)\<rparr>, processes = example_process, limits = (\<lambda>_. ResourceLimit_Create)\<rparr>"

definition example_translation :: "u32 list \<Rightarrow> unit Translation" where
  "example_translation ws = \<lparr>tr_system = example_system, tr_memory = example_memory, vm_managers = (\<lambda>_. VM_Reset), page_table_of = (\<lambda>p. p),
     cmd_buf = ws @ replicate (COMMAND_BUFFER_LENGTH - length ws) 0, mapped_buffer_context = []\<rparr>"

lemma example_tables:
  "ht_inv (table example_system p)" "ht_lookup (table example_system 1) 1 = Some (HT_Event, 7)"
proof -
  show "ht_inv (table example_system p)"
    using Create_grows [OF ht_inv_init(1), of "(HT_Event, 7)"] ht_inv_init(1) by (auto simp: example_system_def example_process_def)
  show "ht_lookup (table example_system 1) 1 = Some (HT_Event, 7)"
    by (simp add: example_system_def example_process_def ht_lookup_eq Create_def HandleTable_init_def Clear_def MAX_COUNT_def IsValid_def GetSlot_def GetGeneration_def)
qed

theorem handles_translated_witness:
  "\<exists>tr'. translate_descriptor example_outside (\<lambda>_ _. 0) False 1 1 2 0 3 MoveHandle 2 (example_translation [0, MoveHandle, 1]) = Some (Inr 1, tr')
     \<and> arrives (table (tr_system tr') 2) (Some (HT_Event, 7)) (cmd_buf tr' ! 2) \<and> ht_lookup (table (tr_system tr') 1) 1 = None"
proof -
  let ?tr = "example_translation [0, MoveHandle, 1]"
  have "GetDescriptorType MoveHandle = MoveHandle" by (simp add: GetDescriptorType_def IsHandleDescriptor_def descriptor_types)
  moreover have "sent_object 1 1 1 example_system = Some (HT_Event, 7)" using example_tables(2) by (simp add: sent_object_eq CurrentThread_def CurrentProcess_def)
  ultimately show ?thesis
    using handles_translated [of 1 2 ?tr MoveHandle 1 2 3 example_outside "\<lambda>_ _. 0" False 1 0] example_tables(1) move_one
    by (auto simp: example_translation_def COMMAND_BUFFER_LENGTH_def ht.same_refl CurrentThread_def CurrentProcess_def)
qed

text \<open>Handles that are moved together stay open in the source: only the descriptor of a single handle is recognised as a move.\<close>

lemma moved_together_stay_open:
  assumes "src \<noteq> dst" "ht_inv (table (tr_system tr) dst)" "length (cmd_buf tr) = COMMAND_BUFFER_LENGTH" "i + 2 \<le> command_size" "command_size \<le> COMMAND_BUFFER_LENGTH"
  shows "\<exists>tr'. translate_descriptor out al reply st src dst dst_address command_size (MoveHandleDesc 2) i tr = Some (Inr 2, tr')
    \<and> table (tr_system tr') src = table (tr_system tr) src"
proof -
  have d: "GetDescriptorType (MoveHandleDesc 2) = MoveHandle" "MoveHandleDesc 2 \<noteq> MoveHandle" "unat (HandleNumberFromDesc (MoveHandleDesc 2)) = 2" by code_simp+
  from translate_handles_copy [OF assms(1) d(2) assms(2) _ assms(3), of i 2 st] assms(4,5) obtain ws t where
    "translate_handles (MoveHandleDesc 2) st src dst 2 i tr = Some (tr\<lparr>cmd_buf := ws, tr_system := upd_table dst t (tr_system tr)\<rparr>)" by auto
  with d assms(1,4) show ?thesis by (simp add: translate_descriptor_def Let_def)
qed

text \<open>
  Only the parameters of handles are checked against the size of the command: any other descriptor in the last word of a full command
  makes the translation access the word after the array.
\<close>

lemma last_descriptor_overruns:
  assumes "GetDescriptorType d \<in> {CallingPid, StaticBuffer, MappedBuffer}"
  shows "translate_descriptor out al reply st src dst dst_address COMMAND_BUFFER_LENGTH d COMMAND_BUFFER_LENGTH tr = None"
  using assms by (auto simp: translate_descriptor_def translate_static_def translate_mapped_def cmd_read_def cmd_write_def descriptor_types)

section \<open>Whole commands\<close>

text \<open>The number of parameters of a descriptor of handles or of a process id.\<close>

definition params :: "u32 \<Rightarrow> nat" where
  "params d = (if GetDescriptorType d = CallingPid then 1 else unat (HandleNumberFromDesc d))"

text \<open>Translate parameters that are copied handles and process ids, all complete.\<close>

fun copies :: "u32 list \<Rightarrow> bool" where
  "copies [] = True"
| "copies (d # ws) = (GetDescriptorType d \<in> {CallingPid, CopyHandle, MoveHandle} \<and> d \<noteq> MoveHandle \<and> params d \<le> length ws \<and> copies (drop (params d) ws))"

text \<open>What such parameters become: \<open>object\<close> is what a handle stands for, \<open>t\<close> the table of the destination, \<open>pid\<close> the process id of the source.\<close>

definition word_ok :: "(Handle \<Rightarrow> kobject option) \<Rightarrow> kobject HandleTable \<Rightarrow> u32 \<Rightarrow> u32 \<Rightarrow> u32 \<Rightarrow> u32 \<Rightarrow> bool" where
  "word_ok object t pid d w w' \<longleftrightarrow> (if GetDescriptorType d = CallingPid then w' = pid else arrives t (object w) w')"

fun delivered :: "(Handle \<Rightarrow> kobject option) \<Rightarrow> kobject HandleTable \<Rightarrow> u32 \<Rightarrow> u32 list \<Rightarrow> u32 list \<Rightarrow> bool" where
  "delivered object t pid [] ws' = (ws' = [])"
| "delivered object t pid (d # ws) ws' =
     (ws' \<noteq> [] \<and> hd ws' = d \<and> list_all2 (word_ok object t pid d) (take (params d) ws) (take (params d) (tl ws'))
      \<and> delivered object t pid (drop (params d) ws) (drop (params d) (tl ws')))"

text \<open>The words from index \<open>i\<close> up to \<open>e\<close>.\<close>

definition between :: "nat \<Rightarrow> nat \<Rightarrow> 'a list \<Rightarrow> 'a list" where
  "between i e xs = map (\<lambda>j. xs ! j) [i ..< e]"

lemma between_Cons: "i < e \<Longrightarrow> between i e xs = xs ! i # between (i + 1) e xs"
  by (simp add: between_def upt_conv_Cons)

lemma between_parts: "i + n \<le> e \<Longrightarrow> drop n (between i e xs) = between (i + n) e xs \<and> take n (between i e xs) = between i (i + n) xs"
  by (simp add: between_def drop_map take_map)

lemma length_between [simp]: "length (between i e xs) = e - i"
  by (simp add: between_def)

lemma one_descriptor:
  assumes sd: "src \<noteq> dst" and cs: "cs \<le> COMMAND_BUFFER_LENGTH" "i + params d \<le> cs" "length (cmd_buf tr) = COMMAND_BUFFER_LENGTH"
    and inv: "ht_inv (table (tr_system tr) dst)" and d: "GetDescriptorType d \<in> {CallingPid, CopyHandle, MoveHandle}" "d \<noteq> MoveHandle"
  shows "\<exists>ws t. translate_descriptor out al reply st src dst a cs d i tr = Some (Inr (params d), tr\<lparr>cmd_buf := ws, tr_system := upd_table dst t (tr_system tr)\<rparr>)
    \<and> length ws = COMMAND_BUFFER_LENGTH \<and> ht_inv t \<and> grows (table (tr_system tr) dst) t \<and> (\<forall>j. j < i \<or> i + params d \<le> j \<longrightarrow> ws ! j = cmd_buf tr ! j)
    \<and> list_all2 (word_ok (\<lambda>h. sent_object st src h (tr_system tr)) t (of_nat (process_id (processes (tr_system tr) src))) d)
        (between i (i + params d) (cmd_buf tr)) (between i (i + params d) ws)"
proof (cases "GetDescriptorType d = CallingPid")
  case True
  let ?ws = "(cmd_buf tr)[i := of_nat (process_id (processes (tr_system tr) src))]"
  have i: "i < COMMAND_BUFFER_LENGTH" "params d = 1" using cs True by (simp_all add: params_def)
  have "CallingPid \<noteq> CopyHandle" "CallingPid \<noteq> MoveHandle" by (simp_all add: descriptor_types)
  then show ?thesis using True i inv cs(3)
    by (intro exI [of _ ?ws] exI [of _ "table (tr_system tr) dst"]) (simp add: translate_descriptor_def cmd_write_def between_def word_ok_def)
next
  case False
  then have ty: "GetDescriptorType d = CopyHandle \<or> GetDescriptorType d = MoveHandle" using d(1) by auto
  have n: "params d = unat (HandleNumberFromDesc d)" using False by (simp add: params_def)
  have "i + params d \<le> COMMAND_BUFFER_LENGTH" using cs by simp
  from translate_handles_copy [OF sd d(2) inv this cs(3), of st] obtain ws t where
    r: "translate_handles d st src dst (params d) i tr = Some (tr\<lparr>cmd_buf := ws, tr_system := upd_table dst t (tr_system tr)\<rparr>)"
      "ht_inv t" "grows (table (tr_system tr) dst) t" "length ws = COMMAND_BUFFER_LENGTH"
      "\<forall>j. i \<le> j \<and> j < i + params d \<longrightarrow> arrives t (sent_object st src (cmd_buf tr ! j) (tr_system tr)) (ws ! j)"
      "\<forall>j. j < i \<or> i + params d \<le> j \<longrightarrow> ws ! j = cmd_buf tr ! j" by (elim exE conjE)
  have "translate_descriptor out al reply st src dst a cs d i tr = Some (Inr (params d), tr\<lparr>cmd_buf := ws, tr_system := upd_table dst t (tr_system tr)\<rparr>)"
    using ty cs(2) r(1) by (auto simp: translate_descriptor_def n Let_def)
  moreover have "list_all2 (word_ok (\<lambda>h. sent_object st src h (tr_system tr)) t (of_nat (process_id (processes (tr_system tr) src))) d)
        (between i (i + params d) (cmd_buf tr)) (between i (i + params d) ws)"
    using r(5) False by (simp add: list_all2_conv_all_nth between_def word_ok_def)
  ultimately show ?thesis using r(2-4,6) by blast
qed

lemma loop_delivers:
  assumes sd: "src \<noteq> dst" and cs: "cs \<le> COMMAND_BUFFER_LENGTH"
  shows "i \<le> cs \<Longrightarrow> length (cmd_buf tr) = COMMAND_BUFFER_LENGTH \<Longrightarrow> ht_inv (table (tr_system tr) dst) \<Longrightarrow> copies (between i cs (cmd_buf tr))
    \<Longrightarrow> \<exists>ws t. translate_loop out al reply st src dst a cs i tr = Some (RESULT_SUCCESS, tr\<lparr>cmd_buf := ws, tr_system := upd_table dst t (tr_system tr)\<rparr>)
      \<and> length ws = COMMAND_BUFFER_LENGTH \<and> ht_inv t \<and> grows (table (tr_system tr) dst) t \<and> (\<forall>j < i. ws ! j = cmd_buf tr ! j)
      \<and> delivered (\<lambda>h. sent_object st src h (tr_system tr)) t (of_nat (process_id (processes (tr_system tr) src))) (between i cs (cmd_buf tr)) (between i cs ws)"
proof (induction "cs - i" arbitrary: i tr rule: less_induct)
  case less
  show ?case
  proof (cases "i < cs")
    case False
    then show ?thesis using less.prems
      by (intro exI [of _ "cmd_buf tr"] exI [of _ "table (tr_system tr) dst"]) (simp add: translate_loop.simps between_def)
  next
    case True
    let ?s = "tr_system tr" and ?d = "cmd_buf tr ! i" and ?n = "params (cmd_buf tr ! i)"
    let ?ok = "word_ok (\<lambda>h. sent_object st src h ?s)" and ?pid = "of_nat (process_id (processes ?s src)) :: u32"
    note sl = between_Cons [OF True]
    have rd: "cmd_read i tr = Some ?d" using True cs by (simp add: cmd_read_def)
    have d: "GetDescriptorType ?d \<in> {CallingPid, CopyHandle, MoveHandle}" "?d \<noteq> MoveHandle" and fits: "i + 1 + ?n \<le> cs"
      and rest: "copies (drop ?n (between (i + 1) cs (cmd_buf tr)))"
      using less.prems(4) True unfolding sl copies.simps by auto
    note parts = between_parts [OF fits]
    from one_descriptor [OF sd cs fits less.prems(2,3) d, of out al reply st a] obtain ws t where
      step: "translate_descriptor out al reply st src dst a cs ?d (i + 1) tr = Some (Inr ?n, tr\<lparr>cmd_buf := ws, tr_system := upd_table dst t ?s\<rparr>)"
      and ws: "length ws = COMMAND_BUFFER_LENGTH" "ht_inv t" "grows (table ?s dst) t" "\<forall>j. j < i + 1 \<or> i + 1 + ?n \<le> j \<longrightarrow> ws ! j = cmd_buf tr ! j"
        "list_all2 (?ok t ?pid ?d) (between (i + 1) (i + 1 + ?n) (cmd_buf tr)) (between (i + 1) (i + 1 + ?n) ws)"
      by (elim exE conjE)
    let ?tr = "tr\<lparr>cmd_buf := ws, tr_system := upd_table dst t ?s\<rparr>"
    have so: "sent_object st src h (tr_system ?tr) = sent_object st src h ?s" for h using sd by (simp add: sent_object_eq)
    have same: "between (i + 1 + ?n) cs ws = between (i + 1 + ?n) cs (cmd_buf tr)" using ws(4) by (simp add: between_def)
    have "cs - (i + 1 + ?n) < cs - i" "length (cmd_buf ?tr) = COMMAND_BUFFER_LENGTH" "ht_inv (table (tr_system ?tr) dst)" "copies (between (i + 1 + ?n) cs (cmd_buf ?tr))"
      using True ws(1,2) rest same parts [of "cmd_buf tr"] by simp_all
    from less.hyps [OF this(1) fits this(2-4)] obtain ws' t' where
      r: "translate_loop out al reply st src dst a cs (i + 1 + ?n) ?tr = Some (RESULT_SUCCESS, ?tr\<lparr>cmd_buf := ws', tr_system := upd_table dst t' (tr_system ?tr)\<rparr>)"
        "length ws' = COMMAND_BUFFER_LENGTH" "ht_inv t'" "grows (table (tr_system ?tr) dst) t'" "\<forall>j < i + 1 + ?n. ws' ! j = cmd_buf ?tr ! j"
        "delivered (\<lambda>h. sent_object st src h (tr_system ?tr)) t' (of_nat (process_id (processes (tr_system ?tr) src))) (between (i + 1 + ?n) cs (cmd_buf ?tr)) (between (i + 1 + ?n) cs ws')"
      by (elim exE conjE)
    have g: "grows t t'" using r(4) by simp
    have mid: "between (i + 1) (i + 1 + ?n) ws' = between (i + 1) (i + 1 + ?n) ws" using r(5) by (auto simp: between_def)
    have "list_all2 (?ok t' ?pid ?d) (between (i + 1) (i + 1 + ?n) (cmd_buf tr)) (between (i + 1) (i + 1 + ?n) ws')"
      unfolding mid by (rule list_all2_mono [OF ws(5)]) (use g in \<open>auto simp: word_ok_def intro: arrives_grows split: if_splits\<close>)
    moreover have "delivered (\<lambda>h. sent_object st src h ?s) t' ?pid (between (i + 1 + ?n) cs (cmd_buf tr)) (between (i + 1 + ?n) cs ws')"
      using r(6) same sd by (simp add: so [simplified])
    moreover have "ws' ! i = ?d" using r(5) ws(4) by simp
    ultimately have "delivered (\<lambda>h. sent_object st src h ?s) t' ?pid (between i cs (cmd_buf tr)) (between i cs ws')"
      unfolding sl between_Cons [OF True, of ws'] using parts [of "cmd_buf tr"] parts [of ws'] by simp
    moreover have "translate_loop out al reply st src dst a cs i tr = Some (RESULT_SUCCESS, tr\<lparr>cmd_buf := ws', tr_system := upd_table dst t' ?s\<rparr>)"
      using True rd step r(1) by (simp add: translate_loop.simps [of out al reply st src dst a cs i])
    moreover have "\<forall>j < i. ws' ! j = cmd_buf tr ! j" using r(5) ws(4) by simp
    ultimately show ?thesis using r(2,3) grows_trans [OF ws(3) g] by blast
  qed
qed

definition bytes_of :: "u32 list \<Rightarrow> u8 list" where
  "bytes_of ws = concat (map (to_bytes 4) ws)"

lemma to_bytes_4: "to_bytes 4 w = [ucast w, ucast (drop_bit 8 w), ucast (drop_bit 16 w), ucast (drop_bit 24 w)]" for w :: u32
  by (simp add: to_bytes_def upt_conv_Cons)

lemma length_bytes_of [simp]: "length (bytes_of ws) = length ws * 4"
  by (induction ws) (simp_all add: bytes_of_def)

lemma words_of_bytes: "words_of (bytes_of ws) = ws"
proof (induction ws)
  case (Cons w ws)
  have "of_bytes (to_bytes 4 w) = w" by (rule of_to_bytes) simp
  with Cons show ?case by (simp add: bytes_of_def to_bytes_4)
qed (simp add: bytes_of_def)

lemma between_append: "between i e (xs @ ys) = drop i xs" if "e = length xs"
  using that by (intro nth_equalityI) (simp_all add: between_def nth_append less_diff_conv add.commute)

text \<open>
  C14: A command whose translate parameters are copied handles and process ids, sent from one process to another: the translation
  always succeeds, and the destination then reads, across page boundaries too, the header and the normal parameters as they were
  sent, every descriptor as it was, for each handle a handle of its own for the same object (0 for an invalid one, or when its
  table is full) and the process id of the sender. The handles it had before stay valid.
\<close>

theorem command_delivered:
  assumes "renderer out = None \<or> renderer out = Some SWRasterizer_flush"
    and "src = owner_process (threads (kernel (tr_system tr)) st)" "dst = owner_process (threads (kernel (tr_system tr)) dt)" "src \<noteq> dst"
    and "mem_ok (tr_memory tr) (page_table_of tr src)" "mem_ok (tr_memory tr) (page_table_of tr dst)" "ht_inv (table (tr_system tr) dst)"
    and "no_device (tr_memory tr) (page_table_of tr src) sa (length ws * 4)" "sa + length ws * 4 \<le> 2 ^ 32"
    and "own_bytes (tr_memory tr) (page_table_of tr dst) da (length ws * 4)" "da + length ws * 4 \<le> 2 ^ 32"
    and "map (byte_at (tr_memory tr) (page_table_of tr src)) [sa ..< sa + length ws * 4] = bytes_of ws" "length stack = COMMAND_BUFFER_LENGTH"
    and "normal = 1 + unat (normal_params_size (ws ! 0))" "length ws = normal + unat (translate_params_size (ws ! 0))" "length ws \<le> COMMAND_BUFFER_LENGTH"
    and "copies (drop normal ws)"
  shows "\<exists>tr' ws'. TranslateCommandBuffer out al stack st dt sa da reply tr = Some (RESULT_SUCCESS, tr')
    \<and> ReadBlock out (page_table_of tr' dst) da (length ws * 4) (tr_memory tr') = Some (bytes_of ws', tr_memory tr')
    \<and> length ws' = length ws \<and> take normal ws' = take normal ws
    \<and> delivered (\<lambda>h. sent_object st src h (tr_system tr)) (table (tr_system tr') dst) (of_nat (process_id (processes (tr_system tr) src))) (drop normal ws) (drop normal ws')
    \<and> (\<forall>h x. ht_lookup (table (tr_system tr) dst) h = Some x \<longrightarrow> ht_lookup (table (tr_system tr') dst) h = Some x)"
proof -
  let ?ms = "tr_memory tr" and ?ps = "page_table_of tr src" and ?pd = "page_table_of tr dst" and ?cs = "length ws"
  note quiet = quiet_out [OF assms(1)]
  have ne: "ws \<noteq> []" "4 \<le> ?cs * 4" using assms(14,15) by auto
  have nd: "no_device ?ms ?ps sa 4" using assms(8) ne(2) by (simp add: no_device_def)
  have "map (byte_at ?ms ?ps) [sa ..< sa + 4] = take 4 (map (byte_at ?ms ?ps) [sa ..< sa + ?cs * 4])" using ne(2) by (simp add: take_map)
  also have "\<dots> = to_bytes 4 (ws ! 0)" unfolding assms(12) using ne(1) by (cases ws) (simp_all add: bytes_of_def)
  finally have read1: "ReadBlock out ?ps sa 4 ?ms = Some (to_bytes 4 (ws ! 0), ?ms)" using quiet_renderer.read_bytes [OF quiet assms(5) nd] assms(9) ne(2) by simp
  have read2: "ReadBlock out ?ps sa (?cs * 4) ?ms = Some (bytes_of ws, ?ms)" using quiet_renderer.read_bytes [OF quiet assms(5,8,9)] assms(12) by simp
  have h: "of_bytes (to_bytes 4 (ws ! 0)) = ws ! 0" by (rule of_to_bytes) simp
  let ?tr = "tr\<lparr>tr_memory := ?ms, cmd_buf := ws @ drop ?cs stack\<rparr>"
  have b: "between normal ?cs (ws @ drop ?cs stack) = drop normal ws" by (rule between_append) simp
  have "normal \<le> ?cs" "length (cmd_buf ?tr) = COMMAND_BUFFER_LENGTH" "ht_inv (table (tr_system ?tr) dst)" "copies (between normal ?cs (cmd_buf ?tr))"
    using assms(7,13,15-17) b by simp_all
  from loop_delivers [OF assms(4,16) this, of out al reply st da] obtain vs t where
    l: "translate_loop out al reply st src dst da ?cs normal ?tr = Some (RESULT_SUCCESS, ?tr\<lparr>cmd_buf := vs, tr_system := upd_table dst t (tr_system ?tr)\<rparr>)"
      "length vs = COMMAND_BUFFER_LENGTH" "grows (table (tr_system ?tr) dst) t" "\<forall>j < normal. vs ! j = cmd_buf ?tr ! j"
      "delivered (\<lambda>h. sent_object st src h (tr_system ?tr)) t (of_nat (process_id (processes (tr_system ?tr) src))) (between normal ?cs (cmd_buf ?tr)) (between normal ?cs vs)"
    by (elim exE conjE)
  let ?ws = "take ?cs vs"
  have lw: "length ?ws = ?cs" using l(2) assms(16) by simp
  have bl: "length (bytes_of ?ws) = ?cs * 4" using lw by simp
  let ?ms' = "set_host (put (locate ?ms ?pd) da (bytes_of ?ws) (host ?ms)) ?ms"
  have wr: "WriteBlock out ?pd da (Buffer (bytes_of ?ws)) (?cs * 4) ?ms = Some ?ms'"
    using blocks_bytes_write [OF assms(1,6), of da "bytes_of ?ws"] own_bytes_no_device [OF assms(10)] assms(11) unfolding bl by simp
  have "mem_ok ?ms' ?pd" using put_same_blocks [OF assms(6), of "host ?ms"] assms(6) by (subst mem_ok_set_host) (simp_all add: same_blocks_def)
  moreover have "no_device ?ms' ?pd da (?cs * 4)" using own_bytes_no_device [OF assms(10)] by simp
  ultimately have rd: "ReadBlock out ?pd da (?cs * 4) ?ms' = Some (bytes_of ?ws, ?ms')"
    using quiet_renderer.read_bytes [OF quiet] own_bytes_put [OF assms(10) bl, of "host ?ms"] assms(11) by simp
  have e: "1 + unat (normal_params_size (ws ! 0)) = normal" "normal + unat (translate_params_size (ws ! 0)) = ?cs" using assms(14,15) by simp_all
  have "TranslateCommandBuffer out al stack st dt sa da reply tr = do {
      (result, tr) \<leftarrow> translate_loop out al reply st src dst da ?cs normal ?tr;
      if result = RESULT_SUCCESS
      then do {
        ms \<leftarrow> WriteBlock out (page_table_of tr dst) da (Buffer (bytes_of (take ?cs (cmd_buf tr)))) (?cs * 4) (tr_memory tr);
        Some (RESULT_SUCCESS, tr\<lparr>tr_memory := ms\<rparr>) }
      else Some (result, tr) }"
    by (simp only: TranslateCommandBuffer_def Let_def assms(2,3) [symmetric] read1 read2 h e Option.bind.bind_lunit prod.case words_of_bytes bytes_of_def [symmetric]
        assms(16) ASSERT_simps)
  then have "TranslateCommandBuffer out al stack st dt sa da reply tr
      = Some (RESULT_SUCCESS, ?tr\<lparr>cmd_buf := vs, tr_system := upd_table dst t (tr_system tr), tr_memory := ?ms'\<rparr>)"
    using l(1) wr by simp
  moreover have "take normal ?ws = take normal ws"
    using l(2,4) assms(15,16) by (intro nth_equalityI) (auto simp: nth_append)
  moreover have "drop normal ?ws = between normal ?cs vs" using l(2) assms(16) by (intro nth_equalityI) (simp_all add: between_def)
  moreover have "delivered (\<lambda>h. sent_object st src h (tr_system tr)) t (of_nat (process_id (processes (tr_system tr) src))) (drop normal ws) (between normal ?cs vs)"
    using l(5) b by simp
  ultimately show ?thesis using rd lw l(3)
    by (intro exI [of _ "?tr\<lparr>cmd_buf := vs, tr_system := upd_table dst t (tr_system tr), tr_memory := ?ms'\<rparr>"] exI [of _ ?ws]) (simp add: grows_def)
qed

text \<open>A command in the memory of the source: an ordinary parameter, a handle to copy and a process id.\<close>

definition example_command :: "u32 list" where
  "example_command = [MakeHeader 5 1 4, 42, CopyHandleDesc 1, 1, CallingPidDesc, 0]"

definition command_memory :: "unit MemorySystem" where
  "command_memory = set_host (\<lambda>a. Some (if 0x5000 \<le> a \<and> a < 0x5018 then bytes_of example_command ! (a - 0x5000) else 0)) example_memory"

lemma command_memory_ok: "mem_ok command_memory pt"
  using example_ok [of pt] by (subst command_memory_def, subst mem_ok_set_host) (simp_all add: same_blocks_def)

lemma command_memory_bytes: "map (byte_at command_memory pt) [0x100000 ..< 0x100000 + length example_command * 4] = bytes_of example_command"
proof (rule nth_equalityI)
  fix i assume "i < length (map (byte_at command_memory pt) [0x100000 ..< 0x100000 + length example_command * 4])"
  then have "i < length example_command * 4" "i < 24" by (simp_all add: example_command_def)
  then show "map (byte_at command_memory pt) [0x100000 ..< 0x100000 + length example_command * 4] ! i = bytes_of example_command ! i"
    by (simp add: byte_at_def command_memory_def example_locate)
qed simp

lemma example_header: "unat (normal_params_size (MakeHeader 5 1 4)) = 1" "unat (translate_params_size (MakeHeader 5 1 4)) = 4"
  by code_simp+

theorem command_delivered_witness:
  "\<exists>tr' ws'. TranslateCommandBuffer example_outside (\<lambda>_ _. 0) (replicate 64 0) 1 2 0x100000 0x14000010 False ((example_translation [])\<lparr>tr_memory := command_memory\<rparr>)
       = Some (RESULT_SUCCESS, tr')
     \<and> ReadBlock example_outside (page_table_of tr' 2) 0x14000010 24 (tr_memory tr') = Some (bytes_of ws', tr_memory tr')
     \<and> take 2 ws' = take 2 example_command \<and> ws' ! 5 = 1 \<and> arrives (table (tr_system tr') 2) (Some (HT_Event, 7)) (ws' ! 3)"
proof -
  let ?tr = "(example_translation [])\<lparr>tr_memory := command_memory\<rparr>"
  have l: "length example_command * 4 = 24" by (simp add: example_command_def)
  have tr: "tr_system ?tr = example_system" "page_table_of ?tr = (\<lambda>p. p)" "tr_memory ?tr = command_memory" by (simp_all add: example_translation_def)
  have d: "no_device command_memory 1 0x100000 (length example_command * 4)" by (auto simp: no_device_def command_memory_def example_memory_def example_table_def)
  have o: "own_bytes command_memory 2 0x14000010 (length example_command * 4)" unfolding l by (auto simp: own_bytes_def command_memory_def example_locate)
  have ds: "params (CopyHandleDesc 1) = 1" "params CallingPidDesc = 1" "GetDescriptorType (CopyHandleDesc 1) = CopyHandle" "GetDescriptorType CallingPidDesc = CallingPid"
    "CopyHandle \<noteq> CallingPid"
    by code_simp+
  have c: "copies (drop 2 example_command)" by (simp add: example_command_def ds) (simp add: descriptor_types CopyHandleDesc_def CallingPidDesc_def)
  have so: "sent_object 1 1 1 example_system = Some (HT_Event, 7)" using example_tables(2) by (simp add: sent_object_eq CurrentThread_def CurrentProcess_def)
  have p: "1 = owner_process (threads (kernel example_system) 1)" "2 = owner_process (threads (kernel example_system) 2)" "process_id (processes example_system 1) = 1"
    by (simp_all add: example_system_def example_process_def)
  have h: "2 = 1 + unat (normal_params_size (example_command ! 0))" "length example_command = 2 + unat (translate_params_size (example_command ! 0))"
    by (simp_all add: example_command_def example_header)
  obtain tr' ws' where w: "TranslateCommandBuffer example_outside (\<lambda>_ _. 0) (replicate 64 0) 1 2 0x100000 0x14000010 False ?tr = Some (RESULT_SUCCESS, tr')"
    "ReadBlock example_outside (page_table_of tr' 2) 0x14000010 (length example_command * 4) (tr_memory tr') = Some (bytes_of ws', tr_memory tr')"
    "length ws' = length example_command" "take 2 ws' = take 2 example_command"
    "delivered (\<lambda>h. sent_object 1 1 h example_system) (table (tr_system tr') 2) 1 (drop 2 example_command) (drop 2 ws')"
    using command_delivered [of example_outside 1 ?tr 1 2 2 "0x100000" example_command "0x14000010" "replicate 64 0" 2 "\<lambda>_ _. 0" False, unfolded tr p(3),
      OF _ p(1,2) _ command_memory_ok command_memory_ok example_tables(1) d _ o _ command_memory_bytes _ h _ c]
    by (auto simp: COMMAND_BUFFER_LENGTH_def l example_command_def)
  have "arrives (table (tr_system tr') 2) (Some (HT_Event, 7)) (ws' ! 3) \<and> ws' ! 5 = 1"
    using w(3,5) so by (auto simp: example_command_def ds word_ok_def length_Suc_conv)
  with w show ?thesis unfolding l by blast
qed

end
