(* ===== verification/Ipc_Buffers.thy ===== *)
theory Ipc_Buffers
  imports Ipc_Translate
begin

text \<open>
  The buffers of commands: a static buffer is copied to where the destination expects it; a mapped buffer is copied into fresh
  memory that is mapped between two guard pages, and the reply copies it back and takes the mapping away.
\<close>

section \<open>Memory that grows\<close>

text \<open>
  Host memory is only added, and no address but those of page table \<open>pt\<close> in \<open>A\<close> moves. This is what allocating blocks and
  mapping them keep of the memory.
\<close>

definition grown :: "(nat \<Rightarrow> bool) \<Rightarrow> nat \<Rightarrow> 'd MemorySystem \<Rightarrow> 'd MemorySystem \<Rightarrow> bool" where
  "grown A pt ms ms' \<longleftrightarrow> host ms \<subseteq>\<^sub>m host ms' \<and> cache_marker ms' = cache_marker ms \<and> fcram ms' = fcram ms \<and> vram ms' = vram ms
     \<and> (\<forall>q a. q \<noteq> pt \<or> \<not> A a \<longrightarrow> locate ms' q a = locate ms q a
           \<and> attributes (page_tables ms' q) (a div PAGE_SIZE) = attributes (page_tables ms q) (a div PAGE_SIZE)
           \<and> raw_pointer (page_tables ms' q) (a div PAGE_SIZE) = raw_pointer (page_tables ms q) (a div PAGE_SIZE))"

lemma same_outside_grown: "same_outside A pt ms ms' \<Longrightarrow> grown A pt ms ms'"
  by (simp add: same_outside_def grown_def)

lemma grown_trans: "grown A pt ms ms' \<Longrightarrow> grown B pt ms' ms'' \<Longrightarrow> grown (\<lambda>a. A a \<or> B a) pt ms ms''"
  unfolding grown_def by (auto intro: map_le_trans)

lemma grown_mono: "grown A pt ms ms' \<Longrightarrow> (\<And>a. A a \<Longrightarrow> B a) \<Longrightarrow> grown B pt ms ms'"
  unfolding grown_def by blast

lemma grown_host: "host ms \<subseteq>\<^sub>m h \<Longrightarrow> grown (\<lambda>_. False) pt ms (set_host h ms)"
  using locate_set_host [of h ms] by (simp add: grown_def) (simp add: set_host_def)

lemma grown_allocated: "grown A pt ms ms' \<Longrightarrow> allocated ms p n \<Longrightarrow> allocated ms' p n"
  unfolding grown_def allocated_def map_le_def by (metis domI domIff)

lemma grown_mem_ok:
  assumes "grown A pt ms ms'" "q \<noteq> pt \<or> A = (\<lambda>_. False)" "mem_ok ms q"
  shows "mem_ok ms' q"
proof -
  have "attributes (page_tables ms' q) i = attributes (page_tables ms q) i \<and> raw_pointer (page_tables ms' q) i = raw_pointer (page_tables ms q) i" for i
    using assms(1,2) unfolding grown_def by (metis nonzero_mult_div_cancel_right PAGE_SIZE_def zero_neq_numeral)
  then have "page_ok ms' (page_tables ms' q) i" if "page_ok ms (page_tables ms q) i" for i
    using that grown_allocated [OF assms(1)] by (auto simp: page_ok_def split: PageType.splits)
  moreover have "fcram ms' = fcram ms" "vram ms' = vram ms" using assms(1) by (simp_all add: grown_def)
  ultimately show ?thesis using assms(3) grown_allocated [OF assms(1)] by (simp add: mem_ok_def)
qed

lemma grown_byte:
  assumes "grown A pt ms ms'" "q \<noteq> pt \<or> \<not> A a" "mem_ok ms q"
  shows "byte_at ms' q a = byte_at ms q a"
proof (cases "locate ms q a")
  case None
  with assms(1,2) show ?thesis by (simp add: byte_at_def grown_def)
next
  case (Some p)
  from located_allocated [OF assms(3) this] obtain v where "host ms p = Some v" by blast
  with Some assms(1,2) show ?thesis unfolding byte_at_def grown_def map_le_def by (metis domI option.case(2))
qed

lemma grown_no_device: "grown A pt ms ms' \<Longrightarrow> q \<noteq> pt \<Longrightarrow> no_device ms' q = no_device ms q"
  by (intro ext) (simp add: grown_def no_device_def)

lemma grown_other:
  assumes "grown A pt ms ms'" "q \<noteq> pt" "mem_ok ms q"
  shows "mem_ok ms' q" "byte_at ms' q = byte_at ms q" "no_device ms' q = no_device ms q"
  using grown_mem_ok [OF assms(1) _ assms(3)] grown_byte [OF assms(1) _ assms(3)] grown_no_device [OF assms(1,2)] assms(2) by (auto intro: ext)

lemma grown_space_ok:
  assumes "grown (\<lambda>_. False) pt ms ms'" "space_ok ms q vm"
  shows "space_ok ms' q vm"
proof -
  have "mirrors ms' q x a" if "mirrors ms q x a" for x a
    using that assms(1) by (auto simp: grown_def mirrors_def split: VMAType.splits prod.splits)
  then show ?thesis using assms(2) grown_mem_ok [OF assms(1)] by (auto simp: space_ok_def mirror_def)
qed

section \<open>Room for mappings\<close>

definition room :: "VMManager \<Rightarrow> nat \<Rightarrow> nat \<Rightarrow> bool" where
  "room vm t n \<longleftrightarrow> IPC_MAPPING_VADDR \<le> t \<and> mapped_range vm IPC_MAPPING_VADDR (t - IPC_MAPPING_VADDR) \<and> free_range vm t n
     \<and> t + n \<le> IPC_MAPPING_VADDR + IPC_MAPPING_SIZE \<and> t mod PAGE_SIZE = 0"

text \<open>A block is mapped at the first free address of the region, and the page table follows.\<close>

lemma map_to_base_maps:
  fixes tr :: "'d Translation"
  assumes quiet: "quiet_renderer out" and ok: "space_ok (tr_memory tr) (page_table_of tr dst) (vm_managers tr dst)"
    and r: "room (vm_managers tr dst) t (sz + n)" and sz: "0 < sz" "sz mod PAGE_SIZE = 0"
    and memory: "allocated (tr_memory tr) (GetPtr memory) sz" "sz \<le> GetSize memory"
  shows "\<exists>vm ms. map_to_base out dst memory sz state tr = Some (MakeResult t, tr\<lparr>vm_managers := (vm_managers tr)(dst := vm), tr_memory := ms\<rparr>)
    \<and> space_ok ms (page_table_of tr dst) vm \<and> same_outside (\<lambda>a. t \<le> a \<and> a < t + sz) (page_table_of tr dst) (tr_memory tr) ms
    \<and> (\<forall>a. attr_at (vma_map vm) a = (if t \<le> a \<and> a < t + sz
          then Some (VMA_BackingMemory, Perm_ReadWrite, state, GetPtr memory + (a - t), 0) else attr_at (vma_map (vm_managers tr dst)) a))
    \<and> room vm (t + sz) n"
proof -
  let ?vm = "vm_managers tr dst" and ?ms = "tr_memory tr" and ?pt = "page_table_of tr dst"
  have inv: "vm_inv ?vm" using ok by (simp add: space_ok_def)
  have rm: "IPC_MAPPING_VADDR \<le> t" "mapped_range ?vm IPC_MAPPING_VADDR (t - IPC_MAPPING_VADDR)" "free_range ?vm t (sz + n)" "t mod PAGE_SIZE = 0"
    and e: "t + sz + n \<le> IPC_MAPPING_VADDR + IPC_MAPPING_SIZE" using r by (simp_all add: room_def)
  have fr: "free_range ?vm t sz" using rm(3) by (simp add: free_range_def)
  have c: "cache_agrees ?ms t memory sz"
    unfolding cache_agrees_def
  proof (intro allI impI, elim conjE)
    fix a assume a: "t \<le> a" "a < t + sz" and i: "IsCached (a div PAGE_SIZE * PAGE_SIZE) (cache_marker ?ms)"
    have "a div PAGE_SIZE * PAGE_SIZE \<le> a" by simp
    with a e have "a div PAGE_SIZE * PAGE_SIZE < 0x08000000" unfolding IPC_MAPPING_VADDR_def IPC_MAPPING_SIZE_def by linarith
    with IsCached_cacheable [OF i] show "map_option GetPtr (GetPointerForRasterizerCache a ?ms) = Some (GetPtr memory + (a - t))"
      by (auto simp: cacheable_def region_defs)
  qed
  from map_mirrored [OF quiet ok rm(4) sz(2,1) fr memory c, of state] obtain h vm us ms where
    m: "MapBackingMemory t memory sz state ?vm = Some (MakeResult h, vm)" "page_updates vm = page_updates ?vm @ us"
      "apply_updates out ?pt us ?ms = Some ms" "space_ok ms ?pt vm" "same_outside (\<lambda>a. t \<le> a \<and> a < t + sz) ?pt ?ms ms"
      "\<forall>a. attr_at (vma_map vm) a = (if t \<le> a \<and> a < t + sz
          then Some (VMA_BackingMemory, Perm_ReadWrite, state, GetPtr memory + (a - t), 0) else attr_at (vma_map ?vm) a)"
    by (elim exE conjE)
  have "MapBackingMemoryToBase IPC_MAPPING_VADDR IPC_MAPPING_SIZE memory sz state ?vm = Some (MakeResult t, vm)"
    using MapBackingMemoryToBase_first [OF inv rm(1,2) fr sz(1), of IPC_MAPPING_SIZE memory state] e m(1)
    by (simp add: IPC_MAPPING_VADDR_def IPC_MAPPING_SIZE_def)
  then have "map_to_base out dst memory sz state tr = Some (MakeResult t, tr\<lparr>vm_managers := (vm_managers tr)(dst := vm), tr_memory := ms\<rparr>)"
    using m(2,3) by (simp add: map_to_base_def vm_run_def)
  moreover have "room vm (t + sz) n"
    using m(6) rm e sz by (auto simp: room_def mapped_range_def free_range_def mod_add_eq [of t PAGE_SIZE sz, symmetric])
  ultimately show ?thesis using m(4-6) by blast
qed

section \<open>Sending a mapped buffer\<close>

text \<open>
  The allocator gives memory that is not in use, while only finitely many bytes are.
\<close>

definition fresh_blocks :: "allocator \<Rightarrow> bool" where
  "fresh_blocks al \<longleftrightarrow> (\<forall>n h. finite (dom h) \<longrightarrow> al n h \<noteq> 0 \<and> (\<forall>a. al n h \<le> a \<and> a < al n h + n \<longrightarrow> h a = None))"

lemma BufferMem_new_fresh:
  assumes "fresh_blocks al" "finite (dom (host (tr_memory tr)))"
  obtains p where "BufferMem_new al n tr = (\<lparr>backing_mem = Some (p, n), mr_offset = 0\<rparr>,
      tr\<lparr>tr_memory := set_host (\<lambda>a. if p \<le> a \<and> a < p + n then Some 0 else host (tr_memory tr) a) (tr_memory tr)\<rparr>)"
    "p \<noteq> 0" "\<forall>a. p \<le> a \<and> a < p + n \<longrightarrow> host (tr_memory tr) a = None"
  using assms by (intro that [of "al n (host (tr_memory tr))"]) (auto simp: BufferMem_new_def fresh_blocks_def Let_def)

lemma finite_block: "finite (dom h) \<Longrightarrow> finite (dom (\<lambda>a. if p \<le> a \<and> a < p + n then Some (f a) else h a))" for p n :: nat
proof (rule finite_subset)
  show "dom (\<lambda>a. if p \<le> a \<and> a < p + n then Some (f a) else h a) \<subseteq> dom h \<union> {p ..< p + n}" by (auto split: if_splits)
qed simp

lemma aligned_up: "(v + (n - v mod n) mod n) mod n = 0" if "0 < n" for v n :: nat
proof (cases "v mod n = 0")
  case False
  have "v mod n < n" using that by simp
  with False have "(n - v mod n) mod n = n - v mod n" by simp
  moreover have "v + (n - v mod n) = (v div n + 1) * n" using \<open>v mod n < n\<close> div_mult_mod_eq [of v n] unfolding add_mult_distrib by linarith
  ultimately show ?thesis by (metis mod_mult_self2_is_0)
qed simp

text \<open>The pages of a buffer: whole pages with room for it.\<close>

lemma pages_fit:
  assumes "0 < sz" "sz < 2 ^ 28"
  shows "page_offset_of source + sz \<le> num_pages_of source sz * PAGE_SIZE" "0 < num_pages_of source sz" "page_offset_of source < PAGE_SIZE"
    "page_offset_of source = source mod PAGE_SIZE" "num_pages_of source sz * PAGE_SIZE < page_offset_of source + sz + PAGE_SIZE"
proof -
  let ?o = "page_offset_of source"
  show o: "?o = source mod PAGE_SIZE" by (simp add: page_offset_of_def AlignDown_def)
  then show "?o < PAGE_SIZE" by (simp add: PAGE_SIZE_def)
  then have lt: "?o + sz + PAGE_SIZE < 2 ^ 32" using assms(2) by (simp add: PAGE_SIZE_def)
  have "num_pages_of source sz * PAGE_SIZE = ?o + sz + (PAGE_SIZE - (?o + sz) mod PAGE_SIZE) mod PAGE_SIZE"
  proof -
    have a: "add32 ?o sz = ?o + sz" using lt by (intro add32_small) simp
    have "?o + sz + (PAGE_SIZE - (?o + sz) mod PAGE_SIZE) mod PAGE_SIZE < 2 ^ 32"
      using lt mod_less_divisor [of PAGE_SIZE "PAGE_SIZE - (?o + sz) mod PAGE_SIZE"] unfolding PAGE_SIZE_def by linarith
    then have "AlignUp (add32 ?o sz) PAGE_SIZE = ?o + sz + (PAGE_SIZE - (?o + sz) mod PAGE_SIZE) mod PAGE_SIZE" unfolding AlignUp_def a by (rule add32_small)
    moreover have "(?o + sz + (PAGE_SIZE - (?o + sz) mod PAGE_SIZE) mod PAGE_SIZE) mod PAGE_SIZE = 0" by (rule aligned_up) (simp add: PAGE_SIZE_def)
    ultimately show ?thesis unfolding num_pages_of_def by (auto elim!: dvdE simp: mod_eq_0_iff_dvd)
  qed
  moreover have "(PAGE_SIZE - (?o + sz) mod PAGE_SIZE) mod PAGE_SIZE < PAGE_SIZE" by (simp add: PAGE_SIZE_def)
  ultimately show "?o + sz \<le> num_pages_of source sz * PAGE_SIZE" "num_pages_of source sz * PAGE_SIZE < ?o + sz + PAGE_SIZE" by linarith+
  then show "0 < num_pages_of source sz" using assms(1) by (cases "num_pages_of source sz") auto
qed

text \<open>The first guard page: a new page of zeros, mapped.\<close>

lemma guard_mapped:
  fixes tr :: "'d Translation"
  assumes quiet: "quiet_renderer out" and al: "fresh_blocks al" "finite (dom (host (tr_memory tr)))"
    and ok: "space_ok (tr_memory tr) (page_table_of tr dst) (vm_managers tr dst)" and rm: "room (vm_managers tr dst) t (PAGE_SIZE + n)"
  shows "\<exists>r vm ms. case BufferMem_new al PAGE_SIZE tr of (R, tr') \<Rightarrow> R = \<lparr>backing_mem = Some (r, PAGE_SIZE), mr_offset = 0\<rparr>
      \<and> map_to_base out dst R PAGE_SIZE MS_Reserved tr' = Some (MakeResult t, tr\<lparr>vm_managers := (vm_managers tr)(dst := vm), tr_memory := ms\<rparr>)
    \<and> allocated ms r PAGE_SIZE \<and> finite (dom (host ms)) \<and> space_ok ms (page_table_of tr dst) vm
    \<and> grown (\<lambda>a. t \<le> a \<and> a < t + PAGE_SIZE) (page_table_of tr dst) (tr_memory tr) ms \<and> room vm (t + PAGE_SIZE) n
    \<and> (\<forall>a. attr_at (vma_map vm) a = (if t \<le> a \<and> a < t + PAGE_SIZE
          then Some (VMA_BackingMemory, Perm_ReadWrite, MS_Reserved, r + (a - t), 0) else attr_at (vma_map (vm_managers tr dst)) a))"
proof -
  let ?ms = "tr_memory tr" and ?pt = "page_table_of tr dst" and ?P = PAGE_SIZE
  have pos: "0 < ?P" "?P mod ?P = 0" by (simp_all add: PAGE_SIZE_def)
  obtain r where r: "BufferMem_new al ?P tr = (\<lparr>backing_mem = Some (r, ?P), mr_offset = 0\<rparr>,
      tr\<lparr>tr_memory := set_host (\<lambda>a. if r \<le> a \<and> a < r + ?P then Some 0 else host ?ms a) ?ms\<rparr>)"
    "r \<noteq> 0" "\<forall>a. r \<le> a \<and> a < r + ?P \<longrightarrow> host ?ms a = None"
    by (rule BufferMem_new_fresh [OF al, of ?P])
  let ?R = "\<lparr>backing_mem = Some (r, ?P), mr_offset = 0\<rparr>" and ?h = "\<lambda>a. if r \<le> a \<and> a < r + ?P then Some 0 else host ?ms a"
  let ?tr = "tr\<lparr>tr_memory := set_host ?h ?ms\<rparr>"
  have g: "grown (\<lambda>_. False) ?pt ?ms (set_host ?h ?ms)" by (rule grown_host) (use r(3) in \<open>auto simp: map_le_def\<close>)
  have R: "GetPtr ?R = r" "GetSize ?R = ?P" by (simp_all add: GetPtr_def GetSize_def)
  have a: "allocated (set_host ?h ?ms) r ?P" using r(2) by (simp add: allocated_def)
  have "space_ok (tr_memory ?tr) (page_table_of ?tr dst) (vm_managers ?tr dst)" using grown_space_ok [OF g ok] by simp
  from map_to_base_maps [OF quiet this _ pos, where memory = ?R and state = MS_Reserved, of t n] rm a obtain vm ms where
    m: "map_to_base out dst ?R ?P MS_Reserved ?tr = Some (MakeResult t, ?tr\<lparr>vm_managers := (vm_managers tr)(dst := vm), tr_memory := ms\<rparr>)"
      "space_ok ms ?pt vm" "same_outside (\<lambda>a. t \<le> a \<and> a < t + ?P) ?pt (set_host ?h ?ms) ms" "room vm (t + ?P) n"
      "\<forall>a. attr_at (vma_map vm) a = (if t \<le> a \<and> a < t + ?P
          then Some (VMA_BackingMemory, Perm_ReadWrite, MS_Reserved, r + (a - t), 0) else attr_at (vma_map (vm_managers tr dst)) a)"
    by (auto simp: R)
  have "host ms = ?h" using m(3) by (simp add: same_outside_def)
  then have "finite (dom (host ms))" "allocated ms r ?P" using finite_block [OF al(2)] a by (simp_all add: allocated_def)
  moreover have "grown (\<lambda>a. t \<le> a \<and> a < t + ?P) ?pt ?ms ms" using grown_trans [OF g same_outside_grown [OF m(3)]] by (rule grown_mono) simp
  ultimately show ?thesis using m by (intro exI [of _ r] exI [of _ vm] exI [of _ ms]) (simp add: r(1))
qed

text \<open>The buffer: new memory into which the bytes of the sender are read.\<close>

definition buffer_byte :: "nat \<Rightarrow> u8 list \<Rightarrow> nat \<Rightarrow> u8" where
  "buffer_byte off data j = (if off \<le> j \<and> j < off + length data then data ! (j - off) else 0)"

lemma buffer_filled:
  fixes tr :: "'d Translation"
  assumes quiet: "quiet_renderer out" and al: "fresh_blocks al" "finite (dom (host (tr_memory tr)))"
    and src: "mem_ok (tr_memory tr) pts" "no_device (tr_memory tr) pts source sz" "source + sz \<le> 2 ^ 32" and fit: "off + sz \<le> n"
  shows "\<exists>p h. case BufferMem_new al n tr of (B, tr') \<Rightarrow> B = \<lparr>backing_mem = Some (p, n), mr_offset = 0\<rparr> \<and> tr' = tr\<lparr>tr_memory := tr_memory tr'\<rparr>
    \<and> (let data = map (byte_at (tr_memory tr) pts) [source ..< source + sz]
       in ReadBlock out pts source sz (tr_memory tr') = Some (data, tr_memory tr') \<and> host_write (host (tr_memory tr')) (p + off) data = Some h
        \<and> (\<forall>j < n. h (p + j) = Some (buffer_byte off data j)))
    \<and> set_host h (tr_memory tr') = set_host h (tr_memory tr) \<and> host (tr_memory tr) \<subseteq>\<^sub>m h \<and> allocated (set_host h (tr_memory tr)) p n"
proof -
  let ?ms = "tr_memory tr"
  obtain p where p: "BufferMem_new al n tr = (\<lparr>backing_mem = Some (p, n), mr_offset = 0\<rparr>,
      tr\<lparr>tr_memory := set_host (\<lambda>a. if p \<le> a \<and> a < p + n then Some 0 else host ?ms a) ?ms\<rparr>)"
    "p \<noteq> 0" "\<forall>a. p \<le> a \<and> a < p + n \<longrightarrow> host ?ms a = None"
    by (rule BufferMem_new_fresh [OF al, of n])
  let ?h = "\<lambda>a. if p \<le> a \<and> a < p + n then Some 0 else host ?ms a" and ?data = "map (byte_at ?ms pts) [source ..< source + sz]"
  have le: "host ?ms \<subseteq>\<^sub>m ?h" using p(3) by (auto simp: map_le_def)
  note g = grown_host [OF le, of 0]
  have "map (byte_at (set_host ?h ?ms) pts) [source ..< source + sz] = ?data" using grown_byte [OF g _ src(1)] by simp
  moreover have "mem_ok (set_host ?h ?ms) pts" by (rule grown_mem_ok [OF g _ src(1)]) simp
  ultimately have rd: "ReadBlock out pts source sz (set_host ?h ?ms) = Some (?data, set_host ?h ?ms)"
    using quiet_renderer.read_bytes [OF quiet _ _ src(3)] src(2) by simp
  let ?h' = "\<lambda>a. if p + off \<le> a \<and> a < p + off + length ?data then Some (?data ! (a - (p + off))) else ?h a"
  have "host_write ?h (p + off) ?data = Some ?h'" using fit by (auto simp: host_write_def list_all_iff)
  moreover have "host ?ms \<subseteq>\<^sub>m ?h'" using p(3) fit by (auto simp: map_le_def)
  moreover have "\<forall>j < n. ?h' (p + j) = Some (buffer_byte off ?data j)" by (simp add: buffer_byte_def)
  moreover have "allocated (set_host ?h' ?ms) p n" using p(2) by (simp add: allocated_def)
  ultimately show ?thesis using rd by (intro exI [of _ p] exI [of _ ?h']) (simp add: p(1) Let_def)
qed

text \<open>The addresses of a buffer of \<open>n\<close> pages at \<open>p\<close> that is mapped at \<open>t\<close> with its guard pages.\<close>

definition buffer_attr :: "nat \<Rightarrow> nat \<Rightarrow> nat \<Rightarrow> nat \<Rightarrow> VMManager \<Rightarrow> nat \<Rightarrow> (VMAType \<times> VMAPermission \<times> MemoryState \<times> nat \<times> nat) option" where
  "buffer_attr t n p r vm a =
     (if t \<le> a \<and> a < t + PAGE_SIZE then Some (VMA_BackingMemory, Perm_ReadWrite, MS_Reserved, r + (a - t), 0)
      else if t + PAGE_SIZE \<le> a \<and> a < t + PAGE_SIZE + n * PAGE_SIZE then Some (VMA_BackingMemory, Perm_ReadWrite, MS_Shared, p + (a - (t + PAGE_SIZE)), 0)
      else if t + PAGE_SIZE + n * PAGE_SIZE \<le> a \<and> a < t + PAGE_SIZE + n * PAGE_SIZE + PAGE_SIZE
      then Some (VMA_BackingMemory, Perm_ReadWrite, MS_Reserved, r + (a - (t + PAGE_SIZE + n * PAGE_SIZE)), 0)
      else attr_at (vma_map vm) a)"

lemma map_buffer_runs:
  fixes tr :: "'d Translation"
  assumes quiet: "quiet_renderer out" and al: "fresh_blocks al" "finite (dom (host (tr_memory tr)))" and pt: "pts \<noteq> ptd"
    "pts = page_table_of tr src" "ptd = page_table_of tr dst"
    and src: "mem_ok (tr_memory tr) pts" "no_device (tr_memory tr) pts source sz" "source + sz \<le> 2 ^ 32"
    and dst: "space_ok (tr_memory tr) ptd (vm_managers tr dst)"
    and fit: "off = page_offset_of source" "n = num_pages_of source sz" "off + sz \<le> n * PAGE_SIZE" "0 < n"
    and rm: "room (vm_managers tr dst) t (PAGE_SIZE + (n * PAGE_SIZE + (PAGE_SIZE + 0)))" and i: "i < COMMAND_BUFFER_LENGTH"
  shows "\<exists>vm ms p r. map_buffer out al src dst perms source sz i tr
      = Some (tr\<lparr>tr_memory := ms, vm_managers := (vm_managers tr)(dst := vm), cmd_buf := (cmd_buf tr)[i := of_nat (t + PAGE_SIZE + off)],
          mapped_buffer_context := mapped_buffer_context tr @ [\<lparr>mb_permissions = perms, mb_size = sz, source_address = source,
            target_address = add32 (t + PAGE_SIZE) off, mb_buffer = \<lparr>backing_mem = Some (p, n * PAGE_SIZE), mr_offset = 0\<rparr>,
            reserve_buffer = \<lparr>backing_mem = Some (r, PAGE_SIZE), mr_offset = 0\<rparr>\<rparr>]\<rparr>)
    \<and> space_ok ms ptd vm \<and> grown (\<lambda>a. t \<le> a \<and> a < t + PAGE_SIZE + n * PAGE_SIZE + PAGE_SIZE) ptd (tr_memory tr) ms
    \<and> attr_at (vma_map vm) = buffer_attr t n p r (vm_managers tr dst)
    \<and> (\<forall>j < n * PAGE_SIZE. host ms (p + j) = Some (buffer_byte off (map (byte_at (tr_memory tr) pts) [source ..< source + sz]) j))"
proof -
  let ?N = "n * PAGE_SIZE" and ?P = PAGE_SIZE
  let ?data = "map (byte_at (tr_memory tr) pts) [source ..< source + sz]"
  have pos: "0 < ?P" "?P mod ?P = 0" "0 < ?N" "?N mod ?P = 0" using fit(4) by (simp_all add: PAGE_SIZE_def)
  obtain R tr1 where b1: "BufferMem_new al ?P tr = (R, tr1)" by fastforce
  with guard_mapped [OF quiet al dst [unfolded pt(3)] rm] obtain r vm1 ms1 where
    m1: "R = \<lparr>backing_mem = Some (r, ?P), mr_offset = 0\<rparr>" "map_to_base out dst R ?P MS_Reserved tr1 = Some (MakeResult t, tr\<lparr>vm_managers := (vm_managers tr)(dst := vm1), tr_memory := ms1\<rparr>)"
      "allocated ms1 r ?P" "finite (dom (host ms1))" "space_ok ms1 ptd vm1" "grown (\<lambda>a. t \<le> a \<and> a < t + ?P) ptd (tr_memory tr) ms1"
      "room vm1 (t + ?P) (?N + (?P + 0))" "\<forall>a. attr_at (vma_map vm1) a = (if t \<le> a \<and> a < t + ?P
          then Some (VMA_BackingMemory, Perm_ReadWrite, MS_Reserved, r + (a - t), 0) else attr_at (vma_map (vm_managers tr dst)) a)"
    unfolding pt(3) by auto
  let ?tr1 = "tr\<lparr>vm_managers := (vm_managers tr)(dst := vm1), tr_memory := ms1\<rparr>"
  have ok1: "mem_ok (tr_memory ?tr1) pts" "no_device (tr_memory ?tr1) pts source sz" "map (byte_at ms1 pts) [source ..< source + sz] = ?data"
    using grown_other [OF m1(6) pt(1) src(1)] src(2) by simp_all
  have f1: "finite (dom (host (tr_memory ?tr1)))" using m1(4) by simp
  obtain B tr2 where b2: "BufferMem_new al ?N ?tr1 = (B, tr2)" by fastforce
  with buffer_filled [OF quiet al(1) f1 ok1(1,2) src(3) fit(3)] obtain p h where
    m2: "B = \<lparr>backing_mem = Some (p, ?N), mr_offset = 0\<rparr>" "tr2 = ?tr1\<lparr>tr_memory := tr_memory tr2\<rparr>" "ReadBlock out pts source sz (tr_memory tr2) = Some (?data, tr_memory tr2)"
      "host_write (host (tr_memory tr2)) (p + off) ?data = Some h" "\<forall>j < ?N. h (p + j) = Some (buffer_byte off ?data j)"
      "set_host h (tr_memory tr2) = set_host h ms1" "host ms1 \<subseteq>\<^sub>m h" "allocated (set_host h ms1) p ?N"
    by (auto simp: ok1(3) Let_def simp del: map_eq_conv)
  let ?tr2 = "tr\<lparr>vm_managers := (vm_managers tr)(dst := vm1), tr_memory := set_host h ms1\<rparr>"
  have g2: "grown (\<lambda>_. False) ptd ms1 (set_host h ms1)" using m2(7) by (rule grown_host)
  have ok2: "space_ok (tr_memory ?tr2) (page_table_of ?tr2 dst) (vm_managers ?tr2 dst)" using grown_space_ok [OF g2 m1(5)] by (simp add: pt(3))
  have B: "GetPtr B = p" "GetSize B = ?N" "GetPtr R = r" "GetSize R = ?P" by (simp_all add: m1(1) m2(1) GetPtr_def GetSize_def)
  from map_to_base_maps [OF quiet ok2 _ pos(3,4), where memory = B and state = MS_Shared, of "t + ?P" "?P + 0"] m1(7) m2(8) obtain vm2 ms2 where
    m3: "map_to_base out dst B ?N MS_Shared ?tr2 = Some (MakeResult (t + ?P), ?tr2\<lparr>vm_managers := (vm_managers tr)(dst := vm2), tr_memory := ms2\<rparr>)"
      "space_ok ms2 ptd vm2" "same_outside (\<lambda>a. t + ?P \<le> a \<and> a < t + ?P + ?N) ptd (set_host h ms1) ms2"
      "\<forall>a. attr_at (vma_map vm2) a = (if t + ?P \<le> a \<and> a < t + ?P + ?N
          then Some (VMA_BackingMemory, Perm_ReadWrite, MS_Shared, p + (a - (t + ?P)), 0) else attr_at (vma_map vm1) a)"
      "room vm2 (t + ?P + ?N) (?P + 0)"
    by (auto simp: B pt(3))
  note g3 = grown_trans [OF grown_trans [OF m1(6) g2] same_outside_grown [OF m3(3)]]
  let ?tr3 = "tr\<lparr>vm_managers := (vm_managers tr)(dst := vm2), tr_memory := ms2, cmd_buf := (cmd_buf tr)[i := of_nat (t + ?P + off)]\<rparr>"
  have ok3: "space_ok (tr_memory ?tr3) (page_table_of ?tr3 dst) (vm_managers ?tr3 dst)" using m3(2) by (simp add: pt(3))
  have alR: "allocated (tr_memory ?tr3) (GetPtr R) ?P" using grown_allocated [OF grown_trans [OF g2 same_outside_grown [OF m3(3)]] m1(3)] by (simp add: B)
  from map_to_base_maps [OF quiet ok3 _ pos(1,2) alR, where state = MS_Reserved, of "t + ?P + ?N" 0] m3(5) obtain vm3 ms3 where
    m4: "map_to_base out dst R ?P MS_Reserved ?tr3 = Some (MakeResult (t + ?P + ?N), ?tr3\<lparr>vm_managers := (vm_managers tr)(dst := vm3), tr_memory := ms3\<rparr>)"
      "space_ok ms3 ptd vm3" "same_outside (\<lambda>a. t + ?P + ?N \<le> a \<and> a < t + ?P + ?N + ?P) ptd ms2 ms3"
      "\<forall>a. attr_at (vma_map vm3) a = (if t + ?P + ?N \<le> a \<and> a < t + ?P + ?N + ?P
          then Some (VMA_BackingMemory, Perm_ReadWrite, MS_Reserved, r + (a - (t + ?P + ?N)), 0) else attr_at (vma_map vm2) a)"
    by (auto simp: B pt(3))
  have "attr_at (vma_map vm3) = buffer_attr t n p r (vm_managers tr dst)" using m1(8) m3(4) m4(4) by (intro ext) (simp add: buffer_attr_def)
  moreover have "grown (\<lambda>a. t \<le> a \<and> a < t + ?P + ?N + ?P) ptd (tr_memory tr) ms3"
    by (rule grown_mono [OF grown_trans [OF g3 same_outside_grown [OF m4(3)]]]) auto
  moreover have "host ms3 = h" using m3(3) m4(3) by (simp add: same_outside_def)
  moreover have t2: "page_table_of tr2 src = pts" "tr2\<lparr>tr_memory := x\<rparr> = tr\<lparr>vm_managers := (vm_managers tr)(dst := vm1), tr_memory := x\<rparr>" for x
    using pt(2) by (subst m2(2), simp)+
  have "map_buffer out al src dst perms source sz i tr = Some (?tr3\<lparr>vm_managers := (vm_managers tr)(dst := vm3), tr_memory := ms3,
      mapped_buffer_context := mapped_buffer_context tr @ [\<lparr>mb_permissions = perms, mb_size = sz, source_address = source,
        target_address = add32 (t + ?P) off, mb_buffer = B, reserve_buffer = R\<rparr>]\<rparr>)"
    unfolding map_buffer_def fit(1,2) [symmetric] Let_def
    using m1(2) m2(3,4,6) m3(1) m4(1) i by (simp add: b1 b2 t2 B cmd_write_def Unwrap_def rv_empty_def)
  ultimately show ?thesis using m4(2) m2(5)
    by (intro exI [of _ vm3] exI [of _ ms3] exI [of _ p] exI [of _ r]) (simp add: m1(1) m2(1))
qed

text \<open>A buffer of \<open>n\<close> pages that is mapped from \<open>b\<close> on between two reserved pages.\<close>

definition guarded :: "VMManager \<Rightarrow> nat \<Rightarrow> nat \<Rightarrow> bool" where
  "guarded vm b n \<longleftrightarrow> (\<forall>a \<in> {b ..< b + n * PAGE_SIZE}. map_option fst (attr_at (vma_map vm) a) = Some VMA_BackingMemory)
     \<and> (\<forall>a \<in> {b - PAGE_SIZE ..< b} \<union> {b + n * PAGE_SIZE ..< b + n * PAGE_SIZE + PAGE_SIZE}.
          \<exists>x. attr_at (vma_map vm) a = Some (VMA_BackingMemory, Perm_ReadWrite, MS_Reserved, x))"

lemma located_no_device: "(\<And>i. i < n \<Longrightarrow> locate ms pt (a + i) \<noteq> None) \<Longrightarrow> no_device ms pt a n"
  unfolding no_device_def
proof (intro allI impI notI)
  fix i assume "i < n" and l: "\<And>i. i < n \<Longrightarrow> locate ms pt (a + i) \<noteq> None" and "attributes (page_tables ms pt) ((a + i) div PAGE_SIZE) = Special"
  then show False using l [of i] by (simp add: locate_def)
qed

lemma size_bound: "unat (mapped_size d) < 2 ^ 28"
  unfolding mapped_size_def by (rule mapped_sz.unat_extract_less)

text \<open>
  C16: A mapped buffer in a request: when the receiver has room for it and for two pages more at the first free address of its region for
  such buffers, the translation succeeds. The receiver then reads the bytes of the sender at the address that replaces the parameter,
  which has the same offset in its page; the rest of the mapped pages reads as zeros, so that nothing else of the sender is
  disclosed; the pages before and after are reserved. No other address of any process changes, the page table of
  the receiver mirrors its areas, and the buffer is noted for the reply.
\<close>

theorem buffer_sent:
  assumes "renderer out = None \<or> renderer out = Some SWRasterizer_flush" "fresh_blocks al" "finite (dom (host (tr_memory tr)))"
    and "pts = page_table_of tr src" "ptd = page_table_of tr dst" "pts \<noteq> ptd"
    and "mem_ok (tr_memory tr) pts" "no_device (tr_memory tr) pts source sz" "source + sz \<le> 2 ^ 32"
    and "vm_inv (vm_managers tr dst)" "mirror (tr_memory tr) ptd (vm_managers tr dst)" "mem_ok (tr_memory tr) ptd"
    and "GetDescriptorType d = MappedBuffer" "sz = unat (mapped_size d)" "0 < sz"
    and "i < COMMAND_BUFFER_LENGTH" "length (cmd_buf tr) = COMMAND_BUFFER_LENGTH" "source = unat (cmd_buf tr ! i)"
    and "n = num_pages_of source sz" "b = t + PAGE_SIZE" "target = b + source mod PAGE_SIZE" "room (vm_managers tr dst) t ((n + 2) * PAGE_SIZE)"
  shows "\<exists>tr'. translate_descriptor out al False st src dst dst_address command_size d i tr = Some (Inr 1, tr')
    \<and> unat (cmd_buf tr' ! i) = target \<and> (\<forall>j. j \<noteq> i \<longrightarrow> cmd_buf tr' ! j = cmd_buf tr ! j)
    \<and> ReadBlock out ptd target sz (tr_memory tr') = Some (map (byte_at (tr_memory tr) pts) [source ..< source + sz], tr_memory tr')
    \<and> (\<forall>a. b \<le> a \<and> a < b + n * PAGE_SIZE \<and> \<not> (target \<le> a \<and> a < target + sz) \<longrightarrow> byte_at (tr_memory tr') ptd a = 0)
    \<and> guarded (vm_managers tr' dst) b n
    \<and> (\<forall>q a. mem_ok (tr_memory tr) q \<and> (q \<noteq> ptd \<or> \<not> (t \<le> a \<and> a < t + (n + 2) * PAGE_SIZE)) \<longrightarrow> byte_at (tr_memory tr') q a = byte_at (tr_memory tr) q a)
    \<and> vm_inv (vm_managers tr' dst) \<and> mirror (tr_memory tr') ptd (vm_managers tr' dst) \<and> mem_ok (tr_memory tr') ptd \<and> tr_system tr' = tr_system tr
    \<and> (\<exists>buffer reserve. mapped_buffer_context tr' = mapped_buffer_context tr @ [\<lparr>mb_permissions = mapped_perms d, mb_size = sz,
          source_address = source, target_address = target, mb_buffer = buffer, reserve_buffer = reserve\<rparr>])"
proof -
  let ?ms = "tr_memory tr" and ?P = PAGE_SIZE and ?off = "page_offset_of source"
  let ?data = "map (byte_at ?ms pts) [source ..< source + sz]"
  note quiet = quiet_out [OF assms(1)]
  note fit = pages_fit [OF assms(15), of source, folded assms(19)]
  have sz: "sz < 2 ^ 28" using size_bound assms(14) by simp
  have ok: "space_ok ?ms ptd (vm_managers tr dst)" using assms(10-12) by (simp add: space_ok_def)
  have "(n + 2) * ?P = ?P + (n * ?P + (?P + 0))" by simp
  with assms(22) have rm: "room (vm_managers tr dst) t (?P + (n * ?P + (?P + 0)))" by metis
  from map_buffer_runs [OF quiet assms(2,3,6,4,5,7-9) ok refl assms(19) fit(1,2) [OF sz] rm assms(16), of "mapped_perms d"] obtain vm ms p r where
    m: "map_buffer out al src dst (mapped_perms d) source sz i tr
      = Some (tr\<lparr>tr_memory := ms, vm_managers := (vm_managers tr)(dst := vm), cmd_buf := (cmd_buf tr)[i := of_nat (t + ?P + ?off)],
          mapped_buffer_context := mapped_buffer_context tr @ [\<lparr>mb_permissions = mapped_perms d, mb_size = sz, source_address = source,
            target_address = add32 (t + ?P) ?off, mb_buffer = \<lparr>backing_mem = Some (p, n * ?P), mr_offset = 0\<rparr>,
            reserve_buffer = \<lparr>backing_mem = Some (r, ?P), mr_offset = 0\<rparr>\<rparr>]\<rparr>)"
      "space_ok ms ptd vm" "grown (\<lambda>a. t \<le> a \<and> a < t + ?P + n * ?P + ?P) ptd ?ms ms"
      "attr_at (vma_map vm) = buffer_attr t n p r (vm_managers tr dst)" "\<forall>j < n * ?P. host ms (p + j) = Some (buffer_byte ?off ?data j)"
    by (elim exE conjE)
  have low: "t + ?P + n * ?P + ?P \<le> 0x08000000" using rm by (simp add: room_def IPC_MAPPING_VADDR_def IPC_MAPPING_SIZE_def)
  have tg: "target = t + ?P + ?off" "target + sz \<le> t + ?P + n * ?P" using assms(20,21) fit(1,4) [OF sz] by simp_all
  have lt: "target < 2 ^ 32" using low tg by simp
  have word: "unat (of_nat (t + ?P + ?off) :: u32) = target" "add32 (t + ?P) ?off = target"
    unfolding tg(1) [symmetric] using lt by (simp_all add: unat_of_nat take_bit_nat_eq_self add32_def tg(1) [symmetric])
  have loc: "locate ms ptd a = Some (p + (a - b))" if "b \<le> a" "a < b + n * ?P" for a
    using mirrorD [of ms ptd vm a] m(2,4) that assms(20) by (auto simp: space_ok_def buffer_attr_def mirrors_def)
  have byte: "byte_at ms ptd a = buffer_byte ?off ?data (a - b)" if "b \<le> a" "a < b + n * ?P" for a
    using loc [OF that] m(5) [rule_format, of "a - b"] that by (simp add: byte_at_def)
  have "no_device ms ptd target sz" by (rule located_no_device) (use loc tg assms(20) in simp)
  then have "ReadBlock out ptd target sz ms = Some (map (byte_at ms ptd) [target ..< target + sz], ms)"
    using quiet_renderer.read_bytes [OF quiet] m(2) low tg by (simp add: space_ok_def)
  moreover have "map (byte_at ms ptd) [target ..< target + sz] = ?data"
    by (rule nth_equalityI) (use byte tg assms(20) in \<open>simp_all add: buffer_byte_def\<close>)
  moreover have "byte_at ms ptd a = 0" if "b \<le> a" "a < b + n * ?P" "\<not> (target \<le> a \<and> a < target + sz)" for a
    using byte [OF that(1,2)] that tg assms(20) by (auto simp: buffer_byte_def)
  moreover have "guarded vm b n" using m(4) assms(20) by (auto simp: guarded_def buffer_attr_def)
  moreover have "byte_at ms q a = byte_at ?ms q a" if "mem_ok ?ms q" "q \<noteq> ptd \<or> \<not> (t \<le> a \<and> a < t + (n + 2) * ?P)" for q a
  proof -
    have "t + (n + 2) * ?P = t + ?P + n * ?P + ?P" by simp
    with that(2) show ?thesis by (intro grown_byte [OF m(3) _ that(1)]) metis
  qed
  moreover have "translate_descriptor out al False st src dst dst_address command_size d i tr = map_option (Pair (Inr 1)) (map_buffer out al src dst (mapped_perms d) source sz i tr)"
    using assms(13-16,18,19) fit(2) [OF sz] by (simp add: translate_descriptor_def translate_mapped_def cmd_read_def descriptor_types Let_def)
  ultimately show ?thesis using m(1,2) word assms(16,17) by (simp add: space_ok_def)
qed

text \<open>Two processes: the first with the pages of \<open>example_table\<close>, the second without any.\<close>

definition bounded_memory :: "unit MemorySystem" where
  "bounded_memory = example_memory\<lparr>host := (\<lambda>a. if a < 0x60000000 then Some (of_nat a) else None),
     page_tables := (\<lambda>p. if p = 1 then example_table else \<lparr>pointers = (\<lambda>_. MemoryRef_null), special_regions = [], attributes = (\<lambda>_. Unmapped)\<rparr>)\<rparr>"

definition after_all :: allocator where
  "after_all n h = Suc (Max (insert 0 (dom h)))"

lemma after_all_fresh: "fresh_blocks after_all"
  unfolding fresh_blocks_def after_all_def
proof (intro allI impI conjI)
  fix n a :: nat and h :: "nat \<rightharpoonup> u8" assume f: "finite (dom h)" and a: "Suc (Max (insert 0 (dom h))) \<le> a \<and> a < Suc (Max (insert 0 (dom h))) + n"
  show "h a = None"
  proof (rule ccontr)
    assume "h a \<noteq> None"
    then have "a \<le> Max (insert 0 (dom h))" using f by (intro Max_ge) auto
    with a show False by simp
  qed
qed simp

lemma bounded_ok: "finite (dom (host bounded_memory))" "mem_ok bounded_memory pt" "mirror bounded_memory 2 VM_Reset"
proof -
  show "finite (dom (host bounded_memory))" by (rule finite_subset [of _ "{..< 0x60000000}"]) (auto simp: bounded_memory_def split: if_splits)
  show "mem_ok bounded_memory pt"
    by (auto simp: bounded_memory_def mem_ok_def page_ok_def allocated_def example_memory_def example_table_def raw_pointer_def GetPtr_def MemoryRef_null_def
      cacheable_def region_defs PAGE_SIZE_def)
  show "mirror bounded_memory 2 VM_Reset"
    by (auto simp: mirror_def mirrors_def reset_map attr_at_Cons VirtualMemoryArea_init_def attr_def bounded_memory_def split: if_splits)
qed

lemma bounded_locate: "p = 1 \<Longrightarrow> locate bounded_memory p = locate example_memory p"
  by (rule ext) (simp add: locate_def bounded_memory_def example_memory_def GetPointerForRasterizerCache_def MemoryRef_at_def split: PageType.split)

definition sending :: "unit Translation" where
  "sending = (example_translation [0, 0x100FFE])\<lparr>tr_memory := bounded_memory\<rparr>"

theorem buffer_sent_witness:
  "\<exists>tr'. translate_descriptor example_outside after_all False 1 1 2 0 2 (MappedBufferDesc 4 Perm_RW) 1 sending = Some (Inr 1, tr')
     \<and> unat (cmd_buf tr' ! 1) = 0x4001FFE \<and> ReadBlock example_outside 2 0x4001FFE 4 (tr_memory tr') = Some ([0xFE, 0xFF, 0x40, 0x41], tr_memory tr')"
proof -
  let ?d = "MappedBufferDesc 4 Perm_RW"
  have d: "GetDescriptorType ?d = MappedBuffer" "4 = unat (mapped_size ?d)" by code_simp+
  have s: "tr_memory sending = bounded_memory" "page_table_of sending = (\<lambda>p. p)" "vm_managers sending = (\<lambda>_. VM_Reset)"
    "length (cmd_buf sending) = COMMAND_BUFFER_LENGTH" "cmd_buf sending ! 1 = 0x100FFE"
    by (simp_all add: sending_def example_translation_def COMMAND_BUFFER_LENGTH_def)
  have n: "num_pages_of 0x100FFE 4 = 2" by (simp add: num_pages_of_def page_offset_of_def AlignDown_def AlignUp_def PAGE_SIZE_def add32_def)
  have rm: "room VM_Reset 0x4000000 ((2 + 2) * PAGE_SIZE)"
    by (simp add: room_def IPC_MAPPING_VADDR_def IPC_MAPPING_SIZE_def mapped_range_def free_range_Reset PAGE_SIZE_def MAX_ADDRESS_def)
  have nd: "no_device bounded_memory 1 0x100FFE 4" by (auto simp: no_device_def bounded_memory_def example_table_def)
  have bytes: "map (byte_at bounded_memory 1) [0x100FFE ..< 0x100FFE + 4] = [0xFE, 0xFF, 0x40, 0x41]"
    by (simp add: byte_at_def bounded_locate example_locate upt_conv_Cons) (simp add: bounded_memory_def)
  have e: "renderer example_outside = None \<or> renderer example_outside = Some SWRasterizer_flush" "(1 :: nat) \<noteq> 2" "0x100FFE + 4 \<le> (2 :: nat) ^ 32" "0 < (4 :: nat)"
    "1 < COMMAND_BUFFER_LENGTH" "0x100FFE = unat (0x100FFE :: u32)" "0x4001000 = 0x4000000 + PAGE_SIZE" "0x4001FFE = 0x4001000 + 0x100FFE mod PAGE_SIZE"
    by (simp_all add: COMMAND_BUFFER_LENGTH_def PAGE_SIZE_def)
  from buffer_sent [of example_outside after_all sending 1 1 2 2 "0x100FFE" 4 ?d 1 2 "0x4001000" "0x4000000" "0x4001FFE" 1 0 2, unfolded s bytes,
      OF e(1) after_all_fresh bounded_ok(1) refl refl e(2) bounded_ok(2) nd e(3) vm_inv_Reset bounded_ok(3,2) d e(4,5) refl e(6) n [symmetric] e(7,8) rm]
  show ?thesis by blast
qed

section \<open>Returning a mapped buffer\<close>

lemma vma_at_attr:
  assumes "vm_inv vm" "attr_at (vma_map vm) a = Some (type, perms, state, x)"
  obtains v where "vma_at vm a = Some v" "meminfo_state v = state"
proof -
  have t: "tiles 0 (vma_map vm) MAX_ADDRESS" using assms(1) by (simp add: vm_inv_def)
  have "a < MAX_ADDRESS" using attr_at_outside [OF t, of a] assms(2) by (cases "a < MAX_ADDRESS") auto
  with t obtain xs v ys where v: "vma_map vm = xs @ v # ys" "covers v a" "FindVMA vm a = Some (Some (vma_base v))" "map_at (vma_map vm) (vma_base v) = Some v"
    by (rule vma_found)
  have "attr_at (vma_map vm) a = Some (attr v a)" using attr_at_middle [of 0 xs v ys MAX_ADDRESS a] t v(1,2) by simp
  with assms(2) have "meminfo_state v = state" by (simp add: attr_def)
  with v(3,4) show thesis by (intro that [of v]) (simp_all add: vma_at_def)
qed

lemma guarded_mapped:
  assumes "guarded vm b n" "PAGE_SIZE \<le> b"
  shows "mapped_range vm (b - PAGE_SIZE) ((n + 2) * PAGE_SIZE)"
  unfolding mapped_range_def
proof (intro ballI notI)
  fix a assume a: "a \<in> {b - PAGE_SIZE ..< b - PAGE_SIZE + (n + 2) * PAGE_SIZE}" and f: "map_option fst (attr_at (vma_map vm) a) = Some VMA_Free"
  have "b - PAGE_SIZE + (n + 2) * PAGE_SIZE = b + n * PAGE_SIZE + PAGE_SIZE" using assms(2) by simp
  with a consider "a \<in> {b ..< b + n * PAGE_SIZE}" | "a \<in> {b - PAGE_SIZE ..< b} \<union> {b + n * PAGE_SIZE ..< b + n * PAGE_SIZE + PAGE_SIZE}" by fastforce
  then show False
  proof cases
    case 1
    then have "map_option fst (attr_at (vma_map vm) a) = Some VMA_BackingMemory" using assms(1) unfolding guarded_def by blast
    with f show False by simp
  next
    case 2
    then obtain x where "attr_at (vma_map vm) a = Some (VMA_BackingMemory, Perm_ReadWrite, MS_Reserved, x)" using assms(1) unfolding guarded_def by blast
    with f show False by simp
  qed
qed

lemma guards_found:
  assumes "vm_inv vm" "guarded vm b n" "PAGE_SIZE \<le> b"
  obtains v w where "vma_at vm (b - PAGE_SIZE) = Some v" "meminfo_state v = MS_Reserved" "vma_at vm (b + n * PAGE_SIZE) = Some w" "meminfo_state w = MS_Reserved"
proof -
  have "0 < PAGE_SIZE" by (simp add: PAGE_SIZE_def)
  then have "b - PAGE_SIZE \<in> {b - PAGE_SIZE ..< b}" "b + n * PAGE_SIZE \<in> {b + n * PAGE_SIZE ..< b + n * PAGE_SIZE + PAGE_SIZE}" using assms(3) by simp_all
  then obtain x y where "attr_at (vma_map vm) (b - PAGE_SIZE) = Some (VMA_BackingMemory, Perm_ReadWrite, MS_Reserved, x)"
    "attr_at (vma_map vm) (b + n * PAGE_SIZE) = Some (VMA_BackingMemory, Perm_ReadWrite, MS_Reserved, y)" using assms(2) unfolding guarded_def by blast
  then show thesis using vma_at_attr [OF assms(1)] that by metis
qed

lemma erase_first_append: "\<forall>x \<in> set xs. \<not> P x \<Longrightarrow> P c \<Longrightarrow> erase_first P (xs @ c # ys) = xs @ ys \<and> find P (xs @ c # ys) = Some c"
  by (induction xs) (simp_all add: erase_first_def)


lemma backing_located:
  assumes "mirror ms pt vm" "map_option fst (attr_at (vma_map vm) a) = Some VMA_BackingMemory"
  shows "locate ms pt a \<noteq> None"
proof -
  obtain x where x: "attr_at (vma_map vm) a = Some x" "fst x = VMA_BackingMemory" using assms(2) by auto
  with mirrorD [OF assms(1) x(1)] show ?thesis by (cases x) (simp add: mirrors_def)
qed

text \<open>Copying the buffer back changes nothing but the bytes it goes to.\<close>

lemma mirrors_set_host [simp]: "mirrors (set_host h ms) = mirrors ms"
  by (intro ext) (simp add: mirrors_def split: VMAType.split prod.split)

lemma copy_space_ok: "same_blocks h (host ms) \<Longrightarrow> space_ok ms q vm \<Longrightarrow> space_ok (set_host h ms) q vm"
  by (simp add: space_ok_def mem_ok_set_host mirror_def)

text \<open>Taking the mapping away, after the copy.\<close>

lemma unmap_guarded:
  fixes tr :: "'d Translation"
  assumes quiet: "quiet_renderer out" and ok: "space_ok (tr_memory tr) (page_table_of tr src) (vm_managers tr src)"
    and g: "guarded (vm_managers tr src) b n" "b mod PAGE_SIZE = 0" "PAGE_SIZE \<le> b" "b + n * PAGE_SIZE + PAGE_SIZE \<le> MAX_ADDRESS"
    and cut: "cuttable (vm_managers tr src) (b - PAGE_SIZE)" "cuttable (vm_managers tr src) (b + n * PAGE_SIZE + PAGE_SIZE)"
  shows "\<exists>vm ms. vm_run out src (UnmapRange (b - PAGE_SIZE) ((n + 2) * PAGE_SIZE)) tr
      = Some (RESULT_SUCCESS, tr\<lparr>vm_managers := (vm_managers tr)(src := vm), tr_memory := ms\<rparr>)
    \<and> space_ok ms (page_table_of tr src) vm
    \<and> same_outside (\<lambda>a. b - PAGE_SIZE \<le> a \<and> a < b + n * PAGE_SIZE + PAGE_SIZE) (page_table_of tr src) (tr_memory tr) ms
    \<and> (\<forall>a. attr_at (vma_map vm) a = (if b - PAGE_SIZE \<le> a \<and> a < b + n * PAGE_SIZE + PAGE_SIZE then Some (VMA_Free, Perm_None, MS_Free, 0, 0)
          else attr_at (vma_map (vm_managers tr src)) a))"
proof -
  have e: "b - PAGE_SIZE + (n + 2) * PAGE_SIZE = b + n * PAGE_SIZE + PAGE_SIZE" using g(3) by simp
  have args: "(b - PAGE_SIZE) mod PAGE_SIZE = 0" "(n + 2) * PAGE_SIZE mod PAGE_SIZE = 0" "0 < (n + 2) * PAGE_SIZE"
    using g(2,3) by (simp_all add: mod_eq_0_iff_dvd PAGE_SIZE_def)
  from unmap_range_mirrored [OF quiet ok cut(1) _ args _ guarded_mapped [OF g(1,3)], unfolded e, OF cut(2) g(4)] obtain vm us ms where
    "UnmapRange (b - PAGE_SIZE) ((n + 2) * PAGE_SIZE) (vm_managers tr src) = Some (RESULT_SUCCESS, vm)" "page_updates vm = page_updates (vm_managers tr src) @ us"
    "apply_updates out (page_table_of tr src) us (tr_memory tr) = Some ms" "space_ok ms (page_table_of tr src) vm"
    "same_outside (\<lambda>a. b - PAGE_SIZE \<le> a \<and> a < b + n * PAGE_SIZE + PAGE_SIZE) (page_table_of tr src) (tr_memory tr) ms"
    "\<forall>a. attr_at (vma_map vm) a = (if b - PAGE_SIZE \<le> a \<and> a < b + n * PAGE_SIZE + PAGE_SIZE then Some (VMA_Free, Perm_None, MS_Free, 0, 0)
          else attr_at (vma_map (vm_managers tr src)) a)"
    by (elim exE conjE)
  then show ?thesis by (intro exI [of _ vm] exI [of _ ms]) (simp add: vm_run_def)
qed


lemma copied_back:
  assumes quiet: "quiet_renderer out" and src: "mem_ok ms pts" "no_device ms pts a sz" "a + sz \<le> 2 ^ 32"
    and dst: "mem_ok ms ptd" "own_bytes ms ptd d sz" "d + sz \<le> 2 ^ 32" and apart: "\<forall>i < sz. \<forall>j < sz. locate ms pts (a + i) \<noteq> locate ms ptd (d + j)"
  shows "\<exists>h. (if perms \<noteq> Perm_R then CopyBlock out ptd pts d a sz ms else Some ms) = Some (set_host h ms) \<and> same_blocks h (host ms)
    \<and> map (byte_at (set_host h ms) ptd) [d ..< d + sz] = (if perms = Perm_R then map (byte_at ms ptd) [d ..< d + sz] else map (byte_at ms pts) [a ..< a + sz])"
proof (cases "perms = Perm_R")
  case True
  then show ?thesis by (intro exI [of _ "host ms"]) (simp add: same_blocks_def)
next
  case False
  let ?data = "map (byte_at ms pts) [a ..< a + sz]"
  let ?h = "put (locate ms ptd) d ?data (host ms)"
  have "CopyBlock out ptd pts d a sz ms = Some (set_host ?h ms)"
    by (rule quiet_renderer.copy_bytes [OF quiet src dst(1) own_bytes_no_device [OF dst(2)] dst(3)]) (use apart in metis)
  moreover have "same_blocks ?h (host ms)" by (rule put_same_blocks [OF dst(1)]) (simp add: same_blocks_def)
  moreover have "map (byte_at (set_host ?h ms) ptd) [d ..< d + sz] = ?data" by (rule own_bytes_put [OF dst(2)]) simp
  ultimately show ?thesis using False by (intro exI [of _ ?h]) (simp del: map_eq_conv)
qed

text \<open>
  C17: A mapped buffer in a reply, for a buffer that was noted for it and is still mapped between its guard pages: the translation succeeds. Unless
  the buffer was read-only, the process that sent the request then reads at its own address of the buffer what the replying process has
  at the mapped address; a read-only buffer is not copied back. The mapping is gone with its guard pages, from the areas and from the page
  table, and the note is erased; the command is left as it is.
\<close>

theorem buffer_returned:
  assumes "renderer out = None \<or> renderer out = Some SWRasterizer_flush"
    and "pts = page_table_of tr src" "ptd = page_table_of tr dst" "pts \<noteq> ptd"
    and "vm_inv (vm_managers tr src)" "mirror (tr_memory tr) pts (vm_managers tr src)" "mem_ok (tr_memory tr) pts"
    and "mem_ok (tr_memory tr) ptd" "own_bytes (tr_memory tr) ptd (source_address c) sz" "source_address c + sz \<le> 2 ^ 32"
    and "GetDescriptorType d = MappedBuffer" "sz = unat (mapped_size d)" "0 < sz" "i < COMMAND_BUFFER_LENGTH" "target = unat (cmd_buf tr ! i)"
    and "mb_permissions c = mapped_perms d" "mb_size c = sz" "target_address c = target" "mapped_buffer_context tr = xs @ c # ys"
    and "\<forall>x \<in> set xs. \<not> (mb_permissions x = mapped_perms d \<and> mb_size x = sz \<and> target_address x = target)"
    and "n = num_pages_of target sz" "b = target - target mod PAGE_SIZE" "guarded (vm_managers tr src) b n"
    and "PAGE_SIZE \<le> b" "b + n * PAGE_SIZE + PAGE_SIZE \<le> MAX_ADDRESS"
    and "cuttable (vm_managers tr src) (b - PAGE_SIZE)" "cuttable (vm_managers tr src) (b + n * PAGE_SIZE + PAGE_SIZE)"
    and "\<forall>i < sz. \<forall>j < sz. locate (tr_memory tr) pts (target + i) \<noteq> locate (tr_memory tr) ptd (source_address c + j)"
  shows "\<exists>tr'. translate_descriptor out al True st src dst dst_address command_size d i tr = Some (Inr 1, tr')
    \<and> ReadBlock out ptd (source_address c) sz (tr_memory tr')
        = Some (if mapped_perms d = Perm_R then map (byte_at (tr_memory tr) ptd) [source_address c ..< source_address c + sz]
                else map (byte_at (tr_memory tr) pts) [target ..< target + sz], tr_memory tr')
    \<and> (\<forall>a. attr_at (vma_map (vm_managers tr' src)) a = (if b - PAGE_SIZE \<le> a \<and> a < b + n * PAGE_SIZE + PAGE_SIZE
          then Some (VMA_Free, Perm_None, MS_Free, 0, 0) else attr_at (vma_map (vm_managers tr src)) a))
    \<and> vm_inv (vm_managers tr' src) \<and> mirror (tr_memory tr') pts (vm_managers tr' src) \<and> mem_ok (tr_memory tr') pts \<and> mem_ok (tr_memory tr') ptd
    \<and> mapped_buffer_context tr' = xs @ ys \<and> cmd_buf tr' = cmd_buf tr \<and> tr_system tr' = tr_system tr"
proof -
  let ?ms = "tr_memory tr" and ?P = PAGE_SIZE and ?vm = "vm_managers tr src" and ?s = "source_address c"
  let ?read = "if mapped_perms d = Perm_R then map (byte_at ?ms ptd) [?s ..< ?s + sz] else map (byte_at ?ms pts) [target ..< target + sz]"
  note quiet = quiet_out [OF assms(1)]
  have sz: "sz < 2 ^ 28" using size_bound assms(12) by simp
  note fit = pages_fit [OF assms(13) sz, of target, folded assms(21)]
  have ok: "space_ok ?ms pts ?vm" using assms(5-7) by (simp add: space_ok_def)
  have bt: "b + page_offset_of target = target" "AlignDown target ?P = b" "b mod ?P = 0"
    using fit(4) assms(22) by (simp_all add: AlignDown_def minus_mod_eq_mult_div)
  have te: "target + sz \<le> b + n * ?P" using fit(1) bt(1) by linarith
  have "locate ?ms pts (target + k) \<noteq> None" if "k < sz" for k
  proof -
    have "target + k \<in> {b ..< b + n * ?P}" using that bt(1) te by simp
    then have "map_option fst (attr_at (vma_map ?vm) (target + k)) = Some VMA_BackingMemory" using assms(23) unfolding guarded_def by blast
    then show ?thesis by (rule backing_located [OF assms(6)])
  qed
  then have nd: "no_device ?ms pts target sz" by (rule located_no_device)
  have t32: "target + sz \<le> 2 ^ 32" using te assms(25) by (simp add: MAX_ADDRESS_def)
  from copied_back [OF quiet assms(7) nd t32 assms(8-10,28)]
  obtain h where h: "(if mapped_perms d \<noteq> Perm_R then CopyBlock out ptd pts ?s target sz ?ms else Some ?ms) = Some (set_host h ?ms)"
    "same_blocks h (host ?ms)" "map (byte_at (set_host h ?ms) ptd) [?s ..< ?s + sz] = ?read" by blast
  let ?tr = "tr\<lparr>tr_memory := set_host h ?ms\<rparr>"
  have ok1: "space_ok (tr_memory ?tr) (page_table_of ?tr src) (vm_managers ?tr src)" using copy_space_ok [OF h(2) ok] assms(2) by simp
  have "guarded (vm_managers ?tr src) b n" "cuttable (vm_managers ?tr src) (b - ?P)" "cuttable (vm_managers ?tr src) (b + n * ?P + ?P)" using assms(23,26,27) by simp_all
  from unmap_guarded [OF quiet ok1 this(1) bt(3) assms(24,25) this(2,3)] obtain vm ms where
    u: "vm_run out src (UnmapRange (b - ?P) ((n + 2) * ?P)) ?tr = Some (RESULT_SUCCESS, tr\<lparr>vm_managers := (vm_managers tr)(src := vm), tr_memory := ms\<rparr>)"
      "space_ok ms pts vm" "same_outside (\<lambda>a. b - ?P \<le> a \<and> a < b + n * ?P + ?P) pts (set_host h ?ms) ms"
      "\<forall>a. attr_at (vma_map vm) a = (if b - ?P \<le> a \<and> a < b + n * ?P + ?P then Some (VMA_Free, Perm_None, MS_Free, 0, 0) else attr_at (vma_map ?vm) a)"
    by (auto simp: assms(2))
  have lt: "b < 2 ^ 32" "b + n * ?P < 2 ^ 32" "(n + 2) * ?P < 2 ^ 32" using assms(24,25) by (simp_all add: MAX_ADDRESS_def PAGE_SIZE_def)
  have w: "sub32 b ?P = b - ?P" "add32 b (n * ?P) = b + n * ?P" "(n + 2) * ?P mod 2 ^ 32 = (n + 2) * ?P"
    using lt sub32_small [OF assms(24) lt(1)] add32_small [OF lt(2)] by simp_all
  obtain v1 v2 where v: "vma_at ?vm (b - ?P) = Some v1" "meminfo_state v1 = MS_Reserved" "vma_at ?vm (b + n * ?P) = Some v2" "meminfo_state v2 = MS_Reserved"
    by (rule guards_found [OF assms(5,23,24)])
  let ?Q = "\<lambda>x. mb_permissions x = mapped_perms d \<and> mb_size x = sz \<and> target_address x = target"
  have f: "find ?Q (mapped_buffer_context tr) = Some c" "erase_first ?Q (mapped_buffer_context tr) = xs @ ys"
    using erase_first_append [of xs ?Q c ys] assms(16-20) by simp_all
  let ?tr' = "tr\<lparr>vm_managers := (vm_managers tr)(src := vm), tr_memory := ms, mapped_buffer_context := xs @ ys\<rparr>"
  have "unmap_buffer out src dst (mapped_perms d) target sz tr = Some ?tr'"
    unfolding unmap_buffer_def bt(2) assms(21) [symmetric] w Let_def
    using f h(1) u(1) v assms(2,3,18) by (cases "mapped_perms d = Perm_R") simp_all
  then have "translate_descriptor out al True st src dst dst_address command_size d i tr = Some (Inr 1, ?tr')"
    using assms(11-15,21) fit(2) by (simp add: translate_descriptor_def translate_mapped_def cmd_read_def descriptor_types Let_def)
  moreover have ok': "mem_ok ms ptd" "byte_at ms ptd = byte_at (set_host h ?ms) ptd" "no_device ms ptd ?s sz"
    using grown_other [OF same_outside_grown [OF u(3)], of ptd] assms(4,8) h(2) own_bytes_no_device [OF assms(9)] by (simp_all add: mem_ok_set_host)
  moreover have "ReadBlock out ptd ?s sz ms = Some (?read, ms)"
    using quiet_renderer.read_bytes [OF quiet ok'(1,3) assms(10)] unfolding ok'(2) h(3) .
  moreover have "vm_inv vm" "mirror ms pts vm" "mem_ok ms pts" using u(2) by (simp_all add: space_ok_def)
  ultimately show ?thesis using u(4) by (intro exI [of _ ?tr'] conjI) simp_all
qed

text \<open>The first process has a buffer of one page mapped, the second the pages of \<open>example_table\<close>.\<close>

definition mapped_areas :: VMManager where
  "mapped_areas = \<lparr>vma_map = [VirtualMemoryArea_init\<lparr>vma_size := 0x4000000\<rparr>,
     VirtualMemoryArea_init\<lparr>vma_base := 0x4000000, vma_size := 0x1000, vma_type := VMA_BackingMemory, permissions := Perm_ReadWrite,
       meminfo_state := MS_Reserved, backing_memory := \<lparr>backing_mem = Some (0x7000, 0x1000), mr_offset = 0\<rparr>\<rparr>,
     VirtualMemoryArea_init\<lparr>vma_base := 0x4001000, vma_size := 0x1000, vma_type := VMA_BackingMemory, permissions := Perm_ReadWrite,
       meminfo_state := MS_Shared, backing_memory := \<lparr>backing_mem = Some (0x9020, 0x1000), mr_offset = 0\<rparr>\<rparr>,
     VirtualMemoryArea_init\<lparr>vma_base := 0x4002000, vma_size := 0x1000, vma_type := VMA_BackingMemory, permissions := Perm_ReadWrite,
       meminfo_state := MS_Reserved, backing_memory := \<lparr>backing_mem = Some (0x7000, 0x1000), mr_offset = 0\<rparr>\<rparr>,
     VirtualMemoryArea_init\<lparr>vma_base := 0x4003000, vma_size := MAX_ADDRESS - 0x4003000\<rparr>], page_updates = []\<rparr>"

definition mapped_memory :: "unit MemorySystem" where
  "mapped_memory = example_memory\<lparr>page_tables := (\<lambda>p. if p = 1
     then \<lparr>pointers = (\<lambda>_. MemoryRef_null)(0x4000 := \<lparr>backing_mem = Some (0x7000, 0x1000), mr_offset = 0\<rparr>,
         0x4001 := \<lparr>backing_mem = Some (0x9020, 0x1000), mr_offset = 0\<rparr>, 0x4002 := \<lparr>backing_mem = Some (0x7000, 0x1000), mr_offset = 0\<rparr>),
       special_regions = [], attributes = (\<lambda>i. if 0x4000 \<le> i \<and> i \<le> 0x4002 then Memory else Unmapped)\<rparr>
     else example_table)\<rparr>"

definition replying :: "unit Translation" where
  "replying = (example_translation [0, 0x4001010])\<lparr>tr_memory := mapped_memory, vm_managers := (\<lambda>_. mapped_areas),
     mapped_buffer_context := [\<lparr>mb_permissions = Perm_RW, mb_size = 4, source_address = 0x100010, target_address = 0x4001010,
       mb_buffer = \<lparr>backing_mem = Some (0x9020, 0x1000), mr_offset = 0\<rparr>, reserve_buffer = \<lparr>backing_mem = Some (0x7000, 0x1000), mr_offset = 0\<rparr>\<rparr>]\<rparr>"

lemma mapped_areas_ok: "vm_inv mapped_areas" "cuttable mapped_areas a" "guarded mapped_areas 0x4001000 1"
proof -
  note defs = mapped_areas_def VirtualMemoryArea_init_def MAX_ADDRESS_def
  show "vm_inv mapped_areas" by (simp add: defs vm_inv_def mergeable_def area_wf_def aligned_def PAGE_SIZE_def free_plain_def GetPtr_def)
  show "cuttable mapped_areas a" by (auto simp: defs cuttable_def cut_ok_def GetSize_def)
  show "guarded mapped_areas 0x4001000 1" by (auto simp: defs guarded_def attr_at_Cons covers_def attr_def PAGE_SIZE_def)
qed

lemma mapped_locate:
  "p = 1 \<Longrightarrow> locate mapped_memory p a = (if 0x4000000 \<le> a \<and> a < 0x4001000 then Some (a - 0x4000000 + 0x7000)
    else if 0x4001000 \<le> a \<and> a < 0x4002000 then Some (a - 0x4001000 + 0x9020) else if 0x4002000 \<le> a \<and> a < 0x4003000 then Some (a - 0x4002000 + 0x7000) else None)"
  "p \<noteq> 1 \<Longrightarrow> locate mapped_memory p a = locate example_memory p a"
proof -
  have d: "a div 0x1000 = c \<longleftrightarrow> c * 0x1000 \<le> a \<and> a < c * 0x1000 + 0x1000" for c :: nat by auto
  have m: "a mod 0x1000 = a - a div 0x1000 * 0x1000" by (rule minus_div_mult_eq_mod [symmetric])
  note defs = locate_def mapped_memory_def PAGE_SIZE_def raw_pointer_def GetPtr_def MemoryRef_null_def
  consider "a div 0x1000 = 0x4000" | "a div 0x1000 = 0x4001" | "a div 0x1000 = 0x4002" | "a div 0x1000 < 0x4000 \<or> 0x4002 < a div 0x1000" by linarith
  then show "p = 1 \<Longrightarrow> locate mapped_memory p a = (if 0x4000000 \<le> a \<and> a < 0x4001000 then Some (a - 0x4000000 + 0x7000)
    else if 0x4001000 \<le> a \<and> a < 0x4002000 then Some (a - 0x4001000 + 0x9020) else if 0x4002000 \<le> a \<and> a < 0x4003000 then Some (a - 0x4002000 + 0x7000) else None)"
  proof cases
    case 1
    with d [of "0x4000"] show "p = 1 \<Longrightarrow> ?thesis" using m by (simp add: defs)
  next
    case 2
    with d [of "0x4001"] show "p = 1 \<Longrightarrow> ?thesis" using m by (simp add: defs)
  next
    case 3
    with d [of "0x4002"] show "p = 1 \<Longrightarrow> ?thesis" using m by (simp add: defs)
  next
    case 4
    then have "a < 0x4000000 \<or> 0x4003000 \<le> a" by linarith
    with 4 show "p = 1 \<Longrightarrow> ?thesis" by (auto simp: defs)
  qed
  show "p \<noteq> 1 \<Longrightarrow> locate mapped_memory p a = locate example_memory p a"
    by (simp add: locate_def mapped_memory_def example_memory_def GetPointerForRasterizerCache_def MemoryRef_at_def split: PageType.split)
qed

lemma mapped_memory_ok: "mem_ok mapped_memory pt" "mirror mapped_memory 1 mapped_areas"
proof -
  show "mem_ok mapped_memory pt"
    by (auto simp: mapped_memory_def mem_ok_def page_ok_def allocated_def example_memory_def example_table_def raw_pointer_def GetPtr_def MemoryRef_null_def
      cacheable_def region_defs PAGE_SIZE_def)
  have free: "attributes (page_tables mapped_memory 1) (a div PAGE_SIZE) = Unmapped" if "a < 0x4000000 \<or> 0x4003000 \<le> a" for a
  proof -
    have "a div 0x1000 < 0x4000 \<or> 0x4002 < a div 0x1000" using that by linarith
    then show ?thesis by (auto simp: mapped_memory_def PAGE_SIZE_def)
  qed
  have "mirrors mapped_memory 1 x a" if x: "attr_at (vma_map mapped_areas) a = Some x" for a x
  proof -
    note defs = mapped_areas_def attr_at_Cons VirtualMemoryArea_init_def covers_def attr_def mirrors_def GetPtr_def MAX_ADDRESS_def
    consider "a < 0x4000000 \<or> 0x4003000 \<le> a" | "0x4000000 \<le> a" "a < 0x4003000" by linarith
    then show ?thesis
    proof cases
      case 1
      with x free [OF 1] show ?thesis by (auto simp: defs split: if_splits)
    next
      case 2
      with x mapped_locate(1) [of 1 a] show ?thesis by (auto simp: defs split: if_splits)
    qed
  qed
  then show "mirror mapped_memory 1 mapped_areas" by (simp add: mirror_def)
qed

theorem buffer_returned_witness:
  "\<exists>tr'. translate_descriptor example_outside (\<lambda>_ _. 0) True 1 1 2 0 2 (MappedBufferDesc 4 Perm_RW) 1 replying = Some (Inr 1, tr')
     \<and> ReadBlock example_outside 2 0x100010 4 (tr_memory tr') = Some ([0x30, 0x31, 0x32, 0x33], tr_memory tr') \<and> mapped_buffer_context tr' = []"
proof -
  let ?d = "MappedBufferDesc 4 Perm_RW" and ?c = "hd (mapped_buffer_context replying)"
  have d: "GetDescriptorType ?d = MappedBuffer" "4 = unat (mapped_size ?d)" "mapped_perms ?d = Perm_RW" "Perm_RW \<noteq> Perm_R" by code_simp+
  have s: "tr_memory replying = mapped_memory" "page_table_of replying = (\<lambda>p. p)" "vm_managers replying = (\<lambda>_. mapped_areas)" "cmd_buf replying ! 1 = 0x4001010"
    "source_address ?c = 0x100010" "mb_permissions ?c = mapped_perms ?d" "mb_size ?c = 4" "target_address ?c = 0x4001010" "mapped_buffer_context replying = [] @ ?c # []"
    by (simp_all add: replying_def example_translation_def d(3))
  have own: "own_bytes mapped_memory 2 0x100010 4" by (auto simp: own_bytes_def mapped_locate(2) example_locate)
  have apart: "\<forall>i < 4. \<forall>j < 4. locate mapped_memory 1 (0x4001010 + i) \<noteq> locate mapped_memory 2 (0x100010 + j)"
    by (auto simp: mapped_locate example_locate)
  have n: "1 = num_pages_of 0x4001010 4" by (simp add: num_pages_of_def page_offset_of_def AlignDown_def AlignUp_def PAGE_SIZE_def add32_def)
  have e: "renderer example_outside = None \<or> renderer example_outside = Some SWRasterizer_flush" "(1 :: nat) \<noteq> 2" "0x100010 + 4 \<le> (2 :: nat) ^ 32" "0 < (4 :: nat)"
    "1 < COMMAND_BUFFER_LENGTH" "0x4001010 = unat (0x4001010 :: u32)" "0x4001000 = 0x4001010 - 0x4001010 mod PAGE_SIZE" "PAGE_SIZE \<le> 0x4001000"
    "0x4001000 + 1 * PAGE_SIZE + PAGE_SIZE \<le> MAX_ADDRESS"
    by (simp_all add: COMMAND_BUFFER_LENGTH_def PAGE_SIZE_def MAX_ADDRESS_def)
  have bytes: "map (byte_at mapped_memory 1) [0x4001010 ..< 0x4001010 + 4] = [0x30, 0x31, 0x32, 0x33]"
    by (simp add: byte_at_def mapped_locate upt_conv_Cons) (simp add: mapped_memory_def)
  have none: "\<forall>x \<in> set []. \<not> (mb_permissions x = mapped_perms ?d \<and> mb_size x = 4 \<and> target_address x = 0x4001010)" by simp
  from buffer_returned [of example_outside 1 replying 1 2 2 ?c 4 ?d 1 "0x4001010" "[]" "[]" 1 "0x4001000" "\<lambda>_ _. 0" 1 0 2, unfolded s(1-5) bytes,
      OF e(1) refl refl e(2) mapped_areas_ok(1) mapped_memory_ok(2,1,1) own e(3) d(1,2) e(4,5,6) s(6-9) none n e(7) mapped_areas_ok(3) e(8,9) mapped_areas_ok(2,2) apart]
  show ?thesis using d(3,4) by auto
qed

section \<open>Static buffers\<close>

text \<open>
  C18: A static buffer: the bytes of the sender are copied to the address that the receiver put for the buffer's id behind its command
  buffer, if the size it put there is large enough. The receiver reads them there and finds the address in the command;
  no other byte of memory and no other word of the command changes.
\<close>

theorem static_copied:
  assumes "renderer out = None \<or> renderer out = Some SWRasterizer_flush" "pts = page_table_of tr src" "ptd = page_table_of tr dst"
    and "mem_ok (tr_memory tr) pts" "no_device (tr_memory tr) pts source sz" "source + sz \<le> 2 ^ 32" "mem_ok (tr_memory tr) ptd"
    and "GetDescriptorType d = StaticBuffer" "sz = unat (static_size d)" "i < COMMAND_BUFFER_LENGTH" "source = unat (cmd_buf tr ! i)"
    and "slot = dst_address + COMMAND_BUFFER_LENGTH * 4 + 8 * unat (static_buffer_id d)" "slot + 8 \<le> 2 ^ 32" "no_device (tr_memory tr) ptd slot 8"
    and "map (byte_at (tr_memory tr) ptd) [slot ..< slot + 8] = to_bytes 4 info @ to_bytes 4 address" "sz \<le> unat (static_size info)"
    and "own_bytes (tr_memory tr) ptd (unat address) sz" "unat address + sz \<le> 2 ^ 32"
  shows "\<exists>tr'. translate_descriptor out al reply st src dst dst_address command_size d i tr = Some (Inr 1, tr')
    \<and> cmd_buf tr' = (cmd_buf tr)[i := address]
    \<and> ReadBlock out ptd (unat address) sz (tr_memory tr') = Some (map (byte_at (tr_memory tr) pts) [source ..< source + sz], tr_memory tr')
    \<and> (\<forall>q a. (\<forall>j < sz. locate (tr_memory tr) q a \<noteq> locate (tr_memory tr) ptd (unat address + j)) \<longrightarrow> byte_at (tr_memory tr') q a = byte_at (tr_memory tr) q a)
    \<and> mem_ok (tr_memory tr') pts \<and> mem_ok (tr_memory tr') ptd \<and> tr_system tr' = tr_system tr"
proof -
  let ?ms = "tr_memory tr" and ?data = "map (byte_at (tr_memory tr) pts) [source ..< source + sz]"
  let ?h = "put (locate ?ms ptd) (unat address) ?data (host ?ms)"
  note quiet = quiet_out [OF assms(1)] and rd = quiet_renderer.read_bytes [OF quiet_out [OF assms(1)]]
  have l: "length ?data = sz" by simp
  have r1: "ReadBlock out pts source sz ?ms = Some (?data, ?ms)" by (rule rd [OF assms(4-6)])
  have r2: "ReadBlock out ptd slot 8 ?ms = Some (to_bytes 4 info @ to_bytes 4 address, ?ms)" using rd [OF assms(7,14,13)] unfolding assms(15) .
  have w: "WriteBlock out ptd (unat address) (Buffer ?data) sz ?ms = Some (set_host ?h ?ms)"
    using blocks_bytes_write [OF assms(1,7), of "unat address" ?data] own_bytes_no_device [OF assms(17)] assms(18) unfolding l by simp
  have b: "same_blocks ?h (host ?ms)" by (rule put_same_blocks [OF assms(7)]) (simp add: same_blocks_def)
  then have ok: "mem_ok (set_host ?h ?ms) pts" "mem_ok (set_host ?h ?ms) ptd" using assms(4,7) by (simp_all add: mem_ok_set_host)
  have of4: "of_bytes (to_bytes 4 v) = v" for v :: u32 by (rule of_to_bytes) simp
  have slot: "add32 dst_address (COMMAND_BUFFER_LENGTH * 4 + 8 * unat (static_buffer_id d)) = slot" using assms(12,13) by (simp add: add32_def)
  have "translate_static out src dst dst_address d i tr = Some (tr\<lparr>tr_memory := set_host ?h ?ms, cmd_buf := (cmd_buf tr)[i := address]\<rparr>)"
    unfolding translate_static_def cmd_read_def Let_def slot assms(2,3) [symmetric] assms(9) [symmetric]
    using assms(10,11,16) r1 r2 w by (simp add: of4 cmd_write_def)
  then have "translate_descriptor out al reply st src dst dst_address command_size d i tr
      = Some (Inr 1, tr\<lparr>tr_memory := set_host ?h ?ms, cmd_buf := (cmd_buf tr)[i := address]\<rparr>)"
    using assms(8) by (simp add: translate_descriptor_def descriptor_types)
  moreover have "ReadBlock out ptd (unat address) sz (set_host ?h ?ms) = Some (?data, set_host ?h ?ms)"
    using rd [OF ok(2) _ assms(18)] own_bytes_no_device [OF assms(17)] own_bytes_put [OF assms(17) l] by simp
  moreover have "byte_at (set_host ?h ?ms) q a = byte_at ?ms q a" if "\<forall>j < sz. locate ?ms q a \<noteq> locate ?ms ptd (unat address + j)" for q a
    by (rule byte_at_elsewhere) (use that in simp)
  ultimately show ?thesis using ok by simp
qed

text \<open>The second process expects the static buffer with id 3 at \<open>0x14000100\<close>; the command is at the beginning of its page.\<close>

definition static_memory :: "unit MemorySystem" where
  "static_memory = set_host (\<lambda>a. Some (if 0x5118 \<le> a \<and> a < 0x5120 then (to_bytes 4 (StaticBufferDesc 16 3) @ to_bytes 4 (0x14000100 :: u32)) ! (a - 0x5118) else of_nat a)) example_memory"

theorem static_copied_witness:
  "\<exists>tr'. translate_descriptor example_outside (\<lambda>_ _. 0) False 1 1 2 0x100000 2 (StaticBufferDesc 4 3) 1 ((example_translation [0, 0x101000])\<lparr>tr_memory := static_memory\<rparr>)
       = Some (Inr 1, tr')
     \<and> cmd_buf tr' ! 1 = 0x14000100 \<and> ReadBlock example_outside 2 0x14000100 4 (tr_memory tr') = Some ([0x40, 0x41, 0x42, 0x43], tr_memory tr')"
proof -
  let ?d = "StaticBufferDesc 4 3" and ?tr = "(example_translation [0, 0x101000])\<lparr>tr_memory := static_memory\<rparr>"
  have d: "GetDescriptorType ?d = StaticBuffer" "4 = unat (static_size ?d)" "unat (static_buffer_id ?d) = 3" "unat (static_size (StaticBufferDesc 16 3)) = 16" by code_simp+
  have s: "tr_memory ?tr = static_memory" "page_table_of ?tr = (\<lambda>p. p)" "cmd_buf ?tr = [0, 0x101000] @ replicate (COMMAND_BUFFER_LENGTH - 2) 0" by (simp_all add: example_translation_def)
  have ok: "mem_ok static_memory pt" for pt using example_ok [of pt] by (subst static_memory_def, subst mem_ok_set_host) (simp_all add: same_blocks_def)
  have nd: "no_device static_memory 1 0x101000 4" "no_device static_memory 2 0x100118 8" by (auto simp: no_device_def static_memory_def example_memory_def example_table_def)
  have own: "own_bytes static_memory 2 (unat (0x14000100 :: u32)) 4" by (auto simp: own_bytes_def static_memory_def example_locate)
  have slot: "map (byte_at static_memory 2) [0x100118 ..< 0x100118 + 8] = to_bytes 4 (StaticBufferDesc 16 3) @ to_bytes 4 (0x14000100 :: u32)"
    by (simp add: byte_at_def static_memory_def example_locate upt_conv_Cons to_bytes_4)
  have bytes: "map (byte_at static_memory 1) [0x101000 ..< 0x101000 + 4] = [0x40, 0x41, 0x42, 0x43]"
    by (simp add: byte_at_def static_memory_def example_locate upt_conv_Cons)
  have e: "renderer example_outside = None \<or> renderer example_outside = Some SWRasterizer_flush" "0x101000 + 4 \<le> (2 :: nat) ^ 32" "1 < COMMAND_BUFFER_LENGTH"
    "0x101000 = unat (([0, 0x101000] @ replicate (COMMAND_BUFFER_LENGTH - 2) 0) ! 1 :: u32)" "0x100118 = 0x100000 + COMMAND_BUFFER_LENGTH * 4 + 8 * unat (static_buffer_id ?d)"
    "0x100118 + 8 \<le> (2 :: nat) ^ 32" "4 \<le> unat (static_size (StaticBufferDesc 16 3))" "unat (0x14000100 :: u32) + 4 \<le> 2 ^ 32"
    by (simp_all add: COMMAND_BUFFER_LENGTH_def d(3,4))
  from static_copied [of example_outside 1 ?tr 1 2 2 "0x101000" 4 ?d 1 "0x100118" "0x100000" "StaticBufferDesc 16 3" "0x14000100" "\<lambda>_ _. 0" False 1 2, unfolded s bytes,
      OF e(1) refl refl ok nd(1) e(2) ok d(1,2) e(3-6) nd(2) slot e(7) own e(8)]
  show ?thesis by auto
qed

end
