(* ===== verification/Cheat_Machine.thy ===== *)
theory Cheat_Machine
  imports Prelude
begin

text \<open>
  The interpreter of Gateway cheat codes, \<^verbatim>\<open>core/cheats/gateway_cheat.cpp\<close>: \<^verbatim>\<open>GatewayCheat::Execute\<close> with its operations. The
  emulated memory is reached through the functions of \<open>MemoryOps\<close>, for which nothing is assumed, and the state of the pad is
  an argument. \<open>None\<close> is a read past the end of the vector of lines.
\<close>

section \<open>Lines and state\<close>

datatype CheatType = CT_Null | CT_Write32 | CT_Write16 | CT_Write8 | CT_GreaterThan32 | CT_LessThan32 | CT_EqualTo32 | CT_NotEqualTo32
  | CT_GreaterThan16WithMask | CT_LessThan16WithMask | CT_EqualTo16WithMask | CT_NotEqualTo16WithMask | CT_LoadOffset | CT_Loop
  | CT_Terminator | CT_LoopExecuteVariant | CT_FullTerminator | CT_SetOffset | CT_AddValue | CT_SetValue | CT_IncrementiveWrite32
  | CT_IncrementiveWrite16 | CT_IncrementiveWrite8 | CT_Load32 | CT_Load16 | CT_Load8 | CT_AddOffset | CT_Joker | CT_Patch
  | CT_Other int

text \<open>\<^verbatim>\<open>static_cast<CheatType>\<close>; a number without a name is a value of its own.\<close>

definition CheatType_codes :: "(int \<times> CheatType) list" where
  "CheatType_codes = [(- 1, CT_Null), (0x00, CT_Write32), (0x01, CT_Write16), (0x02, CT_Write8), (0x03, CT_GreaterThan32), (0x04, CT_LessThan32),
     (0x05, CT_EqualTo32), (0x06, CT_NotEqualTo32), (0x07, CT_GreaterThan16WithMask), (0x08, CT_LessThan16WithMask),
     (0x09, CT_EqualTo16WithMask), (0x0A, CT_NotEqualTo16WithMask), (0x0B, CT_LoadOffset), (0x0C, CT_Loop), (0xD0, CT_Terminator),
     (0xD1, CT_LoopExecuteVariant), (0xD2, CT_FullTerminator), (0xD3, CT_SetOffset), (0xD4, CT_AddValue), (0xD5, CT_SetValue),
     (0xD6, CT_IncrementiveWrite32), (0xD7, CT_IncrementiveWrite16), (0xD8, CT_IncrementiveWrite8), (0xD9, CT_Load32), (0xDA, CT_Load16),
     (0xDB, CT_Load8), (0xDC, CT_AddOffset), (0xDD, CT_Joker), (0xE, CT_Patch)]"

definition CheatType_of :: "int \<Rightarrow> CheatType" where
  "CheatType_of n = (case map_of CheatType_codes n of None \<Rightarrow> CT_Other n | Some t \<Rightarrow> t)"

record CheatLine =
  cl_type :: CheatType
  cl_address :: u32
  cl_value :: u32
  cl_first :: u32
  cheat_line :: string
  cl_valid :: bool

record State =
  reg :: u32
  offset :: u32
  if_flag :: u32
  loop_count :: u32
  loop_back_line :: u64
  current_line_nr :: u64
  loop_flag :: bool

definition State_init :: State where
  "State_init = \<lparr>reg = 0, offset = 0, if_flag = 0, loop_count = 0, loop_back_line = 0, current_line_nr = 0, loop_flag = False\<rparr>"

record 'm MemoryOps =
  mem_Read8 :: "u32 \<Rightarrow> 'm \<Rightarrow> u8"
  mem_Read16 :: "u32 \<Rightarrow> 'm \<Rightarrow> u16"
  mem_Read32 :: "u32 \<Rightarrow> 'm \<Rightarrow> u32"
  mem_Write8 :: "u32 \<Rightarrow> u8 \<Rightarrow> 'm \<Rightarrow> 'm"
  mem_Write16 :: "u32 \<Rightarrow> u16 \<Rightarrow> 'm \<Rightarrow> 'm"
  mem_Write32 :: "u32 \<Rightarrow> u32 \<Rightarrow> 'm \<Rightarrow> 'm"
  mem_InvalidateCacheRange :: "u32 \<Rightarrow> u32 \<Rightarrow> 'm \<Rightarrow> 'm"

section \<open>Operations\<close>

definition WriteOp :: "'m MemoryOps \<Rightarrow> u32 \<Rightarrow> (u32 \<Rightarrow> u32 \<Rightarrow> 'm \<Rightarrow> 'm) \<Rightarrow> CheatLine \<Rightarrow> State \<Rightarrow> 'm \<Rightarrow> 'm" where
  "WriteOp ops sz write_func line st m =
     (let addr = cl_address line + offset st in mem_InvalidateCacheRange ops addr sz (write_func addr (cl_value line) m))"

definition CompOp :: "(u32 \<Rightarrow> 'm \<Rightarrow> 'v) \<Rightarrow> ('v \<Rightarrow> bool) \<Rightarrow> CheatLine \<Rightarrow> State \<Rightarrow> 'm \<Rightarrow> State" where
  "CompOp read_func cmp line st m =
     (if \<not> cmp (read_func (cl_address line + offset st) m) then st\<lparr>if_flag := if_flag st + 1\<rparr> else st)"

definition LoadOffsetOp :: "'m MemoryOps \<Rightarrow> CheatLine \<Rightarrow> State \<Rightarrow> 'm \<Rightarrow> State" where
  "LoadOffsetOp ops line st m = st\<lparr>offset := mem_Read32 ops (cl_address line + offset st) m\<rparr>"

definition LoopOp :: "CheatLine \<Rightarrow> State \<Rightarrow> State" where
  "LoopOp line st = st\<lparr>loop_flag := loop_count st < cl_value line, loop_count := loop_count st + 1, loop_back_line := current_line_nr st\<rparr>"

definition TerminateOp :: "State \<Rightarrow> State" where
  "TerminateOp st = (if if_flag st > 0 then st\<lparr>if_flag := if_flag st - 1\<rparr> else st)"

definition LoopExecuteVariantOp :: "State \<Rightarrow> State" where
  "LoopExecuteVariantOp st =
     (if loop_flag st then st\<lparr>current_line_nr := loop_back_line st - 1\<rparr> else st\<lparr>loop_count := 0\<rparr>)"

definition FullTerminateOp :: "State \<Rightarrow> State" where
  "FullTerminateOp st =
     (if loop_flag st then st\<lparr>current_line_nr := loop_back_line st - 1\<rparr>
      else st\<lparr>offset := 0, reg := 0, loop_count := 0, if_flag := 0, loop_flag := False\<rparr>)"

definition SetOffsetOp :: "CheatLine \<Rightarrow> State \<Rightarrow> State" where
  "SetOffsetOp line st = st\<lparr>offset := cl_value line\<rparr>"

definition AddValueOp :: "CheatLine \<Rightarrow> State \<Rightarrow> State" where
  "AddValueOp line st = st\<lparr>reg := reg st + cl_value line\<rparr>"

definition SetValueOp :: "CheatLine \<Rightarrow> State \<Rightarrow> State" where
  "SetValueOp line st = st\<lparr>reg := cl_value line\<rparr>"

definition IncrementiveWriteOp ::
    "'m MemoryOps \<Rightarrow> u32 \<Rightarrow> (u32 \<Rightarrow> u32 \<Rightarrow> 'm \<Rightarrow> 'm) \<Rightarrow> CheatLine \<Rightarrow> State \<Rightarrow> 'm \<Rightarrow> State \<times> 'm" where
  "IncrementiveWriteOp ops sz write_func line st m =
     (let addr = cl_value line + offset st
      in (st\<lparr>offset := offset st + sz\<rparr>, mem_InvalidateCacheRange ops addr sz (write_func addr (reg st) m)))"

definition LoadOp :: "(u32 \<Rightarrow> 'm \<Rightarrow> u32) \<Rightarrow> CheatLine \<Rightarrow> State \<Rightarrow> 'm \<Rightarrow> State" where
  "LoadOp read_func line st m = st\<lparr>reg := read_func (cl_value line + offset st) m\<rparr>"

definition AddOffsetOp :: "CheatLine \<Rightarrow> State \<Rightarrow> State" where
  "AddOffsetOp line st = st\<lparr>offset := offset st + cl_value line\<rparr>"

definition JokerOp :: "u32 \<Rightarrow> CheatLine \<Rightarrow> State \<Rightarrow> State" where
  "JokerOp pad_state line st =
     (if \<not> (pad_state AND cl_value line) = cl_value line then st\<lparr>if_flag := if_flag st + 1\<rparr> else st)"

definition line_at :: "CheatLine list \<Rightarrow> u64 \<Rightarrow> CheatLine option" where
  "line_at lines i = (if unat i < length lines then Some (lines ! unat i) else None)"

definition part_of :: "bool \<Rightarrow> CheatLine \<Rightarrow> u32" where
  "part_of frst l = (if frst then cl_first l else cl_value l)"

fun patch_words :: "'m MemoryOps \<Rightarrow> CheatLine list \<Rightarrow> bool \<Rightarrow> nat \<Rightarrow> u64 \<Rightarrow> u32 \<Rightarrow> 'm \<Rightarrow> (bool \<times> nat \<times> u64 \<times> u32 \<times> 'm) option" where
  "patch_words ops lines frst num_bytes cur addr m =
     (if num_bytes \<ge> 4 then do {
        l \<leftarrow> line_at lines cur;
        patch_words ops lines (\<not> frst) (num_bytes - 4) (if \<not> frst \<and> num_bytes > 4 then cur + 1 else cur) (addr + 4)
          (mem_Write32 ops addr (part_of frst l) m) }
      else Some (frst, num_bytes, cur, addr, m))"

fun patch_bytes :: "'m MemoryOps \<Rightarrow> CheatLine list \<Rightarrow> bool \<Rightarrow> nat \<Rightarrow> nat \<Rightarrow> u64 \<Rightarrow> u32 \<Rightarrow> 'm \<Rightarrow> 'm option" where
  "patch_bytes ops lines frst bit_offset num_bytes cur addr m =
     (if num_bytes > 0 then do {
        l \<leftarrow> line_at lines cur;
        patch_bytes ops lines frst (bit_offset + 8) (num_bytes - 1) cur (addr + 1) (mem_Write8 ops addr (ucast (drop_bit bit_offset (part_of frst l))) m) }
      else Some m)"

text \<open>\<^verbatim>\<open>std::ceil(line.value / 8.0)\<close> is exact in a double.\<close>

definition PatchOp :: "'m MemoryOps \<Rightarrow> CheatLine list \<Rightarrow> CheatLine \<Rightarrow> State \<Rightarrow> 'm \<Rightarrow> (State \<times> 'm) option" where
  "PatchOp ops lines line st m =
     (if if_flag st > 0 then Some (st\<lparr>current_line_nr := current_line_nr st + of_nat ((unat (cl_value line) + 7) div 8)\<rparr>, m)
      else do {
        let addr = cl_address line + offset st;
        let m = mem_InvalidateCacheRange ops addr (cl_value line) m;
        let cur = (if cl_value line > 0 then current_line_nr st + 1 else current_line_nr st);
        (frst, num_bytes, cur, addr, m) \<leftarrow> patch_words ops lines True (unat (cl_value line)) cur addr m;
        m \<leftarrow> patch_bytes ops lines frst 0 num_bytes cur addr m;
        Some (st\<lparr>current_line_nr := cur\<rparr>, m) })"

section \<open>Execution\<close>

definition is_condition :: "CheatType \<Rightarrow> bool" where
  "is_condition t \<longleftrightarrow> t \<in> {CT_GreaterThan32, CT_LessThan32, CT_EqualTo32, CT_NotEqualTo32, CT_GreaterThan16WithMask, CT_LessThan16WithMask,
     CT_EqualTo16WithMask, CT_NotEqualTo16WithMask, CT_Joker}"

text \<open>The first \<^verbatim>\<open>switch\<close>, for lines in a block that is not executed.\<close>

definition skip_line :: "'m MemoryOps \<Rightarrow> CheatLine list \<Rightarrow> CheatLine \<Rightarrow> State \<Rightarrow> 'm \<Rightarrow> (State \<times> 'm) option" where
  "skip_line ops lines line st m =
     (if is_condition (cl_type line) then Some (st\<lparr>if_flag := if_flag st + 1\<rparr>, m)
      else if cl_type line = CT_Patch then PatchOp ops lines line st m
      else if cl_type line = CT_Terminator then Some (TerminateOp st, m)
      else if cl_type line = CT_FullTerminator then Some (FullTerminateOp st, m)
      else Some (st, m))"

definition masked :: "CheatLine \<Rightarrow> u16 \<Rightarrow> u16" where
  "masked line val = ucast (drop_bit 16 (NOT (cl_value line))) AND val"

definition low16 :: "CheatLine \<Rightarrow> u16" where
  "low16 line = ucast (cl_value line)"

definition do_line :: "'m MemoryOps \<Rightarrow> u32 \<Rightarrow> CheatLine list \<Rightarrow> CheatLine \<Rightarrow> State \<Rightarrow> 'm \<Rightarrow> (State \<times> 'm) option" where
  "do_line ops pad lines line st m =
     (case cl_type line of
        CT_Null \<Rightarrow> Some (st, m)
      | CT_Write32 \<Rightarrow> Some (st, WriteOp ops 4 (mem_Write32 ops) line st m)
      | CT_Write16 \<Rightarrow> Some (st, WriteOp ops 2 (\<lambda>a v. mem_Write16 ops a (ucast v)) line st m)
      | CT_Write8 \<Rightarrow> Some (st, WriteOp ops 1 (\<lambda>a v. mem_Write8 ops a (ucast v)) line st m)
      | CT_GreaterThan32 \<Rightarrow> Some (CompOp (mem_Read32 ops) (\<lambda>val. cl_value line > val) line st m, m)
      | CT_LessThan32 \<Rightarrow> Some (CompOp (mem_Read32 ops) (\<lambda>val. cl_value line < val) line st m, m)
      | CT_EqualTo32 \<Rightarrow> Some (CompOp (mem_Read32 ops) (\<lambda>val. cl_value line = val) line st m, m)
      | CT_NotEqualTo32 \<Rightarrow> Some (CompOp (mem_Read32 ops) (\<lambda>val. cl_value line \<noteq> val) line st m, m)
      | CT_GreaterThan16WithMask \<Rightarrow> Some (CompOp (mem_Read16 ops) (\<lambda>val. low16 line > masked line val) line st m, m)
      | CT_LessThan16WithMask \<Rightarrow> Some (CompOp (mem_Read16 ops) (\<lambda>val. low16 line < masked line val) line st m, m)
      | CT_EqualTo16WithMask \<Rightarrow> Some (CompOp (mem_Read16 ops) (\<lambda>val. low16 line = masked line val) line st m, m)
      | CT_NotEqualTo16WithMask \<Rightarrow> Some (CompOp (mem_Read16 ops) (\<lambda>val. low16 line \<noteq> masked line val) line st m, m)
      | CT_LoadOffset \<Rightarrow> Some (LoadOffsetOp ops line st m, m)
      | CT_Loop \<Rightarrow> Some (LoopOp line st, m)
      | CT_Terminator \<Rightarrow> Some (TerminateOp st, m)
      | CT_LoopExecuteVariant \<Rightarrow> Some (LoopExecuteVariantOp st, m)
      | CT_FullTerminator \<Rightarrow> Some (FullTerminateOp st, m)
      | CT_SetOffset \<Rightarrow> Some (SetOffsetOp line st, m)
      | CT_AddValue \<Rightarrow> Some (AddValueOp line st, m)
      | CT_SetValue \<Rightarrow> Some (SetValueOp line st, m)
      | CT_IncrementiveWrite32 \<Rightarrow> Some (IncrementiveWriteOp ops 4 (mem_Write32 ops) line st m)
      | CT_IncrementiveWrite16 \<Rightarrow> Some (IncrementiveWriteOp ops 2 (\<lambda>a v. mem_Write16 ops a (ucast v)) line st m)
      | CT_IncrementiveWrite8 \<Rightarrow> Some (IncrementiveWriteOp ops 1 (\<lambda>a v. mem_Write8 ops a (ucast v)) line st m)
      | CT_Load32 \<Rightarrow> Some (LoadOp (mem_Read32 ops) line st m, m)
      | CT_Load16 \<Rightarrow> Some (LoadOp (\<lambda>a m. ucast (mem_Read16 ops a m)) line st m, m)
      | CT_Load8 \<Rightarrow> Some (LoadOp (\<lambda>a m. ucast (mem_Read8 ops a m)) line st m, m)
      | CT_AddOffset \<Rightarrow> Some (AddOffsetOp line st, m)
      | CT_Joker \<Rightarrow> Some (JokerOp pad line st, m)
      | CT_Patch \<Rightarrow> PatchOp ops lines line st m
      | CT_Other _ \<Rightarrow> Some (st, m))"

text \<open>
  The body of the loop with the increment of its header, and the loop: \<open>Some None\<close> is a run that leaves the vector, \<open>None\<close> one that
  goes on forever.
\<close>

definition exec_line :: "'m MemoryOps \<Rightarrow> u32 \<Rightarrow> CheatLine list \<Rightarrow> State \<Rightarrow> 'm \<Rightarrow> (State \<times> 'm) option" where
  "exec_line ops pad lines st m =
     (let line = lines ! unat (current_line_nr st)
      in map_option (\<lambda>(st, m). (st\<lparr>current_line_nr := current_line_nr st + 1\<rparr>, m))
           (if if_flag st > 0 then skip_line ops lines line st m else do_line ops pad lines line st m))"

partial_function (option) exec_loop :: "'m MemoryOps \<Rightarrow> u32 \<Rightarrow> CheatLine list \<Rightarrow> State \<Rightarrow> 'm \<Rightarrow> (State \<times> 'm) option option" where
  "exec_loop ops pad lines st m =
     (if unat (current_line_nr st) < length lines then
        (case exec_line ops pad lines st m of
           None \<Rightarrow> Some None
         | Some (st, m) \<Rightarrow> exec_loop ops pad lines st m)
      else Some (Some (st, m)))"

definition Execute :: "'m MemoryOps \<Rightarrow> u32 \<Rightarrow> CheatLine list \<Rightarrow> 'm \<Rightarrow> 'm option option" where
  "Execute ops pad lines m = map_option (map_option snd) (exec_loop ops pad lines State_init m)"

section \<open>Termination\<close>

text \<open>
  A line goes on when it keeps the loop and moves forward, or it starts a loop, or it jumps back to the start of one. A jump from a
  block that is skipped is possible only with a \<^verbatim>\<open>FullTerminator\<close> in a cheat that has loops and conditions.
\<close>

definition has_type :: "CheatLine list \<Rightarrow> (CheatType \<Rightarrow> bool) \<Rightarrow> bool" where
  "has_type lines P \<longleftrightarrow> (\<exists>l \<in> set lines. P (cl_type l))"

definition loops_end :: "CheatLine list \<Rightarrow> bool" where
  "loops_end lines \<longleftrightarrow> \<not> (has_type lines (\<lambda>t. t = CT_FullTerminator) \<and> has_type lines (\<lambda>t. t = CT_Loop) \<and> has_type lines is_condition)"

definition goes_on :: "nat \<Rightarrow> State \<Rightarrow> State \<Rightarrow> bool" where
  "goes_on n st st' \<longleftrightarrow> loop_back_line st' = loop_back_line st \<and> loop_flag st' = loop_flag st \<and> (loop_flag st \<longrightarrow> loop_count st' = loop_count st)
     \<and> unat (current_line_nr st) \<le> unat (current_line_nr st') \<and> unat (current_line_nr st') < n + 2 ^ 30"

lemma unat_add_small:
  assumes "unat (x :: u64) + n < 2 ^ 64"
  shows "unat (x + of_nat n) = unat x + n"
  using assms by (simp add: unat_word_ariths(1) unat_of_nat)

lemma unat_next: "unat (x :: u64) < 2 ^ 64 - 1 \<Longrightarrow> unat (x + 1) = unat x + 1"
  using unat_add_small [of x 1] by simp

lemma patch_words_cur:
  assumes "length lines < 2 ^ 63" "unat cur \<le> length lines" "patch_words ops lines f n cur addr m = Some (f', n', cur', addr', m')"
  shows "unat cur \<le> unat cur' \<and> unat cur' \<le> length lines"
  using assms
proof (induction ops lines f n cur addr m rule: patch_words.induct)
  case (1 ops lines f n cur addr m)
  show ?case
  proof (cases "n \<ge> 4")
    case True
    then obtain l where l: "line_at lines cur = Some l"
      "patch_words ops lines (\<not> f) (n - 4) (if \<not> f \<and> n > 4 then cur + 1 else cur) (addr + 4) (mem_Write32 ops addr (part_of f l) m)
         = Some (f', n', cur', addr', m')"
      using "1.prems"(3) by (auto simp: bind_eq_Some_conv simp del: patch_words.simps simp: patch_words.simps [of ops lines f])
    have lt: "unat cur < length lines" using l(1) by (simp add: line_at_def split: if_splits)
    then have "unat (cur + 1) = unat cur + 1" using "1.prems"(1) unat_next [of cur] by simp
    then show ?thesis using "1.IH" [OF True l(1) "1.prems"(1) _ l(2)] lt by (cases "\<not> f \<and> 4 < n") simp_all
  next
    case False
    then show ?thesis using "1.prems" by simp
  qed
qed

lemma PatchOp_goes_on:
  assumes "length lines < 2 ^ 63" "unat (current_line_nr st) < length lines" "PatchOp ops lines line st m = Some (st', m')"
  shows "goes_on (length lines) st st' \<and> if_flag st' = if_flag st"
proof (cases "if_flag st > 0")
  case True
  let ?n = "(unat (cl_value line) + 7) div 8"
  have "unat (cl_value line) < 2 ^ 32" using unsigned_less [of "cl_value line"] by simp
  then have n: "?n < 2 ^ 30" by simp
  then have "unat (current_line_nr st + of_nat ?n) = unat (current_line_nr st) + ?n" using assms(1,2) by (intro unat_add_small) simp
  then show ?thesis using True assms n by (auto simp: PatchOp_def goes_on_def)
next
  case False
  let ?cur = "if cl_value line > 0 then current_line_nr st + 1 else current_line_nr st"
  obtain f n cur a m1 where w: "patch_words ops lines True (unat (cl_value line)) ?cur (cl_address line + offset st)
      (mem_InvalidateCacheRange ops (cl_address line + offset st) (cl_value line) m) = Some (f, n, cur, a, m1)"
    and st': "st' = st\<lparr>current_line_nr := cur\<rparr>"
    using False assms(3) by (auto simp: PatchOp_def Let_def bind_eq_Some_conv simp del: patch_words.simps patch_bytes.simps)
  have c: "unat (current_line_nr st) \<le> unat ?cur" "unat ?cur \<le> length lines" using assms(1,2) unat_next [of "current_line_nr st"] by auto
  show ?thesis using patch_words_cur [OF assms(1) c(2) w] c(1) st' by (simp add: goes_on_def)
qed

lemma goes_on_same:
  "unat (current_line_nr st) < n \<Longrightarrow> current_line_nr st' = current_line_nr st \<Longrightarrow> loop_back_line st' = loop_back_line st
    \<Longrightarrow> loop_flag st' = loop_flag st \<Longrightarrow> (loop_flag st \<longrightarrow> loop_count st' = loop_count st) \<Longrightarrow> goes_on n st st'"
  by (simp add: goes_on_def)

lemma do_line_goes_on:
  assumes "length lines < 2 ^ 63" "unat (current_line_nr st) < length lines" "if_flag st = 0" "do_line ops pad lines line st m = Some (st', m')"
    and "cl_type line \<noteq> CT_Loop" "\<not> (loop_flag st \<and> cl_type line \<in> {CT_LoopExecuteVariant, CT_FullTerminator})"
  shows "goes_on (length lines) st st' \<and> (if_flag st' = 0 \<or> is_condition (cl_type line))"
proof (cases "cl_type line = CT_Patch")
  case True
  then have "PatchOp ops lines line st m = Some (st', m')" using assms(4) by (simp add: do_line_def)
  then show ?thesis using PatchOp_goes_on [OF assms(1,2)] assms(3) by force
next
  case False
  have "current_line_nr st' = current_line_nr st \<and> loop_back_line st' = loop_back_line st \<and> loop_flag st' = loop_flag st
    \<and> (loop_flag st \<longrightarrow> loop_count st' = loop_count st) \<and> (if_flag st' = 0 \<or> is_condition (cl_type line))"
    using assms(3-6) False
    by (cases "cl_type line")
      (auto simp: do_line_def CompOp_def LoadOffsetOp_def TerminateOp_def LoopExecuteVariantOp_def FullTerminateOp_def SetOffsetOp_def
        AddValueOp_def SetValueOp_def IncrementiveWriteOp_def LoadOp_def AddOffsetOp_def JokerOp_def is_condition_def Let_def split: if_splits)
  then show ?thesis using goes_on_same [OF assms(2)] by blast
qed

lemma skip_line_goes_on:
  assumes "length lines < 2 ^ 63" "unat (current_line_nr st) < length lines" "skip_line ops lines line st m = Some (st', m')"
    and "\<not> (loop_flag st \<and> cl_type line = CT_FullTerminator)"
  shows "goes_on (length lines) st st'"
proof (cases "cl_type line = CT_Patch")
  case True
  then have "PatchOp ops lines line st m = Some (st', m')" using assms(3) by (simp add: skip_line_def is_condition_def)
  then show ?thesis by (rule PatchOp_goes_on [OF assms(1,2), THEN conjunct1])
next
  case False
  show ?thesis
    by (rule goes_on_same [OF assms(2)])
      (use assms(3,4) False in \<open>auto simp: skip_line_def TerminateOp_def FullTerminateOp_def split: if_splits\<close>)
qed

text \<open>The invariant of the loop and its measure: the loops still to come, the rounds left of the current one, the lines left.\<close>

definition cheat_inv :: "CheatLine list \<Rightarrow> State \<Rightarrow> bool" where
  "cheat_inv lines st \<longleftrightarrow> unat (loop_back_line st) \<le> unat (current_line_nr st)
     \<and> (loop_flag st \<longrightarrow> unat (loop_back_line st) < length lines \<and> cl_type (lines ! unat (loop_back_line st)) = CT_Loop
          \<and> loop_count st \<le> cl_value (lines ! unat (loop_back_line st)) \<and> (loop_back_line st = current_line_nr st \<longrightarrow> if_flag st = 0))
     \<and> (if_flag st \<noteq> 0 \<longrightarrow> has_type lines is_condition)"

definition loops_left :: "CheatLine list \<Rightarrow> State \<Rightarrow> nat" where
  "loops_left lines st = length lines - unat (loop_back_line st)
     + (if \<not> loop_flag st \<and> unat (current_line_nr st) \<le> unat (loop_back_line st) then 1 else 0)"

definition rounds_left :: "CheatLine list \<Rightarrow> State \<Rightarrow> nat" where
  "rounds_left lines st =
     (if loop_flag st then 2 * (unat (cl_value (lines ! unat (loop_back_line st))) - unat (loop_count st) + 1)
        + (if current_line_nr st = loop_back_line st then 0 else 1)
      else 0)"

definition cheat_measure :: "CheatLine list \<Rightarrow> (State \<times> State) set" where
  "cheat_measure lines = measures [loops_left lines, rounds_left lines, \<lambda>st. length lines - unat (current_line_nr st)]"

definition advance :: "State \<Rightarrow> State" where
  "advance st = st\<lparr>current_line_nr := current_line_nr st + 1\<rparr>"

lemma goes_on_decreases:
  assumes n: "length lines < 2 ^ 63" "unat (current_line_nr st) < length lines" and inv: "cheat_inv lines st" and g: "goes_on (length lines) st st'"
    and f: "if_flag st' \<noteq> 0 \<longrightarrow> has_type lines is_condition"
    and start: "\<not> (loop_flag st \<and> loop_back_line st = current_line_nr st)"
  shows "cheat_inv lines (advance st') \<and> (advance st', st) \<in> cheat_measure lines"
proof -
  have c: "unat (current_line_nr st' + 1) = unat (current_line_nr st') + 1" using g n(1) by (intro unat_next) (simp add: goes_on_def)
  have d: "unat (loop_back_line st) < unat (current_line_nr st' + 1)" using g inv c by (simp add: goes_on_def cheat_inv_def)
  then have "loop_back_line st \<noteq> current_line_nr st' + 1" by auto
  then have "cheat_inv lines (advance st')" using inv g f d by (auto simp: cheat_inv_def goes_on_def advance_def)
  moreover have "loops_left lines (advance st') \<le> loops_left lines st" "rounds_left lines (advance st') \<le> rounds_left lines st"
    using g d start by (auto simp: loops_left_def rounds_left_def goes_on_def advance_def)
  moreover have "length lines - unat (current_line_nr (advance st')) < length lines - unat (current_line_nr st)"
    using g n(2) c unfolding goes_on_def advance_def by simp linarith
  ultimately show ?thesis by (auto simp: cheat_measure_def)
qed

lemma LoopOp_decreases:
  assumes n: "length lines < 2 ^ 63" "unat (current_line_nr st) < length lines" and inv: "cheat_inv lines st" and "if_flag st = 0"
    and l: "cl_type (lines ! unat (current_line_nr st)) = CT_Loop"
  shows "cheat_inv lines (advance (LoopOp (lines ! unat (current_line_nr st)) st))
    \<and> (advance (LoopOp (lines ! unat (current_line_nr st)) st), st) \<in> cheat_measure lines"
proof -
  let ?l = "lines ! unat (current_line_nr st)" and ?b = "loop_back_line st" and ?c = "current_line_nr st"
  let ?st = "advance (LoopOp ?l st)"
  have c: "unat (?c + 1) = unat ?c + 1" using n by (intro unat_next) simp
  then have ne: "?c + 1 \<noteq> ?c" by auto
  have up: "unat (loop_count st + 1) = unat (loop_count st) + 1" if "loop_count st < cl_value ?l"
    using that by unat_arith
  have "cheat_inv lines ?st" using n(2) l assms(4) c up ne by (auto simp: cheat_inv_def advance_def LoopOp_def word_less_nat_alt word_le_nat_alt)
  moreover have "(?st, st) \<in> cheat_measure lines"
  proof (cases "unat ?b < unat ?c")
    case True
    then have "loops_left lines ?st < loops_left lines st" using n(2) c by (simp add: loops_left_def advance_def LoopOp_def)
    then show ?thesis by (simp add: cheat_measure_def)
  next
    case False
    then have b: "?b = ?c" using inv by (simp add: cheat_inv_def word_unat_eq_iff)
    show ?thesis
    proof (cases "loop_flag st")
      case True
      have "loops_left lines ?st \<le> loops_left lines st" using b c by (simp add: loops_left_def advance_def LoopOp_def)
      moreover have "rounds_left lines ?st < rounds_left lines st"
        using True b inv ne up by (auto simp: rounds_left_def advance_def LoopOp_def word_less_nat_alt)
      ultimately show ?thesis by (auto simp: cheat_measure_def)
    next
      case False
      then have "loops_left lines ?st < loops_left lines st" using b c by (simp add: loops_left_def advance_def LoopOp_def)
      then show ?thesis by (simp add: cheat_measure_def)
    qed
  qed
  ultimately show ?thesis ..
qed

lemma exec_line_decreases:
  assumes n: "length lines < 2 ^ 63" "unat (current_line_nr st) < length lines" and inv: "cheat_inv lines st" and ok: "loops_end lines"
    and e: "exec_line ops pad lines st m = Some (st', m')"
  shows "cheat_inv lines st' \<and> (st', st) \<in> cheat_measure lines"
proof -
  let ?l = "lines ! unat (current_line_nr st)"
  have el: "?l \<in> set lines" using n(2) by simp
  obtain st1 where st1: "st' = advance st1"
    "(if if_flag st > 0 then skip_line ops lines ?l st m else do_line ops pad lines ?l st m) = Some (st1, m')"
    using e by (auto simp: exec_line_def advance_def Let_def)
  have inv': "if_flag st \<noteq> 0 \<longrightarrow> has_type lines is_condition" "loop_flag st \<longrightarrow> has_type lines (\<lambda>t. t = CT_Loop)"
    "loop_flag st \<and> loop_back_line st = current_line_nr st \<longrightarrow> if_flag st = 0 \<and> cl_type ?l = CT_Loop"
    using inv nth_mem unfolding cheat_inv_def has_type_def by auto
  consider (skip) "if_flag st \<noteq> 0" | (loop) "if_flag st = 0" "cl_type ?l = CT_Loop"
    | (jump) "if_flag st = 0" "loop_flag st" "cl_type ?l \<in> {CT_LoopExecuteVariant, CT_FullTerminator}"
    | (on) "if_flag st = 0" "cl_type ?l \<noteq> CT_Loop" "\<not> (loop_flag st \<and> cl_type ?l \<in> {CT_LoopExecuteVariant, CT_FullTerminator})" by blast
  then show ?thesis
  proof cases
    case skip
    then have s: "skip_line ops lines ?l st m = Some (st1, m')" using st1(2) by (simp add: word_gt_0)
    have "\<not> (loop_flag st \<and> cl_type ?l = CT_FullTerminator)" using ok inv'(1,2) skip el unfolding loops_end_def has_type_def by blast
    from skip_line_goes_on [OF n s this] show ?thesis unfolding st1(1)
      by (rule goes_on_decreases [OF n inv]) (use inv' skip in auto)
  next
    case loop
    then have "st1 = LoopOp ?l st" using st1(2) by (simp add: do_line_def)
    then show ?thesis using LoopOp_decreases [OF n inv loop] st1(1) by simp
  next
    case jump
    then have "st1 = st\<lparr>current_line_nr := loop_back_line st - 1\<rparr>"
      using st1(2) by (auto simp: do_line_def LoopExecuteVariantOp_def FullTerminateOp_def)
    then have st': "st' = st\<lparr>current_line_nr := loop_back_line st\<rparr>" using st1(1) by (simp add: advance_def)
    have "current_line_nr st \<noteq> loop_back_line st" using inv'(3) jump by auto
    then have "rounds_left lines st' < rounds_left lines st" using jump(2) by (simp add: rounds_left_def st')
    moreover have "loops_left lines st' \<le> loops_left lines st" using jump(2) by (simp add: loops_left_def st')
    moreover have "cheat_inv lines st'" using inv jump by (simp add: cheat_inv_def st')
    ultimately show ?thesis by (auto simp: cheat_measure_def)
  next
    case on
    then have s: "do_line ops pad lines ?l st m = Some (st1, m')" using st1(2) by simp
    have g: "goes_on (length lines) st st1" "if_flag st1 = 0 \<or> is_condition (cl_type ?l)" using do_line_goes_on [OF n on(1) s on(2,3)] by auto
    show ?thesis unfolding st1(1)
      by (rule goes_on_decreases [OF n inv g(1)]) (use g(2) el on inv'(3) in \<open>auto simp: has_type_def\<close>)
  qed
qed

lemma exec_loop_returns:
  assumes "length lines < 2 ^ 63" "loops_end lines" "cheat_inv lines st"
  shows "\<exists>r. exec_loop ops pad lines st m = Some r"
proof -
  have "wf (cheat_measure lines)" by (simp add: cheat_measure_def)
  then show ?thesis using assms(3)
  proof (induction st arbitrary: m rule: wf_induct_rule)
    case (less st)
    show ?case
    proof (cases "unat (current_line_nr st) < length lines \<and> exec_line ops pad lines st m \<noteq> None")
      case True
      then obtain st' m' where e: "exec_line ops pad lines st m = Some (st', m')" by auto
      then show ?thesis using True less.IH [of st' m'] exec_line_decreases [OF assms(1) _ less.prems assms(2) e]
        by (subst exec_loop.simps) simp
    next
      case False
      then show ?thesis by (cases "exec_line ops pad lines st m"; subst exec_loop.simps) auto
    qed
  qed
qed

text \<open>
  C20: Executing a cheat always ends, whatever the lines, the memory and the buttons, if the cheat does not have all three of a loop, a
  condition and a full terminator.
\<close>
theorem Execute_ends:
  assumes "length lines < 2 ^ 63" "loops_end lines"
  shows "\<exists>r. Execute ops pad lines m = Some r"
  using exec_loop_returns [OF assms, of State_init ops pad m] by (auto simp: Execute_def cheat_inv_def State_init_def)

definition some_line :: "CheatType \<Rightarrow> u32 \<Rightarrow> u32 \<Rightarrow> CheatLine" where
  "some_line t a v = \<lparr>cl_type = t, cl_address = a, cl_value = v, cl_first = a, cheat_line = [], cl_valid = True\<rparr>"

definition no_memory :: "unit MemoryOps" where
  "no_memory = \<lparr>mem_Read8 = (\<lambda>_ _. 0), mem_Read16 = (\<lambda>_ _. 0), mem_Read32 = (\<lambda>_ _. 0), mem_Write8 = (\<lambda>_ _ m. m), mem_Write16 = (\<lambda>_ _ m. m),
     mem_Write32 = (\<lambda>_ _ m. m), mem_InvalidateCacheRange = (\<lambda>_ _ m. m)\<rparr>"

theorem Execute_ends_witness:
  "\<exists>r. Execute no_memory 0 [some_line CT_EqualTo32 0 1, some_line CT_Loop 0 3, some_line CT_Terminator 0 0, some_line CT_LoopExecuteVariant 0 0] () = Some r"
  by (rule Execute_ends) (simp_all add: loops_end_def has_type_def some_line_def)

subsection \<open>A cheat that never ends\<close>

text \<open>A set of states that no line leaves.\<close>

lemma exec_loop_diverges:
  assumes closed: "\<And>st. S st \<Longrightarrow> unat (current_line_nr st) < length lines \<and> (\<exists>st'. exec_line ops pad lines st m = Some (st', m) \<and> S st')"
    and "S st"
  shows "exec_loop ops pad lines st m = None"
proof -
  have "\<not> S st'" if "exec_loop ops pad lines st' m = Some r" for st' r
  proof -
    have "\<not> (S st' \<and> ops' = ops \<and> pad' = pad \<and> lines' = lines \<and> m' = m)" if "exec_loop ops' pad' lines' st' m' = Some r" for ops' pad' lines' st' m'
    proof (rule exec_loop.raw_induct [where P = "\<lambda>ops' pad' lines' st' m' r. \<not> (S st' \<and> ops' = ops \<and> pad' = pad \<and> lines' = lines \<and> m' = m)", OF _ that])
      fix f ops' pad' lines' st' m' r
      assume IH: "\<And>ops' pad' lines' st' m' r. f ops' pad' lines' st' m' = Some r \<Longrightarrow> \<not> (S st' \<and> ops' = ops \<and> pad' = pad \<and> lines' = lines \<and> m' = m)"
        and e: "(if unat (current_line_nr st') < length lines' then case exec_line ops' pad' lines' st' m' of None \<Rightarrow> Some None
            | Some (st, m) \<Rightarrow> f ops' pad' lines' st m else Some (Some (st', m'))) = Some r"
      show "\<not> (S st' \<and> ops' = ops \<and> pad' = pad \<and> lines' = lines \<and> m' = m)"
      proof
        assume a: "S st' \<and> ops' = ops \<and> pad' = pad \<and> lines' = lines \<and> m' = m"
        then obtain st2 where "exec_line ops pad lines st' m = Some (st2, m)" "S st2" "unat (current_line_nr st') < length lines" using closed by blast
        then show False using IH [of ops pad lines st2 m r] e a by simp
      qed
    qed
    then show ?thesis using that by blast
  qed
  then show ?thesis using assms(2) by (metis not_None_eq)
qed

definition hanging_cheat :: "CheatLine list" where
  "hanging_cheat = [some_line CT_Loop 0 2, some_line CT_Terminator 0 0, some_line CT_EqualTo32 0 1, some_line CT_FullTerminator 0 0]"

text \<open>
  The condition is needed: a loop of two rounds over a failing condition and a full terminator jumps back to the start of the loop
  with the block still skipped, so that the rounds are not counted.
\<close>

theorem Execute_hangs:
  assumes "mem_Read32 ops 0 m \<noteq> 1"
  shows "Execute ops pad hanging_cheat m = None"
proof -
  let ?S = "\<lambda>st. loop_back_line st = 0 \<and> loop_flag st \<and> offset st = 0
    \<and> (current_line_nr st, if_flag st) \<in> {(1, 0), (2, 0), (3, 1), (0, 1), (1, 1)}"
  note defs = exec_line_def hanging_cheat_def some_line_def do_line_def skip_line_def is_condition_def TerminateOp_def FullTerminateOp_def CompOp_def LoopOp_def
  have "exec_loop ops pad hanging_cheat st m = None" if "?S st" for st
    by (rule exec_loop_diverges [where S = ?S]) (use that assms in \<open>auto simp: defs\<close>)
  moreover have "exec_loop ops pad hanging_cheat State_init m
      = exec_loop ops pad hanging_cheat (advance (LoopOp (some_line CT_Loop 0 2) State_init)) m"
    by (subst exec_loop.simps) (simp add: defs State_init_def advance_def)
  ultimately show ?thesis by (simp add: Execute_def State_init_def advance_def LoopOp_def some_line_def)
qed

section \<open>Patches\<close>

text \<open>The words that follow a patch line, two on every line, and writing a sequence of words, and of the low bytes of one.\<close>

definition patch_word :: "CheatLine list \<Rightarrow> nat \<Rightarrow> u32" where
  "patch_word lines i = part_of (even i) (lines ! (i div 2))"

primrec write_words :: "'m MemoryOps \<Rightarrow> u32 \<Rightarrow> u32 list \<Rightarrow> 'm \<Rightarrow> 'm" where
  "write_words ops addr [] m = m"
| "write_words ops addr (w # ws) m = write_words ops (addr + 4) ws (mem_Write32 ops addr w m)"

primrec write_bytes :: "'m MemoryOps \<Rightarrow> u32 \<Rightarrow> u8 list \<Rightarrow> 'm \<Rightarrow> 'm" where
  "write_bytes ops addr [] m = m"
| "write_bytes ops addr (b # bs) m = write_bytes ops (addr + 1) bs (mem_Write8 ops addr b m)"

definition byte_of :: "u32 \<Rightarrow> nat \<Rightarrow> u8" where
  "byte_of w j = ucast (drop_bit (8 * j) w)"

definition at_word :: "bool \<Rightarrow> nat \<Rightarrow> nat" where
  "at_word frst c = 2 * c + (if frst then 0 else 1)"

definition lines_used :: "bool \<Rightarrow> nat \<Rightarrow> nat" where
  "lines_used frst n = (n + (if frst then 0 else 4) + 7) div 8"

lemma patch_word_at: "patch_word lines (at_word frst c) = part_of frst (lines ! c)"
  by (cases frst) (simp_all add: patch_word_def at_word_def)

lemma lines_used_step: "4 < n \<Longrightarrow> lines_used (\<not> frst) (n - 4) + (if frst then 0 else 1) = lines_used frst n"
  by (auto simp: lines_used_def)

lemma lines_used_pos: "0 < n \<Longrightarrow> 0 < lines_used frst n"
  by (simp add: lines_used_def)

lemma patch_words_spec:
  assumes "length lines < 2 ^ 63" "unat cur + lines_used frst n \<le> length lines" "0 < n"
  shows "\<exists>frst' cur'. patch_words ops lines frst n cur addr m = Some (frst', n mod 4, cur', addr + 4 * of_nat (n div 4),
      write_words ops addr (map (patch_word lines) [at_word frst (unat cur) ..< at_word frst (unat cur) + n div 4]) m)
    \<and> unat cur' = unat cur + lines_used frst n - 1
    \<and> (n mod 4 \<noteq> 0 \<longrightarrow> at_word frst' (unat cur') = at_word frst (unat cur) + n div 4)"
  using assms
proof (induction n arbitrary: frst cur addr m rule: less_induct)
  case (less n)
  have c: "unat cur < length lines" using less.prems lines_used_pos [of n frst] by linarith
  show ?case
  proof (cases "n \<ge> 4")
    case False
    then have "lines_used frst n = 1" using less.prems(3) by (auto simp: lines_used_def)
    then show ?thesis using False by simp
  next
    case True
    let ?m = "mem_Write32 ops addr (part_of frst (lines ! unat cur)) m"
    let ?cur = "if \<not> frst \<and> n > 4 then cur + 1 else cur"
    have st: "patch_words ops lines frst n cur addr m = patch_words ops lines (\<not> frst) (n - 4) ?cur (addr + 4) ?m"
      using True c by (subst patch_words.simps) (simp add: line_at_def del: patch_words.simps)
    have w: "part_of frst (lines ! unat cur) = patch_word lines (at_word frst (unat cur))" by (simp add: patch_word_at)
    show ?thesis
    proof (cases "n = 4")
      case True
      then have "lines_used frst n = 1" by (simp add: lines_used_def)
      then show ?thesis unfolding st using True by (simp add: w)
    next
      case False
      then have n: "4 < n" using True by simp
      have nx: "unat (cur + 1) = unat cur + 1" using c less.prems(1) by (intro unat_next) simp
      have cur: "unat ?cur = unat cur + (if frst then 0 else 1)" using n nx by simp
      have a: "at_word (\<not> frst) (unat ?cur) = at_word frst (unat cur) + 1" unfolding cur by (simp add: at_word_def)
      have u: "unat ?cur + lines_used (\<not> frst) (n - 4) = unat cur + lines_used frst n" using lines_used_step [OF n, of frst] cur by simp
      have "unat ?cur + lines_used (\<not> frst) (n - 4) \<le> length lines" using u less.prems(2) by simp
      then obtain f' cur' where ih: "patch_words ops lines (\<not> frst) (n - 4) ?cur (addr + 4) ?m = Some (f', (n - 4) mod 4, cur', addr + 4 + 4 * of_nat ((n - 4) div 4),
          write_words ops (addr + 4) (map (patch_word lines) [at_word frst (unat cur) + 1 ..< at_word frst (unat cur) + 1 + (n - 4) div 4]) ?m)"
        "unat cur' = unat cur + lines_used frst n - 1"
        "(n - 4) mod 4 \<noteq> 0 \<longrightarrow> at_word f' (unat cur') = at_word frst (unat cur) + 1 + (n - 4) div 4"
        using less.IH [of "n - 4" ?cur "\<not> frst" "addr + 4" ?m] n less.prems(1) unfolding a u by auto
      obtain k where k: "n = k + 4" using n by (metis add.commute le_add_diff_inverse less_imp_le)
      have d: "n div 4 = Suc ((n - 4) div 4)" "n mod 4 = (n - 4) mod 4" using k by simp_all
      have l: "[at_word frst (unat cur) ..< at_word frst (unat cur) + n div 4]
          = at_word frst (unat cur) # [at_word frst (unat cur) + 1 ..< at_word frst (unat cur) + 1 + (n - 4) div 4]"
        unfolding d(1) by (simp add: upt_conv_Cons)
      show ?thesis unfolding st ih(1) l
        by (rule exI [where x = f'], rule exI [where x = cur']) (use ih(2,3) d in \<open>simp add: w algebra_simps\<close>)
    qed
  qed
qed

lemma patch_bytes_spec:
  assumes "n \<noteq> 0 \<longrightarrow> unat cur < length lines"
  shows "patch_bytes ops lines frst (8 * j) n cur addr m
    = Some (write_bytes ops addr (map (byte_of (part_of frst (lines ! unat cur))) [j ..< j + n]) m)"
  using assms
proof (induction n arbitrary: j addr m)
  case 0
  then show ?case by simp
next
  case (Suc n)
  let ?w = "part_of frst (lines ! unat cur)"
  have "patch_bytes ops lines frst (8 * j) (Suc n) cur addr m = patch_bytes ops lines frst (8 * Suc j) n cur (addr + 1) (mem_Write8 ops addr (byte_of ?w j) m)"
    using Suc.prems by (subst patch_bytes.simps) (simp add: line_at_def byte_of_def add.commute del: patch_bytes.simps)
  also have "\<dots> = Some (write_bytes ops (addr + 1) (map (byte_of ?w) [Suc j ..< Suc j + n]) (mem_Write8 ops addr (byte_of ?w j) m))"
    using Suc by blast
  also have "\<dots> = Some (write_bytes ops addr (map (byte_of ?w) (j # [Suc j ..< Suc j + n])) m)" by simp
  also have "j # [Suc j ..< Suc j + n] = [j ..< j + Suc n]" by (simp add: upt_conv_Cons del: upt_Suc)
  finally show ?case .
qed

definition patch_ref :: "'m MemoryOps \<Rightarrow> CheatLine list \<Rightarrow> CheatLine \<Rightarrow> State \<Rightarrow> 'm \<Rightarrow> 'm" where
  "patch_ref ops lines line st m =
     (let n = unat (cl_value line); addr = cl_address line + offset st; start = 2 * (unat (current_line_nr st) + 1);
          m = write_words ops addr (map (patch_word lines) [start ..< start + n div 4]) (mem_InvalidateCacheRange ops addr (cl_value line) m)
      in write_bytes ops (addr + 4 * of_nat (n div 4)) (map (byte_of (patch_word lines (start + n div 4))) [0 ..< n mod 4]) m)"

text \<open>
  C22: A patch copies exactly as many bytes as its length says from the lines behind it, the two words of a line in order and the rest of
  the last word from its low byte on, if so many lines follow; and it goes on behind its last line, exactly where a patch in a block
  that is not executed goes on.
\<close>
theorem Patch_copies:
  assumes "length lines < 2 ^ 63" "unat (current_line_nr st) + (unat (cl_value line) + 7) div 8 < length lines" "if_flag st = 0" "d > 0"
  shows "\<exists>st'. PatchOp ops lines line st m = Some (st', patch_ref ops lines line st m)
    \<and> st' = st\<lparr>current_line_nr := current_line_nr st + of_nat ((unat (cl_value line) + 7) div 8)\<rparr>
    \<and> PatchOp ops lines line (st\<lparr>if_flag := d\<rparr>) m = Some (st'\<lparr>if_flag := d\<rparr>, m)"
proof (cases "unat (cl_value line) = 0")
  case True
  then show ?thesis using assms(3,4) by (auto simp: PatchOp_def Let_def patch_ref_def unat_eq_zero)
next
  case False
  let ?n = "unat (cl_value line)" and ?c = "current_line_nr st" and ?a = "cl_address line + offset st"
  let ?m = "mem_InvalidateCacheRange ops ?a (cl_value line) m"
  have c: "unat (?c + 1) = unat ?c + 1" using assms(1,2) by (intro unat_next) simp
  have u: "lines_used True ?n = (?n + 7) div 8" "0 < (?n + 7) div 8" using False by (simp_all add: lines_used_def)
  have "unat (?c + 1) + lines_used True ?n \<le> length lines" using c u assms(2) by simp
  then obtain f cur where w: "patch_words ops lines True ?n (?c + 1) ?a ?m = Some (f, ?n mod 4, cur, ?a + 4 * of_nat (?n div 4),
      write_words ops ?a (map (patch_word lines) [at_word True (unat (?c + 1)) ..< at_word True (unat (?c + 1)) + ?n div 4]) ?m)"
    "unat cur = unat (?c + 1) + lines_used True ?n - 1" "?n mod 4 \<noteq> 0 \<longrightarrow> at_word f (unat cur) = at_word True (unat (?c + 1)) + ?n div 4"
    using patch_words_spec [OF assms(1), of "?c + 1" True ?n ops ?a ?m] False by auto
  have start: "at_word True (unat (?c + 1)) = 2 * (unat ?c + 1)" by (simp add: at_word_def c)
  have cur: "unat cur = unat ?c + (?n + 7) div 8" using w(2) c u by simp
  have "unat (?c + of_nat ((?n + 7) div 8)) = unat ?c + (?n + 7) div 8" using assms(1,2) by (intro unat_add_small) simp
  then have cur': "cur = ?c + of_nat ((?n + 7) div 8)" using cur by (metis word_unat_eq_iff)
  have p: "part_of f (lines ! unat cur) = patch_word lines (2 * (unat ?c + 1) + ?n div 4)" if "?n mod 4 \<noteq> 0"
    using that w(3) patch_word_at [of lines f "unat cur"] by (simp add: start)
  have b: "patch_bytes ops lines f 0 (?n mod 4) cur addr m1
      = Some (write_bytes ops addr (map (byte_of (patch_word lines (2 * (unat ?c + 1) + ?n div 4))) [0 ..< ?n mod 4]) m1)" for addr m1
  proof (cases "?n mod 4 = 0")
    case True
    then show ?thesis by simp
  next
    case False
    then show ?thesis using patch_bytes_spec [of "?n mod 4" cur lines ops f 0 addr m1] cur assms(2) p [OF False] by simp
  qed
  have "cl_value line > 0" using False by (simp add: word_gt_0 unat_eq_zero)
  then have "PatchOp ops lines line st m = Some (st\<lparr>current_line_nr := cur\<rparr>, patch_ref ops lines line st m)"
    using assms(3) w(1) b by (simp add: PatchOp_def Let_def patch_ref_def start del: patch_words.simps patch_bytes.simps)
  moreover have "PatchOp ops lines line (st\<lparr>if_flag := d\<rparr>) m = Some (st\<lparr>if_flag := d, current_line_nr := cur\<rparr>, m)"
    using assms(4) cur' by (simp add: PatchOp_def)
  ultimately show ?thesis using cur' by simp
qed

theorem Patch_copies_witness:
  "\<exists>st'. PatchOp no_memory [some_line CT_Patch 0 5, some_line CT_Null 1 2] (some_line CT_Patch 0 5) State_init () = Some (st', ()) \<and> current_line_nr st' = 1"
proof -
  let ?l = "[some_line CT_Patch 0 5, some_line CT_Null 1 2]"
  have "\<exists>st'. PatchOp no_memory ?l (some_line CT_Patch 0 5) State_init () = Some (st', patch_ref no_memory ?l (some_line CT_Patch 0 5) State_init ())
    \<and> st' = State_init\<lparr>current_line_nr := current_line_nr State_init + of_nat ((unat (cl_value (some_line CT_Patch 0 5)) + 7) div 8)\<rparr>
    \<and> PatchOp no_memory ?l (some_line CT_Patch 0 5) (State_init\<lparr>if_flag := 1\<rparr>) () = Some (st'\<lparr>if_flag := 1\<rparr>, ())"
    by (rule Patch_copies) (simp_all add: some_line_def State_init_def)
  then show ?thesis by (simp add: some_line_def State_init_def)
qed

section \<open>Conditions\<close>

text \<open>
  The meaning of the conditions. The comparisons are those of the comments in the source, but of the memory at the address of the line plus the
  offset register, which the comments of the conditions do not mention. A pad condition asks for all the buttons of its mask.
\<close>

definition condition_holds :: "'m MemoryOps \<Rightarrow> u32 \<Rightarrow> CheatLine \<Rightarrow> State \<Rightarrow> 'm \<Rightarrow> bool" where
  "condition_holds ops pad line st m =
     (let a = cl_address line + offset st; v = cl_value line; y = unat v mod 2 ^ 16; h = NOT (ucast (drop_bit 16 v)) AND mem_Read16 ops a m
      in case cl_type line of
           CT_GreaterThan32 \<Rightarrow> unat v > unat (mem_Read32 ops a m)
         | CT_LessThan32 \<Rightarrow> unat v < unat (mem_Read32 ops a m)
         | CT_EqualTo32 \<Rightarrow> unat v = unat (mem_Read32 ops a m)
         | CT_NotEqualTo32 \<Rightarrow> unat v \<noteq> unat (mem_Read32 ops a m)
         | CT_GreaterThan16WithMask \<Rightarrow> y > unat h
         | CT_LessThan16WithMask \<Rightarrow> y < unat h
         | CT_EqualTo16WithMask \<Rightarrow> y = unat h
         | CT_NotEqualTo16WithMask \<Rightarrow> y \<noteq> unat h
         | CT_Joker \<Rightarrow> (\<forall>i < 32. bit v i \<longrightarrow> bit pad i)
         | _ \<Rightarrow> True)"

lemma masked_eq: "masked line val = NOT (ucast (drop_bit 16 (cl_value line))) AND val"
  unfolding masked_def by (rule bit_word_eqI) (auto simp: bit_simps)

lemma low16_eq: "unat (low16 line) = unat (cl_value line) mod 2 ^ 16"
  by (simp add: low16_def unsigned_ucast_eq take_bit_eq_mod)

lemma covers_iff: "pad AND v = v \<longleftrightarrow> (\<forall>i < 32. bit v i \<longrightarrow> bit pad i)" for v :: u32
  by (subst bit_eq_iff) (auto simp: bit_simps dest: bit_imp_le_length)

lemma condition_decided:
  assumes "is_condition (cl_type line)"
  shows "do_line ops pad lines line st m = Some (if condition_holds ops pad line st m then st else st\<lparr>if_flag := if_flag st + 1\<rparr>, m)"
  using assms unfolding is_condition_def
  by (elim insertE emptyE)
    (simp_all add: do_line_def condition_holds_def CompOp_def JokerOp_def masked_eq low16_eq covers_iff [unfolded word_unat_eq_iff]
      word_less_nat_alt word_unat_eq_iff Let_def, blast)

text \<open>
  How many conditions are open behind lines that are skipped, if \<open>d\<close> are open before them: a condition opens one and a terminator closes one;
  a patch takes the lines with its bytes along, whatever they look like. A terminator too many and a full terminator end the block.
\<close>

definition patch_lines :: "CheatLine \<Rightarrow> nat" where
  "patch_lines l = (unat (cl_value l) + 7) div 8"

function left_open :: "nat \<Rightarrow> CheatLine list \<Rightarrow> nat option" where
  "left_open d [] = Some d"
| "left_open d (l # ls) =
     (if is_condition (cl_type l) then left_open (d + 1) ls
      else if cl_type l = CT_Patch then (if patch_lines l \<le> length ls then left_open d (drop (patch_lines l) ls) else None)
      else if cl_type l = CT_Terminator then (if d = 0 then None else left_open (d - 1) ls)
      else if cl_type l = CT_FullTerminator then None
      else left_open d ls)"
  by pat_completeness auto
termination
  by (relation "measure (length \<circ> snd)") auto

lemma of_nat_next: "n < 2 ^ 63 \<Longrightarrow> unat (of_nat n :: u64) = n"
  by (simp add: unat_of_nat)

lemma skip_one:
  assumes "lines = pre @ l # post" "length lines < 2 ^ 31" "current_line_nr st = of_nat (length pre)" "if_flag st \<noteq> 0"
    "skip_line ops lines l st m = Some (st', m)" "current_line_nr st' = of_nat (length pre + n)"
  shows "exec_loop ops pad lines st m = exec_loop ops pad lines (st'\<lparr>current_line_nr := of_nat (length pre + 1 + n)\<rparr>) m"
proof -
  have u: "unat (current_line_nr st) = length pre" using assms(1-3) by (simp add: of_nat_next)
  then have l: "lines ! unat (current_line_nr st) = l" "unat (current_line_nr st) < length lines" using assms(1) by simp_all
  then show ?thesis using assms(3-6) by (subst exec_loop.simps) (simp add: exec_line_def word_gt_0 add_ac)
qed

text \<open>One line of a block that is skipped: what is open behind it and how many lines it takes.\<close>

lemma skip_step:
  assumes o: "left_open d (l # ls) = Some e" and f: "if_flag st = of_nat (d + 1)" "d + 1 < 2 ^ 31" and c: "current_line_nr st = of_nat k"
  obtains n d1 where "n \<le> length ls" "left_open d1 (drop n ls) = Some e" "d1 \<le> d + 1"
    "skip_line ops lines l st m = Some (st\<lparr>if_flag := of_nat (d1 + 1), current_line_nr := of_nat (k + n)\<rparr>, m)"
proof -
  have u: "unat (if_flag st) = d + 1" unfolding f(1) unat_of_nat using f(2) by simp
  then have p: "if_flag st \<noteq> 0" by auto
  have same: "st\<lparr>if_flag := of_nat (d + 1), current_line_nr := of_nat (k + 0)\<rparr> = st" using f(1) c by simp
  consider (cond) "is_condition (cl_type l)" | (patch) "\<not> is_condition (cl_type l)" "cl_type l = CT_Patch"
    | (ending) "\<not> is_condition (cl_type l)" "cl_type l = CT_Terminator"
    | (other) "\<not> is_condition (cl_type l)" "cl_type l \<noteq> CT_Patch" "cl_type l \<noteq> CT_Terminator" by blast
  then show thesis
  proof cases
    case cond
    then show thesis using o f(1) c by (intro that [of 0 "d + 1"]) (simp_all add: skip_line_def add.commute)
  next
    case patch
    then show thesis using o f(1) c p
      by (intro that [of "patch_lines l" d]) (simp_all add: skip_line_def PatchOp_def word_gt_0 patch_lines_def split: if_splits)
  next
    case ending
    then have "0 < d" "left_open (d - 1) ls = Some e" using o by (auto split: if_splits)
    then show thesis using ending f(1) c p
      by (intro that [of 0 "d - 1"]) (simp_all add: skip_line_def TerminateOp_def word_gt_0)
  next
    case other
    then show thesis using o same by (intro that [of 0 d]) (auto simp: skip_line_def split: if_splits)
  qed
qed

lemma skip_block:
  assumes "left_open d body = Some e" "lines = pre @ body @ post" "length lines < 2 ^ 31" "d + length body < 2 ^ 31 - 1"
    "current_line_nr st = of_nat (length pre)" "if_flag st = of_nat (d + 1)"
  shows "exec_loop ops pad lines st m = exec_loop ops pad lines (st\<lparr>current_line_nr := of_nat (length (pre @ body)), if_flag := of_nat (e + 1)\<rparr>) m
    \<and> e \<le> d + length body"
  using assms
proof (induction "length body" arbitrary: d body pre st rule: less_induct)
  case less
  show ?case
  proof (cases body)
    case Nil
    then have "st\<lparr>current_line_nr := of_nat (length (pre @ body)), if_flag := of_nat (e + 1)\<rparr> = st" "e = d" using less.prems by simp_all
    then show ?thesis by simp
  next
    case (Cons l ls)
    have d: "d + 1 < 2 ^ 31" using less.prems(4) by simp
    obtain n d1 where n: "n \<le> length ls" "left_open d1 (drop n ls) = Some e" "d1 \<le> d + 1"
      "skip_line ops lines l st m = Some (st\<lparr>if_flag := of_nat (d1 + 1), current_line_nr := of_nat (length pre + n)\<rparr>, m)"
      by (rule skip_step [OF less.prems(1) [unfolded Cons] less.prems(6) d less.prems(5)])
    let ?pre = "pre @ l # take n ls"
    let ?st = "st\<lparr>if_flag := of_nat (d1 + 1), current_line_nr := of_nat (length ?pre)\<rparr>"
    have "unat (if_flag st) = d + 1" unfolding less.prems(6) unat_of_nat using d by simp
    then have u: "if_flag st \<noteq> 0" by auto
    have "exec_loop ops pad lines st m = exec_loop ops pad lines ?st m"
      using skip_one [OF _ less.prems(3,5) u n(4), of "ls @ post" n pad] less.prems(2) Cons n(1) by (simp add: min_absorb1)
    moreover have "exec_loop ops pad lines ?st m = exec_loop ops pad lines (?st\<lparr>current_line_nr := of_nat (length (?pre @ drop n ls)), if_flag := of_nat (e + 1)\<rparr>) m
        \<and> e \<le> d1 + length (drop n ls)"
    proof (rule less.hyps [OF _ n(2)])
      show "lines = ?pre @ drop n ls @ post" using less.prems(2) Cons by simp
    qed (use less.prems(3,4) n(1,3) Cons in simp_all)
    moreover have "?st\<lparr>current_line_nr := of_nat (length (?pre @ drop n ls)), if_flag := of_nat (e + 1)\<rparr>
        = st\<lparr>current_line_nr := of_nat (length (pre @ body)), if_flag := of_nat (e + 1)\<rparr>" using Cons n(1) by (simp add: min_absorb1)
    moreover from calculation(2) have "e \<le> d + length body" using n(1,3) Cons by (auto simp del: of_nat_Suc)
    ultimately show ?thesis by simp
  qed
qed

text \<open>
  C21: A condition holds when its comparison holds of the memory at its address plus the offset register (or of the pad), and it guards exactly its
  block: if it holds, execution goes on with the next line. If it fails, then everything up to the terminator that matches it, nested
  conditions and patches with their lines included, is without any effect, and execution goes on behind the terminator. A full terminator
  outside a loop ends the block too, with all conditions open in it, and clears the registers.
\<close>
theorem condition_guards_block:
  assumes "lines = pre @ c # body @ t # post" "length lines < 2 ^ 31" "is_condition (cl_type c)" "left_open 0 body = Some d"
    "cl_type t = CT_Terminator \<and> d = 0 \<or> cl_type t = CT_FullTerminator \<and> \<not> loop_flag st"
    "if_flag st = 0" "current_line_nr st = of_nat (length pre)"
  shows "exec_loop ops pad lines st m = exec_loop ops pad lines
    (if condition_holds ops pad c st m then st\<lparr>current_line_nr := of_nat (length (pre @ [c]))\<rparr>
     else (if cl_type t = CT_Terminator then st else st\<lparr>offset := 0, reg := 0, loop_count := 0\<rparr>)
       \<lparr>current_line_nr := of_nat (length (pre @ c # body @ [t]))\<rparr>) m"
proof -
  let ?n = "\<lambda>xs. of_nat (length xs) :: u64" and ?st = "if condition_holds ops pad c st m then st else st\<lparr>if_flag := 1\<rparr>"
  have u: "unat (current_line_nr st) = length pre" using assms(1,2,7) by (simp add: of_nat_next)
  then have c: "lines ! unat (current_line_nr st) = c" "unat (current_line_nr st) < length lines" using assms(1) by simp_all
  have start: "exec_loop ops pad lines st m = exec_loop ops pad lines (?st\<lparr>current_line_nr := ?n (pre @ [c])\<rparr>) m"
    using c assms(6,7) condition_decided [OF assms(3), of ops pad lines st m] by (subst exec_loop.simps) (simp add: exec_line_def add.commute)
  show ?thesis
  proof (cases "condition_holds ops pad c st m")
    case True
    then show ?thesis using start by simp
  next
    case False
    let ?s1 = "st\<lparr>if_flag := 1, current_line_nr := ?n (pre @ [c])\<rparr>"
    let ?s2 = "st\<lparr>current_line_nr := ?n ((pre @ [c]) @ body), if_flag := of_nat (d + 1)\<rparr>"
    let ?s3 = "(if cl_type t = CT_Terminator then st else st\<lparr>offset := 0, reg := 0, loop_count := 0\<rparr>)\<lparr>current_line_nr := ?n ((pre @ [c]) @ body)\<rparr>"
    have "exec_loop ops pad lines ?s1 m = exec_loop ops pad lines (?s1\<lparr>current_line_nr := ?n ((pre @ [c]) @ body), if_flag := of_nat (d + 1)\<rparr>) m
        \<and> d \<le> 0 + length body"
      by (rule skip_block [OF assms(4)]) (use assms(1,2) in simp_all)
    then have b: "exec_loop ops pad lines ?s1 m = exec_loop ops pad lines ?s2 m" "d < 2 ^ 31" using assms(1,2) by simp_all
    have "unat (of_nat (d + 1) :: u32) = d + 1" using b(2) unfolding unat_of_nat by simp
    then have "of_nat (d + 1) \<noteq> (0 :: u32)" by fastforce
    then have f: "if_flag ?s2 \<noteq> 0" by simp
    have "skip_line ops lines t ?s2 m = Some (?s3, m)"
      using assms(5,6) f by (auto simp: skip_line_def is_condition_def TerminateOp_def FullTerminateOp_def word_gt_0)
    from skip_one [OF _ assms(2) _ f this, of "(pre @ [c]) @ body" post 0 pad] assms(1) b start False
    show ?thesis by simp
  qed
qed

theorem condition_guards_block_witness:
  "exec_loop no_memory 0 ([] @ some_line CT_EqualTo32 0 1 # [some_line CT_Patch 0 8, some_line CT_FullTerminator 0 0, some_line CT_Write32 0 7] @ some_line CT_Terminator 0 0 # []) State_init ()
     = Some (Some (State_init\<lparr>current_line_nr := 5\<rparr>, ()))"
proof -
  let ?c = "some_line CT_EqualTo32 0 1" and ?t = "some_line CT_Terminator 0 0"
  let ?b = "[some_line CT_Patch 0 8, some_line CT_FullTerminator 0 0, some_line CT_Write32 0 7]"
  let ?l = "[] @ ?c # ?b @ ?t # []"
  have h: "length ?l < 2 ^ 31" "is_condition (cl_type ?c)" "left_open 0 ?b = Some 0" "cl_type ?t = CT_Terminator"
    "if_flag State_init = 0" "current_line_nr State_init = of_nat (length [])"
    by (simp_all add: some_line_def is_condition_def State_init_def patch_lines_def)
  have f: "\<not> condition_holds no_memory 0 ?c State_init ()" by (simp add: condition_holds_def some_line_def no_memory_def)
  have "exec_loop no_memory 0 ?l State_init () = exec_loop no_memory 0 ?l (State_init\<lparr>current_line_nr := 5\<rparr>) ()"
    using condition_guards_block [OF refl h(1-3) _ h(5,6), of no_memory 0 "()"] f h(4) by simp
  also have "\<dots> = Some (Some (State_init\<lparr>current_line_nr := 5\<rparr>, ()))"
    by (subst exec_loop.simps) simp
  finally show ?thesis .
qed

end
