(* ===== verification/String_Util.thy ===== *)
theory String_Util
  imports Prelude
begin

text \<open>
  The helpers of \<^verbatim>\<open>common/string_util.cpp\<close> and the conversions of the standard library between strings and numbers. A loop that searches from
  a moving position is kept as one; where it ends it equals a pass over the string.
\<close>

section \<open>Blanks, quotes and case\<close>

definition ToLower :: "string \<Rightarrow> string" where
  "ToLower s = map (\<lambda>c. let n = of_char c :: nat in if 65 \<le> n \<and> n \<le> 90 then char_of (n + 32) else c) s"

definition ToUpper :: "string \<Rightarrow> string" where
  "ToUpper s = map (\<lambda>c. let n = of_char c :: nat in if 97 \<le> n \<and> n \<le> 122 then char_of (n - 32) else c) s"

definition is_blank :: "char \<Rightarrow> bool" where
  "is_blank c \<longleftrightarrow> c \<in> {CHR '' '', CHR 0x09, CHR 0x0D, CHR 0x0A}"

definition StripSpaces :: "string \<Rightarrow> string" where
  "StripSpaces s = rev (dropWhile is_blank (rev (dropWhile is_blank s)))"

text \<open>A single quote mark begins and ends the string; its length less two wraps around, and \<^verbatim>\<open>substr\<close> from behind it is empty.\<close>

definition StripQuotes :: "string \<Rightarrow> string" where
  "StripQuotes s = (if s \<noteq> [] \<and> hd s = CHR 0x22 \<and> last s = CHR 0x22 then take (length s - 2) (tl s) else s)"

section \<open>Splitting and replacing\<close>

text \<open>\<^verbatim>\<open>std::getline\<close> until it fails: an end of the string right behind a delimiter gives no further part.\<close>

function SplitString :: "string \<Rightarrow> char \<Rightarrow> string list" where
  "SplitString s d = (if s = [] then [] else takeWhile (\<lambda>c. c \<noteq> d) s # SplitString (tl (dropWhile (\<lambda>c. c \<noteq> d) s)) d)"
  by pat_completeness auto
termination
  by (relation "measure (\<lambda>(s, _). length s)") (auto simp: le_imp_less_Suc length_dropWhile_le intro: le_less_trans [OF diff_le_mono [OF length_dropWhile_le]])

declare SplitString.simps [simp del]

text \<open>The last directory separator and the last dot, if it is behind it.\<close>

definition SplitPath :: "string \<Rightarrow> (string \<times> string \<times> string) option" where
  "SplitPath full_path =
     (if full_path = [] then None
      else let dir_end = length (dropWhile (\<lambda>c. c \<noteq> CHR ''/'') (rev full_path));
               ext = length (takeWhile (\<lambda>c. c \<noteq> CHR ''.'') (rev full_path));
               fname_end = (if ext = length full_path \<or> length full_path - ext - 1 < dir_end then length full_path else length full_path - ext - 1)
           in Some (take dir_end full_path, take (fname_end - dir_end) (drop dir_end full_path), drop fname_end full_path))"

text \<open>\<^verbatim>\<open>std::string::find\<close> from a position on.\<close>

definition starts_with :: "string \<Rightarrow> string \<Rightarrow> bool" where
  "starts_with src s \<longleftrightarrow> take (length src) s = src"

fun find_in :: "string \<Rightarrow> string \<Rightarrow> nat option" where
  "find_in src s = (if starts_with src s then Some 0 else case s of [] \<Rightarrow> None | _ # r \<Rightarrow> map_option Suc (find_in src r))"

declare find_in.simps [simp del]

definition find_from :: "string \<Rightarrow> string \<Rightarrow> nat \<Rightarrow> nat option" where
  "find_from s src pos = (if pos \<le> length s then map_option (\<lambda>i. pos + i) (find_in src (drop pos s)) else None)"

definition replace_at :: "string \<Rightarrow> nat \<Rightarrow> nat \<Rightarrow> string \<Rightarrow> string" where
  "replace_at s pos n dest = take pos s @ dest @ drop (pos + n) s"

partial_function (option) replace_loop :: "string \<Rightarrow> string \<Rightarrow> string \<Rightarrow> nat \<Rightarrow> string option" where
  "replace_loop result src dest pos =
     (case find_from result src pos of
        None \<Rightarrow> Some result
      | Some i \<Rightarrow> replace_loop (replace_at result i (length src) dest) src dest (i + length dest))"

definition ReplaceAll :: "string \<Rightarrow> string \<Rightarrow> string \<Rightarrow> string option" where
  "ReplaceAll result src dest = (if src = dest then Some result else replace_loop result src dest 0)"

subsection \<open>Replacing as a pass over the string\<close>

function replace_pass :: "string \<Rightarrow> string \<Rightarrow> string \<Rightarrow> string" where
  "replace_pass src dest s =
     (if s = [] \<or> src = [] then s else if starts_with src s then dest @ replace_pass src dest (drop (length src) s) else hd s # replace_pass src dest (tl s))"
  by pat_completeness auto
termination
  by (relation "measure (\<lambda>(_, _, s). length s)") auto

declare replace_pass.simps [simp del]

lemma find_in_None: "src \<noteq> [] \<Longrightarrow> find_in src s = None \<Longrightarrow> replace_pass src dest s = s"
proof (induction s)
  case Nil
  then show ?case by (simp add: replace_pass.simps)
next
  case (Cons c s)
  then have "\<not> starts_with src (c # s)" "find_in src s = None" by (auto simp: find_in.simps [of src "c # s"] split: if_splits)
  then show ?case using Cons by (subst replace_pass.simps) simp
qed

lemma find_in_Some:
  "src \<noteq> [] \<Longrightarrow> find_in src s = Some i \<Longrightarrow> i + length src \<le> length s
    \<and> replace_pass src dest s = take i s @ dest @ replace_pass src dest (drop (i + length src) s)"
proof (induction s arbitrary: i)
  case Nil
  then show ?case by (auto simp: find_in.simps starts_with_def split: if_splits)
next
  case (Cons c s)
  show ?case
  proof (cases "starts_with src (c # s)")
    case True
    then have "i = 0" "length src \<le> length (c # s)"
      using Cons.prems(2) by (auto simp: find_in.simps [of src "c # s"] starts_with_def) (metis length_Cons length_take min.absorb_iff2 min.commute)
    then show ?thesis using True Cons.prems(1) by (subst replace_pass.simps) simp
  next
    case False
    then obtain j where "i = Suc j" "find_in src s = Some j" using Cons.prems(2) by (auto simp: find_in.simps [of src "c # s"])
    then show ?thesis using False Cons by (subst replace_pass.simps) simp
  qed
qed

lemma replace_loop_pass:
  assumes "src \<noteq> []" "pos \<le> length s"
  shows "replace_loop s src dest pos = Some (take pos s @ replace_pass src dest (drop pos s))"
  using assms(2)
proof (induction "length s - pos" arbitrary: s pos rule: less_induct)
  case less
  show ?case
  proof (cases "find_in src (drop pos s)")
    case None
    then show ?thesis using find_in_None [OF assms(1) None] less.prems by (subst replace_loop.simps) (simp add: find_from_def)
  next
    case (Some i)
    let ?p = "pos + i" and ?s = "replace_at s (pos + i) (length src) dest"
    have i: "i + length src \<le> length s - pos"
      and r: "replace_pass src dest (drop pos s) = take i (drop pos s) @ dest @ replace_pass src dest (drop (i + length src) (drop pos s))"
      using find_in_Some [OF assms(1) Some] by auto
    have len: "length ?s = ?p + length dest + (length s - (?p + length src))" using i less.prems by (simp add: replace_at_def)
    have lt: "length ?s - (?p + length dest) < length s - pos" using len i assms(1) less.prems by (cases src) auto
    have t: "take (?p + length dest) ?s = take pos s @ take i (drop pos s) @ dest" "drop (?p + length dest) ?s = drop (i + length src) (drop pos s)"
      using i less.prems by (simp_all add: replace_at_def take_add [of pos i s] add.commute [of _ pos] add.assoc)
    have "replace_loop s src dest pos = replace_loop ?s src dest (?p + length dest)"
      using Some less.prems by (subst replace_loop.simps) (simp add: find_from_def)
    also have "\<dots> = Some (take (?p + length dest) ?s @ replace_pass src dest (drop (?p + length dest) ?s))"
      by (rule less.hyps [OF lt]) (simp add: len)
    finally show ?thesis unfolding t r by simp
  qed
qed

lemma ReplaceAll_pass: "src \<noteq> [] \<Longrightarrow> src \<noteq> dest \<Longrightarrow> ReplaceAll s src dest = Some (replace_pass src dest s)"
  using replace_loop_pass [of src 0 s dest] by (simp add: ReplaceAll_def)

lemma replace_char: "replace_pass [c] dest s = concat (map (\<lambda>x. if x = c then dest else [x]) s)"
  by (induction s) (simp_all add: replace_pass.simps [of "[c]"] starts_with_def)

section \<open>Numbers\<close>

definition digit_value :: "char \<Rightarrow> nat option" where
  "digit_value c = (let n = of_char c :: nat in
     if 48 \<le> n \<and> n \<le> 57 then Some (n - 48) else if 65 \<le> n \<and> n \<le> 90 then Some (n - 55) else if 97 \<le> n \<and> n \<le> 122 then Some (n - 87) else None)"

definition is_digit :: "nat \<Rightarrow> char \<Rightarrow> bool" where
  "is_digit base c \<longleftrightarrow> (case digit_value c of None \<Rightarrow> False | Some v \<Rightarrow> v < base)"

definition is_space :: "char \<Rightarrow> bool" where
  "is_space c \<longleftrightarrow> c \<in> {CHR '' '', CHR 0x09, CHR 0x0A, CHR 0x0B, CHR 0x0C, CHR 0x0D}"

definition digits :: "nat \<Rightarrow> string \<Rightarrow> nat list" where
  "digits base s = map (the \<circ> digit_value) (takeWhile (is_digit base) s)"

definition skip_0x :: "nat \<Rightarrow> string \<Rightarrow> string" where
  "skip_0x base s = (case s of a # b # r \<Rightarrow> if base = 16 \<and> a = CHR ''0'' \<and> b \<in> {CHR ''x'', CHR ''X''} \<and> digits base r \<noteq> [] then r else s | _ \<Rightarrow> s)"

text \<open>The conversion of \<^verbatim>\<open>strtoul\<close> and \<^verbatim>\<open>strtol\<close>; \<open>None\<close> is a string without a number.\<close>

definition strto :: "nat \<Rightarrow> string \<Rightarrow> int option" where
  "strto base s =
     (let s = dropWhile is_space s; neg = (s \<noteq> [] \<and> hd s = CHR ''-''); s = (if s \<noteq> [] \<and> hd s \<in> {CHR ''-'', CHR ''+''} then tl s else s);
          ds = digits base (skip_0x base s); v = int (foldl (\<lambda>v d. base * v + d) 0 ds)
      in if ds = [] then None else Some (if neg then - v else v))"

definition stoul :: "nat \<Rightarrow> string \<Rightarrow> u64 option" where
  "stoul base s = (case strto base s of None \<Rightarrow> None | Some v \<Rightarrow> if \<bar>v\<bar> < 2 ^ 64 then Some (word_of_int v) else None)"

definition stoi :: "nat \<Rightarrow> string \<Rightarrow> int option" where
  "stoi base s = (case strto base s of None \<Rightarrow> None | Some v \<Rightarrow> if - (2 ^ 31) \<le> v \<and> v < 2 ^ 31 then Some v else None)"

end
