(* ===== verification/Cheat_File.thy ===== *)
theory Cheat_File
  imports Cheat_Machine String_Util
begin

text \<open>
  Cheats as text: the constructor of \<^verbatim>\<open>GatewayCheat::CheatLine\<close>, \<^verbatim>\<open>GatewayCheat::ToString\<close> and \<^verbatim>\<open>GatewayCheat::LoadFile\<close>,
  and the list of cheats of \<^verbatim>\<open>CheatEngine\<close>. A file is its contents.
\<close>

section \<open>Strings\<close>

abbreviation nl :: char where
  "nl \<equiv> CHR 0x0A"

text \<open>\<^verbatim>\<open>std::getline\<close> until the end of the file: there is one more line than there are delimiters.\<close>

function file_lines :: "string \<Rightarrow> string list" where
  "file_lines s =
     (let r = dropWhile (\<lambda>c. c \<noteq> nl) s
      in takeWhile (\<lambda>c. c \<noteq> nl) s # (if r = [] then [] else file_lines (tl r)))"
  by pat_completeness auto
termination
  by (relation "measure length") (auto simp: length_dropWhile_le neq_Nil_conv intro: Suc_le_lessD order.trans [OF _ length_dropWhile_le])

declare file_lines.simps [simp del]

section \<open>Lines\<close>

text \<open>Members that the constructor does not set are indeterminate; their value is an argument.\<close>

definition cheat_length :: nat where
  "cheat_length = 17"

definition invalid_line :: "u32 \<Rightarrow> string \<Rightarrow> CheatLine" where
  "invalid_line junk line = \<lparr>cl_type = CT_Null, cl_address = junk, cl_value = junk, cl_first = junk, cheat_line = line, cl_valid = False\<rparr>"

definition CheatLine_of :: "u32 \<Rightarrow> string \<Rightarrow> CheatLine" where
  "CheatLine_of junk line =
     (if length line \<noteq> cheat_length then invalid_line junk line
      else let type_temp = take 1 line; sub_type_temp = (if type_temp \<in> {''D'', ''d''} then take 1 (drop 1 line) else [])
           in case stoi 16 (type_temp @ sub_type_temp) of
                None \<Rightarrow> invalid_line junk line
              | Some n \<Rightarrow> (case stoul 16 (take 8 line) of
                  None \<Rightarrow> invalid_line junk line
                | Some f \<Rightarrow> (case stoul 16 (take 8 (drop 9 line)) of
                    None \<Rightarrow> (invalid_line junk line)\<lparr>cl_first := ucast f, cl_address := ucast f AND 0x0FFFFFFF\<rparr>
                  | Some v \<Rightarrow> \<lparr>cl_type = CheatType_of n, cl_address = ucast f AND 0x0FFFFFFF, cl_value = ucast v, cl_first = ucast f,
                               cheat_line = line, cl_valid = True\<rparr>)))"

section \<open>Cheats\<close>

record GatewayCheat =
  enabled :: bool
  name :: string
  cheat_lines :: "CheatLine list"
  comments :: string

definition GatewayCheat_of_code :: "u32 \<Rightarrow> string \<Rightarrow> string \<Rightarrow> string \<Rightarrow> GatewayCheat" where
  "GatewayCheat_of_code junk nm code cms =
     \<lparr>enabled = False, name = nm, cheat_lines = map (CheatLine_of junk) (filter (\<lambda>l. l \<noteq> []) (SplitString code nl)), comments = cms\<rparr>"

definition GetCode :: "GatewayCheat \<Rightarrow> string" where
  "GetCode c = concat (map (\<lambda>l. cheat_line l @ [nl]) (cheat_lines c))"

definition EnabledText :: string where
  "EnabledText = ''*citra_enabled''"

definition ToString :: "GatewayCheat \<Rightarrow> string" where
  "ToString c = ''['' @ name c @ '']'' @ [nl] @ (if enabled c then EnabledText @ [nl] else [])
     @ concat (map (\<lambda>l. ''*'' @ l @ [nl]) (SplitString (comments c) nl)) @ GetCode c @ [nl]"

text \<open>The variables of the loop of \<^verbatim>\<open>LoadFile\<close>.\<close>

record Loading =
  ld_cheats :: "GatewayCheat list"
  ld_comments :: string
  ld_lines :: "CheatLine list"
  ld_name :: string
  ld_enabled :: bool

definition Loading_init :: Loading where
  "Loading_init = \<lparr>ld_cheats = [], ld_comments = [], ld_lines = [], ld_name = [], ld_enabled = False\<rparr>"

definition finish_cheat :: "Loading \<Rightarrow> GatewayCheat list" where
  "finish_cheat st =
     (if ld_lines st \<noteq> []
      then ld_cheats st @ [\<lparr>enabled = ld_enabled st, name = ld_name st, cheat_lines = ld_lines st, comments = ld_comments st\<rparr>]
      else ld_cheats st)"

definition clean_line :: "string \<Rightarrow> string" where
  "clean_line l = StripSpaces (filter (\<lambda>c. c \<noteq> CHR 0x00) l)"

definition load_line :: "u32 \<Rightarrow> Loading \<Rightarrow> string \<Rightarrow> Loading" where
  "load_line junk st l =
     (let line = clean_line l
      in if length line \<ge> 2 \<and> hd line = CHR ''['' then
           \<lparr>ld_cheats = finish_cheat st, ld_comments = [], ld_lines = [], ld_name = take (length line - 2) (drop 1 line),
            ld_enabled = (if ld_lines st \<noteq> [] then False else ld_enabled st)\<rparr>
         else if line \<noteq> [] \<and> hd line = CHR ''*'' then
           (if line = EnabledText then st\<lparr>ld_enabled := True\<rparr> else st\<lparr>ld_comments := ld_comments st @ tl line @ [nl]\<rparr>)
         else if line \<noteq> [] then st\<lparr>ld_lines := ld_lines st @ [CheatLine_of junk line]\<rparr>
         else st)"

definition LoadFile :: "u32 \<Rightarrow> string option \<Rightarrow> GatewayCheat list" where
  "LoadFile junk file =
     (case file of None \<Rightarrow> [] | Some text \<Rightarrow> finish_cheat (foldl (load_line junk) Loading_init (file_lines text)))"

section \<open>The engine\<close>

record CheatEngine =
  cheats_list :: "GatewayCheat list"

definition AddCheat :: "GatewayCheat \<Rightarrow> CheatEngine \<Rightarrow> CheatEngine" where
  "AddCheat c e = e\<lparr>cheats_list := cheats_list e @ [c]\<rparr>"

definition bad_index :: "int \<Rightarrow> CheatEngine \<Rightarrow> bool" where
  "bad_index index e \<longleftrightarrow> index < 0 \<or> index \<ge> int (length (cheats_list e))"

definition RemoveCheat :: "int \<Rightarrow> CheatEngine \<Rightarrow> CheatEngine" where
  "RemoveCheat index e =
     (if bad_index index e then e else e\<lparr>cheats_list := take (nat index) (cheats_list e) @ drop (nat index + 1) (cheats_list e)\<rparr>)"

definition UpdateCheat :: "int \<Rightarrow> GatewayCheat \<Rightarrow> CheatEngine \<Rightarrow> CheatEngine" where
  "UpdateCheat index c e = (if bad_index index e then e else e\<lparr>cheats_list := (cheats_list e)[nat index := c]\<rparr>)"

definition SaveCheatFile :: "CheatEngine \<Rightarrow> string" where
  "SaveCheatFile e = concat (map ToString (cheats_list e))"

definition LoadCheatFile :: "u32 \<Rightarrow> string option \<Rightarrow> CheatEngine \<Rightarrow> CheatEngine" where
  "LoadCheatFile junk file e = e\<lparr>cheats_list := cheats_list e @ LoadFile junk file\<rparr>"

definition run_interval_ticks :: int where
  "run_interval_ticks = 268111856 div 60"

text \<open>The cheats run in order; a run that leaves a vector or does not end stops the callback. The delay of the next event is computed in \<^verbatim>\<open>u64\<close>.\<close>

fun run_cheats :: "'m MemoryOps \<Rightarrow> u32 \<Rightarrow> GatewayCheat list \<Rightarrow> 'm \<Rightarrow> 'm option option" where
  "run_cheats ops pad [] m = Some (Some m)"
| "run_cheats ops pad (c # cs) m =
     (if enabled c then (case Execute ops pad (cheat_lines c) m of
          Some (Some m) \<Rightarrow> run_cheats ops pad cs m
        | r \<Rightarrow> r)
      else run_cheats ops pad cs m)"

definition RunCallback :: "'m MemoryOps \<Rightarrow> u32 \<Rightarrow> int \<Rightarrow> CheatEngine \<Rightarrow> 'm \<Rightarrow> ('m \<times> int) option option" where
  "RunCallback ops pad cycles_late e m =
     map_option (map_option (\<lambda>m. (m, sint (word_of_int (run_interval_ticks - cycles_late) :: u64)))) (run_cheats ops pad (cheats_list e) m)"

section \<open>Saving and loading\<close>

lemma until_nl:
  assumes "nl \<notin> set l"
  shows "takeWhile (\<lambda>c. c \<noteq> nl) (l @ nl # r) = l" "dropWhile (\<lambda>c. c \<noteq> nl) (l @ nl # r) = nl # r"
  using assms by (induction l) auto

lemma file_lines_line: "nl \<notin> set l \<Longrightarrow> file_lines (l @ nl # r) = l # file_lines r"
  by (subst file_lines.simps) (simp add: until_nl)

lemma file_lines_unlines: "\<forall>l \<in> set ls. nl \<notin> set l \<Longrightarrow> file_lines (concat (map (\<lambda>l. l @ [nl]) ls)) = ls @ [[]]"
proof (induction ls)
  case Nil
  then show ?case by (subst file_lines.simps) simp
next
  case (Cons l ls)
  then show ?case using file_lines_line [of l "concat (map (\<lambda>l. l @ [nl]) ls)"] by simp
qed

lemma SplitString_unlines: "\<forall>l \<in> set ls. nl \<notin> set l \<Longrightarrow> SplitString (concat (map (\<lambda>l. l @ [nl]) ls)) nl = ls"
proof (induction ls)
  case Nil
  then show ?case by (subst SplitString.simps) simp
next
  case (Cons l ls)
  then show ?case by (subst SplitString.simps) (simp add: until_nl)
qed

text \<open>A line of text that comes back as it was written: without newline and NUL, and with no blank at either end.\<close>

definition plain :: "string \<Rightarrow> bool" where
  "plain l \<longleftrightarrow> nl \<notin> set l \<and> CHR 0x00 \<notin> set l \<and> (l \<noteq> [] \<longrightarrow> \<not> is_blank (hd l) \<and> \<not> is_blank (last l))"

lemma clean_plain:
  assumes "plain l"
  shows "clean_line l = l"
proof -
  have f: "filter (\<lambda>c. c \<noteq> CHR 0x00) l = l" using assms by (auto simp: plain_def filter_id_conv)
  have d: "dropWhile is_blank xs = xs" if "xs \<noteq> [] \<longrightarrow> \<not> is_blank (hd xs)" for xs using that by (cases xs) auto
  show ?thesis using assms by (simp add: clean_line_def StripSpaces_def f d plain_def hd_rev)
qed

definition comment_lines :: "GatewayCheat \<Rightarrow> string list" where
  "comment_lines c = SplitString (comments c) nl"

text \<open>
  What can be written so that it is read as the same: a name without newline and NUL, comment and code lines that are plain text and do not
  read as something else, and code lines if the cheat is enabled (a cheat without them is dropped, but not its mark).
\<close>

definition savable :: "u32 \<Rightarrow> GatewayCheat \<Rightarrow> bool" where
  "savable junk c \<longleftrightarrow> nl \<notin> set (name c) \<and> CHR 0x00 \<notin> set (name c)
     \<and> (\<forall>l \<in> set (comment_lines c). plain (CHR ''*'' # l) \<and> CHR ''*'' # l \<noteq> EnabledText)
     \<and> (enabled c \<longrightarrow> cheat_lines c \<noteq> [])
     \<and> (\<forall>l \<in> set (cheat_lines c). l = CheatLine_of junk (cheat_line l) \<and> cheat_line l \<noteq> [] \<and> plain (cheat_line l)
          \<and> hd (cheat_line l) \<notin> {CHR ''['', CHR ''*''})"

text \<open>The comments as they come back: the last line has its newline.\<close>

definition whole_lines :: "string \<Rightarrow> string" where
  "whole_lines s = (if s = [] \<or> last s = nl then s else s @ [nl])"

lemma comments_back: "concat (map (\<lambda>l. l @ [nl]) (SplitString s nl)) = whole_lines s"
proof (induction "length s" arbitrary: s rule: less_induct)
  case less
  let ?h = "takeWhile (\<lambda>c. c \<noteq> nl) s" and ?r = "dropWhile (\<lambda>c. c \<noteq> nl) s"
  have s: "s = ?h @ ?r" by simp
  show ?case
  proof (cases "?r = []")
    case True
    then have n: "nl \<notin> set s" by (auto simp: dropWhile_eq_Nil_conv)
    then have h: "?h = s" by (auto simp: takeWhile_eq_all_conv)
    have e: "SplitString [] nl = []" by (simp add: SplitString.simps)
    have sp: "SplitString s nl = (if s = [] then [] else [s])" by (subst SplitString.simps) (simp add: True h e)
    have "last s \<noteq> nl" if "s \<noteq> []" using last_in_set [OF that] n by metis
    then show ?thesis by (simp add: sp whole_lines_def)
  next
    case False
    then obtain r where r: "?r = nl # r" using hd_dropWhile [of "\<lambda>c. c \<noteq> nl" s] by (cases ?r) auto
    have s': "s = ?h @ nl # r" using s unfolding r .
    have len: "length r < length s" by (subst s') simp
    have sp: "SplitString s nl = ?h # SplitString r nl" unfolding SplitString.simps [of s] r using s' by auto
    have w: "whole_lines s = ?h @ nl # whole_lines r" by (subst s') (simp add: whole_lines_def)
    show ?thesis unfolding sp w using less [OF len] by simp
  qed
qed

definition render :: "GatewayCheat \<Rightarrow> string list" where
  "render c = (''['' @ name c @ '']'') # (if enabled c then [EnabledText] else []) @ map ((#) CHR ''*'') (comment_lines c)
     @ map cheat_line (cheat_lines c) @ [[]]"

lemma ToString_render: "ToString c = concat (map (\<lambda>l. l @ [nl]) (render c))"
  by (simp add: ToString_def render_def GetCode_def comment_lines_def comp_def)

lemma save_render: "concat (map ToString cs) = concat (map (\<lambda>l. l @ [nl]) (concat (map render cs)))"
  by (induction cs) (simp_all add: ToString_render)

lemma render_no_nl: "savable junk c \<Longrightarrow> l \<in> set (render c) \<Longrightarrow> nl \<notin> set l"
  by (auto simp: savable_def render_def plain_def EnabledText_def split: if_splits)

lemma load_comments:
  assumes "\<forall>l \<in> set ls. plain (CHR ''*'' # l) \<and> CHR ''*'' # l \<noteq> EnabledText"
  shows "foldl (load_line junk) st (map ((#) CHR ''*'') ls) = st\<lparr>ld_comments := ld_comments st @ concat (map (\<lambda>l. l @ [nl]) ls)\<rparr>"
  using assms by (induction ls arbitrary: st) (simp_all add: load_line_def clean_plain)

lemma load_code:
  assumes "\<forall>l \<in> set ls. l = CheatLine_of junk (cheat_line l) \<and> cheat_line l \<noteq> [] \<and> plain (cheat_line l) \<and> hd (cheat_line l) \<notin> {CHR ''['', CHR ''*''}"
  shows "foldl (load_line junk) st (map cheat_line ls) = st\<lparr>ld_lines := ld_lines st @ ls\<rparr>"
  using assms
proof (induction ls arbitrary: st)
  case (Cons l ls)
  then have "load_line junk st (cheat_line l) = st\<lparr>ld_lines := ld_lines st @ [l]\<rparr>" by (simp add: load_line_def clean_plain Let_def)
  then show ?case using Cons by simp
qed simp

lemma load_header:
  assumes "nl \<notin> set n" "CHR 0x00 \<notin> set n"
  shows "load_line junk st (CHR ''['' # n @ '']'') = \<lparr>ld_cheats = finish_cheat st, ld_comments = [], ld_lines = [], ld_name = n,
     ld_enabled = (if ld_lines st \<noteq> [] then False else ld_enabled st)\<rparr>"
proof -
  have "plain (''['' @ n @ '']'')" using assms by (simp add: plain_def is_blank_def)
  then show ?thesis using clean_plain [of "CHR ''['' # n @ '']''"] by (simp add: load_line_def Let_def)
qed

lemma load_marker: "load_line junk st EnabledText = st\<lparr>ld_enabled := True\<rparr>" "load_line junk st [] = st"
proof -
  have "plain EnabledText" by (simp add: plain_def EnabledText_def is_blank_def)
  then have "clean_line EnabledText = EnabledText" by (rule clean_plain)
  then show "load_line junk st EnabledText = st\<lparr>ld_enabled := True\<rparr>" by (simp add: load_line_def Let_def) (simp add: EnabledText_def)
  show "load_line junk st [] = st" using clean_plain [of "[]"] by (simp add: load_line_def plain_def)
qed

definition loaded :: "Loading \<Rightarrow> GatewayCheat \<Rightarrow> Loading" where
  "loaded st c = \<lparr>ld_cheats = finish_cheat st, ld_comments = whole_lines (comments c), ld_lines = cheat_lines c, ld_name = name c, ld_enabled = enabled c\<rparr>"

lemma load_cheat:
  assumes "savable junk c" "ld_lines st = [] \<longrightarrow> \<not> ld_enabled st"
  shows "foldl (load_line junk) st (render c) = loaded st c"
  using assms comments_back [of "comments c"]
  by (simp add: render_def savable_def load_header load_comments load_code load_marker loaded_def comment_lines_def)

text \<open>The cheats that a file brings back.\<close>

definition kept_cheats :: "GatewayCheat list \<Rightarrow> GatewayCheat list" where
  "kept_cheats cs = map (\<lambda>c. c\<lparr>comments := whole_lines (comments c)\<rparr>) (filter (\<lambda>c. cheat_lines c \<noteq> []) cs)"

lemma load_cheats:
  assumes "\<forall>c \<in> set cs. savable junk c" "ld_lines st = [] \<longrightarrow> \<not> ld_enabled st"
  shows "finish_cheat (foldl (load_line junk) st (concat (map render cs))) = finish_cheat st @ kept_cheats cs"
  using assms
proof (induction cs arbitrary: st)
  case (Cons c cs)
  have "finish_cheat (loaded st c) = finish_cheat st @ kept_cheats [c]" "ld_lines (loaded st c) = [] \<longrightarrow> \<not> ld_enabled (loaded st c)"
    using Cons.prems(1) unfolding finish_cheat_def [of "loaded st c"] by (auto simp: loaded_def savable_def kept_cheats_def)
  then show ?case using Cons load_cheat [of junk c st] by (simp add: kept_cheats_def)
qed (simp add: kept_cheats_def)

text \<open>
  C23: Loading the file in which cheats were saved gives back those that have code lines, in the same order, with their names, code lines and
  whether they are enabled; their comments come back with a newline at the end, so exactly as they were when they had it, as those of a
  file have, and one newline longer when not. The cheats must be such that their text can be told apart: no newline or NUL in a name, comment
  and code lines without NUL and without blanks at their ends, code lines not empty and not starting with \<^verbatim>\<open>[\<close> or \<^verbatim>\<open>*\<close>, no comment
  \<^verbatim>\<open>citra_enabled\<close>, and code lines in every cheat that is enabled.
\<close>
theorem cheats_roundtrip:
  assumes "\<forall>c \<in> set (cheats_list e). savable junk c"
  shows "LoadCheatFile junk (Some (SaveCheatFile e)) (e\<lparr>cheats_list := []\<rparr>) = e\<lparr>cheats_list :=
      map (\<lambda>c. c\<lparr>comments := if comments c = [] \<or> last (comments c) = nl then comments c else comments c @ [nl]\<rparr>)
        (filter (\<lambda>c. cheat_lines c \<noteq> []) (cheats_list e))\<rparr>"
proof -
  have "SaveCheatFile e = concat (map (\<lambda>l. l @ [nl]) (concat (map render (cheats_list e))))"
    unfolding SaveCheatFile_def by (rule save_render)
  moreover have "\<forall>l \<in> set (concat (map render (cheats_list e))). nl \<notin> set l" using assms render_no_nl by fastforce
  ultimately have "file_lines (SaveCheatFile e) = concat (map render (cheats_list e)) @ [[]]" using file_lines_unlines by metis
  moreover have "finish_cheat Loading_init = []" "\<not> ld_enabled Loading_init" by (simp_all add: finish_cheat_def Loading_init_def)
  ultimately have "LoadCheatFile junk (Some (SaveCheatFile e)) (e\<lparr>cheats_list := []\<rparr>) = e\<lparr>cheats_list := kept_cheats (cheats_list e)\<rparr>"
    using load_cheats [OF assms, of Loading_init] by (simp add: LoadCheatFile_def LoadFile_def load_marker)
  then show ?thesis by (simp only: kept_cheats_def whole_lines_def)
qed

text \<open>Three cheats, the first as the dialog makes them, with a comment that has no newline, the last without code.\<close>

definition some_cheat :: "string \<Rightarrow> GatewayCheat" where
  "some_cheat cms = \<lparr>enabled = True, name = ''Lives'', cheat_lines = [CheatLine_of 0 ''00100000 00000063'', CheatLine_of 0 ''D2000000 00000000''],
     comments = cms\<rparr>"

definition some_engine :: CheatEngine where
  "some_engine = \<lparr>cheats_list = [some_cheat ''by me'', some_cheat (''by me'' @ [nl]), GatewayCheat_of_code 0 ''None'' [] []]\<rparr>"

lemma CheatLine_of_text [simp]: "cheat_line (CheatLine_of junk l) = l"
  by (simp add: CheatLine_of_def invalid_line_def Let_def split: option.splits)

lemma some_cheat_savable: "cms = ''by me'' \<or> cms = ''by me'' @ [nl] \<Longrightarrow> savable 0 (some_cheat cms)"
proof -
  assume "cms = ''by me'' \<or> cms = ''by me'' @ [nl]"
  then have "comment_lines (some_cheat cms) = [''by me'']"
    by (elim disjE) (simp_all add: comment_lines_def some_cheat_def SplitString.simps)
  then show ?thesis by (simp add: savable_def plain_def is_blank_def EnabledText_def) (simp add: some_cheat_def)
qed

theorem cheats_roundtrip_witness:
  "LoadCheatFile 0 (Some (SaveCheatFile some_engine)) (some_engine\<lparr>cheats_list := []\<rparr>)
     = \<lparr>cheats_list = [some_cheat (''by me'' @ [nl]), some_cheat (''by me'' @ [nl])]\<rparr>"
proof -
  have n: "GatewayCheat_of_code 0 ''None'' [] [] = \<lparr>enabled = False, name = ''None'', cheat_lines = [], comments = []\<rparr>"
    by (simp add: GatewayCheat_of_code_def SplitString.simps)
  then have "savable 0 (GatewayCheat_of_code 0 ''None'' [] [])" by (simp add: savable_def comment_lines_def SplitString.simps)
  then have "\<forall>c \<in> set (cheats_list some_engine). savable 0 c" using some_cheat_savable by (simp add: some_engine_def)
  from cheats_roundtrip [OF this] show ?thesis unfolding some_engine_def n by (simp add: some_cheat_def)
qed

text \<open>
  A cheat without code lines is dropped, but its mark \<^verbatim>\<open>*citra_enabled\<close> stays and enables the next one.
\<close>

definition leaking_file :: string where
  "leaking_file = ''[A]'' @ [nl] @ EnabledText @ [nl] @ ''[B]'' @ [nl] @ ''00100000 00000063''"

theorem enabled_leaks: "map (\<lambda>c. (name c, enabled c)) (LoadFile junk (Some leaking_file)) = [(''B'', True)]"
proof -
  have f: "file_lines leaking_file = [''[A]'', EnabledText, ''[B]'', ''00100000 00000063'']"
    unfolding leaking_file_def EnabledText_def by (simp add: file_lines.simps)
  have "clean_line ''00100000 00000063'' = ''00100000 00000063''" by (rule clean_plain) (simp add: plain_def is_blank_def)
  then show ?thesis using load_header [of "''A''"] load_header [of "''B''"]
    by (simp add: LoadFile_def f load_marker load_line_def [of _ _ "''00100000 00000063''"] finish_cheat_def Loading_init_def)
qed

text \<open>The callback returns when every enabled cheat ends.\<close>

lemma RunCallback_returns:
  assumes "\<forall>c \<in> set (cheats_list e). enabled c \<longrightarrow> length (cheat_lines c) < 2 ^ 63 \<and> loops_end (cheat_lines c)"
  shows "\<exists>r. RunCallback ops pad late e m = Some r"
proof -
  have "\<exists>r. run_cheats ops pad cs m = Some r" if "\<forall>c \<in> set cs. enabled c \<longrightarrow> length (cheat_lines c) < 2 ^ 63 \<and> loops_end (cheat_lines c)" for cs
    using that
  proof (induction cs arbitrary: m)
    case (Cons c cs)
    have "\<exists>r. Execute ops pad (cheat_lines c) m = Some r" if "enabled c"
      using exec_loop_returns [of "cheat_lines c" State_init ops pad m] Cons.prems that
      by (auto simp: Execute_def cheat_inv_def State_init_def)
    then show ?case using Cons by (auto split: option.splits)
  qed simp
  then show ?thesis using assms by (auto simp: RunCallback_def)
qed

end
