(* ===== verification/Ring_Buffer.thy ===== *)
theory Ring_Buffer
  imports Prelude
begin

text \<open>
  The single-producer single-consumer queue of \<^verbatim>\<open>common/ring_buffer.h\<close>. The capacity is a power of two and the indices are
  \<^verbatim>\<open>std::size_t\<close> that run on and wrap around; a slot is \<open>g\<close> elements. The queue refines a bounded list, also when the
  steps of its two users are interleaved.
\<close>

section \<open>Operations\<close>

record 'a RingBuffer =
  m_read_index :: u64
  m_write_index :: u64
  m_data :: "'a list"

definition memcpy_to :: "'a list \<Rightarrow> nat \<Rightarrow> 'a list \<Rightarrow> 'a list" where
  "memcpy_to dst off src = take off dst @ src @ drop (off + length src) dst"

definition copy_in :: "nat \<Rightarrow> nat \<Rightarrow> u64 \<Rightarrow> nat \<Rightarrow> 'a list \<Rightarrow> 'a list \<Rightarrow> 'a list" where
  "copy_in capacity g write_index push_count new_slots data =
     (let pos = unat write_index mod capacity; first_copy = min (capacity - pos) push_count; second_copy = push_count - first_copy
      in memcpy_to (memcpy_to data (pos * g) (take (first_copy * g) new_slots)) 0 (take (second_copy * g) (drop (first_copy * g) new_slots)))"

definition copy_out :: "nat \<Rightarrow> nat \<Rightarrow> u64 \<Rightarrow> nat \<Rightarrow> 'a list \<Rightarrow> 'a list" where
  "copy_out capacity g read_index pop_count data =
     (let pos = unat read_index mod capacity; first_copy = min (capacity - pos) pop_count; second_copy = pop_count - first_copy
      in take (first_copy * g) (drop (pos * g) data) @ take (second_copy * g) data)"

definition slots_free :: "nat \<Rightarrow> 'a RingBuffer \<Rightarrow> nat" where
  "slots_free capacity rb = unat (of_nat capacity + m_read_index rb - m_write_index rb)"

definition Size :: "'a RingBuffer \<Rightarrow> u64" where
  "Size rb = m_write_index rb - m_read_index rb"

definition Push :: "nat \<Rightarrow> nat \<Rightarrow> 'a list \<Rightarrow> nat \<Rightarrow> 'a RingBuffer \<Rightarrow> nat \<times> 'a RingBuffer" where
  "Push capacity g new_slots slot_count rb =
     (let push_count = min slot_count (slots_free capacity rb)
      in (push_count, rb\<lparr>m_data := copy_in capacity g (m_write_index rb) push_count new_slots (m_data rb),
                         m_write_index := m_write_index rb + of_nat push_count\<rparr>))"

definition Push_vector :: "nat \<Rightarrow> nat \<Rightarrow> 'a list \<Rightarrow> 'a RingBuffer \<Rightarrow> nat \<times> 'a RingBuffer" where
  "Push_vector capacity g input rb = Push capacity g input (length input div g) rb"

definition Pop :: "nat \<Rightarrow> nat \<Rightarrow> nat \<Rightarrow> 'a RingBuffer \<Rightarrow> 'a list \<times> 'a RingBuffer" where
  "Pop capacity g max_slots rb =
     (let pop_count = min (unat (Size rb)) max_slots
      in (copy_out capacity g (m_read_index rb) pop_count (m_data rb), rb\<lparr>m_read_index := m_read_index rb + of_nat pop_count\<rparr>))"

definition Pop_vector :: "nat \<Rightarrow> nat \<Rightarrow> nat \<Rightarrow> 'a RingBuffer \<Rightarrow> 'a list \<times> 'a RingBuffer" where
  "Pop_vector capacity g max_slots rb = Pop capacity g (min max_slots capacity * g div g) rb"

section \<open>Contents\<close>

definition rb_inv :: "nat \<Rightarrow> nat \<Rightarrow> 'a RingBuffer \<Rightarrow> bool" where
  "rb_inv capacity g rb \<longleftrightarrow> (\<exists>k < 63. capacity = 2 ^ k) \<and> 0 < g \<and> length (m_data rb) = capacity * g \<and> unat (Size rb) \<le> capacity"

text \<open>The elements from a slot on, around the end of the array.\<close>

definition region :: "nat \<Rightarrow> nat \<Rightarrow> u64 \<Rightarrow> nat \<Rightarrow> 'a list \<Rightarrow> 'a list" where
  "region capacity g i n data = map (\<lambda>e. data ! ((unat i mod capacity * g + e) mod (capacity * g))) [0 ..< n * g]"

definition contents :: "nat \<Rightarrow> nat \<Rightarrow> 'a RingBuffer \<Rightarrow> 'a list" where
  "contents capacity g rb = region capacity g (m_read_index rb) (unat (Size rb)) (m_data rb)"

lemma length_region [simp]: "length (region capacity g i n data) = n * g"
  by (simp add: region_def)

lemma nth_region: "e < n * g \<Longrightarrow> region capacity g i n data ! e = data ! ((unat i mod capacity * g + e) mod (capacity * g))"
  by (simp add: region_def)

text \<open>Indices that wrap around at \<open>2\<^sup>6\<^sup>4\<close> still count modulo the capacity.\<close>

lemma index_add:
  assumes "capacity = 2 ^ k" "k < 63"
  shows "unat (i + of_nat n :: u64) mod capacity = (unat i + n) mod capacity"
proof -
  have "(2 :: nat) ^ k dvd 2 ^ 64" using assms(2) by (intro le_imp_power_dvd) simp
  then show ?thesis unfolding assms(1) by (simp add: unat_word_ariths(1) unat_of_nat mod_mod_cancel mod_add_right_eq)
qed

lemma start_add:
  assumes "capacity = 2 ^ k" "k < 63"
  shows "(unat (i + of_nat n :: u64) mod capacity * g) mod (capacity * g) = (unat i mod capacity * g + n * g) mod (capacity * g)"
proof -
  have "(unat (i + of_nat n) mod capacity * g) mod (capacity * g) = ((unat i mod capacity + n) * g) mod (capacity * g)"
    unfolding index_add [OF assms] by (simp add: mult_mod_left mod_add_left_eq)
  then show ?thesis by (simp add: add_mult_distrib)
qed

lemma region_shift:
  assumes "capacity = 2 ^ k" "k < 63"
  shows "region capacity g (i + of_nat n) m data = map (\<lambda>e. data ! ((unat i mod capacity * g + (n * g + e)) mod (capacity * g))) [0 ..< m * g]"
proof -
  have "(unat (i + of_nat n) mod capacity * g + e) mod (capacity * g) = (unat i mod capacity * g + n * g + e) mod (capacity * g)" for e
    using start_add [OF assms, of i n g] by (metis mod_add_left_eq)
  then show ?thesis by (simp add: region_def add.assoc)
qed

lemma region_split:
  assumes "capacity = 2 ^ k" "k < 63"
  shows "region capacity g i (n + m) data = region capacity g i n data @ region capacity g (i + of_nat n) m data"
proof -
  have "[0 ..< (n + m) * g] = [0 ..< n * g] @ map (\<lambda>e. n * g + e) [0 ..< m * g]"
    by (rule nth_equalityI) (auto simp: nth_append add_mult_distrib)
  then show ?thesis unfolding region_shift [OF assms, of g i n m data] by (simp add: region_def comp_def)
qed

section \<open>Copying\<close>

text \<open>Both copies in terms of elements: \<open>N\<close> of them, starting at \<open>P\<close>.\<close>

definition circ_put :: "nat \<Rightarrow> 'a list \<Rightarrow> 'a list \<Rightarrow> 'a list" where
  "circ_put P xs data =
     (let f = min (length data - P) (length xs) in memcpy_to (memcpy_to data P (take f xs)) 0 (drop f xs))"

lemma length_memcpy: "off + length src \<le> length dst \<Longrightarrow> length (memcpy_to dst off src) = length dst"
  by (simp add: memcpy_to_def)

lemma nth_memcpy:
  "off + length src \<le> length dst \<Longrightarrow> i < length dst \<Longrightarrow> memcpy_to dst off src ! i = (if off \<le> i \<and> i < off + length src then src ! (i - off) else dst ! i)"
  by (auto simp: memcpy_to_def nth_append)

lemma wrap_mod: "a < N \<Longrightarrow> b < N \<Longrightarrow> (a + b) mod N = (if a + b < N then a + b else a + b - N)" for a b N :: nat
  by (simp add: mod_if)

lemma circ_put_spec:
  assumes "P < length data" "length xs \<le> length data"
  shows "length (circ_put P xs data) = length data"
    and "e < length xs \<Longrightarrow> circ_put P xs data ! ((P + e) mod length data) = xs ! e"
    and "length xs \<le> e \<Longrightarrow> e < length data \<Longrightarrow> circ_put P xs data ! ((P + e) mod length data) = data ! ((P + e) mod length data)"
proof -
  let ?N = "length data"
  obtain f where f: "f = min (length data - P) (length xs)" by blast
  have ff: "f \<le> length xs" "P + f \<le> ?N" "length xs - f \<le> P" using assms unfolding f by auto
  have c: "circ_put P xs data = memcpy_to (memcpy_to data P (take f xs)) 0 (drop f xs)" unfolding circ_put_def f Let_def by (rule refl)
  have l: "length (memcpy_to data P (take f xs)) = ?N" using ff by (simp add: length_memcpy)
  then show "length (circ_put P xs data) = ?N" using assms ff unfolding c by (simp add: length_memcpy)
  have n: "circ_put P xs data ! i = (if i < length xs - f then xs ! (f + i) else if P \<le> i \<and> i < P + f then xs ! (i - P) else data ! i)"
    if "i < ?N" for i
    using that l ff assms unfolding c by (auto simp: nth_memcpy)
  have w: "(P + e) mod ?N = (if P + e < ?N then P + e else P + e - ?N)" if "e < ?N" for e
    by (rule wrap_mod [OF assms(1) that])
  show "circ_put P xs data ! ((P + e) mod ?N) = xs ! e" if "e < length xs"
    using that assms n [of "(P + e) mod ?N"] w [of e] f by (auto simp: min_def)
  show "circ_put P xs data ! ((P + e) mod ?N) = data ! ((P + e) mod ?N)" if "length xs \<le> e" "e < ?N"
    using that assms n [of "(P + e) mod ?N"] w [of e] f by (auto simp: min_def)
qed

lemma copy_in_circ:
  assumes "0 < capacity" "length data = capacity * g" "n \<le> capacity" "n * g \<le> length xs"
  shows "copy_in capacity g i n xs data = circ_put (unat i mod capacity * g) (take (n * g) xs) data"
proof -
  have f: "min (capacity - unat i mod capacity) n * g = min (length data - unat i mod capacity * g) (length (take (n * g) xs))"
    using assms(2,4) by (simp add: nat_mult_min_left diff_mult_distrib)
  have "take ((n - a) * g) (drop (a * g) xs) = drop (a * g) (take (n * g) xs)" for a
    by (simp add: drop_take diff_mult_distrib)
  moreover have "take (a * g) xs = take (a * g) (take (n * g) xs)" if "a \<le> n" for a using that by (simp add: min_def)
  ultimately show ?thesis unfolding copy_in_def circ_put_def Let_def f [symmetric] by (metis min.cobounded2)
qed

lemma start_less: "0 < capacity \<Longrightarrow> 0 < g \<Longrightarrow> unat (i :: u64) mod capacity * g < capacity * g"
  by simp

lemma copy_in_length:
  assumes "0 < capacity" "0 < g" "length data = capacity * g" "n \<le> capacity" "n * g \<le> length xs"
  shows "length (copy_in capacity g i n xs data) = capacity * g"
  using circ_put_spec(1) [of "unat i mod capacity * g" data "take (n * g) xs"] assms by (simp add: copy_in_circ)

lemma copy_in_written:
  assumes "0 < capacity" "0 < g" "length data = capacity * g" "n \<le> capacity" "n * g \<le> length xs"
  shows "region capacity g i n (copy_in capacity g i n xs data) = take (n * g) xs"
  using circ_put_spec(2) [of "unat i mod capacity * g" data "take (n * g) xs"] assms
  by (intro nth_equalityI) (simp_all add: copy_in_circ nth_region)

text \<open>What lies before the copied slots stays, if both fit into the array.\<close>

lemma copy_in_before:
  assumes c: "capacity = 2 ^ k" "k < 63" and a: "0 < g" "length data = capacity * g" "m + n \<le> capacity" "n * g \<le> length xs"
  shows "region capacity g i m (copy_in capacity g (i + of_nat m) n xs data) = region capacity g i m data"
proof (rule nth_equalityI)
  fix e assume "e < length (region capacity g i m (copy_in capacity g (i + of_nat m) n xs data))"
  then have e: "e < m * g" by simp
  have cap: "0 < capacity" using c by simp
  let ?N = "capacity * g" and ?s = "unat i mod capacity * g" and ?w = "unat (i + of_nat m) mod capacity * g"
  let ?d = "?N - m * g + e"
  have mg: "m * g + n * g \<le> ?N" using a(3) by (metis add_mult_distrib mult_le_mono1)
  have d: "n * g \<le> ?d" "?d < ?N" using mg e by auto
  have "(?w + ?d) mod ?N = (?s + e) mod ?N"
  proof -
    have "?w mod ?N = (?s + m * g) mod ?N" by (rule start_add [OF c])
    then have "(?w + ?d) mod ?N = (?s + m * g + ?d) mod ?N" by (metis mod_add_left_eq)
    also have "?s + m * g + ?d = ?s + e + ?N" using mg by simp
    finally show ?thesis by simp
  qed
  then show "region capacity g i m (copy_in capacity g (i + of_nat m) n xs data) ! e = region capacity g i m data ! e"
    using circ_put_spec(3) [of ?w data "take (n * g) xs" ?d] start_less [OF cap a(1), of "i + of_nat m"] e d a mg cap
    by (simp add: copy_in_circ nth_region)
qed simp

lemma copy_out_region:
  assumes "0 < capacity" "0 < g" "length data = capacity * g" "n \<le> capacity"
  shows "copy_out capacity g i n data = region capacity g i n data"
proof (rule nth_equalityI)
  let ?N = "capacity * g" and ?P = "unat i mod capacity * g"
  obtain f where f: "f = min (capacity - unat i mod capacity) n" by blast
  have c: "copy_out capacity g i n data = take (f * g) (drop ?P data) @ take ((n - f) * g) data" unfolding copy_out_def Let_def f by (rule refl)
  have P: "?P < ?N" using start_less [OF assms(1,2)] .
  have ff: "f \<le> capacity - unat i mod capacity" "n - f \<le> capacity" "f \<le> n" unfolding f using assms(4) by (simp, linarith, simp)
  have le: "f * g \<le> ?N - ?P" "n * g - f * g \<le> ?N" "f * g \<le> n * g" 
    using mult_le_mono1 [OF ff(1), of g] mult_le_mono1 [OF ff(2), of g] mult_le_mono1 [OF ff(3), of g] unfolding diff_mult_distrib by blast+
  have rest: "f * g = ?N - ?P" if "f \<noteq> n"
    using that f diff_mult_distrib [of capacity "unat i mod capacity" g] by (metis min_def)
  have nf: "(n - f) * g = n * g - f * g" by (rule diff_mult_distrib)
  show len: "length (copy_out capacity g i n data) = length (region capacity g i n data)"
    unfolding c nf using le assms(3) by simp
  fix e assume "e < length (copy_out capacity g i n data)"
  then have e: "e < n * g" using len by simp
  have en: "e < ?N" using e mult_le_mono1 [OF assms(4), of g] by linarith
  have w: "(?P + e) mod ?N = (if ?P + e < ?N then ?P + e else ?P + e - ?N)" by (rule wrap_mod [OF P en])
  have l: "length (take (f * g) (drop ?P data)) = f * g" using le assms(3) by simp
  show "copy_out capacity g i n data ! e = region capacity g i n data ! e"
  proof (cases "e < f * g")
    case True
    then have "?P + e < ?N" using le(1) by linarith
    moreover have "drop ?P data ! e = data ! (?P + e)" by (rule nth_drop) (use P assms(3) in linarith)
    ultimately show ?thesis unfolding c nth_append l nth_region [OF e] w using True by simp
  next
    case False
    then have "f \<noteq> n" using e by blast
    then have "\<not> ?P + e < ?N" "e - f * g = ?P + e - ?N" using False rest P by linarith+
    then show ?thesis unfolding c nth_append l nth_region [OF e] w nf using False e le by simp
  qed
qed

section \<open>One user at a time\<close>

lemma rb_invD:
  assumes "rb_inv capacity g rb"
  obtains k where "capacity = 2 ^ k" "k < 63" "0 < capacity" "0 < g" "length (m_data rb) = capacity * g" "unat (Size rb) \<le> capacity"
  using assms by (auto simp: rb_inv_def)

lemma slots_free_eq:
  assumes "rb_inv capacity g rb"
  shows "slots_free capacity rb = capacity - unat (Size rb)"
proof -
  obtain k where k: "capacity = 2 ^ k" "k < 63" "unat (Size rb) \<le> capacity" using rb_invD [OF assms] by metis
  have "(2 :: nat) ^ k < 2 ^ 64" using k(2) by (intro power_strict_increasing) simp_all
  then have c: "unat (of_nat capacity :: u64) = capacity" unfolding k(1) by (simp only: unat_of_nat take_bit_eq_mod) simp
  have e: "of_nat capacity + m_read_index rb - m_write_index rb = of_nat capacity - Size rb" by (simp add: Size_def)
  show ?thesis unfolding slots_free_def e using k(3) c by (simp add: unat_sub word_le_nat_alt)
qed

lemma unat_lt64: "unat (x :: u64) < 2 ^ 64"
  using unsigned_less [of x, where ?'a = nat] by simp

lemma write_index_eq: "m_read_index rb + Size rb = m_write_index rb"
  by (simp add: Size_def)

lemma Size_pushed:
  assumes "rb_inv capacity g rb" "unat (Size rb) + n \<le> capacity"
  shows "unat (m_write_index rb + of_nat n - m_read_index rb) = unat (Size rb) + n"
proof -
  obtain k where k: "capacity = 2 ^ k" "k < 63" using rb_invD [OF assms(1)] by metis
  have "(2 :: nat) ^ k < 2 ^ 64" using k(2) by (intro power_strict_increasing) simp_all
  then have "unat (Size rb) + n < 2 ^ 64" using assms(2) k(1) by linarith
  then have "unat (Size rb + of_nat n) = unat (Size rb) + n" by (simp add: unat_word_ariths(1) unat_of_nat)
  then show ?thesis by (simp add: Size_def algebra_simps)
qed

lemma Push_spec:
  assumes inv: "rb_inv capacity g rb" and n: "slot_count * g \<le> length xs" and p: "Push capacity g xs slot_count rb = (c, rb')"
  shows "rb_inv capacity g rb' \<and> c = min slot_count (capacity - unat (Size rb)) \<and> contents capacity g rb' = contents capacity g rb @ take (c * g) xs
    \<and> unat (Size rb') = unat (Size rb) + c"
proof -
  obtain k where k: "capacity = 2 ^ k" "k < 63" "0 < capacity" "0 < g" "length (m_data rb) = capacity * g" "unat (Size rb) \<le> capacity"
    using rb_invD [OF inv] by metis
  have c: "c = min slot_count (capacity - unat (Size rb))" using p slots_free_eq [OF inv] by (simp add: Push_def Let_def)
  have rb': "rb' = rb\<lparr>m_data := copy_in capacity g (m_write_index rb) c xs (m_data rb), m_write_index := m_write_index rb + of_nat c\<rparr>"
    using p c slots_free_eq [OF inv] by (simp add: Push_def Let_def)
  have cc: "unat (Size rb) + c \<le> capacity" "c \<le> capacity" using c k(6) by auto
  have cg: "c * g \<le> length xs" using n c by (meson le_trans min.cobounded1 mult_le_mono1)
  have s: "unat (Size rb') = unat (Size rb) + c" using Size_pushed [OF inv cc(1)] by (simp add: Size_def rb')
  have "rb_inv capacity g rb'" using copy_in_length [OF k(3,4,5) cc(2) cg] s cc(1) k by (auto simp: rb_inv_def rb')
  moreover have "contents capacity g rb' = contents capacity g rb @ take (c * g) xs"
    using copy_in_before [OF k(1,2,4,5) cc(1) cg, of "m_read_index rb"] copy_in_written [OF k(3,4,5) cc(2) cg, of "m_write_index rb"] s
    by (simp add: contents_def region_split [OF k(1,2)] rb' write_index_eq)
  ultimately show ?thesis using c s by simp
qed

lemma Pop_spec:
  assumes inv: "rb_inv capacity g rb" and p: "Pop capacity g max_slots rb = (out, rb')"
  shows "rb_inv capacity g rb' \<and> out = take (max_slots * g) (contents capacity g rb) \<and> contents capacity g rb' = drop (max_slots * g) (contents capacity g rb)"
proof -
  obtain k where k: "capacity = 2 ^ k" "k < 63" "0 < capacity" "0 < g" "length (m_data rb) = capacity * g" "unat (Size rb) \<le> capacity"
    using rb_invD [OF inv] by metis
  let ?n = "unat (Size rb)" and ?c = "min (unat (Size rb)) max_slots"
  have rb': "rb' = rb\<lparr>m_read_index := m_read_index rb + of_nat ?c\<rparr>" and out: "out = region capacity g (m_read_index rb) ?c (m_data rb)"
    using p copy_out_region [OF k(3-5), of ?c] k(6) by (auto simp: Pop_def Let_def)
  have "Size rb' = Size rb - of_nat ?c" by (simp add: Size_def rb')
  moreover have "unat (of_nat ?c :: u64) = ?c" using unat_lt64 [of "Size rb"] by (simp add: unat_of_nat min_def)
  ultimately have s: "unat (Size rb') = ?n - ?c" by (simp add: unat_sub word_le_nat_alt)
  have all: "contents capacity g rb = out @ contents capacity g rb'"
    using region_split [OF k(1,2), of g "m_read_index rb" ?c "?n - ?c" "m_data rb"] s by (simp add: contents_def out rb')
  have "length out = ?c * g" "length (contents capacity g rb) = ?n * g" by (simp_all add: out contents_def)
  then have "take (max_slots * g) (contents capacity g rb) = out" "drop (max_slots * g) (contents capacity g rb) = contents capacity g rb'"
    using all by (cases "?n \<le> max_slots"; auto simp: min_def)+
  moreover have "rb_inv capacity g rb'" using k s by (auto simp: rb_inv_def rb')
  ultimately show ?thesis by simp
qed

section \<open>A bounded queue\<close>

text \<open>
  The contract of a queue of blocks of \<open>g\<close> elements that holds at most \<open>cap\<close> of them, and what a client can rely on: over any sequence of
  operations nothing is lost, duplicated or reordered.
\<close>

locale bounded_fifo =
  fixes inv :: "'s \<Rightarrow> bool" and held :: "'s \<Rightarrow> 'a list" and push :: "'a list \<Rightarrow> nat \<Rightarrow> 's \<Rightarrow> nat \<times> 's" and pop :: "nat \<Rightarrow> 's \<Rightarrow> 'a list \<times> 's"
    and cap g :: nat
  assumes push_law: "inv s \<Longrightarrow> n * g \<le> length xs \<Longrightarrow> push xs n s = (c, s') \<Longrightarrow> inv s' \<and> c \<le> n \<and> held s' = held s @ take (c * g) xs"
    and push_full: "inv s \<Longrightarrow> push xs n s = (c, s') \<Longrightarrow> c = n \<or> length (held s) + c * g = cap * g"
    and pop_law: "inv s \<Longrightarrow> pop n s = (out, s') \<Longrightarrow> inv s' \<and> out = take (n * g) (held s) \<and> held s' = drop (n * g) (held s)"
begin

fun transfers :: "('a list + nat) list \<Rightarrow> 's \<Rightarrow> 'a list \<times> 'a list \<times> 's" where
  "transfers [] s = ([], [], s)"
| "transfers (Inl xs # ops) s = (let (c, s1) = push xs (length xs div g) s; (ins, outs, s2) = transfers ops s1 in (take (c * g) xs @ ins, outs, s2))"
| "transfers (Inr n # ops) s = (let (out, s1) = pop n s; (ins, outs, s2) = transfers ops s1 in (ins, out @ outs, s2))"

lemma nothing_lost:
  "inv s \<Longrightarrow> transfers ops s = (ins, outs, s') \<Longrightarrow> inv s' \<and> outs @ held s' = held s @ ins"
proof (induction ops s arbitrary: ins outs s' rule: transfers.induct)
  case (2 xs ops s)
  obtain c s1 where p: "push xs (length xs div g) s = (c, s1)" by fastforce
  obtain i o' s2 where t: "transfers ops s1 = (i, o', s2)" by (metis prod_cases3)
  have "inv s1" "held s1 = held s @ take (c * g) xs" using push_law [OF "2.prems"(1) _ p] by (simp_all add: div_times_less_eq_dividend)
  then show ?case using "2.IH" [OF p [symmetric] refl _ t] "2.prems"(2) p t by simp
next
  case (3 n ops s)
  obtain out s1 where p: "pop n s = (out, s1)" by fastforce
  obtain i o' s2 where t: "transfers ops s1 = (i, o', s2)" by (metis prod_cases3)
  have "inv s1" "held s = out @ held s1" using pop_law [OF "3.prems"(1) p] by simp_all
  then show ?case using "3.IH" [OF p [symmetric] refl _ t] "3.prems"(2) p t by auto
qed simp

end

interpretation rb: bounded_fifo "rb_inv capacity g" "contents capacity g" "Push capacity g" "Pop capacity g" capacity g for capacity g
proof
  show "rb_inv capacity g s' \<and> c \<le> n \<and> contents capacity g s' = contents capacity g s @ take (c * g) xs"
    if "rb_inv capacity g s" "n * g \<le> length xs" "Push capacity g xs n s = (c, s')" for s n xs c and s' :: "'a RingBuffer"
    using Push_spec [OF that] by simp
  show "c = n \<or> length (contents capacity g s) + c * g = capacity * g"
    if "rb_inv capacity g s" "Push capacity g xs n s = (c, s')" for s n xs c and s' :: "'a RingBuffer"
  proof -
    have "c = min n (capacity - unat (Size s))" "unat (Size s) \<le> capacity"
      using that slots_free_eq [OF that(1)] by (auto simp: Push_def Let_def rb_inv_def)
    then have "c = n \<or> unat (Size s) + c = capacity" by (auto simp: min_def)
    then show ?thesis by (metis add_mult_distrib contents_def length_region)
  qed
  show "rb_inv capacity g s' \<and> out = take (n * g) (contents capacity g s) \<and> contents capacity g s' = drop (n * g) (contents capacity g s)"
    if "rb_inv capacity g s" "Pop capacity g n s = (out, s')" for s n out and s' :: "'a RingBuffer"
    using Pop_spec [OF that] .
qed

section \<open>Two users at once\<close>

text \<open>
  One thread pushes while another one pops. The steps of each are the loads of the indices, the copy and the store of its own index, in the order
  of the code; the index a thread stores is loaded by it alone beforehand, so that its two loads are one step. \<open>pushed\<close> and \<open>popped\<close> record
  what was handed over.
\<close>

datatype 'a producer = P_idle | P_loaded "'a list" u64 nat | P_copied "'a list" u64 nat

datatype 'a consumer = C_idle | C_loaded u64 nat | C_copied u64 nat "'a list"

record 'a spsc =
  buffer :: "'a RingBuffer"
  producer :: "'a producer"
  consumer :: "'a consumer"
  pushed :: "'a list"
  popped :: "'a list"

inductive spsc_step :: "nat \<Rightarrow> nat \<Rightarrow> 'a spsc \<Rightarrow> 'a spsc \<Rightarrow> bool" for capacity g where
  push_load: "producer s = P_idle \<Longrightarrow> slot_count * g \<le> length xs
    \<Longrightarrow> spsc_step capacity g s (s\<lparr>producer := P_loaded xs (m_write_index (buffer s)) (min slot_count (slots_free capacity (buffer s)))\<rparr>)"
| push_copy: "producer s = P_loaded xs w c
    \<Longrightarrow> spsc_step capacity g s (s\<lparr>buffer := (buffer s)\<lparr>m_data := copy_in capacity g w c xs (m_data (buffer s))\<rparr>, producer := P_copied (take (c * g) xs) w c\<rparr>)"
| push_store: "producer s = P_copied ys w c
    \<Longrightarrow> spsc_step capacity g s (s\<lparr>buffer := (buffer s)\<lparr>m_write_index := w + of_nat c\<rparr>, producer := P_idle, pushed := pushed s @ ys\<rparr>)"
| pop_load: "consumer s = C_idle
    \<Longrightarrow> spsc_step capacity g s (s\<lparr>consumer := C_loaded (m_read_index (buffer s)) (min (unat (Size (buffer s))) max_slots)\<rparr>)"
| pop_copy: "consumer s = C_loaded r c
    \<Longrightarrow> spsc_step capacity g s (s\<lparr>consumer := C_copied r c (copy_out capacity g r c (m_data (buffer s)))\<rparr>)"
| pop_store: "consumer s = C_copied r c out
    \<Longrightarrow> spsc_step capacity g s (s\<lparr>buffer := (buffer s)\<lparr>m_read_index := r + of_nat c\<rparr>, consumer := C_idle, popped := popped s @ out\<rparr>)"

text \<open>The three steps of a side without interruption are \<open>Push\<close> and \<open>Pop\<close>.\<close>

lemma push_uninterrupted:
  assumes "producer s = P_idle" "slot_count * g \<le> length xs" "Push capacity g xs slot_count (buffer s) = (n, rb)"
  shows "(spsc_step capacity g)\<^sup>*\<^sup>* s (s\<lparr>buffer := rb, pushed := pushed s @ take (n * g) xs\<rparr>)"
proof -
  let ?w = "m_write_index (buffer s)" and ?c = "min slot_count (slots_free capacity (buffer s))"
  let ?s1 = "s\<lparr>producer := P_loaded xs ?w ?c\<rparr>"
  let ?s2 = "?s1\<lparr>buffer := (buffer ?s1)\<lparr>m_data := copy_in capacity g ?w ?c xs (m_data (buffer ?s1))\<rparr>, producer := P_copied (take (?c * g) xs) ?w ?c\<rparr>"
  let ?s3 = "?s2\<lparr>buffer := (buffer ?s2)\<lparr>m_write_index := ?w + of_nat ?c\<rparr>, producer := P_idle, pushed := pushed ?s2 @ take (?c * g) xs\<rparr>"
  have 1: "spsc_step capacity g s ?s1" using assms(1,2) by (rule spsc_step.push_load)
  have 2: "spsc_step capacity g ?s1 ?s2" by (rule spsc_step.push_copy) simp
  have 3: "spsc_step capacity g ?s2 ?s3" by (rule spsc_step.push_store) simp
  have e: "?s3 = s\<lparr>buffer := rb, pushed := pushed s @ take (n * g) xs\<rparr>" using assms(1,3) by (auto simp: Push_def Let_def)
  show ?thesis unfolding e [symmetric]
    by (rule converse_rtranclp_into_rtranclp [OF 1 converse_rtranclp_into_rtranclp [OF 2 r_into_rtranclp [of "spsc_step capacity g", OF 3]]])
qed

lemma pop_uninterrupted:
  assumes "consumer s = C_idle" "Pop capacity g max_slots (buffer s) = (out, rb)"
  shows "(spsc_step capacity g)\<^sup>*\<^sup>* s (s\<lparr>buffer := rb, popped := popped s @ out\<rparr>)"
proof -
  let ?r = "m_read_index (buffer s)" and ?c = "min (unat (Size (buffer s))) max_slots"
  let ?s1 = "s\<lparr>consumer := C_loaded ?r ?c\<rparr>"
  let ?s2 = "?s1\<lparr>consumer := C_copied ?r ?c (copy_out capacity g ?r ?c (m_data (buffer ?s1)))\<rparr>"
  let ?s3 = "?s2\<lparr>buffer := (buffer ?s2)\<lparr>m_read_index := ?r + of_nat ?c\<rparr>, consumer := C_idle, popped := popped ?s2 @ copy_out capacity g ?r ?c (m_data (buffer s))\<rparr>"
  have 1: "spsc_step capacity g s ?s1" using assms(1) by (rule spsc_step.pop_load)
  have 2: "spsc_step capacity g ?s1 ?s2" by (rule spsc_step.pop_copy) simp
  have 3: "spsc_step capacity g ?s2 ?s3" by (rule spsc_step.pop_store) simp
  have e: "?s3 = s\<lparr>buffer := rb, popped := popped s @ out\<rparr>" using assms by (auto simp: Pop_def Let_def)
  show ?thesis unfolding e [symmetric]
    by (rule converse_rtranclp_into_rtranclp [OF 1 converse_rtranclp_into_rtranclp [OF 2 r_into_rtranclp [of "spsc_step capacity g", OF 3]]])
qed

definition spsc_inv :: "nat \<Rightarrow> nat \<Rightarrow> 'a spsc \<Rightarrow> bool" where
  "spsc_inv capacity g s \<longleftrightarrow> rb_inv capacity g (buffer s) \<and> pushed s = popped s @ contents capacity g (buffer s)
     \<and> (case producer s of P_idle \<Rightarrow> True
        | P_loaded xs w c \<Rightarrow> w = m_write_index (buffer s) \<and> c * g \<le> length xs \<and> unat (Size (buffer s)) + c \<le> capacity
        | P_copied ys w c \<Rightarrow> w = m_write_index (buffer s) \<and> unat (Size (buffer s)) + c \<le> capacity \<and> ys = region capacity g w c (m_data (buffer s)))
     \<and> (case consumer s of C_idle \<Rightarrow> True
        | C_loaded r c \<Rightarrow> r = m_read_index (buffer s) \<and> c \<le> unat (Size (buffer s))
        | C_copied r c out \<Rightarrow> r = m_read_index (buffer s) \<and> c \<le> unat (Size (buffer s)) \<and> out = region capacity g r c (m_data (buffer s)))"

text \<open>What a step does to the abstract queue: nothing, a block added at the end within the capacity, or a block taken from the front.\<close>

definition fifo_step :: "nat \<Rightarrow> 'a list \<times> 'a list \<times> 'a list \<Rightarrow> 'a list \<times> 'a list \<times> 'a list \<Rightarrow> bool" where
  "fifo_step limit a b \<longleftrightarrow> (case (a, b) of ((ins, q, outs), (ins', q', outs')) \<Rightarrow>
       (ins' = ins \<and> q' = q \<and> outs' = outs)
     \<or> (\<exists>ys. ins' = ins @ ys \<and> q' = q @ ys \<and> outs' = outs \<and> length q' \<le> limit)
     \<or> (\<exists>ys. ins' = ins \<and> q = ys @ q' \<and> outs' = outs @ ys))"

definition abs_fifo :: "nat \<Rightarrow> nat \<Rightarrow> 'a spsc \<Rightarrow> 'a list \<times> 'a list \<times> 'a list" where
  "abs_fifo capacity g s = (pushed s, contents capacity g (buffer s), popped s)"

lemma Size_popped:
  assumes "c \<le> unat (Size rb)"
  shows "unat (m_write_index rb - (m_read_index rb + of_nat c)) = unat (Size rb) - c"
proof -
  have e: "m_write_index rb - (m_read_index rb + of_nat c) = Size rb - of_nat c" by (simp add: Size_def)
  have "unat (of_nat c :: u64) = c" using assms unat_lt64 [of "Size rb"] by (simp add: unat_of_nat)
  then show ?thesis unfolding e using assms by (simp add: unat_sub word_le_nat_alt)
qed

lemma region_take:
  assumes "capacity = 2 ^ k" "k < 63" "c \<le> n"
  shows "region capacity g i n data = region capacity g i c data @ region capacity g (i + of_nat c) (n - c) data"
  using region_split [OF assms(1,2), of g i c "n - c"] assms(3) by simp

lemma spsc_copied:
  assumes inv: "spsc_inv capacity g s" and p: "producer s = P_loaded xs w c"
  defines "d \<equiv> copy_in capacity g w c xs (m_data (buffer s))"
  shows "length d = capacity * g" "region capacity g w c d = take (c * g) xs"
    "n \<le> unat (Size (buffer s)) \<Longrightarrow> region capacity g (m_read_index (buffer s)) n d = region capacity g (m_read_index (buffer s)) n (m_data (buffer s))"
proof -
  let ?b = "buffer s"
  obtain k where k: "capacity = 2 ^ k" "k < 63" "0 < capacity" "0 < g" "length (m_data ?b) = capacity * g" "unat (Size ?b) \<le> capacity"
    using inv rb_invD [of capacity g ?b] unfolding spsc_inv_def by metis
  have P: "w = m_write_index ?b" "c * g \<le> length xs" "unat (Size ?b) + c \<le> capacity" using inv p by (simp_all add: spsc_inv_def)
  have c: "c \<le> capacity" using P(3) by simp
  show "length d = capacity * g" "region capacity g w c d = take (c * g) xs"
    unfolding d_def using copy_in_length [OF k(3-5) c P(2)] copy_in_written [OF k(3-5) c P(2)] by simp_all
  show "region capacity g (m_read_index ?b) n d = region capacity g (m_read_index ?b) n (m_data ?b)" if "n \<le> unat (Size ?b)"
  proof -
    have "region capacity g (m_read_index ?b) (unat (Size ?b)) d = region capacity g (m_read_index ?b) (unat (Size ?b)) (m_data ?b)"
      using copy_in_before [OF k(1,2,4,5) P(3,2), of "m_read_index ?b"] by (simp add: d_def P(1) write_index_eq)
    then show ?thesis unfolding region_take [OF k(1,2) that] by simp
  qed
qed

lemma spsc_step_refines:
  assumes "spsc_step capacity g s s'" "spsc_inv capacity g s"
  shows "spsc_inv capacity g s' \<and> fifo_step (capacity * g) (abs_fifo capacity g s) (abs_fifo capacity g s')"
proof -
  let ?b = "buffer s"
  obtain k where k: "capacity = 2 ^ k" "k < 63" "0 < capacity" "0 < g" "length (m_data ?b) = capacity * g" "unat (Size ?b) \<le> capacity"
    using assms(2) rb_invD [of capacity g ?b] unfolding spsc_inv_def by metis
  have inv: "rb_inv capacity g ?b" "pushed s = popped s @ contents capacity g ?b" using assms(2) by (simp_all add: spsc_inv_def)
  from assms(1) show ?thesis
  proof cases
    case (push_load slot_count xs)
    have "min slot_count (capacity - unat (Size ?b)) * g \<le> length xs" using push_load(3) by (meson le_trans min.cobounded1 mult_le_mono1)
    then show ?thesis using assms(2) push_load slots_free_eq [OF inv(1)] k(6) by (auto simp: spsc_inv_def fifo_step_def abs_fifo_def split: consumer.splits)
  next
    case (push_copy xs w c)
    note C = spsc_copied [OF assms(2) push_copy(2)]
    show ?thesis using assms(2) push_copy C(1,2) C(3) [OF order.refl] C(3) k
      by (auto simp: spsc_inv_def fifo_step_def abs_fifo_def contents_def Size_def rb_inv_def split: consumer.splits)
  next
    case (push_store ys w c)
    have P: "w = m_write_index ?b" "unat (Size ?b) + c \<le> capacity" "ys = region capacity g w c (m_data ?b)"
      using assms(2) push_store(2) by (simp_all add: spsc_inv_def)
    let ?b' = "?b\<lparr>m_write_index := w + of_nat c\<rparr>"
    have s: "unat (Size ?b') = unat (Size ?b) + c" using Size_pushed [OF inv(1) P(2)] by (simp add: Size_def P(1))
    have q: "contents capacity g ?b' = contents capacity g ?b @ ys"
      unfolding contents_def s using region_split [OF k(1,2), of g "m_read_index ?b" "unat (Size ?b)" c "m_data ?b"]
      by (simp add: write_index_eq P(1,3))
    have "length (contents capacity g ?b') \<le> capacity * g" unfolding contents_def length_region s using P(2) by simp
    then show ?thesis using assms(2) push_store q s P(2) k
      by (auto simp: spsc_inv_def fifo_step_def abs_fifo_def rb_inv_def split: consumer.splits)
  next
    case (pop_load max_slots)
    then show ?thesis using assms(2) by (auto simp: spsc_inv_def fifo_step_def abs_fifo_def split: producer.splits)
  next
    case (pop_copy r c)
    then show ?thesis using assms(2) copy_out_region [OF k(3-5), of c r] k(6)
      by (auto simp: spsc_inv_def fifo_step_def abs_fifo_def split: producer.splits)
  next
    case (pop_store r c out)
    have C: "r = m_read_index ?b" "c \<le> unat (Size ?b)" "out = region capacity g r c (m_data ?b)"
      using assms(2) pop_store(2) by (simp_all add: spsc_inv_def)
    let ?b' = "?b\<lparr>m_read_index := r + of_nat c\<rparr>"
    have s: "unat (Size ?b') = unat (Size ?b) - c" using Size_popped [OF C(2)] by (simp add: Size_def C(1))
    have q: "contents capacity g ?b = out @ contents capacity g ?b'"
      unfolding contents_def s using region_take [OF k(1,2) C(2), of g "m_read_index ?b" "m_data ?b"] by (simp add: C(1,3))
    then show ?thesis using assms(2) pop_store s k
      by (auto simp: spsc_inv_def fifo_step_def abs_fifo_def rb_inv_def split: producer.splits)
  qed
qed

definition spsc_start :: "nat \<Rightarrow> 'a list \<Rightarrow> 'a spsc" where
  "spsc_start i data = \<lparr>buffer = \<lparr>m_read_index = of_nat i, m_write_index = of_nat i, m_data = data\<rparr>, producer = P_idle, consumer = C_idle, pushed = [], popped = []\<rparr>"

text \<open>
  C24: With one thread pushing and another one popping, in any interleaving of their loads, copies and stores and across the wrap-around of
  the indices, the ring buffer behaves like a bounded queue: every step adds a block at the end, within the capacity, or takes a block from the
  front, or changes nothing, and what was popped followed by what is held is what was pushed.
\<close>
theorem spsc_refines_fifo:
  assumes "capacity = 2 ^ k" "k < 63" "0 < g" "length data = capacity * g" "(spsc_step capacity g)\<^sup>*\<^sup>* (spsc_start i data) s" "spsc_step capacity g s s'"
  shows "fifo_step (capacity * g) (abs_fifo capacity g s) (abs_fifo capacity g s') \<and> pushed s' = popped s' @ contents capacity g (buffer s')"
proof -
  have "spsc_inv capacity g (spsc_start i data)"
    using assms(1-4) by (auto simp: spsc_inv_def spsc_start_def rb_inv_def Size_def contents_def region_def)
  with assms(5) have "spsc_inv capacity g s" by (induction rule: rtranclp_induct) (auto dest: spsc_step_refines)
  then show ?thesis using spsc_step_refines [OF assms(6)] by (simp add: spsc_inv_def)
qed

theorem spsc_refines_fifo_witness:
  "\<exists>s'. spsc_step 2 1 (spsc_start 5 [0, 0 :: nat]) s' \<and> pushed s' = popped s' @ contents 2 1 (buffer s')"
proof -
  have s: "spsc_step 2 1 (spsc_start 5 [0, 0 :: nat]) ((spsc_start 5 [0, 0])\<lparr>consumer := C_loaded (m_read_index (buffer (spsc_start 5 [0, 0 :: nat])))
      (min (unat (Size (buffer (spsc_start 5 [0, 0 :: nat])))) 1)\<rparr>)"
    by (rule spsc_step.pop_load) (simp add: spsc_start_def)
  have "fifo_step (2 * 1) (abs_fifo 2 1 (spsc_start 5 [0, 0 :: nat])) (abs_fifo 2 1 s') \<and> pushed s' = popped s' @ contents 2 1 (buffer s')"
    if "spsc_step 2 1 (spsc_start 5 [0, 0 :: nat]) s'" for s'
    by (rule spsc_refines_fifo [of 2 1 1 "[0, 0]" 5, OF _ _ _ _ _ that]) simp_all
  then show ?thesis using s by blast
qed

end
