(* ===== verification/Param_Package.thy ===== *)
theory Param_Package
  imports String_Util "HOL-Library.Char_ord" "HOL-Library.List_Lexorder"
begin

text \<open>
  \<^verbatim>\<open>common/param_package.cpp\<close>: maps from strings to strings and their serialization, in which the characters that separate keys, values and
  parameters are escaped. A \<^verbatim>\<open>std::map\<close> is a list of pairs ordered by key. The conversions from and to \<^verbatim>\<open>float\<close> are not modelled.
\<close>

section \<open>Operations\<close>

type_synonym ParamPackage = "(string \<times> string) list"

definition KEY_VALUE_SEPARATOR :: char where
  "KEY_VALUE_SEPARATOR = CHR '':''"

definition PARAM_SEPARATOR :: char where
  "PARAM_SEPARATOR = CHR '',''"

definition ESCAPE_CHARACTER :: char where
  "ESCAPE_CHARACTER = CHR ''$''"

definition KEY_VALUE_SEPARATOR_ESCAPE :: string where
  "KEY_VALUE_SEPARATOR_ESCAPE = ''$0''"

definition PARAM_SEPARATOR_ESCAPE :: string where
  "PARAM_SEPARATOR_ESCAPE = ''$1''"

definition ESCAPE_CHARACTER_ESCAPE :: string where
  "ESCAPE_CHARACTER_ESCAPE = ''$2''"

definition EMPTY_PLACEHOLDER :: string where
  "EMPTY_PLACEHOLDER = ''[empty]''"

lemmas separators = KEY_VALUE_SEPARATOR_def PARAM_SEPARATOR_def ESCAPE_CHARACTER_def KEY_VALUE_SEPARATOR_ESCAPE_def PARAM_SEPARATOR_ESCAPE_def
  ESCAPE_CHARACTER_ESCAPE_def

fun insert_or_assign :: "string \<Rightarrow> string \<Rightarrow> ParamPackage \<Rightarrow> ParamPackage" where
  "insert_or_assign k v [] = [(k, v)]"
| "insert_or_assign k v ((k', v') # d) =
     (if k < k' then (k, v) # (k', v') # d else if k = k' then (k, v) # d else (k', v') # insert_or_assign k v d)"

definition Param_Set :: "string \<Rightarrow> string \<Rightarrow> ParamPackage \<Rightarrow> ParamPackage" where
  "Param_Set key value d = insert_or_assign key value d"

definition Param_Get :: "string \<Rightarrow> string \<Rightarrow> ParamPackage \<Rightarrow> string" where
  "Param_Get key default_value d = (case map_of d key of None \<Rightarrow> default_value | Some v \<Rightarrow> v)"

definition Param_Get_int :: "string \<Rightarrow> int \<Rightarrow> ParamPackage \<Rightarrow> int" where
  "Param_Get_int key default_value d =
     (case map_of d key of None \<Rightarrow> default_value | Some v \<Rightarrow> (case stoi 10 v of None \<Rightarrow> default_value | Some n \<Rightarrow> n))"

definition Has :: "string \<Rightarrow> ParamPackage \<Rightarrow> bool" where
  "Has key d \<longleftrightarrow> map_of d key \<noteq> None"

definition Erase :: "string \<Rightarrow> ParamPackage \<Rightarrow> ParamPackage" where
  "Erase key d = filter (\<lambda>(k, _). k \<noteq> key) d"

definition Param_Clear :: "ParamPackage \<Rightarrow> ParamPackage" where
  "Param_Clear d = []"

definition escape_part :: "string \<Rightarrow> string run" where
  "escape_part part = do {
     part \<leftarrow> ReplaceAll part [ESCAPE_CHARACTER] ESCAPE_CHARACTER_ESCAPE;
     part \<leftarrow> ReplaceAll part [PARAM_SEPARATOR] PARAM_SEPARATOR_ESCAPE;
     ReplaceAll part [KEY_VALUE_SEPARATOR] KEY_VALUE_SEPARATOR_ESCAPE
   }"

definition unescape_part :: "string \<Rightarrow> string run" where
  "unescape_part part = do {
     part \<leftarrow> ReplaceAll part KEY_VALUE_SEPARATOR_ESCAPE [KEY_VALUE_SEPARATOR];
     part \<leftarrow> ReplaceAll part PARAM_SEPARATOR_ESCAPE [PARAM_SEPARATOR];
     ReplaceAll part ESCAPE_CHARACTER_ESCAPE [ESCAPE_CHARACTER]
   }"

fun serialize_pairs :: "ParamPackage \<Rightarrow> string run" where
  "serialize_pairs [] = Some []"
| "serialize_pairs ((k, v) # d) = do {
     k \<leftarrow> escape_part k;
     v \<leftarrow> escape_part v;
     r \<leftarrow> serialize_pairs d;
     Some (k @ [KEY_VALUE_SEPARATOR] @ v @ [PARAM_SEPARATOR] @ r)
   }"

definition Serialize :: "ParamPackage \<Rightarrow> string run" where
  "Serialize d = (if d = [] then Some EMPTY_PLACEHOLDER else map_option butlast (serialize_pairs d))"

fun parse_pairs :: "string list \<Rightarrow> ParamPackage \<Rightarrow> ParamPackage run" where
  "parse_pairs [] d = Some d"
| "parse_pairs (pair # pairs) d =
     (case SplitString pair KEY_VALUE_SEPARATOR of
        [k, v] \<Rightarrow> do {
          k \<leftarrow> unescape_part k;
          v \<leftarrow> unescape_part v;
          parse_pairs pairs (Param_Set k v d) }
      | _ \<Rightarrow> parse_pairs pairs d)"

definition ParamPackage_of :: "string \<Rightarrow> ParamPackage run" where
  "ParamPackage_of serialized =
     (if serialized = EMPTY_PLACEHOLDER then Some [] else parse_pairs (SplitString serialized PARAM_SEPARATOR) [])"

section \<open>Escaping\<close>

definition esc :: "char \<Rightarrow> string" where
  "esc c = (if c = CHR ''$'' then ''$2'' else if c = CHR '','' then ''$1'' else if c = CHR '':'' then ''$0'' else [c])"

lemma escape_part_eq: "escape_part s = Some (concat (map esc s))"
proof -
  have "replace_pass '':'' ''$0'' (replace_pass '','' ''$1'' (replace_pass ''$'' ''$2'' s)) = concat (map esc s)"
    by (induction s) (simp_all add: replace_char esc_def)
  then show ?thesis by (simp add: escape_part_def separators ReplaceAll_pass)
qed

text \<open>Undoing the escapes one after the other.\<close>

lemma pass_step:
  "replace_pass [a, b] dest (c # s) =
     (if c = a \<and> s \<noteq> [] \<and> hd s = b then dest @ replace_pass [a, b] dest (tl s) else c # replace_pass [a, b] dest s)"
  by (subst replace_pass.simps) (cases s; auto simp: starts_with_def)

lemma pass_nil: "replace_pass src dest [] = []"
  by (simp add: replace_pass.simps)

lemma unescape_escaped: "unescape_part (concat (map esc s)) = Some s"
proof -
  let ?e1 = "\<lambda>c. if c = CHR '':'' then [c] else esc c" and ?e2 = "\<lambda>c. if c = CHR '':'' \<or> c = CHR '','' then [c] else esc c"
  have 1: "replace_pass ''$0'' '':'' (concat (map esc s)) = concat (map ?e1 s)"
    by (induction s) (auto simp: esc_def pass_step pass_nil)
  have 2: "replace_pass ''$1'' '','' (concat (map ?e1 s)) = concat (map ?e2 s)"
    by (induction s) (auto simp: esc_def pass_step pass_nil)
  have 3: "replace_pass ''$2'' ''$'' (concat (map ?e2 s)) = s"
    by (induction s) (auto simp: esc_def pass_step pass_nil)
  show ?thesis by (simp add: unescape_part_def separators ReplaceAll_pass 1 2 3)
qed

section \<open>Round trip\<close>

definition pp_inv :: "ParamPackage \<Rightarrow> bool" where
  "pp_inv d \<longleftrightarrow> sorted_wrt (<) (map fst d)"

lemma insert_last: "\<forall>x \<in> set (map fst d). x < k \<Longrightarrow> insert_or_assign k v d = d @ [(k, v)]"
  by (induction d) (auto dest: less_not_sym)

lemma map_of_insert: "pp_inv d \<Longrightarrow> map_of (insert_or_assign k v d) = (map_of d)(k \<mapsto> v)"
  by (induction k v d rule: insert_or_assign.induct) (auto simp: pp_inv_def fun_eq_iff)

lemma keys_insert: "set (map fst (insert_or_assign k v d)) = insert k (set (map fst d))"
  by (induction k v d rule: insert_or_assign.induct) auto

lemma pp_inv_Set: "pp_inv d \<Longrightarrow> pp_inv (Param_Set k v d)"
proof -
  have "pp_inv d \<Longrightarrow> pp_inv (insert_or_assign k v d)"
  proof (induction k v d rule: insert_or_assign.induct)
    case (2 k v k' v' d)
    have "\<forall>x \<in> set (map fst (insert_or_assign k v d)). k' < x" if "\<not> k < k'" "k \<noteq> k'"
      using that 2(2) unfolding keys_insert by (auto simp: pp_inv_def)
    then show ?case using 2 by (auto simp: pp_inv_def)
  qed (simp add: pp_inv_def)
  then show "pp_inv d \<Longrightarrow> pp_inv (Param_Set k v d)" by (simp add: Param_Set_def)
qed

definition pair_text :: "string \<times> string \<Rightarrow> string" where
  "pair_text = (\<lambda>(k, v). concat (map esc k) @ CHR '':'' # concat (map esc v))"

lemma esc_safe: "CHR '':'' \<notin> set (concat (map esc s))" "CHR '','' \<notin> set (concat (map esc s))"
  by (auto simp: esc_def split: if_splits)

lemma esc_empty: "concat (map esc s) = [] \<longleftrightarrow> s = []"
  by (cases s) (auto simp: esc_def)

lemma serialize_pairs_eq: "serialize_pairs d = Some (concat (map (\<lambda>p. pair_text p @ '','') d))"
  by (induction d rule: serialize_pairs.induct) (simp_all add: escape_part_eq pair_text_def separators)

lemma SplitString_first: "d \<notin> set x \<Longrightarrow> SplitString (x @ d # r) d = x # SplitString r d"
  by (subst SplitString.simps) (auto simp: takeWhile_append dropWhile_append)

lemma SplitString_last:
  assumes "d \<notin> set x" "x \<noteq> []"
  shows "SplitString x d = [x]"
proof -
  have t: "takeWhile (\<lambda>c. c \<noteq> d) x = x" using assms(1) by (auto simp: takeWhile_eq_all_conv)
  have d: "dropWhile (\<lambda>c. c \<noteq> d) x = []" using assms(1) unfolding dropWhile_eq_Nil_conv by auto
  have e: "SplitString [] d = []" by (simp add: SplitString.simps)
  show ?thesis using assms(2) by (simp only: SplitString.simps [of x d] t d list.sel(2) e if_False)
qed

lemma split_params:
  assumes "d \<noteq> []"
  shows "SplitString (butlast (concat (map (\<lambda>p. pair_text p @ '','') d))) CHR '','' = map pair_text d"
  using assms
proof (induction d)
  case (Cons p d)
  have safe: "CHR '','' \<notin> set (pair_text p)" "pair_text p \<noteq> []" using esc_safe by (auto simp: pair_text_def split: prod.splits)
  show ?case
  proof (cases "d = []")
    case True
    then show ?thesis using SplitString_last [OF safe] by simp
  next
    case False
    then have "concat (map (\<lambda>p. pair_text p @ '','') d) \<noteq> []" by (cases d) simp_all
    then show ?thesis using Cons.IH [OF False] SplitString_first [OF safe(1)] by (simp add: butlast_append)
  qed
qed simp

lemma split_pair:
  assumes "v \<noteq> []"
  shows "SplitString (pair_text (k, v)) CHR '':'' = [concat (map esc k), concat (map esc v)]"
proof -
  have n: "concat (map esc v) \<noteq> []" unfolding esc_empty by (rule assms)
  show ?thesis by (simp only: pair_text_def prod.case SplitString_first [OF esc_safe(1)] SplitString_last [OF esc_safe(1) n])
qed

lemma pair_text_sep: "CHR '':'' \<in> set (pair_text p)"
  by (cases p) (simp add: pair_text_def)

lemma parse_texts:
  assumes "\<forall>(k, v) \<in> set d. v \<noteq> []" "pp_inv (d0 @ d)"
  shows "parse_pairs (map pair_text d) d0 = Some (d0 @ d)"
  using assms
proof (induction d arbitrary: d0)
  case (Cons p d)
  obtain k v where p: "p = (k, v)" by (cases p)
  have "\<forall>x \<in> set (map fst d0). x < k" using Cons.prems(2) by (auto simp: pp_inv_def sorted_wrt_append p)
  then have "Param_Set k v d0 = d0 @ [(k, v)]" by (simp add: Param_Set_def insert_last)
  moreover have "SplitString (pair_text p) KEY_VALUE_SEPARATOR = [concat (map esc k), concat (map esc v)]"
    using split_pair [of v k] Cons.prems(1) by (simp add: p separators)
  ultimately show ?case using Cons.IH [of "d0 @ [(k, v)]"] Cons.prems by (simp add: unescape_escaped p)
qed simp

text \<open>
  C27: Serializing a parameter package always succeeds, and reading the text back gives the same package, whatever characters its keys and
  values hold, separators and escapes included, if no value is empty.
\<close>
theorem ParamPackage_roundtrip:
  assumes "pp_inv d" "\<forall>(k, v) \<in> set d. v \<noteq> []"
  shows "\<exists>s. Serialize d = Some s \<and> ParamPackage_of s = Some d"
proof (cases "d = []")
  case True
  then show ?thesis by (simp add: Serialize_def ParamPackage_of_def)
next
  case False
  let ?s = "butlast (concat (map (\<lambda>p. pair_text p @ '','') d))"
  have split: "SplitString ?s CHR '','' = map pair_text d" using split_params [OF False] .
  have "SplitString ''[empty]'' CHR '','' = [''[empty]'']" by (rule SplitString_last) simp_all
  moreover have "pair_text p \<noteq> ''[empty]''" for p
  proof
    assume "pair_text p = ''[empty]''"
    then show False using pair_text_sep [of p] by simp
  qed
  ultimately have "?s \<noteq> ''[empty]''" using split False by (metis list.exhaust list.inject list.simps(9))
  then have "ParamPackage_of ?s = Some d"
    using parse_texts [OF assms(2), of "[]"] assms(1) split by (simp add: ParamPackage_of_def EMPTY_PLACEHOLDER_def separators)
  then show ?thesis using False by (simp add: Serialize_def serialize_pairs_eq)
qed

theorem ParamPackage_roundtrip_witness:
  "\<exists>s. Serialize [(''a:b'', ''$0,''), (''engine'', ''keyboard'')] = Some s \<and> ParamPackage_of s = Some [(''a:b'', ''$0,''), (''engine'', ''keyboard'')]"
  by (rule ParamPackage_roundtrip) (simp_all add: pp_inv_def less_char_def)

text \<open>An empty value is lost: the part behind the last separator is not a part of its own.\<close>

theorem empty_value_lost: "Serialize [(''code'', [])] = Some ''code:''" "ParamPackage_of ''code:'' = Some []"
  by (simp_all add: Serialize_def serialize_pairs_eq pair_text_def esc_def ParamPackage_of_def EMPTY_PLACEHOLDER_def separators SplitString.simps)

end
