(* ===== verification/Arm_Support.thy ===== *)
theory Arm_Support
  imports Prelude
begin

text \<open>
  The arithmetic of the ARM interpreter, \<^verbatim>\<open>core/arm/skyeye_common/armsupp.cpp\<close>: addition with flags, overflow tests on sign bits and
  saturating operations, each shown equal to its definition over the integers.
\<close>

section \<open>Operations\<close>

definition POS :: "u32 \<Rightarrow> bool" where
  "POS i \<longleftrightarrow> drop_bit 31 (NOT i) \<noteq> 0"

definition NEG :: "u32 \<Rightarrow> bool" where
  "NEG i \<longleftrightarrow> drop_bit 31 i \<noteq> 0"

definition ARMul_UnsignedAbsoluteDifference :: "u8 \<Rightarrow> u8 \<Rightarrow> u8" where
  "ARMul_UnsignedAbsoluteDifference left right = (if left > right then left - right else right - left)"

text \<open>The result, the carry and the overflow; the sums are of 64 bits.\<close>

definition AddWithCarry :: "u32 \<Rightarrow> u32 \<Rightarrow> u32 \<Rightarrow> u32 \<times> bool \<times> bool" where
  "AddWithCarry left right carry_in =
     (let unsigned_sum = ucast left + ucast right + ucast carry_in :: u64;
          signed_sum = scast left + scast right + ucast carry_in :: u64;
          result = unsigned_sum AND 0xFFFFFFFF
      in (ucast result, result \<noteq> unsigned_sum, scast (ucast result :: u32) \<noteq> signed_sum))"

definition AddOverflow :: "u32 \<Rightarrow> u32 \<Rightarrow> u32 \<Rightarrow> bool" where
  "AddOverflow a b result \<longleftrightarrow> (NEG a \<and> NEG b \<and> POS result) \<or> (POS a \<and> POS b \<and> NEG result)"

definition SubOverflow :: "u32 \<Rightarrow> u32 \<Rightarrow> u32 \<Rightarrow> bool" where
  "SubOverflow a b result \<longleftrightarrow> (NEG a \<and> POS b \<and> POS result) \<or> (POS a \<and> NEG b \<and> NEG result)"

definition ARMul_AddOverflowQ :: "u32 \<Rightarrow> u32 \<Rightarrow> bool" where
  "ARMul_AddOverflowQ a b = (let result = a + b in (result XOR a) AND 0x80000000 \<noteq> 0 \<and> (a XOR b) AND 0x80000000 = 0)"

definition ARMul_SignedSaturatedAdd8 :: "u8 \<Rightarrow> u8 \<Rightarrow> u8" where
  "ARMul_SignedSaturatedAdd8 left right =
     (let result = left + right
      in if (result XOR left) AND 0x80 \<noteq> 0 \<and> (left XOR right) AND 0x80 = 0 then (if left AND 0x80 \<noteq> 0 then 0x80 else 0x7F) else result)"

definition ARMul_SignedSaturatedSub8 :: "u8 \<Rightarrow> u8 \<Rightarrow> u8" where
  "ARMul_SignedSaturatedSub8 left right =
     (let result = left - right
      in if (result XOR left) AND 0x80 \<noteq> 0 \<and> (left XOR right) AND 0x80 \<noteq> 0 then (if left AND 0x80 \<noteq> 0 then 0x80 else 0x7F) else result)"

definition ARMul_SignedSaturatedAdd16 :: "u16 \<Rightarrow> u16 \<Rightarrow> u16" where
  "ARMul_SignedSaturatedAdd16 left right =
     (let result = left + right
      in if (result XOR left) AND 0x8000 \<noteq> 0 \<and> (left XOR right) AND 0x8000 = 0 then (if left AND 0x8000 \<noteq> 0 then 0x8000 else 0x7FFF) else result)"

definition ARMul_SignedSaturatedSub16 :: "u16 \<Rightarrow> u16 \<Rightarrow> u16" where
  "ARMul_SignedSaturatedSub16 left right =
     (let result = left - right
      in if (result XOR left) AND 0x8000 \<noteq> 0 \<and> (left XOR right) AND 0x8000 \<noteq> 0 then (if left AND 0x8000 \<noteq> 0 then 0x8000 else 0x7FFF) else result)"

definition ARMul_UnsignedSaturatedAdd8 :: "u8 \<Rightarrow> u8 \<Rightarrow> u8" where
  "ARMul_UnsignedSaturatedAdd8 left right = (let result = left + right in if result < left then 0xFF else result)"

definition ARMul_UnsignedSaturatedAdd16 :: "u16 \<Rightarrow> u16 \<Rightarrow> u16" where
  "ARMul_UnsignedSaturatedAdd16 left right = (let result = left + right in if result < left then 0xFFFF else result)"

definition ARMul_UnsignedSaturatedSub8 :: "u8 \<Rightarrow> u8 \<Rightarrow> u8" where
  "ARMul_UnsignedSaturatedSub8 left right = (if left \<le> right then 0 else left - right)"

definition ARMul_UnsignedSaturatedSub16 :: "u16 \<Rightarrow> u16 \<Rightarrow> u16" where
  "ARMul_UnsignedSaturatedSub16 left right = (if left \<le> right then 0 else left - right)"

text \<open>\<^verbatim>\<open>value\<close> is an \<^verbatim>\<open>s32\<close>; \<^verbatim>\<open>>>\<close> on it is the arithmetic shift.\<close>

definition ARMul_SignedSatQ :: "u32 \<Rightarrow> nat \<Rightarrow> u32 \<times> bool" where
  "ARMul_SignedSatQ value shift =
     (let max = push_bit shift 1 - 1; top = drop_bit shift (sint value)
      in if top > 0 then (max, True) else if top < - 1 then (NOT max, True) else (value, False))"

definition ARMul_UnsignedSatQ :: "u32 \<Rightarrow> nat \<Rightarrow> u32 \<times> bool" where
  "ARMul_UnsignedSatQ value shift =
     (let max = push_bit shift 1 - 1
      in if sint value < 0 then (0, True) else if value > max then (max, True) else (value, False))"

section \<open>Sign bits and sums\<close>

definition half :: "nat \<Rightarrow> int" where
  "half w = 2 ^ (w - 1)"

text \<open>A number brought into the range of a signed word.\<close>

definition clamp :: "nat \<Rightarrow> int \<Rightarrow> int" where
  "clamp w x = (if x < - half w then - half w else if x \<ge> half w then half w - 1 else x)"

lemma sint_range: "- half (LENGTH('a)) \<le> sint (x :: 'a::len word)" "sint (x :: 'a::len word) < half (LENGTH('a))"
  using sint_ge [of x] sint_lt [of x] by (simp_all add: half_def)

lemma signed_wrap:
  assumes "- 2 * half w \<le> x" "x < 2 * half w" "0 < w"
  shows "signed_take_bit (w - 1) x = (if x < - half w then x + 2 * half w else if x \<ge> half w then x - 2 * half w else x)"
proof -
  have s: "signed_take_bit (w - 1) x = (x + half w) mod (2 * half w) - half w"
    using assms(3) by (simp add: signed_take_bit_eq_take_bit_shift take_bit_eq_mod half_def power_Suc [symmetric] del: power_Suc)
  have h: "0 < half w" by (simp add: half_def)
  consider "x < - half w" | "- half w \<le> x \<and> x < half w" | "x \<ge> half w" by linarith
  then show ?thesis
  proof cases
    case 1
    have "(x + half w) mod (2 * half w) = (x + half w + 2 * half w) mod (2 * half w)" by (rule mod_add_self2 [symmetric])
    also have "\<dots> = x + half w + 2 * half w" using 1 assms by (intro mod_pos_pos_trivial) auto
    finally show ?thesis using 1 s h by simp
  next
    case 2
    then have "(x + half w) mod (2 * half w) = x + half w" by (intro mod_pos_pos_trivial) auto
    then show ?thesis using 2 s by simp
  next
    case 3
    have "x + half w = x - half w + 2 * half w" by simp
    then have "(x + half w) mod (2 * half w) = (x - half w) mod (2 * half w)" by (simp only: mod_add_self2)
    also have "\<dots> = x - half w" using 3 assms(2) by (intro mod_pos_pos_trivial) auto
    finally show ?thesis using 3 s h by simp
  qed
qed

lemma sint_sum:
  fixes a b :: "'a::len word"
  shows "sint (a + b) = (let x = sint a + sint b; h = half LENGTH('a) in if x < - h then x + 2 * h else if x \<ge> h then x - 2 * h else x)"
    and "sint (a - b) = (let x = sint a - sint b; h = half LENGTH('a) in if x < - h then x + 2 * h else if x \<ge> h then x - 2 * h else x)"
proof -
  note R = sint_range [of a] sint_range [of b]
  have w: "0 < LENGTH('a)" by simp
  show "sint (a + b) = (let x = sint a + sint b; h = half LENGTH('a) in if x < - h then x + 2 * h else if x \<ge> h then x - 2 * h else x)"
    unfolding sint_word_ariths(1) using signed_wrap [OF _ _ w, of "sint a + sint b"] R by (simp add: Let_def)
  show "sint (a - b) = (let x = sint a - sint b; h = half LENGTH('a) in if x < - h then x + 2 * h else if x \<ge> h then x - 2 * h else x)"
    unfolding sint_word_ariths(2) using signed_wrap [OF _ _ w, of "sint a - sint b"] R by (simp add: Let_def)
qed

lemma sign_iff:
  fixes x :: "'a::len word"
  shows "(x AND push_bit (LENGTH('a) - 1) 1) \<noteq> 0 \<longleftrightarrow> sint x < 0"
proof -
  have "sint x < 0 \<longleftrightarrow> bit x (LENGTH('a) - 1)" using bit_last_iff [of x] by simp
  then show ?thesis by (simp add: and_exp_eq_0_iff_not_bit)
qed

lemma sign_xor: "sint (x XOR y :: 'a::len word) < 0 \<longleftrightarrow> (sint x < 0) \<noteq> (sint y < 0)"
  by (simp add: bit_last_iff [symmetric] bit_simps)

lemma sign_masks:
  "(x AND 0x80 \<noteq> 0) \<longleftrightarrow> sint x < 0" "(y AND 0x8000 \<noteq> 0) \<longleftrightarrow> sint y < 0" "(z AND 0x80000000 \<noteq> 0) \<longleftrightarrow> sint z < 0"
  for x :: u8 and y :: u16 and z :: u32
  using sign_iff [of x] sign_iff [of y] sign_iff [of z] by simp_all

lemma sign_masks0:
  "(x AND 0x80 = 0) \<longleftrightarrow> \<not> sint x < 0" "(y AND 0x8000 = 0) \<longleftrightarrow> \<not> sint y < 0" "(z AND 0x80000000 = 0) \<longleftrightarrow> \<not> sint z < 0"
  for x :: u8 and y :: u16 and z :: u32
  using sign_masks by blast+

lemma NEG_iff: "NEG x \<longleftrightarrow> sint x < 0" "POS x \<longleftrightarrow> 0 \<le> sint x"
proof -
  have "drop_bit 31 y = (of_bool (bit y 31) :: u32)" for y :: u32
  proof (rule bit_word_eqI)
    fix n show "bit (drop_bit 31 y) n = bit (of_bool (bit y 31) :: u32) n"
      using bit_imp_le_length [of y "31 + n"] by (cases n) (auto simp: bit_simps)
  qed
  then have d: "drop_bit 31 y \<noteq> 0 \<longleftrightarrow> bit y 31" for y :: u32 by simp
  have "bit x 31 \<longleftrightarrow> sint x < 0" using bit_last_iff [of x] by simp
  then show "NEG x \<longleftrightarrow> sint x < 0" "POS x \<longleftrightarrow> 0 \<le> sint x" by (auto simp: NEG_def POS_def d bit_simps)
qed

section \<open>Addition with flags\<close>

lemma wide_sum:
  fixes l r c :: u32
  shows "unat (ucast l + ucast r + ucast c :: u64) = unat l + unat r + unat c"
proof -
  have "unat l < 2 ^ 32" "unat r < 2 ^ 32" "unat c < 2 ^ 32"
    using unsigned_less [of l, where ?'a = nat] unsigned_less [of r, where ?'a = nat] unsigned_less [of c, where ?'a = nat] by simp_all
  then show ?thesis by (simp add: unat_word_ariths(1) unsigned_ucast_eq take_bit_nat_eq_self)
qed

lemma low_word: "unat (x AND 0xFFFFFFFF :: u64) = unat x mod 2 ^ 32"
proof -
  have "(0xFFFFFFFF :: u64) = mask 32" by (simp add: mask_eq_exp_minus_1)
  then have "unat (x AND 0xFFFFFFFF :: u64) = take_bit 32 (unat x)" by (simp only: take_bit_eq_mask [symmetric] unsigned_take_bit_eq)
  then show ?thesis by (simp only: take_bit_eq_mod)
qed

lemma narrow_sum: "unat (l + r + c) = (unat l + unat r + unat c) mod 2 ^ 32" for l r c :: u32
  by (simp add: unat_word_ariths(1) mod_add_left_eq)

lemma AddWithCarry_result: "fst (AddWithCarry l r c) = l + r + c" "fst (snd (AddWithCarry l r c)) \<longleftrightarrow> unat l + unat r + unat c \<ge> 2 ^ 32"
proof -
  let ?s = "ucast l + ucast r + ucast c :: u64"
  have "unat (ucast (?s AND 0xFFFFFFFF) :: u32) = unat (?s AND 0xFFFFFFFF)"
    by (simp add: unsigned_ucast_eq take_bit_nat_eq_self low_word)
  also have "\<dots> = unat (l + r + c)" by (simp only: low_word wide_sum narrow_sum)
  finally have "ucast (?s AND 0xFFFFFFFF) = l + r + c" by (simp add: word_unat_eq_iff)
  then show "fst (AddWithCarry l r c) = l + r + c" by (simp add: AddWithCarry_def Let_def)
  have "?s AND 0xFFFFFFFF \<noteq> ?s \<longleftrightarrow> (unat l + unat r + unat c) mod 2 ^ 32 \<noteq> unat l + unat r + unat c"
    by (simp only: word_unat_eq_iff low_word wide_sum)
  also have "\<dots> \<longleftrightarrow> unat l + unat r + unat c \<ge> 2 ^ 32" by (metis mod_less mod_less_divisor not_le zero_less_numeral zero_less_power)
  finally show "fst (snd (AddWithCarry l r c)) \<longleftrightarrow> unat l + unat r + unat c \<ge> 2 ^ 32" by (simp add: AddWithCarry_def Let_def)
qed

lemma word64_inj: "(word_of_int a :: u64) = word_of_int b \<longleftrightarrow> a = b" if "\<bar>a\<bar> < 2 ^ 63" "\<bar>b\<bar> < 2 ^ 63"
proof -
  have "sint (word_of_int x :: u64) = x" if "\<bar>x\<bar> < 2 ^ 63" for x
    unfolding sint_sbintrunc' using that by (simp add: signed_take_bit_int_eq_self_iff abs_less_iff)
  then show ?thesis using that by metis
qed

lemma AddWithCarry_overflow:
  "snd (snd (AddWithCarry l r c)) \<longleftrightarrow> sint l + sint r + uint c \<notin> {- (2 ^ 31) ..< 2 ^ 31}"
proof -
  let ?S = "sint l + sint r + uint c"
  note R = sint_range [of l] sint_range [of r] sint_range [of "l + r + c"] unsigned_less [of c, where ?'a = int] unsigned_greater_eq [of c, where ?'a = int]
  have "sint l < 2147483648" "- 2147483648 \<le> sint l" "sint r < 2147483648" "- 2147483648 \<le> sint r" "uint c < 4294967296"
      "sint (l + r + c) < 2147483648" "- 2147483648 \<le> sint (l + r + c)"
    using R by (simp_all add: half_def)
  then have "\<bar>sint (l + r + c)\<bar> < 9223372036854775808" "\<bar>?S\<bar> < 9223372036854775808" using unsigned_greater_eq [of c, where ?'a = int] by linarith+
  then have b: "\<bar>sint (l + r + c)\<bar> < 2 ^ 63" "\<bar>?S\<bar> < 2 ^ 63" by simp_all
  have "l + r + c = word_of_int ?S" by simp
  then have s: "sint (l + r + c) = signed_take_bit 31 ?S" using sint_sbintrunc' [where bin = ?S and 'a = 32] by simp
  have "snd (snd (AddWithCarry l r c)) \<longleftrightarrow> scast (l + r + c) \<noteq> (scast l + scast r + ucast c :: u64)"
    using AddWithCarry_result(1) [of l r c] by (simp add: AddWithCarry_def Let_def)
  also have "\<dots> \<longleftrightarrow> (word_of_int (sint (l + r + c)) :: u64) \<noteq> word_of_int ?S" unfolding scast_eq ucast_eq by simp
  also have "\<dots> \<longleftrightarrow> sint (l + r + c) \<noteq> ?S" by (simp only: word64_inj [OF b])
  also have "\<dots> \<longleftrightarrow> \<not> (- (2 ^ 31) \<le> ?S \<and> ?S < 2 ^ 31)" unfolding s by (simp add: signed_take_bit_int_eq_self_iff)
  finally show ?thesis by simp
qed

lemma overflow_tests:
  "AddOverflow a b (a + b) \<longleftrightarrow> sint a + sint b \<notin> {- (2 ^ 31) ..< 2 ^ 31}"
  "SubOverflow a b (a - b) \<longleftrightarrow> sint a - sint b \<notin> {- (2 ^ 31) ..< 2 ^ 31}"
  "ARMul_AddOverflowQ a b \<longleftrightarrow> sint a + sint b \<notin> {- (2 ^ 31) ..< 2 ^ 31}"
  using sint_range [of a] sint_range [of b]
  by (auto simp: AddOverflow_def SubOverflow_def ARMul_AddOverflowQ_def NEG_iff sint_sum half_def Let_def sign_masks sign_masks0 sign_xor)

lemma signed_saturation:
  "sint (ARMul_SignedSaturatedAdd8 l r) = clamp 8 (sint l + sint r)" "sint (ARMul_SignedSaturatedSub8 l r) = clamp 8 (sint l - sint r)"
  "sint (ARMul_SignedSaturatedAdd16 l' r') = clamp 16 (sint l' + sint r')" "sint (ARMul_SignedSaturatedSub16 l' r') = clamp 16 (sint l' - sint r')"
  using sint_range [of l] sint_range [of r] sint_range [of l'] sint_range [of r']
  by (auto simp: ARMul_SignedSaturatedAdd8_def ARMul_SignedSaturatedSub8_def ARMul_SignedSaturatedAdd16_def ARMul_SignedSaturatedSub16_def
      sint_sum half_def clamp_def Let_def sign_masks sign_masks0 sign_xor)

lemma unsigned_sum:
  fixes a b :: "'a::len word"
  shows "a + b < a \<longleftrightarrow> unat a + unat b \<ge> 2 ^ LENGTH('a)" "unat a + unat b < 2 ^ LENGTH('a) \<Longrightarrow> unat (a + b) = unat a + unat b"
proof -
  have R: "unat a < 2 ^ LENGTH('a)" "unat b < 2 ^ LENGTH('a)"
    using unsigned_less [of a, where ?'a = nat] unsigned_less [of b, where ?'a = nat] by simp_all
  have s: "unat (a + b) = (if unat a + unat b < 2 ^ LENGTH('a) then unat a + unat b else unat a + unat b - 2 ^ LENGTH('a))"
  proof (cases "unat a + unat b < 2 ^ LENGTH('a)")
    case False
    then have "unat a + unat b - 2 ^ LENGTH('a) < 2 ^ LENGTH('a)" using R by linarith
    then show ?thesis unfolding unat_word_ariths(1) using False by (simp add: le_mod_geq)
  qed (simp add: unat_word_ariths(1))
  show "a + b < a \<longleftrightarrow> unat a + unat b \<ge> 2 ^ LENGTH('a)"
    unfolding word_less_nat_alt s using R by (cases "unat a + unat b < 2 ^ LENGTH('a)") (simp, simp only: if_False, linarith)
  show "unat (a + b) = unat a + unat b" if "unat a + unat b < 2 ^ LENGTH('a)" using s that by simp
qed

lemma unsigned_saturation:
  "unat (ARMul_UnsignedSaturatedAdd8 l r) = min 255 (unat l + unat r)" "unat (ARMul_UnsignedSaturatedSub8 l r) = unat l - unat r"
  "unat (ARMul_UnsignedSaturatedAdd16 l' r') = min 65535 (unat l' + unat r')" "unat (ARMul_UnsignedSaturatedSub16 l' r') = unat l' - unat r'"
  "unat (ARMul_UnsignedAbsoluteDifference l r) = max (unat l) (unat r) - min (unat l) (unat r)"
proof -
  show "unat (ARMul_UnsignedSaturatedAdd8 l r) = min 255 (unat l + unat r)"
    using unsigned_sum [of l r] by (auto simp: ARMul_UnsignedSaturatedAdd8_def Let_def)
  show "unat (ARMul_UnsignedSaturatedAdd16 l' r') = min 65535 (unat l' + unat r')"
    using unsigned_sum [of l' r'] by (auto simp: ARMul_UnsignedSaturatedAdd16_def Let_def)
  show "unat (ARMul_UnsignedSaturatedSub8 l r) = unat l - unat r" "unat (ARMul_UnsignedSaturatedSub16 l' r') = unat l' - unat r'"
    by (simp_all add: ARMul_UnsignedSaturatedSub8_def ARMul_UnsignedSaturatedSub16_def word_le_nat_alt unat_sub)
  show "unat (ARMul_UnsignedAbsoluteDifference l r) = max (unat l) (unat r) - min (unat l) (unat r)"
    by (auto simp: ARMul_UnsignedAbsoluteDifference_def word_less_nat_alt word_le_nat_alt unat_sub max_def min_def)
qed

lemma sint_nonneg:
  fixes v :: u32
  assumes "0 \<le> sint v"
  shows "sint v = int (unat v)"
proof -
  have r: "uint v < 2 * half 32" "0 \<le> uint v" using unsigned_less [of v, where ?'a = int] by (simp_all add: half_def)
  have h: "half 32 = 2147483648" by (simp add: half_def)
  have "sint v = signed_take_bit (32 - 1) (uint v)" using sint_uint [of v] by simp
  also have "\<dots> = (if uint v < - half 32 then uint v + 2 * half 32 else if uint v \<ge> half 32 then uint v - 2 * half 32 else uint v)"
    by (rule signed_wrap) (use r h in linarith)+
  finally have "sint v = uint v" using assms r h by (simp only: split: if_splits; linarith)
  then show ?thesis by simp
qed

lemma sat_max:
  assumes "shift < 31"
  shows "sint (push_bit shift 1 - 1 :: u32) = 2 ^ shift - 1" "sint (NOT (push_bit shift 1 - 1) :: u32) = - (2 ^ shift)" "unat (push_bit shift 1 - 1 :: u32) = 2 ^ shift - 1"
proof -
  have p: "(1 :: int) \<le> 2 ^ shift" "(2 :: int) ^ shift < 2147483648" using power_strict_increasing [OF assms, of "2 :: int"] by simp_all
  have w: "(push_bit shift 1 - 1 :: u32) = word_of_int (2 ^ shift - 1)" "(NOT (push_bit shift 1 - 1) :: u32) = word_of_int (- (2 ^ shift))"
    by (simp_all add: push_bit_eq_mult not_eq_complement)
  have "- 2147483648 \<le> (2 :: int) ^ shift - 1" using p(1) by linarith
  then show m: "sint (push_bit shift 1 - 1 :: u32) = 2 ^ shift - 1" unfolding w(1) sint_sbintrunc' using p(2) by (simp add: signed_take_bit_int_eq_self_iff)
  have "- (2 ^ shift) < (2147483648 :: int)" "- 2147483648 \<le> - ((2 :: int) ^ shift)" using p by linarith+
  then show "sint (NOT (push_bit shift 1 - 1) :: u32) = - (2 ^ shift)" unfolding w(2) sint_sbintrunc' by (simp add: signed_take_bit_int_eq_self_iff)
  have "int (unat (push_bit shift 1 - 1 :: u32)) = int (2 ^ shift - 1)" using sint_nonneg [of "push_bit shift 1 - 1"] p(1) unfolding m by (simp add: of_nat_diff)
  then show "unat (push_bit shift 1 - 1 :: u32) = 2 ^ shift - 1" by linarith
qed

lemma div_below:
  fixes a n :: int
  assumes "0 < n"
  shows "a div n < - 1 \<longleftrightarrow> a < - n"
proof -
  have a: "a = n * (a div n) + a mod n" "0 \<le> a mod n" "a mod n < n" using assms by simp_all
  show ?thesis
  proof
    assume "a div n < - 1"
    then have "n * (a div n) \<le> n * (- 2)" using assms by (intro mult_left_mono) simp_all
    then show "a < - n" using a by linarith
  next
    assume "a < - n"
    show "a div n < - 1"
    proof (rule ccontr)
      assume "\<not> a div n < - 1"
      then have "n * (- 1) \<le> n * (a div n)" using assms by (intro mult_left_mono) simp_all
      then show False using a \<open>a < - n\<close> by linarith
    qed
  qed
qed

lemma SatQ_spec:
  assumes "shift < 31"
  shows "ARMul_SignedSatQ v shift = (r, q) \<Longrightarrow> sint r = clamp (shift + 1) (sint v) \<and> (q \<longleftrightarrow> sint r \<noteq> sint v)"
    and "ARMul_UnsignedSatQ v shift = (r, q) \<Longrightarrow> sint r = max 0 (min (2 ^ shift - 1) (sint v)) \<and> (q \<longleftrightarrow> sint r \<noteq> sint v)"
proof -
  note M = sat_max [OF assms]
  have p: "(1 :: int) \<le> 2 ^ shift" by simp
  have d: "drop_bit shift (sint v) > 0 \<longleftrightarrow> sint v \<ge> 2 ^ shift" "drop_bit shift (sint v) < - 1 \<longleftrightarrow> sint v < - (2 ^ shift)"
    using div_below [of "2 ^ shift" "sint v"] by (simp_all add: drop_bit_eq_div pos_imp_zdiv_pos_iff)
  show "sint r = clamp (shift + 1) (sint v) \<and> (q \<longleftrightarrow> sint r \<noteq> sint v)" if "ARMul_SignedSatQ v shift = (r, q)"
    using that M(1,2) d p by (auto simp: ARMul_SignedSatQ_def Let_def clamp_def half_def split: if_splits)
  let ?m = "push_bit shift 1 - 1 :: u32"
  have g: "v > ?m \<longleftrightarrow> sint v > 2 ^ shift - 1" if "0 \<le> sint v"
  proof -
    have "v > ?m \<longleftrightarrow> int (unat v) > int (2 ^ shift - 1)" unfolding word_less_nat_alt M(3) by linarith
    then show ?thesis using sint_nonneg [OF that] by (simp add: of_nat_diff)
  qed
  show "sint r = max 0 (min (2 ^ shift - 1) (sint v)) \<and> (q \<longleftrightarrow> sint r \<noteq> sint v)" if u: "ARMul_UnsignedSatQ v shift = (r, q)"
  proof (cases "sint v < 0")
    case True
    then show ?thesis using u by (auto simp: ARMul_UnsignedSatQ_def Let_def)
  next
    case False
    then have "(r, q) = (if sint v > 2 ^ shift - 1 then (?m, True) else (v, False))" using u g unfolding ARMul_UnsignedSatQ_def Let_def by simp
    then show ?thesis using False M(1) by (cases "sint v > 2 ^ shift - 1") auto
  qed
qed

text \<open>
  C25: The arithmetic of the interpreter equals its definition over the integers: an addition with carry gives the sum modulo \<open>2\<^sup>3\<^sup>2\<close>, its carry
  tells that the unsigned sum does not fit and its overflow that the signed sum does not; the tests on sign bits tell the same of sums and
  differences; the saturating operations give the nearest representable number, and the saturations to a number of bits also whether it differs.
\<close>
theorem arm_arithmetic:
  fixes l r c :: u32 and a b :: u8 and x y :: u16
  shows "AddWithCarry l r c = (l + r + c, unat l + unat r + unat c \<ge> 2 ^ 32, sint l + sint r + uint c \<notin> {- (2 ^ 31) ..< 2 ^ 31})
    \<and> AddOverflow l r (l + r) = (sint l + sint r \<notin> {- (2 ^ 31) ..< 2 ^ 31}) \<and> SubOverflow l r (l - r) = (sint l - sint r \<notin> {- (2 ^ 31) ..< 2 ^ 31})
    \<and> ARMul_AddOverflowQ l r = (sint l + sint r \<notin> {- (2 ^ 31) ..< 2 ^ 31})
    \<and> sint (ARMul_SignedSaturatedAdd8 a b) = clamp 8 (sint a + sint b) \<and> sint (ARMul_SignedSaturatedSub8 a b) = clamp 8 (sint a - sint b)
    \<and> sint (ARMul_SignedSaturatedAdd16 x y) = clamp 16 (sint x + sint y) \<and> sint (ARMul_SignedSaturatedSub16 x y) = clamp 16 (sint x - sint y)
    \<and> unat (ARMul_UnsignedSaturatedAdd8 a b) = min 255 (unat a + unat b) \<and> unat (ARMul_UnsignedSaturatedSub8 a b) = unat a - unat b
    \<and> unat (ARMul_UnsignedSaturatedAdd16 x y) = min 65535 (unat x + unat y) \<and> unat (ARMul_UnsignedSaturatedSub16 x y) = unat x - unat y
    \<and> (shift < 31 \<longrightarrow> sint (fst (ARMul_SignedSatQ l shift)) = clamp (shift + 1) (sint l)
        \<and> snd (ARMul_SignedSatQ l shift) = (clamp (shift + 1) (sint l) \<noteq> sint l)
        \<and> sint (fst (ARMul_UnsignedSatQ l shift)) = max 0 (min (2 ^ shift - 1) (sint l))
        \<and> snd (ARMul_UnsignedSatQ l shift) = (max 0 (min (2 ^ shift - 1) (sint l)) \<noteq> sint l))"
proof -
  have "AddWithCarry l r c = (l + r + c, unat l + unat r + unat c \<ge> 2 ^ 32, sint l + sint r + uint c \<notin> {- (2 ^ 31) ..< 2 ^ 31})"
    using AddWithCarry_result [of l r c] AddWithCarry_overflow [of l r c] unfolding prod_eq_iff fst_conv snd_conv by blast
  moreover have "sint (fst (ARMul_SignedSatQ l shift)) = clamp (shift + 1) (sint l)
        \<and> snd (ARMul_SignedSatQ l shift) = (clamp (shift + 1) (sint l) \<noteq> sint l)
        \<and> sint (fst (ARMul_UnsignedSatQ l shift)) = max 0 (min (2 ^ shift - 1) (sint l))
        \<and> snd (ARMul_UnsignedSatQ l shift) = (max 0 (min (2 ^ shift - 1) (sint l)) \<noteq> sint l)" if "shift < 31"
    using SatQ_spec(1) [OF that prod.collapse [symmetric], of l] SatQ_spec(2) [OF that prod.collapse [symmetric], of l] by simp
  ultimately show ?thesis using overflow_tests [of l r] signed_saturation(1,2) [of a b] signed_saturation(3,4) [of x y] unsigned_saturation(1,2) [of a b]
    unsigned_saturation(3,4) [of x y] by blast
qed

theorem arm_arithmetic_witness: "AddWithCarry 0x7FFFFFFF 1 0 = (0x80000000, False, True) \<and> sint (fst (ARMul_SignedSatQ 0x1234 7)) = 127"
  using arm_arithmetic [of "0x7FFFFFFF" 1 0] arm_arithmetic [of "0x1234" 0 0 0 0 0 0 7] by (simp add: clamp_def half_def)

end
