(* ===== verification/Aes_Keys.thy ===== *)
theory Aes_Keys
  imports String_Util
begin

text \<open>
  The 128-bit arithmetic of \<^verbatim>\<open>core/hw/aes/arithmetic128.cpp\<close> on arrays of bytes, most significant first, and the key slots of
  \<^verbatim>\<open>core/hw/aes/key.cpp\<close>. An array stands for a word of 128 bits; the operations are compared with those on words.
\<close>

section \<open>Arithmetic\<close>

type_synonym AESKey = "u8 list"

definition AES_BLOCK_SIZE :: nat where
  "AES_BLOCK_SIZE = 16"

text \<open>The operands of the shifts are promoted to \<^verbatim>\<open>int\<close>; no bit of value \<open>2\<^sup>3\<^sup>1\<close> is reached.\<close>

definition Lrot128 :: "AESKey \<Rightarrow> nat \<Rightarrow> AESKey" where
  "Lrot128 k rot =
     (let rot = rot mod 128; byte_shift = rot div 8; bit_shift = rot mod 8
      in map (\<lambda>i. let a = (i + byte_shift) mod 16; b = (i + byte_shift + 1) mod 16
                   in ucast ((push_bit bit_shift (ucast (k ! a)) OR drop_bit (8 - bit_shift) (ucast (k ! b))) AND (0xFF :: u32)))
             [0 ..< 16])"

text \<open>The loops from the last byte to the first, with the bytes in that order.\<close>

fun add_bytes :: "u32 \<Rightarrow> u8 list \<Rightarrow> u8 list \<Rightarrow> u8 list" where
  "add_bytes carry (a # as) (b # bs) =
     (let sm = ucast a + ucast b + carry :: u32 in ucast (sm AND 0xFF) # add_bytes (drop_bit 8 sm) as bs)"
| "add_bytes carry _ _ = []"

definition Add128 :: "AESKey \<Rightarrow> AESKey \<Rightarrow> AESKey" where
  "Add128 a b = rev (add_bytes 0 (rev a) (rev b))"

definition Add128_u64 :: "AESKey \<Rightarrow> u64 \<Rightarrow> AESKey" where
  "Add128_u64 a b = take 8 a @ rev (add_bytes 0 (rev (drop 8 a)) (map (\<lambda>j. ucast (drop_bit (8 * j) b AND 0xFF)) [0 ..< 8]))"

definition Xor128 :: "AESKey \<Rightarrow> AESKey \<Rightarrow> AESKey" where
  "Xor128 a b = map2 (XOR) a b"

section \<open>Key slots\<close>

definition generator_constant :: AESKey where
  "generator_constant = [0x1F, 0xF9, 0xE9, 0xAA, 0xC5, 0xFE, 0x04, 0x08, 0x02, 0x45, 0x91, 0xDC, 0x5D, 0x52, 0x76, 0x8A]"

record KeySlot =
  key_x :: "AESKey option"
  key_y :: "AESKey option"
  normal :: "AESKey option"

definition GenerateNormalKey :: "KeySlot \<Rightarrow> KeySlot" where
  "GenerateNormalKey s = s\<lparr>normal := (case (key_x s, key_y s) of
       (Some x, Some y) \<Rightarrow> Some (Lrot128 (Add128 (Xor128 (Lrot128 x 2) y) generator_constant) 87)
     | _ \<Rightarrow> None)\<rparr>"

definition KeySlot_SetKeyX :: "AESKey option \<Rightarrow> KeySlot \<Rightarrow> KeySlot" where
  "KeySlot_SetKeyX key s = GenerateNormalKey (s\<lparr>key_x := key\<rparr>)"

definition KeySlot_SetKeyY :: "AESKey option \<Rightarrow> KeySlot \<Rightarrow> KeySlot" where
  "KeySlot_SetKeyY key s = GenerateNormalKey (s\<lparr>key_y := key\<rparr>)"

definition KeySlot_SetNormalKey :: "AESKey option \<Rightarrow> KeySlot \<Rightarrow> KeySlot" where
  "KeySlot_SetNormalKey key s = s\<lparr>normal := key\<rparr>"

definition KeySlot_Clear :: "KeySlot \<Rightarrow> KeySlot" where
  "KeySlot_Clear s = s\<lparr>key_x := None, key_y := None, normal := None\<rparr>"

record Keys =
  key_slots :: "KeySlot list"
  common_key_y_slots :: "AESKey option list"

definition TicketCommonKey :: nat where
  "TicketCommonKey = 0x3D"

text \<open>\<^verbatim>\<open>std::array::at\<close> throws out of range.\<close>

definition upd_slot :: "nat \<Rightarrow> (KeySlot \<Rightarrow> KeySlot) \<Rightarrow> Keys \<Rightarrow> Keys run" where
  "upd_slot slot_id f ks =
     (if slot_id < length (key_slots ks) then Some (ks\<lparr>key_slots := (key_slots ks)[slot_id := f (key_slots ks ! slot_id)]\<rparr>) else None)"

definition SetKeyX :: "nat \<Rightarrow> AESKey \<Rightarrow> Keys \<Rightarrow> Keys run" where
  "SetKeyX slot_id key ks = upd_slot slot_id (KeySlot_SetKeyX (Some key)) ks"

definition SetKeyY :: "nat \<Rightarrow> AESKey \<Rightarrow> Keys \<Rightarrow> Keys run" where
  "SetKeyY slot_id key ks = upd_slot slot_id (KeySlot_SetKeyY (Some key)) ks"

definition SetNormalKey :: "nat \<Rightarrow> AESKey \<Rightarrow> Keys \<Rightarrow> Keys run" where
  "SetNormalKey slot_id key ks = upd_slot slot_id (KeySlot_SetNormalKey (Some key)) ks"

definition IsNormalKeyAvailable :: "nat \<Rightarrow> Keys \<Rightarrow> bool run" where
  "IsNormalKeyAvailable slot_id ks = (if slot_id < length (key_slots ks) then Some (normal (key_slots ks ! slot_id) \<noteq> None) else None)"

definition GetNormalKey :: "nat \<Rightarrow> Keys \<Rightarrow> AESKey run" where
  "GetNormalKey slot_id ks =
     (if slot_id < length (key_slots ks)
      then Some (case normal (key_slots ks ! slot_id) of None \<Rightarrow> replicate AES_BLOCK_SIZE 0 | Some key \<Rightarrow> key) else None)"

definition SelectCommonKeyIndex :: "nat \<Rightarrow> Keys \<Rightarrow> Keys run" where
  "SelectCommonKeyIndex index ks =
     (if index < length (common_key_y_slots ks) then upd_slot TicketCommonKey (KeySlot_SetKeyY (common_key_y_slots ks ! index)) ks else None)"

text \<open>Keys as text; \<open>None\<close> is an exception, for a text that is too short or has no number where a byte is expected.\<close>

definition hex_digit :: "nat \<Rightarrow> char" where
  "hex_digit d = ''0123456789ABCDEF'' ! d"

definition KeyToString :: "AESKey \<Rightarrow> string" where
  "KeyToString k = concat (map (\<lambda>b. [hex_digit (unat b div 16), hex_digit (unat b mod 16)]) k)"

definition HexToKey :: "string \<Rightarrow> AESKey run" where
  "HexToKey hex =
     (if length hex < 32 then None
      else those (map (\<lambda>i. map_option word_of_int (stoi 16 (take 2 (drop (i * 2) hex)))) [0 ..< AES_BLOCK_SIZE]))"

section \<open>Arrays as words\<close>

abbreviation key_word :: "AESKey \<Rightarrow> 128 word" where
  "key_word k \<equiv> word_rcat k"

lemma bit_key_word:
  assumes "length k = 16" "n < 128"
  shows "bit (key_word k) n \<longleftrightarrow> bit (k ! (15 - n div 8)) (n mod 8)"
proof -
  have "bit (key_word k) n \<longleftrightarrow> n div 8 < 16 \<and> bit (rev k ! (n div 8)) (n mod 8)"
    using assms bit_horner [of "rev k" n] by (simp add: word_rcat_def bit_simps)
  moreover have "n div 8 < 16" using assms(2) by simp
  ultimately show ?thesis using assms(1) by (simp add: rev_nth)
qed

lemma key_word_eqI:
  assumes "length k = 16" "\<And>q m. q < 16 \<Longrightarrow> m < 8 \<Longrightarrow> bit (k ! (15 - q)) m = bit w (8 * q + m)"
  shows "key_word k = w"
proof (rule bit_word_eqI)
  fix n assume "n < LENGTH(128)"
  then have n: "n < 128" by simp
  have "bit (key_word k) n = bit (k ! (15 - n div 8)) (n mod 8)" by (rule bit_key_word [OF assms(1) n])
  also have "\<dots> = bit w (8 * (n div 8) + n mod 8)" using n by (intro assms(2)) simp_all
  finally show "bit (key_word k) n = bit w n" by simp
qed

lemma bit_key_word_at: "length k = 16 \<Longrightarrow> q < 16 \<Longrightarrow> m < 8 \<Longrightarrow> bit (key_word k) (8 * q + m) = bit (k ! (15 - q)) m"
  by (subst bit_key_word) simp_all

lemma bit_rotated_byte:
  fixes a b :: u8
  assumes "m < 8" "s < 8"
  shows "bit (ucast ((push_bit s (ucast a) OR drop_bit (8 - s) (ucast b)) AND (0xFF :: u32)) :: u8) m
    \<longleftrightarrow> (if s \<le> m then bit a (m - s) else bit b (m + 8 - s))"
proof -
  have "bit (0xFF :: u32) m" using assms(1) bit_mask_iff [of 8 m, where ?'a = u32] by (simp add: mask_eq_exp_minus_1)
  then show ?thesis using assms bit_imp_le_length [of b "8 - s + m"] by (auto simp: bit_simps add.commute Nat.add_diff_assoc2)
qed

text \<open>Where a bit of the rotated word comes from.\<close>

lemma mod_shift: "x = y + n \<Longrightarrow> y < n \<Longrightarrow> x mod n = y" for n :: nat
  by simp

lemma rotation_source:
  fixes q m B s :: nat
  assumes "q < 16" "m < 8" "B < 16" "s < 8"
  defines "j \<equiv> (8 * q + m + (128 - (8 * B + s))) mod 128"
  shows "s \<le> m \<Longrightarrow> \<exists>x < 16. j = 8 * x + (m - s) \<and> 15 - x = (15 - q + B) mod 16"
    and "\<not> s \<le> m \<Longrightarrow> \<exists>x < 16. j = 8 * x + (m + 8 - s) \<and> 15 - x = (15 - q + B + 1) mod 16"
proof -
  show "\<exists>x < 16. j = 8 * x + (m - s) \<and> 15 - x = (15 - q + B) mod 16" if "s \<le> m"
  proof (cases "B \<le> q")
    case True
    have "j = 8 * (q - B) + (m - s)" unfolding j_def by (rule mod_shift) (use that True assms(1-4) in linarith)+
    moreover have "(15 - q + B) mod 16 = 15 - (q - B)" using True assms(1) by simp
    ultimately show ?thesis using assms(1) by (intro exI [where x = "q - B"]) simp
  next
    case False
    have "j = 8 * (16 + q - B) + (m - s)" unfolding j_def by (subst mod_less) (use that False assms(1-4) in linarith)+
    moreover have "(15 - q + B) mod 16 = 15 - (16 + q - B)" by (rule mod_shift) (use False assms(1,3) in linarith)+
    ultimately show ?thesis using False by (intro exI [where x = "16 + q - B"]) simp
  qed
  show "\<exists>x < 16. j = 8 * x + (m + 8 - s) \<and> 15 - x = (15 - q + B + 1) mod 16" if "\<not> s \<le> m"
  proof (cases "B + 1 \<le> q")
    case True
    have "j = 8 * (q - B - 1) + (m + 8 - s)" unfolding j_def by (rule mod_shift) (use that True assms(1-4) in linarith)+
    moreover have "(15 - q + B + 1) mod 16 = 15 - (q - B - 1)" using True assms(1) by simp
    ultimately show ?thesis using assms(1) by (intro exI [where x = "q - B - 1"]) simp
  next
    case False
    have "j = 8 * (16 + q - B - 1) + (m + 8 - s)" unfolding j_def by (subst mod_less) (use that False assms(1-4) in linarith)+
    moreover have "(15 - q + B + 1) mod 16 = 15 - (16 + q - B - 1)" by (rule mod_shift) (use False assms(1,3) in linarith)+
    ultimately show ?thesis using False by (intro exI [where x = "16 + q - B - 1"]) simp
  qed
qed

lemma length_Lrot128 [simp]: "length (Lrot128 k r) = 16"
  by (simp add: Lrot128_def Let_def)

lemma Lrot128_rotl:
  assumes "length k = 16"
  shows "key_word (Lrot128 k r) = word_rotl r (key_word k)"
proof (rule key_word_eqI)
  fix q m :: nat assume qm: "q < 16" "m < 8"
  let ?r = "r mod 128" and ?B = "r mod 128 div 8" and ?s = "r mod 128 mod 8"
  have B: "?B < 16" "?s < 8" "8 * ?B + ?s = ?r" by (simp_all add: less_mult_imp_div_less)
  have r: "bit (word_rotl r (key_word k)) (8 * q + m) = bit (key_word k) ((8 * q + m + (128 - (8 * ?B + ?s))) mod 128)"
    using qm by (simp add: bit_word_rotl_iff B(3))
  have l: "bit (Lrot128 k r ! (15 - q)) m \<longleftrightarrow> (if ?s \<le> m then bit (k ! ((15 - q + ?B) mod 16)) (m - ?s) else bit (k ! ((15 - q + ?B + 1) mod 16)) (m + 8 - ?s))"
    using qm bit_rotated_byte [OF qm(2) B(2)] by (simp add: Lrot128_def Let_def)
  show "bit (Lrot128 k r ! (15 - q)) m = bit (word_rotl r (key_word k)) (8 * q + m)"
  proof (cases "?s \<le> m")
    case True
    then obtain x where "x < 16" "(8 * q + m + (128 - (8 * ?B + ?s))) mod 128 = 8 * x + (m - ?s)" "15 - x = (15 - q + ?B) mod 16"
      using rotation_source(1) [OF qm B(1,2)] by blast
    moreover have "m - ?s < 8" using qm by linarith
    ultimately show ?thesis unfolding l r using True bit_key_word_at [OF assms, of x "m - ?s"] by metis
  next
    case False
    then obtain x where "x < 16" "(8 * q + m + (128 - (8 * ?B + ?s))) mod 128 = 8 * x + (m + 8 - ?s)" "15 - x = (15 - q + ?B + 1) mod 16"
      using rotation_source(2) [OF qm B(1,2)] by blast
    moreover have "m + 8 - ?s < 8" using False by linarith
    ultimately show ?thesis unfolding l r using False bit_key_word_at [OF assms, of x "m + 8 - ?s"] by metis
  qed
qed simp

lemma Xor128_xor:
  assumes "length a = 16" "length b = 16"
  shows "key_word (Xor128 a b) = key_word a XOR key_word b" "length (Xor128 a b) = 16"
proof -
  show l: "length (Xor128 a b) = 16" using assms by (simp add: Xor128_def)
  show "key_word (Xor128 a b) = key_word a XOR key_word b"
    by (rule key_word_eqI [OF l]) (use assms in \<open>simp add: Xor128_def bit_key_word_at bit_simps\<close>)
qed

section \<open>Addition\<close>

definition le_val :: "u8 list \<Rightarrow> nat" where
  "le_val ws = horner_sum unat 256 ws"

lemma le_val_simps [simp]: "le_val [] = 0" "le_val (w # ws) = unat w + 256 * le_val ws"
  by (simp_all add: le_val_def)

lemma key_word_val: "key_word k = of_nat (le_val (rev k))"
proof -
  have "horner_sum uint (2 ^ 8) ws = int (le_val ws)" for ws :: "u8 list" by (induction ws) simp_all
  then show ?thesis by (simp add: word_rcat_def)
qed

lemma u8_lt: "unat (a :: u8) < 256"
  using unsigned_less [of a, where ?'a = nat] by simp

lemma unat_drop: "unat (drop_bit n w) = drop_bit n (unat w)" for w :: "'a::len word"
  using unsigned_less [of w, where ?'a = nat] by (simp add: unsigned_drop_bit_eq take_bit_nat_eq_self)

lemma byte_sum:
  fixes a b :: u8 and c :: u32
  assumes "unat c \<le> 1"
  defines "sm \<equiv> ucast a + ucast b + c :: u32"
  shows "unat sm = unat a + unat b + unat c" "unat (ucast (sm AND 0xFF) :: u8) = unat sm mod 256" "unat (drop_bit 8 sm) = unat sm div 256"
proof -
  have lt: "unat a + unat b + unat c < 2 ^ 32" using u8_lt [of a] u8_lt [of b] assms(1) by simp
  have "unat (ucast a :: u32) = unat a" "unat (ucast b :: u32) = unat b"
    using u8_lt [of a] u8_lt [of b] by (simp_all add: unsigned_ucast_eq take_bit_nat_eq_self)
  moreover have "unat sm = (unat (ucast a :: u32) + unat (ucast b :: u32) + unat c) mod 2 ^ 32"
    unfolding sm_def by (simp add: unat_word_ariths(1) mod_add_left_eq)
  ultimately show "unat sm = unat a + unat b + unat c" using lt by simp
  have "sm AND 0xFF = take_bit 8 sm" by (simp add: take_bit_eq_mask mask_eq_exp_minus_1)
  then have "unat (sm AND 0xFF) = take_bit 8 (unat sm)" by (simp only: unsigned_take_bit_eq)
  then have "unat (sm AND 0xFF) = unat sm mod 256" by (simp add: take_bit_eq_mod)
  then show "unat (ucast (sm AND 0xFF) :: u8) = unat sm mod 256" by (simp add: unsigned_ucast_eq take_bit_eq_mod)
  show "unat (drop_bit 8 sm) = unat sm div 256" using unat_drop [of 8 sm] by (simp add: drop_bit_eq_div)
qed

lemma length_add_bytes: "length as = length bs \<Longrightarrow> length (add_bytes c as bs) = length as"
  by (induction c as bs rule: add_bytes.induct) (simp_all add: Let_def)

lemma digit_mod: "x mod 256 + 256 * ((t + x div 256) mod n) = (x + 256 * t) mod (256 * n)" for x t n :: nat
proof -
  have "(x + 256 * t) div 256 = t + x div 256" "(x + 256 * t) mod 256 = x mod 256" by simp_all
  then show ?thesis unfolding mod_mult2_eq [of _ 256 n] by simp
qed

lemma add_bytes_val:
  assumes "length as = length bs" "unat c \<le> 1"
  shows "le_val (add_bytes c as bs) = (le_val as + le_val bs + unat c) mod 256 ^ length as"
  using assms
proof (induction c as bs rule: add_bytes.induct)
  case (1 c a as b bs)
  let ?s = "ucast a + ucast b + c :: u32"
  let ?t = "le_val as + le_val bs + unat ?s div 256" and ?n = "256 ^ length as"
  note S = byte_sum [OF "1.prems"(2), of a b]
  have c: "unat (drop_bit 8 ?s) \<le> 1" using S u8_lt [of a] u8_lt [of b] "1.prems"(2) by simp
  have "le_val (add_bytes c (a # as) (b # bs)) = unat ?s mod 256 + 256 * (?t mod ?n)"
    using "1.IH" [OF refl _ c] "1.prems"(1) S by (simp add: Let_def)
  also have "\<dots> = (unat ?s + 256 * (le_val as + le_val bs)) mod (256 * ?n)" by (rule digit_mod)
  finally show ?case using S(1) by (simp add: algebra_simps)
qed simp_all

lemma Add128_add:
  assumes "length a = 16" "length b = 16"
  shows "key_word (Add128 a b) = key_word a + key_word b" "length (Add128 a b) = 16"
proof -
  have v: "le_val (add_bytes 0 (rev a) (rev b)) = (le_val (rev a) + le_val (rev b)) mod 2 ^ 128"
    using add_bytes_val [of "rev a" "rev b" 0] assms by simp
  have "of_nat (x mod 2 ^ 128) = (of_nat x :: 128 word)" for x :: nat
    by (simp add: word_of_nat_eq_iff take_bit_eq_mod)
  then show "key_word (Add128 a b) = key_word a + key_word b" by (simp add: key_word_val Add128_def v)
  show "length (Add128 a b) = 16" using assms by (simp add: Add128_def length_add_bytes)
qed

text \<open>The addition of a 64-bit number stops at the eighth byte: its carry is lost.\<close>

lemma le_val_append: "le_val (xs @ ys) = le_val xs + 256 ^ length xs * le_val ys"
  by (induction xs) (simp_all add: algebra_simps)

lemma le_val_bytes: "le_val (map (\<lambda>j. ucast (drop_bit (8 * j) b AND 0xFF)) [0 ..< 8]) = unat b" for b :: u64
proof -
  have byte: "unat (ucast (drop_bit (8 * j) b AND 0xFF) :: u8) = unat b div 256 ^ j mod 256" for j
  proof -
    have "drop_bit (8 * j) b AND 0xFF = take_bit 8 (drop_bit (8 * j) b)" by (simp add: take_bit_eq_mask mask_eq_exp_minus_1)
    then have "unat (drop_bit (8 * j) b AND 0xFF) = take_bit 8 (drop_bit (8 * j) (unat b))" by (simp only: unsigned_take_bit_eq unat_drop)
    then show ?thesis by (simp add: unsigned_ucast_eq take_bit_eq_mod drop_bit_eq_div power_mult)
  qed
  have digits: "le_val (map f [0 ..< n]) = x mod 256 ^ n" if "\<And>j. unat (f j) = x div 256 ^ j mod 256" for f :: "nat \<Rightarrow> u8" and x n
  proof (induction n)
    case (Suc n)
    have "x mod 256 ^ Suc n = x mod 256 ^ n + 256 ^ n * (x div 256 ^ n mod 256)" by (simp add: mod_mult2_eq mult.commute [of 256])
    then show ?case using Suc that by (simp add: le_val_append)
  qed simp
  show ?thesis using digits [OF byte, of 8] unsigned_less [of b, where ?'a = nat] by simp
qed

lemma Add128_u64_val:
  assumes "length a = 16"
  shows "le_val (rev (Add128_u64 a b)) = (le_val (rev (drop 8 a)) + unat b) mod 2 ^ 64 + 2 ^ 64 * le_val (rev (take 8 a))"
proof -
  let ?bs = "map (\<lambda>j. ucast (drop_bit (8 * j) b AND 0xFF)) [0 ..< 8] :: u8 list"
  have l: "length (rev (drop 8 a)) = length ?bs" "length (rev (drop 8 a)) = 8" using assms by simp_all
  have v: "le_val (add_bytes 0 (rev (drop 8 a)) ?bs) = (le_val (rev (drop 8 a)) + unat b) mod 2 ^ 64"
    using add_bytes_val [OF l(1), of 0] l(2) unfolding le_val_bytes by simp
  show ?thesis unfolding Add128_u64_def rev_append rev_rev_ident le_val_append v length_add_bytes [OF l(1)] l(2) by simp
qed

theorem Add128_u64_loses_carry:
  "Add128_u64 (replicate 8 0 @ replicate 8 0xFF) 1 = replicate 16 0" "key_word (replicate 8 0 @ replicate 8 0xFF) + 1 \<noteq> key_word (replicate 16 0)"
  by code_simp+

section \<open>The key generator\<close>

text \<open>
  C26: On any two arrays of sixteen bytes the rotation, by every amount, the addition and the exclusive or are those of 128-bit words and
  give sixteen bytes again, and setting both keys of a slot makes its normal key \<open>(((X ROL 2) XOR Y) + C) ROL 87\<close> with the generator constant \<open>C\<close>; a slot with only one of them has none.
\<close>
theorem normal_key_generated:
  assumes "length x = 16" "length y = 16"
  shows "(\<forall>r. key_word (Lrot128 x r) = word_rotl r (key_word x) \<and> length (Lrot128 x r) = 16)
    \<and> key_word (Add128 x y) = key_word x + key_word y \<and> length (Add128 x y) = 16
    \<and> key_word (Xor128 x y) = key_word x XOR key_word y \<and> length (Xor128 x y) = 16
    \<and> (\<exists>k. normal (KeySlot_SetKeyY (Some y) (KeySlot_SetKeyX (Some x) s)) = Some k
      \<and> normal (KeySlot_SetKeyX (Some x) (KeySlot_SetKeyY (Some y) s)) = Some k \<and> length k = 16
      \<and> key_word k = word_rotl 87 ((word_rotl 2 (key_word x) XOR key_word y) + 0x1FF9E9AAC5FE0408024591DC5D52768A)
      \<and> normal (KeySlot_SetKeyX (Some x) (KeySlot_SetKeyY None s)) = None \<and> normal (KeySlot_SetKeyY (Some y) (KeySlot_SetKeyX None s)) = None)"
proof -
  let ?k = "Lrot128 (Add128 (Xor128 (Lrot128 x 2) y) generator_constant) 87"
  have g: "length generator_constant = 16" "key_word generator_constant = 0x1FF9E9AAC5FE0408024591DC5D52768A"
    by (simp_all add: generator_constant_def key_word_val)
  have "key_word ?k = word_rotl 87 ((word_rotl 2 (key_word x) XOR key_word y) + 0x1FF9E9AAC5FE0408024591DC5D52768A)"
    using assms by (simp only: Lrot128_rotl Add128_add Xor128_xor length_Lrot128 g)
  then show ?thesis using assms
    by (simp add: Lrot128_rotl Add128_add Xor128_xor length_Lrot128) (simp add: KeySlot_SetKeyX_def KeySlot_SetKeyY_def GenerateNormalKey_def)
qed

theorem normal_key_generated_witness:
  "\<exists>k. normal (KeySlot_SetKeyY (Some (replicate 16 0)) (KeySlot_SetKeyX (Some (replicate 16 0)) \<lparr>key_x = None, key_y = None, normal = None\<rparr>)) = Some k \<and> length k = 16"
  using normal_key_generated [of "replicate 16 0" "replicate 16 0" "\<lparr>key_x = None, key_y = None, normal = None\<rparr>"] by auto

section \<open>Keys as text\<close>

lemma hex_digit_facts: "\<forall>d \<in> set [0 ..< 16]. digit_value (hex_digit d) = Some d \<and> \<not> is_space (hex_digit d) \<and> hex_digit d \<notin> set ''+-xX''"
  by code_simp

lemma hex_byte:
  assumes "n < 256"
  shows "stoi 16 [hex_digit (n div 16), hex_digit (n mod 16)] = Some (int n)"
proof -
  let ?c = "hex_digit (n div 16)" and ?d = "hex_digit (n mod 16)"
  have c: "digit_value ?c = Some (n div 16)" "\<not> is_space ?c" "?c \<noteq> CHR ''+''" "?c \<noteq> CHR ''-''" and d: "digit_value ?d = Some (n mod 16)" "?d \<noteq> CHR ''x''" "?d \<noteq> CHR ''X''"
    using hex_digit_facts assms by (auto simp: less_mult_imp_div_less)
  have "n div 16 < 16" using assms by simp
  then have "strto 16 [?c, ?d] = Some (int n)"
    using c d by (simp add: strto_def skip_0x_def digits_def is_digit_def)
  then show ?thesis using assms by (simp add: stoi_def)
qed

lemma KeyToString_byte: "i < length k \<Longrightarrow> take 2 (drop (i * 2) (KeyToString k)) = [hex_digit (unat (k ! i) div 16), hex_digit (unat (k ! i) mod 16)]"
  by (induction k arbitrary: i) (auto simp: KeyToString_def nth_Cons split: nat.splits)

lemma length_KeyToString: "length (KeyToString k) = 2 * length k"
  by (induction k) (simp_all add: KeyToString_def)

lemma those_Some: "those (map Some xs) = Some xs"
  by (induction xs) simp_all

lemma HexToKey_KeyToString:
  assumes "length k = 16"
  shows "HexToKey (KeyToString k) = Some k"
proof -
  have "map_option word_of_int (stoi 16 (take 2 (drop (i * 2) (KeyToString k)))) = Some (k ! i)" if "i < 16" for i
    using hex_byte u8_lt [of "k ! i"] that assms by (simp add: KeyToString_byte)
  then have "map (\<lambda>i. map_option word_of_int (stoi 16 (take 2 (drop (i * 2) (KeyToString k))))) [0 ..< 16] = map Some k"
    using assms by (intro nth_equalityI) simp_all
  then show ?thesis using assms by (simp add: HexToKey_def length_KeyToString AES_BLOCK_SIZE_def those_Some)
qed

end
