(* ===== verification/Spec2Isabelle.thy ===== *)
theory Spec2Isabelle
  imports Machine Kernel_Memory Ipc_Buffers Cheat_File Ring_Buffer Param_Package Arm_Support Aes_Keys
begin

text \<open>
  A verification development for Citra, an emulator of the Nintendo 3DS. The paths below are relative to \<^verbatim>\<open>src/src\<close>.

  \<^bold>\<open>The program.\<close> Citra runs the code of a 3DS title on an ARM core and replaces the system software of the console. A system call of
  the title enters \<^verbatim>\<open>SVC::CallSVC\<close> (\<^verbatim>\<open>core/hle/kernel/svc.cpp\<close>), which takes its arguments from the registers (\<^verbatim>\<open>svc_wrapper.h\<close>) and acts on the
  objects of the emulated kernel: threads with a ready queue per core, objects threads wait for (events, mutexes, semaphores, timers,
  sessions, ports), address arbiters, handle tables, resource limits and the address space of each process. Time is counted in cycles
  by the core timing, whose events end the sleep of threads and fire timers. The address space of a process is a map of areas; every change of it
  is entered into the page table through which the memory system reads and writes host memory. Messages between processes are commands whose
  handles and buffers the kernel translates from one handle table and address space to the other. Beside the kernel the development covers the cheat engine,
  the queue between emulation and audio, the parameter packages of the input configuration and the arithmetic of the ARM interpreter.

  \<^bold>\<open>The theories, from the bottom up.\<close>
  \<^item> \<open>Prelude\<close>: fixed-width integers, \<open>None\<close> for a failed assertion, generic lemmas. \<open>Bit_Field\<close> (\<^verbatim>\<open>common/bit_field.h\<close>) and \<open>Result_Code\<close>
    (\<^verbatim>\<open>core/hle/result.h\<close>, \<^verbatim>\<open>core/hle/kernel/errors.h\<close>): packing and unpacking of fields and result codes, \<^verbatim>\<open>ResultVal\<close>.
  \<^item> \<open>Thread_Queue_List\<close> (\<^verbatim>\<open>common/thread_queue_list.h\<close>): the ready queue with its linked list of levels, as a store of links; that no
    operation follows a null pointer, what each returns, and saving and loading.
  \<^item> \<open>Handle_Table\<close> (\<^verbatim>\<open>handle_table.cpp\<close>): slots, generations and the free list; a locale states the contract of a table of revocable handles.
  \<^item> \<open>VM_Manager\<close> (\<^verbatim>\<open>vm_manager.cpp\<close>): the areas of an address space, which tile it; mapping, unmapping, reprotecting, splitting, merging.
    \<open>VM_Range\<close>: its operations on ranges, which cut areas at the ends and go through those between while areas are merged under the iterator.
  \<^item> \<open>Memory_System\<close> (\<^verbatim>\<open>core/memory.cpp\<close>, \<^verbatim>\<open>common/memory_ref.h\<close>): page tables, typed and block accesses, the regions of the console and the rasterizer
    cache. \<open>Memory_Blocks\<close>: the block transfers are byte-wise transfers to the host places of addresses. \<open>Memory_Coherence\<close>: the same
    while a renderer holds newer contents of pages than the memory and writes them back when asked. \<open>Memory_Cache\<close>: marking pages as cached is
    transparent. \<open>Address_Space\<close> (\<^verbatim>\<open>VMManager::UpdatePageTableForVMA\<close> and \<^verbatim>\<open>MapMemoryRegion\<close>, \<^verbatim>\<open>UnmapRegion\<close>): the page table mirrors the areas.
  \<^item> \<open>Core_Timing\<close> (\<^verbatim>\<open>core/core_timing.cpp\<close>): conversions and their overflow, the event queue of each core, slices and \<^verbatim>\<open>Advance\<close>.
  \<^item> \<open>Kernel_State\<close>, \<open>Wait_Object\<close>, \<open>Sync_Objects\<close>, \<open>Thread_Manager\<close>, \<open>Address_Arbiter\<close>, \<open>Sessions\<close>, \<open>Resource_Limit\<close> (the files of the
    same names under \<^verbatim>\<open>core/hle/kernel\<close>): one record \<open>Kernel\<close> for the state they share, one definition per operation, and what each operation does.
    The wake-up loop of a wait object may call back into the objects; that it ends is proved. The memory the kernel reads and writes words of is
    a place for each mapped address and the newest byte of each place; \<open>Kernel_Memory\<close> shows that these accesses are those of the memory system
    for words within a page that is not of a device.
  \<^item> \<open>Svc\<close> (the calls of \<^verbatim>\<open>svc.cpp\<close>), \<open>Svc_Abi\<close> (the derivation of registers from signatures in \<^verbatim>\<open>svc_wrapper.h\<close>), \<open>Svc_Call\<close> (the table of
    calls and \<^verbatim>\<open>CallSVC\<close>, and the machine as a step relation over calls, computing, rescheduling, passing of time, timeouts and timers).
  \<^item> \<open>Ipc_Format\<close> (\<^verbatim>\<open>core/hle/ipc.h\<close>): headers and descriptors of commands. \<open>Ipc_Translate\<close> (\<^verbatim>\<open>core/hle/kernel/ipc.cpp\<close>): the translation of a command
    between two processes, on the state of the kernel, of the memory and of the address spaces. \<open>Ipc_Buffers\<close>: what happens to the buffers of a command.
  \<^item> \<open>Kernel_Frame\<close>, \<open>Kernel_Inv\<close>, \<open>Kernel_Ops\<close>, \<open>Kernel_Life\<close>, \<open>Kernel_Sessions\<close>, \<open>System_Inv\<close>, \<open>Machine\<close>: the invariant of the whole kernel, its
    preservation by every operation and call, and what follows for every reachable state.
  \<^item> \<open>Cheat_Machine\<close>, \<open>Cheat_File\<close> (\<^verbatim>\<open>core/cheats\<close>): the interpreter of cheat codes and the text files that hold them. \<open>String_Util\<close>
    (\<^verbatim>\<open>common/string_util.cpp\<close>), \<open>Param_Package\<close> (\<^verbatim>\<open>common/param_package.cpp\<close>).
  \<^item> \<open>Ring_Buffer\<close> (\<^verbatim>\<open>common/ring_buffer.h\<close>): the queue of one producer and one consumer. \<open>Arm_Support\<close> (\<^verbatim>\<open>core/arm/skyeye_common/armsupp.cpp\<close>).
    \<open>Aes_Keys\<close> (\<^verbatim>\<open>core/hw/aes\<close>): 128-bit arithmetic on byte arrays and the key slots.

  \<^bold>\<open>State and results.\<close> Objects are numbers that index the maps of \<open>Kernel\<close>; a \<^verbatim>\<open>shared_ptr\<close> is such a number, and objects are not destroyed
  when the last reference goes. Operations pass the state on explicitly. The lock count of a
  mutex is an integer without the bound of the C++ type. \<open>None\<close> is a failed \<^verbatim>\<open>ASSERT\<close>, a null or out-of-range access, or a loop
  that does not end; an error of the emulated system is a \<open>ResultCode\<close>. Loops that may not end are \<open>partial_function (option)\<close>; no theorem
  relies on a bound on steps. Words keep their width where they wrap around; addresses and sizes are natural numbers with the wrap-around
  written out.

  \<^bold>\<open>What the theorems show.\<close>
  \<^item> The kernel as a whole (\<open>Machine\<close>, \<open>Svc_Call\<close>): in every reachable state the ready queues, waiting lists, arbiters and the status of every
    thread agree, handles refer to objects of their type, every acceptable call returns, and a thread whose timeout expires runs again. The arguments
    that are not acceptable, because the kernel does not check them, are listed at \<open>call_ok\<close>.
  \<^item> Scheduling and waiting: rescheduling chooses a best thread; signalling, releasing and connecting wake the right threads and no others.
  \<^item> Memory: block accesses equal byte-wise ones across unmapped, mapped and cached pages and see what the renderer holds of cached ones, what is written is read back, and mapping, unmapping and the rasterizer
    cache keep the page table in step with the areas, so that every address leads to the byte its area says and to nothing once it is unmapped.
  \<^item> Commands: a command with copied handles and process ids always arrives, with handles of the destination for the same objects; static buffers are copied
    to where the receiver wants them; mapped buffers show the receiver the bytes sent and nothing else of the sender, and come back with the reply.
  \<^item> The calling convention, the handle table, the address space, the timing, the ready queue and the words of commands: functional behaviour on every
    branch, bounds and round trips.
  \<^item> Cheats: execution ends, except for cheats with a loop, a condition and a full terminator, for which it may not; conditions, which read at the given address plus
    the offset register, guard exactly their block; patches copy what they should; saved cheats are loaded as they were, except that one without
    code is lost and that a comment whose last line is not ended gets its newline.
  \<^item> The ring buffer refines a bounded queue under every interleaving; parameter packages survive serialization; the ARM arithmetic equals
    its definition over the integers; normal keys are generated by the documented formula.

  \<^bold>\<open>Interfaces.\<close> Locales state the contracts of the handle table, of the ready queue, of objects to wait for and of a bounded queue, of bit fields and of pairs of disjoint
  ones (\<open>bit_field\<close>, \<open>disjoint_fields\<close>), of a change made to every area of a range (\<open>area_change\<close>, for unmapping, reprotecting and changing the state)
  of a renderer that keeps memory when it flushes (\<open>quiet_renderer\<close>) and of one that writes back what it holds (\<open>write_back_renderer\<close>); each is interpreted on the model's definitions, and the properties rest on the
  interpretations.

  \<^bold>\<open>Parameters.\<close> The HLE handlers of sessions are assumed to keep the kernel's invariant (\<open>hle_contract\<close>). The validity of addresses, the linear
  heap, named ports and strings in memory are the environment of a call. The memory a cheat reads and writes is arbitrary. The renderer and the
  memory-mapped devices are arguments of the memory operations. That block accesses are byte-wise is shown for every renderer that writes back what it
  holds (\<open>writes_back\<close>); the other theorems on memory are for no renderer or the software rasterizer. All are for ranges without devices. The address at which the host allocates a block is an argument of the translation of commands;
  that a block is not in use before is the hypothesis \<open>fresh_blocks\<close>.

  \<^bold>\<open>Not modelled.\<close> The calls on memory blocks, process memory and system information, \<^verbatim>\<open>ExitProcess\<close> and \<^verbatim>\<open>ReplyAndReceive\<close>; the
  recorder of commands and the helpers of HLE services; loading of titles; the services; reference counts and the destruction of objects; floating-point conversions. The interpreter and
  recompiler of ARM code, the graphics and audio emulation, file systems, networking, frontends and external libraries are outside this development.
\<close>

end
